(* ===== verification/Prelude.thy ===== *)
theory Prelude
  imports Main "HOL-Library.Word"
begin

text \<open>
  Vocabulary shared by every theory of the development: machine words and bytes, the
  big-endian encodings of Go's \<open>encoding/binary\<close>, the error monad that stands for Go's
  \<open>(value, error)\<close> results, the state-error monad of the operations that read a source or
  write a sink, and the generic list lemmas the component theories use.
\<close>

unbundle bit_operations_syntax

type_synonym byte = "8 word"
type_synonym u16 = "16 word"
type_synonym u32 = "32 word"
type_synonym u64 = "64 word"

named_theorems codec_simps "lengths and inverses of the byte encodings"
named_theorems io_simps "evaluation of the error and state-error monads"
named_theorems stage_simps "evaluation of the outcome, stage and failure registries"

section \<open>Bounds of machine words\<close>

lemma unat_byte_less: "unat (b :: byte) < 256"
  using unsigned_less [of b, where 'a = nat] by simp

lemma unat_u16_less: "unat (w :: u16) < 65536"
  using unsigned_less [of w, where 'a = nat] by simp

lemma unat_u32_less: "unat (w :: u32) < 2 ^ 32"
  using unsigned_less [of w, where 'a = nat] by simp

lemma unat_u64_less: "unat (w :: u64) < 2 ^ 64"
  using unsigned_less [of w, where 'a = nat] by simp

text \<open>The same bounds with the powers evaluated, as the simplifier leaves them.\<close>

lemma unat_less_literal [simp]:
  "unat (b :: byte) < 256" "unat (w :: u16) < 65536" "unat (x :: u32) < 4294967296"
  "unat (y :: u64) < 18446744073709551616"
  using unat_byte_less [of b] unat_u16_less [of w] unat_u32_less [of x] unat_u64_less [of y]
  by simp_all

section \<open>Strings as bytes\<close>

text \<open>A Go string literal used as bytes; \<open>of_char\<close> is the code of an ASCII character.\<close>

definition ascii :: "string \<Rightarrow> byte list" where
  "ascii s = map of_char s"

lemma length_ascii [simp]: "length (ascii s) = length s"
  by (simp add: ascii_def)

lemma ascii_append: "ascii (s @ t) = ascii s @ ascii t"
  by (simp add: ascii_def)

section \<open>Big-endian integers\<close>

text \<open>
  \<open>binary.BigEndian.PutUint16/32/64\<close> and \<open>Uint16/32/64\<close>. The encoding is by the natural
  value, most significant byte first.
\<close>

fun be_encode :: "nat \<Rightarrow> nat \<Rightarrow> byte list" where
  "be_encode 0 v = []"
| "be_encode (Suc n) v = be_encode n (v div 256) @ [word_of_nat (v mod 256)]"

definition be_decode :: "byte list \<Rightarrow> nat" where
  "be_decode bs = foldl (\<lambda>acc b. acc * 256 + unat b) 0 bs"

definition put_u16 :: "u16 \<Rightarrow> byte list" where "put_u16 w = be_encode 2 (unat w)"
definition put_u32 :: "u32 \<Rightarrow> byte list" where "put_u32 w = be_encode 4 (unat w)"
definition put_u64 :: "u64 \<Rightarrow> byte list" where "put_u64 w = be_encode 8 (unat w)"
definition get_u16 :: "byte list \<Rightarrow> u16" where "get_u16 bs = word_of_nat (be_decode bs)"
definition get_u32 :: "byte list \<Rightarrow> u32" where "get_u32 bs = word_of_nat (be_decode bs)"
definition get_u64 :: "byte list \<Rightarrow> u64" where "get_u64 bs = word_of_nat (be_decode bs)"

lemma length_be_encode [simp]: "length (be_encode n v) = n"
  by (induction n arbitrary: v) auto

lemma be_decode_snoc: "be_decode (bs @ [b]) = be_decode bs * 256 + unat b"
  by (simp add: be_decode_def)

lemma be_decode_Nil [simp]: "be_decode [] = 0"
  by (simp add: be_decode_def)

lemma unat_byte_of_mod: "unat (word_of_nat (v mod 256) :: byte) = v mod 256"
  by (simp add: unat_of_nat)

lemma be_decode_encode: "be_decode (be_encode n v) = v mod 256 ^ n"
proof (induction n arbitrary: v)
  case 0
  then show ?case by simp
next
  case (Suc n)
  have "v mod 256 ^ Suc n = 256 * (v div 256 mod 256 ^ n) + v mod 256"
    using mod_mult2_eq [of v 256 "256 ^ n"] by simp
  with Suc show ?case by (simp add: be_decode_snoc unat_byte_of_mod)
qed

lemma be_decode_bound: "be_decode bs < 256 ^ length bs"
proof (induction bs rule: rev_induct)
  case Nil
  then show ?case by simp
next
  case (snoc b bs)
  have "256 ^ length (bs @ [b]) = (256::nat) * 256 ^ length bs" by simp
  with snoc unat_byte_less [of b] show ?case unfolding be_decode_snoc by linarith
qed

lemma be_encode_decode: "be_encode (length bs) (be_decode bs) = bs"
proof (induction bs rule: rev_induct)
  case Nil
  then show ?case by simp
next
  case (snoc b bs)
  have "(be_decode bs * 256 + unat b) div 256 = be_decode bs"
    and "(be_decode bs * 256 + unat b) mod 256 = unat b"
    by simp_all
  with snoc show ?case by (simp add: be_decode_snoc)
qed

lemma length_put_u [simp]:
  "length (put_u16 a) = 2" "length (put_u32 b) = 4" "length (put_u64 c) = 8"
  by (simp_all add: put_u16_def put_u32_def put_u64_def)

lemma get_put_u16 [simp, codec_simps]: "get_u16 (put_u16 w) = w"
  using unat_u16_less [of w] by (simp add: get_u16_def put_u16_def be_decode_encode)

lemma get_put_u32 [simp, codec_simps]: "get_u32 (put_u32 w) = w"
  using unat_u32_less [of w] by (simp add: get_u32_def put_u32_def be_decode_encode)

lemma get_put_u64 [simp, codec_simps]: "get_u64 (put_u64 w) = w"
  using unat_u64_less [of w] by (simp add: get_u64_def put_u64_def be_decode_encode)

lemma put_get_u16: "length bs = 2 \<Longrightarrow> put_u16 (get_u16 bs) = bs"
  using be_decode_bound [of bs] be_encode_decode [of bs]
  by (simp add: get_u16_def put_u16_def unat_of_nat)

lemma put_get_u32: "length bs = 4 \<Longrightarrow> put_u32 (get_u32 bs) = bs"
  using be_decode_bound [of bs] be_encode_decode [of bs]
  by (simp add: get_u32_def put_u32_def unat_of_nat)

lemma put_get_u64: "length bs = 8 \<Longrightarrow> put_u64 (get_u64 bs) = bs"
  using be_decode_bound [of bs] be_encode_decode [of bs]
  by (simp add: get_u64_def put_u64_def unat_of_nat)

section \<open>Slices\<close>

text \<open>\<open>slice off n xs\<close> is Go's \<open>xs[off:off+n]\<close>; where the range leaves the list the
  theories that use it test the bounds first, as the code does.\<close>

definition slice :: "nat \<Rightarrow> nat \<Rightarrow> 'a list \<Rightarrow> 'a list" where
  "slice off n xs = take n (drop off xs)"

lemma length_slice [simp]: "length (slice off n xs) = min n (length xs - off)"
  by (simp add: slice_def min.commute)

lemma slice_append_left: "off + n \<le> length xs \<Longrightarrow> slice off n (xs @ ys) = slice off n xs"
  by (simp add: slice_def)

lemma slice_append_right: "length xs \<le> off \<Longrightarrow> slice off n (xs @ ys) = slice (off - length xs) n ys"
  by (simp add: slice_def)

lemma slice_append_exact: "off = length xs \<Longrightarrow> n = length ys \<Longrightarrow> slice off n (xs @ ys @ zs) = ys"
  by (simp add: slice_def)

lemma slice_append_at: "off = length xs \<Longrightarrow> n = length ys \<Longrightarrow> slice off n (xs @ ys) = ys"
  by (simp add: slice_def)

lemma slice_0 [simp]: "slice 0 n xs = take n xs"
  by (simp add: slice_def)

lemma slice_full: "n = length xs \<Longrightarrow> slice 0 n xs = xs"
  by simp

lemma slice_Nil [simp]: "slice off n [] = []"
  by (simp add: slice_def)

lemma nth_slice: "i < n \<Longrightarrow> off + i < length xs \<Longrightarrow> slice off n xs ! i = xs ! (off + i)"
  by (simp add: slice_def)

lemma slice_slice: "a + n \<le> m \<Longrightarrow> slice a n (slice b m xs) = slice (b + a) n xs"
proof -
  assume "a + n \<le> m"
  then have "min n (m - a) = n" by simp
  then show ?thesis by (simp add: slice_def drop_take add.commute)
qed

lemma slice_split: "slice off (m + n) xs = slice off m xs @ slice (off + m) n xs"
  by (simp add: slice_def take_add add.commute)

lemma map_nth_upt_slice:
  "off + n \<le> length xs \<Longrightarrow> map (\<lambda>i. xs ! (off + i)) [0..<n] = slice off n xs"
  by (rule nth_equalityI) (auto simp: nth_slice)

text \<open>Fixed-width blocks: the loops that code a buffer block by block.\<close>

lemma concat_slices: "concat (map (\<lambda>i. slice (i * n) n xs) [0..<k]) = take (k * n) xs"
proof (induction k)
  case 0
  then show ?case by simp
next
  case (Suc k)
  have "take (Suc k * n) xs = take (k * n) xs @ slice (k * n) n xs"
    by (simp add: slice_def take_add [symmetric] add.commute)
  with Suc show ?case by simp
qed

lemma length_concat_same:
  "(\<And>x. x \<in> set xs \<Longrightarrow> length (f x) = n) \<Longrightarrow> length (concat (map f xs)) = n * length xs"
  by (induction xs) auto

lemma slice_concat_same:
  assumes "\<And>x. x \<in> set xs \<Longrightarrow> length (f x) = n" and "i < length xs"
  shows "slice (i * n) n (concat (map f xs)) = f (xs ! i)"
  using assms
proof (induction xs arbitrary: i)
  case Nil
  then show ?case by simp
next
  case (Cons x xs)
  show ?case
  proof (cases i)
    case 0
    with Cons.prems show ?thesis by (simp add: slice_def)
  next
    case (Suc j)
    have "slice (i * n) n (concat (map f (x # xs))) = slice (j * n) n (concat (map f xs))"
      using Cons.prems(1) [of x] Suc by (simp add: slice_def)
    also have "\<dots> = f (xs ! j)"
      using Cons.IH [of j] Cons.prems Suc by simp
    finally show ?thesis using Suc by simp
  qed
qed

section \<open>Results with errors\<close>

text \<open>
  A Go function that returns \<open>(v, err)\<close> is a function into \<open>'e + 'v\<close>: \<open>Inl e\<close> for a non-nil
  error, \<open>Inr v\<close> for a nil one. \<open>ebind\<close> is \<open>v, err := m; if err != nil { return err }\<close>,
  \<open>require b e\<close> is \<open>if !b { return e }\<close>, \<open>from_opt e\<close> is the same test of a
  \<open>(v, ok)\<close> pair, and \<open>emap\<close> is a loop that leaves at the first error.
\<close>

definition ebind :: "'e + 'a \<Rightarrow> ('a \<Rightarrow> 'e + 'b) \<Rightarrow> 'e + 'b" where
  "ebind m f = (case m of Inl e \<Rightarrow> Inl e | Inr v \<Rightarrow> f v)"

definition require :: "bool \<Rightarrow> 'e \<Rightarrow> 'e + unit" where
  "require b e = (if b then Inr () else Inl e)"

definition from_opt :: "'e \<Rightarrow> 'a option \<Rightarrow> 'e + 'a" where
  "from_opt e x = (case x of None \<Rightarrow> Inl e | Some v \<Rightarrow> Inr v)"

definition map_err :: "('e \<Rightarrow> 'f) \<Rightarrow> 'e + 'a \<Rightarrow> 'f + 'a" where
  "map_err g m = (case m of Inl e \<Rightarrow> Inl (g e) | Inr v \<Rightarrow> Inr v)"

fun emap :: "('a \<Rightarrow> 'e + 'b) \<Rightarrow> 'a list \<Rightarrow> 'e + 'b list" where
  "emap f [] = Inr []"
| "emap f (x # xs) = ebind (f x) (\<lambda>y. ebind (emap f xs) (\<lambda>ys. Inr (y # ys)))"

lemma ebind_simps [simp, io_simps]:
  "ebind (Inl e) f = Inl e" "ebind (Inr v) f = f v"
  by (simp_all add: ebind_def)

lemma ebind_eq_Inr: "ebind m f = Inr y \<longleftrightarrow> (\<exists>x. m = Inr x \<and> f x = Inr y)"
  by (cases m) auto

lemma ebind_eq_Inl: "ebind m f = Inl e \<longleftrightarrow> m = Inl e \<or> (\<exists>x. m = Inr x \<and> f x = Inl e)"
  by (cases m) auto

lemma require_simps [simp, io_simps]:
  "require b e = Inr u \<longleftrightarrow> b" "require b e = Inl e' \<longleftrightarrow> \<not> b \<and> e' = e"
  by (auto simp: require_def)

lemma require_True [simp]: "require True e = Inr ()"
  by (simp add: require_def)

lemma require_False [simp]: "require False e = Inl e"
  by (simp add: require_def)

lemma from_opt_simps [simp, io_simps]:
  "from_opt e (Some v) = Inr v" "from_opt e None = Inl e"
  by (simp_all add: from_opt_def)

lemma from_opt_eq_Inr [simp]: "from_opt e x = Inr v \<longleftrightarrow> x = Some v"
  by (cases x) auto

lemma from_opt_eq_Inl [simp]: "from_opt e x = Inl e' \<longleftrightarrow> x = None \<and> e' = e"
  by (cases x) auto

lemma map_err_simps [simp, io_simps]:
  "map_err g (Inl e) = Inl (g e)" "map_err g (Inr v) = Inr v"
  by (simp_all add: map_err_def)

lemma map_err_eq_Inr [simp]: "map_err g m = Inr v \<longleftrightarrow> m = Inr v"
  by (cases m) auto

lemma emap_all_Inr: "(\<And>x. x \<in> set xs \<Longrightarrow> f x = Inr (g x)) \<Longrightarrow> emap f xs = Inr (map g xs)"
  by (induction xs) auto

lemma emap_length: "emap f xs = Inr ys \<Longrightarrow> length ys = length xs"
  by (induction xs arbitrary: ys) (auto simp: ebind_eq_Inr)

lemma emap_Inl: "emap f xs = Inl e \<Longrightarrow> \<exists>x \<in> set xs. f x = Inl e"
  by (induction xs) (auto simp: ebind_eq_Inl)

lemma emap_Inr_nth: "emap f xs = Inr ys \<Longrightarrow> i < length xs \<Longrightarrow> f (xs ! i) = Inr (ys ! i)"
  by (induction xs arbitrary: ys i) (auto simp: ebind_eq_Inr nth_Cons split: nat.splits)

section \<open>Operations on a state\<close>

text \<open>
  An operation that reads a source, polls a context or writes a sink takes the state of the
  world and returns its result with the new state. \<open>io_bind\<close> is again the early return on a
  non-nil error; the state changes made before it stay.
\<close>

type_synonym ('s, 'e, 'a) io = "'s \<Rightarrow> ('e + 'a) \<times> 's"

definition io_ret :: "'a \<Rightarrow> ('s, 'e, 'a) io" where
  "io_ret v = (\<lambda>s. (Inr v, s))"

definition io_fail :: "'e \<Rightarrow> ('s, 'e, 'a) io" where
  "io_fail e = (\<lambda>s. (Inl e, s))"

definition io_lift :: "'e + 'a \<Rightarrow> ('s, 'e, 'a) io" where
  "io_lift m = (\<lambda>s. (m, s))"

definition io_bind :: "('s, 'e, 'a) io \<Rightarrow> ('a \<Rightarrow> ('s, 'e, 'b) io) \<Rightarrow> ('s, 'e, 'b) io" where
  "io_bind m f = (\<lambda>s. case m s of (Inl e, s') \<Rightarrow> (Inl e, s') | (Inr v, s') \<Rightarrow> f v s')"

definition io_map_err :: "('e \<Rightarrow> 'f) \<Rightarrow> ('s, 'e, 'a) io \<Rightarrow> ('s, 'f, 'a) io" where
  "io_map_err g m = (\<lambda>s. case m s of (r, s') \<Rightarrow> (map_err g r, s'))"

lemma io_run [simp, io_simps]:
  "io_ret v s = (Inr v, s)" "io_fail e s = (Inl e, s)" "io_lift m s = (m, s)"
  by (simp_all add: io_ret_def io_fail_def io_lift_def)

lemma io_bind_Inr: "m s = (Inr v, s') \<Longrightarrow> io_bind m f s = f v s'"
  by (simp add: io_bind_def)

lemma io_bind_Inl: "m s = (Inl e, s') \<Longrightarrow> io_bind m f s = (Inl e, s')"
  by (simp add: io_bind_def)

lemma io_bind_lift_Inr [simp]: "io_bind (io_lift (Inr v)) f = f v"
  by (rule ext) (simp add: io_bind_def)

lemma io_bind_ret [simp]: "io_bind (io_ret v) f = f v"
  by (rule ext) (simp add: io_bind_def)

lemma io_bind_eq_Inr:
  "io_bind m f s = (Inr y, t) \<longleftrightarrow> (\<exists>x s'. m s = (Inr x, s') \<and> f x s' = (Inr y, t))"
  by (cases "m s"; cases "fst (m s)") (auto simp: io_bind_def)

text \<open>
  A triple: from a state in \<open>P\<close> the operation ends, with a value in \<open>Q\<close> or with an error in
  \<open>E\<close>. All the operations are total, so a triple with an empty \<open>E\<close> is total correctness.
\<close>

definition triple ::
  "('s \<Rightarrow> bool) \<Rightarrow> ('s, 'e, 'a) io \<Rightarrow> ('a \<Rightarrow> 's \<Rightarrow> bool) \<Rightarrow> ('e \<Rightarrow> 's \<Rightarrow> bool) \<Rightarrow> bool" where
  "triple P m Q E \<longleftrightarrow>
     (\<forall>s. P s \<longrightarrow> (case m s of (Inr v, s') \<Rightarrow> Q v s' | (Inl e, s') \<Rightarrow> E e s'))"

lemma tripleD_Inr: "triple P m Q E \<Longrightarrow> P s \<Longrightarrow> m s = (Inr v, s') \<Longrightarrow> Q v s'"
  by (auto simp: triple_def)

lemma tripleD_Inl: "triple P m Q E \<Longrightarrow> P s \<Longrightarrow> m s = (Inl e, s') \<Longrightarrow> E e s'"
  by (auto simp: triple_def)

lemma triple_ret: "(\<And>s. P s \<Longrightarrow> Q v s) \<Longrightarrow> triple P (io_ret v) Q E"
  by (auto simp: triple_def)

lemma triple_fail: "(\<And>s. P s \<Longrightarrow> E e s) \<Longrightarrow> triple P (io_fail e) Q E"
  by (auto simp: triple_def)

lemma triple_lift:
  "(\<And>s v. P s \<Longrightarrow> m = Inr v \<Longrightarrow> Q v s) \<Longrightarrow> (\<And>s e. P s \<Longrightarrow> m = Inl e \<Longrightarrow> E e s) \<Longrightarrow>
   triple P (io_lift m) Q E"
  by (auto simp: triple_def split: sum.splits)

lemma triple_bind:
  assumes "triple P m R E" and "\<And>v. triple (R v) (f v) Q E"
  shows "triple P (io_bind m f) Q E"
  unfolding triple_def
proof (intro allI impI)
  fix s
  assume P: "P s"
  obtain r s' where ms: "m s = (r, s')" by (cases "m s")
  show "case io_bind m f s of (Inr v, s') \<Rightarrow> Q v s' | (Inl e, s') \<Rightarrow> E e s'"
  proof (cases r)
    case (Inl e)
    with ms assms(1) P show ?thesis by (auto simp: io_bind_def triple_def)
  next
    case (Inr v)
    with ms assms(1) P have "R v s'" by (auto simp: triple_def)
    with assms(2) [of v] have "case f v s' of (Inr v, s') \<Rightarrow> Q v s' | (Inl e, s') \<Rightarrow> E e s'"
      by (auto simp: triple_def)
    with ms Inr show ?thesis by (simp add: io_bind_def)
  qed
qed

lemma triple_conseq:
  "triple P m Q E \<Longrightarrow> (\<And>s. P' s \<Longrightarrow> P s) \<Longrightarrow> (\<And>v s. Q v s \<Longrightarrow> Q' v s) \<Longrightarrow>
   (\<And>e s. E e s \<Longrightarrow> E' e s) \<Longrightarrow> triple P' m Q' E'"
  unfolding triple_def by (fastforce split: prod.splits sum.splits)

lemma triple_if:
  "(b \<Longrightarrow> triple P m Q E) \<Longrightarrow> (\<not> b \<Longrightarrow> triple P m' Q E) \<Longrightarrow> triple P (if b then m else m') Q E"
  by simp

end
