(* ===== verification/Checked_Arith.thy ===== *)
theory Checked_Arith
  imports Prelude
begin

text \<open>
  Overflow-checked 64-bit arithmetic: \<open>checkedAdd64\<close>, \<open>checkedMul64\<close> and \<open>checkedCeilDiv64\<close>
  of \<open>pcv3/arithmetic.go\<close> and \<open>SafeUint64ToInt64\<close> of \<open>util/safecast.go\<close>. A Go pair
  \<open>(value, ok)\<close> is an option here: every caller tests \<open>ok\<close> before it looks at the value.
  Go's \<open>int64\<close> and \<open>int\<close> (64 bits on the platforms modelled) are HOL integers; a conversion
  to \<open>uint64\<close> is \<open>word_of_int\<close>, with its wrap-around.
\<close>

section \<open>The double-width primitives of math/bits\<close>

definition bits_Add64 :: "u64 \<Rightarrow> u64 \<Rightarrow> u64 \<Rightarrow> u64 \<times> u64" where
  "bits_Add64 x y carry =
     (x + y + carry, if unat x + unat y + unat carry < 2 ^ 64 then 0 else 1)"

definition bits_Mul64 :: "u64 \<Rightarrow> u64 \<Rightarrow> u64 \<times> u64" where
  "bits_Mul64 x y = (word_of_nat (unat x * unat y div 2 ^ 64), x * y)"

section \<open>The checked operations\<close>

definition checkedAdd64 :: "u64 \<Rightarrow> u64 \<Rightarrow> u64 option" where
  "checkedAdd64 left right =
     (let (sum, carry) = bits_Add64 left right 0 in if carry = 0 then Some sum else None)"

definition checkedMul64 :: "u64 \<Rightarrow> u64 \<Rightarrow> u64 option" where
  "checkedMul64 left right =
     (let (high, low) = bits_Mul64 left right in if high = 0 then Some low else None)"

text \<open>The divisor is one of the nonzero block lengths in every call (Go panics on zero).\<close>

definition checkedCeilDiv64 :: "u64 \<Rightarrow> u64 \<Rightarrow> u64 option" where
  "checkedCeilDiv64 value divisor =
     (let quotient = value div divisor in
      if value mod divisor = 0 then Some quotient else checkedAdd64 quotient 1)"

definition MaxInt64 :: int where "MaxInt64 = 2 ^ 63 - 1"

definition SafeUint64ToInt64 :: "u64 \<Rightarrow> int option" where
  "SafeUint64ToInt64 v = (if uint v > MaxInt64 then None else Some (uint v))"

section \<open>The contract of a checked operation\<close>

text \<open>
  A checked operation computes a function of the natural values exactly, and refuses exactly
  where the true result does not fit in 64 bits.
\<close>

locale checked_op =
  fixes op :: "u64 \<Rightarrow> u64 \<Rightarrow> u64 option" and f :: "nat \<Rightarrow> nat \<Rightarrow> nat"
  assumes exact: "op a b = (if f (unat a) (unat b) < 2 ^ 64
                            then Some (word_of_nat (f (unat a) (unat b))) else None)"
begin

lemma Some_iff: "op a b = Some c \<longleftrightarrow> unat c = f (unat a) (unat b)"
proof
  assume "op a b = Some c"
  then have "f (unat a) (unat b) < 2 ^ 64" and "c = word_of_nat (f (unat a) (unat b))"
    by (auto simp: exact split: if_splits)
  then show "unat c = f (unat a) (unat b)"
    by (simp add: unat_of_nat)
next
  assume c: "unat c = f (unat a) (unat b)"
  then have "f (unat a) (unat b) < 2 ^ 64" using unat_u64_less [of c] by simp
  then show "op a b = Some c" by (simp add: exact c [symmetric])
qed

lemma None_iff: "op a b = None \<longleftrightarrow> 2 ^ 64 \<le> f (unat a) (unat b)"
  by (auto simp: exact not_less)

lemma fits: "f (unat a) (unat b) < 2 ^ 64 \<Longrightarrow> \<exists>c. op a b = Some c \<and> unat c = f (unat a) (unat b)"
  by (simp add: exact unat_of_nat)

lemma unique: "op a b = Some c \<Longrightarrow> f (unat a) (unat b) = f (unat a') (unat b') \<Longrightarrow> op a' b' = Some c"
  by (simp add: Some_iff)

end

lemma word_of_nat_unat_plus: "(word_of_nat (unat a + unat b) :: u64) = a + b"
  by simp

lemma word_of_nat_unat_times: "(word_of_nat (unat a * unat b) :: u64) = a * b"
  by simp

interpretation add64: checked_op checkedAdd64 "(+)"
  by unfold_locales (simp add: checkedAdd64_def bits_Add64_def)

lemma mul_high_zero:
  assumes "n < 2 ^ 128"
  shows "(word_of_nat (n div 18446744073709551616) :: u64) = 0 \<longleftrightarrow> n < 18446744073709551616"
proof -
  have "n div 18446744073709551616 < 18446744073709551616"
    using assms by (simp add: div_less_iff_less_mult)
  then have "unat (word_of_nat (n div 18446744073709551616) :: u64) = n div 18446744073709551616"
    by (simp add: unat_of_nat)
  then show ?thesis by (metis div_eq_0_iff unat_0_iff zero_neq_numeral)
qed

lemma mul_less_128: "unat (a :: u64) * unat (b :: u64) < 2 ^ 128"
proof -
  have "unat a * unat b < 2 ^ 64 * 2 ^ 64"
    by (rule mult_strict_mono) (use unat_u64_less [of a] unat_u64_less [of b] in simp_all)
  then show ?thesis by (simp flip: power_add)
qed

interpretation mul64: checked_op checkedMul64 "(*)"
  by unfold_locales
    (simp add: checkedMul64_def bits_Mul64_def mul_high_zero [OF mul_less_128])

lemma ceil_div_nat:
  fixes v d :: nat
  assumes d: "0 < d"
  shows "(v + (d - 1)) div d = (if v mod d = 0 then v div d else v div d + 1)"
proof -
  obtain q r where v: "v = d * q + r" and r: "r < d"
    by (metis d mod_less_divisor mult_div_mod_eq)
  then have qr: "v div d = q" "v mod d = r" using d by simp_all
  show ?thesis
  proof (cases "r = 0")
    case True
    have "(v + (d - 1)) div d = q"
      by (rule div_nat_eqI) (use v d True in \<open>simp_all\<close>)
    with True qr show ?thesis by simp
  next
    case False
    have "(v + (d - 1)) div d = Suc q"
      by (rule div_nat_eqI) (use v r False in \<open>simp_all\<close>)
    with False qr show ?thesis by simp
  qed
qed

lemma ceil_div_le: "0 < d \<Longrightarrow> (v + (d - 1)) div d \<le> v" for v d :: nat
proof (cases "v mod d = 0")
  case False
  assume d: "0 < d"
  from False have "d \<noteq> 1" and "0 < v" by (auto intro: gr0I)
  with d have "v div d < v" by simp
  with False d show ?thesis by (simp only: ceil_div_nat [OF d] if_False)
next
  case True
  assume d: "0 < d"
  with True show ?thesis by (simp only: ceil_div_nat [OF d]) simp
qed

text \<open>\<open>checkedCeilDiv64\<close> is the ceiling of the quotient; it never overflows, because the
  quotient is only incremented when the divisor is at least 2.\<close>

lemma checkedCeilDiv64_Some_iff:
  assumes "divisor \<noteq> 0"
  shows "checkedCeilDiv64 value divisor = Some c \<longleftrightarrow>
           unat c = (unat value + (unat divisor - 1)) div unat divisor"
proof -
  have d: "0 < unat divisor" using assms by (simp add: unat_gt_0)
  have m: "value mod divisor = 0 \<longleftrightarrow> unat value mod unat divisor = 0"
    by (simp add: unat_0_iff flip: unat_mod)
  have q: "unat (value div divisor) = unat value div unat divisor" by (rule unat_div)
  have e: "(unat value + (unat divisor - 1)) div unat divisor =
      (if value mod divisor = 0 then unat (value div divisor) else unat (value div divisor) + 1)"
    by (simp only: ceil_div_nat [OF d] m q)
  show ?thesis unfolding e
    by (auto simp: checkedCeilDiv64_def Let_def add64.Some_iff word_unat_eq_iff)
qed

lemma checkedCeilDiv64_total:
  assumes "divisor \<noteq> 0"
  obtains c where "checkedCeilDiv64 value divisor = Some c"
    and "unat c = (unat value + (unat divisor - 1)) div unat divisor"
proof -
  let ?q = "(unat value + (unat divisor - 1)) div unat divisor"
  have "0 < unat divisor" using assms by (simp add: unat_gt_0)
  then have "?q \<le> unat value" by (rule ceil_div_le)
  then have "?q < 2 ^ 64" using unat_u64_less [of "value"] by linarith
  then have "unat (word_of_nat ?q :: u64) = ?q" by (simp add: unat_of_nat)
  then show thesis using that checkedCeilDiv64_Some_iff [OF assms] by blast
qed

lemma SafeUint64ToInt64_Some_iff: "SafeUint64ToInt64 v = Some i \<longleftrightarrow> i = uint v \<and> unat v < 2 ^ 63"
proof -
  have "uint v > MaxInt64 \<longleftrightarrow> \<not> unat v < 2 ^ 63"
    by (simp add: MaxInt64_def uint_nat not_less del: of_nat_unat) linarith
  then show ?thesis by (auto simp: SafeUint64ToInt64_def)
qed

lemma SafeUint64ToInt64_back: "SafeUint64ToInt64 v = Some i \<Longrightarrow> (word_of_int i :: u64) = v"
  by (simp add: SafeUint64ToInt64_Some_iff)

lemma SafeUint64ToInt64_range: "SafeUint64ToInt64 v = Some i \<Longrightarrow> 0 \<le> i \<and> i \<le> MaxInt64"
  by (auto simp: SafeUint64ToInt64_def split: if_splits)

end
