(* ===== verification/Pcv3_Result.thy ===== *)
theory Pcv3_Result
  imports Prelude
begin

text \<open>
  The closed registry of PCV3 outcomes and stages (\<open>pcv3result/result.go\<close>), the stable codes
  and the error constructors built on it (\<open>pcv3/types.go\<close>), and the order of nonterminal
  warnings (\<open>authStageRank\<close>, \<open>earlierAuthStage\<close> of \<open>pcv3/auth.go\<close>).
\<close>

section \<open>Outcomes, stages and codes\<close>

datatype Outcome =
    OutcomeUnsupportedRoutingPreKDF | OutcomeInvalidStructurePreKDF | OutcomeOperationFailed
  | OutcomeCredentialsOrDamage | OutcomeAuthenticatedDegraded | OutcomeAmbiguousVolume
  | OutcomeSuccess | OutcomeAuthenticationFailed | OutcomeForcePartial | OutcomeForceUnverified
  | OutcomeCommittedDurabilityUncertain | OutcomePublicationIndeterminate

datatype Stage =
    StageNone | StageRouting | StagePreamble | StageCapsuleRS | StageCapsuleStructure
  | StageTailGeometry | StageInputIO | StageCredentialPolicy | StageWrapAuth | StageUnwrap
  | StageReplicaAuth | StageKDFRuntime | StageCancellation | StageMetadata | StageDescriptor
  | StageRecordBodyRS | StageRecordAuth | StageFinalRecord | StageOutputPublication
  | StageD1Bootstrap | StageD1Body | StageInnerVolume | StageRNG | StageOutputWrite
  | StageDirectorySync | StageResourceBudget

text \<open>The \<open>uint8\<close> value of a stage: its position in the registry. Stages are compared by it.\<close>

fun stage_code :: "Stage \<Rightarrow> nat" where
  "stage_code StageNone = 0" | "stage_code StageRouting = 1" | "stage_code StagePreamble = 2"
| "stage_code StageCapsuleRS = 3" | "stage_code StageCapsuleStructure = 4"
| "stage_code StageTailGeometry = 5" | "stage_code StageInputIO = 6"
| "stage_code StageCredentialPolicy = 7" | "stage_code StageWrapAuth = 8"
| "stage_code StageUnwrap = 9" | "stage_code StageReplicaAuth = 10"
| "stage_code StageKDFRuntime = 11" | "stage_code StageCancellation = 12"
| "stage_code StageMetadata = 13" | "stage_code StageDescriptor = 14"
| "stage_code StageRecordBodyRS = 15" | "stage_code StageRecordAuth = 16"
| "stage_code StageFinalRecord = 17" | "stage_code StageOutputPublication = 18"
| "stage_code StageD1Bootstrap = 19" | "stage_code StageD1Body = 20"
| "stage_code StageInnerVolume = 21" | "stage_code StageRNG = 22"
| "stage_code StageOutputWrite = 23" | "stage_code StageDirectorySync = 24"
| "stage_code StageResourceBudget = 25"

lemma stage_code_inj: "stage_code a = stage_code b \<Longrightarrow> a = b"
  by (cases a; cases b) simp_all

instantiation Stage :: linorder
begin

definition less_eq_Stage :: "Stage \<Rightarrow> Stage \<Rightarrow> bool" where
  "less_eq_Stage a b \<longleftrightarrow> stage_code a \<le> stage_code b"

definition less_Stage :: "Stage \<Rightarrow> Stage \<Rightarrow> bool" where
  "less_Stage a b \<longleftrightarrow> stage_code a < stage_code b"

instance
  by standard (auto simp: less_eq_Stage_def less_Stage_def dest: stage_code_inj)

end

datatype Code =
    CodeNone | CodeUnsupported | CodeInvalidStructure | CodeOperationFailed
  | CodeCredentialsOrDamage | CodeAuthenticatedDegraded | CodeAmbiguousVolume | CodeSuccess
  | CodeAuthenticationFailed | CodeForcePartial | CodeForceUnverified

fun outcome_String :: "Outcome \<Rightarrow> string" where
  "outcome_String OutcomeUnsupportedRoutingPreKDF = ''unsupported-routing-pre-kdf''"
| "outcome_String OutcomeInvalidStructurePreKDF = ''invalid-structure-pre-kdf''"
| "outcome_String OutcomeOperationFailed = ''operation-failed''"
| "outcome_String OutcomeCredentialsOrDamage = ''credentials-or-damage''"
| "outcome_String OutcomeAuthenticatedDegraded = ''authenticated-degraded''"
| "outcome_String OutcomeAmbiguousVolume = ''ambiguous-volume''"
| "outcome_String OutcomeSuccess = ''success''"
| "outcome_String OutcomeAuthenticationFailed = ''authentication-failed''"
| "outcome_String OutcomeForcePartial = ''force-partial''"
| "outcome_String OutcomeForceUnverified = ''force-unverified''"
| "outcome_String OutcomeCommittedDurabilityUncertain = ''committed-durability-uncertain''"
| "outcome_String OutcomePublicationIndeterminate = ''publication-indeterminate''"

fun stage_String :: "Stage \<Rightarrow> string" where
  "stage_String StageNone = ''none''"
| "stage_String StageRouting = ''routing''"
| "stage_String StagePreamble = ''preamble''"
| "stage_String StageCapsuleRS = ''capsule-rs''"
| "stage_String StageCapsuleStructure = ''capsule-structure''"
| "stage_String StageTailGeometry = ''tail-geometry''"
| "stage_String StageInputIO = ''input-io''"
| "stage_String StageCredentialPolicy = ''credential-policy''"
| "stage_String StageWrapAuth = ''wrap-auth''"
| "stage_String StageUnwrap = ''unwrap''"
| "stage_String StageReplicaAuth = ''replica-auth''"
| "stage_String StageKDFRuntime = ''kdf-runtime''"
| "stage_String StageCancellation = ''cancellation''"
| "stage_String StageMetadata = ''metadata''"
| "stage_String StageDescriptor = ''descriptor''"
| "stage_String StageRecordBodyRS = ''record-body-rs''"
| "stage_String StageRecordAuth = ''record-auth''"
| "stage_String StageFinalRecord = ''final-record''"
| "stage_String StageOutputPublication = ''output-publication''"
| "stage_String StageD1Bootstrap = ''d1-bootstrap''"
| "stage_String StageD1Body = ''d1-body''"
| "stage_String StageInnerVolume = ''inner-volume''"
| "stage_String StageRNG = ''rng''"
| "stage_String StageOutputWrite = ''output-write''"
| "stage_String StageResourceBudget = ''resource-budget''"
| "stage_String StageDirectorySync = ''directory-sync''"

fun code_String :: "Code \<Rightarrow> string" where
  "code_String CodeUnsupported = ''PCV3_UNSUPPORTED''"
| "code_String CodeInvalidStructure = ''PCV3_INVALID_STRUCTURE''"
| "code_String CodeOperationFailed = ''PCV3_OPERATION_FAILED''"
| "code_String CodeCredentialsOrDamage = ''PCV3_CREDENTIALS_OR_DAMAGE''"
| "code_String CodeAuthenticatedDegraded = ''PCV3_AUTHENTICATED_DEGRADED''"
| "code_String CodeAmbiguousVolume = ''PCV3_AMBIGUOUS_VOLUME''"
| "code_String CodeSuccess = ''PCV3_SUCCESS''"
| "code_String CodeAuthenticationFailed = ''PCV3_AUTHENTICATION_FAILED''"
| "code_String CodeForcePartial = ''PCV3_FORCE_PARTIAL''"
| "code_String CodeForceUnverified = ''PCV3_FORCE_UNVERIFIED''"
| "code_String CodeNone = ''PCV3_UNKNOWN''"

section \<open>The legal outcome and stage pairs\<close>

definition isForceDamageStage :: "Stage \<Rightarrow> bool" where
  "isForceDamageStage stage \<longleftrightarrow>
     stage \<in> {StagePreamble, StageCapsuleRS, StageCapsuleStructure, StageTailGeometry,
              StageWrapAuth, StageReplicaAuth, StageMetadata, StageDescriptor,
              StageRecordBodyRS, StageRecordAuth, StageFinalRecord}"

fun codeFor :: "Outcome \<Rightarrow> Stage \<Rightarrow> Code \<times> bool" where
  "codeFor OutcomeUnsupportedRoutingPreKDF stage = (CodeUnsupported, stage = StageRouting)"
| "codeFor OutcomeInvalidStructurePreKDF stage =
     (if stage \<in> {StagePreamble, StageCapsuleRS, StageCapsuleStructure, StageTailGeometry}
      then (CodeInvalidStructure, True) else (CodeNone, False))"
| "codeFor OutcomeOperationFailed stage =
     (if stage \<in> {StageInputIO, StageCredentialPolicy, StageUnwrap, StageKDFRuntime,
                  StageCancellation, StageOutputWrite, StageResourceBudget}
      then (CodeOperationFailed, True) else (CodeNone, False))"
| "codeFor OutcomeCredentialsOrDamage stage = (CodeCredentialsOrDamage, stage = StageWrapAuth)"
| "codeFor OutcomeAuthenticatedDegraded stage =
     (if stage \<in> {StagePreamble, StageCapsuleRS, StageCapsuleStructure, StageTailGeometry,
                  StageWrapAuth, StageReplicaAuth, StageMetadata}
      then (CodeAuthenticatedDegraded, True) else (CodeNone, False))"
| "codeFor OutcomeAmbiguousVolume stage = (CodeAmbiguousVolume, stage = StageCapsuleStructure)"
| "codeFor OutcomeSuccess stage = (CodeSuccess, stage = StageNone)"
| "codeFor OutcomeAuthenticationFailed stage =
     (if stage \<in> {StageDescriptor, StageRecordBodyRS, StageRecordAuth, StageFinalRecord,
                  StageTailGeometry}
      then (CodeAuthenticationFailed, True) else (CodeNone, False))"
| "codeFor OutcomeForcePartial stage = (CodeForcePartial, isForceDamageStage stage)"
| "codeFor OutcomeForceUnverified stage = (CodeForceUnverified, isForceDamageStage stage)"
| "codeFor OutcomeCommittedDurabilityUncertain stage = (CodeNone, False)"
| "codeFor OutcomePublicationIndeterminate stage = (CodeNone, False)"

definition legal_pair :: "Outcome \<Rightarrow> Stage \<Rightarrow> bool" where
  "legal_pair outcome stage \<longleftrightarrow> snd (codeFor outcome stage)"

lemma legal_pair_simps [simp, stage_simps]:
  "legal_pair OutcomeInvalidStructurePreKDF StagePreamble"
  "legal_pair OutcomeInvalidStructurePreKDF StageCapsuleRS"
  "legal_pair OutcomeInvalidStructurePreKDF StageCapsuleStructure"
  "legal_pair OutcomeInvalidStructurePreKDF StageTailGeometry"
  "legal_pair OutcomeUnsupportedRoutingPreKDF StageRouting"
  "legal_pair OutcomeOperationFailed StageInputIO"
  "legal_pair OutcomeOperationFailed StageCancellation"
  "legal_pair OutcomeOperationFailed StageCredentialPolicy"
  "legal_pair OutcomeOperationFailed StageUnwrap"
  "legal_pair OutcomeOperationFailed StageKDFRuntime"
  "legal_pair OutcomeOperationFailed StageOutputWrite"
  "legal_pair OutcomeSuccess StageNone"
  "legal_pair OutcomeCredentialsOrDamage StageWrapAuth"
  "legal_pair OutcomeAmbiguousVolume StageCapsuleStructure"
  by (simp_all add: legal_pair_def)

section \<open>Errors\<close>

text \<open>
  The error values that reach a branch of the modelled code: the sentinels of the packages,
  the errors a reader, a writer or a context may return, and any other error value
  (\<open>External\<close>). \<open>isEOF\<close> and \<open>isCancel\<close> are the \<open>errors.Is\<close> tests the code makes.
\<close>

datatype cause =
    EOF | UnexpectedEOF | ContextCanceled | ContextDeadlineExceeded | ShortWrite
  | InvalidReader | InvalidReadProgress | ReaderNoProgress | ReaderCallLimit
  | ReaderOffsetOverflow | InvalidMetadataRequest | InvalidRecordRequest
  | RecordDescriptorRecovery | RecordBodyRecovery | RecordAuthenticationCause | RecordAccounting
  | RecordCipher | RecordUnexpectedTruncation | InvalidNormalWriteRequest
  | NormalWriteSourceLength | NormalWriteSourceProgress | NormalWriteSinkProgress
  | NormalWriteCrypto | NormalWriteRS | NormalWriteGeometry | StreamShape | InvalidMACShape
  | OwnerCancelled
  | External nat

definition isEOF :: "cause \<Rightarrow> bool" where
  "isEOF c \<longleftrightarrow> c = EOF \<or> c = UnexpectedEOF"

definition isCancel :: "cause \<Rightarrow> bool" where
  "isCancel c \<longleftrightarrow> c = ContextCanceled \<or> c = ContextDeadlineExceeded"

lemma isEOF_simps [simp, stage_simps]:
  "isEOF EOF" "isEOF UnexpectedEOF" "\<not> isEOF InvalidReader" "\<not> isEOF InvalidReadProgress"
  "\<not> isEOF ReaderNoProgress" "\<not> isEOF ReaderCallLimit" "\<not> isEOF ReaderOffsetOverflow"
  by (simp_all add: isEOF_def)

text \<open>
  The Go error types that \<open>errors.As\<close> tells apart: \<open>*failureError\<close>, \<open>*recordFailure\<close>,
  \<open>*normalWriteFailure\<close>, \<open>*capsuleAuthError\<close>, the sentinel \<open>ErrInvalidFailureMapping\<close>, and
  a bare error value.
\<close>

datatype pcv3_error =
    Failure Outcome Stage "cause option"
  | InvalidFailureMapping
  | RecordFailure Stage cause
  | NormalWriteFailure Stage cause
  | CapsuleAuthError Stage
  | Plain cause

definition newError :: "Outcome \<Rightarrow> Stage \<Rightarrow> cause option \<Rightarrow> pcv3_error" where
  "newError outcome stage c =
     (if \<not> snd (codeFor outcome stage) then InvalidFailureMapping else Failure outcome stage c)"

definition NewUnsupportedRoutingError :: pcv3_error where
  "NewUnsupportedRoutingError = newError OutcomeUnsupportedRoutingPreKDF StageRouting None"

definition NewInvalidStructureError :: "Stage \<Rightarrow> pcv3_error" where
  "NewInvalidStructureError stage = newError OutcomeInvalidStructurePreKDF stage None"

definition NewInputError :: "cause \<Rightarrow> pcv3_error" where
  "NewInputError c =
     (if isEOF c then InvalidFailureMapping
      else newError OutcomeOperationFailed StageInputIO (Some c))"

definition NewOutputWriteError :: "cause \<Rightarrow> pcv3_error" where
  "NewOutputWriteError c = newError OutcomeOperationFailed StageOutputWrite (Some c)"

fun failure_Code :: "pcv3_error \<Rightarrow> Code" where
  "failure_Code (Failure outcome stage c) = fst (codeFor outcome stage)"
| "failure_Code _ = CodeNone"

lemma newError_simps [simp, stage_simps]:
  "legal_pair outcome stage \<Longrightarrow> newError outcome stage c = Failure outcome stage c"
  "\<not> legal_pair outcome stage \<Longrightarrow> newError outcome stage c = InvalidFailureMapping"
  by (simp_all add: newError_def legal_pair_def)

lemma NewInvalidStructureError_cases:
  "NewInvalidStructureError stage = Failure OutcomeInvalidStructurePreKDF stage None \<or>
   NewInvalidStructureError stage = InvalidFailureMapping"
  by (simp add: NewInvalidStructureError_def newError_def)

lemma structure_errors [simp, stage_simps]:
  "NewInvalidStructureError StagePreamble = Failure OutcomeInvalidStructurePreKDF StagePreamble None"
  "NewInvalidStructureError StageCapsuleRS = Failure OutcomeInvalidStructurePreKDF StageCapsuleRS None"
  "NewInvalidStructureError StageCapsuleStructure =
     Failure OutcomeInvalidStructurePreKDF StageCapsuleStructure None"
  "NewInvalidStructureError StageTailGeometry =
     Failure OutcomeInvalidStructurePreKDF StageTailGeometry None"
  "NewUnsupportedRoutingError = Failure OutcomeUnsupportedRoutingPreKDF StageRouting None"
  by (simp_all add: NewInvalidStructureError_def NewUnsupportedRoutingError_def)

lemma NewInputError_simps [simp, stage_simps]:
  "isEOF c \<Longrightarrow> NewInputError c = InvalidFailureMapping"
  "\<not> isEOF c \<Longrightarrow> NewInputError c = Failure OutcomeOperationFailed StageInputIO (Some c)"
  by (simp_all add: NewInputError_def)

section \<open>The order of nonterminal warnings\<close>

fun authStageRank :: "Stage \<Rightarrow> nat" where
  "authStageRank StagePreamble = 1"
| "authStageRank StageCapsuleRS = 2"
| "authStageRank StageCapsuleStructure = 3"
| "authStageRank StageWrapAuth = 4"
| "authStageRank StageReplicaAuth = 5"
| "authStageRank StageMetadata = 6"
| "authStageRank StageTailGeometry = 7"
| "authStageRank _ = 255"

definition earlierAuthStage :: "Stage \<Rightarrow> Stage \<Rightarrow> Stage" where
  "earlierAuthStage left right =
     (if left = StageNone then right
      else if right = StageNone \<or> authStageRank left \<le> authStageRank right then left
      else right)"

text \<open>The stages an authenticated but degraded result may carry: those with a rank, or none.\<close>

definition warning_stage :: "Stage \<Rightarrow> bool" where
  "warning_stage stage \<longleftrightarrow> authStageRank stage < 255"

lemma warning_stage_simps [simp, stage_simps]:
  "warning_stage StagePreamble" "warning_stage StageCapsuleRS"
  "warning_stage StageCapsuleStructure" "warning_stage StageWrapAuth"
  "warning_stage StageReplicaAuth" "warning_stage StageMetadata"
  "warning_stage StageTailGeometry" "\<not> warning_stage StageNone"
  by (simp_all add: warning_stage_def)

lemma warning_stage_legal: "warning_stage stage \<longleftrightarrow> legal_pair OutcomeAuthenticatedDegraded stage"
  by (cases stage) (simp_all add: warning_stage_def legal_pair_def)

lemma authStageRank_inj:
  "warning_stage a \<Longrightarrow> authStageRank a = authStageRank b \<Longrightarrow> a = b"
  by (cases a; cases b) (simp_all add: warning_stage_def)

lemma earlierAuthStage_None [simp]:
  "earlierAuthStage StageNone stage = stage" "earlierAuthStage stage StageNone = stage"
  by (simp_all add: earlierAuthStage_def)

lemma earlierAuthStage_warning:
  "warning_stage a \<or> a = StageNone \<Longrightarrow> warning_stage b \<or> b = StageNone \<Longrightarrow>
   a \<noteq> StageNone \<or> b \<noteq> StageNone \<Longrightarrow> warning_stage (earlierAuthStage a b)"
  by (auto simp: earlierAuthStage_def)

lemma earlierAuthStage_commute:
  "warning_stage a \<or> a = StageNone \<Longrightarrow> warning_stage b \<or> b = StageNone \<Longrightarrow>
   earlierAuthStage a b = earlierAuthStage b a"
  by (auto simp: earlierAuthStage_def dest: authStageRank_inj)

lemma earlierAuthStage_assoc:
  "earlierAuthStage (earlierAuthStage a b) c = earlierAuthStage a (earlierAuthStage b c)"
  by (auto simp: earlierAuthStage_def)

lemma earlierAuthStage_first:
  "a \<noteq> StageNone \<Longrightarrow> authStageRank (earlierAuthStage a b) \<le> authStageRank a"
  "b \<noteq> StageNone \<Longrightarrow> authStageRank (earlierAuthStage a b) \<le> authStageRank b"
  by (auto simp: earlierAuthStage_def)

end
