(* ===== verification/Format.thy ===== *)
theory Format
  imports Checked_Arith Pcv3_Result "HOL-Library.Monad_Syntax"
begin

text \<open>
  The normal PCV3 format: routing by the discriminator (\<open>pcv3/route.go\<close>), the 16-byte preamble
  (\<open>pcv3/preamble.go\<close>), and the decoded capsule with its structural validity
  (\<open>pcv3/capsule.go\<close>). Fixed byte arrays are byte lists; \<open>wf_core\<close> and \<open>wf_candidate\<close> say
  their lengths. Suites, roles, modes and kinds are the raw integers of the capsule bytes,
  because the code reads them unchecked and then tests them.
\<close>

section \<open>Constants\<close>

abbreviation (input) formatMajor :: u16 where "formatMajor \<equiv> 3"
abbreviation (input) formatSchema :: u16 where "formatSchema \<equiv> 1"
abbreviation (input) payloadBodyRSFeatureMask :: u16 where "payloadBodyRSFeatureMask \<equiv> 1"
abbreviation (input) d1DerivedRootFeatureMask :: u16 where "d1DerivedRootFeatureMask \<equiv> 2"
abbreviation (input) supportedFeatureMask :: u16 where "supportedFeatureMask \<equiv> 1"
abbreviation (input) frontHeaderBase :: u64 where "frontHeaderBase \<equiv> 976"
abbreviation (input) metadataDecodedBase :: u64 where "metadataDecodedBase \<equiv> 80"
abbreviation (input) rs128DataLength :: u64 where "rs128DataLength \<equiv> 128"
abbreviation (input) rs128CodewordLength :: u64 where "rs128CodewordLength \<equiv> 136"
abbreviation (input) minimumMetadataBlocks :: u64 where "minimumMetadataBlocks \<equiv> 1"
abbreviation (input) maximumMetadataBlocks :: u64 where "maximumMetadataBlocks \<equiv> 782"
abbreviation (input) minimumFrontHeader :: u64 where
  "minimumFrontHeader \<equiv> 1112"
abbreviation (input) maximumFrontHeader :: u64 where
  "maximumFrontHeader \<equiv> 107328"
abbreviation (input) decodedCapsuleLength :: nat where "decodedCapsuleLength \<equiv> 320"
abbreviation (input) maximumCommentLength :: nat where "maximumCommentLength \<equiv> 99999"
abbreviation (input) recordPlaintextMax :: u64 where "recordPlaintextMax \<equiv> 1048576"
abbreviation (input) maximumRecordCount :: u64 where "maximumRecordCount \<equiv> 281474976710656"

abbreviation (input) SuiteStandard :: u16 where "SuiteStandard \<equiv> 1"
abbreviation (input) SuiteParanoid :: u16 where "SuiteParanoid \<equiv> 2"
abbreviation (input) CapsuleRolePrimary :: byte where "CapsuleRolePrimary \<equiv> 0"
abbreviation (input) CapsuleRoleBackup :: byte where "CapsuleRoleBackup \<equiv> 1"
abbreviation (input) PayloadKindRaw :: byte where "PayloadKindRaw \<equiv> 1"
abbreviation (input) PayloadKindArchive :: byte where "PayloadKindArchive \<equiv> 2"
abbreviation (input) CredentialModePassword :: byte where "CredentialModePassword \<equiv> 1"
abbreviation (input) CredentialModeKeyfiles :: byte where "CredentialModeKeyfiles \<equiv> 2"
abbreviation (input) CredentialModeCombined :: byte where "CredentialModeCombined \<equiv> 3"
abbreviation (input) KeyfileModeNone :: byte where "KeyfileModeNone \<equiv> 0"
abbreviation (input) KeyfileModeOrdered :: byte where "KeyfileModeOrdered \<equiv> 1"
abbreviation (input) KeyfileModeUnordered :: byte where "KeyfileModeUnordered \<equiv> 2"
abbreviation (input) KDFProfileNormal :: byte where "KDFProfileNormal \<equiv> 1"
abbreviation (input) KDFProfileParanoid :: byte where "KDFProfileParanoid \<equiv> 2"
abbreviation (input) KDFProfileD1DerivedRoot :: byte where "KDFProfileD1DerivedRoot \<equiv> 3"

text \<open>The discriminator is the string \<open>PCV\<close> followed by a zero byte.\<close>

definition normalDiscriminator :: "byte list" where
  "normalDiscriminator = ascii ''PCV'' @ [0]"

lemma length_normalDiscriminator [simp]: "length normalDiscriminator = 4"
  by (simp add: normalDiscriminator_def)

section \<open>Routing\<close>

datatype Route = RouteLegacyEligible | RouteNormalPCV

definition DetectPrefix :: "byte list \<Rightarrow> Route" where
  "DetectPrefix prefix =
     (if length prefix < length normalDiscriminator then RouteLegacyEligible
      else if list_all (\<lambda>i. prefix ! i = normalDiscriminator ! i) [0..<length normalDiscriminator]
      then RouteNormalPCV else RouteLegacyEligible)"

lemma DetectPrefix_iff:
  "DetectPrefix prefix = RouteNormalPCV \<longleftrightarrow> take 4 prefix = normalDiscriminator"
proof (cases "length prefix < 4")
  case True
  then have "length (take 4 prefix) \<noteq> length normalDiscriminator" by simp
  then have "take 4 prefix \<noteq> normalDiscriminator" by metis
  with True show ?thesis by (simp add: DetectPrefix_def)
next
  case False
  then have "take 4 prefix = normalDiscriminator \<longleftrightarrow>
      (\<forall>i < 4. prefix ! i = normalDiscriminator ! i)"
    by (auto simp: list_eq_iff_nth_eq min_def)
  with False show ?thesis by (auto simp: DetectPrefix_def list_all_iff)
qed

section \<open>The preamble\<close>

record Preamble =
  pre_suite :: u16
  pre_featureFlags :: u16
  pre_frontHeaderLength :: u32

definition isSupportedSuite :: "u16 \<Rightarrow> bool" where
  "isSupportedSuite suite \<longleftrightarrow> suite = SuiteStandard \<or> suite = SuiteParanoid"

definition metadataBlocksFromFrontHeader :: "u64 \<Rightarrow> u64 option" where
  "metadataBlocksFromFrontHeader len =
     (if len < minimumFrontHeader \<or> len > maximumFrontHeader then None
      else let encodedLength = len - frontHeaderBase in
        if encodedLength mod rs128CodewordLength \<noteq> 0 then None
        else let blocks = encodedLength div rs128CodewordLength in
          if blocks \<ge> minimumMetadataBlocks \<and> blocks \<le> maximumMetadataBlocks
          then Some blocks else None)"

definition ParsePreamble :: "byte list \<Rightarrow> byte list \<Rightarrow> pcv3_error + Preamble" where
  "ParsePreamble admittedPrefix remainder =
     (if admittedPrefix \<noteq> normalDiscriminator then Inl InvalidFailureMapping
      else if length remainder \<noteq> 12 then Inl (NewInvalidStructureError StagePreamble)
      else
        let major = get_u16 (slice 0 2 remainder);
            schema = get_u16 (slice 2 2 remainder);
            suite = get_u16 (slice 4 2 remainder);
            featureFlags = get_u16 (slice 6 2 remainder)
        in if major \<noteq> formatMajor \<or> schema \<noteq> formatSchema \<or> \<not> isSupportedSuite suite \<or>
              featureFlags AND NOT supportedFeatureMask \<noteq> 0
           then Inl NewUnsupportedRoutingError
           else
             let frontHeaderLength = get_u32 (slice 8 4 remainder)
             in case metadataBlocksFromFrontHeader (ucast frontHeaderLength) of
                  None \<Rightarrow> Inl (NewInvalidStructureError StagePreamble)
                | Some _ \<Rightarrow> Inr \<lparr>pre_suite = suite, pre_featureFlags = featureFlags,
                                 pre_frontHeaderLength = frontHeaderLength\<rparr>)"

definition canonicalMetadataGeometry :: "u32 \<Rightarrow> (u64 \<times> u64) option" where
  "canonicalMetadataGeometry commentLength =
     do {
       decodedLength \<leftarrow> checkedAdd64 metadataDecodedBase (ucast commentLength);
       blocks \<leftarrow> checkedCeilDiv64 decodedLength rs128DataLength;
       encodedLength \<leftarrow> checkedMul64 blocks rs128CodewordLength;
       frontHeaderLength \<leftarrow> checkedAdd64 frontHeaderBase encodedLength;
       Some (blocks, frontHeaderLength)
     }"

section \<open>The capsule\<close>

record logicalCore =
  core_magic :: "byte list"
  core_major :: u16
  core_schema :: u16
  core_suite :: u16
  core_featureFlags :: u16
  core_frontHeaderLength :: u32
  core_volumeID :: "byte list"
  core_payloadKind :: byte
  core_recordProfile :: byte
  core_metadataProfile :: byte
  core_reserved :: byte
  core_plaintextLength :: u64
  core_recordCount :: u64
  core_xChaChaNoncePrefix :: "byte list"
  core_serpentIVPrefix :: "byte list"
  core_commentLength :: u32

record Candidate =
  cand_core :: logicalCore
  cand_role :: byte
  cand_credentialMode :: byte
  cand_keyfileMode :: byte
  cand_kdfProfile :: byte
  cand_keyfileCount :: u16
  cand_reserved :: "byte list"
  cand_argonSalt :: "byte list"
  cand_wrapNonce :: "byte list"
  cand_wrapSerpentIV :: "byte list"
  cand_wrappedVolumeKey :: "byte list"
  cand_replicaTag :: "byte list"
  cand_wrapTag :: "byte list"

text \<open>The lengths of the fixed arrays, which Go's types give.\<close>

definition wf_core :: "logicalCore \<Rightarrow> bool" where
  "wf_core core \<longleftrightarrow>
     length (core_magic core) = 4 \<and> length (core_volumeID core) = 32 \<and>
     length (core_xChaChaNoncePrefix core) = 16 \<and> length (core_serpentIVPrefix core) = 8"

definition wf_candidate :: "Candidate \<Rightarrow> bool" where
  "wf_candidate candidate \<longleftrightarrow>
     wf_core (cand_core candidate) \<and> length (cand_reserved candidate) = 2 \<and>
     length (cand_argonSalt candidate) = 16 \<and> length (cand_wrapNonce candidate) = 24 \<and>
     length (cand_wrapSerpentIV candidate) = 16 \<and>
     length (cand_wrappedVolumeKey candidate) = 32 \<and>
     length (cand_replicaTag candidate) = 64 \<and> length (cand_wrapTag candidate) = 64"

definition candidate_PayloadBodyRS :: "Candidate \<Rightarrow> bool" where
  "candidate_PayloadBodyRS candidate \<longleftrightarrow>
     core_featureFlags (cand_core candidate) AND payloadBodyRSFeatureMask \<noteq> 0"

text \<open>The 320 bytes of a decoded capsule, field by field.\<close>

definition decodeCore :: "byte list \<Rightarrow> logicalCore" where
  "decodeCore decoded =
     \<lparr>core_magic = slice 0 4 decoded,
      core_major = get_u16 (slice 4 2 decoded),
      core_schema = get_u16 (slice 6 2 decoded),
      core_suite = get_u16 (slice 8 2 decoded),
      core_featureFlags = get_u16 (slice 10 2 decoded),
      core_frontHeaderLength = get_u32 (slice 12 4 decoded),
      core_volumeID = slice 16 32 decoded,
      core_payloadKind = decoded ! 48,
      core_recordProfile = decoded ! 49,
      core_metadataProfile = decoded ! 50,
      core_reserved = decoded ! 51,
      core_plaintextLength = get_u64 (slice 52 8 decoded),
      core_recordCount = get_u64 (slice 60 8 decoded),
      core_xChaChaNoncePrefix = slice 68 16 decoded,
      core_serpentIVPrefix = slice 84 8 decoded,
      core_commentLength = get_u32 (slice 92 4 decoded)\<rparr>"

definition decodeCandidate :: "byte list \<Rightarrow> Candidate" where
  "decodeCandidate decoded =
     \<lparr>cand_core = decodeCore decoded,
      cand_role = decoded ! 96,
      cand_credentialMode = decoded ! 97,
      cand_keyfileMode = decoded ! 98,
      cand_kdfProfile = decoded ! 99,
      cand_keyfileCount = get_u16 (slice 100 2 decoded),
      cand_reserved = slice 102 2 decoded,
      cand_argonSalt = slice 104 16 decoded,
      cand_wrapNonce = slice 120 24 decoded,
      cand_wrapSerpentIV = slice 144 16 decoded,
      cand_wrappedVolumeKey = slice 160 32 decoded,
      cand_replicaTag = slice 192 64 decoded,
      cand_wrapTag = slice 256 64 decoded\<rparr>"

definition canonicalRecordCount :: "u64 \<Rightarrow> u64" where
  "canonicalRecordCount plaintextLength =
     (if plaintextLength = 0 then 0 else (plaintextLength - 1) div recordPlaintextMax + 1)"

definition validLogicalCore :: "logicalCore \<Rightarrow> bool" where
  "validLogicalCore core \<longleftrightarrow>
     (if core_magic core \<noteq> normalDiscriminator \<or>
         core_major core \<noteq> formatMajor \<or> core_schema core \<noteq> formatSchema \<or>
         \<not> isSupportedSuite (core_suite core) \<or>
         core_featureFlags core AND NOT (supportedFeatureMask OR d1DerivedRootFeatureMask) \<noteq> 0 \<or>
         core_payloadKind core < PayloadKindRaw \<or> core_payloadKind core > PayloadKindArchive \<or>
         core_recordProfile core \<noteq> 1 \<or> core_metadataProfile core \<noteq> 1 \<or>
         core_reserved core \<noteq> 0 \<or>
         unat (core_commentLength core) > maximumCommentLength \<or>
         core_recordCount core \<noteq> canonicalRecordCount (core_plaintextLength core) \<or>
         core_recordCount core \<ge> maximumRecordCount \<or>
         (core_suite core = SuiteStandard \<and> core_serpentIVPrefix core \<noteq> replicate 8 0)
      then False
      else case canonicalMetadataGeometry (core_commentLength core) of
             None \<Rightarrow> False
           | Some (_, expectedFrontHeader) \<Rightarrow>
               ucast (core_frontHeaderLength core) = expectedFrontHeader)"

definition kdfProfileForSuite :: "u16 \<Rightarrow> byte" where
  "kdfProfileForSuite suite = (if suite = SuiteParanoid then KDFProfileParanoid else KDFProfileNormal)"

definition validCandidateKDFProfile :: "Candidate \<Rightarrow> bool" where
  "validCandidateKDFProfile candidate \<longleftrightarrow>
     (if core_featureFlags (cand_core candidate) AND d1DerivedRootFeatureMask \<noteq> 0
      then cand_kdfProfile candidate = KDFProfileD1DerivedRoot
      else cand_kdfProfile candidate = kdfProfileForSuite (core_suite (cand_core candidate)))"

definition validCredentialTuple :: "byte \<Rightarrow> byte \<Rightarrow> u16 \<Rightarrow> bool" where
  "validCredentialTuple mode keyfileMode count \<longleftrightarrow>
     (if mode = CredentialModePassword then keyfileMode = KeyfileModeNone \<and> count = 0
      else if mode = CredentialModeKeyfiles \<or> mode = CredentialModeCombined then
        (keyfileMode = KeyfileModeOrdered \<or> keyfileMode = KeyfileModeUnordered) \<and>
        count \<ge> 1 \<and> count \<le> 64
      else False)"

definition isSupportedCapsuleRole :: "byte \<Rightarrow> bool" where
  "isSupportedCapsuleRole role \<longleftrightarrow> role = CapsuleRolePrimary \<or> role = CapsuleRoleBackup"

definition validateDecodedCapsule :: "byte list \<Rightarrow> byte \<Rightarrow> bool \<Rightarrow> pcv3_error + Candidate" where
  "validateDecodedCapsule decoded expectedRole derivedRoot =
     (if \<not> isSupportedCapsuleRole expectedRole then Inl InvalidFailureMapping
      else if length decoded \<noteq> decodedCapsuleLength
      then Inl (NewInvalidStructureError StageCapsuleStructure)
      else
        let candidate = decodeCandidate decoded in
        if \<not> validLogicalCore (cand_core candidate) \<or>
           cand_role candidate \<noteq> expectedRole \<or>
           \<not> isSupportedCapsuleRole (cand_role candidate) \<or>
           \<not> validCredentialTuple (cand_credentialMode candidate) (cand_keyfileMode candidate)
               (cand_keyfileCount candidate) \<or>
           cand_reserved candidate \<noteq> [0, 0] \<or>
           \<not> validCandidateKDFProfile candidate \<or>
           (core_featureFlags (cand_core candidate) AND d1DerivedRootFeatureMask \<noteq> 0) \<noteq> derivedRoot \<or>
           (core_suite (cand_core candidate) = SuiteStandard \<and>
            cand_wrapSerpentIV candidate \<noteq> replicate 16 0)
        then Inl (NewInvalidStructureError StageCapsuleStructure)
        else Inr candidate)"

end
