(* ===== verification/Geometry.thy ===== *)
theory Geometry
  imports Format
begin

text \<open>
  The physical layout of a normal volume (\<open>pcv3/geometry.go\<close>), the size a writer announces
  (\<open>pcv3/write_size.go\<close>) and the outer layout of a D1 container (\<open>pcv3/d1_outer.go\<close>), with
  the closed formulas they refine: natural-number functions that add up the lengths of the
  parts. All sizes are \<open>uint64\<close> with the code's overflow checks.
\<close>

section \<open>Constants\<close>

abbreviation (input) backupCapsuleLength :: u64 where "backupCapsuleLength \<equiv> 960"
abbreviation (input) trailerLength :: u64 where "trailerLength \<equiv> 48"
abbreviation (input) fixedSuffixLength :: u64 where "fixedSuffixLength \<equiv> 1008"
abbreviation (input) recordDescriptorSize :: u64 where "recordDescriptorSize \<equiv> 48"
abbreviation (input) recordTagSize :: u64 where "recordTagSize \<equiv> 64"
abbreviation (input) nonRSPayloadOverhead :: u64 where "nonRSPayloadOverhead \<equiv> 112"

definition fullRSPayloadRecord :: u64 where
  "fullRSPayloadRecord = recordDescriptorSize +
     ((recordPlaintextMax + recordTagSize + rs128DataLength - 1) div rs128DataLength)
       * rs128CodewordLength"

definition finalRSPayloadRecord :: u64 where
  "finalRSPayloadRecord = recordDescriptorSize +
     ((recordTagSize + rs128DataLength - 1) div rs128DataLength) * rs128CodewordLength"

lemma fullRSPayloadRecord_value: "fullRSPayloadRecord = 1114296"
  by (simp add: fullRSPayloadRecord_def)

lemma finalRSPayloadRecord_value: "finalRSPayloadRecord = 184"
  by (simp add: finalRSPayloadRecord_def)

section \<open>The layout\<close>

record Geometry =
  geo_metadataBlocks :: u64
  geo_payloadBodyRS :: bool
  geo_recordCount :: u64
  geo_frontHeaderLength :: int
  geo_payloadLength :: int
  geo_backupCapsuleOffset :: int
  geo_trailerOffset :: int
  geo_fileSize :: int

definition canonicalPayloadLength :: "u64 \<Rightarrow> u64 \<Rightarrow> bool \<Rightarrow> u64 option" where
  "canonicalPayloadLength plaintextLength recordCount payloadBodyRS =
     (if recordCount \<noteq> canonicalRecordCount plaintextLength \<or> recordCount \<ge> maximumRecordCount
      then None
      else if \<not> payloadBodyRS then
        do {
          withFinal \<leftarrow> checkedAdd64 recordCount 1;
          overhead \<leftarrow> checkedMul64 withFinal nonRSPayloadOverhead;
          checkedAdd64 plaintextLength overhead
        }
      else
        do {
          let fullRecords = plaintextLength div recordPlaintextMax;
          let partialLength = plaintextLength mod recordPlaintextMax;
          payloadLength \<leftarrow> checkedMul64 fullRecords fullRSPayloadRecord;
          payloadLength \<leftarrow>
            (if partialLength \<noteq> 0 then
               do {
                 bodyLength \<leftarrow> checkedAdd64 partialLength recordTagSize;
                 blocks \<leftarrow> checkedCeilDiv64 bodyLength rs128DataLength;
                 encodedBodyLength \<leftarrow> checkedMul64 blocks rs128CodewordLength;
                 partialRecordLength \<leftarrow> checkedAdd64 recordDescriptorSize encodedBodyLength;
                 checkedAdd64 payloadLength partialRecordLength
               }
             else Some payloadLength);
          checkedAdd64 payloadLength finalRSPayloadRecord
        })"

definition deriveCanonicalGeometry :: "Candidate \<Rightarrow> pcv3_error + Geometry" where
  "deriveCanonicalGeometry candidate =
     (let core = cand_core candidate;
          structure = NewInvalidStructureError StageCapsuleStructure;
          tail = NewInvalidStructureError StageTailGeometry in
      if \<not> validLogicalCore core then Inl structure
      else
        case canonicalMetadataGeometry (core_commentLength core) of
          None \<Rightarrow> Inl structure
        | Some (metadataBlocks, frontHeaderLength) \<Rightarrow>
            if frontHeaderLength \<noteq> ucast (core_frontHeaderLength core) then Inl structure
            else
              ebind (from_opt tail (canonicalPayloadLength (core_plaintextLength core)
                       (core_recordCount core) (candidate_PayloadBodyRS candidate)))
                (\<lambda>payloadLength.
              ebind (from_opt tail (checkedAdd64 frontHeaderLength payloadLength))
                (\<lambda>backupOffset.
              ebind (from_opt tail (checkedAdd64 backupOffset backupCapsuleLength))
                (\<lambda>trailerOffset.
              ebind (from_opt tail (checkedAdd64 backupOffset fixedSuffixLength))
                (\<lambda>expectedFileSize.
              ebind (from_opt tail (SafeUint64ToInt64 expectedFileSize)) (\<lambda>fileSize.
              ebind (from_opt tail (SafeUint64ToInt64 frontHeaderLength)) (\<lambda>frontHeaderOffset.
              ebind (from_opt tail (SafeUint64ToInt64 payloadLength)) (\<lambda>payloadSize.
              ebind (from_opt tail (SafeUint64ToInt64 backupOffset)) (\<lambda>backupCapsuleOffset.
              ebind (from_opt tail (SafeUint64ToInt64 trailerOffset)) (\<lambda>trailerFileOffset.
                Inr \<lparr>geo_metadataBlocks = metadataBlocks,
                     geo_payloadBodyRS = candidate_PayloadBodyRS candidate,
                     geo_recordCount = core_recordCount core,
                     geo_frontHeaderLength = frontHeaderOffset,
                     geo_payloadLength = payloadSize,
                     geo_backupCapsuleOffset = backupCapsuleOffset,
                     geo_trailerOffset = trailerFileOffset,
                     geo_fileSize = fileSize\<rparr>))))))))))"

definition DeriveGeometry :: "Candidate \<Rightarrow> u64 \<Rightarrow> pcv3_error + Geometry" where
  "DeriveGeometry candidate sourceSize =
     ebind (deriveCanonicalGeometry candidate) (\<lambda>geometry.
       case SafeUint64ToInt64 sourceSize of
         None \<Rightarrow> Inl (NewInvalidStructureError StageTailGeometry)
       | Some fileSize \<Rightarrow>
           if fileSize \<noteq> geo_fileSize geometry
           then Inl (NewInvalidStructureError StageTailGeometry)
           else Inr geometry)"

section \<open>The outer layout of a D1 container\<close>

record d1OuterGeometry =
  d1_innerLength :: u64
  d1_plaintextLength :: u64
  d1_bodyLength :: u64
  d1_fullRecords :: u64
  d1_finalCiphertextLength :: u64
  d1_recordCount :: u64

abbreviation (input) d1OuterChunkSize :: u64 where "d1OuterChunkSize \<equiv> 1048576"
abbreviation (input) d1OuterTagSize :: u64 where "d1OuterTagSize \<equiv> 64"
abbreviation (input) d1OuterPrefixLength :: u64 where "d1OuterPrefixLength \<equiv> 16"
abbreviation (input) d1OuterRecordLimit :: u64 where "d1OuterRecordLimit \<equiv> 281474976710656"

text \<open>Every failure here is the same one, at the stage \<open>StageD1Body\<close>: an option.\<close>

definition deriveD1OuterGeometry :: "u64 \<Rightarrow> d1OuterGeometry option" where
  "deriveD1OuterGeometry innerLength =
     do {
       plaintextLength \<leftarrow> checkedAdd64 d1OuterPrefixLength innerLength;
       let fullRecords = plaintextLength div d1OuterChunkSize;
       if fullRecords \<ge> d1OuterRecordLimit then None else
       do {
         let finalCiphertextLength = plaintextLength mod d1OuterChunkSize;
         recordCount \<leftarrow> checkedAdd64 fullRecords 1;
         tagBytes \<leftarrow> checkedMul64 recordCount d1OuterTagSize;
         bodyLength \<leftarrow> checkedAdd64 plaintextLength tagBytes;
         Some \<lparr>d1_innerLength = innerLength, d1_plaintextLength = plaintextLength,
               d1_bodyLength = bodyLength, d1_fullRecords = fullRecords,
               d1_finalCiphertextLength = finalCiphertextLength,
               d1_recordCount = recordCount\<rparr>
       }
     }"

definition parseD1OuterGeometry :: "u64 \<Rightarrow> d1OuterGeometry option" where
  "parseD1OuterGeometry bodyLength =
     (if bodyLength < d1OuterTagSize then None
      else
        do {
          let remaining = bodyLength - d1OuterTagSize;
          let outerUnit = d1OuterChunkSize + d1OuterTagSize;
          let fullRecords = remaining div outerUnit;
          consumed \<leftarrow> checkedMul64 fullRecords outerUnit;
          if consumed > remaining then None else
          do {
            let finalCiphertextLength = remaining - consumed;
            if finalCiphertextLength \<ge> d1OuterChunkSize \<or> fullRecords \<ge> d1OuterRecordLimit
            then None else
            do {
              fullPlaintext \<leftarrow> checkedMul64 fullRecords d1OuterChunkSize;
              plaintextLength \<leftarrow> checkedAdd64 fullPlaintext finalCiphertextLength;
              if plaintextLength < d1OuterPrefixLength then None else
              do {
                geometry \<leftarrow> deriveD1OuterGeometry (plaintextLength - d1OuterPrefixLength);
                if d1_bodyLength geometry \<noteq> bodyLength then None else Some geometry
              }
            }
          }
        })"

section \<open>The size announced before writing\<close>

datatype WriteSizeMode = WriteSizeNormal | WriteSizeD1 | WriteSizeOther

text \<open>A D1 container has two bootstraps of \<open>d1BootstrapLength\<close> bytes around its body. Every
  failure is \<open>errInvalidWriteSize\<close>.\<close>

abbreviation (input) d1BootstrapLength :: u64 where "d1BootstrapLength \<equiv> 320"

definition WriteCiphertextLength :: "WriteSizeMode \<Rightarrow> u64 \<Rightarrow> u32 \<Rightarrow> bool \<Rightarrow> u64 option" where
  "WriteCiphertextLength mode plaintextLength commentBytes payloadBodyRS =
     (if (mode \<noteq> WriteSizeNormal \<and> mode \<noteq> WriteSizeD1) \<or>
         unat commentBytes > maximumCommentLength then None
      else
        do {
          (_, frontLength) \<leftarrow> canonicalMetadataGeometry commentBytes;
          if frontLength > 4294967295 then None else
          do {
            payloadLength \<leftarrow> canonicalPayloadLength plaintextLength
              (canonicalRecordCount plaintextLength) payloadBodyRS;
            backupOffset \<leftarrow> checkedAdd64 frontLength payloadLength;
            fileLength \<leftarrow> checkedAdd64 backupOffset fixedSuffixLength;
            if uint fileLength > MaxInt64 then None
            else if mode = WriteSizeD1 then
              do {
                outer \<leftarrow> deriveD1OuterGeometry fileLength;
                fileLength \<leftarrow> checkedAdd64 (d1_bodyLength outer) (2 * d1BootstrapLength);
                if uint fileLength > MaxInt64 then None else Some fileLength
              }
            else Some fileLength
          }
        })"

section \<open>Closed formulas\<close>

text \<open>The layout as sums of natural numbers: what the checked arithmetic computes.\<close>

definition meta_blocks :: "nat \<Rightarrow> nat" where
  "meta_blocks comment = (80 + comment + 127) div 128"

definition front_len :: "nat \<Rightarrow> nat" where
  "front_len comment = 976 + 136 * meta_blocks comment"

definition rec_count :: "nat \<Rightarrow> nat" where
  "rec_count n = (n + 1048575) div 1048576"

definition rec_plain :: "nat \<Rightarrow> nat \<Rightarrow> nat" where
  "rec_plain n i = min 1048576 (n - i * 1048576)"

definition body_len :: "bool \<Rightarrow> nat \<Rightarrow> nat" where
  "body_len rs l = (if rs then ((l + 64 + 127) div 128) * 136 else l + 64)"

definition rec_len :: "bool \<Rightarrow> nat \<Rightarrow> nat \<Rightarrow> nat" where
  "rec_len rs n i = 48 + body_len rs (rec_plain n i)"

definition payload_len :: "bool \<Rightarrow> nat \<Rightarrow> nat" where
  "payload_len rs n = (\<Sum>i \<le> rec_count n. rec_len rs n i)"

definition file_len :: "bool \<Rightarrow> nat \<Rightarrow> nat \<Rightarrow> nat" where
  "file_len rs n comment = front_len comment + payload_len rs n + 1008"

lemma rec_count_div:
  "rec_count n = (if n mod 1048576 = 0 then n div 1048576 else n div 1048576 + 1)"
  using ceil_div_nat [of 1048576 n] by (simp add: rec_count_def)

lemma rec_plain_full: "i < n div 1048576 \<Longrightarrow> rec_plain n i = 1048576"
proof -
  assume "i < n div 1048576"
  then have "Suc i * 1048576 \<le> n div 1048576 * 1048576" by (simp del: mult_Suc)
  also have "\<dots> \<le> n" by simp
  finally show ?thesis by (simp add: rec_plain_def)
qed

lemma rec_plain_partial: "rec_plain n (n div 1048576) = n mod 1048576"
proof -
  have "n mod 1048576 < 1048576" by simp
  moreover have "n - n div 1048576 * 1048576 = n mod 1048576"
    by (simp add: minus_div_mult_eq_mod)
  ultimately show ?thesis by (simp add: rec_plain_def)
qed

lemma rec_plain_final: "rec_plain n (rec_count n) = 0"
proof -
  have "n \<le> rec_count n * 1048576"
    using div_mult_mod_eq [of n 1048576] mod_less_divisor [of 1048576 n]
    unfolding rec_count_div by (simp split: if_split, linarith?)
  then show ?thesis by (simp add: rec_plain_def)
qed

lemma rec_plain_le: "rec_plain n i \<le> 1048576"
  by (simp add: rec_plain_def)

text \<open>A sum over the records splits into the full ones, the partial one and the final one.\<close>

lemma sum_records:
  "(\<Sum>i \<le> rec_count n. f (rec_plain n i)) =
     n div 1048576 * f 1048576 + (if n mod 1048576 = 0 then 0 else f (n mod 1048576)) + f (0::nat)"
proof -
  let ?q = "n div 1048576"
  have full: "(\<Sum>i<?q. f (rec_plain n i)) = ?q * f 1048576"
    by (simp add: rec_plain_full)
  have "(\<Sum>i \<le> rec_count n. f (rec_plain n i)) =
      (\<Sum>i<rec_count n. f (rec_plain n i)) + f 0"
    using rec_plain_final [of n] by (simp add: lessThan_Suc_atMost [symmetric])
  also have "(\<Sum>i<rec_count n. f (rec_plain n i)) =
      ?q * f 1048576 + (if n mod 1048576 = 0 then 0 else f (n mod 1048576))"
    using full by (simp add: rec_count_div rec_plain_partial)
  finally show ?thesis by simp
qed

lemma payload_len_plain: "payload_len False n = n + (rec_count n + 1) * 112"
proof -
  have "payload_len False n = (\<Sum>i \<le> rec_count n. (\<lambda>l. 48 + (l + 64)) (rec_plain n i))"
    by (simp add: payload_len_def rec_len_def body_len_def)
  also have "\<dots> = n div 1048576 * 1048688 +
      (if n mod 1048576 = 0 then 0 else n mod 1048576 + 112) + 112"
    by (subst sum_records) simp
  also have "\<dots> = n + (rec_count n + 1) * 112"
    using div_mult_mod_eq [of n 1048576]
    by (cases "n mod 1048576 = 0") (simp_all only: rec_count_div if_True if_False, simp_all)
  finally show ?thesis .
qed

lemma payload_len_rs:
  "payload_len True n = n div 1048576 * 1114296 +
     (if n mod 1048576 = 0 then 0 else 48 + body_len True (n mod 1048576)) + 184"
proof -
  have "payload_len True n = (\<Sum>i \<le> rec_count n. (\<lambda>l. 48 + body_len True l) (rec_plain n i))"
    by (simp add: payload_len_def rec_len_def)
  also have "\<dots> = n div 1048576 * 1114296 +
     (if n mod 1048576 = 0 then 0 else 48 + body_len True (n mod 1048576)) + 184"
    by (subst sum_records) (simp add: body_len_def)
  finally show ?thesis .
qed

section \<open>The checked arithmetic computes the closed formulas\<close>

lemma unat_ucast_u32 [simp]: "unat (ucast (w :: u32) :: u64) = unat w"
  using order_less_trans [OF unat_less_literal(3) [of w], of "2 ^ 64"]
  by (simp add: unsigned_ucast_eq take_bit_nat_eq_self_iff del: unat_less_literal)

text \<open>A strict successor in 64 bits: incrementing below the top does not wrap.\<close>

lemma unat_plus_one: "unat (w :: u64) + 1 < 2 ^ 64 \<Longrightarrow> unat (w + 1) = unat w + 1"
  using add64.Some_iff [of w 1 "w + 1"] add64.fits [of w 1] by (simp add: add64.exact)

lemma unat_canonicalRecordCount: "unat (canonicalRecordCount n) = rec_count (unat n)"
proof (cases "n = 0")
  case True
  then show ?thesis by (simp add: canonicalRecordCount_def rec_count_def)
next
  case False
  then have pos: "0 < unat n" by (simp add: unat_gt_0)
  have m1: "unat (n - 1) = unat n - 1" using False by (rule unat_minus_one)
  have q: "unat ((n - 1) div 1048576) = (unat n - 1) div 1048576"
    by (simp add: unat_div m1)
  have "(unat n - 1) div 1048576 \<le> unat n - 1" by (rule div_le_dividend)
  then have "(unat n - 1) div 1048576 + 1 < 2 ^ 64"
    using unat_less_literal(4) [of n] pos by (simp del: unat_less_literal)
  then have "unat ((n - 1) div 1048576 + 1) = (unat n - 1) div 1048576 + 1"
    using unat_plus_one [of "(n - 1) div 1048576"] q by simp
  moreover have "rec_count (unat n) = (unat n - 1) div 1048576 + 1"
  proof -
    have "unat n + 1048575 = (unat n - 1) + 1048576" using pos by linarith
    then show ?thesis by (simp add: rec_count_def del: add_numeral_left)
  qed
  ultimately show ?thesis using False by (simp add: canonicalRecordCount_def)
qed

lemma canonicalMetadataGeometry_exact:
  obtains b f where "canonicalMetadataGeometry c = Some (b, f)"
    and "unat b = meta_blocks (unat c)" and "unat f = front_len (unat c)"
proof -
  have "unat (80 :: u64) + unat (ucast c :: u64) < 2 ^ 64"
    using unat_less_literal(3) [of c] by (simp del: unat_less_literal)
  then obtain d where d: "checkedAdd64 80 (ucast c) = Some d" "unat d = 80 + unat c"
    using add64.fits [of 80 "ucast c"] by auto
  obtain b where b: "checkedCeilDiv64 d 128 = Some b" "unat b = (unat d + 127) div 128"
    using checkedCeilDiv64_total [of 128 d] by auto
  have bb: "unat b = meta_blocks (unat c)" by (simp add: b d meta_blocks_def add.assoc)
  have small: "meta_blocks (unat c) \<le> 4294967296"
    using unat_less_literal(3) [of c] unfolding meta_blocks_def by linarith
  then obtain e where e: "checkedMul64 b 136 = Some e" "unat e = 136 * meta_blocks (unat c)"
    using mul64.fits [of b 136] bb by auto
  from small obtain f where f: "checkedAdd64 976 e = Some f" "unat f = front_len (unat c)"
    using add64.fits [of 976 e] e by (auto simp: front_len_def)
  show thesis by (rule that [of b f]) (simp_all add: canonicalMetadataGeometry_def d(1) b(1) e(1) f bb)
qed

lemma canonicalMetadataGeometry_Some_iff:
  "canonicalMetadataGeometry c = Some (b, f) \<longleftrightarrow>
     unat b = meta_blocks (unat c) \<and> unat f = front_len (unat c)"
proof -
  obtain b' f' where "canonicalMetadataGeometry c = Some (b', f')"
    and "unat b' = meta_blocks (unat c)" and "unat f' = front_len (unat c)"
    by (rule canonicalMetadataGeometry_exact)
  then show ?thesis by (auto simp: word_unat_eq_iff)
qed

lemma meta_blocks_bounds: "c \<le> 99999 \<Longrightarrow> 1 \<le> meta_blocks c \<and> meta_blocks c \<le> 782"
  unfolding meta_blocks_def by linarith

text \<open>The blocks read off the preamble's length are the blocks the comment length gives.\<close>

lemma metadataBlocksFromFrontHeader_canonical:
  assumes "canonicalMetadataGeometry c = Some (b, f)" and "unat c \<le> 99999"
  shows "metadataBlocksFromFrontHeader f = Some b"
proof -
  have b: "unat b = meta_blocks (unat c)" and f: "unat f = 976 + 136 * meta_blocks (unat c)"
    using assms(1) by (auto simp: canonicalMetadataGeometry_Some_iff front_len_def)
  have bounds: "1 \<le> unat b \<and> unat b \<le> 782"
    using meta_blocks_bounds [OF assms(2)] b by simp
  have "unat (976 + 136 * b) = unat f"
    using bounds b f by (simp add: unat_word_ariths)
  then have fe: "f = 976 + 136 * b" by (simp add: word_unat_eq_iff)
  have "\<not> f < 1112" "\<not> f > 107328"
    using bounds b f by (simp_all add: word_less_nat_alt)
  moreover have "(f - 976) = 136 * b" by (simp add: fe)
  moreover have "136 * b mod 136 = 0" "136 * b div 136 = b"
    using bounds by (simp_all add: word_unat_eq_iff unat_mod unat_div unat_word_ariths)
  moreover have "b \<ge> 1" "b \<le> 782"
    using bounds by (simp_all add: word_le_nat_alt)
  ultimately show ?thesis by (simp add: metadataBlocksFromFrontHeader_def)
qed

text \<open>Conversely every length the preamble admits is canonical for some comment length.\<close>

lemma metadataBlocksFromFrontHeader_Some:
  assumes "metadataBlocksFromFrontHeader f = Some b"
  shows "unat f = 976 + 136 * unat b \<and> 1 \<le> unat b \<and> unat b \<le> 782"
proof -
  from assms have "\<not> f < 1112" and m: "(f - 976) mod 136 = 0" and b: "b = (f - 976) div 136"
    and bounds: "1 \<le> b" "b \<le> 782"
    by (auto simp: metadataBlocksFromFrontHeader_def Let_def split: if_splits)
  then have "unat (f - 976) = unat f - 976" and "976 \<le> unat f"
    by (simp_all add: word_less_nat_alt unat_sub word_le_nat_alt)
  moreover have "unat (f - 976) mod 136 = 0" using m by (simp add: word_unat_eq_iff unat_mod)
  moreover have "unat b = unat (f - 976) div 136" by (simp add: b unat_div)
  ultimately have "unat f = 976 + 136 * unat b" by (simp add: mod_eq_0_iff_dvd)
  with bounds show ?thesis by (simp add: word_le_nat_alt)
qed

section \<open>The payload length\<close>

lemma unat_full_rs: "unat fullRSPayloadRecord = 1114296" and unat_final_rs: "unat finalRSPayloadRecord = 184"
  by (simp_all add: fullRSPayloadRecord_value finalRSPayloadRecord_value)

lemma rec_count_bound: "n < 2 ^ 64 \<Longrightarrow> rec_count n \<le> 17592186044416"
  by (simp add: rec_count_def)

text \<open>The limit on the number of records never refuses a 64-bit length.\<close>

lemma canonicalRecordCount_below_limit: "canonicalRecordCount n < maximumRecordCount"
  using rec_count_bound [OF unat_u64_less [of n]]
  by (simp add: word_less_nat_alt unat_canonicalRecordCount)

lemma payload_plain_exact:
  "(do { withFinal \<leftarrow> checkedAdd64 (canonicalRecordCount n) 1;
         overhead \<leftarrow> checkedMul64 withFinal 112;
         checkedAdd64 n overhead }) = Some p \<longleftrightarrow> unat p = payload_len False (unat n)"
proof -
  have small: "rec_count (unat n) \<le> 17592186044416"
    by (rule rec_count_bound) (rule unat_u64_less)
  then obtain w where w: "checkedAdd64 (canonicalRecordCount n) 1 = Some w"
      "unat w = rec_count (unat n) + 1"
    using add64.fits [of "canonicalRecordCount n" 1] by (auto simp: unat_canonicalRecordCount)
  from small obtain o' where o: "checkedMul64 w 112 = Some o'"
      "unat o' = (rec_count (unat n) + 1) * 112"
    using mul64.fits [of w 112] w by auto
  show ?thesis by (simp add: w o add64.Some_iff payload_len_plain)
qed

lemma unat_partial_record:
  assumes l: "unat l < 1048576"
  shows "(do { bodyLength \<leftarrow> checkedAdd64 l 64;
               blocks \<leftarrow> checkedCeilDiv64 bodyLength 128;
               encodedBodyLength \<leftarrow> checkedMul64 blocks 136;
               partialRecordLength \<leftarrow> checkedAdd64 48 encodedBodyLength;
               checkedAdd64 q partialRecordLength }) = Some p \<longleftrightarrow>
         unat p = unat q + (48 + body_len True (unat l))"
proof -
  from l obtain b where b: "checkedAdd64 l 64 = Some b" "unat b = unat l + 64"
    using add64.fits [of l 64] by auto
  obtain k where k: "checkedCeilDiv64 b 128 = Some k" "unat k = (unat l + 64 + 127) div 128"
    using checkedCeilDiv64_total [of 128 b] b by auto
  have small: "(unat l + 64 + 127) div 128 \<le> 8194" using l by linarith
  then obtain e where e: "checkedMul64 k 136 = Some e" "unat e = body_len True (unat l)"
    using mul64.fits [of k 136] k by (auto simp: body_len_def)
  have "body_len True (unat l) \<le> 1114384" using small by (simp add: body_len_def)
  then obtain r where r: "checkedAdd64 48 e = Some r" "unat r = 48 + body_len True (unat l)"
    using add64.fits [of 48 e] e by auto
  show ?thesis by (simp add: b k e r add64.Some_iff)
qed

text \<open>An intermediate sum fits whenever the final one does.\<close>

lemma ex_sum_u64: "(\<exists>v :: u64. unat v = a \<and> unat (p :: u64) = unat v + b) \<longleftrightarrow> unat p = a + b"
proof
  assume p: "unat p = a + b"
  then have "a < 2 ^ 64" using unat_u64_less [of p] by linarith
  then have "unat (word_of_nat a :: u64) = a" by (simp add: unat_of_nat)
  with p show "\<exists>v :: u64. unat v = a \<and> unat p = unat v + b" by auto
qed auto

lemma ex_sum2_u64:
  "(\<exists>v :: u64. unat v = a \<and> (\<exists>w :: u64. unat w = unat v + b \<and> unat (p :: u64) = unat w + c))
     \<longleftrightarrow> unat p = a + b + c"
proof -
  have "(\<exists>w :: u64. unat w = unat v + b \<and> unat p = unat w + c) \<longleftrightarrow> unat p = unat v + (b + c)"
    for v :: u64 by (simp add: ex_sum_u64 add.assoc)
  then show ?thesis by (simp add: ex_sum_u64 add.assoc)
qed

lemma bind2_iff:
  assumes "\<And>v. m = Some v \<longleftrightarrow> A v" and "\<And>v w. F v = Some w \<longleftrightarrow> B v w" and "\<And>w. G w = Some p \<longleftrightarrow> C w"
  shows "Option.bind m (\<lambda>v. Option.bind (F v) G) = Some p \<longleftrightarrow> (\<exists>v. A v \<and> (\<exists>w. B v w \<and> C w))"
  using assms by (simp add: bind_eq_Some_conv)

lemma payload_rs_exact:
  "(do { payloadLength \<leftarrow> checkedMul64 (n div 1048576) fullRSPayloadRecord;
         payloadLength \<leftarrow>
           (if n mod 1048576 \<noteq> 0 then
              do { bodyLength \<leftarrow> checkedAdd64 (n mod 1048576) 64;
                   blocks \<leftarrow> checkedCeilDiv64 bodyLength 128;
                   encodedBodyLength \<leftarrow> checkedMul64 blocks 136;
                   partialRecordLength \<leftarrow> checkedAdd64 48 encodedBodyLength;
                   checkedAdd64 payloadLength partialRecordLength }
            else Some payloadLength);
         checkedAdd64 payloadLength finalRSPayloadRecord }) = Some p \<longleftrightarrow>
   unat p = payload_len True (unat n)"
proof -
  have m: "unat (n mod 1048576) = unat n mod 1048576" and q: "unat (n div 1048576) = unat n div 1048576"
    by (simp_all add: unat_mod unat_div)
  have zero: "n mod 1048576 = 0 \<longleftrightarrow> unat n mod 1048576 = 0"
    by (simp add: word_unat_eq_iff m)
  have lt: "unat (n mod 1048576) < 1048576" by (simp add: m)
  show ?thesis
  proof (cases "unat n mod 1048576 = 0")
    case True
    then show ?thesis using zero
      by (simp add: bind_eq_Some_conv mul64.Some_iff add64.Some_iff ex_sum_u64 payload_len_rs
          unat_final_rs unat_full_rs q)
  next
    case False
    have "(\<exists>v :: u64. unat v = unat n div 1048576 * 1114296 \<and>
        (\<exists>w :: u64. unat w = unat v + (48 + body_len True (unat n mod 1048576)) \<and>
          unat p = unat w + 184)) \<longleftrightarrow> unat p = payload_len True (unat n)"
      using False by (simp add: ex_sum_u64 ex_sum2_u64 payload_len_rs add.assoc)
    moreover from False zero have nz: "n mod 1048576 \<noteq> 0" by simp
    ultimately show ?thesis
      unfolding if_P [OF nz]
      by (subst bind2_iff [OF mul64.Some_iff unat_partial_record [OF lt] add64.Some_iff])
        (simp only: unat_final_rs unat_full_rs q m)
  qed
qed

lemma canonicalPayloadLength_Some_iff:
  "canonicalPayloadLength n rc rs = Some p \<longleftrightarrow>
     rc = canonicalRecordCount n \<and> unat p = payload_len rs (unat n)"
proof (cases "rc = canonicalRecordCount n")
  case True
  have "\<not> canonicalRecordCount n \<ge> maximumRecordCount"
    using canonicalRecordCount_below_limit [of n] by simp
  with True payload_plain_exact [of n p] payload_rs_exact [of n p] show ?thesis
    unfolding canonicalPayloadLength_def by (simp add: Let_def)
next
  case False
  then show ?thesis by (simp add: canonicalPayloadLength_def)
qed

section \<open>The derived geometry is the closed layout\<close>

definition layout_of :: "bool \<Rightarrow> nat \<Rightarrow> nat \<Rightarrow> Geometry" where
  "layout_of rs n c =
     \<lparr>geo_metadataBlocks = word_of_nat (meta_blocks c), geo_payloadBodyRS = rs,
      geo_recordCount = word_of_nat (rec_count n), geo_frontHeaderLength = int (front_len c),
      geo_payloadLength = int (payload_len rs n),
      geo_backupCapsuleOffset = int (front_len c + payload_len rs n),
      geo_trailerOffset = int (front_len c + payload_len rs n + 960),
      geo_fileSize = int (file_len rs n c)\<rparr>"

lemma Safe_Some_nat: "SafeUint64ToInt64 v = Some i \<longleftrightarrow> i = int (unat v) \<and> unat v < 2 ^ 63"
  by (simp add: SafeUint64ToInt64_Some_iff uint_nat del: of_nat_unat)

lemma validLogicalCore_canonical:
  assumes "validLogicalCore core"
  shows "core_recordCount core = canonicalRecordCount (core_plaintextLength core)"
    and "unat (core_commentLength core) \<le> 99999"
    and "canonicalMetadataGeometry (core_commentLength core) =
           Some (word_of_nat (meta_blocks (unat (core_commentLength core))),
                 ucast (core_frontHeaderLength core))"
    and "unat (core_frontHeaderLength core) = front_len (unat (core_commentLength core))"
proof -
  show "core_recordCount core = canonicalRecordCount (core_plaintextLength core)"
    and "unat (core_commentLength core) \<le> 99999"
    using assms by (auto simp: validLogicalCore_def split: if_splits)
  obtain b f where bf: "canonicalMetadataGeometry (core_commentLength core) = Some (b, f)"
      "unat b = meta_blocks (unat (core_commentLength core))"
      "unat f = front_len (unat (core_commentLength core))"
    by (rule canonicalMetadataGeometry_exact)
  then have f: "ucast (core_frontHeaderLength core) = f"
    using assms by (simp add: validLogicalCore_def split: if_splits)
  have "b = word_of_nat (meta_blocks (unat (core_commentLength core)))"
    by (simp add: bf(2) [symmetric])
  with f bf(1) show "canonicalMetadataGeometry (core_commentLength core) =
           Some (word_of_nat (meta_blocks (unat (core_commentLength core))),
                 ucast (core_frontHeaderLength core))" by simp
  have "unat (ucast (core_frontHeaderLength core) :: u64) = front_len (unat (core_commentLength core))"
    using f bf(3) by simp
  then show "unat (core_frontHeaderLength core) = front_len (unat (core_commentLength core))"
    by simp
qed

lemma deriveCanonicalGeometry_Inr_iff:
  fixes candidate :: Candidate
  defines "core \<equiv> cand_core candidate" and "rs \<equiv> candidate_PayloadBodyRS candidate"
  defines "n \<equiv> unat (core_plaintextLength core)" and "c \<equiv> unat (core_commentLength core)"
  shows "deriveCanonicalGeometry candidate = Inr g \<longleftrightarrow>
           validLogicalCore core \<and> file_len rs n c < 2 ^ 63 \<and> g = layout_of rs n c"
proof (cases "validLogicalCore core")
  case False
  then show ?thesis by (simp add: deriveCanonicalGeometry_def core_def)
next
  case True
  note can = validLogicalCore_canonical [OF True, folded c_def]
  let ?F = "ucast (core_frontHeaderLength core) :: u64"
  have F: "unat ?F = front_len c" using can(4) by simp
  have rc: "word_of_nat (rec_count n) = core_recordCount core"
    unfolding can(1) n_def unat_canonicalRecordCount [symmetric] by simp
  have pay: "canonicalPayloadLength (core_plaintextLength core) (core_recordCount core) rs = Some p
      \<longleftrightarrow> unat p = payload_len rs n" for p
    by (simp add: canonicalPayloadLength_Some_iff can(1) n_def)
  have "deriveCanonicalGeometry candidate = Inr g \<longleftrightarrow>
      (\<exists>(p :: u64) (bo :: u64) (to :: u64) (fs :: u64). unat p = payload_len rs n \<and>
        unat bo = front_len c + unat p \<and> unat to = unat bo + 960 \<and> unat fs = unat bo + 1008 \<and>
        unat fs < 2 ^ 63 \<and> front_len c < 2 ^ 63 \<and> unat p < 2 ^ 63 \<and> unat bo < 2 ^ 63 \<and>
        unat to < 2 ^ 63 \<and>
        \<lparr>geo_metadataBlocks = word_of_nat (meta_blocks c), geo_payloadBodyRS = rs,
             geo_recordCount = core_recordCount core, geo_frontHeaderLength = int (front_len c),
             geo_payloadLength = int (unat p), geo_backupCapsuleOffset = int (unat bo),
             geo_trailerOffset = int (unat to), geo_fileSize = int (unat fs)\<rparr> = g)"
    unfolding deriveCanonicalGeometry_def Let_def core_def [symmetric] rs_def [symmetric]
    using True
    by (simp add: can(3) ebind_eq_Inr pay add64.Some_iff Safe_Some_nat F can(4)
        del: of_nat_unat)
  also have "\<dots> \<longleftrightarrow> file_len rs n c < 2 ^ 63 \<and> g = layout_of rs n c"
  proof
    assume "file_len rs n c < 2 ^ 63 \<and> g = layout_of rs n c"
    then have sz: "front_len c + payload_len rs n + 1008 < 2 ^ 63" and g: "g = layout_of rs n c"
      by (simp_all add: file_len_def)
    have w: "unat (word_of_nat k :: u64) = k" if "k \<le> front_len c + payload_len rs n + 1008" for k
      using that sz by (simp add: unat_of_nat)
    show "\<exists>(p :: u64) (bo :: u64) (to :: u64) (fs :: u64). unat p = payload_len rs n \<and>
        unat bo = front_len c + unat p \<and> unat to = unat bo + 960 \<and> unat fs = unat bo + 1008 \<and>
        unat fs < 2 ^ 63 \<and> front_len c < 2 ^ 63 \<and> unat p < 2 ^ 63 \<and> unat bo < 2 ^ 63 \<and>
        unat to < 2 ^ 63 \<and>
        \<lparr>geo_metadataBlocks = word_of_nat (meta_blocks c), geo_payloadBodyRS = rs,
             geo_recordCount = core_recordCount core, geo_frontHeaderLength = int (front_len c),
             geo_payloadLength = int (unat p), geo_backupCapsuleOffset = int (unat bo),
             geo_trailerOffset = int (unat to), geo_fileSize = int (unat fs)\<rparr> = g"
      by (rule exI [of _ "word_of_nat (payload_len rs n) :: u64"],
          rule exI [of _ "word_of_nat (front_len c + payload_len rs n) :: u64"],
          rule exI [of _ "word_of_nat (front_len c + payload_len rs n + 960) :: u64"],
          rule exI [of _ "word_of_nat (front_len c + payload_len rs n + 1008) :: u64"])
        (use sz g in \<open>simp add: w g layout_of_def file_len_def rc del: of_nat_add of_nat_unat\<close>)
  qed (auto simp: layout_of_def file_len_def rc simp del: of_nat_unat)
  finally show ?thesis using True by simp
qed

section \<open>The announced size\<close>

lemma front_len_bound: "c \<le> 99999 \<Longrightarrow> front_len c \<le> 107328"
  using meta_blocks_bounds [of c] by (simp add: front_len_def)

lemma uint_le_MaxInt64: "\<not> uint w > MaxInt64 \<longleftrightarrow> unat w < 2 ^ 63" for w :: u64
  by (simp add: MaxInt64_def uint_nat not_less del: of_nat_unat) linarith

lemma if_Some_iff: "(if b then None else Some l) = Some w \<longleftrightarrow> \<not> b \<and> l = w"
  by simp

lemma WriteCiphertextLength_normal:
  "WriteCiphertextLength WriteSizeNormal n c rs = Some w \<longleftrightarrow>
     unat c \<le> 99999 \<and> unat w = file_len rs (unat n) (unat c) \<and> unat w < 2 ^ 63"
proof (cases "unat c \<le> 99999")
  case False
  then show ?thesis by (simp add: WriteCiphertextLength_def)
next
  case True
  obtain b f where bf: "canonicalMetadataGeometry c = Some (b, f)" "unat f = front_len (unat c)"
    by (rule canonicalMetadataGeometry_exact)
  have "\<not> f > 4294967295"
    using front_len_bound [OF True] bf(2) by (simp add: word_less_nat_alt)
  then have "WriteCiphertextLength WriteSizeNormal n c rs = Some w \<longleftrightarrow>
      Option.bind (canonicalPayloadLength n (canonicalRecordCount n) rs) (\<lambda>p.
        Option.bind (checkedAdd64 f p) (\<lambda>bo. Option.bind (checkedAdd64 bo 1008) (\<lambda>l.
          if uint l > MaxInt64 then None else Some l))) = Some w"
    using True bf by (simp add: WriteCiphertextLength_def cong: if_cong)
  also have "\<dots> \<longleftrightarrow> (\<exists>p :: u64. unat p = payload_len rs (unat n) \<and>
      (\<exists>bo :: u64. unat bo = front_len (unat c) + unat p \<and> unat w = unat bo + 1008)) \<and>
      unat w < 2 ^ 63"
    by (simp add: bind_eq_Some_conv canonicalPayloadLength_Some_iff add64.Some_iff bf(2)
        if_Some_iff uint_le_MaxInt64) blast
  also have "\<dots> \<longleftrightarrow> unat w = file_len rs (unat n) (unat c) \<and> unat w < 2 ^ 63"
    unfolding add.commute [of "front_len (unat c)" "unat _"] ex_sum2_u64 file_len_def
    by (simp only: add.commute)
  finally show ?thesis using True by simp
qed

section \<open>The outer container\<close>

text \<open>A body of \<open>m\<close> plaintext bytes in 1 MiB records, each with its tag, and a final record.\<close>

definition outer_body_len :: "nat \<Rightarrow> nat" where
  "outer_body_len m = m + 64 * (m div 1048576 + 1)"

lemma deriveD1OuterGeometry_Some_iff:
  "deriveD1OuterGeometry i = Some g \<longleftrightarrow>
     outer_body_len (unat i + 16) < 2 ^ 64 \<and>
     g = \<lparr>d1_innerLength = i, d1_plaintextLength = i + 16,
          d1_bodyLength = word_of_nat (outer_body_len (unat i + 16)),
          d1_fullRecords = (i + 16) div 1048576,
          d1_finalCiphertextLength = (i + 16) mod 1048576,
          d1_recordCount = (i + 16) div 1048576 + 1\<rparr>"
proof (cases "unat i + 16 < 2 ^ 64")
  case False
  then have "checkedAdd64 16 i = None" by (simp add: add64.None_iff not_less)
  with False show ?thesis by (simp add: deriveD1OuterGeometry_def outer_body_len_def)
next
  case True
  let ?p = "i + 16"
  have p: "unat ?p = unat i + 16" using True by (subst unat_add_lem [THEN iffD1]) simp_all
  have a: "checkedAdd64 16 i = Some ?p" 
    using p unfolding add64.Some_iff by simp
  let ?q = "unat ?p div 1048576"
  have q: "unat (?p div 1048576) = ?q" by (simp add: unat_div)
  have qs: "?q \<le> 17592186044416" using unat_less_literal(4) [of ?p] by linarith
  have r: "checkedAdd64 (?p div 1048576) 1 = Some (?p div 1048576 + 1)"
    and ur: "unat (?p div 1048576 + 1) = ?q + 1"
    using qs q unat_plus_one [of "?p div 1048576"] by (simp_all add: add64.Some_iff)
  obtain t where t: "checkedMul64 (?p div 1048576 + 1) 64 = Some t" "unat t = (?q + 1) * 64"
    using mul64.fits [of "?p div 1048576 + 1" 64] qs ur by auto
  have body: "unat ?p + unat t = outer_body_len (unat i + 16)"
    by (simp add: t p outer_body_len_def)
  have lim: "\<not> ?p div 1048576 \<ge> 281474976710656"
    using qs q by (simp add: word_le_nat_alt)
  show ?thesis
    using lim by (auto simp: deriveD1OuterGeometry_def a r t(1) Let_def add64.exact [of ?p t, unfolded body])
qed

lemma parseD1OuterGeometry_derive:
  assumes "deriveD1OuterGeometry i = Some g"
  shows "parseD1OuterGeometry (d1_bodyLength g) = Some g"
proof -
  let ?m = "unat i + 16"
  let ?q = "?m div 1048576" and ?r = "?m mod 1048576"
  have fits: "outer_body_len ?m < 2 ^ 64"
    and g: "g = \<lparr>d1_innerLength = i, d1_plaintextLength = i + 16,
          d1_bodyLength = word_of_nat (outer_body_len ?m),
          d1_fullRecords = (i + 16) div 1048576,
          d1_finalCiphertextLength = (i + 16) mod 1048576,
          d1_recordCount = (i + 16) div 1048576 + 1\<rparr>"
    using assms by (simp_all add: deriveD1OuterGeometry_Some_iff)
  let ?b = "d1_bodyLength g"
  have b: "unat ?b = outer_body_len ?m" using fits by (simp add: g unat_of_nat)
  have split: "outer_body_len ?m = 1048640 * ?q + ?r + 64"
    using div_mult_mod_eq [of ?m 1048576] by (simp add: outer_body_len_def)
  have ge: "\<not> ?b < 64" using b split by (simp add: word_less_nat_alt)
  have rem: "unat (?b - 64) = 1048640 * ?q + ?r"
    using ge b split by (simp add: unat_sub word_less_nat_alt word_le_nat_alt)
  have rl: "?r < 1048640" by (rule less_trans [of _ 1048576]) simp_all
  have full: "unat ((?b - 64) div 1048640) = ?q"
    using rl by (simp add: unat_div rem)
  obtain c where c: "checkedMul64 ((?b - 64) div 1048640) 1048640 = Some c" "unat c = ?q * 1048640"
    using mul64.fits [of "(?b - 64) div 1048640" 1048640] fits split full by auto
  have cle: "\<not> c > ?b - 64" using c(2) rem by (simp add: word_less_nat_alt)
  have fin: "unat (?b - 64 - c) = ?r"
    using cle c(2) rem by (simp add: unat_sub word_less_nat_alt word_le_nat_alt)
  have mlt: "?m < 18446744073709551616" using fits by (simp add: outer_body_len_def)
  then have "?q \<le> 17592186044416" by linarith
  then have lim: "\<not> (?b - 64 - c \<ge> 1048576 \<or> (?b - 64) div 1048640 \<ge> 281474976710656)"
    using fin full by (simp add: word_le_nat_alt not_le)
  obtain fp where fp: "checkedMul64 ((?b - 64) div 1048640) 1048576 = Some fp"
      "unat fp = ?q * 1048576"
    using mul64.fits [of "(?b - 64) div 1048640" 1048576] fits split full by auto
  have mm: "?q * 1048576 + ?r = ?m" by simp
  from mlt have p: "unat (i + 16) = ?m" by (subst unat_add_lem [THEN iffD1]) simp_all
  have pl: "checkedAdd64 fp (?b - 64 - c) = Some (i + 16)"
    unfolding add64.Some_iff fp(2) fin p mm ..
  have "\<not> i + 16 < 16" using p by (simp add: word_less_nat_alt)
  then show ?thesis
    using ge cle lim assms by (simp add: parseD1OuterGeometry_def Let_def c(1) fp(1) pl)
qed

lemma parseD1OuterGeometry_sound:
  assumes "parseD1OuterGeometry b = Some g"
  shows "deriveD1OuterGeometry (d1_innerLength g) = Some g \<and> d1_bodyLength g = b"
proof -
  from assms obtain i where "deriveD1OuterGeometry i = Some g" and "d1_bodyLength g = b"
    by (auto simp: parseD1OuterGeometry_def Let_def bind_eq_Some_conv split: if_splits)
  moreover from this have "d1_innerLength g = i" by (simp add: deriveD1OuterGeometry_Some_iff)
  ultimately show ?thesis by simp
qed

lemma WriteCiphertextLength_d1:
  "WriteCiphertextLength WriteSizeD1 n c rs = Some w \<longleftrightarrow>
     (\<exists>inner. WriteCiphertextLength WriteSizeNormal n c rs = Some inner \<and>
        unat w = outer_body_len (unat inner + 16) + 640 \<and> unat w < 2 ^ 63)"
proof -
  have "WriteCiphertextLength WriteSizeD1 n c rs =
      Option.bind (WriteCiphertextLength WriteSizeNormal n c rs) (\<lambda>inner.
        Option.bind (deriveD1OuterGeometry inner) (\<lambda>outer.
          Option.bind (checkedAdd64 (d1_bodyLength outer) (2 * d1BootstrapLength)) (\<lambda>l.
            if uint l > MaxInt64 then None else Some l)))"
  proof (cases "canonicalMetadataGeometry c")
    case (Some bf)
    have push: "Option.bind (if b then None else m) F = (if b then None else Option.bind m F)"
      for b and m :: "u64 option" and F :: "u64 \<Rightarrow> u64 option" by simp
    show ?thesis
      by (cases bf) (simp add: Some WriteCiphertextLength_def bind_assoc push cong: if_cong)
  qed (simp add: WriteCiphertextLength_def)
  moreover have "(\<exists>g. deriveD1OuterGeometry inner = Some g \<and> unat w = unat (d1_bodyLength g) + 640) \<longleftrightarrow>
      unat w = outer_body_len (unat inner + 16) + 640" for inner
  proof -
    have "outer_body_len (unat inner + 16) < 2 ^ 64" if "unat w = outer_body_len (unat inner + 16) + 640"
      using that unat_u64_less [of w] by linarith
    then show ?thesis
      by (auto simp: deriveD1OuterGeometry_Some_iff unat_of_nat)
  qed
  ultimately show ?thesis
    by (simp add: bind_eq_Some_conv add64.Some_iff if_Some_iff uint_le_MaxInt64) blast
qed

section \<open>Properties\<close>

text \<open>C24: the overflow-checked derivation of a volume's layout computes exactly the closed
  formula. It succeeds for a valid core whose file length stays below \<open>2 ^ 63\<close>, the offsets are
  the sums of the lengths of the front header, the records and the suffix, and it fails
  otherwise; no wrap-around and no spurious refusal is possible.\<close>

theorem derived_geometry_is_layout:
  "deriveCanonicalGeometry candidate = Inr g \<longleftrightarrow>
     validLogicalCore (cand_core candidate) \<and>
     file_len (candidate_PayloadBodyRS candidate)
       (unat (core_plaintextLength (cand_core candidate)))
       (unat (core_commentLength (cand_core candidate))) < 2 ^ 63 \<and>
     g = layout_of (candidate_PayloadBodyRS candidate)
           (unat (core_plaintextLength (cand_core candidate)))
           (unat (core_commentLength (cand_core candidate)))"
  by (rule deriveCanonicalGeometry_Inr_iff)

text \<open>C25: the size announced before writing is the length of the closed layout: for a normal volume
  that of its regions, for a D1 container that of the body that wraps such a volume with a
  16-byte prefix and a tag per started MiB, and of two 320-byte bootstraps. Sizes beyond the
  signed 64-bit range, and comments over 99999 bytes, are refused.\<close>

theorem announced_size_is_file_length:
  "(WriteCiphertextLength WriteSizeNormal n c rs = Some w \<longleftrightarrow>
      unat c \<le> 99999 \<and> unat w = file_len rs (unat n) (unat c) \<and> unat w < 2 ^ 63) \<and>
   (WriteCiphertextLength WriteSizeD1 n c rs = Some w' \<longleftrightarrow>
      unat c \<le> 99999 \<and> file_len rs (unat n) (unat c) < 2 ^ 63 \<and>
      unat w' = outer_body_len (file_len rs (unat n) (unat c) + 16) + 640 \<and> unat w' < 2 ^ 63)"
proof (intro conjI)
  let ?l = "file_len rs (unat n) (unat c)"
  have inv: "?l < 2 ^ 63 \<Longrightarrow> unat (word_of_nat ?l :: u64) = ?l"
    by (simp add: unat_of_nat)
  show "WriteCiphertextLength WriteSizeD1 n c rs = Some w' \<longleftrightarrow> unat c \<le> 99999 \<and> ?l < 2 ^ 63 \<and>
      unat w' = outer_body_len (?l + 16) + 640 \<and> unat w' < 2 ^ 63" (is "?d \<longleftrightarrow> ?r")
  proof
    assume ?d
    then obtain inner where i: "WriteCiphertextLength WriteSizeNormal n c rs = Some inner"
      and w: "unat w' = outer_body_len (unat inner + 16) + 640" "unat w' < 2 ^ 63"
      unfolding WriteCiphertextLength_d1 by (elim exE conjE)
    note n = i [unfolded WriteCiphertextLength_normal]
    show ?r
      using w n [THEN conjunct1] n [THEN conjunct2, THEN conjunct2]
      unfolding n [THEN conjunct2, THEN conjunct1] by (intro conjI)
  next
    assume r: ?r
    then have "WriteCiphertextLength WriteSizeNormal n c rs = Some (word_of_nat ?l)"
      using inv by (simp add: WriteCiphertextLength_normal)
    then show ?d using r inv by (auto simp: WriteCiphertextLength_d1)
  qed
qed (rule WriteCiphertextLength_normal)

text \<open>Reading the outer layout of a D1 container off its body length inverts deriving it
  from the inner length: exactly the body lengths that a writer can produce are accepted, with
  the writer's own layout, and all others are refused.\<close>

theorem d1_layout_parse_inverts_derive:
  "parseD1OuterGeometry b = Some g \<longleftrightarrow>
     deriveD1OuterGeometry (d1_innerLength g) = Some g \<and> d1_bodyLength g = b"
  using parseD1OuterGeometry_derive parseD1OuterGeometry_sound by blast

end
