(* ===== verification/Rs_Coding.thy ===== *)
theory Rs_Coding
  imports Prelude
begin

text \<open>
  Reed-Solomon coding and PKCS#7 padding: the package \<open>encoding\<close> (\<open>rs.go\<close>,
  \<open>rs_decoder.go\<close>, \<open>padding.go\<close>). The erasure codec itself is the third-party module
  \<open>infectious\<close>; it is the record \<open>FEC\<close>, a parameter of every definition here, and \<open>fec_ok\<close>
  states what its documentation promises. Everything around it (the systematic copy, the fast
  path, the parity check, chunking, padding, the force mode) is the code's.
\<close>

section \<open>The codec\<close>

text \<open>
  \<open>fec_encode_single data number\<close> is \<open>EncodeSingle\<close>, the byte of share \<open>number\<close>;
  \<open>fec_correct\<close> is \<open>Correct\<close> on shares \<open>(Number, Data[0])\<close>, which it may reorder.
\<close>

record FEC =
  fec_required :: nat
  fec_total :: nat
  fec_encode_single :: "byte list \<Rightarrow> nat \<Rightarrow> byte option"
  fec_correct :: "(nat \<times> byte) list \<Rightarrow> (nat \<times> byte) list option"

record RSCodecs =
  RS1 :: FEC
  RS5 :: FEC
  RS16 :: FEC
  RS24 :: FEC
  RS32 :: FEC
  RS64 :: FEC
  RS128 :: FEC

datatype rs_error = RsSize | RsDst | RsCodec | RsCorrect | ErrCorruptData | RsPanic

text \<open>\<open>NewRSCodecs\<close>, with the constructor \<open>NewFEC\<close> as its argument.\<close>

definition NewRSCodecs :: "(nat \<Rightarrow> nat \<Rightarrow> FEC option) \<Rightarrow> RSCodecs option" where
  "NewRSCodecs NewFEC =
     (case (NewFEC 1 3, NewFEC 5 15, NewFEC 16 48, NewFEC 24 72, NewFEC 32 96, NewFEC 64 192,
            NewFEC 128 136) of
        (Some rs1, Some rs5, Some rs16, Some rs24, Some rs32, Some rs64, Some rs128) \<Rightarrow>
          Some \<lparr>RS1 = rs1, RS5 = rs5, RS16 = rs16, RS24 = rs24, RS32 = rs32, RS64 = rs64,
                RS128 = rs128\<rparr>
      | _ \<Rightarrow> None)"

section \<open>One codeword\<close>

definition EncodeInto :: "byte list \<Rightarrow> FEC \<Rightarrow> byte list \<Rightarrow> rs_error + byte list" where
  "EncodeInto dst rs data =
     (if length data \<noteq> fec_required rs then Inl RsSize
      else if length dst \<noteq> fec_total rs then Inl RsDst
      else ebind (emap (\<lambda>number. from_opt RsCodec (fec_encode_single rs data number))
                   [fec_required rs..<fec_total rs])
             (\<lambda>parity. Inr (data @ parity)))"

definition rs_Encode :: "FEC \<Rightarrow> byte list \<Rightarrow> rs_error + byte list" where
  "rs_Encode rs data = EncodeInto (replicate (fec_total rs) 0) rs data"

text \<open>The parity check of the fast path of \<open>DecodeInto\<close>: stops at the first mismatch.\<close>

fun parity_valid :: "FEC \<Rightarrow> byte list \<Rightarrow> nat list \<Rightarrow> rs_error + bool" where
  "parity_valid codec encoded [] = Inr True"
| "parity_valid codec encoded (number # rest) =
     (case fec_encode_single codec (take (fec_required codec) encoded) number of
        None \<Rightarrow> Inl RsCodec
      | Some parity \<Rightarrow>
          if parity \<noteq> encoded ! number then Inr False else parity_valid codec encoded rest)"

text \<open>The loop that copies the systematic bytes out of the corrected shares.\<close>

definition copy_shares :: "nat \<Rightarrow> byte list \<Rightarrow> (nat \<times> byte) list \<Rightarrow> byte list" where
  "copy_shares required destination shares =
     foldl (\<lambda>dst (number, b). if number < required then dst[number := b] else dst)
       destination shares"

definition DecodeInto :: "FEC \<Rightarrow> byte list \<Rightarrow> byte list \<Rightarrow> rs_error + byte list" where
  "DecodeInto codec destination encoded =
     (if length encoded \<noteq> fec_total codec \<or> length destination \<noteq> fec_required codec
      then Inl RsSize
      else
        ebind (if fec_required codec = 128 \<and> fec_total codec = 136
               then parity_valid codec encoded [fec_required codec..<fec_total codec]
               else Inr False)
          (\<lambda>valid.
             if valid then Inr (take (fec_required codec) encoded)
             else
               case fec_correct codec (zip [0..<fec_total codec] encoded) of
                 None \<Rightarrow> Inl RsCorrect
               | Some shares \<Rightarrow> Inr (copy_shares (fec_required codec) destination shares)))"

text \<open>\<open>Decode\<close> returns bytes also beside an error.\<close>

definition rs_Decode :: "FEC \<Rightarrow> byte list \<Rightarrow> bool \<Rightarrow> byte list \<times> rs_error option" where
  "rs_Decode rs data fastDecode =
     (if length data \<noteq> fec_total rs then ([], Some RsSize)
      else if fec_total rs = 136 \<and> fastDecode then (take 128 data, None)
      else
        case DecodeInto rs (replicate (fec_required rs) 0) data of
          Inl err \<Rightarrow>
            if fec_total rs = 136 then (take 128 data, Some err)
            else (take (fec_total rs div 3) data, Some err)
        | Inr res \<Rightarrow> (res, None))"

section \<open>Padding\<close>

definition Pad :: "byte list \<Rightarrow> byte list" where
  "Pad data = (let padLen = 128 - length data mod 128 in
               data @ replicate padLen (word_of_nat padLen))"

definition Unpad :: "byte list \<Rightarrow> byte list" where
  "Unpad data =
     (if length data < 128 then data
      else let padLen = unat (data ! 127) in
        if padLen > 128 \<or> padLen = 0 then data else take (128 - padLen) data)"

section \<open>Payload blocks\<close>

text \<open>
  \<open>encodeChunk\<close> extends the result within the capacity allocated for \<open>chunks\<close> codewords; a
  Go slice extended past its capacity panics. A chunk list is coded in order.
\<close>

fun encodeChunks :: "nat \<Rightarrow> FEC \<Rightarrow> byte list \<Rightarrow> byte list list \<Rightarrow> rs_error + byte list" where
  "encodeChunks capacity rs result [] = Inr result"
| "encodeChunks capacity rs result (chunk # rest) =
     (if length result + 136 > capacity then Inl RsPanic
      else ebind (EncodeInto (replicate 136 0) rs chunk)
             (\<lambda>codeword. encodeChunks capacity rs (result @ codeword) rest))"

definition EncodeRSPayloadBlock :: "byte list \<Rightarrow> RSCodecs \<Rightarrow> rs_error + byte list" where
  "EncodeRSPayloadBlock data rs =
     (let miB = 1048576;
          chunks = (length data + 127) div 128;
          chunks = (if length data < miB then chunks + 1 else chunks)
      in if length data = miB
         then encodeChunks (chunks * 136) (RS128 rs) []
                (map (\<lambda>i. slice (i * 128) 128 data) [0..<8192])
         else
           let fullChunks = length data div 128;
               remaining = drop (fullChunks * 128) data
           in encodeChunks (chunks * 136) (RS128 rs) []
                (map (\<lambda>i. slice (i * 128) 128 data) [0..<fullChunks] @ [Pad remaining]))"

abbreviation (input) RSEncodedBlockSize :: nat where "RSEncodedBlockSize \<equiv> 1114112"

text \<open>One chunk of the decoding loops, with the fallback of the force mode.\<close>

definition decodeChunk :: "FEC \<Rightarrow> bool \<Rightarrow> bool \<Rightarrow> byte list \<Rightarrow> rs_error + byte list" where
  "decodeChunk rs forceDecode fastDecode chunk =
     (case rs_Decode rs chunk fastDecode of
        (decoded, None) \<Rightarrow> Inr decoded
      | (_, Some _) \<Rightarrow> if forceDecode then Inr (take 128 chunk) else Inl ErrCorruptData)"

definition DecodeRSPayloadBlock ::
  "byte list \<Rightarrow> RSCodecs \<Rightarrow> bool \<Rightarrow> bool \<Rightarrow> bool \<Rightarrow> bool \<Rightarrow> rs_error + byte list" where
  "DecodeRSPayloadBlock data rs isLast padded forceDecode fastDecode =
     (if \<not> forceDecode \<and> length data mod 136 \<noteq> 0 then Inl ErrCorruptData
      else if length data = RSEncodedBlockSize then
        ebind (emap (\<lambda>i.
                 ebind (decodeChunk (RS128 rs) forceDecode fastDecode (slice (i * 136) 136 data))
                   (\<lambda>decoded.
                      Inr (if isLast \<and> i * 136 = RSEncodedBlockSize - 136 \<and> padded
                           then Unpad decoded else decoded)))
                 [0..<8192])
          (\<lambda>parts. Inr (concat parts))
      else if length data < 136 then (if forceDecode then Inr data else Inl ErrCorruptData)
      else
        let chunks = length data div 136 - 1;
            lastChunkStart = chunks * 136;
            lastChunkEnd = min (lastChunkStart + 136) (length data)
        in ebind (emap (\<lambda>i. decodeChunk (RS128 rs) forceDecode fastDecode
                               (slice (i * 136) 136 data)) [0..<chunks])
             (\<lambda>parts.
           ebind (decodeChunk (RS128 rs) forceDecode fastDecode
                    (slice lastChunkStart (lastChunkEnd - lastChunkStart) data))
             (\<lambda>decoded. Inr (concat parts @ Unpad decoded))))"

section \<open>What the codec promises\<close>

text \<open>The codeword of a block, and the number of positions in which two blocks differ.\<close>

definition codeword :: "FEC \<Rightarrow> byte list \<Rightarrow> byte list" where
  "codeword rs data =
     data @ map (\<lambda>number. the (fec_encode_single rs data number)) [fec_required rs..<fec_total rs]"

definition diffs :: "'a list \<Rightarrow> 'a list \<Rightarrow> nat" where
  "diffs xs ys = length (filter (\<lambda>(x, y). x \<noteq> y) (zip xs ys))"

definition fec_encodes :: "FEC \<Rightarrow> bool" where
  "fec_encodes rs \<longleftrightarrow> fec_required rs \<le> fec_total rs \<and>
     (\<forall>data number. length data = fec_required rs \<longrightarrow> fec_required rs \<le> number \<longrightarrow>
        number < fec_total rs \<longrightarrow> fec_encode_single rs data number \<noteq> None)"

text \<open>
  Berlekamp-Welch correction: a word with at most \<open>t\<close> wrong bytes is repaired to the shares of
  its codeword, in some order. The module documents \<open>t\<close> as half the redundancy, so 4 for
  \<open>RS128\<close>; the theorems hold for every \<open>t\<close> the codec keeps.
\<close>

definition fec_corrects :: "nat \<Rightarrow> FEC \<Rightarrow> bool" where
  "fec_corrects t rs \<longleftrightarrow>
     (\<forall>data word. length data = fec_required rs \<longrightarrow> length word = fec_total rs \<longrightarrow>
        diffs (codeword rs data) word \<le> t \<longrightarrow>
        (\<exists>shares. fec_correct rs (zip [0..<fec_total rs] word) = Some shares \<and>
                  set shares = set (zip [0..<fec_total rs] (codeword rs data))))"

definition fec_ok :: "nat \<Rightarrow> FEC \<Rightarrow> bool" where
  "fec_ok t rs \<longleftrightarrow> fec_encodes rs \<and> fec_corrects t rs"

section \<open>One codeword, coded and decoded\<close>

lemma length_codeword [simp]:
  "length data = fec_required rs \<Longrightarrow> fec_required rs \<le> fec_total rs \<Longrightarrow>
   length (codeword rs data) = fec_total rs"
  by (simp add: codeword_def)

lemma take_codeword: "length data = fec_required rs \<Longrightarrow> take (fec_required rs) (codeword rs data) = data"
  by (simp add: codeword_def)

lemma EncodeInto_codeword:
  assumes "fec_encodes rs" and "length data = fec_required rs" and "length dst = fec_total rs"
  shows "EncodeInto dst rs data = Inr (codeword rs data)"
proof -
  have "emap (\<lambda>number. from_opt RsCodec (fec_encode_single rs data number))
      [fec_required rs..<fec_total rs] =
    Inr (map (\<lambda>number. the (fec_encode_single rs data number)) [fec_required rs..<fec_total rs])"
    using assms by (intro emap_all_Inr) (auto simp: fec_encodes_def)
  with assms show ?thesis by (simp add: EncodeInto_def codeword_def)
qed

lemma EncodeInto_size_error:
  "length data \<noteq> fec_required rs \<Longrightarrow> EncodeInto dst rs data = Inl RsSize"
  by (simp add: EncodeInto_def)

lemma diffs_refl [simp]: "diffs xs xs = 0"
  by (induction xs) (auto simp: diffs_def)

lemma numbered_in: "(i, x) \<in> set (zip [0..<length xs] xs) \<longleftrightarrow> i < length xs \<and> x = xs ! i"
  by (auto simp: set_zip intro: exI [of _ i])

lemma numbered_inject:
  assumes "set (zip [0..<n] xs) = set (zip [0..<n] ys)" and "length xs = n" and "length ys = n"
  shows "xs = ys"
proof (rule nth_equalityI)
  fix i
  assume i: "i < length xs"
  then have "(i, xs ! i) \<in> set (zip [0..<length ys] ys)"
    using assms numbered_in [of i "xs ! i" xs] by simp
  then show "xs ! i = ys ! i" by (simp add: numbered_in)
qed (simp add: assms)

lemma length_copy_shares [simp]: "length (copy_shares k dst shares) = length dst"
  unfolding copy_shares_def by (induction shares rule: rev_induct) (auto split: prod.split)

lemma copy_shares_nth:
  assumes "\<And>m b. (m, b) \<in> set shares \<Longrightarrow> m < k \<Longrightarrow> b = data ! m" and "i < k" and "length dst = k"
  shows "copy_shares k dst shares ! i = (if i \<in> fst ` set shares then data ! i else dst ! i)"
  using assms(1)
proof (induction shares rule: rev_induct)
  case Nil
  then show ?case by (simp add: copy_shares_def)
next
  case (snoc sh shares)
  obtain m b where sh: "sh = (m, b)" by (cases sh)
  have IH: "copy_shares k dst shares ! i = (if i \<in> fst ` set shares then data ! i else dst ! i)"
    using snoc.prems by (intro snoc.IH) auto
  have step: "copy_shares k dst (shares @ [sh]) =
      (if m < k then (copy_shares k dst shares)[m := b] else copy_shares k dst shares)"
    by (simp add: copy_shares_def sh)
  show ?case
  proof (cases "m = i")
    case True
    then have "b = data ! i" using snoc.prems [of m b] assms(2) sh by simp
    with True assms show ?thesis unfolding step by (simp add: sh)
  next
    case False
    then show ?thesis unfolding step using IH by (auto simp: sh)
  qed
qed

lemma copy_shares_codeword:
  assumes "set shares = set (zip [0..<length cw] cw)" and "length dst = k" and "k \<le> length cw"
  shows "copy_shares k dst shares = take k cw"
proof (rule nth_equalityI)
  fix i
  assume "i < length (copy_shares k dst shares)"
  then have i: "i < k" using assms by simp
  then have "(i, cw ! i) \<in> set shares" using assms by (simp add: numbered_in)
  then have "i \<in> fst ` set shares" by force
  moreover have "copy_shares k dst shares ! i =
      (if i \<in> fst ` set shares then cw ! i else dst ! i)"
    by (rule copy_shares_nth) (use assms i in \<open>auto simp: numbered_in\<close>)
  ultimately show "copy_shares k dst shares ! i = take k cw ! i" using i by simp
qed (use assms in simp)

lemma parity_valid_spec:
  assumes "\<And>number. number \<in> set ns \<Longrightarrow>
      fec_encode_single codec (take (fec_required codec) encoded) number \<noteq> None"
  shows "parity_valid codec encoded ns = Inr (\<forall>number \<in> set ns.
      fec_encode_single codec (take (fec_required codec) encoded) number = Some (encoded ! number))"
  using assms by (induction ns) (auto split: option.split)

lemma parity_valid_codeword:
  assumes "fec_encodes rs" and "length word = fec_total rs"
  shows "parity_valid rs word [fec_required rs..<fec_total rs] =
           Inr (word = codeword rs (take (fec_required rs) word))"
proof -
  let ?d = "take (fec_required rs) word"
  have le: "fec_required rs \<le> fec_total rs" using assms(1) by (simp add: fec_encodes_def)
  have enc: "fec_encode_single rs ?d n \<noteq> None" if "n \<in> set [fec_required rs..<fec_total rs]" for n
    using that assms le by (auto simp: fec_encodes_def)
  have "word = codeword rs ?d \<longleftrightarrow>
      (\<forall>n \<in> set [fec_required rs..<fec_total rs]. fec_encode_single rs ?d n = Some (word ! n))"
  proof
    assume w: "word = codeword rs ?d"
    show "\<forall>n \<in> set [fec_required rs..<fec_total rs]. fec_encode_single rs ?d n = Some (word ! n)"
    proof
      fix n
      assume n: "n \<in> set [fec_required rs..<fec_total rs]"
      then have "n - fec_required rs < fec_total rs - fec_required rs" by auto
      with n have "word ! n = the (fec_encode_single rs ?d n)"
        using assms(2) le by (subst w) (simp add: codeword_def nth_append nth_map_upt)
      with enc [OF n] show "fec_encode_single rs ?d n = Some (word ! n)" by auto
    qed
  next
    assume all: "\<forall>n \<in> set [fec_required rs..<fec_total rs]. fec_encode_single rs ?d n = Some (word ! n)"
    show "word = codeword rs ?d"
    proof (rule nth_equalityI)
      fix i
      assume "i < length word"
      with all assms(2) le show "word ! i = codeword rs ?d ! i"
        by (cases "i < fec_required rs") (auto simp: codeword_def nth_append nth_map_upt)
    qed (use assms(2) le in simp)
  qed
  with parity_valid_spec [of "[fec_required rs..<fec_total rs]" rs word] enc show ?thesis by simp
qed

lemma DecodeInto_unfold:
  assumes "fec_encodes rs" and "length word = fec_total rs" and "length dst = fec_required rs"
  shows "DecodeInto rs dst word =
     (if fec_required rs = 128 \<and> fec_total rs = 136 \<and>
         word = codeword rs (take (fec_required rs) word)
      then Inr (take (fec_required rs) word)
      else case fec_correct rs (zip [0..<fec_total rs] word) of
             None \<Rightarrow> Inl RsCorrect
           | Some shares \<Rightarrow> Inr (copy_shares (fec_required rs) dst shares))"
proof (cases "fec_required rs = 128 \<and> fec_total rs = 136")
  case True
  have "\<not> (length word \<noteq> fec_total rs \<or> length dst \<noteq> fec_required rs)" using assms by simp
  then have "DecodeInto rs dst word = ebind (Inr (word = codeword rs (take (fec_required rs) word)))
      (\<lambda>valid. if valid then Inr (take (fec_required rs) word)
        else case fec_correct rs (zip [0..<fec_total rs] word) of
               None \<Rightarrow> Inl RsCorrect
             | Some shares \<Rightarrow> Inr (copy_shares (fec_required rs) dst shares))"
    by (simp only: DecodeInto_def if_False if_P [OF True] parity_valid_codeword [OF assms(1,2)])
  with True show ?thesis by (simp only: ebind_simps simp_thms)
next
  case False
  with assms(2,3) show ?thesis by (auto simp: DecodeInto_def)
qed

text \<open>
  Decoding repairs every word with at most \<open>t\<close> errors. The parity check does
  not get in the way: a corrupted word that passes it would be a second codeword nearby.
\<close>

lemma DecodeInto_repairs:
  assumes ok: "fec_ok t rs" and data: "length data = fec_required rs"
    and word: "length word = fec_total rs" and dst: "length dst = fec_required rs"
    and near: "diffs (codeword rs data) word \<le> t"
  shows "DecodeInto rs dst word = Inr data"
proof -
  have le: "fec_required rs \<le> fec_total rs" and enc: "fec_encodes rs"
    using ok by (simp_all add: fec_ok_def fec_encodes_def)
  have cor: "\<And>d. length d = fec_required rs \<Longrightarrow>
      diffs (codeword rs d) word \<le> t \<Longrightarrow>
      \<exists>shares. fec_correct rs (zip [0..<fec_total rs] word) = Some shares \<and>
        set shares = set (zip [0..<fec_total rs] (codeword rs d))"
    using ok word by (simp add: fec_ok_def fec_corrects_def)
  obtain shares where sh: "fec_correct rs (zip [0..<fec_total rs] word) = Some shares"
      "set shares = set (zip [0..<fec_total rs] (codeword rs data))"
    using cor [OF data near] by auto
  have copy: "copy_shares (fec_required rs) dst shares = data"
    using copy_shares_codeword [of shares "codeword rs data" dst "fec_required rs"] sh(2) data dst le
    by (simp add: take_codeword)
  show ?thesis
  proof (cases "word = codeword rs (take (fec_required rs) word)")
    case True
    let ?d = "take (fec_required rs) word"
    have d: "length ?d = fec_required rs" using word le by simp
    have "diffs (codeword rs ?d) word = 0" using True by (metis diffs_refl)
    then have "set shares = set (zip [0..<fec_total rs] (codeword rs ?d))"
      using cor [OF d] sh(1) by auto
    then have "codeword rs ?d = codeword rs data"
      using sh(2) numbered_inject [of "fec_total rs" "codeword rs ?d" "codeword rs data"] d data le
      by simp
    then have "?d = data" by (metis d data take_codeword)
    with copy sh(1) show ?thesis
      by (simp only: DecodeInto_unfold [OF enc word dst] option.case if_cancel)
  next
    case False
    with copy sh(1) show ?thesis
      by (simp only: DecodeInto_unfold [OF enc word dst] option.case simp_thms if_False)
  qed
qed

section \<open>Padding\<close>

lemma length_Pad: "length (Pad data) = (length data div 128 + 1) * 128"
proof -
  obtain q r where qr: "length data = 128 * q + r" and r: "r < 128"
    by (metis mod_less_divisor mult_div_mod_eq zero_less_numeral)
  have "length (Pad data) = length data + (128 - length data mod 128)"
    by (simp add: Pad_def Let_def)
  with r show ?thesis unfolding qr by simp
qed

lemma Unpad_Pad: "length data < 128 \<Longrightarrow> Unpad (Pad data) = data"
proof -
  assume l: "length data < 128"
  have "Pad data = data @ replicate (128 - length data) (word_of_nat (128 - length data))"
    using l by (simp add: Pad_def Let_def)
  moreover have "unat (word_of_nat (128 - length data) :: byte) = 128 - length data"
    by (simp add: unat_of_nat)
  ultimately show ?thesis using l by (simp add: Unpad_def Let_def nth_append)
qed

lemma Unpad_short: "length data < 128 \<Longrightarrow> Unpad data = data"
  by (simp add: Unpad_def)

lemma length_Unpad_le: "length (Unpad data) \<le> length data"
  by (simp add: Unpad_def Let_def not_less le_diff_conv)

section \<open>Payload blocks\<close>

text \<open>The 128-byte chunks a block is coded in; a short block ends with a padded chunk.\<close>

definition payload_chunks :: "byte list \<Rightarrow> byte list list" where
  "payload_chunks data =
     (if length data = 1048576 then map (\<lambda>i. slice (i * 128) 128 data) [0..<8192]
      else map (\<lambda>i. slice (i * 128) 128 data) [0..<length data div 128] @
             [Pad (drop (length data div 128 * 128) data)])"

definition rs128 :: "FEC \<Rightarrow> bool" where
  "rs128 rs \<longleftrightarrow> fec_required rs = 128 \<and> fec_total rs = 136"

lemma payload_chunks_128:
  assumes "chunk \<in> set (payload_chunks data)" shows "length chunk = 128"
proof -
  have full: "length (slice (i * 128) 128 data) = 128" if "i < length data div 128" for i
  proof -
    have "Suc i * 128 \<le> length data div 128 * 128" using that by (intro mult_le_mono1) simp
    then have "i * 128 + 128 \<le> length data" by simp
    then show ?thesis by simp
  qed
  have "length (drop (length data div 128 * 128) data) < 128"
    by (simp add: minus_div_mult_eq_mod)
  then have "length (Pad (drop (length data div 128 * 128) data)) = 128"
    unfolding length_Pad by simp
  with assms full show ?thesis by (auto simp: payload_chunks_def simp del: length_slice split: if_splits)
qed

lemma encodeChunks_codewords:
  assumes "fec_encodes rs" and "rs128 rs" and "\<And>c. c \<in> set cs \<Longrightarrow> length c = 128"
    and "length result + 136 * length cs \<le> capacity"
  shows "encodeChunks capacity rs result cs = Inr (result @ concat (map (codeword rs) cs))"
  using assms(3,4)
proof (induction cs arbitrary: result)
  case Nil
  then show ?case by simp
next
  case (Cons c cs)
  have "EncodeInto (replicate 136 0) rs c = Inr (codeword rs c)"
    using assms(1,2) Cons.prems(1) [of c] by (intro EncodeInto_codeword) (simp_all add: rs128_def)
  moreover have "length (codeword rs c) = 136"
    using assms(2) Cons.prems(1) [of c] by (simp add: rs128_def)
  ultimately show ?case using Cons.prems Cons.IH [of "result @ codeword rs c"] by simp
qed

lemma length_payload_chunks:
  "length data \<le> 1048576 \<Longrightarrow> length (payload_chunks data) =
     (if length data = 1048576 then 8192 else length data div 128 + 1)"
  by (simp add: payload_chunks_def)

text \<open>Coding a block of at most 1 MiB never fails, and never leaves the allocated capacity.\<close>

lemma EncodeRSPayloadBlock_codewords:
  assumes "fec_encodes (RS128 rs)" and "rs128 (RS128 rs)" and "length data \<le> 1048576"
  shows "EncodeRSPayloadBlock data rs =
           Inr (concat (map (codeword (RS128 rs)) (payload_chunks data)))"
proof -
  let ?n = "(length data + 127) div 128"
  let ?cap = "(if length data < 1048576 then ?n + 1 else ?n) * 136"
  have "length data div 128 \<le> ?n" by (rule div_le_mono) simp
  moreover have "length data = 1048576 \<Longrightarrow> ?n = 8192" by simp
  ultimately have "length (payload_chunks data) * 136 \<le> ?cap"
    using assms(3) by (auto simp: length_payload_chunks)
  then have "encodeChunks ?cap (RS128 rs) [] (payload_chunks data) =
      Inr ([] @ concat (map (codeword (RS128 rs)) (payload_chunks data)))"
    using payload_chunks_128 by (intro encodeChunks_codewords assms(1,2)) (auto simp: mult.commute)
  then show ?thesis
    by (cases "length data = 1048576")
      (simp_all add: EncodeRSPayloadBlock_def payload_chunks_def Let_def del: upt_rec_numeral)
qed

lemma decodeChunk_repairs:
  assumes "fec_ok t rs" and "rs128 rs" and "length chunk = 128" and "length word = 136"
    and "diffs (codeword rs chunk) word \<le> t"
  shows "decodeChunk rs forceDecode False word = Inr chunk"
proof -
  have "DecodeInto rs (replicate (fec_required rs) 0) word = Inr chunk"
    using assms by (intro DecodeInto_repairs) (simp_all add: rs128_def)
  with assms show ?thesis by (simp add: decodeChunk_def rs_Decode_def rs128_def)
qed

lemma decodeChunk_fast:
  assumes "rs128 rs" and "length chunk = 128"
  shows "decodeChunk rs forceDecode True (codeword rs chunk) = Inr chunk"
  using assms take_codeword [of chunk rs]
  by (simp add: decodeChunk_def rs_Decode_def rs128_def)

lemma concat_payload_chunks:
  assumes "length data \<le> 1048576"
  shows "concat (butlast (payload_chunks data)) @
           (if length data = 1048576 then last (payload_chunks data)
            else Unpad (last (payload_chunks data))) = data"
proof (cases "length data = 1048576")
  case True
  have "payload_chunks data \<noteq> []" using True by (simp add: payload_chunks_def)
  then have "concat (butlast (payload_chunks data)) @ last (payload_chunks data) =
      concat (payload_chunks data)"
    by (metis append_butlast_last_id concat_append concat.simps append_Nil2)
  also have "\<dots> = data"
    using True concat_slices [of 128 data 8192] by (simp add: payload_chunks_def del: upt_rec_numeral)
  finally show ?thesis using True by simp
next
  case False
  let ?q = "length data div 128"
  have "length (drop (?q * 128) data) < 128" by (simp add: minus_div_mult_eq_mod)
  then have "Unpad (Pad (drop (?q * 128) data)) = drop (?q * 128) data" by (rule Unpad_Pad)
  moreover have "concat (map (\<lambda>i. slice (i * 128) 128 data) [0..<?q]) = take (?q * 128) data"
    by (rule concat_slices)
  ultimately show ?thesis using False by (simp add: payload_chunks_def)
qed

lemma map_nth_butlast: "xs \<noteq> [] \<Longrightarrow> map ((!) xs) [0..<length xs - 1] = butlast xs"
  by (rule nth_equalityI) (auto simp: nth_butlast)

text \<open>
  Decoding gives the block back as soon as every chunk decodes. A short block of 8191 full
  chunks is as long as a full one, so its padding is only removed under the padded flag, and a
  full block must not carry it.
\<close>

lemma DecodeRSPayloadBlock_chunks:
  fixes data enc :: "byte list"
  defines "cs \<equiv> payload_chunks data"
  assumes len: "length data \<le> 1048576" and enc: "length enc = 136 * length cs"
    and dec: "\<And>i. i < length cs \<Longrightarrow>
      decodeChunk (RS128 rs) forceDecode fastDecode (slice (i * 136) 136 enc) = Inr (cs ! i)"
    and full: "length data = 1048576 \<Longrightarrow> \<not> (isLast \<and> padded)"
    and nearly: "length data div 128 = 8191 \<Longrightarrow> isLast \<and> padded"
  shows "DecodeRSPayloadBlock enc rs isLast padded forceDecode fastDecode = Inr data"
proof -
  have whole: "concat (butlast cs) @ (if length data = 1048576 then last cs else Unpad (last cs)) = data"
    unfolding cs_def by (rule concat_payload_chunks [OF len])
  have n: "length cs = (if length data = 1048576 then 8192 else length data div 128 + 1)"
    unfolding cs_def by (rule length_payload_chunks [OF len])
  then have ne: "cs \<noteq> []" by (auto split: if_splits)
  show ?thesis
  proof (cases "length enc = 1114112")
    case True
    then have n8: "length cs = 8192" using enc by simp
    let ?g = "\<lambda>i. if i = 8191 \<and> length data \<noteq> 1048576 then Unpad (cs ! i) else cs ! i"
    have flag: "isLast \<and> padded \<longleftrightarrow> length data \<noteq> 1048576"
      using full nearly n n8 by (auto split: if_splits)
    have "emap (\<lambda>i. ebind (decodeChunk (RS128 rs) forceDecode fastDecode (slice (i * 136) 136 enc))
              (\<lambda>decoded. Inr (if isLast \<and> i * 136 = 1114112 - 136 \<and> padded
                              then Unpad decoded else decoded))) [0..<8192] =
        Inr (map ?g [0..<8192])"
      using dec n8 flag by (intro emap_all_Inr) auto
    moreover have "map ?g [0..<8192] = butlast cs @ [?g 8191]"
    proof -
      have up: "[0..<8192] = [0..<8191] @ [8191::nat]"
        using upt_Suc_append [of 0 8191] by (simp del: upt_rec_numeral)
      have "map ?g [0..<8191] = map ((!) cs) [0..<8191]" by (rule map_cong) auto
      also have "\<dots> = butlast cs" using map_nth_butlast [OF ne] n8 by (simp del: upt_rec_numeral)
      finally show ?thesis by (simp only: up map_append list.map)
    qed
    moreover have "last cs = cs ! 8191" using ne n8 by (simp add: last_conv_nth)
    ultimately show ?thesis using True whole
      by (simp add: DecodeRSPayloadBlock_def del: upt_rec_numeral split: if_splits)
  next
    case False
    then have nf: "length data \<noteq> 1048576" using enc n by auto
    let ?k = "length cs - 1"
    have k: "length enc div 136 - 1 = ?k" "length enc mod 136 = 0" using enc by simp_all
    have big: "\<not> length enc < 136" using enc ne by (cases cs) simp_all
    have "emap (\<lambda>i. decodeChunk (RS128 rs) forceDecode fastDecode (slice (i * 136) 136 enc)) [0..<?k]
        = Inr (map ((!) cs) [0..<?k])"
      using dec by (intro emap_all_Inr) auto
    moreover have "min (?k * 136 + 136) (length enc) - ?k * 136 = 136"
      using enc ne by (cases cs) simp_all
    moreover have "decodeChunk (RS128 rs) forceDecode fastDecode (slice (?k * 136) 136 enc) =
        Inr (last cs)"
      using dec [of ?k] ne by (cases cs) (simp_all add: last_conv_nth)
    ultimately show ?thesis
      using False nf big k whole map_nth_butlast [OF ne]
      by (simp add: DecodeRSPayloadBlock_def Let_def)
  qed
qed

lemma payload_roundtrip:
  fixes data enc :: "byte list"
  assumes "fec_ok t (RS128 rs)" and "rs128 (RS128 rs)" and "length data \<le> 1048576"
    and "EncodeRSPayloadBlock data rs = Inr enc" and "length word = length enc"
    and "\<And>i. i < length enc div 136 \<Longrightarrow>
      diffs (slice (i * 136) 136 enc) (slice (i * 136) 136 word) \<le> t"
    and "length data = 1048576 \<Longrightarrow> \<not> (isLast \<and> padded)"
    and "length data div 128 = 8191 \<Longrightarrow> isLast \<and> padded"
  shows "DecodeRSPayloadBlock word rs isLast padded forceDecode False = Inr data"
proof -
  let ?cs = "payload_chunks data"
  have enc: "enc = concat (map (codeword (RS128 rs)) ?cs)"
    using EncodeRSPayloadBlock_codewords [of rs data] assms by (simp add: fec_ok_def)
  have cw: "length (codeword (RS128 rs) c) = 136" if "c \<in> set ?cs" for c
    using payload_chunks_128 [OF that] assms(2) by (simp add: rs128_def)
  then have len: "length enc = 136 * length ?cs"
    unfolding enc by (rule length_concat_same)
  have "decodeChunk (RS128 rs) forceDecode False (slice (i * 136) 136 word) = Inr (?cs ! i)"
    if "i < length ?cs" for i
  proof (rule decodeChunk_repairs)
    show "diffs (codeword (RS128 rs) (?cs ! i)) (slice (i * 136) 136 word) \<le> t"
      using assms(6) [of i] that len slice_concat_same [OF cw that] by (simp add: enc)
    have "Suc i * 136 \<le> length ?cs * 136" using that by (intro mult_le_mono1) simp
    then show "length (slice (i * 136) 136 word) = 136" using assms(5) len by simp
    show "length (?cs ! i) = 128" using payload_chunks_128 nth_mem [OF that] by blast
  qed (use assms in simp_all)
  then show ?thesis
    using assms len by (intro DecodeRSPayloadBlock_chunks) auto
qed

section \<open>Properties\<close>

text \<open>C27: a payload block of at most 1 MiB survives the Reed-Solomon layer. Whatever word of the
  right length is read back, decoding with correction returns the original data if no
  136-byte chunk has more than \<open>t\<close> wrong bytes, \<open>t\<close> being what the codec repairs. The padded
  flag must be set exactly where the code relies on it: for a short block whose encoding is as
  long as a full one.\<close>

theorem payload_block_roundtrip:
  assumes "fec_ok t (RS128 rs)" and "rs128 (RS128 rs)" and "length data \<le> 1048576"
    and "EncodeRSPayloadBlock data rs = Inr enc" and "length word = length enc"
    and "\<And>i. i < length enc div 136 \<Longrightarrow>
      diffs (slice (i * 136) 136 enc) (slice (i * 136) 136 word) \<le> t"
    and "length data = 1048576 \<Longrightarrow> \<not> (isLast \<and> padded)"
    and "length data div 128 = 8191 \<Longrightarrow> isLast \<and> padded"
  shows "DecodeRSPayloadBlock word rs isLast padded forceDecode False = Inr data"
  using assms by (rule payload_roundtrip)

end
