(* ===== verification/Stream_Cipher.thy ===== *)
theory Stream_Cipher
  imports Prelude
begin

text \<open>
  The stream transforms of PCV3 (\<open>pcv3crypto/stream.go\<close>). The ciphers themselves are library
  code and parameters here: \<open>prim_chacha key nonce\<close> is the key stream of
  \<open>chacha20.NewUnauthenticatedCipher\<close>, byte by byte, and \<open>prim_serpent key\<close> the block function
  of \<open>serpent.NewCipher\<close>; both constructors may refuse. Counter mode is Go's
  \<open>crypto/cipher\<close>, written out. A destination buffer matters only by its length.
\<close>

section \<open>The library primitives\<close>

text \<open>Beside the ciphers, the hashes the authentication code uses: keyed BLAKE2b-512 (whose
  constructor may refuse a key), HMAC-SHA3-512 and SHA3-256, as functions of the message.\<close>

record prims =
  prim_chacha :: "byte list \<Rightarrow> byte list \<Rightarrow> (nat \<Rightarrow> byte) option"
  prim_serpent :: "byte list \<Rightarrow> (byte list \<Rightarrow> byte list) option"
  prim_blake2b :: "byte list \<Rightarrow> (byte list \<Rightarrow> byte list) option"
  prim_hmac_sha3 :: "byte list \<Rightarrow> byte list \<Rightarrow> byte list"
  prim_sha3_256 :: "byte list \<Rightarrow> byte list"

datatype stream_error = ErrPCV3StreamShape

definition xor_stream :: "(nat \<Rightarrow> byte) \<Rightarrow> byte list \<Rightarrow> byte list" where
  "xor_stream ks source = map2 (XOR) source (map ks [0..<length source])"

text \<open>\<open>cipher.NewCTR\<close>: the counter block is a 128-bit big-endian integer that wraps around.\<close>

definition ctr_block :: "byte list \<Rightarrow> nat \<Rightarrow> byte list" where
  "ctr_block iv i = be_encode 16 (be_decode iv + i)"

definition ctr_stream :: "(byte list \<Rightarrow> byte list) \<Rightarrow> byte list \<Rightarrow> nat \<Rightarrow> byte" where
  "ctr_stream block iv j = block (ctr_block iv (j div 16)) ! (j mod 16)"

section \<open>The transforms\<close>

definition pcv3XChaCha20 ::
  "prims \<Rightarrow> byte list \<Rightarrow> byte list \<Rightarrow> byte list \<Rightarrow> byte list \<Rightarrow> stream_error + byte list" where
  "pcv3XChaCha20 P destination source key nonce =
     (if length destination \<noteq> length source \<or> length key \<noteq> 32 \<or> length nonce \<noteq> 24
      then Inl ErrPCV3StreamShape
      else case prim_chacha P key nonce of
             None \<Rightarrow> Inl ErrPCV3StreamShape
           | Some ks \<Rightarrow> Inr (xor_stream ks source))"

definition PCV3UnwrapStandard1 ::
  "prims \<Rightarrow> byte list \<Rightarrow> byte list \<Rightarrow> byte list \<Rightarrow> byte list \<Rightarrow> stream_error + byte list" where
  "PCV3UnwrapStandard1 P destination source key nonce = pcv3XChaCha20 P destination source key nonce"

definition PCV3WrapStandard1 ::
  "prims \<Rightarrow> byte list \<Rightarrow> byte list \<Rightarrow> byte list \<Rightarrow> byte list \<Rightarrow> stream_error + byte list" where
  "PCV3WrapStandard1 P destination source key nonce = pcv3XChaCha20 P destination source key nonce"

definition validPCV3ParanoidShape ::
  "byte list \<Rightarrow> byte list \<Rightarrow> byte list \<Rightarrow> byte list \<Rightarrow> byte list \<Rightarrow> byte list \<Rightarrow> bool" where
  "validPCV3ParanoidShape destination source xChaChaKey nonce serpentKey serpentIV \<longleftrightarrow>
     length destination = length source \<and>
     length xChaChaKey = 32 \<and> length nonce = 24 \<and>
     length serpentKey = 32 \<and> length serpentIV = 16"

definition pcv3SerpentCTR ::
  "prims \<Rightarrow> byte list \<Rightarrow> byte list \<Rightarrow> byte list \<Rightarrow> byte list \<Rightarrow> stream_error + byte list" where
  "pcv3SerpentCTR P destination source key iv =
     (if length destination \<noteq> length source \<or> length key \<noteq> 32 \<or> length iv \<noteq> 16
      then Inl ErrPCV3StreamShape
      else case prim_serpent P key of
             None \<Rightarrow> Inl ErrPCV3StreamShape
           | Some block \<Rightarrow> Inr (xor_stream (ctr_stream block iv) source))"

definition PCV3UnwrapParanoid1 ::
  "prims \<Rightarrow> byte list \<Rightarrow> byte list \<Rightarrow> byte list \<Rightarrow> byte list \<Rightarrow> byte list \<Rightarrow> byte list \<Rightarrow>
   stream_error + byte list" where
  "PCV3UnwrapParanoid1 P destination source xChaChaKey nonce serpentKey serpentIV =
     (if \<not> validPCV3ParanoidShape destination source xChaChaKey nonce serpentKey serpentIV
      then Inl ErrPCV3StreamShape
      else ebind (pcv3XChaCha20 P (replicate (length source) 0) source xChaChaKey nonce)
             (\<lambda>intermediate. pcv3SerpentCTR P destination intermediate serpentKey serpentIV))"

definition PCV3WrapParanoid1 ::
  "prims \<Rightarrow> byte list \<Rightarrow> byte list \<Rightarrow> byte list \<Rightarrow> byte list \<Rightarrow> byte list \<Rightarrow> byte list \<Rightarrow>
   stream_error + byte list" where
  "PCV3WrapParanoid1 P destination source xChaChaKey nonce serpentKey serpentIV =
     (if \<not> validPCV3ParanoidShape destination source xChaChaKey nonce serpentKey serpentIV
      then Inl ErrPCV3StreamShape
      else ebind (pcv3SerpentCTR P (replicate (length source) 0) source serpentKey serpentIV)
             (\<lambda>intermediate. pcv3XChaCha20 P destination intermediate xChaChaKey nonce))"

section \<open>The key stream is an involution\<close>

lemma length_xor_stream [simp]: "length (xor_stream ks source) = length source"
  by (simp add: xor_stream_def)

lemma nth_xor_stream: "i < length source \<Longrightarrow> xor_stream ks source ! i = source ! i XOR ks i"
  by (simp add: xor_stream_def)

lemma xor_stream_twice [simp]: "xor_stream ks (xor_stream ks source) = source"
  by (rule nth_equalityI) (simp_all add: nth_xor_stream xor.assoc)

lemma xor_stream_Nil [simp]: "xor_stream ks [] = []"
  by (simp add: xor_stream_def)

lemma pcv3XChaCha20_Inr:
  "pcv3XChaCha20 P dst src key nonce = Inr out \<longleftrightarrow>
     length dst = length src \<and> length key = 32 \<and> length nonce = 24 \<and>
     (\<exists>ks. prim_chacha P key nonce = Some ks \<and> out = xor_stream ks src)"
  by (auto simp: pcv3XChaCha20_def split: option.splits)

lemma pcv3SerpentCTR_Inr:
  "pcv3SerpentCTR P dst src key iv = Inr out \<longleftrightarrow>
     length dst = length src \<and> length key = 32 \<and> length iv = 16 \<and>
     (\<exists>block. prim_serpent P key = Some block \<and> out = xor_stream (ctr_stream block iv) src)"
  by (auto simp: pcv3SerpentCTR_def split: option.splits)

section \<open>What the users of a transform rely on\<close>

text \<open>
  A writer transform \<open>wrap\<close> and the reader transform \<open>unwrap\<close> of the same keys: the length is
  kept and reading undoes writing, into any buffer of the right length.
\<close>

locale stream_pair =
  fixes wrap unwrap :: "byte list \<Rightarrow> byte list \<Rightarrow> stream_error + byte list"
  assumes wrap_length: "wrap dst src = Inr out \<Longrightarrow> length out = length src \<and> length dst = length src"
    and unwrap_wrap: "wrap dst src = Inr out \<Longrightarrow> length dst' = length src \<Longrightarrow> unwrap dst' out = Inr src"
    and wrap_unwrap: "unwrap dst src = Inr out \<Longrightarrow> length dst' = length src \<Longrightarrow> wrap dst' out = Inr src"
begin

lemma unwrap_length: "unwrap dst src = Inr out \<Longrightarrow> length out = length src"
  using wrap_unwrap [of dst src out src] wrap_length [of src out src] by simp

lemma wrap_injective: "wrap dst x = Inr c \<Longrightarrow> wrap dst y = Inr c \<Longrightarrow> x = y"
  using unwrap_wrap [of dst x c dst] unwrap_wrap [of dst y c dst] wrap_length [of dst x c]
    wrap_length [of dst y c] by simp

lemma unwrap_iff:
  "length c = length p \<Longrightarrow> unwrap (replicate (length c) 0) c = Inr p \<longleftrightarrow>
     wrap (replicate (length p) 0) p = Inr c"
  using unwrap_wrap [of "replicate (length p) 0" p c "replicate (length c) 0"]
    wrap_unwrap [of "replicate (length c) 0" c p "replicate (length p) 0"] by auto

end

interpretation standard: stream_pair
    "\<lambda>dst src. PCV3WrapStandard1 P dst src key nonce" "\<lambda>dst src. PCV3UnwrapStandard1 P dst src key nonce"
  for P key nonce
  by unfold_locales
    (auto simp: PCV3WrapStandard1_def PCV3UnwrapStandard1_def pcv3XChaCha20_Inr)

lemma PCV3WrapParanoid1_Inr:
  "PCV3WrapParanoid1 P dst src k1 n k2 iv = Inr out \<longleftrightarrow>
     validPCV3ParanoidShape dst src k1 n k2 iv \<and>
     (\<exists>ks block. prim_chacha P k1 n = Some ks \<and> prim_serpent P k2 = Some block \<and>
        out = xor_stream ks (xor_stream (ctr_stream block iv) src))"
  by (auto simp: PCV3WrapParanoid1_def ebind_eq_Inr pcv3XChaCha20_Inr pcv3SerpentCTR_Inr
      validPCV3ParanoidShape_def)

lemma PCV3UnwrapParanoid1_Inr:
  "PCV3UnwrapParanoid1 P dst src k1 n k2 iv = Inr out \<longleftrightarrow>
     validPCV3ParanoidShape dst src k1 n k2 iv \<and>
     (\<exists>ks block. prim_chacha P k1 n = Some ks \<and> prim_serpent P k2 = Some block \<and>
        out = xor_stream (ctr_stream block iv) (xor_stream ks src))"
  by (auto simp: PCV3UnwrapParanoid1_def ebind_eq_Inr pcv3XChaCha20_Inr pcv3SerpentCTR_Inr
      validPCV3ParanoidShape_def)

interpretation paranoid: stream_pair
    "\<lambda>dst src. PCV3WrapParanoid1 P dst src k1 n k2 iv"
    "\<lambda>dst src. PCV3UnwrapParanoid1 P dst src k1 n k2 iv"
  for P k1 n k2 iv
  by unfold_locales
    (auto simp: PCV3WrapParanoid1_Inr PCV3UnwrapParanoid1_Inr validPCV3ParanoidShape_def)

section \<open>The keys of one suite\<close>

text \<open>What the constructors promise: they accept keys and nonces of the documented sizes.\<close>

definition ciphers_ok :: "prims \<Rightarrow> bool" where
  "ciphers_ok P \<longleftrightarrow>
     (\<forall>key nonce. length key = 32 \<longrightarrow> length nonce = 24 \<longrightarrow> prim_chacha P key nonce \<noteq> None) \<and>
     (\<forall>key. length key = 32 \<longrightarrow> prim_serpent P key \<noteq> None)"

lemma ciphers_okE:
  assumes "ciphers_ok P" and "length key = 32" and "length nonce = 24"
  obtains ks where "prim_chacha P key nonce = Some ks"
  using assms unfolding ciphers_ok_def not_None_eq by blast

lemma ciphers_ok_serpentE:
  assumes "ciphers_ok P" and "length key = 32"
  obtains block where "prim_serpent P key = Some block"
  using assms unfolding ciphers_ok_def not_None_eq by blast

lemma PCV3WrapStandard1_total:
  assumes "ciphers_ok P" and "length dst = length src" and "length key = 32" and "length nonce = 24"
  obtains out where "PCV3WrapStandard1 P dst src key nonce = Inr out" and "length out = length src"
proof -
  obtain ks where "prim_chacha P key nonce = Some ks"
    by (rule ciphers_okE [OF assms(1,3,4)])
  with assms that [of "xor_stream ks src"] show thesis
    by (auto simp: PCV3WrapStandard1_def pcv3XChaCha20_Inr)
qed

lemma PCV3WrapParanoid1_total:
  assumes "ciphers_ok P" and "validPCV3ParanoidShape dst src k1 n k2 iv"
  obtains out where "PCV3WrapParanoid1 P dst src k1 n k2 iv = Inr out" and "length out = length src"
proof -
  have l: "length k1 = 32" "length n = 24" "length k2 = 32"
    using assms(2) by (simp_all add: validPCV3ParanoidShape_def)
  obtain ks where "prim_chacha P k1 n = Some ks" by (rule ciphers_okE [OF assms(1) l(1,2)])
  moreover obtain block where "prim_serpent P k2 = Some block"
    by (rule ciphers_ok_serpentE [OF assms(1) l(3)])
  ultimately show thesis
    using assms that [of "xor_stream ks (xor_stream (ctr_stream block iv) src)"]
    by (auto simp: PCV3WrapParanoid1_Inr validPCV3ParanoidShape_def)
qed

end
