(* ===== verification/Key_Schedule.thy ===== *)
theory Key_Schedule
  imports Prelude
begin

text \<open>
  The key schedule of PCV3 (\<open>pcv3credential/keys.go\<close>): the closed registry of keys of a suite,
  the check of a request against it, and the derivation of the keys from the credential root
  and the volume key. HKDF is a parameter: \<open>extract\<close> and \<open>expand\<close> return no value where
  the provider returns an error. A secret owner is \<open>byte list option option\<close>: the outer level
  is the pointer, the inner one the secret it holds. Function arguments are never nil.
\<close>

section \<open>The registry\<close>

abbreviation (input) derivedKeyBytes :: nat where "derivedKeyBytes \<equiv> 32"
abbreviation (input) KeyRolePrimary :: byte where "KeyRolePrimary \<equiv> 0"
abbreviation (input) KeyRoleBackup :: byte where "KeyRoleBackup \<equiv> 1"
abbreviation (input) KeyRoleNotReplica :: byte where "KeyRoleNotReplica \<equiv> 0xff"

abbreviation (input) KeyLabelCredentialWrapXChaCha20 :: string where
  "KeyLabelCredentialWrapXChaCha20 \<equiv> ''credential/wrap/xchacha20''"
abbreviation (input) KeyLabelCredentialWrapSerpent :: string where
  "KeyLabelCredentialWrapSerpent \<equiv> ''credential/wrap/serpent''"
abbreviation (input) KeyLabelCredentialWrapMAC :: string where
  "KeyLabelCredentialWrapMAC \<equiv> ''credential/wrap/mac''"
abbreviation (input) KeyLabelVolumeReplicaMAC :: string where
  "KeyLabelVolumeReplicaMAC \<equiv> ''volume/replica/mac''"
abbreviation (input) KeyLabelVolumeMetadataMAC :: string where
  "KeyLabelVolumeMetadataMAC \<equiv> ''volume/metadata/mac''"
abbreviation (input) KeyLabelVolumePayloadXChaCha20 :: string where
  "KeyLabelVolumePayloadXChaCha20 \<equiv> ''volume/payload/xchacha20''"
abbreviation (input) KeyLabelVolumePayloadSerpent :: string where
  "KeyLabelVolumePayloadSerpent \<equiv> ''volume/payload/serpent''"
abbreviation (input) KeyLabelVolumePayloadMAC :: string where
  "KeyLabelVolumePayloadMAC \<equiv> ''volume/payload/mac''"

definition scheduleDomain :: "byte list" where
  "scheduleDomain = ascii ''Picocrypt-NG/PCV3/HKDF'' @ [0]"

record KeyRequest =
  req_Label :: string
  req_Role :: byte
  req_OutputBytes :: u16

abbreviation (input) scheduleRootCredential :: byte where "scheduleRootCredential \<equiv> 1"
abbreviation (input) scheduleRootVolume :: byte where "scheduleRootVolume \<equiv> 2"

record scheduleRow =
  row_suite :: u16
  row_root :: byte
  row_request :: KeyRequest

record validatedSchedule =
  vs_suite :: u16
  vs_rows :: "scheduleRow list"

datatype ScheduleErrorCode =
    ScheduleErrorInvalidRequest | ScheduleErrorInvalidSuite | ScheduleErrorCardinality
  | ScheduleErrorUnknownRequest | ScheduleErrorDuplicateRequest | ScheduleErrorCredentialRoot
  | ScheduleErrorVolumeKey | ScheduleErrorVolumeID | ScheduleErrorExtract
  | ScheduleErrorExpand | ScheduleErrorOutput

record ScheduleError =
  se_Code :: ScheduleErrorCode
  se_Suite :: u16
  se_Index :: int

definition newScheduleError :: "ScheduleErrorCode \<Rightarrow> u16 \<Rightarrow> int \<Rightarrow> ScheduleError" where
  "newScheduleError code suite index = \<lparr>se_Code = code, se_Suite = suite, se_Index = index\<rparr>"

text \<open>The local function \<open>row\<close> of \<open>fixedScheduleForSuite\<close>.\<close>

definition schedule_row :: "u16 \<Rightarrow> byte \<Rightarrow> string \<Rightarrow> byte \<Rightarrow> scheduleRow" where
  "schedule_row suite root label role =
     \<lparr>row_suite = suite, row_root = root,
      row_request = \<lparr>req_Label = label, req_Role = role, req_OutputBytes = 32\<rparr>\<rparr>"

definition fixedScheduleForSuite :: "u16 \<Rightarrow> ScheduleError + scheduleRow list" where
  "fixedScheduleForSuite suite =
     (let row = schedule_row suite in
      if suite = 1 then
        Inr [row scheduleRootCredential KeyLabelCredentialWrapXChaCha20 KeyRolePrimary,
             row scheduleRootCredential KeyLabelCredentialWrapXChaCha20 KeyRoleBackup,
             row scheduleRootCredential KeyLabelCredentialWrapMAC KeyRolePrimary,
             row scheduleRootCredential KeyLabelCredentialWrapMAC KeyRoleBackup,
             row scheduleRootVolume KeyLabelVolumeReplicaMAC KeyRolePrimary,
             row scheduleRootVolume KeyLabelVolumeReplicaMAC KeyRoleBackup,
             row scheduleRootVolume KeyLabelVolumeMetadataMAC KeyRoleNotReplica,
             row scheduleRootVolume KeyLabelVolumePayloadXChaCha20 KeyRoleNotReplica,
             row scheduleRootVolume KeyLabelVolumePayloadMAC KeyRoleNotReplica]
      else if suite = 2 then
        Inr [row scheduleRootCredential KeyLabelCredentialWrapXChaCha20 KeyRolePrimary,
             row scheduleRootCredential KeyLabelCredentialWrapXChaCha20 KeyRoleBackup,
             row scheduleRootCredential KeyLabelCredentialWrapSerpent KeyRolePrimary,
             row scheduleRootCredential KeyLabelCredentialWrapSerpent KeyRoleBackup,
             row scheduleRootCredential KeyLabelCredentialWrapMAC KeyRolePrimary,
             row scheduleRootCredential KeyLabelCredentialWrapMAC KeyRoleBackup,
             row scheduleRootVolume KeyLabelVolumeReplicaMAC KeyRolePrimary,
             row scheduleRootVolume KeyLabelVolumeReplicaMAC KeyRoleBackup,
             row scheduleRootVolume KeyLabelVolumeMetadataMAC KeyRoleNotReplica,
             row scheduleRootVolume KeyLabelVolumePayloadXChaCha20 KeyRoleNotReplica,
             row scheduleRootVolume KeyLabelVolumePayloadSerpent KeyRoleNotReplica,
             row scheduleRootVolume KeyLabelVolumePayloadMAC KeyRoleNotReplica]
      else Inl (newScheduleError ScheduleErrorInvalidSuite suite (- 1)))"

section \<open>Checking a request\<close>

definition allowed_map :: "scheduleRow list \<Rightarrow> KeyRequest \<rightharpoonup> scheduleRow" where
  "allowed_map rows = foldl (\<lambda>m row. m(row_request row \<mapsto> row)) Map.empty rows"

fun canonicalRows ::
  "u16 \<Rightarrow> (KeyRequest \<rightharpoonup> scheduleRow) \<Rightarrow> KeyRequest set \<Rightarrow> nat \<Rightarrow> KeyRequest list \<Rightarrow>
   ScheduleError + scheduleRow list" where
  "canonicalRows suite allowed seen i [] = Inr []"
| "canonicalRows suite allowed seen i (request # rest) =
     (case allowed request of
        None \<Rightarrow> Inl (newScheduleError ScheduleErrorUnknownRequest suite (int i))
      | Some row \<Rightarrow>
          if request \<in> seen
          then Inl (newScheduleError ScheduleErrorDuplicateRequest suite (int i))
          else ebind (canonicalRows suite allowed (insert request seen) (Suc i) rest)
                 (\<lambda>rows. Inr (row # rows)))"

definition validateKeySchedule ::
  "u16 \<Rightarrow> KeyRequest list \<Rightarrow> ScheduleError + validatedSchedule" where
  "validateKeySchedule suite requests =
     ebind (fixedScheduleForSuite suite) (\<lambda>allowedRows.
       if requests = [] \<or> length requests > length allowedRows
       then Inl (newScheduleError ScheduleErrorCardinality suite (- 1))
       else ebind (canonicalRows suite (allowed_map allowedRows) {} 0 requests)
              (\<lambda>canonical. Inr \<lparr>vs_suite = suite, vs_rows = canonical\<rparr>))"

section \<open>The derivation\<close>

type_synonym secret_ref = "byte list option option"
type_synonym extractor = "byte list \<Rightarrow> byte list \<Rightarrow> byte list option"
type_synonym expander = "byte list \<Rightarrow> byte list \<Rightarrow> nat \<Rightarrow> byte list option"

record keyMaterial =
  km_credentialRoot :: secret_ref
  km_volumeKey :: secret_ref
  km_credentialPRK :: "byte list option"
  km_volumePRK :: "byte list option"
  km_keys :: "(scheduleRow \<times> byte list option) list"
  km_volumeID :: "byte list"

definition ownProviderResultSized ::
  "byte list option \<Rightarrow> nat \<Rightarrow> u16 \<Rightarrow> int \<Rightarrow> ScheduleErrorCode \<Rightarrow> ScheduleError + byte list" where
  "ownProviderResultSized returned outputBytes suite index providerCode =
     (case returned of
        None \<Rightarrow> Inl (newScheduleError providerCode suite index)
      | Some bytes \<Rightarrow>
          if outputBytes = 0 \<or> length bytes \<noteq> outputBytes
          then Inl (newScheduleError ScheduleErrorOutput suite index)
          else Inr bytes)"

definition ownProviderResult ::
  "byte list option \<Rightarrow> u16 \<Rightarrow> int \<Rightarrow> ScheduleErrorCode \<Rightarrow> ScheduleError + byte list" where
  "ownProviderResult returned suite index providerCode =
     ownProviderResultSized returned derivedKeyBytes suite index providerCode"

definition scheduleInfoFor :: "string \<Rightarrow> u16 \<Rightarrow> byte \<Rightarrow> byte list" where
  "scheduleInfoFor label suite role =
     scheduleDomain @ put_u16 3 @ put_u16 1 @ put_u16 suite @ [role] @
     put_u16 (word_of_nat (length label)) @ ascii label"

definition scheduleInfo :: "scheduleRow \<Rightarrow> byte list" where
  "scheduleInfo row =
     scheduleInfoFor (req_Label (row_request row)) (row_suite row) (req_Role (row_request row))"

definition newKeyMaterial ::
  "validatedSchedule option \<Rightarrow> byte list \<Rightarrow> ScheduleError + keyMaterial" where
  "newKeyMaterial schedule volumeID =
     (let suite = (case schedule of None \<Rightarrow> 0 | Some s \<Rightarrow> vs_suite s) in
      case schedule of
        None \<Rightarrow> Inl (newScheduleError ScheduleErrorInvalidRequest suite (- 1))
      | Some s \<Rightarrow>
          if vs_rows s = [] then Inl (newScheduleError ScheduleErrorInvalidRequest suite (- 1))
          else if length volumeID \<noteq> 32 then Inl (newScheduleError ScheduleErrorVolumeID suite (- 1))
          else Inr \<lparr>km_credentialRoot = None, km_volumeKey = None, km_credentialPRK = None,
                    km_volumePRK = None, km_keys = map (\<lambda>row. (row, None)) (vs_rows s),
                    km_volumeID = volumeID\<rparr>)"

text \<open>The stages update the material in place; what they set before an error stays set.\<close>

definition deriveCredentialRootStageWith ::
  "secret_ref \<Rightarrow> extractor \<Rightarrow> (keyMaterial, ScheduleError, unit) io" where
  "deriveCredentialRootStageWith root extract = (\<lambda>material.
     if km_keys material = [] then (Inl (newScheduleError ScheduleErrorInvalidRequest 0 (- 1)), material)
     else
       let suite = row_suite (fst (hd (km_keys material))) in
       if km_credentialRoot material \<noteq> None \<or> km_credentialPRK material \<noteq> None
       then (Inl (newScheduleError ScheduleErrorInvalidRequest suite (- 1)), material)
       else
         let material = material\<lparr>km_credentialRoot := root\<rparr> in
         case root of
           Some (Some secret) \<Rightarrow>
             if length secret \<noteq> 32
             then (Inl (newScheduleError ScheduleErrorCredentialRoot suite (- 1)), material)
             else
               (case ownProviderResult (extract secret (km_volumeID material)) suite (- 1)
                       ScheduleErrorExtract of
                  Inl err \<Rightarrow> (Inl err, material)
                | Inr prk \<Rightarrow> (Inr (), material\<lparr>km_credentialPRK := Some prk\<rparr>))
         | _ \<Rightarrow> (Inl (newScheduleError ScheduleErrorCredentialRoot suite (- 1)), material))"

definition deriveVolumeKeyStageWith ::
  "secret_ref \<Rightarrow> extractor \<Rightarrow> (keyMaterial, ScheduleError, unit) io" where
  "deriveVolumeKeyStageWith key extract = (\<lambda>material.
     if km_keys material = [] then (Inl (newScheduleError ScheduleErrorInvalidRequest 0 (- 1)), material)
     else
       let suite = row_suite (fst (hd (km_keys material))) in
       if km_volumeKey material \<noteq> None \<or> km_volumePRK material \<noteq> None
       then (Inl (newScheduleError ScheduleErrorInvalidRequest suite (- 1)), material)
       else
         let material = material\<lparr>km_volumeKey := key\<rparr> in
         case key of
           Some (Some secret) \<Rightarrow>
             if length secret \<noteq> 32
             then (Inl (newScheduleError ScheduleErrorVolumeKey suite (- 1)), material)
             else
               (case ownProviderResult (extract secret (km_volumeID material)) suite (- 1)
                       ScheduleErrorExtract of
                  Inl err \<Rightarrow> (Inl err, material)
                | Inr prk \<Rightarrow> (Inr (), material\<lparr>km_volumePRK := Some prk\<rparr>))
         | _ \<Rightarrow> (Inl (newScheduleError ScheduleErrorVolumeKey suite (- 1)), material))"

text \<open>One row of the expansion: the key for the row, or the error at its index.\<close>

definition expand_row ::
  "expander \<Rightarrow> u16 \<Rightarrow> keyMaterial \<Rightarrow> nat \<Rightarrow> ScheduleError + byte list" where
  "expand_row expand suite material i =
     (let (row, secret) = km_keys material ! i;
          invalid = newScheduleError ScheduleErrorInvalidRequest suite (int i) in
      if secret \<noteq> None then Inl invalid
      else
        ebind (if row_root row = scheduleRootCredential then Inr (km_credentialPRK material)
               else if row_root row = scheduleRootVolume then Inr (km_volumePRK material)
               else Inl invalid)
          (\<lambda>prk. case prk of
             None \<Rightarrow> Inl invalid
           | Some p \<Rightarrow>
               if length p \<noteq> 32 then Inl invalid
               else ownProviderResult
                      (expand p (scheduleInfo row) (unat (req_OutputBytes (row_request row))))
                      suite (int i) ScheduleErrorExpand))"

fun expand_rows ::
  "byte \<Rightarrow> expander \<Rightarrow> u16 \<Rightarrow> nat list \<Rightarrow> (keyMaterial, ScheduleError, unit) io" where
  "expand_rows root expand suite [] = io_ret ()"
| "expand_rows root expand suite (i # rest) = (\<lambda>material.
     let row = fst (km_keys material ! i) in
     if root \<noteq> 0 \<and> row_root row \<noteq> root then expand_rows root expand suite rest material
     else
       case expand_row expand suite material i of
         Inl err \<Rightarrow> (Inl err, material)
       | Inr owned \<Rightarrow>
           expand_rows root expand suite rest
             (material\<lparr>km_keys := (km_keys material)[i := (row, Some owned)]\<rparr>))"

definition expandKeyMaterialWith ::
  "byte \<Rightarrow> expander \<Rightarrow> (keyMaterial, ScheduleError, unit) io" where
  "expandKeyMaterialWith root expand = (\<lambda>material.
     if km_keys material = [] then (Inl (newScheduleError ScheduleErrorInvalidRequest 0 (- 1)), material)
     else expand_rows root expand (row_suite (fst (hd (km_keys material))))
            [0..<length (km_keys material)] material)"

definition deriveKeyMaterialWith ::
  "validatedSchedule option \<Rightarrow> secret_ref \<Rightarrow> secret_ref \<Rightarrow> byte list \<Rightarrow> extractor \<Rightarrow> expander \<Rightarrow>
   ScheduleError + keyMaterial" where
  "deriveKeyMaterialWith schedule root key volumeID extract expand =
     (let suite = (case schedule of None \<Rightarrow> 0 | Some s \<Rightarrow> vs_suite s) in
      ebind (newKeyMaterial schedule volumeID) (\<lambda>material.
      ebind (case root of
               Some (Some secret) \<Rightarrow> require (length secret = 32)
                 (newScheduleError ScheduleErrorCredentialRoot suite (- 1))
             | _ \<Rightarrow> Inl (newScheduleError ScheduleErrorCredentialRoot suite (- 1))) (\<lambda>_.
      ebind (case key of
               Some (Some secret) \<Rightarrow> require (length secret = 32)
                 (newScheduleError ScheduleErrorVolumeKey suite (- 1))
             | _ \<Rightarrow> Inl (newScheduleError ScheduleErrorVolumeKey suite (- 1))) (\<lambda>_.
      case io_bind (deriveCredentialRootStageWith root extract) (\<lambda>_.
           io_bind (deriveVolumeKeyStageWith key extract) (\<lambda>_.
           expandKeyMaterialWith 0 expand)) material of
        (Inl err, _) \<Rightarrow> Inl err
      | (Inr _, material) \<Rightarrow> Inr material))))"

section \<open>Key labels separate the keys\<close>

lemma ascii_inject [simp]: "ascii s = ascii t \<longleftrightarrow> s = t"
proof -
  have "inj (of_char :: char \<Rightarrow> byte)"
  proof (rule injI)
    fix c d
    assume "(of_char c :: byte) = of_char d"
    then have "unat (word_of_nat (of_char c) :: byte) = unat (word_of_nat (of_char d) :: byte)"
      by (simp add: of_nat_of_char)
    then have "(of_char c :: nat) = of_char d" by (simp add: unat_of_nat)
    then show "c = d" by simp
  qed
  then show ?thesis by (simp add: ascii_def inj_map_eq_map)
qed

lemma put_u16_inject [simp]: "put_u16 a = put_u16 b \<longleftrightarrow> a = b"
  by (metis get_put_u16)

text \<open>The expansion info is prefix-free in its parts: equal infos name the same key.\<close>

lemma scheduleInfoFor_inject:
  "scheduleInfoFor label suite role = scheduleInfoFor label' suite' role' \<longleftrightarrow>
     label = label' \<and> suite = suite' \<and> role = role'"
  unfolding scheduleInfoFor_def by (auto simp: append_eq_append_conv)

section \<open>Requests\<close>

lemma allowed_map_eq:
  "allowed_map rows = map_of (rev (map (\<lambda>row. (row_request row, row)) rows))"
  unfolding allowed_map_def
  by (induction rows rule: rev_induct) auto

lemma allowed_map_row: "allowed_map rows request = Some row \<Longrightarrow> row \<in> set rows \<and> row_request row = request"
  unfolding allowed_map_eq by (drule map_of_SomeD) auto

lemma allowed_map_defined: "allowed_map rows request \<noteq> None \<longleftrightarrow> request \<in> row_request ` set rows"
  unfolding allowed_map_eq by (simp add: map_of_eq_None_iff image_image)

lemma canonicalRows_Inr:
  "canonicalRows suite allowed seen i requests = Inr rows \<longleftrightarrow>
     distinct requests \<and> set requests \<inter> seen = {} \<and> map allowed requests = map Some rows"
proof (induction requests arbitrary: seen i rows)
  case Nil
  then show ?case by auto
next
  case (Cons request requests)
  show ?case
    by (cases rows; cases "allowed request") (auto simp: Cons.IH ebind_eq_Inr)
qed

text \<open>
  A request is accepted exactly if it is a nonempty list of distinct entries of the suite's
  registry; the schedule then has the registry's rows in the order of the request.
\<close>

lemma validateKeySchedule_Inr:
  assumes "fixedScheduleForSuite suite = Inr rows"
  shows "(\<exists>schedule. validateKeySchedule suite requests = Inr schedule \<and>
           map row_request (vs_rows schedule) = requests \<and> set (vs_rows schedule) \<subseteq> set rows) \<longleftrightarrow>
         requests \<noteq> [] \<and> distinct requests \<and> set requests \<subseteq> row_request ` set rows"
proof
  assume "\<exists>schedule. validateKeySchedule suite requests = Inr schedule \<and>
           map row_request (vs_rows schedule) = requests \<and> set (vs_rows schedule) \<subseteq> set rows"
  then obtain schedule where v: "validateKeySchedule suite requests = Inr schedule"
    and r: "map row_request (vs_rows schedule) = requests" and sub: "set (vs_rows schedule) \<subseteq> set rows"
    by blast
  from v assms have "requests \<noteq> []" and "distinct requests"
    by (auto simp: validateKeySchedule_def ebind_eq_Inr canonicalRows_Inr split: if_splits)
  moreover have "set requests \<subseteq> row_request ` set rows" using sub by (auto simp flip: r)
  ultimately show "requests \<noteq> [] \<and> distinct requests \<and> set requests \<subseteq> row_request ` set rows" by simp
next
  assume r: "requests \<noteq> [] \<and> distinct requests \<and> set requests \<subseteq> row_request ` set rows"
  let ?f = "\<lambda>request. the (allowed_map rows request)"
  have def: "allowed_map rows request = Some (?f request)" if "request \<in> set requests" for request
    using that r allowed_map_defined [of rows request] by auto
  then have "map (allowed_map rows) requests = map Some (map ?f requests)" by simp
  then have can: "canonicalRows suite (allowed_map rows) {} 0 requests = Inr (map ?f requests)"
    using r by (simp add: canonicalRows_Inr)
  have "length requests = card (set requests)" using r distinct_card by metis
  also have "\<dots> \<le> card (row_request ` set rows)" using r by (intro card_mono) auto
  also have "\<dots> \<le> length rows" by (metis card_image_le card_length finite_set le_trans)
  finally have "validateKeySchedule suite requests = Inr \<lparr>vs_suite = suite, vs_rows = map ?f requests\<rparr>"
    using r assms can by (simp add: validateKeySchedule_def)
  moreover have "map row_request (map ?f requests) = requests"
    using def allowed_map_row [of rows] by (intro nth_equalityI) force+
  moreover have "set (map ?f requests) \<subseteq> set rows"
    using def allowed_map_row [of rows] by force
  ultimately show "\<exists>schedule. validateKeySchedule suite requests = Inr schedule \<and>
           map row_request (vs_rows schedule) = requests \<and> set (vs_rows schedule) \<subseteq> set rows"
    by force
qed

section \<open>What the expansion computes\<close>

definition prk_of :: "keyMaterial \<Rightarrow> scheduleRow \<Rightarrow> byte list option" where
  "prk_of material row =
     (if row_root row = 1 then km_credentialPRK material
      else if row_root row = 2 then km_volumePRK material else None)"

definition row_key :: "expander \<Rightarrow> keyMaterial \<Rightarrow> scheduleRow \<Rightarrow> byte list option" where
  "row_key expand material row =
     (case prk_of material row of
        None \<Rightarrow> None
      | Some p \<Rightarrow>
          if length p \<noteq> 32 then None
          else case expand p (scheduleInfo row) (unat (req_OutputBytes (row_request row))) of
                 None \<Rightarrow> None
               | Some k \<Rightarrow> if length k = 32 then Some k else None)"

abbreviation selected :: "byte \<Rightarrow> scheduleRow \<Rightarrow> bool" where
  "selected root row \<equiv> root = 0 \<or> row_root row = root"

definition filled :: "byte \<Rightarrow> expander \<Rightarrow> nat set \<Rightarrow> keyMaterial \<Rightarrow> keyMaterial" where
  "filled root expand I material = material\<lparr>km_keys :=
     map (\<lambda>i. let row = fst (km_keys material ! i) in
             if i \<in> I \<and> selected root row then (row, row_key expand material row)
             else km_keys material ! i) [0..<length (km_keys material)]\<rparr>"

lemma row_key_update [simp]: "row_key expand (material\<lparr>km_keys := ks\<rparr>) = row_key expand material"
  by (rule ext) (simp add: row_key_def prk_of_def)

lemma ownProviderResult_Inr:
  "ownProviderResult returned suite i code = Inr k \<longleftrightarrow> returned = Some k \<and> length k = 32"
  by (auto simp: ownProviderResult_def ownProviderResultSized_def split: option.splits)

lemma expand_row_Inr:
  "expand_row expand suite material i = Inr k \<longleftrightarrow>
     snd (km_keys material ! i) = None \<and> row_key expand material (fst (km_keys material ! i)) = Some k"
proof -
  obtain row key where rk: "km_keys material ! i = (row, key)" by (cases "km_keys material ! i")
  consider "key \<noteq> None" | "key = None" "prk_of material row = None"
    | p where "key = None" "prk_of material row = Some p" by (cases key; cases "prk_of material row") auto
  then show ?thesis
  proof cases
    case 1
    then show ?thesis by (simp add: expand_row_def rk Let_def)
  next
    case 2
    then show ?thesis
      by (auto simp: expand_row_def rk Let_def row_key_def prk_of_def split: if_splits)
  next
    case 3
    then have "expand_row expand suite material i =
        (if length p \<noteq> 32 then Inl (newScheduleError ScheduleErrorInvalidRequest suite (int i))
         else ownProviderResult (expand p (scheduleInfo row) (unat (req_OutputBytes (row_request row))))
                suite (int i) ScheduleErrorExpand)"
      by (auto simp: expand_row_def rk Let_def prk_of_def split: if_splits)
    with 3 show ?thesis
      by (auto simp: rk row_key_def ownProviderResult_Inr split: option.split)
  qed
qed

lemma filled_empty [simp]: "filled root expand {} material = material"
proof -
  have "map (\<lambda>i. km_keys material ! i) [0..<length (km_keys material)] = km_keys material"
    by (rule map_nth)
  then show ?thesis by (simp add: filled_def Let_def)
qed

lemma filled_skip:
  assumes "\<not> selected root (fst (km_keys material ! i))"
  shows "filled root expand (insert i I) material = filled root expand I material"
proof -
  have "map (\<lambda>j. let row = fst (km_keys material ! j) in
             if j \<in> insert i I \<and> selected root row then (row, row_key expand material row)
             else km_keys material ! j) [0..<length (km_keys material)] =
        map (\<lambda>j. let row = fst (km_keys material ! j) in
             if j \<in> I \<and> selected root row then (row, row_key expand material row)
             else km_keys material ! j) [0..<length (km_keys material)]"
    using assms by (intro map_cong) (auto simp: Let_def)
  then show ?thesis by (simp only: filled_def)
qed

lemma filled_step:
  assumes "selected root (fst (km_keys material ! i))" and "i \<notin> I"
    and "row_key expand material (fst (km_keys material ! i)) = Some k"
  shows "filled root expand (insert i I) material = filled root expand I
      (material\<lparr>km_keys := (km_keys material)[i := (fst (km_keys material ! i), Some k)]\<rparr>)"
proof -
  have "map (\<lambda>j. let row = fst (km_keys material ! j) in
             if j \<in> insert i I \<and> selected root row then (row, row_key expand material row)
             else km_keys material ! j) [0..<length (km_keys material)] =
        map (\<lambda>j. let row = fst ((km_keys material)[i := (fst (km_keys material ! i), Some k)] ! j) in
             if j \<in> I \<and> selected root row then (row, row_key expand material row)
             else (km_keys material)[i := (fst (km_keys material ! i), Some k)] ! j)
          [0..<length (km_keys material)]"
  proof (rule map_cong)
    fix j
    assume "j \<in> set [0..<length (km_keys material)]"
    then show "(let row = fst (km_keys material ! j) in
             if j \<in> insert i I \<and> selected root row then (row, row_key expand material row)
             else km_keys material ! j) =
        (let row = fst ((km_keys material)[i := (fst (km_keys material ! i), Some k)] ! j) in
             if j \<in> I \<and> selected root row then (row, row_key expand material row)
             else (km_keys material)[i := (fst (km_keys material ! i), Some k)] ! j)"
    proof (cases "j = i")
      case False
      then have "(km_keys material)[i := (fst (km_keys material ! i), Some k)] ! j =
          km_keys material ! j" by simp
      with False show ?thesis by (simp only: Let_def insert_iff simp_thms)
    qed (use assms \<open>j \<in> _\<close> in \<open>auto simp: Let_def\<close>)
  qed simp
  then show ?thesis unfolding filled_def row_key_update
    by (cases material)
      (simp only: keyMaterial.simps keyMaterial.update_convs length_list_update)
qed

lemma expand_rows_Inr:
  assumes "distinct is" and "\<And>i. i \<in> set is \<Longrightarrow> i < length (km_keys material)"
  shows "expand_rows root expand suite is material = (Inr u, material') \<longleftrightarrow>
     (\<forall>i \<in> set is. selected root (fst (km_keys material ! i)) \<longrightarrow>
        snd (km_keys material ! i) = None \<and>
        row_key expand material (fst (km_keys material ! i)) \<noteq> None) \<and>
     material' = filled root expand (set is) material"
  using assms
proof (induction "is" arbitrary: material)
  case Nil
  then show ?case by auto
next
  case (Cons i js)
  let ?row = "fst (km_keys material ! i)"
  show ?case
  proof (cases "selected root ?row")
    case False
    then have "expand_rows root expand suite (i # js) material = expand_rows root expand suite js material"
      by (simp add: Let_def)
    with False Cons show ?thesis by (simp add: filled_skip)
  next
    case sel: True
    show ?thesis
    proof (cases "expand_row expand suite material i")
      case (Inl err)
      then have "\<not> (snd (km_keys material ! i) = None \<and> row_key expand material ?row \<noteq> None)"
        using expand_row_Inr [of expand suite material i] by auto
      moreover have "expand_rows root expand suite (i # js) material = (Inl err, material)"
        using Inl sel by (auto simp: Let_def)
      ultimately show ?thesis using sel by auto
    next
      case (Inr k)
      then have key: "snd (km_keys material ! i) = None" "row_key expand material ?row = Some k"
        by (simp_all add: expand_row_Inr)
      let ?m = "material\<lparr>km_keys := (km_keys material)[i := (?row, Some k)]\<rparr>"
      have "expand_rows root expand suite (i # js) material = expand_rows root expand suite js ?m"
        using Inr sel by (auto simp: Let_def)
      moreover have "filled root expand (set (i # js)) material = filled root expand (set js) ?m"
        using filled_step [OF sel _ key(2), of "set js"] Cons.prems(1) by simp
      moreover have "km_keys ?m ! j = km_keys material ! j" if "j \<in> set js" for j
        using that Cons.prems(1) by (cases "j = i") auto
      ultimately show ?thesis using Cons.IH [of ?m] Cons.prems key by simp
    qed
  qed
qed

text \<open>The expansion of all rows of a root, as a map over the keys.\<close>

definition with_keys :: "byte \<Rightarrow> expander \<Rightarrow> keyMaterial \<Rightarrow> keyMaterial" where
  "with_keys root expand material = material\<lparr>km_keys :=
     map (\<lambda>(row, key). (row, if selected root row then row_key expand material row else key))
       (km_keys material)\<rparr>"

definition expandable :: "byte \<Rightarrow> expander \<Rightarrow> keyMaterial \<Rightarrow> bool" where
  "expandable root expand material \<longleftrightarrow> (\<forall>(row, key) \<in> set (km_keys material).
     selected root row \<longrightarrow> key = None \<and> row_key expand material row \<noteq> None)"

lemma filled_all:
  "filled root expand {0..<length (km_keys material)} material = with_keys root expand material"
  unfolding filled_def with_keys_def
  by (rule arg_cong [of _ _ "\<lambda>ks. material\<lparr>km_keys := ks\<rparr>"], rule nth_equalityI)
    (auto simp: Let_def split: prod.split)

lemma expandKeyMaterialWith_Inr:
  "expandKeyMaterialWith root expand material = (Inr u, material') \<longleftrightarrow>
     km_keys material \<noteq> [] \<and> expandable root expand material \<and>
     material' = with_keys root expand material"
proof -
  have "expandable root expand material \<longleftrightarrow>
      (\<forall>i \<in> set [0..<length (km_keys material)]. selected root (fst (km_keys material ! i)) \<longrightarrow>
        snd (km_keys material ! i) = None \<and>
        row_key expand material (fst (km_keys material ! i)) \<noteq> None)"
    unfolding expandable_def all_set_conv_all_nth by (simp add: case_prod_beta)
  moreover have "expand_rows root expand (row_suite (fst (hd (km_keys material))))
        [0..<length (km_keys material)] material = (Inr u, material') \<longleftrightarrow>
      (\<forall>i \<in> set [0..<length (km_keys material)]. selected root (fst (km_keys material ! i)) \<longrightarrow>
        snd (km_keys material ! i) = None \<and>
        row_key expand material (fst (km_keys material ! i)) \<noteq> None) \<and>
      material' = filled root expand (set [0..<length (km_keys material)]) material"
    by (rule expand_rows_Inr) simp_all
  ultimately have "expand_rows root expand (row_suite (fst (hd (km_keys material))))
        [0..<length (km_keys material)] material = (Inr u, material') \<longleftrightarrow>
      expandable root expand material \<and> material' = with_keys root expand material"
    by (simp only: set_upt filled_all)
  then show ?thesis by (simp add: expandKeyMaterialWith_def)
qed

section \<open>The stages, and the derivation in one go\<close>

lemma deriveCredentialRootStageWith_Inr:
  "deriveCredentialRootStageWith root extract material = (Inr u, material') \<longleftrightarrow>
     km_keys material \<noteq> [] \<and> km_credentialRoot material = None \<and> km_credentialPRK material = None \<and>
     (\<exists>r p. root = Some (Some r) \<and> length r = 32 \<and> extract r (km_volumeID material) = Some p \<and>
        length p = 32 \<and>
        material' = material\<lparr>km_credentialRoot := root, km_credentialPRK := Some p\<rparr>)"
proof (cases "km_keys material = [] \<or> km_credentialRoot material \<noteq> None \<or> km_credentialPRK material \<noteq> None")
  case True
  then show ?thesis by (auto simp: deriveCredentialRootStageWith_def Let_def)
next
  case False
  show ?thesis
  proof (cases "\<exists>r. root = Some (Some r) \<and> length r = 32")
    case True
    then obtain r where "root = Some (Some r)" "length r = 32" by blast
    with False show ?thesis
      by (cases "ownProviderResult (extract r (km_volumeID material))
            (row_suite (fst (hd (km_keys material)))) (- 1) ScheduleErrorExtract")
        (auto simp: deriveCredentialRootStageWith_def Let_def ownProviderResult_Inr
          ownProviderResult_def ownProviderResultSized_def split: option.splits if_splits)
  next
    case nr: False
    with False show ?thesis
      by (auto simp: deriveCredentialRootStageWith_def Let_def split: option.split)
  qed
qed

lemma deriveVolumeKeyStageWith_Inr:
  "deriveVolumeKeyStageWith key extract material = (Inr u, material') \<longleftrightarrow>
     km_keys material \<noteq> [] \<and> km_volumeKey material = None \<and> km_volumePRK material = None \<and>
     (\<exists>k p. key = Some (Some k) \<and> length k = 32 \<and> extract k (km_volumeID material) = Some p \<and>
        length p = 32 \<and>
        material' = material\<lparr>km_volumeKey := key, km_volumePRK := Some p\<rparr>)"
proof (cases "km_keys material = [] \<or> km_volumeKey material \<noteq> None \<or> km_volumePRK material \<noteq> None")
  case True
  then show ?thesis by (auto simp: deriveVolumeKeyStageWith_def Let_def)
next
  case False
  show ?thesis
  proof (cases "\<exists>k. key = Some (Some k) \<and> length k = 32")
    case True
    then obtain k where "key = Some (Some k)" "length k = 32" by blast
    with False show ?thesis
      by (cases "ownProviderResult (extract k (km_volumeID material))
            (row_suite (fst (hd (km_keys material)))) (- 1) ScheduleErrorExtract")
        (auto simp: deriveVolumeKeyStageWith_def Let_def ownProviderResult_Inr
          ownProviderResult_def ownProviderResultSized_def split: option.splits if_splits)
  next
    case nr: False
    with False show ?thesis
      by (auto simp: deriveVolumeKeyStageWith_def Let_def split: option.split)
  qed
qed

lemma newKeyMaterial_Inr:
  "newKeyMaterial schedule volumeID = Inr material \<longleftrightarrow>
     (\<exists>s. schedule = Some s \<and> vs_rows s \<noteq> [] \<and> length volumeID = 32 \<and>
        material = \<lparr>km_credentialRoot = None, km_volumeKey = None, km_credentialPRK = None,
          km_volumePRK = None, km_keys = map (\<lambda>row. (row, None)) (vs_rows s), km_volumeID = volumeID\<rparr>)"
  by (auto simp: newKeyMaterial_def Let_def split: option.splits)

text \<open>The material of a successful derivation, written out.\<close>

definition derived_material ::
  "validatedSchedule \<Rightarrow> byte list \<Rightarrow> byte list \<Rightarrow> byte list \<Rightarrow> byte list \<Rightarrow> byte list \<Rightarrow> expander \<Rightarrow>
   keyMaterial" where
  "derived_material s root key rootPRK keyPRK volumeID expand =
     (let key_of = (\<lambda>row. expand (if row_root row = 1 then rootPRK else keyPRK) (scheduleInfo row)
                            (unat (req_OutputBytes (row_request row)))) in
      \<lparr>km_credentialRoot = Some (Some root), km_volumeKey = Some (Some key),
       km_credentialPRK = Some rootPRK, km_volumePRK = Some keyPRK,
       km_keys = map (\<lambda>row. (row, key_of row)) (vs_rows s), km_volumeID = volumeID\<rparr>)"

definition expands_to_keys ::
  "validatedSchedule \<Rightarrow> byte list \<Rightarrow> byte list \<Rightarrow> expander \<Rightarrow> bool" where
  "expands_to_keys s rootPRK keyPRK expand \<longleftrightarrow> (\<forall>row \<in> set (vs_rows s). \<exists>k. length k = 32 \<and>
     expand (if row_root row = 1 then rootPRK else keyPRK) (scheduleInfo row)
       (unat (req_OutputBytes (row_request row))) = Some k)"

definition two_roots :: "validatedSchedule \<Rightarrow> bool" where
  "two_roots s \<longleftrightarrow> (\<forall>row \<in> set (vs_rows s). row_root row = 1 \<or> row_root row = 2)"

lemma two_roots_row_key:
  assumes "km_credentialPRK m = Some rp" and "km_volumePRK m = Some vp"
    and "length rp = 32" and "length vp = 32" and "row_root row = 1 \<or> row_root row = 2"
  shows "row_key expand m row = Some k \<longleftrightarrow>
     expand (if row_root row = 1 then rp else vp) (scheduleInfo row)
       (unat (req_OutputBytes (row_request row))) = Some k \<and> length k = 32"
  using assms by (auto simp: row_key_def prk_of_def split: option.split)

definition staged_material :: "validatedSchedule \<Rightarrow> byte list \<Rightarrow> byte list \<Rightarrow> byte list \<Rightarrow> byte list \<Rightarrow>
    byte list \<Rightarrow> (scheduleRow \<Rightarrow> byte list option) \<Rightarrow> keyMaterial" where
  "staged_material s root key rootPRK keyPRK volumeID g =
     \<lparr>km_credentialRoot = Some (Some root), km_volumeKey = Some (Some key),
      km_credentialPRK = Some rootPRK, km_volumePRK = Some keyPRK,
      km_keys = map (\<lambda>row. (row, g row)) (vs_rows s), km_volumeID = volumeID\<rparr>"

lemma expand_staged:
  assumes "two_roots s" and "length rp = 32" and "length vp = 32"
    and "\<And>row. root = 0 \<or> row_root row = root \<Longrightarrow> g row = None"
  shows "expandable root expand (staged_material s r k rp vp vid g) \<longleftrightarrow>
           (\<forall>row \<in> set (vs_rows s). selected root row \<longrightarrow> (\<exists>key. length key = 32 \<and>
              expand (if row_root row = 1 then rp else vp) (scheduleInfo row)
                (unat (req_OutputBytes (row_request row))) = Some key))"
    (is "?e \<longleftrightarrow> ?r")
    and "\<forall>row \<in> set (vs_rows s). selected root row \<longrightarrow> (\<exists>key. length key = 32 \<and>
              expand (if row_root row = 1 then rp else vp) (scheduleInfo row)
                (unat (req_OutputBytes (row_request row))) = Some key) \<Longrightarrow>
         with_keys root expand (staged_material s r k rp vp vid g) =
         staged_material s r k rp vp vid (\<lambda>row. if selected root row then
              expand (if row_root row = 1 then rp else vp) (scheduleInfo row)
                (unat (req_OutputBytes (row_request row))) else g row)"
proof -
  let ?m = "staged_material s r k rp vp vid g"
  have prks: "km_credentialPRK ?m = Some rp" "km_volumePRK ?m = Some vp"
    by (simp_all add: staged_material_def)
  have key: "row_key expand ?m row = Some x \<longleftrightarrow>
      expand (if row_root row = 1 then rp else vp) (scheduleInfo row)
        (unat (req_OutputBytes (row_request row))) = Some x \<and> length x = 32"
    if "row \<in> set (vs_rows s)" for row x
    using that assms(1) by (intro two_roots_row_key [OF prks assms(2,3)]) (auto simp: two_roots_def)
  have keys: "km_keys ?m = map (\<lambda>row. (row, g row)) (vs_rows s)"
    by (simp add: staged_material_def)
  have "?e \<longleftrightarrow> (\<forall>row \<in> set (vs_rows s). selected root row \<longrightarrow> (\<exists>x. row_key expand ?m row = Some x))"
    using assms(4) unfolding expandable_def keys by fastforce
  then show "?e \<longleftrightarrow> ?r" using key by blast
  assume ok: ?r
  have "row_key expand ?m row = expand (if row_root row = 1 then rp else vp) (scheduleInfo row)
      (unat (req_OutputBytes (row_request row)))"
    if "row \<in> set (vs_rows s)" and "selected root row" for row
    using ok key [OF that(1)] that by metis
  then have "map (\<lambda>(row, x). (row, if selected root row then row_key expand ?m row else x)) (km_keys ?m) =
      map (\<lambda>row. (row, if selected root row then
              expand (if row_root row = 1 then rp else vp) (scheduleInfo row)
                (unat (req_OutputBytes (row_request row))) else g row)) (vs_rows s)"
    unfolding keys map_map by (intro map_cong) (auto simp: comp_def)
  then show "with_keys root expand ?m =
         staged_material s r k rp vp vid (\<lambda>row. if selected root row then
              expand (if row_root row = 1 then rp else vp) (scheduleInfo row)
                (unat (req_OutputBytes (row_request row))) else g row)"
    by (simp only: with_keys_def) (simp add: staged_material_def)
qed

lemma derived_material_staged:
  "derived_material s r k rp vp vid expand = staged_material s r k rp vp vid
     (\<lambda>row. expand (if row_root row = 1 then rp else vp) (scheduleInfo row)
              (unat (req_OutputBytes (row_request row))))"
  by (simp add: derived_material_def staged_material_def)

lemma expand_all_staged:
  assumes "two_roots s" and "length rp = 32" and "length vp = 32"
  shows "expandable 0 expand (staged_material s r k rp vp vid (\<lambda>_. None)) \<and>
      m = with_keys 0 expand (staged_material s r k rp vp vid (\<lambda>_. None)) \<longleftrightarrow>
    expands_to_keys s rp vp expand \<and> m = derived_material s r k rp vp vid expand"
proof -
  note st = expand_staged [OF assms, of 0 "\<lambda>_. None" expand r k vid, OF refl]
  have "expandable 0 expand (staged_material s r k rp vp vid (\<lambda>_. None)) \<longleftrightarrow>
      expands_to_keys s rp vp expand"
    unfolding st(1) expands_to_keys_def by simp
  moreover have "with_keys 0 expand (staged_material s r k rp vp vid (\<lambda>_. None)) =
      derived_material s r k rp vp vid expand" if "expands_to_keys s rp vp expand"
    using st(2) that unfolding expands_to_keys_def derived_material_staged by simp
  ultimately show ?thesis by auto
qed

lemma deriveKeyMaterialWith_Inr:
  assumes "two_roots s"
  shows "deriveKeyMaterialWith (Some s) root key vid extract expand = Inr m \<longleftrightarrow>
     vs_rows s \<noteq> [] \<and> length vid = 32 \<and>
     (\<exists>r k rp vp. root = Some (Some r) \<and> length r = 32 \<and> key = Some (Some k) \<and> length k = 32 \<and>
        extract r vid = Some rp \<and> length rp = 32 \<and> extract k vid = Some vp \<and> length vp = 32 \<and>
        expands_to_keys s rp vp expand \<and> m = derived_material s r k rp vp vid expand)"
    (is "?d \<longleftrightarrow> ?rhs")
proof (cases "vs_rows s \<noteq> [] \<and> length vid = 32 \<and> (\<exists>r k. root = Some (Some r) \<and> length r = 32 \<and>
        key = Some (Some k) \<and> length k = 32)")
  case False
  then show ?thesis
    by (auto simp: deriveKeyMaterialWith_def newKeyMaterial_def Let_def ebind_eq_Inr split: option.splits)
next
  case True
  then obtain r k where rk: "root = Some (Some r)" "length r = 32" "key = Some (Some k)" "length k = 32"
    by blast
  let ?m0 = "\<lparr>km_credentialRoot = None, km_volumeKey = None, km_credentialPRK = None,
          km_volumePRK = None, km_keys = map (\<lambda>row. (row, None)) (vs_rows s), km_volumeID = vid\<rparr>"
  have n: "newKeyMaterial (Some s) vid = Inr ?m0" using True by (simp add: newKeyMaterial_def)
  have "?d \<longleftrightarrow> (\<exists>u. io_bind (deriveCredentialRootStageWith root extract) (\<lambda>_.
           io_bind (deriveVolumeKeyStageWith key extract) (\<lambda>_.
           expandKeyMaterialWith 0 expand)) ?m0 = (Inr u, m))"
    using rk by (simp add: deriveKeyMaterialWith_def n split: prod.split sum.split)
  also have "\<dots> \<longleftrightarrow> (\<exists>rp vp. extract r vid = Some rp \<and> length rp = 32 \<and> extract k vid = Some vp \<and>
      length vp = 32 \<and> expandable 0 expand (staged_material s r k rp vp vid (\<lambda>_. None)) \<and>
      m = with_keys 0 expand (staged_material s r k rp vp vid (\<lambda>_. None)))"
    using True rk
    by (auto simp: io_bind_eq_Inr deriveCredentialRootStageWith_Inr deriveVolumeKeyStageWith_Inr
        expandKeyMaterialWith_Inr staged_material_def)
  also have "\<dots> \<longleftrightarrow> (\<exists>rp vp. extract r vid = Some rp \<and> length rp = 32 \<and> extract k vid = Some vp \<and>
      length vp = 32 \<and> expands_to_keys s rp vp expand \<and> m = derived_material s r k rp vp vid expand)"
    using expand_all_staged [OF assms] by blast
  finally show ?thesis using True rk by auto
qed

text \<open>
  The reader derives in two stages, so that it can unwrap the volume key in between; the
  keys are those the writer derives in one go.
\<close>

definition staged_derivation ::
  "secret_ref \<Rightarrow> secret_ref \<Rightarrow> extractor \<Rightarrow> expander \<Rightarrow> (keyMaterial, ScheduleError, unit) io" where
  "staged_derivation root key extract expand =
     io_bind (deriveCredentialRootStageWith root extract) (\<lambda>_.
     io_bind (expandKeyMaterialWith scheduleRootCredential expand) (\<lambda>_.
     io_bind (deriveVolumeKeyStageWith key extract) (\<lambda>_.
     expandKeyMaterialWith scheduleRootVolume expand)))"

lemma staged_derivation_agrees:
  assumes "two_roots s" and "deriveKeyMaterialWith (Some s) root key vid extract expand = Inr m"
    and "newKeyMaterial (Some s) vid = Inr m0"
  shows "staged_derivation root key extract expand m0 = (Inr (), m)"
proof -
  obtain r k rp vp where ne: "vs_rows s \<noteq> []" "length vid = 32"
    and rk: "root = Some (Some r)" "length r = 32" "key = Some (Some k)" "length k = 32"
    and x: "extract r vid = Some rp" "length rp = 32" "extract k vid = Some vp" "length vp = 32"
    and keys: "expands_to_keys s rp vp expand" and m: "m = derived_material s r k rp vp vid expand"
    using assms(2) by (auto simp: deriveKeyMaterialWith_Inr [OF assms(1)])
  let ?e = "\<lambda>row. expand (if row_root row = 1 then rp else vp) (scheduleInfo row)
              (unat (req_OutputBytes (row_request row)))"
  let ?g1 = "\<lambda>row. if row_root row = 1 then ?e row else None"
  let ?m1 = "m0\<lparr>km_credentialRoot := root, km_credentialPRK := Some rp\<rparr>"
  let ?m2 = "?m1\<lparr>km_keys := map (\<lambda>row. (row, ?g1 row)) (vs_rows s)\<rparr>"
  have m0: "m0 = \<lparr>km_credentialRoot = None, km_volumeKey = None, km_credentialPRK = None,
          km_volumePRK = None, km_keys = map (\<lambda>row. (row, None)) (vs_rows s), km_volumeID = vid\<rparr>"
    using assms(3) by (simp add: newKeyMaterial_Inr)
  have ex: "\<exists>x. length x = 32 \<and> ?e row = Some x" if "row \<in> set (vs_rows s)" for row
    using keys that by (simp add: expands_to_keys_def)
  have s1: "deriveCredentialRootStageWith root extract m0 = (Inr (), ?m1)"
    using ne rk x by (simp add: deriveCredentialRootStageWith_Inr m0)
  have key1: "row_key expand ?m1 row = ?e row" if "row \<in> set (vs_rows s)" and "row_root row = 1" for row
    using ex [OF that(1)] that(2) x(2) by (auto simp: row_key_def prk_of_def m0)
  have s2: "expandKeyMaterialWith scheduleRootCredential expand ?m1 = (Inr (), ?m2)"
  proof -
    have "expandable 1 expand ?m1"
      using key1 ex by (fastforce simp: expandable_def m0)
    moreover have "with_keys 1 expand ?m1 = ?m2"
    proof -
      have "map (\<lambda>(row, x). (row, if selected 1 row then row_key expand ?m1 row else x))
          (km_keys ?m1) = map (\<lambda>row. (row, ?g1 row)) (vs_rows s)"
        using key1 by (auto simp: m0)
      then show ?thesis by (simp only: with_keys_def)
    qed
    ultimately show ?thesis using ne by (simp add: expandKeyMaterialWith_Inr m0)
  qed
  let ?m3 = "staged_material s r k rp vp vid ?g1"
  have s3: "deriveVolumeKeyStageWith key extract ?m2 = (Inr (), ?m3)"
    using ne rk x by (simp add: deriveVolumeKeyStageWith_Inr m0 staged_material_def)
  have s4: "expandKeyMaterialWith scheduleRootVolume expand ?m3 = (Inr (), m)"
  proof -
    have ex2: "\<forall>row \<in> set (vs_rows s). selected 2 row \<longrightarrow> (\<exists>x. length x = 32 \<and> ?e row = Some x)"
      using ex by blast
    have g: "selected 2 row \<Longrightarrow> ?g1 row = None" for row by simp
    note st = expand_staged [OF assms(1) x(2,4), of 2 ?g1 expand r k vid, OF g]
    have "with_keys 2 expand ?m3 = staged_material s r k rp vp vid
        (\<lambda>row. if selected 2 row then ?e row else ?g1 row)"
      using st(2) [OF _ ex2] by simp
    also have "\<dots> = m"
      using assms(1) by (auto simp: m derived_material_staged staged_material_def two_roots_def)
    finally show ?thesis using st(1) ex2 ne by (simp add: expandKeyMaterialWith_Inr staged_material_def)
  qed
  show ?thesis
    unfolding staged_derivation_def io_bind_def
    by (simp only: s1 s2 s3 s4 prod.case sum.case)
qed

lemma fixedScheduleForSuite_roots:
  "fixedScheduleForSuite suite = Inr rows \<Longrightarrow> \<forall>row \<in> set rows. row_root row = 1 \<or> row_root row = 2"
  by (auto simp: fixedScheduleForSuite_def schedule_row_def Let_def split: if_splits)

lemma validateKeySchedule_two_roots: "validateKeySchedule suite requests = Inr s \<Longrightarrow> two_roots s"
proof -
  assume v: "validateKeySchedule suite requests = Inr s"
  then obtain rows where rows: "fixedScheduleForSuite suite = Inr rows"
    by (auto simp: validateKeySchedule_def ebind_eq_Inr)
  with v have "map (allowed_map rows) requests = map Some (vs_rows s)"
    by (auto simp: validateKeySchedule_def ebind_eq_Inr canonicalRows_Inr split: if_splits)
  then have "\<exists>request. allowed_map rows request = Some row" if "row \<in> set (vs_rows s)" for row
    using that by (metis (no_types, lifting) ex_map_conv list.set_map imageE image_eqI)
  with fixedScheduleForSuite_roots [OF rows] allowed_map_row [of rows] show ?thesis
    unfolding two_roots_def by blast
qed

section \<open>Properties\<close>

text \<open>A key request is accepted exactly if the suite is known and the request is a nonempty
  list of distinct entries of the suite's closed registry; the rows of the schedule are then
  the registry's, in the order of the request.\<close>

theorem key_requests_accepted:
  "(\<exists>s. validateKeySchedule suite requests = Inr s \<and>
        map row_request (vs_rows s) = requests \<and> vs_suite s = suite) \<longleftrightarrow>
     (\<exists>rows. fixedScheduleForSuite suite = Inr rows \<and> requests \<noteq> [] \<and> distinct requests \<and>
        set requests \<subseteq> row_request ` set rows)"
proof (cases "fixedScheduleForSuite suite")
  case (Inl e)
  then show ?thesis by (simp add: validateKeySchedule_def)
next
  case (Inr rows)
  have "vs_suite s = suite" if "validateKeySchedule suite requests = Inr s" for s
    using that by (auto simp: validateKeySchedule_def ebind_eq_Inr split: if_splits)
  moreover have "set (vs_rows s) \<subseteq> set rows \<and> map row_request (vs_rows s) = requests"
    if "validateKeySchedule suite requests = Inr s" for s
  proof -
    have maps: "map (allowed_map rows) requests = map Some (vs_rows s)"
      using that Inr by (auto simp: validateKeySchedule_def ebind_eq_Inr canonicalRows_Inr split: if_splits)
    then have len: "length requests = length (vs_rows s)" by (metis length_map)
    have "allowed_map rows (requests ! i) = Some (vs_rows s ! i)" if "i < length requests" for i
      using arg_cong [OF maps, of "\<lambda>xs. xs ! i"] that len by simp
    then have row: "vs_rows s ! i \<in> set rows \<and> row_request (vs_rows s ! i) = requests ! i"
      if "i < length requests" for i using that allowed_map_row by blast
    have "set (vs_rows s) \<subseteq> set rows" using row len by (auto simp: in_set_conv_nth [of _ "vs_rows s"])
    moreover have "map row_request (vs_rows s) = requests" using row len by (intro nth_equalityI) auto
    ultimately show ?thesis ..
  qed
  ultimately have "(\<exists>s. validateKeySchedule suite requests = Inr s \<and>
        map row_request (vs_rows s) = requests \<and> vs_suite s = suite) \<longleftrightarrow>
     requests \<noteq> [] \<and> distinct requests \<and> set requests \<subseteq> row_request ` set rows"
    using validateKeySchedule_Inr [OF Inr, of requests] by blast
  then show ?thesis by (simp add: Inr)
qed

text \<open>The info strings of the key expansion separate the keys: two keys of the schedule are
  derived with the same info only if they agree in label, suite and role.\<close>

theorem schedule_info_separates_keys:
  "scheduleInfoFor label suite role = scheduleInfoFor label' suite' role' \<longleftrightarrow>
     label = label' \<and> suite = suite' \<and> role = role'"
  by (rule scheduleInfoFor_inject)

text \<open>C26: a reader that derives its keys in two stages (the credential side first, the volume
  side after the volume key is unwrapped) ends with the material a writer derives in one go:
  the same keys in the same order. The schedule is any whose rows name one of the two roots,
  as every validated schedule does.\<close>

theorem staged_reader_gets_writer_keys:
  assumes "two_roots s" and "deriveKeyMaterialWith (Some s) root key vid extract expand = Inr m"
    and "newKeyMaterial (Some s) vid = Inr m0"
  shows "staged_derivation root key extract expand m0 = (Inr (), m)"
  using assms by (rule staged_derivation_agrees)

definition example_schedule :: validatedSchedule where
  "example_schedule = \<lparr>vs_suite = 1,
     vs_rows = [schedule_row 1 1 ''credential/wrap/mac'' 0, schedule_row 1 2 ''volume/payload/mac'' 0xff]\<rparr>"

theorem staged_reader_gets_writer_keys_witness:
  "\<exists>m m0. newKeyMaterial (Some example_schedule) (replicate 32 0) = Inr m0 \<and>
     staged_derivation (Some (Some (replicate 32 1))) (Some (Some (replicate 32 2)))
       (\<lambda>secret salt. Some secret) (\<lambda>prk info n. Some (replicate n (hd prk))) m0 = (Inr (), m) \<and>
     map snd (km_keys m) = [Some (replicate 32 1), Some (replicate 32 2)]"
proof -
  let ?x = "\<lambda>secret salt. Some secret" and ?e = "\<lambda>prk info n. Some (replicate n (hd prk))"
  let ?m = "derived_material example_schedule (replicate 32 1) (replicate 32 2) (replicate 32 1)
      (replicate 32 2) (replicate 32 0) ?e"
  have two: "two_roots example_schedule"
    by (simp add: two_roots_def example_schedule_def schedule_row_def)
  have "deriveKeyMaterialWith (Some example_schedule) (Some (Some (replicate 32 1)))
      (Some (Some (replicate 32 2))) (replicate 32 0) ?x ?e = Inr ?m"
    unfolding deriveKeyMaterialWith_Inr [OF two]
    by (simp add: expands_to_keys_def example_schedule_def schedule_row_def)
  moreover obtain m0 where m0: "newKeyMaterial (Some example_schedule) (replicate 32 0) = Inr m0"
    by (simp add: newKeyMaterial_def example_schedule_def)
  ultimately have "staged_derivation (Some (Some (replicate 32 1))) (Some (Some (replicate 32 2))) ?x ?e m0
      = (Inr (), ?m)" by (rule staged_reader_gets_writer_keys [OF two])
  moreover have "map snd (km_keys ?m) = [Some (replicate 32 1), Some (replicate 32 2)]"
    by (simp add: derived_material_def example_schedule_def schedule_row_def Let_def)
  ultimately show ?thesis using m0 by (intro exI [of _ ?m] exI [of _ m0]) (intro conjI)
qed

end
