(* ===== verification/Capsule_Codec.thy ===== *)
theory Capsule_Codec
  imports Format Rs_Coding Stream_Cipher
begin

text \<open>
  Capsules as bytes: the canonical encodings and the messages under the two capsule tags
  (\<open>pcv3/auth.go\<close>), the suite MAC, the writer of a capsule and of the trailer
  (\<open>pcv3/normal_writer.go\<close>), and their readers (\<open>pcv3/reader.go\<close>). The codecs are those of
  \<open>NewRSCodecs\<close>, whose sizes \<open>codecs_sized\<close> states.
\<close>

section \<open>Codec sizes\<close>

definition codecs_sized :: "RSCodecs \<Rightarrow> bool" where
  "codecs_sized codecs \<longleftrightarrow>
     fec_required (RS16 codecs) = 16 \<and> fec_total (RS16 codecs) = 48 \<and>
     fec_required (RS64 codecs) = 64 \<and> fec_total (RS64 codecs) = 192 \<and>
     fec_required (RS128 codecs) = 128 \<and> fec_total (RS128 codecs) = 136"

section \<open>The suite MAC\<close>

definition NewMAC :: "prims \<Rightarrow> byte list \<Rightarrow> bool \<Rightarrow> (byte list \<Rightarrow> byte list) option" where
  "NewMAC P subkey paranoid =
     (if paranoid then Some (prim_hmac_sha3 P subkey) else prim_blake2b P subkey)"

text \<open>The errors of the MAC are never inspected; the tag is the hash of the joined parts.\<close>

definition suiteMACTag :: "prims \<Rightarrow> u16 \<Rightarrow> byte list \<Rightarrow> byte list list \<Rightarrow> cause + byte list" where
  "suiteMACTag P suite key parts =
     (if length key \<noteq> 32 \<or> \<not> isSupportedSuite suite then Inl InvalidMACShape
      else case NewMAC P key (suite = SuiteParanoid) of
             None \<Rightarrow> Inl InvalidMACShape
           | Some mac \<Rightarrow>
               let result = mac (concat parts) in
               if length result \<noteq> 64 then Inl InvalidMACShape else Inr result)"

definition verifySuiteMAC ::
  "prims \<Rightarrow> u16 \<Rightarrow> byte list \<Rightarrow> byte list \<Rightarrow> byte list \<Rightarrow> cause + bool" where
  "verifySuiteMAC P suite key message expected =
     (if length expected \<noteq> 64 then Inl InvalidMACShape
      else ebind (suiteMACTag P suite key [message]) (\<lambda>actual. Inr (actual = expected)))"

section \<open>Canonical bytes\<close>

definition logicalCoreBytes :: "logicalCore \<Rightarrow> byte list" where
  "logicalCoreBytes core =
     core_magic core @ put_u16 (core_major core) @ put_u16 (core_schema core) @
     put_u16 (core_suite core) @ put_u16 (core_featureFlags core) @
     put_u32 (core_frontHeaderLength core) @ core_volumeID core @
     [core_payloadKind core, core_recordProfile core, core_metadataProfile core,
      core_reserved core] @
     put_u64 (core_plaintextLength core) @ put_u64 (core_recordCount core) @
     core_xChaChaNoncePrefix core @ core_serpentIVPrefix core @ put_u32 (core_commentLength core)"

definition capsulePrefixBytes :: "Candidate \<Rightarrow> byte list" where
  "capsulePrefixBytes candidate =
     [cand_role candidate, cand_credentialMode candidate, cand_keyfileMode candidate,
      cand_kdfProfile candidate] @
     put_u16 (cand_keyfileCount candidate) @ cand_reserved candidate @
     cand_argonSalt candidate @ cand_wrapNonce candidate @ cand_wrapSerpentIV candidate @
     cand_wrappedVolumeKey candidate"

definition replicaDomain :: "byte list" where
  "replicaDomain = ascii ''Picocrypt-NG/PCV3/replica'' @ [0]"

definition wrapDomain :: "byte list" where
  "wrapDomain = ascii ''Picocrypt-NG/PCV3/wrap'' @ [0]"

definition coreCommitmentDomain :: "byte list" where
  "coreCommitmentDomain = ascii ''Picocrypt-NG/PCV3/core'' @ [0]"

definition replicaAuthMessage :: "Candidate \<Rightarrow> byte list" where
  "replicaAuthMessage candidate =
     replicaDomain @ logicalCoreBytes (cand_core candidate) @ capsulePrefixBytes candidate"

definition wrapAuthMessage :: "Candidate \<Rightarrow> byte list" where
  "wrapAuthMessage candidate =
     wrapDomain @ logicalCoreBytes (cand_core candidate) @ capsulePrefixBytes candidate @
     cand_replicaTag candidate"

text \<open>\<open>copy\<close> into the 32-byte commitment keeps at most 32 bytes of the hash.\<close>

definition coreCommitment :: "prims \<Rightarrow> logicalCore \<Rightarrow> byte list" where
  "coreCommitment P core =
     (let sum = prim_sha3_256 P (coreCommitmentDomain @ logicalCoreBytes core) in
      take 32 sum @ replicate (32 - length sum) 0)"

definition canonicalTrailerBytes :: "byte list" where
  "canonicalTrailerBytes =
     ascii ''PCVT'' @ put_u16 formatMajor @ put_u16 formatSchema @ put_u32 960 @ put_u16 1 @ [0, 0]"

section \<open>Keys of the writer\<close>

record capsuleWrapKeys =
  wrap_xChaCha20 :: "byte list"
  wrap_serpent :: "byte list"
  wrap_mac :: "byte list"

text \<open>The two-element arrays of the keys are indexed by the capsule role.\<close>

record normalWriteKeys =
  wk_volumeKey :: "byte list"
  wk_capsuleWrap :: "capsuleWrapKeys list"
  wk_replicaMAC :: "byte list list"
  wk_metadataMAC :: "byte list"
  wk_payloadXChaCha20 :: "byte list"
  wk_payloadSerpent :: "byte list"
  wk_payloadMAC :: "byte list"

section \<open>Writing a capsule\<close>

text \<open>The result has the candidate with the fields the function fills in.\<close>

definition encodeNormalWriteCapsule ::
  "prims \<Rightarrow> Candidate \<Rightarrow> normalWriteKeys \<Rightarrow> RSCodecs \<Rightarrow> pcv3_error + (Candidate \<times> byte list)" where
  "encodeNormalWriteCapsule P candidate keys codecs =
     (if \<not> isSupportedCapsuleRole (cand_role candidate)
      then Inl (NormalWriteFailure StageCapsuleStructure InvalidNormalWriteRequest)
      else
        let role = unat (cand_role candidate);
            suite = core_suite (cand_core candidate);
            wrap = wk_capsuleWrap keys ! role
        in
        ebind (map_err (\<lambda>_. NormalWriteFailure StageUnwrap NormalWriteCrypto)
                 (if suite = SuiteStandard then
                    PCV3WrapStandard1 P (cand_wrappedVolumeKey candidate) (wk_volumeKey keys)
                      (wrap_xChaCha20 wrap) (cand_wrapNonce candidate)
                  else if suite = SuiteParanoid then
                    PCV3WrapParanoid1 P (cand_wrappedVolumeKey candidate) (wk_volumeKey keys)
                      (wrap_xChaCha20 wrap) (cand_wrapNonce candidate)
                      (wrap_serpent wrap) (cand_wrapSerpentIV candidate)
                  else Inl ErrPCV3StreamShape))
          (\<lambda>wrapped.
        let candidate = candidate\<lparr>cand_wrappedVolumeKey := wrapped\<rparr> in
        ebind (map_err (\<lambda>_. NormalWriteFailure StageReplicaAuth NormalWriteCrypto)
                 (suiteMACTag P suite (wk_replicaMAC keys ! role) [replicaAuthMessage candidate]))
          (\<lambda>replicaTag.
        let candidate = candidate\<lparr>cand_replicaTag := replicaTag\<rparr> in
        ebind (map_err (\<lambda>_. NormalWriteFailure StageWrapAuth NormalWriteCrypto)
                 (suiteMACTag P suite (wrap_mac wrap) [wrapAuthMessage candidate]))
          (\<lambda>wrapTag.
        let candidate = candidate\<lparr>cand_wrapTag := wrapTag\<rparr>;
            decoded = logicalCoreBytes (cand_core candidate) @ capsulePrefixBytes candidate @
                      cand_replicaTag candidate @ cand_wrapTag candidate
        in
        ebind (map_err (\<lambda>_. NormalWriteFailure StageCapsuleRS NormalWriteRS)
                 (emap (\<lambda>lane. EncodeInto (replicate 192 0) (RS64 codecs) (slice (lane * 64) 64 decoded))
                    [0..<5]))
          (\<lambda>lanes. Inr (candidate, concat lanes))))))"

definition encodeNormalWriteTrailer :: "RSCodecs \<Rightarrow> pcv3_error + byte list" where
  "encodeNormalWriteTrailer codecs =
     map_err (\<lambda>_. NormalWriteFailure StageTailGeometry NormalWriteRS)
       (EncodeInto (replicate 48 0) (RS16 codecs) canonicalTrailerBytes)"

section \<open>Reading a capsule\<close>

definition decodeCapsule :: "RSCodecs \<Rightarrow> byte list \<Rightarrow> pcv3_error + byte list" where
  "decodeCapsule codecs encoded =
     (if length encoded \<noteq> 960 then Inl (NewInvalidStructureError StageCapsuleRS)
      else
        ebind (emap (\<lambda>lane.
                 let start = lane * fec_total (RS64 codecs) in
                 case rs_Decode (RS64 codecs) (slice start (fec_total (RS64 codecs)) encoded) False of
                   (laneDecoded, None) \<Rightarrow> Inr laneDecoded
                 | (_, Some _) \<Rightarrow> Inl (NewInvalidStructureError StageCapsuleRS)) [0..<5])
          (\<lambda>lanes. Inr (concat lanes)))"

definition inspectCapsuleCandidateMode ::
  "RSCodecs \<Rightarrow> byte list \<Rightarrow> byte \<Rightarrow> bool \<Rightarrow> pcv3_error + Candidate" where
  "inspectCapsuleCandidateMode codecs encoded role derivedRoot =
     ebind (decodeCapsule codecs encoded) (\<lambda>decoded. validateDecodedCapsule decoded role derivedRoot)"

definition inspectCapsuleCandidate :: "RSCodecs \<Rightarrow> byte list \<Rightarrow> byte \<Rightarrow> pcv3_error + Candidate" where
  "inspectCapsuleCandidate codecs encoded role = inspectCapsuleCandidateMode codecs encoded role False"

definition decodeTrailer :: "RSCodecs \<Rightarrow> byte list \<Rightarrow> pcv3_error + byte list" where
  "decodeTrailer codecs encoded =
     (if length encoded \<noteq> fec_total (RS16 codecs) then Inl (NewInvalidStructureError StageTailGeometry)
      else case rs_Decode (RS16 codecs) encoded False of
             (result, None) \<Rightarrow> Inr result
           | (_, Some _) \<Rightarrow> Inl (NewInvalidStructureError StageTailGeometry))"

definition inspectTrailer :: "RSCodecs \<Rightarrow> byte list \<Rightarrow> pcv3_error + unit" where
  "inspectTrailer codecs encoded =
     ebind (decodeTrailer codecs encoded) (\<lambda>decoded.
       require (decoded = canonicalTrailerBytes) (NewInvalidStructureError StageTailGeometry))"

section \<open>Fixed-width encodings\<close>

text \<open>
  What both directions of a fixed-width encoding promise: every well-formed value has exactly
  one encoding, of \<open>n\<close> bytes, and every string of \<open>n\<close> bytes is the encoding of one.
\<close>

locale byte_codec =
  fixes enc :: "'a \<Rightarrow> byte list" and dec :: "byte list \<Rightarrow> 'a" and wf :: "'a \<Rightarrow> bool" and n :: nat
  assumes enc_length: "wf x \<Longrightarrow> length (enc x) = n"
    and dec_enc: "wf x \<Longrightarrow> dec (enc x) = x"
    and enc_dec: "length bs = n \<Longrightarrow> enc (dec bs) = bs"
    and dec_wf: "length bs = n \<Longrightarrow> wf (dec bs)"
begin

lemma enc_inject: "wf x \<Longrightarrow> wf y \<Longrightarrow> enc x = enc y \<longleftrightarrow> x = y"
  by (metis dec_enc)

lemma dec_inject: "length bs = n \<Longrightarrow> length cs = n \<Longrightarrow> dec bs = dec cs \<longleftrightarrow> bs = cs"
  by (metis enc_dec)

lemma dec_eq_iff: "length bs = n \<Longrightarrow> wf x \<Longrightarrow> dec bs = x \<longleftrightarrow> bs = enc x"
  by (metis enc_dec dec_enc)

end

interpretation u16: byte_codec put_u16 get_u16 "\<lambda>_. True" 2
  by unfold_locales (simp_all add: put_get_u16)

interpretation u32: byte_codec put_u32 get_u32 "\<lambda>_. True" 4
  by unfold_locales (simp_all add: put_get_u32)

interpretation u64: byte_codec put_u64 get_u64 "\<lambda>_. True" 8
  by unfold_locales (simp_all add: put_get_u64)

text \<open>Adjacent slices join; the field offsets decide the side conditions.\<close>

lemma slice_join: "b = a + m \<Longrightarrow> slice a m xs @ slice b n xs = slice a (m + n) xs"
  by (simp add: slice_split)

lemma slice_join_append: "b = a + m \<Longrightarrow> slice a m xs @ slice b n xs @ zs = slice a (m + n) xs @ zs"
  by (simp add: slice_split)

lemma nth_slice_1: "i < length xs \<Longrightarrow> [xs ! i] = slice i 1 xs"
proof -
  assume "i < length xs"
  then have "drop i xs = xs ! i # drop (Suc i) xs" by (rule Cons_nth_drop_Suc [symmetric])
  then show ?thesis by (simp add: slice_def)
qed

lemma Cons_nth_slice: "i < length xs \<Longrightarrow> xs ! i # zs = slice i 1 xs @ zs"
  using nth_slice_1 [of i xs] by (simp del: length_slice flip: append_Cons)

lemma slice_append_straddle:
  "length xs = off \<Longrightarrow> slice off n (xs @ ys) = take n ys"
  by (simp add: slice_def)

lemma slice_Cons: "0 < off \<Longrightarrow> slice off n (x # xs) = slice (off - 1) n xs"
  by (cases off) (simp_all add: slice_def)

lemma take_slice_join: "b = m \<Longrightarrow> take m xs @ slice b n xs = take (m + n) xs"
  by (simp add: slice_def take_add)

lemma length_logicalCoreBytes: "wf_core core \<Longrightarrow> length (logicalCoreBytes core) = 96"
  by (simp add: wf_core_def logicalCoreBytes_def)

lemma decodeCore_logicalCoreBytes:
  assumes "wf_core core"
  shows "decodeCore (logicalCoreBytes core @ rest) = core"
  using assms
  by (cases core)
    (simp add: wf_core_def decodeCore_def logicalCoreBytes_def slice_append_left slice_append_right
      slice_append_straddle nth_append slice_full slice_Cons)

lemma logicalCoreBytes_decodeCore:
  assumes "96 \<le> length bs"
  shows "logicalCoreBytes (decodeCore bs) = take 96 bs"
  using assms
  by (simp add: decodeCore_def logicalCoreBytes_def put_get_u16 put_get_u32 put_get_u64
      Cons_nth_slice slice_join slice_join_append take_slice_join)

interpretation core_codec: byte_codec logicalCoreBytes decodeCore wf_core 96
proof
  show "decodeCore (logicalCoreBytes core) = core" if "wf_core core" for core
    using decodeCore_logicalCoreBytes [OF that, of "[]"] by simp
  show "logicalCoreBytes (decodeCore bs) = bs" if "length bs = 96" for bs
    using logicalCoreBytes_decodeCore [of bs] that by simp
  show "wf_core (decodeCore bs)" if "length bs = 96" for bs
    using that by (simp add: wf_core_def decodeCore_def)
qed (rule length_logicalCoreBytes)

section \<open>The decoded capsule\<close>

definition capsuleBytes :: "Candidate \<Rightarrow> byte list" where
  "capsuleBytes candidate =
     logicalCoreBytes (cand_core candidate) @ capsulePrefixBytes candidate @
     cand_replicaTag candidate @ cand_wrapTag candidate"

lemma length_capsulePrefixBytes: "wf_candidate candidate \<Longrightarrow> length (capsulePrefixBytes candidate) = 96"
  by (simp add: wf_candidate_def capsulePrefixBytes_def)

lemma decodeCandidate_capsuleBytes:
  assumes "wf_candidate candidate"
  shows "decodeCandidate (capsuleBytes candidate) = candidate"
proof -
  have core: "decodeCore (logicalCoreBytes (cand_core candidate) @ rest) = cand_core candidate"
    and len: "length (logicalCoreBytes (cand_core candidate)) = 96" for rest
    using assms by (simp_all add: wf_candidate_def decodeCore_logicalCoreBytes length_logicalCoreBytes)
  show ?thesis
    using assms len core
    by (cases candidate)
      (simp add: wf_candidate_def decodeCandidate_def capsuleBytes_def capsulePrefixBytes_def
        slice_append_left slice_append_right slice_append_straddle nth_append slice_full slice_Cons)
qed

lemma capsuleBytes_decodeCandidate:
  assumes "length bs = 320"
  shows "capsuleBytes (decodeCandidate bs) = bs"
  using assms
  by (simp add: decodeCandidate_def capsuleBytes_def capsulePrefixBytes_def
      logicalCoreBytes_decodeCore put_get_u16 Cons_nth_slice slice_join slice_join_append
      take_slice_join)

lemma wf_candidate_decode:
  assumes "length bs = 320"
  shows "wf_candidate (decodeCandidate bs)"
  using assms by (simp add: wf_candidate_def wf_core_def decodeCandidate_def decodeCore_def)

interpretation capsule_codec: byte_codec capsuleBytes decodeCandidate wf_candidate 320
proof
  show "length (capsuleBytes c) = 320" if "wf_candidate c" for c
    using that by (simp add: capsuleBytes_def length_capsulePrefixBytes length_logicalCoreBytes
        wf_candidate_def)
qed (simp_all add: decodeCandidate_capsuleBytes capsuleBytes_decodeCandidate wf_candidate_decode)

section \<open>The two tags cover the whole capsule\<close>

text \<open>The message of a tag determines the fields under it, and the two domains differ.\<close>

lemma length_domains [simp]:
  "length replicaDomain = 26" "length wrapDomain = 23" "length coreCommitmentDomain = 23"
  by (simp_all add: replicaDomain_def wrapDomain_def coreCommitmentDomain_def)

lemma wrapAuthMessage_injective:
  assumes "wf_candidate a" and "wf_candidate b" and "wrapAuthMessage a = wrapAuthMessage b"
  shows "a\<lparr>cand_wrapTag := cand_wrapTag b\<rparr> = b"
proof -
  have tag: "wf_candidate (a\<lparr>cand_wrapTag := cand_wrapTag b\<rparr>)"
    using assms by (simp add: wf_candidate_def)
  have "logicalCoreBytes (cand_core a) @ capsulePrefixBytes a @ cand_replicaTag a =
      logicalCoreBytes (cand_core b) @ capsulePrefixBytes b @ cand_replicaTag b"
    using assms(3) by (simp add: wrapAuthMessage_def)
  then have "capsuleBytes (a\<lparr>cand_wrapTag := cand_wrapTag b\<rparr>) = capsuleBytes b"
    by (simp add: capsuleBytes_def capsulePrefixBytes_def flip: append_assoc)
  then show ?thesis using capsule_codec.enc_inject [OF tag assms(2)] by simp
qed

lemma replica_wrap_messages_differ: "replicaAuthMessage a \<noteq> wrapAuthMessage b"
proof
  assume "replicaAuthMessage a = wrapAuthMessage b"
  then have "take 20 (replicaAuthMessage a) = take 20 (wrapAuthMessage b)" by simp
  then show False
    by (simp add: replicaAuthMessage_def wrapAuthMessage_def replicaDomain_def wrapDomain_def ascii_def)
qed

section \<open>Writing and reading a capsule\<close>

lemma suiteMACTag_Inr:
  "suiteMACTag P suite key parts = Inr tag \<longleftrightarrow>
     length key = 32 \<and> isSupportedSuite suite \<and> length tag = 64 \<and>
     (\<exists>mac. NewMAC P key (suite = SuiteParanoid) = Some mac \<and> tag = mac (concat parts))"
  by (auto simp: suiteMACTag_def Let_def split: option.split)

lemma verifySuiteMAC_of_tag:
  "suiteMACTag P suite key [message] = Inr tag \<Longrightarrow> verifySuiteMAC P suite key message tag = Inr True"
  using suiteMACTag_Inr [of P suite key "[message]" tag] by (simp add: verifySuiteMAC_def)

lemma verifySuiteMAC_sound:
  "verifySuiteMAC P suite key message tag = Inr True \<Longrightarrow> suiteMACTag P suite key [message] = Inr tag"
  by (auto simp: verifySuiteMAC_def ebind_eq_Inr split: if_splits)

text \<open>The lanes of an encoded capsule.\<close>

definition capsule_lanes :: "FEC \<Rightarrow> byte list \<Rightarrow> byte list" where
  "capsule_lanes rs decoded = concat (map (\<lambda>lane. codeword rs (slice (lane * 64) 64 decoded)) [0..<5])"

definition validAuthCandidate :: "Candidate \<Rightarrow> bool" where
  "validAuthCandidate candidate \<longleftrightarrow>
     validLogicalCore (cand_core candidate) \<and>
     isSupportedCapsuleRole (cand_role candidate) \<and>
     validCredentialTuple (cand_credentialMode candidate) (cand_keyfileMode candidate)
       (cand_keyfileCount candidate) \<and>
     cand_reserved candidate = [0, 0] \<and>
     validCandidateKDFProfile candidate \<and>
     (core_suite (cand_core candidate) \<noteq> SuiteStandard \<or>
      cand_wrapSerpentIV candidate = replicate 16 0)"

text \<open>What the writer fills in: the wrapped key and the two tags.\<close>

definition filled_candidate :: "prims \<Rightarrow> Candidate \<Rightarrow> normalWriteKeys \<Rightarrow> Candidate \<Rightarrow> bool" where
  "filled_candidate P c keys c' \<longleftrightarrow>
     (\<exists>wrapped replicaTag wrapTag.
        c' = c\<lparr>cand_wrappedVolumeKey := wrapped, cand_replicaTag := replicaTag,
               cand_wrapTag := wrapTag\<rparr>) \<and>
     (let suite = core_suite (cand_core c);
          wrap = wk_capsuleWrap keys ! unat (cand_role c) in
      (if suite = SuiteStandard then
         PCV3WrapStandard1 P (cand_wrappedVolumeKey c) (wk_volumeKey keys)
           (wrap_xChaCha20 wrap) (cand_wrapNonce c) = Inr (cand_wrappedVolumeKey c')
       else
         PCV3WrapParanoid1 P (cand_wrappedVolumeKey c) (wk_volumeKey keys)
           (wrap_xChaCha20 wrap) (cand_wrapNonce c) (wrap_serpent wrap)
           (cand_wrapSerpentIV c) = Inr (cand_wrappedVolumeKey c')) \<and>
      suiteMACTag P suite (wk_replicaMAC keys ! unat (cand_role c)) [replicaAuthMessage c'] =
        Inr (cand_replicaTag c') \<and>
      suiteMACTag P suite (wrap_mac wrap) [wrapAuthMessage c'] = Inr (cand_wrapTag c'))"

lemma replicaAuthMessage_tags [simp]:
  "replicaAuthMessage (c\<lparr>cand_replicaTag := a\<rparr>) = replicaAuthMessage c"
  "replicaAuthMessage (c\<lparr>cand_wrapTag := b\<rparr>) = replicaAuthMessage c"
  "wrapAuthMessage (c\<lparr>cand_wrapTag := b\<rparr>) = wrapAuthMessage c"
  by (simp_all add: replicaAuthMessage_def wrapAuthMessage_def capsulePrefixBytes_def)

lemma filled_candidate_wf:
  assumes "filled_candidate P c keys c'" and "wf_candidate c"
  shows "wf_candidate c'"
proof -
  let ?suite = "core_suite (cand_core c)" and ?wrap = "wk_capsuleWrap keys ! unat (cand_role c)"
  obtain w rt wt where c': "c' = c\<lparr>cand_wrappedVolumeKey := w, cand_replicaTag := rt, cand_wrapTag := wt\<rparr>"
    using assms(1) by (auto simp: filled_candidate_def)
  have "length w = length (cand_wrappedVolumeKey c)"
    using assms(1)
    by (auto simp: filled_candidate_def Let_def c' split: if_splits
        dest!: standard.wrap_length paranoid.wrap_length)
  moreover have "length rt = 64" and "length wt = 64"
    using assms(1) by (auto simp: filled_candidate_def Let_def c' suiteMACTag_Inr)
  ultimately show ?thesis using assms(2) by (simp add: wf_candidate_def c')
qed

lemma encodeNormalWriteCapsule_filled:
  assumes "encodeNormalWriteCapsule P c keys codecs = Inr (c', enc)"
    and "fec_encodes (RS64 codecs)" and "codecs_sized codecs" and "wf_candidate c"
  shows "filled_candidate P c keys c' \<and> enc = capsule_lanes (RS64 codecs) (capsuleBytes c')"
proof -
  let ?suite = "core_suite (cand_core c)" and ?wrap = "wk_capsuleWrap keys ! unat (cand_role c)"
  obtain w rt wt lanes where
    w: "map_err (\<lambda>_. NormalWriteFailure StageUnwrap NormalWriteCrypto)
          (if ?suite = SuiteStandard then
             PCV3WrapStandard1 P (cand_wrappedVolumeKey c) (wk_volumeKey keys)
               (wrap_xChaCha20 ?wrap) (cand_wrapNonce c)
           else if ?suite = SuiteParanoid then
             PCV3WrapParanoid1 P (cand_wrappedVolumeKey c) (wk_volumeKey keys)
               (wrap_xChaCha20 ?wrap) (cand_wrapNonce c) (wrap_serpent ?wrap) (cand_wrapSerpentIV c)
           else Inl ErrPCV3StreamShape) = Inr w"
    and rt: "suiteMACTag P ?suite (wk_replicaMAC keys ! unat (cand_role c))
               [replicaAuthMessage (c\<lparr>cand_wrappedVolumeKey := w\<rparr>)] = Inr rt"
    and wt: "suiteMACTag P ?suite (wrap_mac ?wrap)
               [wrapAuthMessage (c\<lparr>cand_wrappedVolumeKey := w, cand_replicaTag := rt\<rparr>)] = Inr wt"
    and c': "c' = c\<lparr>cand_wrappedVolumeKey := w, cand_replicaTag := rt, cand_wrapTag := wt\<rparr>"
    and lanes: "emap (\<lambda>lane. EncodeInto (replicate 192 0) (RS64 codecs)
                  (slice (lane * 64) 64 (capsuleBytes c'))) [0..<5] = Inr lanes"
    and enc: "enc = concat lanes"
    using assms(1) unfolding encodeNormalWriteCapsule_def Let_def capsuleBytes_def
    by (auto simp: ebind_eq_Inr simp del: emap.simps upt_rec_numeral split: if_split_asm)
  have "filled_candidate P c keys c'"
    using w rt wt unfolding filled_candidate_def c' Let_def by (auto split: if_splits)
  moreover from this have wf: "wf_candidate c'"
    by (rule filled_candidate_wf [OF _ assms(4)])
  then have len: "length (capsuleBytes c') = 320" by (rule capsule_codec.enc_length)
  have "emap (\<lambda>lane. EncodeInto (replicate 192 0) (RS64 codecs)
          (slice (lane * 64) 64 (capsuleBytes c'))) [0..<5] =
      Inr (map (\<lambda>lane. codeword (RS64 codecs) (slice (lane * 64) 64 (capsuleBytes c'))) [0..<5])"
    using assms(2,3) len
    by (intro emap_all_Inr EncodeInto_codeword) (auto simp: codecs_sized_def simp del: upt_rec_numeral)
  ultimately show ?thesis using lanes enc by (simp add: capsule_lanes_def del: upt_rec_numeral)
qed

lemma capsule_lanes_length:
  assumes "codecs_sized codecs" and "length decoded = 320"
  shows "length (capsule_lanes (RS64 codecs) decoded) = 960"
proof -
  have "length (capsule_lanes (RS64 codecs) decoded) = 192 * length [0..<5]"
    unfolding capsule_lanes_def
    using assms by (intro length_concat_same length_codeword [THEN trans]) (auto simp: codecs_sized_def)
  then show ?thesis by simp
qed

text \<open>Reading repairs up to \<open>t\<close> wrong bytes in every lane of an encoded capsule.\<close>

lemma decodeCapsule_repairs:
  assumes "fec_ok t (RS64 codecs)" and "codecs_sized codecs" and "length decoded = 320"
    and "length word = 960"
    and near: "\<And>lane. lane < 5 \<Longrightarrow>
      diffs (codeword (RS64 codecs) (slice (lane * 64) 64 decoded)) (slice (lane * 192) 192 word) \<le> t"
  shows "decodeCapsule codecs word = Inr decoded"
proof -
  have lane: "rs_Decode (RS64 codecs) (slice (i * 192) 192 word) False = (slice (i * 64) 64 decoded, None)"
    if "i < 5" for i
  proof -
    have "DecodeInto (RS64 codecs) (replicate 64 0) (slice (i * 192) 192 word) =
        Inr (slice (i * 64) 64 decoded)"
      by (rule DecodeInto_repairs [OF assms(1)])
        (use that near [OF that] assms in \<open>simp_all add: codecs_sized_def\<close>)
    with assms that show ?thesis by (simp add: rs_Decode_def codecs_sized_def)
  qed
  have "emap (\<lambda>lane. let start = lane * fec_total (RS64 codecs) in
          case rs_Decode (RS64 codecs) (slice start (fec_total (RS64 codecs)) word) False of
            (laneDecoded, None) \<Rightarrow> Inr laneDecoded
          | (_, Some _) \<Rightarrow> Inl (NewInvalidStructureError StageCapsuleRS)) [0..<5] =
      Inr (map (\<lambda>i. slice (i * 64) 64 decoded) [0..<5])"
    using lane assms(2) by (intro emap_all_Inr) (auto simp: codecs_sized_def)
  moreover have "concat (map (\<lambda>i. slice (i * 64) 64 decoded) [0..<5]) = decoded"
    using concat_slices [of 64 decoded 5] assms(3) by simp
  ultimately show ?thesis
    using assms(4) by (simp add: decodeCapsule_def del: upt_rec_numeral)
qed

lemma validateDecodedCapsule_capsuleBytes:
  assumes "wf_candidate c" and "validAuthCandidate c"
    and "(core_featureFlags (cand_core c) AND d1DerivedRootFeatureMask \<noteq> 0) = derivedRoot"
  shows "validateDecodedCapsule (capsuleBytes c) (cand_role c) derivedRoot = Inr c"
  using assms capsule_codec.enc_length [OF assms(1)] capsule_codec.dec_enc [OF assms(1)]
  by (auto simp: validateDecodedCapsule_def validAuthCandidate_def Let_def)

lemma validateDecodedCapsule_valid:
  assumes "validateDecodedCapsule decoded role derivedRoot = Inr c"
  shows "validAuthCandidate c \<and> wf_candidate c \<and> cand_role c = role \<and> decoded = capsuleBytes c"
  using assms
  by (auto simp: validateDecodedCapsule_def validAuthCandidate_def Let_def wf_candidate_decode
      capsuleBytes_decodeCandidate split: if_splits)

lemma inspectCapsuleCandidateMode_repairs:
  assumes "fec_ok t (RS64 codecs)" and "codecs_sized codecs" and "wf_candidate c" and "validAuthCandidate c"
    and "(core_featureFlags (cand_core c) AND d1DerivedRootFeatureMask \<noteq> 0) = derivedRoot"
    and "length word = 960"
    and "\<And>lane. lane < 5 \<Longrightarrow>
      diffs (codeword (RS64 codecs) (slice (lane * 64) 64 (capsuleBytes c)))
        (slice (lane * 192) 192 word) \<le> t"
  shows "inspectCapsuleCandidateMode codecs word (cand_role c) derivedRoot = Inr c"
  using decodeCapsule_repairs [OF assms(1,2) capsule_codec.enc_length [OF assms(3)] assms(6,7)]
    validateDecodedCapsule_capsuleBytes [OF assms(3-5)]
  by (simp add: inspectCapsuleCandidateMode_def)

lemma capsule_lanes_nth:
  assumes "codecs_sized codecs" and "length decoded = 320" and "lane < 5"
  shows "slice (lane * 192) 192 (capsule_lanes (RS64 codecs) decoded) =
           codeword (RS64 codecs) (slice (lane * 64) 64 decoded)"
proof -
  have "slice (lane * 192) 192 (concat (map (\<lambda>lane. codeword (RS64 codecs) (slice (lane * 64) 64 decoded))
      [0..<5])) = codeword (RS64 codecs) (slice ([0..<5] ! lane * 64) 64 decoded)"
    using assms by (intro slice_concat_same length_codeword [THEN trans])
      (auto simp: codecs_sized_def simp del: upt_rec_numeral)
  with assms(3) show ?thesis by (simp add: capsule_lanes_def del: upt_rec_numeral)
qed

end
