(* ===== verification/World.thy ===== *)
theory World
  imports Pcv3_Result "HOL-Library.Monad_Syntax"
begin

text \<open>
  The world the PCV3 operations run in. Everything outside the code answers calls: the context
  (\<open>ctx.Err()\<close>), the \<open>io.ReaderAt\<close> of the volume, the \<open>io.Reader\<close> of the plaintext and of the
  entropy, the sink of verified records and the destination writer. The answers are functions
  of the number of calls made before, so that a theorem over every \<open>env\<close> is a theorem about
  every behaviour of the outside, including inconsistent and hostile ones. Nil interface
  values are not modelled.
\<close>

section \<open>Environment and state\<close>

text \<open>A read answers with a count, the bytes it left in the buffer and an error.\<close>

record env =
  env_ctx :: "nat \<Rightarrow> cause option"
  env_readAt :: "nat \<Rightarrow> int \<Rightarrow> nat \<Rightarrow> int \<times> byte list \<times> cause option"
  env_sink :: "nat \<Rightarrow> u64 \<Rightarrow> byte list \<Rightarrow> cause option"
  env_read :: "nat \<Rightarrow> nat \<Rightarrow> nat \<Rightarrow> int \<times> byte list \<times> cause option"
  env_entropy :: "nat \<Rightarrow> nat \<Rightarrow> nat \<Rightarrow> int \<times> byte list \<times> cause option"
  env_write :: "nat \<Rightarrow> byte list \<Rightarrow> int \<times> cause option"

text \<open>
  \<open>w_trace\<close> logs the completed reads of the volume, \<open>w_emitted\<close> the records given to the sink,
  \<open>w_written\<close> the bytes the destination accepted; \<open>w_consumed\<close> and \<open>w_entropy\<close> are the bytes
  taken so far from the two streams.
\<close>

record world =
  w_env :: env
  w_tick :: nat
  w_trace :: "(int \<times> byte list) list"
  w_emitted :: "(u64 \<times> byte list) list"
  w_consumed :: nat
  w_entropy :: nat
  w_written :: "byte list"
  w_aborted :: bool

definition tick :: "world \<Rightarrow> world" where
  "tick w = w\<lparr>w_tick := w_tick w + 1\<rparr>"

definition ctx_Err :: "world \<Rightarrow> cause option \<times> world" where
  "ctx_Err w = (env_ctx (w_env w) (w_tick w), tick w)"

definition source_ReadAt :: "int \<Rightarrow> nat \<Rightarrow> world \<Rightarrow> (int \<times> byte list \<times> cause option) \<times> world" where
  "source_ReadAt off n w = (env_readAt (w_env w) (w_tick w) off n, tick w)"

text \<open>\<open>if err := ctx.Err(); err != nil { return mk(err) }\<close>\<close>

definition poll :: "(cause \<Rightarrow> 'e) \<Rightarrow> (world, 'e, unit) io" where
  "poll mk = (\<lambda>w. case ctx_Err w of (None, w) \<Rightarrow> (Inr (), w) | (Some c, w) \<Rightarrow> (Inl (mk c), w))"

section \<open>Reading a range exactly\<close>

text \<open>
  The three exact readers of the package share one loop: at most \<open>n + 2\<close> calls, the second
  successive call without progress or error fails, an end of file is a truncation. They differ
  in polling the context and in the errors they build from the end of the loop. The bytes
  beyond the count that a call reports are not part of the result.
\<close>

datatype read_end = ReadDone | ReadCancelled cause | ReadTruncated | ReadFailed cause

definition fit :: "nat \<Rightarrow> byte list \<Rightarrow> byte list" where
  "fit c bytes = take c (bytes @ replicate c 0)"

definition poll_if :: "bool \<Rightarrow> world \<Rightarrow> cause option \<times> world" where
  "poll_if polls w = (if polls then ctx_Err w else (None, w))"

fun exact_loop ::
  "bool \<Rightarrow> nat \<Rightarrow> int \<Rightarrow> nat \<Rightarrow> byte list \<Rightarrow> nat \<Rightarrow> world \<Rightarrow> (byte list \<times> read_end) \<times> world" where
  "exact_loop polls 0 off n got idle w = ((got, ReadFailed ReaderCallLimit), w)"
| "exact_loop polls (Suc k) off n got idle w =
     (case poll_if polls w of
        (Some c, w) \<Rightarrow> ((got, ReadCancelled c), w)
      | (None, w) \<Rightarrow>
        (case source_ReadAt (off + int (length got)) (n - length got) w of
           ((count, bytes, err), w) \<Rightarrow>
           (case poll_if polls w of
              (Some c, w) \<Rightarrow> ((got, ReadCancelled c), w)
            | (None, w) \<Rightarrow>
              if count < 0 \<or> count > int (n - length got)
              then ((got, ReadFailed InvalidReadProgress), w)
              else
                let got = got @ fit (nat count) bytes;
                    idle = (if count > 0 then 0 else if err = None then idle + 1 else idle)
                in
                if count = 0 \<and> err = None \<and> idle = 2 then ((got, ReadFailed ReaderNoProgress), w)
                else if length got = n then
                  (case err of
                     None \<Rightarrow> ((got, ReadDone), w)
                   | Some c \<Rightarrow> if isEOF c then ((got, ReadDone), w) else ((got, ReadFailed c), w))
                else
                  (case err of
                     Some c \<Rightarrow>
                       if isEOF c then ((got, ReadTruncated), w) else ((got, ReadFailed c), w)
                   | None \<Rightarrow> exact_loop polls k off n got idle w))))"

definition exact_read :: "bool \<Rightarrow> int \<Rightarrow> nat \<Rightarrow> world \<Rightarrow> (byte list \<times> read_end) \<times> world" where
  "exact_read polls off n w =
     (if n = 0 then (([], ReadDone), w)
      else case exact_loop polls (n + 2) off n [] 0 w of
             ((bytes, ReadDone), w) \<Rightarrow>
               ((bytes, ReadDone), w\<lparr>w_trace := w_trace w @ [(off, bytes)]\<rparr>)
           | (r, w) \<Rightarrow> (r, w))"

section \<open>What a read can do to the world\<close>

text \<open>Nothing but the clock and the log of reads moves.\<close>

definition reads_only :: "world \<Rightarrow> world \<Rightarrow> bool" where
  "reads_only w w' \<longleftrightarrow> (\<exists>t reads. w' = w\<lparr>w_tick := t, w_trace := w_trace w @ reads\<rparr>)"

lemma reads_only_refl [simp]: "reads_only w w"
  unfolding reads_only_def by (rule exI [of _ "w_tick w"], rule exI [of _ "[]"]) simp

lemma reads_only_trans: "reads_only a b \<Longrightarrow> reads_only b c \<Longrightarrow> reads_only a c"
  unfolding reads_only_def by fastforce

lemma reads_only_tick [simp]: "reads_only w (tick w)"
  unfolding reads_only_def tick_def
  by (rule exI [of _ "w_tick w + 1"], rule exI [of _ "[]"]) simp

lemma reads_only_fields:
  assumes "reads_only w w'"
  shows "w_env w' = w_env w" "w_emitted w' = w_emitted w" "w_consumed w' = w_consumed w"
    "w_entropy w' = w_entropy w" "w_written w' = w_written w" "w_aborted w' = w_aborted w"
  using assms by (auto simp: reads_only_def)

lemma poll_if_tick: "poll_if polls w = (r, w') \<Longrightarrow> reads_only w w' \<and> w_trace w' = w_trace w"
  using reads_only_tick [of w]
  by (auto simp: poll_if_def ctx_Err_def tick_def split: if_splits)

lemma poll_cases:
  obtains c w' where "poll mk w = (Inl (mk c), w')" and "env_ctx (w_env w) (w_tick w) = Some c"
      and "w' = tick w"
  | w' where "poll mk w = (Inr (), w')" and "env_ctx (w_env w) (w_tick w) = None" and "w' = tick w"
  by (cases "env_ctx (w_env w) (w_tick w)") (simp_all add: poll_def ctx_Err_def)

lemma length_fit [simp]: "length (fit c bytes) = c"
  by (simp add: fit_def)

lemma fit_exact: "length bytes = c \<Longrightarrow> fit c bytes = bytes"
  by (simp add: fit_def)

lemma exact_loop_only:
  "exact_loop polls k off n got idle w = (r, w') \<Longrightarrow> reads_only w w' \<and> w_trace w' = w_trace w"
proof (induction k arbitrary: got idle w)
  case 0
  then show ?case by simp
next
  case (Suc k)
  obtain c1 w1 where p1: "poll_if polls w = (c1, w1)" by force
  obtain count bytes err w2 where rd:
    "source_ReadAt (off + int (length got)) (n - length got) w1 = ((count, bytes, err), w2)"
    by (metis prod_cases3 surj_pair)
  obtain c2 w3 where p2: "poll_if polls w2 = (c2, w3)" by force
  have w2: "w2 = tick w1" using rd by (simp add: source_ReadAt_def)
  have s1: "reads_only w w1 \<and> w_trace w1 = w_trace w" by (rule poll_if_tick [OF p1])
  moreover have "reads_only w1 w2 \<and> w_trace w2 = w_trace w1" using reads_only_tick [of w1] w2
    by (simp add: tick_def)
  ultimately have s2: "reads_only w w2 \<and> w_trace w2 = w_trace w" using reads_only_trans by auto
  with poll_if_tick [OF p2] have s3: "reads_only w w3 \<and> w_trace w3 = w_trace w"
    using reads_only_trans by auto
  show ?case
    using Suc.prems Suc.IH [of _ _ w3] s1 s3
    by (auto simp: p1 rd p2 Let_def split: option.splits if_splits intro: reads_only_trans)
qed

lemma exact_read_only: "exact_read polls off n w = (r, w') \<Longrightarrow> reads_only w w'"
proof (cases "n = 0")
  case False
  assume er: "exact_read polls off n w = (r, w')"
  obtain bytes e w1 where l: "exact_loop polls (n + 2) off n [] 0 w = ((bytes, e), w1)" by (metis surj_pair)
  have "reads_only w w1" using exact_loop_only [OF l] by simp
  moreover have "reads_only w1 (w1\<lparr>w_trace := w_trace w1 @ [(off, bytes)]\<rparr>)"
    unfolding reads_only_def by (rule exI [of _ "w_tick w1"]) auto
  ultimately show ?thesis
    using er False l by (cases e) (auto simp: exact_read_def simp del: exact_loop.simps intro: reads_only_trans)
qed (simp add: exact_read_def)

text \<open>A completed read has the requested length, and is logged.\<close>

lemma exact_loop_length:
  "exact_loop polls k off n got idle w = ((bytes, ReadDone), w') \<Longrightarrow> length bytes = n"
proof (induction k arbitrary: got idle w)
  case (Suc k)
  then show ?case
    by (auto simp: Let_def split: option.splits if_splits prod.splits)
qed simp

lemma exact_read_Done:
  assumes "exact_read polls off n w = ((bytes, ReadDone), w')"
  shows "length bytes = n \<and> (n = 0 \<or> (off, bytes) \<in> set (w_trace w'))"
  using assms by (auto simp: exact_read_def simp del: exact_loop.simps
      split: if_splits prod.splits read_end.splits dest: exact_loop_length)

section \<open>A source that holds an image\<close>

text \<open>
  What \<open>io.ReaderAt\<close> documents, for a source that holds the bytes \<open>img\<close>: a read inside them
  fills the buffer, possibly with an end of file beside it; a read that leaves them is short,
  with an end of file.
\<close>

definition holds_image :: "byte list \<Rightarrow> env \<Rightarrow> bool" where
  "holds_image img e \<longleftrightarrow>
     (\<forall>t off n. 0 < n \<longrightarrow>
        (case env_readAt e t (int off) n of (count, bytes, err) \<Rightarrow>
           count = int (length (slice off n img)) \<and> bytes = slice off n img \<and>
           (if off + n \<le> length img then err = None \<or> err = Some EOF else err = Some EOF)))"

definition never_cancelled :: "env \<Rightarrow> bool" where
  "never_cancelled e \<longleftrightarrow> (\<forall>t. env_ctx e t = None)"

lemma holds_imageE:
  assumes "holds_image img e" and "0 < n" and "off + n \<le> length img"
  obtains err where "env_readAt e t (int off) n = (int n, slice off n img, err)"
    and "err = None \<or> err = Some EOF"
proof -
  obtain count bytes err where r: "env_readAt e t (int off) n = (count, bytes, err)"
    by (metis prod_cases3)
  have "length (slice off n img) = n" using assms(3) by simp
  moreover have "case env_readAt e t (int off) n of (count, bytes, err) \<Rightarrow>
           count = int (length (slice off n img)) \<and> bytes = slice off n img \<and>
           (if off + n \<le> length img then err = None \<or> err = Some EOF else err = Some EOF)"
    using assms(1) [unfolded holds_image_def, rule_format, OF assms(2), of off t] .
  ultimately have "count = int n \<and> bytes = slice off n img \<and> (err = None \<or> err = Some EOF)"
    using assms(3) by (simp only: r prod.case if_True)
  then have "env_readAt e t (int off) n = (int n, slice off n img, err)" and "err = None \<or> err = Some EOF"
    by (simp_all add: r)
  then show thesis by (rule that)
qed

lemma poll_if_never: "never_cancelled (w_env w) \<Longrightarrow> \<exists>w'. poll_if polls w = (None, w') \<and> reads_only w w'"
  using reads_only_tick [of w] by (simp add: poll_if_def ctx_Err_def never_cancelled_def)

lemma poll_never:
  assumes "never_cancelled (w_env w)"
  shows "poll mk w = (Inr (), tick w)"
  using assms by (simp add: poll_def ctx_Err_def never_cancelled_def)

lemma exact_read_image:
  assumes img: "holds_image img (w_env w)" and "polls \<Longrightarrow> never_cancelled (w_env w)"
    and "off + n \<le> length img"
  obtains w' where "exact_read polls (int off) n w = ((slice off n img, ReadDone), w')"
    and "reads_only w w'"
proof (cases "n = 0")
  case True
  then show thesis using that by (simp add: exact_read_def slice_def)
next
  case False
  obtain w1 where p1: "poll_if polls w = (None, w1)" "reads_only w w1"
    using assms(2) poll_if_never [of w polls] by (cases polls) (auto simp: poll_if_def)
  have e1: "w_env w1 = w_env w" using p1(2) by (rule reads_only_fields)
  obtain err where rd: "env_readAt (w_env w) (w_tick w1) (int off) n = (int n, slice off n img, err)"
    and err: "err = None \<or> err = Some EOF"
    using holds_imageE [OF img _ assms(3)] False by blast
  obtain w2 where p2: "poll_if polls (tick w1) = (None, w2)"
    using assms(2) poll_if_never [of "tick w1" polls] e1 by (cases polls) (auto simp: poll_if_def tick_def)
  have "exact_loop polls (n + 2) (int off) n [] 0 w = ((slice off n img, ReadDone), w2)"
  proof -
    have "source_ReadAt (int off + int (length ([] :: byte list))) (n - length ([] :: byte list)) w1 =
        ((int n, slice off n img, err), tick w1)"
      using rd by (simp add: source_ReadAt_def e1)
    moreover have "length (slice off n img) = n" using assms(3) by simp
    moreover have "n + 2 = Suc (Suc n)" by simp
    ultimately show ?thesis
      using err False by (elim disjE)
        (simp_all only: exact_loop.simps p1(1) p2 prod.case option.case Let_def fit_exact nat_int
          append_Nil if_True if_False simp_thms length_fit, simp_all add: fit_exact)
  qed
  then have "exact_read polls (int off) n w =
      ((slice off n img, ReadDone), w2\<lparr>w_trace := w_trace w2 @ [(int off, slice off n img)]\<rparr>)"
    using False by (simp only: exact_read_def if_False prod.case read_end.case)
  then show thesis using that exact_read_only by blast
qed

section \<open>Operations that only read\<close>

text \<open>
  \<open>reads_to P E Q m\<close>: whatever the environment does, from a world in \<open>P\<close> the operation changes
  nothing but the clock and the log of reads, and ends with an error in \<open>E\<close>, or a value and a
  world in \<open>Q\<close>. \<open>stable\<close> facts, such as that a read is logged, survive.
\<close>

definition reads_to ::
  "(world \<Rightarrow> bool) \<Rightarrow> ('e \<Rightarrow> bool) \<Rightarrow> ('a \<Rightarrow> world \<Rightarrow> bool) \<Rightarrow> (world, 'e, 'a) io \<Rightarrow> bool" where
  "reads_to P E Q m \<longleftrightarrow>
     (\<forall>w. P w \<longrightarrow>
        (case m w of (r, w') \<Rightarrow> reads_only w w' \<and> (case r of Inl e \<Rightarrow> E e | Inr v \<Rightarrow> Q v w')))"

definition stable :: "(world \<Rightarrow> bool) \<Rightarrow> bool" where
  "stable S \<longleftrightarrow> (\<forall>w w'. S w \<longrightarrow> reads_only w w' \<longrightarrow> S w')"

definition logged :: "int \<Rightarrow> byte list \<Rightarrow> world \<Rightarrow> bool" where
  "logged off bytes w \<longleftrightarrow> bytes = [] \<or> (off, bytes) \<in> set (w_trace w)"

lemma stable_logged [simp]: "stable (logged off bytes)"
  by (auto simp: stable_def logged_def reads_only_def)

lemma stable_const [simp]: "stable (\<lambda>_. b)"
  by (simp add: stable_def)

lemma stable_all: "(\<And>x. stable (S x)) \<Longrightarrow> stable (\<lambda>w. \<forall>x. S x w)"
  unfolding stable_def by blast

lemma stable_ex: "(\<And>x. stable (S x)) \<Longrightarrow> stable (\<lambda>w. \<exists>x. S x w)"
  unfolding stable_def by blast

lemma stable_conj: "stable S \<Longrightarrow> stable T \<Longrightarrow> stable (\<lambda>w. S w \<and> T w)"
  unfolding stable_def by blast

lemma stable_imp: "stable S \<Longrightarrow> stable (\<lambda>w. b \<longrightarrow> S w)"
  unfolding stable_def by blast

lemma stableD: "stable S \<Longrightarrow> S w \<Longrightarrow> reads_only w w' \<Longrightarrow> S w'"
  unfolding stable_def by blast

lemma reads_toD:
  assumes "reads_to P E Q m" and "m w = (r, w')" and "P w"
  shows "reads_only w w'" "r = Inl e \<Longrightarrow> E e" "r = Inr v \<Longrightarrow> Q v w'"
  using assms(1) [unfolded reads_to_def, rule_format, OF assms(3)] assms(2) by auto

lemma reads_to_ret: "(\<And>w. P w \<Longrightarrow> Q v w) \<Longrightarrow> reads_to P E Q (io_ret v)"
  by (simp add: reads_to_def)

lemma reads_to_fail: "E e \<Longrightarrow> reads_to P E Q (io_fail e)"
  by (simp add: reads_to_def)

lemma reads_to_bind:
  assumes "reads_to P E R m" and "\<And>v. reads_to (R v) E Q (f v)"
  shows "reads_to P E Q (io_bind m f)"
  unfolding reads_to_def
proof (intro allI impI)
  fix w
  assume P: "P w"
  obtain r w1 where m: "m w = (r, w1)" by force
  show "case io_bind m f w of (r, w') \<Rightarrow> reads_only w w' \<and> (case r of Inl e \<Rightarrow> E e | Inr v \<Rightarrow> Q v w')"
  proof (cases r)
    case (Inl e)
    then show ?thesis using reads_toD [OF assms(1) m P] m by (simp add: io_bind_def)
  next
    case (Inr v)
    obtain r2 w2 where f: "f v w1 = (r2, w2)" by force
    have "R v w1" using reads_toD(3) [OF assms(1) m P] Inr by blast
    from reads_toD [OF assms(2) f this] show ?thesis
      using reads_toD(1) [OF assms(1) m P] Inr m f
      by (cases r2) (auto simp: io_bind_def intro: reads_only_trans)
  qed
qed

lemma reads_to_conseq:
  "reads_to P E Q m \<Longrightarrow> (\<And>w. P' w \<Longrightarrow> P w) \<Longrightarrow> (\<And>e. E e \<Longrightarrow> E' e) \<Longrightarrow>
   (\<And>v w. Q v w \<Longrightarrow> Q' v w) \<Longrightarrow> reads_to P' E' Q' m"
  unfolding reads_to_def by (fastforce split: prod.splits sum.splits)

lemma reads_to_frame:
  "reads_to P E Q m \<Longrightarrow> stable S \<Longrightarrow> reads_to (\<lambda>w. P w \<and> S w) E (\<lambda>v w. Q v w \<and> S w) m"
  unfolding reads_to_def by (fastforce split: prod.splits sum.splits dest: stableD)

lemma reads_to_bind_stable:
  assumes "reads_to (\<lambda>_. True) E R m" and "stable S" and "\<And>v. reads_to (\<lambda>w. R v w \<and> S w) E Q (f v)"
  shows "reads_to S E Q (io_bind m f)"
proof (rule reads_to_bind)
  show "reads_to S E (\<lambda>v w. R v w \<and> S w) m"
    using reads_to_frame [OF assms(1,2)] by (rule reads_to_conseq) auto
qed (rule assms(3))

lemma reads_to_option:
  assumes "x = None \<Longrightarrow> reads_to P E Q a" and "\<And>y. x = Some y \<Longrightarrow> reads_to P E Q (f y)"
  shows "reads_to P E Q (case x of None \<Rightarrow> a | Some y \<Rightarrow> f y)"
  using assms by (cases x) simp_all

lemma reads_to_sum:
  assumes "\<And>e. x = Inl e \<Longrightarrow> reads_to P E Q (g e)" and "\<And>y. x = Inr y \<Longrightarrow> reads_to P E Q (f y)"
  shows "reads_to P E Q (case x of Inl e \<Rightarrow> g e | Inr y \<Rightarrow> f y)"
  using assms by (cases x) simp_all

lemma reads_to_if:
  assumes "b \<Longrightarrow> reads_to P E Q m" and "\<not> b \<Longrightarrow> reads_to P E Q n"
  shows "reads_to P E Q (if b then m else n)"
  using assms by simp

lemma reads_to_prod:
  assumes "\<And>a b. x = (a, b) \<Longrightarrow> reads_to P E Q (f a b)"
  shows "reads_to P E Q (case x of (a, b) \<Rightarrow> f a b)"
  using assms by (cases x) simp

lemmas reads_to_cases = reads_to_option reads_to_sum reads_to_if reads_to_prod

lemma reads_to_poll:
  assumes "\<And>c. E (mk c)"
  shows "reads_to (\<lambda>_. True) E (\<lambda>_ _. True) (poll mk)"
  unfolding reads_to_def using assms by (auto simp: poll_def ctx_Err_def split: option.split)

lemma reads_to_poll_stable:
  assumes "\<And>c. E (mk c)" and "stable S" and "reads_to S E Q (f ())"
  shows "reads_to S E Q (io_bind (poll mk) f)"
  by (rule reads_to_bind_stable [OF reads_to_poll assms(2)])
    (use assms in \<open>auto intro: reads_to_conseq\<close>)

end
