(* ===== verification/Source_Reader.thy ===== *)
theory Source_Reader
  imports World Capsule_Codec Geometry
begin

text \<open>
  The reader before any key is derived (\<open>pcv3/reader.go\<close>): exact reads, routing of a source by
  \<open>Probe\<close>, and \<open>Inspect\<close>, which looks at the two capsules and the trailer and keeps what is
  structurally valid together with the first problem of each region. \<open>codecs\<close> is the result of
  \<open>NewRSCodecs\<close>.
\<close>

section \<open>Exact reads\<close>

text \<open>\<open>readExactAt\<close> returns the bytes read also beside an error; \<open>1 << 63 - 1\<close> is the largest
  offset.\<close>

definition readExactAt :: "int \<Rightarrow> nat \<Rightarrow> Stage \<Rightarrow> world \<Rightarrow> (byte list \<times> pcv3_error option) \<times> world" where
  "readExactAt offset n structuralStage w =
     (if offset < 0 then (([], Some (NewInputError InvalidReader)), w)
      else if offset > MaxInt64 - int n then (([], Some (NewInputError ReaderOffsetOverflow)), w)
      else
        case exact_read False offset n w of
          ((bytes, ReadDone), w) \<Rightarrow> ((bytes, None), w)
        | ((bytes, ReadTruncated), w) \<Rightarrow> ((bytes, Some (NewInvalidStructureError structuralStage)), w)
        | ((bytes, ReadFailed c), w) \<Rightarrow> ((bytes, Some (NewInputError c)), w)
        | ((bytes, ReadCancelled c), w) \<Rightarrow> ((bytes, Some (Plain c)), w))"

section \<open>The structure found before key derivation\<close>

datatype Component = ComponentPrimary | ComponentTrailer | ComponentBackup

text \<open>The candidates and their geometries are the first entries of the two-element arrays.\<close>

record Structure =
  str_preamble :: Preamble
  str_candidates :: "(Candidate \<times> Geometry) list"
  str_issuePrimary :: Stage
  str_issueTrailer :: Stage
  str_issueBackup :: Stage
  str_observedSize :: int

definition emptyStructure :: "int \<Rightarrow> Structure" where
  "emptyStructure sourceSize =
     \<lparr>str_preamble = \<lparr>pre_suite = 0, pre_featureFlags = 0, pre_frontHeaderLength = 0\<rparr>,
      str_candidates = [], str_issuePrimary = StageNone, str_issueTrailer = StageNone,
      str_issueBackup = StageNone, str_observedSize = sourceSize\<rparr>"

fun structure_Issue :: "Structure \<Rightarrow> Component \<Rightarrow> Stage option" where
  "structure_Issue s ComponentPrimary =
     (if str_issuePrimary s = StageNone then None else Some (str_issuePrimary s))"
| "structure_Issue s ComponentTrailer =
     (if str_issueTrailer s = StageNone then None else Some (str_issueTrailer s))"
| "structure_Issue s ComponentBackup =
     (if str_issueBackup s = StageNone then None else Some (str_issueBackup s))"

fun set_issue :: "Component \<Rightarrow> Stage \<Rightarrow> Structure \<Rightarrow> Structure" where
  "set_issue ComponentPrimary stage s = s\<lparr>str_issuePrimary := stage\<rparr>"
| "set_issue ComponentTrailer stage s = s\<lparr>str_issueTrailer := stage\<rparr>"
| "set_issue ComponentBackup stage s = s\<lparr>str_issueBackup := stage\<rparr>"

definition addCandidate :: "Candidate \<Rightarrow> Geometry \<Rightarrow> Structure \<Rightarrow> Structure" where
  "addCandidate candidate geometry s =
     s\<lparr>str_candidates := str_candidates s @ [(candidate, geometry)]\<rparr>"

definition retainIssue :: "Component \<Rightarrow> pcv3_error \<Rightarrow> Structure \<Rightarrow> pcv3_error + Structure" where
  "retainIssue component err s =
     (case err of
        Failure OutcomeInvalidStructurePreKDF stage _ \<Rightarrow> Inr (set_issue component stage s)
      | _ \<Rightarrow> Inl err)"

definition earliestIssue :: "Structure \<Rightarrow> Stage" where
  "earliestIssue s =
     foldl (\<lambda>earliest stage.
         if stage \<noteq> StageNone \<and> (earliest = StageNone \<or> stage < earliest) then stage else earliest)
       StageNone [str_issuePrimary s, str_issueTrailer s, str_issueBackup s]"

definition inspectCapsule :: "RSCodecs \<Rightarrow> byte list \<Rightarrow> byte \<Rightarrow> u64 \<Rightarrow> pcv3_error + (Candidate \<times> Geometry)" where
  "inspectCapsule codecs encoded role sourceSize =
     ebind (inspectCapsuleCandidate codecs encoded role) (\<lambda>candidate.
     ebind (DeriveGeometry candidate sourceSize) (\<lambda>geometry. Inr (candidate, geometry)))"

definition inspectPrimaryCapsule :: "RSCodecs \<Rightarrow> byte list \<Rightarrow> pcv3_error + (Candidate \<times> Geometry)" where
  "inspectPrimaryCapsule codecs encoded =
     ebind (inspectCapsuleCandidate codecs encoded CapsuleRolePrimary) (\<lambda>candidate.
     ebind (deriveCanonicalGeometry candidate) (\<lambda>geometry. Inr (candidate, geometry)))"

text \<open>
  The three regions are treated alike: read, inspect, keep the candidate if there is one;
  a structural problem is kept as the issue of the region, any other error ends the
  inspection. Errors carry the structure built so far.
\<close>

definition inspect_region ::
  "Component \<Rightarrow> int \<Rightarrow> nat \<Rightarrow> Stage \<Rightarrow> (byte list \<Rightarrow> pcv3_error + (Candidate \<times> Geometry) option) \<Rightarrow>
   Structure \<Rightarrow> (world, Structure \<times> pcv3_error, Structure) io" where
  "inspect_region component offset n stage inspect s = (\<lambda>w.
     case readExactAt offset n stage w of
       ((bytes, err), w) \<Rightarrow>
         (case (case err of Some e \<Rightarrow> Inl e | None \<Rightarrow> inspect bytes) of
            Inl e \<Rightarrow>
              (case retainIssue component e s of
                 Inl terminal \<Rightarrow> (Inl (s, terminal), w)
               | Inr s \<Rightarrow> (Inr s, w))
          | Inr None \<Rightarrow> (Inr s, w)
          | Inr (Some (candidate, geometry)) \<Rightarrow> (Inr (addCandidate candidate geometry s), w)))"

text \<open>The three regions in the order they are inspected.\<close>

definition inspect_primary :: "RSCodecs \<Rightarrow> Structure \<Rightarrow> (world, Structure \<times> pcv3_error, Structure) io" where
  "inspect_primary codecs =
     inspect_region ComponentPrimary 16 960 StageCapsuleRS
       (\<lambda>primary. ebind (inspectPrimaryCapsule codecs primary) (\<lambda>cg. Inr (Some cg)))"

definition inspect_trailer :: "RSCodecs \<Rightarrow> int \<Rightarrow> Structure \<Rightarrow> (world, Structure \<times> pcv3_error, Structure) io" where
  "inspect_trailer codecs sourceSize =
     inspect_region ComponentTrailer (sourceSize - 48) 48 StageTailGeometry
       (\<lambda>trailer. ebind (inspectTrailer codecs trailer) (\<lambda>_. Inr None))"

definition inspect_backup :: "RSCodecs \<Rightarrow> int \<Rightarrow> Structure \<Rightarrow> (world, Structure \<times> pcv3_error, Structure) io" where
  "inspect_backup codecs sourceSize =
     inspect_region ComponentBackup (sourceSize - 1008) 960 StageCapsuleRS
       (\<lambda>backup. ebind (inspectCapsule codecs backup CapsuleRoleBackup (word_of_int sourceSize))
          (\<lambda>cg. Inr (Some cg)))"

text \<open>The part of the inspection after the primary capsule.\<close>

definition inspect_rest :: "RSCodecs \<Rightarrow> int \<Rightarrow> Structure \<Rightarrow> (world, Structure \<times> pcv3_error, Structure) io" where
  "inspect_rest codecs sourceSize = (\<lambda>s.
     if sourceSize < 1984 then
       let s = set_issue ComponentBackup StageTailGeometry (set_issue ComponentTrailer StageTailGeometry s) in
       if str_candidates s \<noteq> [] then io_ret s
       else io_fail (s, NewInvalidStructureError (earliestIssue s))
     else
       io_bind (inspect_trailer codecs sourceSize s) (\<lambda>s.
       io_bind (inspect_backup codecs sourceSize s) (\<lambda>s.
       if str_candidates s \<noteq> [] then io_ret s
       else
         let stage = earliestIssue s;
             stage = (if stage = StageNone then StageTailGeometry else stage)
         in io_fail (s, NewInvalidStructureError stage))))"

definition Inspect ::
  "RSCodecs option \<Rightarrow> int \<Rightarrow> byte list \<Rightarrow> (world, Structure \<times> pcv3_error, Structure) io" where
  "Inspect newCodecs sourceSize admitted = (\<lambda>w.
     let s = emptyStructure sourceSize in
     case readExactAt 4 12 StagePreamble w of
       ((_, Some e), w) \<Rightarrow> (Inl (s, e), w)
     | ((remainder, None), w) \<Rightarrow>
       (case ParsePreamble admitted remainder of
          Inl e \<Rightarrow> (Inl (s, e), w)
        | Inr preamble \<Rightarrow>
          let s = s\<lparr>str_preamble := preamble\<rparr> in
          if sourceSize < 0 \<or> sourceSize < 976
          then (Inl (s, NewInvalidStructureError StageTailGeometry), w)
          else
            (case newCodecs of
               None \<Rightarrow> (Inl (s, NewInputError (External 0)), w)
             | Some codecs \<Rightarrow>
                 io_bind (inspect_primary codecs s) (inspect_rest codecs sourceSize) w)))"

definition Probe ::
  "RSCodecs option \<Rightarrow> int \<Rightarrow> world \<Rightarrow> (Route \<times> Structure \<times> pcv3_error option) \<times> world" where
  "Probe newCodecs sourceSize w =
     (case readExactAt 0 4 StagePreamble w of
        ((admitted, err), w) \<Rightarrow>
          let route = DetectPrefix admitted in
          (case err of
             Some (Failure OutcomeInvalidStructurePreKDF stage c) \<Rightarrow>
               if route = RouteLegacyEligible then ((route, emptyStructure 0, None), w)
               else ((route, emptyStructure 0, err), w)
           | Some e \<Rightarrow> ((route, emptyStructure 0, Some e), w)
           | None \<Rightarrow>
               if route = RouteLegacyEligible then ((route, emptyStructure 0, None), w)
               else
                 (case Inspect newCodecs sourceSize admitted w of
                    (Inr s, w) \<Rightarrow> ((route, s, None), w)
                  | (Inl (s, e), w) \<Rightarrow> ((route, s, Some e), w))))"

section \<open>What the exact reads return\<close>

text \<open>A failure of the read loop other than a truncation is never an end of file.\<close>

lemma exact_loop_end:
  "exact_loop polls k off n got idle w = ((bytes, e), w') \<Longrightarrow>
   (\<forall>c. e = ReadCancelled c \<longrightarrow> polls) \<and> (\<forall>c. e = ReadFailed c \<longrightarrow> \<not> isEOF c)"
proof (induction k arbitrary: got idle w)
  case (Suc k)
  then show ?case
    by (auto simp: Let_def poll_if_def split: option.splits if_splits prod.splits)
qed auto

lemma exact_read_end:
  assumes "exact_read polls off n w = ((bytes, e), w')"
  shows "(\<forall>c. e = ReadCancelled c \<longrightarrow> polls) \<and> (\<forall>c. e = ReadFailed c \<longrightarrow> \<not> isEOF c)"
proof (cases "n = 0")
  case False
  obtain b e1 w1 where l: "exact_loop polls (n + 2) off n [] 0 w = ((b, e1), w1)" by (metis surj_pair)
  with assms False have "e = e1" by (cases e1) (auto simp: exact_read_def simp del: exact_loop.simps)
  with exact_loop_end [OF l] show ?thesis by simp
qed (use assms in \<open>simp add: exact_read_def\<close>)

text \<open>The errors before any key is derived: a bad structure at a legal stage, an unsupported
  version, or an input error.\<close>

definition pre_kdf_error :: "pcv3_error \<Rightarrow> bool" where
  "pre_kdf_error e \<longleftrightarrow>
     (\<exists>stage. e = Failure OutcomeInvalidStructurePreKDF stage None \<and>
        legal_pair OutcomeInvalidStructurePreKDF stage) \<or>
     e = Failure OutcomeUnsupportedRoutingPreKDF StageRouting None \<or>
     (\<exists>c. e = Failure OutcomeOperationFailed StageInputIO (Some c))"

lemma pre_kdf_error_simps [simp]:
  "pre_kdf_error (Failure OutcomeInvalidStructurePreKDF stage None) \<longleftrightarrow>
     legal_pair OutcomeInvalidStructurePreKDF stage"
  "pre_kdf_error (Failure OutcomeUnsupportedRoutingPreKDF StageRouting None)"
  "pre_kdf_error (Failure OutcomeOperationFailed StageInputIO (Some c))"
  by (simp_all add: pre_kdf_error_def)

lemma readExactAt_only: "readExactAt offset n stage w = (r, w') \<Longrightarrow> reads_only w w'"
  by (auto simp: readExactAt_def split: if_splits prod.splits read_end.splits dest: exact_read_only)

lemma readExactAt_Done:
  assumes "readExactAt offset n stage w = ((bytes, None), w')"
  shows "length bytes = n \<and> (n = 0 \<or> (offset, bytes) \<in> set (w_trace w'))"
  using assms by (auto simp: readExactAt_def split: if_splits prod.splits read_end.splits dest: exact_read_Done)

lemma readExactAt_error:
  assumes "readExactAt offset n stage w = ((bytes, Some e), w')"
    and "legal_pair OutcomeInvalidStructurePreKDF stage"
  shows "pre_kdf_error e"
  using assms
  by (auto simp: readExactAt_def NewInvalidStructureError_def split: if_splits prod.splits read_end.splits
      dest: exact_read_end)

text \<open>\<open>serves img w\<close>: the source holds the image, nobody cancels.\<close>

definition serves :: "byte list \<Rightarrow> world \<Rightarrow> bool" where
  "serves img w \<longleftrightarrow>
     holds_image img (w_env w) \<and> never_cancelled (w_env w) \<and> int (length img) \<le> MaxInt64"

lemma serves_only: "reads_only w w' \<Longrightarrow> serves img w' = serves img w"
  by (simp add: serves_def reads_only_fields)

lemma serves_tick [simp]: "serves img (tick w) = serves img w"
  by (simp add: serves_def tick_def)

lemma readExactAt_image:
  assumes "serves img w" and "off + n \<le> length img"
  obtains w' where "readExactAt (int off) n stage w = ((slice off n img, None), w')"
    and "reads_only w w'"
proof -
  obtain w' where "exact_read False (int off) n w = ((slice off n img, ReadDone), w')" "reads_only w w'"
    using exact_read_image [of img w False off n] assms by (auto simp: serves_def)
  moreover have "int off \<le> MaxInt64 - int n" using assms by (simp add: serves_def)
  ultimately show thesis using that by (simp add: readExactAt_def)
qed

section \<open>Every inspection ends well-formed\<close>

definition capsule_slot :: "Candidate \<times> Geometry \<Rightarrow> bool" where
  "capsule_slot cg \<longleftrightarrow>
     validAuthCandidate (fst cg) \<and> wf_candidate (fst cg) \<and>
     core_featureFlags (cand_core (fst cg)) AND d1DerivedRootFeatureMask = 0 \<and>
     deriveCanonicalGeometry (fst cg) = Inr (snd cg)"

definition slot_roles :: "Structure \<Rightarrow> byte list" where
  "slot_roles s = map (\<lambda>cg. cand_role (fst cg)) (str_candidates s)"

definition structure_ok :: "Structure \<Rightarrow> bool" where
  "structure_ok s \<longleftrightarrow>
     list_all capsule_slot (str_candidates s) \<and>
     list_all (\<lambda>stage. stage = StageNone \<or> legal_pair OutcomeInvalidStructurePreKDF stage)
       [str_issuePrimary s, str_issueTrailer s, str_issueBackup s]"

lemma structure_ok_set_issue [simp]:
  "structure_ok s \<Longrightarrow> legal_pair OutcomeInvalidStructurePreKDF stage \<Longrightarrow> structure_ok (set_issue component stage s)"
  by (cases component) (simp_all add: structure_ok_def)

lemma structure_ok_add [simp]:
  "structure_ok s \<Longrightarrow> capsule_slot (c, g) \<Longrightarrow> structure_ok (addCandidate c g s)"
  by (simp add: structure_ok_def addCandidate_def)

lemma set_issue_candidates [simp]:
  "str_candidates (set_issue component stage s) = str_candidates s"
  "str_preamble (set_issue component stage s) = str_preamble s"
  "str_observedSize (set_issue component stage s) = str_observedSize s"
  by (cases component; simp)+

declare set_issue.simps [simp del]

lemma earliestIssue_legal:
  assumes "structure_ok s"
  shows "earliestIssue s = StageNone \<or> legal_pair OutcomeInvalidStructurePreKDF (earliestIssue s)"
  using assms by (auto simp: earliestIssue_def structure_ok_def)

text \<open>A candidate taken from a region passed every structural test and has its own layout.\<close>

lemma validateDecodedCapsule_error:
  "validateDecodedCapsule decoded role d = Inl e \<Longrightarrow> isSupportedCapsuleRole role \<Longrightarrow> pre_kdf_error e"
  by (auto simp: validateDecodedCapsule_def Let_def split: if_splits)

lemma inspectCapsuleCandidate_error:
  assumes "inspectCapsuleCandidate codecs encoded role = Inl e" and "isSupportedCapsuleRole role"
  shows "pre_kdf_error e"
proof -
  have dec: "decodeCapsule codecs encoded = Inl e' \<Longrightarrow> pre_kdf_error e'" for e'
    by (auto simp: decodeCapsule_def ebind_eq_Inl Let_def simp del: emap.simps upt_rec_numeral
        split: if_splits prod.splits option.splits dest!: emap_Inl)
  show ?thesis
    using assms
    by (auto simp: inspectCapsuleCandidate_def inspectCapsuleCandidateMode_def ebind_eq_Inl
        intro: dec dest: validateDecodedCapsule_error)
qed

lemma inspectCapsuleCandidate_valid:
  assumes "inspectCapsuleCandidate codecs encoded role = Inr c"
  shows "validAuthCandidate c \<and> wf_candidate c \<and> cand_role c = role \<and>
    core_featureFlags (cand_core c) AND d1DerivedRootFeatureMask = 0"
proof -
  obtain decoded where v: "validateDecodedCapsule decoded role False = Inr c"
    using assms by (auto simp: inspectCapsuleCandidate_def inspectCapsuleCandidateMode_def ebind_eq_Inr)
  then have "core_featureFlags (cand_core c) AND d1DerivedRootFeatureMask = 0"
    by (auto simp: validateDecodedCapsule_def Let_def split: if_splits)
  with validateDecodedCapsule_valid [OF v] show ?thesis by blast
qed

lemma deriveCanonicalGeometry_error: "deriveCanonicalGeometry c = Inl e \<Longrightarrow> pre_kdf_error e"
  by (auto simp: deriveCanonicalGeometry_def Let_def ebind_eq_Inl split: if_splits option.splits prod.splits)

lemma inspectPrimaryCapsule_cases:
  assumes "inspectPrimaryCapsule codecs encoded = r"
  shows "case r of Inl e \<Rightarrow> pre_kdf_error e
    | Inr cg \<Rightarrow> capsule_slot cg \<and> cand_role (fst cg) = CapsuleRolePrimary"
  using assms
  by (cases r) (auto simp: inspectPrimaryCapsule_def ebind_eq_Inl ebind_eq_Inr capsule_slot_def
      isSupportedCapsuleRole_def dest: inspectCapsuleCandidate_error inspectCapsuleCandidate_valid
      deriveCanonicalGeometry_error)

lemma DeriveGeometry_cases:
  assumes "DeriveGeometry c sourceSize = r"
  shows "case r of Inl e \<Rightarrow> pre_kdf_error e
    | Inr g \<Rightarrow> deriveCanonicalGeometry c = Inr g \<and> geo_fileSize g = int (unat sourceSize)"
  using assms
  by (cases r) (auto simp: DeriveGeometry_def ebind_eq_Inl ebind_eq_Inr Safe_Some_nat
      split: if_splits option.splits dest: deriveCanonicalGeometry_error)

lemma inspectCapsule_cases:
  assumes "inspectCapsule codecs encoded CapsuleRoleBackup sourceSize = r"
  shows "case r of Inl e \<Rightarrow> pre_kdf_error e
    | Inr cg \<Rightarrow> capsule_slot cg \<and> cand_role (fst cg) = CapsuleRoleBackup"
proof (cases r)
  case (Inl e)
  then show ?thesis
    using assms by (auto simp: inspectCapsule_def ebind_eq_Inl isSupportedCapsuleRole_def
        dest: inspectCapsuleCandidate_error DeriveGeometry_cases)
next
  case (Inr cg)
  then show ?thesis
    using assms by (auto simp: inspectCapsule_def ebind_eq_Inr capsule_slot_def
        dest: inspectCapsuleCandidate_valid DeriveGeometry_cases)
qed

lemma inspectTrailer_error: "inspectTrailer codecs encoded = Inl e \<Longrightarrow> pre_kdf_error e"
  by (auto simp: inspectTrailer_def decodeTrailer_def ebind_eq_Inl split: if_splits prod.splits option.splits)

lemma ParsePreamble_error:
  "ParsePreamble admitted remainder = Inl e \<Longrightarrow> admitted = normalDiscriminator \<Longrightarrow> pre_kdf_error e"
  by (auto simp: ParsePreamble_def Let_def split: if_splits option.splits)

text \<open>One region adds its candidate, keeps its issue, leaves the structure as it is, or ends
  the inspection with an error that is not structural.\<close>

lemma inspect_region_cases:
  assumes "inspect_region component offset n stage inspect s w = (r, w')"
    and "legal_pair OutcomeInvalidStructurePreKDF stage"
    and "\<And>bytes e. inspect bytes = Inl e \<Longrightarrow> pre_kdf_error e"
  obtains (kept) "r = Inr s" "reads_only w w'"
  | (added) bytes c g where "inspect bytes = Inr (Some (c, g))" "r = Inr (addCandidate c g s)"
      "reads_only w w'"
  | (issue) st where "r = Inr (set_issue component st s)" "reads_only w w'"
      "legal_pair OutcomeInvalidStructurePreKDF st"
  | (failed) e where "r = Inl (s, e)" "pre_kdf_error e" "reads_only w w'"
proof -
  obtain bytes err w1 where rd: "readExactAt offset n stage w = ((bytes, err), w1)" by (metis prod.exhaust)
  have only: "reads_only w w1" by (rule readExactAt_only [OF rd])
  let ?m = "case err of Some e \<Rightarrow> Inl e | None \<Rightarrow> inspect bytes"
  show thesis
  proof (cases ?m)
    case (Inl e)
    have e: "pre_kdf_error e"
      using Inl rd assms(2,3) by (auto split: option.splits dest: readExactAt_error)
    show thesis
    proof (cases "retainIssue component e s")
      case (Inl t)
      then have "t = e" by (auto simp: retainIssue_def split: pcv3_error.splits Outcome.splits)
      then show thesis using assms(1) rd \<open>?m = Inl e\<close> Inl only e failed [of e]
        by (simp add: inspect_region_def)
    next
      case (Inr s')
      then obtain st c where "e = Failure OutcomeInvalidStructurePreKDF st c" "s' = set_issue component st s"
        by (auto simp: retainIssue_def split: pcv3_error.splits Outcome.splits)
      then show thesis using assms(1) rd \<open>?m = Inl e\<close> Inr only e issue
        by (auto simp: inspect_region_def pre_kdf_error_def)
    qed
  next
    case (Inr v)
    show thesis
    proof (cases v)
      case None
      then show thesis using assms(1) rd Inr only kept by (auto simp: inspect_region_def)
    next
      case (Some cg)
      then obtain c g where "v = Some (c, g)" by (cases cg) simp
      moreover have "inspect bytes = Inr v" using Inr by (simp split: option.splits)
      ultimately show thesis using assms(1) rd Inr only added
        by (auto simp: inspect_region_def)
    qed
  qed
qed

text \<open>The inspection as a whole, for every behaviour of the source.\<close>

definition inspected :: "(Structure \<times> pcv3_error) + Structure \<Rightarrow> bool" where
  "inspected r \<longleftrightarrow>
     (case r of
        Inl (s, e) \<Rightarrow> structure_ok s \<and> pre_kdf_error e
      | Inr s \<Rightarrow> structure_ok s \<and> str_candidates s \<noteq> [] \<and>
          slot_roles s \<in> {[CapsuleRolePrimary], [CapsuleRoleBackup],
                          [CapsuleRolePrimary, CapsuleRoleBackup]})"

lemma inspected_simps [simp]:
  "inspected (Inl (s, e)) \<longleftrightarrow> structure_ok s \<and> pre_kdf_error e"
  "inspected (Inr s) \<longleftrightarrow> structure_ok s \<and> str_candidates s \<noteq> [] \<and>
     slot_roles s \<in> {[CapsuleRolePrimary], [CapsuleRoleBackup], [CapsuleRolePrimary, CapsuleRoleBackup]}"
  by (simp_all add: inspected_def)

lemma slot_roles_simps [simp]:
  "slot_roles (set_issue component stage s) = slot_roles s"
  "slot_roles (addCandidate c g s) = slot_roles s @ [cand_role c]"
  "str_candidates s = [] \<longleftrightarrow> slot_roles s = []"
  by (simp_all add: slot_roles_def addCandidate_def)

lemma inspect_primary_ok:
  assumes "inspect_primary codecs s w = (r, w')" and "structure_ok s" and "str_candidates s = []"
  shows "reads_only w w' \<and> (case r of
      Inl (s', e) \<Rightarrow> structure_ok s' \<and> pre_kdf_error e
    | Inr s' \<Rightarrow> structure_ok s' \<and> slot_roles s' \<in> {[], [CapsuleRolePrimary]})"
proof (rule inspect_region_cases [OF assms(1) [unfolded inspect_primary_def]])
  show "pre_kdf_error e" if "ebind (inspectPrimaryCapsule codecs bytes) (\<lambda>cg. Inr (Some cg)) = Inl e" for bytes e
    using that inspectPrimaryCapsule_cases [of codecs bytes] by (auto simp: ebind_eq_Inl)
next
  fix bytes c g
  assume "ebind (inspectPrimaryCapsule codecs bytes) (\<lambda>cg. Inr (Some cg)) = Inr (Some (c, g))"
    and "r = Inr (addCandidate c g s)" "reads_only w w'"
  moreover from this have "capsule_slot (c, g)" "cand_role c = CapsuleRolePrimary"
    using inspectPrimaryCapsule_cases [of codecs bytes] by (auto simp: ebind_eq_Inr)
  ultimately show ?thesis using assms(2,3) by simp
qed (use assms in auto)

lemma inspect_trailer_ok:
  assumes "inspect_trailer codecs sourceSize s w = (r, w')" and "structure_ok s"
  shows "reads_only w w' \<and> (case r of
      Inl (s', e) \<Rightarrow> structure_ok s' \<and> pre_kdf_error e
    | Inr s' \<Rightarrow> structure_ok s' \<and> slot_roles s' = slot_roles s)"
proof (rule inspect_region_cases [OF assms(1) [unfolded inspect_trailer_def]])
  show "pre_kdf_error e" if "ebind (inspectTrailer codecs bytes) (\<lambda>_. Inr None) = Inl e" for bytes e
    using that by (auto simp: ebind_eq_Inl inspectTrailer_error)
qed (use assms in \<open>auto simp: ebind_eq_Inr\<close>)

lemma inspect_backup_ok:
  assumes "inspect_backup codecs sourceSize s w = (r, w')" and "structure_ok s"
  shows "reads_only w w' \<and> (case r of
      Inl (s', e) \<Rightarrow> structure_ok s' \<and> pre_kdf_error e
    | Inr s' \<Rightarrow> structure_ok s' \<and> slot_roles s' \<in> {slot_roles s, slot_roles s @ [CapsuleRoleBackup]})"
proof (rule inspect_region_cases [OF assms(1) [unfolded inspect_backup_def]])
  show "pre_kdf_error e" if "ebind (inspectCapsule codecs bytes CapsuleRoleBackup (word_of_int sourceSize))
      (\<lambda>cg. Inr (Some cg)) = Inl e" for bytes e
    using that inspectCapsule_cases [of codecs bytes "word_of_int sourceSize"] by (auto simp: ebind_eq_Inl)
next
  fix bytes c g
  assume "ebind (inspectCapsule codecs bytes CapsuleRoleBackup (word_of_int sourceSize))
      (\<lambda>cg. Inr (Some cg)) = Inr (Some (c, g))"
    and "r = Inr (addCandidate c g s)" "reads_only w w'"
  moreover from this have "capsule_slot (c, g)" "cand_role c = CapsuleRoleBackup"
    using inspectCapsule_cases [of codecs bytes "word_of_int sourceSize"] by (auto simp: ebind_eq_Inr)
  ultimately show ?thesis using assms(2) by simp
qed (use assms in auto)

lemma set_issue_both:
  "structure_ok s \<Longrightarrow> legal_pair OutcomeInvalidStructurePreKDF stage \<Longrightarrow>
   structure_ok (set_issue c1 stage (set_issue c2 stage s))"
  by simp

lemma structure_ok_empty [simp]: "structure_ok (emptyStructure n)" "slot_roles (emptyStructure n) = []"
  by (simp_all add: structure_ok_def emptyStructure_def slot_roles_def)

lemma structure_ok_preamble [simp]:
  "structure_ok (s\<lparr>str_preamble := p\<rparr>) = structure_ok s"
  "slot_roles (s\<lparr>str_preamble := p\<rparr>) = slot_roles s"
  by (simp_all add: structure_ok_def slot_roles_def)

lemma NewInvalidStructureError_pre_kdf:
  "legal_pair OutcomeInvalidStructurePreKDF stage \<Longrightarrow> pre_kdf_error (NewInvalidStructureError stage)"
  by (simp add: NewInvalidStructureError_def)

lemma inspect_rest_ok:
  assumes "inspect_rest codecs sourceSize s w = (r, w')" and "structure_ok s"
    and "slot_roles s \<in> {[], [CapsuleRolePrimary]}"
  shows "reads_only w w' \<and> inspected r"
proof (cases "sourceSize < 1984")
  case True
  let ?s = "set_issue ComponentBackup StageTailGeometry (set_issue ComponentTrailer StageTailGeometry s)"
  have ok: "structure_ok ?s" by (rule set_issue_both [OF assms(2)]) simp
  moreover have "earliestIssue ?s \<noteq> StageNone"
    by (auto simp: earliestIssue_def set_issue.simps)
  then have "pre_kdf_error (NewInvalidStructureError (earliestIssue ?s))"
    using earliestIssue_legal [OF ok] by (auto intro: NewInvalidStructureError_pre_kdf)
  ultimately show ?thesis
    using True assms by (auto simp: inspect_rest_def Let_def)
next
  case False
  obtain r1 w1 where t: "inspect_trailer codecs sourceSize s w = (r1, w1)" by force
  note t1 = inspect_trailer_ok [OF t assms(2)]
  show ?thesis
  proof (cases r1)
    case (Inl e)
    then show ?thesis using assms(1) False t t1 by (auto simp: inspect_rest_def io_bind_def)
  next
    case (Inr s1)
    obtain r2 w2 where b: "inspect_backup codecs sourceSize s1 w1 = (r2, w2)" by force
    have s1: "structure_ok s1" "slot_roles s1 = slot_roles s" using t1 Inr by auto
    note b1 = inspect_backup_ok [OF b s1(1)]
    have only: "reads_only w w2" using t1 b1 reads_only_trans by blast
    show ?thesis
    proof (cases r2)
      case (Inl e)
      then show ?thesis using assms(1) False t Inr b b1 only by (auto simp: inspect_rest_def io_bind_def)
    next
      case r2: (Inr s2)
      then have s2: "structure_ok s2" "slot_roles s2 \<in> {slot_roles s, slot_roles s @ [CapsuleRoleBackup]}"
        using b1 s1 by auto
      have "earliestIssue s2 \<noteq> StageNone \<Longrightarrow> pre_kdf_error (NewInvalidStructureError (earliestIssue s2))"
        using earliestIssue_legal [OF s2(1)] by (auto intro: NewInvalidStructureError_pre_kdf)
      then show ?thesis
        using assms(1,3) False t Inr b r2 s2 only
        by (auto simp: inspect_rest_def io_bind_def Let_def split: if_splits)
    qed
  qed
qed

lemma set_issue_observed [simp]: "str_observedSize (addCandidate c g s) = str_observedSize s"
  by (simp add: addCandidate_def)

lemma Inspect_ok:
  assumes "Inspect newCodecs sourceSize admitted w = (r, w')" and "admitted = normalDiscriminator"
  shows "reads_only w w' \<and> inspected r"
proof -
  obtain rem err w1 where rd: "readExactAt 4 12 StagePreamble w = ((rem, err), w1)" by (metis prod.exhaust)
  have only: "reads_only w w1" by (rule readExactAt_only [OF rd])
  show ?thesis
  proof (cases err)
    case (Some e)
    then have "pre_kdf_error e" using readExactAt_error [OF rd [unfolded Some]] by simp
    with Some show ?thesis using assms(1) rd only by (auto simp: Inspect_def Let_def)
  next
    case None
    note N = None
    show ?thesis
    proof (cases "ParsePreamble admitted rem")
      case (Inl e)
      then show ?thesis using assms rd only N
        by (auto simp: Inspect_def Let_def dest: ParsePreamble_error)
    next
      case (Inr pre)
      let ?s = "emptyStructure sourceSize\<lparr>str_preamble := pre\<rparr>"
      show ?thesis
      proof (cases "sourceSize < 976 \<or> newCodecs = None")
        case True
        then show ?thesis using assms rd only N Inr
          by (auto simp: Inspect_def Let_def isEOF_def split: if_splits)
      next
        case False
        then obtain codecs where c: "newCodecs = Some codecs" "\<not> sourceSize < 976" by auto
        obtain r1 w2 where p: "inspect_primary codecs ?s w1 = (r1, w2)" by force
        have p1: "reads_only w1 w2 \<and> (case r1 of
            Inl (s', e) \<Rightarrow> structure_ok s' \<and> pre_kdf_error e
          | Inr s' \<Rightarrow> structure_ok s' \<and> slot_roles s' \<in> {[], [CapsuleRolePrimary]})"
          by (rule inspect_primary_ok [OF p]) simp_all
        have run: "io_bind (inspect_primary codecs ?s) (inspect_rest codecs sourceSize) w1 = (r, w')"
          using assms rd N Inr c by (simp add: Inspect_def Let_def)
        show ?thesis
        proof (cases r1)
          case (Inl e)
          then show ?thesis using run p p1 only reads_only_trans by (auto simp: io_bind_def)
        next
          case (Inr s1)
          then have "inspect_rest codecs sourceSize s1 w2 = (r, w')" using run p by (simp add: io_bind_def)
          then show ?thesis using inspect_rest_ok [of codecs sourceSize s1 w2 r w'] p1 Inr only
            by (auto intro: reads_only_trans)
        qed
      qed
    qed
  qed
qed

text \<open>An image whose parts all pass is found with both candidates and no issue.\<close>

lemma inspect_region_image:
  assumes "serves img w" and "off + n \<le> length img" and "inspect (slice off n img) = Inr v"
  obtains w' where "inspect_region component (int off) n stage inspect s w =
      (Inr (case v of None \<Rightarrow> s | Some (c, g) \<Rightarrow> addCandidate c g s), w')" and "reads_only w w'"
proof -
  obtain w' where "readExactAt (int off) n stage w = ((slice off n img, None), w')" "reads_only w w'"
    by (rule readExactAt_image [OF assms(1,2)])
  then show thesis using assms(3) by (intro that [of w']) (auto simp: inspect_region_def split: option.split)
qed

definition whole_structure ::
  "Preamble \<Rightarrow> Candidate \<times> Geometry \<Rightarrow> Candidate \<times> Geometry \<Rightarrow> int \<Rightarrow> Structure" where
  "whole_structure pre p b sourceSize =
     (emptyStructure sourceSize)\<lparr>str_preamble := pre, str_candidates := [p, b]\<rparr>"

lemma Probe_image:
  assumes img: "serves img w" and len: "1984 \<le> length img" and disc: "take 4 img = normalDiscriminator"
    and pre: "ParsePreamble normalDiscriminator (slice 4 12 img) = Inr pre"
    and primary: "inspectPrimaryCapsule codecs (slice 16 960 img) = Inr p"
    and trailer: "inspectTrailer codecs (slice (length img - 48) 48 img) = Inr ()"
    and backup: "inspectCapsule codecs (slice (length img - 1008) 960 img) CapsuleRoleBackup
        (word_of_nat (length img)) = Inr b"
  obtains w' where "Probe (Some codecs) (int (length img)) w =
      ((RouteNormalPCV, whole_structure pre p b (int (length img)), None), w')"
    and "reads_only w w'"
proof -
  let ?L = "int (length img)"
  let ?s = "emptyStructure ?L\<lparr>str_preamble := pre\<rparr>"
  obtain cp gp cb gb where pb: "p = (cp, gp)" "b = (cb, gb)" by force
  have off: "?L - 48 = int (length img - 48)" "?L - 1008 = int (length img - 1008)" using len by simp_all
  obtain w0 where r0: "readExactAt 0 4 StagePreamble w = ((take 4 img, None), w0)" "reads_only w w0"
    using readExactAt_image [OF img, of 0 4] len by auto
  obtain w1 where r1: "readExactAt 4 12 StagePreamble w0 = ((slice 4 12 img, None), w1)" "reads_only w0 w1"
    using readExactAt_image [of img w0 4 12] len img r0(2) by (auto simp: serves_only)
  have i1: "serves img w1" using img r0(2) r1(2) by (simp add: serves_only)
  obtain w2 where r2: "inspect_primary codecs ?s w1 = (Inr (addCandidate cp gp ?s), w2)" "reads_only w1 w2"
    unfolding inspect_primary_def
    using inspect_region_image [OF i1, of 16 960
        "\<lambda>primary. ebind (inspectPrimaryCapsule codecs primary) (\<lambda>cg. Inr (Some cg))" "Some (cp, gp)"
        ComponentPrimary StageCapsuleRS ?s] len primary pb by auto
  have i2: "serves img w2" using i1 r2(2) by (simp add: serves_only)
  obtain w3 where r3: "inspect_trailer codecs ?L (addCandidate cp gp ?s) w2 = (Inr (addCandidate cp gp ?s), w3)"
      "reads_only w2 w3"
    unfolding inspect_trailer_def off
    using inspect_region_image [OF i2, of "length img - 48" 48
        "\<lambda>trailer. ebind (inspectTrailer codecs trailer) (\<lambda>_. Inr None)" None
        ComponentTrailer StageTailGeometry "addCandidate cp gp ?s"] len trailer by auto
  have i3: "serves img w3" using i2 r3(2) by (simp add: serves_only)
  have "(word_of_int ?L :: u64) = word_of_nat (length img)" by simp
  then obtain w4 where r4: "inspect_backup codecs ?L (addCandidate cp gp ?s) w3 =
      (Inr (addCandidate cb gb (addCandidate cp gp ?s)), w4)" "reads_only w3 w4"
    unfolding inspect_backup_def off(2)
    using inspect_region_image [OF i3, of "length img - 1008" 960
        "\<lambda>backup. ebind (inspectCapsule codecs backup CapsuleRoleBackup (word_of_int ?L))
          (\<lambda>cg. Inr (Some cg))" "Some (cb, gb)"
        ComponentBackup StageCapsuleRS "addCandidate cp gp ?s"] len backup pb by auto
  have s: "addCandidate cb gb (addCandidate cp gp ?s) = whole_structure pre p b ?L"
    by (simp add: addCandidate_def whole_structure_def emptyStructure_def pb)
  have "inspect_rest codecs ?L (addCandidate cp gp ?s) w2 = (Inr (whole_structure pre p b ?L), w4)"
    using r3 r4 len s by (simp add: inspect_rest_def io_bind_def whole_structure_def del: slot_roles_simps(3))
  then have "Inspect (Some codecs) ?L normalDiscriminator w0 = (Inr (whole_structure pre p b ?L), w4)"
    using r1 pre r2 len by (simp add: Inspect_def Let_def io_bind_def)
  moreover have "DetectPrefix (take 4 img) = RouteNormalPCV" using disc by (simp add: DetectPrefix_iff)
  moreover have "reads_only w w4" using r0 r1 r2 r3 r4 by (blast intro: reads_only_trans)
  ultimately show thesis using r0(1) disc by (intro that [of w4]) (simp_all add: Probe_def Let_def)
qed

section \<open>Properties\<close>

lemma Probe_ok:
  assumes "Probe newCodecs sourceSize w = ((route, s, err), w')"
  shows "reads_only w w' \<and>
     (case err of
        Some e \<Rightarrow> pre_kdf_error e
      | None \<Rightarrow> route = RouteLegacyEligible \<or> inspected (Inr s))"
proof -
  have "case Probe newCodecs sourceSize w of ((route, s, err), w') \<Rightarrow>
     reads_only w w' \<and>
     (case err of
        Some e \<Rightarrow> pre_kdf_error e
      | None \<Rightarrow> route = RouteLegacyEligible \<or> inspected (Inr s))"
  proof -
    obtain a err w1 where rd: "readExactAt 0 4 StagePreamble w = ((a, err), w1)" by (metis prod.exhaust)
    have only: "reads_only w w1" by (rule readExactAt_only [OF rd])
    show ?thesis
    proof (cases err)
      case (Some e)
      then show ?thesis using rd only readExactAt_error [OF rd [unfolded Some]]
        by (auto simp: Probe_def Let_def pre_kdf_error_def)
    next
      case None
      show ?thesis
      proof (cases "DetectPrefix a")
        case RouteLegacyEligible
        then show ?thesis using rd only None by (simp add: Probe_def)
      next
        case RouteNormalPCV
        obtain r w2 where i: "Inspect newCodecs sourceSize a w1 = (r, w2)" by force
        have "length a = 4" using readExactAt_Done [OF rd [unfolded None]] by simp
        then have "a = normalDiscriminator" using RouteNormalPCV by (simp add: DetectPrefix_iff)
        from Inspect_ok [OF i this] show ?thesis
          using rd only None i RouteNormalPCV
          by (cases r) (auto simp: Probe_def intro: reads_only_trans)
      qed
    qed
  qed
  then show ?thesis by (simp only: assms prod.case)
qed

lemma Probe_route:
  assumes "Probe newCodecs sourceSize w = ((route, s, err), w')"
  shows "route = DetectPrefix (fst (fst (readExactAt 0 4 StagePreamble w)))"
    and "route = RouteLegacyEligible \<Longrightarrow> s = emptyStructure 0"
proof -
  obtain a err1 w1 where rd: "readExactAt 0 4 StagePreamble w = ((a, err1), w1)" by (metis prod.exhaust)
  have "route = DetectPrefix a \<and> (route = RouteLegacyEligible \<longrightarrow> s = emptyStructure 0)"
    using assms unfolding Probe_def rd Let_def
    by (auto split: option.splits pcv3_error.splits Outcome.splits if_splits sum.splits prod.splits)
  with rd show "route = DetectPrefix (fst (fst (readExactAt 0 4 StagePreamble w)))"
    and "route = RouteLegacyEligible \<Longrightarrow> s = emptyStructure 0" by simp_all
qed

text \<open>C28: whatever the source answers, probing it only reads. The route is the normal one exactly if the
  four bytes that the first read obtained are the discriminator. Probing ends with an error that
  is a legal pre-key outcome and stage; or it leaves the file to the legacy reader, with the
  empty structure; or it returns at least one candidate, at most one per role in physical order,
  and every candidate is structurally valid and comes with the canonical layout derived from its
  own core.\<close>

theorem probe_result_wellformed:
  "case Probe newCodecs sourceSize w of ((route, s, err), w') \<Rightarrow>
     reads_only w w' \<and>
     (route = RouteNormalPCV \<longleftrightarrow>
        take 4 (fst (fst (readExactAt 0 4 StagePreamble w))) = normalDiscriminator) \<and>
     (case err of
        Some e \<Rightarrow> pre_kdf_error e
      | None \<Rightarrow> if route = RouteLegacyEligible then s = emptyStructure 0 else inspected (Inr s))"
proof -
  obtain route s err w' where p: "Probe newCodecs sourceSize w = ((route, s, err), w')"
    by (metis prod.collapse)
  from Probe_ok [OF p] Probe_route [OF p] show ?thesis
    by (simp only: p prod.case DetectPrefix_iff) (cases err; auto)
qed

end
