(* ===== verification/Coded_Region.thy ===== *)
theory Coded_Region
  imports Capsule_Codec
begin

text \<open>
  A region of a volume is a sequence of codewords of one codec: five of \<open>RS64\<close> for a capsule,
  one of \<open>RS16\<close> for the trailer and each record descriptor, blocks of \<open>RS128\<close> for the metadata
  and for record bodies with payload redundancy. \<open>coded\<close> is the region that a writer produces,
  \<open>coded_near t\<close> a region that differs from it in at most \<open>t\<close> bytes of each codeword.
\<close>

definition coded :: "FEC \<Rightarrow> nat \<Rightarrow> byte list \<Rightarrow> byte list" where
  "coded rs k data =
     concat (map (\<lambda>i. codeword rs (slice (i * fec_required rs) (fec_required rs) data)) [0..<k])"

definition coded_near :: "nat \<Rightarrow> FEC \<Rightarrow> nat \<Rightarrow> byte list \<Rightarrow> byte list \<Rightarrow> bool" where
  "coded_near t rs k data word \<longleftrightarrow>
     length data = k * fec_required rs \<and> length word = k * fec_total rs \<and>
     (\<forall>i < k. diffs (codeword rs (slice (i * fec_required rs) (fec_required rs) data))
                (slice (i * fec_total rs) (fec_total rs) word) \<le> t)"

lemma block_inside: "i < k \<Longrightarrow> i * n + n \<le> k * (n :: nat)"
  using mult_le_mono1 [of "Suc i" k n] by simp

lemma min_block [simp]: "i < k \<Longrightarrow> min n (k * n - i * n) = (n :: nat)"
  using block_inside [of i k n] by simp

lemma length_codeword_block [simp]:
  "i < k \<Longrightarrow> length data = k * fec_required rs \<Longrightarrow> fec_required rs \<le> fec_total rs \<Longrightarrow>
   length (codeword rs (slice (i * fec_required rs) (fec_required rs) data)) = fec_total rs"
  by (rule length_codeword) simp_all

lemma length_coded:
  assumes "fec_required rs \<le> fec_total rs" and "length data = k * fec_required rs"
  shows "length (coded rs k data) = k * fec_total rs"
  unfolding coded_def
  using assms by (subst length_concat_same [where n = "fec_total rs"]) auto

lemma slice_coded:
  assumes "fec_required rs \<le> fec_total rs" and "length data = k * fec_required rs" and "i < k"
  shows "slice (i * fec_total rs) (fec_total rs) (coded rs k data) =
    codeword rs (slice (i * fec_required rs) (fec_required rs) data)"
  unfolding coded_def
  using assms by (subst slice_concat_same) (auto simp del: upt_rec_numeral)

lemma coded_near_coded:
  assumes "fec_encodes rs" and "length data = k * fec_required rs"
  shows "coded_near t rs k data (coded rs k data)"
  using assms by (auto simp: coded_near_def length_coded slice_coded fec_encodes_def)

lemma coded_near_decode:
  assumes "fec_ok t rs" and "coded_near t rs k data word" and "i < k"
  shows "rs_Decode rs (slice (i * fec_total rs) (fec_total rs) word) False =
    (slice (i * fec_required rs) (fec_required rs) data, None)"
proof -
  have l: "length data = k * fec_required rs" "length word = k * fec_total rs"
    using assms(2) by (simp_all add: coded_near_def)
  have "DecodeInto rs (replicate (fec_required rs) 0) (slice (i * fec_total rs) (fec_total rs) word) =
      Inr (slice (i * fec_required rs) (fec_required rs) data)"
    by (rule DecodeInto_repairs [OF assms(1)])
      (use assms l in \<open>auto simp: coded_near_def\<close>)
  with l assms(3) show ?thesis by (simp add: rs_Decode_def)
qed

lemma coded_near_decode_into:
  assumes "fec_ok t rs" and "coded_near t rs k data word" and "i < k" and "length dst = fec_required rs"
  shows "DecodeInto rs dst (slice (i * fec_total rs) (fec_total rs) word) =
    Inr (slice (i * fec_required rs) (fec_required rs) data)"
proof -
  have l: "length data = k * fec_required rs" "length word = k * fec_total rs"
    using assms(2) by (simp_all add: coded_near_def)
  show ?thesis
    by (rule DecodeInto_repairs [OF assms(1)]) (use assms l in \<open>auto simp: coded_near_def\<close>)
qed

text \<open>A single codeword.\<close>

lemma coded_near_one:
  assumes "fec_ok t rs" and "coded_near t rs 1 data word"
  shows "rs_Decode rs word False = (data, None)"
  using coded_near_decode [OF assms, of 0] assms(2) by (simp add: coded_near_def)

lemma emap_encode_blocks:
  assumes "fec_encodes rs" and "length data = k * fec_required rs" and "length dst = fec_total rs"
  shows "emap (\<lambda>i. EncodeInto dst rs (slice (i * fec_required rs) (fec_required rs) data)) [0..<k] =
    Inr (map (\<lambda>i. codeword rs (slice (i * fec_required rs) (fec_required rs) data)) [0..<k])"
  using assms by (intro emap_all_Inr EncodeInto_codeword) (auto simp del: upt_rec_numeral)

section \<open>Capsule and trailer\<close>

lemma capsule_lanes_coded:
  "codecs_sized codecs \<Longrightarrow> capsule_lanes (RS64 codecs) decoded = coded (RS64 codecs) 5 decoded"
  by (simp add: capsule_lanes_def coded_def codecs_sized_def del: upt_rec_numeral)

lemma inspect_near_capsule:
  assumes "fec_ok t (RS64 codecs)" and "codecs_sized codecs" and "wf_candidate c" and "validAuthCandidate c"
    and "core_featureFlags (cand_core c) AND d1DerivedRootFeatureMask = 0"
    and "coded_near t (RS64 codecs) 5 (capsuleBytes c) word"
  shows "inspectCapsuleCandidate codecs word (cand_role c) = Inr c"
  unfolding inspectCapsuleCandidate_def
  using inspectCapsuleCandidateMode_repairs [OF assms(1-4), of False word] assms(2,5,6)
  by (simp add: coded_near_def codecs_sized_def)

lemma length_canonicalTrailerBytes [simp]: "length canonicalTrailerBytes = 16"
  by (simp add: canonicalTrailerBytes_def)

lemma inspect_near_trailer:
  assumes "fec_ok t (RS16 codecs)" and "codecs_sized codecs"
    and "coded_near t (RS16 codecs) 1 canonicalTrailerBytes word"
  shows "inspectTrailer codecs word = Inr ()"
  using coded_near_one [OF assms(1,3)] assms(2,3)
  by (simp add: inspectTrailer_def decodeTrailer_def codecs_sized_def coded_near_def)

lemma encodeNormalWriteTrailer_coded:
  assumes "fec_encodes (RS16 codecs)" and "codecs_sized codecs"
  shows "encodeNormalWriteTrailer codecs = Inr (coded (RS16 codecs) 1 canonicalTrailerBytes)"
  using assms EncodeInto_codeword [OF assms(1), of canonicalTrailerBytes "replicate 48 0"]
  by (simp add: encodeNormalWriteTrailer_def codecs_sized_def coded_def)

end
