(* ===== verification/Capsule_Auth.thy ===== *)
theory Capsule_Auth
  imports Source_Reader Key_Schedule
begin

text \<open>
  Authentication of the capsules of an inspected structure (\<open>pcv3/auth.go\<close>,
  \<open>authenticateCapsulesWithProviderMode\<close> and its helpers) and the result it owns
  (\<open>normalAuthResult\<close> of \<open>pcv3/normal_types.go\<close>). The credential provider is an interface of
  the code: here a record of what it lends. Closing keys and zeroing memory have no functional
  content and are left out, and the two unwrap functions are the default ones.
\<close>

section \<open>Lending keys\<close>

text \<open>
  The providers lend a key to a callback: they call it at most once, return its error when it
  has one, and may fail before or after the call. A lender is the key it lends, if it does, and
  the error it adds. \<open>withKey\<close>, \<open>withWrapKeys\<close>, \<open>withReplicaKey\<close> and \<open>withCredential\<close> all have
  this shape.
\<close>

type_synonym 'k lend = "'k option \<times> pcv3_error option"
type_synonym key_lender = "KeyRequest \<Rightarrow> byte list lend"

definition borrow ::
  "'k lend \<Rightarrow> ('k \<Rightarrow> 's \<Rightarrow> pcv3_error option \<times> 's) \<Rightarrow> 's \<Rightarrow> pcv3_error option \<times> 's" where
  "borrow lender callback s =
     (case lender of
        (None, err) \<Rightarrow> (err, s)
      | (Some key, err) \<Rightarrow>
          (case callback key s of
             (Some e, s) \<Rightarrow> (Some e, s)
           | (None, s) \<Rightarrow> (err, s)))"

lemma borrow_ok:
  assumes "borrow lender callback s = (None, s')"
  shows "snd lender = None \<and>
    (case fst lender of None \<Rightarrow> s' = s | Some key \<Rightarrow> callback key s = (None, s'))"
  using assms by (auto simp: borrow_def split: prod.splits option.splits)

record credential_access =
  acc_withWrapKeys :: "byte \<Rightarrow> capsuleWrapKeys lend"
  acc_withReplicaKey :: "byte \<Rightarrow> byte list \<Rightarrow> byte list lend"
  acc_adoptVolumeKey :: "byte list \<Rightarrow> pcv3_error option"

record credentialTuple =
  tup_suite :: u16
  tup_credentialMode :: byte
  tup_keyfileMode :: byte
  tup_keyfileCount :: u16
  tup_kdfProfile :: byte
  tup_argonSalt :: "byte list"
  tup_volumeID :: "byte list"

text \<open>
  A provider may also own the credential (\<open>capsuleOwnerProvider\<close>: after an adoption it gives
  an owner that lends the keys of the adopted volume key) and may lend keys itself
  (\<open>normalKeyBorrower\<close>).
\<close>

record credential_provider =
  prov_withCredential :: "credentialTuple \<Rightarrow> credential_access lend"
  prov_takeOwner :: "(byte list option \<Rightarrow> key_lender option) option"
  prov_borrower :: "(byte list option \<Rightarrow> key_lender) option"

section \<open>The result\<close>

definition zeroCore :: logicalCore where
  "zeroCore =
     \<lparr>core_magic = replicate 4 0, core_major = 0, core_schema = 0, core_suite = 0,
      core_featureFlags = 0, core_frontHeaderLength = 0, core_volumeID = replicate 32 0,
      core_payloadKind = 0, core_recordProfile = 0, core_metadataProfile = 0, core_reserved = 0,
      core_plaintextLength = 0, core_recordCount = 0, core_xChaChaNoncePrefix = replicate 16 0,
      core_serpentIVPrefix = replicate 8 0, core_commentLength = 0\<rparr>"

definition zeroCandidate :: Candidate where
  "zeroCandidate =
     \<lparr>cand_core = zeroCore, cand_role = 0, cand_credentialMode = 0, cand_keyfileMode = 0,
      cand_kdfProfile = 0, cand_keyfileCount = 0, cand_reserved = replicate 2 0,
      cand_argonSalt = replicate 16 0, cand_wrapNonce = replicate 24 0,
      cand_wrapSerpentIV = replicate 16 0, cand_wrappedVolumeKey = replicate 32 0,
      cand_replicaTag = replicate 64 0, cand_wrapTag = replicate 64 0\<rparr>"

definition zeroGeometry :: Geometry where
  "zeroGeometry =
     \<lparr>geo_metadataBlocks = 0, geo_payloadBodyRS = False, geo_recordCount = 0,
      geo_frontHeaderLength = 0, geo_payloadLength = 0, geo_backupCapsuleOffset = 0,
      geo_trailerOffset = 0, geo_fileSize = 0\<rparr>"

record normalAuthResult =
  auth_outcome :: Outcome
  auth_stage :: Stage
  auth_authenticated :: nat
  auth_candidate :: Candidate
  auth_geometry :: Geometry
  auth_owner :: "key_lender option"
  auth_keyBorrower :: "key_lender option"

definition newNormalAuthResult :: "Outcome \<Rightarrow> Stage \<Rightarrow> nat \<Rightarrow> normalAuthResult" where
  "newNormalAuthResult outcome stage authenticated =
     \<lparr>auth_outcome = outcome, auth_stage = stage, auth_authenticated = authenticated,
      auth_candidate = zeroCandidate, auth_geometry = zeroGeometry, auth_owner = None,
      auth_keyBorrower = None\<rparr>"

text \<open>\<open>withKey\<close>: the borrower goes before the owner; with neither the request is invalid.\<close>

definition auth_lender :: "normalAuthResult \<Rightarrow> KeyRequest \<Rightarrow> byte list lend" where
  "auth_lender auth request =
     (case auth_keyBorrower auth of
        Some lender \<Rightarrow> lender request
      | None \<Rightarrow>
          (case auth_owner auth of
             Some lender \<Rightarrow> lender request
           | None \<Rightarrow> (None, Some (Plain InvalidMetadataRequest))))"

section \<open>The credential of a structure\<close>

definition credentialTupleForCandidate :: "Candidate \<Rightarrow> credentialTuple" where
  "credentialTupleForCandidate candidate =
     \<lparr>tup_suite = core_suite (cand_core candidate),
      tup_credentialMode = cand_credentialMode candidate,
      tup_keyfileMode = cand_keyfileMode candidate,
      tup_keyfileCount = cand_keyfileCount candidate,
      tup_kdfProfile = cand_kdfProfile candidate,
      tup_argonSalt = cand_argonSalt candidate,
      tup_volumeID = core_volumeID (cand_core candidate)\<rparr>"

fun tuple_agrees :: "credentialTuple \<Rightarrow> byte list \<Rightarrow> Candidate list \<Rightarrow> bool" where
  "tuple_agrees tuple seenRoles [] \<longleftrightarrow> True"
| "tuple_agrees tuple seenRoles (candidate # rest) \<longleftrightarrow>
     \<not> (\<not> validAuthCandidate candidate \<or> cand_role candidate \<in> set seenRoles \<or>
        credentialTupleForCandidate candidate \<noteq> tuple) \<and>
     tuple_agrees tuple (cand_role candidate # seenRoles) rest"

definition credentialTupleForStructure :: "Structure \<Rightarrow> credentialTuple option" where
  "credentialTupleForStructure structure =
     (case map fst (str_candidates structure) of
        [] \<Rightarrow> None
      | first # rest \<Rightarrow>
          if length (str_candidates structure) > 2 \<or> \<not> validAuthCandidate first then None
          else
            let tuple = credentialTupleForCandidate first in
            if tuple_agrees tuple [cand_role first] rest then Some tuple else None)"

section \<open>Authenticating one capsule\<close>

record authenticatedCandidate =
  ac_candidate :: Candidate
  ac_geometry :: Geometry
  ac_volumeKey :: "byte list"

text \<open>The \<open>switch\<close> on the suite around the two stream transforms, used for the wrapped volume
  key here and for record bodies in \<open>records.go\<close> and \<open>normal_writer.go\<close>.\<close>

definition suite_unwrap ::
  "prims \<Rightarrow> u16 \<Rightarrow> byte list \<Rightarrow> byte list \<Rightarrow> byte list \<Rightarrow> byte list \<Rightarrow> byte list \<Rightarrow> byte list \<Rightarrow>
   stream_error + byte list" where
  "suite_unwrap P suite dst src xkey nonce skey siv =
     (if suite = SuiteStandard then PCV3UnwrapStandard1 P dst src xkey nonce
      else if suite = SuiteParanoid then PCV3UnwrapParanoid1 P dst src xkey nonce skey siv
      else Inl ErrPCV3StreamShape)"

definition suite_wrap ::
  "prims \<Rightarrow> u16 \<Rightarrow> byte list \<Rightarrow> byte list \<Rightarrow> byte list \<Rightarrow> byte list \<Rightarrow> byte list \<Rightarrow> byte list \<Rightarrow>
   stream_error + byte list" where
  "suite_wrap P suite dst src xkey nonce skey siv =
     (if suite = SuiteStandard then PCV3WrapStandard1 P dst src xkey nonce
      else if suite = SuiteParanoid then PCV3WrapParanoid1 P dst src xkey nonce skey siv
      else Inl ErrPCV3StreamShape)"

interpretation suite_pair: stream_pair
    "\<lambda>dst src. suite_wrap P suite dst src xkey nonce skey siv"
    "\<lambda>dst src. suite_unwrap P suite dst src xkey nonce skey siv"
  for P suite xkey nonce skey siv
  by unfold_locales
    (auto simp: suite_wrap_def suite_unwrap_def dest: standard.wrap_length paranoid.wrap_length
       split: if_splits intro: standard.unwrap_wrap paranoid.unwrap_wrap standard.wrap_unwrap
       paranoid.wrap_unwrap)

text \<open>The callback of \<open>withWrapKeys\<close>: its state is \<open>wrapVerified\<close> and the volume key.\<close>

definition wrap_callback ::
  "prims \<Rightarrow> Candidate \<Rightarrow> capsuleWrapKeys \<Rightarrow> bool \<times> byte list \<Rightarrow> pcv3_error option \<times> bool \<times> byte list" where
  "wrap_callback P candidate keys s =
     (case verifySuiteMAC P (core_suite (cand_core candidate)) (wrap_mac keys)
             (wrapAuthMessage candidate) (cand_wrapTag candidate) of
        Inl c \<Rightarrow> (Some (Plain c), s)
      | Inr False \<Rightarrow> (None, s)
      | Inr True \<Rightarrow>
          (case suite_unwrap P (core_suite (cand_core candidate)) (snd s)
                  (cand_wrappedVolumeKey candidate) (wrap_xChaCha20 keys)
                  (cand_wrapNonce candidate) (wrap_serpent keys) (cand_wrapSerpentIV candidate) of
             Inl _ \<Rightarrow> (Some (Plain StreamShape), True, snd s)
           | Inr volumeKey \<Rightarrow> (None, True, volumeKey)))"

text \<open>The callback of \<open>withReplicaKey\<close>: its state is \<open>replicaVerified\<close>.\<close>

definition replica_callback ::
  "prims \<Rightarrow> Candidate \<Rightarrow> byte list \<Rightarrow> bool \<Rightarrow> pcv3_error option \<times> bool" where
  "replica_callback P candidate key s =
     (case verifySuiteMAC P (core_suite (cand_core candidate)) key
             (replicaAuthMessage candidate) (cand_replicaTag candidate) of
        Inl c \<Rightarrow> (Some (Plain c), False)
      | Inr valid \<Rightarrow> (None, valid))"

text \<open>An error, or the stage at which the candidate fails, or the authenticated candidate.\<close>

definition authenticateCandidate ::
  "prims \<Rightarrow> Candidate \<Rightarrow> Geometry \<Rightarrow> credential_access \<Rightarrow> Stage + (Stage + authenticatedCandidate)" where
  "authenticateCandidate P candidate geometry access =
     (case borrow (acc_withWrapKeys access (cand_role candidate)) (wrap_callback P candidate)
             (False, replicate 32 0) of
        (Some e, wrapVerified, _) \<Rightarrow>
          (case e of
             CapsuleAuthError stage \<Rightarrow> Inl stage
           | _ \<Rightarrow> if \<not> wrapVerified then Inl StageCredentialPolicy else Inl StageUnwrap)
      | (None, wrapVerified, volumeKey) \<Rightarrow>
          if \<not> wrapVerified then Inr (Inl StageWrapAuth)
          else
            (case borrow (acc_withReplicaKey access (cand_role candidate) volumeKey)
                    (replica_callback P candidate) False of
               (Some e, _) \<Rightarrow>
                 (case e of
                    CapsuleAuthError stage \<Rightarrow> Inl stage
                  | _ \<Rightarrow> Inl StageCredentialPolicy)
             | (None, replicaVerified) \<Rightarrow>
                 if \<not> replicaVerified then Inr (Inl StageReplicaAuth)
                 else Inr (Inr \<lparr>ac_candidate = candidate, ac_geometry = geometry,
                                ac_volumeKey = volumeKey\<rparr>)))"

section \<open>Authenticating the capsules of a structure\<close>

definition sameAuthenticatedReplica :: "authenticatedCandidate \<Rightarrow> authenticatedCandidate \<Rightarrow> bool" where
  "sameAuthenticatedReplica left right \<longleftrightarrow>
     (if cand_core (ac_candidate left) \<noteq> cand_core (ac_candidate right) \<or>
         cand_credentialMode (ac_candidate left) \<noteq> cand_credentialMode (ac_candidate right) \<or>
         cand_keyfileMode (ac_candidate left) \<noteq> cand_keyfileMode (ac_candidate right) \<or>
         cand_kdfProfile (ac_candidate left) \<noteq> cand_kdfProfile (ac_candidate right) \<or>
         cand_keyfileCount (ac_candidate left) \<noteq> cand_keyfileCount (ac_candidate right) \<or>
         cand_argonSalt (ac_candidate left) \<noteq> cand_argonSalt (ac_candidate right)
      then False
      else ac_volumeKey left = ac_volumeKey right)"

definition authenticatedCoreMatchesPreamble :: "logicalCore \<Rightarrow> Preamble \<Rightarrow> bool" where
  "authenticatedCoreMatchesPreamble core preamble \<longleftrightarrow>
     core_suite core = pre_suite preamble \<and>
     core_featureFlags core = pre_featureFlags preamble \<and>
     core_frontHeaderLength core = pre_frontHeaderLength preamble"

definition failedReplicaStage :: "Structure \<Rightarrow> Stage list \<Rightarrow> Stage" where
  "failedReplicaStage structure failed =
     (let stage = foldl earlierAuthStage StageNone failed;
          stage =
            (case str_candidates structure of
               [(candidate, _)] \<Rightarrow>
                 let component = (if cand_role candidate = CapsuleRoleBackup then ComponentPrimary
                                  else ComponentBackup)
                 in case structure_Issue structure component of
                      Some issue \<Rightarrow> earlierAuthStage stage issue
                    | None \<Rightarrow> earlierAuthStage stage StageCapsuleStructure
             | _ \<Rightarrow> stage)
      in if stage = StageNone then StageCapsuleStructure else stage)"

text \<open>The loop over the candidates: the authenticated ones in order, and for every candidate
  the stage at which it failed. An error ends it.\<close>

fun authenticate_loop ::
  "prims \<Rightarrow> credential_access \<Rightarrow> (Candidate \<times> Geometry) list \<Rightarrow>
   Stage + (authenticatedCandidate list \<times> Stage list)" where
  "authenticate_loop P access [] = Inr ([], [])"
| "authenticate_loop P access ((candidate, geometry) # rest) =
     ebind (authenticateCandidate P candidate geometry access) (\<lambda>r.
     ebind (authenticate_loop P access rest) (\<lambda>(authenticated, failed).
       case r of
         Inl stage \<Rightarrow> Inr (authenticated, stage # failed)
       | Inr verified \<Rightarrow> Inr (verified # authenticated, StageNone # failed)))"

text \<open>The callback of \<open>withCredential\<close>: the result it stores, with the volume key it had
  adopted.\<close>

definition credential_callback ::
  "prims \<Rightarrow> Structure \<Rightarrow> credential_access \<Rightarrow> Stage + (normalAuthResult \<times> byte list option)" where
  "credential_callback P structure access =
     ebind (authenticate_loop P access (str_candidates structure)) (\<lambda>(authenticated, failed).
       case authenticated of
         [] \<Rightarrow> Inr (newNormalAuthResult OutcomeCredentialsOrDamage StageWrapAuth 0, None)
       | chosen # others \<Rightarrow>
           if others \<noteq> [] \<and> \<not> sameAuthenticatedReplica chosen (hd others)
           then Inr (newNormalAuthResult OutcomeAmbiguousVolume StageCapsuleStructure 2, None)
           else
             (case acc_adoptVolumeKey access (ac_volumeKey chosen) of
                Some _ \<Rightarrow> Inl StageUnwrap
              | None \<Rightarrow>
                  let (outcome, stage) =
                        (if others = []
                         then (OutcomeAuthenticatedDegraded, failedReplicaStage structure failed)
                         else (OutcomeSuccess, StageNone));
                      (outcome, stage) =
                        (if \<not> authenticatedCoreMatchesPreamble (cand_core (ac_candidate chosen))
                                (str_preamble structure)
                         then (OutcomeAuthenticatedDegraded, earlierAuthStage stage StagePreamble)
                         else (outcome, stage))
                  in Inr ((newNormalAuthResult outcome stage (Suc (length others)))
                            \<lparr>auth_candidate := ac_candidate chosen,
                             auth_geometry := ac_geometry chosen\<rparr>,
                          Some (ac_volumeKey chosen))))"

definition open_outcome :: "Outcome \<Rightarrow> bool" where
  "open_outcome outcome \<longleftrightarrow> outcome = OutcomeSuccess \<or> outcome = OutcomeAuthenticatedDegraded"

text \<open>
  \<open>authenticateCapsulesWithProviderMode\<close>; \<open>retainBorrower\<close> is true for the normal reader.
  A provider that returns without having called back counts as \<open>callbackCalls != 1\<close>.
\<close>

definition authenticateCapsulesWithProviderMode ::
  "prims \<Rightarrow> Structure \<Rightarrow> credential_provider \<Rightarrow> bool \<Rightarrow> world \<Rightarrow> normalAuthResult \<times> world" where
  "authenticateCapsulesWithProviderMode P structure provider retainBorrower w =
     (case credentialTupleForStructure structure of
        None \<Rightarrow> (newNormalAuthResult OutcomeInvalidStructurePreKDF StageCapsuleStructure 0, w)
      | Some tuple \<Rightarrow>
        (case ctx_Err w of
           (Some _, w) \<Rightarrow> (newNormalAuthResult OutcomeOperationFailed StageCancellation 0, w)
         | (None, w) \<Rightarrow>
           (case borrow (prov_withCredential provider tuple)
                   (\<lambda>access _. case credential_callback P structure access of
                      Inl stage \<Rightarrow> (Some (CapsuleAuthError stage), None)
                    | Inr stored \<Rightarrow> (None, Some stored)) None of
              (err, None) \<Rightarrow>
                (newNormalAuthResult OutcomeOperationFailed
                   (case err of Some (CapsuleAuthError stage) \<Rightarrow> stage | _ \<Rightarrow> StageKDFRuntime) 0, w)
            | (Some e, Some _) \<Rightarrow>
                (newNormalAuthResult OutcomeOperationFailed
                   (case e of CapsuleAuthError stage \<Rightarrow> stage | _ \<Rightarrow> StageKDFRuntime) 0, w)
            | (None, Some (result, adopted)) \<Rightarrow>
                let owner = Option.bind (prov_takeOwner provider) (\<lambda>take. take adopted) in
                if prov_takeOwner provider \<noteq> None \<and>
                   open_outcome (auth_outcome result) \<noteq> (owner \<noteq> None)
                then (newNormalAuthResult OutcomeOperationFailed StageUnwrap 0, w)
                else
                  (result\<lparr>auth_owner := owner,
                     auth_keyBorrower :=
                       (if retainBorrower \<and> open_outcome (auth_outcome result)
                        then map_option (\<lambda>lend. lend adopted) (prov_borrower provider)
                        else None)\<rparr>, w))))"

definition authenticateCapsulesBorrowingProvider ::
  "prims \<Rightarrow> Structure \<Rightarrow> credential_provider \<Rightarrow> world \<Rightarrow> normalAuthResult \<times> world" where
  "authenticateCapsulesBorrowingProvider P structure provider =
     authenticateCapsulesWithProviderMode P structure provider True"

section \<open>What authentication means\<close>

text \<open>
  The specification of an authenticated capsule: under the keys the access lends for its role,
  the tag over the whole wrapped capsule verifies, the wrapped key opens to \<open>volumeKey\<close>, and
  the replica tag verifies under the key lent for that volume key.
\<close>

definition authentic :: "prims \<Rightarrow> credential_access \<Rightarrow> Candidate \<Rightarrow> byte list \<Rightarrow> bool" where
  "authentic P access candidate volumeKey \<longleftrightarrow>
     (\<exists>wrap replica.
        acc_withWrapKeys access (cand_role candidate) = (Some wrap, None) \<and>
        suiteMACTag P (core_suite (cand_core candidate)) (wrap_mac wrap)
          [wrapAuthMessage candidate] = Inr (cand_wrapTag candidate) \<and>
        suite_unwrap P (core_suite (cand_core candidate)) (replicate 32 0)
          (cand_wrappedVolumeKey candidate) (wrap_xChaCha20 wrap) (cand_wrapNonce candidate)
          (wrap_serpent wrap) (cand_wrapSerpentIV candidate) = Inr volumeKey \<and>
        acc_withReplicaKey access (cand_role candidate) volumeKey = (Some replica, None) \<and>
        suiteMACTag P (core_suite (cand_core candidate)) replica
          [replicaAuthMessage candidate] = Inr (cand_replicaTag candidate))"

lemma verifySuiteMAC_True_iff:
  "verifySuiteMAC P suite key message tag = Inr True \<longleftrightarrow> suiteMACTag P suite key [message] = Inr tag"
  using verifySuiteMAC_of_tag verifySuiteMAC_sound by blast

lemma wrap_callback_ok:
  assumes "borrow (acc_withWrapKeys access role) (wrap_callback P c) (False, k0) = (None, True, vk)"
  shows "\<exists>wrap. acc_withWrapKeys access role = (Some wrap, None) \<and>
    suiteMACTag P (core_suite (cand_core c)) (wrap_mac wrap) [wrapAuthMessage c] = Inr (cand_wrapTag c) \<and>
    suite_unwrap P (core_suite (cand_core c)) k0 (cand_wrappedVolumeKey c) (wrap_xChaCha20 wrap)
      (cand_wrapNonce c) (wrap_serpent wrap) (cand_wrapSerpentIV c) = Inr vk"
  using borrow_ok [OF assms]
  by (cases "acc_withWrapKeys access role")
    (auto simp: wrap_callback_def verifySuiteMAC_True_iff split: option.splits sum.splits bool.splits)

lemma replica_callback_ok:
  assumes "borrow (acc_withReplicaKey access role vk) (replica_callback P c) False = (None, True)"
  shows "\<exists>replica. acc_withReplicaKey access role vk = (Some replica, None) \<and>
    suiteMACTag P (core_suite (cand_core c)) replica [replicaAuthMessage c] = Inr (cand_replicaTag c)"
  using borrow_ok [OF assms]
  by (cases "acc_withReplicaKey access role vk")
    (auto simp: replica_callback_def verifySuiteMAC_True_iff split: option.splits sum.splits)

lemma authenticateCandidate_iff:
  "authenticateCandidate P c g access = Inr (Inr v) \<longleftrightarrow>
     v = \<lparr>ac_candidate = c, ac_geometry = g, ac_volumeKey = ac_volumeKey v\<rparr> \<and>
     authentic P access c (ac_volumeKey v)"
proof
  assume a: "authenticateCandidate P c g access = Inr (Inr v)"
  then obtain vk where
    w: "borrow (acc_withWrapKeys access (cand_role c)) (wrap_callback P c) (False, replicate 32 0) =
          (None, True, vk)"
    and r: "borrow (acc_withReplicaKey access (cand_role c) vk) (replica_callback P c) False = (None, True)"
    and v: "v = \<lparr>ac_candidate = c, ac_geometry = g, ac_volumeKey = vk\<rparr>"
    unfolding authenticateCandidate_def
    by (auto split: prod.splits option.splits pcv3_error.splits if_splits)
  from wrap_callback_ok [OF w] replica_callback_ok [OF r] v
  show "v = \<lparr>ac_candidate = c, ac_geometry = g, ac_volumeKey = ac_volumeKey v\<rparr> \<and>
     authentic P access c (ac_volumeKey v)"
    unfolding authentic_def by auto
next
  assume a: "v = \<lparr>ac_candidate = c, ac_geometry = g, ac_volumeKey = ac_volumeKey v\<rparr> \<and>
     authentic P access c (ac_volumeKey v)"
  then show "authenticateCandidate P c g access = Inr (Inr v)"
    unfolding authentic_def verifySuiteMAC_True_iff [symmetric]
    by (auto simp: authenticateCandidate_def borrow_def wrap_callback_def replica_callback_def)
qed

text \<open>A candidate that fails without an error fails at one of the two tags.\<close>

lemma authenticateCandidate_failed:
  assumes "authenticateCandidate P c g access = Inr (Inl stage)"
  shows "stage = StageWrapAuth \<or> stage = StageReplicaAuth"
  using assms by (auto simp: authenticateCandidate_def split: prod.splits option.splits pcv3_error.splits if_splits)

lemma authenticate_loop_spec:
  assumes "authenticate_loop P access cs = Inr (authenticated, failed)"
  shows "length failed = length cs \<and>
    set failed \<subseteq> {StageNone, StageWrapAuth, StageReplicaAuth} \<and>
    length authenticated \<le> length cs \<and>
    (\<forall>v \<in> set authenticated. (ac_candidate v, ac_geometry v) \<in> set cs \<and>
       authentic P access (ac_candidate v) (ac_volumeKey v))"
  using assms
proof (induction cs arbitrary: authenticated failed)
  case Nil
  then show ?case by simp
next
  case (Cons cg cs)
  obtain c g where cg: "cg = (c, g)" by force
  then obtain r a f where r: "authenticateCandidate P c g access = Inr r"
    and rest: "authenticate_loop P access cs = Inr (a, f)"
    and out: "(case r of Inl stage \<Rightarrow> (a, stage # f) | Inr v \<Rightarrow> (v # a, StageNone # f)) =
        (authenticated, failed)"
  proof -
    obtain r p where "authenticateCandidate P c g access = Inr r" "authenticate_loop P access cs = Inr p"
      and "(case p of (a, f) \<Rightarrow> case r of Inl stage \<Rightarrow> Inr (a, stage # f)
             | Inr v \<Rightarrow> Inr (v # a, StageNone # f)) = (Inr (authenticated, failed) :: Stage + _)"
      using Cons.prems [unfolded cg authenticate_loop.simps ebind_eq_Inr] by blast
    then show thesis by (intro that [of r "fst p" "snd p"]) (auto split: sum.splits prod.splits)
  qed
  show ?case
  proof (cases r)
    case (Inl stage)
    then show ?thesis
      using Cons.IH [OF rest] authenticateCandidate_failed [of P c g access stage] r out cg by auto
  next
    case (Inr v)
    then have "v = \<lparr>ac_candidate = c, ac_geometry = g, ac_volumeKey = ac_volumeKey v\<rparr>"
      and "authentic P access c (ac_volumeKey v)"
      using r by (simp_all add: authenticateCandidate_iff)
    then have "ac_candidate v = c" "ac_geometry v = g" "authentic P access c (ac_volumeKey v)"
      by (metis authenticatedCandidate.select_convs)+
    then show ?thesis using Cons.IH [OF rest] Inr out cg by auto
  qed
qed

text \<open>The head of the authenticated candidates is the first one that is authentic at all.\<close>

definition first_authentic ::
  "prims \<Rightarrow> credential_access \<Rightarrow> (Candidate \<times> Geometry) list \<Rightarrow> Candidate \<Rightarrow> Geometry \<Rightarrow> bool" where
  "first_authentic P access cs candidate geometry \<longleftrightarrow>
     (\<exists>before after. cs = before @ (candidate, geometry) # after \<and>
        (\<forall>(c, g) \<in> set before. \<forall>volumeKey. \<not> authentic P access c volumeKey))"

lemma first_authentic_head: "first_authentic P access ((c, g) # cs) c g"
  unfolding first_authentic_def by (rule exI [of _ "[]"]) simp

lemma first_authentic_skip:
  assumes "\<And>volumeKey. \<not> authentic P access c volumeKey" and "first_authentic P access cs c' g'"
  shows "first_authentic P access ((c, g) # cs) c' g'"
proof -
  from assms(2) obtain before after where "cs = before @ (c', g') # after"
    "\<forall>(c, g) \<in> set before. \<forall>volumeKey. \<not> authentic P access c volumeKey"
    unfolding first_authentic_def by blast
  then show ?thesis
    unfolding first_authentic_def using assms(1) by (intro exI [of _ "(c, g) # before"] exI [of _ after]) auto
qed

lemma first_authentic_member: "first_authentic P access cs c g \<Longrightarrow> (c, g) \<in> set cs"
  by (auto simp: first_authentic_def)

lemma authenticate_loop_first:
  "authenticate_loop P access cs = Inr (v # others, failed) \<Longrightarrow>
   first_authentic P access cs (ac_candidate v) (ac_geometry v)"
proof (induction cs arbitrary: failed)
  case (Cons cg cs)
  obtain c g where cg: "cg = (c, g)" by force
  obtain r a f where r: "authenticateCandidate P c g access = Inr r"
    and rest: "authenticate_loop P access cs = Inr (a, f)"
    and out: "(case r of Inl stage \<Rightarrow> a | Inr v \<Rightarrow> v # a) = v # others"
  proof -
    obtain r p where "authenticateCandidate P c g access = Inr r" "authenticate_loop P access cs = Inr p"
      and "(case p of (a, f) \<Rightarrow> case r of Inl stage \<Rightarrow> Inr (a, stage # f)
             | Inr v \<Rightarrow> Inr (v # a, StageNone # f)) = (Inr (v # others, failed) :: Stage + _)"
      using Cons.prems [unfolded cg authenticate_loop.simps ebind_eq_Inr] by blast
    then show thesis by (intro that [of r "fst p" "snd p"]) (auto split: sum.splits prod.splits)
  qed
  show ?case
  proof (cases r)
    case (Inl stage)
    then have "\<not> authentic P access c volumeKey" for volumeKey
      using r authenticateCandidate_iff
        [of P c g access "\<lparr>ac_candidate = c, ac_geometry = g, ac_volumeKey = volumeKey\<rparr>"] by auto
    then show ?thesis using Cons.IH [of f] rest out Inl unfolding cg by (auto intro: first_authentic_skip)
  next
    case (Inr u)
    then have "v = \<lparr>ac_candidate = c, ac_geometry = g, ac_volumeKey = ac_volumeKey v\<rparr>"
      using r out authenticateCandidate_iff [of P c g access v] by auto
    then have "ac_candidate v = c" "ac_geometry v = g" by (metis authenticatedCandidate.select_convs)+
    then show ?thesis unfolding cg by (simp add: first_authentic_head)
  qed
qed simp

lemma open_outcome_simps [simp]:
  "open_outcome OutcomeSuccess" "open_outcome OutcomeAuthenticatedDegraded"
  "\<not> open_outcome OutcomeOperationFailed" "\<not> open_outcome OutcomeCredentialsOrDamage"
  "\<not> open_outcome OutcomeAmbiguousVolume" "\<not> open_outcome OutcomeInvalidStructurePreKDF"
  by (simp_all add: open_outcome_def)

lemma newNormalAuthResult_sel [simp]:
  "auth_outcome (newNormalAuthResult out stage n) = out"
  "auth_stage (newNormalAuthResult out stage n) = stage"
  "auth_authenticated (newNormalAuthResult out stage n) = n"
  "auth_owner (newNormalAuthResult out stage n) = None"
  "auth_keyBorrower (newNormalAuthResult out stage n) = None"
  by (simp_all add: newNormalAuthResult_def)

text \<open>What an open result rests on: the first authentic candidate of the structure, whose volume key
  was adopted; and for an undegraded one, both capsules authentic, with one core, which the
  preamble repeats.\<close>

definition opens_with :: "prims \<Rightarrow> Structure \<Rightarrow> credential_access \<Rightarrow> normalAuthResult \<Rightarrow> byte list \<Rightarrow> bool" where
  "opens_with P structure access r vk \<longleftrightarrow>
     first_authentic P access (str_candidates structure) (auth_candidate r) (auth_geometry r) \<and>
     authentic P access (auth_candidate r) vk \<and>
     acc_adoptVolumeKey access vk = None"

definition both_open ::
  "prims \<Rightarrow> Structure \<Rightarrow> credential_access \<Rightarrow> normalAuthResult \<Rightarrow> byte list \<Rightarrow> bool" where
  "both_open P structure access r vk \<longleftrightarrow>
     auth_stage r = StageNone \<and> auth_authenticated r = 2 \<and> length (str_candidates structure) = 2 \<and>
     authenticatedCoreMatchesPreamble (cand_core (auth_candidate r)) (str_preamble structure) \<and>
     (\<forall>(c, g) \<in> set (str_candidates structure).
        authentic P access c vk \<and> cand_core c = cand_core (auth_candidate r))"

lemma loop_all_authenticated:
  assumes "authenticate_loop P access cs = Inr (authenticated, failed)"
    and "length authenticated = length cs"
  shows "map (\<lambda>v. (ac_candidate v, ac_geometry v)) authenticated = cs"
  using assms
proof (induction cs arbitrary: authenticated failed)
  case (Cons cg cs)
  obtain c g where cg: "cg = (c, g)" by force
  obtain r p where r: "authenticateCandidate P c g access = Inr r"
    and p: "authenticate_loop P access cs = Inr p"
    and out: "(case p of (a, f) \<Rightarrow> case r of Inl stage \<Rightarrow> Inr (a, stage # f)
           | Inr v \<Rightarrow> Inr (v # a, StageNone # f)) = (Inr (authenticated, failed) :: Stage + _)"
    using Cons.prems(1) [unfolded cg authenticate_loop.simps ebind_eq_Inr] by blast
  obtain a f where af: "p = (a, f)" by force
  have "length a \<le> length cs" using authenticate_loop_spec [of P access cs a f] p af by simp
  then obtain v where v: "r = Inr v" "authenticated = v # a" "length a = length cs"
    using out af Cons.prems(2) by (cases r) auto
  then have "v = \<lparr>ac_candidate = c, ac_geometry = g, ac_volumeKey = ac_volumeKey v\<rparr>"
    using r by (simp add: authenticateCandidate_iff)
  then have "ac_candidate v = c" "ac_geometry v = g" by (metis authenticatedCandidate.select_convs)+
  then show ?case using Cons.IH [of a f] p af v cg by simp
qed simp

lemma credential_callback_Inr:
  assumes "credential_callback P structure access = Inr (r, adopted)"
    and "length (str_candidates structure) \<le> 2"
  shows "auth_owner r = None \<and> auth_keyBorrower r = None \<and>
    (if open_outcome (auth_outcome r)
     then \<exists>vk. adopted = Some vk \<and> opens_with P structure access r vk \<and>
            (auth_outcome r = OutcomeSuccess \<longrightarrow> both_open P structure access r vk)
     else adopted = None)"
proof -
  obtain authenticated failed where
    loop: "authenticate_loop P access (str_candidates structure) = Inr (authenticated, failed)"
    using assms(1) unfolding credential_callback_def by (auto simp: ebind_eq_Inr)
  note spec = authenticate_loop_spec [OF loop]
  show ?thesis
  proof (cases authenticated)
    case Nil
    then show ?thesis using assms(1) by (auto simp: credential_callback_def loop)
  next
    case (Cons v others)
    show ?thesis
    proof (cases "others \<noteq> [] \<and> \<not> sameAuthenticatedReplica v (hd others)")
      case True
      then show ?thesis using assms(1) Cons by (auto simp: credential_callback_def loop)
    next
      case False
      then have r: "adopted = Some (ac_volumeKey v)" "acc_adoptVolumeKey access (ac_volumeKey v) = None"
        "auth_candidate r = ac_candidate v" "auth_geometry r = ac_geometry v"
        "auth_owner r = None" "auth_keyBorrower r = None" "open_outcome (auth_outcome r)"
        and succ: "auth_outcome r = OutcomeSuccess \<Longrightarrow>
          others \<noteq> [] \<and> auth_stage r = StageNone \<and> auth_authenticated r = Suc (length others) \<and>
          authenticatedCoreMatchesPreamble (cand_core (ac_candidate v)) (str_preamble structure)"
        using assms(1) Cons by (auto simp: credential_callback_def loop Let_def split: option.splits if_splits)
      have "opens_with P structure access r (ac_volumeKey v)"
        using spec authenticate_loop_first [of P access _ v others] loop Cons r
        by (auto simp: opens_with_def)
      moreover have "both_open P structure access r (ac_volumeKey v)" if s: "auth_outcome r = OutcomeSuccess"
      proof -
        obtain u where u: "others = [u]" "length (str_candidates structure) = 2"
          using succ [OF s] spec Cons assms(2) by (cases others; cases "tl others") auto
        then have "sameAuthenticatedReplica v u" using False by simp
        then have "cand_core (ac_candidate u) = cand_core (ac_candidate v)" "ac_volumeKey u = ac_volumeKey v"
          by (auto simp: sameAuthenticatedReplica_def split: if_splits)
        moreover have "str_candidates structure = [(ac_candidate v, ac_geometry v), (ac_candidate u, ac_geometry u)]"
          using loop_all_authenticated [OF loop] Cons u by simp
        ultimately show ?thesis
          using spec Cons u succ [OF s] r by (auto simp: both_open_def)
      qed
      ultimately show ?thesis using r by simp
    qed
  qed
qed

section \<open>The honest case\<close>

text \<open>All capsules authentic for one volume key and alike, and the preamble agreeing: success.\<close>

lemma authenticateCandidate_authentic:
  "authentic P access c vk \<Longrightarrow>
   authenticateCandidate P c g access = Inr (Inr \<lparr>ac_candidate = c, ac_geometry = g, ac_volumeKey = vk\<rparr>)"
  by (subst authenticateCandidate_iff) simp

text \<open>A provider that calls back, with the owner and the borrower it has once \<open>volumeKey\<close> was adopted;
  one that owns its credential then has an owner.\<close>

definition honest_provider ::
  "credential_provider \<Rightarrow> credentialTuple \<Rightarrow> credential_access \<Rightarrow> byte list \<Rightarrow>
   key_lender option \<Rightarrow> key_lender option \<Rightarrow> bool" where
  "honest_provider provider tuple access volumeKey owner borrower \<longleftrightarrow>
     prov_withCredential provider tuple = (Some access, None) \<and>
     owner = Option.bind (prov_takeOwner provider) (\<lambda>take. take (Some volumeKey)) \<and>
     (prov_takeOwner provider \<noteq> None \<longrightarrow> owner \<noteq> None) \<and>
     borrower = map_option (\<lambda>lend. lend (Some volumeKey)) (prov_borrower provider)"

lemma authenticate_both:
  assumes "str_candidates structure = [(p, gp), (b, gb)]"
    and "validAuthCandidate p" "validAuthCandidate b" "cand_role p \<noteq> cand_role b"
    and same: "credentialTupleForCandidate b = credentialTupleForCandidate p" "cand_core b = cand_core p"
    and "authentic P access p vk" "authentic P access b vk" "acc_adoptVolumeKey access vk = None"
    and "authenticatedCoreMatchesPreamble (cand_core p) (str_preamble structure)"
    and "honest_provider provider (credentialTupleForCandidate p) access vk owner borrower"
    and "never_cancelled (w_env w)"
  shows "authenticateCapsulesBorrowingProvider P structure provider w =
    ((newNormalAuthResult OutcomeSuccess StageNone 2)
       \<lparr>auth_candidate := p, auth_geometry := gp, auth_owner := owner, auth_keyBorrower := borrower\<rparr>, tick w)"
proof -
  have tuple: "credentialTupleForStructure structure = Some (credentialTupleForCandidate p)"
    using assms by (auto simp: credentialTupleForStructure_def Let_def)
  have fields: "cand_credentialMode b = cand_credentialMode p" "cand_keyfileMode b = cand_keyfileMode p"
    "cand_keyfileCount b = cand_keyfileCount p" "cand_kdfProfile b = cand_kdfProfile p"
    "cand_argonSalt b = cand_argonSalt p"
    using same(1) by (simp_all add: credentialTupleForCandidate_def)
  have cb: "credential_callback P structure access =
      Inr ((newNormalAuthResult OutcomeSuccess StageNone 2)
         \<lparr>auth_candidate := p, auth_geometry := gp\<rparr>, Some vk)"
    using assms fields
    by (simp add: credential_callback_def authenticateCandidate_authentic sameAuthenticatedReplica_def
        Let_def)
  show ?thesis
    using assms(11,12)
    by (auto simp: authenticateCapsulesBorrowingProvider_def authenticateCapsulesWithProviderMode_def tuple
        ctx_Err_def never_cancelled_def honest_provider_def borrow_def cb Let_def open_outcome_def)
qed

lemma authenticate_cases:
  assumes "authenticateCapsulesWithProviderMode P structure provider retain w = (r, w')"
  obtains (closed) outcome stage where "r = newNormalAuthResult outcome stage 0"
      "\<not> open_outcome outcome" "reads_only w w'"
  | (called) tuple access r0 adopted o' b' where "credentialTupleForStructure structure = Some tuple"
      "prov_withCredential provider tuple = (Some access, None)"
      "credential_callback P structure access = Inr (r0, adopted)"
      "r = r0\<lparr>auth_owner := o', auth_keyBorrower := b'\<rparr>"
      "open_outcome (auth_outcome r0) \<or> o' = None \<and> b' = None" "reads_only w w'"
      "o' = Option.bind (prov_takeOwner provider) (\<lambda>take. take adopted)"
      "b' = (if retain \<and> open_outcome (auth_outcome r0)
             then map_option (\<lambda>lend. lend adopted) (prov_borrower provider) else None)"
      "prov_takeOwner provider = None \<or> open_outcome (auth_outcome r0) = (o' \<noteq> None)"
proof (cases "credentialTupleForStructure structure")
  case None
  then show thesis using assms closed by (auto simp: authenticateCapsulesWithProviderMode_def)
next
  case (Some tuple)
  note T = Some
  obtain access err where lend: "prov_withCredential provider tuple = (access, err)" by force
  show thesis
  proof (cases "env_ctx (w_env w) (w_tick w)")
    case (Some c)
    then show thesis using assms T closed by (auto simp: authenticateCapsulesWithProviderMode_def ctx_Err_def)
  next
    case None
    note N = None
    show thesis
    proof (cases access)
      case None
      then show thesis using assms T N lend closed
        by (cases err) (auto simp: authenticateCapsulesWithProviderMode_def ctx_Err_def borrow_def)
    next
      case (Some acc)
      show thesis
      proof (cases "credential_callback P structure acc")
        case (Inl stage)
        then show thesis using assms T N lend Some closed
          by (auto simp: authenticateCapsulesWithProviderMode_def ctx_Err_def borrow_def)
      next
        case (Inr stored)
        obtain r0 adopted where st: "stored = (r0, adopted)" by force
        show thesis
        proof (cases err)
          case (Some e)
          then show thesis using assms T N lend \<open>access = Some acc\<close> Inr st closed
            by (auto simp: authenticateCapsulesWithProviderMode_def ctx_Err_def borrow_def)
        next
          case None
          let ?o = "Option.bind (prov_takeOwner provider) (\<lambda>take. take adopted)"
          let ?b = "if retain \<and> open_outcome (auth_outcome r0)
            then map_option (\<lambda>lend. lend adopted) (prov_borrower provider) else None"
          have run: "authenticateCapsulesWithProviderMode P structure provider retain w =
              (if prov_takeOwner provider \<noteq> None \<and> open_outcome (auth_outcome r0) \<noteq> (?o \<noteq> None)
               then (newNormalAuthResult OutcomeOperationFailed StageUnwrap 0, tick w)
               else (r0\<lparr>auth_owner := ?o, auth_keyBorrower := ?b\<rparr>, tick w))"
            using T N lend \<open>access = Some acc\<close> Inr st None
            by (simp add: authenticateCapsulesWithProviderMode_def ctx_Err_def borrow_def Let_def)
          show thesis
          proof (cases "prov_takeOwner provider \<noteq> None \<and> open_outcome (auth_outcome r0) \<noteq> (?o \<noteq> None)")
            case True
            then show thesis
              using assms [unfolded run if_P [OF True]] by (intro closed) (auto simp only: prod.inject
                  open_outcome_simps reads_only_tick)
          next
            case False
            have out: "r = r0\<lparr>auth_owner := ?o, auth_keyBorrower := ?b\<rparr>" "w' = tick w"
              using assms [unfolded run if_not_P [OF False]] by (simp_all only: prod.inject)
            have closed_both: "open_outcome (auth_outcome r0) \<or> ?o = None \<and> ?b = None"
              using False by (cases "prov_takeOwner provider") auto
            show thesis
            proof (rule called [OF T _ _ out(1) closed_both])
              show "prov_withCredential provider tuple = (Some acc, None)"
                using lend \<open>access = Some acc\<close> None by simp
              show "credential_callback P structure acc = Inr (r0, adopted)" using Inr st by simp
              show "reads_only w w'" using out(2) by simp
              show "prov_takeOwner provider = None \<or> open_outcome (auth_outcome r0) = (?o \<noteq> None)"
                using False by blast
            qed (rule refl)+
          qed
        qed
      qed
    qed
  qed
qed

section \<open>Properties\<close>

text \<open>What an open result hands over: the owner of a provider that owns the credential, and the
  borrower of one that lends keys itself when it is to be retained, both for the adopted key.\<close>

definition hands_over :: "credential_provider \<Rightarrow> bool \<Rightarrow> normalAuthResult \<Rightarrow> byte list \<Rightarrow> bool" where
  "hands_over provider retain r volumeKey \<longleftrightarrow>
     auth_owner r = Option.bind (prov_takeOwner provider) (\<lambda>take. take (Some volumeKey)) \<and>
     (prov_takeOwner provider = None \<or> auth_owner r \<noteq> None) \<and>
     auth_keyBorrower r =
       (if retain then map_option (\<lambda>lend. lend (Some volumeKey)) (prov_borrower provider) else None)"

lemma authenticate_open:
  assumes run: "authenticateCapsulesWithProviderMode P structure provider retain w = (r, w')"
  shows "if open_outcome (auth_outcome r)
     then \<exists>tuple access vk.
            credentialTupleForStructure structure = Some tuple \<and>
            prov_withCredential provider tuple = (Some access, None) \<and>
            opens_with P structure access r vk \<and> hands_over provider retain r vk \<and>
            (auth_outcome r = OutcomeAuthenticatedDegraded \<or> both_open P structure access r vk)
     else auth_owner r = None \<and> auth_keyBorrower r = None"
proof -
  from run show ?thesis
  proof (cases rule: authenticate_cases)
    case (closed outcome stage)
    with run show ?thesis by simp
  next
    case (called tuple access r0 adopted o' b')
    have two: "length (str_candidates structure) \<le> 2"
      using called(1) by (auto simp: credentialTupleForStructure_def split: list.splits if_splits)
    have sel: "opens_with P structure access r vk = opens_with P structure access r0 vk"
      "both_open P structure access r vk = both_open P structure access r0 vk"
      "auth_outcome r = auth_outcome r0" for vk
      using called(4) by (simp_all add: opens_with_def both_open_def)
    show ?thesis
    proof (cases "open_outcome (auth_outcome r0)")
      case True
      then obtain vk where vk: "adopted = Some vk" "opens_with P structure access r vk"
        "auth_outcome r = OutcomeAuthenticatedDegraded \<or> both_open P structure access r vk"
        using credential_callback_Inr [OF called(3) two] sel by (auto simp: open_outcome_def)
      then have "hands_over provider retain r vk"
        using called(4,7-9) True by (auto simp: hands_over_def)
      then show ?thesis using vk called(1,2) sel True by auto
    next
      case False
      then show ?thesis using called(4,5) run by simp
    qed
  qed
qed

text \<open>C17: an authentication releases keys only for a credential that passed. Whatever the provider
  lends, an open result (success or degraded) carries the first of the inspected capsules that
  has both tags right under the lent keys, and the volume key unwrapped from it was adopted. It
  hands over the owner of a provider that owns the credential, and the retained borrower of one
  that lends, for that key. It is a success only if both capsules are authentic with one volume
  key and one core that the preamble repeats. Every other result has neither owner nor
  borrower.\<close>

theorem open_result_is_authentic:
  "case authenticateCapsulesWithProviderMode P structure provider retain w of (r, w') \<Rightarrow>
     if open_outcome (auth_outcome r)
     then \<exists>tuple access vk.
            credentialTupleForStructure structure = Some tuple \<and>
            prov_withCredential provider tuple = (Some access, None) \<and>
            opens_with P structure access r vk \<and> hands_over provider retain r vk \<and>
            (auth_outcome r = OutcomeAuthenticatedDegraded \<or> both_open P structure access r vk)
     else auth_owner r = None \<and> auth_keyBorrower r = None"
proof -
  obtain r w' where run: "authenticateCapsulesWithProviderMode P structure provider retain w = (r, w')"
    by force
  from authenticate_open [OF run] show ?thesis by (simp only: run prod.case)
qed

end
