(* ===== verification/Metadata.thy ===== *)
theory Metadata
  imports Capsule_Auth Coded_Region
begin

text \<open>
  The comment of a volume and its tag (\<open>pcv3/metadata.go\<close>): reading and recovering the
  metadata blocks, the canonical form, and the suite MAC that releases the comment; and the
  writer's side, \<open>encodeNormalWriteMetadata\<close> of \<open>pcv3/normal_writer.go\<close>. Metadata that is
  damaged is a warning and not an error. A nil codec is not modelled.
\<close>

section \<open>UTF-8\<close>

text \<open>\<open>utf8.Valid\<close> of the standard library: the size of a sequence and the range of its second
  byte follow from the first byte.\<close>

definition utf8_lead :: "byte \<Rightarrow> (nat \<times> byte \<times> byte) option" where
  "utf8_lead b =
     (if b < 0x80 then Some (1, 0, 0)
      else if b < 0xC2 then None
      else if b < 0xE0 then Some (2, 0x80, 0xBF)
      else if b = 0xE0 then Some (3, 0xA0, 0xBF)
      else if b = 0xED then Some (3, 0x80, 0x9F)
      else if b < 0xF0 then Some (3, 0x80, 0xBF)
      else if b = 0xF0 then Some (4, 0x90, 0xBF)
      else if b < 0xF4 then Some (4, 0x80, 0xBF)
      else if b = 0xF4 then Some (4, 0x80, 0x8F)
      else None)"

fun utf8_Valid :: "byte list \<Rightarrow> bool" where
  "utf8_Valid [] = True"
| "utf8_Valid (b # bs) =
     (case utf8_lead b of
        None \<Rightarrow> False
      | Some (n, lo, hi) \<Rightarrow>
          n - 1 \<le> length bs \<and>
          (n = 1 \<or> lo \<le> hd bs \<and> hd bs \<le> hi) \<and>
          list_all (\<lambda>c. 0x80 \<le> c \<and> c \<le> 0xBF) (take (n - 2) (tl bs)) \<and>
          utf8_Valid (drop (n - 1) bs))"

section \<open>The canonical form\<close>

definition metadataMagic :: "byte list" where
  "metadataMagic = ascii ''PCVM''"

definition metadataMACDomain :: "byte list" where
  "metadataMACDomain = ascii ''Picocrypt-NG/PCV3/metadata'' @ [0]"

abbreviation (input) metadataSchema :: u16 where "metadataSchema \<equiv> 1"
abbreviation (input) metadataUTF8Encoding :: u16 where "metadataUTF8Encoding \<equiv> 1"

datatype metadataRecovery =
    MetadataRecoveryDamaged
  | MetadataRecoveryCanonical (rec_header: "byte list") (rec_comment: "byte list") (rec_tag: "byte list")

datatype metadataResult = MetadataDamaged | MetadataAuthenticatedPublic "byte list"

definition metadataTag ::
  "prims \<Rightarrow> u16 \<Rightarrow> byte list \<Rightarrow> logicalCore \<Rightarrow> byte list \<Rightarrow> byte list \<Rightarrow> cause + byte list" where
  "metadataTag P suite key core header comment =
     suiteMACTag P suite key [metadataMACDomain, coreCommitment P core, header, comment]"

definition metadataBytesAreZero :: "byte list \<Rightarrow> bool" where
  "metadataBytesAreZero data \<longleftrightarrow> list_all (\<lambda>value. value = 0) data"

definition parseCanonicalMetadata :: "byte list \<Rightarrow> u32 \<Rightarrow> metadataRecovery" where
  "parseCanonicalMetadata decoded trustedCommentLength =
     (let commentLength = unat trustedCommentLength;
          commentEnd = 16 + commentLength;
          tagEnd = commentEnd + 64
      in if tagEnd > length decoded \<or>
            slice 0 4 decoded \<noteq> metadataMagic \<or>
            get_u16 (slice 4 2 decoded) \<noteq> metadataSchema \<or>
            get_u16 (slice 6 2 decoded) \<noteq> metadataUTF8Encoding \<or>
            get_u32 (slice 8 4 decoded) \<noteq> trustedCommentLength \<or>
            decoded ! 12 \<noteq> 0 \<or> decoded ! 13 \<noteq> 0 \<or> decoded ! 14 \<noteq> 0 \<or> decoded ! 15 \<noteq> 0 \<or>
            \<not> utf8_Valid (slice 16 commentLength decoded) \<or>
            \<not> metadataBytesAreZero (drop tagEnd decoded)
         then MetadataRecoveryDamaged
         else MetadataRecoveryCanonical (slice 0 16 decoded) (slice 16 commentLength decoded)
                (slice commentEnd 64 decoded))"

section \<open>Reading\<close>

definition metadataOperationFailure :: "Stage \<Rightarrow> cause option \<Rightarrow> pcv3_error" where
  "metadataOperationFailure stage c = newError OutcomeOperationFailed stage c"

abbreviation (input) errInvalidMetadataRequest :: pcv3_error where
  "errInvalidMetadataRequest \<equiv> Plain InvalidMetadataRequest"

abbreviation (input) poll_metadata :: "(world, pcv3_error, unit) io" where
  "poll_metadata \<equiv> poll (\<lambda>c. metadataOperationFailure StageCancellation (Some c))"

definition authenticatedMetadataAuthority ::
  "normalAuthResult \<Rightarrow> (logicalCore \<times> u64 \<times> u64) option" where
  "authenticatedMetadataAuthority auth =
     (if auth_authenticated auth = 0 \<or>
         (auth_outcome auth \<noteq> OutcomeSuccess \<and> auth_outcome auth \<noteq> OutcomeAuthenticatedDegraded)
      then None
      else
        let core = cand_core (auth_candidate auth) in
        if \<not> validLogicalCore core then None
        else
          case canonicalMetadataGeometry (core_commentLength core) of
            None \<Rightarrow> None
          | Some (blocks, expectedFront) \<Rightarrow>
              if blocks < minimumMetadataBlocks \<or> blocks > maximumMetadataBlocks \<or>
                 geo_metadataBlocks (auth_geometry auth) \<noteq> blocks \<or>
                 geo_frontHeaderLength (auth_geometry auth) < 0 \<or>
                 word_of_int (geo_frontHeaderLength (auth_geometry auth)) \<noteq> expectedFront \<or>
                 ucast (core_frontHeaderLength core) \<noteq> expectedFront
              then None else Some (core, blocks, expectedFront))"

text \<open>The bytes, unless the source ends before them.\<close>

definition readMetadataExactAt :: "int \<Rightarrow> nat \<Rightarrow> (world, pcv3_error, byte list option) io" where
  "readMetadataExactAt offset n = (\<lambda>w.
     if offset < 0 then (Inl errInvalidMetadataRequest, w)
     else if offset > MaxInt64 - int n then (Inl errInvalidMetadataRequest, w)
     else
       case exact_read True offset n w of
         ((bytes, ReadDone), w) \<Rightarrow> (Inr (Some bytes), w)
       | ((_, ReadTruncated), w) \<Rightarrow> (Inr None, w)
       | ((_, ReadCancelled c), w) \<Rightarrow> (Inl (metadataOperationFailure StageCancellation (Some c)), w)
       | ((_, ReadFailed c), w) \<Rightarrow> (Inl (NewInputError c), w))"

text \<open>The decoded block, or nothing for a damaged one.\<close>

definition readMetadataBlock :: "RSCodecs \<Rightarrow> int \<Rightarrow> (world, pcv3_error, byte list option) io" where
  "readMetadataBlock codecs offset =
     io_bind (readMetadataExactAt offset 136) (\<lambda>read.
       case read of
         None \<Rightarrow> io_ret None
       | Some encoded \<Rightarrow>
           (case rs_Decode (RS128 codecs) encoded False of
              (decoded, Some _) \<Rightarrow> io_ret None
            | (decoded, None) \<Rightarrow>
                if length decoded \<noteq> 128 then io_ret None
                else io_bind poll_metadata (\<lambda>_. io_ret (Some decoded))))"

text \<open>The loop over the blocks, with the decoded bytes so far; \<open>n\<close> counts the blocks left.\<close>

fun readMetadataBlocks ::
  "RSCodecs \<Rightarrow> u64 \<Rightarrow> u64 \<Rightarrow> nat \<Rightarrow> byte list \<Rightarrow> (world, pcv3_error, byte list option) io" where
  "readMetadataBlocks codecs front block 0 decoded = io_ret (Some decoded)"
| "readMetadataBlocks codecs front block (Suc n) decoded =
     (case checkedMul64 block rs128CodewordLength of
        None \<Rightarrow> io_fail errInvalidMetadataRequest
      | Some delta \<Rightarrow>
        (case checkedAdd64 frontHeaderBase delta of
           None \<Rightarrow> io_fail errInvalidMetadataRequest
         | Some offset \<Rightarrow>
           (case checkedAdd64 offset rs128CodewordLength of
              None \<Rightarrow> io_fail errInvalidMetadataRequest
            | Some end' \<Rightarrow>
              if end' > front then io_fail errInvalidMetadataRequest
              else
                (case SafeUint64ToInt64 offset of
                   None \<Rightarrow> io_fail errInvalidMetadataRequest
                 | Some readOffset \<Rightarrow>
                     io_bind (readMetadataBlock codecs readOffset) (\<lambda>b.
                       case b of
                         None \<Rightarrow> io_ret None
                       | Some decodedBlock \<Rightarrow>
                           readMetadataBlocks codecs front (block + 1) n (decoded @ decodedBlock))))))"

definition readMetadata :: "RSCodecs \<Rightarrow> normalAuthResult \<Rightarrow> (world, pcv3_error, metadataRecovery) io" where
  "readMetadata codecs auth =
     io_bind poll_metadata (\<lambda>_.
       case authenticatedMetadataAuthority auth of
         None \<Rightarrow> io_fail errInvalidMetadataRequest
       | Some (core, blocks, front) \<Rightarrow>
           (case checkedMul64 blocks rs128DataLength of
              None \<Rightarrow> io_fail errInvalidMetadataRequest
            | Some decodedLength \<Rightarrow>
                if decodedLength > maximumMetadataBlocks * rs128DataLength
                then io_fail errInvalidMetadataRequest
                else
                  io_bind (readMetadataBlocks codecs front 0 (unat blocks) []) (\<lambda>d.
                    case d of
                      None \<Rightarrow> io_ret MetadataRecoveryDamaged
                    | Some decoded \<Rightarrow>
                        io_bind poll_metadata (\<lambda>_.
                          io_ret (parseCanonicalMetadata decoded (core_commentLength core))))))"

section \<open>Authenticating\<close>

text \<open>The error at the root of an error, which \<open>errors.Is\<close> reaches.\<close>

fun error_cause :: "pcv3_error \<Rightarrow> cause option" where
  "error_cause (Failure _ _ c) = c"
| "error_cause (RecordFailure _ c) = Some c"
| "error_cause (NormalWriteFailure _ c) = Some c"
| "error_cause (Plain c) = Some c"
| "error_cause InvalidFailureMapping = None"
| "error_cause (CapsuleAuthError _) = None"

definition classifyMetadataKeyFailure :: "pcv3_error \<Rightarrow> world \<Rightarrow> pcv3_error \<times> world" where
  "classifyMetadataKeyFailure e w =
     (case ctx_Err w of
        (Some _, w) \<Rightarrow>
          (case ctx_Err w of (c, w) \<Rightarrow> (metadataOperationFailure StageCancellation c, w))
      | (None, w) \<Rightarrow>
          (case error_cause e of
             Some c \<Rightarrow>
               if isCancel c \<or> c = OwnerCancelled
               then (metadataOperationFailure StageCancellation (Some c), w)
               else (errInvalidMetadataRequest, w)
           | None \<Rightarrow> (errInvalidMetadataRequest, w)))"

definition metadata_key :: KeyRequest where
  "metadata_key = \<lparr>req_Label = KeyLabelVolumeMetadataMAC, req_Role = KeyRoleNotReplica,
                   req_OutputBytes = 32\<rparr>"

definition metadata_callback ::
  "prims \<Rightarrow> logicalCore \<Rightarrow> metadataRecovery \<Rightarrow> byte list \<Rightarrow> bool \<Rightarrow> pcv3_error option \<times> bool" where
  "metadata_callback P core recovery key authenticated =
     (case metadataTag P (core_suite core) key core (rec_header recovery) (rec_comment recovery) of
        Inl c \<Rightarrow> (Some (Plain c), False)
      | Inr actual \<Rightarrow> (None, actual = rec_tag recovery))"

definition authenticateMetadata ::
  "prims \<Rightarrow> RSCodecs \<Rightarrow> normalAuthResult \<Rightarrow> (world, pcv3_error, metadataResult) io" where
  "authenticateMetadata P codecs auth =
     io_bind (readMetadata codecs auth) (\<lambda>recovery.
       case recovery of
         MetadataRecoveryDamaged \<Rightarrow> io_ret MetadataDamaged
       | MetadataRecoveryCanonical header comment tag \<Rightarrow>
           (case authenticatedMetadataAuthority auth of
              None \<Rightarrow> io_fail errInvalidMetadataRequest
            | Some (core, _, _) \<Rightarrow>
                (case borrow (auth_lender auth metadata_key) (metadata_callback P core recovery) False of
                   (Some e, _) \<Rightarrow>
                     (\<lambda>w. case classifyMetadataKeyFailure e w of (e, w) \<Rightarrow> (Inl e, w))
                 | (None, authenticated) \<Rightarrow>
                     io_bind poll_metadata (\<lambda>_.
                       if \<not> authenticated then io_ret MetadataDamaged
                       else io_ret (MetadataAuthenticatedPublic comment)))))"

section \<open>Writing\<close>

text \<open>\<open>copy(buf[off:], xs)\<close> into a buffer that has room for it.\<close>

definition copy_at :: "nat \<Rightarrow> byte list \<Rightarrow> byte list \<Rightarrow> byte list" where
  "copy_at off xs buf = take off buf @ xs @ drop (off + length xs) buf"

definition encodeNormalWriteMetadata ::
  "prims \<Rightarrow> byte list \<Rightarrow> logicalCore \<Rightarrow> Geometry \<Rightarrow> byte list \<Rightarrow> RSCodecs \<Rightarrow> pcv3_error + byte list" where
  "encodeNormalWriteMetadata P comment core geometry macKey codecs =
     (if geo_metadataBlocks geometry < minimumMetadataBlocks \<or>
         geo_metadataBlocks geometry > maximumMetadataBlocks
      then Inl (NormalWriteFailure StageMetadata NormalWriteGeometry)
      else
        let blocks = unat (geo_metadataBlocks geometry);
            decoded = replicate (blocks * 128) 0;
            decoded = copy_at 0 metadataMagic decoded;
            decoded = copy_at 4 (put_u16 metadataSchema) decoded;
            decoded = copy_at 6 (put_u16 metadataUTF8Encoding) decoded;
            decoded = copy_at 8 (put_u32 (word_of_nat (length comment))) decoded;
            decoded = copy_at 16 comment decoded;
            header = slice 0 16 decoded
        in
        ebind (map_err (\<lambda>_. NormalWriteFailure StageMetadata NormalWriteCrypto)
                 (metadataTag P (core_suite core) macKey core header comment)) (\<lambda>tag.
        let decoded = copy_at (16 + length comment) tag decoded in
        ebind (map_err (\<lambda>_. NormalWriteFailure StageMetadata NormalWriteRS)
                 (emap (\<lambda>block. EncodeInto (replicate 136 0) (RS128 codecs)
                                   (slice (block * 128) 128 decoded)) [0..<blocks]))
          (\<lambda>words. Inr (concat words))))"

section \<open>Every behaviour of the environment\<close>

text \<open>The errors of this component: an operation failure at a legal stage, or a rejected
  request.\<close>

definition op_error :: "pcv3_error \<Rightarrow> bool" where
  "op_error e \<longleftrightarrow>
     (\<exists>stage c. e = Failure OutcomeOperationFailed stage c \<and> legal_pair OutcomeOperationFailed stage) \<or>
     (\<exists>c. e = Plain c)"

lemma op_error_simps [simp]:
  "op_error (Plain d)"
  "op_error (Failure OutcomeOperationFailed stage c) \<longleftrightarrow> legal_pair OutcomeOperationFailed stage"
  "op_error (metadataOperationFailure StageCancellation c)"
  "\<not> isEOF d \<Longrightarrow> op_error (NewInputError d)"
  by (simp_all add: op_error_def metadataOperationFailure_def)

lemma readMetadataExactAt_reads:
  "reads_to (\<lambda>_. True) op_error
     (\<lambda>r w. case r of None \<Rightarrow> True | Some bytes \<Rightarrow> length bytes = n \<and> logged offset bytes w)
     (readMetadataExactAt offset n)"
  unfolding reads_to_def readMetadataExactAt_def logged_def
  by (auto split: prod.splits read_end.splits dest: exact_read_only exact_read_Done exact_read_end)

text \<open>A decoded block is the decoding of a codeword that was read at its place.\<close>

definition block_read :: "RSCodecs \<Rightarrow> int \<Rightarrow> byte list \<Rightarrow> world \<Rightarrow> bool" where
  "block_read codecs offset block w \<longleftrightarrow>
     length block = 128 \<and>
     (\<exists>word. logged offset word w \<and> length word = 136 \<and> rs_Decode (RS128 codecs) word False = (block, None))"

lemma stable_block_read [simp]: "stable (block_read codecs offset block)"
  unfolding block_read_def by (intro stable_conj stable_ex stable_const stable_logged)

lemma readMetadataBlock_reads:
  "reads_to (\<lambda>_. True) op_error
     (\<lambda>r w. case r of None \<Rightarrow> True | Some block \<Rightarrow> block_read codecs offset block w)
     (readMetadataBlock codecs offset)"
  unfolding readMetadataBlock_def
proof (rule reads_to_bind [OF readMetadataExactAt_reads])
  fix r
  show "reads_to (\<lambda>w. case r of None \<Rightarrow> True | Some bytes \<Rightarrow> length bytes = 136 \<and> logged offset bytes w)
      op_error (\<lambda>r w. case r of None \<Rightarrow> True | Some block \<Rightarrow> block_read codecs offset block w)
      (case r of None \<Rightarrow> io_ret None
       | Some encoded \<Rightarrow>
           (case rs_Decode (RS128 codecs) encoded False of
              (decoded, Some _) \<Rightarrow> io_ret None
            | (decoded, None) \<Rightarrow>
                if length decoded \<noteq> 128 then io_ret None
                else io_bind poll_metadata (\<lambda>_. io_ret (Some decoded))))"
  proof (cases r)
    case (Some encoded)
    obtain decoded err where d: "rs_Decode (RS128 codecs) encoded False = (decoded, err)" by force
    have "stable (\<lambda>w. length encoded = 136 \<and> logged offset encoded w)"
      by (intro stable_conj stable_const stable_logged)
    then show ?thesis
      using Some d
      by (auto split: option.split simp: block_read_def intro!: reads_to_poll_stable reads_to_ret)
  qed (auto intro: reads_to_ret)
qed

definition blocks_read :: "RSCodecs \<Rightarrow> nat \<Rightarrow> byte list \<Rightarrow> world \<Rightarrow> bool" where
  "blocks_read codecs k decoded w \<longleftrightarrow>
     length decoded = k * 128 \<and>
     (\<forall>b < k. block_read codecs (int (976 + b * 136)) (slice (b * 128) 128 decoded) w)"

lemma stable_blocks_read [simp]: "stable (blocks_read codecs k decoded)"
  unfolding blocks_read_def by (intro stable_conj stable_all stable_imp stable_const stable_block_read)

lemma blocks_read_snoc:
  assumes "blocks_read codecs k decoded w" and "block_read codecs (int (976 + k * 136)) block w"
  shows "blocks_read codecs (Suc k) (decoded @ block) w"
proof -
  have l: "length decoded = k * 128" "length block = 128"
    using assms by (simp_all add: blocks_read_def block_read_def)
  have "block_read codecs (int (976 + b * 136)) (slice (b * 128) 128 (decoded @ block)) w" if "b < Suc k" for b
  proof (cases "b = k")
    case True
    then show ?thesis using assms(2) l by (simp add: slice_append_at)
  next
    case False
    then have "b < k" using that by simp
    then have "b * 128 + 128 \<le> length decoded" using block_inside [of b k 128] l by simp
    then show ?thesis using assms(1) \<open>b < k\<close> by (simp add: blocks_read_def slice_append_left)
  qed
  then show ?thesis using l by (simp add: blocks_read_def)
qed

lemma metadata_offset:
  assumes "k \<le> 782" and "checkedMul64 (word_of_nat k) 136 = Some delta"
    and "checkedAdd64 976 delta = Some offset" and "SafeUint64ToInt64 offset = Some off"
  shows "off = int (976 + k * 136)"
proof -
  have "unat (word_of_nat k :: u64) = k" using assms(1) by (simp add: unat_of_nat)
  then have "unat delta = k * 136" using assms(2) unfolding mul64.Some_iff by simp
  then have "unat offset = 976 + k * 136" using assms(3) unfolding add64.Some_iff by simp
  then show ?thesis using assms(4) unfolding Safe_Some_nat by simp
qed

lemma readMetadataBlocks_reads:
  "k + n \<le> 782 \<Longrightarrow>
   reads_to (blocks_read codecs k decoded) op_error
     (\<lambda>r w. case r of None \<Rightarrow> True | Some d \<Rightarrow> blocks_read codecs (k + n) d w)
     (readMetadataBlocks codecs front (word_of_nat k) n decoded)"
proof (induction n arbitrary: k decoded)
  case 0
  then show ?case by (auto simp: reads_to_def)
next
  case (Suc n)
  let ?Q = "\<lambda>r w. case r of None \<Rightarrow> True | Some d \<Rightarrow> blocks_read codecs (k + Suc n) d w"
  have next': "(word_of_nat k + 1 :: u64) = word_of_nat (Suc k)" by simp
  have step: "reads_to (blocks_read codecs k decoded) op_error ?Q
      (io_bind (readMetadataBlock codecs off) (\<lambda>b. case b of None \<Rightarrow> io_ret None
        | Some decodedBlock \<Rightarrow> readMetadataBlocks codecs front (word_of_nat k + 1) n (decoded @ decodedBlock)))"
    if off: "off = int (976 + k * 136)" for off
  proof (rule reads_to_bind_stable [OF readMetadataBlock_reads stable_blocks_read])
    fix b
    show "reads_to (\<lambda>w. (case b of None \<Rightarrow> True | Some block \<Rightarrow> block_read codecs off block w) \<and>
        blocks_read codecs k decoded w) op_error ?Q
      (case b of None \<Rightarrow> io_ret None
        | Some decodedBlock \<Rightarrow> readMetadataBlocks codecs front (word_of_nat k + 1) n (decoded @ decodedBlock))"
    proof (cases b)
      case (Some block)
      have "reads_to (blocks_read codecs (Suc k) (decoded @ block)) op_error
          (\<lambda>r w. case r of None \<Rightarrow> True | Some d \<Rightarrow> blocks_read codecs (Suc k + n) d w)
          (readMetadataBlocks codecs front (word_of_nat (Suc k)) n (decoded @ block))"
        by (rule Suc.IH) (use Suc.prems in simp)
      then show ?thesis
        unfolding next' Some option.case
        by (rule reads_to_conseq) (auto simp: off intro: blocks_read_snoc split: option.split)
    qed (auto intro: reads_to_ret)
  qed
  have k: "k \<le> 782" using Suc.prems by simp
  show ?case
    unfolding readMetadataBlocks.simps
    by (intro reads_to_option reads_to_if reads_to_fail step metadata_offset [OF k]) simp_all
qed

lemma authority_blocks:
  assumes "authenticatedMetadataAuthority auth = Some (core, blocks, front)"
  shows "core = cand_core (auth_candidate auth)" "unat blocks \<le> 782"
    "unat blocks = meta_blocks (unat (core_commentLength core))"
  using assms
  by (auto simp: authenticatedMetadataAuthority_def Let_def canonicalMetadataGeometry_Some_iff
      word_less_nat_alt not_less split: if_splits option.splits)

text \<open>The canonical metadata of an authenticated core, recovered from blocks that were read.\<close>

definition metadata_read ::
  "RSCodecs \<Rightarrow> normalAuthResult \<Rightarrow> byte list \<Rightarrow> byte list \<Rightarrow> byte list \<Rightarrow> world \<Rightarrow> bool" where
  "metadata_read codecs auth header comment tag w \<longleftrightarrow>
     (\<exists>decoded. blocks_read codecs
          (meta_blocks (unat (core_commentLength (cand_core (auth_candidate auth))))) decoded w \<and>
        parseCanonicalMetadata decoded (core_commentLength (cand_core (auth_candidate auth))) =
          MetadataRecoveryCanonical header comment tag)"

lemma stable_metadata_read [simp]: "stable (metadata_read codecs auth header comment tag)"
  unfolding metadata_read_def by (intro stable_ex stable_conj stable_const stable_blocks_read)

lemma readMetadata_body_reads:
  assumes a: "authenticatedMetadataAuthority auth = Some (core, blocks, front)"
  shows "reads_to (\<lambda>_. True) op_error
      (\<lambda>r w. case r of MetadataRecoveryDamaged \<Rightarrow> True
        | MetadataRecoveryCanonical header comment tag \<Rightarrow> metadata_read codecs auth header comment tag w)
      (io_bind (readMetadataBlocks codecs front 0 (unat blocks) []) (\<lambda>d. case d of
         None \<Rightarrow> io_ret MetadataRecoveryDamaged
       | Some decoded \<Rightarrow> io_bind poll_metadata (\<lambda>_. io_ret (parseCanonicalMetadata decoded (core_commentLength core)))))"
    (is "reads_to _ _ ?Q _")
proof (rule reads_to_bind)
  have "blocks_read codecs 0 [] = (\<lambda>_. True)" by (simp add: fun_eq_iff blocks_read_def)
  then show "reads_to (\<lambda>_. True) op_error
      (\<lambda>r w. case r of None \<Rightarrow> True | Some d \<Rightarrow> blocks_read codecs (unat blocks) d w)
      (readMetadataBlocks codecs front 0 (unat blocks) [])"
    using readMetadataBlocks_reads [of 0 "unat blocks" codecs "[]" front] authority_blocks(2) [OF a]
    unfolding add_0 by simp
  fix d
  show "reads_to (\<lambda>w. case d of None \<Rightarrow> True | Some d \<Rightarrow> blocks_read codecs (unat blocks) d w) op_error ?Q
    (case d of None \<Rightarrow> io_ret MetadataRecoveryDamaged
     | Some decoded \<Rightarrow> io_bind poll_metadata (\<lambda>_. io_ret (parseCanonicalMetadata decoded (core_commentLength core))))"
  proof (cases d)
    case (Some decoded)
    have "metadata_read codecs auth header comment tag w"
      if "blocks_read codecs (unat blocks) decoded w"
        and "parseCanonicalMetadata decoded (core_commentLength core) =
          MetadataRecoveryCanonical header comment tag" for header comment tag w
      using that authority_blocks [OF a] unfolding metadata_read_def by auto
    then have "?Q (parseCanonicalMetadata decoded (core_commentLength core)) w"
      if "blocks_read codecs (unat blocks) decoded w" for w
      using that by (simp split: metadataRecovery.split)
    then show ?thesis
      unfolding Some option.case
      by (intro reads_to_poll_stable reads_to_ret stable_blocks_read) simp_all
  qed (simp add: reads_to_ret)
qed

lemma readMetadata_reads:
  "reads_to (\<lambda>_. True) op_error
     (\<lambda>r w. case r of MetadataRecoveryDamaged \<Rightarrow> True
        | MetadataRecoveryCanonical header comment tag \<Rightarrow> metadata_read codecs auth header comment tag w)
     (readMetadata codecs auth)"
  unfolding readMetadata_def
proof (rule reads_to_poll_stable)
  let ?Q = "\<lambda>r w. case r of MetadataRecoveryDamaged \<Rightarrow> True
        | MetadataRecoveryCanonical header comment tag \<Rightarrow> metadata_read codecs auth header comment tag w"
  show "reads_to (\<lambda>_. True) op_error ?Q (case authenticatedMetadataAuthority auth of
         None \<Rightarrow> io_fail errInvalidMetadataRequest
       | Some (core, blocks, front) \<Rightarrow>
           (case checkedMul64 blocks rs128DataLength of
              None \<Rightarrow> io_fail errInvalidMetadataRequest
            | Some decodedLength \<Rightarrow>
                if decodedLength > maximumMetadataBlocks * rs128DataLength
                then io_fail errInvalidMetadataRequest
                else
                  io_bind (readMetadataBlocks codecs front 0 (unat blocks) []) (\<lambda>d.
                    case d of
                      None \<Rightarrow> io_ret MetadataRecoveryDamaged
                    | Some decoded \<Rightarrow>
                        io_bind poll_metadata (\<lambda>_.
                          io_ret (parseCanonicalMetadata decoded (core_commentLength core))))))"
    by (intro reads_to_cases reads_to_fail) (simp_all add: readMetadata_body_reads)
qed simp_all

lemma classifyMetadataKeyFailure_reads:
  "classifyMetadataKeyFailure e w = (e', w') \<Longrightarrow> reads_only w w' \<and> op_error e'"
  using reads_only_trans [OF reads_only_tick [of w] reads_only_tick]
  by (auto simp: classifyMetadataKeyFailure_def ctx_Err_def split: option.splits if_splits)

text \<open>A comment is released only if it was read with a tag that verifies under a lent key.\<close>

definition authentic_comment ::
  "prims \<Rightarrow> RSCodecs \<Rightarrow> normalAuthResult \<Rightarrow> byte list \<Rightarrow> world \<Rightarrow> bool" where
  "authentic_comment P codecs auth comment w \<longleftrightarrow>
     (\<exists>key header tag.
        auth_lender auth metadata_key = (Some key, None) \<and>
        metadata_read codecs auth header comment tag w \<and>
        metadataTag P (core_suite (cand_core (auth_candidate auth))) key
          (cand_core (auth_candidate auth)) header comment = Inr tag)"

lemma authenticateMetadata_reads:
  "reads_to (\<lambda>_. True) op_error
     (\<lambda>r w. case r of MetadataDamaged \<Rightarrow> True
          | MetadataAuthenticatedPublic comment \<Rightarrow> authentic_comment P codecs auth comment w)
     (authenticateMetadata P codecs auth)"
  unfolding authenticateMetadata_def
proof (rule reads_to_bind [OF readMetadata_reads])
  fix recovery
  let ?Q = "\<lambda>r w. case r of MetadataDamaged \<Rightarrow> True
          | MetadataAuthenticatedPublic comment \<Rightarrow> authentic_comment P codecs auth comment w"
  let ?R = "\<lambda>w. case recovery of MetadataRecoveryDamaged \<Rightarrow> True
        | MetadataRecoveryCanonical header comment tag \<Rightarrow> metadata_read codecs auth header comment tag w"
  show "reads_to ?R op_error ?Q (case recovery of
         MetadataRecoveryDamaged \<Rightarrow> io_ret MetadataDamaged
       | MetadataRecoveryCanonical header comment tag \<Rightarrow>
           (case authenticatedMetadataAuthority auth of
              None \<Rightarrow> io_fail errInvalidMetadataRequest
            | Some (core, _, _) \<Rightarrow>
                (case borrow (auth_lender auth metadata_key) (metadata_callback P core recovery) False of
                   (Some e, _) \<Rightarrow>
                     (\<lambda>w. case classifyMetadataKeyFailure e w of (e, w) \<Rightarrow> (Inl e, w))
                 | (None, authenticated) \<Rightarrow>
                     io_bind poll_metadata (\<lambda>_.
                       if \<not> authenticated then io_ret MetadataDamaged
                       else io_ret (MetadataAuthenticatedPublic comment)))))"
  proof (cases recovery)
    case (MetadataRecoveryCanonical header comment tag)
    note R = MetadataRecoveryCanonical
    show ?thesis
    proof (cases "authenticatedMetadataAuthority auth")
      case (Some triple)
      obtain core blocks front where t: "triple = (core, blocks, front)" by (cases triple)
      then have core: "core = cand_core (auth_candidate auth)"
        using authority_blocks(1) Some by blast
      obtain err authenticated where
        b: "borrow (auth_lender auth metadata_key) (metadata_callback P core recovery) False = (err, authenticated)"
        by force
      show ?thesis
      proof (cases err)
        case (Some e)
        then show ?thesis
          using \<open>authenticatedMetadataAuthority auth = _\<close> t b R
          by (auto simp: reads_to_def split: prod.split dest: classifyMetadataKeyFailure_reads)
      next
        case None
        have "authentic_comment P codecs auth comment w"
          if a: "authenticated" and w: "metadata_read codecs auth header comment tag w" for w
        proof -
          have ok: "snd (auth_lender auth metadata_key) = None \<and>
              (case fst (auth_lender auth metadata_key) of None \<Rightarrow> authenticated = False
               | Some key \<Rightarrow> metadata_callback P core recovery key False = (None, authenticated))"
            using borrow_ok [OF b [unfolded None]] .
          then obtain key where "auth_lender auth metadata_key = (Some key, None)"
            "metadata_callback P core recovery key False = (None, True)"
            using a by (cases "auth_lender auth metadata_key") (auto split: option.splits)
          then show ?thesis
            using w core R
            by (auto simp: authentic_comment_def metadata_callback_def split: sum.splits)
        qed
        then show ?thesis
          using \<open>authenticatedMetadataAuthority auth = _\<close> t b None R
          by (auto intro!: reads_to_poll_stable reads_to_ret)
      qed
    qed (auto simp: R intro: reads_to_fail)
  qed (auto intro: reads_to_ret)
qed

section \<open>Writing and reading a comment\<close>

definition meta_header :: "byte list \<Rightarrow> byte list" where
  "meta_header comment =
     metadataMagic @ put_u16 metadataSchema @ put_u16 metadataUTF8Encoding @
     put_u32 (word_of_nat (length comment)) @ replicate 4 0"

definition meta_plain :: "byte list \<Rightarrow> byte list \<Rightarrow> byte list" where
  "meta_plain comment tag =
     meta_header comment @ comment @ tag @
     replicate (meta_blocks (length comment) * 128 - (80 + length comment)) 0"

lemma length_meta_header [simp]: "length (meta_header comment) = 16"
  by (simp add: meta_header_def metadataMagic_def)

lemma meta_blocks_room: "80 + c \<le> meta_blocks c * 128"
proof -
  have "(80 + c + 127) mod 128 < 128" by simp
  then show ?thesis unfolding meta_blocks_def
    using div_mult_mod_eq [of "80 + c + 127" 128] by linarith
qed

lemma length_meta_plain:
  "length tag = 64 \<Longrightarrow> length (meta_plain comment tag) = meta_blocks (length comment) * 128"
  using meta_blocks_room [of "length comment"] by (simp add: meta_plain_def)

lemma copy_at_zeros:
  "off = length pre \<Longrightarrow> length xs \<le> n \<Longrightarrow>
   copy_at off xs (pre @ replicate n 0) = pre @ xs @ replicate (n - length xs) 0"
  by (simp add: copy_at_def)

definition meta_unsigned :: "nat \<Rightarrow> byte list \<Rightarrow> byte list" where
  "meta_unsigned n comment =
     copy_at 16 comment (copy_at 8 (put_u32 (word_of_nat (length comment)))
       (copy_at 6 (put_u16 metadataUTF8Encoding) (copy_at 4 (put_u16 metadataSchema)
         (copy_at 0 metadataMagic (replicate n 0)))))"

lemma meta_unsigned_eq:
  assumes "80 + length comment \<le> n"
  shows "meta_unsigned n comment = meta_header comment @ comment @ replicate (n - 16 - length comment) 0"
proof -
  let ?l = "put_u32 (word_of_nat (length comment))" and ?s = "put_u16 metadataSchema"
    and ?u = "put_u16 metadataUTF8Encoding"
  have m4: "length metadataMagic = 4" by (simp add: metadataMagic_def)
  have h0: "copy_at 0 metadataMagic (replicate n 0) = metadataMagic @ replicate (n - 4) 0"
    using copy_at_zeros [of 0 "[]" metadataMagic n] assms m4 by simp
  have h1: "copy_at 4 ?s (metadataMagic @ replicate (n - 4) 0) = (metadataMagic @ ?s) @ replicate (n - 6) 0"
    using copy_at_zeros [of 4 metadataMagic ?s "n - 4"] assms m4 by simp
  have h2: "copy_at 6 ?u ((metadataMagic @ ?s) @ replicate (n - 6) 0) =
      (metadataMagic @ ?s @ ?u) @ replicate (n - 8) 0"
    using copy_at_zeros [of 6 "metadataMagic @ ?s" ?u "n - 6"] assms m4 by simp
  have h3: "copy_at 8 ?l ((metadataMagic @ ?s @ ?u) @ replicate (n - 8) 0) =
      (metadataMagic @ ?s @ ?u @ ?l) @ replicate (n - 12) 0"
    using copy_at_zeros [of 8 "metadataMagic @ ?s @ ?u" ?l "n - 8"] assms m4 by simp
  have "n - 12 = 4 + (n - 16)" using assms by simp
  then have h4: "(metadataMagic @ ?s @ ?u @ ?l) @ replicate (n - 12) 0 =
      meta_header comment @ replicate (n - 16) 0"
    by (simp only: meta_header_def replicate_add append_assoc)
  have h5: "copy_at 16 comment (meta_header comment @ replicate (n - 16) 0) =
      meta_header comment @ comment @ replicate (n - 16 - length comment) 0"
    using copy_at_zeros [of 16 "meta_header comment" comment "n - 16"] assms by simp
  show ?thesis unfolding meta_unsigned_def h0 h1 h2 h3 h4 h5 ..
qed

lemma meta_unsigned_header:
  "80 + length comment \<le> n \<Longrightarrow> slice 0 16 (meta_unsigned n comment) = meta_header comment"
  by (simp add: meta_unsigned_eq)

lemma meta_unsigned_tag:
  assumes "length tag = 64"
  shows "copy_at (16 + length comment) tag (meta_unsigned (meta_blocks (length comment) * 128) comment) =
    meta_plain comment tag"
proof -
  let ?n = "meta_blocks (length comment) * 128"
  have n: "80 + length comment \<le> ?n" by (rule meta_blocks_room)
  have "copy_at (16 + length comment) tag ((meta_header comment @ comment) @
      replicate (?n - 16 - length comment) 0) =
    (meta_header comment @ comment) @ tag @ replicate (?n - 16 - length comment - length tag) 0"
    by (rule copy_at_zeros) (use n assms in simp_all)
  then show ?thesis using assms by (simp add: meta_unsigned_eq [OF n] meta_plain_def)
qed

lemma metadataTag_length: "metadataTag P suite key core header comment = Inr tag \<Longrightarrow> length tag = 64"
  by (auto simp: metadataTag_def suiteMACTag_Inr)

lemma encodeNormalWriteMetadata_coded:
  assumes "encodeNormalWriteMetadata P comment core geometry key codecs = Inr enc"
    and "fec_encodes (RS128 codecs)" and "codecs_sized codecs"
    and "unat (geo_metadataBlocks geometry) = meta_blocks (length comment)"
  shows "\<exists>tag. metadataTag P (core_suite core) key core (meta_header comment) comment = Inr tag \<and>
    enc = coded (RS128 codecs) (meta_blocks (length comment)) (meta_plain comment tag)"
proof -
  let ?k = "meta_blocks (length comment)"
  have room: "80 + length comment \<le> ?k * 128" by (rule meta_blocks_room)
  obtain tag words where
    tag: "metadataTag P (core_suite core) key core (meta_header comment) comment = Inr tag"
    and words: "emap (\<lambda>block. EncodeInto (replicate 136 0) (RS128 codecs)
        (slice (block * 128) 128 (copy_at (16 + length comment) tag (meta_unsigned (?k * 128) comment))))
      [0..<?k] = Inr words" and enc: "enc = concat words"
    using assms(1)
    unfolding encodeNormalWriteMetadata_def Let_def assms(4) meta_unsigned_def [symmetric]
      meta_unsigned_header [OF room]
    by (auto simp: ebind_eq_Inr split: if_splits)
  have len: "length (meta_plain comment tag) = ?k * fec_required (RS128 codecs)"
    using length_meta_plain [of tag comment] metadataTag_length [OF tag] assms(3)
    by (simp add: codecs_sized_def)
  have "emap (\<lambda>block. EncodeInto (replicate 136 0) (RS128 codecs)
      (slice (block * 128) 128 (meta_plain comment tag))) [0..<?k] =
    Inr (map (\<lambda>i. codeword (RS128 codecs) (slice (i * 128) 128 (meta_plain comment tag))) [0..<?k])"
    using emap_encode_blocks [OF assms(2) len, of "replicate 136 0"] assms(3) by (simp add: codecs_sized_def)
  then have "words = map (\<lambda>i. codeword (RS128 codecs) (slice (i * 128) 128 (meta_plain comment tag))) [0..<?k]"
    using words unfolding meta_unsigned_tag [OF metadataTag_length [OF tag]] by simp
  then show ?thesis using tag enc assms(3) by (auto simp: coded_def codecs_sized_def)
qed

lemma parse_meta_plain:
  assumes "length tag = 64" and "length comment \<le> 99999" and "utf8_Valid comment"
  shows "parseCanonicalMetadata (meta_plain comment tag) (word_of_nat (length comment)) =
    MetadataRecoveryCanonical (meta_header comment) comment tag"
proof -
  let ?d = "meta_plain comment tag" and ?n = "length comment"
  let ?z = "replicate (meta_blocks ?n * 128 - (80 + ?n)) (0 :: byte)"
  have n: "unat (word_of_nat ?n :: u32) = ?n"
    using assms(2) by (simp add: unat_of_nat)
  have d: "?d = meta_header comment @ comment @ tag @ ?z" by (simp add: meta_plain_def)
  have len: "length ?d = 80 + ?n + length ?z" using assms(1) by (simp add: d)
  have head: "slice a b ?d = slice a b (meta_header comment)" if "a + b \<le> 16" for a b
    unfolding d using that by (simp add: slice_append_left)
  have magic: "slice 0 4 (meta_header comment) = metadataMagic"
    "slice 4 2 (meta_header comment) = put_u16 metadataSchema"
    "slice 6 2 (meta_header comment) = put_u16 metadataUTF8Encoding"
    "slice 8 4 (meta_header comment) = put_u32 (word_of_nat ?n)"
    by (simp_all add: meta_header_def metadataMagic_def slice_append_right slice_append_left
        slice_append_straddle)
  have zeros: "?d ! 12 = 0" "?d ! 13 = 0" "?d ! 14 = 0" "?d ! 15 = 0"
    by (simp_all add: d nth_append meta_header_def metadataMagic_def)
  have c: "slice 16 ?n ?d = comment" "slice (16 + ?n) 64 ?d = tag" "drop (16 + ?n + 64) ?d = ?z"
    using assms(1) by (simp_all add: d slice_def)
  have "slice 0 16 ?d = meta_header comment" by (simp add: d)
  moreover have "take 4 ?d = metadataMagic" using head [of 0 4] magic(1) by simp
  ultimately show ?thesis
    using head magic zeros c n len assms(3)
    by (simp add: parseCanonicalMetadata_def Let_def metadataBytesAreZero_def list_all_iff)
qed

lemma readMetadataExactAt_image:
  assumes "serves img w" and "off + n \<le> length img"
  obtains w' where "readMetadataExactAt (int off) n w = (Inr (Some (slice off n img)), w')"
    and "reads_only w w'"
proof -
  obtain w' where "exact_read True (int off) n w = ((slice off n img, ReadDone), w')" "reads_only w w'"
    using exact_read_image [of img w True off n] assms by (auto simp: serves_def)
  moreover have "int off \<le> MaxInt64 - int n" using assms by (simp add: serves_def)
  ultimately show thesis using that by (simp add: readMetadataExactAt_def)
qed

lemma poll_serves: "serves img w \<Longrightarrow> poll mk w = (Inr (), tick w)"
  by (simp add: serves_def poll_never)

lemma readMetadataBlock_image:
  assumes "serves img w" and "off + 136 \<le> length img"
    and "rs_Decode (RS128 codecs) (slice off 136 img) False = (block, None)" and "length block = 128"
  obtains w' where "readMetadataBlock codecs (int off) w = (Inr (Some block), w')" and "reads_only w w'"
proof -
  obtain w1 where r: "readMetadataExactAt (int off) 136 w = (Inr (Some (slice off 136 img)), w1)"
      "reads_only w w1"
    by (rule readMetadataExactAt_image [OF assms(1,2)])
  have "serves img w1" using assms(1) r(2) by (simp add: serves_only)
  then have "readMetadataBlock codecs (int off) w = (Inr (Some block), tick w1)"
    using assms(3,4) r(1) by (simp add: readMetadataBlock_def io_bind_def poll_serves)
  moreover have "reads_only w (tick w1)" using r(2) by (blast intro: reads_only_trans reads_only_tick)
  ultimately show thesis by (rule that)
qed

lemma readMetadataBlocks_image:
  assumes ok: "fec_ok t (RS128 codecs)" and sized: "codecs_sized codecs"
    and near: "coded_near t (RS128 codecs) k data (slice 976 (k * 136) img)"
    and inside: "976 + k * 136 \<le> length img" "k \<le> 782" and front: "unat front = 976 + k * 136"
  shows "b + n = k \<Longrightarrow> serves img w \<Longrightarrow>
    \<exists>w'. readMetadataBlocks codecs front (word_of_nat b) n (take (b * 128) data) w =
      (Inr (Some data), w') \<and> reads_only w w'"
proof (induction n arbitrary: b w)
  case 0
  have "length data = k * 128" using near sized by (simp add: coded_near_def codecs_sized_def)
  then show ?case using 0 by (simp add: io_ret_def)
next
  case (Suc n)
  have b: "b < k" "b < 782" using Suc.prems inside by simp_all
  have uw: "unat (word_of_nat m :: u64) = m" if "m \<le> 200000" for m
    using that by (simp add: unat_of_nat)
  have sz: "fec_required (RS128 codecs) = 128" "fec_total (RS128 codecs) = 136"
    using sized by (simp_all add: codecs_sized_def)
  have blk: "b * 136 + 136 \<le> k * 136" using block_inside [OF b(1), of 136] .
  have u: "unat (word_of_nat b :: u64) = b" "unat (word_of_nat (b * 136) :: u64) = b * 136"
    "unat (word_of_nat (976 + b * 136) :: u64) = 976 + b * 136"
    "unat (word_of_nat (976 + b * 136 + 136) :: u64) = 976 + b * 136 + 136"
    by (rule uw, use b in linarith)+
  have lit: "unat (136 :: u64) = 136" "unat (976 :: u64) = 976" by simp_all
  have mul: "checkedMul64 (word_of_nat b) 136 = Some (word_of_nat (b * 136))"
    unfolding mul64.Some_iff u lit ..
  have add: "checkedAdd64 976 (word_of_nat (b * 136)) = Some (word_of_nat (976 + b * 136))"
    unfolding add64.Some_iff u lit ..
  have add': "checkedAdd64 (word_of_nat (976 + b * 136)) 136 = Some (word_of_nat (976 + b * 136 + 136))"
    unfolding add64.Some_iff u lit ..
  have fits: "\<not> (word_of_nat (976 + b * 136 + 136) :: u64) > front"
    unfolding word_less_nat_alt u front using blk by linarith
  have conv: "SafeUint64ToInt64 (word_of_nat (976 + b * 136)) = Some (int (976 + b * 136))"
    unfolding Safe_Some_nat u using b by (intro conjI refl) simp
  have word: "slice (b * 136) 136 (slice 976 (k * 136) img) = slice (976 + b * 136) 136 img"
    using blk by (simp add: slice_slice)
  have "rs_Decode (RS128 codecs) (slice (976 + b * 136) 136 img) False = (slice (b * 128) 128 data, None)"
    using coded_near_decode [OF ok near b(1)] sz word by simp
  moreover have len: "length (slice (b * 128) 128 data) = 128"
    using near sz b(1) by (simp add: coded_near_def)
  moreover have "976 + b * 136 + 136 \<le> length img" using blk inside by simp
  ultimately obtain w1 where r: "readMetadataBlock codecs (int (976 + b * 136)) w =
      (Inr (Some (slice (b * 128) 128 data)), w1)" "reads_only w w1"
    using readMetadataBlock_image [OF Suc.prems(2)] by blast
  have "serves img w1" using Suc.prems(2) r(2) by (simp add: serves_only)
  then obtain w2 where w2: "readMetadataBlocks codecs front (word_of_nat (Suc b)) n (take (Suc b * 128) data) w1 =
      (Inr (Some data), w2)" "reads_only w1 w2"
    using Suc.IH [of "Suc b" w1] Suc.prems(1) by auto
  have "take (Suc b * 128) data = take (b * 128) data @ slice (b * 128) 128 data"
    by (simp add: slice_def take_add [symmetric] add.commute)
  moreover have "(word_of_nat (Suc b) :: u64) = word_of_nat b + 1" by simp
  ultimately have "readMetadataBlocks codecs front (word_of_nat b) (Suc n) (take (b * 128) data) w =
      (Inr (Some data), w2)"
    using mul add add' fits conv r(1) w2(1)
    by (simp only: readMetadataBlocks.simps option.case io_bind_def prod.case sum.case if_False)
  then show ?case using r(2) w2(2) by (blast intro: reads_only_trans)
qed

text \<open>The authority of an open result whose layout is the canonical one.\<close>

definition canonical_auth :: "normalAuthResult \<Rightarrow> bool" where
  "canonical_auth auth \<longleftrightarrow>
     open_outcome (auth_outcome auth) \<and> auth_authenticated auth \<noteq> 0 \<and>
     deriveCanonicalGeometry (auth_candidate auth) = Inr (auth_geometry auth)"

lemma canonical_auth_authority:
  assumes "canonical_auth auth"
  obtains blocks front where
    "authenticatedMetadataAuthority auth = Some (cand_core (auth_candidate auth), blocks, front)"
    and "unat blocks = meta_blocks (unat (core_commentLength (cand_core (auth_candidate auth))))"
    and "unat front = front_len (unat (core_commentLength (cand_core (auth_candidate auth))))"
proof -
  let ?core = "cand_core (auth_candidate auth)"
  let ?c = "unat (core_commentLength ?core)"
  have valid: "validLogicalCore ?core" and geo: "auth_geometry auth =
      layout_of (candidate_PayloadBodyRS (auth_candidate auth)) (unat (core_plaintextLength ?core)) ?c"
    using assms by (simp_all add: canonical_auth_def deriveCanonicalGeometry_Inr_iff)
  note can = validLogicalCore_canonical [OF valid]
  have bounds: "1 \<le> meta_blocks ?c" "meta_blocks ?c \<le> 782"
    using meta_blocks_bounds [OF can(2)] by simp_all
  let ?b = "word_of_nat (meta_blocks ?c) :: u64" and ?f = "ucast (core_frontHeaderLength ?core) :: u64"
  have b: "unat ?b = meta_blocks ?c" using bounds by (simp add: unat_of_nat)
  have "\<not> ?b < 1" "\<not> ?b > 782" using b bounds by (simp_all add: word_less_nat_alt)
  moreover have "word_of_int (int (front_len ?c)) = ?f"
  proof -
    have "unat ?f = front_len ?c" using can(4) by simp
    then have "word_of_int (int (front_len ?c)) = (word_of_nat (unat ?f) :: u64)" by simp
    then show ?thesis by simp
  qed
  ultimately have "authenticatedMetadataAuthority auth = Some (?core, ?b, ?f)"
    using assms valid can(3) geo
    by (auto simp: authenticatedMetadataAuthority_def canonical_auth_def open_outcome_def Let_def layout_of_def
        simp del: of_nat_unat)
  moreover have "unat ?f = front_len ?c" using can(4) by simp
  ultimately show thesis using b by (intro that)
qed

lemma readMetadata_image:
  fixes auth :: normalAuthResult
  defines "core \<equiv> cand_core (auth_candidate auth)"
  assumes auth: "canonical_auth auth" and img: "serves img w"
    and ok: "fec_ok t (RS128 codecs)" "codecs_sized codecs"
    and len: "unat (core_commentLength core) = length comment" and tag: "length tag = 64"
    and utf8: "utf8_Valid comment"
    and near: "coded_near t (RS128 codecs) (meta_blocks (length comment)) (meta_plain comment tag)
      (slice 976 (meta_blocks (length comment) * 136) img)"
    and inside: "front_len (length comment) \<le> length img"
  obtains w' where "readMetadata codecs auth w =
      (Inr (MetadataRecoveryCanonical (meta_header comment) comment tag), w')" and "reads_only w w'"
proof -
  obtain blocks front where a: "authenticatedMetadataAuthority auth = Some (core, blocks, front)"
    "unat blocks = meta_blocks (length comment)" "unat front = front_len (length comment)"
    using canonical_auth_authority [OF auth] len unfolding core_def by metis
  have "validLogicalCore core" using auth by (simp add: canonical_auth_def deriveCanonicalGeometry_Inr_iff core_def)
  from validLogicalCore_canonical(2) [OF this] have c: "length comment \<le> 99999" using len by simp
  note bounds = meta_blocks_bounds [OF c]
  obtain dl where dl: "checkedMul64 blocks 128 = Some dl" "unat dl = meta_blocks (length comment) * 128"
    using mul64.fits [of blocks 128] a(2) bounds by auto
  have small: "\<not> dl > 782 * 128" using dl(2) bounds by (simp add: word_less_nat_alt)
  obtain w1 where w1: "readMetadataBlocks codecs front (word_of_nat 0) (unat blocks)
      (take (0 * 128) (meta_plain comment tag)) (tick w) = (Inr (Some (meta_plain comment tag)), w1)"
      "reads_only (tick w) w1"
    using readMetadataBlocks_image [OF ok near _ _ _, of front 0 "meta_blocks (length comment)" "tick w"]
      img inside bounds a(2,3) by (auto simp: front_len_def mult.commute)
  have "serves img w1" using img w1(2) by (simp add: serves_only)
  moreover have cl: "core_commentLength core = word_of_nat (length comment)"
    by (simp add: len [symmetric])
  ultimately have "readMetadata codecs auth w =
      (Inr (MetadataRecoveryCanonical (meta_header comment) comment tag), tick w1)"
    using a dl small w1(1) img parse_meta_plain [OF tag c utf8]
    by (simp add: readMetadata_def io_bind_def poll_serves)
  moreover have "reads_only w (tick w1)"
    using w1(2) by (blast intro: reads_only_trans reads_only_tick)
  ultimately show thesis by (rule that)
qed

lemma authenticateMetadata_image:
  fixes auth :: normalAuthResult
  defines "core \<equiv> cand_core (auth_candidate auth)"
  assumes auth: "canonical_auth auth" and img: "serves img w"
    and ok: "fec_ok t (RS128 codecs)" "codecs_sized codecs"
    and len: "unat (core_commentLength core) = length comment"
    and utf8: "utf8_Valid comment"
    and lend: "auth_lender auth metadata_key = (Some key, None)"
    and tag: "metadataTag P (core_suite core) key core (meta_header comment) comment = Inr tag"
    and near: "coded_near t (RS128 codecs) (meta_blocks (length comment)) (meta_plain comment tag)
      (slice 976 (meta_blocks (length comment) * 136) img)"
    and inside: "front_len (length comment) \<le> length img"
  obtains w' where "authenticateMetadata P codecs auth w = (Inr (MetadataAuthenticatedPublic comment), w')"
    and "reads_only w w'"
proof -
  obtain w1 where w1: "readMetadata codecs auth w =
      (Inr (MetadataRecoveryCanonical (meta_header comment) comment tag), w1)" "reads_only w w1"
    using readMetadata_image [OF auth img ok len [unfolded core_def] metadataTag_length [OF tag] utf8 near inside]
    by blast
  obtain blocks front where a: "authenticatedMetadataAuthority auth = Some (core, blocks, front)"
    using canonical_auth_authority [OF auth] unfolding core_def by metis
  have "serves img w1" using img w1(2) by (simp add: serves_only)
  then have "authenticateMetadata P codecs auth w = (Inr (MetadataAuthenticatedPublic comment), tick w1)"
    using w1(1) a lend tag
    by (simp add: authenticateMetadata_def io_bind_def borrow_def metadata_callback_def poll_serves)
  moreover have "reads_only w (tick w1)"
    using w1(2) by (blast intro: reads_only_trans reads_only_tick)
  ultimately show thesis by (rule that)
qed

end
