(* ===== verification/Record_Layout.thy ===== *)
theory Record_Layout
  imports Geometry Capsule_Codec Stream_Cipher
begin

text \<open>
  Where the records of a volume are and what they must say (\<open>expectedRecord\<close> and its helpers in
  \<open>pcv3/records.go\<close>): descriptor, extent, nonce and IV of every record, derived from the core and
  the index alone. The lemmas give the closed formulas: the records tile the payload.
\<close>

section \<open>The expectation\<close>

record recordExpectation =
  exp_index :: u64
  exp_final :: bool
  exp_plaintextOffset :: u64
  exp_ciphertextLength :: u64
  exp_descriptor :: "byte list"
  exp_descriptorOffset :: int
  exp_bodyOffset :: int
  exp_encodedBodyLength :: nat
  exp_nonce :: "byte list"
  exp_serpentIV :: "byte list"

definition encodedRecordBodyLength :: "u64 \<Rightarrow> bool \<Rightarrow> u64 option" where
  "encodedRecordBodyLength ciphertextLength payloadBodyRS =
     (case checkedAdd64 ciphertextLength recordTagSize of
        None \<Rightarrow> None
      | Some semanticLength \<Rightarrow>
          if \<not> payloadBodyRS then Some semanticLength
          else
            (case checkedCeilDiv64 semanticLength rs128DataLength of
               None \<Rightarrow> None
             | Some blocks \<Rightarrow> checkedMul64 blocks rs128CodewordLength))"

definition recordOffsetWithinPayload :: "logicalCore \<Rightarrow> bool \<Rightarrow> u64 \<Rightarrow> u64 option" where
  "recordOffsetWithinPayload core payloadBodyRS index =
     (if \<not> payloadBodyRS then
        do {
          plaintextBefore \<leftarrow>
            (if index < core_recordCount core then checkedMul64 index recordPlaintextMax
             else Some (core_plaintextLength core));
          overheadBefore \<leftarrow> checkedMul64 index nonRSPayloadOverhead;
          checkedAdd64 plaintextBefore overheadBefore
        }
      else if index < core_recordCount core then checkedMul64 index fullRSPayloadRecord
      else
        do {
          let fullRecords = core_plaintextLength core div recordPlaintextMax;
          offset \<leftarrow> checkedMul64 fullRecords fullRSPayloadRecord;
          let partialLength = core_plaintextLength core mod recordPlaintextMax;
          if partialLength = 0 then Some offset
          else
            do {
              partialBodyLength \<leftarrow> encodedRecordBodyLength partialLength True;
              partialRecordLength \<leftarrow> checkedAdd64 recordDescriptorSize partialBodyLength;
              checkedAdd64 offset partialRecordLength
            }
        })"

definition recordGeometryMatchesCore :: "logicalCore \<Rightarrow> Geometry \<Rightarrow> bool" where
  "recordGeometryMatchesCore core geometry \<longleftrightarrow>
     (if \<not> validLogicalCore core \<or>
         geo_frontHeaderLength geometry < 0 \<or> geo_payloadLength geometry < 0 \<or>
         geo_backupCapsuleOffset geometry < 0 \<or>
         geo_recordCount geometry \<noteq> core_recordCount core \<or>
         geo_payloadBodyRS geometry \<noteq>
           (core_featureFlags core AND payloadBodyRSFeatureMask \<noteq> 0) \<or>
         (word_of_int (geo_frontHeaderLength geometry) :: u64) \<noteq> ucast (core_frontHeaderLength core)
      then False
      else
        case canonicalPayloadLength (core_plaintextLength core) (core_recordCount core)
               (geo_payloadBodyRS geometry) of
          None \<Rightarrow> False
        | Some payloadLength \<Rightarrow>
            if (word_of_int (geo_payloadLength geometry) :: u64) \<noteq> payloadLength then False
            else
              case checkedAdd64 (word_of_int (geo_frontHeaderLength geometry)) payloadLength of
                None \<Rightarrow> False
              | Some backupOffset \<Rightarrow>
                  (word_of_int (geo_backupCapsuleOffset geometry) :: u64) = backupOffset)"

text \<open>Every failure is \<open>errInvalidRecordRequest\<close>: an option.\<close>

definition expectedRecord :: "logicalCore \<Rightarrow> Geometry \<Rightarrow> u64 \<Rightarrow> recordExpectation option" where
  "expectedRecord core geometry index =
     (if geo_frontHeaderLength geometry < 0 \<or> geo_backupCapsuleOffset geometry < 0 \<or>
         \<not> recordGeometryMatchesCore core geometry \<or>
         index > core_recordCount core \<or> index \<ge> maximumRecordCount
      then None
      else
        let final = (index = core_recordCount core) in
        do {
          (plaintextOffset, ciphertextLength) \<leftarrow>
            (if final then Some (core_plaintextLength core, 0)
             else
               case checkedMul64 index recordPlaintextMax of
                 None \<Rightarrow> None
               | Some offset \<Rightarrow>
                   if offset \<ge> core_plaintextLength core then None
                   else Some (offset, min recordPlaintextMax (core_plaintextLength core - offset)));
          let descriptor = put_u64 index @ put_u32 (ucast ciphertextLength) @
                           [if final then 1 else 0, 0, 0, 0];
          relativeOffset \<leftarrow> recordOffsetWithinPayload core (geo_payloadBodyRS geometry) index;
          let frontHeaderLength = word_of_int (geo_frontHeaderLength geometry);
          let backupCapsuleOffset = word_of_int (geo_backupCapsuleOffset geometry);
          descriptorOffset \<leftarrow> checkedAdd64 frontHeaderLength relativeOffset;
          bodyOffset \<leftarrow> checkedAdd64 descriptorOffset recordDescriptorSize;
          encodedBodyLength \<leftarrow> encodedRecordBodyLength ciphertextLength (geo_payloadBodyRS geometry);
          recordEnd \<leftarrow> checkedAdd64 bodyOffset encodedBodyLength;
          if recordEnd > backupCapsuleOffset \<or> (final \<and> recordEnd \<noteq> backupCapsuleOffset) then None
          else
            do {
              descriptorOffset \<leftarrow> SafeUint64ToInt64 descriptorOffset;
              bodyOffset \<leftarrow> SafeUint64ToInt64 bodyOffset;
              if uint encodedBodyLength > MaxInt64 then None
              else
                Some \<lparr>exp_index = index, exp_final = final, exp_plaintextOffset = plaintextOffset,
                      exp_ciphertextLength = ciphertextLength, exp_descriptor = descriptor,
                      exp_descriptorOffset = descriptorOffset, exp_bodyOffset = bodyOffset,
                      exp_encodedBodyLength = unat encodedBodyLength,
                      exp_nonce = core_xChaChaNoncePrefix core @ put_u64 index,
                      exp_serpentIV =
                        (if core_suite core = SuiteParanoid
                         then core_serpentIVPrefix core @ put_u64 (push_bit 16 index)
                         else replicate 16 0)\<rparr>
            }
        })"

definition decodedRecordBodyLength :: "recordExpectation \<Rightarrow> bool \<Rightarrow> nat option" where
  "decodedRecordBodyLength expected payloadBodyRS =
     (if \<not> payloadBodyRS then Some (exp_encodedBodyLength expected)
      else if exp_encodedBodyLength expected = 0 \<or> exp_encodedBodyLength expected mod 136 \<noteq> 0
      then None
      else Some (exp_encodedBodyLength expected div 136 * 128))"

section \<open>Closed formulas\<close>

definition rec_off :: "bool \<Rightarrow> nat \<Rightarrow> nat \<Rightarrow> nat" where
  "rec_off rs n i = (\<Sum>j<i. rec_len rs n j)"

lemma rec_off_Suc [simp]: "rec_off rs n (Suc i) = rec_off rs n i + rec_len rs n i"
  by (simp add: rec_off_def)

lemma rec_off_end: "rec_off rs n (rec_count n) + rec_len rs n (rec_count n) = payload_len rs n"
  by (simp add: rec_off_def payload_len_def lessThan_Suc_atMost [symmetric])

lemma rec_off_mono: "i \<le> j \<Longrightarrow> rec_off rs n i \<le> rec_off rs n j"
  unfolding rec_off_def by (rule sum_mono2) auto

lemma rec_off_inside: "i \<le> rec_count n \<Longrightarrow> rec_off rs n i + rec_len rs n i \<le> payload_len rs n"
proof (cases "i = rec_count n")
  case False
  assume "i \<le> rec_count n"
  with False have "rec_off rs n (Suc i) \<le> rec_off rs n (rec_count n)" by (intro rec_off_mono) simp
  then show ?thesis using rec_off_end [of rs n] by simp
qed (simp add: rec_off_end)

text \<open>All records but the last data record are full.\<close>

lemma rec_plain_before: "Suc i < rec_count n \<Longrightarrow> rec_plain n i = 1048576"
  by (rule rec_plain_full) (simp add: rec_count_div split: if_splits)

lemma sum_rec_plain: "i \<le> rec_count n \<Longrightarrow> (\<Sum>j<i. rec_plain n j) = min n (i * 1048576)"
proof (induction i)
  case 0
  then show ?case by simp
next
  case (Suc i)
  then show ?case by (simp add: rec_plain_def)
qed

lemma rec_count_covers: "n \<le> rec_count n * 1048576"
  using rec_plain_final [of n] by (simp add: rec_plain_def min_def split: if_splits)

lemma rec_count_exceeds: "i < rec_count n \<Longrightarrow> i * 1048576 < n"
  unfolding rec_count_def by (cases "i * 1048576 < n") (auto simp: not_less, linarith?)

lemma rec_off_plain: "i \<le> rec_count n \<Longrightarrow> rec_off False n i = min n (i * 1048576) + i * 112"
  using sum_rec_plain [of i n]
  by (simp add: rec_off_def rec_len_def body_len_def sum.distrib)

lemma rec_off_rs: "i < rec_count n \<Longrightarrow> rec_off True n i = i * 1114296"
proof (induction i)
  case (Suc i)
  then show ?case using rec_plain_before [of i n] by (simp add: rec_len_def body_len_def)
qed (simp add: rec_off_def)

lemma rec_off_rs_final:
  "rec_off True n (rec_count n) = n div 1048576 * 1114296 +
     (if n mod 1048576 = 0 then 0 else 48 + body_len True (n mod 1048576))"
  using rec_off_end [of True n] payload_len_rs [of n]
  by (simp add: rec_len_def rec_plain_final body_len_def)

section \<open>The checked arithmetic computes them\<close>

text \<open>Words below a bound that keeps all sums in range.\<close>

lemma unat_word_small: "m < 2 ^ 64 \<Longrightarrow> unat (word_of_nat m :: u64) = m"
  by (simp add: unat_of_nat)

lemma encodedRecordBodyLength_exact:
  assumes "unat l \<le> 1048576"
  shows "encodedRecordBodyLength l rs = Some (word_of_nat (body_len rs (unat l)))"
proof -
  let ?b = "(unat l + 64 + 127) div 128"
  have b: "?b \<le> 8194" using assms by linarith
  have small: "unat (word_of_nat m :: u64) = m" if "m \<le> 2000000" for m
    using that by (intro unat_word_small) simp
  have u: "unat (word_of_nat (unat l + 64) :: u64) = unat l + 64" "unat (word_of_nat ?b :: u64) = ?b"
    "unat (word_of_nat (?b * 136) :: u64) = ?b * 136"
    by (rule small, use assms b in linarith)+
  have lit: "unat (64 :: u64) = 64" "unat (128 :: u64) = 128" "unat (136 :: u64) = 136" by simp_all
  have add: "checkedAdd64 l 64 = Some (word_of_nat (unat l + 64))"
    unfolding add64.Some_iff u lit ..
  have nz: "(128 :: u64) \<noteq> 0" by simp
  have div: "checkedCeilDiv64 (word_of_nat (unat l + 64)) 128 = Some (word_of_nat ?b)"
    unfolding checkedCeilDiv64_Some_iff [OF nz] u lit by simp
  have mul: "checkedMul64 (word_of_nat ?b) 136 = Some (word_of_nat (?b * 136))"
    unfolding mul64.Some_iff u lit ..
  show ?thesis
    using add div mul
    by (cases rs) (simp_all only: encodedRecordBodyLength_def body_len_def option.case if_True if_False simp_thms)
qed

lemma recordOffsetWithinPayload_exact:
  assumes count: "core_recordCount core = canonicalRecordCount (core_plaintextLength core)"
    and i: "unat i \<le> rec_count n" and n: "n = unat (core_plaintextLength core)"
    and fits: "payload_len rs n < 2 ^ 63"
  shows "recordOffsetWithinPayload core rs i = Some (word_of_nat (rec_off rs n (unat i)))"
proof -
  have rc: "unat (core_recordCount core) = rec_count n"
    by (simp add: count n unat_canonicalRecordCount)
  have off: "rec_off rs n (unat i) \<le> payload_len rs n" using rec_off_inside [OF i, of rs] by simp
  have small: "unat (word_of_nat m :: u64) = m" if "m \<le> payload_len rs n" for m
    using that fits by (intro unat_word_small) simp
  have lit: "unat (1048576 :: u64) = 1048576" "unat (112 :: u64) = 112" "unat (48 :: u64) = 48" by simp_all
  show ?thesis
  proof (cases rs)
    case False
    have closed: "rec_off rs n (unat i) = min n (unat i * 1048576) + unat i * 112"
      using rec_off_plain [OF i] False by simp
    have u: "unat (word_of_nat (min n (unat i * 1048576)) :: u64) = min n (unat i * 1048576)"
      "unat (word_of_nat (unat i * 112) :: u64) = unat i * 112"
      "unat (word_of_nat (rec_off rs n (unat i)) :: u64) = rec_off rs n (unat i)"
      by (rule small, use off closed in linarith)+
    have before: "(if i < core_recordCount core then checkedMul64 i 1048576
        else Some (core_plaintextLength core)) = Some (word_of_nat (min n (unat i * 1048576)))"
    proof (cases "i < core_recordCount core")
      case True
      then have "unat i * 1048576 < n" using rec_count_exceeds [of "unat i" n] rc
        by (simp add: word_less_nat_alt)
      then show ?thesis using True u by (simp only: if_True mul64.Some_iff lit)
    next
      case False
      then have "unat i = rec_count n" using i rc by (simp add: word_less_nat_alt)
      then have "min n (unat i * 1048576) = n" using rec_count_covers [of n] by simp
      then show ?thesis using False by (simp add: n)
    qed
    have "checkedMul64 i 112 = Some (word_of_nat (unat i * 112))"
      unfolding mul64.Some_iff u lit ..
    moreover have "checkedAdd64 (word_of_nat (min n (unat i * 1048576))) (word_of_nat (unat i * 112)) =
        Some (word_of_nat (rec_off rs n (unat i)))"
      unfolding add64.Some_iff u by (rule closed)
    ultimately show ?thesis
      using False before by (simp only: recordOffsetWithinPayload_def simp_thms if_True bind.bind_lunit)
  next
    case True
    show ?thesis
    proof (cases "i < core_recordCount core")
      case before: True
      then have "unat i < rec_count n" using rc by (simp add: word_less_nat_alt)
      then have "rec_off rs n (unat i) = unat i * 1114296" using rec_off_rs True by simp
      then show ?thesis
        using True before small [OF off]
        by (simp only: recordOffsetWithinPayload_def simp_thms if_True if_False mul64.Some_iff unat_full_rs)
    next
      case after: False
      then have final: "unat i = rec_count n" using i rc by (simp add: word_less_nat_alt)
      let ?q = "core_plaintextLength core div 1048576" and ?m = "core_plaintextLength core mod 1048576"
      have q: "unat ?q = n div 1048576" and m: "unat ?m = n mod 1048576"
        by (simp_all add: unat_div unat_mod n)
      have mz: "?m = 0 \<longleftrightarrow> n mod 1048576 = 0" by (simp add: word_unat_eq_iff m)
      have lt: "unat ?m \<le> 1048576" by (simp add: m)
      have closed: "rec_off rs n (unat i) = n div 1048576 * 1114296 +
          (if n mod 1048576 = 0 then 0 else 48 + body_len True (n mod 1048576))"
        using rec_off_rs_final True final by simp
      have mul: "checkedMul64 ?q fullRSPayloadRecord = Some (word_of_nat (n div 1048576 * 1114296))"
        unfolding mul64.Some_iff q unat_full_rs by (rule small) (use off closed in linarith)
      show ?thesis
      proof (cases "n mod 1048576 = 0")
        case z: True
        then show ?thesis
          using True after mul closed mz by (simp add: recordOffsetWithinPayload_def Let_def)
      next
        case nz: False
        let ?b = "body_len True (n mod 1048576)"
        have u: "unat (word_of_nat (n div 1048576 * 1114296) :: u64) = n div 1048576 * 1114296"
          "unat (word_of_nat ?b :: u64) = ?b" "unat (word_of_nat (48 + ?b) :: u64) = 48 + ?b"
          "unat (word_of_nat (rec_off rs n (unat i)) :: u64) = rec_off rs n (unat i)"
          by (rule small, use off closed nz in simp)+
        have body: "encodedRecordBodyLength ?m True = Some (word_of_nat ?b)"
          using encodedRecordBodyLength_exact [OF lt, of True] m by simp
        have a1: "checkedAdd64 48 (word_of_nat ?b) = Some (word_of_nat (48 + ?b))"
          unfolding add64.Some_iff u lit ..
        have a2: "checkedAdd64 (word_of_nat (n div 1048576 * 1114296)) (word_of_nat (48 + ?b)) =
            Some (word_of_nat (rec_off rs n (unat i)))"
          unfolding add64.Some_iff u using closed unfolding if_not_P [OF nz] .
        have "?m \<noteq> 0" using nz mz by simp
        then show ?thesis
          using True after mul body a1 a2
          by (simp only: recordOffsetWithinPayload_def Let_def simp_thms if_True if_False bind.bind_lunit)
      qed
    qed
  qed
qed

section \<open>The expectation in closed form\<close>

definition record_at :: "logicalCore \<Rightarrow> bool \<Rightarrow> nat \<Rightarrow> recordExpectation" where
  "record_at core rs i =
     (let n = unat (core_plaintextLength core);
          start = front_len (unat (core_commentLength core)) + rec_off rs n i;
          final = (i = rec_count n)
      in \<lparr>exp_index = word_of_nat i, exp_final = final,
          exp_plaintextOffset = word_of_nat (min n (i * 1048576)),
          exp_ciphertextLength = word_of_nat (rec_plain n i),
          exp_descriptor = put_u64 (word_of_nat i) @ put_u32 (word_of_nat (rec_plain n i)) @
                           [if final then 1 else 0, 0, 0, 0],
          exp_descriptorOffset = int start, exp_bodyOffset = int (start + 48),
          exp_encodedBodyLength = body_len rs (rec_plain n i),
          exp_nonce = core_xChaChaNoncePrefix core @ put_u64 (word_of_nat i),
          exp_serpentIV =
            (if core_suite core = SuiteParanoid
             then core_serpentIVPrefix core @ put_u64 (push_bit 16 (word_of_nat i))
             else replicate 16 0)\<rparr>)"

text \<open>A core with its canonical layout.\<close>

definition canonical_layout :: "logicalCore \<Rightarrow> bool \<Rightarrow> Geometry \<Rightarrow> bool" where
  "canonical_layout core rs geometry \<longleftrightarrow>
     validLogicalCore core \<and> rs = (core_featureFlags core AND payloadBodyRSFeatureMask \<noteq> 0) \<and>
     file_len rs (unat (core_plaintextLength core)) (unat (core_commentLength core)) < 2 ^ 63 \<and>
     geometry = layout_of rs (unat (core_plaintextLength core)) (unat (core_commentLength core))"

lemma canonical_layout_derive:
  "canonical_layout (cand_core c) (candidate_PayloadBodyRS c) g \<longleftrightarrow> deriveCanonicalGeometry c = Inr g"
  by (simp add: canonical_layout_def deriveCanonicalGeometry_Inr_iff candidate_PayloadBodyRS_def)

lemma layout_of_sel [simp]:
  "geo_metadataBlocks (layout_of rs n c) = word_of_nat (meta_blocks c)"
  "geo_payloadBodyRS (layout_of rs n c) = rs"
  "geo_recordCount (layout_of rs n c) = word_of_nat (rec_count n)"
  "geo_frontHeaderLength (layout_of rs n c) = int (front_len c)"
  "geo_payloadLength (layout_of rs n c) = int (payload_len rs n)"
  "geo_backupCapsuleOffset (layout_of rs n c) = int (front_len c + payload_len rs n)"
  "geo_trailerOffset (layout_of rs n c) = int (front_len c + payload_len rs n + 960)"
  "geo_fileSize (layout_of rs n c) = int (file_len rs n c)"
  by (simp_all add: layout_of_def)

lemma word_of_nat_unat: "word_of_nat (unat w) = (w :: 'a::len word)"
  by simp

lemma canonical_layout_count:
  assumes "canonical_layout core rs g"
  shows "core_recordCount core = word_of_nat (rec_count (unat (core_plaintextLength core)))"
    and "unat (core_recordCount core) = rec_count (unat (core_plaintextLength core))"
    and "unat (core_frontHeaderLength core) = front_len (unat (core_commentLength core))"
proof -
  have v: "validLogicalCore core" using assms by (simp add: canonical_layout_def)
  show u: "unat (core_recordCount core) = rec_count (unat (core_plaintextLength core))"
    using validLogicalCore_canonical(1) [OF v] by (simp add: unat_canonicalRecordCount)
  show "core_recordCount core = word_of_nat (rec_count (unat (core_plaintextLength core)))"
    unfolding u [symmetric] word_of_nat_unat ..
  show "unat (core_frontHeaderLength core) = front_len (unat (core_commentLength core))"
    by (rule validLogicalCore_canonical(4) [OF v])
qed

lemma canonical_layout_bounds:
  assumes "canonical_layout core rs g"
    and "k \<le> front_len (unat (core_commentLength core)) + payload_len rs (unat (core_plaintextLength core)) + 1008"
  shows "unat (word_of_nat k :: u64) = k" "(word_of_int (int k) :: u64) = word_of_nat k" "k < 2 ^ 63"
    "SafeUint64ToInt64 (word_of_nat k) = Some (int k)"
proof -
  have "file_len rs (unat (core_plaintextLength core)) (unat (core_commentLength core)) < 2 ^ 63"
    using assms(1) unfolding canonical_layout_def by (elim conjE)
  then show k: "k < 2 ^ 63" using assms(2) unfolding file_len_def by linarith
  show u: "unat (word_of_nat k :: u64) = k" using k by (intro unat_word_small) simp
  show "(word_of_int (int k) :: u64) = word_of_nat k" by simp
  show "SafeUint64ToInt64 (word_of_nat k) = Some (int k)" unfolding Safe_Some_nat u using k by simp
qed

lemma recordGeometryMatchesCore_canonical:
  assumes "canonical_layout core rs g"
  shows "recordGeometryMatchesCore core g"
proof -
  let ?n = "unat (core_plaintextLength core)" and ?c = "unat (core_commentLength core)"
  have v: "validLogicalCore core" and g: "g = layout_of rs ?n ?c"
    and rs: "rs = (core_featureFlags core AND payloadBodyRSFeatureMask \<noteq> 0)"
    using assms by (simp_all add: canonical_layout_def)
  note cnt = canonical_layout_count [OF assms]
  have F: "(word_of_nat (front_len ?c) :: u64) = ucast (core_frontHeaderLength core)"
  proof -
    have "unat (ucast (core_frontHeaderLength core) :: u64) = front_len ?c" using cnt(3) by simp
    then show ?thesis by (metis word_of_nat_unat)
  qed
  have b: "unat (word_of_nat (front_len ?c) :: u64) = front_len ?c"
    "unat (word_of_nat (payload_len rs ?n) :: u64) = payload_len rs ?n"
    "unat (word_of_nat (front_len ?c + payload_len rs ?n) :: u64) = front_len ?c + payload_len rs ?n"
    by (rule canonical_layout_bounds [OF assms], simp)+
  have p: "canonicalPayloadLength (core_plaintextLength core) (core_recordCount core) rs =
      Some (word_of_nat (payload_len rs ?n))"
    unfolding canonicalPayloadLength_Some_iff b
    using validLogicalCore_canonical(1) [OF v] by simp
  have a: "checkedAdd64 (word_of_nat (front_len ?c)) (word_of_nat (payload_len rs ?n)) =
      Some (word_of_nat (front_len ?c + payload_len rs ?n))"
    unfolding add64.Some_iff b ..
  have w: "word_of_int (int k) = (word_of_nat k :: u64)" for k by simp
  show ?thesis
    unfolding recordGeometryMatchesCore_def g layout_of_sel w p option.case a
    using v cnt(1) rs F by simp
qed

lemma data_record_extent:
  assumes "i < rec_count n" and "n < 2 ^ 64" and "n = unat p"
  shows "checkedMul64 (word_of_nat i) 1048576 = Some (word_of_nat (i * 1048576))"
    and "\<not> word_of_nat (i * 1048576) \<ge> (p :: u64)"
    and "min 1048576 (p - word_of_nat (i * 1048576)) = word_of_nat (rec_plain n i)"
    and "min n (i * 1048576) = i * 1048576"
proof -
  have lt: "i * 1048576 < n" using rec_count_exceeds [OF assms(1)] .
  have u: "unat (word_of_nat i :: u64) = i" "unat (word_of_nat (i * 1048576) :: u64) = i * 1048576"
    by (rule unat_word_small, use lt assms(2) in linarith)+
  have lit: "unat (1048576 :: u64) = 1048576" by simp
  show "checkedMul64 (word_of_nat i) 1048576 = Some (word_of_nat (i * 1048576))"
    unfolding mul64.Some_iff u lit ..
  show nle: "\<not> word_of_nat (i * 1048576) \<ge> p"
    unfolding word_le_nat_alt u using lt assms(3) by simp
  then have "unat (p - word_of_nat (i * 1048576)) = n - i * 1048576"
    using u assms(3) by (subst unat_sub) (simp_all add: word_le_nat_alt)
  then have "unat (min 1048576 (p - word_of_nat (i * 1048576))) = rec_plain n i"
    unfolding rec_plain_def min_def word_le_nat_alt lit by simp
  then show "min 1048576 (p - word_of_nat (i * 1048576)) = word_of_nat (rec_plain n i)"
    by (metis word_of_nat_unat)
  show "min n (i * 1048576) = i * 1048576" using lt by simp
qed

lemma expectedRecord_canonical:
  assumes lay: "canonical_layout core rs g" and i: "i \<le> rec_count (unat (core_plaintextLength core))"
  shows "expectedRecord core g (word_of_nat i) = Some (record_at core rs i)"
proof -
  let ?n = "unat (core_plaintextLength core)" and ?c = "unat (core_commentLength core)"
  let ?start = "front_len ?c + rec_off rs ?n i" and ?len = "rec_plain ?n i"
  have v: "validLogicalCore core" and g: "g = layout_of rs ?n ?c"
    using lay by (simp_all add: canonical_layout_def)
  note cnt = canonical_layout_count [OF lay]
  have count: "rec_count ?n < 281474976710656"
    using rec_count_bound [of ?n] unat_u64_less [of "core_plaintextLength core"] by simp
  have ui: "unat (word_of_nat i :: u64) = i" using i count by (intro unat_word_small) simp
  have final: "word_of_nat i = core_recordCount core \<longleftrightarrow> i = rec_count ?n"
    using ui cnt(2) by (metis word_of_nat_unat)
  have fin_lt: "\<not> word_of_nat i > core_recordCount core" "\<not> (word_of_nat i :: u64) \<ge> 281474976710656"
    using ui cnt(2) i count by (simp_all add: word_less_nat_alt word_le_nat_alt)
  have match: "recordGeometryMatchesCore core g" by (rule recordGeometryMatchesCore_canonical [OF lay])
  have len: "?len \<le> 1048576" by (rule rec_plain_le)
  have ul: "unat (word_of_nat ?len :: u64) = ?len" using len by (intro unat_word_small) simp
  have cast: "ucast (word_of_nat ?len :: u64) = (word_of_nat ?len :: u32)"
  proof -
    have "unat (word_of_nat ?len :: u32) = ?len" using len by (simp add: unat_of_nat)
    then show ?thesis using ul len
      by (simp add: word_unat_eq_iff unsigned_ucast_eq take_bit_nat_eq_self_iff)
  qed
  have inside: "rec_off rs ?n i + (48 + body_len rs ?len) \<le> payload_len rs ?n"
    using rec_off_inside [OF i, of rs] by (simp add: rec_len_def)
  have ending: "i = rec_count ?n \<Longrightarrow> rec_off rs ?n i + (48 + body_len rs ?len) = payload_len rs ?n"
    using rec_off_end [of rs ?n] by (simp add: rec_len_def)
  have off: "recordOffsetWithinPayload core rs (word_of_nat i) = Some (word_of_nat (rec_off rs ?n i))"
  proof -
    have "payload_len rs ?n < 2 ^ 63" using canonical_layout_bounds(3) [OF lay, of "payload_len rs ?n"] by simp
    with recordOffsetWithinPayload_exact [of core "word_of_nat i" ?n rs] show ?thesis
      using validLogicalCore_canonical(1) [OF v] ui i by simp
  qed
  have b: "unat (word_of_nat (front_len ?c) :: u64) = front_len ?c"
    "unat (word_of_nat (rec_off rs ?n i) :: u64) = rec_off rs ?n i"
    "unat (word_of_nat ?start :: u64) = ?start"
    "unat (word_of_nat (?start + 48) :: u64) = ?start + 48"
    "unat (word_of_nat (body_len rs ?len) :: u64) = body_len rs ?len"
    "unat (word_of_nat (?start + 48 + body_len rs ?len) :: u64) = ?start + 48 + body_len rs ?len"
    "unat (word_of_nat (front_len ?c + payload_len rs ?n) :: u64) = front_len ?c + payload_len rs ?n"
    by (rule canonical_layout_bounds [OF lay], use inside in linarith)+
  have conv: "SafeUint64ToInt64 (word_of_nat ?start) = Some (int ?start)"
    "SafeUint64ToInt64 (word_of_nat (?start + 48)) = Some (int (?start + 48))"
    by (rule canonical_layout_bounds [OF lay], use inside in linarith)+
  have lit: "unat (48 :: u64) = 48" by simp
  have a1: "checkedAdd64 (word_of_nat (front_len ?c)) (word_of_nat (rec_off rs ?n i)) = Some (word_of_nat ?start)"
    unfolding add64.Some_iff b ..
  have a2: "checkedAdd64 (word_of_nat ?start) 48 = Some (word_of_nat (?start + 48))"
    unfolding add64.Some_iff b lit ..
  have a3: "encodedRecordBodyLength (word_of_nat ?len) rs = Some (word_of_nat (body_len rs ?len))"
    using encodedRecordBodyLength_exact [of "word_of_nat ?len" rs] ul len by simp
  have a4: "checkedAdd64 (word_of_nat (?start + 48)) (word_of_nat (body_len rs ?len)) =
      Some (word_of_nat (?start + 48 + body_len rs ?len))"
    unfolding add64.Some_iff b ..
  have fits: "\<not> (word_of_nat (?start + 48 + body_len rs ?len) > (word_of_nat (front_len ?c + payload_len rs ?n) :: u64) \<or>
      i = rec_count ?n \<and> word_of_nat (?start + 48 + body_len rs ?len) \<noteq>
        (word_of_nat (front_len ?c + payload_len rs ?n) :: u64))"
    unfolding word_less_nat_alt word_unat_eq_iff b using inside ending by auto
  have maxint: "\<not> uint (word_of_nat (body_len rs ?len) :: u64) > MaxInt64"
    unfolding uint_le_MaxInt64 b using canonical_layout_bounds(3) [OF lay, of "body_len rs ?len"] inside by linarith
  have first: "(if i = rec_count ?n then Some (core_plaintextLength core, 0)
      else case checkedMul64 (word_of_nat i) recordPlaintextMax of None \<Rightarrow> None
        | Some offset \<Rightarrow> if offset \<ge> core_plaintextLength core then None
            else Some (offset, min recordPlaintextMax (core_plaintextLength core - offset))) =
      Some (word_of_nat (min ?n (i * 1048576)), word_of_nat ?len)"
  proof (cases "i = rec_count ?n")
    case True
    then have "min ?n (i * 1048576) = ?n" using rec_count_covers [of ?n] by simp
    then show ?thesis using True rec_plain_final [of ?n] by simp
  next
    case False
    then have "i < rec_count ?n" using i by simp
    note ext = data_record_extent [OF this unat_u64_less refl]
    show ?thesis
      unfolding if_not_P [OF False] ext(1) option.case if_not_P [OF ext(2)] ext(3,4) ..
  qed
  have neg: "\<not> (int (front_len ?c) < 0 \<or> int (front_len ?c + payload_len rs ?n) < 0 \<or>
      \<not> recordGeometryMatchesCore core (layout_of rs ?n ?c) \<or>
      word_of_nat i > core_recordCount core \<or> (word_of_nat i :: u64) \<ge> 281474976710656)"
    using match fin_lt unfolding g by simp
  have wi: "word_of_int (int k) = (word_of_nat k :: u64)" for k by simp
  show ?thesis
    unfolding expectedRecord_def g layout_of_sel if_not_P [OF neg] Let_def final first wi
      bind.bind_lunit prod.case off a1 a2 a3 a4 if_not_P [OF fits] conv if_not_P [OF maxint]
      record_at_def b cast ..
qed

lemma record_at_sel [simp]:
  "exp_index (record_at core rs i) = word_of_nat i"
  "exp_final (record_at core rs i) \<longleftrightarrow> i = rec_count (unat (core_plaintextLength core))"
  "exp_descriptorOffset (record_at core rs i) =
     int (front_len (unat (core_commentLength core)) + rec_off rs (unat (core_plaintextLength core)) i)"
  "exp_bodyOffset (record_at core rs i) =
     int (front_len (unat (core_commentLength core)) + rec_off rs (unat (core_plaintextLength core)) i + 48)"
  "exp_encodedBodyLength (record_at core rs i) =
     body_len rs (rec_plain (unat (core_plaintextLength core)) i)"
  "exp_ciphertextLength (record_at core rs i) = word_of_nat (rec_plain (unat (core_plaintextLength core)) i)"
  "exp_nonce (record_at core rs i) = core_xChaChaNoncePrefix core @ put_u64 (word_of_nat i)"
  "exp_descriptor (record_at core rs i) = put_u64 (word_of_nat i) @
     put_u32 (word_of_nat (rec_plain (unat (core_plaintextLength core)) i)) @
     [if i = rec_count (unat (core_plaintextLength core)) then 1 else 0, 0, 0, 0]"
  by (simp_all add: record_at_def Let_def)

section \<open>Key streams are never shared\<close>

lemma be_decode_append: "be_decode (xs @ ys) = be_decode xs * 256 ^ length ys + be_decode ys"
proof (induction ys rule: rev_induct)
  case Nil
  then show ?case by simp
next
  case (snoc y ys)
  then show ?case by (simp add: be_decode_snoc append_assoc [symmetric] algebra_simps del: append_assoc)
qed

lemma be_decode_put_u64: "be_decode (put_u64 w) = unat w"
  using unat_u64_less [of w] by (simp add: put_u64_def be_decode_encode)

lemma be_encode_inject: "a < 256 ^ n \<Longrightarrow> b < 256 ^ n \<Longrightarrow> be_encode n a = be_encode n b \<longleftrightarrow> a = b"
  by (metis be_decode_encode mod_less)

text \<open>The counter blocks of record \<open>i\<close> start at \<open>i * 2 ^ 16\<close> above the prefix, and a record of one
  MiB has \<open>2 ^ 16\<close> of them.\<close>

lemma record_iv_value:
  assumes "length prefix = 8" and "i < 281474976710656"
  shows "be_decode (prefix @ put_u64 (push_bit 16 (word_of_nat i))) = be_decode prefix * 2 ^ 64 + i * 65536"
proof -
  have i: "unat (word_of_nat i :: u64) = i" using assms(2) by (intro unat_word_small) simp
  have "unat (push_bit 16 (word_of_nat i) :: u64) = take_bit LENGTH(64) (push_bit 16 (unat (word_of_nat i :: u64)))"
    by (rule unsigned_push_bit_eq)
  also have "\<dots> = i * 65536"
    unfolding i push_bit_eq_mult take_bit_eq_mod using assms(2) by simp
  finally have "unat (push_bit 16 (word_of_nat i) :: u64) = i * 65536" .
  then show ?thesis by (simp add: be_decode_append be_decode_put_u64)
qed

lemma counter_blocks_disjoint:
  assumes "length prefix = 8" and "i < 281474976710656" and "j < 281474976710656"
    and "a < 65536" and "b < 65536" and "i \<noteq> j"
  shows "ctr_block (prefix @ put_u64 (push_bit 16 (word_of_nat i))) a \<noteq>
         ctr_block (prefix @ put_u64 (push_bit 16 (word_of_nat j))) b"
proof -
  have p: "be_decode prefix < 2 ^ 64" using be_decode_bound [of prefix] assms(1) by simp
  let ?x = "be_decode prefix * 2 ^ 64 + (i * 65536 + a)" and ?y = "be_decode prefix * 2 ^ 64 + (j * 65536 + b)"
  have small: "i * 65536 + a < 2 ^ 64" "j * 65536 + b < 2 ^ 64" using assms by simp_all
  have lt: "be_decode prefix * 2 ^ 64 + m < 256 ^ 16" if "m < 2 ^ 64" for m
  proof -
    have "be_decode prefix * 2 ^ 64 + m < (be_decode prefix + 1) * 2 ^ 64" using that by simp
    also have "\<dots> \<le> 2 ^ 64 * 2 ^ 64" using p by (intro mult_le_mono1) simp
    finally show ?thesis by simp
  qed
  have "i * 65536 + a \<noteq> j * 65536 + b"
  proof
    assume e: "i * 65536 + a = j * 65536 + b"
    have "i = (i * 65536 + a) div 65536" "j = (j * 65536 + b) div 65536" using assms(4,5) by simp_all
    then have "i = j" unfolding e by simp
    with assms(6) show False by simp
  qed
  then have "?x \<noteq> ?y" by simp
  then show ?thesis
    unfolding ctr_block_def record_iv_value [OF assms(1,2)] record_iv_value [OF assms(1,3)]
    using be_encode_inject [OF lt [OF small(1)] lt [OF small(2)]] by (simp add: add.assoc)
qed

text \<open>A concrete paranoid volume: two million bytes in two data records, a comment of 5 bytes.\<close>

definition example_core :: "u64 \<Rightarrow> logicalCore" where
  "example_core n =
     \<lparr>core_magic = normalDiscriminator, core_major = 3, core_schema = 1, core_suite = 2,
      core_featureFlags = 1, core_frontHeaderLength = 1112, core_volumeID = replicate 32 7,
      core_payloadKind = 1, core_recordProfile = 1, core_metadataProfile = 1, core_reserved = 0,
      core_plaintextLength = n, core_recordCount = canonicalRecordCount n,
      core_xChaChaNoncePrefix = replicate 16 8, core_serpentIVPrefix = replicate 8 9,
      core_commentLength = 5\<rparr>"

definition example_candidate :: "u64 \<Rightarrow> Candidate" where
  "example_candidate n =
     \<lparr>cand_core = example_core n, cand_role = 0, cand_credentialMode = 1, cand_keyfileMode = 0,
      cand_kdfProfile = 2, cand_keyfileCount = 0, cand_reserved = [0, 0],
      cand_argonSalt = replicate 16 1, cand_wrapNonce = replicate 24 2,
      cand_wrapSerpentIV = replicate 16 3, cand_wrappedVolumeKey = replicate 32 4,
      cand_replicaTag = replicate 64 5, cand_wrapTag = replicate 64 6\<rparr>"

lemma example_core_valid:
  "validLogicalCore (example_core n)" "wf_core (example_core n)" "wf_candidate (example_candidate n)"
proof -
  obtain b f where bf: "canonicalMetadataGeometry 5 = Some (b, f)"
    "unat b = meta_blocks (unat (5 :: u32))" "unat f = front_len (unat (5 :: u32))"
    by (rule canonicalMetadataGeometry_exact)
  then have "unat f = 1112" by (simp add: front_len_def meta_blocks_def)
  then have "f = 1112" by (simp add: word_unat_eq_iff)
  moreover have "\<not> canonicalRecordCount n \<ge> maximumRecordCount"
    using canonicalRecordCount_below_limit [of n] by simp
  ultimately show "validLogicalCore (example_core n)"
    using bf(1) by (simp add: validLogicalCore_def example_core_def isSupportedSuite_def)
  show "wf_core (example_core n)" "wf_candidate (example_candidate n)"
    by (simp_all add: wf_core_def wf_candidate_def example_core_def example_candidate_def)
qed

lemma example_candidate_derives:
  "deriveCanonicalGeometry (example_candidate 2000000) = Inr (layout_of True 2000000 5)"
proof -
  have "file_len True 2000000 5 < 2 ^ 63"
    by (simp add: file_len_def front_len_def meta_blocks_def payload_len_rs body_len_def)
  then show ?thesis
    using example_core_valid(1) [of 2000000]
    by (simp add: deriveCanonicalGeometry_Inr_iff example_candidate_def candidate_PayloadBodyRS_def)
      (simp add: example_core_def)
qed

section \<open>Properties\<close>

text \<open>C23: the records tile the payload. From the canonical layout of a core the checked
  derivation succeeds for every index up to the record count and for no other; the first
  descriptor follows the front header, every body follows its 48-byte descriptor, every record
  starts where the one before it ends, and the final record ends at the backup capsule.\<close>

theorem records_tile_payload:
  assumes "deriveCanonicalGeometry c = Inr g"
  defines "count \<equiv> unat (core_recordCount (cand_core c))"
  shows "\<exists>e. length e = count + 1 \<and>
     (\<forall>index. expectedRecord (cand_core c) g index =
        (if unat index \<le> count then Some (e ! unat index) else None)) \<and>
     exp_descriptorOffset (e ! 0) = geo_frontHeaderLength g \<and>
     list_all (\<lambda>r. exp_bodyOffset r = exp_descriptorOffset r + 48) e \<and>
     list_all (\<lambda>i. exp_descriptorOffset (e ! (i + 1)) =
        exp_bodyOffset (e ! i) + int (exp_encodedBodyLength (e ! i))) [0..<count] \<and>
     exp_bodyOffset (e ! count) + int (exp_encodedBodyLength (e ! count)) = geo_backupCapsuleOffset g"
proof -
  let ?core = "cand_core c" and ?rs = "candidate_PayloadBodyRS c"
  let ?n = "unat (core_plaintextLength ?core)"
  have lay: "canonical_layout ?core ?rs g" using assms(1) by (simp add: canonical_layout_derive)
  have g: "g = layout_of ?rs ?n (unat (core_commentLength ?core))"
    using lay by (simp add: canonical_layout_def)
  have cnt: "count = rec_count ?n" using canonical_layout_count(2) [OF lay] by (simp add: count_def)
  let ?e = "map (record_at ?core ?rs) [0..<count + 1]"
  have nth: "?e ! i = record_at ?core ?rs i" if "i \<le> count" for i
    using that nth_map_upt [of i "count + 1" 0 "record_at ?core ?rs"] by (simp del: upt_Suc)
  have "expectedRecord ?core g index = (if unat index \<le> count then Some (?e ! unat index) else None)" for index
  proof (cases "unat index \<le> count")
    case True
    then show ?thesis
      using expectedRecord_canonical [OF lay, of "unat index"] nth [OF True] cnt by simp
  next
    case False
    then have "index > core_recordCount ?core" by (simp add: word_less_nat_alt count_def)
    then show ?thesis using False by (simp add: expectedRecord_def)
  qed
  moreover have "exp_descriptorOffset (?e ! 0) = geo_frontHeaderLength g"
    using nth [of 0] g by (simp add: rec_off_def)
  moreover have "list_all (\<lambda>r. exp_bodyOffset r = exp_descriptorOffset r + 48) ?e"
    by (simp add: list_all_iff del: upt_Suc)
  moreover have "list_all (\<lambda>i. exp_descriptorOffset (?e ! (i + 1)) =
      exp_bodyOffset (?e ! i) + int (exp_encodedBodyLength (?e ! i))) [0..<count]"
    using nth by (simp add: list_all_iff rec_len_def del: upt_Suc)
  moreover have "exp_bodyOffset (?e ! count) + int (exp_encodedBodyLength (?e ! count)) = geo_backupCapsuleOffset g"
    using nth [of count] g cnt rec_off_end [of ?rs ?n] by (simp add: rec_len_def del: upt_Suc)
  moreover have "length ?e = count + 1" by simp
  ultimately show ?thesis by blast
qed

theorem records_tile_payload_witness:
  "\<exists>e. length e = unat (core_recordCount (cand_core (example_candidate 2000000))) + 1 \<and>
     exp_descriptorOffset (e ! 0) = 1112 \<and>
     expectedRecord (cand_core (example_candidate 2000000)) (layout_of True 2000000 5) 0 = Some (e ! 0)"
proof -
  obtain e where e: "length e = unat (core_recordCount (cand_core (example_candidate 2000000))) + 1"
    "\<forall>index. expectedRecord (cand_core (example_candidate 2000000)) (layout_of True 2000000 5) index =
       (if unat index \<le> unat (core_recordCount (cand_core (example_candidate 2000000)))
        then Some (e ! unat index) else None)"
    "exp_descriptorOffset (e ! 0) = geo_frontHeaderLength (layout_of True 2000000 5)"
    using records_tile_payload [OF example_candidate_derives] by blast
  have "exp_descriptorOffset (e ! 0) = 1112"
    using e(3) by (simp add: front_len_def meta_blocks_def)
  with e(1) e(2) [rule_format, of 0] show ?thesis by (intro exI [of _ e]) simp
qed

text \<open>C22: no two data records of a volume share key stream. Their XChaCha20 nonces differ, and in
  the paranoid suite no counter block that Serpent encrypts for one of them is a counter block
  of the other.\<close>

theorem record_key_streams_disjoint:
  assumes "deriveCanonicalGeometry c = Inr g" and "wf_core (cand_core c)"
    and "i < core_recordCount (cand_core c)" and "j < core_recordCount (cand_core c)" and "i \<noteq> j"
    and "expectedRecord (cand_core c) g i = Some ei" and "expectedRecord (cand_core c) g j = Some ej"
    and "16 * a < unat (exp_ciphertextLength ei)" and "16 * b < unat (exp_ciphertextLength ej)"
  shows "exp_nonce ei \<noteq> exp_nonce ej \<and>
    (core_suite (cand_core c) = SuiteStandard \<or>
     ctr_block (exp_serpentIV ei) a \<noteq> ctr_block (exp_serpentIV ej) b)"
proof -
  let ?core = "cand_core c" and ?rs = "candidate_PayloadBodyRS c"
  let ?n = "unat (core_plaintextLength ?core)"
  have lay: "canonical_layout ?core ?rs g" using assms(1) by (simp add: canonical_layout_derive)
  have cnt: "unat (core_recordCount ?core) = rec_count ?n" by (rule canonical_layout_count(2) [OF lay])
  have lim: "rec_count ?n < 281474976710656"
    using rec_count_bound [of ?n] unat_u64_less [of "core_plaintextLength ?core"] by simp
  have ij: "unat i < rec_count ?n" "unat j < rec_count ?n"
    using assms(3,4) cnt by (simp_all add: word_less_nat_alt)
  have e: "ei = record_at ?core ?rs (unat i)" "ej = record_at ?core ?rs (unat j)"
    using expectedRecord_canonical [OF lay, of "unat i"] expectedRecord_canonical [OF lay, of "unat j"]
      ij assms(6,7) by simp_all
  have len: "unat (word_of_nat (rec_plain ?n k) :: u64) = rec_plain ?n k" for k
    using rec_plain_le [of ?n k] by (intro unat_word_small) simp
  have ab: "a < 65536" "b < 65536"
    using assms(8,9) rec_plain_le [of ?n "unat i"] rec_plain_le [of ?n "unat j"]
    unfolding e record_at_sel len by linarith+
  have "unat i \<noteq> unat j" using assms(5) by (simp add: word_unat_eq_iff)
  have "exp_nonce ei \<noteq> exp_nonce ej"
    using assms(5) unfolding e record_at_sel append_same_eq same_append_eq word_of_nat_unat
    by (metis get_put_u64)
  moreover have "core_suite ?core = SuiteStandard \<or> core_suite ?core = SuiteParanoid"
    using lay by (auto simp: canonical_layout_def validLogicalCore_def isSupportedSuite_def split: if_splits)
  moreover have "ctr_block (exp_serpentIV ei) a \<noteq> ctr_block (exp_serpentIV ej) b"
    if "core_suite ?core = SuiteParanoid"
    using counter_blocks_disjoint [of "core_serpentIVPrefix ?core" "unat i" "unat j" a b]
      assms(2) ij lim ab \<open>unat i \<noteq> unat j\<close> that
    by (simp add: e record_at_def Let_def wf_core_def)
  ultimately show ?thesis by blast
qed

theorem record_key_streams_disjoint_witness:
  "\<exists>e0 e1. expectedRecord (example_core 2000000) (layout_of True 2000000 5) 0 = Some e0 \<and>
     expectedRecord (example_core 2000000) (layout_of True 2000000 5) 1 = Some e1 \<and>
     exp_nonce e0 \<noteq> exp_nonce e1 \<and>
     ctr_block (exp_serpentIV e0) 65535 \<noteq> ctr_block (exp_serpentIV e1) 0"
proof -
  let ?c = "example_candidate 2000000"
  have core: "cand_core ?c = example_core 2000000" by (simp add: example_candidate_def)
  have n: "unat (core_plaintextLength (cand_core ?c)) = 2000000" by (simp add: core example_core_def)
  have lay: "canonical_layout (cand_core ?c) True (layout_of True 2000000 5)"
    using example_candidate_derives canonical_layout_derive [of ?c]
    by (simp add: core candidate_PayloadBodyRS_def example_core_def)
  have e0: "expectedRecord (cand_core ?c) (layout_of True 2000000 5) 0 = Some (record_at (cand_core ?c) True 0)"
    using expectedRecord_canonical [OF lay, of 0] by simp
  have e1: "expectedRecord (cand_core ?c) (layout_of True 2000000 5) 1 = Some (record_at (cand_core ?c) True 1)"
    using expectedRecord_canonical [OF lay, of 1] n by (simp add: rec_count_def)
  have wf: "wf_core (cand_core ?c)" using example_core_valid by (simp add: core)
  have cnt: "0 < core_recordCount (cand_core ?c)" "1 < core_recordCount (cand_core ?c)"
    using canonical_layout_count(2) [OF lay] n by (simp_all add: word_less_nat_alt rec_count_def)
  have len: "16 * 65535 < unat (exp_ciphertextLength (record_at (cand_core ?c) True 0))"
    "16 * 0 < unat (exp_ciphertextLength (record_at (cand_core ?c) True 1))"
    unfolding record_at_sel n by (simp_all add: rec_plain_def)
  have "core_suite (cand_core ?c) \<noteq> SuiteStandard" by (simp add: core example_core_def)
  moreover have "(0 :: u64) \<noteq> 1" by simp
  ultimately show ?thesis
    using record_key_streams_disjoint [OF example_candidate_derives wf cnt _ e0 e1 len] e0 e1
    unfolding core by blast
qed

end
