(* ===== verification/Records.thy ===== *)
theory Records
  imports Metadata Record_Layout
begin

text \<open>
  The record engine of the reader (\<open>pcv3/records.go\<close>): loading the payload keys, one record
  from its descriptor to its plaintext (\<open>evaluateCanonicalRecord\<close>), and the traversal of all
  records into a sink (\<open>readNormalRecordsWithSeams\<close>). The seams are the default ones. Scratch
  buffers matter by their lengths only. What a callback captures in variables of its caller is
  returned beside the error.
\<close>

section \<open>Failures\<close>

abbreviation (input) newRecordFailure :: "Stage \<Rightarrow> cause \<Rightarrow> pcv3_error" where
  "newRecordFailure stage c \<equiv> RecordFailure stage c"

abbreviation (input) poll_record :: "(world, pcv3_error, unit) io" where
  "poll_record \<equiv> poll (\<lambda>c. newRecordFailure StageCancellation c)"

text \<open>\<open>recordCancellationCause\<close>: two polls, the second for the cause.\<close>

definition recordCancellationCause :: "pcv3_error \<Rightarrow> world \<Rightarrow> cause option \<times> world" where
  "recordCancellationCause e w =
     (case ctx_Err w of
        (Some _, w) \<Rightarrow> ctx_Err w
      | (None, w) \<Rightarrow>
          (case error_cause e of
             Some c \<Rightarrow> (if isCancel c then Some c else None, w)
           | None \<Rightarrow> (None, w)))"

text \<open>A cause that is itself an error of the package is kept as the cause at its root.\<close>

definition root_cause :: "pcv3_error \<Rightarrow> cause" where
  "root_cause e = (case error_cause e of Some c \<Rightarrow> c | None \<Rightarrow> InvalidRecordRequest)"

definition classifyRecordKeyFailure :: "pcv3_error \<Rightarrow> world \<Rightarrow> pcv3_error \<times> world" where
  "classifyRecordKeyFailure e w =
     (case recordCancellationCause e w of
        (Some c, w) \<Rightarrow> (newRecordFailure StageCancellation c, w)
      | (None, w) \<Rightarrow> (newRecordFailure StageCredentialPolicy (root_cause e), w))"

section \<open>Record tags\<close>

definition recordMACDomain :: "byte list" where
  "recordMACDomain = ascii ''Picocrypt-NG/PCV3/record'' @ [0]"

definition recordTag ::
  "prims \<Rightarrow> u16 \<Rightarrow> byte list \<Rightarrow> byte list \<Rightarrow> byte list \<Rightarrow> byte list \<Rightarrow> cause + byte list" where
  "recordTag P suite key commitment descriptor ciphertext =
     (if length key \<noteq> 32 \<or> \<not> isSupportedSuite suite then Inl RecordAuthenticationCause
      else map_err (\<lambda>_. RecordAuthenticationCause)
             (suiteMACTag P suite key [recordMACDomain, commitment, descriptor, ciphertext]))"

definition verifyRecordTag ::
  "prims \<Rightarrow> u16 \<Rightarrow> byte list \<Rightarrow> byte list \<Rightarrow> byte list \<Rightarrow> byte list \<Rightarrow> byte list \<Rightarrow> cause + bool" where
  "verifyRecordTag P suite key commitment descriptor ciphertext expectedTag =
     (if length expectedTag \<noteq> 64 then Inl RecordAuthenticationCause
      else ebind (recordTag P suite key commitment descriptor ciphertext)
             (\<lambda>actual. Inr (actual = expectedTag)))"

definition recordPaddingIsZero :: "byte list \<Rightarrow> bool" where
  "recordPaddingIsZero data \<longleftrightarrow> list_all (\<lambda>value. value = 0) data"

text \<open>Beside an error the code returns \<open>valid = false\<close>.\<close>

definition authenticateDecodedRecord ::
  "prims \<Rightarrow> u16 \<Rightarrow> byte list \<Rightarrow> byte list \<Rightarrow> recordExpectation \<Rightarrow> byte list \<Rightarrow> cause + bool" where
  "authenticateDecodedRecord P suite macKey commitment expected decoded =
     (case checkedAdd64 (exp_ciphertextLength expected) recordTagSize of
        None \<Rightarrow> Inl RecordBodyRecovery
      | Some semanticLength \<Rightarrow>
          if unat semanticLength > length decoded \<or>
             uint (exp_ciphertextLength expected) > MaxInt64 \<or> uint semanticLength > MaxInt64
          then Inl RecordBodyRecovery
          else
            let ciphertextLength = unat (exp_ciphertextLength expected);
                semanticLengthInt = unat semanticLength
            in if \<not> recordPaddingIsZero (drop semanticLengthInt decoded)
               then Inl RecordBodyRecovery
               else verifyRecordTag P suite macKey commitment (exp_descriptor expected)
                      (take ciphertextLength decoded)
                      (slice ciphertextLength (semanticLengthInt - ciphertextLength) decoded))"

section \<open>Reading and decoding\<close>

definition readRecordExactAt :: "int \<Rightarrow> nat \<Rightarrow> Stage \<Rightarrow> (world, pcv3_error, byte list) io" where
  "readRecordExactAt offset n truncationStage =
     (if offset < 0 \<or> offset > MaxInt64 - int n
      then io_fail (newRecordFailure StageInputIO InvalidReader)
      else
        io_bind poll_record (\<lambda>_ w.
          case exact_read True offset n w of
            ((bytes, ReadDone), w) \<Rightarrow> (Inr bytes, w)
          | ((_, ReadTruncated), w) \<Rightarrow>
              (Inl (newRecordFailure truncationStage RecordUnexpectedTruncation), w)
          | ((_, ReadCancelled c), w) \<Rightarrow> (Inl (newRecordFailure StageCancellation c), w)
          | ((_, ReadFailed c), w) \<Rightarrow> (Inl (newRecordFailure StageInputIO c), w)))"

definition decodeRecordDescriptor :: "RSCodecs \<Rightarrow> byte list \<Rightarrow> cause + byte list" where
  "decodeRecordDescriptor codecs encoded =
     (if length encoded \<noteq> 48 then Inl RecordDescriptorRecovery
      else case rs_Decode (RS16 codecs) encoded False of
             (decoded, None) \<Rightarrow>
               if length decoded \<noteq> 16 then Inl RecordDescriptorRecovery else Inr decoded
           | (_, Some _) \<Rightarrow> Inl RecordDescriptorRecovery)"

text \<open>The loop of \<open>decodeRecordBody\<close>: the context is polled before every block and at the end;
  an error of the context is returned as it is.\<close>

fun decode_body_blocks ::
  "RSCodecs \<Rightarrow> byte list \<Rightarrow> bool \<Rightarrow> nat list \<Rightarrow> (world, pcv3_error, byte list) io" where
  "decode_body_blocks codecs encoded fullCorrection [] = io_bind (poll Plain) (\<lambda>_. io_ret [])"
| "decode_body_blocks codecs encoded fullCorrection (block # rest) =
     io_bind (poll Plain) (\<lambda>_.
       let word = slice (block * 136) 136 encoded in
       io_bind
         (if fullCorrection
          then io_lift (map_err (\<lambda>_. Plain RecordBodyRecovery)
                          (DecodeInto (RS128 codecs) (replicate 128 0) word))
          else io_ret (take 128 word)) (\<lambda>output.
       io_bind (decode_body_blocks codecs encoded fullCorrection rest) (\<lambda>outputs.
         io_ret (output @ outputs))))"

definition decodeRecordBody ::
  "RSCodecs \<Rightarrow> byte list \<Rightarrow> nat \<Rightarrow> bool \<Rightarrow> (world, pcv3_error, byte list) io" where
  "decodeRecordBody codecs encoded destinationLength fullCorrection =
     (if encoded = [] \<or> length encoded mod 136 \<noteq> 0 \<or>
         destinationLength \<noteq> length encoded div 136 * 128
      then io_fail (Plain RecordBodyRecovery)
      else decode_body_blocks codecs encoded fullCorrection [0..<length encoded div 136])"

section \<open>Keys\<close>

record recordKeys =
  rk_xChaCha20 :: "byte list"
  rk_serpent :: "byte list"
  rk_mac :: "byte list"

definition volume_key_request :: "string \<Rightarrow> KeyRequest" where
  "volume_key_request label =
     \<lparr>req_Label = label, req_Role = KeyRoleNotReplica, req_OutputBytes = 32\<rparr>"

text \<open>The local function \<open>borrow\<close> of \<open>loadRecordKeys\<close>, with the classification of its error.\<close>

definition borrow_record_key :: "normalAuthResult \<Rightarrow> string \<Rightarrow> (world, pcv3_error, byte list) io" where
  "borrow_record_key auth label =
     (case borrow (auth_lender auth (volume_key_request label))
             (\<lambda>key destination.
                if length key \<noteq> length destination then (Some (Plain InvalidRecordRequest), destination)
                else (None, key)) (replicate 32 0) of
        (Some e, _) \<Rightarrow> (\<lambda>w. case classifyRecordKeyFailure e w of (e, w) \<Rightarrow> (Inl e, w))
      | (None, key) \<Rightarrow> io_ret key)"

definition loadRecordKeys :: "normalAuthResult \<Rightarrow> u16 \<Rightarrow> (world, pcv3_error, recordKeys) io" where
  "loadRecordKeys auth suite =
     io_bind (borrow_record_key auth KeyLabelVolumePayloadXChaCha20) (\<lambda>xkey.
     io_bind (if suite = SuiteParanoid then borrow_record_key auth KeyLabelVolumePayloadSerpent
              else if suite \<noteq> SuiteStandard
              then io_fail (newRecordFailure StageCredentialPolicy InvalidRecordRequest)
              else io_ret (replicate 32 0)) (\<lambda>skey.
     io_bind (borrow_record_key auth KeyLabelVolumePayloadMAC) (\<lambda>mkey.
       io_ret \<lparr>rk_xChaCha20 = xkey, rk_serpent = skey, rk_mac = mkey\<rparr>)))"

section \<open>The evaluator\<close>

record recordEvaluator =
  ev_core :: logicalCore
  ev_geometry :: Geometry
  ev_codecs :: RSCodecs
  ev_keys :: recordKeys
  ev_commitment :: "byte list"
  ev_encodedBody :: nat
  ev_decodedBody :: nat
  ev_plaintext :: nat

definition validRecordCodecs :: "RSCodecs \<Rightarrow> bool \<Rightarrow> bool" where
  "validRecordCodecs codecs payloadBodyRS \<longleftrightarrow>
     (if fec_required (RS16 codecs) \<noteq> 16 \<or> fec_total (RS16 codecs) \<noteq> 48 then False
      else \<not> payloadBodyRS \<or>
           (fec_required (RS128 codecs) = 128 \<and> fec_total (RS128 codecs) = 136))"

definition newRecordEvaluator ::
  "prims \<Rightarrow> logicalCore \<Rightarrow> Geometry \<Rightarrow> RSCodecs \<Rightarrow> normalAuthResult \<Rightarrow>
   (world, pcv3_error, recordEvaluator) io" where
  "newRecordEvaluator P core geometry codecs auth =
     (let refuse = io_fail (newRecordFailure StageCredentialPolicy InvalidRecordRequest) in
      io_bind poll_record (\<lambda>_.
        if \<not> recordGeometryMatchesCore core geometry \<or>
           \<not> validRecordCodecs codecs (geo_payloadBodyRS geometry)
        then refuse
        else
          case (expectedRecord core geometry 0, expectedRecord core geometry (core_recordCount core)) of
            (Some maximum, Some final) \<Rightarrow>
              let maximum = (if exp_encodedBodyLength final > exp_encodedBodyLength maximum
                             then final else maximum)
              in (case decodedRecordBodyLength maximum (geo_payloadBodyRS geometry) of
                    None \<Rightarrow> refuse
                  | Some decodedBodyLength \<Rightarrow>
                      if uint (exp_ciphertextLength maximum) > MaxInt64 then refuse
                      else
                        io_bind (loadRecordKeys auth (core_suite core)) (\<lambda>keys.
                          io_ret \<lparr>ev_core = core, ev_geometry = geometry, ev_codecs = codecs,
                                  ev_keys = keys, ev_commitment = coreCommitment P core,
                                  ev_encodedBody = exp_encodedBodyLength maximum,
                                  ev_decodedBody = decodedBodyLength,
                                  ev_plaintext = unat (exp_ciphertextLength maximum)\<rparr>))
          | _ \<Rightarrow> refuse))"

section \<open>One record\<close>

record recordEvidence =
  evd_index :: u64
  evd_final :: bool
  evd_plaintextOffset :: u64
  evd_plaintextLength :: u64
  evd_verified :: bool

definition checkedRecordCiphertextLength :: "u64 \<Rightarrow> nat \<Rightarrow> nat \<Rightarrow> nat option" where
  "checkedRecordCiphertextLength len decodedLength plaintextLength =
     (if uint len > MaxInt64 then None
      else if unat len > decodedLength \<or> unat len > plaintextLength then None
      else Some (unat len))"

definition record_body_stage :: "recordExpectation \<Rightarrow> bool \<Rightarrow> Stage" where
  "record_body_stage expected payloadBodyRS =
     (if exp_final expected then StageFinalRecord
      else if payloadBodyRS then StageRecordBodyRS else StageRecordAuth)"

text \<open>The descriptor: read, decoded, and compared with the expected one.\<close>

definition check_descriptor :: "recordEvaluator \<Rightarrow> recordExpectation \<Rightarrow> (world, pcv3_error, unit) io" where
  "check_descriptor ev expected =
     (let recordStage = (if exp_final expected then StageFinalRecord else StageDescriptor) in
      io_bind (readRecordExactAt (exp_descriptorOffset expected) 48 recordStage) (\<lambda>encoded.
        case decodeRecordDescriptor (ev_codecs ev) encoded of
          Inl c \<Rightarrow> io_fail (newRecordFailure recordStage c)
        | Inr decoded \<Rightarrow>
            if decoded \<noteq> exp_descriptor expected
            then io_fail (newRecordFailure recordStage RecordDescriptorRecovery)
            else io_ret ()))"

text \<open>A failed decoding is a cancellation when the context says so, else a failure at \<open>stage\<close>.\<close>

definition decode_body_or_fail ::
  "recordEvaluator \<Rightarrow> Stage \<Rightarrow> byte list \<Rightarrow> nat \<Rightarrow> bool \<Rightarrow> (world, pcv3_error, byte list) io" where
  "decode_body_or_fail ev stage encoded decodedLength fullCorrection = (\<lambda>w.
     case decodeRecordBody (ev_codecs ev) encoded decodedLength fullCorrection w of
       (Inr decoded, w) \<Rightarrow> (Inr decoded, w)
     | (Inl e, w) \<Rightarrow>
         (case recordCancellationCause e w of
            (Some c, w) \<Rightarrow> (Inl (newRecordFailure StageCancellation c), w)
          | (None, w) \<Rightarrow> (Inl (newRecordFailure stage (root_cause e)), w)))"

definition authenticate_body ::
  "prims \<Rightarrow> recordEvaluator \<Rightarrow> recordExpectation \<Rightarrow> byte list \<Rightarrow> cause + bool" where
  "authenticate_body P ev expected decoded =
     authenticateDecodedRecord P (core_suite (ev_core ev)) (rk_mac (ev_keys ev)) (ev_commitment ev)
       expected decoded"

text \<open>The body: read, decoded by its systematic bytes, authenticated, and once more after a full
  correction if that fails. The result is the decoded body and whether its tag verified.\<close>

definition read_body ::
  "prims \<Rightarrow> recordEvaluator \<Rightarrow> recordExpectation \<Rightarrow> (world, pcv3_error, byte list \<times> bool) io" where
  "read_body P ev expected =
     (let rs = geo_payloadBodyRS (ev_geometry ev);
          bodyStage = record_body_stage expected rs
      in
      io_bind (readRecordExactAt (exp_bodyOffset expected) (exp_encodedBodyLength expected) bodyStage)
        (\<lambda>encoded.
        case decodedRecordBodyLength expected rs of
          None \<Rightarrow> io_fail (newRecordFailure bodyStage InvalidRecordRequest)
        | Some decodedLength \<Rightarrow>
            if decodedLength > ev_decodedBody ev
            then io_fail (newRecordFailure bodyStage InvalidRecordRequest)
            else
              io_bind (if rs then decode_body_or_fail ev bodyStage encoded decodedLength False
                       else io_ret encoded) (\<lambda>decoded.
                let first = authenticate_body P ev expected decoded in
                io_bind
                  (if first \<noteq> Inr True \<and> rs
                   then io_bind (decode_body_or_fail ev bodyStage encoded decodedLength True)
                          (\<lambda>decoded. io_ret (decoded, authenticate_body P ev expected decoded))
                   else io_ret (decoded, first)) (\<lambda>(decoded, valid).
                  case valid of
                    Inl c \<Rightarrow> io_fail (newRecordFailure bodyStage c)
                  | Inr valid \<Rightarrow> io_ret (decoded, valid)))))"

text \<open>The plaintext of a data record.\<close>

definition decrypt_body ::
  "prims \<Rightarrow> recordEvaluator \<Rightarrow> recordExpectation \<Rightarrow> byte list \<Rightarrow> (world, pcv3_error, byte list) io" where
  "decrypt_body P ev expected decoded =
     (let bodyStage = record_body_stage expected (geo_payloadBodyRS (ev_geometry ev)) in
      case checkedRecordCiphertextLength (exp_ciphertextLength expected) (length decoded)
             (ev_plaintext ev) of
        None \<Rightarrow> io_fail (newRecordFailure bodyStage InvalidRecordRequest)
      | Some ciphertextLength \<Rightarrow>
          (case suite_unwrap P (core_suite (ev_core ev)) (replicate ciphertextLength 0)
                  (take ciphertextLength decoded) (rk_xChaCha20 (ev_keys ev)) (exp_nonce expected)
                  (rk_serpent (ev_keys ev)) (exp_serpentIV expected) of
             Inl _ \<Rightarrow> io_fail (newRecordFailure StageRecordAuth RecordCipher)
           | Inr plain \<Rightarrow> io_bind poll_record (\<lambda>_. io_ret plain)))"

text \<open>
  \<open>evaluateCanonicalRecord\<close>: \<open>authorizes\<close> says whether the request of the caller authorizes
  unverified bytes (\<open>request.authorizesUnverified(role)\<close>); it is false for the empty request of
  the normal reader. The result of a callback that was called is returned also beside an error.
\<close>

type_synonym 'v record_callback =
  "recordEvidence \<Rightarrow> byte list \<Rightarrow> world \<Rightarrow> (pcv3_error option \<times> 'v) \<times> world"

definition evaluateCanonicalRecord ::
  "prims \<Rightarrow> recordEvaluator \<Rightarrow> u64 \<Rightarrow> bool \<Rightarrow> 'v record_callback \<Rightarrow> world \<Rightarrow>
   (pcv3_error option \<times> 'v option) \<times> world" where
  "evaluateCanonicalRecord P ev index authorizes callback w =
     (case poll_record w of
        (Inl e, w) \<Rightarrow> ((Some e, None), w)
      | (Inr _, w) \<Rightarrow>
        (case expectedRecord (ev_core ev) (ev_geometry ev) index of
           None \<Rightarrow> ((Some (newRecordFailure StageCredentialPolicy InvalidRecordRequest), None), w)
         | Some expected \<Rightarrow>
           (case io_bind (check_descriptor ev expected) (\<lambda>_. read_body P ev expected) w of
              (Inl e, w) \<Rightarrow> ((Some e, None), w)
            | (Inr (decoded, valid), w) \<Rightarrow>
              if \<not> valid \<and> \<not> authorizes
              then ((Some (newRecordFailure
                             (if exp_final expected then StageFinalRecord else StageRecordAuth)
                             RecordAuthenticationCause), None), w)
              else
                let evidence = \<lparr>evd_index = exp_index expected, evd_final = exp_final expected,
                      evd_plaintextOffset = exp_plaintextOffset expected,
                      evd_plaintextLength = exp_ciphertextLength expected, evd_verified = valid\<rparr>
                in if exp_final expected then
                     (case callback evidence [] w of ((err, v), w) \<Rightarrow> ((err, Some v), w))
                   else
                     (case decrypt_body P ev expected decoded w of
                        (Inl e, w) \<Rightarrow> ((Some e, None), w)
                      | (Inr plain, w) \<Rightarrow>
                          (case callback evidence plain w of
                             ((Some e, v), w) \<Rightarrow> ((Some e, Some v), w)
                           | ((None, v), w) \<Rightarrow>
                               (case poll_record w of
                                  (Inl e, w) \<Rightarrow> ((Some e, Some v), w)
                                | (Inr _, w) \<Rightarrow> ((None, Some v), w)))))))"

section \<open>All records\<close>

text \<open>The sink: it is given the index and the plaintext of a verified record; what it was given is
  logged also when it answers with an error.\<close>

definition writeVerifiedRecord :: "u64 \<Rightarrow> byte list \<Rightarrow> world \<Rightarrow> cause option \<times> world" where
  "writeVerifiedRecord index plain w =
     (env_sink (w_env w) (w_tick w) index plain,
      (tick w)\<lparr>w_emitted := w_emitted w @ [(index, plain)]\<rparr>)"

text \<open>The callback captures the evidence, the error of the sink, and \<open>invalidEvidence\<close>.\<close>

definition normal_record_callback :: "(recordEvidence \<times> cause option \<times> bool) record_callback" where
  "normal_record_callback got plaintext w =
     (if \<not> evd_verified got then ((Some (Plain InvalidRecordRequest), (got, None, True)), w)
      else if evd_final got then ((None, (got, None, False)), w)
      else
        case writeVerifiedRecord (evd_index got) plaintext w of
          (sinkErr, w) \<Rightarrow> ((map_option Plain sinkErr, (got, sinkErr, False)), w))"

record recordVerification =
  rv_dataRecords :: u64
  rv_plaintextBytes :: u64

text \<open>One iteration of the loop over the indexes: the result if it returns, else the new counts.\<close>

definition record_step ::
  "prims \<Rightarrow> recordEvaluator \<Rightarrow> u64 \<Rightarrow> u64 \<Rightarrow> u64 \<Rightarrow> world \<Rightarrow>
   ((pcv3_error + recordVerification) + u64 \<times> u64) \<times> world" where
  "record_step P ev index dataRecords plaintextBytes w =
     (case evaluateCanonicalRecord P ev index False normal_record_callback w of
        ((_, Some (_, _, True)), w) \<Rightarrow>
          (Inl (Inl (newRecordFailure StageCredentialPolicy InvalidRecordRequest)), w)
      | ((_, Some (_, Some c, False)), w) \<Rightarrow>
          (case recordCancellationCause (Plain c) w of
             (Some c, w) \<Rightarrow> (Inl (Inl (newRecordFailure StageCancellation c)), w)
           | (None, w) \<Rightarrow> (Inl (Inl (newRecordFailure StageOutputWrite c)), w))
      | ((Some e, _), w) \<Rightarrow> (Inl (Inl e), w)
      | ((None, None), w) \<Rightarrow>
          (Inl (Inl (newRecordFailure StageCredentialPolicy InvalidRecordRequest)), w)
      | ((None, Some (evidence, None, False)), w) \<Rightarrow>
          if evd_final evidence then
            if dataRecords \<noteq> core_recordCount (ev_core ev) \<or>
               plaintextBytes \<noteq> core_plaintextLength (ev_core ev)
            then (Inl (Inl (newRecordFailure StageFinalRecord RecordAccounting)), w)
            else (Inl (Inr \<lparr>rv_dataRecords = dataRecords, rv_plaintextBytes = plaintextBytes\<rparr>), w)
          else
            (case checkedAdd64 dataRecords 1 of
               None \<Rightarrow> (Inl (Inl (newRecordFailure StageRecordAuth RecordAccounting)), w)
             | Some dataRecords \<Rightarrow>
               (case checkedAdd64 plaintextBytes (evd_plaintextLength evidence) of
                  None \<Rightarrow> (Inl (Inl (newRecordFailure StageRecordAuth RecordAccounting)), w)
                | Some plaintextBytes \<Rightarrow>
                    if plaintextBytes > core_plaintextLength (ev_core ev)
                    then (Inl (Inl (newRecordFailure StageRecordAuth RecordAccounting)), w)
                    else (Inr (dataRecords, plaintextBytes), w))))"

text \<open>
  The endless loop. \<open>n\<close> is fuel: an index above the record count is refused, so two more than the
  record count is enough (\<open>record_loop_returns\<close>); running out of it has its own value.
\<close>

fun record_loop ::
  "prims \<Rightarrow> recordEvaluator \<Rightarrow> nat \<Rightarrow> u64 \<Rightarrow> u64 \<Rightarrow> u64 \<Rightarrow>
   world \<Rightarrow> (pcv3_error + recordVerification) option \<times> world" where
  "record_loop P ev 0 index dataRecords plaintextBytes w = (None, w)"
| "record_loop P ev (Suc n) index dataRecords plaintextBytes w =
     (case record_step P ev index dataRecords plaintextBytes w of
        (Inl result, w) \<Rightarrow> (Some result, w)
      | (Inr (dataRecords, plaintextBytes), w) \<Rightarrow>
          record_loop P ev n (index + 1) dataRecords plaintextBytes w)"

definition authenticatedRecordAuthority :: "normalAuthResult \<Rightarrow> (logicalCore \<times> Geometry) option" where
  "authenticatedRecordAuthority auth =
     (if auth_authenticated auth = 0 \<or>
         (auth_outcome auth \<noteq> OutcomeSuccess \<and> auth_outcome auth \<noteq> OutcomeAuthenticatedDegraded) \<or>
         geo_fileSize (auth_geometry auth) < 0 \<or>
         \<not> validLogicalCore (cand_core (auth_candidate auth))
      then None
      else
        case DeriveGeometry (auth_candidate auth) (word_of_int (geo_fileSize (auth_geometry auth))) of
          Inl _ \<Rightarrow> None
        | Inr expected \<Rightarrow>
            if expected \<noteq> auth_geometry auth then None
            else Some (cand_core (auth_candidate auth), auth_geometry auth))"

definition readNormalRecordsWithSeams ::
  "prims \<Rightarrow> RSCodecs \<Rightarrow> normalAuthResult \<Rightarrow> world \<Rightarrow> (pcv3_error + recordVerification) option \<times> world" where
  "readNormalRecordsWithSeams P codecs auth w =
     (case poll_record w of
        (Inl e, w) \<Rightarrow> (Some (Inl e), w)
      | (Inr _, w) \<Rightarrow>
        (case authenticatedRecordAuthority auth of
           None \<Rightarrow> (Some (Inl (newRecordFailure StageCredentialPolicy InvalidRecordRequest)), w)
         | Some (core, geometry) \<Rightarrow>
             if \<not> validRecordCodecs codecs (geo_payloadBodyRS geometry)
             then (Some (Inl (newRecordFailure StageCredentialPolicy InvalidRecordRequest)), w)
             else
               (case newRecordEvaluator P core geometry codecs auth w of
                  (Inl e, w) \<Rightarrow> (Some (Inl e), w)
                | (Inr ev, w) \<Rightarrow> record_loop P ev (unat (core_recordCount core) + 2) 0 0 0 w)))"

section \<open>Errors and reads, whatever the environment does\<close>

text \<open>The stages a record failure carries.\<close>

definition record_stage :: "Stage \<Rightarrow> bool" where
  "record_stage stage \<longleftrightarrow>
     stage \<in> {StageDescriptor, StageRecordBodyRS, StageRecordAuth, StageFinalRecord, StageInputIO,
              StageCancellation, StageOutputWrite, StageCredentialPolicy}"

definition rec_error :: "pcv3_error \<Rightarrow> bool" where
  "rec_error e \<longleftrightarrow> (\<exists>stage c. e = RecordFailure stage c \<and> record_stage stage)"

lemma record_stage_simps [simp]:
  "record_stage StageDescriptor" "record_stage StageRecordBodyRS" "record_stage StageRecordAuth"
  "record_stage StageFinalRecord" "record_stage StageInputIO" "record_stage StageCancellation"
  "record_stage StageOutputWrite" "record_stage StageCredentialPolicy"
  "record_stage (record_body_stage expected rs)"
  by (simp_all add: record_stage_def record_body_stage_def)

lemma rec_error_simp [simp]: "rec_error (RecordFailure stage c) \<longleftrightarrow> record_stage stage"
  by (simp add: rec_error_def)

lemma recordCancellationCause_reads:
  "recordCancellationCause e w = (r, w') \<Longrightarrow> reads_only w w'"
  using reads_only_trans [OF reads_only_tick [of w] reads_only_tick]
  by (auto simp: recordCancellationCause_def ctx_Err_def split: option.splits if_splits)

lemma classifyRecordKeyFailure_reads:
  "classifyRecordKeyFailure e w = (e', w') \<Longrightarrow> reads_only w w' \<and> rec_error e'"
  by (auto simp: classifyRecordKeyFailure_def split: prod.splits option.splits
      dest: recordCancellationCause_reads)

lemma readRecordExactAt_reads:
  assumes "record_stage stage"
  shows "reads_to (\<lambda>_. True) rec_error (\<lambda>bytes w. length bytes = n \<and> logged offset bytes w)
    (readRecordExactAt offset n stage)"
  unfolding readRecordExactAt_def
proof (intro reads_to_if reads_to_fail reads_to_poll_stable)
  show "reads_to (\<lambda>_. True) rec_error (\<lambda>bytes w. length bytes = n \<and> logged offset bytes w)
      (\<lambda>w. case exact_read True offset n w of
            ((bytes, ReadDone), w) \<Rightarrow> (Inr bytes, w)
          | ((_, ReadTruncated), w) \<Rightarrow>
              (Inl (newRecordFailure stage RecordUnexpectedTruncation), w)
          | ((_, ReadCancelled c), w) \<Rightarrow> (Inl (newRecordFailure StageCancellation c), w)
          | ((_, ReadFailed c), w) \<Rightarrow> (Inl (newRecordFailure StageInputIO c), w))"
    unfolding reads_to_def logged_def using assms
    by (auto split: prod.splits read_end.splits dest: exact_read_only exact_read_Done)
qed simp_all

text \<open>One block of a body under the two ways of decoding it.\<close>

definition body_word :: "RSCodecs \<Rightarrow> byte list \<Rightarrow> bool \<Rightarrow> nat \<Rightarrow> cause + byte list" where
  "body_word codecs encoded full block =
     (if full then map_err (\<lambda>_. RecordBodyRecovery)
                     (DecodeInto (RS128 codecs) (replicate 128 0) (slice (block * 136) 136 encoded))
      else Inr (take 128 (slice (block * 136) 136 encoded)))"

text \<open>What \<open>decodeRecordBody\<close> computes, cancellation aside.\<close>

definition decoded_body :: "RSCodecs \<Rightarrow> byte list \<Rightarrow> bool \<Rightarrow> cause + byte list" where
  "decoded_body codecs encoded full =
     ebind (emap (body_word codecs encoded full) [0..<length encoded div 136])
       (\<lambda>words. Inr (concat words))"

lemma decode_body_blocks_reads:
  "reads_to (\<lambda>_. True) (\<lambda>e. \<exists>c. e = Plain c)
     (\<lambda>d _. \<exists>words. emap (body_word codecs encoded full) blocks = Inr words \<and> d = concat words)
     (decode_body_blocks codecs encoded full blocks)"
proof (induction blocks)
  case Nil
  show ?case by (auto intro!: reads_to_poll_stable reads_to_ret)
next
  case (Cons block rest)
  show ?case
    unfolding decode_body_blocks.simps Let_def
  proof (rule reads_to_poll_stable)
    show "reads_to (\<lambda>_. True) (\<lambda>e. \<exists>c. e = Plain c)
     (\<lambda>d _. \<exists>words. emap (body_word codecs encoded full) (block # rest) = Inr words \<and> d = concat words)
      (io_bind
         (if full
          then io_lift (map_err (\<lambda>_. Plain RecordBodyRecovery)
                 (DecodeInto (RS128 codecs) (replicate 128 0) (slice (block * 136) 136 encoded)))
          else io_ret (take 128 (slice (block * 136) 136 encoded))) (\<lambda>word.
       io_bind (decode_body_blocks codecs encoded full rest) (\<lambda>words. io_ret (word @ words))))"
    proof (rule reads_to_bind [where R = "\<lambda>word _. body_word codecs encoded full block = Inr word"])
      fix word
      show "reads_to (\<lambda>_. body_word codecs encoded full block = Inr word) (\<lambda>e. \<exists>c. e = Plain c)
         (\<lambda>d _. \<exists>words. emap (body_word codecs encoded full) (block # rest) = Inr words \<and> d = concat words)
         (io_bind (decode_body_blocks codecs encoded full rest) (\<lambda>words. io_ret (word @ words)))"
        by (rule reads_to_bind_stable [OF Cons.IH]) (auto intro!: reads_to_ret)
    qed (auto simp: body_word_def reads_to_def io_lift_def map_err_def split: sum.splits)
  qed auto
qed

lemma decodeRecordBody_reads:
  "reads_to (\<lambda>_. True) (\<lambda>e. \<exists>c. e = Plain c)
     (\<lambda>d _. decoded_body codecs encoded full = Inr d)
     (decodeRecordBody codecs encoded n full)"
  unfolding decodeRecordBody_def
  by (intro reads_to_if reads_to_fail reads_to_conseq [OF decode_body_blocks_reads])
    (auto simp: decoded_body_def simp del: upt_rec_numeral)

lemma decode_body_or_fail_reads:
  assumes "record_stage stage"
  shows "reads_to (\<lambda>_. True) rec_error (\<lambda>d _. decoded_body (ev_codecs ev) encoded full = Inr d)
    (decode_body_or_fail ev stage encoded n full)"
  unfolding reads_to_def
proof (intro allI impI)
  fix w
  obtain r w1 where d: "decodeRecordBody (ev_codecs ev) encoded n full w = (r, w1)" by force
  note dec = reads_toD [OF decodeRecordBody_reads d]
  show "case decode_body_or_fail ev stage encoded n full w of (r, w') \<Rightarrow> reads_only w w' \<and>
      (case r of Inl e \<Rightarrow> rec_error e | Inr d \<Rightarrow> decoded_body (ev_codecs ev) encoded full = Inr d)"
  proof (cases r)
    case (Inl e)
    obtain c w2 where c: "recordCancellationCause e w1 = (c, w2)" by force
    then have "reads_only w w2" using dec(1) recordCancellationCause_reads reads_only_trans by blast
    then show ?thesis using d Inl c assms
      by (auto simp: decode_body_or_fail_def split: option.split)
  qed (use d dec in \<open>auto simp: decode_body_or_fail_def\<close>)
qed

section \<open>What a verified record is\<close>

text \<open>
  \<open>proved_record P ev expected decoded w\<close>: the descriptor of the record was read and decodes to
  the expected one, its body was read and decodes to \<open>decoded\<close>, by its systematic bytes or by a
  full correction, and the tag in it verifies under the record key.
\<close>

definition descriptor_read :: "recordEvaluator \<Rightarrow> recordExpectation \<Rightarrow> world \<Rightarrow> bool" where
  "descriptor_read ev expected w \<longleftrightarrow>
     (\<exists>word. length word = 48 \<and> logged (exp_descriptorOffset expected) word w \<and>
        decodeRecordDescriptor (ev_codecs ev) word = Inr (exp_descriptor expected))"

definition body_read :: "recordEvaluator \<Rightarrow> recordExpectation \<Rightarrow> byte list \<Rightarrow> world \<Rightarrow> bool" where
  "body_read ev expected decoded w \<longleftrightarrow>
     (\<exists>encoded. length encoded = exp_encodedBodyLength expected \<and>
        logged (exp_bodyOffset expected) encoded w \<and>
        (if geo_payloadBodyRS (ev_geometry ev)
         then \<exists>full. decoded_body (ev_codecs ev) encoded full = Inr decoded
         else decoded = encoded))"

definition proved_record ::
  "prims \<Rightarrow> recordEvaluator \<Rightarrow> recordExpectation \<Rightarrow> byte list \<Rightarrow> world \<Rightarrow> bool" where
  "proved_record P ev expected decoded w \<longleftrightarrow>
     descriptor_read ev expected w \<and> body_read ev expected decoded w \<and>
     authenticate_body P ev expected decoded = Inr True"

lemma stable_descriptor_read [simp]: "stable (descriptor_read ev expected)"
  unfolding descriptor_read_def by (intro stable_ex stable_conj stable_const stable_logged)

lemma stable_body_read [simp]: "stable (body_read ev expected decoded)"
proof -
  have "stable (\<lambda>w. length encoded = exp_encodedBodyLength expected \<and>
        logged (exp_bodyOffset expected) encoded w \<and> b)" for encoded b
    by (intro stable_conj stable_const stable_logged)
  then show ?thesis unfolding body_read_def by (rule stable_ex)
qed

lemma stable_proved_record [simp]: "stable (proved_record P ev expected decoded)"
  unfolding proved_record_def
  by (intro stable_conj stable_const stable_descriptor_read stable_body_read)

lemma check_descriptor_reads:
  "reads_to (\<lambda>_. True) rec_error (\<lambda>_. descriptor_read ev expected) (check_descriptor ev expected)"
  unfolding check_descriptor_def Let_def
proof (rule reads_to_bind [OF readRecordExactAt_reads])
  fix encoded
  show "reads_to (\<lambda>w. length encoded = 48 \<and> logged (exp_descriptorOffset expected) encoded w) rec_error
      (\<lambda>_. descriptor_read ev expected)
      (case decodeRecordDescriptor (ev_codecs ev) encoded of
         Inl c \<Rightarrow> io_fail (newRecordFailure (if exp_final expected then StageFinalRecord else StageDescriptor) c)
       | Inr decoded \<Rightarrow>
           if decoded \<noteq> exp_descriptor expected
           then io_fail (newRecordFailure (if exp_final expected then StageFinalRecord else StageDescriptor)
                  RecordDescriptorRecovery)
           else io_ret ())"
    by (intro reads_to_cases reads_to_fail reads_to_ret) (auto simp: descriptor_read_def)
qed simp

lemma read_body_reads:
  "reads_to (\<lambda>_. True) rec_error
     (\<lambda>(decoded, valid) w. body_read ev expected decoded w \<and>
        authenticate_body P ev expected decoded = Inr valid)
     (read_body P ev expected)"
  unfolding read_body_def Let_def
proof (rule reads_to_bind [OF readRecordExactAt_reads])
  fix encoded
  let ?rs = "geo_payloadBodyRS (ev_geometry ev)"
  let ?stage = "record_body_stage expected ?rs"
  let ?L = "\<lambda>w. length encoded = exp_encodedBodyLength expected \<and> logged (exp_bodyOffset expected) encoded w"
  let ?D = "\<lambda>decoded. if ?rs then \<exists>full. decoded_body (ev_codecs ev) encoded full = Inr decoded
      else decoded = encoded"
  have L: "stable ?L" by (intro stable_conj stable_const stable_logged)
  have first: "reads_to ?L rec_error (\<lambda>decoded w. ?D decoded \<and> ?L w)
     (if ?rs then decode_body_or_fail ev ?stage encoded n False else io_ret encoded)" for n
    using reads_to_frame [OF decode_body_or_fail_reads L, of ?stage ev encoded False n]
    by (intro reads_to_if) (auto intro: reads_to_conseq reads_to_ret)
  have second: "reads_to (\<lambda>w. ?D decoded \<and> ?L w) rec_error
      (\<lambda>(decoded, valid) w. body_read ev expected decoded w \<and> valid = authenticate_body P ev expected decoded)
      (if authenticate_body P ev expected decoded \<noteq> Inr True \<and> ?rs
       then io_bind (decode_body_or_fail ev ?stage encoded n True)
              (\<lambda>decoded. io_ret (decoded, authenticate_body P ev expected decoded))
       else io_ret (decoded, authenticate_body P ev expected decoded))" for decoded n
  proof (rule reads_to_if)
    assume rs: "authenticate_body P ev expected decoded \<noteq> Inr True \<and> ?rs"
    show "reads_to (\<lambda>w. ?D decoded \<and> ?L w) rec_error
      (\<lambda>(decoded, valid) w. body_read ev expected decoded w \<and> valid = authenticate_body P ev expected decoded)
      (io_bind (decode_body_or_fail ev ?stage encoded n True)
         (\<lambda>decoded. io_ret (decoded, authenticate_body P ev expected decoded)))"
      by (rule reads_to_bind_stable [OF decode_body_or_fail_reads])
        (use rs L in \<open>auto intro!: reads_to_ret stable_conj simp: body_read_def\<close>)
  qed (auto intro!: reads_to_ret simp: body_read_def)
  show "reads_to ?L rec_error
      (\<lambda>(decoded, valid) w. body_read ev expected decoded w \<and> authenticate_body P ev expected decoded = Inr valid)
      (case decodedRecordBodyLength expected ?rs of
         None \<Rightarrow> io_fail (newRecordFailure ?stage InvalidRecordRequest)
       | Some decodedLength \<Rightarrow>
           if decodedLength > ev_decodedBody ev
           then io_fail (newRecordFailure ?stage InvalidRecordRequest)
           else
             io_bind (if ?rs then decode_body_or_fail ev ?stage encoded decodedLength False
                      else io_ret encoded) (\<lambda>decoded.
               io_bind
                 (if authenticate_body P ev expected decoded \<noteq> Inr True \<and> ?rs
                  then io_bind (decode_body_or_fail ev ?stage encoded decodedLength True)
                         (\<lambda>decoded. io_ret (decoded, authenticate_body P ev expected decoded))
                  else io_ret (decoded, authenticate_body P ev expected decoded)) (\<lambda>(decoded, valid).
                 case valid of
                   Inl c \<Rightarrow> io_fail (newRecordFailure ?stage c)
                 | Inr valid \<Rightarrow> io_ret (decoded, valid))))"
    by (intro reads_to_option reads_to_if reads_to_fail reads_to_bind [OF first] reads_to_bind [OF second]
        reads_to_prod reads_to_sum reads_to_ret) auto
qed simp

text \<open>The plaintext under the record keys, and the evidence handed to the callback.\<close>

definition body_plain ::
  "prims \<Rightarrow> recordEvaluator \<Rightarrow> recordExpectation \<Rightarrow> byte list \<Rightarrow> stream_error + byte list" where
  "body_plain P ev expected decoded =
     (let n = unat (exp_ciphertextLength expected) in
      suite_unwrap P (core_suite (ev_core ev)) (replicate n 0) (take n decoded)
        (rk_xChaCha20 (ev_keys ev)) (exp_nonce expected) (rk_serpent (ev_keys ev))
        (exp_serpentIV expected))"

definition evidence_of :: "recordExpectation \<Rightarrow> bool \<Rightarrow> recordEvidence" where
  "evidence_of expected valid =
     \<lparr>evd_index = exp_index expected, evd_final = exp_final expected,
      evd_plaintextOffset = exp_plaintextOffset expected,
      evd_plaintextLength = exp_ciphertextLength expected, evd_verified = valid\<rparr>"

lemma decrypt_body_reads:
  "reads_to (\<lambda>_. True) rec_error
     (\<lambda>plain _. body_plain P ev expected decoded = Inr plain \<and>
        length plain = unat (exp_ciphertextLength expected))
     (decrypt_body P ev expected decoded)"
  unfolding decrypt_body_def Let_def
proof (intro reads_to_option reads_to_fail)
  fix n
  assume n: "checkedRecordCiphertextLength (exp_ciphertextLength expected) (length decoded)
      (ev_plaintext ev) = Some n"
  then have n': "n = unat (exp_ciphertextLength expected)"
    by (simp add: checkedRecordCiphertextLength_def split: if_splits)
  show "reads_to (\<lambda>_. True) rec_error
     (\<lambda>plain _. body_plain P ev expected decoded = Inr plain \<and>
        length plain = unat (exp_ciphertextLength expected))
     (case suite_unwrap P (core_suite (ev_core ev)) (replicate n 0)
         (take n decoded) (rk_xChaCha20 (ev_keys ev)) (exp_nonce expected)
         (rk_serpent (ev_keys ev)) (exp_serpentIV expected) of
        Inl _ \<Rightarrow> io_fail (newRecordFailure StageRecordAuth RecordCipher)
      | Inr plain \<Rightarrow> io_bind poll_record (\<lambda>_. io_ret plain))"
    by (intro reads_to_sum reads_to_fail reads_to_poll_stable reads_to_ret)
      (use n n' in \<open>auto simp: body_plain_def dest: suite_pair.unwrap_length
         simp: checkedRecordCiphertextLength_def split: if_splits\<close>)
qed simp

text \<open>
  The cases of \<open>evaluateCanonicalRecord\<close>: it fails before the callback and has only read, or
  it calls back with a record whose body was read and whose tag was checked.
\<close>

lemma evaluate_cases:
  assumes "evaluateCanonicalRecord P ev index authorizes callback w = ((err, v), w')"
  obtains (failed) e where "err = Some e" "v = None" "rec_error e" "reads_only w w'"
  | (called) expected decoded valid plain w1 e v' w2 where
      "expectedRecord (ev_core ev) (ev_geometry ev) index = Some expected"
      "reads_only w w1" "descriptor_read ev expected w1" "body_read ev expected decoded w1"
      "authenticate_body P ev expected decoded = Inr valid" "valid \<or> authorizes"
      "if exp_final expected then plain = []
       else body_plain P ev expected decoded = Inr plain \<and>
            length plain = unat (exp_ciphertextLength expected)"
      "callback (evidence_of expected valid) plain w1 = ((e, v'), w2)" "v = Some v'"
      "(err = e \<and> w' = w2) \<or>
       (\<not> exp_final expected \<and> e = None \<and> w' = tick w2 \<and>
        (\<forall>e'. err = Some e' \<longrightarrow> (\<exists>c. e' = newRecordFailure StageCancellation c)))"
proof -
  note fail' = that(1) and call' = that(2)
  obtain r0 w0 where p: "poll_record w = (r0, w0)" by force
  have polls: "reads_to (\<lambda>_. True) rec_error (\<lambda>_ _. True) poll_record" by (rule reads_to_poll) simp
  note only0 = reads_toD(1) [OF polls p TrueI]
  note run = assms [unfolded evaluateCanonicalRecord_def p prod.case]
  show thesis
  proof (cases r0)
    case (Inl e)
    then have "rec_error e" using reads_toD(2) [OF polls p TrueI] by blast
    then show ?thesis using run Inl only0 by (auto intro: fail')
  next
    case (Inr u)
    show ?thesis
    proof (cases "expectedRecord (ev_core ev) (ev_geometry ev) index")
      case None
      then show ?thesis using run Inr only0 by (auto intro: fail')
    next
      case (Some expected)
      obtain r1 w1 where b: "io_bind (check_descriptor ev expected) (\<lambda>_. read_body P ev expected) w0 = (r1, w1)"
        by force
      have both: "reads_to (\<lambda>_. True) rec_error
         (\<lambda>(decoded, valid) w. descriptor_read ev expected w \<and> body_read ev expected decoded w \<and>
            authenticate_body P ev expected decoded = Inr valid)
         (io_bind (check_descriptor ev expected) (\<lambda>_. read_body P ev expected))"
      proof (rule reads_to_bind [OF check_descriptor_reads])
        show "reads_to (descriptor_read ev expected) rec_error
           (\<lambda>(decoded, valid) w. descriptor_read ev expected w \<and> body_read ev expected decoded w \<and>
              authenticate_body P ev expected decoded = Inr valid) (read_body P ev expected)"
          using reads_to_frame [OF read_body_reads stable_descriptor_read]
          by (rule reads_to_conseq) auto
      qed
      note B = reads_toD [OF both b TrueI]
      have only1: "reads_only w w1" using only0 B(1) by (rule reads_only_trans)
      show ?thesis
      proof (cases r1)
        case (Inl e)
        then show ?thesis using run Inr Some b B(2) only1 by (auto intro: fail')
      next
        case r1: (Inr dv)
        obtain decoded valid where dv: "dv = (decoded, valid)" by force
        have B3: "descriptor_read ev expected w1" "body_read ev expected decoded w1"
          "authenticate_body P ev expected decoded = Inr valid"
          using B(3) [of "(decoded, valid)"] r1 dv by auto
        note run1 = run [unfolded Inr Some b r1 dv sum.case option.case prod.case Let_def]
        show ?thesis
        proof (cases "valid \<or> authorizes")
          case False
          then show ?thesis using run1 only1 by (auto intro!: fail')
        next
          case ok: True
          note run2 = run1 [folded evidence_of_def]
          show ?thesis
          proof (cases "exp_final expected")
            case True
            obtain e v' w2 where c: "callback (evidence_of expected valid) [] w1 = ((e, v'), w2)" by (metis prod.collapse)
            then show ?thesis
              using run2 ok True by (intro call' [OF Some only1 B3 ok _ c]) auto
          next
            case False
            obtain r2 w2 where d: "decrypt_body P ev expected decoded w1 = (r2, w2)" by force
            note D = reads_toD [OF decrypt_body_reads d TrueI]
            have only2: "reads_only w w2" using only1 D(1) by (rule reads_only_trans)
            show ?thesis
            proof (cases r2)
              case (Inl e)
              then show ?thesis using run2 ok False d D(2) only2 by (auto intro: fail')
            next
              case r2: (Inr plain)
              obtain e v' w3 where c: "callback (evidence_of expected valid) plain w2 = ((e, v'), w3)"
                by (metis prod.collapse)
              show ?thesis
                by (rule call' [OF Some only2 _ _ B3(3) ok _ c])
                  (use run2 ok False d r2 c D(3) B3 D(1) in
                    \<open>auto simp: poll_def ctx_Err_def tick_def
                       dest: stableD [OF stable_descriptor_read] stableD [OF stable_body_read]
                       split: option.splits\<close>)
            qed
          qed
        qed
      qed
    qed
  qed
qed

lemma expectedRecord_fields:
  assumes "expectedRecord core geometry index = Some expected"
  shows "exp_index expected = index" "exp_final expected \<longleftrightarrow> index = core_recordCount core"
    "index \<le> core_recordCount core"
  using assms
  by (auto simp: expectedRecord_def Let_def bind_eq_Some_conv split: if_splits option.splits)

section \<open>The traversal\<close>

text \<open>Reads, and records handed to the sink.\<close>

definition emits :: "world \<Rightarrow> (u64 \<times> byte list) list \<Rightarrow> world \<Rightarrow> bool" where
  "emits w recs w' \<longleftrightarrow>
     (\<exists>t reads. w' = w\<lparr>w_tick := t, w_trace := w_trace w @ reads, w_emitted := w_emitted w @ recs\<rparr>)"

lemma emits_nil [simp]: "emits w [] w' \<longleftrightarrow> reads_only w w'"
  by (simp add: emits_def reads_only_def)

lemma emits_trans: "emits a r b \<Longrightarrow> emits b s c \<Longrightarrow> emits a (r @ s) c"
  unfolding emits_def by fastforce

lemma emits_reads: "emits a r b \<Longrightarrow> reads_only b c \<Longrightarrow> emits a r c"
  using emits_trans [of a r b "[]" c] by simp

lemma emits_trace: "emits w recs w' \<Longrightarrow> set (w_trace w) \<subseteq> set (w_trace w')"
  by (auto simp: emits_def)

text \<open>A record the sink may see: verified, and decrypted under the keys of the volume.\<close>

definition released :: "prims \<Rightarrow> recordEvaluator \<Rightarrow> u64 \<times> byte list \<Rightarrow> world \<Rightarrow> bool" where
  "released P ev rec w \<longleftrightarrow>
     (\<exists>expected decoded.
        expectedRecord (ev_core ev) (ev_geometry ev) (fst rec) = Some expected \<and>
        \<not> exp_final expected \<and> proved_record P ev expected decoded w \<and>
        body_plain P ev expected decoded = Inr (snd rec) \<and>
        length (snd rec) = unat (exp_ciphertextLength expected))"

definition final_proved :: "prims \<Rightarrow> recordEvaluator \<Rightarrow> world \<Rightarrow> bool" where
  "final_proved P ev w \<longleftrightarrow>
     (\<exists>expected decoded.
        expectedRecord (ev_core ev) (ev_geometry ev) (core_recordCount (ev_core ev)) = Some expected \<and>
        proved_record P ev expected decoded w)"

lemma proved_record_mono:
  assumes "proved_record P ev expected decoded w" and "set (w_trace w) \<subseteq> set (w_trace w')"
  shows "proved_record P ev expected decoded w'"
proof -
  have "logged off bytes w \<Longrightarrow> logged off bytes w'" for off bytes
    using assms(2) by (auto simp: logged_def)
  then show ?thesis
    using assms(1) unfolding proved_record_def descriptor_read_def body_read_def by meson
qed

lemma released_mono: "released P ev rec w \<Longrightarrow> set (w_trace w) \<subseteq> set (w_trace w') \<Longrightarrow> released P ev rec w'"
  unfolding released_def using proved_record_mono by meson

lemma released_emits: "released P ev rec w \<Longrightarrow> emits w recs w' \<Longrightarrow> released P ev rec w'"
  by (rule released_mono [OF _ emits_trace])

lemma normal_callback_cases:
  assumes "normal_record_callback ev plain w = ((e, v), w')"
  shows "if \<not> evd_verified ev then v = (ev, None, True) \<and> e = Some (Plain InvalidRecordRequest) \<and> w' = w
     else if evd_final ev then v = (ev, None, False) \<and> e = None \<and> w' = w
     else (\<exists>sinkErr. v = (ev, sinkErr, False) \<and> e = map_option Plain sinkErr) \<and>
       emits w [(evd_index ev, plain)] w'"
proof -
  have "emits w [(index, plain)] ((tick w)\<lparr>w_emitted := w_emitted w @ [(index, plain)]\<rparr>)" for index
    unfolding emits_def tick_def by (rule exI [of _ "w_tick w + 1"], rule exI [of _ "[]"]) simp
  then show ?thesis
    using assms by (auto simp: normal_record_callback_def writeVerifiedRecord_def split: prod.splits)
qed

text \<open>One step: what it emits, and what each of its three ends means.\<close>

definition step_end ::
  "prims \<Rightarrow> recordEvaluator \<Rightarrow> u64 \<Rightarrow> u64 \<Rightarrow> u64 \<Rightarrow> (u64 \<times> byte list) list \<Rightarrow>
   (pcv3_error + recordVerification) + u64 \<times> u64 \<Rightarrow> world \<Rightarrow> bool" where
  "step_end P ev index dataRecords plaintextBytes recs r w \<longleftrightarrow>
     (case r of
        Inl (Inl e) \<Rightarrow> rec_error e \<and> (recs = [] \<or> (\<exists>plain. recs = [(index, plain)]))
      | Inl (Inr v) \<Rightarrow>
          recs = [] \<and> index = core_recordCount (ev_core ev) \<and>
          rv_dataRecords v = dataRecords \<and> dataRecords = core_recordCount (ev_core ev) \<and>
          rv_plaintextBytes v = plaintextBytes \<and> plaintextBytes = core_plaintextLength (ev_core ev) \<and>
          final_proved P ev w
      | Inr (dataRecords', plaintextBytes') \<Rightarrow>
          index < core_recordCount (ev_core ev) \<and>
          unat dataRecords' = unat dataRecords + 1 \<and>
          (\<exists>plain. recs = [(index, plain)] \<and> unat plaintextBytes' = unat plaintextBytes + length plain))"

lemma record_step_end:
  assumes "record_step P ev index dataRecords plaintextBytes w = (r, w')"
  shows "\<exists>recs. emits w recs w' \<and> list_all (\<lambda>rec. released P ev rec w') recs \<and>
    step_end P ev index dataRecords plaintextBytes recs r w'"
proof -
  obtain err v w1 where e: "evaluateCanonicalRecord P ev index False normal_record_callback w = ((err, v), w1)"
    by (metis prod.collapse)
  note run = assms [unfolded record_step_def e prod.case]
  from e show ?thesis
  proof (cases rule: evaluate_cases)
    case (failed e)
    then show ?thesis
      using run by (intro exI [of _ "[]"]) (auto simp: step_end_def)
  next
    case (called expected decoded valid plain w2 e' v' w3)
    have valid by (use called(6) in simp)
    note fields = expectedRecord_fields [OF called(1)]
    have proved: "proved_record P ev expected decoded w2"
      using called(3,4,5) \<open>valid\<close> by (simp add: proved_record_def)
    note cb = normal_callback_cases [OF called(8), unfolded evidence_of_def, simplified]
    show ?thesis
    proof (cases "exp_final expected")
      case True
      then have v: "v = Some (evidence_of expected True, None, False)" "e' = None" "w3 = w2"
        using cb called(9) \<open>valid\<close> by (auto simp: evidence_of_def)
      have "final_proved P ev w2" using called(1) fields(2) True proved by (auto simp: final_proved_def)
      then show ?thesis
        using run v called(2,10) True fields
        by (intro exI [of _ "[]"]) (auto simp: step_end_def evidence_of_def split: if_splits)
    next
      case False
      then obtain sinkErr where v: "v = Some (evidence_of expected True, sinkErr, False)"
          "e' = map_option Plain sinkErr" and em: "emits w2 [(index, plain)] w3"
        using cb called(9) \<open>valid\<close> fields(1) by (auto simp: evidence_of_def)
      have em1: "emits w [(index, plain)] w3"
        using emits_trans [of w "[]" w2] called(2) em by simp
      have w1: "reads_only w3 w1" using called(10) by auto
      have rel: "released P ev (index, plain) w3"
        using called(1,7) False fields proved proved_record_mono [OF proved emits_trace [OF em]]
        by (auto simp: released_def)
      have em2: "emits w [(index, plain)] w1" by (rule emits_reads [OF em1 w1])
      have lt: "index < core_recordCount (ev_core ev)" using False fields by simp
      have len: "length plain = unat (exp_ciphertextLength expected)" using called(7) False by simp
      have out: "reads_only w1 w' \<and> step_end P ev index dataRecords plaintextBytes [(index, plain)] r w'"
      proof (cases sinkErr)
        case (Some c)
        obtain cc w4 where c: "recordCancellationCause (Plain c) w1 = (cc, w4)" by force
        from run v(1) Some recordCancellationCause_reads [OF c] c show ?thesis
          by (cases err; cases cc) (auto simp: step_end_def)
      next
        case None
        from run v None called(10) False lt len show ?thesis
          by (cases err) (auto simp: step_end_def evidence_of_def add64.Some_iff split: option.splits if_splits)
      qed
      have "emits w3 [] w'" using reads_only_trans [OF w1] out by simp
      then show ?thesis
        using out emits_reads [OF em2] released_emits [OF rel, of "[]" w']
        by (intro exI [of _ "[(index, plain)]"]) simp
    qed
  qed
qed

text \<open>
  The loop from an index: the records it emits are consecutive, and it returns with one more
  unit of fuel than records left, never by running out of it.
\<close>

definition loop_end ::
  "prims \<Rightarrow> recordEvaluator \<Rightarrow> nat \<Rightarrow> nat \<Rightarrow> nat \<Rightarrow> (u64 \<times> byte list) list \<Rightarrow>
   pcv3_error + recordVerification \<Rightarrow> world \<Rightarrow> bool" where
  "loop_end P ev index dataRecords plaintextBytes recs r w \<longleftrightarrow>
     map fst recs = map (\<lambda>i. word_of_nat (index + i)) [0..<length recs] \<and>
     (case r of
        Inl e \<Rightarrow> rec_error e
      | Inr v \<Rightarrow>
          index + length recs = unat (core_recordCount (ev_core ev)) \<and>
          dataRecords + length recs = unat (rv_dataRecords v) \<and>
          rv_dataRecords v = core_recordCount (ev_core ev) \<and>
          plaintextBytes + (\<Sum>rec\<leftarrow>recs. length (snd rec)) = unat (rv_plaintextBytes v) \<and>
          rv_plaintextBytes v = core_plaintextLength (ev_core ev) \<and> final_proved P ev w)"

lemma step_loop_end:
  assumes "step_end P ev (word_of_nat index) dataRecords plaintextBytes recs (Inl result) w"
    and "index \<le> unat (core_recordCount (ev_core ev))"
  shows "loop_end P ev index (unat dataRecords) (unat plaintextBytes) recs result w"
proof -
  have "index < 2 ^ 64" using le_less_trans [OF assms(2) unat_u64_less] by simp
  then have "unat (word_of_nat index :: u64) = index" by (rule unat_word_small)
  then show ?thesis
    using assms(1) by (cases result) (auto simp: step_end_def loop_end_def)
qed

lemma loop_end_Cons:
  assumes "loop_end P ev (Suc index) (Suc dataRecords) (plaintextBytes + length plain) recs result w"
  shows "loop_end P ev index dataRecords plaintextBytes ((word_of_nat index, plain) # recs) result w"
proof -
  have "map (\<lambda>i. word_of_nat (index + i) :: u64) [0..<Suc k] =
      word_of_nat index # map (\<lambda>i. word_of_nat (Suc index + i)) [0..<k]" for k
    unfolding upt_conv_Cons [OF zero_less_Suc] map_Suc_upt [symmetric] by simp
  then show ?thesis
    using assms by (cases result) (auto simp: loop_end_def add.assoc)
qed

lemma record_loop_end:
  assumes "index + n = unat (core_recordCount (ev_core ev))"
    and "record_loop P ev (Suc n + k) (word_of_nat index) dataRecords plaintextBytes w = (r, w')"
  shows "\<exists>result recs. r = Some result \<and> emits w recs w' \<and>
    list_all (\<lambda>rec. released P ev rec w') recs \<and>
    loop_end P ev index (unat dataRecords) (unat plaintextBytes) recs result w'"
  using assms
proof (induction n arbitrary: index dataRecords plaintextBytes w)
  case 0
  obtain r1 w1 where st: "record_step P ev (word_of_nat index) dataRecords plaintextBytes w = (r1, w1)" by force
  from record_step_end [OF st] obtain recs where
    em: "emits w recs w1" "list_all (\<lambda>rec. released P ev rec w1) recs"
    and se: "step_end P ev (word_of_nat index) dataRecords plaintextBytes recs r1 w1" by blast
  have "word_of_nat index = core_recordCount (ev_core ev)" using 0(1) by (simp add: word_of_nat_unat)
  then obtain result where r1: "r1 = Inl result" using se by (auto simp: step_end_def split: sum.splits)
  then have "r = Some result" "w' = w1" using 0(2) st by simp_all
  then show ?case using em se r1 step_loop_end 0(1) by auto
next
  case (Suc n)
  obtain r1 w1 where st: "record_step P ev (word_of_nat index) dataRecords plaintextBytes w = (r1, w1)" by force
  from record_step_end [OF st] obtain recs where
    em: "emits w recs w1" "list_all (\<lambda>rec. released P ev rec w1) recs"
    and se: "step_end P ev (word_of_nat index) dataRecords plaintextBytes recs r1 w1" by blast
  show ?case
  proof (cases r1)
    case (Inl result)
    then have "r = Some result" "w' = w1" using Suc.prems(2) st by simp_all
    then show ?thesis using em se Inl step_loop_end Suc.prems(1) by auto
  next
    case (Inr counts)
    obtain d b where counts: "counts = (d, b)" by force
    obtain plain where recs: "recs = [(word_of_nat index, plain)]"
      and d: "unat d = Suc (unat dataRecords)" and b: "unat b = unat plaintextBytes + length plain"
      using se Inr counts by (auto simp: step_end_def)
    have "record_loop P ev (Suc n + k) (word_of_nat (Suc index)) d b w1 = (r, w')"
      using Suc.prems(2) st Inr counts by (simp add: add.commute)
    from Suc.IH [OF _ this] Suc.prems(1) obtain result recs' where
      ih: "r = Some result" "emits w1 recs' w'" "list_all (\<lambda>rec. released P ev rec w') recs'"
        "loop_end P ev (Suc index) (Suc (unat dataRecords)) (unat plaintextBytes + length plain) recs' result w'"
      using d b by auto
    have "released P ev (word_of_nat index, plain) w'"
      using em(2) released_emits [OF _ ih(2)] recs by simp
    then show ?thesis
      using ih(1,3) emits_trans [OF em(1) ih(2)] loop_end_Cons [OF ih(4)] recs
      by (intro exI [of _ result] exI [of _ "recs @ recs'"]) simp
  qed
qed

lemma record_loop_more:
  "record_loop P ev n index d b w = (Some r, w') \<Longrightarrow> record_loop P ev (n + k) index d b w = (Some r, w')"
proof (induction n arbitrary: index d b w)
  case (Suc n)
  then show ?case by (auto split: prod.splits sum.splits)
qed simp

text \<open>The traversal of the records always returns: one more iteration than there are
  records is enough, and more fuel changes nothing, whatever the source, the context and the
  sink do.\<close>

theorem record_traversal_terminates:
  "\<exists>result w'. \<forall>k.
     record_loop P ev (unat (core_recordCount (ev_core ev)) + 1 + k) 0 0 0 w = (Some result, w')"
proof -
  let ?n = "unat (core_recordCount (ev_core ev))"
  obtain r w' where run: "record_loop P ev (Suc ?n + 0) 0 0 0 w = (r, w')" by force
  then obtain result where "r = Some result"
    using record_loop_end [of 0 ?n ev P 0 0 0 w r w'] by auto
  then have "record_loop P ev (?n + 1 + k) 0 0 0 w = (Some result, w')" for k
    using record_loop_more [of P ev "Suc ?n" 0 0 0 w result w' k] run by (simp del: record_loop.simps)
  then show ?thesis by blast
qed

section \<open>The keys and the evaluator\<close>

text \<open>A key the evaluator took from the lender; one that returns without lending leaves zeroes.\<close>

definition lends_record_key :: "normalAuthResult \<Rightarrow> string \<Rightarrow> byte list \<Rightarrow> bool" where
  "lends_record_key auth label key \<longleftrightarrow>
     length key = 32 \<and>
     (auth_lender auth (volume_key_request label) = (Some key, None) \<or>
      auth_lender auth (volume_key_request label) = (None, None) \<and> key = replicate 32 0)"

definition evaluator_for ::
  "prims \<Rightarrow> RSCodecs \<Rightarrow> normalAuthResult \<Rightarrow> recordEvaluator \<Rightarrow> bool" where
  "evaluator_for P codecs auth ev \<longleftrightarrow>
     ev_core ev = cand_core (auth_candidate auth) \<and> ev_geometry ev = auth_geometry auth \<and>
     ev_codecs ev = codecs \<and> ev_commitment ev = coreCommitment P (ev_core ev) \<and>
     lends_record_key auth KeyLabelVolumePayloadXChaCha20 (rk_xChaCha20 (ev_keys ev)) \<and>
     (core_suite (ev_core ev) = SuiteParanoid \<longrightarrow>
        lends_record_key auth KeyLabelVolumePayloadSerpent (rk_serpent (ev_keys ev))) \<and>
     lends_record_key auth KeyLabelVolumePayloadMAC (rk_mac (ev_keys ev))"

lemma borrow_record_key_reads:
  "reads_to (\<lambda>_. True) rec_error (\<lambda>key _. lends_record_key auth label key) (borrow_record_key auth label)"
proof -
  let ?cb = "\<lambda>key destination. if length key \<noteq> length destination
      then (Some (Plain InvalidRecordRequest), destination) else (None, key)"
  obtain err key where b: "borrow (auth_lender auth (volume_key_request label)) ?cb (replicate 32 0) = (err, key)"
    by force
  show ?thesis
  proof (cases err)
    case None
    have "lends_record_key auth label key"
      using borrow_ok [OF b [unfolded None]]
      by (cases "auth_lender auth (volume_key_request label)")
        (auto simp: lends_record_key_def split: option.splits if_splits)
    then show ?thesis using b None by (simp add: borrow_record_key_def reads_to_ret)
  next
    case (Some e)
    then show ?thesis
      using b classifyRecordKeyFailure_reads
      by (auto simp: borrow_record_key_def reads_to_def split: prod.split)
  qed
qed

lemma newRecordEvaluator_reads:
  "reads_to (\<lambda>_. True) rec_error
     (\<lambda>ev _. core = cand_core (auth_candidate auth) \<and> geometry = auth_geometry auth \<longrightarrow>
        evaluator_for P codecs auth ev)
     (newRecordEvaluator P core geometry codecs auth)"
proof -
  have keys: "reads_to (\<lambda>_. True) rec_error
     (\<lambda>keys _. lends_record_key auth KeyLabelVolumePayloadXChaCha20 (rk_xChaCha20 keys) \<and>
        (core_suite core = SuiteParanoid \<longrightarrow>
           lends_record_key auth KeyLabelVolumePayloadSerpent (rk_serpent keys)) \<and>
        lends_record_key auth KeyLabelVolumePayloadMAC (rk_mac keys))
     (loadRecordKeys auth (core_suite core))"
    (is "reads_to _ _ ?K _")
    unfolding loadRecordKeys_def
  proof (rule reads_to_bind [OF borrow_record_key_reads])
    fix xkey
    let ?X = "lends_record_key auth KeyLabelVolumePayloadXChaCha20 xkey"
    let ?S = "\<lambda>skey. core_suite core = SuiteParanoid \<longrightarrow>
      lends_record_key auth KeyLabelVolumePayloadSerpent skey"
    have serpent: "reads_to (\<lambda>_. True) rec_error (\<lambda>skey _. ?S skey)
       (if core_suite core = SuiteParanoid then borrow_record_key auth KeyLabelVolumePayloadSerpent
        else if core_suite core \<noteq> SuiteStandard
        then io_fail (newRecordFailure StageCredentialPolicy InvalidRecordRequest)
        else io_ret (replicate 32 0))"
      by (intro reads_to_if reads_to_fail reads_to_ret reads_to_conseq [OF borrow_record_key_reads]) auto
    show "reads_to (\<lambda>_. ?X) rec_error ?K
       (io_bind (if core_suite core = SuiteParanoid then borrow_record_key auth KeyLabelVolumePayloadSerpent
              else if core_suite core \<noteq> SuiteStandard
              then io_fail (newRecordFailure StageCredentialPolicy InvalidRecordRequest)
              else io_ret (replicate 32 0)) (\<lambda>skey.
        io_bind (borrow_record_key auth KeyLabelVolumePayloadMAC) (\<lambda>mkey.
          io_ret \<lparr>rk_xChaCha20 = xkey, rk_serpent = skey, rk_mac = mkey\<rparr>)))"
      by (rule reads_to_bind_stable [OF serpent stable_const],
          rule reads_to_bind_stable [OF borrow_record_key_reads stable_const])
        (auto intro!: reads_to_ret)
  qed
  show ?thesis
    unfolding newRecordEvaluator_def Let_def
    by (rule reads_to_poll_stable, simp, simp)
      (intro reads_to_if reads_to_prod reads_to_option reads_to_fail
         reads_to_bind_stable [OF keys stable_const] reads_to_ret;
       simp add: evaluator_for_def)
qed

section \<open>Everything the sink sees is verified\<close>

lemma authenticatedRecordAuthority_Some:
  "authenticatedRecordAuthority auth = Some (core, geometry) \<Longrightarrow>
   core = cand_core (auth_candidate auth) \<and> geometry = auth_geometry auth"
  by (auto simp: authenticatedRecordAuthority_def split: if_splits sum.splits)

lemma readNormalRecords_end:
  assumes run: "readNormalRecordsWithSeams P codecs auth w = (r, w')"
  shows "\<exists>result recs.
       r = Some result \<and> emits w recs w' \<and>
       ((recs = [] \<and> (\<exists>e. result = Inl e \<and> rec_error e)) \<or>
        (\<exists>ev. evaluator_for P codecs auth ev \<and> list_all (\<lambda>rec. released P ev rec w') recs \<and>
           loop_end P ev 0 0 0 recs result w'))"
proof -
  have polls: "reads_to (\<lambda>_. True) rec_error (\<lambda>_ _. True) poll_record" by (rule reads_to_poll) simp
  obtain r0 w0 where p: "poll_record w = (r0, w0)" by force
  note P0 = reads_toD [OF polls p TrueI]
  note run0 = run [unfolded readNormalRecordsWithSeams_def p prod.case]
  show ?thesis
  proof (cases "\<exists>u. r0 = Inr u \<and> authenticatedRecordAuthority auth \<noteq> None \<and>
      validRecordCodecs codecs (geo_payloadBodyRS (snd (the (authenticatedRecordAuthority auth))))")
    case False
    then have "\<exists>e. r = Some (Inl e) \<and> rec_error e \<and> w' = w0"
      using run0 P0(2) by (cases r0) (auto split: option.splits if_splits)
    then show ?thesis using run P0(1) by (auto intro!: exI [of _ "[]"])
  next
    case True
    then obtain u core geometry where a: "r0 = Inr u" "authenticatedRecordAuthority auth = Some (core, geometry)"
      and v: "validRecordCodecs codecs (geo_payloadBodyRS geometry)" by auto
    obtain r1 w1 where e: "newRecordEvaluator P core geometry codecs auth w0 = (r1, w1)" by force
    note E = reads_toD [OF newRecordEvaluator_reads e TrueI]
    have only1: "reads_only w w1" using P0(1) E(1) by (rule reads_only_trans)
    note run1 = run0 [unfolded a v sum.case option.case prod.case e not_True_eq_False if_False]
    show ?thesis
    proof (cases r1)
      case (Inl err)
      then show ?thesis using run run1 v E(2) [OF Inl] only1 by (auto intro!: exI [of _ "[]"])
    next
      case (Inr ev)
      have ev: "evaluator_for P codecs auth ev"
        using E(3) [OF Inr] authenticatedRecordAuthority_Some [OF a(2)] by blast
      then have core: "core = ev_core ev"
        using authenticatedRecordAuthority_Some [OF a(2)] by (simp add: evaluator_for_def)
      have "record_loop P ev (Suc (unat (core_recordCount core)) + 1) (word_of_nat 0) 0 0 w1 = (r, w')"
        using run1 v Inr by (simp del: record_loop.simps)
      from record_loop_end [OF _ this] core obtain result recs where
        l: "r = Some result" "emits w1 recs w'" "list_all (\<lambda>rec. released P ev rec w') recs"
          "loop_end P ev 0 0 0 recs result w'" by auto
      have "emits w recs w'" using emits_trans [of w "[]" w1] only1 l(2) by simp
      then show ?thesis using run l ev by auto
    qed
  qed
qed

text \<open>C3: The sink is given consecutive records from index zero, each read at its canonical place
  and decrypted only after its tag verified under the lent keys; the traversal succeeds only
  when it gave all records of the volume, of together the plaintext length, and the final record
  verified; any other end is a record failure. This holds for every behaviour of the source,
  the context and the sink.\<close>

theorem only_verified_records_released:
  "case readNormalRecordsWithSeams P codecs auth w of (r, w') \<Rightarrow>
     \<exists>result recs.
       r = Some result \<and> emits w recs w' \<and>
       ((recs = [] \<and> (\<exists>e. result = Inl e \<and> rec_error e)) \<or>
        (\<exists>ev. evaluator_for P codecs auth ev \<and> list_all (\<lambda>rec. released P ev rec w') recs \<and>
           loop_end P ev 0 0 0 recs result w'))"
  using readNormalRecords_end by (simp split: prod.split)

end
