(* ===== verification/Normal_Reader.thy ===== *)
theory Normal_Reader
  imports Records
begin

text \<open>
  The reading session of a normal volume (\<open>pcv3/normal_reader.go\<close>, with the result types of
  \<open>pcv3/normal_types.go\<close>): probe again, authenticate, read the suffix, the metadata and all
  records, and close the session by reading the suffix a second time and looking for the
  physical end of the file. Panics are not modelled; the deferred \<open>abortUncommitted\<close> runs on
  every return without completion.
\<close>

section \<open>Results\<close>

text \<open>\<open>nc_seal\<close>: the completion carries the seal of a wholly authenticated volume.\<close>

record normalCompletion =
  nc_seal :: bool
  nc_payloadKind :: byte

definition newNormalCompletion :: "byte \<Rightarrow> bool \<Rightarrow> normalCompletion" where
  "newNormalCompletion payloadKind wholeVolumeAuthenticated =
     \<lparr>nc_seal = (wholeVolumeAuthenticated \<and>
                 (payloadKind = PayloadKindRaw \<or> payloadKind = PayloadKindArchive)),
      nc_payloadKind = payloadKind\<rparr>"

definition authenticatedPayloadKind :: "normalCompletion \<Rightarrow> byte option" where
  "authenticatedPayloadKind completion =
     (if \<not> nc_seal completion \<or>
         (nc_payloadKind completion \<noteq> PayloadKindRaw \<and> nc_payloadKind completion \<noteq> PayloadKindArchive)
      then None else Some (nc_payloadKind completion))"

record normalReadResult =
  nrr_outcome :: Outcome
  nrr_stage :: Stage
  nrr_authenticated :: nat
  nrr_comment :: "byte list option"

text \<open>Appending an empty comment to a nil slice leaves it nil.\<close>

definition newNormalReadResult :: "Outcome \<Rightarrow> Stage \<Rightarrow> nat \<Rightarrow> byte list option \<Rightarrow> normalReadResult" where
  "newNormalReadResult outcome stage authenticated comment =
     \<lparr>nrr_outcome = outcome, nrr_stage = stage,
      nrr_authenticated = (if authenticated > 2 then 0 else authenticated),
      nrr_comment = (case comment of Some [] \<Rightarrow> None | _ \<Rightarrow> comment)\<rparr>"

definition nrr_Code :: "normalReadResult \<Rightarrow> Code" where
  "nrr_Code result = fst (codeFor (nrr_outcome result) (nrr_stage result))"

definition normalTailReadResult :: "pcv3_error \<Rightarrow> nat \<Rightarrow> normalReadResult" where
  "normalTailReadResult err authenticated =
     (case err of
        Failure OutcomeOperationFailed stage _ \<Rightarrow>
          newNormalReadResult OutcomeOperationFailed stage authenticated None
      | _ \<Rightarrow> newNormalReadResult OutcomeAuthenticationFailed StageTailGeometry authenticated None)"

definition normalResultForAuthenticatedError :: "pcv3_error \<Rightarrow> nat \<Rightarrow> normalReadResult" where
  "normalResultForAuthenticatedError err authenticated =
     (case err of
        RecordFailure stage _ \<Rightarrow>
          if stage \<in> {StageDescriptor, StageRecordBodyRS, StageRecordAuth, StageFinalRecord}
          then newNormalReadResult OutcomeAuthenticationFailed stage authenticated None
          else if stage \<in> {StageInputIO, StageCancellation, StageOutputWrite, StageCredentialPolicy}
          then newNormalReadResult OutcomeOperationFailed stage authenticated None
          else newNormalReadResult OutcomeOperationFailed StageCredentialPolicy authenticated None
      | Failure OutcomeOperationFailed stage _ \<Rightarrow>
          newNormalReadResult OutcomeOperationFailed stage authenticated None
      | _ \<Rightarrow> newNormalReadResult OutcomeOperationFailed StageCredentialPolicy authenticated None)"

section \<open>The physical end of the file\<close>

datatype normalEOFState = NormalEOFExact | NormalEOFFailure | NormalEOFOperation

text \<open>\<open>for range 2\<close>: two reads of one byte at the offset.\<close>

fun physical_eof :: "nat \<Rightarrow> int \<Rightarrow> world \<Rightarrow> normalEOFState \<times> world" where
  "physical_eof 0 offset w = (NormalEOFOperation, w)"
| "physical_eof (Suc n) offset w =
     (case source_ReadAt offset 1 w of
        ((count, _, err), w) \<Rightarrow>
          if count < 0 \<or> count > 1 then (NormalEOFOperation, w)
          else if count \<noteq> 0 then (NormalEOFFailure, w)
          else
            (case err of
               Some c \<Rightarrow> (if isEOF c then NormalEOFExact else NormalEOFOperation, w)
             | None \<Rightarrow> physical_eof n offset w))"

definition normalPhysicalEOF :: "int \<Rightarrow> world \<Rightarrow> normalEOFState \<times> world" where
  "normalPhysicalEOF offset w =
     (if offset < 0 then (NormalEOFOperation, w) else physical_eof 2 offset w)"

section \<open>The session\<close>

type_synonym read_outcome = "(normalReadResult \<times> normalCompletion option) option \<times> world"

text \<open>A return without completion discards what the sink staged.\<close>

definition uncommitted :: "normalReadResult \<Rightarrow> world \<Rightarrow> read_outcome" where
  "uncommitted result w = (Some (result, None), w\<lparr>w_aborted := True\<rparr>)"

text \<open>The closing part: the suffix again, the context, the physical end, the verdict.\<close>

definition close_session ::
  "normalAuthResult \<Rightarrow> int \<Rightarrow> byte list \<Rightarrow> metadataResult \<Rightarrow> Stage \<Rightarrow> world \<Rightarrow> read_outcome" where
  "close_session auth sourceSize suffix metadata degradedStage w =
     (let authenticated = auth_authenticated auth in
      case readExactAt (geo_backupCapsuleOffset (auth_geometry auth)) 1008 StageTailGeometry w of
        ((finalSuffix, tailErr), w) \<Rightarrow>
      case ctx_Err w of
        (Some _, w) \<Rightarrow>
          uncommitted (newNormalReadResult OutcomeOperationFailed StageCancellation authenticated None) w
      | (None, w) \<Rightarrow>
      case tailErr of
        Some e \<Rightarrow> uncommitted (normalTailReadResult e authenticated) w
      | None \<Rightarrow>
      case normalPhysicalEOF sourceSize w of
        (eofState, w) \<Rightarrow>
      case ctx_Err w of
        (Some _, w) \<Rightarrow>
          uncommitted (newNormalReadResult OutcomeOperationFailed StageCancellation authenticated None) w
      | (None, w) \<Rightarrow>
          if suffix \<noteq> finalSuffix \<or> sourceSize \<noteq> geo_fileSize (auth_geometry auth) \<or>
             eofState = NormalEOFFailure
          then uncommitted
                 (newNormalReadResult OutcomeAuthenticationFailed StageTailGeometry authenticated None) w
          else if eofState = NormalEOFOperation
          then uncommitted (newNormalReadResult OutcomeOperationFailed StageInputIO authenticated None) w
          else
            let comment = (case metadata of MetadataDamaged \<Rightarrow> None
                           | MetadataAuthenticatedPublic comment \<Rightarrow> Some comment);
                outcome = (if degradedStage \<noteq> StageNone then OutcomeAuthenticatedDegraded
                           else OutcomeSuccess);
                stage = (if degradedStage \<noteq> StageNone then degradedStage else StageNone)
            in (Some (newNormalReadResult outcome stage authenticated comment,
                      Some (newNormalCompletion (core_payloadKind (cand_core (auth_candidate auth)))
                              (outcome = OutcomeSuccess))), w))"

text \<open>The part between the authentication and the closing.\<close>

definition read_authenticated ::
  "prims \<Rightarrow> RSCodecs option \<Rightarrow> int \<Rightarrow> Structure \<Rightarrow> normalAuthResult \<Rightarrow> world \<Rightarrow> read_outcome" where
  "read_authenticated P newCodecs sourceSize fresh auth w =
     (let authenticated = auth_authenticated auth;
          degradedStage =
            (case structure_Issue fresh ComponentTrailer of
               Some stage \<Rightarrow> earlierAuthStage (auth_stage auth) stage
             | None \<Rightarrow> auth_stage auth)
      in
      case readExactAt (geo_backupCapsuleOffset (auth_geometry auth)) 1008 StageTailGeometry w of
        ((_, Some e), w) \<Rightarrow> uncommitted (normalTailReadResult e authenticated) w
      | ((suffix, None), w) \<Rightarrow>
      case newCodecs of
        None \<Rightarrow> uncommitted (newNormalReadResult OutcomeOperationFailed StageKDFRuntime authenticated None) w
      | Some codecs \<Rightarrow>
      case authenticateMetadata P codecs auth w of
        (Inl e, w) \<Rightarrow> uncommitted (normalResultForAuthenticatedError e authenticated) w
      | (Inr metadata, w) \<Rightarrow>
        let degradedStage =
              (if metadata = MetadataDamaged then earlierAuthStage degradedStage StageMetadata
               else degradedStage)
        in
        case readNormalRecordsWithSeams P codecs auth w of
          (None, w) \<Rightarrow> (None, w)
        | (Some (Inl e), w) \<Rightarrow> uncommitted (normalResultForAuthenticatedError e authenticated) w
        | (Some (Inr _), w) \<Rightarrow> close_session auth sourceSize suffix metadata degradedStage w)"

definition readNormalVolumeWithProvider ::
  "prims \<Rightarrow> RSCodecs option \<Rightarrow> int \<Rightarrow> Structure \<Rightarrow> credential_provider \<Rightarrow> world \<Rightarrow> read_outcome" where
  "readNormalVolumeWithProvider P newCodecs sourceSize cached provider w =
     (case ctx_Err w of
        (Some _, w) \<Rightarrow>
          uncommitted (newNormalReadResult OutcomeOperationFailed StageCancellation 0 None) w
      | (None, w) \<Rightarrow>
      case Probe newCodecs sourceSize w of
        ((route, fresh, err), w) \<Rightarrow>
          if err \<noteq> None \<or> route \<noteq> RouteNormalPCV \<or> str_observedSize fresh \<noteq> sourceSize \<or> fresh \<noteq> cached
          then uncommitted (newNormalReadResult OutcomeOperationFailed StageInputIO 0 None) w
          else
            case authenticateCapsulesBorrowingProvider P fresh provider w of
              (auth, w) \<Rightarrow>
                if auth_outcome auth \<noteq> OutcomeSuccess \<and> auth_outcome auth \<noteq> OutcomeAuthenticatedDegraded
                then uncommitted
                       (newNormalReadResult (auth_outcome auth) (auth_stage auth)
                          (auth_authenticated auth) None) w
                else read_authenticated P newCodecs sourceSize fresh auth w)"

section \<open>Where the stage of an authentication comes from\<close>

text \<open>The stages a provider puts into its own \<open>capsuleAuthError\<close> values.\<close>

definition provider_stage :: "credential_provider \<Rightarrow> Stage \<Rightarrow> bool" where
  "provider_stage provider stage \<longleftrightarrow>
     (\<exists>tuple access err.
        prov_withCredential provider tuple = (access, err) \<and>
        (err = Some (CapsuleAuthError stage) \<or>
         (\<exists>acc role. access = Some acc \<and>
            (snd (acc_withWrapKeys acc role) = Some (CapsuleAuthError stage) \<or>
             (\<exists>vk. snd (acc_withReplicaKey acc role vk) = Some (CapsuleAuthError stage))))))"

lemma structural_warning:
  "legal_pair OutcomeInvalidStructurePreKDF stage \<Longrightarrow> warning_stage stage"
  by (cases stage) (simp_all add: legal_pair_def)

lemma foldl_earlier:
  assumes "list_all (\<lambda>s. warning_stage s \<or> s = StageNone) stages" and "warning_stage a \<or> a = StageNone"
  shows "warning_stage (foldl earlierAuthStage a stages) \<or> foldl earlierAuthStage a stages = StageNone"
  using assms
proof (induction stages arbitrary: a)
  case (Cons s stages)
  have "warning_stage (earlierAuthStage a s) \<or> earlierAuthStage a s = StageNone"
    using Cons.prems by (auto simp: earlierAuthStage_def)
  then show ?case using Cons by simp
qed simp

lemma structure_Issue_warning:
  "structure_ok s \<Longrightarrow> structure_Issue s component = Some stage \<Longrightarrow> warning_stage stage"
  by (cases component) (auto simp: structure_ok_def dest: structural_warning split: if_splits)

lemma failedReplicaStage_warning:
  assumes "structure_ok s" and "set failed \<subseteq> {StageNone, StageWrapAuth, StageReplicaAuth}"
  shows "warning_stage (failedReplicaStage s failed)"
proof -
  let ?f = "foldl earlierAuthStage StageNone failed"
  have f: "warning_stage ?f \<or> ?f = StageNone"
    using foldl_earlier [of failed StageNone] assms(2) by (fastforce simp: list_all_iff)
  have w: "warning_stage (earlierAuthStage ?f stage)" if "warning_stage stage" for stage
    using f that by (auto simp: earlierAuthStage_def)
  have "str_issuePrimary s \<noteq> StageNone \<Longrightarrow> warning_stage (str_issuePrimary s)"
    "str_issueBackup s \<noteq> StageNone \<Longrightarrow> warning_stage (str_issueBackup s)"
    using structure_Issue_warning [OF assms(1), of ComponentPrimary "str_issuePrimary s"]
      structure_Issue_warning [OF assms(1), of ComponentBackup "str_issueBackup s"] by simp_all
  with f w show ?thesis
    by (auto simp: failedReplicaStage_def Let_def split: list.split option.split)
qed

lemma authenticateCandidate_error_stage:
  assumes "authenticateCandidate P c g access = Inl stage"
  shows "legal_pair OutcomeOperationFailed stage \<or>
    (\<exists>role. snd (acc_withWrapKeys access role) = Some (CapsuleAuthError stage) \<or>
       (\<exists>vk. snd (acc_withReplicaKey access role vk) = Some (CapsuleAuthError stage)))"
proof -
  have wrap: "snd (acc_withWrapKeys access role) = Some (CapsuleAuthError st)"
    if "borrow (acc_withWrapKeys access role) (wrap_callback P c) s = (Some (CapsuleAuthError st), r)" for role s st r
    using that by (auto simp: borrow_def wrap_callback_def split: prod.splits option.splits sum.splits bool.splits)
  have replica: "snd (acc_withReplicaKey access role vk) = Some (CapsuleAuthError st)"
    if "borrow (acc_withReplicaKey access role vk) (replica_callback P c) s = (Some (CapsuleAuthError st), r)"
    for role vk s st r
    using that by (auto simp: borrow_def replica_callback_def split: prod.splits option.splits sum.splits)
  show ?thesis
    using assms wrap replica
    by (fastforce simp: authenticateCandidate_def split: prod.splits option.splits pcv3_error.splits if_splits)
qed

lemma authenticate_loop_error_stage:
  "authenticate_loop P access cs = Inl stage \<Longrightarrow>
   legal_pair OutcomeOperationFailed stage \<or>
    (\<exists>role. snd (acc_withWrapKeys access role) = Some (CapsuleAuthError stage) \<or>
       (\<exists>vk. snd (acc_withReplicaKey access role vk) = Some (CapsuleAuthError stage)))"
proof (induction cs)
  case (Cons cg cs)
  obtain c g where cg: "cg = (c, g)" by force
  then have "authenticateCandidate P c g access = Inl stage \<or> authenticate_loop P access cs = Inl stage"
    using Cons.prems by (cases "authenticateCandidate P c g access"; cases "authenticate_loop P access cs")
      (auto split: sum.splits)
  then show ?case using Cons.IH authenticateCandidate_error_stage by blast
qed simp

lemma credential_callback_Inl:
  assumes "credential_callback P structure access = Inl stage"
  shows "authenticate_loop P access (str_candidates structure) = Inl stage \<or> stage = StageUnwrap"
proof (cases "authenticate_loop P access (str_candidates structure)")
  case (Inr p)
  then show ?thesis
    using assms by (cases p; cases "fst p")
      (auto simp: credential_callback_def Let_def split: option.splits if_splits)
qed (use assms in \<open>simp add: credential_callback_def\<close>)

definition auth_stage_ok :: "credential_provider \<Rightarrow> normalAuthResult \<Rightarrow> bool" where
  "auth_stage_ok provider r \<longleftrightarrow>
     auth_authenticated r \<le> 2 \<and>
     (if auth_outcome r = OutcomeAuthenticatedDegraded then warning_stage (auth_stage r)
      else legal_pair (auth_outcome r) (auth_stage r) \<or>
           (auth_outcome r = OutcomeOperationFailed \<and> provider_stage provider (auth_stage r)))"

lemma credential_callback_stage:
  assumes "credential_callback P structure access = Inr (r, adopted)" and "structure_ok structure"
    and "length (str_candidates structure) \<le> 2"
  shows "auth_stage_ok provider r"
proof -
  obtain authenticated failed where
    loop: "authenticate_loop P access (str_candidates structure) = Inr (authenticated, failed)"
    using assms(1) unfolding credential_callback_def by (auto simp: ebind_eq_Inr)
  note spec = authenticate_loop_spec [OF loop]
  have "warning_stage (failedReplicaStage structure failed)"
    using failedReplicaStage_warning [OF assms(2)] spec by blast
  then have "warning_stage (earlierAuthStage (failedReplicaStage structure failed) StagePreamble)"
    by (auto simp: earlierAuthStage_def)
  with \<open>warning_stage (failedReplicaStage structure failed)\<close> show ?thesis
    using assms(1,3) spec
    by (cases authenticated)
      (auto simp: credential_callback_def loop auth_stage_ok_def Let_def split: option.splits if_splits)
qed

lemma authenticate_stage_ok:
  assumes "authenticateCapsulesWithProviderMode P structure provider retain w = (r, w')"
    and "structure_ok structure"
  shows "auth_stage_ok provider r"
proof (cases "credentialTupleForStructure structure")
  case None
  then show ?thesis
    using assms by (auto simp: authenticateCapsulesWithProviderMode_def auth_stage_ok_def)
next
  case (Some tuple)
  have two: "length (str_candidates structure) \<le> 2"
    using Some by (auto simp: credentialTupleForStructure_def split: list.splits if_splits)
  obtain access err where lend: "prov_withCredential provider tuple = (access, err)" by force
  have acc: "provider_stage provider stage"
    if "access = Some acc" "authenticate_loop P acc (str_candidates structure) = Inl stage"
      "\<not> legal_pair OutcomeOperationFailed stage" for acc stage
    using authenticate_loop_error_stage [OF that(2)] that(1,3) lend unfolding provider_stage_def by blast
  have cb: "legal_pair OutcomeOperationFailed stage \<or> provider_stage provider stage"
    if "access = Some a" "credential_callback P structure a = Inl stage" for a stage
    using credential_callback_Inl [OF that(2)] acc [OF that(1)] by auto
  have e: "provider_stage provider stage" if "err = Some (CapsuleAuthError stage)" for stage
    using that lend unfolding provider_stage_def by blast
  have callb: "auth_stage_ok provider r0" if "credential_callback P structure a = Inr (r0, adopted)" for a r0 adopted
    using credential_callback_stage [OF that assms(2) two] .
  have keep: "auth_stage_ok provider (r0\<lparr>auth_owner := o', auth_keyBorrower := b'\<rparr>) = auth_stage_ok provider r0" for r0 o' b'
    by (simp add: auth_stage_ok_def)
  show ?thesis
    using assms(1) [unfolded authenticateCapsulesWithProviderMode_def Some option.case lend borrow_def prod.case]
      cb e callb
    by (auto simp: keep Let_def auth_stage_ok_def [of provider "newNormalAuthResult _ _ _"]
        split: option.splits prod.splits sum.splits pcv3_error.splits if_splits)
qed

section \<open>How the session ends\<close>

text \<open>Without completion: some records may have gone to the sink, which is told to discard them,
  and the result is a legal failure without comment.\<close>

definition failed_end :: "normalReadResult \<Rightarrow> world \<Rightarrow> world \<Rightarrow> bool" where
  "failed_end result w w' \<longleftrightarrow>
     (\<exists>recs w1. emits w recs w1 \<and> w' = w1\<lparr>w_aborted := True\<rparr>) \<and>
     nrr_comment result = None \<and> \<not> open_outcome (nrr_outcome result) \<and>
     legal_pair (nrr_outcome result) (nrr_stage result)"

lemma newNormalReadResult_sel [simp]:
  "nrr_outcome (newNormalReadResult outcome stage n comment) = outcome"
  "nrr_stage (newNormalReadResult outcome stage n comment) = stage"
  "nrr_comment (newNormalReadResult outcome stage n None) = None"
  "nrr_comment (newNormalReadResult outcome stage n (Some (b # bs))) = Some (b # bs)"
  by (simp_all add: newNormalReadResult_def)

lemma nrr_comment_Some:
  "nrr_comment (newNormalReadResult outcome stage n comment) = Some bytes \<Longrightarrow> comment = Some bytes"
  by (auto simp: newNormalReadResult_def split: option.splits list.splits)

lemma legal_failed_stages [simp]:
  "legal_pair OutcomeAuthenticationFailed StageTailGeometry"
  "legal_pair OutcomeAuthenticationFailed StageDescriptor"
  "legal_pair OutcomeAuthenticationFailed StageRecordBodyRS"
  "legal_pair OutcomeAuthenticationFailed StageRecordAuth"
  "legal_pair OutcomeAuthenticationFailed StageFinalRecord"
  "\<not> open_outcome OutcomeAuthenticationFailed"
  by (simp_all add: legal_pair_def open_outcome_def)

lemma failed_endI:
  assumes "emits w recs w1" and "\<not> open_outcome (nrr_outcome result)" and "nrr_comment result = None"
    and "legal_pair (nrr_outcome result) (nrr_stage result)"
  shows "failed_end result w (w1\<lparr>w_aborted := True\<rparr>)"
  using assms unfolding failed_end_def by blast

lemma failed_end_after:
  assumes "emits w recs w1" and "failed_end result w1 w'"
  shows "failed_end result w w'"
  using assms emits_trans unfolding failed_end_def by blast

lemma uncommitted_failed:
  assumes "uncommitted result w1 = (r, w')" and "reads_only w w1"
    and "\<not> open_outcome (nrr_outcome result)" and "nrr_comment result = None"
    and "legal_pair (nrr_outcome result) (nrr_stage result)"
  shows "r = Some (result, None) \<and> failed_end result w w'"
  using assms failed_endI [of w "[]" w1 result] by (auto simp: uncommitted_def)

lemma tail_result:
  assumes "pre_kdf_error e"
  shows "\<not> open_outcome (nrr_outcome (normalTailReadResult e n))"
    "nrr_comment (normalTailReadResult e n) = None"
    "legal_pair (nrr_outcome (normalTailReadResult e n)) (nrr_stage (normalTailReadResult e n))"
  using assms by (auto simp: pre_kdf_error_def normalTailReadResult_def)

lemma authenticated_error_result:
  assumes "op_error e \<or> rec_error e"
  shows "\<not> open_outcome (nrr_outcome (normalResultForAuthenticatedError e n))"
    "nrr_comment (normalResultForAuthenticatedError e n) = None"
    "legal_pair (nrr_outcome (normalResultForAuthenticatedError e n))
       (nrr_stage (normalResultForAuthenticatedError e n))"
  using assms
  by (auto simp: op_error_def rec_error_def record_stage_def normalResultForAuthenticatedError_def)

lemma physical_eof_reads: "physical_eof n offset w = (r, w') \<Longrightarrow> reads_only w w'"
proof (induction n arbitrary: w)
  case (Suc n)
  have "reads_only w x" if "reads_only (tick w) x" for x by (rule reads_only_trans [OF reads_only_tick that])
  with Suc show ?case
    by (auto simp: source_ReadAt_def split: prod.splits if_splits option.splits)
qed simp

lemma normalPhysicalEOF_reads: "normalPhysicalEOF offset w = (r, w') \<Longrightarrow> reads_only w w'"
  by (auto simp: normalPhysicalEOF_def dest: physical_eof_reads split: if_splits)

text \<open>The result and completion of a session that closes.\<close>

definition closed_result ::
  "normalAuthResult \<Rightarrow> metadataResult \<Rightarrow> Stage \<Rightarrow> normalReadResult \<times> normalCompletion option" where
  "closed_result auth metadata degradedStage =
     (let outcome = (if degradedStage \<noteq> StageNone then OutcomeAuthenticatedDegraded else OutcomeSuccess)
      in (newNormalReadResult outcome degradedStage (auth_authenticated auth)
            (case metadata of MetadataDamaged \<Rightarrow> None | MetadataAuthenticatedPublic comment \<Rightarrow> Some comment),
          Some (newNormalCompletion (core_payloadKind (cand_core (auth_candidate auth)))
                  (outcome = OutcomeSuccess))))"

lemma close_session_cases:
  assumes "close_session auth sourceSize suffix metadata degradedStage w = (r, w')"
  obtains (failed) result where "r = Some (result, None)" "failed_end result w w'"
  | (closed) "r = Some (closed_result auth metadata degradedStage)" "reads_only w w'"
      "sourceSize = geo_fileSize (auth_geometry auth)"
      "logged (geo_backupCapsuleOffset (auth_geometry auth)) suffix w'"
proof -
  note close' = that(2)
  have fail': thesis if "uncommitted result wx = (r, w')" "reads_only w wx"
    "\<not> open_outcome (nrr_outcome result)" "nrr_comment result = None"
    "legal_pair (nrr_outcome result) (nrr_stage result)" for result wx
    using uncommitted_failed [OF that] \<open>\<And>result. r = Some (result, None) \<Longrightarrow> failed_end result w w' \<Longrightarrow> thesis\<close>
    by blast
  let ?off = "geo_backupCapsuleOffset (auth_geometry auth)"
  obtain final err w1 where rd: "readExactAt ?off 1008 StageTailGeometry w = ((final, err), w1)"
    by (metis prod.collapse)
  have w1: "reads_only w w1" by (rule readExactAt_only [OF rd])
  note run = assms [unfolded close_session_def Let_def rd ctx_Err_def prod.case]
  show thesis
  proof (cases "env_ctx (w_env w1) (w_tick w1)")
    case (Some c)
    then show thesis
      using run by (intro fail' [OF _ reads_only_trans [OF w1 reads_only_tick]]) auto
  next
    case None
    note N = None
    show thesis
    proof (cases err)
      case (Some e)
      have "pre_kdf_error e" using readExactAt_error [OF rd [unfolded Some]] by simp
      from run N Some tail_result [OF this] show thesis
        by (intro fail' [OF _ reads_only_trans [OF w1 reads_only_tick]]) auto
    next
      case None
      have lg: "logged ?off final w1" using readExactAt_Done [OF rd [unfolded None]] by (auto simp: logged_def)
      obtain eof w3 where e: "normalPhysicalEOF sourceSize (tick w1) = (eof, w3)" by force
      have w3: "reads_only w1 w3" using reads_only_trans [OF reads_only_tick normalPhysicalEOF_reads [OF e]] .
      have w4: "reads_only w (tick w3)" using reads_only_trans [OF w1 reads_only_trans [OF w3 reads_only_tick]] .
      have lg4: "logged ?off final (tick w3)"
        using stableD [OF stable_logged lg reads_only_trans [OF w3 reads_only_tick]] .
      note run2 = run [unfolded N None option.case prod.case e]
      show thesis
      proof (cases "env_ctx (w_env w3) (w_tick w3) = None \<and> suffix = final \<and>
          sourceSize = geo_fileSize (auth_geometry auth) \<and> eof = NormalEOFExact")
        case True
        then show thesis
          using run2 w4 lg4
          by (intro close') (auto simp: closed_result_def Let_def split: metadataResult.splits)
      next
        case False
        then show thesis
          using run2 fail' [OF _ w4] by (cases eof) (auto split: option.splits if_splits)
      qed
    qed
  qed
qed

text \<open>Facts about the log of reads survive what the records do.\<close>

lemma emits_stable:
  assumes "stable S" and "\<And>w x. S (w\<lparr>w_emitted := x\<rparr>) = S w" and "S w" and "emits w recs w'"
  shows "S w'"
proof -
  have "reads_only w (w'\<lparr>w_emitted := w_emitted w\<rparr>)"
    using assms(4) unfolding emits_def reads_only_def by (elim exE, intro exI) (rule world.equality; simp)
  from stableD [OF assms(1,3) this] show ?thesis by (simp add: assms(2))
qed

lemma logged_emitted [simp]: "logged off bytes (w\<lparr>w_emitted := x\<rparr>) = logged off bytes w"
  by (simp add: logged_def)

lemma authentic_comment_emits:
  "authentic_comment P codecs auth comment w \<Longrightarrow> emits w recs w' \<Longrightarrow>
   authentic_comment P codecs auth comment w'"
proof (erule emits_stable [rotated 2])
  show "stable (authentic_comment P codecs auth comment)"
    unfolding authentic_comment_def
    by (intro stable_ex stable_conj stable_const stable_metadata_read)
  show "authentic_comment P codecs auth comment (w\<lparr>w_emitted := x\<rparr>) =
      authentic_comment P codecs auth comment w" for w x
    by (simp add: authentic_comment_def metadata_read_def blocks_read_def block_read_def)
qed

lemma final_proved_emits: "final_proved P ev w \<Longrightarrow> emits w recs w' \<Longrightarrow> final_proved P ev w'"
  unfolding final_proved_def using proved_record_mono [OF _ emits_trace] by blast

lemma loop_end_emits: "loop_end P ev i d b recs r w \<Longrightarrow> emits w recs' w' \<Longrightarrow> loop_end P ev i d b recs r w'"
  by (auto simp: loop_end_def final_proved_emits split: sum.splits)

text \<open>What a closed session rests on: the records, the comment, the suffix.\<close>

definition volume_verified ::
  "prims \<Rightarrow> RSCodecs \<Rightarrow> normalAuthResult \<Rightarrow> metadataResult \<Rightarrow> (u64 \<times> byte list) list \<Rightarrow> world \<Rightarrow> bool" where
  "volume_verified P codecs auth metadata recs w \<longleftrightarrow>
     (\<exists>ev v suffix.
        evaluator_for P codecs auth ev \<and> list_all (\<lambda>rec. released P ev rec w) recs \<and>
        loop_end P ev 0 0 0 recs (Inr v) w \<and>
        logged (geo_backupCapsuleOffset (auth_geometry auth)) suffix w) \<and>
     (case metadata of MetadataDamaged \<Rightarrow> True
      | MetadataAuthenticatedPublic comment \<Rightarrow> authentic_comment P codecs auth comment w)"

text \<open>The earliest problem of an authenticated session.\<close>

definition session_stage :: "Structure \<Rightarrow> normalAuthResult \<Rightarrow> metadataResult \<Rightarrow> Stage" where
  "session_stage fresh auth metadata =
     (let stage = (case structure_Issue fresh ComponentTrailer of
                     Some stage \<Rightarrow> earlierAuthStage (auth_stage auth) stage
                   | None \<Rightarrow> auth_stage auth)
      in if metadata = MetadataDamaged then earlierAuthStage stage StageMetadata else stage)"

lemma read_authenticated_cases:
  assumes "read_authenticated P newCodecs sourceSize fresh auth w = (r, w')"
  obtains (failed) result where "r = Some (result, None)" "failed_end result w w'"
  | (closed) codecs metadata recs where "newCodecs = Some codecs" "emits w recs w'"
      "volume_verified P codecs auth metadata recs w'" "sourceSize = geo_fileSize (auth_geometry auth)"
      "r = Some (closed_result auth metadata (session_stage fresh auth metadata))"
proof -
  note close' = that(2) and fail0 = that(1)
  have fail': thesis if "uncommitted result wx = (r, w')" "emits w recs wx"
    "\<not> open_outcome (nrr_outcome result)" "nrr_comment result = None"
    "legal_pair (nrr_outcome result) (nrr_stage result)" for result recs wx
    using that(1) failed_endI [OF that(2-)] fail0 by (auto simp: uncommitted_def)
  let ?off = "geo_backupCapsuleOffset (auth_geometry auth)"
  obtain suffix err w1 where rd: "readExactAt ?off 1008 StageTailGeometry w = ((suffix, err), w1)"
    by (metis prod.collapse)
  have w1: "reads_only w w1" by (rule readExactAt_only [OF rd])
  then have e1: "emits w [] w1" by simp
  note run = assms [unfolded read_authenticated_def Let_def rd prod.case]
  show thesis
  proof (cases err)
    case (Some e)
    have "pre_kdf_error e" using readExactAt_error [OF rd [unfolded Some]] by simp
    from run Some tail_result [OF this] show thesis by (intro fail' [OF _ e1]) auto
  next
    case None
    show thesis
    proof (cases newCodecs)
      assume "newCodecs = None"
      then show thesis using run None by (intro fail' [OF _ e1]) auto
    next
      fix codecs
      assume c: "newCodecs = Some codecs"
      obtain m w2 where md: "authenticateMetadata P codecs auth w1 = (m, w2)" by force
      note M = reads_toD [OF authenticateMetadata_reads md TrueI]
      have e2: "emits w [] w2" using reads_only_trans [OF w1 M(1)] by simp
      note run2 = run [unfolded None c option.case md prod.case]
      show thesis
      proof (cases m)
        case (Inl e)
        then show thesis using run2 authenticated_error_result [of e] M(2) [OF Inl]
          by (intro fail' [OF _ e2]) auto
      next
        case (Inr metadata)
        obtain rr w3 where rec: "readNormalRecordsWithSeams P codecs auth w2 = (rr, w3)" by force
        then obtain result recs where rr: "rr = Some result" "emits w2 recs w3"
          and ends: "(recs = [] \<and> (\<exists>e. result = Inl e \<and> rec_error e)) \<or>
            (\<exists>ev. evaluator_for P codecs auth ev \<and> list_all (\<lambda>rec. released P ev rec w3) recs \<and>
               loop_end P ev 0 0 0 recs result w3)"
          using readNormalRecords_end [OF rec] by auto
        have e3: "emits w recs w3" using emits_trans [OF e2 rr(2)] by simp
        note run3 = run2 [unfolded Inr sum.case rec rr(1) prod.case option.case]
        show thesis
        proof (cases result)
          case (Inl e)
          then have "rec_error e" using ends by (auto simp: loop_end_def)
          then show thesis using run3 Inl authenticated_error_result [of e]
            by (intro fail' [OF _ e3]) auto
        next
          case (Inr v)
          then obtain ev where ev: "evaluator_for P codecs auth ev"
            "list_all (\<lambda>rec. released P ev rec w3) recs" "loop_end P ev 0 0 0 recs (Inr v) w3"
            using ends by auto
          have cl: "close_session auth sourceSize suffix metadata (session_stage fresh auth metadata) w3 = (r, w')"
            using run3 [unfolded Inr sum.case] unfolding session_stage_def Let_def .
          then show thesis
          proof (cases rule: close_session_cases)
            case (failed result)
            then show thesis using fail0 failed_end_after [OF e3] by blast
          next
            case closed
            have e4: "emits w3 [] w'" using closed(2) by simp
            have "emits w recs w'" using emits_trans [OF e3 e4] by simp
            moreover have "volume_verified P codecs auth metadata recs w'"
            proof -
              have rel: "list_all (\<lambda>rec. released P ev rec w') recs"
                using ev(2) released_emits [OF _ e4] by (auto simp: list_all_iff)
              have com: "authentic_comment P codecs auth comment w'"
                if "metadata = MetadataAuthenticatedPublic comment" for comment
                using M(3) [OF \<open>m = Inr metadata\<close>] that authentic_comment_emits [OF _ rr(2)]
                  authentic_comment_emits [OF _ e4] by auto
              show ?thesis
                using ev(1) rel loop_end_emits [OF ev(3) e4] closed(4) com
                unfolding volume_verified_def by (auto split: metadataResult.split)
            qed
            ultimately show thesis using close' [OF c] closed(1,3) by blast
          qed
        qed
      qed
    qed
  qed
qed

lemma authenticate_reads:
  "authenticateCapsulesWithProviderMode P structure provider retain w = (r, w') \<Longrightarrow> reads_only w w'"
  by (erule authenticate_cases) auto

lemma session_stage_warning:
  assumes "structure_ok fresh" and "auth_stage_ok provider auth" and "open_outcome (auth_outcome auth)"
  shows "session_stage fresh auth metadata = StageNone \<or> warning_stage (session_stage fresh auth metadata)"
proof -
  have "auth_stage auth = StageNone \<or> warning_stage (auth_stage auth)"
    using assms(2,3) by (auto simp: auth_stage_ok_def open_outcome_def legal_pair_def split: if_splits)
  moreover have "structure_Issue fresh ComponentTrailer = Some stage \<Longrightarrow> warning_stage stage" for stage
    using structure_Issue_warning [OF assms(1)] .
  moreover have "earlierAuthStage a b = StageNone \<or> warning_stage (earlierAuthStage a b)"
    if "a = StageNone \<or> warning_stage a" "b = StageNone \<or> warning_stage b" for a b
    using that by (auto simp: earlierAuthStage_def)
  ultimately show ?thesis
    by (auto simp: session_stage_def Let_def simp del: structure_Issue.simps split: option.split)
qed

text \<open>The whole session: what came before the authentication, and its two kinds of end.\<close>

lemma session_cases:
  assumes "readNormalVolumeWithProvider P newCodecs sourceSize cached provider w = (r, w')"
  obtains (failed) result where "r = Some (result, None)" "failed_end result w w'"
  | (refused) result where "r = Some (result, None)" "w_aborted w'" "w_emitted w' = w_emitted w"
      "nrr_comment result = None" "nrr_outcome result = OutcomeOperationFailed"
      "provider_stage provider (nrr_stage result)"
  | (closed) codecs auth metadata recs w1 w2 where
      "newCodecs = Some codecs" "structure_ok cached"
      "authenticateCapsulesBorrowingProvider P cached provider w1 = (auth, w2)"
      "open_outcome (auth_outcome auth)" "auth_stage_ok provider auth" "emits w recs w'"
      "volume_verified P codecs auth metadata recs w'" "sourceSize = geo_fileSize (auth_geometry auth)"
      "r = Some (closed_result auth metadata (session_stage cached auth metadata))"
proof -
  note fail0 = that(1) and refuse = that(2) and close' = that(3)
  have fail': thesis if "uncommitted result wx = (r, w')" "emits w recs wx"
    "\<not> open_outcome (nrr_outcome result)" "nrr_comment result = None"
    "legal_pair (nrr_outcome result) (nrr_stage result)" for result recs wx
    using that(1) failed_endI [OF that(2-)] fail0 by (auto simp: uncommitted_def)
  have e0: "emits w [] (tick w)" by simp
  note run = assms [unfolded readNormalVolumeWithProvider_def ctx_Err_def prod.case]
  show thesis
  proof (cases "env_ctx (w_env w) (w_tick w)")
    case (Some c)
    then show thesis using run by (intro fail' [OF _ e0]) auto
  next
    case None
    note N = None
    obtain route fresh err w1 where pr: "Probe newCodecs sourceSize (tick w) = ((route, fresh, err), w1)"
      by (metis prod.collapse)
    have p1: "reads_only (tick w) w1 \<and> (case err of Some e \<Rightarrow> pre_kdf_error e
        | None \<Rightarrow> route = RouteLegacyEligible \<or> inspected (Inr fresh))"
      by (rule Probe_ok [OF pr])
    have e1: "emits w [] w1" using p1 reads_only_trans [OF reads_only_tick] by simp
    note run1 = run [unfolded N option.case pr prod.case]
    show thesis
    proof (cases "err \<noteq> None \<or> route \<noteq> RouteNormalPCV \<or> str_observedSize fresh \<noteq> sourceSize \<or> fresh \<noteq> cached")
      case True
      then show thesis using run1 by (intro fail' [OF _ e1]) auto
    next
      case False
      then have ok: "structure_ok fresh" "fresh = cached" using p1 by auto
      obtain auth w2 where au: "authenticateCapsulesBorrowingProvider P fresh provider w1 = (auth, w2)" by force
      note au' = au [unfolded authenticateCapsulesBorrowingProvider_def]
      have st: "auth_stage_ok provider auth" by (rule authenticate_stage_ok [OF au' ok(1)])
      have e2: "emits w [] w2"
        using authenticate_reads [OF au'] e1 reads_only_trans by simp
      note run2 = run1 [unfolded if_not_P [OF False] au prod.case]
      show thesis
      proof (cases "open_outcome (auth_outcome auth)")
        case False
        then have u: "uncommitted (newNormalReadResult (auth_outcome auth) (auth_stage auth)
            (auth_authenticated auth) None) w2 = (r, w')"
          using run2 by (auto simp: open_outcome_def)
        show thesis
        proof (cases "legal_pair (auth_outcome auth) (auth_stage auth)")
          case True
          then show thesis using False by (intro fail' [OF u e2]) auto
        next
          case no: False
          then have "auth_outcome auth = OutcomeOperationFailed" "provider_stage provider (auth_stage auth)"
            using st False by (auto simp: auth_stage_ok_def split: if_splits)
          then show thesis
            using u e2 by (intro refuse) (auto simp: uncommitted_def reads_only_fields)
        qed
      next
        case True
        then have "read_authenticated P newCodecs sourceSize fresh auth w2 = (r, w')"
          using run2 by (auto simp: open_outcome_def split: if_splits)
        then show thesis
        proof (cases rule: read_authenticated_cases)
          case (failed result)
          then show thesis using fail0 failed_end_after [OF e2] by blast
        next
          case (closed codecs metadata recs)
          then show thesis
            using close' [OF closed(1)] ok au True st emits_trans [OF e2 closed(2)] by simp
        qed
      qed
    qed
  qed
qed

section \<open>Properties\<close>

text \<open>C21: Every reading session ends in a result. One that fails tells the sink to discard what it
  staged and shows no comment. One that completes rests, whatever the source and the provider
  did, on an open authentication of the cached structure, on the verified records that the
  sink was given (all of them, and the final one), on a comment that was authenticated or is
  withheld, and on the layout ending at the announced size.\<close>

theorem completion_means_verified:
  "case readNormalVolumeWithProvider P newCodecs sourceSize cached provider w of (r, w') \<Rightarrow>
     \<exists>result completion.
       r = Some (result, completion) \<and>
       (case completion of
          None \<Rightarrow> w_aborted w' \<and> nrr_comment result = None \<and> \<not> open_outcome (nrr_outcome result)
        | Some c \<Rightarrow>
            \<exists>codecs auth metadata recs w1 w2.
              newCodecs = Some codecs \<and>
              authenticateCapsulesBorrowingProvider P cached provider w1 = (auth, w2) \<and>
              open_outcome (auth_outcome auth) \<and> emits w recs w' \<and>
              volume_verified P codecs auth metadata recs w' \<and>
              geo_fileSize (auth_geometry auth) = sourceSize \<and>
              (result, Some c) = closed_result auth metadata (session_stage cached auth metadata))"
proof -
  obtain r w' where run: "readNormalVolumeWithProvider P newCodecs sourceSize cached provider w = (r, w')" by force
  then show ?thesis
  proof (cases rule: session_cases)
    case (failed result)
    then show ?thesis using run by (auto simp: failed_end_def)
  next
    case (refused result)
    then show ?thesis using run by auto
  next
    case (closed codecs auth metadata recs w1 w2)
    obtain result c where res: "closed_result auth metadata (session_stage cached auth metadata) = (result, Some c)"
      by (simp add: closed_result_def Let_def)
    have "\<exists>codecs auth metadata recs w1 w2.
              newCodecs = Some codecs \<and>
              authenticateCapsulesBorrowingProvider P cached provider w1 = (auth, w2) \<and>
              open_outcome (auth_outcome auth) \<and> emits w recs w' \<and>
              volume_verified P codecs auth metadata recs w' \<and>
              geo_fileSize (auth_geometry auth) = sourceSize \<and>
              (result, Some c) = closed_result auth metadata (session_stage cached auth metadata)"
      using closed(1,3,4,6,7,8) res by metis
    then show ?thesis using run closed(9) res by simp
  qed
qed

text \<open>C29: The outcome and stage of every read result are a legal pair of the registry, unless the
  session failed with a stage that the credential provider itself reported; and the result is
  open exactly when there is a completion.\<close>

theorem read_result_legal:
  "case readNormalVolumeWithProvider P newCodecs sourceSize cached provider w of
     (Some (result, completion), _) \<Rightarrow>
       (legal_pair (nrr_outcome result) (nrr_stage result) \<or>
        (nrr_outcome result = OutcomeOperationFailed \<and> provider_stage provider (nrr_stage result))) \<and>
       (open_outcome (nrr_outcome result) \<longleftrightarrow> completion \<noteq> None)
   | (None, _) \<Rightarrow> False"
proof -
  obtain r w' where run: "readNormalVolumeWithProvider P newCodecs sourceSize cached provider w = (r, w')" by force
  then show ?thesis
  proof (cases rule: session_cases)
    case (failed result)
    then show ?thesis using run by (auto simp: failed_end_def)
  next
    case (refused result)
    then show ?thesis using run by auto
  next
    case (closed codecs auth metadata recs w1 w2)
    let ?stage = "session_stage cached auth metadata"
    have "?stage = StageNone \<or> warning_stage ?stage"
      by (rule session_stage_warning [OF closed(2,5,4)])
    then show ?thesis
      using run closed(9) by (auto simp: closed_result_def Let_def warning_stage_legal)
  qed
qed

lemma earlierAuthStage_None_iff: "earlierAuthStage a b = StageNone \<longleftrightarrow> a = StageNone \<and> b = StageNone"
  by (auto simp: earlierAuthStage_def)

lemma session_stage_None:
  "session_stage fresh auth metadata = StageNone \<longleftrightarrow>
   auth_stage auth = StageNone \<and> structure_Issue fresh ComponentTrailer = None \<and> metadata \<noteq> MetadataDamaged"
  by (simp add: session_stage_def Let_def earlierAuthStage_None_iff split: option.split)

text \<open>C19: A completion carries the seal that authorizes the extraction of an archive only for a
  wholly authenticated volume: both capsules authentic under one volume key with one core that
  the preamble repeats, no problem with the trailer, an authenticated comment, all records and
  the final one verified, and a payload kind taken from the authenticated core.\<close>

theorem sealed_completion_is_whole:
  "case readNormalVolumeWithProvider P newCodecs sourceSize cached provider w of
     (Some (result, Some c), w') \<Rightarrow>
       authenticatedPayloadKind c = None \<or>
       (\<exists>codecs auth comment recs tuple access vk.
          nrr_outcome result = OutcomeSuccess \<and>
          credentialTupleForStructure cached = Some tuple \<and>
          prov_withCredential provider tuple = (Some access, None) \<and>
          opens_with P cached access auth vk \<and> both_open P cached access auth vk \<and>
          structure_Issue cached ComponentTrailer = None \<and>
          volume_verified P codecs auth (MetadataAuthenticatedPublic comment) recs w' \<and>
          authenticatedPayloadKind c = Some (core_payloadKind (cand_core (auth_candidate auth))))
   | _ \<Rightarrow> True"
proof -
  obtain r w' where run: "readNormalVolumeWithProvider P newCodecs sourceSize cached provider w = (r, w')" by force
  then show ?thesis
  proof (cases rule: session_cases)
    case (failed result)
    then show ?thesis using run by simp
  next
    case (refused result)
    then show ?thesis using run by simp
  next
    case (closed codecs auth metadata recs w1 w2)
    obtain result c where res: "closed_result auth metadata (session_stage cached auth metadata) = (result, Some c)"
      by (simp add: closed_result_def Let_def)
    show ?thesis
    proof (cases "session_stage cached auth metadata = StageNone")
      case False
      then have "authenticatedPayloadKind c = None"
        using res by (auto simp: closed_result_def Let_def authenticatedPayloadKind_def newNormalCompletion_def)
      then show ?thesis using run closed(9) res by simp
    next
      case True
      then have none: "auth_stage auth = StageNone" "structure_Issue cached ComponentTrailer = None"
        and "metadata \<noteq> MetadataDamaged" by (simp_all add: session_stage_None)
      then obtain comment where m: "metadata = MetadataAuthenticatedPublic comment" by (cases metadata) auto
      have "auth_outcome auth \<noteq> OutcomeAuthenticatedDegraded"
        using none(1) closed(5) by (auto simp: auth_stage_ok_def)
      with authenticate_open [OF closed(3) [unfolded authenticateCapsulesBorrowingProvider_def]] closed(4)
      obtain tuple access vk where a: "credentialTupleForStructure cached = Some tuple"
        "prov_withCredential provider tuple = (Some access, None)"
        "opens_with P cached access auth vk" "both_open P cached access auth vk" by auto
      have kind: "authenticatedPayloadKind c = None \<or>
          authenticatedPayloadKind c = Some (core_payloadKind (cand_core (auth_candidate auth)))"
        and succ: "nrr_outcome result = OutcomeSuccess"
        using res True
        by (auto simp: closed_result_def Let_def authenticatedPayloadKind_def newNormalCompletion_def)
      have "authenticatedPayloadKind c = None \<or>
       (\<exists>codecs auth comment recs tuple access vk.
          nrr_outcome result = OutcomeSuccess \<and>
          credentialTupleForStructure cached = Some tuple \<and>
          prov_withCredential provider tuple = (Some access, None) \<and>
          opens_with P cached access auth vk \<and> both_open P cached access auth vk \<and>
          structure_Issue cached ComponentTrailer = None \<and>
          volume_verified P codecs auth (MetadataAuthenticatedPublic comment) recs w' \<and>
          authenticatedPayloadKind c = Some (core_payloadKind (cand_core (auth_candidate auth))))"
        using kind succ a none(2) closed(7) [unfolded m] by blast
      then show ?thesis by (simp only: run closed(9) res prod.case option.case)
    qed
  qed
qed

end
