(* ===== verification/Normal_Writer.thy ===== *)
theory Normal_Writer
  imports Normal_Reader
begin

text \<open>
  The streaming serializer of a normal volume (\<open>pcv3/normal_writer.go\<close>): the key requests, the
  plan of a request, the structure with its fresh entropy, the exact writer and reader of
  streams, the records, and the whole serialization. Errors of a context that is already
  cancelled are read again by the code; as the context documents, a later answer repeats the
  first, and the first is used if it does not.
\<close>

section \<open>Keys\<close>

definition write_request :: "string \<Rightarrow> byte \<Rightarrow> KeyRequest" where
  "write_request label role = \<lparr>req_Label = label, req_Role = role, req_OutputBytes = 32\<rparr>"

definition normalWriteKeyRequests :: "u16 \<Rightarrow> KeyRequest list option" where
  "normalWriteKeyRequests suite =
     (if suite \<noteq> SuiteParanoid \<and> suite \<noteq> SuiteStandard then None
      else
        Some ([write_request KeyLabelCredentialWrapXChaCha20 KeyRolePrimary,
               write_request KeyLabelCredentialWrapXChaCha20 KeyRoleBackup] @
          (if suite = SuiteParanoid
           then [write_request KeyLabelCredentialWrapSerpent KeyRolePrimary,
                 write_request KeyLabelCredentialWrapSerpent KeyRoleBackup] else []) @
          [write_request KeyLabelCredentialWrapMAC KeyRolePrimary,
           write_request KeyLabelCredentialWrapMAC KeyRoleBackup,
           write_request KeyLabelVolumeReplicaMAC KeyRolePrimary,
           write_request KeyLabelVolumeReplicaMAC KeyRoleBackup,
           write_request KeyLabelVolumeMetadataMAC KeyRoleNotReplica,
           write_request KeyLabelVolumePayloadXChaCha20 KeyRoleNotReplica] @
          (if suite = SuiteParanoid
           then [write_request KeyLabelVolumePayloadSerpent KeyRoleNotReplica] else []) @
          [write_request KeyLabelVolumePayloadMAC KeyRoleNotReplica]))"

record normalWriteCredentialMetadata =
  cm_suite :: u16
  cm_credentialMode :: byte
  cm_keyfileMode :: byte
  cm_keyfileCount :: u16
  cm_kdfProfile :: byte
  cm_argonSalt :: "byte list"
  cm_volumeID :: "byte list"

definition validNormalWriteCredentialMetadata :: "normalWriteCredentialMetadata \<Rightarrow> bool" where
  "validNormalWriteCredentialMetadata metadata \<longleftrightarrow>
     isSupportedSuite (cm_suite metadata) \<and>
     (cm_kdfProfile metadata = kdfProfileForSuite (cm_suite metadata) \<or>
      cm_kdfProfile metadata = KDFProfileD1DerivedRoot) \<and>
     validCredentialTuple (cm_credentialMode metadata) (cm_keyfileMode metadata)
       (cm_keyfileCount metadata)"

text \<open>The interface \<open>normalWriteMaterial\<close>.\<close>

record normalWriteMaterial =
  mat_credentialMetadata :: "pcv3_error + normalWriteCredentialMetadata"
  mat_copyKeys :: "u16 \<Rightarrow> pcv3_error + normalWriteKeys"

text \<open>\<open>BorrowedKeys\<close> of an owner, as \<open>copyKeys\<close> uses it, and the owner that lends it.\<close>

record borrowed_keys =
  bk_CopyVolumeKey :: "pcv3_error + byte list"
  bk_CopyKey :: "KeyRequest \<Rightarrow> pcv3_error + byte list"

definition credentialRole :: "byte \<Rightarrow> byte option" where
  "credentialRole role =
     (if role = CapsuleRolePrimary then Some KeyRolePrimary
      else if role = CapsuleRoleBackup then Some KeyRoleBackup else None)"

definition copyNormalWriteKey :: "borrowed_keys \<Rightarrow> string \<Rightarrow> byte \<Rightarrow> pcv3_error + byte list" where
  "copyNormalWriteKey borrowed label role = bk_CopyKey borrowed (write_request label role)"

text \<open>One iteration of the loop over the capsule roles; keys that are not requested stay zero.\<close>

definition copy_role_keys :: "borrowed_keys \<Rightarrow> u16 \<Rightarrow> byte \<Rightarrow> pcv3_error + (capsuleWrapKeys \<times> byte list)" where
  "copy_role_keys borrowed suite role =
     (case credentialRole role of
        None \<Rightarrow> Inl (Plain InvalidNormalWriteRequest)
      | Some keyRole \<Rightarrow>
          ebind (copyNormalWriteKey borrowed KeyLabelCredentialWrapXChaCha20 keyRole) (\<lambda>x.
          ebind (if suite = SuiteParanoid
                 then copyNormalWriteKey borrowed KeyLabelCredentialWrapSerpent keyRole
                 else Inr (replicate 32 0)) (\<lambda>s.
          ebind (copyNormalWriteKey borrowed KeyLabelCredentialWrapMAC keyRole) (\<lambda>m.
          ebind (copyNormalWriteKey borrowed KeyLabelVolumeReplicaMAC keyRole) (\<lambda>r.
            Inr (\<lparr>wrap_xChaCha20 = x, wrap_serpent = s, wrap_mac = m\<rparr>, r))))))"

definition owner_copyKeys :: "borrowed_keys \<Rightarrow> u16 \<Rightarrow> pcv3_error + normalWriteKeys" where
  "owner_copyKeys borrowed suite =
     (if \<not> isSupportedSuite suite then Inl (Plain InvalidNormalWriteRequest)
      else
        ebind (bk_CopyVolumeKey borrowed) (\<lambda>vk.
        ebind (emap (copy_role_keys borrowed suite) [CapsuleRolePrimary, CapsuleRoleBackup]) (\<lambda>roles.
        ebind (copyNormalWriteKey borrowed KeyLabelVolumeMetadataMAC KeyRoleNotReplica) (\<lambda>a.
        ebind (copyNormalWriteKey borrowed KeyLabelVolumePayloadXChaCha20 KeyRoleNotReplica) (\<lambda>x.
        ebind (copyNormalWriteKey borrowed KeyLabelVolumePayloadMAC KeyRoleNotReplica) (\<lambda>m.
        ebind (if suite = SuiteParanoid
               then copyNormalWriteKey borrowed KeyLabelVolumePayloadSerpent KeyRoleNotReplica
               else Inr (replicate 32 0)) (\<lambda>s.
          Inr \<lparr>wk_volumeKey = vk, wk_capsuleWrap = map fst roles, wk_replicaMAC = map snd roles,
               wk_metadataMAC = a, wk_payloadXChaCha20 = x, wk_payloadSerpent = s,
               wk_payloadMAC = m\<rparr>)))))))"

section \<open>Requests and plans\<close>

record normalWriteRequest =
  nwr_derivedRoot :: bool
  nwr_suite :: u16
  nwr_payloadKind :: byte
  nwr_payloadBodyRS :: bool
  nwr_plaintextLength :: u64
  nwr_comment :: "byte list"

record normalWritePlan =
  plan_core :: logicalCore
  plan_geometry :: Geometry

definition comment_len :: "normalWriteRequest \<Rightarrow> u32" where
  "comment_len request = word_of_nat (length (nwr_comment request))"

definition validNormalWriteRequest :: "normalWriteRequest \<Rightarrow> bool" where
  "validNormalWriteRequest request \<longleftrightarrow>
     (if \<not> isSupportedSuite (nwr_suite request) \<or>
         (nwr_payloadKind request \<noteq> PayloadKindRaw \<and> nwr_payloadKind request \<noteq> PayloadKindArchive) \<or>
         length (nwr_comment request) > 99999 \<or> \<not> utf8_Valid (nwr_comment request)
      then False
      else if canonicalRecordCount (nwr_plaintextLength request) \<ge> maximumRecordCount then False
      else canonicalMetadataGeometry (comment_len request) \<noteq> None)"

definition planned_core :: "normalWriteRequest \<Rightarrow> u64 \<Rightarrow> logicalCore" where
  "planned_core request frontHeaderLength =
     zeroCore\<lparr>core_magic := normalDiscriminator, core_major := formatMajor, core_schema := formatSchema,
        core_suite := nwr_suite request,
        core_featureFlags :=
          (if nwr_payloadBodyRS request then payloadBodyRSFeatureMask else 0) OR
          (if nwr_derivedRoot request then d1DerivedRootFeatureMask else 0),
        core_frontHeaderLength := ucast frontHeaderLength,
        core_payloadKind := nwr_payloadKind request, core_recordProfile := 1,
        core_metadataProfile := 1, core_plaintextLength := nwr_plaintextLength request,
        core_recordCount := canonicalRecordCount (nwr_plaintextLength request),
        core_commentLength := comment_len request\<rparr>"

definition planNormalWrite :: "normalWriteRequest \<Rightarrow> pcv3_error + normalWritePlan" where
  "planNormalWrite request =
     (if \<not> validNormalWriteRequest request
      then Inl (NormalWriteFailure StageCredentialPolicy InvalidNormalWriteRequest)
      else
        let refuse = Inl (NormalWriteFailure StageTailGeometry NormalWriteGeometry) in
        case canonicalMetadataGeometry (comment_len request) of
          None \<Rightarrow> refuse
        | Some (_, frontHeaderLength) \<Rightarrow>
            if unat frontHeaderLength > 4294967295 then refuse
            else
              let core = planned_core request frontHeaderLength in
              (case deriveCanonicalGeometry (zeroCandidate\<lparr>cand_core := core\<rparr>) of
                 Inl _ \<Rightarrow> refuse
               | Inr geometry \<Rightarrow>
                   if \<not> recordGeometryMatchesCore core geometry then refuse
                   else Inr \<lparr>plan_core = core, plan_geometry = geometry\<rparr>))"

section \<open>Streams\<close>

abbreviation (input) newNormalWriteFailure :: "Stage \<Rightarrow> cause \<Rightarrow> pcv3_error" where
  "newNormalWriteFailure stage c \<equiv> NormalWriteFailure stage c"

abbreviation (input) poll_write :: "(world, pcv3_error, unit) io" where
  "poll_write \<equiv> poll (\<lambda>c. newNormalWriteFailure StageCancellation c)"

type_synonym stream_read = "nat \<Rightarrow> world \<Rightarrow> (int \<times> byte list \<times> cause option) \<times> world"

definition source_Read :: stream_read where
  "source_Read n w =
     (case env_read (w_env w) (w_tick w) (w_consumed w) n of
        (count, bytes, err) \<Rightarrow>
          ((count, bytes, err), (tick w)\<lparr>w_consumed := w_consumed w + nat count\<rparr>))"

definition entropy_Read :: stream_read where
  "entropy_Read n w =
     (case env_entropy (w_env w) (w_tick w) (w_entropy w) n of
        (count, bytes, err) \<Rightarrow>
          ((count, bytes, err), (tick w)\<lparr>w_entropy := w_entropy w + nat count\<rparr>))"

text \<open>The loop of \<open>readNormalWriteExact\<close> with \<open>n\<close> bytes left: every iteration that does not return
  makes progress.\<close>

function stream_exact :: "stream_read \<Rightarrow> nat \<Rightarrow> byte list \<Rightarrow> (world, cause, byte list) io" where
  "stream_exact read n got =
     io_bind (poll (\<lambda>c. c)) (\<lambda>_ w.
       if n = 0 then (Inr got, w)
       else
         case read n w of
           ((count, bytes, err), w) \<Rightarrow>
             if count < 0 \<or> count > int n then (Inl NormalWriteSourceProgress, w)
             else if nat count = n then
               io_bind (poll (\<lambda>c. c)) (\<lambda>_. io_ret (got @ fit (nat count) bytes)) w
             else
               (case err of
                  Some c \<Rightarrow> (Inl (if c = EOF then NormalWriteSourceLength else c), w)
                | None \<Rightarrow>
                    if count = 0 then (Inl NormalWriteSourceProgress, w)
                    else stream_exact read (n - nat count) (got @ fit (nat count) bytes) w))"
  by pat_completeness auto
termination
  by (relation "measure (\<lambda>(_, n, _). n)") auto

declare stream_exact.simps [simp del]

definition readNormalWriteExact :: "stream_read \<Rightarrow> nat \<Rightarrow> (world, cause, byte list) io" where
  "readNormalWriteExact read n = stream_exact read n []"

definition readNormalWriteEntropy :: "nat \<Rightarrow> (world, pcv3_error, byte list) io" where
  "readNormalWriteEntropy n =
     io_map_err (\<lambda>c. newNormalWriteFailure StageRNG c) (readNormalWriteExact entropy_Read n)"

text \<open>The cancellation of a context found cancelled, read once more.\<close>

definition cancelled_again :: "cause \<Rightarrow> (world, pcv3_error, 'a) io" where
  "cancelled_again c w =
     (case ctx_Err w of
        (again, w) \<Rightarrow>
          (Inl (newNormalWriteFailure StageCancellation (case again of Some c \<Rightarrow> c | None \<Rightarrow> c)), w))"

definition readNormalWriteSourceExact :: "nat \<Rightarrow> (world, pcv3_error, byte list) io" where
  "readNormalWriteSourceExact n = (\<lambda>w.
     case readNormalWriteExact source_Read n w of
       (Inr bytes, w) \<Rightarrow> (Inr bytes, w)
     | (Inl err, w) \<Rightarrow>
         (case ctx_Err w of
            (Some c, w) \<Rightarrow> cancelled_again c w
          | (None, w) \<Rightarrow> (Inl (newNormalWriteFailure StageInputIO err), w)))"

definition requireNormalWriteSourceEOF :: "(world, pcv3_error, unit) io" where
  "requireNormalWriteSourceEOF =
     io_bind poll_write (\<lambda>_ w.
       case source_Read 1 w of
         ((count, _, err), w) \<Rightarrow>
           if count < 0 \<or> count > 1
           then (Inl (newNormalWriteFailure StageInputIO NormalWriteSourceProgress), w)
           else if count \<noteq> 0
           then (Inl (newNormalWriteFailure StageInputIO NormalWriteSourceLength), w)
           else
             (case err of
                Some c \<Rightarrow>
                  if c = EOF then (Inr (), w) else (Inl (newNormalWriteFailure StageInputIO c), w)
              | None \<Rightarrow> (Inl (newNormalWriteFailure StageInputIO NormalWriteSourceProgress), w)))"

section \<open>The exact writer\<close>

definition destination_Write :: "byte list \<Rightarrow> world \<Rightarrow> (int \<times> cause option) \<times> world" where
  "destination_Write source w =
     (case env_write (w_env w) (w_tick w) source of
        (count, err) \<Rightarrow>
          ((count, err), (tick w)\<lparr>w_written := w_written w @ take (nat count) source\<rparr>))"

text \<open>\<open>normalExactWriter.write\<close>: the result is the new offset of the writer.\<close>

definition exact_write :: "u64 \<Rightarrow> byte list \<Rightarrow> (world, pcv3_error, u64) io" where
  "exact_write offset source =
     io_bind poll_write (\<lambda>_ w.
       case destination_Write source w of
         ((count, err), w) \<Rightarrow>
           if count < 0 \<or> count > int (length source)
           then (Inl (newNormalWriteFailure StageOutputWrite NormalWriteSinkProgress), w)
           else
             case checkedAdd64 offset (word_of_int count) of
               None \<Rightarrow> (Inl (newNormalWriteFailure StageOutputWrite NormalWriteSinkProgress), w)
             | Some updated \<Rightarrow>
                 (case err of
                    Some c \<Rightarrow> (Inl (newNormalWriteFailure StageOutputWrite c), w)
                  | None \<Rightarrow>
                      if count \<noteq> int (length source)
                      then (Inl (newNormalWriteFailure StageOutputWrite ShortWrite), w)
                      else io_bind poll_write (\<lambda>_. io_ret updated) w))"

definition normalWriteOffsetMatches :: "u64 \<Rightarrow> int \<Rightarrow> bool" where
  "normalWriteOffsetMatches actual expected \<longleftrightarrow>
     (case SafeUint64ToInt64 actual of None \<Rightarrow> False | Some offset \<Rightarrow> offset = expected)"

definition normalWriteLengthToInt :: "u64 \<Rightarrow> nat option" where
  "normalWriteLengthToInt len = (if uint len > MaxInt64 then None else Some (unat len))"

section \<open>The structure of a new volume\<close>

definition new_candidate ::
  "normalWriteCredentialMetadata \<Rightarrow> logicalCore \<Rightarrow> byte \<Rightarrow> Candidate" where
  "new_candidate metadata core role =
     zeroCandidate\<lparr>cand_core := core, cand_role := role,
        cand_credentialMode := cm_credentialMode metadata,
        cand_keyfileMode := cm_keyfileMode metadata, cand_kdfProfile := cm_kdfProfile metadata,
        cand_keyfileCount := cm_keyfileCount metadata, cand_argonSalt := cm_argonSalt metadata\<rparr>"

text \<open>Entropy for the suite that needs it; the field stays zero otherwise.\<close>

definition paranoid_entropy :: "u16 \<Rightarrow> nat \<Rightarrow> (world, pcv3_error, byte list) io" where
  "paranoid_entropy suite n =
     (if suite = SuiteParanoid then readNormalWriteEntropy n else io_ret (replicate n 0))"

text \<open>One iteration of the loop over the two candidates.\<close>

definition fresh_candidate :: "u16 \<Rightarrow> Candidate \<Rightarrow> (world, pcv3_error, Candidate) io" where
  "fresh_candidate suite candidate =
     io_bind (readNormalWriteEntropy 24) (\<lambda>nonce.
     io_bind (paranoid_entropy suite 16) (\<lambda>iv.
       let candidate = candidate\<lparr>cand_wrapNonce := nonce, cand_wrapSerpentIV := iv\<rparr> in
       if \<not> validAuthCandidate candidate
       then io_fail (newNormalWriteFailure StageCapsuleStructure InvalidNormalWriteRequest)
       else io_ret candidate))"

definition prepareNormalWriteStructure ::
  "normalWriteRequest \<Rightarrow> normalWritePlan \<Rightarrow> normalWriteCredentialMetadata \<Rightarrow>
   (world, pcv3_error, logicalCore \<times> Candidate \<times> Candidate) io" where
  "prepareNormalWriteStructure request plan metadata =
     (let core = plan_core plan in
      if core_suite core \<noteq> nwr_suite request \<or> core_payloadKind core \<noteq> nwr_payloadKind request \<or>
         core_plaintextLength core \<noteq> nwr_plaintextLength request \<or>
         core_commentLength core \<noteq> comment_len request \<or>
         \<not> recordGeometryMatchesCore core (plan_geometry plan)
      then io_fail (newNormalWriteFailure StageTailGeometry NormalWriteGeometry)
      else
        io_bind (readNormalWriteEntropy 16) (\<lambda>nonce.
        io_bind (paranoid_entropy (nwr_suite request) 8) (\<lambda>iv.
          let core = core\<lparr>core_volumeID := cm_volumeID metadata, core_xChaChaNoncePrefix := nonce,
                       core_serpentIVPrefix := iv\<rparr>
          in
          if \<not> validLogicalCore core
          then io_fail (newNormalWriteFailure StageCapsuleStructure InvalidNormalWriteRequest)
          else
            io_bind (fresh_candidate (nwr_suite request) (new_candidate metadata core CapsuleRolePrimary))
              (\<lambda>primary.
            io_bind (fresh_candidate (nwr_suite request) (new_candidate metadata core CapsuleRoleBackup))
              (\<lambda>backup.
              io_ret (core, primary, backup))))))"

section \<open>Writing the records\<close>

text \<open>The body of a record as the reader will decode it: ciphertext, tag and zero padding.\<close>

definition encrypt_record ::
  "prims \<Rightarrow> logicalCore \<Rightarrow> normalWriteKeys \<Rightarrow> recordExpectation \<Rightarrow> byte list \<Rightarrow> pcv3_error + byte list" where
  "encrypt_record P core keys expected plaintext =
     map_err (\<lambda>_. newNormalWriteFailure StageRecordAuth NormalWriteCrypto)
       (suite_wrap P (core_suite core) (replicate (length plaintext) 0) plaintext
          (wk_payloadXChaCha20 keys) (exp_nonce expected)
          (wk_payloadSerpent keys) (exp_serpentIV expected))"

text \<open>Batches of at most 256 blocks; the context is polled before every block.\<close>

definition block_batches :: "nat \<Rightarrow> nat list list" where
  "block_batches blocks =
     map (\<lambda>k. [k * 256..<min ((k + 1) * 256) blocks]) [0..<(blocks + 255) div 256]"

fun encode_words ::
  "RSCodecs \<Rightarrow> Stage \<Rightarrow> byte list \<Rightarrow> nat list \<Rightarrow> (world, pcv3_error, byte list) io" where
  "encode_words codecs stage semantic [] = io_ret []"
| "encode_words codecs stage semantic (block # rest) =
     io_bind poll_write (\<lambda>_.
     io_bind (io_lift (map_err (\<lambda>_. newNormalWriteFailure stage NormalWriteRS)
                (EncodeInto (replicate 136 0) (RS128 codecs) (slice (block * 128) 128 semantic)))) (\<lambda>word.
     io_bind (encode_words codecs stage semantic rest) (\<lambda>words.
       io_ret (word @ words))))"

fun write_batches ::
  "RSCodecs \<Rightarrow> Stage \<Rightarrow> byte list \<Rightarrow> nat list list \<Rightarrow> u64 \<Rightarrow> (world, pcv3_error, u64) io" where
  "write_batches codecs stage semantic [] offset = io_ret offset"
| "write_batches codecs stage semantic (batch # rest) offset =
     io_bind (encode_words codecs stage semantic batch) (\<lambda>encoded.
     io_bind (exact_write offset encoded) (\<lambda>offset.
       write_batches codecs stage semantic rest offset))"

text \<open>The two scratch buffers have these lengths.\<close>

record record_buffers =
  buf_plaintext :: nat
  buf_semantic :: nat

definition record_buffers_for :: "logicalCore \<Rightarrow> Geometry \<Rightarrow> pcv3_error + record_buffers" where
  "record_buffers_for core geometry =
     (case expectedRecord core geometry 0 of
        None \<Rightarrow> Inl (newNormalWriteFailure StageDescriptor NormalWriteGeometry)
      | Some first \<Rightarrow>
        (case expectedRecord core geometry (core_recordCount core) of
           None \<Rightarrow> Inl (newNormalWriteFailure StageFinalRecord NormalWriteGeometry)
         | Some final \<Rightarrow>
             let maximum = (if exp_encodedBodyLength final > exp_encodedBodyLength first
                            then final else first)
             in (case (decodedRecordBodyLength maximum (geo_payloadBodyRS geometry),
                       normalWriteLengthToInt (exp_ciphertextLength maximum)) of
                   (Some decodedMaximum, Some maximumCiphertextLength) \<Rightarrow>
                     Inr \<lparr>buf_plaintext = maximumCiphertextLength, buf_semantic = decodedMaximum\<rparr>
                 | _ \<Rightarrow> Inl (newNormalWriteFailure StageRecordBodyRS NormalWriteGeometry))))"

definition write_body ::
  "RSCodecs \<Rightarrow> Geometry \<Rightarrow> Stage \<Rightarrow> recordExpectation \<Rightarrow> byte list \<Rightarrow> nat \<Rightarrow> u64 \<Rightarrow>
   (world, pcv3_error, u64) io" where
  "write_body codecs geometry stage expected semantic semanticLength offset =
     (if geo_payloadBodyRS geometry then
        (case decodedRecordBodyLength expected True of
           None \<Rightarrow> io_fail (newNormalWriteFailure stage NormalWriteGeometry)
         | Some decodedLength \<Rightarrow>
             if decodedLength > length semantic \<or> decodedLength mod 128 \<noteq> 0
             then io_fail (newNormalWriteFailure stage NormalWriteGeometry)
             else write_batches codecs stage semantic (block_batches (decodedLength div 128)) offset)
      else exact_write offset (take semanticLength semantic))"

text \<open>One iteration of the endless loop; the result is the new offset and whether the record was
  the final one.\<close>

definition write_record ::
  "prims \<Rightarrow> logicalCore \<Rightarrow> Geometry \<Rightarrow> normalWriteKeys \<Rightarrow> RSCodecs \<Rightarrow> record_buffers \<Rightarrow> u64 \<Rightarrow> u64 \<Rightarrow>
   (world, pcv3_error, u64 \<times> bool) io" where
  "write_record P core geometry keys codecs buffers index offset =
     io_bind poll_write (\<lambda>_.
     case expectedRecord core geometry index of
       None \<Rightarrow> io_fail (newNormalWriteFailure StageDescriptor NormalWriteGeometry)
     | Some expected \<Rightarrow>
       let stage = (if exp_final expected then StageFinalRecord else StageRecordAuth);
           refuse = io_fail (newNormalWriteFailure stage NormalWriteGeometry)
       in
       io_bind (if exp_final expected then requireNormalWriteSourceEOF else io_ret ()) (\<lambda>_.
       if \<not> normalWriteOffsetMatches offset (exp_descriptorOffset expected) then refuse
       else
       io_bind (io_lift (map_err (\<lambda>_. newNormalWriteFailure stage NormalWriteRS)
                  (EncodeInto (replicate 48 0) (RS16 codecs) (exp_descriptor expected)))) (\<lambda>descriptor.
       io_bind (exact_write offset descriptor) (\<lambda>offset.
       if \<not> normalWriteOffsetMatches offset (exp_bodyOffset expected) then refuse
       else
       case normalWriteLengthToInt (exp_ciphertextLength expected) of
         None \<Rightarrow> refuse
       | Some ciphertextLength \<Rightarrow>
         if ciphertextLength > buf_plaintext buffers then refuse
         else
         io_bind
           (if exp_final expected then io_ret (replicate ciphertextLength 0)
            else io_bind (readNormalWriteSourceExact ciphertextLength) (\<lambda>plaintext.
                   io_lift (encrypt_record P core keys expected plaintext))) (\<lambda>ciphertext.
         io_bind (io_lift (map_err (\<lambda>_. newNormalWriteFailure stage NormalWriteCrypto)
                    (recordTag P (core_suite core) (wk_payloadMAC keys) (coreCommitment P core)
                       (exp_descriptor expected) ciphertext))) (\<lambda>tag.
         let semantic = copy_at ciphertextLength tag
                          (copy_at 0 ciphertext (replicate (buf_semantic buffers) 0))
         in
         io_bind (write_body codecs geometry stage expected semantic (ciphertextLength + length tag) offset)
           (\<lambda>offset. io_ret (offset, exp_final expected))))))))"

text \<open>The endless loop with fuel, as in the reader: running out of it has its own value.\<close>

fun write_record_loop ::
  "prims \<Rightarrow> logicalCore \<Rightarrow> Geometry \<Rightarrow> normalWriteKeys \<Rightarrow> RSCodecs \<Rightarrow> record_buffers \<Rightarrow>
   nat \<Rightarrow> u64 \<Rightarrow> u64 \<Rightarrow> world \<Rightarrow> (pcv3_error + u64) option \<times> world" where
  "write_record_loop P core geometry keys codecs buffers 0 index offset w = (None, w)"
| "write_record_loop P core geometry keys codecs buffers (Suc n) index offset w =
     (case write_record P core geometry keys codecs buffers index offset w of
        (Inl e, w) \<Rightarrow> (Some (Inl e), w)
      | (Inr (offset, final), w) \<Rightarrow>
          if final then (Some (Inr offset), w)
          else write_record_loop P core geometry keys codecs buffers n (index + 1) offset w)"

definition writeNormalRecords ::
  "prims \<Rightarrow> logicalCore \<Rightarrow> Geometry \<Rightarrow> normalWriteKeys \<Rightarrow> RSCodecs \<Rightarrow> u64 \<Rightarrow>
   world \<Rightarrow> (pcv3_error + u64) option \<times> world" where
  "writeNormalRecords P core geometry keys codecs offset w =
     (case record_buffers_for core geometry of
        Inl e \<Rightarrow> (Some (Inl e), w)
      | Inr buffers \<Rightarrow>
          write_record_loop P core geometry keys codecs buffers (unat (core_recordCount core) + 2) 0
            offset w)"

section \<open>The volume\<close>

text \<open>A region written with its offset checked afterwards.\<close>

definition write_checked :: "int \<Rightarrow> u64 \<Rightarrow> byte list \<Rightarrow> (world, pcv3_error, u64) io" where
  "write_checked expected offset bytes =
     io_bind (exact_write offset bytes) (\<lambda>offset.
       if \<not> normalWriteOffsetMatches offset expected
       then io_fail (newNormalWriteFailure StageTailGeometry NormalWriteGeometry)
       else io_ret offset)"

text \<open>The part before the records, and the part after them.\<close>

definition write_front ::
  "Geometry \<Rightarrow> logicalCore \<Rightarrow> byte list \<Rightarrow> byte list \<Rightarrow> (world, pcv3_error, u64) io" where
  "write_front geometry core primaryEncoded metadataEncoded =
     io_bind (exact_write 0 (take 16 (logicalCoreBytes core))) (\<lambda>offset.
     io_bind (exact_write offset primaryEncoded) (\<lambda>offset.
       write_checked (geo_frontHeaderLength geometry) offset metadataEncoded))"

definition write_suffix ::
  "Geometry \<Rightarrow> u64 \<Rightarrow> byte list \<Rightarrow> byte list \<Rightarrow> (world, pcv3_error, u64) io" where
  "write_suffix geometry offset backupEncoded trailerEncoded =
     (if \<not> normalWriteOffsetMatches offset (geo_backupCapsuleOffset geometry)
      then io_fail (newNormalWriteFailure StageTailGeometry NormalWriteGeometry)
      else
        io_bind (write_checked (geo_trailerOffset geometry) offset backupEncoded) (\<lambda>offset.
          write_checked (geo_fileSize geometry) offset trailerEncoded))"

definition encode_fixed_parts ::
  "prims \<Rightarrow> normalWriteRequest \<Rightarrow> logicalCore \<Rightarrow> Geometry \<Rightarrow> Candidate \<Rightarrow> Candidate \<Rightarrow> normalWriteKeys \<Rightarrow>
   RSCodecs \<Rightarrow> pcv3_error + byte list \<times> byte list \<times> byte list \<times> byte list" where
  "encode_fixed_parts P request core geometry primary backup keys codecs =
     ebind (encodeNormalWriteCapsule P primary keys codecs) (\<lambda>(_, primaryEncoded).
     ebind (encodeNormalWriteCapsule P backup keys codecs) (\<lambda>(_, backupEncoded).
     ebind (encodeNormalWriteMetadata P (nwr_comment request) core geometry (wk_metadataMAC keys) codecs)
       (\<lambda>metadataEncoded.
     ebind (encodeNormalWriteTrailer codecs) (\<lambda>trailerEncoded.
       Inr (primaryEncoded, backupEncoded, metadataEncoded, trailerEncoded)))))"

definition serializeNormalVolumeWithKeys ::
  "prims \<Rightarrow> normalWriteRequest \<Rightarrow> logicalCore \<Rightarrow> Geometry \<Rightarrow> Candidate \<Rightarrow> Candidate \<Rightarrow> normalWriteKeys \<Rightarrow>
   RSCodecs \<Rightarrow> world \<Rightarrow> (pcv3_error + unit) option \<times> world" where
  "serializeNormalVolumeWithKeys P request core geometry primary backup keys codecs w =
     (case encode_fixed_parts P request core geometry primary backup keys codecs of
        Inl e \<Rightarrow> (Some (Inl e), w)
      | Inr (primaryEncoded, backupEncoded, metadataEncoded, trailerEncoded) \<Rightarrow>
        (case write_front geometry core primaryEncoded metadataEncoded w of
           (Inl e, w) \<Rightarrow> (Some (Inl e), w)
         | (Inr offset, w) \<Rightarrow>
           (case writeNormalRecords P core geometry keys codecs offset w of
              (None, w) \<Rightarrow> (None, w)
            | (Some (Inl e), w) \<Rightarrow> (Some (Inl e), w)
            | (Some (Inr offset), w) \<Rightarrow>
                (case write_suffix geometry offset backupEncoded trailerEncoded w of
                   (Inl e, w) \<Rightarrow> (Some (Inl e), w)
                 | (Inr _, w) \<Rightarrow> (Some (Inr ()), w)))))"

definition validNormalWriteSeams :: "RSCodecs \<Rightarrow> bool" where
  "validNormalWriteSeams codecs \<longleftrightarrow>
     fec_required (RS16 codecs) = 16 \<and> fec_total (RS16 codecs) = 48 \<and>
     fec_required (RS64 codecs) = 64 \<and> fec_total (RS64 codecs) = 192 \<and>
     fec_required (RS128 codecs) = 128 \<and> fec_total (RS128 codecs) = 136"

text \<open>The plan, the credential, the structure and the keys, in the order they are obtained.\<close>

definition prepare_volume ::
  "normalWriteRequest \<Rightarrow> normalWriteMaterial \<Rightarrow>
   (world, pcv3_error, Geometry \<times> logicalCore \<times> Candidate \<times> Candidate \<times> normalWriteKeys) io" where
  "prepare_volume request material =
     (let refuse = io_fail (newNormalWriteFailure StageCredentialPolicy InvalidNormalWriteRequest) in
      if \<not> validNormalWriteRequest request then refuse
      else
        io_bind (io_lift (planNormalWrite request)) (\<lambda>plan.
        case mat_credentialMetadata material of
          Inl _ \<Rightarrow> refuse
        | Inr metadata \<Rightarrow>
          if \<not> validNormalWriteCredentialMetadata metadata \<or> cm_suite metadata \<noteq> nwr_suite request \<or>
             nwr_derivedRoot request \<noteq> (cm_kdfProfile metadata = KDFProfileD1DerivedRoot)
          then refuse
          else
            io_bind (prepareNormalWriteStructure request plan metadata) (\<lambda>(core, primary, backup).
            if \<not> recordGeometryMatchesCore core (plan_geometry plan)
            then io_fail (newNormalWriteFailure StageTailGeometry NormalWriteGeometry)
            else
              (case mat_copyKeys material (nwr_suite request) of
                 Inl e \<Rightarrow>
                   (\<lambda>w. case ctx_Err w of
                      (Some c, w) \<Rightarrow> cancelled_again c w
                    | (None, w) \<Rightarrow> (Inl (newNormalWriteFailure StageCredentialPolicy (root_cause e)), w))
               | Inr keys \<Rightarrow>
                   io_bind poll_write (\<lambda>_. io_ret (plan_geometry plan, core, primary, backup, keys))))))"

definition serializeNormalVolume ::
  "prims \<Rightarrow> normalWriteRequest \<Rightarrow> normalWriteMaterial \<Rightarrow> RSCodecs \<Rightarrow> world \<Rightarrow>
   (pcv3_error + unit) option \<times> world" where
  "serializeNormalVolume P request material codecs w =
     (if \<not> validNormalWriteSeams codecs
      then (Some (Inl (newNormalWriteFailure StageCredentialPolicy InvalidNormalWriteRequest)), w)
      else
        case io_bind poll_write (\<lambda>_. prepare_volume request material) w of
          (Inl e, w) \<Rightarrow> (Some (Inl e), w)
        | (Inr (geometry, core, primary, backup, keys), w) \<Rightarrow>
          (case serializeNormalVolumeWithKeys P request core geometry primary backup keys codecs w of
             (None, w) \<Rightarrow> (None, w)
           | (Some (Inl e), w) \<Rightarrow> (Some (Inl e), w)
           | (Some (Inr _), w) \<Rightarrow> (case poll_write w of (r, w) \<Rightarrow> (Some r, w))))"

end
