(* ===== verification/Write_Image.thy ===== *)
theory Write_Image
  imports Normal_Writer
begin

text \<open>
  The bytes a serialization leaves at its destination. \<open>record_image\<close> and \<open>volume_image\<close> are the
  abstract format: which codewords, in which order, over which ciphertext and tags. The lemmas
  show for every environment that a serialization that succeeds has written exactly such an
  image, whole and once, and consumed exactly the announced plaintext.
\<close>

section \<open>What writing does to the world\<close>

text \<open>\<open>writes w k bytes w'\<close>: \<open>k\<close> bytes of plaintext were consumed and \<open>bytes\<close> accepted.\<close>

definition writes :: "world \<Rightarrow> nat \<Rightarrow> byte list \<Rightarrow> world \<Rightarrow> bool" where
  "writes w k bytes w' \<longleftrightarrow>
     w_env w' = w_env w \<and> w_written w' = w_written w @ bytes \<and> w_consumed w' = w_consumed w + k \<and>
     w_trace w' = w_trace w \<and> w_emitted w' = w_emitted w \<and> w_aborted w' = w_aborted w"

lemma writes_refl [simp]: "writes w 0 [] w"
  by (simp add: writes_def)

lemma writes_tick [simp]: "writes w k bytes (tick w') = writes w k bytes w'"
  by (simp add: writes_def tick_def)

lemma writes_trans: "writes a k x b \<Longrightarrow> writes b l y c \<Longrightarrow> writes a (k + l) (x @ y) c"
  by (simp add: writes_def)

lemma writes_env: "writes w k bytes w' \<Longrightarrow> w_env w' = w_env w"
  by (simp add: writes_def)

lemma poll_Inr: "poll mk w = (Inr u, w') \<longleftrightarrow> env_ctx (w_env w) (w_tick w) = None \<and> w' = tick w"
  by (auto simp: poll_def ctx_Err_def split: option.splits)

text \<open>What \<open>io.Reader\<close> documents, for a stream that holds \<open>data\<close>: a read gives some of the bytes
  that follow, at least one unless the stream is at its end, and an end of file only there.\<close>

definition holds_stream :: "byte list \<Rightarrow> env \<Rightarrow> bool" where
  "holds_stream data e \<longleftrightarrow>
     (\<forall>t pos n. 0 < n \<longrightarrow>
        (case env_read e t pos n of (count, bytes, err) \<Rightarrow>
           0 \<le> count \<and> nat count \<le> n \<and> fit (nat count) bytes = slice pos (nat count) data \<and>
           pos + nat count \<le> max pos (length data) \<and>
           (if pos < length data
            then 0 < count \<and> (err = None \<or> err = Some EOF \<and> pos + nat count = length data)
            else err = Some EOF)))"

lemma holds_streamD:
  assumes "holds_stream data e" and "0 < n" and "env_read e t pos n = (count, bytes, err)"
  shows "fit (nat count) bytes = slice pos (nat count) data" "pos + nat count \<le> max pos (length data)"
    "pos < length data \<Longrightarrow> 0 < count"
  using assms(1) [unfolded holds_stream_def, rule_format, OF assms(2), of pos t] assms(3) by auto

lemma source_Read_writes:
  "source_Read n w = ((count, bytes, err), w') \<Longrightarrow> 0 \<le> count \<Longrightarrow> writes w (nat count) [] w'"
  by (auto simp: source_Read_def writes_def tick_def split: prod.splits)

lemma entropy_Read_writes: "entropy_Read n w = (r, w') \<Longrightarrow> writes w 0 [] w'"
  by (auto simp: entropy_Read_def writes_def tick_def split: prod.splits)

section \<open>Streams read exactly\<close>

lemma stream_exact_Inr:
  assumes "stream_exact source_Read n got w = (Inr bytes, w')"
  shows "\<exists>x. bytes = got @ x \<and> length x = n \<and> writes w n [] w' \<and>
    (\<forall>data. holds_stream data (w_env w) \<longrightarrow>
       x = slice (w_consumed w) n data \<and> w_consumed w + n \<le> max (w_consumed w) (length data))"
  using assms
proof (induction n arbitrary: got w rule: less_induct)
  case (less n)
  note run = less.prems [unfolded stream_exact.simps [of source_Read n got] io_bind_eq_Inr poll_Inr]
  show ?case
  proof (cases "n = 0")
    case True
    then show ?thesis using run by (auto simp: writes_def tick_def slice_def)
  next
    case False
    obtain count buf err w1 where rd: "source_Read n (tick w) = ((count, buf, err), w1)"
      by (metis prod_cases3 prod.collapse)
    have e: "env_read (w_env w) (w_tick (tick w)) (w_consumed w) n = (count, buf, err)"
      using rd by (auto simp: source_Read_def tick_def split: prod.splits)
    have range: "0 \<le> count" "count \<le> int n"
      using run False rd by (auto split: if_splits)
    have w1: "writes w (nat count) [] w1"
      using source_Read_writes [OF rd range(1)] by (simp add: writes_def tick_def)
    have data: "fit (nat count) buf = slice (w_consumed w) (nat count) data"
      "w_consumed w + nat count \<le> max (w_consumed w) (length data)"
      if "holds_stream data (w_env w)" for data
      using holds_streamD [OF that _ e] False by auto
    show ?thesis
    proof (cases "nat count = n")
      case True
      then have "bytes = got @ fit n buf" "w' = tick w1"
        using run False rd range by (auto simp: poll_Inr io_bind_eq_Inr)
      then show ?thesis using w1 True data by auto
    next
      case part: False
      then have rec: "0 < count" "stream_exact source_Read (n - nat count) (got @ fit (nat count) buf) w1 = (Inr bytes, w')"
        using run False rd range by (auto split: option.splits if_splits)
      let ?m = "n - nat count"
      from less.IH [OF _ rec(2)] rec(1) False obtain x where
        x: "bytes = (got @ fit (nat count) buf) @ x" "length x = ?m" "writes w1 ?m [] w'"
        and xd: "\<And>data. holds_stream data (w_env w1) \<Longrightarrow> x = slice (w_consumed w1) ?m data \<and>
          w_consumed w1 + ?m \<le> max (w_consumed w1) (length data)" by auto
      have n: "nat count + ?m = n" using range by simp
      have "writes w n [] w'" using writes_trans [OF w1 x(3)] n by simp
      moreover have "fit (nat count) buf @ x = slice (w_consumed w) n data \<and>
          w_consumed w + n \<le> max (w_consumed w) (length data)" if "holds_stream data (w_env w)" for data
      proof -
        have "w_consumed w1 = w_consumed w + nat count" "w_env w1 = w_env w"
          using w1 by (simp_all add: writes_def)
        then show ?thesis
          using data [OF that] xd [of data] that n slice_split [of "w_consumed w" "nat count" ?m data] rec(1)
          by auto
      qed
      ultimately show ?thesis
        using x(1,2) n by (intro exI [of _ "fit (nat count) buf @ x"]) auto
    qed
  qed
qed

lemma entropy_exact_Inr:
  assumes "stream_exact entropy_Read n got w = (Inr bytes, w')"
  shows "length bytes = length got + n \<and> writes w 0 [] w'"
  using assms
proof (induction n arbitrary: got w rule: less_induct)
  case (less n)
  note run = less.prems [unfolded stream_exact.simps [of entropy_Read n got] io_bind_eq_Inr poll_Inr]
  show ?case
  proof (cases "n = 0")
    case False
    obtain count buf err w1 where rd: "entropy_Read n (tick w) = ((count, buf, err), w1)"
      by (metis prod_cases3 prod.collapse)
    have w1: "writes w 0 [] w1" using entropy_Read_writes [OF rd] by (simp add: writes_def tick_def)
    have range: "0 \<le> count" "count \<le> int n" using run False rd by (auto split: if_splits)
    show ?thesis
    proof (cases "nat count = n")
      case True
      then show ?thesis using run False rd range w1 by (auto simp: poll_Inr io_bind_eq_Inr)
    next
      case part: False
      then have rec: "0 < count"
        "stream_exact entropy_Read (n - nat count) (got @ fit (nat count) buf) w1 = (Inr bytes, w')"
        using run False rd range by (auto split: option.splits if_splits)
      from less.IH [OF _ rec(2)] rec(1) False range writes_trans [OF w1, of 0 "[]"]
      show ?thesis by auto
    qed
  qed (use run in auto)
qed

lemma readNormalWriteEntropy_Inr:
  "readNormalWriteEntropy n w = (Inr bytes, w') \<Longrightarrow> length bytes = n \<and> writes w 0 [] w'"
  using entropy_exact_Inr [of n "[]" w bytes w']
  by (auto simp: readNormalWriteEntropy_def readNormalWriteExact_def io_map_err_def split: prod.splits)

lemma readNormalWriteSourceExact_Inr:
  assumes "readNormalWriteSourceExact n w = (Inr bytes, w')"
  shows "length bytes = n \<and> writes w n [] w' \<and>
    (\<forall>data. holds_stream data (w_env w) \<longrightarrow>
       bytes = slice (w_consumed w) n data \<and> w_consumed w + n \<le> max (w_consumed w) (length data))"
proof -
  have "stream_exact source_Read n [] w = (Inr bytes, w')"
    using assms by (auto simp: readNormalWriteSourceExact_def readNormalWriteExact_def cancelled_again_def
        split: prod.splits sum.splits option.splits)
  from stream_exact_Inr [OF this] show ?thesis by auto
qed

lemma requireNormalWriteSourceEOF_Inr:
  assumes "requireNormalWriteSourceEOF w = (Inr u, w')"
  shows "writes w 0 [] w' \<and> (\<forall>data. holds_stream data (w_env w) \<longrightarrow> length data \<le> w_consumed w)"
proof -
  obtain count buf err w1 where rd: "source_Read 1 (tick w) = ((count, buf, err), w1)"
    by (metis prod_cases3 prod.collapse)
  have c: "count = 0" "w' = w1"
    using assms rd by (auto simp: requireNormalWriteSourceEOF_def io_bind_eq_Inr poll_Inr
        split: if_splits option.splits)
  have "env_read (w_env w) (w_tick (tick w)) (w_consumed w) 1 = (count, buf, err)"
    using rd by (auto simp: source_Read_def tick_def split: prod.splits)
  then have "length data \<le> w_consumed w" if "holds_stream data (w_env w)" for data
    using holds_streamD(3) [OF that, of 1] c by force
  moreover have "writes w 0 [] w'"
    using source_Read_writes [OF rd] c by (simp add: writes_def tick_def)
  ultimately show ?thesis by blast
qed

section \<open>Exact writes\<close>

lemma exact_write_Inr:
  assumes "exact_write off bytes w = (Inr off', w')" and "length bytes < 2 ^ 63"
  shows "writes w 0 bytes w' \<and> unat off' = unat off + length bytes"
proof -
  obtain count err w1 where wr: "destination_Write bytes (tick w) = ((count, err), w1)"
    by (metis prod.collapse)
  have c: "count = int (length bytes)" "checkedAdd64 off (word_of_int count) = Some off'" "w' = tick w1"
    using assms(1) wr by (auto simp: exact_write_def io_bind_eq_Inr poll_Inr split: if_splits option.splits)
  have "w1 = (tick (tick w))\<lparr>w_written := w_written w @ take (nat count) bytes\<rparr>"
    using wr by (auto simp: destination_Write_def tick_def split: prod.splits)
  then have "writes w 0 bytes w'" using c by (simp add: writes_def tick_def)
  moreover have "unat (word_of_nat (length bytes) :: u64) = length bytes"
    using assms(2) by (intro unat_word_small) simp
  ultimately show ?thesis using c(1,2) by (simp add: add64.Some_iff)
qed

lemma write_checked_Inr:
  assumes "write_checked expected off bytes w = (Inr off', w')" and "length bytes < 2 ^ 63"
  shows "writes w 0 bytes w' \<and> unat off' = unat off + length bytes \<and>
    expected = int (unat off + length bytes)"
  using assms exact_write_Inr [of off bytes w]
  by (auto simp: write_checked_def io_bind_eq_Inr normalWriteOffsetMatches_def Safe_Some_nat
      split: if_splits option.splits)

section \<open>Blocks in batches\<close>

lemma concat_block_batches: "concat (block_batches blocks) = [0..<blocks]"
proof -
  have "concat (map (\<lambda>k. [k * 256..<min ((k + 1) * 256) blocks]) [0..<m]) = [0..<min (m * 256) blocks]" for m
  proof (induction m)
    case (Suc m)
    have "[0..<min (m * 256) blocks] @ [m * 256..<min (Suc m * 256) blocks] = [0..<min (Suc m * 256) blocks]"
    proof (cases "m * 256 \<le> blocks")
      case True
      then show ?thesis
        using upt_add_eq_append [of 0 "m * 256" "min (Suc m * 256) blocks - m * 256"] by simp
    qed simp
    with Suc show ?case by simp
  qed simp
  moreover have "blocks \<le> (blocks + 255) div 256 * 256" by simp
  ultimately show ?thesis by (simp add: block_batches_def min_absorb2)
qed

lemma block_batches_small: "batch \<in> set (block_batches blocks) \<Longrightarrow> length batch \<le> 256"
  by (auto simp: block_batches_def)

definition block_words :: "RSCodecs \<Rightarrow> byte list \<Rightarrow> nat list \<Rightarrow> byte list" where
  "block_words codecs data blocks =
     concat (map (\<lambda>b. codeword (RS128 codecs) (slice (b * 128) 128 data)) blocks)"

lemma encode_words_Inr:
  assumes "encode_words codecs stage data blocks w = (Inr words, w')"
    and "fec_encodes (RS128 codecs)" and "codecs_sized codecs"
    and "\<And>b. b \<in> set blocks \<Longrightarrow> b * 128 + 128 \<le> length data"
  shows "words = block_words codecs data blocks \<and> length words = length blocks * 136 \<and> writes w 0 [] w'"
  using assms(1,4)
proof (induction blocks arbitrary: words w)
  case Nil
  then show ?case by (simp add: block_words_def)
next
  case (Cons b blocks)
  have l: "length (slice (b * 128) 128 data) = 128" using Cons.prems(2) [of b] by simp
  have enc: "EncodeInto (replicate 136 0) (RS128 codecs) (slice (b * 128) 128 data) =
      Inr (codeword (RS128 codecs) (slice (b * 128) 128 data))"
    using assms(2,3) l by (intro EncodeInto_codeword) (simp_all add: codecs_sized_def)
  have lw: "length (codeword (RS128 codecs) (slice (b * 128) 128 data)) = 136"
    using assms(3) l by (subst length_codeword) (simp_all add: codecs_sized_def)
  obtain rest where r: "encode_words codecs stage data blocks (tick w) = (Inr rest, w')"
    and ws: "words = codeword (RS128 codecs) (slice (b * 128) 128 data) @ rest"
    using Cons.prems(1) enc by (auto simp: io_bind_eq_Inr poll_Inr)
  from Cons.IH [OF r] Cons.prems(2)
  have "rest = block_words codecs data blocks" "length rest = length blocks * 136" "writes (tick w) 0 [] w'"
    by auto
  then show ?case using ws lw by (simp add: block_words_def writes_def tick_def)
qed

lemma write_batches_Inr:
  assumes "write_batches codecs stage data batches off w = (Inr off', w')"
    and "fec_encodes (RS128 codecs)" and "codecs_sized codecs"
    and "\<And>batch. batch \<in> set batches \<Longrightarrow> length batch \<le> 256"
    and "\<And>b. b \<in> set (concat batches) \<Longrightarrow> b * 128 + 128 \<le> length data"
  shows "writes w 0 (block_words codecs data (concat batches)) w' \<and>
    unat off' = unat off + length (concat batches) * 136"
  using assms(1,4,5)
proof (induction batches arbitrary: off w)
  case Nil
  then show ?case by (simp add: block_words_def)
next
  case (Cons batch batches)
  obtain words w1 off1 w2 where e: "encode_words codecs stage data batch w = (Inr words, w1)"
    and x: "exact_write off words w1 = (Inr off1, w2)"
    and r: "write_batches codecs stage data batches off1 w2 = (Inr off', w')"
    using Cons.prems(1) by (auto simp: io_bind_eq_Inr)
  have E: "words = block_words codecs data batch" "length words = length batch * 136" "writes w 0 [] w1"
    using encode_words_Inr [OF e assms(2,3)] Cons.prems(3) by auto
  have "length words < 2 ^ 63" using E(2) Cons.prems(2) [of batch] by simp
  note X = exact_write_Inr [OF x this]
  have R: "writes w2 0 (block_words codecs data (concat batches)) w'"
    "unat off' = unat off1 + length (concat batches) * 136"
    using Cons.IH [OF r] Cons.prems(2,3) by auto
  have "writes w 0 (words @ block_words codecs data (concat batches)) w'"
    using writes_trans [OF writes_trans [OF E(3) X [THEN conjunct1]] R(1)] by simp
  then show ?case using E X R(2) by (simp add: block_words_def algebra_simps)
qed

section \<open>One record\<close>

text \<open>
  The image of record \<open>i\<close> over its plaintext: the coded descriptor, then ciphertext and tag,
  padded with zeroes and coded when the payload has redundancy.
\<close>

definition body_image :: "RSCodecs \<Rightarrow> bool \<Rightarrow> nat \<Rightarrow> byte list \<Rightarrow> byte list" where
  "body_image codecs rs encodedLength semantic =
     (if rs then
        let k = encodedLength div 136 in
        coded (RS128 codecs) k (semantic @ replicate (k * 128 - length semantic) 0)
      else semantic)"

definition record_image ::
  "prims \<Rightarrow> logicalCore \<Rightarrow> bool \<Rightarrow> normalWriteKeys \<Rightarrow> RSCodecs \<Rightarrow> nat \<Rightarrow> byte list \<Rightarrow> byte list \<Rightarrow> bool" where
  "record_image P core rs keys codecs i plain bytes \<longleftrightarrow>
     (\<exists>ciphertext tag.
        let e = record_at core rs i in
        length plain = rec_plain (unat (core_plaintextLength core)) i \<and>
        (if exp_final e then ciphertext = []
         else suite_wrap P (core_suite core) (replicate (length plain) 0) plain
                (wk_payloadXChaCha20 keys) (exp_nonce e) (wk_payloadSerpent keys) (exp_serpentIV e) =
              Inr ciphertext) \<and>
        recordTag P (core_suite core) (wk_payloadMAC keys) (coreCommitment P core)
          (exp_descriptor e) ciphertext = Inr tag \<and>
        bytes = coded (RS16 codecs) 1 (exp_descriptor e) @
                body_image codecs rs (exp_encodedBodyLength e) (ciphertext @ tag))"

lemma recordTag_length: "recordTag P suite key commitment descriptor ct = Inr tag \<Longrightarrow> length tag = 64"
  by (auto simp: recordTag_def suiteMACTag_Inr split: if_splits)

lemma length_descriptor [simp]: "length (exp_descriptor (record_at core rs i)) = 16"
  by simp

text \<open>The encoded body has room for ciphertext and tag.\<close>

lemma body_len_blocks:
  assumes "rs"
  shows "body_len rs n mod 136 = 0" "n + 64 \<le> body_len rs n div 136 * 128" "0 < body_len rs n"
proof -
  have m: "(n + 64 + 127) mod 128 < 128" by simp
  have d: "(n + 64 + 127) div 128 * 128 + (n + 64 + 127) mod 128 = n + 64 + 127" by (rule div_mult_mod_eq)
  have l: "body_len rs n = (n + 64 + 127) div 128 * 136" using assms by (simp add: body_len_def)
  then show "body_len rs n mod 136 = 0" by simp
  have "body_len rs n div 136 = (n + 64 + 127) div 128" using l by simp
  then show "n + 64 \<le> body_len rs n div 136 * 128" using m d by linarith
  then have "(n + 64 + 127) div 128 \<noteq> 0" using \<open>body_len rs n div 136 = _\<close> by (cases "(n + 64 + 127) div 128") auto
  then show "0 < body_len rs n" using l by simp
qed

lemma decodedRecordBodyLength_at:
  "decodedRecordBodyLength (record_at core rs i) rs =
     Some (if rs then body_len rs (rec_plain (unat (core_plaintextLength core)) i) div 136 * 128
           else body_len rs (rec_plain (unat (core_plaintextLength core)) i))"
  using body_len_blocks [of rs "rec_plain (unat (core_plaintextLength core)) i"]
  by (auto simp: decodedRecordBodyLength_def)

lemma length_body_image:
  assumes "codecs_sized codecs" and "length semantic = n + 64"
  shows "length (body_image codecs rs (body_len rs n) semantic) = body_len rs n"
proof (cases rs)
  case True
  note b = body_len_blocks [OF True, of n]
  have "length (coded (RS128 codecs) (body_len rs n div 136)
      (semantic @ replicate (body_len rs n div 136 * 128 - length semantic) 0)) = body_len rs n div 136 * 136"
    using assms b(2) by (subst length_coded) (simp_all add: codecs_sized_def)
  then show ?thesis using True b(1) by (auto simp: body_image_def Let_def)
qed (use assms in \<open>simp add: body_image_def body_len_def\<close>)

lemma block_words_coded:
  assumes "codecs_sized codecs" and "k * 128 \<le> length data"
  shows "block_words codecs data [0..<k] = coded (RS128 codecs) k (take (k * 128) data)"
proof -
  have "slice (b * 128) 128 data = slice (b * 128) 128 (take (k * 128) data)" if "b < k" for b
    using block_inside [OF that, of 128] by (simp add: slice_def drop_take)
  then have "map (\<lambda>b. codeword (RS128 codecs) (slice (b * 128) 128 data)) [0..<k] =
      map (\<lambda>b. codeword (RS128 codecs) (slice (b * 128) 128 (take (k * 128) data))) [0..<k]"
    by (intro map_cong) auto
  moreover have "fec_required (RS128 codecs) = 128" using assms(1) by (simp add: codecs_sized_def)
  ultimately show ?thesis unfolding block_words_def coded_def by (simp only:)
qed

text \<open>The semantic buffer: the two copies into zeroes.\<close>

lemma semantic_buffer:
  assumes "length ct = n" and "length tag = 64" and "n + 64 \<le> m"
  shows "copy_at n tag (copy_at 0 ct (replicate m 0)) = ct @ tag @ replicate (m - (n + 64)) 0"
  using assms by (simp add: copy_at_def)

lemma write_body_Inr:
  assumes run: "write_body codecs g stage e (semantic @ replicate z 0) (length semantic) off w = (Inr off', w')"
    and ok: "fec_encodes (RS128 codecs)" "codecs_sized codecs"
    and rs: "geo_payloadBodyRS g = rs" and e: "exp_encodedBodyLength e = body_len rs n"
    and n: "length semantic = n + 64" "n \<le> 1048576"
  shows "writes w 0 (body_image codecs rs (body_len rs n) semantic) w' \<and> unat off' = unat off + body_len rs n"
proof (cases rs)
  case True
  let ?k = "body_len rs n div 136" and ?data = "semantic @ replicate z (0 :: byte)"
  note b = body_len_blocks [OF True, of n]
  have d: "decodedRecordBodyLength e True = Some (?k * 128)"
    using e b by (simp add: decodedRecordBodyLength_def)
  have wb: "write_batches codecs stage ?data (block_batches ?k) off w = (Inr off', w')" and fits: "?k * 128 \<le> length ?data"
    using run True rs d by (auto simp: write_body_def split: if_splits)
  have inside: "x * 128 + 128 \<le> length ?data" if "x \<in> set (concat (block_batches ?k))" for x
  proof -
    have "x < ?k" using that unfolding concat_block_batches by simp
    then have "x * 128 + 128 \<le> ?k * 128" by (rule block_inside)
    then show ?thesis using fits by linarith
  qed
  note W = write_batches_Inr [OF wb ok block_batches_small inside]
  have "take (?k * 128) ?data = semantic @ replicate (?k * 128 - length semantic) 0"
    using b(2) n(1) fits by (simp add: min_absorb1)
  then have "block_words codecs ?data (concat (block_batches ?k)) = body_image codecs rs (body_len rs n) semantic"
    unfolding concat_block_batches using block_words_coded [OF ok(2) fits] True
    by (simp add: body_image_def Let_def)
  moreover have "length (concat (block_batches ?k)) * 136 = body_len rs n"
    unfolding concat_block_batches using b(1) by auto
  ultimately show ?thesis using W by simp
next
  case False
  then have x: "exact_write off semantic w = (Inr off', w')" using run rs by (simp add: write_body_def)
  have "length semantic < 2 ^ 63" using n by simp
  from exact_write_Inr [OF x this] show ?thesis using False n by (simp add: body_image_def body_len_def)
qed

text \<open>The buffers are large enough for every record.\<close>

lemma body_len_mono: "m \<le> n \<Longrightarrow> body_len rs m \<le> body_len rs n"
  by (simp add: body_len_def div_le_mono)

lemma rec_plain_first: "rec_plain n i \<le> rec_plain n 0"
  by (simp add: rec_plain_def)

lemma normalWriteLengthToInt_plain:
  "normalWriteLengthToInt (word_of_nat (rec_plain n i)) = Some (rec_plain n i)"
proof -
  have u: "unat (word_of_nat (rec_plain n i) :: u64) = rec_plain n i"
    using rec_plain_le [of n i] by (intro unat_word_small) simp
  have "\<not> uint (word_of_nat (rec_plain n i) :: u64) > MaxInt64"
    using rec_plain_le [of n i] unfolding uint_nat u MaxInt64_def by simp
  then show ?thesis unfolding normalWriteLengthToInt_def u by simp
qed

lemma record_buffers_canonical:
  assumes lay: "canonical_layout core rs g"
  defines "n \<equiv> unat (core_plaintextLength core)"
  shows "record_buffers_for core g = Inr \<lparr>buf_plaintext = rec_plain n 0,
    buf_semantic = (if rs then body_len rs (rec_plain n 0) div 136 * 128 else body_len rs (rec_plain n 0))\<rparr>"
proof -
  have rs: "geo_payloadBodyRS g = rs" using lay by (auto simp: canonical_layout_def)
  have e0: "expectedRecord core g 0 = Some (record_at core rs 0)"
    using expectedRecord_canonical [OF lay, of 0] by simp
  have ef: "expectedRecord core g (core_recordCount core) = Some (record_at core rs (rec_count n))"
    using expectedRecord_canonical [OF lay, of "rec_count n"] canonical_layout_count(1) [OF lay] by (simp add: n_def)
  have le: "body_len rs (rec_plain n (rec_count n)) \<le> body_len rs (rec_plain n 0)"
    by (intro body_len_mono rec_plain_first)
  show ?thesis
    unfolding record_buffers_for_def e0 ef option.case Let_def rs
    using le decodedRecordBodyLength_at [of core rs 0]
    by (simp add: normalWriteLengthToInt_plain n_def not_le not_less)
qed

text \<open>What a written record has to do with the stream it was read from.\<close>

definition from_stream :: "byte list \<Rightarrow> world \<Rightarrow> bool \<Rightarrow> byte list \<Rightarrow> bool" where
  "from_stream data w final plain \<longleftrightarrow>
     (if final then length data \<le> w_consumed w
      else plain = slice (w_consumed w) (length plain) data \<and>
           w_consumed w + length plain \<le> max (w_consumed w) (length data))"

lemma write_record_Inr:
  fixes core :: logicalCore
  defines "n \<equiv> unat (core_plaintextLength core)"
  assumes lay: "canonical_layout core rs g" and i: "i \<le> rec_count n"
    and ok: "fec_encodes (RS16 codecs)" "fec_encodes (RS128 codecs)" "codecs_sized codecs"
    and buffers: "record_buffers_for core g = Inr buffers"
    and run: "write_record P core g keys codecs buffers (word_of_nat i) off w = (Inr (off', final), w')"
  shows "\<exists>plain bytes.
    record_image P core rs keys codecs i plain bytes \<and> writes w (length plain) bytes w' \<and>
    length bytes = rec_len rs n i \<and> unat off' = unat off + length bytes \<and> final = (i = rec_count n) \<and>
    (\<forall>data. holds_stream data (w_env w) \<longrightarrow> from_stream data w final plain)"
proof -
  let ?e = "record_at core rs i" and ?m = "rec_plain n i"
  have rs: "geo_payloadBodyRS g = rs" using lay by (auto simp: canonical_layout_def)
  have exp: "expectedRecord core g (word_of_nat i) = Some ?e"
    using expectedRecord_canonical [OF lay] i by (simp add: n_def)
  have B: "buf_semantic buffers = (if rs then body_len rs (rec_plain n 0) div 136 * 128 else body_len rs (rec_plain n 0))"
    using record_buffers_canonical [OF lay] buffers by (auto simp: n_def)
  define stage where "stage = (if exp_final ?e then StageFinalRecord else StageRecordAuth)"
  have fin: "exp_final ?e \<longleftrightarrow> i = rec_count n" by (simp add: n_def)
  obtain u w1 descriptor off1 w2 ct w3 tag where
    eof: "(if exp_final ?e then requireNormalWriteSourceEOF else io_ret ()) (tick w) = (Inr u, w1)"
    and desc: "EncodeInto (replicate 48 0) (RS16 codecs) (exp_descriptor ?e) = Inr descriptor"
    and wd: "exact_write off descriptor w1 = (Inr off1, w2)"
    and ct: "(if exp_final ?e then io_ret (replicate ?m 0)
       else io_bind (readNormalWriteSourceExact ?m) (\<lambda>plaintext.
              io_lift (encrypt_record P core keys ?e plaintext))) w2 = (Inr ct, w3)"
    and tag: "recordTag P (core_suite core) (wk_payloadMAC keys) (coreCommitment P core)
       (exp_descriptor ?e) ct = Inr tag"
    and wb: "write_body codecs g stage ?e (copy_at ?m tag (copy_at 0 ct (replicate (buf_semantic buffers) 0)))
       (?m + length tag) off1 w3 = (Inr off', w')"
    and final: "final = exp_final ?e"
    using run
    unfolding write_record_def exp option.case Let_def stage_def [symmetric] io_bind_eq_Inr poll_Inr
    by (auto simp: io_bind_eq_Inr normalWriteLengthToInt_plain n_def split: option.splits if_split_asm)
  have EOF: "writes w 0 [] w1 \<and> (\<forall>data. holds_stream data (w_env w) \<longrightarrow> exp_final ?e \<longrightarrow> length data \<le> w_consumed w)"
    using eof requireNormalWriteSourceEOF_Inr [of "tick w" u w1]
    by (auto simp: writes_def tick_def split: if_splits)
  have dlen: "length (exp_descriptor ?e) = fec_required (RS16 codecs)" using ok(3) by (simp add: codecs_sized_def)
  have descriptor: "descriptor = coded (RS16 codecs) 1 (exp_descriptor ?e)"
    using desc EncodeInto_codeword [OF ok(1) dlen, of "replicate 48 0"] ok(3) dlen
    by (simp add: coded_def codecs_sized_def)
  have dl: "length descriptor = 48"
    using ok(1,3) dlen unfolding descriptor by (subst length_coded) (simp_all add: codecs_sized_def)
  note WD = exact_write_Inr [OF wd]
  obtain plain where plain: "length plain = ?m" "writes w2 (length plain) [] w3" "length ct = ?m"
    and cipher: "if exp_final ?e then ct = []
        else suite_wrap P (core_suite core) (replicate (length plain) 0) plain
               (wk_payloadXChaCha20 keys) (exp_nonce ?e) (wk_payloadSerpent keys) (exp_serpentIV ?e) = Inr ct"
    and stream: "\<And>data. holds_stream data (w_env w2) \<Longrightarrow> \<not> exp_final ?e \<Longrightarrow>
        plain = slice (w_consumed w2) ?m data \<and> w_consumed w2 + ?m \<le> max (w_consumed w2) (length data)"
  proof (cases "exp_final ?e")
    case True
    then have "?m = 0" using fin by (simp add: rec_plain_final)
    then show thesis using that [of "[]"] True ct by simp
  next
    case False
    then obtain plain where r: "readNormalWriteSourceExact ?m w2 = (Inr plain, w3)"
      and c: "suite_wrap P (core_suite core) (replicate (length plain) 0) plain
         (wk_payloadXChaCha20 keys) (exp_nonce ?e) (wk_payloadSerpent keys) (exp_serpentIV ?e) = Inr ct"
      using ct by (auto simp: io_bind_eq_Inr encrypt_record_def)
    note R = readNormalWriteSourceExact_Inr [OF r]
    show thesis
      by (rule that [of plain]) (use R c False suite_pair.wrap_length [OF c] in auto)
  qed
  have tl: "length tag = 64" by (rule recordTag_length [OF tag])
  have room: "?m + 64 \<le> buf_semantic buffers"
    using body_len_blocks(2) [of rs "rec_plain n 0"] rec_plain_first [of n i] B by (auto simp: body_len_def)
  have sem: "copy_at ?m tag (copy_at 0 ct (replicate (buf_semantic buffers) 0)) =
      (ct @ tag) @ replicate (buf_semantic buffers - (?m + 64)) 0"
    using semantic_buffer [OF plain(3) tl room] by simp
  have wb': "write_body codecs g stage ?e ((ct @ tag) @ replicate (buf_semantic buffers - (?m + 64)) 0)
      (length (ct @ tag)) off1 w3 = (Inr off', w')"
    using wb unfolding sem by (simp add: plain(3))
  have el: "exp_encodedBodyLength ?e = body_len rs ?m" by (simp add: n_def)
  have "length (ct @ tag) = ?m + 64" using plain(3) tl by simp
  note WB = write_body_Inr [OF wb' ok(2,3) rs el this rec_plain_le]
  let ?bytes = "descriptor @ body_image codecs rs (body_len rs ?m) (ct @ tag)"
  have bl: "length (body_image codecs rs (body_len rs ?m) (ct @ tag)) = body_len rs ?m"
    using length_body_image [OF ok(3), of "ct @ tag" ?m rs] plain(3) tl by simp
  have "record_image P core rs keys codecs i plain ?bytes"
    unfolding record_image_def Let_def
    using plain(1) cipher tag descriptor el by (intro exI [of _ ct] exI [of _ tag]) (simp add: n_def)
  moreover have "writes w (length plain) ?bytes w'"
    using writes_trans [OF writes_trans [OF writes_trans [OF EOF [THEN conjunct1] WD [THEN conjunct1]] plain(2)]
        WB [THEN conjunct1]] dl by simp
  moreover have "length ?bytes = rec_len rs n i" using dl bl by (simp add: rec_len_def)
  moreover have "unat off' = unat off + length ?bytes" using WD WB dl bl by simp
  moreover have "from_stream data w final plain" if "holds_stream data (w_env w)" for data
  proof -
    have "writes w 0 descriptor w2" using writes_trans [OF EOF [THEN conjunct1] WD [THEN conjunct1]] dl by simp
    then have "w_env w2 = w_env w" "w_consumed w2 = w_consumed w" by (simp_all add: writes_def)
    then show ?thesis
      using stream [of data] that EOF final plain(1) by (auto simp: from_stream_def)
  qed
  ultimately show ?thesis using final fin by blast
qed

section \<open>All records\<close>

text \<open>The images of the records from index \<open>i\<close> on.\<close>

definition records_image ::
  "prims \<Rightarrow> logicalCore \<Rightarrow> bool \<Rightarrow> normalWriteKeys \<Rightarrow> RSCodecs \<Rightarrow> nat \<Rightarrow> byte list list \<Rightarrow> byte list list \<Rightarrow> bool" where
  "records_image P core rs keys codecs i plains images \<longleftrightarrow>
     i + length plains = rec_count (unat (core_plaintextLength core)) + 1 \<and>
     list_all2 (\<lambda>(j, plain) bytes. record_image P core rs keys codecs (i + j) plain bytes)
       (zip [0..<length plains] plains) images"

lemma records_image_Cons:
  assumes "record_image P core rs keys codecs i plain bytes"
    and "records_image P core rs keys codecs (Suc i) plains images"
  shows "records_image P core rs keys codecs i (plain # plains) (bytes # images)"
proof -
  have "[0..<Suc (length plains)] = 0 # map Suc [0..<length plains]"
    unfolding map_Suc_upt by (rule upt_conv_Cons) simp
  then show ?thesis
    using assms by (simp add: records_image_def zip_map1 list_all2_map1 case_prod_unfold del: upt_Suc)
qed

lemma write_record_loop_end:
  fixes core :: logicalCore
  defines "n \<equiv> unat (core_plaintextLength core)"
  assumes lay: "canonical_layout core rs g"
    and ok: "fec_encodes (RS16 codecs)" "fec_encodes (RS128 codecs)" "codecs_sized codecs"
    and buffers: "record_buffers_for core g = Inr buffers"
    and index: "i + m = rec_count n"
    and run: "write_record_loop P core g keys codecs buffers (Suc m + k) (word_of_nat i) off w = (r, w')"
  shows "\<exists>result. r = Some result \<and>
    (case result of
       Inl e \<Rightarrow> True
     | Inr off' \<Rightarrow>
         \<exists>plains images.
           records_image P core rs keys codecs i plains images \<and>
           writes w (length (concat plains)) (concat images) w' \<and>
           unat off' = unat off + length (concat images) \<and>
           (\<forall>data. holds_stream data (w_env w) \<longrightarrow> w_consumed w \<le> length data \<longrightarrow>
              concat plains = drop (w_consumed w) data))"
  using index run
proof (induction m arbitrary: i off w)
  case 0
  obtain r1 w1 where st: "write_record P core g keys codecs buffers (word_of_nat i) off w = (r1, w1)" by force
  show ?case
  proof (cases r1)
    case (Inl e)
    then show ?thesis using 0(2) st by auto
  next
    case (Inr res)
    obtain off' final where res: "res = (off', final)" by force
    from write_record_Inr [OF lay _ ok buffers st [unfolded Inr res]] 0(1) obtain plain bytes where
      W: "record_image P core rs keys codecs i plain bytes" "writes w (length plain) bytes w1"
        "unat off' = unat off + length bytes" "final"
      and s: "\<And>data. holds_stream data (w_env w) \<Longrightarrow> from_stream data w True plain"
      by (auto simp: n_def)
    have i: "i = rec_count n" using 0(1) by simp
    then have "plain = []" using W(1) by (simp add: record_image_def Let_def n_def rec_plain_final)
    moreover have "r = Some (Inr off')" "w' = w1" using 0(2) st Inr res W(4) by simp_all
    moreover have "records_image P core rs keys codecs i [plain] [bytes]"
      using W(1) i by (simp add: records_image_def n_def)
    ultimately have "\<exists>plains images.
           records_image P core rs keys codecs i plains images \<and>
           writes w (length (concat plains)) (concat images) w' \<and>
           unat off' = unat off + length (concat images) \<and>
           (\<forall>data. holds_stream data (w_env w) \<longrightarrow> w_consumed w \<le> length data \<longrightarrow>
              concat plains = drop (w_consumed w) data)"
      using W s by - (rule exI [of _ "[plain]"], rule exI [of _ "[bytes]"], auto simp: from_stream_def)
    then show ?thesis using \<open>r = Some (Inr off')\<close> by simp
  qed
next
  case (Suc m)
  obtain r1 w1 where st: "write_record P core g keys codecs buffers (word_of_nat i) off w = (r1, w1)" by force
  show ?case
  proof (cases r1)
    case (Inl e)
    then show ?thesis using Suc.prems(2) st by auto
  next
    case (Inr res)
    obtain off1 final where res: "res = (off1, final)" by force
    from write_record_Inr [OF lay _ ok buffers st [unfolded Inr res]] Suc.prems(1) obtain plain bytes where
      W: "record_image P core rs keys codecs i plain bytes" "writes w (length plain) bytes w1"
        "unat off1 = unat off + length bytes" "\<not> final"
      and s: "\<And>data. holds_stream data (w_env w) \<Longrightarrow> from_stream data w False plain"
      by (auto simp: n_def)
    have "write_record_loop P core g keys codecs buffers (Suc m + k) (word_of_nat (Suc i)) off1 w1 = (r, w')"
      using Suc.prems(2) st Inr res W(4) by (simp add: add.commute)
    from Suc.IH [OF _ this] Suc.prems(1) obtain result where r: "r = Some result"
      and ih: "case result of Inl e \<Rightarrow> True
       | Inr off' \<Rightarrow> \<exists>plains images. records_image P core rs keys codecs (Suc i) plains images \<and>
           writes w1 (length (concat plains)) (concat images) w' \<and>
           unat off' = unat off1 + length (concat images) \<and>
           (\<forall>data. holds_stream data (w_env w1) \<longrightarrow> w_consumed w1 \<le> length data \<longrightarrow>
              concat plains = drop (w_consumed w1) data)" by auto
    show ?thesis
    proof (cases result)
      case (Inl e)
      then show ?thesis using r by simp
    next
      case (Inr off')
      then obtain plains images where I: "records_image P core rs keys codecs (Suc i) plains images"
        "writes w1 (length (concat plains)) (concat images) w'" "unat off' = unat off1 + length (concat images)"
        and d: "\<And>data. holds_stream data (w_env w1) \<Longrightarrow> w_consumed w1 \<le> length data \<Longrightarrow>
          concat plains = drop (w_consumed w1) data" using ih by auto
      have "concat (plain # plains) = drop (w_consumed w) data"
        if h: "holds_stream data (w_env w)" "w_consumed w \<le> length data" for data
      proof -
        have w1: "w_env w1 = w_env w" "w_consumed w1 = w_consumed w + length plain"
          using W(2) by (simp_all add: writes_def)
        have f: "plain = slice (w_consumed w) (length plain) data" "w_consumed w + length plain \<le> length data"
          using s [OF h(1)] h(2) by (auto simp: from_stream_def max_def)
        have "concat plains = drop (w_consumed w + length plain) data" using d [of data] h f(2) w1 by simp
        moreover have "drop (w_consumed w) data =
            slice (w_consumed w) (length plain) data @ drop (w_consumed w + length plain) data"
          unfolding slice_def by (metis append_take_drop_id drop_drop add.commute)
        ultimately show ?thesis using f(1) by simp
      qed
      then have "\<exists>plains images.
           records_image P core rs keys codecs i plains images \<and>
           writes w (length (concat plains)) (concat images) w' \<and>
           unat off' = unat off + length (concat images) \<and>
           (\<forall>data. holds_stream data (w_env w) \<longrightarrow> w_consumed w \<le> length data \<longrightarrow>
              concat plains = drop (w_consumed w) data)"
        using I W writes_trans [OF W(2) I(2)] records_image_Cons [OF W(1) I(1)]
        by - (rule exI [of _ "plain # plains"], rule exI [of _ "bytes # images"], auto)
      then show ?thesis using r Inr by simp
    qed
  qed
qed

end
