(* ===== verification/Write_Volume.thy ===== *)
theory Write_Volume
  imports Write_Image
begin

text \<open>
  A whole serialized volume: what the preparation of its structure guarantees, and the image
  that \<open>serializeNormalVolume\<close> has written when it succeeds, in every environment.
\<close>

section \<open>The prepared structure\<close>

text \<open>The fixed-size arrays of the credential metadata.\<close>

definition wf_material :: "normalWriteMaterial \<Rightarrow> bool" where
  "wf_material material \<longleftrightarrow>
     (case mat_credentialMetadata material of
        Inl _ \<Rightarrow> True
      | Inr m \<Rightarrow> length (cm_argonSalt m) = 16 \<and> length (cm_volumeID m) = 32)"

text \<open>A candidate that carries the credential of the material and fresh entropy.\<close>

definition candidate_for :: "normalWriteCredentialMetadata \<Rightarrow> logicalCore \<Rightarrow> byte \<Rightarrow> Candidate \<Rightarrow> bool" where
  "candidate_for metadata core role c \<longleftrightarrow>
     wf_candidate c \<and> validAuthCandidate c \<and> cand_core c = core \<and> cand_role c = role \<and>
     credentialTupleForCandidate c = credentialTupleForCandidate (new_candidate metadata core role)"

definition unsealed :: "Candidate \<Rightarrow> bool" where
  "unsealed c \<longleftrightarrow> cand_wrappedVolumeKey c = replicate 32 0"

lemma paranoid_entropy_Inr:
  "paranoid_entropy suite n w = (Inr bytes, w') \<Longrightarrow> length bytes = n \<and> writes w 0 [] w'"
  by (auto simp: paranoid_entropy_def dest: readNormalWriteEntropy_Inr split: if_splits)

lemma fresh_candidate_Inr:
  assumes "fresh_candidate suite (new_candidate metadata core role) w = (Inr c, w')"
    and "wf_core core" and "length (cm_argonSalt metadata) = 16"
  shows "(candidate_for metadata core role c \<and> unsealed c) \<and> writes w 0 [] w'"
proof -
  obtain nonce w1 iv where n: "readNormalWriteEntropy 24 w = (Inr nonce, w1)"
    and i: "paranoid_entropy suite 16 w1 = (Inr iv, w')"
    and c: "c = (new_candidate metadata core role)\<lparr>cand_wrapNonce := nonce, cand_wrapSerpentIV := iv\<rparr>"
    and v: "validAuthCandidate c"
    using assms(1) by (auto simp: fresh_candidate_def io_bind_eq_Inr Let_def split: if_splits)
  note N = readNormalWriteEntropy_Inr [OF n] and I = paranoid_entropy_Inr [OF i]
  have "wf_candidate c"
    using assms(2,3) N I by (simp add: c wf_candidate_def new_candidate_def zeroCandidate_def)
  then show ?thesis
    using v writes_trans [OF N [THEN conjunct2] I [THEN conjunct2]]
    by (simp add: candidate_for_def unsealed_def c new_candidate_def zeroCandidate_def
        credentialTupleForCandidate_def)
qed

lemma planned_flags:
  "(core_featureFlags (planned_core request f) AND payloadBodyRSFeatureMask \<noteq> 0) = nwr_payloadBodyRS request"
  "(core_featureFlags (planned_core request f) AND d1DerivedRootFeatureMask \<noteq> 0) = nwr_derivedRoot request"
  by (simp_all add: planned_core_def)

lemma planNormalWrite_Inr:
  assumes "planNormalWrite request = Inr plan"
  shows "\<exists>f. plan_core plan = planned_core request f" "validNormalWriteRequest request"
    "canonical_layout (plan_core plan) (nwr_payloadBodyRS request) (plan_geometry plan)"
proof -
  note run = assms [unfolded planNormalWrite_def Let_def]
  have v: "validNormalWriteRequest request" using run by (simp split: if_splits)
  obtain b f where f: "canonicalMetadataGeometry (comment_len request) = Some (b, f)"
    by (metis canonicalMetadataGeometry_exact)
  note run1 = run [unfolded f option.case prod.case]
  obtain g where d: "deriveCanonicalGeometry (zeroCandidate\<lparr>cand_core := planned_core request f\<rparr>) = Inr g"
    using run1 by (cases "deriveCanonicalGeometry (zeroCandidate\<lparr>cand_core := planned_core request f\<rparr>)")
      (simp_all split: if_splits)
  have plan: "plan = \<lparr>plan_core = planned_core request f, plan_geometry = g\<rparr>"
    using run1 unfolding d sum.case by (simp split: if_splits)
  then have c: "plan_core plan = planned_core request f" by simp
  with v show "\<exists>f. plan_core plan = planned_core request f" "validNormalWriteRequest request" by blast+
  have "candidate_PayloadBodyRS (zeroCandidate\<lparr>cand_core := plan_core plan\<rparr>) = nwr_payloadBodyRS request"
    using planned_flags(1) by (simp add: candidate_PayloadBodyRS_def c)
  then show "canonical_layout (plan_core plan) (nwr_payloadBodyRS request) (plan_geometry plan)"
    using d plan canonical_layout_derive [of "zeroCandidate\<lparr>cand_core := plan_core plan\<rparr>" "plan_geometry plan"] by simp
qed

lemma layout_of_core:
  assumes "canonical_layout core rs g" and "validLogicalCore core'"
    and "core_featureFlags core' = core_featureFlags core"
    and "core_plaintextLength core' = core_plaintextLength core"
    and "core_commentLength core' = core_commentLength core"
  shows "canonical_layout core' rs g"
  using assms unfolding canonical_layout_def by auto

text \<open>The core of the volume: the plan of the request with an identity and entropy.\<close>

definition core_for :: "normalWriteRequest \<Rightarrow> normalWriteCredentialMetadata \<Rightarrow> logicalCore \<Rightarrow> bool" where
  "core_for request metadata core \<longleftrightarrow>
     wf_core core \<and> validLogicalCore core \<and> core_suite core = nwr_suite request \<and>
     core_payloadKind core = nwr_payloadKind request \<and> core_volumeID core = cm_volumeID metadata \<and>
     core_plaintextLength core = nwr_plaintextLength request \<and>
     core_commentLength core = comment_len request \<and>
     (core_featureFlags core AND payloadBodyRSFeatureMask \<noteq> 0) = nwr_payloadBodyRS request \<and>
     (core_featureFlags core AND d1DerivedRootFeatureMask \<noteq> 0) = nwr_derivedRoot request"

lemma prepareNormalWriteStructure_Inr:
  assumes "prepareNormalWriteStructure request plan metadata w = (Inr (core, p, b), w')"
    and plan: "planNormalWrite request = Inr plan"
    and len: "length (cm_argonSalt metadata) = 16" "length (cm_volumeID metadata) = 32"
  shows "core_for request metadata core" "canonical_layout core (nwr_payloadBodyRS request) (plan_geometry plan)"
    "candidate_for metadata core CapsuleRolePrimary p \<and> unsealed p"
    "candidate_for metadata core CapsuleRoleBackup b \<and> unsealed b" "writes w 0 [] w'"
proof -
  obtain nonce w1 iv w2 w3 where n: "readNormalWriteEntropy 16 w = (Inr nonce, w1)"
    and i: "paranoid_entropy (nwr_suite request) 8 w1 = (Inr iv, w2)"
    and c: "core = (plan_core plan)\<lparr>core_volumeID := cm_volumeID metadata, core_xChaChaNoncePrefix := nonce,
              core_serpentIVPrefix := iv\<rparr>"
    and v: "validLogicalCore core"
    and p: "fresh_candidate (nwr_suite request) (new_candidate metadata core CapsuleRolePrimary) w2 = (Inr p, w3)"
    and b: "fresh_candidate (nwr_suite request) (new_candidate metadata core CapsuleRoleBackup) w3 = (Inr b, w')"
    using assms(1) by (auto simp: prepareNormalWriteStructure_def Let_def io_bind_eq_Inr split: if_splits)
  note N = readNormalWriteEntropy_Inr [OF n] and I = paranoid_entropy_Inr [OF i]
  obtain f where pc: "plan_core plan = planned_core request f" using planNormalWrite_Inr(1) [OF plan] by blast
  have wf: "wf_core core"
    using N I len by (simp add: c pc wf_core_def planned_core_def zeroCore_def normalDiscriminator_def)
  have cf: "core_featureFlags core = core_featureFlags (planned_core request f)" by (simp add: c pc)
  show "core_for request metadata core"
    using wf v planned_flags [of request f] by (simp add: core_for_def cf) (simp add: c pc planned_core_def)
  show "canonical_layout core (nwr_payloadBodyRS request) (plan_geometry plan)"
    by (rule layout_of_core [OF planNormalWrite_Inr(3) [OF plan] v]) (simp_all add: c)
  note P = fresh_candidate_Inr [OF p wf len(1)] and B = fresh_candidate_Inr [OF b wf len(1)]
  show "candidate_for metadata core CapsuleRolePrimary p \<and> unsealed p"
    "candidate_for metadata core CapsuleRoleBackup b \<and> unsealed b"
    using P B by blast+
  show "writes w 0 [] w'"
    using writes_trans [OF writes_trans [OF writes_trans [OF N [THEN conjunct2] I [THEN conjunct2]]
          P [THEN conjunct2]] B [THEN conjunct2]] by simp
qed

lemma prepare_volume_Inr:
  assumes "prepare_volume request material w = (Inr (g, core, p, b, keys), w')" and "wf_material material"
  obtains metadata where "mat_credentialMetadata material = Inr metadata"
    "mat_copyKeys material (nwr_suite request) = Inr keys" "validNormalWriteRequest request"
    "core_for request metadata core" "canonical_layout core (nwr_payloadBodyRS request) g"
    "candidate_for metadata core CapsuleRolePrimary p \<and> unsealed p"
    "candidate_for metadata core CapsuleRoleBackup b \<and> unsealed b" "writes w 0 [] w'"
proof -
  note run = assms(1) [unfolded prepare_volume_def Let_def]
  have v: "validNormalWriteRequest request" using run by (simp split: if_splits)
  obtain plan where plan: "planNormalWrite request = Inr plan"
    using run v by (cases "planNormalWrite request") (simp_all add: io_bind_def)
  obtain metadata where m: "mat_credentialMetadata material = Inr metadata"
    using run v plan by (cases "mat_credentialMetadata material") (simp_all add: io_bind_def)
  obtain core' p' b' w1 where s: "prepareNormalWriteStructure request plan metadata w = (Inr (core', p', b'), w1)"
    using run v plan m by (auto simp: io_bind_eq_Inr split: if_splits)
  obtain k where k: "mat_copyKeys material (nwr_suite request) = Inr k"
    using run v plan m s
    by (cases "mat_copyKeys material (nwr_suite request)")
      (auto simp: io_bind_eq_Inr cancelled_again_def split: if_splits prod.splits option.splits)
  have e: "core' = core" "p' = p" "b' = b" "k = keys" "g = plan_geometry plan" "w' = tick w1"
    using run v plan m s k by (auto simp: io_bind_eq_Inr poll_Inr split: if_splits)
  have len: "length (cm_argonSalt metadata) = 16" "length (cm_volumeID metadata) = 32"
    using assms(2) m by (simp_all add: wf_material_def)
  note S = prepareNormalWriteStructure_Inr [OF s [unfolded e] plan len]
  show thesis by (rule that [OF m k [unfolded e] v S(1) _ S(3,4)]) (use S e in simp_all)
qed

section \<open>The image of a volume\<close>

text \<open>A capsule sealed under the keys: its wrapped volume key and both tags.\<close>

definition sealed_capsule :: "prims \<Rightarrow> normalWriteKeys \<Rightarrow> Candidate \<Rightarrow> bool" where
  "sealed_capsule P keys c \<longleftrightarrow>
     (let suite = core_suite (cand_core c); wrap = wk_capsuleWrap keys ! unat (cand_role c) in
      suite_wrap P suite (replicate 32 0) (wk_volumeKey keys) (wrap_xChaCha20 wrap) (cand_wrapNonce c)
        (wrap_serpent wrap) (cand_wrapSerpentIV c) = Inr (cand_wrappedVolumeKey c) \<and>
      suiteMACTag P suite (wk_replicaMAC keys ! unat (cand_role c)) [replicaAuthMessage c] =
        Inr (cand_replicaTag c) \<and>
      suiteMACTag P suite (wrap_mac wrap) [wrapAuthMessage c] = Inr (cand_wrapTag c))"

lemma candidate_for_suite:
  "candidate_for metadata core role c \<Longrightarrow> core_suite core = SuiteStandard \<or> core_suite core = SuiteParanoid"
  by (auto simp: candidate_for_def validAuthCandidate_def validLogicalCore_def isSupportedSuite_def
      split: if_splits)

lemma fill_candidate:
  fixes c :: Candidate and wk rt wt :: "byte list"
  defines "c' \<equiv> c\<lparr>cand_wrappedVolumeKey := wk, cand_replicaTag := rt, cand_wrapTag := wt\<rparr>"
  shows "validAuthCandidate c' = validAuthCandidate c"
    "credentialTupleForCandidate c' = credentialTupleForCandidate c"
  by (simp_all add: c'_def validAuthCandidate_def validCandidateKDFProfile_def
      credentialTupleForCandidate_def)

lemma encodeNormalWriteCapsule_sealed:
  assumes "encodeNormalWriteCapsule P c keys codecs = Inr (c', enc)"
    and "fec_encodes (RS64 codecs)" and "codecs_sized codecs"
    and "candidate_for metadata core role c \<and> unsealed c"
  shows "candidate_for metadata core role c'" "sealed_capsule P keys c'"
    "enc = coded (RS64 codecs) 5 (capsuleBytes c')"
proof -
  have wf: "wf_candidate c" using assms(4) by (simp add: candidate_for_def)
  note F = encodeNormalWriteCapsule_filled [OF assms(1-3) wf]
  then obtain wk rt wt where
    c': "c' = c\<lparr>cand_wrappedVolumeKey := wk, cand_replicaTag := rt, cand_wrapTag := wt\<rparr>"
    by (auto simp: filled_candidate_def)
  show "enc = coded (RS64 codecs) 5 (capsuleBytes c')"
    using F capsule_lanes_coded [OF assms(3)] by simp
  have "wf_candidate c'" by (rule filled_candidate_wf [OF F [THEN conjunct1] wf])
  then show "candidate_for metadata core role c'"
    using assms(4) unfolding candidate_for_def c' by (simp add: fill_candidate)
  have suite: "core_suite (cand_core c) = SuiteStandard \<or> core_suite (cand_core c) = SuiteParanoid"
    using candidate_for_suite assms(4) unfolding candidate_for_def by blast
  have fixed: "cand_core c' = cand_core c" "cand_role c' = cand_role c" "cand_wrapNonce c' = cand_wrapNonce c"
    "cand_wrapSerpentIV c' = cand_wrapSerpentIV c" "cand_wrappedVolumeKey c = replicate 32 0"
    using assms(4) by (simp_all add: c' unsealed_def)
  show "sealed_capsule P keys c'"
    using F [THEN conjunct1] suite
    unfolding filled_candidate_def sealed_capsule_def suite_wrap_def Let_def fixed by (elim conjE disjE) simp_all
qed

definition volume_image ::
  "prims \<Rightarrow> RSCodecs \<Rightarrow> normalWriteKeys \<Rightarrow> byte list \<Rightarrow> logicalCore \<Rightarrow> Candidate \<Rightarrow> Candidate \<Rightarrow>
   byte list list \<Rightarrow> byte list \<Rightarrow> bool" where
  "volume_image P codecs keys comment core p b plains img \<longleftrightarrow>
     (\<exists>tag images.
        metadataTag P (core_suite core) (wk_metadataMAC keys) core (meta_header comment) comment = Inr tag \<and>
        records_image P core (core_featureFlags core AND payloadBodyRSFeatureMask \<noteq> 0) keys codecs 0
          plains images \<and>
        img =
          take 16 (logicalCoreBytes core) @
          coded (RS64 codecs) 5 (capsuleBytes p) @
          coded (RS128 codecs) (meta_blocks (length comment)) (meta_plain comment tag) @
          concat images @
          coded (RS64 codecs) 5 (capsuleBytes b) @
          coded (RS16 codecs) 1 canonicalTrailerBytes)"

text \<open>What a successful serialization has written, and from what.\<close>

definition serialized ::
  "prims \<Rightarrow> normalWriteRequest \<Rightarrow> normalWriteMaterial \<Rightarrow> RSCodecs \<Rightarrow> world \<Rightarrow> byte list \<Rightarrow> world \<Rightarrow> bool" where
  "serialized P request material codecs w img w' \<longleftrightarrow>
     (\<exists>metadata keys core p b plains.
        mat_credentialMetadata material = Inr metadata \<and>
        mat_copyKeys material (nwr_suite request) = Inr keys \<and>
        core_for request metadata core \<and>
        candidate_for metadata core CapsuleRolePrimary p \<and> sealed_capsule P keys p \<and>
        candidate_for metadata core CapsuleRoleBackup b \<and> sealed_capsule P keys b \<and>
        volume_image P codecs keys (nwr_comment request) core p b plains img \<and>
        writes w (length (concat plains)) img w' \<and>
        (\<forall>data. holds_stream data (w_env w) \<longrightarrow> w_consumed w \<le> length data \<longrightarrow>
           concat plains = drop (w_consumed w) data))"

lemma write_front_Inr:
  assumes "write_front g core pe me w = (Inr off, w')" and "wf_core core"
    and "length pe = 960" and "length me < 2 ^ 63"
  shows "writes w 0 (take 16 (logicalCoreBytes core) @ pe @ me) w'" "unat off = 976 + length me"
proof -
  obtain o1 w1 o2 w2 where x: "exact_write 0 (take 16 (logicalCoreBytes core)) w = (Inr o1, w1)"
    and y: "exact_write o1 pe w1 = (Inr o2, w2)"
    and z: "write_checked (geo_frontHeaderLength g) o2 me w2 = (Inr off, w')"
    using assms(1) by (auto simp: write_front_def io_bind_eq_Inr)
  have l: "length (take 16 (logicalCoreBytes core)) = 16" using length_logicalCoreBytes [OF assms(2)] by simp
  have "length (take 16 (logicalCoreBytes core)) < 2 ^ 63" "length pe < 2 ^ 63" using l assms(3) by simp_all
  note X = exact_write_Inr [OF x this(1)] and Y = exact_write_Inr [OF y this(2)]
    and Z = write_checked_Inr [OF z assms(4)]
  show "writes w 0 (take 16 (logicalCoreBytes core) @ pe @ me) w'"
    using writes_trans [OF writes_trans [OF X [THEN conjunct1] Y [THEN conjunct1]] Z [THEN conjunct1]] by simp
  show "unat off = 976 + length me" using X Y Z l assms(3) by simp
qed

lemma write_suffix_Inr:
  assumes "write_suffix g off be te w = (Inr off', w')" and "length be < 2 ^ 63" "length te < 2 ^ 63"
  shows "writes w 0 (be @ te) w'" "geo_fileSize g = int (unat off + length be + length te)"
proof -
  obtain o1 w1 where x: "write_checked (geo_trailerOffset g) off be w = (Inr o1, w1)"
    and y: "write_checked (geo_fileSize g) o1 te w1 = (Inr off', w')"
    using assms(1) by (auto simp: write_suffix_def io_bind_eq_Inr split: if_splits)
  note X = write_checked_Inr [OF x assms(2)] and Y = write_checked_Inr [OF y assms(3)]
  show "writes w 0 (be @ te) w'" using writes_trans [OF X [THEN conjunct1] Y [THEN conjunct1]] by simp
  show "geo_fileSize g = int (unat off + length be + length te)" using X Y by simp
qed

lemma serializeNormalVolumeWithKeys_end:
  assumes lay: "canonical_layout core rs g"
    and core: "core_for request metadata core"
    and p: "candidate_for metadata core CapsuleRolePrimary p \<and> unsealed p"
    and b: "candidate_for metadata core CapsuleRoleBackup b \<and> unsealed b"
    and m: "mat_credentialMetadata material = Inr metadata"
    and k': "mat_copyKeys material (nwr_suite request) = Inr keys"
    and v: "validNormalWriteRequest request"
    and ok: "fec_encodes (RS16 codecs)" "fec_encodes (RS64 codecs)" "fec_encodes (RS128 codecs)"
      "codecs_sized codecs"
    and run: "serializeNormalVolumeWithKeys P request core g p b keys codecs w = (r, w')"
  shows "\<exists>result. r = Some result \<and>
    (case result of
       Inl e \<Rightarrow> True
     | Inr _ \<Rightarrow> \<exists>img. serialized P request material codecs w img w' \<and> geo_fileSize g = int (length img))"
proof (rule ccontr)
  assume no: "\<not> ?thesis"
  note unfolded = run [unfolded serializeNormalVolumeWithKeys_def]
  have fail: thesis if "r = Some (Inl e)" for e thesis using that no by simp
  let ?n = "unat (core_plaintextLength core)"
  have cl: "length (nwr_comment request) \<le> 99999"
    using v by (simp add: validNormalWriteRequest_def split: if_splits)
  have "core_commentLength core = word_of_nat (length (nwr_comment request))"
    using core by (simp add: core_for_def comment_len_def)
  moreover have "unat (word_of_nat (length (nwr_comment request)) :: u32) = length (nwr_comment request)"
    using cl by (simp add: unat_of_nat)
  ultimately have comment: "unat (core_commentLength core) = length (nwr_comment request)" by simp
  let ?k = "meta_blocks (length (nwr_comment request))"
  have k: "?k \<le> 800" using cl by (simp add: meta_blocks_def)
  have g: "g = layout_of rs ?n (length (nwr_comment request))"
    using lay comment by (simp add: canonical_layout_def)
  have mb: "unat (geo_metadataBlocks g) = ?k"
    using k unfolding g layout_of_sel by (intro unat_word_small) simp
  have wf: "wf_core core" and rs: "(core_featureFlags core AND payloadBodyRSFeatureMask \<noteq> 0) = rs"
    using core lay by (simp_all add: core_for_def canonical_layout_def)
  obtain parts where fixed: "encode_fixed_parts P request core g p b keys codecs = Inr parts"
    using unfolded fail by (cases "encode_fixed_parts P request core g p b keys codecs") auto
  obtain pe be me te where parts: "parts = (pe, be, me, te)" by (cases parts) auto
  obtain p' b' where cp: "encodeNormalWriteCapsule P p keys codecs = Inr (p', pe)"
    and cb: "encodeNormalWriteCapsule P b keys codecs = Inr (b', be)"
    and cm: "encodeNormalWriteMetadata P (nwr_comment request) core g (wk_metadataMAC keys) codecs = Inr me"
    and ct: "encodeNormalWriteTrailer codecs = Inr te"
    using fixed parts by (auto simp: encode_fixed_parts_def ebind_eq_Inr)
  note CP = encodeNormalWriteCapsule_sealed [OF cp ok(2,4) p]
    and CB = encodeNormalWriteCapsule_sealed [OF cb ok(2,4) b]
  from encodeNormalWriteMetadata_coded [OF cm ok(3,4) mb] obtain tag where
    tag: "metadataTag P (core_suite core) (wk_metadataMAC keys) core (meta_header (nwr_comment request))
      (nwr_comment request) = Inr tag"
    and me: "me = coded (RS128 codecs) ?k (meta_plain (nwr_comment request) tag)"
    by blast
  have te: "te = coded (RS16 codecs) 1 canonicalTrailerBytes"
    using encodeNormalWriteTrailer_coded [OF ok(1,4)] ct by simp
  have len: "length pe = 960" "length be = 960" "length me = ?k * 136" "length te = 48"
    using ok(4) CP CB capsule_codec.enc_length length_meta_plain [OF metadataTag_length [OF tag]]
    by (simp_all add: me te length_coded codecs_sized_def candidate_for_def)
  note run1 = unfolded [unfolded fixed parts sum.case prod.case]
  obtain r1 w1 where front: "write_front g core pe me w = (r1, w1)" by force
  obtain off1 where o1: "r1 = Inr off1" using run1 front fail by (cases r1) auto
  have "length me < 2 ^ 63" using len(3) k by simp
  note F = write_front_Inr [OF front [unfolded o1] wf len(1) this]
  obtain r2 w2 where records: "writeNormalRecords P core g keys codecs off1 w1 = (r2, w2)" by force
  note run2 = run1 [unfolded front o1 records sum.case prod.case]
  have recs: "\<exists>result. r2 = Some result \<and>
    (case result of
       Inl e \<Rightarrow> True
     | Inr off' \<Rightarrow>
         \<exists>plains images.
           records_image P core rs keys codecs 0 plains images \<and>
           writes w1 (length (concat plains)) (concat images) w2 \<and>
           unat off' = unat off1 + length (concat images) \<and>
           (\<forall>data. holds_stream data (w_env w1) \<longrightarrow> w_consumed w1 \<le> length data \<longrightarrow>
              concat plains = drop (w_consumed w1) data))"
  proof (cases "record_buffers_for core g")
    case (Inl e)
    then show ?thesis using records by (auto simp: writeNormalRecords_def)
  next
    case (Inr buffers)
    have "write_record_loop P core g keys codecs buffers (Suc (rec_count ?n) + 1) (word_of_nat 0) off1 w1 = (r2, w2)"
      using records canonical_layout_count(2) [OF lay] Inr by (simp add: writeNormalRecords_def)
    from write_record_loop_end [OF lay ok(1,3,4) Inr _ this] show ?thesis by simp
  qed
  then obtain result where result: "r2 = Some result" by blast
  obtain off2 where o2: "result = Inr off2" using run2 result fail by (cases result) auto
  from recs result o2 obtain plains images where R: "records_image P core rs keys codecs 0 plains images"
    "writes w1 (length (concat plains)) (concat images) w2" "unat off2 = unat off1 + length (concat images)"
    and d: "\<And>data. holds_stream data (w_env w1) \<Longrightarrow> w_consumed w1 \<le> length data \<Longrightarrow>
       concat plains = drop (w_consumed w1) data" by auto
  obtain r3 w3 where suffix: "write_suffix g off2 be te w2 = (r3, w3)" by force
  note run3 = run2 [unfolded result o2 suffix option.case sum.case prod.case]
  obtain off3 where o3: "r3 = Inr off3" using run3 fail by (cases r3) auto
  have r: "r = Some (Inr ())" "w3 = w'" using run3 o3 by simp_all
  have "length be < 2 ^ 63" "length te < 2 ^ 63" using len by simp_all
  note S = write_suffix_Inr [OF suffix [unfolded o3] this]
  let ?img = "take 16 (logicalCoreBytes core) @ pe @ me @ concat images @ be @ te"
  have wr: "writes w (length (concat plains)) ?img w'"
    using writes_trans [OF writes_trans [OF F(1) R(2)] S(1)] r by simp
  have vol: "volume_image P codecs keys (nwr_comment request) core p' b' plains ?img"
    unfolding volume_image_def rs using tag R(1) CP(3) CB(3) me te by blast
  have data: "concat plains = drop (w_consumed w) data"
    if "holds_stream data (w_env w)" "w_consumed w \<le> length data" for data
    using d [of data] that F(1) by (simp add: writes_def)
  have "length (take 16 (logicalCoreBytes core)) = 16" using length_logicalCoreBytes [OF wf] by simp
  then have size: "geo_fileSize g = int (length ?img)" using F(2) R(3) S(2) len by simp
  have "serialized P request material codecs w ?img w'"
    unfolding serialized_def using m k' core CP(1,2) CB(1,2) vol wr data by blast
  with size no show False using r(1) by auto
qed

lemma serializeNormalVolume_end:
  assumes ok: "fec_encodes (RS16 codecs)" "fec_encodes (RS64 codecs)" "fec_encodes (RS128 codecs)"
    and wf: "wf_material material"
    and run: "serializeNormalVolume P request material codecs w = (r, w')"
  shows "\<exists>result. r = Some result \<and>
    (case result of
       Inl e \<Rightarrow> True
     | Inr _ \<Rightarrow> \<exists>img. serialized P request material codecs w img w' \<and>
         length img = file_len (nwr_payloadBodyRS request) (unat (nwr_plaintextLength request))
           (length (nwr_comment request)) \<and> length img < 2 ^ 63)"
proof (rule ccontr)
  assume no: "\<not> ?thesis"
  note unfolded = run [unfolded serializeNormalVolume_def]
  have fail: "r \<noteq> Some (Inl e)" for e using no by auto
  have seams: "validNormalWriteSeams codecs" using unfolded fail by (cases "validNormalWriteSeams codecs") auto
  then have sized: "codecs_sized codecs" by (simp add: validNormalWriteSeams_def codecs_sized_def)
  obtain r1 w1 where prep: "io_bind poll_write (\<lambda>_. prepare_volume request material) w = (r1, w1)" by force
  obtain g core p b keys where r1: "r1 = Inr (g, core, p, b, keys)"
    using unfolded prep seams fail by (cases r1) auto
  have "prepare_volume request material (tick w) = (Inr (g, core, p, b, keys), w1)"
    using prep r1 by (simp add: io_bind_eq_Inr poll_Inr)
  then obtain metadata where M: "mat_credentialMetadata material = Inr metadata"
    "mat_copyKeys material (nwr_suite request) = Inr keys" "validNormalWriteRequest request"
    "core_for request metadata core" "canonical_layout core (nwr_payloadBodyRS request) g"
    "candidate_for metadata core CapsuleRolePrimary p \<and> unsealed p"
    "candidate_for metadata core CapsuleRoleBackup b \<and> unsealed b" "writes (tick w) 0 [] w1"
    by (rule prepare_volume_Inr [OF _ wf])
  obtain r2 w2 where body: "serializeNormalVolumeWithKeys P request core g p b keys codecs w1 = (r2, w2)" by force
  from serializeNormalVolumeWithKeys_end [OF M(5,4,6,7,1,2,3) ok sized body] obtain result where
    result: "r2 = Some result" and cases: "case result of Inl e \<Rightarrow> True
     | Inr _ \<Rightarrow> \<exists>img. serialized P request material codecs w1 img w2 \<and> geo_fileSize g = int (length img)"
    by blast
  note run1 = unfolded [unfolded prep r1 body result sum.case prod.case option.case]
  obtain u where u: "result = Inr u" using run1 seams fail by (cases result) auto
  obtain img where img: "serialized P request material codecs w1 img w2" "geo_fileSize g = int (length img)"
    using cases u by auto
  obtain r3 w3 where p3: "poll_write w2 = (r3, w3)" by force
  obtain u' where u': "r3 = Inr u'" using run1 u p3 seams fail by (cases r3) auto
  have w': "r = Some (Inr u')" "w' = tick w2"
    using run1 u p3 u' seams p3 [unfolded u' poll_Inr] by simp_all
  have w1: "w_env w1 = w_env w" "w_consumed w1 = w_consumed w"
    using M(8) by (simp_all add: writes_def tick_def)
  have "writes w 0 [] w1" using M(8) by (simp add: writes_def tick_def)
  have "serialized P request material codecs w img w'"
    using img(1) writes_trans [OF \<open>writes w 0 [] w1\<close>] unfolding serialized_def w1 w'(2) by fastforce
  moreover have "unat (core_commentLength core) = length (nwr_comment request)"
  proof -
    have "length (nwr_comment request) \<le> 99999"
      using M(3) by (simp add: validNormalWriteRequest_def split: if_splits)
    then show ?thesis using M(4) by (simp add: core_for_def comment_len_def unat_of_nat)
  qed
  then have "length img = file_len (nwr_payloadBodyRS request) (unat (nwr_plaintextLength request))
      (length (nwr_comment request))" "length img < 2 ^ 63"
    using img(2) M(4,5) by (auto simp: canonical_layout_def core_for_def)
  ultimately show False using no w'(1) by auto
qed

section \<open>Serialization ends\<close>

text \<open>In any environment and for any geometry: a record that is not the last one is followed by
  the next index, and no index past the record count has an expectation.\<close>

lemma write_record_final:
  assumes "write_record P core g keys codecs buffers index off w = (Inr (off', final), w')"
  shows "final \<longleftrightarrow> index = core_recordCount core" "index \<le> core_recordCount core"
proof -
  obtain e where e: "expectedRecord core g index = Some e"
    using assms by (cases "expectedRecord core g index") (simp_all add: write_record_def io_bind_eq_Inr)
  have "final = exp_final e"
    using assms unfolding write_record_def e option.case Let_def
    by (auto simp: io_bind_eq_Inr split: if_split_asm option.splits)
  then show "final \<longleftrightarrow> index = core_recordCount core" "index \<le> core_recordCount core"
    using expectedRecord_fields [OF e] by simp_all
qed

lemma write_record_loop_terminates:
  assumes "i + m = unat (core_recordCount core)"
  shows "\<exists>result w'. \<forall>k. write_record_loop P core g keys codecs buffers (Suc m + k) (word_of_nat i) off w =
    (Some result, w')"
  using assms
proof (induction m arbitrary: i off w)
  case 0
  obtain r1 w1 where st: "write_record P core g keys codecs buffers (word_of_nat i) off w = (r1, w1)" by force
  have "word_of_nat i = core_recordCount core" using 0 by simp
  then show ?case using st write_record_final(1) [of P core g keys codecs buffers "word_of_nat i" off w]
    by (cases r1) fastforce+
next
  case (Suc m)
  obtain r1 w1 where st: "write_record P core g keys codecs buffers (word_of_nat i) off w = (r1, w1)" by force
  show ?case
  proof (cases r1)
    case (Inr res)
    obtain off1 final where res: "res = (off1, final)" by force
    from Suc.IH [of "Suc i" off1 w1] Suc.prems obtain result w' where
      "\<forall>k. write_record_loop P core g keys codecs buffers (Suc m + k) (word_of_nat (Suc i)) off1 w1 = (Some result, w')"
      by auto
    then show ?thesis
      using st Inr res by (cases final) (simp_all add: add.commute)
  qed (use st in simp)
qed

text \<open>C30: Serialization ends with a result, whatever the streams, the destination, the context and
  the key material do: the record loop needs one round per record and one for the final record,
  so that more fuel does not change what it returns.\<close>

theorem serialization_terminates:
  "(\<exists>result w'. serializeNormalVolume P request material codecs w = (Some result, w')) \<and>
   (\<exists>result w'. \<forall>k. write_record_loop P core g keys codecs buffers (unat (core_recordCount core) + 1 + k) 0 off w =
      (Some result, w'))"
proof
  have loop: "\<exists>result w'. \<forall>k. write_record_loop P core g keys codecs buffers
      (unat (core_recordCount core) + 1 + k) 0 off w = (Some result, w')" for core g keys buffers off w
    using write_record_loop_terminates [of 0 "unat (core_recordCount core)" core P g keys codecs buffers off w]
    by simp
  then show "\<exists>result w'. \<forall>k. write_record_loop P core g keys codecs buffers
      (unat (core_recordCount core) + 1 + k) 0 off w = (Some result, w')" .
  have "\<exists>result w'. writeNormalRecords P core g keys codecs off w = (Some result, w')" for core g keys off w
  proof (cases "record_buffers_for core g")
    case (Inr buffers)
    obtain result w' where "write_record_loop P core g keys codecs buffers
        (unat (core_recordCount core) + 1 + 1) 0 off w = (Some result, w')"
      using loop [of core g keys buffers off w] by blast
    then show ?thesis using Inr by (simp add: writeNormalRecords_def)
  qed (simp add: writeNormalRecords_def)
  then have records: "writeNormalRecords P core g keys codecs off w \<noteq> (None, w')" for core g keys off w w'
    by (metis prod.inject option.distinct(1))
  have body: "serializeNormalVolumeWithKeys P request core g p b keys codecs w \<noteq> (None, w')" for core g p b keys w w'
    unfolding serializeNormalVolumeWithKeys_def
    by (auto simp: records split: sum.splits prod.splits option.splits)
  have "serializeNormalVolume P request material codecs w \<noteq> (None, w')" for w'
    unfolding serializeNormalVolume_def
    by (auto simp: body split: sum.splits prod.splits option.splits)
  then show "\<exists>result w'. serializeNormalVolume P request material codecs w = (Some result, w')"
    by (metis prod.collapse option.exhaust)
qed

end
