(* ===== verification/Sample_Codec.thy ===== *)
theory Sample_Codec
  imports Rs_Coding
begin

text \<open>
  A codec that meets the hypotheses on the third-party one, for the witnesses: a systematic code whose
  check bytes are exclusive ors of data bytes, and which repairs one wrong byte per codeword.
\<close>

section \<open>Check bytes\<close>

text \<open>The masks: the rows of eight bits with at least two set. Bit \<open>j\<close> of the mask of a data byte says whether
  the byte goes into check byte \<open>j\<close>.\<close>

primrec bit_rows :: "nat \<Rightarrow> bool list list" where
  "bit_rows 0 = [[]]"
| "bit_rows (Suc n) = map ((#) True) (bit_rows n) @ map ((#) False) (bit_rows n)"

definition masks :: "bool list list" where
  "masks = filter (\<lambda>m. 2 \<le> length (filter (\<lambda>b. b) m)) (bit_rows 8)"

definition mask_bit :: "bool list \<Rightarrow> nat \<Rightarrow> bool" where
  "mask_bit m j \<longleftrightarrow> j < length m \<and> m ! j"

fun check_byte :: "nat \<Rightarrow> bool list list \<Rightarrow> byte list \<Rightarrow> byte" where
  "check_byte j (m # ms) (x # xs) = (if mask_bit m j then x XOR check_byte j ms xs else check_byte j ms xs)"
| "check_byte j ms xs = 0"

definition check_bytes :: "nat \<Rightarrow> byte list \<Rightarrow> byte list" where
  "check_bytes r data = map (\<lambda>j. check_byte j masks data) [0..<r]"

definition checked_word :: "nat \<Rightarrow> nat \<Rightarrow> byte list \<Rightarrow> bool" where
  "checked_word k n word \<longleftrightarrow> word = take k word @ check_bytes (n - k) (take k word)"

definition near_words :: "nat \<Rightarrow> byte list \<Rightarrow> byte list list" where
  "near_words n word = word # [word[p := word_of_nat b]. p \<leftarrow> [0..<n], b \<leftarrow> [0..<256]]"

definition xor_fec :: "nat \<Rightarrow> nat \<Rightarrow> FEC" where
  "xor_fec k n = \<lparr>fec_required = k, fec_total = n,
     fec_encode_single = (\<lambda>data number. Some (check_byte (number - k) masks data)),
     fec_correct = (\<lambda>shares. map_option (zip [0..<n]) (find (checked_word k n) (near_words n (map snd shares))))\<rparr>"

section \<open>Two codewords differ in three bytes\<close>

lemma masks_length: "length masks = 247"
  by (simp add: masks_def eval_nat_numeral)

lemma masks_first: "masks ! 0 = replicate 8 True"
  by (simp add: masks_def eval_nat_numeral)

lemma xor_fec_sizes: "fec_required (xor_fec k n) = k" "fec_total (xor_fec k n) = n"
  by (simp_all add: xor_fec_def)

lemma xor_fec_codeword: "k \<le> n \<Longrightarrow> codeword (xor_fec k n) data = data @ check_bytes (n - k) data"
  by (simp add: codeword_def xor_fec_def check_bytes_def) (rule nth_equalityI, simp_all)

lemma check_byte_agree:
  "length xs = length ys \<Longrightarrow> (\<And>l. l < length xs \<Longrightarrow> l < length ms \<Longrightarrow> mask_bit (ms ! l) j \<Longrightarrow> xs ! l = ys ! l) \<Longrightarrow>
   check_byte j ms xs = check_byte j ms ys"
proof (induction xs ys arbitrary: ms rule: list_induct2)
  case (Cons x xs y ys)
  show ?case
  proof (cases ms)
    case (Cons m ms')
    have "check_byte j ms' xs = check_byte j ms' ys"
      using Cons.prems [of "Suc _"] Cons by (intro Cons.IH) fastforce
    then show ?thesis using Cons.prems [of 0] Cons by auto
  qed simp
qed simp

lemma check_byte_differ:
  "length xs = length ys \<Longrightarrow> p < length xs \<Longrightarrow> p < length ms \<Longrightarrow> mask_bit (ms ! p) j \<Longrightarrow> xs ! p \<noteq> ys ! p \<Longrightarrow>
   (\<And>l. l < length xs \<Longrightarrow> l \<noteq> p \<Longrightarrow> mask_bit (ms ! l) j \<Longrightarrow> xs ! l = ys ! l) \<Longrightarrow>
   check_byte j ms xs \<noteq> check_byte j ms ys"
proof (induction xs ys arbitrary: ms p rule: list_induct2)
  case (Cons x xs y ys)
  obtain m ms' where ms: "ms = m # ms'" using Cons.prems(2) by (cases ms) auto
  have xor: "(a XOR c = b XOR c) = (a = b)" "(c XOR a = c XOR b) = (a = b)" for a b c :: byte
    by (metis xor.assoc xor.right_neutral xor_self_eq xor.commute)+
  show ?case
  proof (cases p)
    case 0
    have "check_byte j ms' xs = check_byte j ms' ys"
      using Cons.hyps Cons.prems(5) [of "Suc _"] 0 ms by (intro check_byte_agree) auto
    then show ?thesis using Cons.prems(3,4) 0 ms by (simp add: xor)
  next
    case (Suc p')
    have "check_byte j ms' xs \<noteq> check_byte j ms' ys"
    proof (rule Cons.IH)
      show "xs ! l = ys ! l" if "l < length xs" "l \<noteq> p'" "mask_bit (ms' ! l) j" for l
        using Cons.prems(5) [of "Suc l"] that Suc ms by simp
    qed (use Cons.prems Suc ms in simp_all)
    moreover have "mask_bit m j \<Longrightarrow> x = y" using Cons.prems(5) [of 0] Suc ms by simp
    ultimately show ?thesis using ms by (simp add: xor)
  qed
qed simp

lemma bit_rows_length: "m \<in> set (bit_rows n) \<Longrightarrow> length m = n"
  by (induction n arbitrary: m) auto

lemma bit_rows_distinct: "distinct (bit_rows n)"
  by (induction n) (auto simp: distinct_map)

lemma mask_nth:
  assumes "i < 247"
  shows "length (masks ! i) = 8" and "2 \<le> length (filter (\<lambda>b. b) (masks ! i))"
proof -
  have "masks ! i \<in> set masks" using assms by (simp add: masks_length)
  then show "length (masks ! i) = 8" and "2 \<le> length (filter (\<lambda>b. b) (masks ! i))"
    using bit_rows_length by (auto simp: masks_def)
qed

lemma mask_two_bits:
  assumes "i < 247"
  obtains a b where "a \<noteq> b" "a < 8" "b < 8" "mask_bit (masks ! i) a" "mask_bit (masks ! i) b"
proof -
  let ?S = "{j. j < length (masks ! i) \<and> masks ! i ! j}"
  have "2 \<le> card ?S" using mask_nth(2) [OF assms] by (simp add: length_filter_conv_card)
  then obtain a b where "a \<in> ?S" "b \<in> ?S" "a \<noteq> b"
    by (metis (no_types, lifting) card_le_Suc0_iff_eq card.infinite not_less_eq_eq numeral_2_eq_2 zero_le)
  then show thesis using mask_nth(1) [OF assms] by (intro that [of a b]) (auto simp: mask_bit_def)
qed

lemma mask_separates:
  assumes "i < 247" "i' < 247" "i \<noteq> i'"
  obtains j where "j < 8" "mask_bit (masks ! i) j \<noteq> mask_bit (masks ! i') j"
proof -
  have "distinct masks" by (simp add: masks_def bit_rows_distinct)
  then have "masks ! i \<noteq> masks ! i'" using assms by (simp add: nth_eq_iff_index_eq masks_length)
  then obtain j where "j < 8" "masks ! i ! j \<noteq> masks ! i' ! j"
    using mask_nth(1) [OF assms(1)] mask_nth(1) [OF assms(2)] by (auto simp: list_eq_iff_nth_eq)
  then show thesis using mask_nth(1) [OF assms(1)] mask_nth(1) [OF assms(2)] by (intro that [of j]) (auto simp: mask_bit_def)
qed

text \<open>The shapes: one byte with two check bytes, or up to 247 bytes with eight.\<close>

definition shape :: "nat \<Rightarrow> nat \<Rightarrow> bool" where
  "shape k r \<longleftrightarrow> k \<le> 1 \<and> 2 \<le> r \<or> k \<le> 247 \<and> 8 \<le> r"

lemma shape_two_bits:
  assumes "shape k r" and "i < k"
  obtains a b where "a \<noteq> b" "a < r" "b < r" "mask_bit (masks ! i) a" "mask_bit (masks ! i) b"
proof (cases "8 \<le> r")
  case True
  then have "i < 247" using assms by (auto simp: shape_def)
  from mask_two_bits [OF this] show thesis using True that by (metis order_less_le_trans)
next
  case False
  then have "i = 0" "2 \<le> r" using assms by (auto simp: shape_def)
  then show thesis by (intro that [of 0 1]) (auto simp: mask_bit_def masks_first)
qed

lemma check_differs:
  assumes "length xs = k" "length ys = k" "k \<le> 247" "p < k" "xs ! p \<noteq> ys ! p" "mask_bit (masks ! p) j" "j < r"
    and "\<And>l. l < k \<Longrightarrow> l \<noteq> p \<Longrightarrow> mask_bit (masks ! l) j \<Longrightarrow> xs ! l = ys ! l"
  shows "(xs @ check_bytes r xs) ! (k + j) \<noteq> (ys @ check_bytes r ys) ! (k + j)"
  using check_byte_differ [of xs ys p masks j] assms by (simp add: nth_append check_bytes_def masks_length)

lemma distance_three:
  assumes s: "shape k r" and len: "length xs = k" "length ys = k"
    and near: "\<And>l. l < k + r \<Longrightarrow> l \<noteq> p \<Longrightarrow> l \<noteq> q \<Longrightarrow> (xs @ check_bytes r xs) ! l = (ys @ check_bytes r ys) ! l"
  shows "xs = ys"
proof (rule ccontr)
  assume "xs \<noteq> ys"
  then obtain i where i: "i < k" "xs ! i \<noteq> ys ! i" using len by (metis nth_equalityI)
  have data: "xs ! l = ys ! l" if "l < k" "l \<noteq> p" "l \<noteq> q" for l
    using near [of l] that len by (simp add: nth_append)
  then have "i = p \<or> i = q" using i by blast
  then obtain q' where q': "\<And>l. l < k + r \<Longrightarrow> l \<noteq> i \<Longrightarrow> l \<noteq> q' \<Longrightarrow> (xs @ check_bytes r xs) ! l = (ys @ check_bytes r ys) ! l"
    using near by metis
  have k: "k \<le> 247" using s by (auto simp: shape_def)
  show False
  proof (cases "\<exists>i' < k. i' \<noteq> i \<and> xs ! i' \<noteq> ys ! i'")
    case True
    then obtain i' where i': "i' < k" "i' \<noteq> i" "xs ! i' \<noteq> ys ! i'" by blast
    have two: "xs ! l = ys ! l" if "l < k" "l \<noteq> i" "l \<noteq> i'" for l
      using q' [of l] q' [of i'] i' that len by (auto simp: nth_append)
    have here: "q' = i'" using q' [of i'] i' len by (auto simp: nth_append)
    have r: "8 \<le> r" using s i(1) i'(1,2) by (auto simp: shape_def)
    obtain j where j: "j < 8" "mask_bit (masks ! i) j \<noteq> mask_bit (masks ! i') j"
      using mask_separates [of i i'] i(1) i' k by (metis order_less_le_trans)
    have "(xs @ check_bytes r xs) ! (k + j) \<noteq> (ys @ check_bytes r ys) ! (k + j)"
    proof (cases "mask_bit (masks ! i) j")
      case True
      with j r two show ?thesis by (intro check_differs [OF len k i]) auto
    next
      case False
      with j r two show ?thesis by (intro check_differs [OF len k i'(1,3)]) auto
    qed
    then show False using q' [of "k + j"] i i' j r here by simp
  next
    case False
    obtain a b where ab: "a \<noteq> b" "a < r" "b < r" "mask_bit (masks ! i) a" "mask_bit (masks ! i) b"
      by (rule shape_two_bits [OF s i(1)])
    have "(xs @ check_bytes r xs) ! (k + j) \<noteq> (ys @ check_bytes r ys) ! (k + j)" if "j < r" "mask_bit (masks ! i) j" for j
      using False that by (intro check_differs [OF len k i]) auto
    then have "k + a = q'" "k + b = q'" using q' [of "k + a"] q' [of "k + b"] i ab by auto
    then show False using ab(1) by simp
  qed
qed

section \<open>Repair\<close>

lemma diffs_0: "length xs = length ys \<Longrightarrow> diffs xs ys = 0 \<Longrightarrow> xs = ys"
  by (induction xs ys rule: list_induct2) (auto simp: diffs_def split: if_splits)

lemma diffs_1: "length xs = length ys \<Longrightarrow> diffs xs ys \<le> 1 \<Longrightarrow> \<exists>p. \<forall>l < length xs. l \<noteq> p \<longrightarrow> xs ! l = ys ! l"
proof (induction xs ys rule: list_induct2)
  case (Cons x xs y ys)
  show ?case
  proof (cases "x = y")
    case True
    then have "diffs xs ys \<le> 1" using Cons.prems by (simp add: diffs_def)
    then obtain p where p: "\<forall>l < length xs. l \<noteq> p \<longrightarrow> xs ! l = ys ! l" using Cons.IH by blast
    show ?thesis using p True by (intro exI [of _ "Suc p"]) (auto simp: nth_Cons split: nat.split)
  next
    case False
    then have "diffs xs ys = 0" using Cons.prems by (simp add: diffs_def)
    then have "xs = ys" by (rule diffs_0 [OF Cons.hyps])
    then show ?thesis by (intro exI [of _ 0]) (auto simp: nth_Cons split: nat.split)
  qed
qed simp

lemma near_words_near:
  assumes "v \<in> set (near_words n word)" and "length word = n"
  shows "length v = n \<and> (\<exists>p. \<forall>l < n. l \<noteq> p \<longrightarrow> v ! l = word ! l)"
  using assms by (auto simp: near_words_def intro: nth_list_update_neq)

lemma near_words_member:
  assumes "length v = n" "length word = n" and "\<forall>l < n. l \<noteq> p \<longrightarrow> v ! l = word ! l"
  shows "v \<in> set (near_words n word)"
proof (cases "p < n")
  case True
  have "v = word[p := word_of_nat (unat (v ! p))]"
    using assms True by (intro nth_equalityI) (auto simp: nth_list_update)
  moreover have "unat (v ! p) < 256" using unsigned_less [of "v ! p", where ?'a = nat] by simp
  ultimately have "v \<in> (\<lambda>b. word[p := word_of_nat b]) ` {0..<256}" by (auto intro!: image_eqI [of _ _ "unat (v ! p)"])
  then have "v \<in> (\<Union>q \<in> {0..<n}. (\<lambda>b. word[q := word_of_nat b]) ` {0..<256})"
    using True by (intro UN_I [of p]) simp_all
  then show ?thesis by (simp add: near_words_def)
next
  case False
  then have "v = word" using assms by (intro nth_equalityI) auto
  then show ?thesis by (simp add: near_words_def)
qed

lemma xor_fec_corrects:
  assumes k: "shape k (n - k)" "k \<le> n"
  shows "fec_corrects 1 (xor_fec k n)"
  unfolding fec_corrects_def xor_fec_sizes xor_fec_codeword [OF k(2)]
proof (intro allI impI)
  fix data word :: "byte list"
  let ?c = "data @ check_bytes (n - k) data"
  assume len: "length data = k" "length word = n" and d: "diffs ?c word \<le> 1"
  have lc: "length ?c = n" using len k(2) by (simp add: check_bytes_def)
  obtain p where p: "\<forall>l < n. l \<noteq> p \<longrightarrow> ?c ! l = word ! l" using diffs_1 [OF _ d] lc len by auto
  have "?c \<in> set (near_words n word)" by (rule near_words_member [OF lc len(2) p])
  moreover have "checked_word k n ?c" using len by (simp add: checked_word_def)
  moreover have "v = ?c" if v: "v \<in> set (near_words n word)" "checked_word k n v" for v
  proof -
    obtain q where q: "length v = n" "\<forall>l < n. l \<noteq> q \<longrightarrow> v ! l = word ! l" using near_words_near [OF v(1) len(2)] by blast
    have e: "v = take k v @ check_bytes (n - k) (take k v)" using v(2) by (simp add: checked_word_def)
    have "take k v = data"
    proof (rule distance_three [OF k(1) _ len(1), of _ q p])
      show "length (take k v) = k" using q(1) k(2) by simp
      show "(take k v @ check_bytes (n - k) (take k v)) ! l = ?c ! l" if "l < k + (n - k)" "l \<noteq> q" "l \<noteq> p" for l
        unfolding e [symmetric] using q(2) p that k(2) by simp
    qed
    then show ?thesis using e by simp
  qed
  ultimately have "find (checked_word k n) (near_words n word) = Some ?c"
    by (metis find_Some_iff find_None_iff not_Some_eq nth_mem)
  moreover have "map snd (zip [0..<n] word) = word" using len(2) by simp
  ultimately have "fec_correct (xor_fec k n) (zip [0..<n] word) = Some (zip [0..<n] ?c)" by (simp add: xor_fec_def)
  then show "\<exists>shares. fec_correct (xor_fec k n) (zip [0..<n] word) = Some shares \<and> set shares = set (zip [0..<n] ?c)"
    by blast
qed

lemma xor_fec_ok: "shape k (n - k) \<Longrightarrow> k \<le> n \<Longrightarrow> fec_ok 1 (xor_fec k n)"
  using xor_fec_corrects by (auto simp: fec_ok_def fec_encodes_def xor_fec_def)

section \<open>The codecs\<close>

definition xor_codecs :: RSCodecs where
  "xor_codecs = \<lparr>RS1 = xor_fec 1 3, RS5 = xor_fec 5 15, RS16 = xor_fec 16 48,
     RS24 = xor_fec 24 72, RS32 = xor_fec 32 96, RS64 = xor_fec 64 192, RS128 = xor_fec 128 136\<rparr>"

lemma xor_codecs_NewRSCodecs: "NewRSCodecs (\<lambda>k n. Some (xor_fec k n)) = Some xor_codecs"
  by (simp add: NewRSCodecs_def xor_codecs_def)

lemma xor_codecs_ok:
  "fec_ok 1 (RS16 xor_codecs)" "fec_ok 1 (RS64 xor_codecs)" "fec_ok 1 (RS128 xor_codecs)"
  "rs128 (RS128 xor_codecs)"
  unfolding xor_codecs_def RSCodecs.select_convs rs128_def xor_fec_sizes
  by (rule xor_fec_ok; simp add: shape_def)+ simp

text \<open>One wrong byte in a word is at most one in each of its parts.\<close>

lemma diffs_update: "diffs xs (xs[i := x]) \<le> 1"
proof (induction xs arbitrary: i)
  case (Cons y ys)
  have "filter (\<lambda>(x, y). x \<noteq> y) (zip zs zs) = []" for zs :: "'a list" by (induction zs) simp_all
  then show ?case using Cons.IH by (cases i) (auto simp: diffs_def)
qed (simp add: diffs_def)

lemma slice_update: "\<exists>j. slice off n (xs[i := x]) = (slice off n xs)[j := x] \<or> slice off n (xs[i := x]) = slice off n xs"
proof (cases "off \<le> i")
  case True
  then show ?thesis by (auto simp: slice_def drop_update_swap take_update_swap)
next
  case False
  then show ?thesis by (simp add: slice_def drop_update_cancel)
qed

lemma diffs_slice_update: "diffs (slice off n xs) (slice off n (xs[i := x])) \<le> 1"
  using slice_update [of off n xs i x] diffs_update [of "slice off n xs" _ x] by auto

text \<open>The witness of the round trip of a payload block, with one byte of the encoding wrong.\<close>

theorem payload_block_roundtrip_witness:
  "\<exists>enc. EncodeRSPayloadBlock [1, 2, 3] xor_codecs = Inr enc \<and> enc[5 := enc ! 5 + 1] \<noteq> enc \<and>
     DecodeRSPayloadBlock (enc[5 := enc ! 5 + 1]) xor_codecs True False False False = Inr [1, 2, 3]"
proof -
  have "fec_encodes (RS128 xor_codecs)" using xor_codecs_ok(3) by (simp add: fec_ok_def)
  from EncodeRSPayloadBlock_codewords [OF this xor_codecs_ok(4), of "[1, 2, 3]"]
  obtain enc where enc: "EncodeRSPayloadBlock [1, 2, 3] xor_codecs = Inr enc"
    "enc = concat (map (codeword (RS128 xor_codecs)) (payload_chunks [1, 2, 3]))" by auto
  obtain c cs where c: "payload_chunks [1, 2, 3] = c # cs" by (cases "payload_chunks [1, 2, 3]") (simp_all add: payload_chunks_def)
  then have "length c = 128" using payload_chunks_128 [of c "[1, 2, 3]"] by simp
  then have l: "5 < length enc" using enc(2) c by (simp add: codeword_def)
  have "DecodeRSPayloadBlock (enc[5 := enc ! 5 + 1]) xor_codecs True False False False = Inr [1, 2, 3]"
    by (rule payload_block_roundtrip [OF xor_codecs_ok(3,4) _ enc(1)]) (use diffs_slice_update [of _ _ enc] in simp_all)
  moreover have "enc[5 := enc ! 5 + 1] ! 5 \<noteq> enc ! 5" using l by simp
  ultimately show ?thesis using enc(1) by metis
qed

end
