(* ===== verification/Write_Success.thy ===== *)
theory Write_Success
  imports Write_Volume Sample_Codec
begin

text \<open>
  Serialization succeeds when its surroundings keep their documented promises: a stream that
  holds the announced plaintext, entropy that fills a buffer, a destination that takes what it is
  given, a context that is not cancelled, hashes and ciphers that accept keys of their size.
  With the image of \<open>Write_Volume\<close> this gives what the file of an honest run contains.
\<close>

section \<open>The promises\<close>

definition honest_writer :: "byte list \<Rightarrow> env \<Rightarrow> bool" where
  "honest_writer data e \<longleftrightarrow>
     (\<forall>t. env_ctx e t = None) \<and> holds_stream data e \<and>
     (\<forall>t pos n. fst (env_entropy e t pos n) = int n) \<and>
     (\<forall>t bytes. env_write e t bytes = (int (length bytes), None))"

definition macs_ok :: "prims \<Rightarrow> bool" where
  "macs_ok P \<longleftrightarrow>
     (\<forall>key. length key = 32 \<longrightarrow>
        (\<exists>mac. prim_blake2b P key = Some mac \<and> (\<forall>m. length (mac m) = 64)) \<and>
        (\<forall>m. length (prim_hmac_sha3 P key m) = 64))"

definition keys_sized :: "normalWriteKeys \<Rightarrow> bool" where
  "keys_sized keys \<longleftrightarrow>
     length (wk_volumeKey keys) = 32 \<and> length (wk_metadataMAC keys) = 32 \<and>
     length (wk_payloadXChaCha20 keys) = 32 \<and> length (wk_payloadSerpent keys) = 32 \<and>
     length (wk_payloadMAC keys) = 32 \<and>
     (\<forall>role \<in> {CapsuleRolePrimary, CapsuleRoleBackup}.
        length (wrap_xChaCha20 (wk_capsuleWrap keys ! unat role)) = 32 \<and>
        length (wrap_serpent (wk_capsuleWrap keys ! unat role)) = 32 \<and>
        length (wrap_mac (wk_capsuleWrap keys ! unat role)) = 32 \<and>
        length (wk_replicaMAC keys ! unat role) = 32)"

text \<open>An operation that succeeds in a world.\<close>

definition works :: "world \<Rightarrow> (world, 'e, 'a) io \<Rightarrow> bool" where
  "works w m \<longleftrightarrow> (\<exists>v w'. m w = (Inr v, w'))"

lemma works_ret [simp]: "works w (io_ret v)"
  by (simp add: works_def io_ret_def)

lemma works_lift [simp]: "works w (io_lift r) \<longleftrightarrow> (\<exists>v. r = Inr v)"
  by (cases r) (auto simp: works_def io_lift_def)

lemma worksE:
  assumes "works w m"
  obtains v w' where "m w = (Inr v, w')"
  using assms by (auto simp: works_def)

lemma works_bind:
  assumes "works w m" and "\<And>v w1. m w = (Inr v, w1) \<Longrightarrow> works w1 (f v)"
  shows "works w (io_bind m f)"
  using assms by (auto simp: works_def io_bind_eq_Inr)

lemma works_poll_bind:
  assumes "\<And>t. env_ctx (w_env w) t = None" and "works (tick w) m"
  shows "works w (io_bind (poll mk) (\<lambda>_. m))"
  using assms by (intro works_bind) (auto simp: works_def poll_Inr)

lemma works_check: "c \<Longrightarrow> works w m \<Longrightarrow> works w (if \<not> c then r else m)"
  by simp

lemma works_else: "\<not> c \<Longrightarrow> works w m \<Longrightarrow> works w (if c then r else m)"
  by simp

lemma works_map_err: "works w m \<Longrightarrow> works w (io_map_err f m)"
  by (auto simp: works_def io_map_err_def)

section \<open>Streams\<close>

lemma entropy_exact_works:
  assumes "honest_writer data (w_env w)"
  shows "works w (stream_exact entropy_Read n got)"
proof (cases "n = 0")
  case True
  then show ?thesis
    using assms unfolding stream_exact.simps [of entropy_Read n got]
    by (intro works_poll_bind) (auto simp: works_def honest_writer_def poll_Inr io_bind_eq_Inr)
next
  case False
  obtain bytes err where e: "env_entropy (w_env w) (w_tick (tick w)) (w_entropy w) n = (int n, bytes, err)"
    using assms unfolding honest_writer_def by (metis prod.collapse)
  have rd: "entropy_Read n (tick w) =
      ((int n, bytes, err), (tick (tick w))\<lparr>w_entropy := w_entropy w + n\<rparr>)"
    using e by (simp add: entropy_Read_def tick_def)
  have "env_ctx (w_env w) t = None" for t using assms by (simp add: honest_writer_def)
  then show ?thesis
    unfolding works_def stream_exact.simps [of entropy_Read n got] io_bind_eq_Inr poll_Inr
    using False rd by (auto simp: io_bind_eq_Inr poll_Inr io_ret_def tick_def)
qed

lemma readNormalWriteEntropy_works:
  "honest_writer data (w_env w) \<Longrightarrow> works w (readNormalWriteEntropy n)"
  unfolding readNormalWriteEntropy_def readNormalWriteExact_def
  by (intro works_map_err entropy_exact_works)

lemma source_exact_works:
  assumes "honest_writer data (w_env w)" and "w_consumed w + n \<le> length data"
  shows "works w (stream_exact source_Read n got)"
  using assms
proof (induction n arbitrary: got w rule: less_induct)
  case (less n)
  have ctx: "env_ctx (w_env w) t = None" for t using less.prems(1) by (simp add: honest_writer_def)
  have holds: "holds_stream data (w_env w)" using less.prems(1) by (simp add: honest_writer_def)
  show ?case
  proof (cases "n = 0")
    case True
    then show ?thesis
      using ctx unfolding stream_exact.simps [of source_Read n got]
      by (intro works_poll_bind) (simp_all add: works_def)
  next
    case False
    obtain count buf err where e: "env_read (w_env w) (w_tick (tick w)) (w_consumed w) n = (count, buf, err)"
      by (metis prod_cases3)
    have inside: "w_consumed w < length data" using less.prems(2) False by simp
    have c: "0 < count" "nat count \<le> n" "err = None \<or> err = Some EOF \<and> w_consumed w + nat count = length data"
      using holds [unfolded holds_stream_def, rule_format, of n "w_consumed w" "w_tick (tick w)"] False inside
      unfolding e by auto
    define w1 where "w1 = (tick (tick w))\<lparr>w_consumed := w_consumed w + nat count\<rparr>"
    have rd: "source_Read n (tick w) = ((count, buf, err), w1)"
      using e by (simp add: source_Read_def w1_def tick_def)
    have w1: "w_env w1 = w_env w" "w_consumed w1 = w_consumed w + nat count" by (simp_all add: w1_def tick_def)
    note step = stream_exact.simps [of source_Read n got]
    show ?thesis
    proof (cases "nat count = n")
      case True
      then show ?thesis
        using rd False c ctx w1 unfolding works_def step io_bind_eq_Inr poll_Inr
        by (auto simp: io_bind_eq_Inr poll_Inr io_ret_def)
    next
      case part: False
      then have "err = None" using c less.prems(2) by auto
      moreover have "works w1 (stream_exact source_Read (n - nat count) (got @ fit (nat count) buf))"
        by (rule less.IH) (use w1 c False part less.prems in auto)
      ultimately show ?thesis
        using rd False c ctx part unfolding works_def step io_bind_eq_Inr poll_Inr by auto
    qed
  qed
qed

lemma readNormalWriteSourceExact_works:
  assumes "honest_writer data (w_env w)" and "w_consumed w + n \<le> length data"
  shows "works w (readNormalWriteSourceExact n)"
  using source_exact_works [OF assms, of "[]"]
  by (auto simp: works_def readNormalWriteSourceExact_def readNormalWriteExact_def)

lemma requireNormalWriteSourceEOF_works:
  assumes "honest_writer data (w_env w)" and "w_consumed w = length data"
  shows "works w requireNormalWriteSourceEOF"
proof -
  have ctx: "env_ctx (w_env w) t = None" for t using assms(1) by (simp add: honest_writer_def)
  obtain count buf err where e: "env_read (w_env w) (w_tick (tick w)) (w_consumed w) 1 = (count, buf, err)"
    by (metis prod_cases3)
  have "holds_stream data (w_env w)" using assms(1) by (simp add: honest_writer_def)
  from this [unfolded holds_stream_def, rule_format, of 1 "w_consumed w" "w_tick (tick w)"]
  have c: "count = 0" "err = Some EOF" unfolding e using assms(2) by auto
  show ?thesis
    unfolding works_def requireNormalWriteSourceEOF_def io_bind_eq_Inr poll_Inr
    using e c ctx by (auto simp: source_Read_def tick_def)
qed

section \<open>Writes\<close>

lemma exact_write_works:
  assumes "honest_writer data (w_env w)" and "unat off + length bytes < 2 ^ 63"
  shows "works w (exact_write off bytes)"
proof -
  have ctx: "env_ctx (w_env w) t = None" for t using assms(1) by (simp add: honest_writer_def)
  have "destination_Write bytes (tick w) =
      ((int (length bytes), None), (tick (tick w))\<lparr>w_written := w_written w @ bytes\<rparr>)"
    using assms(1) by (simp add: destination_Write_def honest_writer_def tick_def)
  moreover have u: "unat (word_of_nat (length bytes) :: u64) = length bytes"
    using assms(2) by (intro unat_word_small) simp
  moreover have "checkedAdd64 off (word_of_nat (length bytes)) = Some (word_of_nat (unat off + length bytes))"
    unfolding add64.Some_iff u using assms(2) by (intro unat_word_small) simp
  ultimately show ?thesis
    unfolding works_def exact_write_def io_bind_eq_Inr poll_Inr
    using ctx by (auto simp: io_bind_eq_Inr poll_Inr io_ret_def tick_def)
qed

lemma normalWriteOffsetMatches_nat:
  "normalWriteOffsetMatches off (int k) \<longleftrightarrow> unat off = k \<and> k < 2 ^ 63"
  (is "?l \<longleftrightarrow> ?r")
proof -
  have "?l \<longleftrightarrow> SafeUint64ToInt64 off = Some (int k)"
    unfolding normalWriteOffsetMatches_def by (cases "SafeUint64ToInt64 off") simp_all
  then show ?thesis unfolding Safe_Some_nat by (simp only: of_nat_eq_iff) blast
qed

section \<open>Keys that work\<close>

lemma suiteMACTag_works:
  assumes "macs_ok P" and "length key = 32" and "isSupportedSuite suite"
  obtains tag where "suiteMACTag P suite key parts = Inr tag"
proof -
  obtain mac where "prim_blake2b P key = Some mac" "\<And>m. length (mac m) = 64"
    "\<And>m. length (prim_hmac_sha3 P key m) = 64"
    using assms unfolding macs_ok_def by blast
  then have "\<exists>tag. suiteMACTag P suite key parts = Inr tag"
    using assms(2,3) by (simp add: suiteMACTag_def NewMAC_def Let_def)
  then show thesis using that by blast
qed

lemma suite_wrap_works:
  assumes "ciphers_ok P" and "isSupportedSuite suite" and "length dst = length src"
    and "length k = 32" "length n = 24" "length k2 = 32" "length iv = 16"
  obtains ct where "suite_wrap P suite dst src k n k2 iv = Inr ct"
proof (cases "suite = SuiteStandard")
  case True
  obtain ct where "PCV3WrapStandard1 P dst src k n = Inr ct"
    by (rule PCV3WrapStandard1_total [OF assms(1,3,4,5)])
  then show thesis using that True by (simp add: suite_wrap_def)
next
  case False
  then have "suite = SuiteParanoid" using assms(2) by (simp add: isSupportedSuite_def)
  moreover have "validPCV3ParanoidShape dst src k n k2 iv"
    using assms by (simp add: validPCV3ParanoidShape_def)
  then obtain ct where "PCV3WrapParanoid1 P dst src k n k2 iv = Inr ct"
    using PCV3WrapParanoid1_total [OF assms(1)] by blast
  ultimately show thesis using that False by (simp add: suite_wrap_def)
qed

section \<open>Records\<close>

lemma encode_words_works:
  assumes "\<And>t. env_ctx (w_env w) t = None"
    and "fec_encodes (RS128 codecs)" and "codecs_sized codecs"
    and "\<And>b. b \<in> set blocks \<Longrightarrow> b * 128 + 128 \<le> length data"
  shows "works w (encode_words codecs stage data blocks)"
  using assms(1,4)
proof (induction blocks arbitrary: w)
  case (Cons b blocks)
  have "length (slice (b * 128) 128 data) = 128" using Cons.prems(2) [of b] by simp
  then have "EncodeInto (replicate 136 0) (RS128 codecs) (slice (b * 128) 128 data) =
      Inr (codeword (RS128 codecs) (slice (b * 128) 128 data))"
    using assms(2,3) by (intro EncodeInto_codeword) (simp_all add: codecs_sized_def)
  then have lift: "io_lift (map_err f (EncodeInto (replicate 136 0) (RS128 codecs) (slice (b * 128) 128 data))) =
      io_ret (codeword (RS128 codecs) (slice (b * 128) 128 data))" for f :: "_ \<Rightarrow> pcv3_error"
    by (simp add: io_lift_def io_ret_def)
  have "works (tick w) (encode_words codecs stage data blocks)"
    by (rule Cons.IH) (use Cons.prems in \<open>auto simp: tick_def\<close>)
  then have "works (tick w) (io_bind (encode_words codecs stage data blocks)
      (\<lambda>words. io_ret (codeword (RS128 codecs) (slice (b * 128) 128 data) @ words)))"
    by (rule works_bind) simp
  then show ?case
    unfolding encode_words.simps lift using Cons.prems(1)
    by (intro works_poll_bind) (simp_all add: io_bind_def io_ret_def)
qed simp

lemma write_batches_works:
  assumes "honest_writer data' (w_env w)"
    and "fec_encodes (RS128 codecs)" and "codecs_sized codecs"
    and "\<And>batch. batch \<in> set batches \<Longrightarrow> length batch \<le> 256"
    and "\<And>b. b \<in> set (concat batches) \<Longrightarrow> b * 128 + 128 \<le> length data"
    and "unat off + length (concat batches) * 136 < 2 ^ 63"
  shows "works w (write_batches codecs stage data batches off)"
  using assms(1,4,5,6)
proof (induction batches arbitrary: off w)
  case (Cons batch batches)
  have ctx: "env_ctx (w_env w) t = None" for t using Cons.prems(1) by (simp add: honest_writer_def)
  show ?case unfolding write_batches.simps
  proof (intro works_bind)
    show "works w (encode_words codecs stage data batch)"
      using encode_words_works [OF ctx assms(2,3)] Cons.prems(3) by auto
    fix words w1 assume e: "encode_words codecs stage data batch w = (Inr words, w1)"
    have E: "length words = length batch * 136" "writes w 0 [] w1"
      using encode_words_Inr [OF e assms(2,3)] Cons.prems(3) by auto
    then have h1: "honest_writer data' (w_env w1)" using Cons.prems(1) by (simp add: writes_env)
    then show "works w1 (exact_write off words)"
      by (rule exact_write_works) (use E Cons.prems(4) in simp)
    fix off1 w2 assume x: "exact_write off words w1 = (Inr off1, w2)"
    have "length words < 2 ^ 63" using E(1) Cons.prems(2) [of batch] by simp
    note X = exact_write_Inr [OF x this]
    have "honest_writer data' (w_env w2)" using writes_env [OF X [THEN conjunct1]] h1 by simp
    then show "works w2 (write_batches codecs stage data batches off1)"
      by (rule Cons.IH) (use Cons.prems X E in auto)
  qed
qed simp

lemma write_body_works:
  assumes h: "honest_writer data (w_env w)"
    and ok: "fec_encodes (RS128 codecs)" "codecs_sized codecs"
    and rs: "geo_payloadBodyRS g = rs" and e: "exp_encodedBodyLength e = body_len rs n"
    and n: "length semantic = n + 64"
    and room: "rs \<Longrightarrow> body_len rs n div 136 * 128 \<le> length (semantic @ replicate z 0)"
    and off: "unat off + body_len rs n < 2 ^ 63"
  shows "works w (write_body codecs g stage e (semantic @ replicate z 0) (length semantic) off)"
proof (cases rs)
  case True
  let ?k = "body_len rs n div 136" and ?data = "semantic @ replicate z (0 :: byte)"
  note b = body_len_blocks [OF True, of n]
  have d: "decodedRecordBodyLength e True = Some (?k * 128)"
    using e b by (simp add: decodedRecordBodyLength_def)
  have inside: "x * 128 + 128 \<le> length ?data" if "x \<in> set (concat (block_batches ?k))" for x
  proof -
    have "x < ?k" using that unfolding concat_block_batches by simp
    then have "x * 128 + 128 \<le> ?k * 128" by (rule block_inside)
    then show ?thesis using room [OF True] by linarith
  qed
  have "?k * 136 = body_len rs n" using b(1) by auto
  then have "unat off + length (concat (block_batches ?k)) * 136 < 2 ^ 63"
    unfolding concat_block_batches using off by simp
  from write_batches_works [OF h ok block_batches_small inside this]
  have "works w (write_batches codecs stage ?data (block_batches ?k) off)" .
  moreover have "?k * 128 \<le> length ?data" using room [OF True] .
  ultimately show ?thesis using True rs d by (simp add: write_body_def)
next
  case False
  then show ?thesis
    using exact_write_works [OF h, of off semantic] rs off n by (simp add: write_body_def body_len_def)
qed

text \<open>Where the writer stands before record \<open>i\<close>.\<close>

definition stands :: "byte list \<Rightarrow> logicalCore \<Rightarrow> bool \<Rightarrow> nat \<Rightarrow> u64 \<Rightarrow> world \<Rightarrow> bool" where
  "stands data core rs i off w \<longleftrightarrow>
     honest_writer data (w_env w) \<and>
     unat off = front_len (unat (core_commentLength core)) + rec_off rs (unat (core_plaintextLength core)) i \<and>
     w_consumed w = min (unat (core_plaintextLength core)) (i * 1048576)"

lemma rec_plain_step: "min n (i * 1048576) + rec_plain n i = min n (Suc i * 1048576)"
  by (auto simp: rec_plain_def min_def)

lemma encrypt_record_works:
  assumes "ciphers_ok P" and "isSupportedSuite (core_suite core)" and "wf_core core" and "keys_sized keys"
  obtains ct where "encrypt_record P core keys (record_at core rs i) plain = Inr ct"
proof -
  have "length (exp_nonce (record_at core rs i)) = 24" "length (exp_serpentIV (record_at core rs i)) = 16"
    using assms(3) by (simp_all add: record_at_def Let_def wf_core_def)
  moreover have "length (wk_payloadXChaCha20 keys) = 32" "length (wk_payloadSerpent keys) = 32"
    using assms(4) by (simp_all add: keys_sized_def)
  moreover have "length (replicate (length plain) (0 :: byte)) = length plain" by simp
  ultimately obtain ct where "suite_wrap P (core_suite core) (replicate (length plain) 0) plain
      (wk_payloadXChaCha20 keys) (exp_nonce (record_at core rs i)) (wk_payloadSerpent keys)
      (exp_serpentIV (record_at core rs i)) = Inr ct"
    using suite_wrap_works [OF assms(1,2)] by metis
  then show thesis using that by (simp add: encrypt_record_def)
qed

text \<open>The ciphertext of a record, and its tag and body: the two halves of a round of the loop.\<close>

definition record_ciphertext ::
  "prims \<Rightarrow> logicalCore \<Rightarrow> normalWriteKeys \<Rightarrow> recordExpectation \<Rightarrow> nat \<Rightarrow> (world, pcv3_error, byte list) io" where
  "record_ciphertext P core keys e m =
     (if exp_final e then io_ret (replicate m 0)
      else io_bind (readNormalWriteSourceExact m) (\<lambda>plaintext.
             io_lift (encrypt_record P core keys e plaintext)))"

definition record_body ::
  "prims \<Rightarrow> logicalCore \<Rightarrow> Geometry \<Rightarrow> normalWriteKeys \<Rightarrow> RSCodecs \<Rightarrow> nat \<Rightarrow> Stage \<Rightarrow>
   recordExpectation \<Rightarrow> nat \<Rightarrow> u64 \<Rightarrow> byte list \<Rightarrow> (world, pcv3_error, u64 \<times> bool) io" where
  "record_body P core g keys codecs len stage e m off ct =
     io_bind (io_lift (map_err (\<lambda>_. newNormalWriteFailure stage NormalWriteCrypto)
                (recordTag P (core_suite core) (wk_payloadMAC keys) (coreCommitment P core)
                   (exp_descriptor e) ct))) (\<lambda>tag.
     io_bind (write_body codecs g stage e (copy_at m tag (copy_at 0 ct (replicate len 0))) (m + length tag) off)
       (\<lambda>offset. io_ret (offset, exp_final e)))"

lemma record_ciphertext_works:
  assumes "honest_writer data (w_env w)" and "w_consumed w + m \<le> length data"
    and crypt: "ciphers_ok P" "isSupportedSuite (core_suite core)" "wf_core core" "keys_sized keys"
  shows "\<exists>ct w'. record_ciphertext P core keys (record_at core rs i) m w = (Inr ct, w') \<and>
    length ct = m \<and> w_env w' = w_env w"
proof (cases "exp_final (record_at core rs i)")
  case False
  obtain plain w' where r: "readNormalWriteSourceExact m w = (Inr plain, w')"
    using readNormalWriteSourceExact_works [OF assms(1,2)] by (auto simp: works_def)
  note R = readNormalWriteSourceExact_Inr [OF r]
  obtain ct where ct: "encrypt_record P core keys (record_at core rs i) plain = Inr ct"
    by (rule encrypt_record_works [OF crypt])
  then have "suite_wrap P (core_suite core) (replicate (length plain) 0) plain
      (wk_payloadXChaCha20 keys) (exp_nonce (record_at core rs i)) (wk_payloadSerpent keys)
      (exp_serpentIV (record_at core rs i)) = Inr ct"
    unfolding encrypt_record_def map_err_def by (simp split: sum.splits)
  from suite_pair.wrap_length [OF this] have "length ct = m" using R by simp
  then show ?thesis
    using r ct R unfolding record_ciphertext_def if_not_P [OF False] by (simp add: io_bind_def io_lift_def writes_def)
qed (simp add: record_ciphertext_def io_ret_def)

lemma record_body_works:
  fixes core :: logicalCore
  defines "n \<equiv> unat (core_plaintextLength core)"
  assumes h: "honest_writer data (w_env w)" and ct: "length ct = rec_plain n i"
    and ok: "fec_encodes (RS128 codecs)" "codecs_sized codecs"
    and mac: "macs_ok P" "isSupportedSuite (core_suite core)" "keys_sized keys"
    and rs: "geo_payloadBodyRS g = rs"
    and off: "unat off + body_len rs (rec_plain n i) < 2 ^ 63"
    and len: "len = (if rs then body_len rs (rec_plain n 0) div 136 * 128 else body_len rs (rec_plain n 0))"
  shows "works w (record_body P core g keys codecs len stage (record_at core rs i) (rec_plain n i) off ct)"
proof -
  let ?m = "rec_plain n i"
  have "length (wk_payloadMAC keys) = 32" using mac(3) by (simp add: keys_sized_def)
  from suiteMACTag_works [OF mac(1) this mac(2)] obtain tag where
    "suiteMACTag P (core_suite core) (wk_payloadMAC keys)
       [recordMACDomain, coreCommitment P core, exp_descriptor (record_at core rs i), ct] = Inr tag" by blast
  then have tag: "recordTag P (core_suite core) (wk_payloadMAC keys) (coreCommitment P core)
      (exp_descriptor (record_at core rs i)) ct = Inr tag"
    using mac(2) \<open>length (wk_payloadMAC keys) = 32\<close> by (simp add: recordTag_def)
  have tl: "length tag = 64" by (rule recordTag_length [OF tag])
  have room: "?m + 64 \<le> len"
    using body_len_blocks(2) [of rs "rec_plain n 0"] rec_plain_first [of n i] len by (auto simp: body_len_def)
  have sem: "copy_at ?m tag (copy_at 0 ct (replicate len 0)) = (ct @ tag) @ replicate (len - (?m + 64)) 0"
    using semantic_buffer [OF ct tl room] by simp
  have "body_len rs ?m div 136 * 128 \<le> len" if rs
    using len that body_len_mono [OF rec_plain_first [of n i], of rs] by (simp add: div_le_mono)
  then have "works w (write_body codecs g stage (record_at core rs i) ((ct @ tag) @ replicate (len - (?m + 64)) 0)
      (length (ct @ tag)) off)"
    using ct tl room off by (intro write_body_works [OF h ok rs]) (simp_all add: n_def)
  then have "works w (write_body codecs g stage (record_at core rs i)
      (copy_at ?m tag (copy_at 0 ct (replicate len 0))) (?m + length tag) off)"
    unfolding sem using ct by simp
  then show ?thesis unfolding record_body_def tag by (intro works_bind) (auto simp: io_lift_def works_def)
qed

lemma write_record_works:
  fixes core :: logicalCore
  defines "n \<equiv> unat (core_plaintextLength core)"
  assumes lay: "canonical_layout core rs g" and i: "i \<le> rec_count n" and wf: "wf_core core"
    and ok: "fec_encodes (RS16 codecs)" "fec_encodes (RS128 codecs)" "codecs_sized codecs"
    and prims: "ciphers_ok P" "macs_ok P" and keys: "keys_sized keys"
    and buffers: "record_buffers_for core g = Inr buffers"
    and data: "length data = n" and st: "stands data core rs i off w"
  shows "works w (write_record P core g keys codecs buffers (word_of_nat i) off)"
proof -
  let ?e = "record_at core rs i" and ?m = "rec_plain n i"
  let ?start = "front_len (unat (core_commentLength core)) + rec_off rs n i"
  have h: "honest_writer data (w_env w)" and u: "unat off = ?start" and cons: "w_consumed w = min n (i * 1048576)"
    using st by (simp_all add: stands_def n_def)
  have ctx: "env_ctx (w_env w) t = None" for t using h by (simp add: honest_writer_def)
  have rs: "geo_payloadBodyRS g = rs" using lay by (auto simp: canonical_layout_def)
  have suite: "isSupportedSuite (core_suite core)"
    using lay by (auto simp: canonical_layout_def validLogicalCore_def split: if_splits)
  have exp: "expectedRecord core g (word_of_nat i) = Some ?e"
    using expectedRecord_canonical [OF lay] i by (simp add: n_def)
  have B: "buf_plaintext buffers = rec_plain n 0"
    "buf_semantic buffers = (if rs then body_len rs (rec_plain n 0) div 136 * 128 else body_len rs (rec_plain n 0))"
    using record_buffers_canonical [OF lay] buffers by (auto simp: n_def)
  have inside: "?start + rec_len rs n i < 2 ^ 63"
  proof -
    have "rec_off rs n i + rec_len rs n i \<le> payload_len rs n" by (rule rec_off_inside [OF i])
    then show ?thesis
      using canonical_layout_bounds(3) [OF lay, of "?start + rec_len rs n i"] by (simp add: n_def)
  qed
  then have len: "?start + 48 + body_len rs ?m < 2 ^ 63" by (simp add: rec_len_def)
  have fin: "exp_final ?e \<longleftrightarrow> i = rec_count n" by (simp add: n_def record_at_def Let_def)
  define stage where "stage = (if exp_final ?e then StageFinalRecord else StageRecordAuth)"
  have dlen: "length (exp_descriptor ?e) = fec_required (RS16 codecs)" using ok(3) by (simp add: codecs_sized_def)
  then have desc: "EncodeInto (replicate 48 0) (RS16 codecs) (exp_descriptor ?e) =
      Inr (codeword (RS16 codecs) (exp_descriptor ?e))"
    using ok(1,3) by (intro EncodeInto_codeword) (simp_all add: codecs_sized_def)
  have dl: "length (codeword (RS16 codecs) (exp_descriptor ?e)) = 48"
    using dlen ok(3) by (subst length_codeword) (simp_all add: codecs_sized_def)
  have m1: "normalWriteOffsetMatches off (exp_descriptorOffset ?e)"
    unfolding record_at_sel normalWriteOffsetMatches_nat using u inside by (simp add: n_def)
  have m2: "normalWriteOffsetMatches off1 (exp_bodyOffset ?e)" if "unat off1 = ?start + 48" for off1
    unfolding record_at_sel normalWriteOffsetMatches_nat using that len by (simp add: n_def)
  have mle: "?m \<le> buf_plaintext buffers" unfolding B by (rule rec_plain_first)
  have il: "normalWriteLengthToInt (exp_ciphertextLength ?e) = Some ?m"
    by (simp add: normalWriteLengthToInt_plain n_def)
  have lift: "io_lift (map_err f (EncodeInto (replicate 48 0) (RS16 codecs) (exp_descriptor ?e))) =
      io_ret (codeword (RS16 codecs) (exp_descriptor ?e))" for f :: "_ \<Rightarrow> pcv3_error"
    unfolding desc by (simp add: io_lift_def io_ret_def)
  have keyl: "length (wk_payloadXChaCha20 keys) = 32" "length (wk_payloadSerpent keys) = 32"
    "length (wk_payloadMAC keys) = 32" using keys by (simp_all add: keys_sized_def)
  have ivl: "length (exp_nonce ?e) = 24" "length (exp_serpentIV ?e) = 16"
    using wf by (simp_all add: record_at_def Let_def wf_core_def)
  have tick: "stands data core rs i off (tick w)" "honest_writer data (w_env (tick w))"
    using st h by (simp_all add: stands_def tick_def)
  show ?thesis
    unfolding write_record_def exp option.case Let_def stage_def [symmetric] il
      record_ciphertext_def [symmetric] record_body_def [symmetric]
  proof (rule works_poll_bind [OF ctx], rule works_bind, goal_cases)
    case 1
    have "w_consumed (tick w) = length data" if "i = rec_count n"
    proof -
      have "rec_plain n i = 0" using that by (simp add: rec_plain_final)
      then have "n \<le> i * 1048576" by (simp add: rec_plain_def)
      then show ?thesis using cons data by (simp add: tick_def)
    qed
    then show ?case using requireNormalWriteSourceEOF_works [OF tick(2)] fin by simp
  next
    case (2 u1 w1)
    have W1: "writes w 0 [] w1"
      using 2 requireNormalWriteSourceEOF_Inr [of "tick w" u1 w1] by (auto simp: writes_def tick_def split: if_splits)
    have h1: "honest_writer data (w_env w1)" using writes_env [OF W1] h by simp
    show ?case unfolding lift
    proof (rule works_check [OF m1], rule works_bind [OF works_ret], goal_cases)
      case (1 d w1')
      then have d: "d = codeword (RS16 codecs) (exp_descriptor ?e)" "w1' = w1" by (simp_all add: io_ret_def)
      show ?case unfolding d
      proof (rule works_bind)
        show "works w1 (exact_write off (codeword (RS16 codecs) (exp_descriptor ?e)))"
          by (rule exact_write_works [OF h1]) (use dl u len in simp)
        fix off1 w2 assume x: "exact_write off (codeword (RS16 codecs) (exp_descriptor ?e)) w1 = (Inr off1, w2)"
        have "length (codeword (RS16 codecs) (exp_descriptor ?e)) < 2 ^ 63" using dl by simp
        note X = exact_write_Inr [OF x this]
        have W2: "writes w 0 (codeword (RS16 codecs) (exp_descriptor ?e)) w2"
          using writes_trans [OF W1 X [THEN conjunct1]] by simp
        have h2: "honest_writer data (w_env w2)" using writes_env [OF W2] h by simp
        have c2: "w_consumed w2 = w_consumed w" using W2 by (simp add: writes_def)
        have u1: "unat off1 = ?start + 48" using X dl u by simp
        obtain ct w3 where ct: "record_ciphertext P core keys ?e ?m w2 = (Inr ct, w3)"
          and c: "length ct = ?m" "w_env w3 = w_env w2"
          using record_ciphertext_works [OF h2 _ prims(1) suite wf keys, of ?m rs i]
            c2 cons data rec_plain_step [of n i] by auto
        have h3: "honest_writer data (w_env w3)" using h2 c(2) by simp
        have "works w3 (record_body P core g keys codecs (buf_semantic buffers) stage ?e ?m off1 ct)"
          unfolding n_def
          by (rule record_body_works [OF h3 _ ok(2,3) prims(2) suite keys rs]) (use c u1 len B in \<open>simp_all add: n_def\<close>)
        with ct have "works w2 (io_bind (record_ciphertext P core keys ?e ?m)
            (record_body P core g keys codecs (buf_semantic buffers) stage ?e ?m off1))"
          by (intro works_bind) (simp_all add: works_def)
        moreover have "\<not> ?m > buf_plaintext buffers" using mle by simp
        ultimately show "works w2 (if \<not> normalWriteOffsetMatches off1 (exp_bodyOffset ?e)
            then io_fail (NormalWriteFailure stage NormalWriteGeometry)
            else if ?m > buf_plaintext buffers then io_fail (NormalWriteFailure stage NormalWriteGeometry)
            else io_bind (record_ciphertext P core keys ?e ?m)
              (record_body P core g keys codecs (buf_semantic buffers) stage ?e ?m off1))"
          using m2 [OF u1] by simp
      qed
    qed
  qed
qed

lemma write_record_stands:
  fixes core :: logicalCore
  defines "n \<equiv> unat (core_plaintextLength core)"
  assumes lay: "canonical_layout core rs g" and i: "i \<le> rec_count n"
    and ok: "fec_encodes (RS16 codecs)" "fec_encodes (RS128 codecs)" "codecs_sized codecs"
    and buffers: "record_buffers_for core g = Inr buffers"
    and st: "stands data core rs i off w"
    and run: "write_record P core g keys codecs buffers (word_of_nat i) off w = (Inr (off', final), w')"
  shows "stands data core rs (Suc i) off' w' \<and> final = (i = rec_count n)"
proof -
  from write_record_Inr [OF lay _ ok buffers run] i obtain plain bytes where
    W: "writes w (length plain) bytes w'" "length bytes = rec_len rs n i" "unat off' = unat off + length bytes"
      "final = (i = rec_count n)" "record_image P core rs keys codecs i plain bytes"
    unfolding n_def by blast
  have "length plain = rec_plain n i" using W(5) by (auto simp: record_image_def Let_def n_def)
  then have "w_consumed w' = min n (Suc i * 1048576)" "w_env w' = w_env w"
    using W(1) st rec_plain_step [of n i] by (simp_all add: writes_def stands_def n_def)
  then show ?thesis using W st by (simp add: stands_def n_def)
qed

lemma write_record_loop_works:
  fixes core :: logicalCore
  defines "n \<equiv> unat (core_plaintextLength core)"
  assumes lay: "canonical_layout core rs g" and wf: "wf_core core"
    and ok: "fec_encodes (RS16 codecs)" "fec_encodes (RS128 codecs)" "codecs_sized codecs"
    and prims: "ciphers_ok P" "macs_ok P" and keys: "keys_sized keys"
    and buffers: "record_buffers_for core g = Inr buffers" and data: "length data = n"
    and "i + m = rec_count n" and "stands data core rs i off w"
  shows "\<exists>off' w'. write_record_loop P core g keys codecs buffers (Suc m + k) (word_of_nat i) off w =
      (Some (Inr off'), w') \<and> stands data core rs (Suc (rec_count n)) off' w'"
  using assms(12,13)
proof (induction m arbitrary: i off w)
  case 0
  have i: "i \<le> rec_count n" using 0 by simp
  have "works w (write_record P core g keys codecs buffers (word_of_nat i) off)"
    using write_record_works [OF lay _ wf ok prims keys buffers] i data 0(2) by (simp add: n_def)
  then obtain off1 final w1 where st: "write_record P core g keys codecs buffers (word_of_nat i) off w = (Inr (off1, final), w1)"
    by (auto simp: works_def)
  from write_record_stands [OF lay i [unfolded n_def] ok buffers 0(2) st] 0(1) show ?case
    using st by (auto simp: n_def)
next
  case (Suc m)
  have i: "i \<le> rec_count n" "i \<noteq> rec_count n" using Suc.prems by simp_all
  have "works w (write_record P core g keys codecs buffers (word_of_nat i) off)"
    using write_record_works [OF lay _ wf ok prims keys buffers] i data Suc.prems(2) by (simp add: n_def)
  then obtain off1 final w1 where st: "write_record P core g keys codecs buffers (word_of_nat i) off w = (Inr (off1, final), w1)"
    by (auto simp: works_def)
  have S: "stands data core rs (Suc i) off1 w1" "\<not> final"
    using write_record_stands [OF lay i(1) [unfolded n_def] ok buffers Suc.prems(2) st] i(2) by (simp_all add: n_def)
  from Suc.IH [OF _ S(1)] Suc.prems obtain off' w' where
    "write_record_loop P core g keys codecs buffers (Suc m + k) (word_of_nat (Suc i)) off1 w1 = (Some (Inr off'), w')"
    "stands data core rs (Suc (rec_count n)) off' w'" by auto
  then show ?case using st S(2) by (simp add: add.commute)
qed

section \<open>The volume\<close>

lemma encodeNormalWriteCapsule_works:
  assumes "macs_ok P" "ciphers_ok P" "keys_sized keys" and "fec_encodes (RS64 codecs)" "codecs_sized codecs"
    and c: "candidate_for metadata core role c \<and> unsealed c" and wf: "wf_candidate c"
  shows "\<exists>r. encodeNormalWriteCapsule P c keys codecs = Inr r"
proof -
  have role: "cand_role c \<in> {CapsuleRolePrimary, CapsuleRoleBackup}" and suite: "isSupportedSuite (core_suite (cand_core c))"
    using c by (auto simp: candidate_for_def validAuthCandidate_def validLogicalCore_def isSupportedCapsuleRole_def
        split: if_splits)
  let ?wrap = "wk_capsuleWrap keys ! unat (cand_role c)" and ?suite = "core_suite (cand_core c)"
  have keyl: "length (wrap_xChaCha20 ?wrap) = 32" "length (wrap_serpent ?wrap) = 32" "length (wrap_mac ?wrap) = 32"
    "length (wk_replicaMAC keys ! unat (cand_role c)) = 32" "length (wk_volumeKey keys) = 32"
    using assms(3) role unfolding keys_sized_def by blast+
  have wfl: "length (cand_wrappedVolumeKey c) = length (wk_volumeKey keys)" "length (cand_wrapNonce c) = 24"
    "length (cand_wrapSerpentIV c) = 16"
    using wf keyl(5) by (simp_all add: wf_candidate_def)
  obtain ct where ct: "suite_wrap P ?suite (cand_wrappedVolumeKey c) (wk_volumeKey keys)
      (wrap_xChaCha20 ?wrap) (cand_wrapNonce c) (wrap_serpent ?wrap) (cand_wrapSerpentIV c) = Inr ct"
    using suite_wrap_works [OF assms(2) suite wfl(1) keyl(1) wfl(2) keyl(2) wfl(3)] by blast
  obtain rt where rt: "suiteMACTag P ?suite (wk_replicaMAC keys ! unat (cand_role c))
      [replicaAuthMessage (c\<lparr>cand_wrappedVolumeKey := ct\<rparr>)] = Inr rt"
    using suiteMACTag_works [OF assms(1) keyl(4) suite] by blast
  obtain wt where wt: "suiteMACTag P ?suite (wrap_mac ?wrap)
      [wrapAuthMessage (c\<lparr>cand_wrappedVolumeKey := ct, cand_replicaTag := rt\<rparr>)] = Inr wt"
    using suiteMACTag_works [OF assms(1) keyl(3) suite] by blast
  let ?c = "c\<lparr>cand_wrappedVolumeKey := ct, cand_replicaTag := rt, cand_wrapTag := wt\<rparr>"
  have "wf_candidate ?c"
    using wf suite_pair.wrap_length [OF ct] keyl(5) rt wt by (simp add: wf_candidate_def suiteMACTag_Inr)
  then have len: "length (capsuleBytes ?c) = 320" by (rule capsule_codec.enc_length)
  have "emap (\<lambda>lane. EncodeInto (replicate 192 0) (RS64 codecs)
          (slice (lane * 64) 64 (capsuleBytes ?c))) [0..<5] =
      Inr (map (\<lambda>lane. codeword (RS64 codecs) (slice (lane * 64) 64 (capsuleBytes ?c))) [0..<5])"
    using assms(4,5) len
    by (intro emap_all_Inr EncodeInto_codeword) (auto simp: codecs_sized_def simp del: upt_rec_numeral)
  note lanes = this [unfolded capsuleBytes_def]
  have "isSupportedCapsuleRole (cand_role c)" using role by (auto simp: isSupportedCapsuleRole_def)
  then show ?thesis
    unfolding encodeNormalWriteCapsule_def Let_def suite_wrap_def [symmetric] ct rt wt map_err_simps ebind_simps
    using lanes by (simp del: emap.simps upt_rec_numeral)
qed

lemma encodeNormalWriteMetadata_works:
  assumes "macs_ok P" "keys_sized keys" "isSupportedSuite (core_suite core)"
    and "fec_encodes (RS128 codecs)" "codecs_sized codecs"
    and k: "unat (geo_metadataBlocks g) = meta_blocks (length comment)"
    and c: "length comment \<le> 99999"
  shows "\<exists>r. encodeNormalWriteMetadata P comment core g (wk_metadataMAC keys) codecs = Inr r"
proof -
  let ?k = "meta_blocks (length comment)"
  have room: "80 + length comment \<le> ?k * 128" by (rule meta_blocks_room)
  have "length (wk_metadataMAC keys) = 32" using assms(2) by (simp add: keys_sized_def)
  then obtain tag where tag: "metadataTag P (core_suite core) (wk_metadataMAC keys) core (meta_header comment) comment = Inr tag"
    using suiteMACTag_works [OF assms(1) _ assms(3)] unfolding metadataTag_def by blast
  have len: "length (meta_plain comment tag) = ?k * fec_required (RS128 codecs)"
    using length_meta_plain [of tag comment] metadataTag_length [OF tag] assms(5)
    by (simp add: codecs_sized_def)
  have "emap (\<lambda>block. EncodeInto (replicate 136 0) (RS128 codecs)
      (slice (block * 128) 128 (meta_plain comment tag))) [0..<?k] =
    Inr (map (\<lambda>i. codeword (RS128 codecs) (slice (i * 128) 128 (meta_plain comment tag))) [0..<?k])"
    using emap_encode_blocks [OF assms(4) len, of "replicate 136 0"] assms(5) by (simp add: codecs_sized_def)
  note words = this [folded meta_unsigned_tag [OF metadataTag_length [OF tag]]]
  have "1 \<le> ?k \<and> ?k \<le> 782" using c unfolding meta_blocks_def by linarith
  then have "\<not> (geo_metadataBlocks g < minimumMetadataBlocks \<or> geo_metadataBlocks g > maximumMetadataBlocks)"
    unfolding word_less_nat_alt k by simp
  then show ?thesis
    unfolding encodeNormalWriteMetadata_def Let_def k meta_unsigned_def [symmetric] meta_unsigned_header [OF room]
      tag map_err_simps ebind_simps
    using words by simp
qed

lemma write_checked_works:
  assumes "honest_writer data (w_env w)" and "unat off + length bytes < 2 ^ 63"
    and "expected = int (unat off + length bytes)"
  shows "works w (write_checked expected off bytes)"
  unfolding write_checked_def
proof (rule works_bind)
  show "works w (exact_write off bytes)" by (rule exact_write_works [OF assms(1,2)])
  fix off' w' assume x: "exact_write off bytes w = (Inr off', w')"
  have "unat off' = unat off + length bytes" using exact_write_Inr [OF x] assms(2) by simp
  then have "normalWriteOffsetMatches off' expected"
    unfolding assms(3) normalWriteOffsetMatches_nat using assms(2) by simp
  then show "works w' (if \<not> normalWriteOffsetMatches off' expected
      then io_fail (NormalWriteFailure StageTailGeometry NormalWriteGeometry) else io_ret off')" by simp
qed

lemma write_front_works:
  assumes h: "honest_writer data (w_env w)" and wf: "wf_core core"
    and len: "length pe = 960" "976 + length me < 2 ^ 63"
    and front: "geo_frontHeaderLength g = int (976 + length me)"
  shows "works w (write_front g core pe me)"
  unfolding write_front_def
proof (rule works_bind)
  let ?p = "take 16 (logicalCoreBytes core)"
  have l: "length ?p = 16" using length_logicalCoreBytes [OF wf] by simp
  show "works w (exact_write 0 ?p)" by (rule exact_write_works [OF h]) (simp add: l)
  fix o1 w1 assume x: "exact_write 0 ?p w = (Inr o1, w1)"
  have X: "writes w 0 ?p w1" "unat o1 = 16" using exact_write_Inr [OF x] l by simp_all
  have h1: "honest_writer data (w_env w1)" using writes_env [OF X(1)] h by simp
  show "works w1 (io_bind (exact_write o1 pe) (\<lambda>offset. write_checked (geo_frontHeaderLength g) offset me))"
  proof (rule works_bind)
    show "works w1 (exact_write o1 pe)" by (rule exact_write_works [OF h1]) (simp add: X len)
    fix o2 w2 assume y: "exact_write o1 pe w1 = (Inr o2, w2)"
    have Y: "writes w1 0 pe w2" "unat o2 = 976" using exact_write_Inr [OF y] len X by simp_all
    have "honest_writer data (w_env w2)" using writes_env [OF Y(1)] h1 by simp
    then show "works w2 (write_checked (geo_frontHeaderLength g) o2 me)"
      by (rule write_checked_works) (use Y len front in simp_all)
  qed
qed

lemma write_suffix_works:
  assumes h: "honest_writer data (w_env w)"
    and fits: "unat off + length be + length te < 2 ^ 63"
    and lay: "geo_backupCapsuleOffset g = int (unat off)" "geo_trailerOffset g = int (unat off + length be)"
      "geo_fileSize g = int (unat off + length be + length te)"
  shows "works w (write_suffix g off be te)"
  unfolding write_suffix_def
proof (rule works_check)
  show "normalWriteOffsetMatches off (geo_backupCapsuleOffset g)"
    unfolding lay normalWriteOffsetMatches_nat using fits by simp
  show "works w (io_bind (write_checked (geo_trailerOffset g) off be) (\<lambda>offset.
      write_checked (geo_fileSize g) offset te))"
  proof (rule works_bind)
    show "works w (write_checked (geo_trailerOffset g) off be)"
      by (rule write_checked_works [OF h]) (use fits lay in simp_all)
    fix o1 w1 assume x: "write_checked (geo_trailerOffset g) off be w = (Inr o1, w1)"
    have X: "writes w 0 be w1" "unat o1 = unat off + length be" using write_checked_Inr [OF x] fits by simp_all
    have "honest_writer data (w_env w1)" using writes_env [OF X(1)] h by simp
    then show "works w1 (write_checked (geo_fileSize g) o1 te)"
      by (rule write_checked_works) (use X fits lay in simp_all)
  qed
qed

lemma serializeNormalVolumeWithKeys_works:
  assumes lay: "canonical_layout core rs g"
    and core: "core_for request metadata core"
    and p: "candidate_for metadata core CapsuleRolePrimary p \<and> unsealed p"
    and b: "candidate_for metadata core CapsuleRoleBackup b \<and> unsealed b"
    and v: "validNormalWriteRequest request"
    and ok: "fec_encodes (RS16 codecs)" "fec_encodes (RS64 codecs)" "fec_encodes (RS128 codecs)"
      "codecs_sized codecs"
    and prims: "ciphers_ok P" "macs_ok P" and keys: "keys_sized keys"
    and h: "honest_writer data (w_env w)" and c0: "w_consumed w = 0"
    and data: "length data = unat (nwr_plaintextLength request)"
  shows "\<exists>w'. serializeNormalVolumeWithKeys P request core g p b keys codecs w = (Some (Inr ()), w') \<and>
    honest_writer data (w_env w')"
proof -
  let ?n = "unat (core_plaintextLength core)" and ?c = "unat (core_commentLength core)"
  have wf: "wf_core core" and suite: "isSupportedSuite (core_suite core)" and n: "length data = ?n"
    using core data by (auto simp: core_for_def validLogicalCore_def split: if_splits)
  have cl: "length (nwr_comment request) \<le> 99999"
    using v by (simp add: validNormalWriteRequest_def split: if_splits)
  have comment: "?c = length (nwr_comment request)"
    using core cl by (simp add: core_for_def comment_len_def unat_of_nat)
  let ?k = "meta_blocks (length (nwr_comment request))"
  have k: "?k \<le> 800" using cl by (simp add: meta_blocks_def)
  have g: "g = layout_of rs ?n ?c" using lay by (simp add: canonical_layout_def)
  have mb: "unat (geo_metadataBlocks g) = ?k"
    using k unfolding g layout_of_sel comment by (intro unat_word_small) simp
  have wfc: "wf_candidate p" "wf_candidate b" using p b by (simp_all add: candidate_for_def)
  obtain p' pe where cp: "encodeNormalWriteCapsule P p keys codecs = Inr (p', pe)"
    using encodeNormalWriteCapsule_works [OF prims(2,1) keys ok(2,4) p wfc(1)] by auto
  obtain b' be where cb: "encodeNormalWriteCapsule P b keys codecs = Inr (b', be)"
    using encodeNormalWriteCapsule_works [OF prims(2,1) keys ok(2,4) b wfc(2)] by auto
  obtain me where cm: "encodeNormalWriteMetadata P (nwr_comment request) core g (wk_metadataMAC keys) codecs = Inr me"
    using encodeNormalWriteMetadata_works [OF prims(2) keys suite ok(3,4) mb cl] by blast
  let ?te = "coded (RS16 codecs) 1 canonicalTrailerBytes"
  have ct: "encodeNormalWriteTrailer codecs = Inr ?te" by (rule encodeNormalWriteTrailer_coded [OF ok(1,4)])
  have fixed: "encode_fixed_parts P request core g p b keys codecs = Inr (pe, be, me, ?te)"
    using cp cb cm ct by (simp add: encode_fixed_parts_def)
  note CP = encodeNormalWriteCapsule_sealed [OF cp ok(2,4) p]
    and CB = encodeNormalWriteCapsule_sealed [OF cb ok(2,4) b]
  from encodeNormalWriteMetadata_coded [OF cm ok(3,4) mb] obtain tag where
    tag: "metadataTag P (core_suite core) (wk_metadataMAC keys) core (meta_header (nwr_comment request))
      (nwr_comment request) = Inr tag"
    and me: "me = coded (RS128 codecs) ?k (meta_plain (nwr_comment request) tag)" by blast
  have len: "length pe = 960" "length be = 960" "length me = ?k * 136" "length ?te = 48"
    using ok(4) CP CB capsule_codec.enc_length length_meta_plain [OF metadataTag_length [OF tag]]
    by (simp_all add: me length_coded codecs_sized_def candidate_for_def)
  have fits: "front_len ?c + payload_len rs ?n + 1008 < 2 ^ 63"
    using lay unfolding canonical_layout_def file_len_def by (elim conjE)
  have fl: "front_len ?c = 976 + ?k * 136" by (simp add: front_len_def comment)
  have hl: "length (take 16 (logicalCoreBytes core)) = 16" using length_logicalCoreBytes [OF wf] by simp
  have "works w (write_front g core pe me)"
    by (rule write_front_works [OF h wf len(1)]) (use fl fits g len in simp_all)
  then obtain off1 w1 where front: "write_front g core pe me w = (Inr off1, w1)" by (auto simp: works_def)
  have "length me < 2 ^ 63" using len k by simp
  note F = write_front_Inr [OF front wf len(1) this]
  have st: "stands data core rs 0 off1 w1"
    using F h c0 len fl by (simp add: stands_def writes_def rec_off_def)
  obtain buffers where buffers: "record_buffers_for core g = Inr buffers"
    using record_buffers_canonical [OF lay] by blast
  obtain off2 w2 where loop: "write_record_loop P core g keys codecs buffers (Suc (rec_count ?n) + 1) (word_of_nat 0) off1 w1 =
      (Some (Inr off2), w2)" and st2: "stands data core rs (Suc (rec_count ?n)) off2 w2"
    using write_record_loop_works [OF lay wf ok(1,3,4) prims keys buffers n _ st, of "rec_count ?n" 1] by auto
  have records: "writeNormalRecords P core g keys codecs off1 w1 = (Some (Inr off2), w2)"
    using loop buffers canonical_layout_count(2) [OF lay] by (simp add: writeNormalRecords_def)
  have u2: "unat off2 = front_len ?c + payload_len rs ?n" and h2: "honest_writer data (w_env w2)"
    using st2 rec_off_end [of rs ?n] by (simp_all add: stands_def)
  have "works w2 (write_suffix g off2 be ?te)"
    by (rule write_suffix_works [OF h2]) (use u2 fits g len in \<open>simp_all add: file_len_def\<close>)
  then obtain off3 w3 where suffix: "write_suffix g off2 be ?te w2 = (Inr off3, w3)" by (auto simp: works_def)
  have run: "serializeNormalVolumeWithKeys P request core g p b keys codecs w = (Some (Inr ()), w3)"
    unfolding serializeNormalVolumeWithKeys_def fixed sum.case prod.case front records option.case suffix ..
  moreover have "writes w2 0 (be @ ?te) w3" by (rule write_suffix_Inr(1) [OF suffix]) (use len in simp_all)
  ultimately show ?thesis using h2 by (simp add: writes_env)
qed

text \<open>The core of a valid request is valid once its identity and entropy are in.\<close>

lemma planned_core_valid:
  assumes v: "validNormalWriteRequest request"
    and f: "unat f = front_len (unat (comment_len request))"
  shows "validLogicalCore (planned_core request f)" "unat f \<le> 4294967295"
proof -
  have r: "isSupportedSuite (nwr_suite request)"
    "nwr_payloadKind request = PayloadKindRaw \<or> nwr_payloadKind request = PayloadKindArchive"
    "length (nwr_comment request) \<le> 99999"
    "canonicalRecordCount (nwr_plaintextLength request) < maximumRecordCount"
    using v by (auto simp: validNormalWriteRequest_def split: if_splits)
  have c: "unat (comment_len request) = length (nwr_comment request)"
    using r(3) by (simp add: comment_len_def unat_of_nat)
  have "meta_blocks (length (nwr_comment request)) \<le> 782" using r(3) unfolding meta_blocks_def by linarith
  then have f': "unat f \<le> 4294967295" unfolding f c front_len_def by linarith
  then show "unat f \<le> 4294967295" .
  have u: "(ucast (ucast f :: u32) :: u64) = f"
  proof -
    have "unat (ucast (ucast f :: u32) :: u64) = unat f"
      using f' by (simp add: unsigned_ucast_eq unsigned_take_bit_eq take_bit_nat_eq_self_iff)
    then show ?thesis by (simp only: word_unat_eq_iff)
  qed
  obtain b f0 where g: "canonicalMetadataGeometry (comment_len request) = Some (b, f0)"
    and f0: "unat f0 = front_len (unat (comment_len request))"
    by (metis canonicalMetadataGeometry_exact)
  then have "f0 = f" using f by (simp add: word_unat_eq_iff)
  with g have g: "canonicalMetadataGeometry (comment_len request) = Some (b, f)" by simp
  let ?core = "planned_core request f"
  have flags: "core_featureFlags ?core AND NOT (supportedFeatureMask OR d1DerivedRootFeatureMask) = 0"
    by (simp add: planned_core_def)
  have "unat (comment_len request) \<le> maximumCommentLength" using r(3) c by simp
  then show "validLogicalCore ?core"
    using r(1,2,4) g u flags
    by (auto simp: validLogicalCore_def planned_core_def zeroCore_def)
qed

lemma planNormalWrite_works:
  assumes v: "validNormalWriteRequest request"
    and fits: "file_len (nwr_payloadBodyRS request) (unat (nwr_plaintextLength request))
      (length (nwr_comment request)) < 2 ^ 63"
  shows "\<exists>plan. planNormalWrite request = Inr plan"
proof -
  obtain b f where g: "canonicalMetadataGeometry (comment_len request) = Some (b, f)"
    and f: "unat f = front_len (unat (comment_len request))"
    by (metis canonicalMetadataGeometry_exact)
  note V = planned_core_valid [OF v f]
  let ?core = "planned_core request f" and ?rs = "nwr_payloadBodyRS request"
  have "length (nwr_comment request) \<le> 99999"
    using v by (simp add: validNormalWriteRequest_def split: if_splits)
  then have c: "unat (core_commentLength ?core) = length (nwr_comment request)"
    by (simp add: planned_core_def comment_len_def unat_of_nat)
  define g' where "g' = layout_of ?rs (unat (core_plaintextLength ?core)) (unat (core_commentLength ?core))"
  have lay: "canonical_layout ?core ?rs g'"
    unfolding canonical_layout_def g'_def planned_flags using V fits c by (simp add: planned_core_def)
  have "candidate_PayloadBodyRS (zeroCandidate\<lparr>cand_core := ?core\<rparr>) = ?rs"
    using planned_flags(1) by (simp add: candidate_PayloadBodyRS_def)
  then have d: "deriveCanonicalGeometry (zeroCandidate\<lparr>cand_core := ?core\<rparr>) = Inr g'"
    using canonical_layout_derive [of "zeroCandidate\<lparr>cand_core := ?core\<rparr>" g'] lay by simp
  have "recordGeometryMatchesCore ?core g'" by (rule recordGeometryMatchesCore_canonical [OF lay])
  then show ?thesis
    unfolding planNormalWrite_def Let_def g option.case prod.case d sum.case using v V(2) by simp
qed

text \<open>Entropy for the suite that needs it.\<close>

lemma paranoid_entropy_works:
  "honest_writer data (w_env w) \<Longrightarrow> works w (paranoid_entropy suite n)"
  by (simp add: paranoid_entropy_def readNormalWriteEntropy_works)

lemma paranoid_entropy_standard:
  "paranoid_entropy SuiteStandard n w = (Inr bytes, w') \<Longrightarrow> bytes = replicate n 0"
  by (simp add: paranoid_entropy_def io_ret_def)

text \<open>The credential fits the request.\<close>

definition credential_fits :: "normalWriteRequest \<Rightarrow> normalWriteCredentialMetadata \<Rightarrow> bool" where
  "credential_fits request metadata \<longleftrightarrow>
     validNormalWriteCredentialMetadata metadata \<and> cm_suite metadata = nwr_suite request \<and>
     nwr_derivedRoot request = (cm_kdfProfile metadata = KDFProfileD1DerivedRoot)"

lemma new_candidate_valid:
  assumes fits: "credential_fits request metadata" and core: "core_for request metadata core"
    and role: "isSupportedCapsuleRole role"
    and iv: "nwr_suite request = SuiteStandard \<Longrightarrow> iv = replicate 16 0"
  shows "validAuthCandidate ((new_candidate metadata core role)\<lparr>cand_wrapNonce := nonce, cand_wrapSerpentIV := iv\<rparr>)"
proof -
  have s: "core_suite core = nwr_suite request" "validLogicalCore core"
    "(core_featureFlags core AND d1DerivedRootFeatureMask \<noteq> 0) = nwr_derivedRoot request"
    using core by (simp_all add: core_for_def)
  have "cm_kdfProfile metadata =
      (if core_featureFlags core AND d1DerivedRootFeatureMask \<noteq> 0 then KDFProfileD1DerivedRoot
       else kdfProfileForSuite (core_suite core))"
    using fits s by (auto simp: credential_fits_def validNormalWriteCredentialMetadata_def)
  moreover have "validCredentialTuple (cm_credentialMode metadata) (cm_keyfileMode metadata) (cm_keyfileCount metadata)"
    using fits by (simp add: credential_fits_def validNormalWriteCredentialMetadata_def)
  ultimately show ?thesis
    using s role iv by (simp add: validAuthCandidate_def validCandidateKDFProfile_def new_candidate_def
        zeroCandidate_def numeral_2_eq_2)
qed

lemma fresh_candidate_works:
  assumes h: "honest_writer data (w_env w)"
    and fits: "credential_fits request metadata" and core: "core_for request metadata core"
    and role: "isSupportedCapsuleRole role"
  shows "works w (fresh_candidate (nwr_suite request) (new_candidate metadata core role))"
  unfolding fresh_candidate_def Let_def
proof (rule works_bind)
  show "works w (readNormalWriteEntropy 24)" by (rule readNormalWriteEntropy_works [OF h])
  fix nonce w1 assume n: "readNormalWriteEntropy 24 w = (Inr nonce, w1)"
  have h1: "honest_writer data (w_env w1)"
    using readNormalWriteEntropy_Inr [OF n] h by (auto simp: writes_def)
  show "works w1 (io_bind (paranoid_entropy (nwr_suite request) 16) (\<lambda>iv.
      if \<not> validAuthCandidate ((new_candidate metadata core role)\<lparr>cand_wrapNonce := nonce, cand_wrapSerpentIV := iv\<rparr>)
      then io_fail (NormalWriteFailure StageCapsuleStructure InvalidNormalWriteRequest)
      else io_ret ((new_candidate metadata core role)\<lparr>cand_wrapNonce := nonce, cand_wrapSerpentIV := iv\<rparr>)))"
  proof (rule works_bind)
    show "works w1 (paranoid_entropy (nwr_suite request) 16)" by (rule paranoid_entropy_works [OF h1])
    fix iv w2 assume i: "paranoid_entropy (nwr_suite request) 16 w1 = (Inr iv, w2)"
    have "validAuthCandidate ((new_candidate metadata core role)\<lparr>cand_wrapNonce := nonce, cand_wrapSerpentIV := iv\<rparr>)"
    proof (rule new_candidate_valid [OF fits core role])
      show "iv = replicate 16 0" if "nwr_suite request = SuiteStandard"
        by (rule paranoid_entropy_standard) (use i that in simp)
    qed
    then show "works w2 (if \<not> validAuthCandidate ((new_candidate metadata core role)\<lparr>cand_wrapNonce := nonce, cand_wrapSerpentIV := iv\<rparr>)
      then io_fail (NormalWriteFailure StageCapsuleStructure InvalidNormalWriteRequest)
      else io_ret ((new_candidate metadata core role)\<lparr>cand_wrapNonce := nonce, cand_wrapSerpentIV := iv\<rparr>))"
      by simp
  qed
qed

lemma validLogicalCore_identity:
  assumes "validLogicalCore core" and "core_suite core = SuiteStandard \<Longrightarrow> iv = replicate 8 0"
  shows "validLogicalCore (core\<lparr>core_volumeID := vid, core_xChaChaNoncePrefix := nonce, core_serpentIVPrefix := iv\<rparr>)"
  using assms by (auto simp: validLogicalCore_def split: if_splits option.splits)

lemma prepareNormalWriteStructure_works:
  assumes h: "honest_writer data (w_env w)" and plan: "planNormalWrite request = Inr plan"
    and fits: "credential_fits request metadata"
    and len: "length (cm_argonSalt metadata) = 16" "length (cm_volumeID metadata) = 32"
  shows "works w (prepareNormalWriteStructure request plan metadata)"
proof -
  obtain f where pc: "plan_core plan = planned_core request f" using planNormalWrite_Inr(1) [OF plan] by blast
  note lay = planNormalWrite_Inr(3) [OF plan]
  have v: "validLogicalCore (plan_core plan)" using lay by (simp add: canonical_layout_def)
  have m: "recordGeometryMatchesCore (plan_core plan) (plan_geometry plan)"
    by (rule recordGeometryMatchesCore_canonical [OF lay])
  obtain nonce w1 where n: "readNormalWriteEntropy 16 w = (Inr nonce, w1)"
    by (rule worksE [OF readNormalWriteEntropy_works [OF h]])
  note N = readNormalWriteEntropy_Inr [OF n]
  have h1: "honest_writer data (w_env w1)" using N h by (auto simp: writes_def)
  obtain iv w2 where i: "paranoid_entropy (nwr_suite request) 8 w1 = (Inr iv, w2)"
    by (rule worksE [OF paranoid_entropy_works [OF h1]])
  note I = paranoid_entropy_Inr [OF i]
  have h2: "honest_writer data (w_env w2)" using I h1 by (auto simp: writes_def)
  let ?core = "(plan_core plan)\<lparr>core_volumeID := cm_volumeID metadata, core_xChaChaNoncePrefix := nonce,
              core_serpentIVPrefix := iv\<rparr>"
  have vc: "validLogicalCore ?core"
  proof (rule validLogicalCore_identity [OF v])
    assume "core_suite (plan_core plan) = SuiteStandard"
    then have "nwr_suite request = SuiteStandard" unfolding pc by (simp add: planned_core_def)
    with i show "iv = replicate 8 0" by (metis paranoid_entropy_standard)
  qed
  have wf: "wf_core ?core"
    using N I len by (simp add: pc wf_core_def planned_core_def zeroCore_def normalDiscriminator_def)
  have "core_for request metadata ?core"
    using wf vc planned_flags [of request f] by (simp add: core_for_def pc) (simp add: planned_core_def)
  note fresh = fresh_candidate_works [OF _ fits this]
  have roles: "isSupportedCapsuleRole CapsuleRolePrimary" "isSupportedCapsuleRole CapsuleRoleBackup"
    by (simp_all add: isSupportedCapsuleRole_def)
  obtain p w3 where p: "fresh_candidate (nwr_suite request) (new_candidate metadata ?core CapsuleRolePrimary) w2 = (Inr p, w3)"
    by (rule worksE [OF fresh [OF h2 roles(1)]])
  have h3: "honest_writer data (w_env w3)"
    using fresh_candidate_Inr [OF p wf len(1)] h2 by (auto simp: writes_def)
  obtain b w4 where b: "fresh_candidate (nwr_suite request) (new_candidate metadata ?core CapsuleRoleBackup) w3 = (Inr b, w4)"
    by (rule worksE [OF fresh [OF h3 roles(2)]])
  have req: "core_suite (plan_core plan) = nwr_suite request" "core_payloadKind (plan_core plan) = nwr_payloadKind request"
    "core_plaintextLength (plan_core plan) = nwr_plaintextLength request"
    "core_commentLength (plan_core plan) = comment_len request"
    unfolding pc by (simp_all add: planned_core_def)
  have "prepareNormalWriteStructure request plan metadata w = (Inr (?core, p, b), w4)"
    using n i vc p b m by (simp add: prepareNormalWriteStructure_def Let_def req io_bind_def io_ret_def)
  then show ?thesis by (auto simp: works_def)
qed

section \<open>Serialization succeeds\<close>

text \<open>Everything the serializer is promised.\<close>

definition promised ::
  "prims \<Rightarrow> normalWriteRequest \<Rightarrow> normalWriteMaterial \<Rightarrow> RSCodecs \<Rightarrow> byte list \<Rightarrow> world \<Rightarrow> bool" where
  "promised P request material codecs data w \<longleftrightarrow>
     ciphers_ok P \<and> macs_ok P \<and> codecs_sized codecs \<and>
     fec_encodes (RS16 codecs) \<and> fec_encodes (RS64 codecs) \<and> fec_encodes (RS128 codecs) \<and>
     validNormalWriteRequest request \<and>
     file_len (nwr_payloadBodyRS request) (unat (nwr_plaintextLength request)) (length (nwr_comment request)) < 2 ^ 63 \<and>
     (\<exists>metadata keys.
        mat_credentialMetadata material = Inr metadata \<and> credential_fits request metadata \<and>
        length (cm_argonSalt metadata) = 16 \<and> length (cm_volumeID metadata) = 32 \<and>
        mat_copyKeys material (nwr_suite request) = Inr keys \<and> keys_sized keys) \<and>
     honest_writer data (w_env w) \<and> w_consumed w = 0 \<and>
     length data = unat (nwr_plaintextLength request)"

lemma serializeNormalVolume_works:
  assumes "promised P request material codecs data w"
  shows "\<exists>w'. serializeNormalVolume P request material codecs w = (Some (Inr ()), w')"
proof -
  obtain metadata keys where M: "mat_credentialMetadata material = Inr metadata" "credential_fits request metadata"
    "length (cm_argonSalt metadata) = 16" "length (cm_volumeID metadata) = 32"
    "mat_copyKeys material (nwr_suite request) = Inr keys" "keys_sized keys"
    using assms unfolding promised_def by blast
  have prims: "ciphers_ok P" "macs_ok P"
    and ok: "fec_encodes (RS16 codecs)" "fec_encodes (RS64 codecs)" "fec_encodes (RS128 codecs)" "codecs_sized codecs"
    and v: "validNormalWriteRequest request"
    and fits: "file_len (nwr_payloadBodyRS request) (unat (nwr_plaintextLength request)) (length (nwr_comment request)) < 2 ^ 63"
    and h: "honest_writer data (w_env w)" and c0: "w_consumed w = 0"
    and data: "length data = unat (nwr_plaintextLength request)"
    using assms by (simp_all add: promised_def)
  have ctx: "env_ctx (w_env w) t = None" for t using h by (simp add: honest_writer_def)
  have seams: "validNormalWriteSeams codecs" using ok(4) by (simp add: validNormalWriteSeams_def codecs_sized_def)
  obtain plan where plan: "planNormalWrite request = Inr plan" using planNormalWrite_works [OF v fits] by blast
  have ht: "honest_writer data (w_env (tick w))" using h by (simp add: tick_def)
  obtain r w1 where s': "prepareNormalWriteStructure request plan metadata (tick w) = (Inr r, w1)"
    by (rule worksE [OF prepareNormalWriteStructure_works [OF ht plan M(2-4)]])
  obtain core p b where r: "r = (core, p, b)" by (cases r) auto
  note S = prepareNormalWriteStructure_Inr [OF s' [unfolded r] plan M(3,4)]
  have w1: "w_env w1 = w_env w" "w_consumed w1 = 0" using S(5) c0 by (simp_all add: writes_def tick_def)
  have prep: "prepare_volume request material (tick w) = (Inr (plan_geometry plan, core, p, b, keys), tick w1)"
    using M(1,2,5) v plan s' r recordGeometryMatchesCore_canonical [OF S(2)] ctx w1
    by (simp add: prepare_volume_def Let_def credential_fits_def io_bind_def io_lift_def io_ret_def poll_def ctx_Err_def)
  have h1: "honest_writer data (w_env (tick w1))" and c1: "w_consumed (tick w1) = 0"
    using h w1 by (simp_all add: tick_def)
  from serializeNormalVolumeWithKeys_works [OF S(2,1,3,4) v ok prims M(6) h1 c1 data]
  obtain w2 where body: "serializeNormalVolumeWithKeys P request core (plan_geometry plan) p b keys codecs (tick w1) =
      (Some (Inr ()), w2)" and h2: "honest_writer data (w_env w2)" by blast
  have "poll (NormalWriteFailure StageCancellation) w = (Inr (), tick w)"
    "poll (NormalWriteFailure StageCancellation) w2 = (Inr (), tick w2)"
    using ctx h2 by (simp_all add: poll_Inr honest_writer_def)
  then have "serializeNormalVolume P request material codecs w = (Some (Inr ()), tick w2)"
    using seams prep body by (simp add: serializeNormalVolume_def io_bind_def)
  then show ?thesis by blast
qed

lemma serializeNormalVolume_request:
  assumes "serializeNormalVolume P request material codecs w = (Some (Inr ()), w')"
  shows "validNormalWriteRequest request"
proof (rule ccontr)
  assume "\<not> validNormalWriteRequest request"
  then have "\<not> (\<exists>v w1. io_bind poll_write (\<lambda>_. prepare_volume request material) w = (Inr v, w1))"
    by (simp add: io_bind_eq_Inr prepare_volume_def)
  then show False
    using assms unfolding serializeNormalVolume_def
    by (cases "io_bind poll_write (\<lambda>_. prepare_volume request material) w"; cases "fst (io_bind poll_write (\<lambda>_. prepare_volume request material) w)")
      (auto split: if_splits)
qed

section \<open>A concrete run\<close>

text \<open>Small functions that keep the promises: a key stream, a keyed checksum, a stream that holds a
  list. They only show that the hypotheses can hold together.\<close>

definition toy_prims :: prims where
  "toy_prims = \<lparr>prim_chacha = (\<lambda>key nonce. Some (\<lambda>i. word_of_nat i + hd key)),
     prim_serpent = (\<lambda>key. Some (\<lambda>block. map2 (XOR) block key)),
     prim_blake2b = (\<lambda>key. Some (\<lambda>m. replicate 63 0 @ [foldr (+) m (hd key)])),
     prim_hmac_sha3 = (\<lambda>key m. replicate 63 1 @ [foldr (+) m (hd key)]),
     prim_sha3_256 = (\<lambda>m. replicate 31 0 @ [foldr (XOR) m 0])\<rparr>"

definition list_read :: "byte list \<Rightarrow> nat \<Rightarrow> nat \<Rightarrow> int \<times> byte list \<times> cause option" where
  "list_read data pos n =
     (let x = slice pos n data in (int (length x), x, if pos < length data then None else Some EOF))"

definition toy_world :: "byte list \<Rightarrow> world" where
  "toy_world data =
     \<lparr>w_env = \<lparr>env_ctx = (\<lambda>_. None),
        env_readAt = (\<lambda>_ off n. list_read [] 0 n), env_sink = (\<lambda>_ _ _. None),
        env_read = (\<lambda>_. list_read data),
        env_entropy = (\<lambda>t pos n. (int n, map word_of_nat [pos..<pos + n], None)),
        env_write = (\<lambda>_ bytes. (int (length bytes), None))\<rparr>,
      w_tick = 0, w_trace = [], w_emitted = [], w_consumed = 0, w_entropy = 0, w_written = [],
      w_aborted = False\<rparr>"

definition toy_request :: normalWriteRequest where
  "toy_request = \<lparr>nwr_derivedRoot = False, nwr_suite = SuiteParanoid, nwr_payloadKind = PayloadKindRaw,
     nwr_payloadBodyRS = True, nwr_plaintextLength = 3, nwr_comment = [72, 105]\<rparr>"

definition toy_keys :: normalWriteKeys where
  "toy_keys =
     (let wrap = \<lparr>wrap_xChaCha20 = replicate 32 1, wrap_serpent = replicate 32 2, wrap_mac = replicate 32 3\<rparr>
      in \<lparr>wk_volumeKey = replicate 32 4, wk_capsuleWrap = [wrap, wrap],
          wk_replicaMAC = [replicate 32 5, replicate 32 6], wk_metadataMAC = replicate 32 7,
          wk_payloadXChaCha20 = replicate 32 8, wk_payloadSerpent = replicate 32 9,
          wk_payloadMAC = replicate 32 10\<rparr>)"

definition toy_material :: normalWriteMaterial where
  "toy_material =
     \<lparr>mat_credentialMetadata = Inr \<lparr>cm_suite = SuiteParanoid, cm_credentialMode = CredentialModePassword,
        cm_keyfileMode = KeyfileModeNone, cm_keyfileCount = 0, cm_kdfProfile = KDFProfileParanoid,
        cm_argonSalt = replicate 16 11, cm_volumeID = replicate 32 12\<rparr>,
      mat_copyKeys = (\<lambda>_. Inr toy_keys)\<rparr>"

lemma toy_fields: "w_written (toy_world data) = []" "nwr_comment toy_request = [72, 105]"
  by (simp_all add: toy_world_def toy_request_def)

lemma holds_stream_list:
  assumes "\<And>t. env_read e t = list_read data"
  shows "holds_stream data e"
proof -
  have f: "length x = n \<Longrightarrow> fit n x = x" for n and x :: "byte list" by (simp add: fit_def)
  have s: "length data - pos \<le> n \<Longrightarrow> slice pos n data = drop pos data" for pos n
    by (simp add: slice_def)
  show ?thesis
    unfolding holds_stream_def assms list_read_def Let_def prod.case
    by (auto simp: f s min_def max_def split: if_splits)
qed

lemma toy_promised: "promised toy_prims toy_request toy_material xor_codecs [1, 2, 3] (toy_world [1, 2, 3])"
proof -
  have "holds_stream [1, 2, 3] (w_env (toy_world [1, 2, 3]))"
    by (rule holds_stream_list) (simp add: toy_world_def)
  then have "honest_writer [1, 2, 3] (w_env (toy_world [1, 2, 3]))"
    by (simp add: honest_writer_def toy_world_def)
  moreover have "ciphers_ok toy_prims" "macs_ok toy_prims" by (simp_all add: ciphers_ok_def macs_ok_def toy_prims_def)
  moreover have "codecs_sized xor_codecs" by (simp add: codecs_sized_def xor_codecs_def xor_fec_def)
  moreover have "validNormalWriteRequest toy_request"
  proof -
    obtain b f where "canonicalMetadataGeometry (comment_len toy_request) = Some (b, f)"
      by (metis canonicalMetadataGeometry_exact)
    moreover have "utf8_Valid [72, 105]" by (simp add: utf8_lead_def)
    moreover have "\<not> canonicalRecordCount 3 \<ge> maximumRecordCount"
      using canonicalRecordCount_below_limit [of 3] by simp
    ultimately show ?thesis
      by (simp add: validNormalWriteRequest_def isSupportedSuite_def) (simp add: toy_request_def)
  qed
  moreover have "file_len True 3 (Suc (Suc 0)) < 2 ^ 63"
    by (simp add: file_len_def front_len_def meta_blocks_def payload_len_rs body_len_def)
  moreover have "keys_sized toy_keys" by (simp add: keys_sized_def toy_keys_def Let_def)
  moreover have "w_consumed (toy_world [1, 2, 3]) = 0" by (simp add: toy_world_def)
  ultimately show ?thesis
    using xor_codecs_ok
    by (simp add: promised_def fec_ok_def toy_material_def credential_fits_def validNormalWriteCredentialMetadata_def
        validCredentialTuple_def isSupportedSuite_def kdfProfileForSuite_def)
      (simp add: toy_request_def)
qed

section \<open>Properties\<close>

text \<open>C18: Whatever the streams, the destination and the key material do, a serialization that
  reports success has appended one whole volume to the destination, and nothing else: the
  preamble and the capsules of one core sealed under the copied keys, the coded comment with its
  tag, all records in order, each encrypted and tagged under its own nonce, and the trailer. Its
  length is the one announced before, and if the source is a stream, the records hold exactly
  the stream, which was at its end.\<close>

theorem successful_write_is_whole_volume:
  assumes "fec_encodes (RS16 codecs)" and "fec_encodes (RS64 codecs)" and "fec_encodes (RS128 codecs)"
    and "wf_material material"
    and "serializeNormalVolume P request material codecs w = (Some (Inr ()), w')"
  shows "\<exists>img. serialized P request material codecs w img w' \<and> w_written w' = w_written w @ img \<and>
    WriteCiphertextLength WriteSizeNormal (nwr_plaintextLength request) (word_of_nat (length (nwr_comment request)))
      (nwr_payloadBodyRS request) = Some (word_of_nat (length img)) \<and> length img < 2 ^ 63"
proof -
  from serializeNormalVolume_end [OF assms] obtain img where
    img: "serialized P request material codecs w img w'"
      "length img = file_len (nwr_payloadBodyRS request) (unat (nwr_plaintextLength request))
         (length (nwr_comment request))" "length img < 2 ^ 63" by auto
  have "length (nwr_comment request) \<le> 99999"
    using serializeNormalVolume_request [OF assms(5)] by (simp add: validNormalWriteRequest_def split: if_splits)
  then have c: "unat (word_of_nat (length (nwr_comment request)) :: u32) = length (nwr_comment request)"
    by (simp add: unat_of_nat)
  have u: "unat (word_of_nat (length img) :: u64) = length img"
    using img(3) by (intro unat_word_small) simp
  have "WriteCiphertextLength WriteSizeNormal (nwr_plaintextLength request) (word_of_nat (length (nwr_comment request)))
      (nwr_payloadBodyRS request) = Some (word_of_nat (length img))"
    unfolding WriteCiphertextLength_normal c u using img(2,3) \<open>length (nwr_comment request) \<le> 99999\<close> by simp
  moreover have "w_written w' = w_written w @ img" using img(1) by (auto simp: serialized_def writes_def)
  ultimately show ?thesis using img(1,3) by blast
qed

theorem successful_write_is_whole_volume_witness:
  "\<exists>w' img. serializeNormalVolume toy_prims toy_request toy_material xor_codecs (toy_world [1, 2, 3]) =
       (Some (Inr ()), w') \<and> w_written w' = img \<and>
     serialized toy_prims toy_request toy_material xor_codecs (toy_world [1, 2, 3]) img w'"
proof -
  obtain w' where run: "serializeNormalVolume toy_prims toy_request toy_material xor_codecs (toy_world [1, 2, 3]) =
       (Some (Inr ()), w')" using serializeNormalVolume_works [OF toy_promised] by blast
  have ok: "fec_encodes (RS16 xor_codecs)" "fec_encodes (RS64 xor_codecs)" "fec_encodes (RS128 xor_codecs)"
    using xor_codecs_ok by (simp_all add: fec_ok_def)
  have "wf_material toy_material" by (simp add: wf_material_def toy_material_def)
  from successful_write_is_whole_volume [OF ok this run] run show ?thesis by (auto simp: toy_world_def)
qed

text \<open>C20: Serialization does succeed: with a valid request whose volume fits in a file, a stream of
  the announced length, filled entropy, a destination that takes the bytes, no cancellation and
  keys of their size, the result is success, the records hold exactly the plaintext, and the
  whole plaintext was consumed.\<close>

theorem honest_serialization_succeeds:
  assumes "promised P request material codecs data w"
  shows "\<exists>w' metadata keys core p b plains img.
    serializeNormalVolume P request material codecs w = (Some (Inr ()), w') \<and>
    w_written w' = w_written w @ img \<and> w_consumed w' = length data \<and>
    volume_image P codecs keys (nwr_comment request) core p b plains img \<and> concat plains = data \<and>
    mat_copyKeys material (nwr_suite request) = Inr keys \<and>
    mat_credentialMetadata material = Inr metadata \<and> core_for request metadata core"
proof -
  obtain w' where run: "serializeNormalVolume P request material codecs w = (Some (Inr ()), w')"
    using serializeNormalVolume_works [OF assms] by blast
  have ok: "fec_encodes (RS16 codecs)" "fec_encodes (RS64 codecs)" "fec_encodes (RS128 codecs)" "wf_material material"
    and h: "holds_stream data (w_env w)" "w_consumed w = 0"
    using assms by (auto simp: promised_def wf_material_def honest_writer_def)
  from serializeNormalVolume_end [OF ok run] obtain img where
    img: "serialized P request material codecs w img w'" by auto
  then show ?thesis using run h unfolding serialized_def by (fastforce simp: writes_def)
qed

theorem honest_serialization_succeeds_witness:
  "\<exists>w' keys core p b plains.
     serializeNormalVolume toy_prims toy_request toy_material xor_codecs (toy_world [1, 2, 3]) = (Some (Inr ()), w') \<and>
     volume_image toy_prims xor_codecs keys [72, 105] core p b plains (w_written w') \<and> concat plains = [1, 2, 3]"
  using honest_serialization_succeeds [OF toy_promised] unfolding toy_fields append_Nil by blast

end
