(* ===== verification/Read_Records.thy ===== *)
theory Read_Records
  imports Write_Success
begin

text \<open>
  Reading the records of a volume that was written, from a source that serves its image with at
  most \<open>t\<close> wrong bytes in each codeword: the reader finds the descriptors, recovers the bodies,
  verifies their tags and hands the plaintext to the sink. A damaged body whose uncorrected
  bytes already verify would be a forgery under the payload key; that case is kept apart.
\<close>

section \<open>A record near its image\<close>

text \<open>The decoded body of a record as it was written, and its systematic bytes as they are read.\<close>

definition written_body :: "bool \<Rightarrow> nat \<Rightarrow> byte list \<Rightarrow> byte list" where
  "written_body rs encodedLength semantic =
     (if rs then semantic @ replicate (encodedLength div 136 * 128 - length semantic) 0 else semantic)"

definition systematic_bytes :: "byte list \<Rightarrow> byte list" where
  "systematic_bytes word = concat (map (\<lambda>b. take 128 (slice (b * 136) 136 word)) [0..<length word div 136])"

definition body_near :: "nat \<Rightarrow> RSCodecs \<Rightarrow> bool \<Rightarrow> nat \<Rightarrow> byte list \<Rightarrow> byte list \<Rightarrow> bool" where
  "body_near t codecs rs encodedLength semantic word \<longleftrightarrow>
     (if rs then coded_near t (RS128 codecs) (encodedLength div 136) (written_body rs encodedLength semantic) word
      else word = semantic)"

text \<open>What was encrypted and tagged for record \<open>i\<close>.\<close>

definition sealed_record ::
  "prims \<Rightarrow> logicalCore \<Rightarrow> bool \<Rightarrow> normalWriteKeys \<Rightarrow> nat \<Rightarrow> byte list \<Rightarrow> byte list \<Rightarrow> bool" where
  "sealed_record P core rs keys i plain semantic \<longleftrightarrow>
     (\<exists>ciphertext tag.
        let e = record_at core rs i in
        semantic = ciphertext @ tag \<and>
        length plain = rec_plain (unat (core_plaintextLength core)) i \<and>
        (if exp_final e then ciphertext = []
         else suite_wrap P (core_suite core) (replicate (length plain) 0) plain
                (wk_payloadXChaCha20 keys) (exp_nonce e) (wk_payloadSerpent keys) (exp_serpentIV e) =
              Inr ciphertext) \<and>
        recordTag P (core_suite core) (wk_payloadMAC keys) (coreCommitment P core)
          (exp_descriptor e) ciphertext = Inr tag)"

text \<open>A body that verifies and is not the one that was written.\<close>

definition forged_body ::
  "prims \<Rightarrow> logicalCore \<Rightarrow> bool \<Rightarrow> normalWriteKeys \<Rightarrow> nat \<Rightarrow> byte list \<Rightarrow> byte list \<Rightarrow> bool" where
  "forged_body P core rs keys i semantic word \<longleftrightarrow>
     rs \<and>
     authenticateDecodedRecord P (core_suite core) (wk_payloadMAC keys) (coreCommitment P core)
       (record_at core rs i) (systematic_bytes word) = Inr True \<and>
     systematic_bytes word \<noteq> written_body rs (exp_encodedBodyLength (record_at core rs i)) semantic"

definition record_near ::
  "nat \<Rightarrow> prims \<Rightarrow> logicalCore \<Rightarrow> bool \<Rightarrow> normalWriteKeys \<Rightarrow> RSCodecs \<Rightarrow> nat \<Rightarrow> byte list \<Rightarrow> byte list \<Rightarrow> bool" where
  "record_near t P core rs keys codecs i plain bytes \<longleftrightarrow>
     (\<exists>semantic.
        let e = record_at core rs i in
        sealed_record P core rs keys i plain semantic \<and>
        coded_near t (RS16 codecs) 1 (exp_descriptor e) (take 48 bytes) \<and>
        body_near t codecs rs (exp_encodedBodyLength e) semantic (drop 48 bytes) \<and>
        \<not> forged_body P core rs keys i semantic (drop 48 bytes))"

section \<open>The reads\<close>

lemma readRecordExactAt_image:
  assumes "serves img w" and "off + n \<le> length img"
  obtains w' where "readRecordExactAt (int off) n stage w = (Inr (slice off n img), w')" and "reads_only w w'"
proof -
  have "serves img (tick w)" using assms(1) by simp
  then obtain w' where "exact_read True (int off) n (tick w) = ((slice off n img, ReadDone), w')" "reads_only (tick w) w'"
    using exact_read_image [of img "tick w" True off n] assms(2) by (auto simp: serves_def)
  moreover have "int off \<le> MaxInt64 - int n" using assms by (simp add: serves_def)
  ultimately show thesis
    using that [of w'] assms(1) reads_only_trans [OF reads_only_tick, of w w']
    by (simp add: readRecordExactAt_def io_bind_def poll_serves)
qed

text \<open>An evaluator for the records of a core under the keys of the writer.\<close>

definition evaluates ::
  "prims \<Rightarrow> logicalCore \<Rightarrow> bool \<Rightarrow> Geometry \<Rightarrow> normalWriteKeys \<Rightarrow> RSCodecs \<Rightarrow> recordEvaluator \<Rightarrow> bool" where
  "evaluates P core rs g keys codecs ev \<longleftrightarrow>
     canonical_layout core rs g \<and> ev_core ev = core \<and> ev_geometry ev = g \<and> ev_codecs ev = codecs \<and>
     rk_xChaCha20 (ev_keys ev) = wk_payloadXChaCha20 keys \<and>
     (core_suite core = SuiteParanoid \<longrightarrow> rk_serpent (ev_keys ev) = wk_payloadSerpent keys) \<and>
     rk_mac (ev_keys ev) = wk_payloadMAC keys \<and> ev_commitment ev = coreCommitment P core \<and>
     (let e = record_at core rs 0 in
      decodedRecordBodyLength e rs = Some (ev_decodedBody ev) \<and>
      ev_plaintext ev = unat (exp_ciphertextLength e))"

definition record_start :: "logicalCore \<Rightarrow> bool \<Rightarrow> nat \<Rightarrow> nat" where
  "record_start core rs i =
     front_len (unat (core_commentLength core)) + rec_off rs (unat (core_plaintextLength core)) i"

lemma record_at_offsets:
  "exp_descriptorOffset (record_at core rs i) = int (record_start core rs i)"
  "exp_bodyOffset (record_at core rs i) = int (record_start core rs i + 48)"
  by (simp_all add: record_at_def record_start_def Let_def)

lemma check_descriptor_image:
  assumes ev: "evaluates P core rs g keys codecs ev" and img: "serves img w"
    and ok: "fec_ok t (RS16 codecs)" "codecs_sized codecs"
    and inside: "record_start core rs i + 48 \<le> length img"
    and near: "coded_near t (RS16 codecs) 1 (exp_descriptor (record_at core rs i)) (slice (record_start core rs i) 48 img)"
  obtains w' where "check_descriptor ev (record_at core rs i) w = (Inr (), w')" "reads_only w w'"
proof -
  let ?e = "record_at core rs i" and ?word = "slice (record_start core rs i) 48 img"
  obtain w' where r: "readRecordExactAt (int (record_start core rs i)) 48
      (if exp_final ?e then StageFinalRecord else StageDescriptor) w = (Inr ?word, w')" "reads_only w w'"
    by (rule readRecordExactAt_image [OF img inside])
  have "decodeRecordDescriptor codecs ?word = Inr (exp_descriptor ?e)"
    using coded_near_one [OF ok(1) near] near ok(2) inside
    by (simp add: decodeRecordDescriptor_def coded_near_def codecs_sized_def del: record_at_sel)
  moreover have "ev_codecs ev = codecs" using ev by (simp add: evaluates_def)
  ultimately have "check_descriptor ev ?e w = (Inr (), w')"
    using r(1) unfolding check_descriptor_def Let_def record_at_offsets(1)
    by (simp add: io_bind_def io_ret_def del: record_at_sel)
  then show thesis using r(2) by (rule that)
qed

section \<open>The body\<close>

text \<open>Undisturbed, the decoding computes \<open>decoded_body\<close>.\<close>

lemma decode_body_blocks_served:
  assumes "serves img w"
  shows "\<exists>w'. decode_body_blocks codecs encoded full blocks w =
      (map_err Plain (ebind (emap (body_word codecs encoded full) blocks) (\<lambda>words. Inr (concat words))), w') \<and>
    reads_only w w'"
  using assms
proof (induction blocks arbitrary: w)
  case Nil
  then show ?case by (auto simp: io_bind_def poll_serves io_ret_def intro: exI [of _ "tick w"])
next
  case (Cons b rest)
  have step: "decode_body_blocks codecs encoded full (b # rest) w =
      io_bind (io_lift (map_err Plain (body_word codecs encoded full b))) (\<lambda>word.
        io_bind (decode_body_blocks codecs encoded full rest) (\<lambda>words. io_ret (word @ words))) (tick w)"
    using Cons.prems
    by (cases full; cases "DecodeInto (RS128 codecs) (replicate 128 0) (slice (b * 136) 136 encoded)")
      (simp_all add: io_bind_def poll_serves body_word_def io_lift_def io_ret_def)
  show ?case
  proof (cases "body_word codecs encoded full b")
    case (Inl c)
    then show ?thesis unfolding step by (auto simp: io_bind_def io_lift_def)
  next
    case (Inr word)
    obtain w' where w': "decode_body_blocks codecs encoded full rest (tick w) =
        (map_err Plain (ebind (emap (body_word codecs encoded full) rest) (\<lambda>words. Inr (concat words))), w')"
      "reads_only (tick w) w'"
      using Cons.IH [of "tick w"] Cons.prems by auto
    have "reads_only w w'" using reads_only_trans [OF reads_only_tick w'(2)] .
    then show ?thesis
      unfolding step using Inr w'(1)
      by (cases "emap (body_word codecs encoded full) rest") (auto simp: io_bind_def io_lift_def io_ret_def)
  qed
qed

lemma systematic_body:
  "decoded_body codecs word False = Inr (systematic_bytes word)"
proof -
  have "emap (body_word codecs word False) [0..<length word div 136] =
      Inr (map (\<lambda>b. take 128 (slice (b * 136) 136 word)) [0..<length word div 136])"
    by (rule emap_all_Inr) (simp add: body_word_def)
  then show ?thesis by (simp add: decoded_body_def systematic_bytes_def)
qed

lemma corrected_body:
  assumes ok: "fec_ok t (RS128 codecs)" "codecs_sized codecs"
    and near: "coded_near t (RS128 codecs) k data word"
  shows "decoded_body codecs word True = Inr data"
proof -
  have sz: "fec_required (RS128 codecs) = 128" "fec_total (RS128 codecs) = 136"
    using ok(2) by (simp_all add: codecs_sized_def)
  have l: "length data = k * 128" "length word = k * 136" using near sz by (simp_all add: coded_near_def)
  have "body_word codecs word True b = Inr (slice (b * 128) 128 data)" if "b < k" for b
    using coded_near_decode_into [OF ok(1) near that, of "replicate 128 0"] sz
    by (simp add: body_word_def)
  then have "emap (body_word codecs word True) [0..<k] = Inr (map (\<lambda>b. slice (b * 128) 128 data) [0..<k])"
    by (intro emap_all_Inr) simp
  moreover have "concat (map (\<lambda>b. slice (b * 128) 128 data) [0..<k]) = data"
    using concat_slices [of 128 data k] l(1) by simp
  ultimately show ?thesis using l by (simp add: decoded_body_def)
qed

lemma decode_body_or_fail_served:
  assumes img: "serves img w" and codecs: "ev_codecs ev = codecs"
    and word: "length word = k * 136" "0 < k" and d: "decoded_body codecs word full = Inr decoded"
  obtains w' where "decode_body_or_fail ev stage word (k * 128) full w = (Inr decoded, w')" "reads_only w w'"
proof -
  obtain w' where "decode_body_blocks codecs word full [0..<k] w =
      (map_err Plain (ebind (emap (body_word codecs word full) [0..<k]) (\<lambda>words. Inr (concat words))), w')"
    and r: "reads_only w w'"
    using decode_body_blocks_served [OF img] by blast
  moreover have "ebind (emap (body_word codecs word full) [0..<k]) (\<lambda>words. Inr (concat words)) = Inr decoded"
    using d word by (simp add: decoded_body_def)
  ultimately have "decode_body_blocks codecs word full [0..<k] w = (Inr decoded, w')" by simp
  then have "decodeRecordBody codecs word (k * 128) full w = (Inr decoded, w')"
    using word by (auto simp: decodeRecordBody_def)
  then show thesis using that r by (simp add: decode_body_or_fail_def codecs)
qed

lemma written_body_authentic:
  assumes lay: "canonical_layout core rs g" and sealed: "sealed_record P core rs keys i plain semantic"
  shows "authenticateDecodedRecord P (core_suite core) (wk_payloadMAC keys) (coreCommitment P core)
    (record_at core rs i) (written_body rs (exp_encodedBodyLength (record_at core rs i)) semantic) = Inr True"
    "length semantic = rec_plain (unat (core_plaintextLength core)) i + 64"
proof -
  let ?e = "record_at core rs i" and ?m = "rec_plain (unat (core_plaintextLength core)) i"
  obtain ct tag where S: "semantic = ct @ tag" "length plain = ?m"
    and c: "if exp_final ?e then ct = []
        else suite_wrap P (core_suite core) (replicate (length plain) 0) plain
               (wk_payloadXChaCha20 keys) (exp_nonce ?e) (wk_payloadSerpent keys) (exp_serpentIV ?e) = Inr ct"
    and tag: "recordTag P (core_suite core) (wk_payloadMAC keys) (coreCommitment P core) (exp_descriptor ?e) ct = Inr tag"
    using sealed by (auto simp: sealed_record_def Let_def)
  have tl: "length tag = 64" by (rule recordTag_length [OF tag])
  have cl: "length ct = ?m"
  proof (cases "exp_final ?e")
    case True
    then show ?thesis using c by (simp add: rec_plain_final)
  next
    case False
    show ?thesis using c [unfolded if_not_P [OF False]] S(2) suite_pair.wrap_length by metis
  qed
  then show len: "length semantic = ?m + 64" using S(1) tl by simp
  let ?b = "written_body rs (exp_encodedBodyLength ?e) semantic"
  obtain z where z: "?b = ct @ tag @ replicate z 0" 
    by (rule that [of "if rs then exp_encodedBodyLength ?e div 136 * 128 - length semantic else 0"])
      (simp add: written_body_def S(1))
  have m: "?m \<le> 1048576" by (rule rec_plain_le)
  have u: "unat (word_of_nat ?m :: u64) = ?m" "unat (word_of_nat (?m + 64) :: u64) = ?m + 64"
    by (rule unat_word_small, use m in simp)+
  have lit: "unat (64 :: u64) = 64" by simp
  have add: "checkedAdd64 (word_of_nat ?m) 64 = Some (word_of_nat (?m + 64))"
    unfolding add64.Some_iff u lit ..
  have small: "\<not> uint (word_of_nat ?m :: u64) > MaxInt64" "\<not> uint (word_of_nat (?m + 64) :: u64) > MaxInt64"
    unfolding uint_nat u MaxInt64_def using m by simp_all
  have v: "verifyRecordTag P (core_suite core) (wk_payloadMAC keys) (coreCommitment P core) (exp_descriptor ?e) ct tag = Inr True"
    using tag tl by (simp add: verifyRecordTag_def)
  have parts: "drop (?m + 64) ?b = replicate z 0" "take ?m ?b = ct" "slice ?m 64 ?b = tag" "?m + 64 \<le> length ?b"
    unfolding z using cl tl by (simp_all add: slice_def)
  show "authenticateDecodedRecord P (core_suite core) (wk_payloadMAC keys) (coreCommitment P core) ?e ?b = Inr True"
    unfolding authenticateDecodedRecord_def record_at_sel(6) add option.case Let_def u
    using small parts v by (simp add: recordPaddingIsZero_def list_all_iff)
qed

lemma evaluates_room:
  assumes ev: "evaluates P core rs g keys codecs ev"
  shows "body_len rs (rec_plain (unat (core_plaintextLength core)) i) div 136 * 128 \<le> ev_decodedBody ev \<or> \<not> rs"
    "body_len rs (rec_plain (unat (core_plaintextLength core)) i) \<le> ev_decodedBody ev \<or> rs"
    "ev_plaintext ev = rec_plain (unat (core_plaintextLength core)) 0"
    "geo_payloadBodyRS (ev_geometry ev) = rs"
proof -
  let ?n = "unat (core_plaintextLength core)"
  have d: "ev_decodedBody ev = (if rs then body_len rs (rec_plain ?n 0) div 136 * 128 else body_len rs (rec_plain ?n 0))"
    and p: "ev_plaintext ev = unat (word_of_nat (rec_plain ?n 0) :: u64)"
    and g: "canonical_layout core rs g" "ev_geometry ev = g"
    using ev decodedRecordBodyLength_at [of core rs 0] by (simp_all add: evaluates_def Let_def)
  show "body_len rs (rec_plain ?n i) div 136 * 128 \<le> ev_decodedBody ev \<or> \<not> rs"
    "body_len rs (rec_plain ?n i) \<le> ev_decodedBody ev \<or> rs"
    using d body_len_mono [OF rec_plain_first [of ?n i], of rs] by (auto simp: div_le_mono)
  show "ev_plaintext ev = rec_plain ?n 0"
    unfolding p by (rule unat_word_small) (use rec_plain_le [of ?n 0] in simp)
  show "geo_payloadBodyRS (ev_geometry ev) = rs" using g by (auto simp: canonical_layout_def)
qed

lemma read_body_image:
  fixes core :: logicalCore
  defines "n \<equiv> unat (core_plaintextLength core)"
  assumes ev: "evaluates P core rs g keys codecs ev" and img: "serves img w"
    and ok: "fec_ok t (RS128 codecs)" "codecs_sized codecs"
    and inside: "record_start core rs i + 48 + body_len rs (rec_plain n i) \<le> length img"
    and sealed: "sealed_record P core rs keys i plain semantic"
    and near: "body_near t codecs rs (body_len rs (rec_plain n i)) semantic
      (slice (record_start core rs i + 48) (body_len rs (rec_plain n i)) img)"
    and genuine: "\<not> forged_body P core rs keys i semantic
      (slice (record_start core rs i + 48) (body_len rs (rec_plain n i)) img)"
  obtains w' where "read_body P ev (record_at core rs i) w =
      (Inr (written_body rs (body_len rs (rec_plain n i)) semantic, True), w')" "reads_only w w'"
proof -
  let ?e = "record_at core rs i" and ?L = "body_len rs (rec_plain n i)"
  let ?word = "slice (record_start core rs i + 48) ?L img"
  have el: "exp_encodedBodyLength ?e = ?L" by (simp add: n_def)
  have lay: "canonical_layout core rs g" and sel: "ev_core ev = core" "ev_codecs ev = codecs"
    "rk_mac (ev_keys ev) = wk_payloadMAC keys" "ev_commitment ev = coreCommitment P core"
    using ev by (simp_all add: evaluates_def)
  note A = written_body_authentic [OF lay sealed, unfolded el]
  note R = evaluates_room(1,2) [OF ev, of i, folded n_def] evaluates_room(3,4) [OF ev, folded n_def]
  have auth: "authenticate_body P ev ?e = authenticateDecodedRecord P (core_suite core) (wk_payloadMAC keys)
      (coreCommitment P core) ?e" by (rule ext) (simp add: authenticate_body_def sel)
  have aw: "authenticate_body P ev ?e (written_body rs ?L semantic) = Inr True" unfolding auth by (rule A(1))
  define stage where "stage = record_body_stage ?e rs"
  obtain w1 where r: "readRecordExactAt (int (record_start core rs i + 48)) ?L stage w = (Inr ?word, w1)" "reads_only w w1"
    by (rule readRecordExactAt_image [OF img inside])
  have img1: "serves img w1" using img r(2) by (simp add: serves_only)
  note start = read_body_def [of P ev ?e, unfolded Let_def R(4) stage_def [symmetric] record_at_offsets(2) el]
  show thesis
  proof (cases rs)
    case False
    then have word: "?word = semantic" "written_body rs ?L semantic = semantic"
      using near by (simp_all add: body_near_def written_body_def)
    have "decodedRecordBodyLength ?e rs = Some ?L" using decodedRecordBodyLength_at [of core rs i] False by (simp add: n_def)
    then have "read_body P ev ?e w = (Inr (written_body rs ?L semantic, True), w1)"
      unfolding start io_bind_def using r(1) R(2) aw False word by (simp add: io_ret_def)
    then show thesis using r(2) by (rule that)
  next
    case True
    define k where "k = ?L div 136"
    have L: "?L = k * 136" "0 < k" using body_len_blocks [OF True, of "rec_plain n i"] by (auto simp: k_def)
    have wl: "length ?word = k * 136" using L inside by simp
    have near': "coded_near t (RS128 codecs) k (written_body rs ?L semantic) ?word"
      using near True by (simp add: body_near_def k_def)
    have dl: "decodedRecordBodyLength ?e rs = Some (k * 128)"
      using decodedRecordBodyLength_at [of core rs i] True by (simp add: n_def k_def)
    have room: "\<not> k * 128 > ev_decodedBody ev" using R(1) True by (simp add: k_def)
    obtain w2 where d1: "decode_body_or_fail ev stage ?word (k * 128) False w1 = (Inr (systematic_bytes ?word), w2)"
      "reads_only w1 w2"
      by (rule decode_body_or_fail_served [OF img1 sel(2) wl L(2) systematic_body])
    have img2: "serves img w2" using img1 d1(2) by (simp add: serves_only)
    obtain w3 where d2: "decode_body_or_fail ev stage ?word (k * 128) True w2 = (Inr (written_body rs ?L semantic), w3)"
      "reads_only w2 w3"
      by (rule decode_body_or_fail_served [OF img2 sel(2) wl L(2) corrected_body [OF ok near']])
    have r2: "reads_only w w2" using r(2) d1(2) by (rule reads_only_trans)
    have r3: "reads_only w w3" using r2 d2(2) by (rule reads_only_trans)
    show thesis
    proof (cases "authenticate_body P ev ?e (systematic_bytes ?word) = Inr True")
      case v: True
      then have "systematic_bytes ?word = written_body rs ?L semantic"
        using genuine True unfolding forged_body_def auth el by blast
      then have "read_body P ev ?e w = (Inr (written_body rs ?L semantic, True), w2)"
        unfolding start io_bind_def using r(1) dl room d1(1) v True by (simp add: io_ret_def)
      then show thesis using r2 by (rule that)
    next
      case v: False
      have "read_body P ev ?e w = (Inr (written_body rs ?L semantic, True), w3)"
        unfolding start io_bind_def using r(1) dl room d1(1) v True d2(1) aw by (simp add: io_ret_def)
      then show thesis using r3 by (rule that)
    qed
  qed
qed

section \<open>The plaintext\<close>

lemma suite_unwrap_standard:
  "suite_unwrap P SuiteStandard dst src x n k iv = suite_unwrap P SuiteStandard dst src x n k' iv"
  by (simp add: suite_unwrap_def)

lemma decrypt_body_image:
  fixes core :: logicalCore
  defines "n \<equiv> unat (core_plaintextLength core)"
  assumes ev: "evaluates P core rs g keys codecs ev" and img: "serves img w"
    and sealed: "sealed_record P core rs keys i plain semantic" and i: "i < rec_count n"
  shows "decrypt_body P ev (record_at core rs i) (written_body rs (body_len rs (rec_plain n i)) semantic) w =
    (Inr plain, tick w)"
proof -
  let ?e = "record_at core rs i" and ?m = "rec_plain n i"
  let ?b = "written_body rs (body_len rs ?m) semantic"
  have nf: "\<not> exp_final ?e" using i by (simp add: n_def)
  obtain ct tag where S: "semantic = ct @ tag" "length plain = ?m"
    and c: "suite_wrap P (core_suite core) (replicate (length plain) 0) plain
               (wk_payloadXChaCha20 keys) (exp_nonce ?e) (wk_payloadSerpent keys) (exp_serpentIV ?e) = Inr ct"
    using sealed nf unfolding sealed_record_def Let_def n_def by auto
  have cl: "length ct = ?m" using suite_pair.wrap_length [OF c] S(2) by simp
  have lay: "canonical_layout core rs g" and sel: "ev_core ev = core"
    "rk_xChaCha20 (ev_keys ev) = wk_payloadXChaCha20 keys"
    "core_suite core = SuiteParanoid \<Longrightarrow> rk_serpent (ev_keys ev) = wk_payloadSerpent keys"
    using ev by (simp_all add: evaluates_def)
  have suite: "core_suite core = SuiteStandard \<or> core_suite core = SuiteParanoid"
    using lay by (auto simp: canonical_layout_def validLogicalCore_def isSupportedSuite_def split: if_splits)
  have plain: "suite_unwrap P (core_suite core) (replicate ?m 0) ct (rk_xChaCha20 (ev_keys ev)) (exp_nonce ?e)
      (rk_serpent (ev_keys ev)) (exp_serpentIV ?e) = Inr plain"
  proof -
    have u: "suite_unwrap P (core_suite core) (replicate ?m 0) ct (wk_payloadXChaCha20 keys) (exp_nonce ?e)
        (wk_payloadSerpent keys) (exp_serpentIV ?e) = Inr plain"
      using suite_pair.unwrap_wrap [OF c, of "replicate ?m 0"] S(2) by simp
    then show ?thesis
      using suite sel suite_unwrap_standard [of P "replicate ?m 0" ct "wk_payloadXChaCha20 keys" "exp_nonce ?e"
          "rk_serpent (ev_keys ev)" "exp_serpentIV ?e" "wk_payloadSerpent keys"] by auto
  qed
  have len: "?m + 64 \<le> length ?b"
    using written_body_authentic(2) [OF lay sealed] by (simp add: written_body_def n_def)
  have tk: "take ?m ?b = ct" using S(1) cl by (simp add: written_body_def)
  have m: "?m \<le> 1048576" "?m \<le> rec_plain n 0" by (rule rec_plain_le rec_plain_first)+
  have u: "unat (word_of_nat ?m :: u64) = ?m" by (rule unat_word_small) (use m in simp)
  have small: "\<not> uint (word_of_nat ?m :: u64) > MaxInt64"
    unfolding uint_nat u MaxInt64_def using m by simp
  have cc: "checkedRecordCiphertextLength (exp_ciphertextLength ?e) (length ?b) (ev_plaintext ev) = Some ?m"
    unfolding checkedRecordCiphertextLength_def record_at_sel(6) n_def [symmetric] u
      evaluates_room(3) [OF ev, folded n_def] using small len m(2) by simp
  show ?thesis
    unfolding decrypt_body_def Let_def cc option.case tk sel(1) plain sum.case
    using img by (simp add: io_bind_def io_ret_def poll_serves)
qed

section \<open>One record, and all of them\<close>

text \<open>The bytes of record \<open>i\<close> in the image.\<close>

definition record_bytes :: "logicalCore \<Rightarrow> bool \<Rightarrow> nat \<Rightarrow> byte list \<Rightarrow> byte list" where
  "record_bytes core rs i img =
     slice (record_start core rs i) (rec_len rs (unat (core_plaintextLength core)) i) img"

lemma record_bytes_parts:
  fixes core :: logicalCore
  defines "n \<equiv> unat (core_plaintextLength core)"
  assumes "record_start core rs i + rec_len rs n i \<le> length img"
  shows "take 48 (record_bytes core rs i img) = slice (record_start core rs i) 48 img"
    "drop 48 (record_bytes core rs i img) = slice (record_start core rs i + 48) (body_len rs (rec_plain n i)) img"
  using assms by (simp_all add: record_bytes_def rec_len_def slice_def drop_take min_def add.commute)

lemma record_read_image:
  fixes core :: logicalCore
  defines "n \<equiv> unat (core_plaintextLength core)"
  assumes ev: "evaluates P core rs g keys codecs ev" and img: "serves img w"
    and ok: "fec_ok t (RS16 codecs)" "fec_ok t (RS128 codecs)" "codecs_sized codecs"
    and inside: "record_start core rs i + rec_len rs n i \<le> length img"
    and near: "record_near t P core rs keys codecs i plain (record_bytes core rs i img)"
  obtains semantic w' where "sealed_record P core rs keys i plain semantic"
    "io_bind (check_descriptor ev (record_at core rs i)) (\<lambda>_. read_body P ev (record_at core rs i)) w =
      (Inr (written_body rs (body_len rs (rec_plain n i)) semantic, True), w')" "reads_only w w'"
proof -
  let ?e = "record_at core rs i"
  note parts = record_bytes_parts [OF inside [unfolded n_def], folded n_def]
  have el: "exp_encodedBodyLength ?e = body_len rs (rec_plain n i)" by (simp add: n_def)
  obtain semantic where S: "sealed_record P core rs keys i plain semantic"
    "coded_near t (RS16 codecs) 1 (exp_descriptor ?e) (slice (record_start core rs i) 48 img)"
    "body_near t codecs rs (body_len rs (rec_plain n i)) semantic
       (slice (record_start core rs i + 48) (body_len rs (rec_plain n i)) img)"
    "\<not> forged_body P core rs keys i semantic
       (slice (record_start core rs i + 48) (body_len rs (rec_plain n i)) img)"
    using near unfolding record_near_def Let_def parts el by blast
  obtain w1 where d: "check_descriptor ev ?e w = (Inr (), w1)" "reads_only w w1"
    by (rule check_descriptor_image [OF ev img ok(1,3) _ S(2)]) (use inside in \<open>simp_all add: rec_len_def\<close>)
  have img1: "serves img w1" using img d(2) by (simp add: serves_only)
  have in': "record_start core rs i + 48 + body_len rs (rec_plain (unat (core_plaintextLength core)) i) \<le> length img"
    using inside by (simp add: rec_len_def n_def)
  obtain w2 where b: "read_body P ev ?e w1 = (Inr (written_body rs (body_len rs (rec_plain n i)) semantic, True), w2)"
    "reads_only w1 w2"
    using read_body_image [OF ev img1 ok(2,3) in' S(1) S(3,4) [unfolded n_def]] unfolding n_def by blast
  show thesis
    by (rule that [OF S(1), of w2]) (use d b reads_only_trans [OF d(2) b(2)] in \<open>simp_all add: io_bind_def\<close>)
qed

definition sink_accepts :: "env \<Rightarrow> bool" where
  "sink_accepts e \<longleftrightarrow> (\<forall>t index bytes. env_sink e t index bytes = None)"

lemma record_step_data:
  fixes core :: logicalCore
  defines "n \<equiv> unat (core_plaintextLength core)"
  assumes ev: "evaluates P core rs g keys codecs ev" and img: "serves img w" and sink: "sink_accepts (w_env w)"
    and ok: "fec_ok t (RS16 codecs)" "fec_ok t (RS128 codecs)" "codecs_sized codecs"
    and i: "i < rec_count n" and inside: "record_start core rs i + rec_len rs n i \<le> length img"
    and near: "record_near t P core rs keys codecs i plain (record_bytes core rs i img)"
  shows "\<exists>w'. record_step P ev (word_of_nat i) (word_of_nat i) (word_of_nat (min n (i * 1048576))) w =
      (Inr (word_of_nat (Suc i), word_of_nat (min n (Suc i * 1048576))), w') \<and>
    emits w [(word_of_nat i, plain)] w' \<and> length plain = rec_plain n i"
proof -
  let ?e = "record_at core rs i"
  have lay: "canonical_layout core rs g" and sel: "ev_core ev = core" "ev_geometry ev = g"
    using ev by (simp_all add: evaluates_def)
  have exp: "expectedRecord core g (word_of_nat i) = Some ?e"
    using expectedRecord_canonical [OF lay, of i] i by (simp add: n_def)
  have img0: "serves img (tick w)" using img by simp
  obtain semantic w1 where S: "sealed_record P core rs keys i plain semantic"
    and r: "io_bind (check_descriptor ev ?e) (\<lambda>_. read_body P ev ?e) (tick w) =
      (Inr (written_body rs (body_len rs (rec_plain n i)) semantic, True), w1)" "reads_only (tick w) w1"
    using record_read_image [OF ev img0 ok inside [unfolded n_def] near] unfolding n_def by blast
  have img1: "serves img w1" using img0 r(2) by (simp add: serves_only)
  note dec = decrypt_body_image [OF ev img1 S i [unfolded n_def], folded n_def]
  let ?ev = "evidence_of ?e True"
  have nfe: "\<not> exp_final ?e" using i by (simp add: n_def)
  define w3 where "w3 = (tick (tick w1))\<lparr>w_emitted := w_emitted (tick w1) @ [(word_of_nat i, plain)]\<rparr>"
  have env: "w_env w1 = w_env w" using r(2) reads_only_fields(1) [OF r(2)] by (simp add: tick_def)
  have cb: "normal_record_callback ?ev plain (tick w1) = ((None, (?ev, None, False)), w3)"
    using sink env i
    by (simp add: normal_record_callback_def evidence_of_def writeVerifiedRecord_def sink_accepts_def w3_def n_def tick_def)
  have img3: "serves img w3" using img1 by (simp add: w3_def serves_def tick_def)
  have run: "evaluateCanonicalRecord P ev (word_of_nat i) False normal_record_callback w =
      ((None, Some (?ev, None, False)), tick w3)"
    unfolding evaluateCanonicalRecord_def sel exp option.case Let_def evidence_of_def [symmetric] poll_serves [OF img]
      sum.case prod.case r(1) if_not_P [OF nfe] dec cb poll_serves [OF img3] by simp
  have pl: "length plain = rec_plain n i" using S by (auto simp: sealed_record_def Let_def n_def)
  have em: "emits w [(word_of_nat i, plain)] (tick w3)"
  proof -
    have "emits w [] (tick w1)" using reads_only_trans [OF reads_only_trans [OF reads_only_tick r(2)] reads_only_tick] by simp
    moreover have "emits (tick w1) [(word_of_nat i, plain)] (tick w3)"
      unfolding emits_def by (rule exI [of _ "w_tick w3 + 1"], rule exI [of _ "[]"]) (simp add: w3_def tick_def)
    ultimately show ?thesis using emits_trans by fastforce
  qed
  have un: "n < 2 ^ 64" unfolding n_def by (rule unat_u64_less)
  have rc: "rec_count n < 281474976710656" using rec_count_bound [of n] un by simp
  have u: "unat (word_of_nat i :: u64) = i" "unat (word_of_nat (Suc i) :: u64) = Suc i"
    "unat (word_of_nat (rec_plain n i) :: u64) = rec_plain n i"
    "unat (word_of_nat (min n (i * 1048576)) :: u64) = min n (i * 1048576)"
    "unat (word_of_nat (min n (Suc i * 1048576)) :: u64) = min n (Suc i * 1048576)"
    by (rule unat_word_small, use rc i un rec_plain_le [of n i] in simp)+
  have a1: "checkedAdd64 (word_of_nat i) 1 = Some (word_of_nat (Suc i))"
    unfolding add64.Some_iff u by simp
  have a2: "checkedAdd64 (word_of_nat (min n (i * 1048576))) (evd_plaintextLength ?ev) =
      Some (word_of_nat (min n (Suc i * 1048576)))"
    unfolding evidence_of_def recordEvidence.select_convs record_at_sel(6) n_def [symmetric] add64.Some_iff u
    by (rule rec_plain_step [symmetric])
  have a3: "\<not> word_of_nat (min n (Suc i * 1048576)) > core_plaintextLength core"
    unfolding word_less_nat_alt u n_def [symmetric] by simp
  have nf: "\<not> evd_final ?ev" using i by (simp add: evidence_of_def n_def)
  have "record_step P ev (word_of_nat i) (word_of_nat i) (word_of_nat (min n (i * 1048576))) w =
      (Inr (word_of_nat (Suc i), word_of_nat (min n (Suc i * 1048576))), tick w3)"
    unfolding record_step_def run prod.case option.case bool.case if_not_P [OF nf] a1 a2 sel
    using a3 by simp
  then show ?thesis using em pl by blast
qed

lemma record_step_final:
  fixes core :: logicalCore
  defines "n \<equiv> unat (core_plaintextLength core)"
  assumes ev: "evaluates P core rs g keys codecs ev" and img: "serves img w"
    and ok: "fec_ok t (RS16 codecs)" "fec_ok t (RS128 codecs)" "codecs_sized codecs"
    and inside: "record_start core rs (rec_count n) + rec_len rs n (rec_count n) \<le> length img"
    and near: "record_near t P core rs keys codecs (rec_count n) plain (record_bytes core rs (rec_count n) img)"
  shows "\<exists>w' v. record_step P ev (word_of_nat (rec_count n)) (word_of_nat (rec_count n)) (word_of_nat n) w =
      (Inl (Inr v), w') \<and> reads_only w w' \<and> plain = []"
proof -
  let ?e = "record_at core rs (rec_count n)"
  have lay: "canonical_layout core rs g" and sel: "ev_core ev = core" "ev_geometry ev = g"
    using ev by (simp_all add: evaluates_def)
  have exp: "expectedRecord core g (word_of_nat (rec_count n)) = Some ?e"
    using expectedRecord_canonical [OF lay, of "rec_count n"] by (simp add: n_def)
  have img0: "serves img (tick w)" using img by simp
  obtain semantic w1 where S: "sealed_record P core rs keys (rec_count n) plain semantic"
    and r: "io_bind (check_descriptor ev ?e) (\<lambda>_. read_body P ev ?e) (tick w) =
      (Inr (written_body rs (body_len rs (rec_plain n (rec_count n))) semantic, True), w1)" "reads_only (tick w) w1"
    using record_read_image [OF ev img0 ok inside [unfolded n_def] near [unfolded n_def]] unfolding n_def by blast
  let ?ev = "evidence_of ?e True"
  have fe: "exp_final ?e" by (simp add: n_def)
  have cb: "normal_record_callback ?ev [] w1 = ((None, (?ev, None, False)), w1)"
    using fe by (simp add: normal_record_callback_def evidence_of_def)
  have run: "evaluateCanonicalRecord P ev (word_of_nat (rec_count n)) False normal_record_callback w =
      ((None, Some (?ev, None, False)), w1)"
    unfolding evaluateCanonicalRecord_def sel exp option.case Let_def evidence_of_def [symmetric] poll_serves [OF img]
      sum.case prod.case r(1) if_P [OF fe] cb by simp
  have f: "evd_final ?ev" using fe by (simp add: evidence_of_def)
  have c: "word_of_nat (rec_count n) = core_recordCount core" "word_of_nat n = core_plaintextLength core"
    using canonical_layout_count(1) [OF lay] by (simp_all add: n_def)
  have "record_step P ev (word_of_nat (rec_count n)) (word_of_nat (rec_count n)) (word_of_nat n) w =
      (Inl (Inr \<lparr>rv_dataRecords = word_of_nat (rec_count n), rv_plaintextBytes = word_of_nat n\<rparr>), w1)"
    unfolding record_step_def run prod.case option.case bool.case if_P [OF f] sel using c by simp
  moreover have "reads_only w w1" using reads_only_trans [OF reads_only_tick r(2)] .
  moreover have "plain = []"
    using S rec_plain_final [of n] by (auto simp: sealed_record_def Let_def n_def)
  ultimately show ?thesis by blast
qed

lemma emits_serves: "emits w recs w' \<Longrightarrow> serves img w' = serves img w"
  by (auto simp: emits_def serves_def)

lemma emits_env: "emits w recs w' \<Longrightarrow> w_env w' = w_env w"
  by (auto simp: emits_def)

lemma record_loop_image:
  fixes core :: logicalCore
  defines "n \<equiv> unat (core_plaintextLength core)"
  assumes ev: "evaluates P core rs g keys codecs ev"
    and ok: "fec_ok t (RS16 codecs)" "fec_ok t (RS128 codecs)" "codecs_sized codecs"
    and inside: "\<And>i. i \<le> rec_count n \<Longrightarrow> record_start core rs i + rec_len rs n i \<le> length img"
    and near: "\<And>i. i \<le> rec_count n \<Longrightarrow> record_near t P core rs keys codecs i (plains ! i) (record_bytes core rs i img)"
    and "i + m = rec_count n" and "serves img w" and "sink_accepts (w_env w)"
  shows "\<exists>v w'. record_loop P ev (Suc m + k) (word_of_nat i) (word_of_nat i) (word_of_nat (min n (i * 1048576))) w =
      (Some (Inr v), w') \<and> emits w (map (\<lambda>j. (word_of_nat j, plains ! j)) [i..<rec_count n]) w' \<and>
    plains ! rec_count n = []"
  using assms(8-10)
proof (induction m arbitrary: i w)
  case 0
  have i: "i = rec_count n" using 0 by simp
  have "n \<le> i * 1048576" using rec_plain_final [of n] unfolding i by (simp add: rec_plain_def)
  then have mn: "min n (i * 1048576) = n" by simp
  from record_step_final [OF ev 0(2) ok] inside [of i] near [of i] i obtain w' v where
    "record_step P ev (word_of_nat i) (word_of_nat i) (word_of_nat n) w = (Inl (Inr v), w')" "reads_only w w'"
    "plains ! i = []" unfolding n_def by blast
  then show ?case unfolding mn using i by simp
next
  case (Suc m)
  have i: "i < rec_count n" using Suc.prems by simp
  obtain w1 where st: "record_step P ev (word_of_nat i) (word_of_nat i) (word_of_nat (min n (i * 1048576))) w =
      (Inr (word_of_nat (Suc i), word_of_nat (min n (Suc i * 1048576))), w1)"
    and em: "emits w [(word_of_nat i, plains ! i)] w1"
    using record_step_data [OF ev Suc.prems(2,3) ok i [unfolded n_def] _ near] inside [of i] i unfolding n_def by auto
  have s1: "serves img w1" "sink_accepts (w_env w1)"
    using Suc.prems(2,3) emits_serves [OF em] emits_env [OF em] by simp_all
  from Suc.IH [OF _ s1, of "Suc i"] Suc.prems(1) obtain v w' where
    rest: "record_loop P ev (Suc m + k) (word_of_nat (Suc i)) (word_of_nat (Suc i)) (word_of_nat (min n (Suc i * 1048576))) w1 =
      (Some (Inr v), w')" "emits w1 (map (\<lambda>j. (word_of_nat j, plains ! j)) [Suc i..<rec_count n]) w'"
      "plains ! rec_count n = []" by auto
  have "map (\<lambda>j. (word_of_nat j :: u64, plains ! j)) [i..<rec_count n] =
      [(word_of_nat i, plains ! i)] @ map (\<lambda>j. (word_of_nat j, plains ! j)) [Suc i..<rec_count n]"
    using i by (simp add: upt_conv_Cons)
  then have "emits w (map (\<lambda>j. (word_of_nat j, plains ! j)) [i..<rec_count n]) w'"
    using emits_trans [OF em rest(2)] by (simp only:)
  moreover have "record_loop P ev (Suc (Suc m) + k) (word_of_nat i) (word_of_nat i) (word_of_nat (min n (i * 1048576))) w =
      (Some (Inr v), w')"
    using st rest(1) by (simp add: add.commute)
  ultimately show ?case using rest(3) by blast
qed

text \<open>The keys a normal reader borrows are those of the writer.\<close>

definition lends_volume_keys :: "(KeyRequest \<Rightarrow> byte list lend) \<Rightarrow> normalWriteKeys \<Rightarrow> bool" where
  "lends_volume_keys lend keys \<longleftrightarrow>
     lend metadata_key = (Some (wk_metadataMAC keys), None) \<and>
     lend (volume_key_request KeyLabelVolumePayloadXChaCha20) = (Some (wk_payloadXChaCha20 keys), None) \<and>
     lend (volume_key_request KeyLabelVolumePayloadSerpent) = (Some (wk_payloadSerpent keys), None) \<and>
     lend (volume_key_request KeyLabelVolumePayloadMAC) = (Some (wk_payloadMAC keys), None)"

lemma borrow_record_key_lent:
  assumes "auth_lender auth (volume_key_request label) = (Some key, None)" and "length key = 32"
  shows "borrow_record_key auth label w = (Inr key, w)"
  using assms by (simp add: borrow_record_key_def borrow_def io_ret_def)

lemma newRecordEvaluator_image:
  assumes lay: "canonical_layout core rs g" and img: "serves img w"
    and sized: "codecs_sized codecs" and lend: "lends_volume_keys (auth_lender auth) keys" and keys: "keys_sized keys"
  shows "\<exists>ev w'. newRecordEvaluator P core g codecs auth w = (Inr ev, w') \<and> reads_only w w' \<and>
    evaluates P core rs g keys codecs ev"
proof -
  let ?n = "unat (core_plaintextLength core)"
  let ?e0 = "record_at core rs 0" and ?ef = "record_at core rs (rec_count ?n)"
  have rs: "geo_payloadBodyRS g = rs" using lay by (auto simp: canonical_layout_def)
  have suite: "core_suite core = SuiteStandard \<or> core_suite core = SuiteParanoid"
    using lay by (auto simp: canonical_layout_def validLogicalCore_def isSupportedSuite_def split: if_splits)
  have m: "recordGeometryMatchesCore core g" by (rule recordGeometryMatchesCore_canonical [OF lay])
  have vc: "validRecordCodecs codecs (geo_payloadBodyRS g)"
    using sized by (simp add: validRecordCodecs_def codecs_sized_def)
  have e: "expectedRecord core g 0 = Some ?e0" "expectedRecord core g (core_recordCount core) = Some ?ef"
    using expectedRecord_canonical [OF lay, of 0] expectedRecord_canonical [OF lay, of "rec_count ?n"]
      canonical_layout_count(1) [OF lay] by simp_all
  have nb: "\<not> exp_encodedBodyLength ?ef > exp_encodedBodyLength ?e0"
    using body_len_mono [OF rec_plain_first [of ?n "rec_count ?n"], of rs] by (simp add: not_less)
  obtain d where d: "decodedRecordBodyLength ?e0 rs = Some d" using decodedRecordBodyLength_at by blast
  have small: "\<not> uint (exp_ciphertextLength ?e0) > MaxInt64"
  proof -
    have "unat (word_of_nat (rec_plain ?n 0) :: u64) = rec_plain ?n 0"
      by (rule unat_word_small) (use rec_plain_le [of ?n 0] in simp)
    then show ?thesis unfolding record_at_sel(6) uint_nat MaxInt64_def using rec_plain_le [of ?n 0] by simp
  qed
  have kl: "length (wk_payloadXChaCha20 keys) = 32" "length (wk_payloadSerpent keys) = 32" "length (wk_payloadMAC keys) = 32"
    using keys by (simp_all add: keys_sized_def)
  note lent = borrow_record_key_lent [OF lend [unfolded lends_volume_keys_def, THEN conjunct2, THEN conjunct1] kl(1)]
    borrow_record_key_lent [OF lend [unfolded lends_volume_keys_def, THEN conjunct2, THEN conjunct2, THEN conjunct1] kl(2)]
    borrow_record_key_lent [OF lend [unfolded lends_volume_keys_def, THEN conjunct2, THEN conjunct2, THEN conjunct2] kl(3)]
  define rk where "rk = \<lparr>rk_xChaCha20 = wk_payloadXChaCha20 keys,
      rk_serpent = (if core_suite core = SuiteParanoid then wk_payloadSerpent keys else replicate 32 0),
      rk_mac = wk_payloadMAC keys\<rparr>"
  have load: "loadRecordKeys auth (core_suite core) (tick w) = (Inr rk, tick w)"
    using suite lent by (auto simp: loadRecordKeys_def io_bind_def io_ret_def rk_def)
  let ?ev = "\<lparr>ev_core = core, ev_geometry = g, ev_codecs = codecs, ev_keys = rk,
      ev_commitment = coreCommitment P core, ev_encodedBody = exp_encodedBodyLength ?e0,
      ev_decodedBody = d, ev_plaintext = unat (exp_ciphertextLength ?e0)\<rparr>"
  have "newRecordEvaluator P core g codecs auth w = (Inr ?ev, tick w)"
    unfolding newRecordEvaluator_def Let_def io_bind_def poll_serves [OF img] prod.case sum.case
    using m vc nb d small load by (simp add: e rs io_ret_def del: record_at_sel)
  moreover have "evaluates P core rs g keys codecs ?ev"
    using lay d by (simp add: evaluates_def Let_def rk_def del: record_at_sel)
  ultimately show ?thesis by (intro exI conjI) (assumption | simp)+
qed

end
