(* ===== verification/Damaged_Volume.thy ===== *)
theory Damaged_Volume
  imports Read_Records
begin

text \<open>
  The regions of a written volume at their offsets, and a volume that was damaged within what
  its Reed-Solomon codes repair: at most \<open>t\<close> wrong bytes in every codeword of the capsules, the
  comment, the record descriptors, the coded record bodies and the trailer. The preamble and
  bodies without redundancy are not coded, so they must be intact.
\<close>

section \<open>The preamble of a core\<close>

lemma mask_clear:
  fixes x a b :: u16
  assumes "x AND NOT (a OR b) = 0" and "x AND b = 0"
  shows "x AND NOT a = 0"
  using assms by (auto simp: bit_eq_iff bit_simps)

definition core_preamble :: "logicalCore \<Rightarrow> Preamble" where
  "core_preamble core =
     \<lparr>pre_suite = core_suite core, pre_featureFlags = core_featureFlags core,
      pre_frontHeaderLength = core_frontHeaderLength core\<rparr>"

lemma preamble_of_core:
  assumes wf: "wf_core core" and v: "validLogicalCore core"
    and normal: "core_featureFlags core AND d1DerivedRootFeatureMask = 0"
  shows "take 4 (logicalCoreBytes core) = normalDiscriminator"
    "ParsePreamble normalDiscriminator (slice 4 12 (logicalCoreBytes core)) =
       Inr (core_preamble core)"
proof -
  have magic: "core_magic core = normalDiscriminator" and suite: "isSupportedSuite (core_suite core)"
    and fixed: "core_major core = formatMajor" "core_schema core = formatSchema"
    and flags: "core_featureFlags core AND NOT (supportedFeatureMask OR d1DerivedRootFeatureMask) = 0"
    using v by (auto simp: validLogicalCore_def split: if_splits)
  show "take 4 (logicalCoreBytes core) = normalDiscriminator"
    using wf by (simp add: logicalCoreBytes_def wf_core_def magic)
  let ?r = "put_u16 (core_major core) @ put_u16 (core_schema core) @ put_u16 (core_suite core) @
    put_u16 (core_featureFlags core) @ put_u32 (core_frontHeaderLength core)"
  have r: "slice 4 12 (logicalCoreBytes core) = ?r"
    using wf by (simp add: logicalCoreBytes_def wf_core_def slice_append_right slice_append_left slice_def)
  have parts: "slice 0 2 ?r = put_u16 (core_major core)" "slice 2 2 ?r = put_u16 (core_schema core)"
    "slice 4 2 ?r = put_u16 (core_suite core)" "slice 6 2 ?r = put_u16 (core_featureFlags core)"
    "slice 8 4 ?r = put_u32 (core_frontHeaderLength core)" "length ?r = 12"
    by (simp_all add: slice_append_right slice_append_left)
  note f = mask_clear [OF flags normal]
  note can = validLogicalCore_canonical [OF v]
  have "metadataBlocksFromFrontHeader (ucast (core_frontHeaderLength core)) =
      Some (word_of_nat (meta_blocks (unat (core_commentLength core))))"
    by (rule metadataBlocksFromFrontHeader_canonical [OF can(3,2)])
  then show "ParsePreamble normalDiscriminator (slice 4 12 (logicalCoreBytes core)) =
       Inr (core_preamble core)"
    unfolding r ParsePreamble_def Let_def parts core_preamble_def using suite fixed f by simp
qed

section \<open>Damage within the codewords\<close>

definition region_near :: "nat \<Rightarrow> nat \<Rightarrow> nat \<Rightarrow> nat \<Rightarrow> byte list \<Rightarrow> byte list \<Rightarrow> bool" where
  "region_near t k m off img img' \<longleftrightarrow>
     (\<forall>i < k. diffs (slice (off + i * m) m img) (slice (off + i * m) m img') \<le> t)"

definition damaged :: "nat \<Rightarrow> bool \<Rightarrow> nat \<Rightarrow> nat \<Rightarrow> byte list \<Rightarrow> byte list \<Rightarrow> bool" where
  "damaged t rs n c img img' \<longleftrightarrow>
     length img' = length img \<and> take 16 img' = take 16 img \<and>
     region_near t 5 192 16 img img' \<and>
     region_near t (meta_blocks c) 136 976 img img' \<and>
     (\<forall>i \<le> rec_count n.
        let start = front_len c + rec_off rs n i; body = body_len rs (rec_plain n i) in
        region_near t 1 48 start img img' \<and>
        (if rs then region_near t (body div 136) 136 (start + 48) img img'
         else slice (start + 48) body img' = slice (start + 48) body img)) \<and>
     region_near t 5 192 (front_len c + payload_len rs n) img img' \<and>
     region_near t 1 48 (front_len c + payload_len rs n + 960) img img'"

lemma region_near_refl [simp]: "region_near t k m off img img"
  by (simp add: region_near_def)

lemma undamaged: "damaged t rs n c img img"
  by (simp add: damaged_def Let_def)

lemma coded_near_region:
  assumes "region_near t k (fec_total rs) off img img'" and "length img' = length img"
    and img: "slice off (k * fec_total rs) img = coded rs k data"
    and "length data = k * fec_required rs" and "fec_required rs \<le> fec_total rs"
    and "off + k * fec_total rs \<le> length img"
  shows "coded_near t rs k data (slice off (k * fec_total rs) img')"
proof -
  have "slice (i * fec_total rs) (fec_total rs) (slice off (k * fec_total rs) x) =
      slice (off + i * fec_total rs) (fec_total rs) x" if "i < k" for i and x :: "byte list"
    by (rule slice_slice) (rule block_inside [OF that])
  then show ?thesis
    using assms slice_coded [OF assms(5,4)] by (auto simp: coded_near_def region_near_def img [symmetric])
qed

section \<open>The regions of the image\<close>

lemma slice_concat_nth:
  "i < length xs \<Longrightarrow> slice (sum_list (map length (take i xs))) (length (xs ! i)) (concat xs) = xs ! i"
proof (induction xs arbitrary: i)
  case (Cons x xs)
  then show ?case by (cases i) (simp_all add: slice_append_right slice_append_left slice_full)
qed simp

lemma records_image_nth:
  assumes "records_image P core rs keys codecs 0 plains images"
    and "i \<le> rec_count (unat (core_plaintextLength core))"
  shows "record_image P core rs keys codecs i (plains ! i) (images ! i)"
    "length images = Suc (rec_count (unat (core_plaintextLength core)))" "length plains = length images"
proof -
  have a: "list_all2 (\<lambda>(j, plain) bytes. record_image P core rs keys codecs (0 + j) plain bytes)
       (zip [0..<length plains] plains) images"
    using assms(1) unfolding records_image_def by (rule conjunct2)
  have l: "length plains = Suc (rec_count (unat (core_plaintextLength core)))"
    using assms(1) by (simp add: records_image_def)
  show "length plains = length images" using list_all2_lengthD [OF a] by simp
  then show "length images = Suc (rec_count (unat (core_plaintextLength core)))" using l by simp
  have z: "zip [0..<length plains] plains ! i = (i, plains ! i)" using assms(2) l by (simp del: upt_Suc)
  show "record_image P core rs keys codecs i (plains ! i) (images ! i)"
    using list_all2_nthD [OF a, of i] assms(2) l z by (simp del: upt_Suc)
qed

lemma record_image_length:
  assumes "record_image P core rs keys codecs i plain bytes" and "codecs_sized codecs"
  shows "length bytes = rec_len rs (unat (core_plaintextLength core)) i"
proof -
  obtain ct tag where S: "length plain = rec_plain (unat (core_plaintextLength core)) i"
    and c: "if exp_final (record_at core rs i) then ct = []
        else suite_wrap P (core_suite core) (replicate (length plain) 0) plain (wk_payloadXChaCha20 keys)
               (exp_nonce (record_at core rs i)) (wk_payloadSerpent keys) (exp_serpentIV (record_at core rs i)) = Inr ct"
    and tag: "recordTag P (core_suite core) (wk_payloadMAC keys) (coreCommitment P core)
          (exp_descriptor (record_at core rs i)) ct = Inr tag"
    and b: "bytes = coded (RS16 codecs) 1 (exp_descriptor (record_at core rs i)) @
        body_image codecs rs (exp_encodedBodyLength (record_at core rs i)) (ct @ tag)"
    using assms(1) unfolding record_image_def Let_def by blast
  have "length ct = rec_plain (unat (core_plaintextLength core)) i"
  proof (cases "exp_final (record_at core rs i)")
    case True
    then show ?thesis using c by (simp add: rec_plain_final)
  next
    case False
    show ?thesis using c [unfolded if_not_P [OF False]] S suite_pair.wrap_length by metis
  qed
  then have "length (ct @ tag) = rec_plain (unat (core_plaintextLength core)) i + 64"
    using recordTag_length [OF tag] by simp
  from length_body_image [OF assms(2) this] show ?thesis
    using assms(2) unfolding b by (simp add: rec_len_def length_coded codecs_sized_def)
qed

lemma concat_images:
  assumes "records_image P core rs keys codecs 0 plains images" and "codecs_sized codecs"
    and "i \<le> rec_count (unat (core_plaintextLength core))"
  shows "length (concat images) = payload_len rs (unat (core_plaintextLength core))"
    "slice (rec_off rs (unat (core_plaintextLength core)) i) (rec_len rs (unat (core_plaintextLength core)) i)
       (concat images) = images ! i"
proof -
  let ?n = "unat (core_plaintextLength core)"
  note R = records_image_nth [OF assms(1)]
  have len: "length (images ! j) = rec_len rs ?n j" if "j \<le> rec_count ?n" for j
    by (rule record_image_length [OF R(1) [OF that] assms(2)])
  have off: "sum_list (map length (take j images)) = rec_off rs ?n j" if "j \<le> Suc (rec_count ?n)" for j
    using that
  proof (induction j)
    case (Suc j)
    then show ?case using R(2) [OF assms(3)] len [of j] by (simp add: take_Suc_conv_app_nth)
  qed (simp add: rec_off_def)
  have "length (concat images) = rec_off rs ?n (Suc (rec_count ?n))"
    using off [of "length images"] R(2) [OF assms(3)] by (simp add: length_concat del: rec_off_Suc)
  then show "length (concat images) = payload_len rs ?n" by (simp add: rec_off_end)
  show "slice (rec_off rs ?n i) (rec_len rs ?n i) (concat images) = images ! i"
    using slice_concat_nth [of i images] off [of i] len [OF assms(3)] R(2) [OF assms(3)] assms(3) by simp
qed

lemma volume_parts:
  fixes core :: logicalCore and comment :: "byte list"
  defines "n \<equiv> unat (core_plaintextLength core)" and "c \<equiv> length comment"
    and "rs \<equiv> (core_featureFlags core AND payloadBodyRSFeatureMask \<noteq> 0)"
  assumes vol: "volume_image P codecs keys comment core p b plains img" and sized: "codecs_sized codecs"
    and wf: "wf_core core" "wf_candidate p" "wf_candidate b" and cl: "unat (core_commentLength core) = c"
  obtains tag where
    "metadataTag P (core_suite core) (wk_metadataMAC keys) core (meta_header comment) comment = Inr tag"
    "take 16 img = take 16 (logicalCoreBytes core)"
    "slice 16 960 img = coded (RS64 codecs) 5 (capsuleBytes p)"
    "slice 976 (meta_blocks c * 136) img = coded (RS128 codecs) (meta_blocks c) (meta_plain comment tag)"
    "\<And>i. i \<le> rec_count n \<Longrightarrow> record_image P core rs keys codecs i (plains ! i) (record_bytes core rs i img)"
    "slice (front_len c + payload_len rs n) 960 img = coded (RS64 codecs) 5 (capsuleBytes b)"
    "slice (front_len c + payload_len rs n + 960) 48 img = coded (RS16 codecs) 1 canonicalTrailerBytes"
    "length img = file_len rs n c" "length plains = Suc (rec_count n)"
proof -
  obtain tag images where T: "metadataTag P (core_suite core) (wk_metadataMAC keys) core (meta_header comment) comment = Inr tag"
    and R: "records_image P core rs keys codecs 0 plains images"
    and img: "img = take 16 (logicalCoreBytes core) @ coded (RS64 codecs) 5 (capsuleBytes p) @
          coded (RS128 codecs) (meta_blocks c) (meta_plain comment tag) @ concat images @
          coded (RS64 codecs) 5 (capsuleBytes b) @ coded (RS16 codecs) 1 canonicalTrailerBytes"
    using vol unfolding volume_image_def rs_def [symmetric] c_def [symmetric] by blast
  let ?A = "take 16 (logicalCoreBytes core)" and ?Pc = "coded (RS64 codecs) 5 (capsuleBytes p)"
    and ?M = "coded (RS128 codecs) (meta_blocks c) (meta_plain comment tag)" and ?I = "concat images"
    and ?B = "coded (RS64 codecs) 5 (capsuleBytes b)" and ?T = "coded (RS16 codecs) 1 canonicalTrailerBytes"
  have len: "length ?A = 16" "length ?Pc = 960" "length ?M = meta_blocks c * 136" "length ?B = 960" "length ?T = 48"
    using sized wf length_logicalCoreBytes [OF wf(1)] capsule_codec.enc_length length_meta_plain [OF metadataTag_length [OF T]]
    by (simp_all add: length_coded codecs_sized_def c_def)
  note C = concat_images [OF R sized, folded n_def]
  have li: "length ?I = payload_len rs n" by (rule C(1) [of 0]) simp
  have fl: "front_len c = 976 + meta_blocks c * 136" by (simp add: front_len_def)
  show thesis
  proof (rule that [OF T])
    show "take 16 img = ?A" "slice 16 960 img = ?Pc" "slice 976 (meta_blocks c * 136) img = ?M"
      unfolding img using len by (simp_all add: slice_append_right slice_append_left slice_full)
    show "slice (front_len c + payload_len rs n) 960 img = ?B" "slice (front_len c + payload_len rs n + 960) 48 img = ?T"
      unfolding img using len li by (simp_all add: slice_append_right slice_append_left slice_full fl)
    show "length img = file_len rs n c" unfolding img using len li by (simp add: file_len_def fl)
    show "length plains = Suc (rec_count n)" using records_image_nth(2,3) [OF R, of 0] by (simp add: n_def)
    fix i assume i: "i \<le> rec_count n"
    have "rec_off rs n i + rec_len rs n i \<le> length ?I" unfolding li by (rule rec_off_inside [OF i])
    then have "record_bytes core rs i img = slice (rec_off rs n i) (rec_len rs n i) ?I"
      unfolding img record_bytes_def record_start_def cl n_def [symmetric]
      using len by (simp add: slice_append_right slice_append_left fl)
    then show "record_image P core rs keys codecs i (plains ! i) (record_bytes core rs i img)"
      unfolding C(2) [OF i] using records_image_nth(1) [OF R i [unfolded n_def]] by simp
  qed
qed

section \<open>What the damaged regions still decode to\<close>

lemma record_image_sealed:
  assumes "record_image P core rs keys codecs i plain bytes"
  obtains semantic where "sealed_record P core rs keys i plain semantic"
    "bytes = coded (RS16 codecs) 1 (exp_descriptor (record_at core rs i)) @
       body_image codecs rs (exp_encodedBodyLength (record_at core rs i)) semantic"
  using assms unfolding record_image_def sealed_record_def Let_def by blast

lemma damaged_record:
  fixes core :: logicalCore and img :: "byte list"
  defines "n \<equiv> unat (core_plaintextLength core)" and "c \<equiv> unat (core_commentLength core)"
  assumes lay: "canonical_layout core rs g" and sized: "codecs_sized codecs"
    and ok: "fec_encodes (RS16 codecs)" "fec_encodes (RS128 codecs)"
    and dam: "damaged t rs n c img img'" and i: "i \<le> rec_count n"
    and inside: "record_start core rs i + rec_len rs n i \<le> length img"
    and image: "record_image P core rs keys codecs i plain (record_bytes core rs i img)"
  obtains semantic where "sealed_record P core rs keys i plain semantic"
    "coded_near t (RS16 codecs) 1 (exp_descriptor (record_at core rs i)) (take 48 (record_bytes core rs i img'))"
    "body_near t codecs rs (exp_encodedBodyLength (record_at core rs i)) semantic (drop 48 (record_bytes core rs i img'))"
proof -
  let ?e = "record_at core rs i" and ?L = "body_len rs (rec_plain n i)"
  let ?start = "record_start core rs i"
  have st: "?start = front_len c + rec_off rs n i" by (simp add: record_start_def n_def c_def)
  have el: "exp_encodedBodyLength ?e = ?L" by (simp add: n_def)
  obtain semantic where S: "sealed_record P core rs keys i plain semantic"
    and b: "record_bytes core rs i img = coded (RS16 codecs) 1 (exp_descriptor ?e) @ body_image codecs rs ?L semantic"
    using record_image_sealed [OF image] unfolding el by blast
  have sl: "length semantic = rec_plain n i + 64" using written_body_authentic(2) [OF lay S] by (simp add: n_def)
  have len': "length img' = length img" using dam by (simp add: damaged_def)
  have inside': "?start + rec_len rs (unat (core_plaintextLength core)) i \<le> length img"
    "?start + rec_len rs (unat (core_plaintextLength core)) i \<le> length img'"
    using inside len' by (simp_all add: n_def)
  note parts = record_bytes_parts [OF inside'(1), folded n_def] and parts' = record_bytes_parts [OF inside'(2), folded n_def]
  have sz: "fec_required (RS16 codecs) = 16" "fec_total (RS16 codecs) = 48" "fec_required (RS128 codecs) = 128"
    "fec_total (RS128 codecs) = 136" using sized by (simp_all add: codecs_sized_def)
  have dl: "length (coded (RS16 codecs) 1 (exp_descriptor ?e)) = 48"
    using sz by (simp add: length_coded)
  have d: "slice ?start 48 img = coded (RS16 codecs) 1 (exp_descriptor ?e)"
    "slice (?start + 48) ?L img = body_image codecs rs ?L semantic"
    unfolding parts [symmetric] b using dl by simp_all
  have near: "region_near t 1 48 ?start img img'"
    "if rs then region_near t (?L div 136) 136 (?start + 48) img img'
       else slice (?start + 48) ?L img' = slice (?start + 48) ?L img"
    using dam i unfolding damaged_def Let_def st by blast+
  have fit: "?start + 48 + ?L \<le> length img" using inside by (simp add: rec_len_def)
  have n1: "coded_near t (RS16 codecs) 1 (exp_descriptor ?e) (slice ?start 48 img')"
    using coded_near_region [of t 1 "RS16 codecs" ?start img img' "exp_descriptor ?e"] near(1) len' d(1) fit sz
    by (simp del: record_at_sel)
  have n2: "body_near t codecs rs ?L semantic (slice (?start + 48) ?L img')"
  proof (cases rs)
    case True
    note blocks = body_len_blocks [OF True, of "rec_plain n i"]
    have k: "?L div 136 * 136 = ?L" using blocks(1) by auto
    have wl: "length (written_body rs ?L semantic) = ?L div 136 * 128"
      using True sl blocks(2) by (simp add: written_body_def)
    have b: "slice (?start + 48) (?L div 136 * fec_total (RS128 codecs)) img =
        coded (RS128 codecs) (?L div 136) (written_body rs ?L semantic)"
      unfolding sz k d(2) using True by (simp add: body_image_def written_body_def Let_def)
    have "coded_near t (RS128 codecs) (?L div 136) (written_body rs ?L semantic)
        (slice (?start + 48) (?L div 136 * fec_total (RS128 codecs)) img')"
      by (rule coded_near_region [OF _ len' b]) (use near(2) [unfolded if_P [OF True]] wl fit in \<open>simp_all add: sz k\<close>)
    then show ?thesis unfolding body_near_def if_P [OF True] sz k .
  next
    case False
    then show ?thesis using near(2) d(2) by (simp add: body_near_def body_image_def)
  qed
  show thesis by (rule that [OF S]) (use n1 n2 in \<open>simp_all add: parts' el del: record_at_sel\<close>)
qed

end
