(* ===== verification/Round_Trip.thy ===== *)
theory Round_Trip
  imports Damaged_Volume
begin

text \<open>
  From a written volume back to its plaintext: the probe finds both capsules, the credential that
  sealed them opens them, the comment and every record verify, and the session ends with a
  sealed completion. The bytes may be damaged within what the Reed-Solomon codes repair.
\<close>

section \<open>All records of an open volume\<close>

lemma readNormalRecords_image:
  fixes auth :: normalAuthResult
  defines "core \<equiv> cand_core (auth_candidate auth)"
  defines "n \<equiv> unat (core_plaintextLength core)"
  assumes auth: "canonical_auth auth" and lay: "canonical_layout core rs (auth_geometry auth)"
    and img: "serves img w" and sink: "sink_accepts (w_env w)"
    and ok: "fec_ok t (RS16 codecs)" "fec_ok t (RS128 codecs)" "codecs_sized codecs"
    and lend: "lends_volume_keys (auth_lender auth) keys" and keys: "keys_sized keys"
    and inside: "\<And>i. i \<le> rec_count n \<Longrightarrow> record_start core rs i + rec_len rs n i \<le> length img"
    and near: "\<And>i. i \<le> rec_count n \<Longrightarrow> record_near t P core rs keys codecs i (plains ! i) (record_bytes core rs i img)"
  shows "\<exists>v w'. readNormalRecordsWithSeams P codecs auth w = (Some (Inr v), w') \<and>
    emits w (map (\<lambda>j. (word_of_nat j, plains ! j)) [0..<rec_count n]) w' \<and> plains ! rec_count n = []"
proof -
  let ?g = "auth_geometry auth"
  have d: "deriveCanonicalGeometry (auth_candidate auth) = Inr ?g" using auth by (simp add: canonical_auth_def)
  obtain k where k: "geo_fileSize ?g = int k" "k < 2 ^ 63"
    using lay unfolding canonical_layout_def by auto
  have u: "unat (word_of_nat k :: u64) = k" using k(2) by (intro unat_word_small) simp
  have s: "SafeUint64ToInt64 (word_of_int (geo_fileSize ?g)) = Some (geo_fileSize ?g)"
    unfolding k(1) of_int_of_nat_eq Safe_Some_nat u using k(2) by simp
  have a: "authenticatedRecordAuthority auth = Some (core, ?g)"
    using auth lay d s k(1) by (auto simp: authenticatedRecordAuthority_def canonical_auth_def open_outcome_def
        canonical_layout_def DeriveGeometry_def core_def)
  have vc: "validRecordCodecs codecs (geo_payloadBodyRS ?g)"
    using ok(3) by (simp add: validRecordCodecs_def codecs_sized_def)
  have img1: "serves img (tick w)" using img by simp
  obtain ev w1 where ev: "newRecordEvaluator P core ?g codecs auth (tick w) = (Inr ev, w1)" "reads_only (tick w) w1"
    and e: "evaluates P core rs ?g keys codecs ev"
    using newRecordEvaluator_image [OF lay img1 ok(3) lend keys] by blast
  have only: "reads_only w w1" using reads_only_trans [OF reads_only_tick ev(2)] .
  have w1: "serves img w1" "sink_accepts (w_env w1)"
    using img sink only by (simp_all add: serves_only reads_only_fields)
  obtain v w' where loop: "record_loop P ev (Suc (rec_count n) + 1) (word_of_nat 0) (word_of_nat 0) (word_of_nat (min n (0 * 1048576))) w1 =
      (Some (Inr v), w')" "emits w1 (map (\<lambda>j. (word_of_nat j, plains ! j)) [0..<rec_count n]) w'"
    "plains ! rec_count n = []"
    using record_loop_image [OF e ok inside [unfolded n_def] near [unfolded n_def] _ w1, where i = 0 and k = 1] unfolding n_def by auto
  have "unat (core_recordCount core) + 2 = Suc (rec_count n) + 1"
    using canonical_layout_count(2) [OF lay] by (simp add: n_def)
  then have "readNormalRecordsWithSeams P codecs auth w = (Some (Inr v), w')"
    using a vc ev(1) loop(1) by (simp add: readNormalRecordsWithSeams_def poll_serves [OF img] del: record_loop.simps)
  moreover have "emits w (map (\<lambda>j. (word_of_nat j, plains ! j)) [0..<rec_count n]) w'"
    using emits_trans [of w "[]" w1] only loop(2) by simp
  ultimately show ?thesis using loop(3) by blast
qed

section \<open>The credential that sealed a volume\<close>

text \<open>A provider that opens the volumes of one credential: it lends the wrap and replica keys of the
  writer for both roles, adopts its volume key, and then lends the keys of the volume.\<close>

definition holds_credential :: "credential_provider \<Rightarrow> credentialTuple \<Rightarrow> normalWriteKeys \<Rightarrow> bool" where
  "holds_credential provider tuple keys \<longleftrightarrow>
     (\<exists>access owner borrower lender.
        honest_provider provider tuple access (wk_volumeKey keys) owner borrower \<and>
        (case borrower of Some b \<Rightarrow> b = lender | None \<Rightarrow> owner = Some lender) \<and> lends_volume_keys lender keys \<and>
        acc_adoptVolumeKey access (wk_volumeKey keys) = None \<and>
        (\<forall>role. isSupportedCapsuleRole role \<longrightarrow>
           acc_withWrapKeys access role = (Some (wk_capsuleWrap keys ! unat role), None) \<and>
           acc_withReplicaKey access role (wk_volumeKey keys) = (Some (wk_replicaMAC keys ! unat role), None)))"

lemma sealed_authentic:
  assumes "sealed_capsule P keys c" and "length (wk_volumeKey keys) = 32"
    and "acc_withWrapKeys access (cand_role c) = (Some (wk_capsuleWrap keys ! unat (cand_role c)), None)"
    and "acc_withReplicaKey access (cand_role c) (wk_volumeKey keys) = (Some (wk_replicaMAC keys ! unat (cand_role c)), None)"
  shows "authentic P access c (wk_volumeKey keys)"
proof -
  let ?wrap = "wk_capsuleWrap keys ! unat (cand_role c)"
  note S = assms(1) [unfolded sealed_capsule_def Let_def]
  have "suite_unwrap P (core_suite (cand_core c)) (replicate 32 0) (cand_wrappedVolumeKey c) (wrap_xChaCha20 ?wrap)
      (cand_wrapNonce c) (wrap_serpent ?wrap) (cand_wrapSerpentIV c) = Inr (wk_volumeKey keys)"
    using suite_pair.unwrap_wrap [OF S [THEN conjunct1], of "replicate 32 0"] assms(2) by simp
  then show ?thesis using S assms(3,4) by (auto simp: authentic_def)
qed

section \<open>Closing the session\<close>

lemma normalPhysicalEOF_image:
  assumes "serves img w"
  shows "normalPhysicalEOF (int (length img)) w = (NormalEOFExact, tick w)"
proof -
  obtain count bytes err where r: "env_readAt (w_env w) (w_tick w) (int (length img)) 1 = (count, bytes, err)"
    by (metis prod_cases3)
  have "case env_readAt (w_env w) (w_tick w) (int (length img)) 1 of (count, bytes, err) \<Rightarrow>
      count = int (length (slice (length img) 1 img)) \<and> bytes = slice (length img) 1 img \<and>
      (if length img + 1 \<le> length img then err = None \<or> err = Some EOF else err = Some EOF)"
    using assms [unfolded serves_def holds_image_def, THEN conjunct1, rule_format, of 1 "length img" "w_tick w"] by simp
  then have "count = 0" "err = Some EOF" unfolding r by simp_all
  moreover have "physical_eof 2 (int (length img)) w = physical_eof (Suc 1) (int (length img)) w"
    by (simp add: numeral_2_eq_2)
  ultimately show ?thesis using r by (simp add: normalPhysicalEOF_def source_ReadAt_def isEOF_def)
qed

lemma close_session_image:
  assumes img: "serves img w" and off: "geo_backupCapsuleOffset (auth_geometry auth) = int off"
    and len: "off + 1008 = length img" "geo_fileSize (auth_geometry auth) = int (length img)"
  shows "\<exists>w'. close_session auth (int (length img)) (slice off 1008 img) metadata degraded w =
    (Some (closed_result auth metadata degraded), w') \<and> reads_only w w'"
proof -
  obtain w1 where r: "readExactAt (int off) 1008 StageTailGeometry w = ((slice off 1008 img, None), w1)" "reads_only w w1"
    using readExactAt_image [OF img, of off 1008] len(1) by auto
  have img1: "serves img w1" "serves img (tick w1)" using img r(2) by (simp_all add: serves_only)
  have ctx: "ctx_Err w1 = (None, tick w1)" "ctx_Err (tick (tick w1)) = (None, tick (tick (tick w1)))"
    using img1(1) by (simp_all add: serves_def ctx_Err_def never_cancelled_def tick_def)
  have "close_session auth (int (length img)) (slice off 1008 img) metadata degraded w =
      (Some (closed_result auth metadata degraded), tick (tick (tick w1)))"
    unfolding close_session_def Let_def off r(1) prod.case ctx option.case normalPhysicalEOF_image [OF img1(2)] len(2)
    by (simp add: closed_result_def Let_def split: metadataResult.split)
  moreover have "reads_only w (tick (tick (tick w1)))"
    using r(2) by (blast intro: reads_only_trans reads_only_tick)
  ultimately show ?thesis by blast
qed

section \<open>The session\<close>

text \<open>A volume sealed in memory: what a successful serialization has written, without the run.\<close>

definition sealed_volume ::
  "prims \<Rightarrow> RSCodecs \<Rightarrow> normalWriteKeys \<Rightarrow> byte list \<Rightarrow> normalWriteCredentialMetadata \<Rightarrow> logicalCore \<Rightarrow>
   Candidate \<Rightarrow> Candidate \<Rightarrow> byte list list \<Rightarrow> byte list \<Rightarrow> bool" where
  "sealed_volume P codecs keys comment metadata core p b plains img \<longleftrightarrow>
     candidate_for metadata core CapsuleRolePrimary p \<and> sealed_capsule P keys p \<and>
     candidate_for metadata core CapsuleRoleBackup b \<and> sealed_capsule P keys b \<and>
     wf_core core \<and> validLogicalCore core \<and> core_featureFlags core AND d1DerivedRootFeatureMask = 0 \<and>
     unat (core_commentLength core) = length comment \<and> utf8_Valid comment \<and>
     volume_image P codecs keys comment core p b plains img \<and> length img < 2 ^ 63"

text \<open>No record of the damaged volume was replaced by one that verifies.\<close>

definition unforged :: "prims \<Rightarrow> logicalCore \<Rightarrow> normalWriteKeys \<Rightarrow> byte list list \<Rightarrow> byte list \<Rightarrow> bool" where
  "unforged P core keys plains img \<longleftrightarrow>
     (let rs = (core_featureFlags core AND payloadBodyRSFeatureMask \<noteq> 0) in
      \<forall>i semantic. i \<le> rec_count (unat (core_plaintextLength core)) \<longrightarrow>
        sealed_record P core rs keys i (plains ! i) semantic \<longrightarrow>
        \<not> forged_body P core rs keys i semantic (drop 48 (record_bytes core rs i img)))"

lemma sealed_volume_layout:
  assumes "sealed_volume P codecs keys comment metadata core p b plains img" and "codecs_sized codecs"
  obtains rs g where "rs = (core_featureFlags core AND payloadBodyRSFeatureMask \<noteq> 0)"
    "g = layout_of rs (unat (core_plaintextLength core)) (length comment)"
    "canonical_layout core rs g" "length img = file_len rs (unat (core_plaintextLength core)) (length comment)"
proof -
  let ?rs = "core_featureFlags core AND payloadBodyRSFeatureMask \<noteq> 0" and ?n = "unat (core_plaintextLength core)"
  have V: "volume_image P codecs keys comment core p b plains img" "wf_core core" "wf_candidate p" "wf_candidate b"
    "unat (core_commentLength core) = length comment" "validLogicalCore core" "length img < 2 ^ 63"
    using assms(1) by (simp_all add: sealed_volume_def candidate_for_def)
  have len: "length img = file_len ?rs ?n (length comment)"
    by (rule volume_parts [OF V(1) assms(2) V(2-5)])
  then have "canonical_layout core ?rs (layout_of ?rs ?n (length comment))"
    using V unfolding canonical_layout_def by simp
  then show thesis using that len by blast
qed

lemma inspect_sealed:
  assumes c: "candidate_for metadata core role c" and d1: "core_featureFlags core AND d1DerivedRootFeatureMask = 0"
    and lay: "canonical_layout core rs g" and ok: "fec_ok t (RS64 codecs)" "codecs_sized codecs"
    and near: "coded_near t (RS64 codecs) 5 (capsuleBytes c) word"
  shows "role = CapsuleRolePrimary \<Longrightarrow> inspectPrimaryCapsule codecs word = Inr (c, g)"
    "role = CapsuleRoleBackup \<Longrightarrow> geo_fileSize g = int k \<Longrightarrow>
       inspectCapsule codecs word CapsuleRoleBackup (word_of_nat k) = Inr (c, g)"
    "deriveCanonicalGeometry c = Inr g"
proof -
  have C: "wf_candidate c" "validAuthCandidate c" "cand_core c = core" "cand_role c = role"
    using c by (simp_all add: candidate_for_def)
  have rs: "candidate_PayloadBodyRS c = rs" using lay C(3) by (auto simp: candidate_PayloadBodyRS_def canonical_layout_def)
  show g: "deriveCanonicalGeometry c = Inr g"
    using canonical_layout_derive [of c g] lay C(3) rs by simp
  have i: "inspectCapsuleCandidate codecs word role = Inr c"
    using inspect_near_capsule [OF ok C(1,2) _ near] d1 C(3,4) by simp
  show "role = CapsuleRolePrimary \<Longrightarrow> inspectPrimaryCapsule codecs word = Inr (c, g)"
    using i g by (simp add: inspectPrimaryCapsule_def)
  assume role: "role = CapsuleRoleBackup" and k: "geo_fileSize g = int k"
  have k63: "k < 2 ^ 63" using lay k unfolding canonical_layout_def by auto
  then have u: "unat (word_of_nat k :: u64) = k" by (intro unat_word_small) simp
  have "SafeUint64ToInt64 (word_of_nat k) = Some (int k)" unfolding Safe_Some_nat u using k63 by simp
  then have "DeriveGeometry c (word_of_nat k) = Inr g"
    using g k by (simp add: DeriveGeometry_def)
  then show "inspectCapsule codecs word CapsuleRoleBackup (word_of_nat k) = Inr (c, g)"
    using i role by (simp add: inspectCapsule_def)
qed

text \<open>What reading a volume back means: the probe returns a structure without issue, and the session
  over it succeeds, undegraded, with both capsules, the comment, the seal of the payload kind,
  and the records in order.\<close>

definition reads_back ::
  "prims \<Rightarrow> RSCodecs \<Rightarrow> int \<Rightarrow> credential_provider \<Rightarrow> byte list \<Rightarrow> byte \<Rightarrow> byte list list \<Rightarrow> world \<Rightarrow> bool" where
  "reads_back P codecs sourceSize provider comment kind plains w \<longleftrightarrow>
     (\<exists>structure w1 result completion w2.
        Probe (Some codecs) sourceSize w = ((RouteNormalPCV, structure, None), w1) \<and>
        readNormalVolumeWithProvider P (Some codecs) sourceSize structure provider w =
          (Some (result, Some completion), w2) \<and>
        nrr_outcome result = OutcomeSuccess \<and> nrr_stage result = StageNone \<and> nrr_authenticated result = 2 \<and>
        nrr_comment result = (if comment = [] then None else Some comment) \<and>
        authenticatedPayloadKind completion = Some kind \<and>
        emits w (map (\<lambda>j. (word_of_nat j, plains ! j)) [0..<length plains]) w2)"

lemma probe_sealed:
  assumes vol: "sealed_volume P codecs keys comment metadata core p b plains img"
    and dam: "damaged t (core_featureFlags core AND payloadBodyRSFeatureMask \<noteq> 0)
        (unat (core_plaintextLength core)) (length comment) img img'"
    and ok: "fec_ok t (RS16 codecs)" "fec_ok t (RS64 codecs)" "codecs_sized codecs"
    and lay: "canonical_layout core rs g" and img': "serves img' w"
  obtains w' where "Probe (Some codecs) (int (length img')) w =
    ((RouteNormalPCV, whole_structure (core_preamble core) (p, g) (b, g) (int (length img')), None), w')"
    and "reads_only w w'"
proof -
  let ?n = "unat (core_plaintextLength core)" and ?c = "length comment"
  have V: "volume_image P codecs keys comment core p b plains img" "wf_core core" "wf_candidate p" "wf_candidate b"
    "unat (core_commentLength core) = ?c" "validLogicalCore core" "core_featureFlags core AND d1DerivedRootFeatureMask = 0"
    "candidate_for metadata core CapsuleRolePrimary p" "candidate_for metadata core CapsuleRoleBackup b"
    using vol by (simp_all add: sealed_volume_def candidate_for_def)
  have rs: "(core_featureFlags core AND payloadBodyRSFeatureMask \<noteq> 0) = rs" using lay unfolding canonical_layout_def by blast
  obtain tag where
    A: "take 16 img = take 16 (logicalCoreBytes core)" "slice 16 960 img = coded (RS64 codecs) 5 (capsuleBytes p)"
      "slice (front_len ?c + payload_len rs ?n) 960 img = coded (RS64 codecs) 5 (capsuleBytes b)"
      "slice (front_len ?c + payload_len rs ?n + 960) 48 img = coded (RS16 codecs) 1 canonicalTrailerBytes"
      "length img = file_len rs ?n ?c"
    by (rule volume_parts [OF V(1) ok(3) V(2-5), unfolded rs])
  have D: "length img' = length img" "take 16 img' = take 16 img" "region_near t 5 192 16 img img'"
    "region_near t 5 192 (front_len ?c + payload_len rs ?n) img img'"
    "region_near t 1 48 (front_len ?c + payload_len rs ?n + 960) img img'"
    using dam by (simp_all add: damaged_def rs)
  have fl: "976 \<le> front_len ?c" by (simp add: front_len_def)
  have len: "length img' = front_len ?c + payload_len rs ?n + 1008" using D(1) A(5) by (simp add: file_len_def)
  have sz: "fec_required (RS16 codecs) = 16" "fec_total (RS16 codecs) = 48" "fec_required (RS64 codecs) = 64"
    "fec_total (RS64 codecs) = 192" using ok(3) by (simp_all add: codecs_sized_def)
  have near: "coded_near t (RS64 codecs) 5 (capsuleBytes p) (slice 16 960 img')"
    "coded_near t (RS64 codecs) 5 (capsuleBytes b) (slice (front_len ?c + payload_len rs ?n) 960 img')"
    "coded_near t (RS16 codecs) 1 canonicalTrailerBytes (slice (front_len ?c + payload_len rs ?n + 960) 48 img')"
    using coded_near_region [of t 5 "RS64 codecs" 16 img img' "capsuleBytes p"]
      coded_near_region [of t 5 "RS64 codecs" "front_len ?c + payload_len rs ?n" img img' "capsuleBytes b"]
      coded_near_region [of t 1 "RS16 codecs" "front_len ?c + payload_len rs ?n + 960" img img' canonicalTrailerBytes]
      D A sz len fl V(3,4) capsule_codec.enc_length by simp_all
  note pre = preamble_of_core [OF V(2,6,7)]
  have h: "take 4 img' = take 4 (logicalCoreBytes core)" "slice 4 12 img' = slice 4 12 (logicalCoreBytes core)"
  proof -
    have f: "take 4 x = take 4 (take 16 x)" "slice 4 12 x = drop 4 (take 16 x)" for x :: "byte list"
      by (simp_all add: slice_def drop_take)
    have "take 16 img' = take 16 (logicalCoreBytes core)" using D(2) A(1) by simp
    then show "take 4 img' = take 4 (logicalCoreBytes core)" "slice 4 12 img' = slice 4 12 (logicalCoreBytes core)"
      unfolding f [of img'] f [of "logicalCoreBytes core"] by simp_all
  qed
  have g: "geo_fileSize g = int (length img')"
    using lay len V(5) unfolding canonical_layout_def by (simp add: file_len_def)
  have off: "length img' - 1008 = front_len ?c + payload_len rs ?n" "length img' - 48 = front_len ?c + payload_len rs ?n + 960"
    using len by simp_all
  have q: "1984 \<le> length img'" "take 4 img' = normalDiscriminator"
    "ParsePreamble normalDiscriminator (slice 4 12 img') = Inr (core_preamble core)"
    using len fl h pre by simp_all
  note p = inspect_sealed(1) [OF V(8,7) lay ok(2,3) near(1) refl]
    and b = inspect_sealed(2) [OF V(9,7) lay ok(2,3) near(2) refl g, folded off]
    and t = inspect_near_trailer [OF ok(1,3) near(3), folded off]
  show thesis
    by (rule Probe_image [OF img' q p t b]) (rule that)
qed

lemma sealed_regions_near:
  fixes core :: logicalCore
  defines "n \<equiv> unat (core_plaintextLength core)"
  assumes vol: "sealed_volume P codecs keys comment metadata core p b plains img"
    and dam: "damaged t rs n (length comment) img img'"
    and unf: "unforged P core keys plains img'"
    and ok: "fec_ok t (RS16 codecs)" "fec_ok t (RS128 codecs)" "codecs_sized codecs"
    and lay: "canonical_layout core rs g"
  obtains tag where
    "metadataTag P (core_suite core) (wk_metadataMAC keys) core (meta_header comment) comment = Inr tag"
    "coded_near t (RS128 codecs) (meta_blocks (length comment)) (meta_plain comment tag)
       (slice 976 (meta_blocks (length comment) * 136) img')"
    "\<And>i. i \<le> rec_count n \<Longrightarrow> record_start core rs i + rec_len rs n i \<le> length img'"
    "\<And>i. i \<le> rec_count n \<Longrightarrow> record_near t P core rs keys codecs i (plains ! i) (record_bytes core rs i img')"
    "length plains = Suc (rec_count n)"
proof -
  let ?c = "length comment"
  have V: "volume_image P codecs keys comment core p b plains img" "wf_core core" "wf_candidate p" "wf_candidate b"
    "unat (core_commentLength core) = ?c"
    using vol by (simp_all add: sealed_volume_def candidate_for_def)
  have rs: "(core_featureFlags core AND payloadBodyRSFeatureMask \<noteq> 0) = rs" using lay unfolding canonical_layout_def by blast
  obtain tag where A: "metadataTag P (core_suite core) (wk_metadataMAC keys) core (meta_header comment) comment = Inr tag"
    "slice 976 (meta_blocks ?c * 136) img = coded (RS128 codecs) (meta_blocks ?c) (meta_plain comment tag)"
    "length img = file_len rs n ?c" "length plains = Suc (rec_count n)"
    and recs: "\<And>i. i \<le> rec_count n \<Longrightarrow> record_image P core rs keys codecs i (plains ! i) (record_bytes core rs i img)"
    by (rule volume_parts [OF V(1) ok(3) V(2-5), unfolded rs, folded n_def]) (rule that; blast)
  have len': "length img' = length img" and D: "region_near t (meta_blocks ?c) 136 976 img img'"
    using dam by (simp_all add: damaged_def)
  have inside: "record_start core rs i + rec_len rs n i \<le> length img" if "i \<le> rec_count n" for i
    using rec_off_inside [OF that, of rs] A(3) by (simp add: record_start_def V(5) n_def file_len_def)
  have enc: "fec_encodes (RS16 codecs)" "fec_encodes (RS128 codecs)" using ok by (simp_all add: fec_ok_def)
  show thesis
  proof (rule that [OF A(1) _ _ _ A(4)])
    show "coded_near t (RS128 codecs) (meta_blocks ?c) (meta_plain comment tag) (slice 976 (meta_blocks ?c * 136) img')"
      using coded_near_region [of t "meta_blocks ?c" "RS128 codecs" 976 img img' "meta_plain comment tag"] D len' A(2,3) ok(3)
        length_meta_plain [OF metadataTag_length [OF A(1)]]
      by (simp add: codecs_sized_def file_len_def front_len_def mult.commute)
    show "record_start core rs i + rec_len rs n i \<le> length img'" if "i \<le> rec_count n" for i
      using inside [OF that] len' by simp
    fix i assume i: "i \<le> rec_count n"
    obtain semantic where "sealed_record P core rs keys i (plains ! i) semantic"
      "coded_near t (RS16 codecs) 1 (exp_descriptor (record_at core rs i)) (take 48 (record_bytes core rs i img'))"
      "body_near t codecs rs (exp_encodedBodyLength (record_at core rs i)) semantic (drop 48 (record_bytes core rs i img'))"
      using damaged_record [OF lay ok(3) enc dam [unfolded n_def, folded V(5)] i [unfolded n_def] inside [OF i, unfolded n_def] recs [OF i]]
      by blast
    then show "record_near t P core rs keys codecs i (plains ! i) (record_bytes core rs i img')"
      using unf i unfolding record_near_def unforged_def Let_def rs n_def by blast
  qed
qed

lemma valid_payload_kind:
  assumes "validLogicalCore core"
  shows "core_payloadKind core = PayloadKindRaw \<or> core_payloadKind core = PayloadKindArchive"
proof -
  have "\<not> core_payloadKind core < 1" "\<not> core_payloadKind core > 2"
    using assms by (auto simp: validLogicalCore_def split: if_splits)
  then show ?thesis by (auto simp: word_less_nat_alt word_unat_eq_iff)
qed

definition open_auth :: "Candidate \<Rightarrow> Geometry \<Rightarrow> key_lender option \<Rightarrow> key_lender option \<Rightarrow> normalAuthResult" where
  "open_auth p g owner borrower = (newNormalAuthResult OutcomeSuccess StageNone 2)
     \<lparr>auth_candidate := p, auth_geometry := g, auth_owner := owner, auth_keyBorrower := borrower\<rparr>"

lemma auth_lender_open_auth:
  "(case borrower of Some b \<Rightarrow> b = lender | None \<Rightarrow> owner = Some lender) \<Longrightarrow>
   auth_lender (open_auth p g owner borrower) = lender"
  by (auto simp: open_auth_def auth_lender_def fun_eq_iff split: option.splits)

lemma authenticate_sealed:
  assumes vol: "sealed_volume P codecs keys comment metadata core p b plains img"
    and keys: "keys_sized keys" and cred: "holds_credential provider (credentialTupleForCandidate p) keys"
    and ctx: "never_cancelled (w_env w)"
    and fresh: "fresh = whole_structure (core_preamble core) (p, g) (b, g) L"
  obtains owner borrower where "lends_volume_keys (auth_lender (open_auth p g owner borrower)) keys"
    "authenticateCapsulesBorrowingProvider P fresh provider w = (open_auth p g owner borrower, tick w)"
proof -
  have V: "candidate_for metadata core CapsuleRolePrimary p" "candidate_for metadata core CapsuleRoleBackup b"
    "sealed_capsule P keys p" "sealed_capsule P keys b"
    using vol by (simp_all add: sealed_volume_def)
  obtain access owner borrower lender
    where A: "honest_provider provider (credentialTupleForCandidate p) access (wk_volumeKey keys) owner borrower"
    and l: "case borrower of Some b \<Rightarrow> b = lender | None \<Rightarrow> owner = Some lender" "lends_volume_keys lender keys"
    and adopt: "acc_adoptVolumeKey access (wk_volumeKey keys) = None"
    and roles: "\<And>role. isSupportedCapsuleRole role \<Longrightarrow>
        acc_withWrapKeys access role = (Some (wk_capsuleWrap keys ! unat role), None) \<and>
        acc_withReplicaKey access role (wk_volumeKey keys) = (Some (wk_replicaMAC keys ! unat role), None)"
    using cred unfolding holds_credential_def by blast
  have vk: "length (wk_volumeKey keys) = 32" using keys by (simp add: keys_sized_def)
  have C: "validAuthCandidate p" "validAuthCandidate b" "cand_role p = CapsuleRolePrimary" "cand_role b = CapsuleRoleBackup"
    "cand_core p = core" "cand_core b = core"
    "credentialTupleForCandidate b = credentialTupleForCandidate p"
    using V(1,2) by (simp_all add: candidate_for_def credentialTupleForCandidate_def new_candidate_def)
  have open_p: "authentic P access p (wk_volumeKey keys)"
    by (rule sealed_authentic [OF V(3) vk]) (use roles C(3) in \<open>auto simp: isSupportedCapsuleRole_def\<close>)
  have open_b: "authentic P access b (wk_volumeKey keys)"
    by (rule sealed_authentic [OF V(4) vk]) (use roles C(4) in \<open>auto simp: isSupportedCapsuleRole_def\<close>)
  have "authenticateCapsulesBorrowingProvider P fresh provider w = (open_auth p g owner borrower, tick w)"
    unfolding open_auth_def
    by (rule authenticate_both [where b = b and gb = g, OF _ C(1,2) _ C(7) _ open_p open_b adopt _ A ctx])
      (use C in \<open>simp_all add: fresh whole_structure_def core_preamble_def authenticatedCoreMatchesPreamble_def\<close>)
  moreover have "lends_volume_keys (auth_lender (open_auth p g owner borrower)) keys"
    using l by (simp add: auth_lender_open_auth)
  ultimately show thesis by (rule that [rotated])
qed

lemma read_authenticated_sealed:
  fixes core :: logicalCore
  defines "n \<equiv> unat (core_plaintextLength core)"
  assumes vol: "sealed_volume P codecs keys comment metadata core p b plains img"
    and dam: "damaged t rs n (length comment) img img'" and unf: "unforged P core keys plains img'"
    and ok: "fec_ok t (RS16 codecs)" "fec_ok t (RS128 codecs)" "codecs_sized codecs"
    and keys: "keys_sized keys" and lend: "lends_volume_keys (auth_lender (open_auth p g owner borrower)) keys"
    and lay: "canonical_layout core rs g" and g: "g = layout_of rs n (length comment)"
    and len: "length img = file_len rs n (length comment)"
    and img': "serves img' w" and sink: "sink_accepts (w_env w)"
    and issue: "structure_Issue fresh ComponentTrailer = None"
  shows "\<exists>w'. read_authenticated P (Some codecs) (int (length img')) fresh (open_auth p g owner borrower) w =
      (Some (closed_result (open_auth p g owner borrower) (MetadataAuthenticatedPublic comment) StageNone), w') \<and>
    emits w (map (\<lambda>j. (word_of_nat j, plains ! j)) [0..<rec_count n]) w' \<and>
    plains = butlast plains @ [[]] \<and> length plains = Suc (rec_count n)"
proof -
  let ?c = "length comment" and ?auth = "open_auth p g owner borrower" and ?meta = "MetadataAuthenticatedPublic comment"
  have V: "candidate_for metadata core CapsuleRolePrimary p" "unat (core_commentLength core) = ?c" "utf8_Valid comment"
    using vol by (simp_all add: sealed_volume_def)
  have C: "cand_core p = core" using V(1) by (simp add: candidate_for_def)
  have sel: "auth_outcome ?auth = OutcomeSuccess" "auth_stage ?auth = StageNone" "auth_authenticated ?auth = 2"
    "auth_candidate ?auth = p" "auth_geometry ?auth = g"
    by (simp_all add: open_auth_def)
  obtain tag where T: "metadataTag P (core_suite core) (wk_metadataMAC keys) core (meta_header comment) comment = Inr tag"
    and meta: "coded_near t (RS128 codecs) (meta_blocks ?c) (meta_plain comment tag) (slice 976 (meta_blocks ?c * 136) img')"
    and inside: "\<And>i. i \<le> rec_count n \<Longrightarrow> record_start core rs i + rec_len rs n i \<le> length img'"
    and near: "\<And>i. i \<le> rec_count n \<Longrightarrow> record_near t P core rs keys codecs i (plains ! i) (record_bytes core rs i img')"
    and plains: "length plains = Suc (rec_count n)"
    using sealed_regions_near [OF vol dam [unfolded n_def] unf ok lay] unfolding n_def by blast
  have "candidate_PayloadBodyRS p = rs"
    using lay unfolding canonical_layout_def by (simp add: candidate_PayloadBodyRS_def C)
  then have "deriveCanonicalGeometry p = Inr g" using canonical_layout_derive [of p g] lay C by simp
  then have canon: "canonical_auth ?auth" by (simp add: canonical_auth_def sel)
  let ?off = "front_len ?c + payload_len rs n"
  have off: "geo_backupCapsuleOffset (auth_geometry ?auth) = int ?off" "?off + 1008 = length img'"
    "geo_fileSize (auth_geometry ?auth) = int (length img')"
    using len dam unfolding sel unfolding g by (simp_all add: file_len_def damaged_def)
  obtain w2 where suffix: "readExactAt (int ?off) 1008 StageTailGeometry w = ((slice ?off 1008 img', None), w2)"
    "reads_only w w2"
    using readExactAt_image [OF img', of ?off 1008] off(2) by auto
  have img2: "serves img' w2" using img' suffix(2) by (simp add: serves_only)
  obtain w3 where md: "authenticateMetadata P codecs ?auth w2 = (Inr ?meta, w3)" "reads_only w2 w3"
    using authenticateMetadata_image [OF canon img2 ok(2,3) _ V(3) _ _ meta, of "wk_metadataMAC keys" P] V(2) T lend off(2)
    unfolding sel C lends_volume_keys_def by auto
  have r3: "reads_only w w3" using suffix(2) md(2) by (rule reads_only_trans)
  have img3: "serves img' w3" "sink_accepts (w_env w3)"
    using img' sink r3 by (simp_all add: serves_only reads_only_fields)
  have "canonical_layout (cand_core (auth_candidate ?auth)) rs (auth_geometry ?auth)"
    and "lends_volume_keys (auth_lender ?auth) keys" using lay lend by (simp_all add: sel(5) C sel(4))
  note R = readNormalRecords_image [OF canon this(1) img3 ok this(2) keys, unfolded sel C, folded n_def, OF inside near]
  obtain v w4 where recs: "readNormalRecordsWithSeams P codecs ?auth w3 = (Some (Inr v), w4)"
    "emits w3 (map (\<lambda>j. (word_of_nat j, plains ! j)) [0..<rec_count n]) w4" and last: "plains ! rec_count n = []"
    using R by blast
  have img4: "serves img' w4" using img3(1) emits_serves [OF recs(2)] by simp
  obtain w5 where close: "close_session ?auth (int (length img')) (slice ?off 1008 img') ?meta StageNone w4 =
      (Some (closed_result ?auth ?meta StageNone), w5)" "reads_only w4 w5"
    using close_session_image [OF img4 off] by blast
  have body: "read_authenticated P (Some codecs) (int (length img')) fresh ?auth w = (Some (closed_result ?auth ?meta StageNone), w5)"
    unfolding read_authenticated_def Let_def off(1) suffix(1) issue prod.case option.case md(1) sum.case recs(1) sel(2)
    using close(1) by simp
  have em: "emits w (map (\<lambda>j. (word_of_nat j, plains ! j)) [0..<rec_count n]) w5"
    using emits_trans [of w "[]" w3] emits_trans [OF recs(2), of "[]" w5] r3 close(2) recs(2) by simp
  have "plains = butlast plains @ [[]]" using plains last
    by (metis append_butlast_last_id last_conv_nth length_0_conv nat.simps(3) diff_Suc_1)
  with body em plains show ?thesis by blast
qed

lemma session_sealed:
  assumes vol: "sealed_volume P codecs keys comment metadata core p b plains img"
    and dam: "damaged t (core_featureFlags core AND payloadBodyRSFeatureMask \<noteq> 0)
        (unat (core_plaintextLength core)) (length comment) img img'"
    and unf: "unforged P core keys plains img'"
    and ok: "fec_ok t (RS16 codecs)" "fec_ok t (RS64 codecs)" "fec_ok t (RS128 codecs)" "codecs_sized codecs"
    and keys: "keys_sized keys" and cred: "holds_credential provider (credentialTupleForCandidate p) keys"
    and img': "serves img' w" and sink: "sink_accepts (w_env w)"
  shows "reads_back P codecs (int (length img')) provider comment (core_payloadKind core) (butlast plains) w \<and>
    concat (butlast plains) = concat plains"
proof -
  let ?n = "unat (core_plaintextLength core)" and ?c = "length comment" and ?L = "int (length img')"
  obtain rs g where rs: "rs = (core_featureFlags core AND payloadBodyRSFeatureMask \<noteq> 0)"
    and g: "g = layout_of rs ?n ?c" and lay: "canonical_layout core rs g" and len: "length img = file_len rs ?n ?c"
    by (rule sealed_volume_layout [OF vol ok(4)])
  define fresh where "fresh = whole_structure (core_preamble core) (p, g) (b, g) ?L"
  have fresh: "structure_Issue fresh ComponentTrailer = None" "str_observedSize fresh = ?L"
    by (simp_all add: fresh_def whole_structure_def emptyStructure_def)
  have img0: "serves img' (tick w)" using img' by simp
  obtain wp where probe: "Probe (Some codecs) ?L w = ((RouteNormalPCV, fresh, None), wp)"
    using probe_sealed [OF vol dam ok(1,2,4) lay img'] unfolding fresh_def by blast
  obtain w1 where again: "Probe (Some codecs) ?L (tick w) = ((RouteNormalPCV, fresh, None), w1)" "reads_only (tick w) w1"
    using probe_sealed [OF vol dam ok(1,2,4) lay img0] unfolding fresh_def by blast
  have r1: "reads_only w (tick w1)" using again(2) by (blast intro: reads_only_trans reads_only_tick)
  have img1: "serves img' (tick w1)" "sink_accepts (w_env (tick w1))" "never_cancelled (w_env w1)"
    using img' sink r1 again(2) by (simp_all add: serves_only reads_only_fields serves_def tick_def)
  obtain owner borrower where lend: "lends_volume_keys (auth_lender (open_auth p g owner borrower)) keys"
    and auth: "authenticateCapsulesBorrowingProvider P fresh provider w1 = (open_auth p g owner borrower, tick w1)"
    using authenticate_sealed [OF vol keys cred img1(3) refl, of g ?L] unfolding fresh_def by blast
  obtain w5 where body: "read_authenticated P (Some codecs) ?L fresh (open_auth p g owner borrower) (tick w1) =
      (Some (closed_result (open_auth p g owner borrower) (MetadataAuthenticatedPublic comment) StageNone), w5)"
    and em: "emits (tick w1) (map (\<lambda>j. (word_of_nat j, plains ! j)) [0..<rec_count ?n]) w5"
    and ends: "plains = butlast plains @ [[]]" and plains: "length plains = Suc (rec_count ?n)"
    using read_authenticated_sealed [OF vol dam [folded rs] unf ok(1,3,4) keys lend lay g len img1(1,2) fresh(1)] by blast
  have ctx: "ctx_Err w = (None, tick w)" using img' by (simp add: serves_def ctx_Err_def never_cancelled_def)
  have run: "readNormalVolumeWithProvider P (Some codecs) ?L fresh provider w =
      (Some (closed_result (open_auth p g owner borrower) (MetadataAuthenticatedPublic comment) StageNone), w5)"
    using again(1) auth body fresh(2) by (simp add: readNormalVolumeWithProvider_def ctx open_auth_def)
  have em: "emits w (map (\<lambda>j. (word_of_nat j, plains ! j)) [0..<rec_count ?n]) w5"
    using emits_trans [of w "[]" "tick w1"] r1 em by simp
  have kind: "core_payloadKind core = PayloadKindRaw \<or> core_payloadKind core = PayloadKindArchive" "cand_core p = core"
    using vol valid_payload_kind by (simp_all add: sealed_volume_def candidate_for_def)
  have "map (\<lambda>j. (word_of_nat j :: u64, butlast plains ! j)) [0..<length (butlast plains)] =
      map (\<lambda>j. (word_of_nat j, plains ! j)) [0..<rec_count ?n]"
    using plains by (auto simp: nth_butlast)
  then have "reads_back P codecs ?L provider comment (core_payloadKind core) (butlast plains) w"
    unfolding reads_back_def using probe run em kind
    by (auto simp: closed_result_def Let_def open_auth_def newNormalReadResult_def authenticatedPayloadKind_def
        newNormalCompletion_def split: list.split)
  moreover have "concat (butlast plains) = concat plains" by (subst (2) ends) simp
  ultimately show ?thesis ..
qed

section \<open>An undamaged volume\<close>

lemma systematic_coded:
  assumes "fec_encodes (RS128 codecs)" and "codecs_sized codecs" and "length data = k * 128"
  shows "systematic_bytes (coded (RS128 codecs) k data) = data"
proof -
  have sz: "fec_required (RS128 codecs) = 128" "fec_total (RS128 codecs) = 136"
    using assms(2) by (simp_all add: codecs_sized_def)
  have l: "length (coded (RS128 codecs) k data) = k * 136" using assms(3) sz by (simp add: length_coded)
  have "take 128 (slice (b * 136) 136 (coded (RS128 codecs) k data)) = slice (b * 128) 128 data" if "b < k" for b
    using slice_coded [of "RS128 codecs" data k b] sz assms(3) that block_inside [OF that, of 128]
    by (simp add: codeword_def)
  then have m: "map (\<lambda>b. take 128 (slice (b * 136) 136 (coded (RS128 codecs) k data))) [0..<k] =
      map (\<lambda>b. slice (b * 128) 128 data) [0..<k]" by simp
  have "length (coded (RS128 codecs) k data) div 136 = k" using l by simp
  then show ?thesis
    unfolding systematic_bytes_def by (simp only: m) (simp add: concat_slices assms(3))
qed

lemma sealed_record_unique:
  assumes "sealed_record P core rs keys i plain x" and "sealed_record P core rs keys i plain y"
  shows "x = y"
  using assms unfolding sealed_record_def Let_def by (auto split: if_splits)

lemma undamaged_unforged:
  assumes vol: "sealed_volume P codecs keys comment metadata core p b plains img"
    and ok: "fec_encodes (RS16 codecs)" "fec_encodes (RS128 codecs)" "codecs_sized codecs"
  shows "unforged P core keys plains img"
proof -
  let ?n = "unat (core_plaintextLength core)"
  obtain rs g where rs: "rs = (core_featureFlags core AND payloadBodyRSFeatureMask \<noteq> 0)"
    and lay: "canonical_layout core rs g" by (rule sealed_volume_layout [OF vol ok(3)])
  have V: "volume_image P codecs keys comment core p b plains img" "wf_core core" "wf_candidate p" "wf_candidate b"
    "unat (core_commentLength core) = length comment"
    using vol by (simp_all add: sealed_volume_def candidate_for_def)
  have image: "record_image P core rs keys codecs i (plains ! i) (record_bytes core rs i img)" if "i \<le> rec_count ?n" for i
    by (rule volume_parts [OF V(1) ok(3) V(2-5)]) (use that rs in blast)
  show ?thesis
    unfolding unforged_def Let_def rs [symmetric]
  proof (intro allI impI)
    fix i semantic
    assume i: "i \<le> rec_count ?n" and S: "sealed_record P core rs keys i (plains ! i) semantic"
    let ?L = "body_len rs (rec_plain ?n i)"
    obtain semantic' where S': "sealed_record P core rs keys i (plains ! i) semantic'"
      and bytes: "record_bytes core rs i img = coded (RS16 codecs) 1 (exp_descriptor (record_at core rs i)) @
         body_image codecs rs (exp_encodedBodyLength (record_at core rs i)) semantic'"
      by (rule record_image_sealed [OF image [OF i]])
    have same: "semantic' = semantic" by (rule sealed_record_unique [OF S' S])
    have sl: "length semantic = rec_plain ?n i + 64" by (rule written_body_authentic(2) [OF lay S])
    have "length (coded (RS16 codecs) 1 (exp_descriptor (record_at core rs i))) = 48"
      using ok(3) by (simp add: length_coded codecs_sized_def)
    then have d: "drop 48 (record_bytes core rs i img) = body_image codecs rs ?L semantic"
      using bytes by (simp add: same)
    show "\<not> forged_body P core rs keys i semantic (drop 48 (record_bytes core rs i img))"
    proof (cases rs)
      case True
      note blocks = body_len_blocks [OF True, of "rec_plain ?n i"]
      have wl: "length (written_body rs ?L semantic) = ?L div 136 * 128"
        using True sl blocks(2) by (simp add: written_body_def)
      have "body_image codecs rs ?L semantic = coded (RS128 codecs) (?L div 136) (written_body rs ?L semantic)"
        using True by (simp add: body_image_def written_body_def Let_def)
      then show ?thesis
        unfolding forged_body_def d using systematic_coded [OF ok(2,3) wl] by simp
    qed (simp add: forged_body_def)
  qed
qed

section \<open>From a successful serialization\<close>

text \<open>The credential tuple under which a volume of the request is found.\<close>

definition credential_tuple :: "normalWriteRequest \<Rightarrow> normalWriteCredentialMetadata \<Rightarrow> credentialTuple" where
  "credential_tuple request metadata =
     \<lparr>tup_suite = nwr_suite request, tup_credentialMode = cm_credentialMode metadata,
      tup_keyfileMode = cm_keyfileMode metadata, tup_keyfileCount = cm_keyfileCount metadata,
      tup_kdfProfile = cm_kdfProfile metadata, tup_argonSalt = cm_argonSalt metadata,
      tup_volumeID = cm_volumeID metadata\<rparr>"

lemma written_volume_sealed:
  assumes ok: "fec_encodes (RS16 codecs)" "fec_encodes (RS64 codecs)" "fec_encodes (RS128 codecs)"
    and material: "wf_material material" "mat_credentialMetadata material = Inr metadata"
      "mat_copyKeys material (nwr_suite request) = Inr keys"
    and normal: "\<not> nwr_derivedRoot request"
    and stream: "holds_stream data (w_env w)" "w_consumed w = 0"
    and run: "serializeNormalVolume P request material codecs w = (Some (Inr ()), w')"
      "w_written w' = w_written w @ img"
  obtains core p b plains where "sealed_volume P codecs keys (nwr_comment request) metadata core p b plains img"
    "concat plains = data" "codecs_sized codecs" "core_payloadKind core = nwr_payloadKind request"
    "(core_featureFlags core AND payloadBodyRSFeatureMask \<noteq> 0) = nwr_payloadBodyRS request"
    "core_plaintextLength core = nwr_plaintextLength request"
    "credentialTupleForCandidate p = credential_tuple request metadata"
proof -
  from serializeNormalVolume_end [OF ok material(1) run(1)] obtain img0 where
    S: "serialized P request material codecs w img0 w'" "length img0 < 2 ^ 63" by auto
  then have same: "img0 = img" using run(2) by (auto simp: serialized_def writes_def)
  obtain core p b plains where V: "core_for request metadata core"
    "candidate_for metadata core CapsuleRolePrimary p" "sealed_capsule P keys p"
    "candidate_for metadata core CapsuleRoleBackup b" "sealed_capsule P keys b"
    "volume_image P codecs keys (nwr_comment request) core p b plains img" "concat plains = data"
    using S(1) material(2,3) stream unfolding serialized_def same by auto
  have sized: "codecs_sized codecs"
    using run(1) by (auto simp: serializeNormalVolume_def validNormalWriteSeams_def codecs_sized_def
        split: if_splits)
  have v: "validNormalWriteRequest request" by (rule serializeNormalVolume_request [OF run(1)])
  then have comment: "length (nwr_comment request) \<le> 99999" "utf8_Valid (nwr_comment request)"
    by (simp_all add: validNormalWriteRequest_def split: if_splits)
  have c: "unat (core_commentLength core) = length (nwr_comment request)"
    using V(1) comment(1) by (simp add: core_for_def comment_len_def unat_of_nat)
  have "sealed_volume P codecs keys (nwr_comment request) metadata core p b plains img"
    using V c comment(2) S(2) normal unfolding sealed_volume_def core_for_def same by auto
  moreover have "credentialTupleForCandidate p = credential_tuple request metadata"
    using V(1,2) by (simp add: candidate_for_def core_for_def credentialTupleForCandidate_def new_candidate_def
        credential_tuple_def)
  ultimately show thesis using that V(1,7) sized by (simp add: core_for_def)
qed

section \<open>A concrete reading\<close>

text \<open>A source that holds a list, a sink that takes everything, and a provider that holds the keys of
  the concrete volume.\<close>

definition toy_reader :: "byte list \<Rightarrow> world" where
  "toy_reader img = (toy_world [])\<lparr>w_env := (w_env (toy_world []))
     \<lparr>env_readAt := (\<lambda>_ off n. let x = slice (nat off) n img in
        (int (length x), x, if nat off + n \<le> length img then None else Some EOF))\<rparr>\<rparr>"

definition toy_lender :: "KeyRequest \<Rightarrow> byte list lend" where
  "toy_lender request =
     (Some (if request = metadata_key then wk_metadataMAC toy_keys
            else if request = volume_key_request KeyLabelVolumePayloadXChaCha20 then wk_payloadXChaCha20 toy_keys
            else if request = volume_key_request KeyLabelVolumePayloadSerpent then wk_payloadSerpent toy_keys
            else wk_payloadMAC toy_keys), None)"

definition toy_provider :: credential_provider where
  "toy_provider =
     \<lparr>prov_withCredential = (\<lambda>_. (Some
        \<lparr>acc_withWrapKeys = (\<lambda>role. (Some (wk_capsuleWrap toy_keys ! unat role), None)),
         acc_withReplicaKey = (\<lambda>role _. (Some (wk_replicaMAC toy_keys ! unat role), None)),
         acc_adoptVolumeKey = (\<lambda>_. None)\<rparr>, None)),
      prov_takeOwner = None, prov_borrower = Some (\<lambda>_. toy_lender)\<rparr>"

lemma toy_serves: "length img < 2 ^ 63 \<Longrightarrow> serves img (toy_reader img)"
  by (simp add: serves_def holds_image_def never_cancelled_def toy_reader_def toy_world_def MaxInt64_def Let_def)

lemma toy_sink: "sink_accepts (w_env (toy_reader img))"
  by (simp add: sink_accepts_def toy_reader_def toy_world_def)

lemma toy_credential: "holds_credential toy_provider tuple toy_keys"
proof -
  have "lends_volume_keys toy_lender toy_keys"
    by (simp add: lends_volume_keys_def toy_lender_def metadata_key_def volume_key_request_def)
  then show ?thesis
    unfolding holds_credential_def
    by (intro exI [of _ "the (fst (prov_withCredential toy_provider tuple))"] exI [of _ None] exI [of _ "Some toy_lender"]
        exI [of _ toy_lender]) (simp add: honest_provider_def toy_provider_def)
qed

text \<open>One wrong byte, in the primary capsule.\<close>

definition one_flaw :: "byte list \<Rightarrow> byte list" where
  "one_flaw img = img[20 := img ! 20 + 1]"

lemma one_flaw_damage: "damaged 1 True n c img (one_flaw img)"
proof -
  have "region_near 1 k m off img (one_flaw img)" for k m off
    unfolding region_near_def one_flaw_def by (intro allI impI diffs_slice_update)
  then show ?thesis by (simp only: damaged_def Let_def if_True) (simp add: one_flaw_def)
qed

lemma one_flaw_unforged:
  fixes core :: logicalCore
  shows "unforged P core keys plains (one_flaw img) = unforged P core keys plains img"
proof -
  have "slice off n (one_flaw img) = slice off n img" if "20 < off" for off n
    using that by (simp add: slice_def one_flaw_def)
  then have "record_bytes core rs i (one_flaw img) = record_bytes core rs i img" for rs i
    by (simp add: record_bytes_def record_start_def front_len_def)
  then show ?thesis by (simp add: unforged_def)
qed

lemma toy_written:
  obtains w' img where "serializeNormalVolume toy_prims toy_request toy_material xor_codecs (toy_world [1, 2, 3]) =
      (Some (Inr ()), w')" "w_written w' = w_written (toy_world [1, 2, 3]) @ img" "w_written w' = img"
    "length img < 2 ^ 63" "holds_stream [1, 2, 3] (w_env (toy_world [1, 2, 3]))" "w_consumed (toy_world [1, 2, 3]) = 0"
    "wf_material toy_material" "mat_copyKeys toy_material (nwr_suite toy_request) = Inr toy_keys"
    "keys_sized toy_keys" "\<not> nwr_derivedRoot toy_request"
    "fec_encodes (RS16 xor_codecs)" "fec_encodes (RS64 xor_codecs)" "fec_encodes (RS128 xor_codecs)"
proof -
  obtain w' where run: "serializeNormalVolume toy_prims toy_request toy_material xor_codecs (toy_world [1, 2, 3]) =
       (Some (Inr ()), w')" using serializeNormalVolume_works [OF toy_promised] by blast
  have ok: "fec_encodes (RS16 xor_codecs)" "fec_encodes (RS64 xor_codecs)" "fec_encodes (RS128 xor_codecs)"
    using xor_codecs_ok by (simp_all add: fec_ok_def)
  have wf: "wf_material toy_material" by (simp add: wf_material_def toy_material_def)
  from serializeNormalVolume_end [OF ok wf run] obtain img where
    img: "w_written w' = w_written (toy_world [1, 2, 3]) @ img" "length img < 2 ^ 63"
    by (auto simp: serialized_def writes_def)
  have "holds_stream [1, 2, 3] (w_env (toy_world [1, 2, 3]))"
    using toy_promised by (simp add: promised_def honest_writer_def)
  moreover have "mat_copyKeys toy_material (nwr_suite toy_request) = Inr toy_keys" "\<not> nwr_derivedRoot toy_request"
    by (simp_all add: toy_material_def toy_request_def)
  moreover have "w_written w' = img" using img(1) by (simp add: toy_fields)
  moreover have "keys_sized toy_keys" by (simp add: keys_sized_def toy_keys_def Let_def)
  moreover have "w_consumed (toy_world [1, 2, 3]) = 0" by (simp add: toy_world_def)
  ultimately show thesis using run img ok wf by (intro that)
qed

section \<open>Properties\<close>

text \<open>C1: A volume that was written is read back. Whenever a serialization of a plaintext stream
  reported success, a source that serves the bytes it wrote, to a reader whose provider holds the
  credential, is probed without an issue, both capsules open, the comment and every record
  verify, the sink is given the records in order and their concatenation is the plaintext, and
  the session completes undegraded with the seal of the payload kind.\<close>

theorem written_volume_reads_back:
  assumes "fec_ok t (RS16 codecs)" and "fec_ok t (RS64 codecs)" and "fec_ok t (RS128 codecs)"
    and "wf_material material" and "mat_credentialMetadata material = Inr metadata"
    and "mat_copyKeys material (nwr_suite request) = Inr keys" and "keys_sized keys"
    and "\<not> nwr_derivedRoot request" and "holds_stream data (w_env w)" and "w_consumed w = 0"
    and "serializeNormalVolume P request material codecs w = (Some (Inr ()), w')"
    and "w_written w' = w_written w @ img"
    and "serves img r" and "sink_accepts (w_env r)"
    and "holds_credential provider (credential_tuple request metadata) keys"
  shows "\<exists>records. concat records = data \<and>
    reads_back P codecs (int (length img)) provider (nwr_comment request) (nwr_payloadKind request) records r"
proof -
  have enc: "fec_encodes (RS16 codecs)" "fec_encodes (RS64 codecs)" "fec_encodes (RS128 codecs)"
    using assms(1-3) by (simp_all add: fec_ok_def)
  obtain core p b plains where S: "sealed_volume P codecs keys (nwr_comment request) metadata core p b plains img"
    "concat plains = data" "codecs_sized codecs" "core_payloadKind core = nwr_payloadKind request"
    "credentialTupleForCandidate p = credential_tuple request metadata"
    by (rule written_volume_sealed [OF enc assms(4-6,8-12)])
  note intact = undamaged_unforged [OF S(1) enc(1,3) S(3)]
  from session_sealed [OF S(1) undamaged intact assms(1-3) S(3) assms(7) _ assms(13,14)] assms(15) S(2,4,5)
  show ?thesis by auto
qed

theorem written_volume_reads_back_witness:
  "\<exists>w' records. serializeNormalVolume toy_prims toy_request toy_material xor_codecs (toy_world [1, 2, 3]) =
       (Some (Inr ()), w') \<and> concat records = [1, 2, 3] \<and>
     reads_back toy_prims xor_codecs (int (length (w_written w'))) toy_provider [72, 105] PayloadKindRaw records
       (toy_reader (w_written w'))"
proof -
  obtain w' img where T: "serializeNormalVolume toy_prims toy_request toy_material xor_codecs (toy_world [1, 2, 3]) =
      (Some (Inr ()), w')" "w_written w' = w_written (toy_world [1, 2, 3]) @ img" "w_written w' = img"
    "length img < 2 ^ 63" "holds_stream [1, 2, 3] (w_env (toy_world [1, 2, 3]))" "w_consumed (toy_world [1, 2, 3]) = 0"
    "wf_material toy_material" "mat_copyKeys toy_material (nwr_suite toy_request) = Inr toy_keys"
    "keys_sized toy_keys" "\<not> nwr_derivedRoot toy_request"
    by (rule toy_written)
  obtain metadata where m: "mat_credentialMetadata toy_material = Inr metadata" by (simp add: toy_material_def)
  have f: "nwr_comment toy_request = [72, 105]" "nwr_payloadKind toy_request = PayloadKindRaw"
    by (simp_all add: toy_request_def)
  from written_volume_reads_back [OF xor_codecs_ok(1-3) T(7) m T(8-10,5,6,1,2) toy_serves [OF T(4)] toy_sink
      toy_credential] T(1,3)
  show ?thesis unfolding f by auto
qed

text \<open>C2: The same for a damaged source. With Reed-Solomon codes that correct \<open>t\<close> bytes, the source may
  serve other bytes than those written, up to \<open>t\<close> in every codeword: the plaintext comes back all
  the same, undegraded, unless the damaged bytes of some record carry a valid tag under the
  payload key although they are not the record that was written.\<close>

theorem damaged_volume_reads_back:
  assumes "fec_ok t (RS16 codecs)" and "fec_ok t (RS64 codecs)" and "fec_ok t (RS128 codecs)"
    and "wf_material material" and "mat_credentialMetadata material = Inr metadata"
    and "mat_copyKeys material (nwr_suite request) = Inr keys" and "keys_sized keys"
    and "\<not> nwr_derivedRoot request" and "holds_stream data (w_env w)" and "w_consumed w = 0"
    and "serializeNormalVolume P request material codecs w = (Some (Inr ()), w')"
    and "w_written w' = w_written w @ img"
    and "damaged t (nwr_payloadBodyRS request) (unat (nwr_plaintextLength request)) (length (nwr_comment request))
      img img'"
    and "serves img' r" and "sink_accepts (w_env r)"
    and "holds_credential provider (credential_tuple request metadata) keys"
  shows "(\<exists>records. concat records = data \<and>
      reads_back P codecs (int (length img')) provider (nwr_comment request) (nwr_payloadKind request) records r) \<or>
    (\<exists>core p b plains. sealed_volume P codecs keys (nwr_comment request) metadata core p b plains img \<and>
      \<not> unforged P core keys plains img')"
proof -
  have enc: "fec_encodes (RS16 codecs)" "fec_encodes (RS64 codecs)" "fec_encodes (RS128 codecs)"
    using assms(1-3) by (simp_all add: fec_ok_def)
  obtain core p b plains where S: "sealed_volume P codecs keys (nwr_comment request) metadata core p b plains img"
    "concat plains = data" "codecs_sized codecs" "core_payloadKind core = nwr_payloadKind request"
    "(core_featureFlags core AND payloadBodyRSFeatureMask \<noteq> 0) = nwr_payloadBodyRS request"
    "core_plaintextLength core = nwr_plaintextLength request"
    "credentialTupleForCandidate p = credential_tuple request metadata"
    by (rule written_volume_sealed [OF enc assms(4-6,8-12)])
  note dam = assms(13) [folded S(5,6)]
  show ?thesis
  proof (cases "unforged P core keys plains img'")
    case True
    from session_sealed [OF S(1) dam True assms(1-3) S(3) assms(7) _ assms(14,15)] assms(16) S(2,4,7)
    show ?thesis by auto
  qed (use S(1) in blast)
qed

theorem damaged_volume_reads_back_witness:
  "\<exists>w' records. serializeNormalVolume toy_prims toy_request toy_material xor_codecs (toy_world [1, 2, 3]) =
       (Some (Inr ()), w') \<and> concat records = [1, 2, 3] \<and>
     reads_back toy_prims xor_codecs (int (length (one_flaw (w_written w')))) toy_provider [72, 105] PayloadKindRaw records
       (toy_reader (one_flaw (w_written w')))"
proof -
  obtain w' img where T: "serializeNormalVolume toy_prims toy_request toy_material xor_codecs (toy_world [1, 2, 3]) =
      (Some (Inr ()), w')" "w_written w' = w_written (toy_world [1, 2, 3]) @ img" "w_written w' = img"
    "length img < 2 ^ 63" "holds_stream [1, 2, 3] (w_env (toy_world [1, 2, 3]))" "w_consumed (toy_world [1, 2, 3]) = 0"
    "wf_material toy_material" "mat_copyKeys toy_material (nwr_suite toy_request) = Inr toy_keys"
    "keys_sized toy_keys" "\<not> nwr_derivedRoot toy_request"
    and enc: "fec_encodes (RS16 xor_codecs)" "fec_encodes (RS128 xor_codecs)"
    by (rule toy_written)
  obtain metadata where m: "mat_credentialMetadata toy_material = Inr metadata" by (simp add: toy_material_def)
  have f: "nwr_comment toy_request = [72, 105]" "nwr_payloadKind toy_request = PayloadKindRaw"
    by (simp_all add: toy_request_def)
  have "codecs_sized xor_codecs" using toy_promised by (simp add: promised_def)
  note intact = undamaged_unforged [OF _ enc this]
  have flaw: "damaged 1 (nwr_payloadBodyRS toy_request) n c img (one_flaw img)" "length (one_flaw img) < 2 ^ 63" for n c
    using one_flaw_damage T(4) by (simp_all add: toy_request_def) (simp add: one_flaw_def)
  from damaged_volume_reads_back [OF xor_codecs_ok(1-3) T(7) m T(8-10,5,6,1,2) flaw(1) toy_serves [OF flaw(2)] toy_sink
      toy_credential] intact T(1,3)
  show ?thesis unfolding f one_flaw_unforged by blast
qed

end
