(* ===== verification/Recovery_Map.thy ===== *)
theory Recovery_Map
  imports Geometry
begin

unbundle bit_operations_syntax

text \<open>
  The compact map of recovered records (\<open>pcv3ranges/map.go\<close>): one of three states for every
  record of one mebibyte, kept as runs of one state and as pages of 16384 records with two bits
  each, under a memory budget. A builder appends states in order; a sealed map answers for any
  index and enumerates the ranges. The builder is its own state; a nil builder, for which every
  method returns \<open>ErrInvalid\<close>, is not represented, a nil map is \<open>None\<close>. \<open>blockSize\<close> is
  \<open>unsafe.Sizeof(block{})\<close>, which depends on the platform.
\<close>

section \<open>States, ranges, summaries\<close>

abbreviation (input) RecordSize :: u64 where "RecordSize \<equiv> 1048576"
abbreviation (input) pageBytes :: nat where "pageBytes \<equiv> 4096"
abbreviation (input) pageRecords :: nat where "pageRecords \<equiv> 16384"
abbreviation (input) DefaultBudgetBytes :: u64 where "DefaultBudgetBytes \<equiv> 8388608"

datatype map_error = ErrBudget | ErrInvalid

type_synonym State = byte

abbreviation (input) Verified :: State where "Verified \<equiv> 1"
abbreviation (input) Unverified :: State where "Unverified \<equiv> 2"
abbreviation (input) Missing :: State where "Missing \<equiv> 3"

record Range =
  rng_Index :: u64
  rng_Start :: u64
  rng_End :: u64
  rng_State :: State

record Summary =
  sum_Verified :: u64
  sum_Unverified :: u64
  sum_Missing :: u64
  sum_RecoveredBytes :: u64

definition zeroSummary :: Summary where
  "zeroSummary = \<lparr>sum_Verified = 0, sum_Unverified = 0, sum_Missing = 0, sum_RecoveredBytes = 0\<rparr>"

section \<open>The budget\<close>

record Budget =
  bud_limit :: u64
  bud_used :: u64

definition NewBudget :: "u64 \<Rightarrow> Budget" where
  "NewBudget limit = \<lparr>bud_limit = limit, bud_used = 0\<rparr>"

definition budget_acquire :: "u64 \<Rightarrow> Budget \<Rightarrow> map_error + Budget" where
  "budget_acquire n b =
     (if n > bud_limit b - bud_used b then Inl ErrBudget else Inr (b\<lparr>bud_used := bud_used b + n\<rparr>))"

definition budget_release :: "u64 \<Rightarrow> Budget \<Rightarrow> Budget" where
  "budget_release n b = b\<lparr>bud_used := bud_used b - n\<rparr>"

section \<open>Maps and builders\<close>

text \<open>A block ends before record \<open>blk_end\<close>; state 0 marks a page of mixed states. \<open>map_cap\<close> is the
  capacity of the slice of blocks.\<close>

record block =
  blk_end :: u64
  blk_state :: State
  blk_packed :: "byte list option"

record Map =
  map_length :: u64
  map_count :: u64
  map_prefix :: u64
  map_blocks :: "block list"
  map_cap :: nat
  map_summary :: Summary

definition zeroMap :: Map where
  "zeroMap = \<lparr>map_length = 0, map_count = 0, map_prefix = 0, map_blocks = [], map_cap = 0,
              map_summary = zeroSummary\<rparr>"

record Builder =
  bld_m :: Map
  bld_budget :: Budget
  bld_scratch :: "byte list option"
  bld_filled :: nat
  bld_uniform :: State
  bld_sealed :: bool
  bld_charged :: u64

definition NewBuilder :: "u64 \<Rightarrow> Budget option \<Rightarrow> map_error + Builder" where
  "NewBuilder len budget =
     ebind (budget_acquire (word_of_nat pageBytes)
              (case budget of None \<Rightarrow> NewBudget DefaultBudgetBytes | Some b \<Rightarrow> b)) (\<lambda>budget.
       Inr \<lparr>bld_m = zeroMap\<lparr>map_length := len,
                            map_count := (if len mod RecordSize \<noteq> 0 then len div RecordSize + 1
                                          else len div RecordSize)\<rparr>,
            bld_budget = budget, bld_scratch = Some (replicate pageBytes 0), bld_filled = 0,
            bld_uniform = 0, bld_sealed = False, bld_charged = word_of_nat pageBytes\<rparr>)"

text \<open>The growth of the slice of blocks when it is full: old and new backing array are both charged
  until the copy is done.\<close>

definition grow_blocks :: "u64 \<Rightarrow> (Builder, map_error, unit) io" where
  "grow_blocks blockSize b =
     (if length (map_blocks (bld_m b)) = map_cap (bld_m b) then
        let capacity = (if map_cap (bld_m b) * 2 = 0 then 4 else map_cap (bld_m b) * 2);
            size = word_of_nat capacity * blockSize
        in case budget_acquire size (bld_budget b) of
             Inl e \<Rightarrow> (Inl e, b)
           | Inr budget \<Rightarrow>
               let old = word_of_nat (map_cap (bld_m b)) * blockSize
               in (Inr (), b\<lparr>bld_budget := budget_release old budget,
                            bld_charged := bld_charged b + (size - old),
                            bld_m := (bld_m b)\<lparr>map_cap := capacity\<rparr>\<rparr>)
      else (Inr (), b))"

definition add_block :: "(Builder, map_error, unit) io" where
  "add_block b =
     (let entry = \<lparr>blk_end = map_prefix (bld_m b), blk_state = bld_uniform b, blk_packed = None\<rparr>;
          append = (\<lambda>entry b. b\<lparr>bld_m := (bld_m b)\<lparr>map_blocks := map_blocks (bld_m b) @ [entry]\<rparr>\<rparr>)
      in if bld_uniform b = 0 then
           (case budget_acquire (word_of_nat pageBytes) (bld_budget b) of
              Inl e \<Rightarrow> (Inl e, b)
            | Inr budget \<Rightarrow>
                (Inr (), append (entry\<lparr>blk_packed := bld_scratch b\<rparr>)
                   (b\<lparr>bld_budget := budget, bld_charged := bld_charged b + word_of_nat pageBytes\<rparr>)))
         else (Inr (), append entry b))"

definition clear_page :: "Builder \<Rightarrow> Builder" where
  "clear_page b =
     b\<lparr>bld_scratch := map_option (\<lambda>s. replicate (length s) 0) (bld_scratch b), bld_filled := 0,
       bld_uniform := 0\<rparr>"

definition flush :: "u64 \<Rightarrow> (Builder, map_error, unit) io" where
  "flush blockSize = (\<lambda>b.
     if bld_filled b = 0 then (Inr (), b)
     else
       let blocks = map_blocks (bld_m b) in
       if bld_uniform b \<noteq> 0 \<and> blocks \<noteq> [] \<and> blk_state (last blocks) = bld_uniform b
       then (Inr (), clear_page (b\<lparr>bld_m := (bld_m b)
               \<lparr>map_blocks := butlast blocks @ [(last blocks)\<lparr>blk_end := map_prefix (bld_m b)\<rparr>]\<rparr>\<rparr>))
       else
         io_bind (grow_blocks blockSize) (\<lambda>_.
         io_bind add_block (\<lambda>_ b. (Inr (), clear_page b))) b)"

text \<open>The part of \<open>Append\<close> after the flush of a full page.\<close>

definition record_state :: "State \<Rightarrow> Builder \<Rightarrow> Builder" where
  "record_state s b =
     (let uniform = (if bld_filled b = 0 then s
                     else if bld_uniform b \<noteq> s then 0 else bld_uniform b);
          shift = (bld_filled b mod 4) * 2;
          k = bld_filled b div 4;
          scratch = map_option (\<lambda>p. p[k := p ! k OR push_bit shift s]) (bld_scratch b);
          m = bld_m b;
          prefix = map_prefix m + 1;
          start = (prefix - 1) * RecordSize;
          size = (if map_length m - start < RecordSize then map_length m - start else RecordSize);
          summary = map_summary m;
          summary =
            (if s = Verified then
               summary\<lparr>sum_Verified := sum_Verified summary + 1,
                       sum_RecoveredBytes := sum_RecoveredBytes summary + size\<rparr>
             else if s = Unverified then
               summary\<lparr>sum_Unverified := sum_Unverified summary + 1,
                       sum_RecoveredBytes := sum_RecoveredBytes summary + size\<rparr>
             else if s = Missing then summary\<lparr>sum_Missing := sum_Missing summary + 1\<rparr>
             else summary)
      in b\<lparr>bld_uniform := uniform, bld_scratch := scratch, bld_filled := bld_filled b + 1,
           bld_m := m\<lparr>map_prefix := prefix, map_summary := summary\<rparr>\<rparr>)"

definition builder_Append :: "u64 \<Rightarrow> State \<Rightarrow> (Builder, map_error, unit) io" where
  "builder_Append blockSize s = (\<lambda>b.
     if bld_sealed b \<or> bld_scratch b = None \<or> map_prefix (bld_m b) \<ge> map_count (bld_m b) \<or>
        s < Verified \<or> s > Missing
     then (Inl ErrInvalid, b)
     else io_bind (if bld_filled b = pageRecords then flush blockSize else io_ret ())
            (\<lambda>_ b. (Inr (), record_state s b)) b)"

definition FinishMissingTail :: "u64 \<Rightarrow> (Builder, map_error, unit) io" where
  "FinishMissingTail blockSize = (\<lambda>b.
     if bld_sealed b \<or> bld_scratch b = None then (Inl ErrInvalid, b)
     else io_bind (flush blockSize) (\<lambda>_ b.
            let m = bld_m b; s = map_summary m in
            (Inr (), b\<lparr>bld_m := m\<lparr>map_summary := s\<lparr>sum_Missing := sum_Missing s + (map_count m - map_prefix m)\<rparr>\<rparr>,
                       bld_sealed := True\<rparr>)) b)"

definition Seal :: "u64 \<Rightarrow> (Builder, map_error, Map) io" where
  "Seal blockSize = (\<lambda>b.
     if bld_scratch b = None then (Inl ErrInvalid, b)
     else if \<not> bld_sealed b \<and> map_prefix (bld_m b) \<noteq> map_count (bld_m b) then (Inl ErrInvalid, b)
     else io_bind (flush blockSize) (\<lambda>_ b.
            (Inr (bld_m b),
             b\<lparr>bld_budget := budget_release (word_of_nat pageBytes) (bld_budget b), bld_scratch := None,
               bld_sealed := True, bld_m := zeroMap, bld_charged := 0\<rparr>)) b)"

definition builder_Close :: "Builder \<Rightarrow> Builder" where
  "builder_Close b =
     b\<lparr>bld_budget := budget_release (bld_charged b) (bld_budget b), bld_charged := 0,
       bld_scratch := None, bld_m := zeroMap, bld_sealed := True\<rparr>"

section \<open>Reading a map\<close>

definition map_Count :: "Map option \<Rightarrow> u64" where
  "map_Count m = (case m of None \<Rightarrow> 0 | Some m \<Rightarrow> map_count m)"

definition map_PlaintextLength :: "Map option \<Rightarrow> u64" where
  "map_PlaintextLength m = (case m of None \<Rightarrow> 0 | Some m \<Rightarrow> map_length m)"

definition map_Summary :: "Map option \<Rightarrow> Summary" where
  "map_Summary m = (case m of None \<Rightarrow> zeroSummary | Some m \<Rightarrow> map_summary m)"

text \<open>\<open>sort.Search\<close>: the binary search of the standard library.\<close>

function search_loop :: "(nat \<Rightarrow> bool) \<Rightarrow> nat \<Rightarrow> nat \<Rightarrow> nat" where
  "search_loop f i j =
     (if i < j then
        let h = (i + j) div 2 in
        if \<not> f h then search_loop f (h + 1) j else search_loop f i h
      else i)"
  by pat_completeness auto
termination by (relation "measure (\<lambda>(f, i, j). j - i)") auto

declare search_loop.simps [simp del]

definition sort_Search :: "nat \<Rightarrow> (nat \<Rightarrow> bool) \<Rightarrow> nat" where
  "sort_Search n f = search_loop f 0 n"

text \<open>An index or a page out of range would panic; it has its own value.\<close>

datatype 'a lookup = NoRecord | IndexPanic | Recorded 'a

definition packed_at :: "byte list \<Rightarrow> nat \<Rightarrow> State" where
  "packed_at page k = drop_bit ((k mod 4) * 2) (page ! (k div 4)) AND 3"

definition block_state_at :: "block \<Rightarrow> u64 \<Rightarrow> State lookup" where
  "block_state_at entry offset =
     (if blk_state entry \<noteq> 0 then Recorded (blk_state entry)
      else case blk_packed entry of
             None \<Rightarrow> IndexPanic
           | Some page \<Rightarrow>
               if unat offset div 4 < length page then Recorded (packed_at page (unat offset)) else IndexPanic)"

definition map_StateAt :: "Map option \<Rightarrow> u64 \<Rightarrow> State lookup" where
  "map_StateAt m i =
     (case m of
        None \<Rightarrow> NoRecord
      | Some m \<Rightarrow>
          if i \<ge> map_count m then NoRecord
          else if i \<ge> map_prefix m then Recorded Missing
          else
            let blocks = map_blocks m;
                n = sort_Search (length blocks) (\<lambda>n. blk_end (blocks ! n) > i)
            in if length blocks \<le> n then IndexPanic
               else block_state_at (blocks ! n) (i - (if n > 0 then blk_end (blocks ! (n - 1)) else 0)))"

definition range_at :: "Map \<Rightarrow> u64 \<Rightarrow> State \<Rightarrow> Range" where
  "range_at m i s =
     (let start = i * RecordSize;
          end' = (if map_length m - start > RecordSize then start + RecordSize else map_length m)
      in \<lparr>rng_Index = i, rng_Start = start, rng_End = end', rng_State = s\<rparr>)"

definition map_At :: "Map option \<Rightarrow> u64 \<Rightarrow> Range lookup" where
  "map_At m i =
     (case map_StateAt m i of
        NoRecord \<Rightarrow> NoRecord
      | IndexPanic \<Rightarrow> IndexPanic
      | Recorded s \<Rightarrow> (case m of None \<Rightarrow> NoRecord | Some m \<Rightarrow> Recorded (range_at m i s)))"

text \<open>The cursor of \<open>walk\<close>: \<open>blockIndex\<close> is the rest of the blocks from it.\<close>

fun advance :: "u64 \<Rightarrow> u64 \<Rightarrow> block list \<Rightarrow> (u64 \<times> block \<times> block list) option" where
  "advance i start [] = None"
| "advance i start (entry # rest) =
     (if i \<ge> blk_end entry then advance i (blk_end entry) rest else Some (start, entry, rest))"

lemma advance_end: "advance i start blocks = Some (start', entry, rest) \<Longrightarrow> i < blk_end entry"
  by (induction i start blocks rule: advance.induct) (auto split: if_splits)

text \<open>The ranges it yields to a consumer that never stops; one that stops gets a prefix. \<open>None\<close> is a
  panic.\<close>

lemma unat_next:
  fixes i limit :: u64
  assumes "i < limit"
  shows "unat (i + 1) = unat i + 1" "unat i < unat limit"
proof -
  show l: "unat i < unat limit" using assms by (simp add: word_less_nat_alt)
  then have "unat i + 1 < 2 ^ 64" using unat_u64_less [of limit] by linarith
  then show "unat (i + 1) = unat i + 1" by (rule unat_plus_one)
qed

lemma unat_step: "i < limit \<Longrightarrow> unat limit - unat (i + 1) < unat limit - unat i" for i limit :: u64
  using unat_next [of i limit] by simp

function walk_loop :: "Map \<Rightarrow> bool \<Rightarrow> u64 \<Rightarrow> u64 \<Rightarrow> u64 \<Rightarrow> block list \<Rightarrow> Range list option" where
  "walk_loop m presentOnly limit i start blocks =
     (if \<not> i < limit then Some []
      else if i < map_prefix m then
        (case advance i start blocks of
           None \<Rightarrow> None
         | Some (start, entry, rest) \<Rightarrow>
             (case block_state_at entry (i - start) of
                Recorded state \<Rightarrow>
                  if presentOnly \<and> state = Missing then
                    walk_loop m presentOnly limit
                      ((if blk_state entry = Missing then blk_end entry - 1 else i) + 1) start (entry # rest)
                  else map_option (Cons (range_at m i state))
                         (walk_loop m presentOnly limit (i + 1) start (entry # rest))
              | _ \<Rightarrow> None))
      else map_option (Cons (range_at m i Missing)) (walk_loop m presentOnly limit (i + 1) start blocks))"
  by pat_completeness auto
termination
proof (relation "measure (\<lambda>(m, presentOnly, limit, i, start, blocks). unat limit - unat i)")
  show "((m, presentOnly, limit, (if blk_state entry = Missing then blk_end entry - 1 else i) + 1, start', entry # rest),
      m, presentOnly, limit, i, start, blocks) \<in> measure (\<lambda>(m, presentOnly, limit, i, start, blocks). unat limit - unat i)"
    if "\<not> \<not> i < limit" "advance i start blocks = Some x" "(start', y) = x" "(entry, rest) = y"
    for m presentOnly limit i start blocks start' entry rest x y
    using that advance_end [of i start blocks start' entry rest] unat_step [of i limit]
    by (auto simp: word_less_nat_alt)
qed (simp_all add: unat_step)

declare walk_loop.simps [simp del]

definition map_walk :: "Map option \<Rightarrow> bool \<Rightarrow> Range list option" where
  "map_walk m presentOnly =
     (case m of
        None \<Rightarrow> Some []
      | Some m \<Rightarrow> walk_loop m presentOnly (if presentOnly then map_prefix m else map_count m) 0 0 (map_blocks m))"

definition map_All :: "Map option \<Rightarrow> Range list option" where
  "map_All m = map_walk m False"

definition map_Present :: "Map option \<Rightarrow> Range list option" where
  "map_Present m = map_walk m True"

section \<open>Two bits in a page\<close>

lemma state_cases: "1 \<le> s \<Longrightarrow> s \<le> 3 \<Longrightarrow> s = 1 \<or> s = 2 \<or> s = (3 :: State)"
  by (auto simp: word_le_nat_alt word_unat_eq_iff)

lemma and_three: "x AND 3 = take_bit 2 (x :: byte)"
  by (simp add: take_bit_eq_mask mask_eq_exp_minus_1)

lemma two_bits:
  fixes b s :: byte
  assumes "i < 4" and "j < 4" and "s = 1 \<or> s = 2 \<or> s = 3" and "drop_bit (j * 2) b AND 3 = 0"
  shows "drop_bit (i * 2) (b OR push_bit (j * 2) s) AND 3 = (if i = j then s else drop_bit (i * 2) b AND 3)"
proof -
  have "take_bit 2 s = s" using assms(3) by auto
  then have s: "m < 2" if "bit s m" for m using that by (metis bit_take_bit_iff)
  have z: "\<not> bit b (j * 2 + n)" if "n < 2" for n
    using assms(4) that unfolding and_three bit_eq_iff by (auto simp: bit_take_bit_iff bit_drop_bit_eq)
  show ?thesis
  proof (rule bit_word_eqI)
    fix n assume n: "n < LENGTH(8)"
    have l: "bit (drop_bit (i * 2) (b OR push_bit (j * 2) s) AND 3) n \<longleftrightarrow>
        n < 2 \<and> (bit b (i * 2 + n) \<or> j * 2 \<le> i * 2 + n \<and> bit s (i * 2 + n - j * 2))"
      unfolding and_three using assms(1) by (auto simp: bit_simps)
    have r: "bit (drop_bit (i * 2) b AND 3) n \<longleftrightarrow> n < 2 \<and> bit b (i * 2 + n)"
      unfolding and_three by (auto simp: bit_simps)
    show "bit (drop_bit (i * 2) (b OR push_bit (j * 2) s) AND 3) n \<longleftrightarrow>
        bit (if i = j then s else drop_bit (i * 2) b AND 3) n"
    proof (cases "i = j")
      case True
      then show ?thesis unfolding l using z [of n] s [of n] by auto
    next
      case False
      then have "\<not> (j * 2 \<le> i * 2 + n \<and> bit s (i * 2 + n - j * 2))" if "n < 2"
        using that s [of "i * 2 + n - j * 2"] by auto
      then show ?thesis unfolding l using False r by auto
    qed
  qed
qed

section \<open>What pages and blocks hold\<close>

definition valid_states :: "State list \<Rightarrow> bool" where
  "valid_states xs \<longleftrightarrow> (\<forall>x \<in> set xs. x = Verified \<or> x = Unverified \<or> x = Missing)"

definition page_holds :: "byte list \<Rightarrow> State list \<Rightarrow> bool" where
  "page_holds page ys \<longleftrightarrow>
     length page = pageBytes \<and> length ys \<le> pageRecords \<and> (\<forall>k < length ys. packed_at page k = ys ! k)"

definition scratch_holds :: "byte list \<Rightarrow> State list \<Rightarrow> bool" where
  "scratch_holds page ys \<longleftrightarrow>
     page_holds page ys \<and> (\<forall>k < pageRecords. length ys \<le> k \<longrightarrow> packed_at page k = 0)"

lemma scratch_holds_empty: "scratch_holds (replicate pageBytes 0) []"
  by (auto simp: scratch_holds_def page_holds_def packed_at_def)

lemma scratch_holds_add:
  assumes "scratch_holds page ys" and "length ys < pageRecords" and "s = 1 \<or> s = 2 \<or> s = 3"
  shows "scratch_holds (page[length ys div 4 := page ! (length ys div 4) OR push_bit (length ys mod 4 * 2) s])
    (ys @ [s])"
proof -
  let ?n = "length ys" let ?page = "page[?n div 4 := page ! (?n div 4) OR push_bit (?n mod 4 * 2) s]"
  have l: "length page = 4096" using assms(1) by (simp add: scratch_holds_def page_holds_def)
  have at: "packed_at ?page k = (if k = ?n then s else packed_at page k)" if "k < 16384" for k
  proof (cases "k div 4 = ?n div 4")
    case True
    have "k = ?n \<longleftrightarrow> k mod 4 = ?n mod 4" using True by (metis div_mult_mod_eq)
    moreover have "drop_bit (?n mod 4 * 2) (page ! (?n div 4)) AND 3 = 0"
      using assms(1,2) by (simp add: scratch_holds_def packed_at_def)
    ultimately show ?thesis
      using two_bits [of "k mod 4" "?n mod 4" s "page ! (?n div 4)"] assms(2,3) l True
      by (simp add: packed_at_def)
  next
    case False
    then show ?thesis by (auto simp: packed_at_def)
  qed
  show ?thesis
    using assms(1,2) l at by (auto simp: scratch_holds_def page_holds_def nth_append less_Suc_eq)
qed

definition block_holds :: "block \<Rightarrow> State list \<Rightarrow> bool" where
  "block_holds entry ys \<longleftrightarrow>
     (if blk_state entry \<noteq> 0 then \<forall>y \<in> set ys. y = blk_state entry
      else \<exists>page. blk_packed entry = Some page \<and> page_holds page ys)"

lemma block_state_at_holds:
  assumes "block_holds entry ys" and "unat off < length ys"
  shows "block_state_at entry off = Recorded (ys ! unat off)"
proof (cases "blk_state entry = 0")
  case True
  then obtain page where "blk_packed entry = Some page" "page_holds page ys"
    using assms(1) by (auto simp: block_holds_def)
  then show ?thesis using assms(2) True by (auto simp: block_state_at_def page_holds_def)
qed (use assms(1) nth_mem [OF assms(2)] in \<open>auto simp: block_holds_def block_state_at_def\<close>)

text \<open>Blocks from record \<open>start\<close> on, with the states they hold.\<close>

inductive blocks_hold :: "nat \<Rightarrow> block list \<Rightarrow> State list \<Rightarrow> bool" where
  none: "blocks_hold start [] []"
| some: "block_holds entry ys \<Longrightarrow> ys \<noteq> [] \<Longrightarrow> unat (blk_end entry) = start + length ys \<Longrightarrow>
    blocks_hold (start + length ys) rest zs \<Longrightarrow> blocks_hold start (entry # rest) (ys @ zs)"

inductive_cases blocks_hold_ConsE: "blocks_hold start (entry # rest) xs"
inductive_simps blocks_hold_Nil [simp]: "blocks_hold start [] xs"

lemma blocks_hold_snoc:
  assumes "blocks_hold start blocks ys" and "block_holds entry zs" and "zs \<noteq> []"
    and "unat (blk_end entry) = start + length ys + length zs"
  shows "blocks_hold start (blocks @ [entry]) (ys @ zs)"
  using assms
proof (induction rule: blocks_hold.induct)
  case (none start)
  then show ?case using blocks_hold.some [of entry zs start "[]" "[]"] by simp
next
  case (some e ys' start rest ys'')
  have "blocks_hold (start + length ys') (rest @ [entry]) (ys'' @ zs)"
    using some.IH some.prems by (simp add: add.assoc)
  from blocks_hold.some [OF some.hyps(1-3) this] show ?case by simp
qed

lemma blocks_hold_grow:
  assumes "blocks_hold start blocks ys" and "blocks \<noteq> []" and "blk_state (last blocks) \<noteq> 0"
    and "\<forall>z \<in> set zs. z = blk_state (last blocks)" and "unat e = start + length ys + length zs"
  shows "blocks_hold start (butlast blocks @ [(last blocks)\<lparr>blk_end := e\<rparr>]) (ys @ zs)"
  using assms
proof (induction rule: blocks_hold.induct)
  case (some entry ys' start rest ys'')
  show ?case
  proof (cases "rest = []")
    case True
    then have "ys'' = []" using some.hyps(4) by simp
    then show ?thesis
      using True some.hyps(1,2) some.prems blocks_hold.some [of "entry\<lparr>blk_end := e\<rparr>" "ys' @ zs" start "[]" "[]"]
      by (auto simp: block_holds_def)
  next
    case False
    then have "blocks_hold (start + length ys') (butlast rest @ [(last rest)\<lparr>blk_end := e\<rparr>]) (ys'' @ zs)"
      using some.IH some.prems by (simp add: add.assoc)
    from blocks_hold.some [OF some.hyps(1-3) this] False show ?thesis by simp
  qed
qed simp

lemma advance_holds:
  assumes "blocks_hold (unat st) blocks ys" and "unat st \<le> unat i" and "unat i < unat st + length ys"
  shows "\<exists>st' entry rest. advance i st blocks = Some (st', entry, rest) \<and>
    unat st \<le> unat st' \<and> unat st' \<le> unat i \<and> unat i < unat (blk_end entry) \<and>
    blocks_hold (unat st') (entry # rest) (drop (unat st' - unat st) ys) \<and>
    block_state_at entry (i - st') = Recorded (ys ! (unat i - unat st))"
  using assms
proof (induction "unat st" blocks ys arbitrary: st rule: blocks_hold.induct)
  case (some entry ys' rest ys'')
  show ?case
  proof (cases "i \<ge> blk_end entry")
    case True
    have e: "unat (blk_end entry) = unat st + length ys'" using some.hyps(3) .
    have "unat (blk_end entry) \<le> unat i" using True by (simp add: word_le_nat_alt)
    then have "\<exists>st' entry' rest'. advance i (blk_end entry) rest = Some (st', entry', rest') \<and>
        unat (blk_end entry) \<le> unat st' \<and> unat st' \<le> unat i \<and> unat i < unat (blk_end entry') \<and>
        blocks_hold (unat st') (entry' # rest') (drop (unat st' - unat (blk_end entry)) ys'') \<and>
        block_state_at entry' (i - st') = Recorded (ys'' ! (unat i - unat (blk_end entry)))"
      using some.hyps(5) [of "blk_end entry"] e some.prems by simp
    then show ?thesis using True e by (auto simp: nth_append)
  next
    case False
    have "unat (i - st) = unat i - unat st" using some.prems(1) by (simp add: unat_sub word_le_nat_alt)
    moreover have lt: "unat i < unat st + length ys'" using False some.hyps(3) by (simp add: word_le_nat_alt)
    ultimately have "block_state_at entry (i - st) = Recorded ((ys' @ ys'') ! (unat i - unat st))"
      using block_state_at_holds [OF some.hyps(1), of "i - st"] some.prems(1) by (simp add: nth_append less_diff_conv2)
    moreover have "blocks_hold (unat st) (entry # rest) (ys' @ ys'')" by (rule blocks_hold.some [OF some.hyps(1-4)])
    ultimately show ?thesis using False lt some.hyps(3) some.prems(1) by simp
  qed
qed simp

section \<open>Searching the blocks\<close>

lemma search_loop_least:
  assumes "i \<le> j" and "j \<le> n" and "\<forall>a b. a \<le> b \<longrightarrow> b < n \<longrightarrow> f a \<longrightarrow> f b"
    and "\<forall>k < i. \<not> f k" and "j < n \<longrightarrow> f j"
  shows "search_loop f i j \<le> n \<and> (\<forall>k < search_loop f i j. \<not> f k) \<and> (search_loop f i j < n \<longrightarrow> f (search_loop f i j))"
  using assms
proof (induction f i j rule: search_loop.induct)
  case (1 f i j)
  let ?h = "(i + j) div 2"
  show ?case
  proof (cases "i < j")
    case True
    then have h: "i \<le> ?h" "?h < j" by auto
    show ?thesis
    proof (cases "f ?h")
      case f: True
      have eq: "search_loop f i j = search_loop f i ?h" using True f by (simp add: search_loop.simps [of f i j])
      show ?thesis
        unfolding eq
        by (intro "1.IH"(2) [OF True refl _ _ _ "1.prems"(3,4)]) (use f h "1.prems"(2) in simp_all)
    next
      case f: False
      have eq: "search_loop f i j = search_loop f (?h + 1) j" using True f by (simp add: search_loop.simps [of f i j])
      have "\<not> f k" if "k < ?h + 1" for k
        using "1.prems"(3) [rule_format, of k ?h] that f "1.prems"(2) h by auto
      then show ?thesis
        unfolding eq
        by (intro "1.IH"(1) [OF True refl f _ "1.prems"(2,3) _ "1.prems"(5)]) (use h in simp_all)
    qed
  next
    case False
    then have "search_loop f i j = i" by (simp add: search_loop.simps [of f i j])
    moreover have "j = i" using False "1.prems"(1) by simp
    ultimately show ?thesis using "1.prems"(2,4,5) by (simp only: simp_thms)
  qed
qed

lemma sort_Search_least:
  assumes "\<forall>a b. a \<le> b \<longrightarrow> b < n \<longrightarrow> f a \<longrightarrow> f b" and "r < n" and "f r" and "\<forall>k < r. \<not> f k"
  shows "sort_Search n f = r"
proof -
  let ?s = "sort_Search n f"
  have s: "?s \<le> n" "\<forall>k < ?s. \<not> f k" "?s < n \<longrightarrow> f ?s"
    using search_loop_least [of 0 n n f] assms(1) by (simp_all add: sort_Search_def)
  show ?thesis
  proof (rule linorder_cases [of ?s r])
    assume "?s < r"
    then show ?thesis using s(3) assms(2,4) by auto
  next
    assume "r < ?s"
    then show ?thesis using s(2) assms(3) by blast
  qed
qed

lemma blocks_hold_ends:
  assumes "blocks_hold start blocks ys"
  shows "(\<forall>b < length blocks. start < unat (blk_end (blocks ! b)) \<and> unat (blk_end (blocks ! b)) \<le> start + length ys) \<and>
    (\<forall>a b. a < b \<longrightarrow> b < length blocks \<longrightarrow> unat (blk_end (blocks ! a)) < unat (blk_end (blocks ! b)))"
  using assms
proof (induction rule: blocks_hold.induct)
  case (some entry ys start rest zs)
  have p: "0 < length ys" using some.hyps(2) by simp
  show ?case
  proof (intro conjI allI impI)
    fix b assume b: "b < length (entry # rest)"
    show "start < unat (blk_end ((entry # rest) ! b))" "unat (blk_end ((entry # rest) ! b)) \<le> start + length (ys @ zs)"
      using some.IH b p some.hyps(3) by (cases b; fastforce)+
  next
    fix a b assume "a < b" "b < length (entry # rest)"
    then show "unat (blk_end ((entry # rest) ! a)) < unat (blk_end ((entry # rest) ! b))"
      using some.IH some.hyps(3) by (cases a; cases b) auto
  qed
qed simp

text \<open>The cursor finds the block that the search finds.\<close>

lemma advance_nth:
  "advance i st blocks = Some (st', entry, rest) \<Longrightarrow>
   \<exists>n < length blocks. entry = blocks ! n \<and> (\<forall>k < n. \<not> blk_end (blocks ! k) > i) \<and> blk_end (blocks ! n) > i \<and>
     st' = (if n = 0 then st else blk_end (blocks ! (n - 1)))"
proof (induction i st blocks arbitrary: st' entry rest rule: advance.induct)
  case (2 i st e blocks)
  show ?case
  proof (cases "i \<ge> blk_end e")
    case True
    then obtain n where n: "n < length blocks" "entry = blocks ! n" "\<forall>k < n. \<not> blk_end (blocks ! k) > i"
      "blk_end (blocks ! n) > i" "st' = (if n = 0 then blk_end e else blk_end (blocks ! (n - 1)))"
      using 2 by auto
    then show ?thesis
      using True by (intro exI [of _ "Suc n"]) (auto simp: nth_Cons' less_Suc_eq_0_disj not_less)
  next
    case False
    then show ?thesis using "2.prems" by (intro exI [of _ 0]) auto
  qed
qed simp

lemma StateAt_blocks:
  assumes hold: "blocks_hold 0 (map_blocks m) ys" and pre: "unat (map_prefix m) = length ys"
    and cnt: "map_prefix m \<le> map_count m"
  shows "map_StateAt (Some m) i =
    (if i < map_prefix m then Recorded (ys ! unat i) else if i < map_count m then Recorded Missing else NoRecord)"
proof (cases "i < map_prefix m")
  case True
  let ?b = "map_blocks m"
  have lt: "unat i < length ys" using True pre by (simp add: word_less_nat_alt)
  obtain st' entry rest where a: "advance i 0 ?b = Some (st', entry, rest)"
    "block_state_at entry (i - st') = Recorded (ys ! unat i)"
    using advance_holds [of 0 ?b ys i] hold lt by auto
  from advance_nth [OF a(1)] obtain n where n: "n < length ?b" "entry = ?b ! n" "\<forall>k < n. \<not> blk_end (?b ! k) > i"
    "blk_end (?b ! n) > i" "st' = (if n = 0 then 0 else blk_end (?b ! (n - 1)))" by auto
  have "sort_Search (length ?b) (\<lambda>n. blk_end (?b ! n) > i) = n"
  proof (rule sort_Search_least [OF _ n(1,4,3)], intro allI impI)
    fix a b :: nat assume "a \<le> b" "b < length ?b" "i < blk_end (?b ! a)"
    then show "i < blk_end (?b ! b)"
      using blocks_hold_ends [OF hold, THEN conjunct2, rule_format, of a b]
      by (cases "a = b") (auto simp: word_less_nat_alt)
  qed
  then show ?thesis
    using True cnt a(2) n by (auto simp: map_StateAt_def Let_def word_le_nat_alt word_less_nat_alt)
next
  case False
  then show ?thesis by (auto simp: map_StateAt_def not_less)
qed

section \<open>Walking the blocks\<close>

text \<open>The states of all records: those appended, then missing ones.\<close>

definition state_of :: "State list \<Rightarrow> nat \<Rightarrow> State" where
  "state_of xs j = (if j < length xs then xs ! j else Missing)"

definition ranges_of :: "Map \<Rightarrow> State list \<Rightarrow> bool \<Rightarrow> nat list \<Rightarrow> Range list" where
  "ranges_of m xs presentOnly js =
     map (\<lambda>j. range_at m (word_of_nat j) (state_of xs j))
       (filter (\<lambda>j. \<not> (presentOnly \<and> state_of xs j = Missing)) js)"

lemma ranges_of_simps [simp]:
  "ranges_of m xs p [] = []"
  "ranges_of m xs p (j # js) =
     (if p \<and> state_of xs j = Missing then ranges_of m xs p js
      else range_at m (word_of_nat j) (state_of xs j) # ranges_of m xs p js)"
  "ranges_of m xs p (js @ ks) = ranges_of m xs p js @ ranges_of m xs p ks"
  by (simp_all add: ranges_of_def)

lemma ranges_of_missing: "\<forall>j \<in> set js. state_of xs j = Missing \<Longrightarrow> ranges_of m xs True js = []"
  by (simp add: ranges_of_def)

lemma walk_loop_ranges:
  assumes "blocks_hold (unat st) blocks (drop (unat st) xs)" and "unat st \<le> unat i" and "unat st \<le> length xs"
    and pre: "unat (map_prefix m) = length xs" and lim: "presentOnly \<Longrightarrow> limit = map_prefix m"
  shows "walk_loop m presentOnly limit i st blocks = Some (ranges_of m xs presentOnly [unat i..<unat limit])"
  using assms(1-3)
proof (induction "unat limit - unat i" arbitrary: i st blocks rule: less_induct)
  case less
  note unfold = walk_loop.simps [of m presentOnly limit i st blocks]
  show ?case
  proof (cases "i < limit")
    case False
    then show ?thesis unfolding unfold by (simp add: word_less_nat_alt)
  next
    case lt: True
    have suc: "unat (i + 1) = unat i + 1" "unat i < unat limit" "(word_of_nat (unat i) :: u64) = i"
      using unat_next [OF lt] by simp_all
    have cons: "[unat i..<unat limit] = unat i # [unat (i + 1)..<unat limit]"
      using suc by (simp add: upt_conv_Cons)
    have next_i: "walk_loop m presentOnly limit (i + 1) s bs = Some (ranges_of m xs presentOnly [unat (i + 1)..<unat limit])"
      if "blocks_hold (unat s) bs (drop (unat s) xs)" "unat s \<le> unat i" "unat s \<le> length xs" for s bs
      by (rule less.hyps) (use suc that in simp_all)
    show ?thesis
    proof (cases "i < map_prefix m")
      case inside: True
      then have ix: "unat i < length xs" using pre by (simp add: word_less_nat_alt)
      have len: "unat i < unat st + length (drop (unat st) xs)" using ix less.prems(3) by simp
      obtain st' entry rest where A: "advance i st blocks = Some (st', entry, rest)" "unat st \<le> unat st'"
        "unat st' \<le> unat i" "unat i < unat (blk_end entry)"
        and hold: "blocks_hold (unat st') (entry # rest) (drop (unat st') xs)"
        and state: "block_state_at entry (i - st') = Recorded (xs ! unat i)"
        using advance_holds [OF less.prems(1,2) len] less.prems(2,3) ix by auto
      have so: "state_of xs (unat i) = xs ! unat i" using ix by (simp add: state_of_def)
      note rec = next_i [OF hold A(3)]
      show ?thesis
      proof (cases "presentOnly \<and> xs ! unat i = Missing")
        case skip: True
        show ?thesis
        proof (cases "blk_state entry = Missing")
          case True
          from hold obtain ys zs where B: "drop (unat st') xs = ys @ zs" "block_holds entry ys"
            "unat (blk_end entry) = unat st' + length ys" by (auto elim: blocks_hold_ConsE)
          have "length (drop (unat st') xs) = length ys + length zs" unfolding B(1) by simp
          then have end_le: "unat (blk_end entry) \<le> length xs" using B(3) A(3) ix by simp
          have all: "state_of xs j = Missing" if "unat i \<le> j" "j < unat (blk_end entry)" for j
          proof -
            have "xs ! j = (ys @ zs) ! (j - unat st')"
              unfolding B(1) [symmetric] using that A(3) end_le by simp
            moreover have "j - unat st' < length ys" using that A(3) B(3) by linarith
            ultimately have "xs ! j \<in> set ys" by (simp add: nth_append)
            then show ?thesis using B(2) True that end_le by (auto simp: block_holds_def state_of_def)
          qed
          have l: "unat limit = length xs" using lim skip pre by simp
          have "walk_loop m presentOnly limit (blk_end entry) st' (entry # rest) =
              Some (ranges_of m xs presentOnly [unat (blk_end entry)..<unat limit])"
            by (rule less.hyps) (use A l end_le hold ix in simp_all)
          moreover have "[unat i..<unat limit] = [unat i..<unat (blk_end entry)] @ [unat (blk_end entry)..<unat limit]"
            using upt_add_eq_append [of "unat i" "unat (blk_end entry)" "unat limit - unat (blk_end entry)"] A(4) l end_le
            by simp
          ultimately show ?thesis
            unfolding unfold using lt inside A(1) state skip True all by (simp add: ranges_of_missing)
        next
          case False
          then show ?thesis
            unfolding unfold cons using lt inside A(1) state skip rec so A(3) ix by simp
        qed
      next
        case False
        then show ?thesis
          unfolding unfold cons using lt inside A(1) state rec so A(3) ix suc(3) by auto
      qed
    next
      case outside: False
      then have "\<not> presentOnly" using lim lt by auto
      moreover have "state_of xs (unat i) = Missing"
        using outside pre by (simp add: state_of_def word_less_nat_alt)
      ultimately show ?thesis
        unfolding unfold cons using lt outside next_i [OF less.prems] suc(3) by simp
    qed
  qed
qed

end
