(* ===== verification/Recovery_Build.thy ===== *)
theory Recovery_Build
  imports Recovery_Map
begin

text \<open>
  Building a recovery map: whatever is appended, in whatever order the operations succeed or are
  refused by the budget, the builder holds exactly the states appended, the map it seals answers
  with them, and the budget is charged with the memory in use.
\<close>

section \<open>Summaries\<close>

definition recovered :: "nat \<Rightarrow> State list \<Rightarrow> nat" where
  "recovered n xs = (\<Sum>j<length xs. if xs ! j = Missing then 0 else rec_plain n j)"

definition summary_of :: "nat \<Rightarrow> State list \<Rightarrow> Summary" where
  "summary_of n xs =
     \<lparr>sum_Verified = word_of_nat (count_list xs Verified), sum_Unverified = word_of_nat (count_list xs Unverified),
      sum_Missing = word_of_nat (count_list xs Missing), sum_RecoveredBytes = word_of_nat (recovered n xs)\<rparr>"

lemma recovered_snoc: "recovered n (xs @ [s]) = recovered n xs + (if s = Missing then 0 else rec_plain n (length xs))"
  by (simp add: recovered_def nth_append)

lemma recovered_missing: "recovered n (xs @ replicate k Missing) = recovered n xs"
  by (induction k) (simp_all add: replicate_append_same [symmetric] append_assoc [symmetric] recovered_snoc
      del: append_assoc)

lemma count_list_replicate: "count_list (replicate k x) y = (if x = y then k else 0)"
  by (induction k) auto

lemma count_missing: "count_list (xs @ replicate k Missing) s = count_list xs s + (if s = Missing then k else 0)"
  by (simp add: count_list_replicate)

section \<open>What a builder holds\<close>

definition uniform_of :: "State list \<Rightarrow> State" where
  "uniform_of zs = (case zs of [] \<Rightarrow> 0 | z # _ \<Rightarrow> if \<forall>y \<in> set zs. y = z then z else 0)"

definition builder_pages :: "Builder \<Rightarrow> State list \<Rightarrow> State list \<Rightarrow> bool" where
  "builder_pages b ys zs \<longleftrightarrow>
     blocks_hold 0 (map_blocks (bld_m b)) ys \<and> bld_filled b = length zs \<and>
     (\<exists>page. bld_scratch b = Some page \<and> scratch_holds page zs) \<and> bld_uniform b = uniform_of zs"

definition builder_counts :: "Builder \<Rightarrow> State list \<Rightarrow> bool" where
  "builder_counts b xs \<longleftrightarrow>
     valid_states xs \<and> unat (map_prefix (bld_m b)) = length xs \<and>
     unat (map_count (bld_m b)) = rec_count (unat (map_length (bld_m b))) \<and>
     length xs \<le> rec_count (unat (map_length (bld_m b)))"

definition builder_holds :: "Builder \<Rightarrow> State list \<Rightarrow> bool" where
  "builder_holds b xs \<longleftrightarrow> builder_counts b xs \<and> (\<exists>ys zs. xs = ys @ zs \<and> builder_pages b ys zs)"

text \<open>The fields that a flush leaves alone.\<close>

definition same_progress :: "Builder \<Rightarrow> Builder \<Rightarrow> bool" where
  "same_progress b b' \<longleftrightarrow>
     map_prefix (bld_m b') = map_prefix (bld_m b) \<and> map_count (bld_m b') = map_count (bld_m b) \<and>
     map_length (bld_m b') = map_length (bld_m b) \<and> map_summary (bld_m b') = map_summary (bld_m b) \<and>
     bld_sealed b' = bld_sealed b"

lemma same_progress_simps [simp]:
  "same_progress b b" "same_progress b (clear_page b') = same_progress b b'"
  by (simp_all add: same_progress_def clear_page_def)

lemma same_progress_trans: "same_progress a b \<Longrightarrow> same_progress b c \<Longrightarrow> same_progress a c"
  by (simp add: same_progress_def)

lemma same_progress_counts: "same_progress b b' \<Longrightarrow> builder_counts b' xs = builder_counts b xs"
  by (simp add: same_progress_def builder_counts_def)

lemma grow_blocks_keeps:
  assumes "grow_blocks blockSize b = (r, b')"
  shows "same_progress b b'" "builder_pages b' ys zs = builder_pages b ys zs" "r = Inr () \<or> r = Inl ErrBudget"
    "map_blocks (bld_m b') = map_blocks (bld_m b)" "bld_uniform b' = bld_uniform b" "bld_scratch b' = bld_scratch b"
  using assms
  by (auto simp: grow_blocks_def same_progress_def builder_pages_def budget_acquire_def Let_def
      split: if_splits sum.splits)

lemma valid_uniform:
  assumes "valid_states zs" and "zs \<noteq> []"
  shows "uniform_of zs \<noteq> 0 \<Longrightarrow> \<forall>z \<in> set zs. z = uniform_of zs"
  using assms by (auto simp: uniform_of_def split: list.splits if_splits)

lemma clear_page_pages:
  assumes "blocks_hold 0 (map_blocks (bld_m b)) ys" and "bld_scratch b = Some page" and "length page = pageBytes"
  shows "builder_pages (clear_page b) ys []"
  using assms scratch_holds_empty by (simp add: builder_pages_def clear_page_def uniform_of_def)

lemma flush_pages:
  assumes run: "flush blockSize b = (r, b')" and pages: "builder_pages b ys zs"
    and pre: "unat (map_prefix (bld_m b)) = length ys + length zs" and valid: "valid_states zs"
  shows "same_progress b b'"
    "r = Inr () \<and> builder_pages b' (ys @ zs) [] \<or> r = Inl ErrBudget \<and> builder_pages b' ys zs \<and> zs \<noteq> []"
proof -
  obtain page where P: "blocks_hold 0 (map_blocks (bld_m b)) ys" "bld_filled b = length zs"
    "bld_scratch b = Some page" "scratch_holds page zs" "bld_uniform b = uniform_of zs"
    using pages by (auto simp: builder_pages_def)
  have pl: "length page = pageBytes" "page_holds page zs" using P(4) by (simp_all add: scratch_holds_def page_holds_def)
  let ?blocks = "map_blocks (bld_m b)"
  have "same_progress b b' \<and>
    (r = Inr () \<and> builder_pages b' (ys @ zs) [] \<or> r = Inl ErrBudget \<and> builder_pages b' ys zs \<and> zs \<noteq> [])"
  proof (cases "zs = []")
    case True
    then have "r = Inr ()" "b' = b" using run P(2) by (simp_all add: flush_def)
    then show ?thesis using pages True by simp
  next
    case nonempty: False
    note run' = run [unfolded flush_def Let_def, unfolded P(2)]
    show ?thesis
    proof (cases "bld_uniform b \<noteq> 0 \<and> ?blocks \<noteq> [] \<and> blk_state (last ?blocks) = bld_uniform b")
      case merge: True
      let ?b = "b\<lparr>bld_m := (bld_m b)\<lparr>map_blocks := butlast ?blocks @ [(last ?blocks)\<lparr>blk_end := map_prefix (bld_m b)\<rparr>]\<rparr>\<rparr>"
      have out: "r = Inr ()" "b' = clear_page ?b" using run' merge nonempty by simp_all
      have "\<forall>z \<in> set zs. z = blk_state (last ?blocks)"
        using merge P(5) valid_uniform [OF valid nonempty] by simp
      then have "blocks_hold 0 (map_blocks (bld_m ?b)) (ys @ zs)"
        using blocks_hold_grow [OF P(1)] merge pre by simp
      then have "builder_pages (clear_page ?b) (ys @ zs) []"
        by (rule clear_page_pages) (use P(3) pl in simp_all)
      moreover have "same_progress b ?b" by (simp add: same_progress_def)
      ultimately show ?thesis using out by simp
    next
      case False
      obtain r1 b1 where g: "grow_blocks blockSize b = (r1, b1)" by force
      note G = grow_blocks_keeps [OF g]
      have run1: "io_bind (grow_blocks blockSize) (\<lambda>_. io_bind add_block (\<lambda>_ b. (Inr (), clear_page b))) b = (r, b')"
        using run' nonempty unfolding if_not_P [OF False] by simp
      show ?thesis
      proof (cases r1)
        case (Inl e)
        then show ?thesis using run1 g G(1-3) pages nonempty by (auto simp: io_bind_def)
      next
        case (Inr u)
        have run2: "io_bind add_block (\<lambda>_ b. (Inr (), clear_page b)) b1 = (r, b')"
          using run1 g Inr by (simp add: io_bind_def)
        have pre1: "unat (map_prefix (bld_m b1)) = 0 + length ys + length zs"
          using G(1) pre by (simp add: same_progress_def)
        have grown: "blocks_hold 0 (map_blocks (bld_m b1) @ [entry]) (ys @ zs)"
          if "block_holds entry zs" "blk_end entry = map_prefix (bld_m b1)" for entry
          using blocks_hold_snoc [OF P(1) that(1) nonempty] that(2) pre1 G(4) by simp
        show ?thesis
        proof (cases "bld_uniform b1 = 0")
          case True
          show ?thesis
          proof (cases "budget_acquire (word_of_nat pageBytes) (bld_budget b1)")
            case (Inl e)
            then have "r = Inl ErrBudget" "b' = b1"
              using run2 True by (auto simp: add_block_def io_bind_def budget_acquire_def split: if_splits)
            then show ?thesis using G(1,2) pages nonempty by simp
          next
            case (Inr budget)
            let ?e = "\<lparr>blk_end = map_prefix (bld_m b1), blk_state = 0, blk_packed = Some page\<rparr>"
            let ?b = "b1\<lparr>bld_budget := budget, bld_charged := bld_charged b1 + word_of_nat pageBytes,
              bld_m := (bld_m b1)\<lparr>map_blocks := map_blocks (bld_m b1) @ [?e]\<rparr>\<rparr>"
            have out: "r = Inr ()" "b' = clear_page ?b"
              using run2 True Inr G(5,6) P(3) by (simp_all add: add_block_def io_bind_def)
            have "block_holds ?e zs" using pl(2) by (simp add: block_holds_def)
            then have "builder_pages (clear_page ?b) (ys @ zs) []"
              by (intro clear_page_pages) (use grown [of ?e] G(6) P(3) pl in simp_all)
            moreover have "same_progress b ?b" using G(1) by (simp add: same_progress_def)
            ultimately show ?thesis using out by simp
          qed
        next
          case u: False
          let ?e = "\<lparr>blk_end = map_prefix (bld_m b1), blk_state = bld_uniform b1, blk_packed = None\<rparr>"
          let ?b = "b1\<lparr>bld_m := (bld_m b1)\<lparr>map_blocks := map_blocks (bld_m b1) @ [?e]\<rparr>\<rparr>"
          have out: "r = Inr ()" "b' = clear_page ?b"
            using run2 u by (simp_all add: add_block_def io_bind_def)
          have "block_holds ?e zs" using u G(5) P(5) valid_uniform [OF valid nonempty] by (simp add: block_holds_def)
          then have "builder_pages (clear_page ?b) (ys @ zs) []"
            by (intro clear_page_pages) (use grown [of ?e] G(6) P(3) pl in simp_all)
          moreover have "same_progress b ?b" using G(1) by (simp add: same_progress_def)
          ultimately show ?thesis using out by simp
        qed
      qed
    qed
  qed
  then show "same_progress b b'"
    "r = Inr () \<and> builder_pages b' (ys @ zs) [] \<or> r = Inl ErrBudget \<and> builder_pages b' ys zs \<and> zs \<noteq> []"
    by blast+
qed

lemma flush_holds:
  assumes run: "flush blockSize b = (r, b')" and hold: "builder_holds b xs"
  shows "same_progress b b'" "builder_holds b' xs" "r = Inr () \<and> builder_pages b' xs [] \<or> r = Inl ErrBudget"
proof -
  obtain ys zs where X: "xs = ys @ zs" "builder_pages b ys zs" and c: "builder_counts b xs"
    using hold by (auto simp: builder_holds_def)
  have "valid_states zs" "unat (map_prefix (bld_m b)) = length ys + length zs"
    using c X(1) by (auto simp: builder_counts_def valid_states_def)
  note F = flush_pages [OF run X(2) this(2,1)]
  show s: "same_progress b b'" by (rule F(1))
  show "builder_holds b' xs"
    using F(2) X(1) c same_progress_counts [OF s] unfolding builder_holds_def by (metis append_Nil2)
  show "r = Inr () \<and> builder_pages b' xs [] \<or> r = Inl ErrBudget" using F(2) X(1) by blast
qed

section \<open>Appending\<close>

lemma uniform_of_snoc:
  assumes "valid_states zs" and "s = Verified \<or> s = Unverified \<or> s = Missing"
  shows "uniform_of (zs @ [s]) = (if zs = [] then s else if uniform_of zs \<noteq> s then 0 else uniform_of zs)"
  using assms by (cases zs) (auto simp: uniform_of_def valid_states_def)

lemma record_state_pages:
  assumes "builder_pages b ys zs" and "length zs < pageRecords" and "valid_states zs"
    and s: "s = Verified \<or> s = Unverified \<or> s = Missing"
  shows "builder_pages (record_state s b) ys (zs @ [s])"
proof -
  obtain page where P: "blocks_hold 0 (map_blocks (bld_m b)) ys" "bld_filled b = length zs"
    "bld_scratch b = Some page" "scratch_holds page zs" "bld_uniform b = uniform_of zs"
    using assms(1) by (auto simp: builder_pages_def)
  show ?thesis
    using P scratch_holds_add [OF P(4) assms(2) s] uniform_of_snoc [OF assms(3) s]
    by (simp add: builder_pages_def record_state_def Let_def)
qed

text \<open>The extent of the next record.\<close>

lemma record_extent:
  fixes len :: u64
  assumes "unat p = n" and "n < rec_count (unat len)"
  shows "unat ((p + 1 - 1) * RecordSize) = n * 1048576" "n * 1048576 < unat len"
    "unat (if len - (p + 1 - 1) * RecordSize < RecordSize then len - (p + 1 - 1) * RecordSize else RecordSize) =
       rec_plain (unat len) n"
proof -
  show lt: "n * 1048576 < unat len" using assms(2) by (simp add: rec_count_def)
  then have "n * 1048576 < 2 ^ 64" using unat_u64_less [of len] by linarith
  then show e: "unat ((p + 1 - 1) * RecordSize) = n * 1048576"
    using assms(1) by (simp add: unat_word_ariths)
  have "(p + 1 - 1) * RecordSize \<le> len" unfolding word_le_nat_alt e using lt by simp
  then have "unat (len - (p + 1 - 1) * RecordSize) = unat len - n * 1048576"
    unfolding e [symmetric] by (rule unat_sub)
  then show "unat (if len - (p + 1 - 1) * RecordSize < RecordSize then len - (p + 1 - 1) * RecordSize else RecordSize) =
       rec_plain (unat len) n"
    by (auto simp: rec_plain_def word_less_nat_alt)
qed

lemma record_state_counts:
  assumes c: "builder_counts b xs" and sum: "map_summary (bld_m b) = summary_of (unat (map_length (bld_m b))) xs"
    and room: "map_prefix (bld_m b) < map_count (bld_m b)"
    and s: "s = Verified \<or> s = Unverified \<or> s = Missing"
  shows "builder_counts (record_state s b) (xs @ [s])"
    "map_summary (bld_m (record_state s b)) = summary_of (unat (map_length (bld_m b))) (xs @ [s])"
    "map_length (bld_m (record_state s b)) = map_length (bld_m b)" "bld_sealed (record_state s b) = bld_sealed b"
proof -
  let ?m = "bld_m b" let ?p = "map_prefix ?m" and ?len = "map_length ?m"
  have n: "unat ?p = length xs" "length xs < rec_count (unat ?len)"
    using c room by (simp_all add: builder_counts_def word_less_nat_alt)
  have p1: "unat (?p + 1) = length xs + 1" using unat_next(1) [OF room] n(1) by simp
  note E = record_extent [OF n]
  show "map_length (bld_m (record_state s b)) = ?len" "bld_sealed (record_state s b) = bld_sealed b"
    by (simp_all add: record_state_def Let_def)
  show "builder_counts (record_state s b) (xs @ [s])"
    using c n p1 s by (auto simp: builder_counts_def record_state_def Let_def valid_states_def)
  define size where "size = (if ?len - (?p + 1 - 1) * RecordSize < RecordSize then ?len - (?p + 1 - 1) * RecordSize else RecordSize)"
  have z: "size = word_of_nat (rec_plain (unat ?len) (length xs))"
  proof -
    have "size = word_of_nat (unat size)" by simp
    then show ?thesis unfolding E(3) [folded size_def] .
  qed
  have "map_summary (bld_m (record_state s b)) =
      (let q = map_summary ?m in
       if s = Verified then q\<lparr>sum_Verified := sum_Verified q + 1, sum_RecoveredBytes := sum_RecoveredBytes q + size\<rparr>
       else if s = Unverified then q\<lparr>sum_Unverified := sum_Unverified q + 1, sum_RecoveredBytes := sum_RecoveredBytes q + size\<rparr>
       else if s = Missing then q\<lparr>sum_Missing := sum_Missing q + 1\<rparr> else q)"
    by (simp add: record_state_def Let_def size_def)
  then show "map_summary (bld_m (record_state s b)) = summary_of (unat ?len) (xs @ [s])"
    unfolding sum z using s by (auto simp: summary_of_def Let_def recovered_snoc add.commute)
qed

text \<open>The whole invariant of a builder: its summary counts the implicit missing tail once it is finished.\<close>

definition with_tail :: "u64 \<Rightarrow> State list \<Rightarrow> State list" where
  "with_tail len xs = xs @ replicate (rec_count (unat len) - length xs) Missing"

definition builder_inv :: "u64 \<Rightarrow> Builder \<Rightarrow> State list \<Rightarrow> bool" where
  "builder_inv len b xs \<longleftrightarrow>
     builder_holds b xs \<and> map_length (bld_m b) = len \<and>
     map_summary (bld_m b) = summary_of (unat len) (if bld_sealed b then with_tail len xs else xs)"

lemma NewBuilder_inv:
  assumes "NewBuilder len budget = Inr b"
  shows "builder_inv len b []"
proof -
  have b: "map_blocks (bld_m b) = []" "bld_filled b = 0" "bld_scratch b = Some (replicate pageBytes 0)" "bld_uniform b = 0"
    "map_prefix (bld_m b) = 0" "map_length (bld_m b) = len" "\<not> bld_sealed b" "map_summary (bld_m b) = zeroSummary"
    "map_count (bld_m b) = (if len mod RecordSize \<noteq> 0 then len div RecordSize + 1 else len div RecordSize)"
    using assms by (auto simp only: NewBuilder_def ebind_eq_Inr zeroMap_def sum.inject Builder.simps Map.simps)
  have "unat (map_count (bld_m b)) = rec_count (unat len)"
  proof -
    have q: "unat (len div RecordSize) = unat len div 1048576" "unat (len mod RecordSize) = unat len mod 1048576"
      by (simp_all add: unat_div unat_mod)
    have "unat len div 1048576 < 2 ^ 44" 
    proof (rule less_mult_imp_div_less)
      have "(2 :: nat) ^ 44 * 1048576 = 2 ^ 64" by simp
      then show "unat len < 2 ^ 44 * 1048576" using unat_u64_less [of len] by argo
    qed
    then have "unat len div 1048576 + 1 < 2 ^ 64" by simp
    then have "unat (len div RecordSize + 1) = unat len div 1048576 + 1"
      using unat_plus_one [of "len div RecordSize"] q(1) by simp
    moreover have "len mod RecordSize = 0 \<longleftrightarrow> unat len mod 1048576 = 0" by (simp only: word_unat_eq_iff q unat_0)
    ultimately show ?thesis unfolding b(9) rec_count_div using q(1) by auto
  qed
  then have "builder_counts b []" using b by (simp add: builder_counts_def valid_states_def)
  moreover have "builder_pages b [] []" using b scratch_holds_empty by (simp add: builder_pages_def uniform_of_def)
  ultimately show ?thesis
    using b by (auto simp: builder_inv_def builder_holds_def summary_of_def zeroSummary_def recovered_def)
qed

lemma Append_inv:
  assumes inv: "builder_inv len b xs" and run: "builder_Append blockSize s b = (r, b')"
  shows "case r of Inr _ \<Rightarrow> builder_inv len b' (xs @ [s]) | Inl _ \<Rightarrow> builder_inv len b' xs"
proof (cases "bld_sealed b \<or> map_prefix (bld_m b) \<ge> map_count (bld_m b) \<or> s < Verified \<or> s > Missing")
  case True
  then show ?thesis using run inv by (auto simp: builder_Append_def)
next
  case False
  have I: "builder_holds b xs" "map_length (bld_m b) = len" "\<not> bld_sealed b" "map_summary (bld_m b) = summary_of (unat len) xs"
    using inv False by (simp_all add: builder_inv_def)
  have s: "s = Verified \<or> s = Unverified \<or> s = Missing" using state_cases [of s] False by (simp only: not_less de_Morgan_disj simp_thms)
  have scratch: "bld_scratch b \<noteq> None" using I(1) by (auto simp: builder_holds_def builder_pages_def)
  obtain r1 b1 where f: "(if bld_filled b = pageRecords then flush blockSize else io_ret ()) b = (r1, b1)" by force
  have run1: "r = (case r1 of Inl e \<Rightarrow> Inl e | Inr _ \<Rightarrow> Inr ()) \<and> b' = (case r1 of Inl _ \<Rightarrow> b1 | Inr _ \<Rightarrow> record_state s b1)"
  proof -
    have "\<not> (bld_sealed b \<or> bld_scratch b = None \<or> map_prefix (bld_m b) \<ge> map_count (bld_m b) \<or>
        s < Verified \<or> s > Missing)"
      using False I(3) scratch by blast
    from run [unfolded builder_Append_def if_not_P [OF this]] show ?thesis
      using f by (auto simp: io_bind_def split: sum.splits)
  qed
  have F: "same_progress b b1" "builder_holds b1 xs" "r1 = Inl ErrBudget \<or> bld_filled b1 \<noteq> pageRecords"
  proof -
    have "same_progress b b1 \<and> builder_holds b1 xs \<and> (r1 = Inl ErrBudget \<or> bld_filled b1 \<noteq> pageRecords)"
    proof (cases "bld_filled b = pageRecords")
      case True
      then show ?thesis using flush_holds [of blockSize b r1 b1 xs] f I(1) by (auto simp: builder_pages_def)
    next
      case False
      then show ?thesis using f I(1) by auto
    qed
    then show "same_progress b b1" "builder_holds b1 xs" "r1 = Inl ErrBudget \<or> bld_filled b1 \<noteq> pageRecords" by blast+
  qed
  have I1: "map_length (bld_m b1) = len" "\<not> bld_sealed b1" "map_summary (bld_m b1) = summary_of (unat len) xs"
    using I F(1) by (simp_all add: same_progress_def)
  show ?thesis
  proof (cases r1)
    case (Inl e)
    then show ?thesis using run1 F(2) I1 by (simp add: builder_inv_def)
  next
    case (Inr u)
    obtain ys zs where X: "xs = ys @ zs" "builder_pages b1 ys zs" and c: "builder_counts b1 xs"
      using F(2) by (auto simp: builder_holds_def)
    have "length zs < pageRecords"
      using X(2) F(3) Inr by (auto simp: builder_pages_def scratch_holds_def page_holds_def)
    then have p: "builder_pages (record_state s b1) ys (zs @ [s])"
      by (rule record_state_pages [OF X(2) _ _ s]) (use c X(1) in \<open>simp add: builder_counts_def valid_states_def\<close>)
    have room: "map_prefix (bld_m b1) < map_count (bld_m b1)" using False F(1) by (simp add: same_progress_def not_le)
    note R = record_state_counts [OF c I1(3) [folded I1(1)] room s]
    have "builder_holds (record_state s b1) (xs @ [s])"
      unfolding builder_holds_def using R(1) p X(1) append_assoc by blast
    then have "builder_inv len (record_state s b1) (xs @ [s])"
      using R(2-4) I1 by (simp add: builder_inv_def)
    then show ?thesis using run1 Inr by simp
  qed
qed

section \<open>Finishing and sealing\<close>

lemma summary_tail:
  assumes "length xs \<le> rec_count (unat len)" and "unat c = rec_count (unat len)" and "unat p = length xs"
  shows "(summary_of (unat len) xs)\<lparr>sum_Missing := sum_Missing (summary_of (unat len) xs) + (c - p)\<rparr> =
    summary_of (unat len) (with_tail len xs)"
proof -
  have "p \<le> c" using assms by (simp add: word_le_nat_alt)
  then have "unat (c - p) = rec_count (unat len) - length xs" using assms(2,3) by (simp add: unat_sub)
  then have "c - p = word_of_nat (rec_count (unat len) - length xs)" by (metis of_nat_unat ucast_id)
  then show ?thesis by (simp add: summary_of_def with_tail_def recovered_missing count_missing count_list_replicate)
qed

lemma flush_inv:
  assumes "builder_inv len b xs" and "flush blockSize b = (r, b')"
  shows "builder_inv len b' xs" "bld_sealed b' = bld_sealed b" "r = Inr () \<and> builder_pages b' xs [] \<or> r = Inl ErrBudget"
    "same_progress b b'"
proof -
  have h: "builder_holds b xs" using assms(1) by (simp add: builder_inv_def)
  note F = flush_holds [OF assms(2) h]
  show "builder_inv len b' xs" "bld_sealed b' = bld_sealed b" "same_progress b b'"
    using F(1,2) assms(1) by (simp_all add: builder_inv_def same_progress_def)
  show "r = Inr () \<and> builder_pages b' xs [] \<or> r = Inl ErrBudget" by (rule F(3))
qed

lemma FinishMissingTail_inv:
  assumes inv: "builder_inv len b xs" and run: "FinishMissingTail blockSize b = (r, b')"
  shows "builder_inv len b' xs"
proof (cases "bld_sealed b \<or> bld_scratch b = None")
  case True
  then show ?thesis using run inv by (auto simp: FinishMissingTail_def)
next
  case False
  obtain r1 b1 where f: "flush blockSize b = (r1, b1)" by force
  note F = flush_inv [OF inv f]
  show ?thesis
  proof (cases r1)
    case (Inl e)
    then show ?thesis using run False f F(1) by (auto simp: FinishMissingTail_def io_bind_def)
  next
    case (Inr u)
    let ?m = "bld_m b1"
    let ?b = "b1\<lparr>bld_m := ?m\<lparr>map_summary := (map_summary ?m)
        \<lparr>sum_Missing := sum_Missing (map_summary ?m) + (map_count ?m - map_prefix ?m)\<rparr>\<rparr>, bld_sealed := True\<rparr>"
    have b': "b' = ?b" using run False f Inr by (auto simp: FinishMissingTail_def io_bind_def Let_def)
    have c: "builder_holds b1 xs" "map_length ?m = len" "map_summary ?m = summary_of (unat len) xs"
      using F(1,2) False by (simp_all add: builder_inv_def)
    then have "length xs \<le> rec_count (unat len)" "unat (map_count ?m) = rec_count (unat len)"
      "unat (map_prefix ?m) = length xs"
      by (simp_all add: builder_holds_def builder_counts_def)
    note T = summary_tail [OF this]
    have "builder_holds ?b xs"
      using c(1) by (simp add: builder_holds_def builder_counts_def builder_pages_def)
    then show ?thesis unfolding b' using c(2) T unfolding builder_inv_def c(3) by simp
  qed
qed

lemma Seal_eq:
  "Seal blockSize b =
     (if bld_scratch b = None \<or> \<not> bld_sealed b \<and> map_prefix (bld_m b) \<noteq> map_count (bld_m b)
      then (Inl ErrInvalid, b)
      else case flush blockSize b of
             (Inl e, b1) \<Rightarrow> (Inl e, b1)
           | (Inr _, b1) \<Rightarrow>
               (Inr (bld_m b1),
                b1\<lparr>bld_budget := budget_release (word_of_nat pageBytes) (bld_budget b1), bld_scratch := None,
                   bld_sealed := True, bld_m := zeroMap, bld_charged := 0\<rparr>))"
  by (simp add: Seal_def io_bind_def split: prod.split sum.split)

lemma Seal_cases:
  assumes inv: "builder_inv len b xs" and run: "Seal blockSize b = (r, b')"
  shows "r = Inl ErrInvalid \<and> b' = b \<or> r = Inl ErrBudget \<and> builder_inv len b' xs \<or>
    (\<exists>b1. flush blockSize b = (Inr (), b1) \<and> r = Inr (bld_m b1) \<and> builder_inv len b1 xs \<and> builder_pages b1 xs [] \<and>
       (bld_sealed b1 \<or> length xs = rec_count (unat len)))"
proof (cases "bld_scratch b = None \<or> \<not> bld_sealed b \<and> map_prefix (bld_m b) \<noteq> map_count (bld_m b)")
  case True
  then show ?thesis using run unfolding Seal_eq if_P [OF True] by simp
next
  case False
  obtain r1 b1 where f: "flush blockSize b = (r1, b1)" by force
  note F = flush_inv [OF inv f]
  have c: "bld_sealed b1 \<or> length xs = rec_count (unat len)"
    using inv F(2) False by (auto simp: builder_inv_def builder_holds_def builder_counts_def)
  show ?thesis
  proof (cases r1)
    case (Inl e)
    then show ?thesis using run f F(1,3) unfolding Seal_eq if_not_P [OF False] by auto
  next
    case (Inr u)
    then show ?thesis using run f F(1,3) c unfolding Seal_eq if_not_P [OF False] by auto
  qed
qed

end
