(* ===== verification/Recovery_Answers.thy ===== *)
theory Recovery_Answers
  imports Recovery_Build
begin

text \<open>
  What a recovery map promises: however it was built, and however often the budget refused an
  operation in between, the map that is sealed answers every query as the plain list of the states
  appended, the implicit missing tail included, would.
\<close>

section \<open>Building steps\<close>

text \<open>The calls of one recovery on one builder; a refused call is followed by any other.\<close>

inductive built :: "u64 \<Rightarrow> u64 \<Rightarrow> Budget option \<Rightarrow> Builder \<Rightarrow> State list \<Rightarrow> bool"
  for blockSize len budget where
  new: "NewBuilder len budget = Inr b \<Longrightarrow> built blockSize len budget b []"
| appended: "built blockSize len budget b xs \<Longrightarrow> builder_Append blockSize s b = (Inr (), b') \<Longrightarrow>
    built blockSize len budget b' (xs @ [s])"
| refused: "built blockSize len budget b xs \<Longrightarrow> builder_Append blockSize s b = (Inl e, b') \<Longrightarrow>
    built blockSize len budget b' xs"
| finished: "built blockSize len budget b xs \<Longrightarrow> FinishMissingTail blockSize b = (r, b') \<Longrightarrow>
    built blockSize len budget b' xs"
| not_sealed: "built blockSize len budget b xs \<Longrightarrow> Seal blockSize b = (Inl e, b') \<Longrightarrow>
    built blockSize len budget b' xs"

lemma built_inv: "built blockSize len budget b xs \<Longrightarrow> builder_inv len b xs"
proof (induction rule: built.induct)
  case (new b)
  then show ?case by (rule NewBuilder_inv)
next
  case (appended b xs s b')
  then show ?case using Append_inv [OF appended.IH appended.hyps(2)] by simp
next
  case (refused b xs s e b')
  then show ?case using Append_inv [OF refused.IH refused.hyps(2)] by simp
next
  case (finished b xs r b')
  then show ?case using FinishMissingTail_inv [OF finished.IH finished.hyps(2)] by simp
next
  case (not_sealed b xs e b')
  then show ?case using Seal_cases [OF not_sealed.IH not_sealed.hyps(2)] by auto
qed

section \<open>The plain list\<close>

text \<open>The range of record \<open>j\<close> of \<open>n\<close> bytes, over the plain numbers.\<close>

definition plain_range :: "u64 \<Rightarrow> nat \<Rightarrow> State \<Rightarrow> Range" where
  "plain_range len j s =
     \<lparr>rng_Index = word_of_nat j, rng_Start = word_of_nat (j * 1048576),
      rng_End = word_of_nat (j * 1048576 + rec_plain (unat len) j), rng_State = s\<rparr>"

text \<open>What a map answers when it stands for the states \<open>full\<close> of all records.\<close>

definition answers :: "u64 \<Rightarrow> State list \<Rightarrow> Map \<Rightarrow> bool" where
  "answers len full m \<longleftrightarrow>
     map_PlaintextLength (Some m) = len \<and>
     map_Count (Some m) = word_of_nat (length full) \<and>
     map_Summary (Some m) = summary_of (unat len) full \<and>
     (\<forall>i. map_StateAt (Some m) i = (if unat i < length full then Recorded (full ! unat i) else NoRecord)) \<and>
     (\<forall>i. map_At (Some m) i =
        (if unat i < length full then Recorded (plain_range len (unat i) (full ! unat i)) else NoRecord)) \<and>
     map_All (Some m) = Some (map (\<lambda>j. plain_range len j (full ! j)) [0..<length full]) \<and>
     map_Present (Some m) =
       Some (map (\<lambda>j. plain_range len j (full ! j)) (filter (\<lambda>j. full ! j \<noteq> Missing) [0..<length full]))"

lemma range_at_plain:
  assumes "map_length m = len" and "j < rec_count (unat len)"
  shows "range_at m (word_of_nat j) s = plain_range len j s"
proof -
  have lt: "j * 1048576 < unat len" using assms(2) by (simp add: rec_count_def)
  then have "j * 1048576 < 2 ^ 64" using unat_u64_less [of len] by linarith
  then have e: "unat (word_of_nat j * RecordSize) = j * 1048576"
    using unat_of_nat [where 'a = 64, of "j * 1048576"] by simp
  have "word_of_nat j * RecordSize \<le> len" unfolding word_le_nat_alt e using lt by simp
  then have d: "unat (len - word_of_nat j * RecordSize) = unat len - j * 1048576"
    unfolding e [symmetric] by (rule unat_sub)
  have l: "len = word_of_nat (unat len)" by simp
  show ?thesis
  proof (cases "len - word_of_nat j * RecordSize > RecordSize")
    case True
    then have "1048576 < unat len - j * 1048576" unfolding word_less_nat_alt d by simp
    then show ?thesis using True assms(1) by (simp add: range_at_def plain_range_def rec_plain_def Let_def)
  next
    case False
    then have "\<not> 1048576 < unat len - j * 1048576" unfolding word_less_nat_alt d by simp
    then have "j * 1048576 + rec_plain (unat len) j = unat len" using lt by (simp add: rec_plain_def)
    then show ?thesis using False assms(1) l by (simp add: range_at_def plain_range_def Let_def)
  qed
qed

lemma with_tail_nth: "j < length (with_tail len xs) \<Longrightarrow> with_tail len xs ! j = state_of xs j"
  by (auto simp: with_tail_def state_of_def nth_append)

lemma blocks_answer:
  assumes hold: "blocks_hold 0 (map_blocks m) xs" and pre: "unat (map_prefix m) = length xs"
    and cnt: "unat (map_count m) = rec_count (unat len)" "length xs \<le> rec_count (unat len)"
    and len: "map_length m = len" and sum: "map_summary m = summary_of (unat len) (with_tail len xs)"
  shows "answers len (with_tail len xs) m"
proof -
  let ?full = "with_tail len xs"
  have fl: "length ?full = rec_count (unat len)" using cnt(2) by (simp add: with_tail_def)
  have state: "map_StateAt (Some m) i = (if unat i < length ?full then Recorded (?full ! unat i) else NoRecord)" for i
  proof -
    have "map_prefix m \<le> map_count m" using pre cnt by (simp add: word_le_nat_alt)
    from StateAt_blocks [OF hold pre this, of i] show ?thesis
      using pre cnt fl with_tail_nth [of "unat i" len xs] by (auto simp: word_less_nat_alt state_of_def)
  qed
  have at: "map_At (Some m) i = (if unat i < length ?full then Recorded (plain_range len (unat i) (?full ! unat i)) else NoRecord)" for i
    using state [of i] fl range_at_plain [OF len, of "unat i"] by (simp add: map_At_def)
  have walk: "walk_loop m p limit 0 0 (map_blocks m) = Some (ranges_of m xs p [0..<unat limit])"
    if "p \<Longrightarrow> limit = map_prefix m" for p limit
    using walk_loop_ranges [of 0 "map_blocks m" xs 0 m p limit] hold pre that by simp
  have all: "map_All (Some m) = Some (map (\<lambda>j. plain_range len j (?full ! j)) [0..<length ?full])"
    using walk [of False "map_count m"] cnt(1) fl
    by (simp add: map_All_def map_walk_def ranges_of_def range_at_plain [OF len] with_tail_nth)
  have "map_Present (Some m) =
      Some (map (\<lambda>j. plain_range len j (state_of xs j)) (filter (\<lambda>j. state_of xs j \<noteq> Missing) [0..<length xs]))"
    using walk [of True "map_prefix m"] pre cnt(2)
    by (simp add: map_Present_def map_walk_def ranges_of_def range_at_plain [OF len])
  moreover have "filter (\<lambda>j. ?full ! j \<noteq> Missing) [0..<length ?full] = filter (\<lambda>j. state_of xs j \<noteq> Missing) [0..<length xs]"
  proof -
    have "[0..<length ?full] = [0..<length xs] @ [length xs..<length ?full]"
      using upt_add_eq_append [of 0 "length xs" "length ?full - length xs"] fl cnt(2) by simp
    moreover have "filter (\<lambda>j. ?full ! j \<noteq> Missing) [length xs..<length ?full] = []"
      by (auto simp: filter_empty_conv with_tail_nth state_of_def)
    moreover have "filter (\<lambda>j. ?full ! j \<noteq> Missing) [0..<length xs] = filter (\<lambda>j. state_of xs j \<noteq> Missing) [0..<length xs]"
      using fl cnt(2) by (intro filter_cong) (auto simp: with_tail_nth)
    ultimately show ?thesis by simp
  qed
  moreover have "map (\<lambda>j. plain_range len j (state_of xs j)) (filter (\<lambda>j. state_of xs j \<noteq> Missing) [0..<length xs]) =
      map (\<lambda>j. plain_range len j (?full ! j)) (filter (\<lambda>j. state_of xs j \<noteq> Missing) [0..<length xs])"
    using fl cnt(2) by (intro map_cong) (auto simp: with_tail_nth)
  ultimately have present: "map_Present (Some m) =
      Some (map (\<lambda>j. plain_range len j (?full ! j)) (filter (\<lambda>j. ?full ! j \<noteq> Missing) [0..<length ?full]))"
    by simp
  have "map_count m = word_of_nat (unat (map_count m))" by simp
  then have "map_Count (Some m) = word_of_nat (length ?full)" unfolding cnt(1) fl by (simp add: map_Count_def)
  then show ?thesis
    unfolding answers_def using state at all present sum len by (simp add: map_PlaintextLength_def map_Summary_def)
qed

lemma sealed_answers:
  assumes "built blockSize len budget b xs" and "Seal blockSize b = (Inr m, b')"
  shows "answers len (with_tail len xs) m"
proof -
  note inv = built_inv [OF assms(1)]
  obtain b1 where B: "m = bld_m b1" "builder_inv len b1 xs" "builder_pages b1 xs []"
    "bld_sealed b1 \<or> length xs = rec_count (unat len)"
    using Seal_cases [OF inv assms(2)] by (elim disjE exE conjE) simp_all
  then have h: "builder_counts b1 xs" "map_length (bld_m b1) = len" by (simp_all add: builder_inv_def builder_holds_def)
  have "\<not> bld_sealed b1 \<Longrightarrow> with_tail len xs = xs" using B(4) by (simp add: with_tail_def)
  then have "map_summary m = summary_of (unat len) (with_tail len xs)"
    using B(1,2) by (cases "bld_sealed b1") (simp_all add: builder_inv_def)
  moreover have "blocks_hold 0 (map_blocks m) xs" using B(1,3) by (simp add: builder_pages_def)
  moreover have "unat (map_prefix m) = length xs" "unat (map_count m) = rec_count (unat len)"
    "length xs \<le> rec_count (unat len)" "map_length m = len"
    using h unfolding B(1) builder_counts_def by simp_all
  ultimately show ?thesis by (intro blocks_answer)
qed

text \<open>C33: whatever sequence of appends, refusals by the budget, finishing and failed seals built it,
  a sealed recovery map answers every query, at every index of 64 bits, as the plain list of the
  states that were appended, followed by missing records up to the end of the volume: \<open>StateAt\<close> and
  \<open>At\<close> (with the extent of the record), \<open>All\<close>, \<open>Present\<close>, the count and the summary with the
  recovered bytes; no query panics.\<close>

theorem sealed_map_answers:
  assumes "built blockSize len budget b xs" and "Seal blockSize b = (Inr m, b')"
  shows "answers len (with_tail len xs) m"
  by (rule sealed_answers [OF assms])

end
