(* ===== verification/Recovery_Budget.thy ===== *)
theory Recovery_Budget
  imports Recovery_Answers
begin

text \<open>
  The memory budget of a recovery map: at every moment exactly the page under construction, the
  backing array of the blocks and the pages of mixed states are charged, and closing the builder
  gives all of it back.
\<close>

definition mixed_pages :: "block list \<Rightarrow> nat" where
  "mixed_pages blocks = length (filter (\<lambda>entry. blk_state entry = 0) blocks)"

definition index_bytes :: "u64 \<Rightarrow> Map \<Rightarrow> nat" where
  "index_bytes blockSize m = map_cap m * unat blockSize + 4096 * mixed_pages (map_blocks m)"

definition budget_inv :: "u64 \<Rightarrow> Budget \<Rightarrow> Builder \<Rightarrow> bool" where
  "budget_inv blockSize before b \<longleftrightarrow>
     bud_limit (bld_budget b) = bud_limit before \<and>
     unat (bud_used (bld_budget b)) = unat (bud_used before) + unat (bld_charged b) \<and>
     bud_used (bld_budget b) \<le> bud_limit before \<and>
     unat (bld_charged b) = 4096 + index_bytes blockSize (bld_m b)"

text \<open>Budgets that a process can have: at most \<open>2 ^ 63\<close> bytes, over blocks whose first array of four
  fits the address space.\<close>

definition usable_budget :: "u64 \<Rightarrow> Budget \<Rightarrow> bool" where
  "usable_budget blockSize before \<longleftrightarrow>
     bud_used before \<le> bud_limit before \<and> unat (bud_limit before) \<le> 2 ^ 63 \<and> 4 * unat blockSize < 2 ^ 64"

lemma acquire_Inr:
  assumes "budget_acquire n b = Inr b'" and "bud_used b \<le> bud_limit b"
  shows "bud_limit b' = bud_limit b" "unat (bud_used b') = unat (bud_used b) + unat n" "bud_used b' \<le> bud_limit b"
proof -
  have b': "b' = b\<lparr>bud_used := bud_used b + n\<rparr>" and n: "n \<le> bud_limit b - bud_used b"
    using assms(1) by (auto simp: budget_acquire_def split: if_splits)
  have "unat n \<le> unat (bud_limit b) - unat (bud_used b)"
    using n assms(2) by (simp add: word_le_nat_alt unat_sub)
  then have le: "unat (bud_used b) + unat n \<le> unat (bud_limit b)" using assms(2) by (simp add: word_le_nat_alt)
  then have "unat (bud_used b) + unat n < 2 ^ 64" using unat_u64_less [of "bud_limit b"] by linarith
  then show u: "unat (bud_used b') = unat (bud_used b) + unat n" unfolding b' by (simp add: unat_word_ariths)
  show "bud_limit b' = bud_limit b" by (simp add: b')
  show "bud_used b' \<le> bud_limit b" unfolding word_le_nat_alt u by (rule le)
qed

lemma record_state_budget: "budget_inv blockSize before (record_state s b) = budget_inv blockSize before b"
  by (simp add: budget_inv_def index_bytes_def record_state_def Let_def)

lemma clear_page_budget: "budget_inv blockSize before (clear_page b) = budget_inv blockSize before b"
  by (simp add: budget_inv_def clear_page_def)

lemma grow_blocks_budget:
  assumes inv: "budget_inv blockSize before b" and ok: "usable_budget blockSize before"
    and run: "grow_blocks blockSize b = (r, b')"
  shows "budget_inv blockSize before b'"
proof (cases "length (map_blocks (bld_m b)) = map_cap (bld_m b)")
  case False
  then show ?thesis using run inv by (simp add: grow_blocks_def)
next
  case True
  let ?cap = "map_cap (bld_m b)" let ?c = "if ?cap * 2 = 0 then 4 else ?cap * 2"
  let ?size = "word_of_nat ?c * blockSize" and ?old = "word_of_nat ?cap * blockSize"
  have I: "bud_limit (bld_budget b) = bud_limit before"
    "unat (bud_used (bld_budget b)) = unat (bud_used before) + unat (bld_charged b)"
    "bud_used (bld_budget b) \<le> bud_limit before"
    "unat (bld_charged b) = 4096 + index_bytes blockSize (bld_m b)"
    using inv by (simp_all add: budget_inv_def)
  show ?thesis
  proof (cases "budget_acquire ?size (bld_budget b)")
    case (Inl e)
    then show ?thesis using run inv True by (simp add: grow_blocks_def Let_def split: if_splits)
  next
    case (Inr budget)
    let ?b = "b\<lparr>bld_budget := budget_release ?old budget, bld_charged := bld_charged b + (?size - ?old),
      bld_m := (bld_m b)\<lparr>map_cap := ?c\<rparr>\<rparr>"
    have b': "b' = ?b" using run True Inr by (simp add: grow_blocks_def Let_def split: if_splits)
    note A = acquire_Inr [OF Inr I(3) [folded I(1)]]
    have "unat (bud_used (bld_budget b)) \<le> 2 ^ 63"
      using I(3) ok by (simp add: usable_budget_def word_le_nat_alt)
    then have half: "4096 + ?cap * unat blockSize \<le> 2 ^ 63" using I(2,4) unfolding index_bytes_def by linarith
    have old: "unat ?old = ?cap * unat blockSize"
      using half by (simp add: unat_word_ariths unat_of_nat mod_mult_left_eq)
    have "?cap * 2 * unat blockSize = 2 * (?cap * unat blockSize)" by simp
    also have "2 * k < 2 ^ 64" if "4096 + k \<le> 2 ^ 63" for k :: nat using that by simp
    note this [OF half]
    finally have "?c * unat blockSize < 2 ^ 64" using ok by (cases "?cap * 2 = 0") (simp_all add: usable_budget_def)
    then have size: "unat ?size = ?c * unat blockSize"
      by (simp only: unat_word_ariths unat_of_nat mod_mult_left_eq len_of_numeral_defs mod_less) simp
    have le: "?cap * unat blockSize \<le> ?c * unat blockSize" by simp
    have used: "unat (bud_used budget) = unat (bud_used before) + unat (bld_charged b) + ?c * unat blockSize"
      using A(2) I(2) size by simp
    have rel: "unat (bud_used budget - ?old) = unat (bud_used budget) - ?cap * unat blockSize"
      unfolding old [symmetric]
      by (rule unat_sub) (unfold word_le_nat_alt old used, use I(4) in \<open>simp add: index_bytes_def\<close>)
    have diff: "unat (?size - ?old) = ?c * unat blockSize - ?cap * unat blockSize"
      unfolding old [symmetric] size [symmetric]
      by (rule unat_sub) (use le in \<open>simp only: word_le_nat_alt old size\<close>)
    have "unat (bud_used budget) < 2 ^ 64" by (rule unat_u64_less)
    then have "unat (bld_charged b) + unat (?size - ?old) < 2 ^ 64" unfolding used diff by linarith
    then have ch: "unat (bld_charged b + (?size - ?old)) =
        unat (bld_charged b) + (?c * unat blockSize - ?cap * unat blockSize)"
      unfolding diff [symmetric] by (simp only: unat_word_ariths len_of_numeral_defs mod_less) simp
    show ?thesis
      unfolding b' budget_inv_def index_bytes_def budget_release_def
      using I A(1,3) used rel ch le by (simp add: index_bytes_def word_le_nat_alt)
  qed
qed

lemma mixed_pages_simps [simp]:
  "mixed_pages [] = 0"
  "mixed_pages (blocks @ [entry]) = mixed_pages blocks + (if blk_state entry = 0 then 1 else 0)"
  by (simp_all add: mixed_pages_def)

lemma mixed_pages_merge:
  assumes "blocks \<noteq> []" and "blk_state (last blocks) \<noteq> 0"
  shows "mixed_pages (butlast blocks @ [(last blocks)\<lparr>blk_end := e\<rparr>]) = mixed_pages blocks"
proof -
  have "blocks = butlast blocks @ [last blocks]" using assms(1) by simp
  then have "mixed_pages blocks = mixed_pages (butlast blocks @ [last blocks])" by metis
  then show ?thesis using assms(2) by simp
qed

lemma add_block_budget:
  assumes inv: "budget_inv blockSize before b" and run: "add_block b = (r, b')"
  shows "budget_inv blockSize before b'"
proof (cases "bld_uniform b = 0")
  case True
  have I: "bud_limit (bld_budget b) = bud_limit before"
    "unat (bud_used (bld_budget b)) = unat (bud_used before) + unat (bld_charged b)"
    "bud_used (bld_budget b) \<le> bud_limit before"
    "unat (bld_charged b) = 4096 + index_bytes blockSize (bld_m b)"
    using inv by (simp_all add: budget_inv_def)
  show ?thesis
  proof (cases "budget_acquire (word_of_nat pageBytes) (bld_budget b)")
    case (Inl e)
    then show ?thesis using run inv True by (simp add: add_block_def Let_def)
  next
    case (Inr budget)
    note A = acquire_Inr [OF Inr I(3) [folded I(1)]]
    have "unat (bud_used budget) < 2 ^ 64" by (rule unat_u64_less)
    then have "unat (bld_charged b) + 4096 < 2 ^ 64" unfolding A(2) I(2) by simp
    then have "unat (bld_charged b + 4096) = unat (bld_charged b) + 4096"
      by (simp only: unat_word_ariths len_of_numeral_defs mod_less) simp
    then show ?thesis
      using run inv True Inr A I by (auto simp: add_block_def Let_def budget_inv_def index_bytes_def)
  qed
next
  case False
  then show ?thesis using run inv by (auto simp: add_block_def Let_def budget_inv_def index_bytes_def)
qed

lemma flush_budget:
  assumes inv: "budget_inv blockSize before b" and ok: "usable_budget blockSize before"
    and run: "flush blockSize b = (r, b')"
  shows "budget_inv blockSize before b'"
proof -
  let ?blocks = "map_blocks (bld_m b)"
  consider (nothing) "bld_filled b = 0"
    | (merge) "bld_filled b \<noteq> 0" "bld_uniform b \<noteq> 0 \<and> ?blocks \<noteq> [] \<and> blk_state (last ?blocks) = bld_uniform b"
    | (add) "bld_filled b \<noteq> 0" "\<not> (bld_uniform b \<noteq> 0 \<and> ?blocks \<noteq> [] \<and> blk_state (last ?blocks) = bld_uniform b)"
    by blast
  then show ?thesis
  proof cases
    case nothing
    then show ?thesis using run inv by (simp add: flush_def)
  next
    case merge
    have b': "b' = clear_page (b\<lparr>bld_m := (bld_m b)
        \<lparr>map_blocks := butlast ?blocks @ [(last ?blocks)\<lparr>blk_end := map_prefix (bld_m b)\<rparr>]\<rparr>\<rparr>)"
      using run merge by (simp add: flush_def Let_def)
    then show ?thesis
      using inv merge(2) mixed_pages_merge [of ?blocks]
      unfolding b' clear_page_budget by (simp add: budget_inv_def index_bytes_def)
  next
    case add
    have run': "io_bind (grow_blocks blockSize) (\<lambda>_. io_bind add_block (\<lambda>_ b. (Inr (), clear_page b))) b = (r, b')"
      using run [unfolded flush_def Let_def if_not_P [OF add(1)] if_not_P [OF add(2)]] .
    obtain r1 b1 where g: "grow_blocks blockSize b = (r1, b1)" by force
    obtain r2 b2 where a: "add_block b1 = (r2, b2)" by force
    note G = grow_blocks_budget [OF inv ok g]
    note A = add_block_budget [OF G a]
    show ?thesis using run' g a G A by (auto simp: io_bind_def clear_page_budget split: sum.splits)
  qed
qed

lemma built_budget:
  assumes "built blockSize len (Some before) b xs" and ok: "usable_budget blockSize before"
  shows "budget_inv blockSize before b"
  using assms(1)
proof (induction rule: built.induct)
  case (new b)
  obtain budget where A: "budget_acquire 4096 before = Inr budget"
    and b: "bld_budget b = budget" "bld_charged b = 4096" "map_cap (bld_m b) = 0" "map_blocks (bld_m b) = []"
    using new by (auto simp: NewBuilder_def ebind_eq_Inr zeroMap_def)
  show ?case
    using acquire_Inr [OF A] ok b by (simp add: usable_budget_def budget_inv_def index_bytes_def)
next
  case (appended b xs s b')
  then show ?case
    using flush_budget [OF _ ok, of b]
    by (auto simp: builder_Append_def io_bind_def record_state_budget split: if_splits prod.splits sum.splits)
next
  case (refused b xs s e b')
  then show ?case
    using flush_budget [OF _ ok, of b]
    by (auto simp: builder_Append_def io_bind_def split: if_splits prod.splits sum.splits)
next
  case (finished b xs r b')
  then show ?case
    using flush_budget [OF _ ok, of b]
    by (auto simp: FinishMissingTail_def io_bind_def budget_inv_def index_bytes_def Let_def split: if_splits prod.splits sum.splits)
next
  case (not_sealed b xs e b')
  then show ?case
    using flush_budget [OF _ ok, of b] by (auto simp: Seal_eq split: if_splits prod.splits sum.splits)
qed

lemma release_used:
  "unat n \<le> unat (bud_used b) \<Longrightarrow> unat (bud_used (budget_release n b)) = unat (bud_used b) - unat n"
  by (simp add: budget_release_def unat_sub word_le_nat_alt)

text \<open>C34: under any sequence of calls, refused ones included, a recovery map never takes more than
  its budget, and its budget is charged with exactly the memory it holds: the page under
  construction, the whole backing array of the blocks and one page for every block of mixed states.
  Closing the builder restores the budget; sealing gives back the page under construction and leaves
  the memory of the map charged.\<close>

theorem recovery_budget_accounted:
  assumes "built blockSize len (Some before) b xs" and "usable_budget blockSize before"
  shows "bud_used (bld_budget b) \<le> bud_limit before \<and>
    unat (bud_used (bld_budget b)) = unat (bud_used before) + 4096 + index_bytes blockSize (bld_m b) \<and>
    bld_budget (builder_Close b) = before \<and>
    (\<forall>m b'. Seal blockSize b = (Inr m, b') \<longrightarrow>
       unat (bud_used (bld_budget b')) = unat (bud_used before) + index_bytes blockSize m \<and> builder_Close b' = b')"
proof (intro conjI allI impI)
  note I = built_budget [OF assms]
  show "bud_used (bld_budget b) \<le> bud_limit before"
    "unat (bud_used (bld_budget b)) = unat (bud_used before) + 4096 + index_bytes blockSize (bld_m b)"
    using I by (simp_all add: budget_inv_def)
  have "bud_used (budget_release (bld_charged b) (bld_budget b)) = bud_used before"
    using release_used [of "bld_charged b" "bld_budget b"] I by (simp add: budget_inv_def word_unat_eq_iff)
  then show "bld_budget (builder_Close b) = before"
    using I by (simp add: builder_Close_def budget_inv_def budget_release_def)
next
  note I = built_budget [OF assms]
  fix m b' assume "Seal blockSize b = (Inr m, b')"
  then obtain b1 where f: "flush blockSize b = (Inr (), b1)" and m: "m = bld_m b1"
    and b': "b' = b1\<lparr>bld_budget := budget_release (word_of_nat pageBytes) (bld_budget b1), bld_scratch := None,
      bld_sealed := True, bld_m := zeroMap, bld_charged := 0\<rparr>"
    by (auto simp: Seal_eq split: if_splits prod.splits sum.splits)
  have "budget_inv blockSize before b1" by (rule flush_budget [OF I assms(2) f])
  then show "unat (bud_used (bld_budget b')) = unat (bud_used before) + index_bytes blockSize m"
    using release_used [of 4096 "bld_budget b1"] unfolding b' m budget_inv_def by simp
  show "builder_Close b' = b'" unfolding b' by (simp add: builder_Close_def budget_release_def)
qed

section \<open>A map of three records\<close>

text \<open>A volume of 3,000,000 bytes whose first two records are recovered, under a budget of 8192 bytes
  and blocks of 32 bytes.\<close>

lemma three_records:
  "\<exists>b m b'. built 32 3000000 (Some (NewBudget 16384)) b [Verified, Unverified] \<and> Seal 32 b = (Inr m, b')"
proof -
  let ?budget = "Some (NewBudget 16384)"
  obtain b0 where b0: "NewBuilder 3000000 ?budget = Inr b0"
    by (simp add: NewBuilder_def ebind_def budget_acquire_def NewBudget_def)
  note f0 = b0 [THEN sym, unfolded NewBuilder_def ebind_def budget_acquire_def NewBudget_def, simplified]
  have a1: "builder_Append 32 Verified b0 = (Inr (), record_state Verified b0)"
    by (simp add: f0 builder_Append_def io_bind_def io_ret_def zeroMap_def)
  let ?b1 = "record_state Verified b0"
  have a2: "builder_Append 32 Unverified ?b1 = (Inr (), record_state Unverified ?b1)"
    by (simp add: f0 builder_Append_def io_bind_def io_ret_def zeroMap_def record_state_def Let_def word_le_nat_alt)
  let ?b2 = "record_state Unverified ?b1"
  obtain b3 where f: "FinishMissingTail 32 ?b2 = (Inr (), b3)" "bld_scratch b3 \<noteq> None" "bld_sealed b3" "bld_filled b3 = 0"
    by (simp add: f0 FinishMissingTail_def flush_def grow_blocks_def add_block_def clear_page_def io_bind_def
        io_ret_def zeroMap_def record_state_def Let_def budget_acquire_def budget_release_def)
  have "built 32 3000000 ?budget b3 [Verified, Unverified]"
    using built.finished [OF built.appended [OF built.appended [OF built.new [OF b0] a1] a2] f(1)] by simp
  moreover have "\<exists>m b'. Seal 32 b3 = (Inr m, b')" using f(2-4) by (simp add: Seal_eq flush_def)
  ultimately show ?thesis by blast
qed

theorem recovery_budget_accounted_witness:
  "\<exists>b. built 32 3000000 (Some (NewBudget 16384)) b [Verified, Unverified] \<and>
     bld_budget (builder_Close b) = NewBudget 16384"
  using three_records recovery_budget_accounted [of 32 3000000 "NewBudget 16384" _ "[Verified, Unverified]"]
  by (auto simp: usable_budget_def NewBudget_def)

theorem sealed_map_answers_witness:
  "\<exists>b m b'. built 32 3000000 (Some (NewBudget 16384)) b [Verified, Unverified] \<and> Seal 32 b = (Inr m, b') \<and>
     answers 3000000 [Verified, Unverified, Missing] m"
proof -
  have "with_tail 3000000 [Verified, Unverified] = [Verified, Unverified, Missing]"
    by (simp add: with_tail_def rec_count_def)
  then show ?thesis using three_records sealed_map_answers by metis
qed

end
