(* ===== verification/Legacy_Header.thy ===== *)
theory Legacy_Header
  imports Capsule_Codec
begin

text \<open>
  The header of the first two volume formats (\<open>header/format.go\<close>, \<open>auth.go\<close>, \<open>reader.go\<close>,
  \<open>writer.go\<close>): eleven fields, each coded as one Reed-Solomon codeword, the comment byte by byte.
  The writer leaves the three authentication values blank and fills them in afterwards. Strings
  are byte lists. HMAC-SHA3-512 and SHA3-512 are parameters.
\<close>

section \<open>Sizes\<close>

abbreviation (input) CurrentVersion :: "byte list" where "CurrentVersion \<equiv> ascii ''v2.19''"
abbreviation (input) MaxCommentLen :: nat where "MaxCommentLen \<equiv> 99999"
abbreviation (input) VersionEncSize :: nat where "VersionEncSize \<equiv> 15"
abbreviation (input) CommentLenEncSize :: nat where "CommentLenEncSize \<equiv> 15"
abbreviation (input) FlagsEncSize :: nat where "FlagsEncSize \<equiv> 15"
abbreviation (input) SaltEncSize :: nat where "SaltEncSize \<equiv> 48"
abbreviation (input) HKDFSaltEncSize :: nat where "HKDFSaltEncSize \<equiv> 96"
abbreviation (input) SerpentIVEncSize :: nat where "SerpentIVEncSize \<equiv> 48"
abbreviation (input) NonceEncSize :: nat where "NonceEncSize \<equiv> 72"
abbreviation (input) KeyHashEncSize :: nat where "KeyHashEncSize \<equiv> 192"
abbreviation (input) KeyfileHashEncSize :: nat where "KeyfileHashEncSize \<equiv> 96"
abbreviation (input) AuthTagEncSize :: nat where "AuthTagEncSize \<equiv> 192"

definition BaseHeaderSize :: nat where
  "BaseHeaderSize =
     VersionEncSize + CommentLenEncSize + FlagsEncSize + SaltEncSize + HKDFSaltEncSize + SerpentIVEncSize +
     NonceEncSize + KeyHashEncSize + KeyfileHashEncSize + AuthTagEncSize"

definition HeaderSize :: "nat \<Rightarrow> nat" where
  "HeaderSize commentsLen = BaseHeaderSize + commentsLen * 3"

definition AuthValuesOffset :: "nat \<Rightarrow> nat" where
  "AuthValuesOffset commentsLen =
     VersionEncSize + CommentLenEncSize + commentsLen * 3 + FlagsEncSize + SaltEncSize + HKDFSaltEncSize +
     SerpentIVEncSize + NonceEncSize"

section \<open>Flags and fields\<close>

record Flags =
  flag_Paranoid :: bool
  flag_UseKeyfiles :: bool
  flag_KeyfileOrdered :: bool
  flag_ReedSolomon :: bool
  flag_Padded :: bool

definition flags_ToBytes :: "Flags \<Rightarrow> byte list" where
  "flags_ToBytes f =
     map (\<lambda>b. if b then 1 else 0)
       [flag_Paranoid f, flag_UseKeyfiles f, flag_KeyfileOrdered f, flag_ReedSolomon f, flag_Padded f]"

definition FlagsFromBytes :: "byte list \<Rightarrow> Flags" where
  "FlagsFromBytes b =
     (if length b < 5
      then \<lparr>flag_Paranoid = False, flag_UseKeyfiles = False, flag_KeyfileOrdered = False,
            flag_ReedSolomon = False, flag_Padded = False\<rparr>
      else \<lparr>flag_Paranoid = b ! 0 = 1, flag_UseKeyfiles = b ! 1 = 1, flag_KeyfileOrdered = b ! 2 = 1,
            flag_ReedSolomon = b ! 3 = 1, flag_Padded = b ! 4 = 1\<rparr>)"

record VolumeHeader =
  vh_Version :: "byte list"
  vh_Comments :: "byte list"
  vh_Flags :: Flags
  vh_Salt :: "byte list"
  vh_HKDFSalt :: "byte list"
  vh_SerpentIV :: "byte list"
  vh_Nonce :: "byte list"
  vh_KeyHash :: "byte list"
  vh_KeyfileHash :: "byte list"
  vh_AuthTag :: "byte list"

definition zeroHeader :: VolumeHeader where
  "zeroHeader = \<lparr>vh_Version = [], vh_Comments = [], vh_Flags = FlagsFromBytes [], vh_Salt = [],
     vh_HKDFSalt = [], vh_SerpentIV = [], vh_Nonce = [], vh_KeyHash = [], vh_KeyfileHash = [], vh_AuthTag = []\<rparr>"

definition NewVolumeHeader :: "byte list \<Rightarrow> byte list \<Rightarrow> byte list \<Rightarrow> byte list \<Rightarrow> VolumeHeader" where
  "NewVolumeHeader salt hkdfSalt serpentIV nonce =
     zeroHeader\<lparr>vh_Version := CurrentVersion, vh_Salt := salt, vh_HKDFSalt := hkdfSalt,
       vh_SerpentIV := serpentIV, vh_Nonce := nonce, vh_KeyHash := replicate 64 0,
       vh_KeyfileHash := replicate 32 0, vh_AuthTag := replicate 64 0\<rparr>"

definition IsLegacyV1 :: "VolumeHeader \<Rightarrow> bool" where
  "IsLegacyV1 h \<longleftrightarrow> length (vh_Version h) \<ge> 2 \<and> take 2 (vh_Version h) = ascii ''v1''"

section \<open>Decimal numbers\<close>

text \<open>\<open>fmt.Sprintf("%05d", n)\<close> and \<open>strconv.Atoi\<close> on ASCII digits.\<close>

definition is_digit :: "byte \<Rightarrow> bool" where
  "is_digit b \<longleftrightarrow> 48 \<le> b \<and> b \<le> 57"

fun decimal :: "nat \<Rightarrow> byte list" where
  "decimal n = (if n < 10 then [word_of_nat (48 + n)] else decimal (n div 10) @ [word_of_nat (48 + n mod 10)])"

declare decimal.simps [simp del]

definition sprintf_05d :: "nat \<Rightarrow> byte list" where
  "sprintf_05d n = replicate (5 - length (decimal n)) 48 @ decimal n"

definition atoi :: "byte list \<Rightarrow> nat" where
  "atoi bs = foldl (\<lambda>acc b. acc * 10 + (unat b - 48)) 0 bs"

section \<open>Authentication\<close>

record AuthResult =
  auth_Valid :: bool
  auth_KeyHashComputed :: "byte list"

text \<open>The bytes that \<open>ComputeV2HeaderMAC\<close> writes into the MAC.\<close>

definition v2_header_fields :: "VolumeHeader \<Rightarrow> byte list \<Rightarrow> byte list" where
  "v2_header_fields h keyfileHash =
     vh_Version h @ sprintf_05d (length (vh_Comments h)) @ vh_Comments h @ flags_ToBytes (vh_Flags h) @
     vh_Salt h @ vh_HKDFSalt h @ vh_SerpentIV h @ vh_Nonce h @ keyfileHash"

definition ComputeV2HeaderMAC ::
  "(byte list \<Rightarrow> byte list \<Rightarrow> byte list) \<Rightarrow> byte list \<Rightarrow> VolumeHeader \<Rightarrow> byte list \<Rightarrow> byte list" where
  "ComputeV2HeaderMAC hmac subkeyHeader h keyfileHash = hmac subkeyHeader (v2_header_fields h keyfileHash)"

definition ComputeV1KeyHash :: "(byte list \<Rightarrow> byte list) \<Rightarrow> byte list \<Rightarrow> byte list" where
  "ComputeV1KeyHash sha3_512 key = sha3_512 key"

definition VerifyV2Header ::
  "(byte list \<Rightarrow> byte list \<Rightarrow> byte list) \<Rightarrow> byte list \<Rightarrow> VolumeHeader \<Rightarrow> byte list \<Rightarrow> AuthResult" where
  "VerifyV2Header hmac subkeyHeader h keyfileHash =
     (let computed = ComputeV2HeaderMAC hmac subkeyHeader h keyfileHash
      in \<lparr>auth_Valid = computed = vh_KeyHash h, auth_KeyHashComputed = computed\<rparr>)"

definition VerifyV1Header :: "(byte list \<Rightarrow> byte list) \<Rightarrow> byte list \<Rightarrow> VolumeHeader \<Rightarrow> AuthResult" where
  "VerifyV1Header sha3_512 key h =
     (let computed = ComputeV1KeyHash sha3_512 key
      in \<lparr>auth_Valid = computed = vh_KeyHash h, auth_KeyHashComputed = computed\<rparr>)"

definition VerifyKeyfileHash :: "byte list \<Rightarrow> byte list \<Rightarrow> bool" where
  "VerifyKeyfileHash computed stored \<longleftrightarrow> computed = stored"

record AuthError =
  ae_PasswordIncorrect :: bool
  ae_KeyfileIncorrect :: bool
  ae_KeyfileOrdered :: bool
  ae_Message :: string

definition NewPasswordError :: AuthError where
  "NewPasswordError = \<lparr>ae_PasswordIncorrect = True, ae_KeyfileIncorrect = False, ae_KeyfileOrdered = False,
     ae_Message = ''The provided password is incorrect''\<rparr>"

definition NewV2PasswordOrTamperError :: AuthError where
  "NewV2PasswordOrTamperError = \<lparr>ae_PasswordIncorrect = True, ae_KeyfileIncorrect = False,
     ae_KeyfileOrdered = False, ae_Message = ''The password is incorrect or header is tampered''\<rparr>"

definition NewKeyfileError :: "bool \<Rightarrow> AuthError" where
  "NewKeyfileError ordered = \<lparr>ae_PasswordIncorrect = False, ae_KeyfileIncorrect = True,
     ae_KeyfileOrdered = ordered,
     ae_Message = (if ordered then ''Incorrect keyfiles or ordering'' else ''Incorrect keyfiles'')\<rparr>"

text \<open>\<open>errors.As\<close> finds the authentication error in a chain, if there is one.\<close>

definition IsPasswordError :: "AuthError option \<Rightarrow> bool" where
  "IsPasswordError err = (case err of None \<Rightarrow> False | Some e \<Rightarrow> ae_PasswordIncorrect e)"

section \<open>Reading\<close>

definition MatchVersion :: "byte list \<Rightarrow> bool" where
  "MatchVersion b \<longleftrightarrow> length b = 5 \<and> b ! 0 = of_char (CHR ''v'') \<and> is_digit (b ! 1) \<and> b ! 2 = of_char (CHR ''.'') \<and>
     is_digit (b ! 3) \<and> is_digit (b ! 4)"

definition IsSupportedVersion :: "byte list \<Rightarrow> bool" where
  "IsSupportedVersion b \<longleftrightarrow> MatchVersion b \<and> (b ! 1 = of_char (CHR ''1'') \<or> b ! 1 = of_char (CHR ''2''))"

datatype header_field =
  FVersion | FCommentLen | FComment nat | FFlags | FSalt | FHKDFSalt | FSerpentIV | FNonce
  | FKeyHash | FKeyfileHash | FAuthTag

datatype header_error =
  HeaderRead header_field cause | ErrInvalidVersion | ErrUnsupportedVersion "byte list"
  | ErrInvalidCommentLength

record ReadResult =
  res_Header :: VolumeHeader
  res_DecodeError :: bool
  res_CommentDecodeError :: bool
  res_NonCommentDecodeError :: bool
  res_BytesRead :: nat

text \<open>
  A reader is the bytes it serves before it fails and the error it fails with; however it splits
  them, \<open>io.ReadFull\<close> sees no more of it. The state of \<open>ReadHeader\<close> is the reader with the result
  and the list of decoding errors.
\<close>

record header_run =
  run_rest :: "byte list"
  run_end :: cause
  run_result :: ReadResult
  run_decodeErrors :: "rs_error list"

definition ReadFull :: "nat \<Rightarrow> byte list \<Rightarrow> cause \<Rightarrow> (byte list \<times> cause option) \<times> byte list" where
  "ReadFull n rest end' =
     (if n \<le> length rest then ((take n rest, None), drop n rest)
      else ((rest, Some (if end' = EOF \<and> rest \<noteq> [] then UnexpectedEOF else end')), []))"

definition read_enc :: "header_field \<Rightarrow> nat \<Rightarrow> (header_run, header_error, byte list) io" where
  "read_enc field n r =
     (case ReadFull n (run_rest r) (run_end r) of
        ((enc, err), rest) \<Rightarrow>
          let r = r\<lparr>run_rest := rest,
                    run_result := (run_result r)\<lparr>res_BytesRead := res_BytesRead (run_result r) + length enc\<rparr>\<rparr>
          in (case err of None \<Rightarrow> (Inr enc, r) | Some c \<Rightarrow> (Inl (HeaderRead field c), r)))"

definition decode_enc :: "bool \<Rightarrow> FEC \<Rightarrow> byte list \<Rightarrow> (header_run, header_error, byte list) io" where
  "decode_enc isComment rs enc r =
     (case rs_Decode rs enc False of
        (dec, None) \<Rightarrow> (Inr dec, r)
      | (dec, Some err) \<Rightarrow>
          (Inr dec,
           r\<lparr>run_decodeErrors := run_decodeErrors r @ [err],
             run_result := (if isComment then (run_result r)\<lparr>res_CommentDecodeError := True\<rparr>
                            else (run_result r)\<lparr>res_NonCommentDecodeError := True\<rparr>)\<rparr>))"

definition set_field :: "(VolumeHeader \<Rightarrow> VolumeHeader) \<Rightarrow> (header_run, header_error, unit) io" where
  "set_field f r = (Inr (), r\<lparr>run_result := (run_result r)\<lparr>res_Header := f (res_Header (run_result r))\<rparr>\<rparr>)"

text \<open>One field outside the comment: read, decoded, assigned.\<close>

definition read_field ::
  "header_field \<Rightarrow> nat \<Rightarrow> FEC \<Rightarrow> (byte list \<Rightarrow> VolumeHeader \<Rightarrow> VolumeHeader) \<Rightarrow> (header_run, header_error, unit) io" where
  "read_field field n rs assign =
     io_bind (read_enc field n) (\<lambda>enc.
     io_bind (decode_enc False rs enc) (\<lambda>dec. set_field (assign dec)))"

text \<open>The loop over the comment bytes, from byte \<open>i\<close> with \<open>k\<close> to go.\<close>

fun read_comments :: "FEC \<Rightarrow> nat \<Rightarrow> nat \<Rightarrow> byte list \<Rightarrow> (header_run, header_error, byte list) io" where
  "read_comments rs i 0 comments = io_ret comments"
| "read_comments rs i (Suc k) comments =
     io_bind (read_enc (FComment i) 3) (\<lambda>cEnc.
     io_bind (decode_enc True rs cEnc) (\<lambda>cDec. read_comments rs (i + 1) k (comments @ cDec)))"

definition ReadHeader :: "RSCodecs \<Rightarrow> (header_run, header_error, unit) io" where
  "ReadHeader rs =
     io_bind (read_enc FVersion VersionEncSize) (\<lambda>versionEnc.
     io_bind (decode_enc False (RS5 rs) versionEnc) (\<lambda>versionDec.
     io_bind (set_field (\<lambda>h. h\<lparr>vh_Version := versionDec\<rparr>)) (\<lambda>_.
     if \<not> MatchVersion versionDec then io_fail ErrInvalidVersion
     else if \<not> IsSupportedVersion versionDec then io_fail (ErrUnsupportedVersion versionDec)
     else
     io_bind (read_enc FCommentLen CommentLenEncSize) (\<lambda>commentLenEnc.
     io_bind (decode_enc False (RS5 rs) commentLenEnc) (\<lambda>commentLenDec.
     if \<not> (length commentLenDec = 5 \<and> list_all is_digit commentLenDec) then io_fail ErrInvalidCommentLength
     else
       let commentsLen = atoi commentLenDec in
       if commentsLen > MaxCommentLen then io_fail ErrInvalidCommentLength
       else
     io_bind (read_comments (RS1 rs) 0 commentsLen []) (\<lambda>comments.
     io_bind (set_field (\<lambda>h. h\<lparr>vh_Comments := comments\<rparr>)) (\<lambda>_.
     io_bind (read_field FFlags FlagsEncSize (RS5 rs) (\<lambda>dec h. h\<lparr>vh_Flags := FlagsFromBytes dec\<rparr>)) (\<lambda>_.
     io_bind (read_field FSalt SaltEncSize (RS16 rs) (\<lambda>dec h. h\<lparr>vh_Salt := dec\<rparr>)) (\<lambda>_.
     io_bind (read_field FHKDFSalt HKDFSaltEncSize (RS32 rs) (\<lambda>dec h. h\<lparr>vh_HKDFSalt := dec\<rparr>)) (\<lambda>_.
     io_bind (read_field FSerpentIV SerpentIVEncSize (RS16 rs) (\<lambda>dec h. h\<lparr>vh_SerpentIV := dec\<rparr>)) (\<lambda>_.
     io_bind (read_field FNonce NonceEncSize (RS24 rs) (\<lambda>dec h. h\<lparr>vh_Nonce := dec\<rparr>)) (\<lambda>_.
     io_bind (read_field FKeyHash KeyHashEncSize (RS64 rs) (\<lambda>dec h. h\<lparr>vh_KeyHash := dec\<rparr>)) (\<lambda>_.
     io_bind (read_field FKeyfileHash KeyfileHashEncSize (RS32 rs) (\<lambda>dec h. h\<lparr>vh_KeyfileHash := dec\<rparr>)) (\<lambda>_.
     io_bind (read_field FAuthTag AuthTagEncSize (RS64 rs) (\<lambda>dec h. h\<lparr>vh_AuthTag := dec\<rparr>)) (\<lambda>_ r.
       (Inr (), r\<lparr>run_result := (run_result r)
                    \<lparr>res_DecodeError := run_decodeErrors r \<noteq> []\<rparr>\<rparr>))))))))))))))))"

definition new_run :: "byte list \<Rightarrow> cause \<Rightarrow> header_run" where
  "new_run rest end' = \<lparr>run_rest = rest, run_end = end',
     run_result = \<lparr>res_Header = zeroHeader, res_DecodeError = False, res_CommentDecodeError = False,
       res_NonCommentDecodeError = False, res_BytesRead = 0\<rparr>, run_decodeErrors = []\<rparr>"

datatype peek_error = PeekRead cause | PeekDecode rs_error

definition PeekVersion :: "RSCodecs \<Rightarrow> byte list \<Rightarrow> cause \<Rightarrow> peek_error + byte list" where
  "PeekVersion rs rest end' =
     (case fst (ReadFull VersionEncSize rest end') of
        (_, Some c) \<Rightarrow> Inl (PeekRead c)
      | (versionEnc, None) \<Rightarrow>
          (case rs_Decode (RS5 rs) versionEnc False of
             (_, Some err) \<Rightarrow> Inl (PeekDecode err)
           | (versionDec, None) \<Rightarrow> Inr versionDec))"

section \<open>Writing\<close>

text \<open>A writer answers every call with the count of bytes it took and an error; \<open>wr_total\<close> is
  \<open>totalWritten\<close>.\<close>

record writer =
  wr_bytes :: "byte list"
  wr_calls :: nat
  wr_answer :: "nat \<Rightarrow> byte list \<Rightarrow> nat \<times> cause option"
  wr_total :: nat

datatype write_error = CommentsTooLong | HeaderEncode header_field rs_error | HeaderWrite header_field cause

definition write_bytes :: "header_field \<Rightarrow> byte list \<Rightarrow> (writer, write_error, unit) io" where
  "write_bytes field p w =
     (case wr_answer w (wr_calls w) p of
        (n, err) \<Rightarrow>
          let w = w\<lparr>wr_bytes := wr_bytes w @ take n p, wr_calls := wr_calls w + 1, wr_total := wr_total w + n\<rparr>
          in (case err of None \<Rightarrow> (Inr (), w) | Some c \<Rightarrow> (Inl (HeaderWrite field c), w)))"

definition write_field :: "header_field \<Rightarrow> FEC \<Rightarrow> byte list \<Rightarrow> (writer, write_error, unit) io" where
  "write_field field rs data =
     io_bind (io_lift (map_err (HeaderEncode field) (rs_Encode rs data))) (write_bytes field)"

fun write_comments :: "FEC \<Rightarrow> nat \<Rightarrow> byte list \<Rightarrow> (writer, write_error, unit) io" where
  "write_comments rs i [] = io_ret ()"
| "write_comments rs i (c # cs) =
     io_bind (write_field (FComment i) rs [c]) (\<lambda>_. write_comments rs (i + 1) cs)"

definition WriteHeader :: "RSCodecs \<Rightarrow> VolumeHeader \<Rightarrow> (writer, write_error, unit) io" where
  "WriteHeader rs h =
     (if length (vh_Comments h) > MaxCommentLen then io_fail CommentsTooLong
      else
        io_bind (write_field FVersion (RS5 rs) (vh_Version h)) (\<lambda>_.
        io_bind (write_field FCommentLen (RS5 rs) (sprintf_05d (length (vh_Comments h)))) (\<lambda>_.
        io_bind (write_comments (RS1 rs) 0 (vh_Comments h)) (\<lambda>_.
        io_bind (write_field FFlags (RS5 rs) (flags_ToBytes (vh_Flags h))) (\<lambda>_.
        io_bind (write_field FSalt (RS16 rs) (vh_Salt h)) (\<lambda>_.
        io_bind (write_field FHKDFSalt (RS32 rs) (vh_HKDFSalt h)) (\<lambda>_.
        io_bind (write_field FSerpentIV (RS16 rs) (vh_SerpentIV h)) (\<lambda>_.
        io_bind (write_field FNonce (RS24 rs) (vh_Nonce h)) (\<lambda>_.
        io_bind (write_bytes FKeyHash (replicate KeyHashEncSize 0)) (\<lambda>_.
        io_bind (write_bytes FKeyfileHash (replicate KeyfileHashEncSize 0)) (\<lambda>_.
        write_bytes FAuthTag (replicate AuthTagEncSize 0))))))))))))"

text \<open>A file written at an offset; past its end the gap reads as zeros.\<close>

record file_at =
  fl_bytes :: "byte list"
  fl_calls :: nat
  fl_answer :: "nat \<Rightarrow> byte list \<Rightarrow> nat \<times> cause option"

definition overlay :: "nat \<Rightarrow> byte list \<Rightarrow> byte list \<Rightarrow> byte list" where
  "overlay pos p f = take pos f @ replicate (pos - length f) 0 @ p @ drop (pos + length p) f"

definition write_at :: "header_field \<Rightarrow> nat \<Rightarrow> byte list \<Rightarrow> (file_at, write_error, unit) io" where
  "write_at field pos p f =
     (case fl_answer f (fl_calls f) p of
        (n, err) \<Rightarrow>
          let f = f\<lparr>fl_bytes := overlay pos (take n p) (fl_bytes f), fl_calls := fl_calls f + 1\<rparr>
          in (case err of None \<Rightarrow> (Inr (), f) | Some c \<Rightarrow> (Inl (HeaderWrite field c), f)))"

definition WriteAuthValues ::
  "nat \<Rightarrow> byte list \<Rightarrow> byte list \<Rightarrow> byte list \<Rightarrow> RSCodecs \<Rightarrow> (file_at, write_error, unit) io" where
  "WriteAuthValues offset keyHash keyfileHash authTag rs =
     io_bind (io_lift (map_err (HeaderEncode FKeyHash) (rs_Encode (RS64 rs) keyHash))) (\<lambda>keyHashEnc.
     io_bind (write_at FKeyHash offset keyHashEnc) (\<lambda>_.
     io_bind (io_lift (map_err (HeaderEncode FKeyfileHash) (rs_Encode (RS32 rs) keyfileHash))) (\<lambda>keyfileHashEnc.
     io_bind (write_at FKeyfileHash (offset + KeyHashEncSize) keyfileHashEnc) (\<lambda>_.
     io_bind (io_lift (map_err (HeaderEncode FAuthTag) (rs_Encode (RS64 rs) authTag))) (\<lambda>authTagEnc.
     write_at FAuthTag (offset + KeyHashEncSize + KeyfileHashEncSize) authTagEnc)))))"

end
