(* ===== verification/Legacy_Round_Trip.thy ===== *)
theory Legacy_Round_Trip
  imports Legacy_Header Sample_Codec
begin

text \<open>
  What the legacy header code guarantees: a header that is written, completed with its
  authentication values and read back, with some wrong bytes in every codeword, is the header that
  was given; whatever is read without an error is well formed; the MAC of the second format binds
  every field.
\<close>

section \<open>Decimal numbers\<close>

lemma decimal_induct:
  assumes "\<And>n. n < 10 \<Longrightarrow> P n" and "\<And>n. \<not> n < 10 \<Longrightarrow> P (n div 10) \<Longrightarrow> P n"
  shows "P (n :: nat)"
  by (induction n rule: less_induct) (metis assms div_less_dividend not_less one_less_numeral_iff
      semiring_norm(76) zero_less_iff_neq_zero zero_less_numeral linorder_not_less)

lemma digit_byte: "d < 10 \<Longrightarrow> unat (word_of_nat (48 + d) :: byte) = 48 + d \<and> is_digit (word_of_nat (48 + d))"
  by (simp add: unat_of_nat is_digit_def word_le_nat_alt unat_word_ariths)

lemma decimal_digits: "list_all is_digit (decimal n)"
proof (induction n rule: decimal_induct)
  case (1 n)
  then show ?case using digit_byte [of n] by (simp add: decimal.simps [of n])
next
  case (2 n)
  then show ?case using digit_byte [of "n mod 10"] by (simp add: decimal.simps [of n])
qed

lemma atoi_snoc: "atoi (bs @ [b]) = atoi bs * 10 + (unat b - 48)"
  by (simp add: atoi_def)

lemma atoi_decimal: "atoi (decimal n) = n"
proof (induction n rule: decimal_induct)
  case (1 n)
  then show ?case using digit_byte [of n] by (simp add: decimal.simps [of n] atoi_def)
next
  case (2 n)
  have "atoi (decimal n) = n div 10 * 10 + n mod 10"
    using 2 digit_byte [of "n mod 10"] unfolding decimal.simps [of n] by (simp add: atoi_snoc)
  then show ?case by simp
qed

lemma atoi_zeros: "atoi (replicate k 48 @ bs) = atoi bs"
  by (induction k) (simp_all add: atoi_def)

lemma length_decimal: "n < 10 ^ k \<Longrightarrow> 0 < k \<Longrightarrow> length (decimal n) \<le> k"
proof (induction n arbitrary: k rule: decimal_induct)
  case (1 n)
  then show ?case by (simp add: decimal.simps [of n])
next
  case (2 n)
  then obtain j where j: "k = Suc j" "0 < j" by (cases k; cases "k - 1") auto
  have "n div 10 < 10 ^ j" using 2(3) j by (simp add: less_mult_imp_div_less)
  then have "length (decimal (n div 10)) \<le> j" using 2(2) j(2) by blast
  then show ?case using 2(1) j(1) by (simp add: decimal.simps [of n])
qed

lemma sprintf_05d:
  assumes "n \<le> 99999"
  shows "length (sprintf_05d n) = 5" "list_all is_digit (sprintf_05d n)" "atoi (sprintf_05d n) = n"
proof -
  have "length (decimal n) \<le> 5" using length_decimal [of n 5] assms by simp
  then show "length (sprintf_05d n) = 5" by (simp add: sprintf_05d_def)
  have "is_digit 48" by (simp add: is_digit_def)
  then show "list_all is_digit (sprintf_05d n)"
    using decimal_digits [of n] by (auto simp: sprintf_05d_def list_all_iff)
  show "atoi (sprintf_05d n) = n" by (simp add: sprintf_05d_def atoi_zeros atoi_decimal)
qed

lemma atoi_bound: "list_all is_digit bs \<Longrightarrow> atoi bs < 10 ^ length bs"
proof (induction bs rule: rev_induct)
  case (snoc b bs)
  have "unat b - 48 < 10" using snoc.prems by (auto simp: is_digit_def word_le_nat_alt)
  then show ?case using snoc by (simp add: atoi_snoc)
qed (simp add: atoi_def)

lemma flags_roundtrip: "FlagsFromBytes (flags_ToBytes f) = f" "length (flags_ToBytes f) = 5"
  by (cases f; simp add: FlagsFromBytes_def flags_ToBytes_def)+

section \<open>The image of a header\<close>

definition legacy_sized :: "RSCodecs \<Rightarrow> bool" where
  "legacy_sized cs \<longleftrightarrow>
     fec_required (RS1 cs) = 1 \<and> fec_total (RS1 cs) = 3 \<and>
     fec_required (RS5 cs) = 5 \<and> fec_total (RS5 cs) = 15 \<and>
     fec_required (RS16 cs) = 16 \<and> fec_total (RS16 cs) = 48 \<and>
     fec_required (RS24 cs) = 24 \<and> fec_total (RS24 cs) = 72 \<and>
     fec_required (RS32 cs) = 32 \<and> fec_total (RS32 cs) = 96 \<and>
     fec_required (RS64 cs) = 64 \<and> fec_total (RS64 cs) = 192"

definition legacy_ok :: "nat \<Rightarrow> RSCodecs \<Rightarrow> bool" where
  "legacy_ok t cs \<longleftrightarrow> legacy_sized cs \<and>
     fec_ok t (RS1 cs) \<and> fec_ok t (RS5 cs) \<and> fec_ok t (RS16 cs) \<and> fec_ok t (RS24 cs) \<and>
     fec_ok t (RS32 cs) \<and> fec_ok t (RS64 cs)"

definition wf_header :: "VolumeHeader \<Rightarrow> bool" where
  "wf_header h \<longleftrightarrow> IsSupportedVersion (vh_Version h) \<and> length (vh_Comments h) \<le> 99999 \<and>
     length (vh_Salt h) = 16 \<and> length (vh_HKDFSalt h) = 32 \<and> length (vh_SerpentIV h) = 16 \<and>
     length (vh_Nonce h) = 24 \<and> length (vh_KeyHash h) = 64 \<and> length (vh_KeyfileHash h) = 32 \<and>
     length (vh_AuthTag h) = 64"

definition front_words :: "RSCodecs \<Rightarrow> VolumeHeader \<Rightarrow> byte list list" where
  "front_words cs h =
     [codeword (RS5 cs) (vh_Version h), codeword (RS5 cs) (sprintf_05d (length (vh_Comments h)))] @
     map (\<lambda>c. codeword (RS1 cs) [c]) (vh_Comments h) @
     [codeword (RS5 cs) (flags_ToBytes (vh_Flags h)), codeword (RS16 cs) (vh_Salt h),
      codeword (RS32 cs) (vh_HKDFSalt h), codeword (RS16 cs) (vh_SerpentIV h), codeword (RS24 cs) (vh_Nonce h)]"

definition auth_words :: "RSCodecs \<Rightarrow> VolumeHeader \<Rightarrow> byte list list" where
  "auth_words cs h =
     [codeword (RS64 cs) (vh_KeyHash h), codeword (RS32 cs) (vh_KeyfileHash h), codeword (RS64 cs) (vh_AuthTag h)]"

definition header_words :: "RSCodecs \<Rightarrow> VolumeHeader \<Rightarrow> byte list list" where
  "header_words cs h = front_words cs h @ auth_words cs h"

text \<open>A word with at most \<open>t\<close> wrong bytes.\<close>

definition near :: "nat \<Rightarrow> byte list \<Rightarrow> byte list \<Rightarrow> bool" where
  "near t a b \<longleftrightarrow> length b = length a \<and> diffs a b \<le> t"

section \<open>Reading near words\<close>

lemma read_enc_full:
  "run_rest r = w @ rest \<Longrightarrow> length w = n \<Longrightarrow>
   read_enc field n r =
     (Inr w, r\<lparr>run_rest := rest,
               run_result := (run_result r)\<lparr>res_BytesRead := res_BytesRead (run_result r) + n\<rparr>\<rparr>)"
  by (simp add: read_enc_def ReadFull_def Let_def)

lemma rs_Decode_near:
  assumes "fec_ok t rs" and "length data = fec_required rs" and "near t (codeword rs data) w"
  shows "rs_Decode rs w False = (data, None)"
proof -
  have l: "length w = fec_total rs"
    using assms by (simp add: near_def fec_ok_def fec_encodes_def)
  have "DecodeInto rs (replicate (fec_required rs) 0) w = Inr data"
    by (rule DecodeInto_repairs [OF assms(1,2) l]) (use assms(3) in \<open>simp_all add: near_def\<close>)
  then show ?thesis using l by (simp add: rs_Decode_def)
qed

lemma decode_enc_near:
  "fec_ok t rs \<Longrightarrow> length data = fec_required rs \<Longrightarrow> near t (codeword rs data) w \<Longrightarrow>
   decode_enc c rs w r = (Inr data, r)"
  by (simp add: decode_enc_def rs_Decode_near)

lemma length_near:
  "fec_ok t rs \<Longrightarrow> length data = fec_required rs \<Longrightarrow> near t (codeword rs data) w \<Longrightarrow> length w = fec_total rs"
  by (simp add: near_def fec_ok_def fec_encodes_def)

lemma read_field_near:
  assumes "fec_ok t rs" and "length data = fec_required rs" and "near t (codeword rs data) w"
    and "run_rest r = w @ rest" and "n = fec_total rs"
  shows "read_field field n rs assign r =
    (Inr (), r\<lparr>run_rest := rest,
               run_result := (run_result r)\<lparr>res_Header := assign data (res_Header (run_result r)),
                                             res_BytesRead := res_BytesRead (run_result r) + n\<rparr>\<rparr>)"
  using read_enc_full [OF assms(4), of n field] length_near [OF assms(1-3)] decode_enc_near [OF assms(1-3)] assms(5)
  by (simp add: read_field_def io_bind_def set_field_def)

lemma read_comments_near:
  assumes "fec_ok t rs" and "fec_required rs = 1" and "fec_total rs = 3"
    and "list_all2 (near t) (map (\<lambda>c. codeword rs [c]) cs) ws" and "run_rest r = concat ws @ rest"
  shows "read_comments rs i (length cs) acc r =
    (Inr (acc @ cs), r\<lparr>run_rest := rest,
       run_result := (run_result r)\<lparr>res_BytesRead := res_BytesRead (run_result r) + length cs * 3\<rparr>\<rparr>)"
  using assms(4,5)
proof (induction cs arbitrary: i ws acc r)
  case (Cons c cs)
  then obtain w ws' where ws: "ws = w # ws'" "near t (codeword rs [c]) w"
    "list_all2 (near t) (map (\<lambda>c. codeword rs [c]) cs) ws'"
    by (auto simp: list_all2_Cons1)
  have d: "length [c] = fec_required rs" using assms(2) by simp
  have l: "length w = 3" using length_near [OF assms(1) d ws(2)] assms(3) by simp
  have r: "run_rest r = w @ (concat ws' @ rest)" using Cons.prems(2) ws(1) by simp
  show ?case
    using read_enc_full [OF r l, of "FComment i"] decode_enc_near [OF assms(1) d ws(2)] Cons.IH [OF ws(3)]
    by (simp add: io_bind_def)
qed simp

text \<open>The state while reading without errors.\<close>

definition clean_run :: "cause \<Rightarrow> byte list \<Rightarrow> VolumeHeader \<Rightarrow> nat \<Rightarrow> header_run" where
  "clean_run e rest h k = \<lparr>run_rest = rest, run_end = e,
     run_result = \<lparr>res_Header = h, res_DecodeError = False, res_CommentDecodeError = False,
       res_NonCommentDecodeError = False, res_BytesRead = k\<rparr>, run_decodeErrors = []\<rparr>"

lemma clean_read_field:
  assumes "fec_ok t rs" and "length data = fec_required rs" and "near t (codeword rs data) w" and "n = fec_total rs"
  shows "read_field field n rs assign (clean_run e (w @ rest) h k) = (Inr (), clean_run e rest (assign data h) (k + n))"
  using read_field_near [OF assms(1-3) _ assms(4), of "clean_run e (w @ rest) h k" rest field assign]
  by (simp add: clean_run_def)

lemma clean_read_enc:
  assumes "fec_ok t rs" and "length data = fec_required rs" and "near t (codeword rs data) w" and "n = fec_total rs"
  shows "read_enc field n (clean_run e (w @ rest) h k) = (Inr w, clean_run e rest h (k + n))"
  using read_enc_full [of "clean_run e (w @ rest) h k" w rest n field] length_near [OF assms(1-3)] assms(4)
  by (simp add: clean_run_def)

lemma clean_set_field: "set_field f (clean_run e rest h k) = (Inr (), clean_run e rest (f h) k)"
  by (simp add: set_field_def clean_run_def)

lemma clean_read_comments:
  assumes "fec_ok t rs" and "fec_required rs = 1" and "fec_total rs = 3"
    and "list_all2 (near t) (map (\<lambda>c. codeword rs [c]) cs) ws"
  shows "read_comments rs i (length cs) [] (clean_run e (concat ws @ rest) h k) =
    (Inr cs, clean_run e rest h (k + length cs * 3))"
  using read_comments_near [OF assms, of "clean_run e (concat ws @ rest) h k" rest i "[]"]
  by (simp add: clean_run_def)

lemma clean_run_done:
  "(clean_run e rest h k)\<lparr>run_result := (run_result (clean_run e rest h k))
     \<lparr>res_DecodeError := run_decodeErrors (clean_run e rest h k) \<noteq> []\<rparr>\<rparr> = clean_run e rest h k"
  by (simp add: clean_run_def)

lemma header_rebuilt:
  "zeroHeader\<lparr>vh_Version := vh_Version h, vh_Comments := vh_Comments h, vh_Flags := vh_Flags h, vh_Salt := vh_Salt h,
     vh_HKDFSalt := vh_HKDFSalt h, vh_SerpentIV := vh_SerpentIV h, vh_Nonce := vh_Nonce h,
     vh_KeyHash := vh_KeyHash h, vh_KeyfileHash := vh_KeyfileHash h, vh_AuthTag := vh_AuthTag h\<rparr> = h"
  by (simp add: zeroHeader_def)

lemma ReadHeader_near:
  assumes ok: "legacy_ok t cs" and wf: "wf_header h" and near: "list_all2 (near t) (header_words cs h) ws"
  shows "ReadHeader cs (new_run (concat ws @ rest) e) = (Inr (), clean_run e rest h (HeaderSize (length (vh_Comments h))))"
proof -
  let ?n = "length (vh_Comments h)"
  obtain w1 w2 wc w3 w4 w5 w6 w7 w8 w9 w10 where ws: "ws = [w1, w2] @ wc @ [w3, w4, w5, w6, w7, w8, w9, w10]"
    and c: "list_all2 (near t) (map (\<lambda>c. codeword (RS1 cs) [c]) (vh_Comments h)) wc"
    and W: "near t (codeword (RS5 cs) (vh_Version h)) w1" "near t (codeword (RS5 cs) (sprintf_05d ?n)) w2"
      "near t (codeword (RS5 cs) (flags_ToBytes (vh_Flags h))) w3" "near t (codeword (RS16 cs) (vh_Salt h)) w4"
      "near t (codeword (RS32 cs) (vh_HKDFSalt h)) w5" "near t (codeword (RS16 cs) (vh_SerpentIV h)) w6"
      "near t (codeword (RS24 cs) (vh_Nonce h)) w7" "near t (codeword (RS64 cs) (vh_KeyHash h)) w8"
      "near t (codeword (RS32 cs) (vh_KeyfileHash h)) w9" "near t (codeword (RS64 cs) (vh_AuthTag h)) w10"
    using near unfolding header_words_def front_words_def auth_words_def
    by (auto simp: list_all2_append1 list_all2_Cons1)
  have S: "fec_required (RS1 cs) = 1" "fec_total (RS1 cs) = 3"
    "5 = fec_required (RS5 cs)" "VersionEncSize = fec_total (RS5 cs)"
    "16 = fec_required (RS16 cs)" "SaltEncSize = fec_total (RS16 cs)"
    "24 = fec_required (RS24 cs)" "NonceEncSize = fec_total (RS24 cs)"
    "32 = fec_required (RS32 cs)" "HKDFSaltEncSize = fec_total (RS32 cs)"
    "64 = fec_required (RS64 cs)" "KeyHashEncSize = fec_total (RS64 cs)"
    and O: "fec_ok t (RS1 cs)" "fec_ok t (RS5 cs)" "fec_ok t (RS16 cs)" "fec_ok t (RS24 cs)" "fec_ok t (RS32 cs)"
      "fec_ok t (RS64 cs)"
    using ok by (simp_all add: legacy_ok_def legacy_sized_def)
  have V: "IsSupportedVersion (vh_Version h)" "MatchVersion (vh_Version h)" and n: "?n \<le> 99999"
    and L: "length (vh_Version h) = 5" "length (vh_Salt h) = 16" "length (vh_HKDFSalt h) = 32"
      "length (vh_SerpentIV h) = 16" "length (vh_Nonce h) = 24" "length (vh_KeyHash h) = 64"
      "length (vh_KeyfileHash h) = 32" "length (vh_AuthTag h) = 64"
    using wf by (auto simp: wf_header_def IsSupportedVersion_def MatchVersion_def)
  note D = sprintf_05d [OF n]
  have stream: "concat ws @ rest = w1 @ w2 @ concat wc @ w3 @ w4 @ w5 @ w6 @ w7 @ w8 @ w9 @ w10 @ rest"
    by (simp add: ws)
  note L' = L(1) [unfolded S(3)] D(1) [unfolded S(3)] flags_roundtrip(2) [of "vh_Flags h", unfolded S(3)]
    L(2) [unfolded S(5)] L(3) [unfolded S(9)] L(4) [unfolded S(5)] L(5) [unfolded S(7)] L(6) [unfolded S(11)]
    L(7) [unfolded S(9)] L(8) [unfolded S(11)]
  note enc = clean_read_enc [OF O(2) L'(1) W(1) S(4)] clean_read_enc [OF O(2) L'(2) W(2) S(4)]
  note dec = decode_enc_near [OF O(2) L'(1) W(1)] decode_enc_near [OF O(2) L'(2) W(2)]
  note fields = clean_read_field [OF O(2) L'(3) W(3) S(4)] clean_read_field [OF O(3) L'(4) W(4) S(6)]
    clean_read_field [OF O(5) L'(5) W(5) S(10)] clean_read_field [OF O(3) L'(6) W(6) S(6)]
    clean_read_field [OF O(4) L'(7) W(7) S(8)] clean_read_field [OF O(6) L'(8) W(8) S(12)]
    clean_read_field [OF O(5) L'(9) W(9) S(10)] clean_read_field [OF O(6) L'(10) W(10) S(12)]
  note comments = clean_read_comments [OF O(1) S(1,2) c]
  have start: "new_run x e = clean_run e x zeroHeader 0" for x by (simp add: new_run_def clean_run_def)
  have "ReadHeader cs (clean_run e (w1 @ w2 @ concat wc @ w3 @ w4 @ w5 @ w6 @ w7 @ w8 @ w9 @ w10 @ rest) zeroHeader 0) =
      (Inr (), clean_run e rest h (15 + 15 + ?n * 3 + 15 + 48 + 96 + 48 + 72 + 192 + 96 + 192))"
    unfolding ReadHeader_def
    using V n
    by (simp add: io_bind_def enc dec fields comments clean_set_field D Let_def flags_roundtrip header_rebuilt
        clean_run_done)
  then show ?thesis unfolding stream start by (simp add: HeaderSize_def BaseHeaderSize_def add.commute)
qed

section \<open>Writing\<close>

text \<open>What \<open>io.Writer\<close> and \<open>io.WriterAt\<close> document: a call without an error took all its bytes.\<close>

definition honest_writer :: "writer \<Rightarrow> bool" where
  "honest_writer w \<longleftrightarrow> (\<forall>k p n. wr_answer w k p = (n, None) \<longrightarrow> n = length p)"

definition honest_file :: "file_at \<Rightarrow> bool" where
  "honest_file f \<longleftrightarrow> (\<forall>k p n. fl_answer f k p = (n, None) \<longrightarrow> n = length p)"

definition appended :: "writer \<Rightarrow> byte list \<Rightarrow> writer \<Rightarrow> bool" where
  "appended w p w' \<longleftrightarrow>
     wr_bytes w' = wr_bytes w @ p \<and> wr_total w' = wr_total w + length p \<and> wr_answer w' = wr_answer w"

lemma appended_refl [simp]: "appended w [] w"
  by (simp add: appended_def)

lemma appended_trans: "appended w p w1 \<Longrightarrow> appended w1 q w2 \<Longrightarrow> appended w (p @ q) w2"
  by (simp add: appended_def)

lemma appended_honest: "appended w p w' \<Longrightarrow> honest_writer w' = honest_writer w"
  by (simp add: appended_def honest_writer_def)

text \<open>An operation that can only succeed when \<open>P\<close> holds, and then has written \<open>p\<close>.\<close>

definition writes :: "(writer, write_error, unit) io \<Rightarrow> bool \<Rightarrow> byte list \<Rightarrow> bool" where
  "writes m P p \<longleftrightarrow> (\<forall>w w'. honest_writer w \<longrightarrow> m w = (Inr (), w') \<longrightarrow> P \<and> appended w p w')"

lemma writes_bind: "writes m P p \<Longrightarrow> writes k Q q \<Longrightarrow> writes (io_bind m (\<lambda>_. k)) (P \<and> Q) (p @ q)"
  unfolding writes_def
proof (intro allI impI)
  fix w w'
  assume m: "\<forall>w w'. honest_writer w \<longrightarrow> m w = (Inr (), w') \<longrightarrow> P \<and> appended w p w'"
    and k: "\<forall>w w'. honest_writer w \<longrightarrow> k w = (Inr (), w') \<longrightarrow> Q \<and> appended w q w'"
    and hon: "honest_writer w" and run: "io_bind m (\<lambda>_. k) w = (Inr (), w')"
  obtain w1 where r: "m w = (Inr (), w1)" "k w1 = (Inr (), w')" using run by (auto simp: io_bind_eq_Inr)
  have 1: "P" "appended w p w1" using m hon r(1) by blast+
  then have "honest_writer w1" using hon by (simp add: appended_honest)
  then have "Q" "appended w1 q w'" using k r(2) by blast+
  then show "(P \<and> Q) \<and> appended w (p @ q) w'" using 1 appended_trans by blast
qed

lemma writes_conseq: "writes m P p \<Longrightarrow> (P \<Longrightarrow> Q) \<Longrightarrow> p = q \<Longrightarrow> writes m Q q"
  by (auto simp: writes_def)

lemma writes_bytes: "writes (write_bytes field p) True p"
  by (auto simp: writes_def write_bytes_def appended_def honest_writer_def Let_def split: prod.splits option.splits)

lemma rs_Encode_Inr: "fec_encodes rs \<Longrightarrow> rs_Encode rs data = Inr enc \<longleftrightarrow> length data = fec_required rs \<and> enc = codeword rs data"
  by (cases "length data = fec_required rs")
    (auto simp: rs_Encode_def EncodeInto_codeword EncodeInto_size_error)

lemma writes_field: "fec_encodes rs \<Longrightarrow> writes (write_field field rs data) (length data = fec_required rs) (codeword rs data)"
  using writes_bytes by (auto simp: writes_def write_field_def io_bind_eq_Inr rs_Encode_Inr)

lemma writes_comments:
  assumes "fec_encodes rs" and "fec_required rs = 1"
  shows "writes (write_comments rs i cs) True (concat (map (\<lambda>c. codeword rs [c]) cs))"
proof (induction cs arbitrary: i)
  case Nil
  then show ?case by (simp add: writes_def)
next
  case (Cons c cs)
  from writes_bind [OF writes_field [OF assms(1), of "FComment i" "[c]"] Cons.IH [of "i + 1"]]
  show ?case using assms(2) by simp
qed

lemma zeros_480: "replicate 480 0 = replicate 192 0 @ replicate 96 0 @ replicate 192 (0 :: byte)"
  by (simp add: replicate_add [symmetric])

lemma WriteHeader_writes:
  assumes "legacy_ok t cs"
  shows "writes (WriteHeader cs h)
    (length (vh_Comments h) \<le> 99999 \<and> length (vh_Salt h) = 16 \<and> length (vh_HKDFSalt h) = 32 \<and>
     length (vh_SerpentIV h) = 16 \<and> length (vh_Nonce h) = 24)
    (concat (front_words cs h) @ replicate 480 0)"
proof (cases "length (vh_Comments h) > 99999")
  case True
  then show ?thesis by (simp add: writes_def WriteHeader_def)
next
  case False
  have S: "fec_required (RS1 cs) = 1" "fec_required (RS16 cs) = 16" "fec_required (RS24 cs) = 24" "fec_required (RS32 cs) = 32"
    and E: "fec_encodes (RS1 cs)" "fec_encodes (RS5 cs)" "fec_encodes (RS16 cs)" "fec_encodes (RS24 cs)" "fec_encodes (RS32 cs)"
    using assms by (simp_all add: legacy_ok_def legacy_sized_def fec_ok_def)
  note f = writes_field
  note all = writes_bind [OF f [OF E(2)] writes_bind [OF f [OF E(2)] writes_bind [OF writes_comments [OF E(1) S(1)]
    writes_bind [OF f [OF E(2)] writes_bind [OF f [OF E(3)] writes_bind [OF f [OF E(5)] writes_bind [OF f [OF E(3)]
    writes_bind [OF f [OF E(4)] writes_bind [OF writes_bytes writes_bind [OF writes_bytes writes_bytes]]]]]]]]]]
  show ?thesis
    unfolding WriteHeader_def if_not_P [OF False]
    by (rule writes_conseq [OF all]) (use False S in \<open>simp_all add: front_words_def zeros_480\<close>)
qed

lemma write_at_Inr:
  "write_at field pos p f = (Inr (), f') \<Longrightarrow> honest_file f \<Longrightarrow>
   fl_bytes f' = overlay pos p (fl_bytes f) \<and> honest_file f'"
  by (auto simp: write_at_def honest_file_def Let_def split: prod.splits option.splits)

lemma overlay_inside: "length a = pos \<Longrightarrow> length b = length p \<Longrightarrow> overlay pos p (a @ b @ c) = a @ p @ c"
  by (simp add: overlay_def)

lemma WriteAuthValues_Inr:
  assumes run: "WriteAuthValues (length front) keyHash keyfileHash authTag cs f = (Inr (), f')"
    and ok: "legacy_ok t cs" and hon: "honest_file f" and bytes: "fl_bytes f = front @ replicate 480 0 @ payload"
  shows "fl_bytes f' = front @ codeword (RS64 cs) keyHash @ codeword (RS32 cs) keyfileHash @
      codeword (RS64 cs) authTag @ payload \<and>
    length keyHash = 64 \<and> length keyfileHash = 32 \<and> length authTag = 64"
proof -
  have S: "fec_required (RS64 cs) = 64" "fec_total (RS64 cs) = 192" "fec_required (RS32 cs) = 32" "fec_total (RS32 cs) = 96"
    and E: "fec_encodes (RS64 cs)" "fec_encodes (RS32 cs)"
    using ok by (simp_all add: legacy_ok_def legacy_sized_def fec_ok_def)
  obtain f1 f2 where R: "length keyHash = 64" "write_at FKeyHash (length front) (codeword (RS64 cs) keyHash) f = (Inr (), f1)"
    "length keyfileHash = 32" "write_at FKeyfileHash (length front + 192) (codeword (RS32 cs) keyfileHash) f1 = (Inr (), f2)"
    "length authTag = 64" "write_at FAuthTag (length front + 192 + 96) (codeword (RS64 cs) authTag) f2 = (Inr (), f')"
    using run S by (auto simp: WriteAuthValues_def io_bind_eq_Inr rs_Encode_Inr [OF E(1)] rs_Encode_Inr [OF E(2)])
  have l: "length (codeword (RS64 cs) keyHash) = 192" "length (codeword (RS32 cs) keyfileHash) = 96"
    "length (codeword (RS64 cs) authTag) = 192"
    using R(1,3,5) S by simp_all
  note A1 = write_at_Inr [OF R(2) hon]
  note A2 = write_at_Inr [OF R(4) A1 [THEN conjunct2]]
  note A3 = write_at_Inr [OF R(6) A2 [THEN conjunct2]]
  have b1: "fl_bytes f1 = front @ codeword (RS64 cs) keyHash @ (replicate 96 0 @ replicate 192 0 @ payload)"
    using A1 bytes l overlay_inside [of front "length front" "replicate 192 0"] unfolding zeros_480 by simp
  have b2: "fl_bytes f2 = (front @ codeword (RS64 cs) keyHash) @ codeword (RS32 cs) keyfileHash @ (replicate 192 0 @ payload)"
    using A2 b1 l overlay_inside [of "front @ codeword (RS64 cs) keyHash" "length front + 192" "replicate 96 0"
        "codeword (RS32 cs) keyfileHash" "replicate 192 0 @ payload"] by simp
  have "fl_bytes f' = (front @ codeword (RS64 cs) keyHash @ codeword (RS32 cs) keyfileHash) @ codeword (RS64 cs) authTag @ payload"
    using A3 b2 l overlay_inside [of "front @ codeword (RS64 cs) keyHash @ codeword (RS32 cs) keyfileHash"
        "length front + 192 + 96" "replicate 192 0" "codeword (RS64 cs) authTag" payload] by simp
  then show ?thesis using R by simp
qed

section \<open>Cutting a header into words\<close>

fun cut :: "nat list \<Rightarrow> 'a list \<Rightarrow> 'a list list" where
  "cut [] bs = []"
| "cut (n # ns) bs = take n bs # cut ns (drop n bs)"

definition header_sizes :: "nat \<Rightarrow> nat list" where
  "header_sizes c = [15, 15] @ replicate c 3 @ [15, 48, 96, 48, 72, 192, 96, 192]"

lemma cut_concat: "map length ws = ns \<Longrightarrow> cut ns (concat ws @ r) = ws"
  by (induction ws arbitrary: ns) auto

lemma concat_cut: "concat (cut ns bs) = take (sum_list ns) bs"
  by (induction ns arbitrary: bs) (simp_all add: take_add)

lemma sum_header_sizes: "sum_list (header_sizes c) = HeaderSize c"
  by (simp add: header_sizes_def HeaderSize_def BaseHeaderSize_def sum_list_replicate)

lemma header_words_sizes:
  assumes "legacy_ok t cs" and "wf_header h"
  shows "map length (header_words cs h) = header_sizes (length (vh_Comments h))"
proof -
  have "length (codeword (RS1 cs) [c]) = 3" for c
    using assms(1) by (simp add: legacy_ok_def legacy_sized_def fec_ok_def fec_encodes_def)
  moreover have "length (vh_Version h) = 5" using assms(2) by (simp add: wf_header_def IsSupportedVersion_def MatchVersion_def)
  ultimately show ?thesis
    using assms sprintf_05d(1) [of "length (vh_Comments h)"] flags_roundtrip(2) [of "vh_Flags h"]
    by (simp add: header_words_def front_words_def auth_words_def header_sizes_def legacy_ok_def legacy_sized_def
        wf_header_def fec_ok_def fec_encodes_def o_def map_replicate_const)
qed

lemma front_words_length:
  assumes "map length (header_words cs h) = header_sizes (length (vh_Comments h))"
  shows "length (concat (front_words cs h)) = AuthValuesOffset (length (vh_Comments h))"
proof -
  have "map length (front_words cs h) = [15, 15] @ replicate (length (vh_Comments h)) 3 @ [15, 48, 96, 48, 72]"
    using assms by (simp add: header_words_def front_words_def auth_words_def header_sizes_def)
  then show ?thesis by (simp add: length_concat AuthValuesOffset_def sum_list_replicate)
qed

text \<open>The file after both writers have reported success.\<close>

lemma legacy_file_written:
  assumes ok: "legacy_ok t cs" and version: "IsSupportedVersion (vh_Version h)"
    and w: "honest_writer w" "wr_bytes w = []" "WriteHeader cs h w = (Inr (), w')"
    and f: "honest_file f" "fl_bytes f = wr_bytes w' @ payload"
      "WriteAuthValues (AuthValuesOffset (length (vh_Comments h))) keyHash keyfileHash authTag cs f = (Inr (), f')"
    and h': "h' = h\<lparr>vh_KeyHash := keyHash, vh_KeyfileHash := keyfileHash, vh_AuthTag := authTag\<rparr>"
  shows "wf_header h' \<and> fl_bytes f' = concat (header_words cs h') @ payload"
proof -
  let ?c = "length (vh_Comments h)"
  have W: "length (vh_Comments h) \<le> 99999" "length (vh_Salt h) = 16" "length (vh_HKDFSalt h) = 32"
    "length (vh_SerpentIV h) = 16" "length (vh_Nonce h) = 24"
    "wr_bytes w' = concat (front_words cs h) @ replicate 480 0"
    using WriteHeader_writes [OF ok, of h, unfolded writes_def, rule_format, OF w(1,3)] w(2)
    by (simp_all add: appended_def)
  define h0 where "h0 = h\<lparr>vh_KeyHash := replicate 64 0, vh_KeyfileHash := replicate 32 0, vh_AuthTag := replicate 64 0\<rparr>"
  have "wf_header h0" using W version by (simp add: wf_header_def h0_def)
  note sizes0 = header_words_sizes [OF ok this]
  have "front_words cs h0 = front_words cs h" "vh_Comments h0 = vh_Comments h" by (simp_all add: front_words_def h0_def)
  then have off: "AuthValuesOffset ?c = length (concat (front_words cs h))" using front_words_length [OF sizes0] by simp
  have bytes: "fl_bytes f = concat (front_words cs h) @ replicate 480 0 @ payload" using f(2) W(6) by simp
  note A = WriteAuthValues_Inr [OF f(3) [unfolded off] ok f(1) bytes]
  have "wf_header h'" using A W version by (simp add: wf_header_def h')
  moreover have "fl_bytes f' = concat (header_words cs h') @ payload"
    using A by (simp add: header_words_def auth_words_def front_words_def h')
  ultimately show ?thesis by simp
qed

text \<open>Reading a damaged file whose header words are near the written ones.\<close>

lemma ReadHeader_damaged:
  assumes ok: "legacy_ok t cs" and wf: "wf_header h"
    and damage: "list_all2 (near t) (cut (header_sizes (length (vh_Comments h))) (concat (header_words cs h) @ payload))
      (cut (header_sizes (length (vh_Comments h))) damaged)"
  shows "ReadHeader cs (new_run damaged e) =
    (Inr (), clean_run e (drop (HeaderSize (length (vh_Comments h))) damaged) h (HeaderSize (length (vh_Comments h))))"
proof -
  let ?c = "length (vh_Comments h)"
  have "cut (header_sizes ?c) (concat (header_words cs h) @ payload) = header_words cs h"
    by (rule cut_concat) (use header_words_sizes [OF ok wf] in simp)
  then have near: "list_all2 (near t) (header_words cs h) (cut (header_sizes ?c) damaged)" using damage by (simp only:)
  have d: "concat (cut (header_sizes ?c) damaged) @ drop (HeaderSize ?c) damaged = damaged"
    by (simp add: concat_cut sum_header_sizes)
  from ReadHeader_near [OF ok wf near, of "drop (HeaderSize ?c) damaged" e] show ?thesis unfolding d .
qed

text \<open>C35: a legacy header survives its life in a file. If \<open>WriteHeader\<close> and, after the payload has
  followed, \<open>WriteAuthValues\<close> at \<open>AuthValuesOffset\<close> both report success on files that keep the
  contract of their interfaces, then \<open>ReadHeader\<close> on the file, damaged in at most \<open>t\<close> bytes of every
  codeword of the header, returns the header that was written with its three authentication values,
  notices no error, has read exactly \<open>HeaderSize\<close> bytes and leaves the payload unread.\<close>

theorem legacy_header_roundtrip:
  assumes ok: "legacy_ok t cs" and version: "IsSupportedVersion (vh_Version h)"
    and w: "honest_writer w" "wr_bytes w = []" "WriteHeader cs h w = (Inr (), w')"
    and f: "honest_file f" "fl_bytes f = wr_bytes w' @ payload"
      "WriteAuthValues (AuthValuesOffset (length (vh_Comments h))) keyHash keyfileHash authTag cs f = (Inr (), f')"
    and damage: "list_all2 (near t) (cut (header_sizes (length (vh_Comments h))) (fl_bytes f'))
      (cut (header_sizes (length (vh_Comments h))) damaged)"
  shows "ReadHeader cs (new_run damaged e) =
    (Inr (), clean_run e (drop (HeaderSize (length (vh_Comments h))) damaged)
       (h\<lparr>vh_KeyHash := keyHash, vh_KeyfileHash := keyfileHash, vh_AuthTag := authTag\<rparr>)
       (HeaderSize (length (vh_Comments h))))"
proof -
  let ?h = "h\<lparr>vh_KeyHash := keyHash, vh_KeyfileHash := keyfileHash, vh_AuthTag := authTag\<rparr>"
  have W: "wf_header ?h" "fl_bytes f' = concat (header_words cs ?h) @ payload"
    using legacy_file_written [OF ok version w f refl] by blast+
  have c: "length (vh_Comments ?h) = length (vh_Comments h)" by simp
  show ?thesis using ReadHeader_damaged [OF ok W(1), unfolded c, of payload damaged e] damage W(2) by simp
qed

section \<open>The MAC binds every field\<close>

text \<open>C37: in the second format the bytes authenticated by the header MAC determine the fields of the
  header that come before the authentication values: two well-formed headers, with keyfile hashes of 32 bytes, that feed the same bytes to
  HMAC-SHA3-512 agree in version, comment, flags, salts, initialization vector and nonce,
  and the keyfile hashes passed with them are equal. No byte can move from one field to another.
  The key hash, the payload tag and the keyfile hash stored in the header are not among the bytes.\<close>

theorem v2_mac_binds_fields:
  assumes "wf_header h" "wf_header h'" and "length kh = 32" "length kh' = 32"
    and same: "v2_header_fields h kh = v2_header_fields h' kh'"
  shows "vh_Version h = vh_Version h' \<and> vh_Comments h = vh_Comments h' \<and> vh_Flags h = vh_Flags h' \<and>
    vh_Salt h = vh_Salt h' \<and> vh_HKDFSalt h = vh_HKDFSalt h' \<and> vh_SerpentIV h = vh_SerpentIV h' \<and>
    vh_Nonce h = vh_Nonce h' \<and> kh = kh'"
proof -
  have v: "length (vh_Version h) = 5" "length (vh_Version h') = 5"
    using assms(1,2) by (simp_all add: wf_header_def IsSupportedVersion_def MatchVersion_def)
  have c: "length (vh_Comments h) \<le> 99999" "length (vh_Comments h') \<le> 99999"
    using assms(1,2) by (simp_all add: wf_header_def)
  have V: "vh_Version h = vh_Version h'" and rest: "sprintf_05d (length (vh_Comments h)) = sprintf_05d (length (vh_Comments h'))"
    using same v sprintf_05d(1) [OF c(1)] sprintf_05d(1) [OF c(2)] by (simp_all add: v2_header_fields_def)
  have n: "length (vh_Comments h) = length (vh_Comments h')"
    using arg_cong [OF rest, of atoi] sprintf_05d(3) [OF c(1)] sprintf_05d(3) [OF c(2)] by simp
  have F: "flags_ToBytes (vh_Flags h) = flags_ToBytes (vh_Flags h') \<Longrightarrow> vh_Flags h = vh_Flags h'"
    using flags_roundtrip(1) by metis
  show ?thesis
    using same V n F assms(1-4) flags_roundtrip(2) by (simp add: v2_header_fields_def wf_header_def)
qed

section \<open>Whatever is read is well formed\<close>

definition errors_flagged :: "header_run \<Rightarrow> bool" where
  "errors_flagged r \<longleftrightarrow>
     (run_decodeErrors r \<noteq> [] \<longleftrightarrow> res_CommentDecodeError (run_result r) \<or> res_NonCommentDecodeError (run_result r))"

text \<open>A step that adds \<open>k\<close> bytes to the count and changes the header by \<open>f\<close>.\<close>

definition step_to :: "header_run \<Rightarrow> nat \<Rightarrow> (VolumeHeader \<Rightarrow> VolumeHeader) \<Rightarrow> header_run \<Rightarrow> bool" where
  "step_to r k f r' \<longleftrightarrow>
     res_Header (run_result r') = f (res_Header (run_result r)) \<and>
     res_BytesRead (run_result r') = res_BytesRead (run_result r) + k \<and>
     (errors_flagged r \<longrightarrow> errors_flagged r')"

text \<open>What an operation does when it succeeds: \<open>R\<close> relates its value, the bytes it consumed, the change of
  the header and the final state.\<close>

definition reads ::
  "(header_run, header_error, 'a) io \<Rightarrow> ('a \<Rightarrow> nat \<Rightarrow> (VolumeHeader \<Rightarrow> VolumeHeader) \<Rightarrow> header_run \<Rightarrow> bool) \<Rightarrow> bool" where
  "reads m R \<longleftrightarrow> (\<forall>r v r'. m r = (Inr v, r') \<longrightarrow> (\<exists>k f. R v k f r' \<and> step_to r k f r'))"

lemma reads_bind:
  assumes "reads m R" and "\<And>v k f r. R v k f r \<Longrightarrow> reads (g v) (\<lambda>u l h. S u (k + l) (h \<circ> f))"
  shows "reads (io_bind m g) S"
  unfolding reads_def
proof (intro allI impI)
  fix r u r' assume "io_bind m g r = (Inr u, r')"
  then obtain v r1 where 1: "m r = (Inr v, r1)" "g v r1 = (Inr u, r')" by (auto simp: io_bind_eq_Inr)
  from assms(1) 1(1) obtain k f where 2: "R v k f r1" "step_to r k f r1" unfolding reads_def by blast
  from assms(2) [OF 2(1)] 1(2) obtain l h where 3: "S u (k + l) (h \<circ> f) r'" "step_to r1 l h r'"
    unfolding reads_def by blast
  have "step_to r (k + l) (h \<circ> f) r'" using 2(2) 3(2) by (simp add: step_to_def)
  with 3(1) show "\<exists>k f. S u k f r' \<and> step_to r k f r'" by blast
qed

lemma reads_weaken: "reads m R \<Longrightarrow> (\<And>v k f r. R v k f r \<Longrightarrow> S v k f r) \<Longrightarrow> reads m S"
  unfolding reads_def by blast

lemma reads_if: "(b \<Longrightarrow> reads m S) \<Longrightarrow> (\<not> b \<Longrightarrow> reads m' S) \<Longrightarrow> reads (if b then m else m') S"
  by simp

lemma reads_fail: "reads (io_fail e) S"
  by (simp add: reads_def io_fail_def)

lemma reads_enc: "reads (read_enc field n) (\<lambda>enc k f _. length enc = n \<and> k = n \<and> f = id)"
  by (auto simp: reads_def read_enc_def ReadFull_def Let_def step_to_def errors_flagged_def split: if_splits)

lemma rs_Decode_length:
  assumes "fec_total rs = 3 * fec_required rs" and "length enc = fec_total rs" and "fec_total rs \<noteq> 136"
  shows "length (fst (rs_Decode rs enc fast)) = fec_required rs"
  using assms by (auto simp: rs_Decode_def DecodeInto_def split: sum.splits option.splits if_splits)

lemma reads_dec:
  assumes "fec_total rs = 3 * fec_required rs" and "fec_total rs \<noteq> 136" and "length enc = fec_total rs"
  shows "reads (decode_enc c rs enc) (\<lambda>dec k f _. length dec = fec_required rs \<and> k = 0 \<and> f = id)"
  using rs_Decode_length [OF assms(1,3,2), of False]
  by (auto simp: reads_def decode_enc_def step_to_def errors_flagged_def split: prod.splits option.splits if_splits)

lemma reads_set: "reads (set_field a) (\<lambda>_ k f _. k = 0 \<and> f = a)"
  by (auto simp: reads_def set_field_def step_to_def errors_flagged_def)

lemma reads_field:
  assumes "fec_total rs = 3 * fec_required rs" and "fec_total rs \<noteq> 136" and "n = fec_total rs"
  shows "reads (read_field field n rs assign)
    (\<lambda>_ k f _. \<exists>dec. length dec = fec_required rs \<and> k = n \<and> f = assign dec)"
  unfolding read_field_def
proof (rule reads_bind [OF reads_enc], elim conjE)
  fix enc :: "byte list" and k f assume enc: "length enc = n" "k = n" "f = (id :: VolumeHeader \<Rightarrow> _)"
  show "reads (io_bind (decode_enc False rs enc) (\<lambda>dec. set_field (assign dec)))
     (\<lambda>_ l h _. \<exists>dec. length dec = fec_required rs \<and> k + l = n \<and> h \<circ> f = assign dec)"
    by (rule reads_bind [OF reads_dec [OF assms(1,2)]])
      (use enc assms(3) in \<open>auto intro: reads_weaken [OF reads_set]\<close>)
qed

lemma reads_comments:
  assumes "fec_required rs = 1" and "fec_total rs = 3"
  shows "reads (read_comments rs i k acc) (\<lambda>cs n f _. length cs = length acc + k \<and> n = 3 * k \<and> f = id)"
proof (induction k arbitrary: i acc)
  case 0
  then show ?case by (simp add: reads_def step_to_def)
next
  case (Suc k)
  show ?case
    unfolding read_comments.simps
  proof (rule reads_bind [OF reads_enc], elim conjE)
    fix enc :: "byte list" and n :: nat and f assume enc: "length enc = 3" "n = 3" "f = (id :: VolumeHeader \<Rightarrow> _)"
    show "reads (io_bind (decode_enc True rs enc) (\<lambda>cDec. read_comments rs (i + 1) k (acc @ cDec)))
        (\<lambda>cs l h _. length cs = length acc + Suc k \<and> n + l = 3 * Suc k \<and> h \<circ> f = id)"
      by (rule reads_bind [OF reads_dec]) (use enc assms in \<open>auto intro: reads_weaken [OF Suc.IH]\<close>)
  qed
qed

lemma reads_done:
  "reads (\<lambda>r. (Inr (), r\<lparr>run_result := (run_result r)\<lparr>res_DecodeError := run_decodeErrors r \<noteq> []\<rparr>\<rparr>))
     (\<lambda>_ k f r. k = 0 \<and> f = id \<and> res_DecodeError (run_result r) = (run_decodeErrors r \<noteq> []))"
  by (auto simp: reads_def step_to_def errors_flagged_def)

lemma ReadHeader_reads:
  assumes "legacy_sized cs"
  shows "reads (ReadHeader cs)
    (\<lambda>_ k f r. (\<forall>h. wf_header (f h) \<and> k = HeaderSize (length (vh_Comments (f h)))) \<and>
       res_DecodeError (run_result r) = (run_decodeErrors r \<noteq> []))"
proof -
  have S: "fec_required (RS1 cs) = 1" "fec_total (RS1 cs) = 3" "fec_required (RS5 cs) = 5" "fec_total (RS5 cs) = 15"
    "fec_required (RS16 cs) = 16" "fec_total (RS16 cs) = 48" "fec_required (RS24 cs) = 24" "fec_total (RS24 cs) = 72"
    "fec_required (RS32 cs) = 32" "fec_total (RS32 cs) = 96" "fec_required (RS64 cs) = 64" "fec_total (RS64 cs) = 192"
    using assms by (simp_all add: legacy_sized_def)
  note dec = reads_dec [of "RS5 cs"] and fields = reads_field [of "RS5 cs"] reads_field [of "RS16 cs"]
    reads_field [of "RS24 cs"] reads_field [of "RS32 cs"] reads_field [of "RS64 cs"]
  show ?thesis
    unfolding ReadHeader_def Let_def
    by (intro reads_bind [OF reads_enc] reads_bind [OF dec] reads_bind [OF reads_set] reads_if reads_fail
        reads_bind [OF reads_comments [OF S(1,2)]] reads_bind [OF fields(1)] reads_bind [OF fields(2)]
        reads_bind [OF fields(3)] reads_bind [OF fields(4)] reads_bind [OF fields(5)] reads_weaken [OF reads_done];
        (simp add: S)?)
      (auto simp: S wf_header_def HeaderSize_def BaseHeaderSize_def)
qed

text \<open>C36: a header that \<open>ReadHeader\<close> returns without an error is well formed, whatever bytes the reader
  served and however damaged they were: a supported version, a comment of at most 99999 bytes, every
  fixed field of its size (also when its codeword could not be repaired); exactly \<open>HeaderSize\<close> bytes
  were consumed, and \<open>DecodeError\<close> is set exactly when one of the two damage flags is.\<close>

theorem read_header_wellformed:
  assumes sized: "legacy_sized cs" and run: "ReadHeader cs (new_run bytes e) = (Inr (), r)"
  shows "wf_header (res_Header (run_result r)) \<and>
    res_BytesRead (run_result r) = HeaderSize (length (vh_Comments (res_Header (run_result r)))) \<and>
    (res_DecodeError (run_result r) \<longleftrightarrow>
       res_CommentDecodeError (run_result r) \<or> res_NonCommentDecodeError (run_result r))"
proof -
  have "errors_flagged (new_run bytes e)" "res_BytesRead (run_result (new_run bytes e)) = 0"
    by (simp_all add: new_run_def errors_flagged_def)
  then show ?thesis
    using ReadHeader_reads [OF sized] run unfolding reads_def step_to_def
    by (metis add_0 errors_flagged_def)
qed

section \<open>A header in a file\<close>

lemma xor_legacy_ok: "legacy_ok 1 xor_codecs"
proof -
  have "fec_ok 1 (xor_fec k (3 * k))" if "k \<le> 1 \<and> 1 \<le> k \<or> 4 \<le> k \<and> k \<le> 247" for k
    using that by (intro xor_fec_ok) (auto simp: shape_def)
  from this [of 1] this [of 5] this [of 16] this [of 24] this [of 32] this [of 64] show ?thesis
    by (simp add: legacy_ok_def legacy_sized_def xor_codecs_def xor_fec_sizes)
qed

text \<open>One wrong byte in a file damages each of its words in at most one byte.\<close>

lemma near_update: "near 1 bytes (bytes[i := b])"
  using diffs_update [of bytes i b] by (simp add: near_def)

lemma near_same: "list_all2 (near t) ws ws"
  by (rule list_all2_refl) (simp add: near_def)

lemma cut_update: "list_all2 (near 1) (cut ns bytes) (cut ns (bytes[i := b]))"
proof (induction ns arbitrary: bytes i)
  case (Cons n ns)
  have "near 1 (take n bytes) (take n (bytes[i := b]))" unfolding take_update_swap by (rule near_update)
  moreover have "list_all2 (near 1) (cut ns (drop n bytes)) (cut ns (drop n (bytes[i := b])))"
    using Cons.IH [of "drop n bytes" "i - n"] near_same by (cases "i < n") (simp_all add: drop_update_swap)
  ultimately show ?case by simp
qed simp

definition sample_header :: VolumeHeader where
  "sample_header = (NewVolumeHeader (replicate 16 1) (replicate 32 2) (replicate 16 3) (replicate 24 4))
     \<lparr>vh_Comments := [72, 105], vh_Flags := \<lparr>flag_Paranoid = True, flag_UseKeyfiles = False,
       flag_KeyfileOrdered = False, flag_ReedSolomon = True, flag_Padded = False\<rparr>\<rparr>"

definition sample_writer :: writer where
  "sample_writer = \<lparr>wr_bytes = [], wr_calls = 0, wr_answer = (\<lambda>k p. (length p, None)), wr_total = 0\<rparr>"

text \<open>An operation that succeeds on every writer that takes all bytes.\<close>

definition takes_all :: "writer \<Rightarrow> bool" where
  "takes_all w \<longleftrightarrow> (\<forall>k p. wr_answer w k p = (length p, None))"

definition succeeds :: "(writer, write_error, unit) io \<Rightarrow> bool" where
  "succeeds m \<longleftrightarrow> (\<forall>w. takes_all w \<longrightarrow> (\<exists>w'. m w = (Inr (), w') \<and> takes_all w'))"

lemma succeeds_bytes: "succeeds (write_bytes field p)"
  by (simp add: succeeds_def write_bytes_def takes_all_def)

lemma succeeds_bind: "succeeds m \<Longrightarrow> succeeds k \<Longrightarrow> succeeds (io_bind m (\<lambda>_. k))"
  unfolding succeeds_def by (fastforce simp: io_bind_def)

lemma succeeds_field: "fec_encodes rs \<Longrightarrow> length data = fec_required rs \<Longrightarrow> succeeds (write_field field rs data)"
  using succeeds_bytes [of field "codeword rs data"]
  by (simp add: write_field_def rs_Encode_def EncodeInto_codeword)

lemma succeeds_comments: "fec_encodes rs \<Longrightarrow> fec_required rs = 1 \<Longrightarrow> succeeds (write_comments rs i cs)"
  by (induction cs arbitrary: i) (simp_all add: succeeds_bind succeeds_field, simp add: succeeds_def)

lemma WriteHeader_succeeds:
  assumes "legacy_ok t cs" and "wf_header h"
  shows "succeeds (WriteHeader cs h)"
proof -
  have E: "fec_encodes (RS1 cs)" "fec_encodes (RS5 cs)" "fec_encodes (RS16 cs)" "fec_encodes (RS24 cs)" "fec_encodes (RS32 cs)"
    and S: "fec_required (RS1 cs) = 1" "fec_required (RS5 cs) = 5" "fec_required (RS16 cs) = 16"
    "fec_required (RS24 cs) = 24" "fec_required (RS32 cs) = 32"
    using assms(1) by (simp_all add: legacy_ok_def legacy_sized_def fec_ok_def)
  have n: "length (vh_Comments h) \<le> 99999" "length (vh_Version h) = 5"
    using assms(2) by (simp_all add: wf_header_def IsSupportedVersion_def MatchVersion_def)
  show ?thesis
    unfolding WriteHeader_def
    using assms(2) n E S sprintf_05d(1) [OF n(1)] flags_roundtrip(2) [of "vh_Flags h"]
    by (simp add: wf_header_def succeeds_bind succeeds_field succeeds_comments succeeds_bytes)
qed

lemma WriteAuthValues_succeeds:
  assumes "legacy_ok t cs" and "length keyHash = 64" "length keyfileHash = 32" "length authTag = 64"
    and "\<forall>k p. fl_answer f k p = (length p, None)"
  shows "\<exists>f'. WriteAuthValues offset keyHash keyfileHash authTag cs f = (Inr (), f')"
  using assms
  by (simp add: WriteAuthValues_def rs_Encode_def EncodeInto_codeword legacy_ok_def legacy_sized_def fec_ok_def
      io_bind_def write_at_def)

theorem legacy_header_roundtrip_witness:
  "\<exists>w' f f' r. WriteHeader xor_codecs sample_header sample_writer = (Inr (), w') \<and>
     fl_bytes f = wr_bytes w' @ [1, 2, 3] \<and>
     WriteAuthValues (AuthValuesOffset 2) (replicate 64 5) (replicate 32 6) (replicate 64 7) xor_codecs f = (Inr (), f') \<and>
     ReadHeader xor_codecs (new_run ((fl_bytes f')[20 := fl_bytes f' ! 20 + 1]) EOF) = (Inr (), r) \<and>
     res_Header (run_result r) = sample_header\<lparr>vh_KeyHash := replicate 64 5, vh_KeyfileHash := replicate 32 6,
       vh_AuthTag := replicate 64 7\<rparr>"
proof -
  let ?c = "length (vh_Comments sample_header)"
  have c: "?c = 2" by (simp add: sample_header_def)
  have v: "IsSupportedVersion (vh_Version sample_header)"
    by (simp add: sample_header_def NewVolumeHeader_def IsSupportedVersion_def MatchVersion_def ascii_def is_digit_def
        word_le_nat_alt)
  have wf: "wf_header sample_header"
    using v by (simp add: wf_header_def) (simp add: sample_header_def NewVolumeHeader_def)
  have tw: "takes_all sample_writer" "honest_writer sample_writer" "wr_bytes sample_writer = []"
    by (simp_all add: takes_all_def honest_writer_def sample_writer_def)
  obtain w' where w': "WriteHeader xor_codecs sample_header sample_writer = (Inr (), w')"
    using WriteHeader_succeeds [OF xor_legacy_ok wf] tw(1) by (auto simp: succeeds_def)
  define f where "f = \<lparr>fl_bytes = wr_bytes w' @ [1, 2, 3], fl_calls = 0, fl_answer = (\<lambda>k p. (length p, None))\<rparr>"
  have f: "honest_file f" "fl_bytes f = wr_bytes w' @ [1, 2, 3]" "\<forall>k p. fl_answer f k p = (length p, None)"
    by (simp_all add: f_def honest_file_def)
  obtain f' where f': "WriteAuthValues (AuthValuesOffset ?c) (replicate 64 5) (replicate 32 6) (replicate 64 7) xor_codecs f =
      (Inr (), f')"
    using WriteAuthValues_succeeds [OF xor_legacy_ok _ _ _ f(3), of "replicate 64 5" "replicate 32 6" "replicate 64 7"] by auto
  note R = legacy_header_roundtrip [OF xor_legacy_ok v tw(2,3) w' f(1,2) f' cut_update, of 20 "fl_bytes f' ! 20 + 1" EOF]
  show ?thesis
    by (intro exI conjI) (rule w', rule f(2), rule f' [unfolded c], rule R, simp add: clean_run_def)
qed

theorem read_header_wellformed_witness:
  "\<exists>bytes r. ReadHeader xor_codecs (new_run bytes EOF) = (Inr (), r) \<and> wf_header (res_Header (run_result r))"
proof -
  have sized: "legacy_sized xor_codecs" using xor_legacy_ok by (simp add: legacy_ok_def)
  have wf: "wf_header sample_header"
    by (simp add: wf_header_def sample_header_def NewVolumeHeader_def IsSupportedVersion_def MatchVersion_def ascii_def
        is_digit_def word_le_nat_alt)
  from ReadHeader_near [OF xor_legacy_ok wf near_same, of "[]" EOF]
  obtain bytes r where run: "ReadHeader xor_codecs (new_run bytes EOF) = (Inr (), r)" by blast
  from read_header_wellformed [OF sized run] run show ?thesis by blast
qed

theorem v2_mac_binds_fields_witness:
  "v2_header_fields sample_header (replicate 32 0) \<noteq>
   v2_header_fields (sample_header\<lparr>vh_Comments := [72]\<rparr>) (replicate 32 0)"
proof -
  have wf: "wf_header (sample_header\<lparr>vh_Comments := c\<rparr>)" if "length c < 3" for c
    using that by (simp add: wf_header_def sample_header_def NewVolumeHeader_def IsSupportedVersion_def MatchVersion_def
        ascii_def is_digit_def word_le_nat_alt)
  have c: "vh_Comments sample_header = [72, 105]" by (simp add: sample_header_def)
  have "sample_header\<lparr>vh_Comments := [72, 105]\<rparr> = sample_header" by (simp add: sample_header_def)
  then have "wf_header sample_header" using wf [of "[72, 105]"] by simp
  then show ?thesis
    using v2_mac_binds_fields [OF _ wf [of "[72]"], of sample_header "replicate 32 0" "replicate 32 0"] c by force
qed

end
