(* ===== verification/Legacy_Crypto.thy ===== *)
theory Legacy_Crypto
  imports Capsule_Codec
begin

text \<open>
  The cryptography of the first two volume formats (\<open>crypto/kdf.go\<close>, \<open>cipher.go\<close>, \<open>rekey.go\<close>): key
  derivation, the subkeys taken in order from one HKDF stream, and the cipher suite that carries
  the position of its key streams, the MAC input and the rest of the HKDF stream. Argon2id, HKDF,
  the ciphers and hashes are parameters; an HKDF stream is the bytes it can still give. Wiping keys
  has no functional content here.
\<close>

abbreviation (input) Argon2KeySize :: nat where "Argon2KeySize \<equiv> 32"
abbreviation (input) SubkeyHeaderSize :: nat where "SubkeyHeaderSize \<equiv> 64"
abbreviation (input) SubkeyMACSize :: nat where "SubkeyMACSize \<equiv> 32"
abbreviation (input) SubkeySerpentSize :: nat where "SubkeySerpentSize \<equiv> 32"
abbreviation (input) RekeyNonceSize :: nat where "RekeyNonceSize \<equiv> 24"
abbreviation (input) RekeyIVSize :: nat where "RekeyIVSize \<equiv> 16"

datatype crypto_error =
  RandomLength | RandomFailed cause | ZeroKey
  | HeaderSubkeyConsumed | HeaderSubkeyRead | MACSubkeyConsumed | MACSubkeyRead
  | SerpentKeyConsumed | SerpentBeforeMAC | SerpentKeyRead
  | ChaChaRefused | SerpentRefused | CTRPanic | MACRefused | RekeyNonceRead | RekeyIVRead

section \<open>Random bytes and the password key\<close>

definition RandomBytes :: "(nat \<Rightarrow> cause + byte list) \<Rightarrow> int \<Rightarrow> crypto_error + byte list" where
  "RandomBytes rand n = (if n \<le> 0 then Inl RandomLength else map_err RandomFailed (rand (nat n)))"

text \<open>\<open>argon2.IDKey(password, salt, passes, memory, threads, size)\<close>; memory is in KiB.\<close>

type_synonym id_key = "byte list \<Rightarrow> byte list \<Rightarrow> nat \<Rightarrow> nat \<Rightarrow> nat \<Rightarrow> nat \<Rightarrow> byte list"

definition DeriveKey :: "id_key \<Rightarrow> byte list \<Rightarrow> byte list \<Rightarrow> bool \<Rightarrow> crypto_error + byte list" where
  "DeriveKey IDKey password salt paranoid =
     (let key = (if paranoid then IDKey password salt 8 1048576 8 Argon2KeySize
                 else IDKey password salt 4 1048576 4 Argon2KeySize)
      in if key = replicate Argon2KeySize 0 then Inl ZeroKey else Inr key)"

section \<open>Subkeys\<close>

record SubkeyReader =
  sk_hkdf :: "byte list"
  sk_headerRead :: bool
  sk_macRead :: bool
  sk_serpentRead :: bool

definition NewSubkeyReader :: "byte list \<Rightarrow> SubkeyReader" where
  "NewSubkeyReader hkdfStream =
     \<lparr>sk_hkdf = hkdfStream, sk_headerRead = False, sk_macRead = False, sk_serpentRead = False\<rparr>"

definition HeaderSubkey :: "(SubkeyReader, crypto_error, byte list) io" where
  "HeaderSubkey r =
     (if sk_headerRead r then (Inl HeaderSubkeyConsumed, r)
      else if length (sk_hkdf r) < SubkeyHeaderSize then (Inl HeaderSubkeyRead, r)
      else (Inr (take SubkeyHeaderSize (sk_hkdf r)),
            r\<lparr>sk_hkdf := drop SubkeyHeaderSize (sk_hkdf r), sk_headerRead := True\<rparr>))"

definition MACSubkey :: "(SubkeyReader, crypto_error, byte list) io" where
  "MACSubkey r =
     (if sk_macRead r then (Inl MACSubkeyConsumed, r)
      else if length (sk_hkdf r) < SubkeyMACSize then (Inl MACSubkeyRead, r)
      else (Inr (take SubkeyMACSize (sk_hkdf r)),
            r\<lparr>sk_hkdf := drop SubkeyMACSize (sk_hkdf r), sk_macRead := True\<rparr>))"

definition SerpentKey :: "(SubkeyReader, crypto_error, byte list) io" where
  "SerpentKey r =
     (if sk_serpentRead r then (Inl SerpentKeyConsumed, r)
      else if \<not> sk_macRead r then (Inl SerpentBeforeMAC, r)
      else if length (sk_hkdf r) < SubkeySerpentSize then (Inl SerpentKeyRead, r)
      else (Inr (take SubkeySerpentSize (sk_hkdf r)),
            r\<lparr>sk_hkdf := drop SubkeySerpentSize (sk_hkdf r), sk_serpentRead := True\<rparr>))"

section \<open>The cipher suite\<close>

text \<open>A key stream with the position of its next byte. The 256 GiB after which ChaCha20 would
  refuse are never reached, as a suite is given a new nonce every 60 GiB.\<close>

record stream =
  st_bytes :: "nat \<Rightarrow> byte"
  st_pos :: nat

definition XORKeyStream :: "byte list \<Rightarrow> stream \<Rightarrow> byte list \<times> stream" where
  "XORKeyStream src s =
     (xor_stream (\<lambda>i. st_bytes s (st_pos s + i)) src, s\<lparr>st_pos := st_pos s + length src\<rparr>)"

record CipherSuite =
  cs_chacha :: stream
  cs_serpent :: stream
  cs_block :: "byte list \<Rightarrow> byte list"
  cs_mac :: "byte list \<Rightarrow> byte list"
  cs_macked :: "byte list"
  cs_hkdf :: "byte list"
  cs_paranoid :: bool
  cs_key :: "byte list"

definition new_chacha :: "prims \<Rightarrow> byte list \<Rightarrow> byte list \<Rightarrow> crypto_error + stream" where
  "new_chacha P key nonce =
     (case prim_chacha P key nonce of
        None \<Rightarrow> Inl ChaChaRefused
      | Some ks \<Rightarrow> Inr \<lparr>st_bytes = ks, st_pos = 0\<rparr>)"

text \<open>\<open>cipher.NewCTR\<close> panics on an IV that is not a block long.\<close>

definition NewCTR :: "(byte list \<Rightarrow> byte list) \<Rightarrow> byte list \<Rightarrow> crypto_error + stream" where
  "NewCTR block iv =
     (if length iv \<noteq> 16 then Inl CTRPanic else Inr \<lparr>st_bytes = ctr_stream block iv, st_pos = 0\<rparr>)"

definition NewCipherSuite ::
  "prims \<Rightarrow> byte list \<Rightarrow> byte list \<Rightarrow> byte list \<Rightarrow> byte list \<Rightarrow> (byte list \<Rightarrow> byte list) \<Rightarrow> byte list \<Rightarrow> bool \<Rightarrow>
   crypto_error + CipherSuite" where
  "NewCipherSuite P key nonce serpentKey serpentIV mac hkdf paranoid =
     ebind (new_chacha P key nonce) (\<lambda>chacha.
       let cs = \<lparr>cs_chacha = chacha, cs_serpent = \<lparr>st_bytes = (\<lambda>_. 0), st_pos = 0\<rparr>, cs_block = id, cs_mac = mac,
                 cs_macked = [], cs_hkdf = hkdf, cs_paranoid = paranoid, cs_key = key\<rparr>
       in if paranoid then
            (case prim_serpent P serpentKey of
               None \<Rightarrow> Inl SerpentRefused
             | Some s \<Rightarrow>
                 ebind (NewCTR s serpentIV) (\<lambda>serpent. Inr (cs\<lparr>cs_block := s, cs_serpent := serpent\<rparr>)))
          else Inr cs)"

text \<open>\<open>Encrypt(dst, src)\<close> and \<open>Decrypt(dst, src)\<close> with distinct buffers of one length: the new
  contents of \<open>dst\<close> and of \<open>src\<close>, which the second cipher overwrites in the paranoid mode.\<close>

definition suite_Encrypt :: "byte list \<Rightarrow> CipherSuite \<Rightarrow> (byte list \<times> byte list) \<times> CipherSuite" where
  "suite_Encrypt src cs =
     (let (src, cs) = (if cs_paranoid cs then
            (case XORKeyStream src (cs_serpent cs) of (dst, s) \<Rightarrow> (dst, cs\<lparr>cs_serpent := s\<rparr>))
          else (src, cs))
      in case XORKeyStream src (cs_chacha cs) of
           (dst, s) \<Rightarrow> ((dst, src), cs\<lparr>cs_chacha := s, cs_macked := cs_macked cs @ dst\<rparr>))"

definition suite_Decrypt :: "byte list \<Rightarrow> CipherSuite \<Rightarrow> (byte list \<times> byte list) \<times> CipherSuite" where
  "suite_Decrypt src cs =
     (let cs = cs\<lparr>cs_macked := cs_macked cs @ src\<rparr>
      in case XORKeyStream src (cs_chacha cs) of
           (dst, s) \<Rightarrow>
             let cs = cs\<lparr>cs_chacha := s\<rparr>
             in if cs_paranoid cs then
                  (case XORKeyStream dst (cs_serpent cs) of
                     (dst', s) \<Rightarrow> ((dst', dst), cs\<lparr>cs_serpent := s\<rparr>))
                else ((dst, src), cs))"

definition suite_Rekey :: "prims \<Rightarrow> (CipherSuite, crypto_error, unit) io" where
  "suite_Rekey P cs =
     (if length (cs_hkdf cs) < RekeyNonceSize then (Inl RekeyNonceRead, cs)
      else
        let nonce = take RekeyNonceSize (cs_hkdf cs);
            cs = cs\<lparr>cs_hkdf := drop RekeyNonceSize (cs_hkdf cs)\<rparr>
        in case new_chacha P (cs_key cs) nonce of
             Inl e \<Rightarrow> (Inl e, cs)
           | Inr chacha \<Rightarrow>
               let cs = cs\<lparr>cs_chacha := chacha\<rparr>
               in if \<not> cs_paranoid cs then (Inr (), cs)
                  else if length (cs_hkdf cs) < RekeyIVSize then (Inl RekeyIVRead, cs)
                  else
                    let serpentIV = take RekeyIVSize (cs_hkdf cs);
                        cs = cs\<lparr>cs_hkdf := drop RekeyIVSize (cs_hkdf cs)\<rparr>
                    in case NewCTR (cs_block cs) serpentIV of
                         Inl e \<Rightarrow> (Inl e, cs)
                       | Inr serpent \<Rightarrow> (Inr (), cs\<lparr>cs_serpent := serpent\<rparr>))"

definition suite_Sum :: "CipherSuite \<Rightarrow> byte list" where
  "suite_Sum cs = cs_mac cs (cs_macked cs)"

definition suite_IsParanoid :: "CipherSuite \<Rightarrow> bool" where
  "suite_IsParanoid cs = cs_paranoid cs"

text \<open>The nonce chain of the deniability layer.\<close>

definition DeniabilityRekey :: "prims \<Rightarrow> byte list \<Rightarrow> byte list \<Rightarrow> crypto_error + stream \<times> byte list" where
  "DeniabilityRekey P key oldNonce =
     (let newNonce = take RekeyNonceSize (prim_sha3_256 P oldNonce)
      in ebind (new_chacha P key newNonce) (\<lambda>cipher. Inr (cipher, newNonce)))"

section \<open>Decryption follows encryption\<close>

lemma XORKeyStream_twice:
  "XORKeyStream src s = (dst, s') \<Longrightarrow> XORKeyStream dst s = (src, s') \<and> length dst = length src"
  by (auto simp: XORKeyStream_def)

lemma Decrypt_Encrypt:
  assumes "suite_Encrypt src cs = ((dst, src'), cs')"
  shows "\<exists>tmp. suite_Decrypt dst cs = ((src, tmp), cs')" "length dst = length src"
proof -
  show "\<exists>tmp. suite_Decrypt dst cs = ((src, tmp), cs')"
  proof (cases "cs_paranoid cs")
    case True
    obtain d1 s1 where 1: "XORKeyStream src (cs_serpent cs) = (d1, s1)" by force
    obtain d2 s2 where 2: "XORKeyStream d1 (cs_chacha cs) = (d2, s2)" by force
    have "cs' = cs\<lparr>cs_serpent := s1, cs_chacha := s2, cs_macked := cs_macked cs @ dst\<rparr>" "dst = d2"
      using assms True 1 2 by (auto simp: suite_Encrypt_def Let_def)
    then show ?thesis
      using True XORKeyStream_twice [OF 1] XORKeyStream_twice [OF 2] by (auto simp: suite_Decrypt_def Let_def)
  next
    case False
    obtain d s where 1: "XORKeyStream src (cs_chacha cs) = (d, s)" by force
    show ?thesis
      using assms False 1 XORKeyStream_twice [OF 1] by (auto simp: suite_Encrypt_def suite_Decrypt_def Let_def)
  qed
  show "length dst = length src"
    using assms by (auto simp: suite_Encrypt_def XORKeyStream_def Let_def split: if_splits)
qed

text \<open>The key streams depend on positions only, so that a stream may be cut in any blocks.\<close>

lemma xor_stream_append:
  "xor_stream ks (xs @ ys) = xor_stream ks xs @ xor_stream (\<lambda>i. ks (length xs + i)) ys"
  by (rule nth_equalityI) (auto simp: nth_xor_stream nth_append)

lemma XORKeyStream_append:
  "XORKeyStream (xs @ ys) s =
     (case XORKeyStream xs s of (a, s1) \<Rightarrow> case XORKeyStream ys s1 of (b, s2) \<Rightarrow> (a @ b, s2))"
  by (simp add: XORKeyStream_def xor_stream_append add.assoc)

lemma Encrypt_append:
  "suite_Encrypt (xs @ ys) cs =
     (case suite_Encrypt xs cs of ((a, x), cs1) \<Rightarrow>
        case suite_Encrypt ys cs1 of ((b, y), cs2) \<Rightarrow> ((a @ b, x @ y), cs2))"
  by (cases "cs_paranoid cs") (simp_all add: suite_Encrypt_def XORKeyStream_def xor_stream_append add.assoc)

section \<open>The order of the subkeys\<close>

lemma v2_subkeys:
  assumes "128 \<le> length stream"
  shows "io_bind HeaderSubkey (\<lambda>h. io_bind MACSubkey (\<lambda>m. io_bind SerpentKey (\<lambda>s. io_ret (h, m, s)))) (NewSubkeyReader stream) =
    (Inr (take 64 stream, slice 64 32 stream, slice 96 32 stream),
     \<lparr>sk_hkdf = drop 128 stream, sk_headerRead = True, sk_macRead = True, sk_serpentRead = True\<rparr>)"
  using assms by (auto simp: io_bind_def HeaderSubkey_def MACSubkey_def SerpentKey_def NewSubkeyReader_def slice_def)

lemma v1_subkeys:
  assumes "64 \<le> length stream"
  shows "io_bind MACSubkey (\<lambda>m. io_bind SerpentKey (\<lambda>s. io_ret (m, s))) (NewSubkeyReader stream) =
    (Inr (take 32 stream, slice 32 32 stream),
     \<lparr>sk_hkdf = drop 64 stream, sk_headerRead = False, sk_macRead = True, sk_serpentRead = True\<rparr>)"
  using assms by (simp add: io_bind_def MACSubkey_def SerpentKey_def NewSubkeyReader_def slice_def)

text \<open>The reader does not enforce that the header subkey comes first: after the MAC subkey it is
  given, from later bytes of the stream.\<close>

lemma header_subkey_after_mac:
  assumes "96 \<le> length stream"
  shows "\<exists>r. io_bind MACSubkey (\<lambda>_. HeaderSubkey) (NewSubkeyReader stream) = (Inr (slice 32 64 stream), r)"
  using assms by (simp add: io_bind_def HeaderSubkey_def MACSubkey_def NewSubkeyReader_def slice_def)

end
