(* ===== verification/Keyfiles.thy ===== *)
theory Keyfiles
  imports Pcv3_Result "HOL-Library.Multiset"
begin

text \<open>
  Keyfiles of the first two formats (\<open>keyfile/processor.go\<close>): the keyfile key from files on disk or
  from readers, in order or not, and its exclusive or with the password key. SHA3-256 is a
  parameter; a hasher is the bytes written to it. Progress reports are not modelled.
\<close>

record keyfile_result =
  kf_Key :: "byte list"
  kf_Hash :: "byte list"

datatype keyfile_error = KfStat cause | KfOpen cause | KfIO "cause list"

text \<open>A reader is the list of its answers, bytes that may come together with an error; after the
  last answer it is at its end.\<close>

type_synonym answers = "(byte list \<times> cause option) list"

text \<open>The bytes are hashed before the error is looked at.\<close>

fun hashOne :: "byte list \<Rightarrow> answers \<Rightarrow> byte list \<times> cause option" where
  "hashOne hasher [] = (hasher, None)"
| "hashOne hasher ((bytes, err) # rest) =
     (let hasher = hasher @ bytes
      in case err of
           Some c \<Rightarrow> if c = EOF then (hasher, None) else (hasher, Some c)
         | None \<Rightarrow> hashOne hasher rest)"

definition xor_into :: "byte list \<Rightarrow> byte list \<Rightarrow> byte list" where
  "xor_into key digest = map (\<lambda>i. if i < length digest then key ! i XOR digest ! i else key ! i) [0..<length key]"

section \<open>Files\<close>

record keyfile =
  kfile_size :: "cause + nat"
  kfile_open :: "cause option"
  kfile_reads :: answers
  kfile_close :: "cause option"

definition stat_all :: "keyfile list \<Rightarrow> keyfile_error + nat" where
  "stat_all files = ebind (emap (\<lambda>f. map_err KfStat (kfile_size f)) files) (\<lambda>sizes. Inr (sum_list sizes))"

text \<open>One file: opened, hashed, closed; the errors of reading and of closing are joined.\<close>

definition hash_file :: "byte list \<Rightarrow> keyfile \<Rightarrow> keyfile_error + byte list" where
  "hash_file hasher f =
     (case kfile_open f of
        Some c \<Rightarrow> Inl (KfOpen c)
      | None \<Rightarrow>
          (case hashOne hasher (kfile_reads f) of
             (hasher, err) \<Rightarrow>
               let errs = (case err of None \<Rightarrow> [] | Some c \<Rightarrow> [c]) @ (case kfile_close f of None \<Rightarrow> [] | Some c \<Rightarrow> [c])
               in if errs \<noteq> [] then Inl (KfIO errs) else Inr hasher))"

fun process_files ::
  "(byte list \<Rightarrow> byte list) \<Rightarrow> bool \<Rightarrow> byte list \<Rightarrow> byte list \<Rightarrow> keyfile list \<Rightarrow> keyfile_error + byte list" where
  "process_files sha3 ordered key hasher [] = Inr (if ordered then sha3 hasher else key)"
| "process_files sha3 ordered key hasher (f # fs) =
     (let hasher = (if \<not> ordered then [] else hasher)
      in ebind (hash_file hasher f) (\<lambda>hasher.
           process_files sha3 ordered (if \<not> ordered then xor_into key (sha3 hasher) else key) hasher fs))"

definition no_keyfiles :: keyfile_result where
  "no_keyfiles = \<lparr>kf_Key = replicate 32 0, kf_Hash = replicate 32 0\<rparr>"

definition Process :: "(byte list \<Rightarrow> byte list) \<Rightarrow> keyfile list \<Rightarrow> bool \<Rightarrow> keyfile_error + keyfile_result" where
  "Process sha3 files ordered =
     (if files = [] then Inr no_keyfiles
      else ebind (stat_all files) (\<lambda>_.
           ebind (process_files sha3 ordered (replicate 32 0) [] files) (\<lambda>key.
           Inr \<lparr>kf_Key = key, kf_Hash = sha3 key\<rparr>)))"

section \<open>Readers\<close>

definition hash_reader :: "byte list \<Rightarrow> answers \<Rightarrow> keyfile_error + byte list" where
  "hash_reader hasher r =
     (case hashOne hasher r of (hasher, None) \<Rightarrow> Inr hasher | (_, Some c) \<Rightarrow> Inl (KfIO [c]))"

fun hashOrdered :: "(byte list \<Rightarrow> byte list) \<Rightarrow> byte list \<Rightarrow> answers list \<Rightarrow> keyfile_error + byte list" where
  "hashOrdered sha3 hasher [] = Inr (sha3 hasher)"
| "hashOrdered sha3 hasher (r # rs) = ebind (hash_reader hasher r) (\<lambda>hasher. hashOrdered sha3 hasher rs)"

fun hashUnordered :: "(byte list \<Rightarrow> byte list) \<Rightarrow> byte list option \<Rightarrow> answers list \<Rightarrow> keyfile_error + byte list option" where
  "hashUnordered sha3 combined [] = Inr combined"
| "hashUnordered sha3 combined (r # rs) =
     ebind (hash_reader [] r) (\<lambda>hasher.
       let fileHash = sha3 hasher
       in hashUnordered sha3
            (case combined of None \<Rightarrow> Some fileHash | Some c \<Rightarrow> Some (xor_into c fileHash)) rs)"

text \<open>A nil combination only comes from no reader; it is hashed as the empty string.\<close>

definition ProcessReaders :: "(byte list \<Rightarrow> byte list) \<Rightarrow> answers list \<Rightarrow> bool \<Rightarrow> keyfile_error + keyfile_result" where
  "ProcessReaders sha3 readers ordered =
     (if readers = [] then Inr no_keyfiles
      else ebind (if ordered then hashOrdered sha3 [] readers
                  else ebind (hashUnordered sha3 None readers)
                         (\<lambda>c. Inr (case c of None \<Rightarrow> [] | Some k \<Rightarrow> k)))
             (\<lambda>key. Inr \<lparr>kf_Key = key, kf_Hash = sha3 key\<rparr>))"

section \<open>The key\<close>

definition IsDuplicateKeyfileKey :: "byte list \<Rightarrow> bool" where
  "IsDuplicateKeyfileKey key \<longleftrightarrow> length key = 32 \<and> list_all (\<lambda>b. b = 0) key"

text \<open>\<open>None\<close> is the panic on a wrong size.\<close>

definition XORWithKey :: "byte list \<Rightarrow> byte list \<Rightarrow> byte list option" where
  "XORWithKey passwordKey keyfileKey =
     (if length passwordKey \<noteq> 32 \<or> length keyfileKey \<noteq> 32 then None
      else Some (map (\<lambda>i. passwordKey ! i XOR keyfileKey ! i) [0..<32]))"

section \<open>What the key is\<close>

text \<open>The bytes a reader delivers, when it ends without an error.\<close>

fun content :: "answers \<Rightarrow> byte list option" where
  "content [] = Some []"
| "content ((bytes, err) # rest) =
     (case err of
        Some c \<Rightarrow> if c = EOF then Some bytes else None
      | None \<Rightarrow> map_option (\<lambda>more. bytes @ more) (content rest))"

text \<open>The two definitions of the key over whole contents.\<close>

definition combine :: "(byte list \<Rightarrow> byte list) \<Rightarrow> bool \<Rightarrow> byte list list \<Rightarrow> byte list" where
  "combine sha3 ordered cs =
     (if ordered then sha3 (concat cs) else fold (\<lambda>c k. xor_into k (sha3 c)) cs (replicate 32 0))"

lemma hashOne_content:
  "case content r of
     Some c \<Rightarrow> hashOne hasher r = (hasher @ c, None)
   | None \<Rightarrow> \<exists>h c. hashOne hasher r = (h, Some c)"
  by (induction r arbitrary: hasher rule: content.induct) (auto simp: Let_def split: option.splits)

lemma hash_reader_content: "hash_reader hasher r = Inr h \<longleftrightarrow> (\<exists>c. content r = Some c \<and> h = hasher @ c)"
  using hashOne_content [where r = r and hasher = hasher] by (auto simp: hash_reader_def split: option.splits)

definition readable :: "keyfile \<Rightarrow> byte list \<Rightarrow> bool" where
  "readable f c \<longleftrightarrow> kfile_open f = None \<and> kfile_close f = None \<and> content (kfile_reads f) = Some c"

lemma hash_file_content: "hash_file hasher f = Inr h \<longleftrightarrow> (\<exists>c. readable f c \<and> h = hasher @ c)"
  using hashOne_content [where r = "kfile_reads f" and hasher = hasher]
  by (auto simp: hash_file_def readable_def Let_def split: option.splits)

lemma ex_all2_Cons:
  "(\<exists>cs. list_all2 R (x # xs) cs \<and> P cs) \<longleftrightarrow> (\<exists>c. R x c \<and> (\<exists>cs. list_all2 R xs cs \<and> P (c # cs)))"
  by (auto simp: list_all2_Cons1)

lemma process_files_content:
  "process_files sha3 ordered key hasher fs = Inr k \<longleftrightarrow>
     (\<exists>cs. list_all2 readable fs cs \<and>
        k = (if ordered then sha3 (hasher @ concat cs) else fold (\<lambda>c k. xor_into k (sha3 c)) cs key))"
proof (induction fs arbitrary: ordered key hasher)
  case (Cons f fs)
  show ?case
    unfolding ex_all2_Cons
  proof (cases ordered)
    case True
    have "process_files sha3 True key hasher (f # fs) = Inr k \<longleftrightarrow>
        (\<exists>c. readable f c \<and> process_files sha3 True key (hasher @ c) fs = Inr k)"
      by (auto simp: ebind_eq_Inr hash_file_content)
    then show "process_files sha3 ordered key hasher (f # fs) = Inr k \<longleftrightarrow> (\<exists>c. readable f c \<and>
        (\<exists>cs. list_all2 readable fs cs \<and>
           k = (if ordered then sha3 (hasher @ concat (c # cs)) else fold (\<lambda>c k. xor_into k (sha3 c)) (c # cs) key)))"
      using True by (simp add: Cons.IH)
  next
    case False
    then show "process_files sha3 ordered key hasher (f # fs) = Inr k \<longleftrightarrow> (\<exists>c. readable f c \<and>
        (\<exists>cs. list_all2 readable fs cs \<and>
           k = (if ordered then sha3 (hasher @ concat (c # cs)) else fold (\<lambda>c k. xor_into k (sha3 c)) (c # cs) key)))"
      by (auto simp: ebind_eq_Inr hash_file_content Cons.IH)
  qed
qed auto

lemma hashOrdered_content:
  "hashOrdered sha3 hasher rs = Inr k \<longleftrightarrow>
     (\<exists>cs. list_all2 (\<lambda>r c. content r = Some c) rs cs \<and> k = sha3 (hasher @ concat cs))"
proof (induction rs arbitrary: hasher)
  case (Cons r rs)
  show ?case unfolding ex_all2_Cons by (auto simp: ebind_eq_Inr hash_reader_content Cons.IH)
qed auto

lemma hashUnordered_content:
  "hashUnordered sha3 (Some key) rs = Inr k \<longleftrightarrow>
     (\<exists>cs. list_all2 (\<lambda>r c. content r = Some c) rs cs \<and> k = Some (fold (\<lambda>c k. xor_into k (sha3 c)) cs key))"
proof (induction rs arbitrary: key)
  case (Cons r rs)
  show ?case unfolding ex_all2_Cons by (auto simp: ebind_eq_Inr hash_reader_content Cons.IH Let_def)
qed auto

lemma length_xor_into [simp]: "length (xor_into k d) = length k"
  by (simp add: xor_into_def)

lemma xor_into_zero: "length d = 32 \<Longrightarrow> xor_into (replicate 32 0) d = d"
  by (rule nth_equalityI) (simp_all add: xor_into_def)

lemma xor_into_commute: "xor_into (xor_into k a) b = xor_into (xor_into k b) a"
  by (rule nth_equalityI) (auto simp: xor_into_def xor.assoc xor.commute xor.left_commute)

lemma xor_into_twice: "xor_into (xor_into k a) a = k"
  by (rule nth_equalityI) (auto simp: xor_into_def xor.assoc)

lemma combine_permuted:
  assumes "mset cs = mset cs'"
  shows "combine sha3 False cs = combine sha3 False cs'"
proof -
  have "fold (\<lambda>c k. xor_into k (sha3 c)) cs = fold (\<lambda>c k. xor_into k (sha3 c)) cs'"
    by (rule fold_multiset_equiv [OF _ assms]) (simp add: fun_eq_iff xor_into_commute)
  then show ?thesis by (simp add: combine_def)
qed

section \<open>Properties\<close>

lemma Process_content:
  assumes "files \<noteq> []"
  shows "Process sha3 files ordered = Inr res \<longleftrightarrow>
    (\<forall>f \<in> set files. \<exists>n. kfile_size f = Inr n) \<and>
    (\<exists>cs. list_all2 readable files cs \<and>
       res = \<lparr>kf_Key = combine sha3 ordered cs, kf_Hash = sha3 (combine sha3 ordered cs)\<rparr>)"
proof -
  have "(\<exists>n. stat_all fs = Inr n) \<longleftrightarrow> (\<forall>f \<in> set fs. \<exists>n. kfile_size f = Inr n)" for fs
    unfolding stat_all_def by (induction fs) (auto simp: ebind_eq_Inr)
  then show ?thesis
    using assms by (auto simp: Process_def ebind_eq_Inr process_files_content combine_def)
qed

text \<open>C39: the keyfile key of files on disk and of readers is the same function of their contents: in
  order, the hash of the concatenation; unordered, the exclusive or of the hashes, with the hash of
  the key beside it. If \<open>Process\<close> succeeds on files, every file was readable to its end, and
  \<open>ProcessReaders\<close> on the same data returns the same result, however the data are cut into reads.\<close>

theorem keyfile_key_of_contents:
  assumes sha3: "\<And>m. length (sha3 m) = 32" and "files \<noteq> []" and run: "Process sha3 files ordered = Inr res"
  shows "\<exists>cs. list_all2 readable files cs \<and>
    res = \<lparr>kf_Key = combine sha3 ordered cs, kf_Hash = sha3 (combine sha3 ordered cs)\<rparr> \<and>
    (\<forall>readers. map content readers = map Some cs \<longrightarrow> ProcessReaders sha3 readers ordered = Inr res)"
proof -
  obtain cs where cs: "list_all2 readable files cs"
    "res = \<lparr>kf_Key = combine sha3 ordered cs, kf_Hash = sha3 (combine sha3 ordered cs)\<rparr>"
    using run Process_content [OF assms(2)] by blast
  have "ProcessReaders sha3 readers ordered = Inr res" if r: "map content readers = map Some cs" for readers
  proof -
    have l: "list_all2 (\<lambda>r c. content r = Some c) readers cs"
      using r by (simp add: list_all2_conv_all_nth list_eq_iff_nth_eq)
    have "length readers = length files" using list_all2_lengthD [OF l] list_all2_lengthD [OF cs(1)] by simp
    then have ne: "readers \<noteq> []" using assms(2) by auto
    show ?thesis
    proof (cases ordered)
      case True
      have "hashOrdered sha3 [] readers = Inr (sha3 (concat cs))" using l by (auto simp: hashOrdered_content)
      then show ?thesis using True ne cs(2) by (simp add: ProcessReaders_def combine_def)
    next
      case False
      obtain q qs where q: "readers = q # qs" using ne by (cases readers) auto
      obtain c ds where c: "cs = c # ds" "content q = Some c" "list_all2 (\<lambda>r c. content r = Some c) qs ds"
        using l q by (auto simp: list_all2_Cons1)
      have "hash_reader [] q = Inr c" using c(2) by (simp add: hash_reader_content)
      moreover have "hashUnordered sha3 (Some (sha3 c)) qs = Inr (Some (fold (\<lambda>c k. xor_into k (sha3 c)) ds (sha3 c)))"
        using c(3) by (auto simp: hashUnordered_content)
      moreover have "xor_into (replicate 32 0) (sha3 c) = sha3 c" using sha3 by (simp add: xor_into_zero)
      ultimately show ?thesis using False ne cs(2) c(1) q by (simp add: ProcessReaders_def combine_def)
    qed
  qed
  then show ?thesis using cs by blast
qed

text \<open>Without order the keyfiles are a multiset. Any permutation of them gives the same result, or
  fails as well; and a file given twice cancels: with it the key of the others is not changed, and a
  pair of equal files alone gives the zero key that \<open>IsDuplicateKeyfileKey\<close> detects.\<close>

theorem unordered_keyfiles_are_multiset:
  "(mset files = mset files' \<longrightarrow>
      Process sha3 files False = Process sha3 files' False \<or>
      (\<exists>e e'. Process sha3 files False = Inl e \<and> Process sha3 files' False = Inl e')) \<and>
   (\<forall>f res. Process sha3 (f # f # files) False = Inr res \<longrightarrow>
      (if files = [] then IsDuplicateKeyfileKey (kf_Key res) else Process sha3 files False = Inr res))"
proof (intro conjI impI allI)
  assume m: "mset files = mset files'"
  have one: "Process sha3 gs False = Inr res" if r: "Process sha3 fs False = Inr res" and fg: "mset fs = mset gs" for fs gs res
  proof (cases "fs = []")
    case True
    then show ?thesis using r fg by simp
  next
    case False
    then have ne: "gs \<noteq> []" using fg by auto
    obtain cs where cs: "\<forall>f \<in> set fs. \<exists>n. kfile_size f = Inr n" "list_all2 readable fs cs"
      "res = \<lparr>kf_Key = combine sha3 False cs, kf_Hash = sha3 (combine sha3 False cs)\<rparr>"
      using r Process_content [OF False] by blast
    obtain ds where ds: "list_all2 readable gs ds" "mset ds = mset cs"
      using list_all2_reorder_left_invariance [OF cs(2), of gs] fg by auto
    have "set gs = set fs" using fg by (metis set_mset_mset)
    then show ?thesis
      using cs(1,3) ds combine_permuted [OF ds(2), of sha3] Process_content [OF ne, of sha3 False res] by auto
  qed
  show "Process sha3 files False = Process sha3 files' False \<or>
      (\<exists>e e'. Process sha3 files False = Inl e \<and> Process sha3 files' False = Inl e')"
    using one [of files _ files'] one [of files' _ files] m
    by (cases "Process sha3 files False"; cases "Process sha3 files' False") auto
next
  fix f res assume r: "Process sha3 (f # f # files) False = Inr res"
  then obtain c ds where c: "\<forall>g \<in> set files. \<exists>n. kfile_size g = Inr n" "list_all2 readable files ds"
    "res = \<lparr>kf_Key = combine sha3 False (c # c # ds), kf_Hash = sha3 (combine sha3 False (c # c # ds))\<rparr>"
    unfolding Process_content [OF list.simps(3)]
    by (auto simp: list_all2_Cons1 readable_def)
  have k: "combine sha3 False (c # c # ds) = combine sha3 False ds" by (simp add: combine_def xor_into_twice)
  show "if files = [] then IsDuplicateKeyfileKey (kf_Key res) else Process sha3 files False = Inr res"
  proof (cases "files = []")
    case True
    then have "ds = []" using c(2) by simp
    then show ?thesis using True c(3) k by (simp add: combine_def IsDuplicateKeyfileKey_def list_all_iff)
  next
    case False
    then show ?thesis using c k by (auto simp: Process_content)
  qed
qed

lemma XORWithKey_twice: "XORWithKey a k = Some b \<Longrightarrow> XORWithKey b k = Some a"
  by (auto simp: XORWithKey_def xor.assoc split: if_splits intro!: nth_equalityI)

section \<open>Two keyfiles\<close>

definition toy_sha3 :: "byte list \<Rightarrow> byte list" where
  "toy_sha3 m = replicate 32 (sum_list m)"

definition toy_keyfile :: "byte \<Rightarrow> keyfile" where
  "toy_keyfile b = \<lparr>kfile_size = Inr 2, kfile_open = None, kfile_reads = [([b], None), ([b], Some EOF)], kfile_close = None\<rparr>"

lemma toy_readable: "readable (toy_keyfile b) [b, b]"
  by (simp add: readable_def toy_keyfile_def)

theorem keyfile_key_of_contents_witness:
  "\<exists>res. Process toy_sha3 [toy_keyfile 1, toy_keyfile 2] True = Inr res \<and>
     ProcessReaders toy_sha3 [[([1, 1], Some EOF)], [([2, 2], None)]] True = Inr res"
proof -
  have "\<exists>res. Process toy_sha3 [toy_keyfile 1, toy_keyfile 2] True = Inr res"
    using toy_readable by (subst Process_content) (auto simp: toy_keyfile_def)
  then obtain res where run: "Process toy_sha3 [toy_keyfile 1, toy_keyfile 2] True = Inr res" by blast
  have "length (toy_sha3 m) = 32" for m by (simp add: toy_sha3_def)
  from keyfile_key_of_contents [OF this _ run]
  obtain cs where cs: "list_all2 readable [toy_keyfile 1, toy_keyfile 2] cs"
    "\<forall>readers. map content readers = map Some cs \<longrightarrow> ProcessReaders toy_sha3 readers True = Inr res"
    by auto
  then have "cs = [[1, 1], [2, 2]]"
    by (auto simp: list_all2_Cons1 readable_def toy_keyfile_def)
  then show ?thesis using run cs(2) by auto
qed

theorem unordered_keyfiles_are_multiset_witness:
  "Process toy_sha3 [toy_keyfile 1, toy_keyfile 2] False = Process toy_sha3 [toy_keyfile 2, toy_keyfile 1] False \<and>
   (\<exists>res. Process toy_sha3 [toy_keyfile 1, toy_keyfile 1] False = Inr res \<and> IsDuplicateKeyfileKey (kf_Key res))"
proof -
  have "\<exists>res. Process toy_sha3 [toy_keyfile a, toy_keyfile b] False = Inr res" for a b
    using toy_readable by (subst Process_content) (auto simp: toy_keyfile_def)
  then obtain r r' where r: "Process toy_sha3 [toy_keyfile 1, toy_keyfile 2] False = Inr r"
    "Process toy_sha3 [toy_keyfile 1, toy_keyfile 1] False = Inr r'" by blast
  have "mset [toy_keyfile 1, toy_keyfile 2] = mset [toy_keyfile 2, toy_keyfile 1]" by (simp add: add_mset_commute)
  then have "Process toy_sha3 [toy_keyfile 1, toy_keyfile 2] False = Process toy_sha3 [toy_keyfile 2, toy_keyfile 1] False"
    using unordered_keyfiles_are_multiset [of "[toy_keyfile 1, toy_keyfile 2]" "[toy_keyfile 2, toy_keyfile 1]" toy_sha3] r(1)
    by force
  moreover have "IsDuplicateKeyfileKey (kf_Key r')"
    using unordered_keyfiles_are_multiset [of "[]" "[]" toy_sha3] r(2) by force
  ultimately show ?thesis using r(2) by blast
qed

end
