(* ===== verification/Legacy_Volume.thy ===== *)
theory Legacy_Volume
  imports Legacy_Header Legacy_Crypto Keyfiles
begin

text \<open>
  Encrypting and decrypting volumes of the first two formats (\<open>volume/encrypt.go\<close>,
  \<open>volume/decrypt.go\<close>, \<open>password/normalize.go\<close>): the phases from the random values to the
  authentication values written into the header, and from the header to the comparison of the
  payload MAC, with the retry that repairs Reed-Solomon damage. The selection and compression of
  inputs, splitting, staging and publication of the output, and automatic unzipping are not
  modelled, the deniability wrapper is in \<open>Deniability\<close>; the input is a file whose bytes do not
  change between passes, the output a writer, cancellation a sequence of answers. Status texts and
  progress are left out.
\<close>

section \<open>Libraries\<close>

text \<open>\<open>lib_hkdf key salt\<close> is all that HKDF-SHA3-256 can give; \<open>lib_nfc\<close>, \<open>lib_nfd\<close> are the linked
  normalization forms, \<open>lib_nfc15\<close>, \<open>lib_nfd15\<close> those of the vendored Unicode 15 tables.
  \<open>lib_RekeyThreshold\<close> is 60 GiB in production.\<close>

record libs =
  lib_prims :: prims
  lib_IDKey :: id_key
  lib_hkdf :: "byte list \<Rightarrow> byte list \<Rightarrow> byte list"
  lib_sha3_512 :: "byte list \<Rightarrow> byte list"
  lib_codecs :: RSCodecs
  lib_nfc :: "byte list \<Rightarrow> byte list"
  lib_nfd :: "byte list \<Rightarrow> byte list"
  lib_nfc15 :: "byte list \<Rightarrow> byte list"
  lib_nfd15 :: "byte list \<Rightarrow> byte list"
  lib_RekeyThreshold :: nat

abbreviation (input) MiB :: nat where "MiB \<equiv> 1048576"

section \<open>Password forms\<close>

definition Normalize :: "libs \<Rightarrow> byte list \<Rightarrow> byte list" where
  "Normalize L pw = lib_nfc L pw"

definition EncodeForKDF :: "libs \<Rightarrow> byte list \<Rightarrow> byte list" where
  "EncodeForKDF L pw = Normalize L pw"

definition ContainsNonASCII :: "byte list \<Rightarrow> bool" where
  "ContainsNonASCII pw \<longleftrightarrow> list_ex (\<lambda>b. b \<ge> 128) pw"

definition Candidates :: "libs \<Rightarrow> byte list \<Rightarrow> byte list list" where
  "Candidates L pw =
     (if \<not> ContainsNonASCII pw then [pw]
      else foldl (\<lambda>candidates f. if f \<in> set candidates then candidates else candidates @ [f]) []
             [lib_nfc L pw, lib_nfd L pw, pw, lib_nfc15 L pw, lib_nfd15 L pw])"

section \<open>Requests, context, errors\<close>

datatype volume_error =
  VCancelled | VRandom crypto_error | VStat cause | VWriteHeader write_error | VReadHeader header_error
  | VHeaderDamaged | VCrypto crypto_error | VKeyfiles keyfile_error | VKeyfilesMissing | ErrDuplicateKeyfiles
  | VXORPanic | VAuth AuthError | VReadInput cause | VWriteOutput cause | VShortWrite | VEncode rs_error
  | VCorruptData | VAuthFailed | VWriteAuth write_error | VNilPanic
  | KeyfileWritesDisabled | DeniabilityPasswordRequired | EncryptionPasswordRequired | ErrCommentTooLong

record encrypt_request =
  er_Password :: "byte list"
  er_Keyfiles :: "keyfile list"
  er_KeyfileOrdered :: bool
  er_Comments :: "byte list"
  er_Paranoid :: bool
  er_ReedSolomon :: bool
  er_Deniability :: bool

record decrypt_request =
  dr_Password :: "byte list"
  dr_Keyfiles :: "keyfile list"
  dr_ForceDecrypt :: bool
  dr_VerifyFirst :: bool

text \<open>The operation context, with the outside of the operation: what cancellation polls answer, the
  input, the output and the answers of the output to writes at an offset.\<close>

record op_context =
  oc_Header :: VolumeHeader
  oc_Key :: "byte list"
  oc_KeyfileKey :: "byte list option"
  oc_KeyfileHash :: "byte list"
  oc_passwordBytes :: "byte list"
  oc_SubkeyReader :: SubkeyReader
  oc_CipherSuite :: "CipherSuite option"
  oc_IsLegacyV1 :: bool
  oc_UseKeyfiles :: bool
  oc_Padded :: bool
  oc_TriedFullRSDecode :: bool
  oc_Kept :: bool
  oc_Total :: int
  oc_cancel :: "nat \<Rightarrow> bool"
  oc_polls :: nat
  oc_input :: "byte list"
  oc_input_end :: cause
  oc_output :: writer
  oc_write_at :: "nat \<Rightarrow> byte list \<Rightarrow> nat \<times> cause option"

type_synonym 'a op = "(op_context, volume_error, 'a) io"

definition poll_cancelled :: "unit op" where
  "poll_cancelled ctx =
     (if oc_cancel ctx (oc_polls ctx) then (Inl VCancelled, ctx\<lparr>oc_polls := oc_polls ctx + 1\<rparr>)
      else (Inr (), ctx\<lparr>oc_polls := oc_polls ctx + 1\<rparr>))"

definition op_get :: "(op_context \<Rightarrow> 'a) \<Rightarrow> 'a op" where
  "op_get f ctx = (Inr (f ctx), ctx)"

definition op_set :: "(op_context \<Rightarrow> op_context) \<Rightarrow> unit op" where
  "op_set f ctx = (Inr (), f ctx)"

text \<open>A subkey taken from the reader of the context.\<close>

definition op_subkey :: "(SubkeyReader, crypto_error, byte list) io \<Rightarrow> byte list op" where
  "op_subkey m ctx =
     (case m (oc_SubkeyReader ctx) of (r, reader) \<Rightarrow> (map_err VCrypto r, ctx\<lparr>oc_SubkeyReader := reader\<rparr>))"

section \<open>Encryption\<close>

text \<open>The part of \<open>Validate\<close> that concerns the second format; paths and splitting are left out.\<close>

definition Validate_legacy :: "encrypt_request \<Rightarrow> volume_error + unit" where
  "Validate_legacy req =
     (if er_Keyfiles req \<noteq> [] then Inl KeyfileWritesDisabled
      else if er_Deniability req \<and> er_Password req = [] then Inl DeniabilityPasswordRequired
      else if er_Password req = [] then Inl EncryptionPasswordRequired
      else if length (er_Comments req) > MaxCommentLen then Inl ErrCommentTooLong
      else Inr ())"

definition encryptGenerateValues ::
  "(nat \<Rightarrow> nat \<Rightarrow> cause + byte list) \<Rightarrow> cause + nat \<Rightarrow> encrypt_request \<Rightarrow> unit op" where
  "encryptGenerateValues rand stat req =
     io_bind (io_lift (map_err VRandom (RandomBytes (rand 0) 16))) (\<lambda>salt.
     io_bind (io_lift (map_err VRandom (RandomBytes (rand 1) 32))) (\<lambda>hkdfSalt.
     io_bind (io_lift (map_err VRandom (RandomBytes (rand 2) 16))) (\<lambda>serpentIV.
     io_bind (io_lift (map_err VRandom (RandomBytes (rand 3) 24))) (\<lambda>nonce.
     io_bind (io_lift (map_err VStat stat)) (\<lambda>size.
       let padded = (size mod MiB \<ge> MiB - 128) in
       op_set (\<lambda>ctx. ctx\<lparr>oc_Total := int size, oc_Padded := padded,
         oc_Header := (NewVolumeHeader salt hkdfSalt serpentIV nonce)
           \<lparr>vh_Comments := er_Comments req,
            vh_Flags := \<lparr>flag_Paranoid = er_Paranoid req, flag_UseKeyfiles = er_Keyfiles req \<noteq> [],
              flag_KeyfileOrdered = er_KeyfileOrdered req, flag_ReedSolomon = er_ReedSolomon req,
              flag_Padded = padded\<rparr>\<rparr>\<rparr>))))))"

definition encryptWriteHeader :: "libs \<Rightarrow> unit op" where
  "encryptWriteHeader L ctx =
     (case WriteHeader (lib_codecs L) (oc_Header ctx) (oc_output ctx) of
        (r, out) \<Rightarrow> (map_err VWriteHeader r, ctx\<lparr>oc_output := out\<rparr>))"

definition encryptDeriveKeys :: "libs \<Rightarrow> encrypt_request \<Rightarrow> unit op" where
  "encryptDeriveKeys L req =
     io_bind (op_get oc_Header) (\<lambda>h.
     io_bind (io_lift (map_err VCrypto
       (DeriveKey (lib_IDKey L) (EncodeForKDF L (er_Password req)) (vh_Salt h) (er_Paranoid req)))) (\<lambda>key.
     op_set (\<lambda>ctx. ctx\<lparr>oc_Key := key\<rparr>)))"

definition encryptProcessKeyfiles :: "libs \<Rightarrow> encrypt_request \<Rightarrow> unit op" where
  "encryptProcessKeyfiles L req =
     (if er_Keyfiles req = [] then op_set (\<lambda>ctx. ctx\<lparr>oc_KeyfileHash := replicate 32 0\<rparr>)
      else
        io_bind (op_set (\<lambda>ctx. ctx\<lparr>oc_UseKeyfiles := True\<rparr>)) (\<lambda>_.
        io_bind (io_lift (map_err VKeyfiles
          (Process (prim_sha3_256 (lib_prims L)) (er_Keyfiles req) (er_KeyfileOrdered req)))) (\<lambda>result.
        op_set (\<lambda>ctx. ctx\<lparr>oc_KeyfileKey := Some (kf_Key result), oc_KeyfileHash := kf_Hash result\<rparr>))))"

definition encryptComputeAuth :: "libs \<Rightarrow> unit op" where
  "encryptComputeAuth L =
     io_bind (op_set (\<lambda>ctx. ctx\<lparr>oc_SubkeyReader :=
       NewSubkeyReader (lib_hkdf L (oc_Key ctx) (vh_HKDFSalt (oc_Header ctx)))\<rparr>)) (\<lambda>_.
     io_bind (op_subkey HeaderSubkey) (\<lambda>subkeyHeader.
     op_set (\<lambda>ctx. ctx\<lparr>oc_Header := (oc_Header ctx)
       \<lparr>vh_KeyHash := ComputeV2HeaderMAC (prim_hmac_sha3 (lib_prims L)) subkeyHeader (oc_Header ctx) (oc_KeyfileHash ctx),
        vh_KeyfileHash := oc_KeyfileHash ctx\<rparr>\<rparr>)))"

text \<open>The exclusive or with the keyfile key; the second format refuses one that cancels out.\<close>

definition xor_keyfile_key :: "bool \<Rightarrow> unit op" where
  "xor_keyfile_key refuseDuplicate ctx =
     (case oc_KeyfileKey ctx of
        None \<Rightarrow> (Inr (), ctx)
      | Some k \<Rightarrow>
          if \<not> oc_UseKeyfiles ctx then (Inr (), ctx)
          else if refuseDuplicate \<and> IsDuplicateKeyfileKey k then (Inl ErrDuplicateKeyfiles, ctx)
          else (case XORWithKey (oc_Key ctx) k of
                  None \<Rightarrow> (Inl VXORPanic, ctx)
                | Some key \<Rightarrow> (Inr (), ctx\<lparr>oc_Key := key\<rparr>)))"

text \<open>The remaining subkeys and the MAC; the serpent key comes with it.\<close>

definition payload_mac :: "libs \<Rightarrow> bool \<Rightarrow> ((byte list \<Rightarrow> byte list) \<times> byte list) op" where
  "payload_mac L paranoid =
     io_bind (op_subkey MACSubkey) (\<lambda>macSubkey.
     io_bind (op_subkey SerpentKey) (\<lambda>serpentKey.
     io_bind (io_lift (from_opt (VCrypto MACRefused) (NewMAC (lib_prims L) macSubkey paranoid))) (\<lambda>mac.
     io_ret (mac, serpentKey))))"

definition payload_suite :: "libs \<Rightarrow> bool \<Rightarrow> CipherSuite op" where
  "payload_suite L paranoid =
     io_bind (payload_mac L paranoid) (\<lambda>(mac, serpentKey).
     io_bind (op_get id) (\<lambda>ctx.
     io_lift (map_err VCrypto
       (NewCipherSuite (lib_prims L) (oc_Key ctx) (vh_Nonce (oc_Header ctx)) serpentKey (vh_SerpentIV (oc_Header ctx))
          mac (sk_hkdf (oc_SubkeyReader ctx)) paranoid))))"

text \<open>A write to the output; the decrypting loop also tests its count.\<close>

definition output_write :: "bool \<Rightarrow> byte list \<Rightarrow> unit op" where
  "output_write checkCount p ctx =
     (let out = oc_output ctx in
      case wr_answer out (wr_calls out) p of
        (n, err) \<Rightarrow>
          let ctx = ctx\<lparr>oc_output := out\<lparr>wr_bytes := wr_bytes out @ take n p, wr_calls := wr_calls out + 1,
                                          wr_total := wr_total out + n\<rparr>\<rparr>
          in (case err of
                Some c \<Rightarrow> (Inl (VWriteOutput c), ctx)
              | None \<Rightarrow> if checkCount \<and> n \<noteq> length p then (Inl VShortWrite, ctx) else (Inr (), ctx)))"

text \<open>The rekeying after a block.\<close>

definition maybe_rekey :: "libs \<Rightarrow> nat \<Rightarrow> CipherSuite \<Rightarrow> volume_error + (CipherSuite \<times> nat)" where
  "maybe_rekey L counter cs =
     (if counter \<ge> lib_RekeyThreshold L
      then (case suite_Rekey (lib_prims L) cs of
              (Inl e, _) \<Rightarrow> Inl (VCrypto e)
            | (Inr _, cs) \<Rightarrow> Inr (cs, 0))
      else Inr (cs, counter))"

text \<open>One block of the encrypting loop: the new suite and counter.\<close>

definition encrypt_block :: "libs \<Rightarrow> bool \<Rightarrow> byte list \<Rightarrow> CipherSuite \<Rightarrow> nat \<Rightarrow> (CipherSuite \<times> nat) op" where
  "encrypt_block L reedsolo src cs counter =
     (case suite_Encrypt src cs of
        ((dst, _), cs) \<Rightarrow>
          io_bind (io_lift (if reedsolo then map_err VEncode (EncodeRSPayloadBlock dst (lib_codecs L)) else Inr dst))
            (\<lambda>writeData.
          io_bind (output_write False writeData) (\<lambda>_.
          io_lift (maybe_rekey L (counter + MiB) cs))))"

text \<open>The loops over the input recurse on what is left of it.\<close>

function encrypt_loop :: "libs \<Rightarrow> bool \<Rightarrow> byte list \<Rightarrow> cause \<Rightarrow> CipherSuite \<Rightarrow> nat \<Rightarrow> CipherSuite op" where
  "encrypt_loop L reedsolo rest end' cs counter =
     io_bind poll_cancelled (\<lambda>_.
       case ReadFull MiB rest end' of
         ((src, err), rest') \<Rightarrow>
           io_bind (if src \<noteq> [] then encrypt_block L reedsolo src cs counter else io_ret (cs, counter))
             (\<lambda>(cs, counter).
               case err of
                 None \<Rightarrow> encrypt_loop L reedsolo rest' end' cs counter
               | Some c \<Rightarrow> if c = EOF \<or> c = UnexpectedEOF then io_ret cs else io_fail (VReadInput c)))"
  by pat_completeness auto
termination
  by (relation "measure (\<lambda>(L, reedsolo, rest, end', cs, counter). length rest)")
    (auto simp: ReadFull_def split: if_splits)

declare encrypt_loop.simps [simp del]

definition encryptPayload :: "libs \<Rightarrow> encrypt_request \<Rightarrow> unit op" where
  "encryptPayload L req =
     io_bind (xor_keyfile_key True) (\<lambda>_.
     io_bind (payload_suite L (er_Paranoid req)) (\<lambda>cs.
     io_bind (op_get id) (\<lambda>ctx.
     io_bind (encrypt_loop L (er_ReedSolomon req) (oc_input ctx) (oc_input_end ctx) cs 0) (\<lambda>cs.
     op_set (\<lambda>ctx. ctx\<lparr>oc_CipherSuite := Some cs\<rparr>)))))"

text \<open>The authentication values, up to the publication of the output.\<close>

definition encryptFinalize :: "libs \<Rightarrow> unit op" where
  "encryptFinalize L ctx =
     (case oc_CipherSuite ctx of
        None \<Rightarrow> (Inl VNilPanic, ctx)
      | Some cs \<Rightarrow>
          (case WriteAuthValues (AuthValuesOffset (length (vh_Comments (oc_Header ctx)))) (vh_KeyHash (oc_Header ctx))
                  (vh_KeyfileHash (oc_Header ctx)) (suite_Sum cs) (lib_codecs L)
                  \<lparr>fl_bytes = wr_bytes (oc_output ctx), fl_calls = 0, fl_answer = oc_write_at ctx\<rparr> of
             (r, f) \<Rightarrow> (map_err VWriteAuth r, ctx\<lparr>oc_output := (oc_output ctx)\<lparr>wr_bytes := fl_bytes f\<rparr>\<rparr>)))"

definition encryptLegacy ::
  "libs \<Rightarrow> (nat \<Rightarrow> nat \<Rightarrow> cause + byte list) \<Rightarrow> cause + nat \<Rightarrow> encrypt_request \<Rightarrow> unit op" where
  "encryptLegacy L rand stat req =
     io_bind (io_lift (Validate_legacy req)) (\<lambda>_.
     io_bind (encryptGenerateValues rand stat req) (\<lambda>_.
     io_bind (encryptWriteHeader L) (\<lambda>_.
     io_bind (encryptDeriveKeys L req) (\<lambda>_.
     io_bind (encryptProcessKeyfiles L req) (\<lambda>_.
     io_bind (encryptComputeAuth L) (\<lambda>_.
     io_bind (encryptPayload L req) (\<lambda>_.
     encryptFinalize L)))))))"

section \<open>Decryption: header and keys\<close>

text \<open>\<open>markForcedOutputUntrusted\<close>, and the choice between it and an error.\<close>

definition markForcedOutputUntrusted :: "unit op" where
  "markForcedOutputUntrusted = op_set (\<lambda>ctx. ctx\<lparr>oc_Kept := True\<rparr>)"

definition force_or_fail :: "decrypt_request \<Rightarrow> bool \<Rightarrow> volume_error \<Rightarrow> unit op" where
  "force_or_fail req valid e =
     (if valid then io_ret () else if dr_ForceDecrypt req then markForcedOutputUntrusted else io_fail e)"

text \<open>The size of the input minus that of a header without comment is the total before the header is
  read.\<close>

definition decryptReadHeader :: "libs \<Rightarrow> decrypt_request \<Rightarrow> unit op" where
  "decryptReadHeader L req ctx =
     (case ReadHeader (lib_codecs L) (new_run (oc_input ctx) (oc_input_end ctx)) of
        (Inl e, _) \<Rightarrow> (Inl (VReadHeader e), ctx)
      | (Inr _, r) \<Rightarrow>
          let result = run_result r; ctx = ctx\<lparr>oc_Header := res_Header result\<rparr>
          in io_bind (force_or_fail req (\<not> res_DecodeError result) VHeaderDamaged) (\<lambda>_.
             op_set (\<lambda>ctx. ctx\<lparr>oc_Total := oc_Total ctx - int (length (vh_Comments (oc_Header ctx))) * 3,
                               oc_IsLegacyV1 := IsLegacyV1 (oc_Header ctx),
                               oc_UseKeyfiles := flag_UseKeyfiles (vh_Flags (oc_Header ctx))\<rparr>)) ctx)"

definition decryptDeriveKeys :: "libs \<Rightarrow> unit op" where
  "decryptDeriveKeys L =
     io_bind (op_get id) (\<lambda>ctx.
     io_bind (io_lift (map_err VCrypto
       (DeriveKey (lib_IDKey L) (oc_passwordBytes ctx) (vh_Salt (oc_Header ctx))
          (flag_Paranoid (vh_Flags (oc_Header ctx)))))) (\<lambda>key.
     op_set (\<lambda>ctx. ctx\<lparr>oc_Key := key\<rparr>)))"

definition decryptProcessKeyfiles :: "libs \<Rightarrow> decrypt_request \<Rightarrow> unit op" where
  "decryptProcessKeyfiles L req ctx =
     (if \<not> oc_UseKeyfiles ctx then op_set (\<lambda>ctx. ctx\<lparr>oc_KeyfileHash := replicate 32 0\<rparr>) ctx
      else if dr_Keyfiles req = [] then (Inl VKeyfilesMissing, ctx)
      else io_bind (io_lift (map_err VKeyfiles
             (Process (prim_sha3_256 (lib_prims L)) (dr_Keyfiles req)
                (flag_KeyfileOrdered (vh_Flags (oc_Header ctx)))))) (\<lambda>result.
           op_set (\<lambda>ctx. ctx\<lparr>oc_KeyfileKey := Some (kf_Key result), oc_KeyfileHash := kf_Hash result\<rparr>)) ctx)"

definition new_subkeys :: "libs \<Rightarrow> unit op" where
  "new_subkeys L = op_set (\<lambda>ctx. ctx\<lparr>oc_SubkeyReader :=
     NewSubkeyReader (lib_hkdf L (oc_Key ctx) (vh_HKDFSalt (oc_Header ctx)))\<rparr>)"

definition verify_keyfiles :: "decrypt_request \<Rightarrow> unit op" where
  "verify_keyfiles req =
     io_bind (op_get id) (\<lambda>ctx.
       force_or_fail req
         (\<not> oc_UseKeyfiles ctx \<or> VerifyKeyfileHash (oc_KeyfileHash ctx) (vh_KeyfileHash (oc_Header ctx)))
         (VAuth (NewKeyfileError (flag_KeyfileOrdered (vh_Flags (oc_Header ctx))))))"

definition decryptVerifyAuth :: "libs \<Rightarrow> decrypt_request \<Rightarrow> unit op" where
  "decryptVerifyAuth L req =
     io_bind (op_get id) (\<lambda>ctx.
       if oc_IsLegacyV1 ctx then
         io_bind (force_or_fail req (auth_Valid (VerifyV1Header (lib_sha3_512 L) (oc_Key ctx) (oc_Header ctx)))
           (VAuth NewPasswordError)) (\<lambda>_.
         io_bind (verify_keyfiles req) (\<lambda>_.
         io_bind (xor_keyfile_key False) (\<lambda>_.
         new_subkeys L)))
       else
         io_bind (new_subkeys L) (\<lambda>_.
         io_bind (op_subkey HeaderSubkey) (\<lambda>subkeyHeader.
         io_bind (force_or_fail req
           (auth_Valid (VerifyV2Header (prim_hmac_sha3 (lib_prims L)) subkeyHeader (oc_Header ctx) (oc_KeyfileHash ctx)))
           (VAuth NewV2PasswordOrTamperError)) (\<lambda>_.
         io_bind (verify_keyfiles req) (\<lambda>_.
         xor_keyfile_key True)))))"

definition derive_process_verify :: "libs \<Rightarrow> decrypt_request \<Rightarrow> unit op" where
  "derive_process_verify L req =
     io_bind (decryptDeriveKeys L) (\<lambda>_.
     io_bind (decryptProcessKeyfiles L req) (\<lambda>_.
     decryptVerifyAuth L req))"

definition reDeriveForRetry :: "libs \<Rightarrow> decrypt_request \<Rightarrow> unit op" where
  "reDeriveForRetry L req = derive_process_verify L req"

text \<open>The attempts with one password form after the other. The keys of a candidate and its keyfiles
  return every error at once; only a rejected authentication leads to the next form.\<close>

definition auth_error :: "volume_error \<Rightarrow> AuthError option" where
  "auth_error e = (case e of VAuth a \<Rightarrow> Some a | _ \<Rightarrow> None)"

fun try_candidates :: "libs \<Rightarrow> decrypt_request \<Rightarrow> byte list list \<Rightarrow> unit op" where
  "try_candidates L req [] = io_ret ()"
| "try_candidates L req (cand # rest) =
     io_bind (op_set (\<lambda>ctx. ctx\<lparr>oc_passwordBytes := cand\<rparr>)) (\<lambda>_.
     io_bind (decryptDeriveKeys L) (\<lambda>_.
     io_bind (decryptProcessKeyfiles L req) (\<lambda>_ ctx.
       case decryptVerifyAuth L req ctx of
         (Inr _, ctx) \<Rightarrow> (Inr (), ctx)
       | (Inl err, ctx) \<Rightarrow>
           if \<not> IsPasswordError (auth_error err) \<or> rest = [] then (Inl err, ctx)
           else try_candidates L req rest ctx)))"

definition decryptDeriveProcessVerify :: "libs \<Rightarrow> decrypt_request \<Rightarrow> unit op" where
  "decryptDeriveProcessVerify L req =
     try_candidates L req (if dr_ForceDecrypt req then [dr_Password req] else Candidates L (dr_Password req))"

section \<open>Decryption: payload\<close>

definition decodeWithRSFast ::
  "byte list \<Rightarrow> RSCodecs \<Rightarrow> bool \<Rightarrow> bool \<Rightarrow> bool \<Rightarrow> bool \<Rightarrow> volume_error + byte list" where
  "decodeWithRSFast data rs isLast padded forceDecode fastDecode =
     (case DecodeRSPayloadBlock data rs isLast padded forceDecode fastDecode of
        Inr out \<Rightarrow> Inr out
      | Inl e \<Rightarrow> Inl (if e = ErrCorruptData then VCorruptData else VEncode e))"

text \<open>The bytes of one block that are authenticated. Forced, a block that does not decode counts as
  empty.\<close>

definition block_data :: "libs \<Rightarrow> decrypt_request \<Rightarrow> Flags \<Rightarrow> bool \<Rightarrow> bool \<Rightarrow> byte list \<Rightarrow> volume_error + byte list" where
  "block_data L req flags fastDecode isLast srcData =
     (if flag_ReedSolomon flags then
        (case decodeWithRSFast srcData (lib_codecs L) isLast (flag_Padded flags) (dr_ForceDecrypt req) fastDecode of
           Inr data \<Rightarrow> Inr data
         | Inl e \<Rightarrow> if dr_ForceDecrypt req then Inr [] else Inl e)
      else Inr srcData)"

definition src_buf_size :: "Flags \<Rightarrow> nat" where
  "src_buf_size flags = (if flag_ReedSolomon flags then RSEncodedBlockSize else MiB)"

text \<open>The bytes behind the header.\<close>

definition payload_input :: "op_context \<Rightarrow> byte list" where
  "payload_input ctx = drop (HeaderSize (length (vh_Comments (oc_Header ctx)))) (oc_input ctx)"

text \<open>The verifying pass: the bytes given to the MAC.\<close>

function verify_loop ::
  "libs \<Rightarrow> decrypt_request \<Rightarrow> Flags \<Rightarrow> bool \<Rightarrow> int \<Rightarrow> byte list \<Rightarrow> cause \<Rightarrow> nat \<Rightarrow> byte list \<Rightarrow> byte list op" where
  "verify_loop L req flags fastDecode ctxTotal rest end' read macked =
     io_bind poll_cancelled (\<lambda>_.
       case ReadFull (src_buf_size flags) rest end' of
         ((src, err), rest') \<Rightarrow>
           io_bind (if src \<noteq> []
                    then io_lift (block_data L req flags fastDecode (int (read + length src) \<ge> ctxTotal) src)
                    else io_ret [])
             (\<lambda>data.
               case err of
                 None \<Rightarrow> verify_loop L req flags fastDecode ctxTotal rest' end' (read + length src) (macked @ data)
               | Some c \<Rightarrow> if c = EOF \<or> c = UnexpectedEOF then io_ret (macked @ data) else io_fail (VReadInput c)))"
  by pat_completeness auto
termination
  by (relation "measure (\<lambda>(L, req, flags, fastDecode, ctxTotal, rest, end', read, macked). length rest)")
    (auto simp: ReadFull_def src_buf_size_def split: if_splits)

declare verify_loop.simps [simp del]

text \<open>One verifying pass: whether the MAC of the payload is the one in the header.\<close>

definition verify_pass :: "libs \<Rightarrow> decrypt_request \<Rightarrow> bool \<Rightarrow> bool op" where
  "verify_pass L req fastDecode =
     io_bind (op_get (flag_Paranoid \<circ> vh_Flags \<circ> oc_Header)) (\<lambda>paranoid.
     io_bind (payload_mac L paranoid) (\<lambda>(mac, serpentKey).
     io_bind (op_get id) (\<lambda>ctx.
     io_bind (verify_loop L req (vh_Flags (oc_Header ctx)) fastDecode (oc_Total ctx) (payload_input ctx)
                (oc_input_end ctx) 0 []) (\<lambda>macked.
     io_ret (mac macked = vh_AuthTag (oc_Header ctx))))))"

text \<open>A failed pass is repeated once with full correction; a forced one goes on without any mark.\<close>

definition decryptVerifyMACFirst :: "libs \<Rightarrow> decrypt_request \<Rightarrow> unit op" where
  "decryptVerifyMACFirst L req =
     io_bind (verify_pass L req True) (\<lambda>ok.
       if ok \<or> dr_ForceDecrypt req then io_ret ()
       else
         io_bind (op_get (flag_ReedSolomon \<circ> vh_Flags \<circ> oc_Header)) (\<lambda>reedsolo.
           if reedsolo then
             io_bind (reDeriveForRetry L req) (\<lambda>_.
             io_bind (verify_pass L req False) (\<lambda>ok.
               if ok \<or> dr_ForceDecrypt req then io_ret () else io_fail VAuthFailed))
           else io_fail VAuthFailed))"

text \<open>One block of the decrypting loop.\<close>

definition decrypt_block ::
  "libs \<Rightarrow> decrypt_request \<Rightarrow> Flags \<Rightarrow> bool \<Rightarrow> int \<Rightarrow> nat \<Rightarrow> byte list \<Rightarrow> CipherSuite \<Rightarrow> nat \<Rightarrow> (CipherSuite \<times> nat) op" where
  "decrypt_block L req flags fastDecode ctxTotal done srcData cs counter =
     io_bind (io_lift (block_data L req flags fastDecode (int (done + length srcData) \<ge> ctxTotal) srcData)) (\<lambda>data.
       case suite_Decrypt data cs of
         ((dst, _), cs) \<Rightarrow>
           io_bind (output_write True dst) (\<lambda>_.
           io_lift (maybe_rekey L (counter + MiB) cs)))"

function decrypt_loop ::
  "libs \<Rightarrow> decrypt_request \<Rightarrow> Flags \<Rightarrow> bool \<Rightarrow> int \<Rightarrow> byte list \<Rightarrow> cause \<Rightarrow> nat \<Rightarrow> CipherSuite \<Rightarrow> nat \<Rightarrow> CipherSuite op" where
  "decrypt_loop L req flags fastDecode ctxTotal rest end' done cs counter =
     io_bind poll_cancelled (\<lambda>_.
       case ReadFull (src_buf_size flags) rest end' of
         ((src, err), rest') \<Rightarrow>
           io_bind (if src \<noteq> [] then decrypt_block L req flags fastDecode ctxTotal done src cs counter
                    else io_ret (cs, counter))
             (\<lambda>(cs, counter).
               let done = (if src = [] then done
                           else if flag_ReedSolomon flags then done + RSEncodedBlockSize else done + length src)
               in case err of
                    None \<Rightarrow> decrypt_loop L req flags fastDecode ctxTotal rest' end' done cs counter
                  | Some c \<Rightarrow> if c = EOF \<or> c = UnexpectedEOF then io_ret cs else io_fail (VReadInput c)))"
  by pat_completeness auto
termination
  by (relation "measure (\<lambda>(L, req, flags, fastDecode, ctxTotal, rest, end', done, cs, counter). length rest)")
    (auto simp: ReadFull_def src_buf_size_def split: if_splits)

declare decrypt_loop.simps [simp del]

text \<open>The output of an earlier pass is discarded when the suite is in place.\<close>

definition decryptPayloadWithFastDecode :: "libs \<Rightarrow> decrypt_request \<Rightarrow> bool \<Rightarrow> unit op" where
  "decryptPayloadWithFastDecode L req fastDecode =
     io_bind (op_get (flag_Paranoid \<circ> vh_Flags \<circ> oc_Header)) (\<lambda>paranoid.
     io_bind (payload_suite L paranoid) (\<lambda>cs.
     io_bind (op_set (\<lambda>ctx. ctx\<lparr>oc_CipherSuite := Some cs, oc_output := (oc_output ctx)\<lparr>wr_bytes := []\<rparr>\<rparr>)) (\<lambda>_.
     io_bind (op_get id) (\<lambda>ctx.
     io_bind (decrypt_loop L req (vh_Flags (oc_Header ctx)) fastDecode (oc_Total ctx) (payload_input ctx)
                (oc_input_end ctx) 0 cs 0) (\<lambda>cs.
     op_set (\<lambda>ctx. ctx\<lparr>oc_CipherSuite := Some cs\<rparr>))))))"

definition decryptPayload :: "libs \<Rightarrow> decrypt_request \<Rightarrow> unit op" where
  "decryptPayload L req = decryptPayloadWithFastDecode L req True"

text \<open>The comparison of \<open>decryptFinalize\<close>, with its retry; the output it would then publish is
  \<open>oc_output\<close>.\<close>

definition mac_matches :: "bool op" where
  "mac_matches ctx =
     (case oc_CipherSuite ctx of
        None \<Rightarrow> (Inl VNilPanic, ctx)
      | Some cs \<Rightarrow> (Inr (suite_Sum cs = vh_AuthTag (oc_Header ctx)), ctx))"

definition compare_or_fail :: "decrypt_request \<Rightarrow> bool \<Rightarrow> unit op" where
  "compare_or_fail req ok = force_or_fail req ok VCorruptData"

definition decryptFinalize :: "libs \<Rightarrow> decrypt_request \<Rightarrow> unit op" where
  "decryptFinalize L req =
     io_bind mac_matches (\<lambda>ok.
     io_bind (op_get id) (\<lambda>ctx.
       if \<not> ok \<and> flag_ReedSolomon (vh_Flags (oc_Header ctx)) \<and> \<not> oc_TriedFullRSDecode ctx then
         io_bind (op_set (\<lambda>ctx. ctx\<lparr>oc_TriedFullRSDecode := True\<rparr>)) (\<lambda>_.
         io_bind (reDeriveForRetry L req) (\<lambda>_.
         io_bind (decryptPayloadWithFastDecode L req False) (\<lambda>_.
         io_bind mac_matches (\<lambda>ok. compare_or_fail req ok))))
       else compare_or_fail req ok))"

text \<open>The total of an operation before its header is read, from the size of the pinned input
  (\<open>decryptPreprocess\<close>), and all phases.\<close>

definition decryptMeasureInput :: "cause + nat \<Rightarrow> unit op" where
  "decryptMeasureInput stat =
     io_bind (io_lift (map_err VStat stat)) (\<lambda>size.
     op_set (\<lambda>ctx. ctx\<lparr>oc_Total := int size - int BaseHeaderSize\<rparr>))"

definition decryptPrepared :: "libs \<Rightarrow> cause + nat \<Rightarrow> decrypt_request \<Rightarrow> unit op" where
  "decryptPrepared L stat req =
     io_bind (decryptMeasureInput stat) (\<lambda>_.
     io_bind (decryptReadHeader L req) (\<lambda>_.
     io_bind (decryptDeriveProcessVerify L req) (\<lambda>_.
     io_bind (if dr_VerifyFirst req
              then io_bind (decryptVerifyMACFirst L req) (\<lambda>_. derive_process_verify L req)
              else io_ret ()) (\<lambda>_.
     io_bind (decryptPayload L req) (\<lambda>_.
     decryptFinalize L req)))))"

end
