(* ===== verification/Legacy_Payload.thy ===== *)
theory Legacy_Payload
  imports Legacy_Volume Legacy_Round_Trip
begin

text \<open>
  The payload loops of the legacy formats as functions of blocks: an input is cut into blocks, the
  cipher suite turns a list of blocks into another, rekeying in between, and decryption undoes
  encryption. The loops compute these functions.
\<close>

section \<open>Blocks\<close>

function split_blocks :: "nat \<Rightarrow> 'a list \<Rightarrow> 'a list list" where
  "split_blocks n xs = (if xs = [] \<or> n = 0 then [] else take n xs # split_blocks n (drop n xs))"
  by pat_completeness auto
termination by (relation "measure (\<lambda>(n, xs). length xs)") auto

declare split_blocks.simps [simp del]

lemma split_blocks_Nil [simp]: "split_blocks n [] = []"
  by (simp add: split_blocks.simps)

lemma split_blocks_Cons:
  "xs \<noteq> [] \<Longrightarrow> 0 < n \<Longrightarrow> split_blocks n xs = take n xs # split_blocks n (drop n xs)"
  by (subst split_blocks.simps) simp

lemma concat_split_blocks: "0 < n \<Longrightarrow> concat (split_blocks n xs) = xs"
  by (induction n xs rule: split_blocks.induct) (subst split_blocks.simps, auto)

text \<open>Blocks of length \<open>n\<close>, the last one possibly shorter but not empty.\<close>

definition full_blocks :: "nat \<Rightarrow> 'a list list \<Rightarrow> bool" where
  "full_blocks n bs \<longleftrightarrow> (\<forall>b \<in> set (butlast bs). length b = n) \<and> (bs \<noteq> [] \<longrightarrow> last bs \<noteq> [] \<and> length (last bs) \<le> n)"

lemma full_blocks_Nil [simp]: "full_blocks n []"
  by (simp add: full_blocks_def)

lemma full_blocks_Cons:
  "full_blocks n (b # bs) \<longleftrightarrow> (if bs = [] then b \<noteq> [] \<and> length b \<le> n else length b = n \<and> full_blocks n bs)"
  by (auto simp: full_blocks_def)

lemma full_split_blocks: "0 < n \<Longrightarrow> full_blocks n (split_blocks n xs)"
proof (induction n xs rule: split_blocks.induct)
  case (1 n xs)
  show ?case
  proof (cases "xs = []")
    case False
    have "split_blocks n (drop n xs) = [] \<longleftrightarrow> length xs \<le> n"
      using 1(2) by (cases "drop n xs = []") (simp_all add: split_blocks_Cons)
    then show ?thesis using 1 False by (auto simp: split_blocks_Cons full_blocks_Cons)
  qed simp
qed

lemma split_blocks_concat: "full_blocks n bs \<Longrightarrow> 0 < n \<Longrightarrow> split_blocks n (concat bs) = bs"
proof (induction bs)
  case (Cons b bs)
  show ?case
  proof (cases "bs = []")
    case True
    then show ?thesis using Cons.prems by (simp add: full_blocks_Cons split_blocks_Cons)
  next
    case False
    then have b: "length b = n" "full_blocks n bs" using Cons.prems(1) by (simp_all add: full_blocks_Cons)
    have "b \<noteq> []" using b(1) Cons.prems(2) by auto
    then show ?thesis using b Cons.IH Cons.prems(2) by (simp add: split_blocks_Cons)
  qed
qed simp

lemma full_blocks_same_lengths: "full_blocks n bs \<Longrightarrow> map length bs = map length cs \<Longrightarrow> full_blocks n cs"
proof (induction bs arbitrary: cs)
  case (Cons b bs)
  then obtain c cs' where cs: "cs = c # cs'" "length b = length c" "map length bs = map length cs'"
    by (cases cs) auto
  have "cs' = [] \<longleftrightarrow> bs = []" using cs(3) by auto
  then show ?case using Cons cs by (auto simp: full_blocks_Cons split: if_splits)
qed simp

text \<open>Two cuts into full blocks of the same bytes are equal.\<close>

lemma full_blocks_unique: "full_blocks n bs \<Longrightarrow> full_blocks n cs \<Longrightarrow> concat bs = concat cs \<Longrightarrow> 0 < n \<Longrightarrow> bs = cs"
  using split_blocks_concat by metis

section \<open>The suite over blocks\<close>

fun enc_blocks :: "libs \<Rightarrow> byte list list \<Rightarrow> CipherSuite \<Rightarrow> nat \<Rightarrow> volume_error + (byte list list \<times> CipherSuite)" where
  "enc_blocks L [] cs k = Inr ([], cs)"
| "enc_blocks L (p # ps) cs k =
     (case suite_Encrypt p cs of
        ((d, _), cs) \<Rightarrow>
          ebind (maybe_rekey L (k + MiB) cs) (\<lambda>(cs, k).
          ebind (enc_blocks L ps cs k) (\<lambda>(ds, cs). Inr (d # ds, cs))))"

fun dec_blocks :: "libs \<Rightarrow> byte list list \<Rightarrow> CipherSuite \<Rightarrow> nat \<Rightarrow> volume_error + (byte list list \<times> CipherSuite)" where
  "dec_blocks L [] cs k = Inr ([], cs)"
| "dec_blocks L (d # ds) cs k =
     (case suite_Decrypt d cs of
        ((p, _), cs) \<Rightarrow>
          ebind (maybe_rekey L (k + MiB) cs) (\<lambda>(cs, k).
          ebind (dec_blocks L ds cs k) (\<lambda>(ps, cs). Inr (p # ps, cs))))"

lemma dec_enc_blocks:
  "enc_blocks L ps cs k = Inr (ds, cs') \<Longrightarrow> dec_blocks L ds cs k = Inr (ps, cs') \<and> map length ds = map length ps"
proof (induction ps arbitrary: cs k ds)
  case (Cons p ps)
  obtain d tmp cs1 where e: "suite_Encrypt p cs = ((d, tmp), cs1)" by (metis surj_pair)
  obtain cs2 k2 ds' where r: "maybe_rekey L (k + MiB) cs1 = Inr (cs2, k2)" "enc_blocks L ps cs2 k2 = Inr (ds', cs')"
    "ds = d # ds'"
    using Cons.prems e by (auto simp: ebind_eq_Inr)
  obtain tmp' where "suite_Decrypt d cs = ((p, tmp'), cs1)" using Decrypt_Encrypt(1) [OF e] by blast
  then show ?case using Cons.IH [OF r(2)] r(1,3) Decrypt_Encrypt(2) [OF e] by simp
qed simp

text \<open>What a suite keeps whatever it is given: the rest of the HKDF stream, the key, the block cipher,
  the mode and the MAC. The success of rekeying depends on nothing else.\<close>

definition suite_core :: "CipherSuite \<Rightarrow> byte list \<times> byte list \<times> (byte list \<Rightarrow> byte list) \<times> bool \<times> (byte list \<Rightarrow> byte list)" where
  "suite_core cs = (cs_hkdf cs, cs_key cs, cs_block cs, cs_paranoid cs, cs_mac cs)"

lemma Encrypt_core:
  "suite_Encrypt p cs = ((d, tmp), cs') \<Longrightarrow> suite_core cs' = suite_core cs \<and> cs_macked cs' = cs_macked cs @ d"
  by (auto simp: suite_Encrypt_def suite_core_def Let_def split: if_splits prod.splits)

lemma Decrypt_core:
  "suite_Decrypt d cs = ((p, tmp), cs') \<Longrightarrow> suite_core cs' = suite_core cs \<and> cs_macked cs' = cs_macked cs @ d \<and> length p = length d"
  by (auto simp: suite_Decrypt_def suite_core_def Let_def XORKeyStream_def split: if_splits)

lemma Rekey_core:
  assumes "suite_Rekey P cs = (Inr u, cs')" and "suite_core c = suite_core cs"
  shows "\<exists>c'. suite_Rekey P c = (Inr (), c') \<and> suite_core c' = suite_core cs' \<and> cs_macked c' = cs_macked c"
    and "cs_macked cs' = cs_macked cs"
  using assms by (auto simp: suite_Rekey_def suite_core_def Let_def split: if_splits sum.splits)

lemma maybe_rekey_core:
  assumes "maybe_rekey L k cs = Inr (cs', k')" and "suite_core c = suite_core cs"
  shows "\<exists>c'. maybe_rekey L k c = Inr (c', k') \<and> suite_core c' = suite_core cs' \<and> cs_macked c' = cs_macked c"
    "cs_macked cs' = cs_macked cs"
proof -
  have "(\<exists>c'. maybe_rekey L k c = Inr (c', k') \<and> suite_core c' = suite_core cs' \<and> cs_macked c' = cs_macked c) \<and>
    cs_macked cs' = cs_macked cs"
  proof (cases "lib_RekeyThreshold L \<le> k")
    case True
    then have "suite_Rekey (lib_prims L) cs = (Inr (), cs')" "k' = 0"
      using assms(1) by (auto simp: maybe_rekey_def split: prod.splits sum.splits)
    from Rekey_core [OF this(1) assms(2)] this(2) True show ?thesis by (force simp: maybe_rekey_def)
  next
    case False
    then show ?thesis using assms by (simp add: maybe_rekey_def)
  qed
  then show "\<exists>c'. maybe_rekey L k c = Inr (c', k') \<and> suite_core c' = suite_core cs' \<and> cs_macked c' = cs_macked c"
    "cs_macked cs' = cs_macked cs" by blast+
qed

lemma enc_blocks_macked: "enc_blocks L ps cs k = Inr (ds, cs') \<Longrightarrow> cs_macked cs' = cs_macked cs @ concat ds \<and> cs_mac cs' = cs_mac cs"
proof (induction ps arbitrary: cs k ds)
  case (Cons p ps)
  obtain d tmp cs1 where e: "suite_Encrypt p cs = ((d, tmp), cs1)" by (metis surj_pair)
  obtain cs2 k2 ds' where r: "maybe_rekey L (k + MiB) cs1 = Inr (cs2, k2)" "enc_blocks L ps cs2 k2 = Inr (ds', cs')"
    "ds = d # ds'"
    using Cons.prems e by (auto simp: ebind_eq_Inr)
  have "cs_mac cs2 = cs_mac cs1"
    using r(1) by (auto simp: maybe_rekey_def suite_Rekey_def Let_def split: if_splits prod.splits sum.splits)
  then show ?case
    using Cons.IH [OF r(2)] r(3) Encrypt_core [OF e] maybe_rekey_core(2) [OF r(1) refl]
    by (auto simp: suite_core_def)
qed simp

text \<open>Decrypting any as many blocks succeeds.\<close>

lemma dec_blocks_total:
  "enc_blocks L ps cs k = Inr (ds, cs') \<Longrightarrow> suite_core c = suite_core cs \<Longrightarrow> length es = length ps \<Longrightarrow>
   \<exists>qs c'. dec_blocks L es c k = Inr (qs, c') \<and> cs_macked c' = cs_macked c @ concat es \<and> cs_mac c' = cs_mac cs'"
proof (induction ps arbitrary: cs k ds c es)
  case Nil
  then show ?case by (auto simp: suite_core_def)
next
  case (Cons p ps)
  obtain d tmp cs1 where e: "suite_Encrypt p cs = ((d, tmp), cs1)" by (metis surj_pair)
  obtain cs2 k2 ds' where r: "maybe_rekey L (k + MiB) cs1 = Inr (cs2, k2)" "enc_blocks L ps cs2 k2 = Inr (ds', cs')"
    using Cons.prems(1) e by (auto simp: ebind_eq_Inr)
  obtain x es' where es: "es = x # es'" "length es' = length ps" using Cons.prems(3) by (cases es) auto
  obtain q tmp' c1 where d: "suite_Decrypt x c = ((q, tmp'), c1)" by (metis surj_pair)
  note D = Decrypt_core [OF d]
  have "suite_core c1 = suite_core cs1" using D Encrypt_core [OF e] Cons.prems(2) by simp
  then obtain c2 where c2: "maybe_rekey L (k + MiB) c1 = Inr (c2, k2)" "suite_core c2 = suite_core cs2"
    "cs_macked c2 = cs_macked c1"
    using maybe_rekey_core(1) [OF r(1)] by blast
  from Cons.IH [OF r(2) c2(2) es(2)] show ?case using es(1) d c2(1,3) D by auto
qed

section \<open>The encrypting loop\<close>

text \<open>What the phases leave alone, apart from polls and output.\<close>

definition same_op :: "op_context \<Rightarrow> op_context \<Rightarrow> bool" where
  "same_op ctx ctx' \<longleftrightarrow>
     (\<exists>polls out. ctx' = ctx\<lparr>oc_polls := polls, oc_output := out\<rparr> \<and> wr_answer out = wr_answer (oc_output ctx))"

lemma same_op_refl [simp]: "same_op ctx ctx"
  unfolding same_op_def by (rule exI [of _ "oc_polls ctx"], rule exI [of _ "oc_output ctx"]) simp

lemma same_op_trans: "same_op a b \<Longrightarrow> same_op b c \<Longrightarrow> same_op a c"
  unfolding same_op_def by fastforce

lemma same_op_answer: "same_op a b \<Longrightarrow> wr_answer (oc_output b) = wr_answer (oc_output a)"
  by (auto simp: same_op_def)

lemma same_op_honest: "same_op a b \<Longrightarrow> honest_writer (oc_output b) = honest_writer (oc_output a)"
  by (simp add: honest_writer_def same_op_answer)

lemma poll_cancelled_Inr: "poll_cancelled ctx = (Inr u, ctx') \<Longrightarrow> same_op ctx ctx' \<and> oc_output ctx' = oc_output ctx"
  unfolding same_op_def
  by (auto simp: poll_cancelled_def split: if_splits intro!: exI [of _ "oc_polls ctx + 1"] exI [of _ "oc_output ctx"])

lemma output_write_Inr:
  assumes "output_write check p ctx = (Inr u, ctx')" and "honest_writer (oc_output ctx)"
  shows "same_op ctx ctx' \<and> wr_bytes (oc_output ctx') = wr_bytes (oc_output ctx) @ p"
  using assms unfolding same_op_def
  by (auto simp: output_write_def honest_writer_def Let_def split: prod.splits option.splits if_splits
      intro!: exI [of _ "oc_polls ctx"])

definition encoded_as :: "libs \<Rightarrow> bool \<Rightarrow> byte list \<Rightarrow> byte list \<Rightarrow> bool" where
  "encoded_as L reedsolo d e \<longleftrightarrow> (if reedsolo then EncodeRSPayloadBlock d (lib_codecs L) = Inr e else e = d)"

lemma ReadFull_blocks:
  assumes "0 < n"
  shows "ReadFull n rest e =
    (if n \<le> length rest then ((take n rest, None), drop n rest)
     else ((rest, Some (if e = EOF \<and> rest \<noteq> [] then UnexpectedEOF else e)), []))"
  by (simp add: ReadFull_def)

lemma encrypt_loop_Inr:
  assumes "encrypt_loop L reedsolo rest e cs k ctx = (Inr cs', ctx')" and "honest_writer (oc_output ctx)"
  shows "\<exists>ds es. enc_blocks L (split_blocks MiB rest) cs k = Inr (ds, cs') \<and> list_all2 (encoded_as L reedsolo) ds es \<and>
    same_op ctx ctx' \<and> wr_bytes (oc_output ctx') = wr_bytes (oc_output ctx) @ concat es"
  using assms
proof (induction L reedsolo rest e cs k arbitrary: ctx rule: encrypt_loop.induct)
  case (1 L reedsolo rest e cs k)
  obtain ctx1 where p: "poll_cancelled ctx = (Inr (), ctx1)"
    using "1.prems"(1) unfolding encrypt_loop.simps [of L reedsolo rest e cs k] by (auto simp: io_bind_eq_Inr)
  note P = poll_cancelled_Inr [OF p]
  show ?case
  proof (cases "rest = []")
    case True
    have "ctx' = ctx1 \<and> cs' = cs"
      using "1.prems"(1) [unfolded encrypt_loop.simps [of L reedsolo rest e cs k]] p True
      by (auto simp: io_bind_def ReadFull_def split: if_splits)
    then show ?thesis using True P by (intro exI [of _ "[]"]) simp
  next
    case False
    let ?src = "take MiB rest"
    have src: "?src \<noteq> []" using False by simp
    obtain d tmp cs1 where enc: "suite_Encrypt ?src cs = ((d, tmp), cs1)" by (metis surj_pair)
    have rf: "\<exists>err. ReadFull MiB rest e = ((?src, err), drop MiB rest) \<and> (err = None \<longleftrightarrow> MiB \<le> length rest)"
      by (simp add: ReadFull_def)
    then obtain err where rf: "ReadFull MiB rest e = ((?src, err), drop MiB rest)" "err = None \<longleftrightarrow> MiB \<le> length rest"
      by blast
    have run: "io_bind (encrypt_block L reedsolo ?src cs k) (\<lambda>(cs, k). case err of
          None \<Rightarrow> encrypt_loop L reedsolo (drop MiB rest) e cs k
        | Some c \<Rightarrow> if c = EOF \<or> c = UnexpectedEOF then io_ret cs else io_fail (VReadInput c)) ctx1 = (Inr cs', ctx')"
      using "1.prems"(1) p rf(1) src unfolding encrypt_loop.simps [of L reedsolo rest e cs k] by (simp add: io_bind_def)
    obtain cs2 k2 ctx2 where b: "encrypt_block L reedsolo ?src cs k ctx1 = (Inr (cs2, k2), ctx2)"
      and rest: "(case err of None \<Rightarrow> encrypt_loop L reedsolo (drop MiB rest) e cs2 k2
        | Some c \<Rightarrow> if c = EOF \<or> c = UnexpectedEOF then io_ret cs2 else io_fail (VReadInput c)) ctx2 = (Inr cs', ctx')"
      using run by (auto simp: io_bind_eq_Inr)
    obtain x where B: "encoded_as L reedsolo d x" "output_write False x ctx1 = (Inr (), ctx2)"
      "maybe_rekey L (k + MiB) cs1 = Inr (cs2, k2)"
      using b enc by (auto simp: encrypt_block_def io_bind_eq_Inr encoded_as_def split: if_splits)
    have hon1: "honest_writer (oc_output ctx1)" using P "1.prems"(2) by simp
    note W = output_write_Inr [OF B(2) hon1]
    have s2: "same_op ctx ctx2" using P W same_op_trans by blast
    have split: "split_blocks MiB rest = ?src # split_blocks MiB (drop MiB rest)" using False by (simp add: split_blocks_Cons)
    show ?thesis
    proof (cases err)
      case None
      have hon2: "honest_writer (oc_output ctx2)" using same_op_honest W hon1 by blast
      have run2: "encrypt_loop L reedsolo (drop MiB rest) e cs2 k2 ctx2 = (Inr cs', ctx')" using rest None by simp
      have pair: "((?src, err), drop MiB rest) = ReadFull MiB rest e" using rf(1) by (rule sym)
      obtain ds es where I: "enc_blocks L (split_blocks MiB (drop MiB rest)) cs2 k2 = Inr (ds, cs')"
        "list_all2 (encoded_as L reedsolo) ds es" "same_op ctx2 ctx'"
        "wr_bytes (oc_output ctx') = wr_bytes (oc_output ctx2) @ concat es"
        using "1.IH" [OF pair refl None run2 hon2] by blast
      have "same_op ctx ctx'" by (rule same_op_trans [OF s2 I(3)])
      then show ?thesis
        using split enc B(1,3) W P I by (intro exI [of _ "d # ds"] exI [of _ "x # es"]) simp
    next
      case (Some c)
      then have "cs' = cs2" "ctx' = ctx2" using rest by (auto split: if_splits)
      moreover have "drop MiB rest = []" using Some rf(2) by simp
      ultimately show ?thesis
        using split enc B W P s2 by (intro exI [of _ "[d]"] exI [of _ "[x]"]) auto
    qed
  qed
qed

section \<open>The decrypting loops\<close>

text \<open>An undisturbed operation: never cancelled, its output takes all bytes.\<close>

definition quiet :: "op_context \<Rightarrow> bool" where
  "quiet ctx \<longleftrightarrow> (\<forall>k. \<not> oc_cancel ctx k) \<and> takes_all (oc_output ctx)"

lemma same_op_quiet: "same_op a b \<Longrightarrow> quiet b = quiet a"
  by (auto simp: same_op_def quiet_def takes_all_def)

lemma quiet_poll: "quiet ctx \<Longrightarrow> \<exists>ctx'. poll_cancelled ctx = (Inr (), ctx') \<and> same_op ctx ctx' \<and> oc_output ctx' = oc_output ctx"
  using poll_cancelled_Inr [of ctx] by (auto simp: poll_cancelled_def quiet_def)

lemma quiet_write:
  assumes "quiet ctx"
  shows "\<exists>ctx'. output_write check p ctx = (Inr (), ctx') \<and> same_op ctx ctx' \<and>
    wr_bytes (oc_output ctx') = wr_bytes (oc_output ctx) @ p"
proof -
  have "\<exists>ctx'. output_write check p ctx = (Inr (), ctx')"
    using assms by (auto simp: output_write_def quiet_def takes_all_def Let_def)
  moreover have "honest_writer (oc_output ctx)"
    using assms by (simp add: quiet_def takes_all_def honest_writer_def)
  ultimately show ?thesis using output_write_Inr by blast
qed

fun block_datas ::
  "libs \<Rightarrow> decrypt_request \<Rightarrow> Flags \<Rightarrow> bool \<Rightarrow> int \<Rightarrow> nat \<Rightarrow> byte list list \<Rightarrow> volume_error + byte list list" where
  "block_datas L req flags fast ctxTotal done [] = Inr []"
| "block_datas L req flags fast ctxTotal done (w # ws) =
     ebind (block_data L req flags fast (int (done + length w) \<ge> ctxTotal) w) (\<lambda>d.
     ebind (block_datas L req flags fast ctxTotal (done + length w) ws) (\<lambda>ds. Inr (d # ds)))"

lemma src_buf_size_pos: "0 < src_buf_size flags"
  by (simp add: src_buf_size_def)

text \<open>What the two loops see of a round: a block, and whether it was the last.\<close>

lemma ReadFull_round:
  assumes "rest \<noteq> []" and "0 < n"
  obtains err where "ReadFull n rest EOF = ((take n rest, err), drop n rest)"
    and "err = None \<and> n \<le> length rest \<or> err = Some UnexpectedEOF \<and> length rest < n \<and> drop n rest = []"
proof (cases "n \<le> length rest")
  case True
  then show ?thesis using assms that [of None] by (simp add: ReadFull_def)
next
  case False
  then show ?thesis using assms that [of "Some UnexpectedEOF"] by (simp add: ReadFull_def)
qed

lemma decrypt_loop_runs:
  assumes "quiet ctx" and "block_datas L req flags fast ctxTotal done (split_blocks (src_buf_size flags) rest) = Inr ds"
    and "dec_blocks L ds cs k = Inr (ps, cs')"
  shows "\<exists>ctx'. decrypt_loop L req flags fast ctxTotal rest EOF done cs k ctx = (Inr cs', ctx') \<and> same_op ctx ctx' \<and>
    wr_bytes (oc_output ctx') = wr_bytes (oc_output ctx) @ concat ps"
  using assms
proof (induction "length rest" arbitrary: rest "done" cs k ctx ds ps rule: less_induct)
  case less
  let ?n = "src_buf_size flags"
  note unfold = decrypt_loop.simps [of L req flags fast ctxTotal rest EOF "done" cs k]
  obtain ctx1 where p: "poll_cancelled ctx = (Inr (), ctx1)" "same_op ctx ctx1" "oc_output ctx1 = oc_output ctx"
    using quiet_poll [OF less.prems(1)] by blast
  show ?case
  proof (cases "rest = []")
    case True
    then have "ds = []" using less.prems(2) by simp
    then have "cs' = cs" "ps = []" using less.prems(3) by simp_all
    moreover have "ReadFull ?n rest EOF = (([], Some EOF), [])" using True src_buf_size_pos [of flags] by (simp add: ReadFull_def)
    ultimately show ?thesis unfolding unfold using p by (simp add: io_bind_def)
  next
    case False
    let ?w = "take ?n rest" let ?rest = "drop ?n rest"
    have w: "?w \<noteq> []" using False src_buf_size_pos [of flags] by simp
    have split: "split_blocks ?n rest = ?w # split_blocks ?n ?rest"
      using False src_buf_size_pos by (simp add: split_blocks_Cons)
    obtain d ds' where D: "block_data L req flags fast (int (done + length ?w) \<ge> ctxTotal) ?w = Inr d"
      "block_datas L req flags fast ctxTotal (done + length ?w) (split_blocks ?n ?rest) = Inr ds'" "ds = d # ds'"
      using less.prems(2) unfolding split by (auto simp: ebind_eq_Inr)
    obtain q tmp cs1 where dec: "suite_Decrypt d cs = ((q, tmp), cs1)" by (metis surj_pair)
    obtain cs2 k2 ps' where R: "maybe_rekey L (k + MiB) cs1 = Inr (cs2, k2)" "dec_blocks L ds' cs2 k2 = Inr (ps', cs')"
      "ps = q # ps'"
      using less.prems(3) dec unfolding D(3) by (auto simp: ebind_eq_Inr)
    have q1: "quiet ctx1" using same_op_quiet [OF p(2)] less.prems(1) by simp
    obtain ctx2 where W: "output_write True q ctx1 = (Inr (), ctx2)" "same_op ctx1 ctx2"
      "wr_bytes (oc_output ctx2) = wr_bytes (oc_output ctx1) @ q"
      using quiet_write [OF q1] by blast
    have block: "decrypt_block L req flags fast ctxTotal done ?w cs k ctx1 = (Inr (cs2, k2), ctx2)"
      using D(1) dec W(1) R(1) by (simp add: decrypt_block_def io_bind_def)
    have s2: "same_op ctx ctx2" by (rule same_op_trans [OF p(2) W(2)])
    obtain err where E: "ReadFull ?n rest EOF = ((?w, err), ?rest)"
      "err = None \<and> ?n \<le> length rest \<or> err = Some UnexpectedEOF \<and> length rest < ?n \<and> ?rest = []"
      using ReadFull_round [OF False src_buf_size_pos] by blast
    show ?thesis
    proof (cases err)
      case None
      then have len: "?n \<le> length rest" using E(2) by simp
      let ?done = "if flag_ReedSolomon flags then done + RSEncodedBlockSize else done + length ?w"
      have "?done = done + length ?w" using len by (auto simp: src_buf_size_def split: if_splits)
      then have datas: "block_datas L req flags fast ctxTotal ?done (split_blocks ?n ?rest) = Inr ds'" using D(2) by simp
      have q2: "quiet ctx2" using same_op_quiet [OF s2] less.prems(1) by simp
      have "length ?rest < length rest" using False src_buf_size_pos [of flags] by simp
      from less.hyps [OF this q2 datas R(2)] obtain ctx' where
        C: "decrypt_loop L req flags fast ctxTotal ?rest EOF ?done cs2 k2 ctx2 = (Inr cs', ctx')" "same_op ctx2 ctx'"
        "wr_bytes (oc_output ctx') = wr_bytes (oc_output ctx2) @ concat ps'" by blast
      have "same_op ctx ctx'" by (rule same_op_trans [OF s2 C(2)])
      then show ?thesis
        unfolding unfold using p E(1) w None block C W R(3) by (simp add: io_bind_def Let_def)
    next
      case (Some c)
      then have c: "c = UnexpectedEOF" "?rest = []" using E(2) by auto
      have "ds' = []" using D(2) c(2) by simp
      then have "ps' = []" "cs' = cs2" using R(2) by simp_all
      then show ?thesis
        unfolding unfold using p E(1) w Some c(1) block s2 W R(3) by (simp add: io_bind_def Let_def)
    qed
  qed
qed

lemma verify_loop_runs:
  assumes "quiet ctx" and "block_datas L req flags fast ctxTotal seen (split_blocks (src_buf_size flags) rest) = Inr ds"
  shows "\<exists>ctx'. verify_loop L req flags fast ctxTotal rest EOF seen macked ctx = (Inr (macked @ concat ds), ctx') \<and>
    same_op ctx ctx' \<and> oc_output ctx' = oc_output ctx"
  using assms
proof (induction "length rest" arbitrary: rest seen macked ctx ds rule: less_induct)
  case less
  let ?n = "src_buf_size flags"
  note unfold = verify_loop.simps [of L req flags fast ctxTotal rest EOF seen macked]
  obtain ctx1 where p: "poll_cancelled ctx = (Inr (), ctx1)" "same_op ctx ctx1" "oc_output ctx1 = oc_output ctx"
    using quiet_poll [OF less.prems(1)] by blast
  show ?case
  proof (cases "rest = []")
    case True
    then have "ds = []" using less.prems(2) by simp
    moreover have "ReadFull ?n rest EOF = (([], Some EOF), [])" using True src_buf_size_pos [of flags] by (simp add: ReadFull_def)
    ultimately show ?thesis unfolding unfold using p by (simp add: io_bind_def)
  next
    case False
    let ?w = "take ?n rest" let ?rest = "drop ?n rest"
    have w: "?w \<noteq> []" using False src_buf_size_pos [of flags] by simp
    have split: "split_blocks ?n rest = ?w # split_blocks ?n ?rest"
      using False src_buf_size_pos by (simp add: split_blocks_Cons)
    obtain d ds' where D: "block_data L req flags fast (int (seen + length ?w) \<ge> ctxTotal) ?w = Inr d"
      "block_datas L req flags fast ctxTotal (seen + length ?w) (split_blocks ?n ?rest) = Inr ds'" "ds = d # ds'"
      using less.prems(2) unfolding split by (auto simp: ebind_eq_Inr)
    have q1: "quiet ctx1" using same_op_quiet [OF p(2)] less.prems(1) by simp
    obtain err where E: "ReadFull ?n rest EOF = ((?w, err), ?rest)"
      "err = None \<and> ?n \<le> length rest \<or> err = Some UnexpectedEOF \<and> length rest < ?n \<and> ?rest = []"
      using ReadFull_round [OF False src_buf_size_pos] by blast
    show ?thesis
    proof (cases err)
      case None
      have "length ?rest < length rest" using False src_buf_size_pos [of flags] by simp
      from less.hyps [OF this q1 D(2), of "macked @ d"] obtain ctx' where
        C: "verify_loop L req flags fast ctxTotal ?rest EOF (seen + length ?w) (macked @ d) ctx1 = (Inr ((macked @ d) @ concat ds'), ctx')"
        "same_op ctx1 ctx'" "oc_output ctx' = oc_output ctx1" by blast
      have "same_op ctx ctx'" by (rule same_op_trans [OF p(2) C(2)])
      then show ?thesis
        unfolding unfold using p E(1) w None C D(1,3) by (simp add: io_bind_def)
    next
      case (Some c)
      then have c: "c = UnexpectedEOF" "?rest = []" using E(2) by auto
      have "ds' = []" using D(2) c(2) by simp
      then show ?thesis unfolding unfold using p E(1) w Some c(1) D(1,3) by (simp add: io_bind_def)
    qed
  qed
qed

end
