(* ===== verification/Legacy_Blocks.thy ===== *)
theory Legacy_Blocks
  imports Legacy_Payload
begin

text \<open>
  What the Reed-Solomon layer of a legacy payload gives back from damaged bytes: with full
  correction the encrypted blocks themselves, without it blocks of the same sizes that may or may not
  be the right ones.
\<close>

section \<open>Damage to a payload\<close>

text \<open>Bytes of the same number, in which no codeword of 136 bytes has more than \<open>t\<close> wrong ones;
  without the Reed-Solomon layer the same bytes.\<close>

definition chunks_near :: "nat \<Rightarrow> byte list \<Rightarrow> byte list \<Rightarrow> bool" where
  "chunks_near t xs ys \<longleftrightarrow> length ys = length xs \<and>
     (\<forall>i < length xs div 136. diffs (slice (i * 136) 136 xs) (slice (i * 136) 136 ys) \<le> t)"

definition payload_near :: "nat \<Rightarrow> bool \<Rightarrow> byte list \<Rightarrow> byte list \<Rightarrow> bool" where
  "payload_near t reedsolo xs ys \<longleftrightarrow> (if reedsolo then chunks_near t xs ys else ys = xs)"

lemma payload_near_length: "payload_near t reedsolo xs ys \<Longrightarrow> length ys = length xs"
  by (auto simp: payload_near_def chunks_near_def split: if_splits)

lemma chunks_near_append:
  assumes "chunks_near t (xs @ ys) zs" and "136 dvd length xs"
  shows "chunks_near t xs (take (length xs) zs) \<and> chunks_near t ys (drop (length xs) zs)"
proof -
  obtain k where k: "length xs = k * 136" using assms(2) by (metis dvd_def mult.commute)
  have len: "length zs = k * 136 + length ys" using assms(1) k by (simp add: chunks_near_def)
  have d: "diffs (slice (i * 136) 136 (xs @ ys)) (slice (i * 136) 136 zs) \<le> t"
    if "i < k + length ys div 136" for i
    using assms(1) that k by (simp add: chunks_near_def)
  have left: "slice (i * 136) 136 (xs @ ys) = slice (i * 136) 136 xs"
    "slice (i * 136) 136 (take (length xs) zs) = slice (i * 136) 136 zs" if "i < k" for i
  proof -
    have "Suc i * 136 \<le> k * 136" using that by (intro mult_le_mono1) simp
    then have *: "i * 136 + 136 \<le> length xs" using k by simp
    then show "slice (i * 136) 136 (xs @ ys) = slice (i * 136) 136 xs" by (rule slice_append_left)
    have "zs = take (length xs) zs @ drop (length xs) zs" by simp
    then show "slice (i * 136) 136 (take (length xs) zs) = slice (i * 136) 136 zs"
      using slice_append_left [of "i * 136" 136 "take (length xs) zs" "drop (length xs) zs"] * len k by simp
  qed
  have right: "slice ((k + i) * 136) 136 (xs @ ys) = slice (i * 136) 136 ys"
    "slice ((k + i) * 136) 136 zs = slice (i * 136) 136 (drop (length xs) zs)" for i
    using k by (simp_all add: slice_append_right add_mult_distrib) (simp add: slice_def add.commute)
  have "diffs (slice (i * 136) 136 ys) (slice (i * 136) 136 (drop (length xs) zs)) \<le> t"
    if "i < length ys div 136" for i
    using d [of "k + i"] that unfolding right by simp
  moreover have "diffs (slice (i * 136) 136 xs) (slice (i * 136) 136 (take (length xs) zs)) \<le> t"
    if "i < length xs div 136" for i
    using d [of i] left [of i] that k by simp
  ultimately show ?thesis using len k by (simp add: chunks_near_def)
qed

lemma payload_near_append:
  "payload_near t reedsolo (xs @ ys) zs \<Longrightarrow> (reedsolo \<Longrightarrow> 136 dvd length xs) \<Longrightarrow>
   payload_near t reedsolo xs (take (length xs) zs) \<and> payload_near t reedsolo ys (drop (length xs) zs)"
  using chunks_near_append [of t xs ys zs] by (auto simp: payload_near_def)

section \<open>One block\<close>

text \<open>A codec that repairs \<open>t\<close> wrong bytes of a payload codeword.\<close>

definition payload_ok :: "nat \<Rightarrow> libs \<Rightarrow> bool" where
  "payload_ok t L \<longleftrightarrow> fec_ok t (RS128 (lib_codecs L)) \<and> rs128 (RS128 (lib_codecs L))"

lemma encoded_length:
  assumes "payload_ok t L" and "encoded_as L reedsolo d e" and "length d \<le> MiB"
  shows "length e = (if reedsolo then 136 * length (payload_chunks d) else length d)"
proof (cases reedsolo)
  case True
  have "e = concat (map (codeword (RS128 (lib_codecs L))) (payload_chunks d))"
    using assms True EncodeRSPayloadBlock_codewords [of "lib_codecs L" d]
    by (simp add: encoded_as_def payload_ok_def fec_ok_def)
  moreover have "length (codeword (RS128 (lib_codecs L)) c) = 136" if "c \<in> set (payload_chunks d)" for c
    using payload_chunks_128 [OF that] assms(1) by (simp add: payload_ok_def rs128_def)
  ultimately show ?thesis using True by (simp add: length_concat_same)
next
  case False
  then show ?thesis using assms(2) by (simp add: encoded_as_def)
qed

text \<open>The last block is the one whose padding the flag describes.\<close>

definition flag_fits :: "Flags \<Rightarrow> bool \<Rightarrow> byte list \<Rightarrow> bool" where
  "flag_fits flags isLast d \<longleftrightarrow> (length d = MiB \<longrightarrow> \<not> (isLast \<and> flag_Padded flags)) \<and>
     (length d div 128 = 8191 \<longrightarrow> isLast \<and> flag_Padded flags)"

lemma block_data_corrects:
  assumes "payload_ok t L" and "encoded_as L (flag_ReedSolomon flags) d e" and "length d \<le> MiB"
    and "payload_near t (flag_ReedSolomon flags) e w" and "flag_fits flags isLast d"
  shows "block_data L req flags False isLast w = Inr d"
proof (cases "flag_ReedSolomon flags")
  case True
  have "DecodeRSPayloadBlock w (lib_codecs L) isLast (flag_Padded flags) (dr_ForceDecrypt req) False = Inr d"
    using assms True
    by (intro payload_roundtrip [of t "lib_codecs L" d e])
      (auto simp: payload_ok_def encoded_as_def payload_near_def chunks_near_def flag_fits_def)
  then show ?thesis using True by (simp add: block_data_def decodeWithRSFast_def)
next
  case False
  then show ?thesis using assms by (simp add: block_data_def encoded_as_def payload_near_def)
qed

text \<open>The fast pass takes the first 128 bytes of every codeword, whatever they are.\<close>

lemma decodeChunk_fast_take:
  "rs128 rs \<Longrightarrow> length w = 136 \<Longrightarrow> decodeChunk rs forceDecode True w = Inr (take 128 w)"
  by (simp add: decodeChunk_def rs_Decode_def rs128_def)

lemma block_data_fast:
  assumes "payload_ok t L" and "encoded_as L (flag_ReedSolomon flags) d e" and "length d \<le> MiB"
    and "payload_near t (flag_ReedSolomon flags) e w" and "flag_fits flags isLast d"
  shows "\<exists>x. block_data L req flags True isLast w = Inr x \<and> (length d = MiB \<longrightarrow> length x = MiB)"
proof (cases "flag_ReedSolomon flags")
  case True
  let ?rs = "RS128 (lib_codecs L)" and ?n = "length (payload_chunks d)"
  have len: "length w = 136 * ?n"
    using payload_near_length [OF assms(4)] encoded_length [OF assms(1-3)] True by simp
  have chunk: "decodeChunk ?rs f True (slice (i * 136) 136 w) = Inr (take 128 (slice (i * 136) 136 w))"
    if "i < ?n" for i f
  proof (rule decodeChunk_fast_take)
    have "Suc i * 136 \<le> ?n * 136" using that by (intro mult_le_mono1) simp
    then show "length (slice (i * 136) 136 w) = 136" using len by simp
  qed (use assms(1) in \<open>simp add: payload_ok_def\<close>)
  note n = length_payload_chunks [OF assms(3)]
  have "\<exists>x. DecodeRSPayloadBlock w (lib_codecs L) isLast (flag_Padded flags) (dr_ForceDecrypt req) True = Inr x \<and>
    (length d = MiB \<longrightarrow> length x = MiB)"
  proof (cases "length w = RSEncodedBlockSize")
    case full: True
    let ?g = "\<lambda>i. if isLast \<and> i * 136 = RSEncodedBlockSize - 136 \<and> flag_Padded flags
      then Unpad (take 128 (slice (i * 136) 136 w)) else take 128 (slice (i * 136) 136 w)"
    have "?n = 8192" using full len by simp
    then have parts: "emap (\<lambda>i. ebind (decodeChunk ?rs (dr_ForceDecrypt req) True (slice (i * 136) 136 w))
        (\<lambda>decoded. Inr (if isLast \<and> i * 136 = RSEncodedBlockSize - 136 \<and> flag_Padded flags
           then Unpad decoded else decoded))) [0..<8192] = Inr (map ?g [0..<8192])"
      using chunk by (intro emap_all_Inr) auto
    have "length (concat (map ?g [0..<8192])) = 128 * 8192" if "length d = MiB"
    proof -
      have "length (?g i) = 128" if "i \<in> set [0..<8192]" for i
      proof -
        have "Suc i * 136 \<le> 8192 * 136" using that by (intro mult_le_mono1) simp
        then show ?thesis using full assms(5) \<open>length d = MiB\<close> by (auto simp: flag_fits_def)
      qed
      then show ?thesis by (subst length_concat_same [where n = 128]) simp_all
    qed
    then show ?thesis
      using full parts by (simp add: DecodeRSPayloadBlock_def del: upt_rec_numeral)
  next
    case False
    then have small: "length d \<noteq> MiB" using len n by auto
    have "?n \<noteq> 0" using n by (simp split: if_splits)
    then obtain k where k: "?n = Suc k" by (cases ?n) auto
    have "emap (\<lambda>i. decodeChunk ?rs (dr_ForceDecrypt req) True (slice (i * 136) 136 w)) [0..<k] =
        Inr (map (\<lambda>i. take 128 (slice (i * 136) 136 w)) [0..<k])"
      using chunk k by (intro emap_all_Inr) auto
    then show ?thesis
      using False small len k chunk [of k] by (simp add: DecodeRSPayloadBlock_def Let_def)
  qed
  then show ?thesis using True by (auto simp: block_data_def decodeWithRSFast_def)
next
  case False
  then show ?thesis using assms by (auto simp: block_data_def encoded_as_def payload_near_def)
qed

section \<open>All blocks\<close>

lemma encoded_block_size:
  assumes "payload_ok t L" and "encoded_as L (flag_ReedSolomon flags) d e" and "d \<noteq> []" and "length d \<le> MiB"
  shows "e \<noteq> [] \<and> length e \<le> src_buf_size flags \<and> (length d = MiB \<longrightarrow> length e = src_buf_size flags) \<and>
    (flag_ReedSolomon flags \<longrightarrow> 136 dvd length e)"
proof (cases "flag_ReedSolomon flags")
  case True
  have "length d div 128 < 8192" if "length d \<noteq> MiB" using that assms(4) by (simp add: div_less_iff_less_mult)
  then have "0 < length (payload_chunks d) \<and> length (payload_chunks d) \<le> 8192 \<and>
      (length d = MiB \<longrightarrow> length (payload_chunks d) = 8192)"
    using length_payload_chunks [OF assms(4)] by auto
  then show ?thesis
    using encoded_length [OF assms(1,2,4)] True by (auto simp: src_buf_size_def)
next
  case False
  then show ?thesis using assms by (simp add: encoded_as_def src_buf_size_def)
qed

lemma block_datas_of_blocks:
  assumes ok: "payload_ok t L"
    and block: "\<And>d e w isLast. encoded_as L (flag_ReedSolomon flags) d e \<Longrightarrow> length d \<le> MiB \<Longrightarrow>
      payload_near t (flag_ReedSolomon flags) e w \<Longrightarrow> flag_fits flags isLast d \<Longrightarrow>
      \<exists>x. block_data L req flags fast isLast w = Inr x \<and> R d x"
    and "full_blocks MiB ds" and "list_all2 (encoded_as L (flag_ReedSolomon flags)) ds es"
    and "payload_near t (flag_ReedSolomon flags) (concat es) w"
    and "ds \<noteq> [] \<Longrightarrow> flag_fits flags True (last ds)"
  shows "\<exists>xs. block_datas L req flags fast (int (seen + length w)) seen (split_blocks (src_buf_size flags) w) = Inr xs \<and>
    list_all2 R ds xs"
  using assms(3-6)
proof (induction ds arbitrary: es w seen)
  case Nil
  then have "w = []" using payload_near_length by fastforce
  then show ?case by simp
next
  case (Cons d ds)
  let ?n = "src_buf_size flags" and ?rs = "flag_ReedSolomon flags"
  obtain e es' where es: "es = e # es'" "encoded_as L ?rs d e" "list_all2 (encoded_as L ?rs) ds es'"
    using Cons.prems(2) by (auto simp: list_all2_Cons1)
  have d: "d \<noteq> []" "length d \<le> MiB" using Cons.prems(1) by (auto simp: full_blocks_Cons split: if_splits)
  note e = encoded_block_size [OF ok es(2) d]
  note len = payload_near_length [OF Cons.prems(3)]
  have near: "payload_near t ?rs e (take (length e) w)" "payload_near t ?rs (concat es') (drop (length e) w)"
    using payload_near_append [of t ?rs e "concat es'" w] Cons.prems(3) es(1) e by simp_all
  have w: "w \<noteq> []" using len es(1) e by auto
  show ?case
  proof (cases "ds = []")
    case True
    then have "es' = []" using es(3) by simp
    then have "length w = length e" using len es(1) by simp
    then have "take (length e) w = w" "split_blocks ?n w = [w]"
      using w e split_blocks_Cons [OF w src_buf_size_pos [of flags]] by simp_all
    moreover have "flag_fits flags True d" using Cons.prems(4) True by simp
    ultimately show ?thesis using block [OF es(2) d(2), of w True] near(1) True by auto
  next
    case False
    then have full: "length d = MiB" "full_blocks MiB ds" using Cons.prems(1) by (simp_all add: full_blocks_Cons)
    have n: "length e = ?n" using e full(1) by simp
    have split: "split_blocks ?n w = take (length e) w # split_blocks ?n (drop (length e) w)"
      using split_blocks_Cons [OF w src_buf_size_pos [of flags]] n by simp
    have wl: "length w = length e + length (concat es')" using len es(1) by simp
    obtain e2 es2 d2 ds2 where two: "es' = e2 # es2" "ds = d2 # ds2" "encoded_as L ?rs d2 e2"
      using False es(3) by (cases ds) (auto simp: list_all2_Cons1)
    have "d2 \<noteq> []" "length d2 \<le> MiB" using full(2) two(2) by (auto simp: full_blocks_Cons split: if_splits)
    then have "concat es' \<noteq> []" using encoded_block_size [OF ok two(3)] two(1) by simp
    then have notlast: "\<not> int (seen + length (take (length e) w)) \<ge> int (seen + length w)" using wl by simp
    have "flag_fits flags False d" using full(1) by (simp add: flag_fits_def)
    then obtain x where x: "block_data L req flags fast False (take (length e) w) = Inr x" "R d x"
      using block [OF es(2) d(2) near(1)] by blast
    have "flag_fits flags True (last ds)" using Cons.prems(4) False by simp
    then obtain xs where xs: "block_datas L req flags fast (int (seen + length e + length (drop (length e) w)))
        (seen + length e) (split_blocks ?n (drop (length e) w)) = Inr xs" "list_all2 R ds xs"
      using Cons.IH [OF full(2) es(3) near(2), of "seen + length e"] by blast
    have total: "seen + length e + length (drop (length e) w) = seen + length w" "length (take (length e) w) = length e"
      using wl by simp_all
    show ?thesis
      using x xs notlast unfolding split total
      by (intro exI [of _ "x # xs"]) (simp add: total)
  qed
qed

section \<open>The payload of a volume\<close>

lemma last_block_length:
  "full_blocks n ds \<Longrightarrow> ds \<noteq> [] \<Longrightarrow> length (concat ds) mod n = length (last ds) mod n"
proof (induction ds)
  case (Cons d ds)
  show ?case
  proof (cases "ds = []")
    case False
    then have "length d = n" "full_blocks n ds" using Cons.prems(1) by (simp_all add: full_blocks_Cons)
    then show ?thesis using Cons.IH False by simp
  qed simp
qed simp

text \<open>The flag computed from the size of the plaintext fits its last block.\<close>

lemma padded_fits:
  assumes "full_blocks MiB ds" and "ds \<noteq> []" and "flag_Padded flags = (length (concat ds) mod MiB \<ge> MiB - 128)"
  shows "flag_fits flags True (last ds)"
proof -
  have len: "length (last ds) \<le> MiB" using assms(1,2) by (simp add: full_blocks_def)
  note mod = last_block_length [OF assms(1,2)]
  show ?thesis
  proof (cases "length (last ds) = MiB")
    case True
    then show ?thesis using mod assms(3) by (simp add: flag_fits_def)
  next
    case False
    then have "flag_Padded flags = (length (last ds) \<ge> MiB - 128)" using mod len assms(3) by simp
    moreover have "MiB - 128 \<le> length (last ds)" if "length (last ds) div 128 = 8191"
      using that div_times_less_eq_dividend [of "length (last ds)" 128] by simp
    ultimately show ?thesis using False by (simp add: flag_fits_def)
  qed
qed

lemma same_cut:
  "full_blocks n ds \<Longrightarrow> list_all2 (\<lambda>d x. length d = n \<longrightarrow> length x = n) ds xs \<Longrightarrow> concat xs = concat ds \<Longrightarrow> xs = ds"
proof (induction ds arbitrary: xs)
  case (Cons d ds)
  obtain x xs' where xs: "xs = x # xs'" "length d = n \<longrightarrow> length x = n"
    "list_all2 (\<lambda>d x. length d = n \<longrightarrow> length x = n) ds xs'"
    using Cons.prems(2) by (auto simp: list_all2_Cons1)
  show ?case
  proof (cases "ds = []")
    case True
    then show ?thesis using xs Cons.prems(3) by simp
  next
    case False
    then have "length d = n" "full_blocks n ds" using Cons.prems(1) by (simp_all add: full_blocks_Cons)
    then show ?thesis using xs Cons.prems(3) Cons.IH by simp
  qed
qed simp

lemma all2_equal: "list_all2 (\<lambda>d x. x = d) ds xs \<Longrightarrow> xs = ds"
  by (induction rule: list_all2_induct) auto

definition payload_of :: "libs \<Rightarrow> Flags \<Rightarrow> byte list list \<Rightarrow> byte list list \<Rightarrow> bool" where
  "payload_of L flags ds es \<longleftrightarrow> full_blocks MiB ds \<and> list_all2 (encoded_as L (flag_ReedSolomon flags)) ds es \<and>
     flag_Padded flags = (length (concat ds) mod MiB \<ge> MiB - 128)"

lemma payload_corrected:
  assumes "payload_ok t L" and "payload_of L flags ds es" and "payload_near t (flag_ReedSolomon flags) (concat es) w"
  shows "block_datas L req flags False (int (length w)) 0 (split_blocks (src_buf_size flags) w) = Inr ds"
proof -
  have "\<exists>xs. block_datas L req flags False (int (0 + length w)) 0 (split_blocks (src_buf_size flags) w) = Inr xs \<and>
    list_all2 (\<lambda>d x. x = d) ds xs"
    using assms padded_fits block_data_corrects [OF assms(1)]
    by (intro block_datas_of_blocks [where t = t and es = es]) (auto simp: payload_of_def)
  then show ?thesis by (auto dest: all2_equal)
qed

lemma payload_fast:
  assumes "payload_ok t L" and "payload_of L flags ds es" and "payload_near t (flag_ReedSolomon flags) (concat es) w"
  shows "\<exists>xs. block_datas L req flags True (int (length w)) 0 (split_blocks (src_buf_size flags) w) = Inr xs \<and>
    length xs = length ds \<and> (concat xs = concat ds \<longrightarrow> xs = ds)"
proof -
  have "\<exists>xs. block_datas L req flags True (int (0 + length w)) 0 (split_blocks (src_buf_size flags) w) = Inr xs \<and>
    list_all2 (\<lambda>d x. length d = MiB \<longrightarrow> length x = MiB) ds xs"
    using assms padded_fits block_data_fast [OF assms(1)]
    by (intro block_datas_of_blocks [where t = t and es = es]) (auto simp: payload_of_def)
  then obtain xs where xs: "block_datas L req flags True (int (length w)) 0 (split_blocks (src_buf_size flags) w) = Inr xs"
    "list_all2 (\<lambda>d x. length d = MiB \<longrightarrow> length x = MiB) ds xs" by auto
  have "length xs = length ds" using list_all2_lengthD [OF xs(2)] by simp
  moreover have "concat xs = concat ds \<longrightarrow> xs = ds" using assms(2) same_cut [OF _ xs(2)] by (simp add: payload_of_def)
  ultimately show ?thesis using xs(1) by blast
qed

lemma fast_without_reedsolo:
  assumes "payload_ok t L" and "payload_of L flags ds es" and "\<not> flag_ReedSolomon flags" and "w = concat es"
  shows "block_datas L req flags fast (int (length w)) 0 (split_blocks (src_buf_size flags) w) = Inr ds"
proof -
  have "\<exists>xs. block_datas L req flags fast (int (0 + length w)) 0 (split_blocks (src_buf_size flags) w) = Inr xs \<and>
    list_all2 (\<lambda>d x. x = d) ds xs"
    using assms padded_fits
    by (intro block_datas_of_blocks [where t = t and es = es])
      (auto simp: payload_of_def payload_near_def block_data_def encoded_as_def)
  then show ?thesis by (auto dest: all2_equal)
qed

end
