(* ===== verification/Legacy_Volume_Round_Trip.thy ===== *)
theory Legacy_Volume_Round_Trip
  imports Legacy_Blocks
begin

text \<open>
  A volume of the second format that \<open>encryptLegacy\<close> has written, damaged within the reach of its
  Reed-Solomon codes, is decrypted by \<open>decryptLegacy\<close> to the plaintext.
\<close>

section \<open>What encryption leaves\<close>

text \<open>The keys of a header: from the password form the key, the HKDF stream, the payload MAC and
  the fresh cipher suite.\<close>

definition volume_keys ::
  "libs \<Rightarrow> byte list \<Rightarrow> VolumeHeader \<Rightarrow> byte list \<Rightarrow> byte list \<Rightarrow> (byte list \<Rightarrow> byte list) \<Rightarrow> CipherSuite \<Rightarrow> bool" where
  "volume_keys L pw h key hk mac cs \<longleftrightarrow>
     DeriveKey (lib_IDKey L) pw (vh_Salt h) (flag_Paranoid (vh_Flags h)) = Inr key \<and>
     hk = lib_hkdf L key (vh_HKDFSalt h) \<and> 128 \<le> length hk \<and>
     NewMAC (lib_prims L) (slice 64 32 hk) (flag_Paranoid (vh_Flags h)) = Some mac \<and>
     NewCipherSuite (lib_prims L) key (vh_Nonce h) (slice 96 32 hk) (vh_SerpentIV h) mac (drop 128 hk)
       (flag_Paranoid (vh_Flags h)) = Inr cs"

lemma NewCipherSuite_fresh:
  "NewCipherSuite P key nonce sk iv mac hkdf paranoid = Inr cs \<Longrightarrow> cs_mac cs = mac \<and> cs_macked cs = []"
  by (auto simp: NewCipherSuite_def ebind_eq_Inr Let_def split: if_splits option.splits)

definition after_header_subkey :: "byte list \<Rightarrow> SubkeyReader" where
  "after_header_subkey hk = \<lparr>sk_hkdf = drop 64 hk, sk_headerRead = True, sk_macRead = False, sk_serpentRead = False\<rparr>"

lemma payload_mac_eq:
  assumes "oc_SubkeyReader ctx = after_header_subkey hk"
  shows "payload_mac L paranoid ctx =
    (if length hk < 96 then (Inl (VCrypto MACSubkeyRead), ctx)
     else if length hk < 128 then (Inl (VCrypto SerpentKeyRead), ctx\<lparr>oc_SubkeyReader := (after_header_subkey hk)
       \<lparr>sk_hkdf := drop 96 hk, sk_macRead := True\<rparr>\<rparr>)
     else case NewMAC (lib_prims L) (slice 64 32 hk) paranoid of
       None \<Rightarrow> (Inl (VCrypto MACRefused), ctx\<lparr>oc_SubkeyReader :=
          \<lparr>sk_hkdf = drop 128 hk, sk_headerRead = True, sk_macRead = True, sk_serpentRead = True\<rparr>\<rparr>)
     | Some mac \<Rightarrow> (Inr (mac, slice 96 32 hk), ctx\<lparr>oc_SubkeyReader :=
          \<lparr>sk_hkdf = drop 128 hk, sk_headerRead = True, sk_macRead = True, sk_serpentRead = True\<rparr>\<rparr>))"
  using assms
  by (auto simp: payload_mac_def op_subkey_def io_bind_def MACSubkey_def SerpentKey_def after_header_subkey_def
      slice_def from_opt_def io_ret_def io_lift_def split: option.splits)

text \<open>The phases before the payload.\<close>

lemma encryptGenerateValues_Inr:
  assumes "encryptGenerateValues rand (Inr n) req ctx = (Inr (), ctx')"
  shows "\<exists>h. ctx' = ctx\<lparr>oc_Total := int n, oc_Padded := (n mod MiB \<ge> MiB - 128), oc_Header := h\<rparr> \<and>
    vh_Version h = CurrentVersion \<and> vh_Comments h = er_Comments req \<and>
    vh_Flags h = \<lparr>flag_Paranoid = er_Paranoid req, flag_UseKeyfiles = er_Keyfiles req \<noteq> [],
      flag_KeyfileOrdered = er_KeyfileOrdered req, flag_ReedSolomon = er_ReedSolomon req,
      flag_Padded = (n mod MiB \<ge> MiB - 128)\<rparr>"
  using assms
  by (auto simp: encryptGenerateValues_def io_bind_eq_Inr op_set_def NewVolumeHeader_def Let_def)

lemma encryptComputeAuth_Inr:
  assumes "encryptComputeAuth L ctx = (Inr (), ctx')"
  shows "\<exists>hk. hk = lib_hkdf L (oc_Key ctx) (vh_HKDFSalt (oc_Header ctx)) \<and>
    ctx' = ctx\<lparr>oc_SubkeyReader := after_header_subkey hk,
      oc_Header := (oc_Header ctx)
       \<lparr>vh_KeyHash := ComputeV2HeaderMAC (prim_hmac_sha3 (lib_prims L)) (take 64 hk) (oc_Header ctx) (oc_KeyfileHash ctx),
        vh_KeyfileHash := oc_KeyfileHash ctx\<rparr>\<rparr>"
  using assms
  by (auto simp: encryptComputeAuth_def io_bind_eq_Inr op_set_def op_subkey_def HeaderSubkey_def NewSubkeyReader_def
      after_header_subkey_def split: if_splits)

lemma encryptPayload_Inr:
  assumes "encryptPayload L req ctx = (Inr (), ctx')"
    and "oc_SubkeyReader ctx = after_header_subkey hk" and "\<not> oc_UseKeyfiles ctx"
    and "er_Paranoid req = flag_Paranoid (vh_Flags (oc_Header ctx))" and "honest_writer (oc_output ctx)"
    and "DeriveKey (lib_IDKey L) pw (vh_Salt (oc_Header ctx)) (er_Paranoid req) = Inr (oc_Key ctx)"
    and "hk = lib_hkdf L (oc_Key ctx) (vh_HKDFSalt (oc_Header ctx))"
  shows "\<exists>mac cs cs' ds es. volume_keys L pw (oc_Header ctx) (oc_Key ctx) hk mac cs \<and>
    enc_blocks L (split_blocks MiB (oc_input ctx)) cs 0 = Inr (ds, cs') \<and>
    list_all2 (encoded_as L (er_ReedSolomon req)) ds es \<and> oc_CipherSuite ctx' = Some cs' \<and>
    wr_bytes (oc_output ctx') = wr_bytes (oc_output ctx) @ concat es \<and>
    oc_Header ctx' = oc_Header ctx \<and> oc_write_at ctx' = oc_write_at ctx"
proof -
  have x: "xor_keyfile_key True ctx = (Inr (), ctx)" using assms(3) by (simp add: xor_keyfile_key_def split: option.splits)
  obtain cs ctx1 where S: "payload_suite L (er_Paranoid req) ctx = (Inr cs, ctx1)"
    and rest: "io_bind (encrypt_loop L (er_ReedSolomon req) (oc_input ctx1) (oc_input_end ctx1) cs 0)
       (\<lambda>cs. op_set (\<lambda>ctx. ctx\<lparr>oc_CipherSuite := Some cs\<rparr>)) ctx1 = (Inr (), ctx')"
    using assms(1) x by (auto simp: encryptPayload_def io_bind_eq_Inr op_get_def)
  define r where "r = \<lparr>sk_hkdf = drop 128 hk, sk_headerRead = True, sk_macRead = True, sk_serpentRead = True\<rparr>"
  obtain mac where M: "128 \<le> length hk" "NewMAC (lib_prims L) (slice 64 32 hk) (er_Paranoid req) = Some mac"
    "ctx1 = ctx\<lparr>oc_SubkeyReader := r\<rparr>"
    "NewCipherSuite (lib_prims L) (oc_Key ctx) (vh_Nonce (oc_Header ctx)) (slice 96 32 hk) (vh_SerpentIV (oc_Header ctx))
       mac (drop 128 hk) (er_Paranoid req) = Inr cs"
    using S payload_mac_eq [OF assms(2), of L "er_Paranoid req"]
    by (auto simp: payload_suite_def io_bind_eq_Inr op_get_def r_def split: if_splits option.splits)
  obtain cs' ctx2 where E: "encrypt_loop L (er_ReedSolomon req) (oc_input ctx1) (oc_input_end ctx1) cs 0 ctx1 = (Inr cs', ctx2)"
    "ctx' = ctx2\<lparr>oc_CipherSuite := Some cs'\<rparr>"
    using rest by (auto simp: io_bind_eq_Inr op_set_def)
  have hon: "honest_writer (oc_output ctx1)" using assms(5) M(3) by simp
  obtain ds es where D: "enc_blocks L (split_blocks MiB (oc_input ctx1)) cs 0 = Inr (ds, cs')"
    "list_all2 (encoded_as L (er_ReedSolomon req)) ds es" "same_op ctx1 ctx2"
    "wr_bytes (oc_output ctx2) = wr_bytes (oc_output ctx1) @ concat es"
    using encrypt_loop_Inr [OF E(1) hon] by blast
  have "oc_Header ctx2 = oc_Header ctx" "oc_write_at ctx2 = oc_write_at ctx" using D(3) M(3) by (auto simp: same_op_def)
  then show ?thesis
    using D M assms(4,6,7) E(2)
    by (intro exI [of _ mac] exI [of _ cs] exI [of _ cs'] exI [of _ ds] exI [of _ es]) (simp add: volume_keys_def)
qed

text \<open>A context as an operation finds it, whose output keeps the contract of its interface.\<close>

definition fresh_output :: "op_context \<Rightarrow> bool" where
  "fresh_output ctx \<longleftrightarrow> wr_bytes (oc_output ctx) = [] \<and> honest_writer (oc_output ctx) \<and> \<not> oc_UseKeyfiles ctx \<and>
     (\<forall>k p n. oc_write_at ctx k p = (n, None) \<longrightarrow> n = length p)"

definition written_volume ::
  "libs \<Rightarrow> byte list \<Rightarrow> byte list \<Rightarrow> VolumeHeader \<Rightarrow> byte list list \<Rightarrow> byte list list \<Rightarrow> CipherSuite \<Rightarrow> byte list \<Rightarrow> bool" where
  "written_volume L pw plain h ds es cs' bytes \<longleftrightarrow>
     (\<exists>key hk mac cs. volume_keys L pw h key hk mac cs \<and>
        vh_KeyHash h = ComputeV2HeaderMAC (prim_hmac_sha3 (lib_prims L)) (take 64 hk) h (replicate 32 0) \<and>
        enc_blocks L (split_blocks MiB plain) cs 0 = Inr (ds, cs')) \<and>
     wf_header h \<and> vh_Version h = CurrentVersion \<and> \<not> flag_UseKeyfiles (vh_Flags h) \<and>
     vh_KeyfileHash h = replicate 32 0 \<and> vh_AuthTag h = suite_Sum cs' \<and>
     payload_of L (vh_Flags h) ds es \<and> bytes = concat (header_words (lib_codecs L) h) @ concat es"

lemma current_version_supported: "IsSupportedVersion CurrentVersion"
  by (simp add: IsSupportedVersion_def MatchVersion_def is_digit_def ascii_def)

lemma payload_of_encrypted:
  assumes "enc_blocks L (split_blocks MiB plain) cs k = Inr (ds, cs')"
    and "list_all2 (encoded_as L (flag_ReedSolomon flags)) ds es"
    and "flag_Padded flags = (length plain mod MiB \<ge> MiB - 128)"
  shows "payload_of L flags ds es"
proof -
  have l: "map length (split_blocks MiB plain) = map length ds" using dec_enc_blocks [OF assms(1)] by simp
  have "full_blocks MiB (split_blocks MiB plain)" by (simp add: full_split_blocks)
  then have "full_blocks MiB ds" using full_blocks_same_lengths [OF _ l] by blast
  moreover have "length (concat ds) = length plain"
    using l concat_split_blocks [of MiB plain] by (simp add: length_concat [symmetric]) (metis length_concat)
  ultimately show ?thesis using assms(2,3) by (simp add: payload_of_def)
qed

text \<open>The phases up to the authentication of the header: its words are in the output, and the key and
  the HKDF stream are at hand.\<close>

lemma encrypt_front_Inr:
  assumes "Validate_legacy req = Inr ()" "encryptGenerateValues rand (Inr n) req e = (Inr (), e1)"
    "encryptWriteHeader L e1 = (Inr (), e2)" "encryptDeriveKeys L req e2 = (Inr (), e3)"
    "encryptProcessKeyfiles L req e3 = (Inr (), e4)" "encryptComputeAuth L e4 = (Inr (), e5)"
  obtains h key hk w where "vh_Version h = CurrentVersion" "vh_Comments h = er_Comments req"
    "vh_Flags h = \<lparr>flag_Paranoid = er_Paranoid req, flag_UseKeyfiles = False, flag_KeyfileOrdered = er_KeyfileOrdered req,
       flag_ReedSolomon = er_ReedSolomon req, flag_Padded = (n mod MiB \<ge> MiB - 128)\<rparr>"
    "WriteHeader (lib_codecs L) h (oc_output e) = (Inr (), w)"
    "DeriveKey (lib_IDKey L) (EncodeForKDF L (er_Password req)) (vh_Salt h) (er_Paranoid req) = Inr key"
    "hk = lib_hkdf L key (vh_HKDFSalt h)"
    "e5 = e\<lparr>oc_Total := int n, oc_Padded := (n mod MiB \<ge> MiB - 128), oc_output := w, oc_Key := key,
       oc_KeyfileHash := replicate 32 0, oc_SubkeyReader := after_header_subkey hk,
       oc_Header := h\<lparr>vh_KeyHash := ComputeV2HeaderMAC (prim_hmac_sha3 (lib_prims L)) (take 64 hk) h (replicate 32 0),
         vh_KeyfileHash := replicate 32 0\<rparr>\<rparr>"
proof -
  have nokf: "er_Keyfiles req = []" using assms(1) by (simp add: Validate_legacy_def split: if_splits)
  obtain h where H: "e1 = e\<lparr>oc_Total := int n, oc_Padded := (n mod MiB \<ge> MiB - 128), oc_Header := h\<rparr>"
    "vh_Version h = CurrentVersion" "vh_Comments h = er_Comments req"
    "vh_Flags h = \<lparr>flag_Paranoid = er_Paranoid req, flag_UseKeyfiles = False, flag_KeyfileOrdered = er_KeyfileOrdered req,
       flag_ReedSolomon = er_ReedSolomon req, flag_Padded = (n mod MiB \<ge> MiB - 128)\<rparr>"
    using encryptGenerateValues_Inr [OF assms(2)] nokf by auto
  obtain w where W: "WriteHeader (lib_codecs L) h (oc_output e) = (Inr (), w)" "e2 = e1\<lparr>oc_output := w\<rparr>"
    using assms(3) H(1) by (auto simp: encryptWriteHeader_def split: prod.splits)
  obtain key where K: "DeriveKey (lib_IDKey L) (EncodeForKDF L (er_Password req)) (vh_Salt h) (er_Paranoid req) = Inr key"
    "e3 = e2\<lparr>oc_Key := key\<rparr>"
    using assms(4) W(2) H(1) by (auto simp: encryptDeriveKeys_def io_bind_eq_Inr op_get_def op_set_def)
  have P: "e4 = e3\<lparr>oc_KeyfileHash := replicate 32 0\<rparr>"
    using assms(5) nokf by (auto simp: encryptProcessKeyfiles_def op_set_def)
  show thesis
    by (rule that [OF H(2-4) W(1) K(1) refl]) (use encryptComputeAuth_Inr [OF assms(6)] P K(2) W(2) H(1) in auto)
qed

lemma encryptLegacy_Inr:
  assumes run: "encryptLegacy L rand (Inr (length (oc_input e))) req e = (Inr (), e')"
    and ok: "legacy_ok t (lib_codecs L)" and fresh: "fresh_output e"
  shows "\<exists>h ds es cs'. written_volume L (EncodeForKDF L (er_Password req)) (oc_input e) h ds es cs' (wr_bytes (oc_output e')) \<and>
    vh_Comments h = er_Comments req \<and> flag_ReedSolomon (vh_Flags h) = er_ReedSolomon req \<and> oc_CipherSuite e' = Some cs' \<and>
    vh_Flags (oc_Header e') = vh_Flags h \<and> vh_Comments (oc_Header e') = vh_Comments h"
proof -
  let ?n = "length (oc_input e)" and ?cs = "lib_codecs L" and ?pw = "EncodeForKDF L (er_Password req)"
  obtain e1 e2 e3 e4 e5 e6 where R: "Validate_legacy req = Inr ()"
    "encryptGenerateValues rand (Inr ?n) req e = (Inr (), e1)"
    "encryptWriteHeader L e1 = (Inr (), e2)" "encryptDeriveKeys L req e2 = (Inr (), e3)"
    "encryptProcessKeyfiles L req e3 = (Inr (), e4)" "encryptComputeAuth L e4 = (Inr (), e5)"
    and run': "encryptPayload L req e5 = (Inr (), e6)" "encryptFinalize L e6 = (Inr (), e')"
    using run by (auto simp: encryptLegacy_def io_bind_eq_Inr)
  obtain h key hk w where H: "vh_Version h = CurrentVersion" "vh_Comments h = er_Comments req"
    "vh_Flags h = \<lparr>flag_Paranoid = er_Paranoid req, flag_UseKeyfiles = False, flag_KeyfileOrdered = er_KeyfileOrdered req,
       flag_ReedSolomon = er_ReedSolomon req, flag_Padded = (?n mod MiB \<ge> MiB - 128)\<rparr>"
    and W: "WriteHeader ?cs h (oc_output e) = (Inr (), w)"
    and K: "DeriveKey (lib_IDKey L) ?pw (vh_Salt h) (er_Paranoid req) = Inr key" "hk = lib_hkdf L key (vh_HKDFSalt h)"
    and A: "e5 = e\<lparr>oc_Total := int ?n, oc_Padded := (?n mod MiB \<ge> MiB - 128), oc_output := w, oc_Key := key,
       oc_KeyfileHash := replicate 32 0, oc_SubkeyReader := after_header_subkey hk,
       oc_Header := h\<lparr>vh_KeyHash := ComputeV2HeaderMAC (prim_hmac_sha3 (lib_prims L)) (take 64 hk) h (replicate 32 0),
         vh_KeyfileHash := replicate 32 0\<rparr>\<rparr>"
    by (rule encrypt_front_Inr [OF R])
  define h1 where "h1 = h\<lparr>vh_KeyHash := ComputeV2HeaderMAC (prim_hmac_sha3 (lib_prims L)) (take 64 hk) h (replicate 32 0),
      vh_KeyfileHash := replicate 32 0\<rparr>"
  have "honest_writer w"
    using WriteHeader_writes [OF ok, of h, unfolded writes_def, rule_format, OF _ W(1)] fresh appended_honest
    by (auto simp: fresh_output_def)
  then obtain mac cs cs' ds es where E: "volume_keys L ?pw h1 key hk mac cs"
    "enc_blocks L (split_blocks MiB (oc_input e)) cs 0 = Inr (ds, cs')"
    "list_all2 (encoded_as L (er_ReedSolomon req)) ds es" "oc_CipherSuite e6 = Some cs'"
    "wr_bytes (oc_output e6) = wr_bytes w @ concat es" "oc_Header e6 = h1" "oc_write_at e6 = oc_write_at e"
    using encryptPayload_Inr [OF run'(1), of hk ?pw] fresh H(3) K unfolding A h1_def by (auto simp: fresh_output_def)
  let ?f = "\<lparr>fl_bytes = wr_bytes w @ concat es, fl_calls = 0, fl_answer = oc_write_at e\<rparr>"
  obtain f' where F: "WriteAuthValues (AuthValuesOffset (length (vh_Comments h))) (vh_KeyHash h1) (vh_KeyfileHash h1)
      (suite_Sum cs') ?cs ?f = (Inr (), f')" "wr_bytes (oc_output e') = fl_bytes f'" "oc_CipherSuite e' = Some cs'"
      "oc_Header e' = h1"
    using run'(2) E(4-7) by (auto simp: encryptFinalize_def h1_def split: prod.splits)
  define h2 where "h2 = h1\<lparr>vh_AuthTag := suite_Sum cs'\<rparr>"
  have "h2 = h\<lparr>vh_KeyHash := vh_KeyHash h1, vh_KeyfileHash := vh_KeyfileHash h1, vh_AuthTag := suite_Sum cs'\<rparr>"
    by (simp add: h2_def h1_def)
  then have wf: "wf_header h2 \<and> fl_bytes f' = concat (header_words ?cs h2) @ concat es"
    using legacy_file_written [OF ok _ _ _ W _ _ F(1), where h' = h2 and payload = "concat es"]
      fresh H(1) current_version_supported by (simp add: fresh_output_def honest_file_def)
  have keys: "volume_keys L ?pw h2 key hk mac cs" using E(1) by (auto simp: volume_keys_def h2_def)
  have mac: "vh_KeyHash h2 = ComputeV2HeaderMAC (prim_hmac_sha3 (lib_prims L)) (take 64 hk) h2 (replicate 32 0)"
    by (simp add: h2_def h1_def ComputeV2HeaderMAC_def v2_header_fields_def)
  have "payload_of L (vh_Flags h2) ds es"
    using E(2,3) H(3) by (intro payload_of_encrypted [OF E(2)]) (simp_all add: h2_def h1_def)
  then have "written_volume L ?pw (oc_input e) h2 ds es cs' (wr_bytes (oc_output e'))"
    unfolding written_volume_def using keys mac E(2) wf F(2) H(1,3) by (auto simp: h2_def h1_def)
  then show ?thesis using F(3,4) H(2,3) by (intro exI [of _ h2] exI [of _ ds] exI [of _ es] exI [of _ cs']) (simp add: h2_def h1_def)
qed

section \<open>Decryption step by step\<close>

text \<open>The context of a decryption whose header has been read, and with its keys.\<close>

definition opened :: "byte list \<Rightarrow> VolumeHeader \<Rightarrow> byte list \<Rightarrow> op_context \<Rightarrow> bool" where
  "opened pw h w ctx \<longleftrightarrow> oc_Header ctx = h \<and> oc_passwordBytes ctx = pw \<and> \<not> oc_UseKeyfiles ctx \<and> \<not> oc_IsLegacyV1 ctx \<and>
     payload_input ctx = w \<and> oc_input_end ctx = EOF \<and> oc_Total ctx = int (length w) \<and> quiet ctx \<and> \<not> oc_Kept ctx"

definition keyed :: "byte list \<Rightarrow> byte list \<Rightarrow> op_context \<Rightarrow> bool" where
  "keyed key hk ctx \<longleftrightarrow> oc_Key ctx = key \<and> oc_SubkeyReader ctx = after_header_subkey hk"

definition authentic :: "libs \<Rightarrow> byte list \<Rightarrow> VolumeHeader \<Rightarrow> bool" where
  "authentic L hk h \<longleftrightarrow> vh_KeyHash h = ComputeV2HeaderMAC (prim_hmac_sha3 (lib_prims L)) (take 64 hk) h (replicate 32 0)"

lemma derive_process_verify_runs:
  assumes "opened pw h w ctx" and "volume_keys L pw h key hk mac cs" and "authentic L hk h"
  shows "derive_process_verify L req ctx = (Inr (), ctx\<lparr>oc_Key := key, oc_KeyfileHash := replicate 32 0,
      oc_SubkeyReader := after_header_subkey hk\<rparr>)"
  using assms
  by (auto simp: derive_process_verify_def decryptDeriveKeys_def decryptProcessKeyfiles_def decryptVerifyAuth_def
      opened_def volume_keys_def authentic_def io_bind_def op_get_def op_set_def new_subkeys_def op_subkey_def
      HeaderSubkey_def NewSubkeyReader_def after_header_subkey_def force_or_fail_def VerifyV2Header_def
      verify_keyfiles_def xor_keyfile_key_def Let_def split: option.split)

lemma keyed_after:
  assumes "opened pw h w ctx"
  shows "opened pw h w (ctx\<lparr>oc_Key := key, oc_KeyfileHash := kh, oc_SubkeyReader := after_header_subkey hk\<rparr>) \<and>
    keyed key hk (ctx\<lparr>oc_Key := key, oc_KeyfileHash := kh, oc_SubkeyReader := after_header_subkey hk\<rparr>)"
  using assms by (auto simp: opened_def keyed_def quiet_def payload_input_def)

lemma opened_same_op: "same_op ctx ctx' \<Longrightarrow> opened pw h w ctx \<Longrightarrow> opened pw h w ctx'"
  using same_op_quiet [of ctx ctx'] by (auto simp: opened_def same_op_def payload_input_def)

lemma opened_reader: "opened pw h w ctx \<Longrightarrow> opened pw h w (ctx\<lparr>oc_SubkeyReader := r\<rparr>)"
  by (auto simp: opened_def quiet_def payload_input_def)

lemma payload_mac_runs:
  assumes "keyed key hk ctx" and "volume_keys L pw h key hk mac cs" and "oc_Header ctx = h"
  shows "payload_mac L (flag_Paranoid (vh_Flags h)) ctx = (Inr (mac, slice 96 32 hk), ctx\<lparr>oc_SubkeyReader :=
    \<lparr>sk_hkdf = drop 128 hk, sk_headerRead = True, sk_macRead = True, sk_serpentRead = True\<rparr>\<rparr>)"
  using assms payload_mac_eq [of ctx hk L "flag_Paranoid (vh_Flags h)"] by (auto simp: keyed_def volume_keys_def)

lemma payload_suite_runs:
  assumes "keyed key hk ctx" and "volume_keys L pw h key hk mac cs" and "oc_Header ctx = h"
  shows "payload_suite L (flag_Paranoid (vh_Flags h)) ctx = (Inr cs, ctx\<lparr>oc_SubkeyReader :=
    \<lparr>sk_hkdf = drop 128 hk, sk_headerRead = True, sk_macRead = True, sk_serpentRead = True\<rparr>\<rparr>)"
  using payload_mac_runs [OF assms] assms
  by (auto simp: payload_suite_def io_bind_def op_get_def keyed_def volume_keys_def)

lemma verify_pass_runs:
  assumes o: "opened pw h w ctx" and k: "keyed key hk ctx" and v: "volume_keys L pw h key hk mac cs"
    and d: "block_datas L req (vh_Flags h) fast (int (length w)) 0 (split_blocks (src_buf_size (vh_Flags h)) w) = Inr xs"
  shows "\<exists>ctx'. verify_pass L req fast ctx = (Inr (mac (concat xs) = vh_AuthTag h), ctx') \<and> opened pw h w ctx' \<and>
    oc_TriedFullRSDecode ctx' = oc_TriedFullRSDecode ctx"
proof -
  have h: "oc_Header ctx = h" using o by (simp add: opened_def)
  define ctx1 where "ctx1 = ctx\<lparr>oc_SubkeyReader :=
    \<lparr>sk_hkdf = drop 128 hk, sk_headerRead = True, sk_macRead = True, sk_serpentRead = True\<rparr>\<rparr>"
  note m = payload_mac_runs [OF k v h, folded ctx1_def]
  have o1: "opened pw h w ctx1" unfolding ctx1_def by (rule opened_reader [OF o])
  then have f: "oc_Header ctx1 = h" "oc_Total ctx1 = int (length w)" "payload_input ctx1 = w" "oc_input_end ctx1 = EOF" "quiet ctx1"
    by (simp_all add: opened_def)
  obtain ctx2 where V: "verify_loop L req (vh_Flags h) fast (int (length w)) w EOF 0 [] ctx1 = (Inr (concat xs), ctx2)"
    "same_op ctx1 ctx2"
    using verify_loop_runs [OF f(5) d, of "[]"] by auto
  have o2: "opened pw h w ctx2" by (rule opened_same_op [OF V(2) o1])
  have "oc_TriedFullRSDecode ctx2 = oc_TriedFullRSDecode ctx" using V(2) by (auto simp: same_op_def ctx1_def)
  moreover have "verify_pass L req fast ctx = (Inr (mac (concat xs) = vh_AuthTag h), ctx2)"
    using m V(1) f h o2 by (simp add: verify_pass_def io_bind_def op_get_def io_ret_def opened_def)
  ultimately show ?thesis using o2 by blast
qed

lemma decrypt_payload_runs:
  assumes o: "opened pw h w ctx" and k: "keyed key hk ctx" and v: "volume_keys L pw h key hk mac cs"
    and d: "block_datas L req (vh_Flags h) fast (int (length w)) 0 (split_blocks (src_buf_size (vh_Flags h)) w) = Inr xs"
    and dec: "dec_blocks L xs cs 0 = Inr (ps, cs')"
  shows "\<exists>ctx'. decryptPayloadWithFastDecode L req fast ctx = (Inr (), ctx') \<and> opened pw h w ctx' \<and>
    oc_CipherSuite ctx' = Some cs' \<and> wr_bytes (oc_output ctx') = concat ps \<and>
    oc_TriedFullRSDecode ctx' = oc_TriedFullRSDecode ctx"
proof -
  have h: "oc_Header ctx = h" using o by (simp add: opened_def)
  define ctx1 where "ctx1 = ctx\<lparr>oc_SubkeyReader :=
    \<lparr>sk_hkdf = drop 128 hk, sk_headerRead = True, sk_macRead = True, sk_serpentRead = True\<rparr>\<rparr>"
  define ctx2 where "ctx2 = ctx1\<lparr>oc_CipherSuite := Some cs, oc_output := (oc_output ctx1)\<lparr>wr_bytes := []\<rparr>\<rparr>"
  note m = payload_suite_runs [OF k v h, folded ctx1_def]
  have o2: "opened pw h w ctx2" using opened_reader [OF o]
    by (auto simp: opened_def ctx2_def ctx1_def quiet_def takes_all_def payload_input_def)
  then have f: "oc_Header ctx2 = h" "oc_Total ctx2 = int (length w)" "payload_input ctx2 = w" "oc_input_end ctx2 = EOF" "quiet ctx2"
    by (simp_all add: opened_def)
  obtain ctx3 where V: "decrypt_loop L req (vh_Flags h) fast (int (length w)) w EOF 0 cs 0 ctx2 = (Inr cs', ctx3)"
    "same_op ctx2 ctx3" "wr_bytes (oc_output ctx3) = wr_bytes (oc_output ctx2) @ concat ps"
    using decrypt_loop_runs [OF f(5) d dec] by auto
  define ctx4 where "ctx4 = ctx3\<lparr>oc_CipherSuite := Some cs'\<rparr>"
  have "opened pw h w ctx3" by (rule opened_same_op [OF V(2) o2])
  then have "opened pw h w ctx4" by (auto simp: ctx4_def opened_def quiet_def payload_input_def)
  moreover have "oc_TriedFullRSDecode ctx4 = oc_TriedFullRSDecode ctx" using V(2)
    by (auto simp: same_op_def ctx4_def ctx2_def ctx1_def)
  moreover have "wr_bytes (oc_output ctx4) = concat ps" using V(3) by (simp add: ctx4_def ctx2_def)
  moreover have "decryptPayloadWithFastDecode L req fast ctx = (Inr (), ctx4)"
    using m V(1) f h
    by (simp add: decryptPayloadWithFastDecode_def io_bind_def op_get_def op_set_def ctx4_def ctx2_def)
  ultimately show ?thesis by (intro exI [of _ ctx4]) (simp add: ctx4_def)
qed

section \<open>A damaged volume\<close>

text \<open>The payload \<open>w\<close> that decryption meets, and what encryption put there.\<close>

definition volume_at ::
  "libs \<Rightarrow> nat \<Rightarrow> byte list \<Rightarrow> VolumeHeader \<Rightarrow> byte list \<Rightarrow> byte list \<Rightarrow> (byte list \<Rightarrow> byte list) \<Rightarrow> CipherSuite \<Rightarrow>
   byte list \<Rightarrow> byte list list \<Rightarrow> CipherSuite \<Rightarrow> byte list \<Rightarrow> bool" where
  "volume_at L t pw h key hk mac cs plain ds cs' w \<longleftrightarrow>
     volume_keys L pw h key hk mac cs \<and> authentic L hk h \<and> payload_ok t L \<and>
     enc_blocks L (split_blocks MiB plain) cs 0 = Inr (ds, cs') \<and> vh_AuthTag h = suite_Sum cs' \<and>
     (\<exists>es. payload_of L (vh_Flags h) ds es \<and> payload_near t (flag_ReedSolomon (vh_Flags h)) (concat es) w)"

lemma volume_at_keys:
  "volume_at L t pw h key hk mac cs plain ds cs' w \<Longrightarrow> volume_keys L pw h key hk mac cs"
  "volume_at L t pw h key hk mac cs plain ds cs' w \<Longrightarrow> authentic L hk h"
  by (simp_all add: volume_at_def)

lemma volume_at_suite:
  assumes "volume_at L t pw h key hk mac cs plain ds cs' w"
  shows "vh_AuthTag h = mac (concat ds) \<and> cs_mac cs' = mac \<and> cs_macked cs' = concat ds"
proof -
  have "cs_mac cs = mac \<and> cs_macked cs = []"
    using assms NewCipherSuite_fresh by (simp add: volume_at_def volume_keys_def) blast
  moreover have "cs_macked cs' = cs_macked cs @ concat ds \<and> cs_mac cs' = cs_mac cs"
    using assms enc_blocks_macked [of L "split_blocks MiB plain" cs 0 ds cs'] by (simp add: volume_at_def)
  ultimately show ?thesis using assms by (simp add: volume_at_def suite_Sum_def)
qed

lemma volume_at_fast:
  assumes "volume_at L t pw h key hk mac cs plain ds cs' w"
  obtains xs qs c where
    "block_datas L req (vh_Flags h) True (int (length w)) 0 (split_blocks (src_buf_size (vh_Flags h)) w) = Inr xs"
    "concat xs = concat ds \<longrightarrow> xs = ds" "\<not> flag_ReedSolomon (vh_Flags h) \<longrightarrow> xs = ds"
    "dec_blocks L xs cs 0 = Inr (qs, c)" "suite_Sum c = mac (concat xs)"
proof -
  let ?bs = "split_blocks (src_buf_size (vh_Flags h)) w"
  obtain es where es: "payload_of L (vh_Flags h) ds es" "payload_near t (flag_ReedSolomon (vh_Flags h)) (concat es) w"
    and ok: "payload_ok t L" using assms by (auto simp: volume_at_def)
  obtain xs where xs: "block_datas L req (vh_Flags h) True (int (length w)) 0 ?bs = Inr xs" "length xs = length ds"
    "concat xs = concat ds \<longrightarrow> xs = ds"
    using payload_fast [OF ok es] by blast
  have "xs = ds" if "\<not> flag_ReedSolomon (vh_Flags h)"
    using fast_without_reedsolo [OF ok es(1) that, of w req True] es(2) that xs(1) by (simp add: payload_near_def)
  moreover have enc: "enc_blocks L (split_blocks MiB plain) cs 0 = Inr (ds, cs')" using assms by (simp add: volume_at_def)
  moreover have "length xs = length (split_blocks MiB plain)"
    using xs(2) dec_enc_blocks [OF enc] by (metis length_map)
  ultimately obtain qs c where c: "dec_blocks L xs cs 0 = Inr (qs, c)" "cs_macked c = cs_macked cs @ concat xs" "cs_mac c = cs_mac cs'"
    using dec_blocks_total [OF enc refl, of xs] by blast
  have "cs_macked cs = []" using assms NewCipherSuite_fresh by (simp add: volume_at_def volume_keys_def) blast
  then have "suite_Sum c = mac (concat xs)" using c volume_at_suite [OF assms] by (simp add: suite_Sum_def)
  then show thesis using that [OF xs(1,3) _ c(1)] \<open>\<not> flag_ReedSolomon (vh_Flags h) \<Longrightarrow> xs = ds\<close> by blast
qed

lemma volume_at_full:
  assumes "volume_at L t pw h key hk mac cs plain ds cs' w"
  shows "block_datas L req (vh_Flags h) False (int (length w)) 0 (split_blocks (src_buf_size (vh_Flags h)) w) = Inr ds"
    and "dec_blocks L ds cs 0 = Inr (split_blocks MiB plain, cs')"
  using assms payload_corrected dec_enc_blocks by (auto simp: volume_at_def)

section \<open>The passes\<close>

lemma verify_first_runs:
  assumes v: "volume_at L t pw h key hk mac cs plain ds cs' w" and o: "opened pw h w ctx" and k: "keyed key hk ctx"
    and "\<not> dr_ForceDecrypt req"
  shows "\<exists>ctx'. decryptVerifyMACFirst L req ctx = (Inr (), ctx') \<and> opened pw h w ctx' \<and>
    oc_TriedFullRSDecode ctx' = oc_TriedFullRSDecode ctx"
proof -
  note vk = volume_at_keys [OF v]
  obtain xs where xs: "block_datas L req (vh_Flags h) True (int (length w)) 0 (split_blocks (src_buf_size (vh_Flags h)) w) = Inr xs"
    "\<not> flag_ReedSolomon (vh_Flags h) \<longrightarrow> xs = ds"
    using volume_at_fast [OF v] by metis
  obtain ctx1 where 1: "verify_pass L req True ctx = (Inr (mac (concat xs) = vh_AuthTag h), ctx1)" "opened pw h w ctx1"
    "oc_TriedFullRSDecode ctx1 = oc_TriedFullRSDecode ctx"
    using verify_pass_runs [OF o k vk(1) xs(1)] by blast
  show ?thesis
  proof (cases "mac (concat xs) = vh_AuthTag h")
    case True
    then show ?thesis using 1 by (simp add: decryptVerifyMACFirst_def io_bind_def io_ret_def)
  next
    case False
    then have rs: "flag_ReedSolomon (vh_Flags h)" using xs(2) volume_at_suite [OF v] by auto
    define ctx2 where "ctx2 = ctx1\<lparr>oc_Key := key, oc_KeyfileHash := replicate 32 0, oc_SubkeyReader := after_header_subkey hk\<rparr>"
    note 2 = derive_process_verify_runs [OF 1(2) vk, of req, folded ctx2_def]
      keyed_after [OF 1(2), where key = key and kh = "replicate 32 0" and hk = hk, folded ctx2_def]
    obtain ctx3 where 3: "verify_pass L req False ctx2 = (Inr True, ctx3)" "opened pw h w ctx3"
      "oc_TriedFullRSDecode ctx3 = oc_TriedFullRSDecode ctx2"
      using verify_pass_runs [OF conjunct1 [OF 2(2)] conjunct2 [OF 2(2)] vk(1) volume_at_full(1) [OF v]]
        volume_at_suite [OF v] by auto
    have "oc_Header ctx1 = h" using 1(2) by (simp add: opened_def)
    then show ?thesis
      using 1 2 3 False rs assms(4)
      by (simp add: decryptVerifyMACFirst_def io_bind_def op_get_def reDeriveForRetry_def ctx2_def io_ret_def)
  qed
qed

text \<open>The payload and the comparison after it: the plaintext, unless the fast pass has met other bytes
  with the same MAC.\<close>

lemma payload_and_finalize_run:
  assumes v: "volume_at L t pw h key hk mac cs plain ds cs' w" and o: "opened pw h w ctx" and k: "keyed key hk ctx"
    and "\<not> dr_ForceDecrypt req" and tried: "\<not> oc_TriedFullRSDecode ctx"
  shows "(\<exists>ctx'. io_bind (decryptPayload L req) (\<lambda>_. decryptFinalize L req) ctx = (Inr (), ctx') \<and>
      wr_bytes (oc_output ctx') = plain \<and> \<not> oc_Kept ctx' \<and> \<not> oc_IsLegacyV1 ctx') \<or>
    (\<exists>xs. block_datas L req (vh_Flags h) True (int (length w)) 0 (split_blocks (src_buf_size (vh_Flags h)) w) = Inr xs \<and>
       concat xs \<noteq> concat ds \<and> mac (concat xs) = mac (concat ds))"
proof -
  note vk = volume_at_keys [OF v] and vs = volume_at_suite [OF v]
  have plain: "concat (split_blocks MiB plain) = plain" by (rule concat_split_blocks) simp
  obtain xs qs c where xs: "block_datas L req (vh_Flags h) True (int (length w)) 0 (split_blocks (src_buf_size (vh_Flags h)) w) = Inr xs"
    "concat xs = concat ds \<longrightarrow> xs = ds" "\<not> flag_ReedSolomon (vh_Flags h) \<longrightarrow> xs = ds"
    "dec_blocks L xs cs 0 = Inr (qs, c)" "suite_Sum c = mac (concat xs)"
    by (rule volume_at_fast [OF v])
  obtain ctx1 where 1: "decryptPayload L req ctx = (Inr (), ctx1)" "opened pw h w ctx1" "oc_CipherSuite ctx1 = Some c"
    "wr_bytes (oc_output ctx1) = concat qs" "\<not> oc_TriedFullRSDecode ctx1"
    using decrypt_payload_runs [OF o k vk(1) xs(1,4)] tried by (auto simp: decryptPayload_def)
  have h1: "oc_Header ctx1 = h" "\<not> oc_Kept ctx1" "\<not> oc_IsLegacyV1 ctx1" using 1(2) by (simp_all add: opened_def)
  show ?thesis
  proof (cases "mac (concat xs) = vh_AuthTag h")
    case True
    show ?thesis
    proof (cases "concat xs = concat ds")
      case same: True
      then have "qs = split_blocks MiB plain" using xs(2,4) volume_at_full(2) [OF v] by simp
      moreover have "decryptFinalize L req ctx1 = (Inr (), ctx1)"
        using True xs(5) 1(3) h1
        by (simp add: decryptFinalize_def io_bind_def mac_matches_def op_get_def compare_or_fail_def force_or_fail_def io_ret_def)
      ultimately show ?thesis using 1 h1 plain by (simp add: io_bind_def)
    next
      case False
      then show ?thesis using True vs xs(1) by auto
    qed
  next
    case False
    then have rs: "flag_ReedSolomon (vh_Flags h)" using xs(3) vs by auto
    define ctx2 where "ctx2 = ctx1\<lparr>oc_TriedFullRSDecode := True\<rparr>"
    have o2: "opened pw h w ctx2" using 1(2) by (auto simp: ctx2_def opened_def quiet_def payload_input_def)
    define ctx3 where "ctx3 = ctx2\<lparr>oc_Key := key, oc_KeyfileHash := replicate 32 0, oc_SubkeyReader := after_header_subkey hk\<rparr>"
    note 3 = derive_process_verify_runs [OF o2 vk, of req, folded ctx3_def]
      keyed_after [OF o2, where key = key and kh = "replicate 32 0" and hk = hk, folded ctx3_def]
    obtain ctx4 where 4: "decryptPayloadWithFastDecode L req False ctx3 = (Inr (), ctx4)" "opened pw h w ctx4"
      "oc_CipherSuite ctx4 = Some cs'" "wr_bytes (oc_output ctx4) = concat (split_blocks MiB plain)"
      using decrypt_payload_runs [OF conjunct1 [OF 3(2)] conjunct2 [OF 3(2)] vk(1) volume_at_full [OF v]] by blast
    have h4: "oc_Header ctx4 = h" "\<not> oc_Kept ctx4" "\<not> oc_IsLegacyV1 ctx4" using 4(2) by (simp_all add: opened_def)
    have "suite_Sum cs' = vh_AuthTag h" using vs by (simp add: suite_Sum_def)
    then have "decryptFinalize L req ctx1 = (Inr (), ctx4)"
      using False xs(5) 1(3,5) h1 rs 3(1) 4(1,3) h4 unfolding ctx2_def
      by (simp add: decryptFinalize_def io_bind_def mac_matches_def op_get_def op_set_def compare_or_fail_def
          force_or_fail_def io_ret_def reDeriveForRetry_def)
    then show ?thesis using 1(1) 4(4) h4 plain by (simp add: io_bind_def)
  qed
qed

section \<open>The whole volume\<close>

text \<open>A file as long as the written one, in which no codeword of the header, and none of the payload
  if it has any, has more than \<open>t\<close> wrong bytes; an uncoded payload is the written one.\<close>

definition volume_damage :: "nat \<Rightarrow> encrypt_request \<Rightarrow> byte list \<Rightarrow> byte list \<Rightarrow> bool" where
  "volume_damage t req bytes damaged \<longleftrightarrow>
     (let c = length (er_Comments req) in
        list_all2 (near t) (cut (header_sizes c) bytes) (cut (header_sizes c) damaged) \<and>
        length damaged = length bytes \<and>
        payload_near t (er_ReedSolomon req) (drop (HeaderSize c) bytes) (drop (HeaderSize c) damaged))"

text \<open>A decryption that is neither cancelled nor starved of output, from the start.\<close>

definition fresh_decrypt :: "byte list \<Rightarrow> op_context \<Rightarrow> bool" where
  "fresh_decrypt input ctx \<longleftrightarrow> oc_input ctx = input \<and> oc_input_end ctx = EOF \<and> quiet ctx \<and> \<not> oc_Kept ctx \<and>
     \<not> oc_TriedFullRSDecode ctx"

lemma read_header_runs:
  assumes ok: "legacy_ok t (lib_codecs L)" and w: "written_volume L pw plain h ds es cs' bytes"
    and damage: "volume_damage t req bytes input" "vh_Comments h = er_Comments req"
    and fresh: "fresh_decrypt input ctx"
  shows "\<exists>ctx'. io_bind (decryptMeasureInput (Inr (length input))) (\<lambda>_. decryptReadHeader L dreq) ctx = (Inr (), ctx') \<and>
    opened (oc_passwordBytes ctx) h (drop (HeaderSize (length (vh_Comments h))) input) ctx' \<and> \<not> oc_TriedFullRSDecode ctx'"
proof -
  let ?c = "length (vh_Comments h)"
  have W: "wf_header h" "vh_Version h = CurrentVersion" "\<not> flag_UseKeyfiles (vh_Flags h)"
    "bytes = concat (header_words (lib_codecs L) h) @ concat es"
    using w by (simp_all add: written_volume_def)
  have near: "list_all2 (near t) (cut (header_sizes ?c) (concat (header_words (lib_codecs L) h) @ concat es))
      (cut (header_sizes ?c) input)" and len: "length input = length bytes"
    using damage W(4) by (simp_all add: volume_damage_def Let_def)
  have R: "ReadHeader (lib_codecs L) (new_run input EOF) = (Inr (), clean_run EOF (drop (HeaderSize ?c) input) h (HeaderSize ?c))"
    by (rule ReadHeader_damaged [OF ok W(1) near])
  have "length (concat (header_words (lib_codecs L) h)) = HeaderSize ?c"
    using header_words_sizes [OF ok W(1)] by (simp add: length_concat sum_header_sizes)
  then have size: "HeaderSize ?c \<le> length input" using len W(4) by simp
  have v2: "\<not> IsLegacyV1 h" using W(2) by (simp add: IsLegacyV1_def ascii_def)
  define ctx' where "ctx' = ctx\<lparr>oc_Total := int (length input) - int BaseHeaderSize - int ?c * 3, oc_Header := h,
    oc_IsLegacyV1 := False, oc_UseKeyfiles := False\<rparr>"
  have "io_bind (decryptMeasureInput (Inr (length input))) (\<lambda>_. decryptReadHeader L dreq) ctx = (Inr (), ctx')"
    using R fresh v2 W(3)
    by (simp add: decryptMeasureInput_def io_bind_def op_set_def decryptReadHeader_def fresh_decrypt_def clean_run_def
        force_or_fail_def io_ret_def Let_def ctx'_def)
  moreover have "opened (oc_passwordBytes ctx) h (drop (HeaderSize ?c) input) ctx' \<and> \<not> oc_TriedFullRSDecode ctx'"
    using fresh size
    by (simp add: opened_def fresh_decrypt_def ctx'_def payload_input_def quiet_def HeaderSize_def of_nat_diff)
  ultimately show ?thesis by blast
qed

lemma first_candidate:
  assumes "derive_process_verify L req (ctx\<lparr>oc_passwordBytes := cand\<rparr>) = (Inr (), ctx')"
  shows "try_candidates L req (cand # rest) ctx = (Inr (), ctx')"
proof -
  obtain c1 c2 where "decryptDeriveKeys L (ctx\<lparr>oc_passwordBytes := cand\<rparr>) = (Inr (), c1)"
    "decryptProcessKeyfiles L req c1 = (Inr (), c2)" "decryptVerifyAuth L req c2 = (Inr (), ctx')"
    using assms by (auto simp: derive_process_verify_def io_bind_eq_Inr)
  then show ?thesis by (simp add: io_bind_def op_set_def)
qed

text \<open>\<open>EncodeForKDF\<close> is the first form that decryption tries.\<close>

lemma Candidates_first:
  assumes "\<not> ContainsNonASCII pw \<Longrightarrow> lib_nfc L pw = pw"
  shows "\<exists>rest. Candidates L pw = EncodeForKDF L pw # rest"
  using assms by (auto simp: Candidates_def EncodeForKDF_def Normalize_def Let_def)

lemma volume_at_written:
  assumes "written_volume L pw plain h ds es cs' bytes" and "legacy_ok t (lib_codecs L)" and "payload_ok t L"
    and "volume_damage t req bytes input" "vh_Comments h = er_Comments req" "flag_ReedSolomon (vh_Flags h) = er_ReedSolomon req"
  shows "\<exists>key hk mac cs. volume_at L t pw h key hk mac cs plain ds cs' (drop (HeaderSize (length (vh_Comments h))) input)"
proof -
  obtain key hk mac cs where v: "volume_keys L pw h key hk mac cs" "authentic L hk h"
    "enc_blocks L (split_blocks MiB plain) cs 0 = Inr (ds, cs')"
    using assms(1) by (auto simp: written_volume_def authentic_def)
  have w: "wf_header h" "vh_AuthTag h = suite_Sum cs'" "payload_of L (vh_Flags h) ds es"
    "bytes = concat (header_words (lib_codecs L) h) @ concat es"
    using assms(1) by (simp_all add: written_volume_def)
  have "length (concat (header_words (lib_codecs L) h)) = HeaderSize (length (vh_Comments h))"
    using header_words_sizes [OF assms(2) w(1)] by (simp add: length_concat sum_header_sizes)
  then have "drop (HeaderSize (length (vh_Comments h))) bytes = concat es" using w(4) by simp
  then have "payload_near t (flag_ReedSolomon (vh_Flags h)) (concat es) (drop (HeaderSize (length (vh_Comments h))) input)"
    using assms(4-6) by (simp add: volume_damage_def Let_def)
  then show ?thesis using v w(2,3) assms(3) unfolding volume_at_def by blast
qed

text \<open>Verification first, and the keys after it.\<close>

definition verify_phase :: "libs \<Rightarrow> decrypt_request \<Rightarrow> unit op" where
  "verify_phase L req =
     (if dr_VerifyFirst req then io_bind (decryptVerifyMACFirst L req) (\<lambda>_. derive_process_verify L req) else io_ret ())"

lemma verify_phase_runs:
  assumes v: "volume_at L t pw h key hk mac cs plain ds cs' w" and o: "opened pw h w ctx" and k: "keyed key hk ctx"
    and "\<not> dr_ForceDecrypt req"
  obtains ctx' where "verify_phase L req ctx = (Inr (), ctx')" "opened pw h w ctx'" "keyed key hk ctx'"
    "oc_TriedFullRSDecode ctx' = oc_TriedFullRSDecode ctx"
proof (cases "dr_VerifyFirst req")
  case True
  obtain c where c: "decryptVerifyMACFirst L req ctx = (Inr (), c)" "opened pw h w c"
    "oc_TriedFullRSDecode c = oc_TriedFullRSDecode ctx"
    using verify_first_runs [OF v o k assms(4)] by blast
  then show thesis
    using that derive_process_verify_runs [OF c(2) volume_at_keys [OF v], of req]
      keyed_after [OF c(2), where key = key and kh = "replicate 32 0" and hk = hk] True
    by (simp add: verify_phase_def io_bind_def)
next
  case False
  then show thesis using that [of ctx] o k by (simp add: verify_phase_def io_ret_def)
qed

text \<open>The payload of the damaged file, read without correction, differs from the ciphertext that was
  authenticated and carries its MAC under the key of the volume.\<close>

definition fast_forgery :: "libs \<Rightarrow> decrypt_request \<Rightarrow> op_context \<Rightarrow> byte list \<Rightarrow> bool" where
  "fast_forgery L dreq e' input \<longleftrightarrow>
     (let flags = vh_Flags (oc_Header e'); w = drop (HeaderSize (length (vh_Comments (oc_Header e')))) input in
        \<exists>cs xs. oc_CipherSuite e' = Some cs \<and>
          block_datas L dreq flags True (int (length w)) 0 (split_blocks (src_buf_size flags) w) = Inr xs \<and>
          concat xs \<noteq> cs_macked cs \<and> cs_mac cs (concat xs) = suite_Sum cs)"

lemma volume_roundtrip:
  assumes codecs: "legacy_ok t (lib_codecs L)" "payload_ok t L"
    and nfc: "\<And>pw. \<not> ContainsNonASCII pw \<Longrightarrow> lib_nfc L pw = pw"
    and encrypt: "fresh_output e" "encryptLegacy L rand (Inr (length (oc_input e))) req e = (Inr (), e')"
    and damage: "volume_damage t req (wr_bytes (oc_output e')) input" "\<not> fast_forgery L dreq e' input"
    and decrypt: "fresh_decrypt input d" "dr_Password dreq = er_Password req" "\<not> dr_ForceDecrypt dreq"
  shows "\<exists>d'. decryptPrepared L (Inr (length input)) dreq d = (Inr (), d') \<and>
    wr_bytes (oc_output d') = oc_input e \<and> \<not> oc_Kept d' \<and> \<not> oc_IsLegacyV1 d'"
proof -
  let ?pw = "EncodeForKDF L (er_Password req)"
  obtain h ds es cs' where E: "written_volume L ?pw (oc_input e) h ds es cs' (wr_bytes (oc_output e'))"
    "vh_Comments h = er_Comments req" "flag_ReedSolomon (vh_Flags h) = er_ReedSolomon req" "oc_CipherSuite e' = Some cs'"
    "vh_Flags (oc_Header e') = vh_Flags h" "vh_Comments (oc_Header e') = vh_Comments h"
    using encryptLegacy_Inr [OF encrypt(2) codecs(1) encrypt(1)] by blast
  let ?w = "drop (HeaderSize (length (vh_Comments h))) input"
  obtain key hk mac cs where v: "volume_at L t ?pw h key hk mac cs (oc_input e) ds cs' ?w"
    using volume_at_written [OF E(1) codecs damage(1) E(2,3)] by blast
  obtain d0 d1 where d1: "decryptMeasureInput (Inr (length input)) d = (Inr (), d0)" "decryptReadHeader L dreq d0 = (Inr (), d1)"
    "opened (oc_passwordBytes d) h ?w d1" "\<not> oc_TriedFullRSDecode d1"
    using read_header_runs [OF codecs(1) E(1) damage(1) E(2) decrypt(1), of dreq] by (auto simp: io_bind_eq_Inr)
  define d2 where "d2 = d1\<lparr>oc_passwordBytes := ?pw\<rparr>"
  have o2: "opened ?pw h ?w d2" using d1(3) by (auto simp: d2_def opened_def quiet_def payload_input_def)
  define d3 where "d3 = d2\<lparr>oc_Key := key, oc_KeyfileHash := replicate 32 0, oc_SubkeyReader := after_header_subkey hk\<rparr>"
  note 3 = derive_process_verify_runs [OF o2 volume_at_keys [OF v], folded d3_def]
    keyed_after [OF o2, where key = key and kh = "replicate 32 0" and hk = hk, folded d3_def]
  have derive: "decryptDeriveProcessVerify L dreq d1 = (Inr (), d3)"
    using Candidates_first [of "er_Password req" L] nfc decrypt(2,3) first_candidate [OF 3(1) [unfolded d2_def]]
    by (auto simp: decryptDeriveProcessVerify_def)
  obtain d4 where d4: "verify_phase L dreq d3 = (Inr (), d4)" "opened ?pw h ?w d4" "keyed key hk d4"
    "oc_TriedFullRSDecode d4 = oc_TriedFullRSDecode d3"
    by (rule verify_phase_runs [OF v conjunct1 [OF 3(2)] conjunct2 [OF 3(2)] decrypt(3)])
  have run: "decryptPrepared L (Inr (length input)) dreq d = io_bind (decryptPayload L dreq) (\<lambda>_. decryptFinalize L dreq) d4"
    using d1(1,2) derive d4(1) by (simp add: decryptPrepared_def io_bind_def verify_phase_def)
  have tried: "\<not> oc_TriedFullRSDecode d4" using d4(4) d1(4) by (simp add: d3_def d2_def)
  have "cs_macked cs' = concat ds" "cs_mac cs' = mac" using volume_at_suite [OF v] by simp_all
  then show ?thesis
    using payload_and_finalize_run [OF v d4(2,3) decrypt(3) tried] damage(2) E(4-6)
    unfolding run by (auto simp: suite_Sum_def fast_forgery_def Let_def)
qed

text \<open>C4: a volume of the second format survives its life in a file. Suppose \<open>encryptLegacy\<close> reports
  success, whatever the randomness, the Reed-Solomon layer, the paranoid mode, the comment and the
  size of the plaintext, on an output that keeps the contract of its interface. If then at most \<open>t\<close>
  bytes of every codeword of the header are damaged, and of the payload when it is coded,
  \<open>decryptPrepared\<close> with the same password, undisturbed and not forced, with or without verification
  first, succeeds with the plaintext as its output and does not mark it as untrusted. \<open>t\<close> is what
  the codecs repair. The damage must not happen to be a forgery of the payload MAC for the pass
  without correction, and normalization must leave ASCII passwords alone.\<close>

theorem legacy_volume_roundtrip:
  assumes codecs: "legacy_ok t (lib_codecs L)" "payload_ok t L"
    and nfc: "\<And>pw. \<not> ContainsNonASCII pw \<Longrightarrow> lib_nfc L pw = pw"
    and encrypt: "fresh_output e" "encryptLegacy L rand (Inr (length (oc_input e))) req e = (Inr (), e')"
    and damage: "volume_damage t req (wr_bytes (oc_output e')) input" "\<not> fast_forgery L dreq e' input"
    and decrypt: "fresh_decrypt input d" "dr_Password dreq = er_Password req" "\<not> dr_ForceDecrypt dreq"
  shows "\<exists>d'. decryptPrepared L (Inr (length input)) dreq d = (Inr (), d') \<and>
    wr_bytes (oc_output d') = oc_input e \<and> \<not> oc_Kept d'"
  using volume_roundtrip [OF assms] by blast

end
