(* ===== verification/Legacy_Safety.thy ===== *)
theory Legacy_Safety
  imports Legacy_Volume_Round_Trip
begin

text \<open>
  What a successful decryption of a volume of the second format says about its output, forced or
  not: unless the output is marked as untrusted, the header was authenticated under keys of the
  password, and the output is the decryption of bytes that carry the MAC of the header.
\<close>

section \<open>What the phases leave alone\<close>

text \<open>Once the header has been read and a password form chosen, they stay, and a mark is never taken
  back.\<close>

definition flows :: "op_context \<Rightarrow> op_context \<Rightarrow> bool" where
  "flows ctx ctx' \<longleftrightarrow> oc_Header ctx' = oc_Header ctx \<and> oc_passwordBytes ctx' = oc_passwordBytes ctx \<and>
     oc_UseKeyfiles ctx' = oc_UseKeyfiles ctx \<and> oc_IsLegacyV1 ctx' = oc_IsLegacyV1 ctx \<and> (oc_Kept ctx \<longrightarrow> oc_Kept ctx')"

lemma flows_refl [simp]: "flows ctx ctx"
  by (simp add: flows_def)

lemma flows_trans: "flows a b \<Longrightarrow> flows b c \<Longrightarrow> flows a c"
  by (simp add: flows_def)

definition stays :: "'a op \<Rightarrow> bool" where
  "stays m \<longleftrightarrow> (\<forall>ctx. flows ctx (snd (m ctx)))"

named_theorems stays_intros

lemma stays_run: "stays m \<Longrightarrow> m ctx = (r, ctx') \<Longrightarrow> flows ctx ctx'"
  unfolding stays_def by (metis snd_conv)

lemma stays_bind [stays_intros]:
  assumes "stays m" and "\<And>v. stays (f v)"
  shows "stays (io_bind m f)"
  unfolding stays_def
proof (intro allI)
  fix ctx
  obtain r ctx1 where m: "m ctx = (r, ctx1)" by (metis surj_pair)
  have 1: "flows ctx ctx1" by (rule stays_run [OF assms(1) m])
  show "flows ctx (snd (io_bind m f ctx))"
  proof (cases r)
    case (Inl e)
    then show ?thesis using m 1 by (simp add: io_bind_def)
  next
    case (Inr v)
    have "flows ctx1 (snd (f v ctx1))" using assms(2) by (simp add: stays_def)
    then show ?thesis using m 1 Inr flows_trans by (auto simp: io_bind_def)
  qed
qed

lemma stays_basic [stays_intros]:
  "stays (io_ret v)" "stays (io_fail e)" "stays (io_lift x)" "stays (op_get g)" "stays poll_cancelled" "stays (op_subkey k)"
  "stays (output_write check p)" "stays (xor_keyfile_key refuse)" "stays mac_matches"
  by (auto simp: stays_def io_ret_def io_fail_def io_lift_def op_get_def poll_cancelled_def op_subkey_def output_write_def
      xor_keyfile_key_def mac_matches_def flows_def Let_def split: prod.splits option.splits)

lemma stays_set: "(\<And>ctx. flows ctx (f ctx)) \<Longrightarrow> stays (op_set f)"
  by (simp add: stays_def op_set_def)

lemma stays_sets [stays_intros]:
  "stays (op_set (\<lambda>ctx. ctx\<lparr>oc_Key := k\<rparr>))" "stays (op_set (\<lambda>ctx. ctx\<lparr>oc_KeyfileHash := kh\<rparr>))"
  "stays (op_set (\<lambda>ctx. ctx\<lparr>oc_KeyfileKey := kk, oc_KeyfileHash := kh\<rparr>))"
  "stays (op_set (\<lambda>ctx. ctx\<lparr>oc_TriedFullRSDecode := True\<rparr>))" "stays markForcedOutputUntrusted"
  "stays (op_set (\<lambda>ctx. ctx\<lparr>oc_CipherSuite := s\<rparr>))" "stays (new_subkeys L)"
  "stays (op_set (\<lambda>ctx. ctx\<lparr>oc_CipherSuite := s, oc_output := (oc_output ctx)\<lparr>wr_bytes := []\<rparr>\<rparr>))"
  unfolding markForcedOutputUntrusted_def new_subkeys_def by (rule stays_set, simp add: flows_def)+

lemma stays_if [stays_intros]: "(b \<Longrightarrow> stays m) \<Longrightarrow> (\<not> b \<Longrightarrow> stays k) \<Longrightarrow> stays (if b then m else k)"
  by simp

lemma stays_force [stays_intros]: "stays (force_or_fail req valid e)"
  unfolding force_or_fail_def by (intro stays_intros)

lemma stays_derive [stays_intros]: "stays (decryptDeriveKeys L)"
  unfolding decryptDeriveKeys_def by (intro stays_intros)

lemma stays_keyfiles [stays_intros]: "stays (decryptProcessKeyfiles L req)"
  unfolding stays_def decryptProcessKeyfiles_def
  by (auto simp: io_bind_def op_set_def io_lift_def flows_def split: sum.splits)

lemma stays_verify_keyfiles [stays_intros]: "stays (verify_keyfiles req)"
  unfolding verify_keyfiles_def by (intro stays_intros)

lemma stays_verify [stays_intros]: "stays (decryptVerifyAuth L req)"
  unfolding decryptVerifyAuth_def by (intro stays_intros)

lemma stays_derive_process_verify [stays_intros]: "stays (derive_process_verify L req)" "stays (reDeriveForRetry L req)"
  unfolding reDeriveForRetry_def derive_process_verify_def by (intro stays_intros)+

lemma stays_mac [stays_intros]: "stays (payload_mac L paranoid)"
  unfolding payload_mac_def by (intro stays_intros)

lemma stays_pair [stays_intros]: "(\<And>a b. stays (f a b)) \<Longrightarrow> stays (case x of (a, b) \<Rightarrow> f a b)"
  by (cases x) simp

lemma stays_option [stays_intros]: "stays m \<Longrightarrow> (\<And>v. stays (f v)) \<Longrightarrow> stays (case x of None \<Rightarrow> m | Some v \<Rightarrow> f v)"
  by (cases x) simp_all

lemma stays_suite [stays_intros]: "stays (payload_suite L paranoid)"
  unfolding payload_suite_def by (intro stays_intros)

lemma stays_block [stays_intros]: "stays (decrypt_block L req flags fast tot seen w cs k)"
  unfolding decrypt_block_def by (intro stays_intros)

lemma ReadFull_None: "ReadFull n rest e = ((src, None), rest') \<Longrightarrow> 0 < n \<Longrightarrow> length rest' < length rest"
  by (auto simp: ReadFull_def split: if_splits)

lemma stays_verify_loop [stays_intros]: "stays (verify_loop L req flags fast tot rest e seen macked)"
proof (induction "length rest" arbitrary: rest seen macked rule: less_induct)
  case less
  obtain src err rest' where R: "ReadFull (src_buf_size flags) rest e = ((src, err), rest')" by (metis surj_pair)
  show ?case
    unfolding verify_loop.simps [of L req flags fast tot rest] R
    using less.hyps ReadFull_None [of _ rest e src rest'] R src_buf_size_pos [of flags]
    by (cases err) (auto intro!: stays_intros)
qed

lemma stays_decrypt_loop [stays_intros]: "stays (decrypt_loop L req flags fast tot rest e seen cs k)"
proof (induction "length rest" arbitrary: rest seen cs k rule: less_induct)
  case less
  obtain src err rest' where R: "ReadFull (src_buf_size flags) rest e = ((src, err), rest')" by (metis surj_pair)
  show ?case
    unfolding decrypt_loop.simps [of L req flags fast tot rest] R
    using less.hyps ReadFull_None [of _ rest e src rest'] R src_buf_size_pos [of flags]
    by (cases err) (auto simp: Let_def intro!: stays_intros)
qed

lemma stays_passes [stays_intros]:
  "stays (verify_pass L req fast)" "stays (decryptPayloadWithFastDecode L req fast)" "stays (decryptPayload L req)"
  unfolding verify_pass_def decryptPayload_def decryptPayloadWithFastDecode_def by (intro stays_intros)+

lemma stays_verify_first [stays_intros]: "stays (decryptVerifyMACFirst L req)"
  unfolding decryptVerifyMACFirst_def by (intro stays_intros)

lemma stays_finalize [stays_intros]: "stays (decryptFinalize L req)"
  unfolding decryptFinalize_def compare_or_fail_def by (intro stays_intros)

section \<open>What the payload pass leaves\<close>

lemma output_write_all:
  "output_write True p ctx = (Inr u, ctx') \<Longrightarrow> same_op ctx ctx' \<and> wr_bytes (oc_output ctx') = wr_bytes (oc_output ctx) @ p"
  unfolding same_op_def
  by (auto simp: output_write_def Let_def split: prod.splits option.splits if_splits intro!: exI [of _ "oc_polls ctx"])

lemma dec_blocks_macked: "dec_blocks L ds cs k = Inr (ps, cs') \<Longrightarrow> cs_macked cs' = cs_macked cs @ concat ds \<and> cs_mac cs' = cs_mac cs"
proof (induction ds arbitrary: cs k ps)
  case (Cons d ds)
  obtain p tmp cs1 where e: "suite_Decrypt d cs = ((p, tmp), cs1)" by (metis surj_pair)
  obtain cs2 k2 ps' where r: "maybe_rekey L (k + MiB) cs1 = Inr (cs2, k2)" "dec_blocks L ds cs2 k2 = Inr (ps', cs')"
    using Cons.prems e by (auto simp: ebind_eq_Inr)
  have "cs_mac cs2 = cs_mac cs1"
    using r(1) by (auto simp: maybe_rekey_def suite_Rekey_def Let_def split: if_splits prod.splits sum.splits)
  then show ?case
    using Cons.IH [OF r(2)] Decrypt_core [OF e] maybe_rekey_core(2) [OF r(1) refl] by (auto simp: suite_core_def)
qed simp

text \<open>One round: nothing, or one block.\<close>

lemma decrypt_round:
  assumes "(if src \<noteq> [] then decrypt_block L req flags fast tot seen src cs k else io_ret (cs, k)) ctx = (Inr (cs2, k2), ctx2)"
  obtains d where "same_op ctx ctx2"
    "\<And>ds ps cs'. dec_blocks L ds cs2 k2 = Inr (ps, cs') \<Longrightarrow> \<exists>q. dec_blocks L (d @ ds) cs k = Inr (q @ ps, cs') \<and>
       wr_bytes (oc_output ctx2) = wr_bytes (oc_output ctx) @ concat q"
proof (cases "src = []")
  case True
  then show thesis using that [of "[]"] assms by auto
next
  case False
  then obtain x where x: "(case suite_Decrypt x cs of ((dst, _), cs) \<Rightarrow> io_bind (output_write True dst) (\<lambda>_.
      io_lift (maybe_rekey L (k + MiB) cs))) ctx = (Inr (cs2, k2), ctx2)"
    using assms by (auto simp: decrypt_block_def io_bind_eq_Inr)
  obtain q tmp cs1 where q: "suite_Decrypt x cs = ((q, tmp), cs1)" by (metis surj_pair)
  with x have B: "output_write True q ctx = (Inr (), ctx2)" "maybe_rekey L (k + MiB) cs1 = Inr (cs2, k2)"
    by (auto simp: io_bind_eq_Inr)
  show thesis
  proof (rule that [of "[x]"])
    show "same_op ctx ctx2" using output_write_all [OF B(1)] by simp
    fix ds ps cs' assume "dec_blocks L ds cs2 k2 = Inr (ps, cs')"
    then show "\<exists>y. dec_blocks L ([x] @ ds) cs k = Inr (y @ ps, cs') \<and>
        wr_bytes (oc_output ctx2) = wr_bytes (oc_output ctx) @ concat y"
      using q B output_write_all [OF B(1)] by (intro exI [of _ "[q]"]) simp
  qed
qed

lemma decrypt_loop_Inr:
  assumes "decrypt_loop L req flags fast tot rest e seen cs k ctx = (Inr cs', ctx')"
  shows "\<exists>ds ps. dec_blocks L ds cs k = Inr (ps, cs') \<and> same_op ctx ctx' \<and>
    wr_bytes (oc_output ctx') = wr_bytes (oc_output ctx) @ concat ps"
  using assms
proof (induction "length rest" arbitrary: rest seen cs k ctx rule: less_induct)
  case less
  let ?n = "src_buf_size flags"
  note unfold = decrypt_loop.simps [of L req flags fast tot rest e seen cs k]
  obtain src err rest' where R: "ReadFull ?n rest e = ((src, err), rest')" by (metis surj_pair)
  obtain ctx1 where p: "poll_cancelled ctx = (Inr (), ctx1)"
    using less.prems unfolding unfold by (auto simp: io_bind_eq_Inr)
  note P = poll_cancelled_Inr [OF p]
  define seen' where "seen' = (if src = [] then seen else if flag_ReedSolomon flags then seen + RSEncodedBlockSize else seen + length src)"
  obtain cs2 k2 ctx2 where step: "(if src \<noteq> [] then decrypt_block L req flags fast tot seen src cs k else io_ret (cs, k)) ctx1 = (Inr (cs2, k2), ctx2)"
    and next': "(case err of None \<Rightarrow> decrypt_loop L req flags fast tot rest' e seen' cs2 k2
        | Some c \<Rightarrow> if c = EOF \<or> c = UnexpectedEOF then io_ret cs2 else io_fail (VReadInput c)) ctx2 = (Inr cs', ctx')"
    using less.prems p R unfolding unfold seen'_def by (auto simp: io_bind_eq_Inr Let_def)
  obtain d where s2: "same_op ctx1 ctx2"
    and D: "\<And>ds ps cs'. dec_blocks L ds cs2 k2 = Inr (ps, cs') \<Longrightarrow> \<exists>q. dec_blocks L (d @ ds) cs k = Inr (q @ ps, cs') \<and>
       wr_bytes (oc_output ctx2) = wr_bytes (oc_output ctx1) @ concat q"
    by (rule decrypt_round [OF step]) (rule that)
  have s: "same_op ctx ctx2" using same_op_trans P s2 by blast
  show ?case
  proof (cases err)
    case None
    have len: "length rest' < length rest" using ReadFull_None [OF _ src_buf_size_pos] R None by blast
    have run: "decrypt_loop L req flags fast tot rest' e seen' cs2 k2 ctx2 = (Inr cs', ctx')" using next' None by simp
    obtain ds ps where I: "dec_blocks L ds cs2 k2 = Inr (ps, cs')" "same_op ctx2 ctx'"
      "wr_bytes (oc_output ctx') = wr_bytes (oc_output ctx2) @ concat ps" using less.hyps [OF len run] by blast
    obtain q where Q: "dec_blocks L (d @ ds) cs k = Inr (q @ ps, cs')"
      "wr_bytes (oc_output ctx2) = wr_bytes (oc_output ctx1) @ concat q" using D [OF I(1)] by blast
    then show ?thesis
      using I P same_op_trans [OF s I(2)] by (intro exI [of _ "d @ ds"] exI [of _ "q @ ps"]) simp
  next
    case (Some c)
    then have c: "cs' = cs2" "ctx' = ctx2" using next' by (auto split: if_splits)
    then obtain q where "dec_blocks L (d @ []) cs k = Inr (q @ [], cs')"
      "wr_bytes (oc_output ctx2) = wr_bytes (oc_output ctx1) @ concat q" using D [of "[]" "[]"] by auto
    then show ?thesis using P s c(2) by (intro exI [of _ d] exI [of _ q]) simp
  qed
qed

section \<open>Keys\<close>

text \<open>The keys of a context: the header MAC has been verified under them.\<close>

definition v2_keyed :: "libs \<Rightarrow> op_context \<Rightarrow> byte list \<Rightarrow> byte list \<Rightarrow> bool" where
  "v2_keyed L ctx key hk \<longleftrightarrow>
     DeriveKey (lib_IDKey L) (oc_passwordBytes ctx) (vh_Salt (oc_Header ctx)) (flag_Paranoid (vh_Flags (oc_Header ctx))) = Inr key \<and>
     hk = lib_hkdf L key (vh_HKDFSalt (oc_Header ctx)) \<and>
     auth_Valid (VerifyV2Header (prim_hmac_sha3 (lib_prims L)) (take 64 hk) (oc_Header ctx) (oc_KeyfileHash ctx)) \<and>
     (oc_UseKeyfiles ctx \<longrightarrow> oc_KeyfileHash ctx = vh_KeyfileHash (oc_Header ctx))"

lemma force_or_fail_unmarked: "force_or_fail req valid e ctx = (Inr u, ctx') \<Longrightarrow> \<not> oc_Kept ctx' \<Longrightarrow> valid \<and> ctx' = ctx"
  by (auto simp: force_or_fail_def markForcedOutputUntrusted_def op_set_def split: if_splits)

lemma decryptVerifyAuth_v2:
  assumes run: "decryptVerifyAuth L req ctx = (Inr (), ctx')" and v2: "\<not> oc_IsLegacyV1 ctx" and unmarked: "\<not> oc_Kept ctx'"
    and key: "DeriveKey (lib_IDKey L) (oc_passwordBytes ctx) (vh_Salt (oc_Header ctx)) (flag_Paranoid (vh_Flags (oc_Header ctx))) =
      Inr (oc_Key ctx)"
  shows "\<exists>key hk. v2_keyed L ctx' key hk \<and> oc_SubkeyReader ctx' = after_header_subkey hk"
proof -
  define hk where "hk = lib_hkdf L (oc_Key ctx) (vh_HKDFSalt (oc_Header ctx))"
  define ctx1 where "ctx1 = ctx\<lparr>oc_SubkeyReader := after_header_subkey hk\<rparr>"
  obtain ctx2 ctx3 where R: "force_or_fail req (auth_Valid (VerifyV2Header (prim_hmac_sha3 (lib_prims L)) (take 64 hk)
      (oc_Header ctx) (oc_KeyfileHash ctx))) (VAuth NewV2PasswordOrTamperError) ctx1 = (Inr (), ctx2)"
    "verify_keyfiles req ctx2 = (Inr (), ctx3)" "xor_keyfile_key True ctx3 = (Inr (), ctx')"
    using run v2
    by (auto simp: decryptVerifyAuth_def op_get_def io_bind_eq_Inr new_subkeys_def op_set_def op_subkey_def HeaderSubkey_def
        NewSubkeyReader_def after_header_subkey_def ctx1_def hk_def split: if_splits)
  have "flows ctx3 ctx'" "flows ctx2 ctx3"
    by (rule stays_run [OF stays_basic(8) R(3)], rule stays_run [OF stays_verify_keyfiles R(2)])
  then have u: "\<not> oc_Kept ctx3" "\<not> oc_Kept ctx2" using unmarked by (auto simp: flows_def)
  note 2 = force_or_fail_unmarked [OF R(1) u(2)]
  have 3: "(oc_UseKeyfiles ctx2 \<longrightarrow> oc_KeyfileHash ctx2 = vh_KeyfileHash (oc_Header ctx2)) \<and> ctx3 = ctx2"
    using force_or_fail_unmarked [OF _ u(1)] R(2)
    by (auto simp: verify_keyfiles_def op_get_def io_bind_eq_Inr VerifyKeyfileHash_def)
  have 4: "oc_SubkeyReader ctx' = oc_SubkeyReader ctx3" "oc_Header ctx' = oc_Header ctx3" "oc_KeyfileHash ctx' = oc_KeyfileHash ctx3"
    "oc_passwordBytes ctx' = oc_passwordBytes ctx3" "oc_UseKeyfiles ctx' = oc_UseKeyfiles ctx3"
    using R(3) by (auto simp: xor_keyfile_key_def split: option.splits if_splits)
  show ?thesis
    using 2 3 4 key by (intro exI [of _ "oc_Key ctx"] exI [of _ hk]) (auto simp: v2_keyed_def ctx1_def hk_def)
qed

lemma derive_process_verify_v2:
  assumes run: "derive_process_verify L req ctx = (Inr (), ctx')" and v2: "\<not> oc_IsLegacyV1 ctx" and unmarked: "\<not> oc_Kept ctx'"
  shows "\<exists>key hk. v2_keyed L ctx' key hk \<and> oc_SubkeyReader ctx' = after_header_subkey hk"
proof -
  obtain ctx1 ctx2 where R: "decryptDeriveKeys L ctx = (Inr (), ctx1)" "decryptProcessKeyfiles L req ctx1 = (Inr (), ctx2)"
    "decryptVerifyAuth L req ctx2 = (Inr (), ctx')"
    using run by (auto simp: derive_process_verify_def io_bind_eq_Inr)
  have 1: "DeriveKey (lib_IDKey L) (oc_passwordBytes ctx1) (vh_Salt (oc_Header ctx1)) (flag_Paranoid (vh_Flags (oc_Header ctx1))) =
      Inr (oc_Key ctx1)" "\<not> oc_IsLegacyV1 ctx1"
    using R(1) v2 by (auto simp: decryptDeriveKeys_def op_get_def op_set_def io_bind_eq_Inr)
  have "oc_Key ctx2 = oc_Key ctx1" "flows ctx1 ctx2"
    using R(2) stays_run [OF stays_keyfiles R(2)]
    by (auto simp: decryptProcessKeyfiles_def op_set_def io_bind_eq_Inr split: if_splits)
  then show ?thesis using decryptVerifyAuth_v2 [OF R(3) _ unmarked] 1 by (simp add: flows_def)
qed

section \<open>Released output\<close>

text \<open>The output is the decryption, block by block, of bytes under keys of the password of the
  context; \<open>m\<close> is their MAC.\<close>

definition decrypted_under :: "libs \<Rightarrow> op_context \<Rightarrow> byte list \<Rightarrow> bool" where
  "decrypted_under L ctx m \<longleftrightarrow>
     (\<exists>key hk mac cs0 ds ps cs. v2_keyed L ctx key hk \<and>
        NewMAC (lib_prims L) (slice 64 32 hk) (flag_Paranoid (vh_Flags (oc_Header ctx))) = Some mac \<and>
        NewCipherSuite (lib_prims L) (oc_Key ctx) (vh_Nonce (oc_Header ctx)) (slice 96 32 hk) (vh_SerpentIV (oc_Header ctx))
          mac (drop 128 hk) (flag_Paranoid (vh_Flags (oc_Header ctx))) = Inr cs0 \<and>
        dec_blocks L ds cs0 0 = Inr (ps, cs) \<and> wr_bytes (oc_output ctx) = concat ps \<and> m = mac (concat ds))"

lemma decrypted_underI:
  "v2_keyed L ctx key hk \<Longrightarrow> NewMAC (lib_prims L) (slice 64 32 hk) (flag_Paranoid (vh_Flags (oc_Header ctx))) = Some mac \<Longrightarrow>
   NewCipherSuite (lib_prims L) (oc_Key ctx) (vh_Nonce (oc_Header ctx)) (slice 96 32 hk) (vh_SerpentIV (oc_Header ctx))
     mac (drop 128 hk) (flag_Paranoid (vh_Flags (oc_Header ctx))) = Inr cs0 \<Longrightarrow>
   dec_blocks L ds cs0 0 = Inr (ps, cs) \<Longrightarrow> wr_bytes (oc_output ctx) = concat ps \<Longrightarrow> m = mac (concat ds) \<Longrightarrow>
   decrypted_under L ctx m"
  unfolding decrypted_under_def by blast

lemma payload_suite_Inr:
  assumes "payload_suite L paranoid ctx = (Inr cs0, ctx1)" and "oc_SubkeyReader ctx = after_header_subkey hk"
  shows "\<exists>mac. NewMAC (lib_prims L) (slice 64 32 hk) paranoid = Some mac \<and>
    NewCipherSuite (lib_prims L) (oc_Key ctx) (vh_Nonce (oc_Header ctx)) (slice 96 32 hk) (vh_SerpentIV (oc_Header ctx))
      mac (drop 128 hk) paranoid = Inr cs0 \<and> (\<exists>r. ctx1 = ctx\<lparr>oc_SubkeyReader := r\<rparr>)"
  using assms(1) payload_mac_eq [OF assms(2), of L paranoid]
  by (auto simp: payload_suite_def io_bind_eq_Inr op_get_def split: if_splits option.splits)

lemma payload_pass_v2:
  assumes run: "decryptPayloadWithFastDecode L req fast ctx = (Inr (), ctx')"
    and key: "v2_keyed L ctx key hk" "oc_SubkeyReader ctx = after_header_subkey hk"
  shows "\<exists>cs. oc_CipherSuite ctx' = Some cs \<and> decrypted_under L ctx' (suite_Sum cs)"
proof -
  let ?h = "oc_Header ctx"
  obtain cs0 ctx1 where S: "payload_suite L (flag_Paranoid (vh_Flags ?h)) ctx = (Inr cs0, ctx1)"
    using run by (auto simp: decryptPayloadWithFastDecode_def io_bind_eq_Inr op_get_def)
  obtain mac r where M: "NewMAC (lib_prims L) (slice 64 32 hk) (flag_Paranoid (vh_Flags ?h)) = Some mac"
    "NewCipherSuite (lib_prims L) (oc_Key ctx) (vh_Nonce ?h) (slice 96 32 hk) (vh_SerpentIV ?h) mac (drop 128 hk)
       (flag_Paranoid (vh_Flags ?h)) = Inr cs0" "ctx1 = ctx\<lparr>oc_SubkeyReader := r\<rparr>"
    using payload_suite_Inr [OF S key(2)] by blast
  define ctx2 where "ctx2 = ctx1\<lparr>oc_CipherSuite := Some cs0, oc_output := (oc_output ctx1)\<lparr>wr_bytes := []\<rparr>\<rparr>"
  obtain cs ctx3 where D: "decrypt_loop L req (vh_Flags (oc_Header ctx2)) fast (oc_Total ctx2) (payload_input ctx2)
      (oc_input_end ctx2) 0 cs0 0 ctx2 = (Inr cs, ctx3)" "ctx' = ctx3\<lparr>oc_CipherSuite := Some cs\<rparr>"
    using run S by (auto simp: decryptPayloadWithFastDecode_def io_bind_eq_Inr op_get_def op_set_def ctx2_def)
  obtain ds ps where L: "dec_blocks L ds cs0 0 = Inr (ps, cs)" "same_op ctx2 ctx3"
    "wr_bytes (oc_output ctx3) = wr_bytes (oc_output ctx2) @ concat ps"
    using decrypt_loop_Inr [OF D(1)] by blast
  have same: "oc_Header ctx' = ?h" "oc_Key ctx' = oc_Key ctx" "oc_passwordBytes ctx' = oc_passwordBytes ctx"
    "oc_KeyfileHash ctx' = oc_KeyfileHash ctx" "oc_UseKeyfiles ctx' = oc_UseKeyfiles ctx" "wr_bytes (oc_output ctx') = concat ps"
    using L(2,3) D(2) M(3) by (auto simp: same_op_def ctx2_def)
  have "suite_Sum cs = mac (concat ds)"
    using dec_blocks_macked [OF L(1)] NewCipherSuite_fresh [OF M(2)] by (simp add: suite_Sum_def)
  moreover have "v2_keyed L ctx' key hk" using key(1) same by (auto simp: v2_keyed_def)
  ultimately have "decrypted_under L ctx' (suite_Sum cs)"
    using M(1,2) L(1) same by (intro decrypted_underI) simp_all
  then show ?thesis using D(2) by simp
qed

lemma finalize_v2:
  assumes run: "decryptFinalize L req ctx = (Inr (), ctx')" and v2: "\<not> oc_IsLegacyV1 ctx" and unmarked: "\<not> oc_Kept ctx'"
    and before: "\<exists>cs. oc_CipherSuite ctx = Some cs \<and> decrypted_under L ctx (suite_Sum cs)"
  shows "decrypted_under L ctx' (vh_AuthTag (oc_Header ctx'))"
proof -
  obtain cs where cs: "oc_CipherSuite ctx = Some cs" "decrypted_under L ctx (suite_Sum cs)" using before by blast
  let ?ok = "suite_Sum cs = vh_AuthTag (oc_Header ctx)"
  show ?thesis
  proof (cases "\<not> ?ok \<and> flag_ReedSolomon (vh_Flags (oc_Header ctx)) \<and> \<not> oc_TriedFullRSDecode ctx")
    case True
    define ctx1 where "ctx1 = ctx\<lparr>oc_TriedFullRSDecode := True\<rparr>"
    obtain ctx2 ctx3 cs3 where R: "reDeriveForRetry L req ctx1 = (Inr (), ctx2)"
      "decryptPayloadWithFastDecode L req False ctx2 = (Inr (), ctx3)" "oc_CipherSuite ctx3 = Some cs3"
      "compare_or_fail req (suite_Sum cs3 = vh_AuthTag (oc_Header ctx3)) ctx3 = (Inr (), ctx')"
      using run cs(1) True
      by (auto simp: decryptFinalize_def io_bind_eq_Inr mac_matches_def op_get_def op_set_def ctx1_def split: option.splits)
    note ok = force_or_fail_unmarked [OF R(4) [unfolded compare_or_fail_def] unmarked]
    have u: "\<not> oc_Kept ctx2" "\<not> oc_IsLegacyV1 ctx1"
      using stays_run [OF stays_passes(2) R(2)] ok unmarked v2 by (auto simp: flows_def ctx1_def)
    obtain key hk where k: "v2_keyed L ctx2 key hk" "oc_SubkeyReader ctx2 = after_header_subkey hk"
      using derive_process_verify_v2 [OF R(1) [unfolded reDeriveForRetry_def] u(2,1)] by blast
    show ?thesis using payload_pass_v2 [OF R(2) k] R(3) ok by auto
  next
    case False
    then have "compare_or_fail req ?ok ctx = (Inr (), ctx')"
      using run cs(1) by (auto simp: decryptFinalize_def io_bind_eq_Inr mac_matches_def op_get_def split: if_splits)
    from force_or_fail_unmarked [OF this [unfolded compare_or_fail_def] unmarked] show ?thesis using cs(2) by auto
  qed
qed

text \<open>The candidate that was accepted.\<close>

lemma try_candidates_Inr:
  assumes "try_candidates L req cands ctx = (Inr (), ctx')" and "cands \<noteq> []"
  shows "\<exists>ctx0. oc_Header ctx0 = oc_Header ctx \<and> oc_IsLegacyV1 ctx0 = oc_IsLegacyV1 ctx \<and>
    derive_process_verify L req ctx0 = (Inr (), ctx') \<and> oc_passwordBytes ctx0 \<in> set cands"
  using assms
proof (induction cands arbitrary: ctx)
  case (Cons cand cands)
  define ctx0 where "ctx0 = ctx\<lparr>oc_passwordBytes := cand\<rparr>"
  obtain ctx1 ctx2 where R: "decryptDeriveKeys L ctx0 = (Inr (), ctx1)" "decryptProcessKeyfiles L req ctx1 = (Inr (), ctx2)"
    "(case decryptVerifyAuth L req ctx2 of (Inr _, ctx) \<Rightarrow> (Inr (), ctx)
      | (Inl err, ctx) \<Rightarrow> if \<not> IsPasswordError (auth_error err) \<or> cands = [] then (Inl err, ctx)
          else try_candidates L req cands ctx) = (Inr (), ctx')"
    using Cons.prems(1) by (auto simp: io_bind_eq_Inr op_set_def ctx0_def)
  obtain r ctx3 where V: "decryptVerifyAuth L req ctx2 = (r, ctx3)" by (metis surj_pair)
  show ?case
  proof (cases r)
    case (Inr u)
    then have "derive_process_verify L req ctx0 = (Inr (), ctx')"
      using R V by (simp add: derive_process_verify_def io_bind_def)
    then show ?thesis by (intro exI [of _ ctx0]) (simp add: ctx0_def)
  next
    case (Inl err)
    then have n: "cands \<noteq> []" "try_candidates L req cands ctx3 = (Inr (), ctx')" using R(3) V by (auto split: if_splits)
    have "flows ctx0 ctx3"
      using flows_trans [OF flows_trans [OF stays_run [OF stays_derive R(1)] stays_run [OF stays_keyfiles R(2)]]
          stays_run [OF stays_verify V]] .
    then show ?thesis using Cons.IH [OF n(2,1)] by (auto simp: flows_def ctx0_def)
  qed
qed simp

lemma Candidates_nonempty: "Candidates L pw \<noteq> []"
  by (auto simp: Candidates_def Let_def)

section \<open>The whole decryption\<close>

lemma stays_verify_phase [stays_intros]: "stays (verify_phase L req)"
  unfolding verify_phase_def by (intro stays_intros)

lemma derive_v2:
  assumes run: "decryptDeriveProcessVerify L req ctx = (Inr (), ctx')" and v2: "\<not> oc_IsLegacyV1 ctx'" and unmarked: "\<not> oc_Kept ctx'"
  shows "(\<exists>key hk. v2_keyed L ctx' key hk \<and> oc_SubkeyReader ctx' = after_header_subkey hk) \<and>
    oc_Header ctx' = oc_Header ctx \<and>
    oc_passwordBytes ctx' \<in> set (if dr_ForceDecrypt req then [dr_Password req] else Candidates L (dr_Password req))"
proof -
  let ?cands = "if dr_ForceDecrypt req then [dr_Password req] else Candidates L (dr_Password req)"
  have "?cands \<noteq> []" using Candidates_nonempty by simp
  then obtain ctx0 where c: "oc_Header ctx0 = oc_Header ctx" "oc_IsLegacyV1 ctx0 = oc_IsLegacyV1 ctx"
    "derive_process_verify L req ctx0 = (Inr (), ctx')" "oc_passwordBytes ctx0 \<in> set ?cands"
    using try_candidates_Inr [OF run [unfolded decryptDeriveProcessVerify_def]] by blast
  moreover have "flows ctx0 ctx'" by (rule stays_run [OF stays_derive_process_verify(1) c(3)])
  ultimately show ?thesis using derive_process_verify_v2 [OF c(3) _ unmarked] v2 by (simp add: flows_def)
qed

lemma verify_phase_v2:
  assumes "verify_phase L req ctx = (Inr (), ctx')" and "v2_keyed L ctx key hk" "oc_SubkeyReader ctx = after_header_subkey hk"
    and "\<not> oc_IsLegacyV1 ctx" and "\<not> oc_Kept ctx'"
  shows "\<exists>key hk. v2_keyed L ctx' key hk \<and> oc_SubkeyReader ctx' = after_header_subkey hk"
proof (cases "dr_VerifyFirst req")
  case True
  then obtain ctx1 where R: "decryptVerifyMACFirst L req ctx = (Inr (), ctx1)" "derive_process_verify L req ctx1 = (Inr (), ctx')"
    using assms(1) by (auto simp: verify_phase_def io_bind_eq_Inr)
  have "\<not> oc_IsLegacyV1 ctx1" using stays_run [OF stays_verify_first R(1)] assms(4) by (simp add: flows_def)
  then show ?thesis using derive_process_verify_v2 [OF R(2) _ assms(5)] by blast
next
  case False
  then show ?thesis using assms by (auto simp: verify_phase_def)
qed

text \<open>C9: forced or not, a decryption of a volume of the second format that reports success without
  marking its output as untrusted has released authentic plaintext. The header it used is the one
  \<open>ReadHeader\<close> returned; one of the forms of the given password, in a forced run the password itself,
  derives a key whose HKDF stream gives the subkey under which the header MAC is right, and the
  keyfile hash is the stored one if keyfiles are used; and the output is, block by block, the
  decryption under that key and stream of bytes whose MAC is the one the header stores. No answer
  of the input, the output or the cancellation can make it release anything else unmarked.\<close>

theorem unmarked_output_authentic:
  assumes "decryptPrepared L stat req d = (Inr (), d')" and "\<not> oc_Kept d'" and "\<not> oc_IsLegacyV1 d'"
  shows "decrypted_under L d' (vh_AuthTag (oc_Header d')) \<and>
    oc_passwordBytes d' \<in> set (if dr_ForceDecrypt req then [dr_Password req] else Candidates L (dr_Password req)) \<and>
    (\<exists>r. ReadHeader (lib_codecs L) (new_run (oc_input d) (oc_input_end d)) = (Inr (), r) \<and>
       oc_Header d' = res_Header (run_result r))"
proof -
  obtain d0 d1 d2 d3 d4 where R: "decryptMeasureInput stat d = (Inr (), d0)" "decryptReadHeader L req d0 = (Inr (), d1)"
    "decryptDeriveProcessVerify L req d1 = (Inr (), d2)" "verify_phase L req d2 = (Inr (), d3)"
    "decryptPayload L req d3 = (Inr (), d4)" "decryptFinalize L req d4 = (Inr (), d')"
    using assms(1) by (auto simp: decryptPrepared_def verify_phase_def io_bind_eq_Inr)
  have f: "flows d2 d3" "flows d3 d4" "flows d4 d'"
    by (rule stays_run [OF stays_verify_phase R(4)], rule stays_run [OF stays_passes(3) R(5)],
        rule stays_run [OF stays_finalize R(6)])
  have input: "oc_input d0 = oc_input d" "oc_input_end d0 = oc_input_end d"
    using R(1) by (auto simp: decryptMeasureInput_def io_bind_eq_Inr op_set_def)
  obtain r where header: "ReadHeader (lib_codecs L) (new_run (oc_input d) (oc_input_end d)) = (Inr (), r)"
    "oc_Header d1 = res_Header (run_result r)"
    using R(2) input unfolding decryptReadHeader_def
    by (auto simp: io_bind_eq_Inr op_set_def force_or_fail_def markForcedOutputUntrusted_def Let_def split: prod.splits sum.splits if_splits)
  have u: "\<not> oc_Kept d2" "\<not> oc_Kept d3" "\<not> oc_IsLegacyV1 d2" "\<not> oc_IsLegacyV1 d4"
    using f assms(2,3) by (auto simp: flows_def)
  obtain key hk where k2: "v2_keyed L d2 key hk" "oc_SubkeyReader d2 = after_header_subkey hk" "oc_Header d2 = oc_Header d1"
    and pw: "oc_passwordBytes d2 \<in> set (if dr_ForceDecrypt req then [dr_Password req] else Candidates L (dr_Password req))"
    using derive_v2 [OF R(3) u(3,1)] by blast
  obtain key3 hk3 where k3: "v2_keyed L d3 key3 hk3" "oc_SubkeyReader d3 = after_header_subkey hk3"
    using verify_phase_v2 [OF R(4) k2(1,2) u(3,2)] by blast
  have "decrypted_under L d' (vh_AuthTag (oc_Header d'))"
    by (rule finalize_v2 [OF R(6) u(4) assms(2) payload_pass_v2 [OF R(5) [unfolded decryptPayload_def] k3]])
  then show ?thesis using pw header k2(3) f by (simp add: flows_def)
qed

end
