(* ===== verification/Legacy_Success.thy ===== *)
theory Legacy_Success
  imports Legacy_Safety
begin

text \<open>
  Encryption into a volume of the second format succeeds, as long as the HKDF stream lasts for the
  rekeyings; and an intact volume has no forgery. A small instance shows the hypotheses can hold.
\<close>

section \<open>What the primitives promise\<close>

definition libs_ok :: "nat \<Rightarrow> libs \<Rightarrow> bool" where
  "libs_ok t L \<longleftrightarrow> legacy_ok t (lib_codecs L) \<and> payload_ok t L \<and> 0 < lib_RekeyThreshold L \<and>
     (\<forall>key nonce. length key = 32 \<longrightarrow> length nonce = 24 \<longrightarrow> prim_chacha (lib_prims L) key nonce \<noteq> None) \<and>
     (\<forall>key. length key = 32 \<longrightarrow> prim_serpent (lib_prims L) key \<noteq> None) \<and>
     (\<forall>key. length key = 32 \<longrightarrow>
        (\<exists>mac. prim_blake2b (lib_prims L) key = Some mac \<and> (\<forall>m. length (mac m) = 64))) \<and>
     (\<forall>key m. length (prim_hmac_sha3 (lib_prims L) key m) = 64) \<and>
     (\<forall>key salt. length (lib_hkdf L key salt) = 8160) \<and>
     (\<forall>pw salt passes memory threads. length (lib_IDKey L pw salt passes memory threads 32) = 32)"

lemma libs_ok_chacha:
  "libs_ok t L \<Longrightarrow> length key = 32 \<Longrightarrow> length nonce = 24 \<Longrightarrow> \<exists>ks. prim_chacha (lib_prims L) key nonce = Some ks"
  by (simp add: libs_ok_def)

lemma libs_ok_serpent: "libs_ok t L \<Longrightarrow> length key = 32 \<Longrightarrow> \<exists>s. prim_serpent (lib_prims L) key = Some s"
  by (simp add: libs_ok_def)

lemma libs_ok_MAC:
  "libs_ok t L \<Longrightarrow> length key = 32 \<Longrightarrow> \<exists>mac. NewMAC (lib_prims L) key paranoid = Some mac \<and> (\<forall>m. length (mac m) = 64)"
  by (simp add: libs_ok_def NewMAC_def)

section \<open>Rekeying\<close>

lemma suite_Rekey_runs:
  assumes "libs_ok t L" and "length (cs_key cs) = 32" and "40 \<le> length (cs_hkdf cs)"
  shows "\<exists>cs'. suite_Rekey (lib_prims L) cs = (Inr (), cs') \<and> cs_key cs' = cs_key cs \<and>
    length (cs_hkdf cs) \<le> length (cs_hkdf cs') + 40"
proof -
  obtain ks where "prim_chacha (lib_prims L) (cs_key cs) (take 24 (cs_hkdf cs)) = Some ks"
    using libs_ok_chacha [OF assms(1,2), of "take 24 (cs_hkdf cs)"] assms(3) by auto
  then show ?thesis using assms(3) by (auto simp: suite_Rekey_def new_chacha_def NewCTR_def Let_def)
qed

text \<open>\<open>T\<close> bytes pass between two rekeyings, so that \<open>n\<close> blocks need at most \<open>n * MiB div T\<close> of them.\<close>

lemma enc_blocks_runs:
  assumes "libs_ok t L"
  shows "length (cs_key cs) = 32 \<Longrightarrow> 40 * ((k + length ps * MiB) div lib_RekeyThreshold L) \<le> length (cs_hkdf cs) \<Longrightarrow>
    \<exists>ds cs'. enc_blocks L ps cs k = Inr (ds, cs')"
proof (induction ps arbitrary: cs k)
  case (Cons p ps)
  let ?T = "lib_RekeyThreshold L"
  have T: "0 < ?T" using assms by (simp add: libs_ok_def)
  obtain d tmp cs1 where e: "suite_Encrypt p cs = ((d, tmp), cs1)" by (metis surj_pair)
  have c1: "cs_key cs1 = cs_key cs" "cs_hkdf cs1 = cs_hkdf cs" using Encrypt_core [OF e] by (simp_all add: suite_core_def)
  obtain cs2 k2 where r: "maybe_rekey L (k + MiB) cs1 = Inr (cs2, k2)" "length (cs_key cs2) = 32"
    "40 * ((k2 + length ps * MiB) div ?T) \<le> length (cs_hkdf cs2)"
  proof (cases "?T \<le> k + MiB")
    case True
    have "1 + length ps * MiB div ?T = (?T + length ps * MiB) div ?T" using T by (simp add: div_add_self1)
    also have "\<dots> \<le> (k + length (p # ps) * MiB) div ?T" using True by (intro div_le_mono) simp
    finally have "40 + 40 * (length ps * MiB div ?T) \<le> length (cs_hkdf cs)" using Cons.prems(2) by linarith
    moreover from this obtain cs2 where "suite_Rekey (lib_prims L) cs1 = (Inr (), cs2)" "cs_key cs2 = cs_key cs1"
      "length (cs_hkdf cs1) \<le> length (cs_hkdf cs2) + 40"
      using suite_Rekey_runs [OF assms, of cs1] Cons.prems(1) c1 by auto
    ultimately show thesis using that [of cs2 0] True Cons.prems(1) c1 by (simp add: maybe_rekey_def)
  next
    case False
    then show thesis using that [of cs1 "k + MiB"] Cons.prems c1 by (simp add: maybe_rekey_def add.assoc)
  qed
  then show ?case using Cons.IH [OF r(2,3)] e by auto
qed simp

section \<open>The encrypting loop\<close>

lemma encoded_exists:
  assumes "payload_ok t L" and "length d \<le> MiB"
  shows "\<exists>x. (if reedsolo then map_err VEncode (EncodeRSPayloadBlock d (lib_codecs L)) else Inr d) = Inr x"
  using assms EncodeRSPayloadBlock_codewords [of "lib_codecs L" d] by (simp add: payload_ok_def fec_ok_def)

lemma encrypt_loop_runs:
  assumes "payload_ok t L" and "quiet ctx" and "enc_blocks L (split_blocks MiB rest) cs k = Inr (ds, cs')"
  shows "\<exists>ctx'. encrypt_loop L reedsolo rest EOF cs k ctx = (Inr cs', ctx') \<and> same_op ctx ctx'"
  using assms(2,3)
proof (induction "length rest" arbitrary: rest cs k ctx ds rule: less_induct)
  case less
  note unfold = encrypt_loop.simps [of L reedsolo rest EOF cs k]
  obtain ctx1 where p: "poll_cancelled ctx = (Inr (), ctx1)" "same_op ctx ctx1"
    using quiet_poll [OF less.prems(1)] by blast
  show ?case
  proof (cases "rest = []")
    case True
    then have "cs' = cs" using less.prems(2) by simp
    then show ?thesis unfolding unfold using p True by (simp add: io_bind_def ReadFull_def)
  next
    case False
    let ?w = "take MiB rest" let ?rest = "drop MiB rest"
    have split: "split_blocks MiB rest = ?w # split_blocks MiB ?rest" using False by (simp add: split_blocks_Cons)
    obtain d tmp cs1 where enc: "suite_Encrypt ?w cs = ((d, tmp), cs1)" by (metis surj_pair)
    obtain cs2 k2 ds' where R: "maybe_rekey L (k + MiB) cs1 = Inr (cs2, k2)"
      "enc_blocks L (split_blocks MiB ?rest) cs2 k2 = Inr (ds', cs')"
      using less.prems(2) enc unfolding split by (auto simp: ebind_eq_Inr)
    have "length d \<le> MiB" using Decrypt_Encrypt(2) [OF enc] by simp
    then obtain x where x: "(if reedsolo then map_err VEncode (EncodeRSPayloadBlock d (lib_codecs L)) else Inr d) = Inr x"
      using encoded_exists [OF assms(1)] by blast
    have q1: "quiet ctx1" using same_op_quiet [OF p(2)] less.prems(1) by simp
    obtain ctx2 where W: "output_write False x ctx1 = (Inr (), ctx2)" "same_op ctx1 ctx2"
      using quiet_write [OF q1] by blast
    have s2: "same_op ctx ctx2" by (rule same_op_trans [OF p(2) W(2)])
    have block: "encrypt_block L reedsolo ?w cs k ctx1 = (Inr (cs2, k2), ctx2)"
      using enc x W(1) R(1) by (simp add: encrypt_block_def io_bind_def)
    have pos: "0 < MiB" by simp
    obtain err where E: "ReadFull MiB rest EOF = ((?w, err), ?rest)"
      "err = None \<and> MiB \<le> length rest \<or> err = Some UnexpectedEOF \<and> length rest < MiB \<and> ?rest = []"
      using ReadFull_round [OF False pos] by blast
    show ?thesis
    proof (cases err)
      case None
      have "quiet ctx2" "length ?rest < length rest" using same_op_quiet [OF s2] less.prems(1) False by simp_all
      from less.hyps [OF this(2,1) R(2)] obtain ctx' where
        "encrypt_loop L reedsolo ?rest EOF cs2 k2 ctx2 = (Inr cs', ctx')" "same_op ctx2 ctx'" by blast
      then show ?thesis
        unfolding unfold using p E(1) False None block same_op_trans [OF s2] by (simp add: io_bind_def)
    next
      case (Some c)
      then have c: "c = UnexpectedEOF" "?rest = []" using E(2) by auto
      then have "cs' = cs2" using R(2) by simp
      then show ?thesis unfolding unfold using p E(1) False Some c(1) block s2 by (simp add: io_bind_def)
    qed
  qed
qed

section \<open>Encryption succeeds\<close>

lemma length_split_blocks: "0 < n \<Longrightarrow> length (split_blocks n xs) * n < length xs + n"
proof (induction n xs rule: split_blocks.induct)
  case (1 n xs)
  show ?case
  proof (cases "xs = []")
    case False
    then have IH: "length (split_blocks n (drop n xs)) * n < length (drop n xs) + n" using 1 by simp
    show ?thesis
    proof (cases "length xs \<le> n")
      case True
      then show ?thesis using False 1(2) by (simp add: split_blocks_Cons)
    next
      case long: False
      then show ?thesis using IH False 1(2) by (simp add: split_blocks_Cons)
    qed
  qed (use 1 in simp)
qed

text \<open>An operation on a good machine: an input without errors, an output that takes all bytes.\<close>

definition good_machine :: "op_context \<Rightarrow> bool" where
  "good_machine ctx \<longleftrightarrow> quiet ctx \<and> oc_input_end ctx = EOF \<and> \<not> oc_UseKeyfiles ctx \<and>
     (\<forall>k p. oc_write_at ctx k p = (length p, None))"

lemma good_machine_same:
  "good_machine ctx \<Longrightarrow> oc_cancel ctx' = oc_cancel ctx \<Longrightarrow> takes_all (oc_output ctx') \<Longrightarrow>
   oc_input_end ctx' = oc_input_end ctx \<Longrightarrow> oc_UseKeyfiles ctx' = oc_UseKeyfiles ctx \<Longrightarrow> oc_write_at ctx' = oc_write_at ctx \<Longrightarrow>
   good_machine ctx'"
  by (simp add: good_machine_def quiet_def)

lemma encryptGenerateValues_runs:
  assumes "\<forall>i n. \<exists>b. rand i n = Inr b \<and> length b = n"
  shows "\<exists>h. encryptGenerateValues rand (Inr n) req ctx = (Inr (), ctx\<lparr>oc_Total := int n,
      oc_Padded := (n mod MiB \<ge> MiB - 128), oc_Header := h\<rparr>) \<and>
    vh_Version h = CurrentVersion \<and> vh_Comments h = er_Comments req \<and> flag_Paranoid (vh_Flags h) = er_Paranoid req \<and>
    length (vh_Salt h) = 16 \<and> length (vh_HKDFSalt h) = 32 \<and> length (vh_SerpentIV h) = 16 \<and> length (vh_Nonce h) = 24 \<and>
    length (vh_KeyHash h) = 64 \<and> length (vh_KeyfileHash h) = 32 \<and> length (vh_AuthTag h) = 64"
proof -
  obtain a b c d where r: "rand 0 16 = Inr a" "length a = 16" "rand 1 32 = Inr b" "length b = 32" "rand 2 16 = Inr c"
    "length c = 16" "rand 3 24 = Inr d" "length d = 24" using assms by metis
  let ?h = "(NewVolumeHeader a b c d)\<lparr>vh_Comments := er_Comments req,
    vh_Flags := \<lparr>flag_Paranoid = er_Paranoid req, flag_UseKeyfiles = er_Keyfiles req \<noteq> [],
      flag_KeyfileOrdered = er_KeyfileOrdered req, flag_ReedSolomon = er_ReedSolomon req,
      flag_Padded = (n mod MiB \<ge> MiB - 128)\<rparr>\<rparr>"
  show ?thesis
    by (intro exI [of _ ?h]) (use r in \<open>simp add: encryptGenerateValues_def RandomBytes_def io_bind_def op_set_def
        NewVolumeHeader_def zeroHeader_def Let_def\<close>)
qed

lemma encryptPayload_runs:
  assumes ok: "libs_ok t L" and good: "good_machine ctx" and reader: "oc_SubkeyReader ctx = after_header_subkey hk"
    and len: "length hk = 8160" "length (oc_Key ctx) = 32" "length (vh_Nonce (oc_Header ctx)) = 24"
      "length (vh_SerpentIV (oc_Header ctx)) = 16"
    and bound: "length (oc_input ctx) + MiB \<le> 201 * lib_RekeyThreshold L"
  shows "\<exists>cs' ctx'. encryptPayload L req ctx = (Inr (), ctx') \<and> oc_CipherSuite ctx' = Some cs' \<and>
    length (suite_Sum cs') = 64 \<and> oc_Header ctx' = oc_Header ctx \<and> oc_write_at ctx' = oc_write_at ctx"
proof -
  let ?P = "lib_prims L"
  have x: "xor_keyfile_key True ctx = (Inr (), ctx)"
    using good by (simp add: good_machine_def xor_keyfile_key_def split: option.splits)
  obtain mac where mac: "NewMAC ?P (slice 64 32 hk) (er_Paranoid req) = Some mac" "\<forall>m. length (mac m) = 64"
    using libs_ok_MAC [OF ok, of "slice 64 32 hk"] len(1) by auto
  obtain ks where ks: "prim_chacha ?P (oc_Key ctx) (vh_Nonce (oc_Header ctx)) = Some ks"
    using libs_ok_chacha [OF ok len(2,3)] by blast
  obtain sp where sp: "prim_serpent ?P (slice 96 32 hk) = Some sp" using libs_ok_serpent [OF ok, of "slice 96 32 hk"] len(1) by auto
  obtain cs where cs: "NewCipherSuite ?P (oc_Key ctx) (vh_Nonce (oc_Header ctx)) (slice 96 32 hk) (vh_SerpentIV (oc_Header ctx))
      mac (drop 128 hk) (er_Paranoid req) = Inr cs" "cs_key cs = oc_Key ctx" "cs_hkdf cs = drop 128 hk" "cs_mac cs = mac"
    using ks sp len(4) by (cases "er_Paranoid req") (auto simp: NewCipherSuite_def new_chacha_def NewCTR_def Let_def)
  define ctx1 where "ctx1 = ctx\<lparr>oc_SubkeyReader := \<lparr>sk_hkdf = drop 128 hk, sk_headerRead = True, sk_macRead = True,
    sk_serpentRead = True\<rparr>\<rparr>"
  have suite: "payload_suite L (er_Paranoid req) ctx = (Inr cs, ctx1)"
    using payload_mac_eq [OF reader, of L "er_Paranoid req"] len(1) mac(1) cs(1)
    by (simp add: payload_suite_def io_bind_def op_get_def ctx1_def)
  have T: "0 < lib_RekeyThreshold L" and pay: "payload_ok t L" using ok by (simp_all add: libs_ok_def)
  have "length (split_blocks MiB (oc_input ctx)) * MiB < 201 * lib_RekeyThreshold L"
    using length_split_blocks [of MiB "oc_input ctx"] bound by linarith
  then have "(0 + length (split_blocks MiB (oc_input ctx)) * MiB) div lib_RekeyThreshold L \<le> 200"
    using T by (simp add: div_less_iff_less_mult less_Suc_eq_le [symmetric])
  then obtain ds cs' where enc: "enc_blocks L (split_blocks MiB (oc_input ctx)) cs 0 = Inr (ds, cs')"
    using enc_blocks_runs [OF ok, of cs 0 "split_blocks MiB (oc_input ctx)"] cs(2,3) len(1,2) by auto
  have q1: "quiet ctx1" using good by (simp add: good_machine_def quiet_def ctx1_def)
  obtain ctx2 where loop: "encrypt_loop L (er_ReedSolomon req) (oc_input ctx) EOF cs 0 ctx1 = (Inr cs', ctx2)" "same_op ctx1 ctx2"
    using encrypt_loop_runs [OF pay q1 enc] by blast
  have "encryptPayload L req ctx = (Inr (), ctx2\<lparr>oc_CipherSuite := Some cs'\<rparr>)"
    using x suite loop(1) good by (simp add: encryptPayload_def io_bind_def op_get_def op_set_def ctx1_def good_machine_def)
  moreover have "length (suite_Sum cs') = 64" using enc_blocks_macked [OF enc] mac(2) cs(4) by (simp add: suite_Sum_def)
  moreover have "oc_Header ctx2 = oc_Header ctx" "oc_write_at ctx2 = oc_write_at ctx"
    using loop(2) by (auto simp: same_op_def ctx1_def)
  ultimately show ?thesis by simp
qed

lemma encrypt_front_runs:
  assumes "WriteHeader (lib_codecs L) (oc_Header ctx) (oc_output ctx) = (Inr (), w)" and "er_Keyfiles req = []"
    and "DeriveKey (lib_IDKey L) (EncodeForKDF L (er_Password req)) (vh_Salt (oc_Header ctx)) (er_Paranoid req) = Inr k"
    and "hk = lib_hkdf L k (vh_HKDFSalt (oc_Header ctx))" "64 \<le> length hk"
  shows "io_bind (encryptWriteHeader L) (\<lambda>_. io_bind (encryptDeriveKeys L req) (\<lambda>_.
      io_bind (encryptProcessKeyfiles L req) (\<lambda>_. encryptComputeAuth L))) ctx =
    (Inr (), ctx\<lparr>oc_output := w, oc_Key := k, oc_KeyfileHash := replicate 32 0,
      oc_SubkeyReader := after_header_subkey hk, oc_Header := (oc_Header ctx)
        \<lparr>vh_KeyHash := ComputeV2HeaderMAC (prim_hmac_sha3 (lib_prims L)) (take 64 hk) (oc_Header ctx) (replicate 32 0),
         vh_KeyfileHash := replicate 32 0\<rparr>\<rparr>)"
  using assms
  by (simp add: io_bind_def encryptWriteHeader_def encryptDeriveKeys_def op_get_def op_set_def encryptProcessKeyfiles_def
      encryptComputeAuth_def op_subkey_def HeaderSubkey_def NewSubkeyReader_def after_header_subkey_def)

lemma encryption_completes:
  assumes ok: "libs_ok t L" and good: "good_machine e"
    and rand: "\<forall>i n. \<exists>b. rand i n = Inr b \<and> length b = n" and valid: "Validate_legacy req = Inr ()"
    and key: "\<forall>salt. DeriveKey (lib_IDKey L) (EncodeForKDF L (er_Password req)) salt (er_Paranoid req) \<noteq> Inl ZeroKey"
    and bound: "length (oc_input e) + MiB \<le> 201 * lib_RekeyThreshold L"
  shows "\<exists>e'. encryptLegacy L rand (Inr (length (oc_input e))) req e = (Inr (), e')"
proof -
  let ?cs = "lib_codecs L" and ?hmac = "prim_hmac_sha3 (lib_prims L)"
  have V: "er_Keyfiles req = []" "length (er_Comments req) \<le> 99999"
    using valid by (simp_all add: Validate_legacy_def split: if_splits)
  have codecs: "legacy_ok t ?cs" using ok by (simp add: libs_ok_def)
  obtain h where G: "encryptGenerateValues rand (Inr (length (oc_input e))) req e =
      (Inr (), e\<lparr>oc_Total := int (length (oc_input e)), oc_Padded := (length (oc_input e) mod MiB \<ge> MiB - 128), oc_Header := h\<rparr>)"
    and h: "vh_Version h = CurrentVersion" "vh_Comments h = er_Comments req" "flag_Paranoid (vh_Flags h) = er_Paranoid req"
      "length (vh_Salt h) = 16" "length (vh_HKDFSalt h) = 32" "length (vh_SerpentIV h) = 16" "length (vh_Nonce h) = 24"
      "length (vh_KeyHash h) = 64" "length (vh_KeyfileHash h) = 32" "length (vh_AuthTag h) = 64"
    using encryptGenerateValues_runs [OF rand] by blast
  define e1 where "e1 = e\<lparr>oc_Total := int (length (oc_input e)), oc_Padded := (length (oc_input e) mod MiB \<ge> MiB - 128), oc_Header := h\<rparr>"
  have "wf_header h" using h V(2) current_version_supported by (simp add: wf_header_def)
  moreover have "takes_all (oc_output e)" using good by (simp add: good_machine_def quiet_def)
  ultimately obtain w where w: "WriteHeader ?cs h (oc_output e) = (Inr (), w)" "takes_all w"
    using WriteHeader_succeeds [OF codecs] by (auto simp: succeeds_def)
  obtain k where k: "DeriveKey (lib_IDKey L) (EncodeForKDF L (er_Password req)) (vh_Salt h) (er_Paranoid req) = Inr k" "length k = 32"
    using ok spec [OF key, of "vh_Salt h"] by (auto simp: DeriveKey_def libs_ok_def Let_def split: if_splits)
  define hk where "hk = lib_hkdf L k (vh_HKDFSalt h)"
  have hk: "length hk = 8160" using ok by (simp add: hk_def libs_ok_def)
  define h1 where "h1 = h\<lparr>vh_KeyHash := ComputeV2HeaderMAC ?hmac (take 64 hk) h (replicate 32 0), vh_KeyfileHash := replicate 32 0\<rparr>"
  define e2 where "e2 = e1\<lparr>oc_output := w, oc_Key := k, oc_KeyfileHash := replicate 32 0,
    oc_SubkeyReader := after_header_subkey hk, oc_Header := h1\<rparr>"
  have front: "io_bind (encryptWriteHeader L) (\<lambda>_. io_bind (encryptDeriveKeys L req) (\<lambda>_.
      io_bind (encryptProcessKeyfiles L req) (\<lambda>_. encryptComputeAuth L))) e1 = (Inr (), e2)"
    using encrypt_front_runs [of L e1 w req k hk] w(1) k(1) V(1) hk by (simp add: e2_def e1_def h1_def hk_def)
  have good2: "good_machine e2" using good_machine_same [OF good, of e2] w(2) by (simp add: e2_def e1_def)
  obtain cs' e3 where P: "encryptPayload L req e2 = (Inr (), e3)" "oc_CipherSuite e3 = Some cs'"
    "length (suite_Sum cs') = 64" "oc_Header e3 = oc_Header e2" "oc_write_at e3 = oc_write_at e2"
    using encryptPayload_runs [OF ok good2, of hk req] hk k(2) h(6,7) bound by (auto simp: e2_def e1_def h1_def)
  have "\<forall>k p. oc_write_at e3 k p = (length p, None)" using good2 P(5) by (simp add: good_machine_def)
  moreover have "length (vh_KeyHash h1) = 64" "length (vh_KeyfileHash h1) = 32"
    using ok by (simp_all add: h1_def ComputeV2HeaderMAC_def libs_ok_def)
  ultimately have "\<exists>f. WriteAuthValues (AuthValuesOffset (length (vh_Comments h1))) (vh_KeyHash h1) (vh_KeyfileHash h1)
      (suite_Sum cs') ?cs \<lparr>fl_bytes = wr_bytes (oc_output e3), fl_calls = 0, fl_answer = oc_write_at e3\<rparr> = (Inr (), f)"
    by (intro WriteAuthValues_succeeds [OF codecs _ _ P(3)]) simp_all
  then obtain e4 where "encryptFinalize L e3 = (Inr (), e4)" using P(2,4) by (auto simp: encryptFinalize_def e2_def)
  then show ?thesis using valid G [folded e1_def] front P(1) by (auto simp: encryptLegacy_def io_bind_eq_Inr)
qed

text \<open>C38: encryption into the second format completes. On a machine where randomness is available,
  nothing is cancelled, the input reads to its end and the output takes all bytes, a request that
  \<open>Validate\<close> accepts succeeds for every input shorter than 201 rekeying thresholds (about 12 TiB)
  less one block: the 8160 bytes of the HKDF stream are enough for the subkeys and all rekeyings.
  The key derivation must not return the all-zero key, which the code refuses.\<close>

theorem encryptLegacy_completes:
  assumes "libs_ok t L" and "good_machine e"
    and "\<forall>i n. \<exists>b. rand i n = Inr b \<and> length b = n" and "Validate_legacy req = Inr ()"
    and "\<forall>salt. DeriveKey (lib_IDKey L) (EncodeForKDF L (er_Password req)) salt (er_Paranoid req) \<noteq> Inl ZeroKey"
    and "length (oc_input e) + MiB \<le> 201 * lib_RekeyThreshold L"
  shows "\<exists>e'. encryptLegacy L rand (Inr (length (oc_input e))) req e = (Inr (), e')"
  using assms by (rule encryption_completes)

section \<open>Intact volumes\<close>

lemma chunks_near_0:
  assumes "chunks_near 0 xs ys" and "136 dvd length xs"
  shows "ys = xs"
proof (rule nth_equalityI)
  show len: "length ys = length xs" using assms(1) by (simp add: chunks_near_def)
  fix j assume j: "j < length ys"
  let ?i = "j div 136" and ?k = "j mod 136"
  have d: "?i * 136 + ?k = j" by simp
  have i: "?i < length xs div 136" using j len assms(2) by (auto simp: div_less_iff_less_mult elim!: dvdE)
  then have "Suc ?i * 136 \<le> length xs div 136 * 136" by (intro mult_le_mono1) simp
  then have le: "?i * 136 + 136 \<le> length xs" by simp
  have "diffs (slice (?i * 136) 136 xs) (slice (?i * 136) 136 ys) = 0" using assms(1) i by (simp add: chunks_near_def)
  then have "slice (?i * 136) 136 xs = slice (?i * 136) 136 ys" by (intro diffs_0) (simp_all add: len)
  then have "slice (?i * 136) 136 xs ! ?k = slice (?i * 136) 136 ys ! ?k" by simp
  then show "ys ! j = xs ! j" using nth_slice [of ?k 136 "?i * 136" xs] nth_slice [of ?k 136 "?i * 136" ys] j len d by simp
qed

lemma block_data_intact:
  assumes ok: "payload_ok t L" and e: "encoded_as L (flag_ReedSolomon flags) d e" and d: "length d \<le> MiB"
    and fits: "flag_fits flags isLast d"
  shows "block_data L req flags True isLast e = Inr d"
proof (cases "flag_ReedSolomon flags")
  case True
  let ?rs = "RS128 (lib_codecs L)" and ?cs = "payload_chunks d"
  have rs: "rs128 ?rs" using ok by (simp add: payload_ok_def)
  have word: "e = concat (map (codeword ?rs) ?cs)"
    using e ok d True EncodeRSPayloadBlock_codewords [of "lib_codecs L" d] by (simp add: encoded_as_def payload_ok_def fec_ok_def)
  have cw: "length (codeword ?rs c) = 136" if "c \<in> set ?cs" for c
    using payload_chunks_128 [OF that] rs by (simp add: rs128_def)
  have "decodeChunk ?rs f True (slice (i * 136) 136 e) = Inr (?cs ! i)" if "i < length ?cs" for i f
    using slice_concat_same [OF cw that] decodeChunk_fast [OF rs payload_chunks_128 [OF nth_mem [OF that]]] word by simp
  then have "DecodeRSPayloadBlock e (lib_codecs L) isLast (flag_Padded flags) (dr_ForceDecrypt req) True = Inr d"
    using d fits encoded_length [OF ok e d] True by (intro DecodeRSPayloadBlock_chunks) (auto simp: flag_fits_def)
  then show ?thesis using True by (simp add: block_data_def decodeWithRSFast_def)
next
  case False
  then show ?thesis using e by (simp add: block_data_def encoded_as_def)
qed

lemma payload_ok_0: "payload_ok t L \<Longrightarrow> payload_ok 0 L"
  by (auto simp: payload_ok_def fec_ok_def fec_corrects_def)

text \<open>Without damage the pass without correction reads the blocks themselves.\<close>

lemma payload_intact:
  assumes "payload_ok t L" and "payload_of L flags ds es" and "w = concat es"
  shows "block_datas L req flags True (int (length w)) 0 (split_blocks (src_buf_size flags) w) = Inr ds"
proof -
  have "\<exists>xs. block_datas L req flags True (int (0 + length w)) 0 (split_blocks (src_buf_size flags) w) = Inr xs \<and>
    list_all2 (\<lambda>d x. x = d) ds xs"
  proof (rule block_datas_of_blocks [OF payload_ok_0 [OF assms(1)], where es = es])
    fix d e w isLast
    assume e: "encoded_as L (flag_ReedSolomon flags) d e" "length d \<le> MiB" "payload_near 0 (flag_ReedSolomon flags) e w"
      and fits: "flag_fits flags isLast d"
    have "w = e"
    proof (cases "flag_ReedSolomon flags")
      case True
      then have "136 dvd length e" using encoded_length [OF assms(1) e(1,2)] by simp
      then show ?thesis using e(3) True chunks_near_0 by (simp add: payload_near_def)
    qed (use e(3) in \<open>simp add: payload_near_def\<close>)
    then show "\<exists>x. block_data L req flags True isLast w = Inr x \<and> x = d"
      using block_data_intact [OF assms(1) e(1,2) fits] by simp
  qed (use assms padded_fits in \<open>auto simp: payload_of_def payload_near_def chunks_near_def\<close>)
  then show ?thesis by (auto dest: all2_equal)
qed

lemma intact_no_forgery:
  assumes "legacy_ok t (lib_codecs L)" "payload_ok t L" "fresh_output e"
    "encryptLegacy L rand (Inr (length (oc_input e))) req e = (Inr (), e')"
  shows "\<not> fast_forgery L dreq e' (wr_bytes (oc_output e'))"
proof -
  obtain h ds es cs' where E: "written_volume L (EncodeForKDF L (er_Password req)) (oc_input e) h ds es cs' (wr_bytes (oc_output e'))"
    "oc_CipherSuite e' = Some cs'" "vh_Flags (oc_Header e') = vh_Flags h" "vh_Comments (oc_Header e') = vh_Comments h"
    using encryptLegacy_Inr [OF assms(4,1,3)] by blast
  have w: "wf_header h" "payload_of L (vh_Flags h) ds es"
    "wr_bytes (oc_output e') = concat (header_words (lib_codecs L) h) @ concat es"
    using E(1) by (simp_all add: written_volume_def)
  have "length (concat (header_words (lib_codecs L) h)) = HeaderSize (length (vh_Comments h))"
    using header_words_sizes [OF assms(1) w(1)] by (simp add: length_concat sum_header_sizes)
  then have pay: "drop (HeaderSize (length (vh_Comments h))) (wr_bytes (oc_output e')) = concat es" using w(3) by simp
  have "cs_macked cs' = concat ds"
    using E(1) enc_blocks_macked NewCipherSuite_fresh by (fastforce simp: written_volume_def volume_keys_def)
  then show ?thesis
    using payload_intact [OF assms(2) w(2) refl, of dreq] E(2-4) pay by (simp add: fast_forgery_def Let_def)
qed

section \<open>An instance\<close>

definition toy_libs :: libs where
  "toy_libs = \<lparr>lib_prims = \<lparr>prim_chacha = (\<lambda>key nonce. Some (\<lambda>i. word_of_nat i + hd key)),
       prim_serpent = (\<lambda>key. Some (\<lambda>block. map2 (XOR) block key)),
       prim_blake2b = (\<lambda>key. Some (\<lambda>m. replicate 63 0 @ [foldr (+) m (hd key)])),
       prim_hmac_sha3 = (\<lambda>key m. replicate 63 1 @ [foldr (+) m (hd key)]),
       prim_sha3_256 = (\<lambda>m. replicate 31 0 @ [foldr (XOR) m 0])\<rparr>,
     lib_IDKey = (\<lambda>pw salt passes memory threads size. replicate size (foldr (XOR) pw 1)),
     lib_hkdf = (\<lambda>key salt. replicate 8160 (foldr (XOR) key 3)),
     lib_sha3_512 = (\<lambda>m. replicate 63 0 @ [foldr (XOR) m 0]), lib_codecs = xor_codecs,
     lib_nfc = id, lib_nfd = id, lib_nfc15 = id, lib_nfd15 = id, lib_RekeyThreshold = 60 * 1024 * MiB\<rparr>"

definition toy_encrypt :: encrypt_request where
  "toy_encrypt = \<lparr>er_Password = [112, 119], er_Keyfiles = [], er_KeyfileOrdered = False, er_Comments = [72, 105],
     er_Paranoid = True, er_ReedSolomon = True, er_Deniability = False\<rparr>"

definition toy_decrypt :: decrypt_request where
  "toy_decrypt = \<lparr>dr_Password = [112, 119], dr_Keyfiles = [], dr_ForceDecrypt = False, dr_VerifyFirst = True\<rparr>"

definition toy_context :: "byte list \<Rightarrow> op_context" where
  "toy_context input = \<lparr>oc_Header = zeroHeader, oc_Key = [], oc_KeyfileKey = None, oc_KeyfileHash = [], oc_passwordBytes = [],
     oc_SubkeyReader = NewSubkeyReader [], oc_CipherSuite = None, oc_IsLegacyV1 = False, oc_UseKeyfiles = False,
     oc_Padded = False, oc_TriedFullRSDecode = False, oc_Kept = False, oc_Total = 0, oc_cancel = (\<lambda>_. False),
     oc_polls = 0, oc_input = input, oc_input_end = EOF,
     oc_output = \<lparr>wr_bytes = [], wr_calls = 0, wr_answer = (\<lambda>_ p. (length p, None)), wr_total = 0\<rparr>,
     oc_write_at = (\<lambda>_ p. (length p, None))\<rparr>"

lemma toy_libs_ok: "libs_ok 1 toy_libs"
  using xor_legacy_ok xor_codecs_ok
  by (simp add: libs_ok_def payload_ok_def toy_libs_def)

lemma toy_context_ok:
  "good_machine (toy_context input)" "fresh_output (toy_context input)" "fresh_decrypt input (toy_context input)"
  "oc_input (toy_context input) = input"
  by (simp_all add: good_machine_def fresh_output_def fresh_decrypt_def quiet_def takes_all_def honest_writer_def toy_context_def)

lemma toy_requests:
  "Validate_legacy toy_encrypt = Inr ()"
  "\<forall>salt. DeriveKey (lib_IDKey toy_libs) (EncodeForKDF toy_libs (er_Password toy_encrypt)) salt (er_Paranoid toy_encrypt) \<noteq> Inl ZeroKey"
  by (simp_all add: Validate_legacy_def toy_encrypt_def DeriveKey_def EncodeForKDF_def Normalize_def toy_libs_def)

lemma toy_encryption_runs:
  "3 + MiB \<le> 201 * lib_RekeyThreshold toy_libs \<Longrightarrow> \<exists>e'. encryptLegacy toy_libs (\<lambda>i n. Inr (replicate n 7))
     (Inr (length (oc_input (toy_context [1, 2, 3])))) toy_encrypt (toy_context [1, 2, 3]) = (Inr (), e')"
  by (rule encryption_completes [OF toy_libs_ok toy_context_ok(1) _ toy_requests]) (simp_all add: toy_context_ok(4))

theorem encryptLegacy_completes_witness:
  "\<exists>e'. encryptLegacy toy_libs (\<lambda>i n. Inr (replicate n 7)) (Inr 3) toy_encrypt (toy_context [1, 2, 3]) = (Inr (), e')"
proof -
  have n: "length (oc_input (toy_context [1, 2, 3])) = 3" by (simp add: toy_context_ok(4))
  have "3 + MiB \<le> 201 * lib_RekeyThreshold toy_libs" by (simp add: toy_libs_def)
  then show ?thesis
    using encryptLegacy_completes [OF toy_libs_ok toy_context_ok(1) _ toy_requests, of "\<lambda>i n. Inr (replicate n 7)" "[1, 2, 3]"]
    unfolding n by simp
qed

text \<open>A volume with a wrong byte in its header satisfies the hypotheses of the round trip.\<close>

definition one_wrong :: "byte list \<Rightarrow> byte list" where
  "one_wrong bytes = bytes[20 := bytes ! 20 + 1]"

lemma one_wrong_damage: "volume_damage 1 toy_encrypt bytes (one_wrong bytes)"
proof -
  have "drop (HeaderSize c) (one_wrong bytes) = drop (HeaderSize c) bytes" for c
    by (simp add: one_wrong_def HeaderSize_def BaseHeaderSize_def)
  then show ?thesis
    by (simp add: volume_damage_def Let_def payload_near_def chunks_near_def) (simp add: one_wrong_def cut_update [unfolded One_nat_def])
qed

lemma one_wrong_forgery: "fast_forgery L dreq e' (one_wrong bytes) = fast_forgery L dreq e' bytes"
  by (simp add: fast_forgery_def one_wrong_def HeaderSize_def BaseHeaderSize_def)

lemma toy_volume:
  obtains e' where "encryptLegacy toy_libs (\<lambda>i n. Inr (replicate n 7)) (Inr (length (oc_input (toy_context [1, 2, 3]))))
      toy_encrypt (toy_context [1, 2, 3]) = (Inr (), e')"
    "volume_damage 1 toy_encrypt (wr_bytes (oc_output e')) (one_wrong (wr_bytes (oc_output e')))"
    "\<not> fast_forgery toy_libs toy_decrypt e' (one_wrong (wr_bytes (oc_output e')))"
proof -
  have ok: "legacy_ok 1 (lib_codecs toy_libs)" "payload_ok 1 toy_libs" using toy_libs_ok by (simp_all add: libs_ok_def)
  have "3 + MiB \<le> 201 * lib_RekeyThreshold toy_libs" by (simp add: toy_libs_def)
  then obtain e' where e': "encryptLegacy toy_libs (\<lambda>i n. Inr (replicate n 7)) (Inr (length (oc_input (toy_context [1, 2, 3]))))
      toy_encrypt (toy_context [1, 2, 3]) = (Inr (), e')"
    using toy_encryption_runs by blast
  show thesis
    using that [OF e' one_wrong_damage] intact_no_forgery [OF ok toy_context_ok(2) e'] by (simp add: one_wrong_forgery)
qed

lemma toy_facts:
  "legacy_ok 1 (lib_codecs toy_libs)" "payload_ok 1 toy_libs" "lib_nfc toy_libs pw = pw"
  "dr_Password toy_decrypt = er_Password toy_encrypt" "\<not> dr_ForceDecrypt toy_decrypt"
  using toy_libs_ok by (simp_all add: libs_ok_def) (simp_all add: toy_libs_def toy_decrypt_def toy_encrypt_def)

lemma toy_length: "length (oc_input (toy_context [1, 2, 3])) = 3"
  by (simp add: toy_context_ok(4))

theorem legacy_volume_roundtrip_witness:
  "\<exists>e' d'. encryptLegacy toy_libs (\<lambda>i n. Inr (replicate n 7)) (Inr 3) toy_encrypt (toy_context [1, 2, 3]) = (Inr (), e') \<and>
     decryptPrepared toy_libs (Inr (length (one_wrong (wr_bytes (oc_output e'))))) toy_decrypt
       (toy_context (one_wrong (wr_bytes (oc_output e')))) = (Inr (), d') \<and> wr_bytes (oc_output d') = [1, 2, 3]"
proof -
  obtain e' where e': "encryptLegacy toy_libs (\<lambda>i n. Inr (replicate n 7)) (Inr (length (oc_input (toy_context [1, 2, 3]))))
      toy_encrypt (toy_context [1, 2, 3]) = (Inr (), e')"
    "volume_damage 1 toy_encrypt (wr_bytes (oc_output e')) (one_wrong (wr_bytes (oc_output e')))"
    "\<not> fast_forgery toy_libs toy_decrypt e' (one_wrong (wr_bytes (oc_output e')))"
    by (rule toy_volume)
  show ?thesis
    using legacy_volume_roundtrip [OF toy_facts(1,2) toy_facts(3) toy_context_ok(2) e' toy_context_ok(3) toy_facts(4,5)]
      e'(1) [unfolded toy_length] unfolding toy_context_ok(4) by blast
qed

theorem unmarked_output_authentic_witness:
  "\<exists>input d'. decryptPrepared toy_libs (Inr (length input)) toy_decrypt (toy_context input) = (Inr (), d') \<and>
     decrypted_under toy_libs d' (vh_AuthTag (oc_Header d'))"
proof -
  obtain e' where e': "encryptLegacy toy_libs (\<lambda>i n. Inr (replicate n 7)) (Inr (length (oc_input (toy_context [1, 2, 3]))))
      toy_encrypt (toy_context [1, 2, 3]) = (Inr (), e')"
    "volume_damage 1 toy_encrypt (wr_bytes (oc_output e')) (one_wrong (wr_bytes (oc_output e')))"
    "\<not> fast_forgery toy_libs toy_decrypt e' (one_wrong (wr_bytes (oc_output e')))"
    by (rule toy_volume)
  from volume_roundtrip [OF toy_facts(1,2) toy_facts(3) toy_context_ok(2) e' toy_context_ok(3) toy_facts(4,5)]
  show ?thesis using unmarked_output_authentic [of toy_libs] by blast
qed

end
