(* ===== verification/Deniability.thy ===== *)
theory Deniability
  imports Legacy_Volume Legacy_Round_Trip
begin

text \<open>
  The deniability wrapper of the second format (\<open>volume/deniability.go\<close>): a whole volume under
  XChaCha20 with a key of its own, behind a random salt and nonce and without any tag, and the
  classification of a file as wrapped. The answers of the file system (opening, identities,
  staging, publication) are a record of the environment; a staged file is the bytes written to it.
  Progress reports are left out.
\<close>

section \<open>Files and errors\<close>

text \<open>
  \<open>df_expected\<close> is the answer of \<open>os.SameFile\<close> for the expected input, if there is one, and
  \<open>df_current\<close> what a second look at the path gives. A prepared input is rewound instead of opened
  and stays open. \<open>df_reads\<close> are the answers of reading back the staged file.
\<close>

record deniability_files =
  df_prepared :: bool
  df_open :: "cause option"
  df_stat :: "cause option"
  df_probe :: "cause option"
  df_expected :: "bool option"
  df_stage :: "cause option"
  df_input :: "byte list"
  df_end :: cause
  df_seek :: "cause option"
  df_close :: "cause option"
  df_current :: "cause + bool"
  df_inspect :: "cause option"
  df_commit :: "cause option"
  df_sync :: "cause option"
  df_rewind :: "cause option"
  df_reads :: "cause option"
  df_rewindAgain :: "cause option"
  df_cleanup :: "cause option"

datatype deniability_error =
    DPasswordRequired | DOpen cause | DStat cause | DProbe cause | DClaimedPCV3 | DInputChanged | DStage cause
  | DRandom crypto_error | DWriteSalt cause | DWriteNonce cause | DCipher crypto_error | DWrite cause
  | DRekey crypto_error | DRead cause | DReadSalt cause | DReadNonce cause | DReadProbe cause | DSeek cause
  | DIncorrect | DClose cause | DInspect cause | DPathChanged | DPublish cause | DSync cause
  | DRewind cause | DReadVersion cause | DJoined deniability_error cause

type_synonym 'a deniability_io = "(writer, deniability_error, 'a) io"

definition answer :: "(cause \<Rightarrow> deniability_error) \<Rightarrow> cause option \<Rightarrow> unit deniability_io" where
  "answer e c = io_lift (case c of None \<Rightarrow> Inr () | Some c \<Rightarrow> Inl (e c))"

definition demand :: "bool \<Rightarrow> deniability_error \<Rightarrow> unit deniability_io" where
  "demand ok e = io_lift (if ok then Inr () else Inl e)"

text \<open>A write to the staged file; only the error is looked at.\<close>

definition stage_write :: "(cause \<Rightarrow> deniability_error) \<Rightarrow> byte list \<Rightarrow> unit deniability_io" where
  "stage_write e p w =
     (case wr_answer w (wr_calls w) p of
        (n, err) \<Rightarrow>
          let w = w\<lparr>wr_bytes := wr_bytes w @ take n p, wr_calls := wr_calls w + 1, wr_total := wr_total w + n\<rparr>
          in (case err of None \<Rightarrow> (Inr (), w) | Some c \<Rightarrow> (Inl (e c), w)))"

text \<open>The deferred cleanup of the stage joins its error to another; a published stage needs none.\<close>

definition with_cleanup :: "deniability_files \<Rightarrow> 'a deniability_io \<Rightarrow> 'a deniability_io" where
  "with_cleanup F m w =
     (case m w of
        (Inr v, w) \<Rightarrow> (Inr v, w)
      | (Inl e, w) \<Rightarrow> (Inl (case df_cleanup F of None \<Rightarrow> e | Some c \<Rightarrow> DJoined e c), w))"

section \<open>The cipher over a whole file\<close>

definition deriveDeniabilityKey :: "libs \<Rightarrow> byte list \<Rightarrow> byte list \<Rightarrow> byte list" where
  "deriveDeniabilityKey L password salt = lib_IDKey L password salt 4 1048576 4 Argon2KeySize"

text \<open>One block: the cipher, the nonce and the counter that follow it.\<close>

definition deniability_block ::
  "libs \<Rightarrow> byte list \<Rightarrow> byte list \<Rightarrow> stream \<Rightarrow> byte list \<Rightarrow> nat \<Rightarrow> (stream \<times> byte list \<times> nat) deniability_io" where
  "deniability_block L key src cipher nonce counter =
     (case XORKeyStream src cipher of
        (dst, cipher) \<Rightarrow>
          io_bind (stage_write DWrite dst) (\<lambda>_.
            if counter + MiB \<ge> lib_RekeyThreshold L
            then io_bind (io_lift (map_err DRekey (DeniabilityRekey (lib_prims L) key nonce))) (\<lambda>(cipher, nonce).
                 io_ret (cipher, nonce, 0))
            else io_ret (cipher, nonce, counter + MiB)))"

function deniability_loop ::
  "libs \<Rightarrow> byte list \<Rightarrow> byte list \<Rightarrow> cause \<Rightarrow> stream \<Rightarrow> byte list \<Rightarrow> nat \<Rightarrow> unit deniability_io" where
  "deniability_loop L key rest end' cipher nonce counter =
     (case ReadFull MiB rest end' of
        ((src, err), rest') \<Rightarrow>
          io_bind (if src \<noteq> [] then deniability_block L key src cipher nonce counter
                   else io_ret (cipher, nonce, counter)) (\<lambda>(cipher, nonce, counter).
            case err of
              None \<Rightarrow> deniability_loop L key rest' end' cipher nonce counter
            | Some c \<Rightarrow> if c = EOF \<or> c = UnexpectedEOF then io_ret () else io_fail (DRead c)))"
  by pat_completeness auto
termination
  by (relation "measure (\<lambda>(L, key, rest, end', cipher, nonce, counter). length rest)")
    (auto simp: ReadFull_def split: if_splits)

declare deniability_loop.simps [simp del]

section \<open>Wrapping\<close>

definition addDeniability ::
  "libs \<Rightarrow> (nat \<Rightarrow> nat \<Rightarrow> cause + byte list) \<Rightarrow> deniability_files \<Rightarrow> byte list \<Rightarrow> unit deniability_io" where
  "addDeniability L rand F password =
     io_bind (demand (password \<noteq> []) DPasswordRequired) (\<lambda>_.
     io_bind (answer DOpen (df_open F)) (\<lambda>_.
     io_bind (answer DStat (df_stat F)) (\<lambda>_.
     io_bind (demand (df_expected F \<noteq> Some False) DInputChanged) (\<lambda>_.
     io_bind (answer DStage (df_stage F)) (\<lambda>_.
     with_cleanup F (
       io_bind (io_lift (map_err DRandom (RandomBytes (rand 0) 16))) (\<lambda>salt.
       io_bind (io_lift (map_err DRandom (RandomBytes (rand 1) 24))) (\<lambda>nonce.
       io_bind (stage_write DWriteSalt salt) (\<lambda>_.
       io_bind (stage_write DWriteNonce nonce) (\<lambda>_.
       let key = deriveDeniabilityKey L (EncodeForKDF L password) salt in
       io_bind (io_lift (map_err DCipher (new_chacha (lib_prims L) key nonce))) (\<lambda>cipher.
       io_bind (deniability_loop L key (df_input F) (df_end F) cipher nonce 0) (\<lambda>_.
       io_bind (answer DClose (df_close F)) (\<lambda>_.
       io_bind (io_lift (map_err DInspect (df_current F))) (\<lambda>same.
       io_bind (demand same DPathChanged) (\<lambda>_.
       io_bind (answer DInspect (df_inspect F)) (\<lambda>_.
       answer DPublish (df_commit F)))))))))))))))))"

section \<open>Unwrapping\<close>

text \<open>The version field of an inner volume.\<close>

definition inner_version :: "libs \<Rightarrow> byte list \<Rightarrow> bool" where
  "inner_version L enc \<longleftrightarrow>
     (case rs_Decode (RS5 (lib_codecs L)) enc False of
        (dec, Some _) \<Rightarrow> False
      | (dec, None) \<Rightarrow> MatchVersion dec)"

fun select_key ::
  "libs \<Rightarrow> byte list \<Rightarrow> byte list \<Rightarrow> byte list \<Rightarrow> byte list list \<Rightarrow> deniability_error + byte list" where
  "select_key L salt nonce probe [] = Inl DIncorrect"
| "select_key L salt nonce probe (cand # rest) =
     (let key = deriveDeniabilityKey L cand salt in
      ebind (map_err DCipher (new_chacha (lib_prims L) key nonce)) (\<lambda>cipher.
      if inner_version L (fst (XORKeyStream probe cipher)) then Inr key
      else select_key L salt nonce probe rest))"

definition selectDeniabilityKey ::
  "libs \<Rightarrow> byte list \<Rightarrow> byte list \<Rightarrow> byte list \<Rightarrow> byte list \<Rightarrow> deniability_error + byte list" where
  "selectDeniabilityKey L password salt nonce probe = select_key L salt nonce probe (Candidates L password)"

text \<open>\<open>io.ReadFull\<close> of the next part of the input.\<close>

definition take_part ::
  "(cause \<Rightarrow> deniability_error) \<Rightarrow> nat \<Rightarrow> cause \<Rightarrow> byte list \<Rightarrow> (byte list \<times> byte list) deniability_io" where
  "take_part e n end' rest =
     (case ReadFull n rest end' of
        ((part, None), rest) \<Rightarrow> io_ret (part, rest)
      | ((_, Some c), _) \<Rightarrow> io_fail (e c))"

text \<open>A file that the third format claims is refused, with one error whether its structure is sound or not;
  \<open>df_probe\<close> is a failure of the disk under the probe.\<close>

definition rejectClaimedPCV3Size :: "deniability_files \<Rightarrow> unit deniability_io" where
  "rejectClaimedPCV3Size F =
     io_bind (answer DProbe (df_probe F)) (\<lambda>_.
     demand (DetectPrefix (take 4 (df_input F)) \<noteq> RouteNormalPCV) DClaimedPCV3)"

text \<open>The staged file is read back at its start; its contents are the inner volume.\<close>

definition verify_stage :: "libs \<Rightarrow> deniability_files \<Rightarrow> unit deniability_io" where
  "verify_stage L F =
     io_bind (answer DSync (df_sync F)) (\<lambda>_.
     io_bind (answer DRewind (df_rewind F)) (\<lambda>_.
     io_bind (answer DReadVersion (df_reads F)) (\<lambda>_ w.
       io_bind (take_part DReadVersion VersionEncSize EOF (wr_bytes w)) (\<lambda>(versionEnc, _).
       io_bind (demand (inner_version L versionEnc) DIncorrect) (\<lambda>_.
       answer DRewind (df_rewindAgain F))) w)))"

definition removeDeniability :: "libs \<Rightarrow> deniability_files \<Rightarrow> byte list \<Rightarrow> unit deniability_io" where
  "removeDeniability L F password =
     io_bind (answer DOpen (df_open F)) (\<lambda>_.
     io_bind (answer DStat (df_stat F)) (\<lambda>_.
     io_bind (rejectClaimedPCV3Size F) (\<lambda>_.
     io_bind (demand (df_expected F \<noteq> Some False) DInputChanged) (\<lambda>_.
     io_bind (answer DStage (df_stage F)) (\<lambda>_.
     with_cleanup F (
       io_bind (take_part DReadSalt 16 (df_end F) (df_input F)) (\<lambda>(salt, rest).
       io_bind (take_part DReadNonce 24 (df_end F) rest) (\<lambda>(nonce, rest).
       io_bind (take_part DReadProbe VersionEncSize (df_end F) rest) (\<lambda>(probe, _).
       io_bind (answer DSeek (df_seek F)) (\<lambda>_.
       io_bind (io_lift (selectDeniabilityKey L password salt nonce probe)) (\<lambda>key.
       io_bind (io_lift (map_err DCipher (new_chacha (lib_prims L) key nonce))) (\<lambda>cipher.
       io_bind (deniability_loop L key rest (df_end F) cipher nonce 0) (\<lambda>_.
       io_bind (answer DClose (if df_prepared F then None else df_close F)) (\<lambda>_.
       verify_stage L F))))))))))))))"

section \<open>Classification\<close>

definition parseHeaderCommentLen :: "byte list \<Rightarrow> nat option" where
  "parseHeaderCommentLen b =
     (if length b \<noteq> 5 \<or> \<not> list_all is_digit b then None
      else if atoi b > MaxCommentLen then None else Some (atoi b))"

definition headerFlagsBytesPlausible :: "byte list \<Rightarrow> bool" where
  "headerFlagsBytesPlausible b \<longleftrightarrow> length b \<ge> 5 \<and> list_all (\<lambda>c. c = 0 \<or> c = 1) (take 5 b)"

text \<open>\<open>ReadAt\<close> on the file; \<open>fails\<close> are the offsets at which the disk answers with an error.\<close>

definition read_part :: "(nat \<Rightarrow> bool) \<Rightarrow> byte list \<Rightarrow> nat \<Rightarrow> nat \<Rightarrow> byte list option" where
  "read_part fails bytes off n =
     (if fails off \<or> length bytes < off + n then None else Some (slice off n bytes))"

definition looksLikeRegularHeaderAfterDamagedVersion ::
  "libs \<Rightarrow> (nat \<Rightarrow> bool) \<Rightarrow> byte list \<Rightarrow> bool" where
  "looksLikeRegularHeaderAfterDamagedVersion L fails bytes \<longleftrightarrow>
     (case read_part fails bytes VersionEncSize CommentLenEncSize of
        None \<Rightarrow> False
      | Some commentLenEnc \<Rightarrow>
          (case rs_Decode (RS5 (lib_codecs L)) commentLenEnc False of
             (_, Some _) \<Rightarrow> False
           | (commentLenDec, None) \<Rightarrow>
               (case parseHeaderCommentLen commentLenDec of
                  None \<Rightarrow> False
                | Some commentsLen \<Rightarrow>
                    (case read_part fails bytes (VersionEncSize + CommentLenEncSize + commentsLen * 3) FlagsEncSize of
                       None \<Rightarrow> False
                     | Some flagsEnc \<Rightarrow>
                         (case rs_Decode (RS5 (lib_codecs L)) flagsEnc False of
                            (_, Some _) \<Rightarrow> False
                          | (flagsDec, None) \<Rightarrow> headerFlagsBytesPlausible flagsDec)))))"

definition IsDeniableFile :: "libs \<Rightarrow> cause option \<Rightarrow> (nat \<Rightarrow> bool) \<Rightarrow> byte list \<Rightarrow> bool" where
  "IsDeniableFile L stat fails bytes \<longleftrightarrow>
     (if stat \<noteq> None \<or> length bytes < 16 + 24 + BaseHeaderSize then False
      else
        (case read_part fails bytes 0 15 of
           None \<Rightarrow> False
         | Some versionEnc \<Rightarrow>
             (case rs_Decode (RS5 (lib_codecs L)) versionEnc False of
                (_, Some _) \<Rightarrow> \<not> looksLikeRegularHeaderAfterDamagedVersion L fails bytes
              | (versionDec, None) \<Rightarrow>
                  if MatchVersion versionDec then False
                  else \<not> looksLikeRegularHeaderAfterDamagedVersion L fails bytes)))"

section \<open>The cipher as a function of the bytes\<close>

text \<open>What follows a block, and the blocks of a file under the cipher, if no rekeying is refused.\<close>

definition after_block :: "libs \<Rightarrow> byte list \<Rightarrow> stream \<Rightarrow> byte list \<Rightarrow> nat \<Rightarrow> (stream \<times> byte list \<times> nat) option" where
  "after_block L key cipher nonce counter =
     (if counter + MiB \<ge> lib_RekeyThreshold L
      then (case DeniabilityRekey (lib_prims L) key nonce of
              Inl _ \<Rightarrow> None | Inr (cipher, nonce) \<Rightarrow> Some (cipher, nonce, 0))
      else Some (cipher, nonce, counter + MiB))"

function denied :: "libs \<Rightarrow> byte list \<Rightarrow> stream \<Rightarrow> byte list \<Rightarrow> nat \<Rightarrow> byte list \<Rightarrow> byte list option" where
  "denied L key cipher nonce counter rest =
     (if rest = [] then Some []
      else
        (case XORKeyStream (take MiB rest) cipher of
           (dst, cipher) \<Rightarrow>
             (case after_block L key cipher nonce counter of
                None \<Rightarrow> None
              | Some (cipher, nonce, counter) \<Rightarrow>
                  map_option ((@) dst) (denied L key cipher nonce counter (drop MiB rest)))))"
  by pat_completeness auto
termination
  by (relation "measure (\<lambda>(L, key, cipher, nonce, counter, rest). length rest)") auto

declare denied.simps [simp del]

lemma denied_Nil [simp]: "denied L key cipher nonce counter [] = Some []"
  by (simp add: denied.simps)

lemma stage_write_Inr:
  "honest_writer w \<Longrightarrow> stage_write e p w = (Inr u, w') \<Longrightarrow> appended w p w'"
  by (auto simp: stage_write_def appended_def honest_writer_def Let_def split: prod.splits option.splits)

lemma deniability_block_Inr:
  assumes "deniability_block L key src cipher nonce counter w = (Inr (c2, n2, k2), w')" and "honest_writer w"
    and "XORKeyStream src cipher = (dst, c')"
  shows "after_block L key c' nonce counter = Some (c2, n2, k2)" and "appended w dst w'"
  using assms stage_write_Inr [OF assms(2)]
  by (auto simp: deniability_block_def after_block_def io_bind_eq_Inr io_lift_def io_ret_def map_err_eq_Inr
      split: if_splits prod.splits)

lemma deniability_loop_Inr:
  assumes "deniability_loop L key rest EOF cipher nonce counter w = (Inr u, w')" and "honest_writer w"
  shows "\<exists>out. denied L key cipher nonce counter rest = Some out \<and> appended w out w'"
  using assms
proof (induction "length rest" arbitrary: rest cipher nonce counter w rule: less_induct)
  case less
  let ?src = "take MiB rest" and ?next = "drop MiB rest" and ?more = "MiB \<le> length rest"
  show ?case
  proof (cases "rest = []")
    case True
    then show ?thesis using less(2)
      by (auto simp: deniability_loop.simps [of L key "[]"] ReadFull_def io_bind_def io_ret_def)
  next
    case False
    obtain dst c' where x: "XORKeyStream ?src cipher = (dst, c')" by force
    have rd: "ReadFull MiB rest EOF = ((?src, if ?more then None else Some UnexpectedEOF), if ?more then ?next else [])"
      using False by (auto simp: ReadFull_def)
    have src: "?src \<noteq> []" using False by simp
    obtain c2 n2 k2 w1 where b: "deniability_block L key ?src cipher nonce counter w = (Inr (c2, n2, k2), w1)"
      and rest: "(if ?more then deniability_loop L key ?next EOF c2 n2 k2 else io_ret ()) w1 = (Inr u, w')"
      using less(2) src unfolding deniability_loop.simps [of L key rest] rd by (auto simp: io_bind_eq_Inr split: if_splits)
    note B = deniability_block_Inr [OF b less(3) x]
    have d: "denied L key cipher nonce counter rest = map_option ((@) dst) (denied L key c2 n2 k2 ?next)"
      using False B(1) x by (simp add: denied.simps [of L key cipher nonce counter rest])
    show ?thesis
    proof (cases ?more)
      case True
      have "honest_writer w1" using B(2) less(3) by (simp add: appended_honest)
      moreover have "length ?next < length rest" using False by simp
      ultimately obtain out where "denied L key c2 n2 k2 ?next = Some out" "appended w1 out w'"
        using less(1) rest True by fastforce
      then show ?thesis using d B(2) appended_trans by fastforce
    next
      case False
      then have "w' = w1" "?next = []" using rest by (auto simp: io_ret_def)
      then show ?thesis using d B(2) by simp
    qed
  qed
qed

text \<open>The cipher is its own inverse.\<close>

lemma denied_twice:
  "denied L key cipher nonce counter rest = Some out \<Longrightarrow>
   length out = length rest \<and> denied L key cipher nonce counter out = Some rest"
proof (induction "length rest" arbitrary: rest out cipher nonce counter rule: less_induct)
  case less
  show ?case
  proof (cases "rest = []")
    case False
    obtain dst c' where x: "XORKeyStream (take MiB rest) cipher = (dst, c')" by force
    note twice = XORKeyStream_twice [OF x]
    obtain c2 n2 k2 out' where a: "after_block L key c' nonce counter = Some (c2, n2, k2)"
      and res: "denied L key c2 n2 k2 (drop MiB rest) = Some out'" "out = dst @ out'"
      using less(2) False x by (auto simp: denied.simps [of L key cipher nonce counter rest] split: option.splits)
    have "length (drop MiB rest) < length rest" using False by simp
    note ih = less(1) [OF this res(1)]
    have len: "length dst = min MiB (length rest)" "length out' = length rest - MiB" using twice ih by simp_all
    then have parts: "take MiB out = dst" "drop MiB out = out'" "out \<noteq> []"
      using res(2) False by (cases "MiB \<le> length rest"; auto)+
    have "denied L key cipher nonce counter out = Some (take MiB rest @ drop MiB rest)"
      using parts(3) twice a ih unfolding denied.simps [of L key cipher nonce counter out] parts(1,2) by simp
    then show ?thesis using len res(2) by auto
  qed (use less in simp)
qed

section \<open>When the cipher runs through\<close>

lemma stage_write_takes:
  assumes "takes_all w"
  obtains w' where "stage_write e p w = (Inr (), w')" "appended w p w'" "takes_all w'"
  using assms by (auto simp: stage_write_def takes_all_def appended_def)

lemma deniability_block_runs:
  assumes "takes_all w" and "XORKeyStream src cipher = (dst, c')" and "after_block L key c' nonce counter = Some n"
  obtains w' where "deniability_block L key src cipher nonce counter w = (Inr n, w')" "appended w dst w'" "takes_all w'"
proof (rule stage_write_takes [OF assms(1), of DWrite dst])
  fix w' assume w': "stage_write DWrite dst w = (Inr (), w')" "appended w dst w'" "takes_all w'"
  have "deniability_block L key src cipher nonce counter w = (Inr n, w')"
    using assms(2,3) w'(1)
    by (auto simp: deniability_block_def after_block_def io_bind_def io_lift_def io_ret_def split: if_splits sum.splits)
  then show thesis using that w' by blast
qed

lemma deniability_loop_runs:
  assumes "denied L key cipher nonce counter rest = Some out" and "takes_all w"
  shows "\<exists>w'. deniability_loop L key rest EOF cipher nonce counter w = (Inr (), w') \<and> appended w out w'"
  using assms
proof (induction "length rest" arbitrary: rest out cipher nonce counter w rule: less_induct)
  case less
  let ?src = "take MiB rest" and ?next = "drop MiB rest" and ?more = "MiB \<le> length rest"
  show ?case
  proof (cases "rest = []")
    case True
    then show ?thesis using less(2)
      by (auto simp: deniability_loop.simps [of L key "[]"] ReadFull_def io_bind_def io_ret_def)
  next
    case False
    obtain dst c' where x: "XORKeyStream ?src cipher = (dst, c')" by force
    obtain c2 n2 k2 out' where a: "after_block L key c' nonce counter = Some (c2, n2, k2)"
      and res: "denied L key c2 n2 k2 ?next = Some out'" "out = dst @ out'"
      using less(2) False x by (auto simp: denied.simps [of L key cipher nonce counter rest] split: option.splits)
    have rd: "ReadFull MiB rest EOF = ((?src, if ?more then None else Some UnexpectedEOF), if ?more then ?next else [])"
      using False by (auto simp: ReadFull_def)
    have src: "?src \<noteq> []" using False by simp
    obtain w1 where b: "deniability_block L key ?src cipher nonce counter w = (Inr (c2, n2, k2), w1)" "appended w dst w1"
      "takes_all w1" by (rule deniability_block_runs [OF less(3) x a])
    have step: "deniability_loop L key rest EOF cipher nonce counter w =
        (if ?more then deniability_loop L key ?next EOF c2 n2 k2 else io_ret ()) w1"
      using b(1) src unfolding deniability_loop.simps [of L key rest] rd by (simp add: io_bind_def)
    show ?thesis
    proof (cases ?more)
      case True
      have "length ?next < length rest" using False by simp
      from less(1) [OF this res(1) b(3)] obtain w' where
        "deniability_loop L key ?next EOF c2 n2 k2 w1 = (Inr (), w')" "appended w1 out' w'" by blast
      then show ?thesis using step True res(2) b(2) appended_trans by fastforce
    next
      case False
      then show ?thesis using step res b(2) by (simp add: io_ret_def)
    qed
  qed
qed

section \<open>Wrapping and unwrapping\<close>

lemma answer_Inr [simp]: "answer e c w = (Inr u, w') \<longleftrightarrow> c = None \<and> w' = w"
  by (auto simp: answer_def io_lift_def split: option.splits)

lemma demand_Inr [simp]: "demand ok e w = (Inr u, w') \<longleftrightarrow> ok \<and> w' = w"
  by (auto simp: demand_def io_lift_def)

lemma with_cleanup_Inr: "with_cleanup F m w = (Inr u, w') \<longleftrightarrow> m w = (Inr u, w')"
  by (auto simp: with_cleanup_def split: prod.splits sum.splits)

text \<open>A file that is the result of wrapping: salt, nonce, and the volume under the cipher.\<close>

definition wrapped :: "libs \<Rightarrow> byte list \<Rightarrow> byte list \<Rightarrow> byte list \<Rightarrow> bool" where
  "wrapped L password data bytes \<longleftrightarrow>
     (let salt = take 16 bytes; nonce = take 24 (drop 16 bytes);
          key = deriveDeniabilityKey L (EncodeForKDF L password) salt
      in 40 \<le> length bytes \<and>
         (\<exists>cipher. new_chacha (lib_prims L) key nonce = Inr cipher \<and>
            denied L key cipher nonce 0 data = Some (drop 40 bytes)))"

lemma addDeniability_Inr:
  assumes run: "addDeniability L rand F password w = (Inr u, w')" and hon: "honest_writer w"
    and "df_end F = EOF" and rand: "\<And>k n bs. rand k n = Inr bs \<Longrightarrow> length bs = n"
  obtains bytes where "appended w bytes w'" "wrapped L password (df_input F) bytes" "password \<noteq> []"
proof -
  obtain salt nonce cipher w1 w2 where r: "RandomBytes (rand 0) 16 = Inr salt" "RandomBytes (rand 1) 24 = Inr nonce"
    "stage_write DWriteSalt salt w = (Inr (), w1)" "stage_write DWriteNonce nonce w1 = (Inr (), w2)"
    "new_chacha (lib_prims L) (deriveDeniabilityKey L (EncodeForKDF L password) salt) nonce = Inr cipher"
    "deniability_loop L (deriveDeniabilityKey L (EncodeForKDF L password) salt) (df_input F) (df_end F) cipher nonce 0 w2 =
      (Inr (), w')" "password \<noteq> []"
    using run unfolding addDeniability_def io_bind_eq_Inr with_cleanup_Inr Let_def io_lift_def
    by (clarsimp simp: map_err_eq_Inr)
  have len: "length salt = 16" "length nonce = 24"
    using r(1,2) by (auto simp: RandomBytes_def map_err_eq_Inr dest!: rand)
  have 1: "appended w salt w1" by (rule stage_write_Inr [OF hon r(3)])
  then have "honest_writer w1" using hon by (simp add: appended_honest)
  then have 2: "appended w1 nonce w2" by (rule stage_write_Inr [OF _ r(4)])
  then have "honest_writer w2" using 1 hon by (simp add: appended_honest)
  from deniability_loop_Inr [OF r(6) [unfolded assms(3)] this] obtain body where
    body: "denied L (deriveDeniabilityKey L (EncodeForKDF L password) salt) cipher nonce 0 (df_input F) = Some body"
    "appended w2 body w'" by blast
  have "appended w (salt @ nonce @ body) w'" 
    using appended_trans [OF 1 appended_trans [OF 2 body(2)]] .
  moreover have "wrapped L password (df_input F) (salt @ nonce @ body)"
    using len r(5) body(1) by (simp add: wrapped_def)
  ultimately show thesis using that r(7) by blast
qed

text \<open>A file system that does not interfere with an operation.\<close>

definition undisturbed :: "deniability_files \<Rightarrow> bool" where
  "undisturbed F \<longleftrightarrow> df_open F = None \<and> df_stat F = None \<and> df_probe F = None \<and> df_expected F \<noteq> Some False \<and> df_stage F = None \<and>
     df_end F = EOF \<and> df_seek F = None \<and> df_close F = None \<and> df_current F = Inr True \<and> df_inspect F = None \<and>
     df_commit F = None \<and> df_sync F = None \<and> df_rewind F = None \<and> df_reads F = None \<and> df_rewindAgain F = None"

lemma take_part_runs: "n \<le> length rest \<Longrightarrow> take_part e n end' rest w = (Inr (take n rest, drop n rest), w)"
  by (simp add: take_part_def ReadFull_def io_ret_def)

text \<open>The first block shows the version of the inner volume to the probe.\<close>

lemma xor_stream_take: "take n (xor_stream ks xs) = xor_stream ks (take n xs)"
  by (simp add: xor_stream_def take_map take_zip min_def)

lemma denied_probe:
  assumes "denied L key cipher nonce 0 data = Some body" and "n \<le> MiB"
  shows "fst (XORKeyStream (take n body) cipher) = take n data"
proof (cases "data = []")
  case True
  then show ?thesis using assms(1) by (simp add: XORKeyStream_def xor_stream_def)
next
  case False
  have back': "denied L key cipher nonce 0 body = Some data" "length body = length data"
    using denied_twice [OF assms(1)] by simp_all
  have "body \<noteq> []" using back'(2) False by auto
  then obtain dst c' rest where x: "XORKeyStream (take MiB body) cipher = (dst, c')" "data = dst @ rest"
    using back'(1) by (auto simp: denied.simps [of L key cipher nonce 0 body] split: option.splits prod.splits)
  have len: "length dst = min MiB (length body)" using XORKeyStream_twice [OF x(1)] by simp
  have "fst (XORKeyStream (take n body) cipher) = take n dst"
    using x(1) assms(2) by (auto simp: XORKeyStream_def xor_stream_take min_def)
  moreover have "take n dst = take n data" using x(2) len back'(2) assms(2) by (cases "MiB \<le> length body") auto
  ultimately show ?thesis by simp
qed

lemma removeDeniability_runs:
  assumes W: "wrapped L password data bytes" and F: "undisturbed F" "df_input F = bytes"
    and first: "Candidates L password' = EncodeForKDF L password # others"
    and inner: "15 \<le> length data" "inner_version L (take 15 data)"
    and route: "DetectPrefix (take 4 bytes) \<noteq> RouteNormalPCV" and w: "takes_all w" "wr_bytes w = []"
  shows "\<exists>w'. removeDeniability L F password' w = (Inr (), w') \<and> wr_bytes w' = data"
proof -
  let ?salt = "take 16 bytes" and ?nonce = "take 24 (drop 16 bytes)"
  let ?key = "deriveDeniabilityKey L (EncodeForKDF L password) ?salt"
  obtain cipher where c: "40 \<le> length bytes" "new_chacha (lib_prims L) ?key ?nonce = Inr cipher"
    "denied L ?key cipher ?nonce 0 data = Some (drop 40 bytes)"
    using W by (auto simp: wrapped_def Let_def)
  note twice = denied_twice [OF c(3)]
  have len: "15 \<le> length (drop 40 bytes)" using inner(1) twice by simp
  have "fst (XORKeyStream (take 15 (drop 40 bytes)) cipher) = take 15 data" by (rule denied_probe [OF c(3)]) simp
  then have key: "selectDeniabilityKey L password' ?salt ?nonce (take 15 (drop 40 bytes)) = Inr ?key"
    using inner(2) c(2) by (simp add: selectDeniabilityKey_def first)
  have "denied L ?key cipher ?nonce 0 (drop 40 bytes) = Some data" using twice by simp
  from deniability_loop_runs [OF this w(1)] obtain w' where
    loop: "deniability_loop L ?key (drop 40 bytes) EOF cipher ?nonce 0 w = (Inr (), w')" "appended w data w'" by blast
  have out: "wr_bytes w' = data" using loop(2) w(2) by (simp add: appended_def)
  have "verify_stage L F w' = (Inr (), w')"
    using F(1) inner out by (simp add: verify_stage_def io_bind_def answer_def demand_def io_lift_def undisturbed_def take_part_runs)
  moreover have "rejectClaimedPCV3Size F w = (Inr (), w)" using route F
    by (simp add: rejectClaimedPCV3Size_def io_bind_def answer_def demand_def io_lift_def undisturbed_def)
  moreover have "drop 24 (drop 16 bytes) = drop 40 bytes" by simp
  ultimately have "removeDeniability L F password' w = (Inr (), w')"
    using F c(1,2) len key loop(1)
    by (simp add: removeDeniability_def io_bind_def answer_def demand_def io_lift_def undisturbed_def take_part_runs
        with_cleanup_def del: drop_drop)
  with out show ?thesis by blast
qed

end
