(* ===== verification/Deniability_Round_Trip.thy ===== *)
theory Deniability_Round_Trip
  imports Deniability Legacy_Success
begin

text \<open>
  When wrapping succeeds, that a wrapped volume comes back, and that a volume of the second format
  whose version field is damaged is not taken for a wrapped one.
\<close>

section \<open>When wrapping succeeds\<close>

definition wraps_with :: "libs \<Rightarrow> bool" where
  "wraps_with L \<longleftrightarrow>
     (\<forall>key nonce. length key = 32 \<longrightarrow> length nonce = 24 \<longrightarrow> prim_chacha (lib_prims L) key nonce \<noteq> None) \<and>
     (\<forall>bs. length (prim_sha3_256 (lib_prims L) bs) = 32) \<and>
     (\<forall>pw salt passes memory threads. length (lib_IDKey L pw salt passes memory threads 32) = 32)"

lemma new_chacha_accepts:
  "wraps_with L \<Longrightarrow> length key = 32 \<Longrightarrow> length nonce = 24 \<Longrightarrow> \<exists>c. new_chacha (lib_prims L) key nonce = Inr c"
  by (auto simp: wraps_with_def new_chacha_def split: option.splits)

lemma after_block_accepts:
  assumes "wraps_with L" and "length key = 32" and "length nonce = 24"
  obtains c n k where "after_block L key cipher nonce counter = Some (c, n, k)" "length n = 24"
proof -
  have len: "length (take 24 (prim_sha3_256 (lib_prims L) nonce)) = 24" using assms(1) by (simp add: wraps_with_def)
  obtain c where c: "new_chacha (lib_prims L) key (take 24 (prim_sha3_256 (lib_prims L) nonce)) = Inr c"
    using new_chacha_accepts [OF assms(1,2) len] by blast
  show thesis
  proof (cases "lib_RekeyThreshold L \<le> counter + MiB")
    case True
    then show thesis using that [of c "take 24 (prim_sha3_256 (lib_prims L) nonce)" 0] c len
      by (simp add: after_block_def DeniabilityRekey_def Let_def)
  next
    case False
    then show thesis using that [of cipher nonce] assms(3) by (simp add: after_block_def)
  qed
qed

lemma denied_total:
  assumes "wraps_with L" and "length key = 32"
  shows "length nonce = 24 \<Longrightarrow> \<exists>out. denied L key cipher nonce counter rest = Some out"
proof (induction "length rest" arbitrary: rest cipher nonce counter rule: less_induct)
  case less
  show ?case
  proof (cases "rest = []")
    case False
    obtain dst c' where x: "XORKeyStream (take MiB rest) cipher = (dst, c')" by force
    obtain c n k where a: "after_block L key c' nonce counter = Some (c, n, k)" "length n = 24"
      by (rule after_block_accepts [OF assms less(2)])
    have "length (drop MiB rest) < length rest" using False by simp
    from less(1) [OF this a(2)] obtain out where "denied L key c n k (drop MiB rest) = Some out" by blast
    then show ?thesis using False x a(1) by (simp add: denied.simps [of L key cipher nonce counter rest])
  qed simp
qed

lemma addDeniability_runs:
  assumes L: "wraps_with L" and F: "undisturbed F" and "password \<noteq> []" and w: "takes_all w"
    and rand: "rand 0 16 = Inr salt" "rand 1 24 = Inr nonce" "length nonce = 24"
  shows "\<exists>w'. addDeniability L rand F password w = (Inr (), w')"
proof -
  let ?key = "deriveDeniabilityKey L (EncodeForKDF L password) salt"
  have key: "length ?key = 32" using L by (simp add: wraps_with_def deriveDeniabilityKey_def)
  obtain cipher where c: "new_chacha (lib_prims L) ?key nonce = Inr cipher"
    using new_chacha_accepts [OF L key rand(3)] by blast
  obtain w1 where 1: "stage_write DWriteSalt salt w = (Inr (), w1)" "takes_all w1" by (rule stage_write_takes [OF w])
  obtain w2 where 2: "stage_write DWriteNonce nonce w1 = (Inr (), w2)" "takes_all w2" by (rule stage_write_takes [OF 1(2)])
  obtain out where "denied L ?key cipher nonce 0 (df_input F) = Some out" using denied_total [OF L key rand(3)] by blast
  from deniability_loop_runs [OF this 2(2)] obtain w3 where
    "deniability_loop L ?key (df_input F) EOF cipher nonce 0 w2 = (Inr (), w3)" by blast
  then have "addDeniability L rand F password w = (Inr (), w3)"
    using F c 1(1) 2(1) rand(1,2) assms(3)
    by (simp add: addDeniability_def io_bind_def answer_def demand_def io_lift_def undisturbed_def with_cleanup_def
        RandomBytes_def Let_def)
  then show ?thesis by blast
qed

section \<open>Properties\<close>

text \<open>Whatever is wrapped comes back, if it starts with the version field of a volume and the third format
  does not claim the wrapper.\<close>

lemma wrapped_volume_unwraps:
  assumes "addDeniability L rand F password w = (Inr (), w')" and "honest_writer w" and "wr_bytes w = []"
    and "df_end F = EOF" and "\<forall>k n bs. rand k n = Inr bs \<longrightarrow> length bs = n"
    and "15 \<le> length (df_input F)" and "inner_version L (take 15 (df_input F))"
    and "Candidates L password' = EncodeForKDF L password # others"
    and "undisturbed G" and "df_input G = wr_bytes w'" and "takes_all r" and "wr_bytes r = []"
  shows "length (wr_bytes w') = 40 + length (df_input F) \<and>
     (if DetectPrefix (wr_bytes w') = RouteNormalPCV then fst (removeDeniability L G password' r) = Inl DClaimedPCV3
      else \<exists>r'. removeDeniability L G password' r = (Inr (), r') \<and> wr_bytes r' = df_input F)"
proof -
  obtain bytes where "appended w bytes w'" and W: "wrapped L password (df_input F) bytes"
    by (rule addDeniability_Inr [OF assms(1,2,4)]) (use assms(5) in blast)
  then have bytes: "wr_bytes w' = bytes" using assms(3) by (simp add: appended_def)
  have "40 \<le> length bytes" "length (drop 40 bytes) = length (df_input F)"
    using W by (auto simp: wrapped_def Let_def dest: denied_twice)
  then have len: "length bytes = 40 + length (df_input F)" by simp
  have prefix: "DetectPrefix (take 4 bytes) = RouteNormalPCV \<longleftrightarrow> DetectPrefix bytes = RouteNormalPCV"
    by (simp add: DetectPrefix_iff)
  show ?thesis
  proof (cases "DetectPrefix bytes = RouteNormalPCV")
    case True
    then show ?thesis using assms(9,10) bytes len prefix
      by (simp add: removeDeniability_def io_bind_def answer_def demand_def io_lift_def undisturbed_def
          rejectClaimedPCV3Size_def)
  next
    case False
    then show ?thesis
      using removeDeniability_runs [OF W assms(9) _ assms(8,6,7) _ assms(11,12)] assms(10) bytes len prefix by auto
  qed
qed

lemma volume_version_field:
  assumes "legacy_ok t (lib_codecs L)" and "wf_header h" and "bytes = concat (header_words (lib_codecs L) h) @ rest"
  shows "15 \<le> length bytes" and "inner_version L (take 15 bytes)"
proof -
  let ?v = "codeword (RS5 (lib_codecs L)) (vh_Version h)"
  have ok: "fec_ok t (RS5 (lib_codecs L))" and S: "fec_required (RS5 (lib_codecs L)) = 5" "fec_total (RS5 (lib_codecs L)) = 15"
    using assms(1) by (simp_all add: legacy_ok_def legacy_sized_def)
  have V: "MatchVersion (vh_Version h)" "length (vh_Version h) = 5"
    using assms(2) by (simp_all add: wf_header_def IsSupportedVersion_def MatchVersion_def)
  have near: "near t ?v ?v" by (simp add: near_def)
  have len: "length ?v = 15" using length_near [OF ok _ near] V S by simp
  obtain tail where bytes: "bytes = ?v @ tail"
    using assms(3) by (simp add: header_words_def front_words_def)
  show "15 \<le> length bytes" using bytes len by simp
  show "inner_version L (take 15 bytes)"
    using rs_Decode_near [OF ok _ near] V S bytes len by (simp add: inner_version_def)
qed

text \<open>C5: a deniable volume comes back. Suppose \<open>encryptLegacy\<close> reports success and \<open>addDeniability\<close> then
  wraps its output under the same password, whatever the randomness, the mode, the comment and the
  size of the plaintext. The wrapper is 40 bytes longer than the volume, and \<open>removeDeniability\<close> with
  that password, on an undisturbed disk, gives back the volume, which \<open>decryptPrepared\<close> decrypts to
  the plaintext. There is one exception: a wrapper whose random salt starts with the discriminator of
  the third format is refused, although it was written with success.\<close>

theorem deniable_volume_comes_back:
  assumes codecs: "legacy_ok t (lib_codecs L)" "payload_ok t L"
    and nfc: "\<And>pw. \<not> ContainsNonASCII pw \<Longrightarrow> lib_nfc L pw = pw"
    and encrypt: "fresh_output e" "encryptLegacy L rand (Inr (length (oc_input e))) req e = (Inr (), e')"
    and wrap: "df_input F = wr_bytes (oc_output e')" "df_end F = EOF" "honest_writer w" "wr_bytes w = []"
      "\<And>k n bs. salts k n = Inr bs \<Longrightarrow> length bs = n" "addDeniability L salts F (er_Password req) w = (Inr (), w')"
    and unwrap: "undisturbed G" "df_input G = wr_bytes w'" "takes_all r" "wr_bytes r = []"
    and decrypt: "fresh_decrypt (wr_bytes (oc_output e')) d" "dr_Password dreq = er_Password req" "\<not> dr_ForceDecrypt dreq"
  shows "length (wr_bytes w') = 40 + length (wr_bytes (oc_output e')) \<and>
     (if DetectPrefix (wr_bytes w') = RouteNormalPCV
      then fst (removeDeniability L G (er_Password req) r) = Inl DClaimedPCV3
      else \<exists>r' d'. removeDeniability L G (er_Password req) r = (Inr (), r') \<and> wr_bytes r' = wr_bytes (oc_output e') \<and>
        decryptPrepared L (Inr (length (wr_bytes r'))) dreq d = (Inr (), d') \<and> wr_bytes (oc_output d') = oc_input e)"
proof -
  let ?volume = "wr_bytes (oc_output e')"
  obtain h ds es cs' where E: "written_volume L (EncodeForKDF L (er_Password req)) (oc_input e) h ds es cs' ?volume"
    using encryptLegacy_Inr [OF encrypt(2) codecs(1) encrypt(1)] by blast
  then have h: "wf_header h" "?volume = concat (header_words (lib_codecs L) h) @ concat es"
    by (simp_all add: written_volume_def)
  note version = volume_version_field [OF codecs(1) h]
  obtain others where first: "Candidates L (er_Password req) = EncodeForKDF L (er_Password req) # others"
    using Candidates_first [of "er_Password req" L] nfc by blast
  have same: "list_all2 (near t) xs xs" for xs :: "byte list list"
    by (rule list_all2_refl) (simp add: near_def)
  have "volume_damage t req ?volume ?volume"
    by (simp add: volume_damage_def Let_def same payload_near_def chunks_near_def)
  from volume_roundtrip [OF codecs nfc encrypt this intact_no_forgery [OF codecs encrypt] decrypt]
  obtain d' where "decryptPrepared L (Inr (length ?volume)) dreq d = (Inr (), d')" "wr_bytes (oc_output d') = oc_input e"
    by blast
  then show ?thesis
    using wrapped_volume_unwraps [OF wrap(6,3,4,2) _ _ _ first unwrap] wrap(1,5) version by auto
qed

lemma comment_words_length:
  assumes "fec_ok t rs" and "fec_required rs = 1" and "fec_total rs = 3"
  shows "list_all2 (near t) (map (\<lambda>c. codeword rs [c]) cs) ws \<Longrightarrow> length (concat ws) = 3 * length cs"
proof (induction cs arbitrary: ws)
  case (Cons c cs)
  then obtain w ws' where ws: "ws = w # ws'" "near t (codeword rs [c]) w"
    "list_all2 (near t) (map (\<lambda>c. codeword rs [c]) cs) ws'"
    by (auto simp: list_all2_Cons1)
  have "length w = 3" using length_near [OF assms(1) _ ws(2)] assms(2,3) by simp
  then show ?case using Cons.IH [OF ws(3)] ws(1) by simp
qed simp

text \<open>C40: A volume of the second format is not taken for a wrapped one. Whatever happened to its version
  field, a file that still has the rest of a header, with at most \<open>t\<close> wrong bytes in each codeword, is
  never classified as deniable.\<close>

lemma damaged_volume_not_deniable:
  assumes "legacy_ok t (lib_codecs L)" and "wf_header h" and "length version = 15"
    and "list_all2 (near t) (tl (header_words (lib_codecs L) h)) words"
    and "bytes = version @ concat words @ rest"
  shows "\<not> IsDeniableFile L stat (\<lambda>_. False) bytes"
proof -
  let ?n = "length (vh_Comments h)" and ?cs = "lib_codecs L"
  obtain w2 wc w3 ws where words: "words = w2 # wc @ w3 # ws"
    and c: "list_all2 (near t) (map (\<lambda>c. codeword (RS1 ?cs) [c]) (vh_Comments h)) wc"
    and W: "near t (codeword (RS5 ?cs) (sprintf_05d ?n)) w2" "near t (codeword (RS5 ?cs) (flags_ToBytes (vh_Flags h))) w3"
    using assms(4) by (auto simp: header_words_def front_words_def list_all2_append1 list_all2_Cons1)
  have S: "fec_required (RS5 ?cs) = 5" "fec_total (RS5 ?cs) = 15" "fec_required (RS1 ?cs) = 1" "fec_total (RS1 ?cs) = 3"
    and ok: "fec_ok t (RS5 ?cs)" "fec_ok t (RS1 ?cs)"
    using assms(1) by (simp_all add: legacy_ok_def legacy_sized_def)
  have "?n \<le> 99999" using assms(2) by (simp add: wf_header_def)
  note D = sprintf_05d [OF this]
  have dec: "rs_Decode (RS5 ?cs) w2 False = (sprintf_05d ?n, None)"
    "rs_Decode (RS5 ?cs) w3 False = (flags_ToBytes (vh_Flags h), None)"
    by (rule rs_Decode_near [OF ok(1) _ W(1)], simp add: S D)
      (rule rs_Decode_near [OF ok(1) _ W(2)], simp add: S flags_roundtrip)
  have len: "length w2 = 15" "length w3 = 15"
    using length_near [OF ok(1) _ W(1)] length_near [OF ok(1) _ W(2)] by (simp_all add: S D flags_roundtrip)
  have comment: "length (concat wc) = 3 * ?n" by (rule comment_words_length [OF ok(2) S(3,4) c])
  have parts: "read_part (\<lambda>_. False) bytes 15 15 = Some w2"
    "read_part (\<lambda>_. False) bytes (30 + ?n * 3) 15 = Some w3"
    using len comment assms(3,5) by (simp_all add: read_part_def slice_def words)
  have "headerFlagsBytesPlausible (flags_ToBytes (vh_Flags h))"
    by (cases "vh_Flags h") (simp add: headerFlagsBytesPlausible_def flags_ToBytes_def)
  then have "looksLikeRegularHeaderAfterDamagedVersion L (\<lambda>_. False) bytes"
    using parts dec D \<open>?n \<le> 99999\<close> by (simp add: looksLikeRegularHeaderAfterDamagedVersion_def parseHeaderCommentLen_def)
  then show ?thesis by (auto simp: IsDeniableFile_def split: option.splits prod.splits)
qed

section \<open>Instances\<close>

definition toy_files :: "byte list \<Rightarrow> deniability_files" where
  "toy_files bytes = \<lparr>df_prepared = False, df_open = None, df_stat = None, df_probe = None, df_expected = None, df_stage = None,
     df_input = bytes, df_end = EOF, df_seek = None, df_close = None, df_current = Inr True, df_inspect = None,
     df_commit = None, df_sync = None, df_rewind = None, df_reads = None, df_rewindAgain = None, df_cleanup = None\<rparr>"

lemma toy_files_ok: "undisturbed (toy_files bytes)" "df_input (toy_files bytes) = bytes" "df_end (toy_files bytes) = EOF"
  by (simp_all add: undisturbed_def toy_files_def)

lemma sample_writer_ok: "takes_all sample_writer" "honest_writer sample_writer" "wr_bytes sample_writer = []"
  by (simp_all add: takes_all_def honest_writer_def sample_writer_def)

lemma toy_wraps: "wraps_with toy_libs"
  by (simp add: wraps_with_def toy_libs_def)

theorem deniable_volume_comes_back_witness:
  "\<exists>e' w'. encryptLegacy toy_libs (\<lambda>i n. Inr (replicate n 7)) (Inr 3) toy_encrypt (toy_context [1, 2, 3]) = (Inr (), e') \<and>
     addDeniability toy_libs (\<lambda>k n. Inr (replicate n 7)) (toy_files (wr_bytes (oc_output e'))) [112, 119] sample_writer = (Inr (), w') \<and>
     (if DetectPrefix (wr_bytes w') = RouteNormalPCV
      then fst (removeDeniability toy_libs (toy_files (wr_bytes w')) [112, 119] sample_writer) = Inl DClaimedPCV3
      else \<exists>r' d'. removeDeniability toy_libs (toy_files (wr_bytes w')) [112, 119] sample_writer = (Inr (), r') \<and>
        decryptPrepared toy_libs (Inr (length (wr_bytes r'))) toy_decrypt (toy_context (wr_bytes (oc_output e'))) = (Inr (), d') \<and>
        wr_bytes (oc_output d') = [1, 2, 3])"
proof -
  obtain e' where e': "encryptLegacy toy_libs (\<lambda>i n. Inr (replicate n 7)) (Inr (length (oc_input (toy_context [1, 2, 3]))))
      toy_encrypt (toy_context [1, 2, 3]) = (Inr (), e')"
    by (rule toy_volume)
  let ?F = "toy_files (wr_bytes (oc_output e'))" and ?rand = "\<lambda>k n. Inr (replicate n 7) :: cause + byte list"
  have pw: "er_Password toy_encrypt = [112, 119]" by (simp add: toy_encrypt_def)
  have "\<exists>w'. addDeniability toy_libs ?rand ?F (er_Password toy_encrypt) sample_writer = (Inr (), w')"
    by (rule addDeniability_runs [OF toy_wraps toy_files_ok(1) _ sample_writer_ok(1) refl refl]) (simp_all add: pw)
  then obtain w' where w': "addDeniability toy_libs ?rand ?F (er_Password toy_encrypt) sample_writer = (Inr (), w')" by blast
  have lengths: "?rand k n = Inr bs \<Longrightarrow> length bs = n" for k n bs by auto
  show ?thesis
    using deniable_volume_comes_back [OF toy_facts(1,2,3) toy_context_ok(2) e' toy_files_ok(2,3) sample_writer_ok(2,3) lengths w'
        toy_files_ok(1,2) sample_writer_ok(1,3) toy_context_ok(3) toy_facts(4,5)]
      e' [unfolded toy_length] w' unfolding pw toy_context_ok(4) by (auto split: if_splits)
qed

theorem damaged_volume_not_deniable_witness:
  "\<not> IsDeniableFile toy_libs None (\<lambda>_. False) (replicate 15 0 @
     concat (map (\<lambda>word. word[0 := word ! 0 + 1]) (tl (header_words xor_codecs sample_header))))"
proof -
  have codecs: "lib_codecs toy_libs = xor_codecs" by (simp add: toy_libs_def)
  have wf: "wf_header sample_header"
    by (simp add: wf_header_def sample_header_def NewVolumeHeader_def IsSupportedVersion_def MatchVersion_def ascii_def
        is_digit_def zeroHeader_def)
  have near: "list_all2 (near 1) ws (map (\<lambda>word. word[0 := word ! 0 + 1]) ws)" for ws :: "byte list list"
    using near_update by (induction ws) auto
  show ?thesis
    using damaged_volume_not_deniable [OF toy_facts(1) wf, of "replicate 15 0" "map (\<lambda>word. word[0 := word ! 0 + 1]) (tl (header_words xor_codecs sample_header))" _ "[]" None]
      near by (simp add: codecs)
qed

end
