(* ===== verification/Credential_World.thy ===== *)
theory Credential_World
  imports World Format
begin

text \<open>
  The world of the credential pipeline (\<open>pcv3credential\<close>): the context, the store of keyfile
  readers, the entropy source, and the events at the boundary of the key derivation. The
  answers of the context and of the lease are functions of the number of calls made before.
\<close>

text \<open>An answer of a reader is a panic, or a count, the bytes left in the buffer and an error.
  A reader is the list of its answers; after the last one it is at its end.\<close>

datatype read_answer = ReadPanics | ReadReturns int "byte list" "cause option"
datatype close_answer = ClosePanics | CloseReturns "cause option"

record ReadCloser =
  rc_reads :: "read_answer list"
  rc_close :: close_answer

text \<open>\<open>None\<close> as a reader is one that \<open>isNilReadCloser\<close> reports. Handles share a state by
  reference: a handle is the address of its state, \<open>None\<close> without one.\<close>

record keyfileReaderState =
  krs_reader :: "ReadCloser option"
  krs_closed :: bool

type_synonym KeyfileReader = "nat option"

record KDFProfile =
  kp_ID :: byte
  kp_Argon2Version :: byte
  kp_Time :: u32
  kp_MemoryKiB :: u32
  kp_Parallelism :: byte
  kp_SaltBytes :: byte
  kp_OutputBytes :: u32

text \<open>The lease of the process is taken and given back, a profile is submitted to the admitter, a
  derivation runs.\<close>

datatype kdf_event = Acquired | Admission KDFProfile | Derivation KDFProfile | Released

text \<open>
  \<open>cw_ctx\<close> is nil or the answers of the polls, \<open>cw_lease\<close> tells whether a wait ends with the lease
  or with the cancellation; \<open>cw_closes\<close> logs the readers on which \<open>Close\<close> was called;
  \<open>cw_entropy\<close> is what the entropy source still delivers.
\<close>

record credential_world =
  cw_ctx :: "(nat \<Rightarrow> bool) option"
  cw_lease :: "nat \<Rightarrow> bool"
  cw_tick :: nat
  cw_readers :: "nat \<Rightarrow> keyfileReaderState"
  cw_closes :: "nat list"
  cw_entropy :: "byte list"
  cw_events :: "kdf_event list"

definition ctx_cancelled :: "credential_world \<Rightarrow> bool \<times> credential_world" where
  "ctx_cancelled w =
     (case cw_ctx w of None \<Rightarrow> False | Some answers \<Rightarrow> answers (cw_tick w),
      w\<lparr>cw_tick := cw_tick w + 1\<rparr>)"

definition cpoll :: "'e \<Rightarrow> (credential_world, 'e, unit) io" where
  "cpoll e = (\<lambda>w. case ctx_cancelled w of (c, w) \<Rightarrow> (if c then Inl e else Inr (), w))"

text \<open>\<open>io.ReadFull\<close> on the entropy source.\<close>

definition read_entropy :: "'e \<Rightarrow> nat \<Rightarrow> (credential_world, 'e, byte list) io" where
  "read_entropy e n = (\<lambda>w.
     if length (cw_entropy w) < n then (Inl e, w\<lparr>cw_entropy := []\<rparr>)
     else (Inr (take n (cw_entropy w)), w\<lparr>cw_entropy := drop n (cw_entropy w)\<rparr>))"

end
