(* ===== verification/Factors.thy ===== *)
theory Factors
  imports Credential_World "HOL-Library.List_Lexorder"
begin

text \<open>
  The credential factors of PCV3 (\<open>pcv3credential/factors.go\<close>): a request with a password and
  keyfile readers, the check of its shape, the digest of every keyfile, and the scoped loan of
  the validated factors to a callback. A nil handle and a handle without state are both \<open>None\<close>.
  SHA3-256 is a parameter, a hasher is the bytes written to it. Wiping memory has no functional content.
\<close>

section \<open>Requests and failures\<close>

abbreviation (input) MaxKeyfiles :: nat where "MaxKeyfiles \<equiv> 64"
abbreviation (input) maxPasswordBytes :: nat where "maxPasswordBytes \<equiv> 1048576"
abbreviation (input) keyfileScratchBytes :: nat where "keyfileScratchBytes \<equiv> 32768"
abbreviation (input) maxConsecutiveEmptyReads :: nat where "maxConsecutiveEmptyReads \<equiv> 100"
abbreviation (input) CredentialModePasswordOnly :: byte where "CredentialModePasswordOnly \<equiv> 1"
abbreviation (input) CredentialModeKeyfilesOnly :: byte where "CredentialModeKeyfilesOnly \<equiv> 2"
abbreviation (input) CredentialModePasswordAndKeyfiles :: byte where
  "CredentialModePasswordAndKeyfiles \<equiv> 3"
abbreviation (input) FactorPolicyPasswordOnly :: byte where "FactorPolicyPasswordOnly \<equiv> 1"
abbreviation (input) FactorPolicyKeyfilesOnly :: byte where "FactorPolicyKeyfilesOnly \<equiv> 2"
abbreviation (input) FactorPolicyPasswordAndKeyfiles :: byte where
  "FactorPolicyPasswordAndKeyfiles \<equiv> 3"

definition keyfileDomain :: "byte list" where
  "keyfileDomain = ascii ''Picocrypt-NG/PCV3/keyfile'' @ [0]"

datatype FactorErrorCode =
    FactorErrorInvalidRequest | FactorErrorInvalidMode | FactorErrorInvalidPolicy
  | FactorErrorPolicyMismatch | FactorErrorInvalidCombination | FactorErrorPasswordLength
  | FactorErrorKeyfileCount | FactorErrorNilReader | FactorErrorRead | FactorErrorReaderContract
  | FactorErrorNoProgress | FactorErrorClose | FactorErrorCancelled | FactorErrorDuplicate
  | FactorErrorEmptyKeyfile

record FactorError =
  fe_Code :: FactorErrorCode
  fe_Index :: int
  fe_Size :: u64

definition newFactorError :: "FactorErrorCode \<Rightarrow> int \<Rightarrow> u64 \<Rightarrow> FactorError" where
  "newFactorError code index bytes = \<lparr>fe_Code = code, fe_Index = index, fe_Size = bytes\<rparr>"

record FactorRequest =
  fr_requireNonemptyKeyfiles :: bool
  fr_cleanupIncomplete :: bool
  fr_Mode :: byte
  fr_KeyfileMode :: byte
  fr_ExpectedPolicy :: byte
  fr_Password :: "byte list"
  fr_Keyfiles :: "KeyfileReader list"

record ownedFactors =
  of_requireNonemptyKeyfiles :: bool
  of_cleanupIncomplete :: bool
  of_password :: "byte list"
  of_readers :: "KeyfileReader list"

text \<open>A descriptor is the digest it holds, or \<open>None\<close> when it holds none.\<close>

record ValidatedFactors =
  vf_mode :: byte
  vf_keyfileMode :: byte
  vf_expectedPolicy :: byte
  vf_password :: "byte list"
  vf_descriptors :: "byte list option list"

definition RequireNonemptyKeyfiles :: "FactorRequest option \<Rightarrow> FactorRequest option" where
  "RequireNonemptyKeyfiles = map_option (\<lambda>request. request\<lparr>fr_requireNonemptyKeyfiles := True\<rparr>)"

definition takeFactorRequest :: "FactorRequest \<Rightarrow> ownedFactors \<times> FactorRequest" where
  "takeFactorRequest request =
     (\<lparr>of_requireNonemptyKeyfiles = fr_requireNonemptyKeyfiles request, of_cleanupIncomplete = False,
       of_password = fr_Password request, of_readers = fr_Keyfiles request\<rparr>,
      request\<lparr>fr_requireNonemptyKeyfiles := False, fr_Password := [], fr_Keyfiles := []\<rparr>)"

section \<open>Closing readers\<close>

text \<open>\<open>keyfile_close\<close> is the method \<open>close\<close>; the reader leaves the state before it is closed.\<close>

definition keyfile_close :: "KeyfileReader \<Rightarrow> credential_world \<Rightarrow> bool \<times> credential_world" where
  "keyfile_close reader w =
     (case reader of
        None \<Rightarrow> (False, w)
      | Some k \<Rightarrow>
          if krs_closed (cw_readers w k) then (False, w)
          else
            (case krs_reader (cw_readers w k) of
               None \<Rightarrow> (False, w\<lparr>cw_readers := (cw_readers w)(k := \<lparr>krs_reader = None, krs_closed = True\<rparr>)\<rparr>)
             | Some rc \<Rightarrow>
                 (rc_close rc \<noteq> CloseReturns None,
                  w\<lparr>cw_readers := (cw_readers w)(k := \<lparr>krs_reader = None, krs_closed = True\<rparr>),
                    cw_closes := cw_closes w @ [k]\<rparr>)))"

definition KeyfileReader_Close :: "KeyfileReader \<Rightarrow> (credential_world, FactorError, unit) io" where
  "KeyfileReader_Close reader = (\<lambda>w.
     case keyfile_close reader w of
       (failed, w) \<Rightarrow> (if failed then Inl (newFactorError FactorErrorClose (- 1) 0) else Inr (), w))"

text \<open>The first failure to close is kept; every reader is closed.\<close>

fun close_each ::
  "nat \<Rightarrow> KeyfileReader list \<Rightarrow> FactorError option \<Rightarrow> credential_world \<Rightarrow> FactorError option \<times> credential_world" where
  "close_each i [] failure w = (failure, w)"
| "close_each i (reader # rest) failure w =
     (case keyfile_close reader w of
        (failed, w) \<Rightarrow>
          close_each (Suc i) rest
            (if failed \<and> failure = None then Some (newFactorError FactorErrorClose (int i) 0) else failure) w)"

definition closeReaders ::
  "ownedFactors \<Rightarrow> credential_world \<Rightarrow> FactorError option \<times> ownedFactors \<times> credential_world" where
  "closeReaders owned w =
     (case close_each 0 (of_readers owned) None w of
        (failure, w) \<Rightarrow>
          (failure,
           owned\<lparr>of_readers := [],
                 of_cleanupIncomplete := of_cleanupIncomplete owned \<or> failure \<noteq> None\<rparr>, w))"

definition owned_close ::
  "ownedFactors \<Rightarrow> credential_world \<Rightarrow> FactorError option \<times> ownedFactors \<times> credential_world" where
  "owned_close owned w = closeReaders (owned\<lparr>of_password := []\<rparr>) w"

text \<open>\<open>FactorRequest.Close\<close> for a request that is not used.\<close>

definition FactorRequest_Close ::
  "FactorRequest \<Rightarrow> credential_world \<Rightarrow> (FactorError option \<times> FactorRequest) \<times> credential_world" where
  "FactorRequest_Close request w =
     (case takeFactorRequest request of
        (owned, request) \<Rightarrow>
          (case owned_close owned w of
             (err, owned, w) \<Rightarrow>
               ((err, request\<lparr>fr_cleanupIncomplete :=
                        fr_cleanupIncomplete request \<or> of_cleanupIncomplete owned\<rparr>), w)))"

section \<open>The shape of a request\<close>

definition validCredentialFactors :: "byte \<Rightarrow> byte \<Rightarrow> u16 \<Rightarrow> bool" where
  "validCredentialFactors mode keyfileMode keyfileCount \<longleftrightarrow>
     (if mode = CredentialModePasswordOnly then keyfileMode = KeyfileModeNone \<and> keyfileCount = 0
      else if mode = CredentialModeKeyfilesOnly \<or> mode = CredentialModePasswordAndKeyfiles
      then (keyfileMode = KeyfileModeOrdered \<or> keyfileMode = KeyfileModeUnordered) \<and>
           keyfileCount > 0 \<and> keyfileCount \<le> word_of_nat MaxKeyfiles
      else False)"

definition validFactorPolicy :: "byte \<Rightarrow> bool" where
  "validFactorPolicy policy \<longleftrightarrow>
     policy = FactorPolicyPasswordOnly \<or> policy = FactorPolicyKeyfilesOnly \<or>
     policy = FactorPolicyPasswordAndKeyfiles"

definition policyMatchesMode :: "byte \<Rightarrow> byte \<Rightarrow> bool" where
  "policyMatchesMode policy mode \<longleftrightarrow>
     (if policy = FactorPolicyPasswordOnly then mode = CredentialModePasswordOnly
      else if policy = FactorPolicyKeyfilesOnly then mode = CredentialModeKeyfilesOnly
      else if policy = FactorPolicyPasswordAndKeyfiles then mode = CredentialModePasswordAndKeyfiles
      else False)"

text \<open>\<open>readCloser\<close>: the reader of an open handle.\<close>

definition readCloser :: "credential_world \<Rightarrow> KeyfileReader \<Rightarrow> ReadCloser option" where
  "readCloser w reader =
     (case reader of
        None \<Rightarrow> None
      | Some k \<Rightarrow> if krs_closed (cw_readers w k) then None else krs_reader (cw_readers w k))"

text \<open>The loop over the readers: each is open, and no state appears twice.\<close>

fun check_readers ::
  "credential_world \<Rightarrow> u64 \<Rightarrow> nat set \<Rightarrow> nat \<Rightarrow> KeyfileReader list \<Rightarrow> FactorError + unit" where
  "check_readers w count seen i [] = Inr ()"
| "check_readers w count seen i (reader # rest) =
     (case reader of
        None \<Rightarrow> Inl (newFactorError FactorErrorNilReader (int i) count)
      | Some k \<Rightarrow>
          if readCloser w reader = None then Inl (newFactorError FactorErrorNilReader (int i) count)
          else if k \<in> seen then Inl (newFactorError FactorErrorDuplicate (int i) count)
          else check_readers w count (insert k seen) (Suc i) rest)"

definition validateFactorShape ::
  "credential_world \<Rightarrow> ownedFactors \<Rightarrow> byte \<Rightarrow> byte \<Rightarrow> byte \<Rightarrow> FactorError + unit" where
  "validateFactorShape w owned mode keyfileMode policy =
     (let passwordLen = length (of_password owned);
          keyfileCount = length (of_readers owned);
          validPassword = (if mode = CredentialModeKeyfilesOnly then passwordLen = 0 else passwordLen > 0)
      in
      if mode \<noteq> CredentialModePasswordOnly \<and> mode \<noteq> CredentialModeKeyfilesOnly \<and>
         mode \<noteq> CredentialModePasswordAndKeyfiles
      then Inl (newFactorError FactorErrorInvalidMode (- 1) (ucast mode))
      else if keyfileMode \<noteq> KeyfileModeNone \<and> keyfileMode \<noteq> KeyfileModeOrdered \<and>
              keyfileMode \<noteq> KeyfileModeUnordered
      then Inl (newFactorError FactorErrorInvalidMode (- 1) (ucast keyfileMode))
      else if \<not> validFactorPolicy policy
      then Inl (newFactorError FactorErrorInvalidPolicy (- 1) (ucast policy))
      else if \<not> policyMatchesMode policy mode
      then Inl (newFactorError FactorErrorPolicyMismatch (- 1) (ucast policy))
      else if passwordLen > maxPasswordBytes
      then Inl (newFactorError FactorErrorPasswordLength (- 1) (word_of_nat passwordLen))
      else if keyfileCount > MaxKeyfiles
      then Inl (newFactorError FactorErrorKeyfileCount (- 1) (word_of_nat keyfileCount))
      else if \<not> validPassword \<or> \<not> validCredentialFactors mode keyfileMode (word_of_nat keyfileCount)
      then Inl (newFactorError FactorErrorInvalidCombination (- 1) (word_of_nat keyfileCount))
      else check_readers w (word_of_nat keyfileCount) {} 0 (of_readers owned))"

section \<open>The digest of a keyfile\<close>

text \<open>
  One pass of the loop is one answer of the reader. A count beyond the buffer breaks the
  contract; the bytes of a valid count are hashed before the error is looked at.
\<close>

fun digest_loop ::
  "(byte list \<Rightarrow> byte list) \<Rightarrow> int \<Rightarrow> bool \<Rightarrow> read_answer list \<Rightarrow> byte list \<Rightarrow> nat \<Rightarrow> bool \<Rightarrow>
   (credential_world, FactorError, byte list) io" where
  "digest_loop sha3 index requireNonempty [] hasher emptyReads readAny =
     io_bind (cpoll (newFactorError FactorErrorCancelled index 0)) (\<lambda>_.
       io_lift (if requireNonempty \<and> \<not> readAny then Inl (newFactorError FactorErrorEmptyKeyfile index 0)
                else Inr (sha3 hasher)))"
| "digest_loop sha3 index requireNonempty (answer # rest) hasher emptyReads readAny =
     io_bind (cpoll (newFactorError FactorErrorCancelled index 0)) (\<lambda>_.
       case answer of
         ReadPanics \<Rightarrow> io_fail (newFactorError FactorErrorRead index 0)
       | ReadReturns n bytes readErr \<Rightarrow>
           if \<not> (0 \<le> n \<and> n \<le> int keyfileScratchBytes)
           then io_fail (newFactorError FactorErrorReaderContract index (word_of_int (max n 0)))
           else
             let hasher = (if n > 0 then hasher @ fit (nat n) bytes else hasher);
                 readAny = (readAny \<or> n > 0);
                 emptyReads = (if n > 0 then 0 else if readErr = None then emptyReads + 1 else emptyReads)
             in
             if n = 0 \<and> readErr = None \<and> emptyReads > maxConsecutiveEmptyReads
             then io_fail (newFactorError FactorErrorNoProgress index (word_of_nat emptyReads))
             else
               (case readErr of
                  Some c \<Rightarrow>
                    if c \<noteq> EOF then io_fail (newFactorError FactorErrorRead index (word_of_int (max n 0)))
                    else if requireNonempty \<and> \<not> readAny
                    then io_fail (newFactorError FactorErrorEmptyKeyfile index 0)
                    else io_ret (sha3 hasher)
                | None \<Rightarrow> digest_loop sha3 index requireNonempty rest hasher emptyReads readAny))"

definition digestKeyfile ::
  "(byte list \<Rightarrow> byte list) \<Rightarrow> ReadCloser \<Rightarrow> int \<Rightarrow> bool \<Rightarrow> (credential_world, FactorError, byte list) io" where
  "digestKeyfile sha3 reader index requireNonempty =
     digest_loop sha3 index requireNonempty (rc_reads reader) keyfileDomain 0 False"

text \<open>A nil reader does not pass \<open>validateFactorShape\<close>; a call on one would panic and count as a
  failed read.\<close>

definition digest_reader ::
  "(byte list \<Rightarrow> byte list) \<Rightarrow> bool \<Rightarrow> nat \<Rightarrow> KeyfileReader \<Rightarrow> (credential_world, FactorError, byte list) io" where
  "digest_reader sha3 requireNonempty i reader = (\<lambda>w.
     case readCloser w reader of
       None \<Rightarrow> digestKeyfile sha3 \<lparr>rc_reads = [ReadPanics], rc_close = ClosePanics\<rparr> (int i) requireNonempty w
     | Some rc \<Rightarrow> digestKeyfile sha3 rc (int i) requireNonempty w)"

fun digest_all ::
  "(byte list \<Rightarrow> byte list) \<Rightarrow> bool \<Rightarrow> nat \<Rightarrow> KeyfileReader list \<Rightarrow>
   (credential_world, FactorError, byte list list) io" where
  "digest_all sha3 requireNonempty i [] = io_ret []"
| "digest_all sha3 requireNonempty i (reader # rest) =
     io_bind (digest_reader sha3 requireNonempty i reader) (\<lambda>digest.
     io_bind (digest_all sha3 requireNonempty (Suc i) rest) (\<lambda>digests. io_ret (digest # digests)))"

fun adjacent_duplicate :: "'a list \<Rightarrow> bool" where
  "adjacent_duplicate (x # y # rest) \<longleftrightarrow> y = x \<or> adjacent_duplicate (y # rest)"
| "adjacent_duplicate _ \<longleftrightarrow> False"

section \<open>The loan of validated factors\<close>

text \<open>What \<open>withValidatedFactors\<close> returns: a factor error, the error of the callback, or either
  joined with the failure to close the readers.\<close>

datatype 'e factors_failure =
    FactorFailure FactorError
  | CallbackFailure 'e
  | JoinedFailure "'e factors_failure" FactorError

definition digest_stage ::
  "(byte list \<Rightarrow> byte list) \<Rightarrow> ownedFactors \<Rightarrow> (credential_world, FactorError, byte list list) io" where
  "digest_stage sha3 owned =
     (if of_readers owned = [] then io_ret []
      else io_bind (digest_all sha3 (of_requireNonemptyKeyfiles owned) 0 (of_readers owned)) (\<lambda>digests.
           if adjacent_duplicate (sort digests)
           then io_fail (newFactorError FactorErrorDuplicate (- 1) (word_of_nat (length digests)))
           else io_ret digests))"

text \<open>The stages before the readers are closed.\<close>

definition validate_stage ::
  "(byte list \<Rightarrow> byte list) \<Rightarrow> bool \<Rightarrow> FactorRequest \<Rightarrow> ownedFactors \<Rightarrow>
   (credential_world, FactorError, byte list list) io" where
  "validate_stage sha3 callback_nil request owned = (\<lambda>w.
     if cw_ctx w = None \<or> callback_nil
     then (Inl (newFactorError FactorErrorInvalidRequest (- 1) 0), w)
     else
       io_bind (io_lift (validateFactorShape w owned (fr_Mode request) (fr_KeyfileMode request)
                           (fr_ExpectedPolicy request))) (\<lambda>_.
       io_bind (cpoll (newFactorError FactorErrorCancelled (- 1) 0)) (\<lambda>_.
       io_bind (digest_stage sha3 owned) (\<lambda>digests.
       io_bind (cpoll (newFactorError FactorErrorCancelled (- 1) 0)) (\<lambda>_.
       io_ret digests)))) w)"

definition validated_factors :: "FactorRequest \<Rightarrow> ownedFactors \<Rightarrow> byte list list \<Rightarrow> ValidatedFactors" where
  "validated_factors request owned digests =
     \<lparr>vf_mode = fr_Mode request, vf_keyfileMode = fr_KeyfileMode request,
      vf_expectedPolicy = fr_ExpectedPolicy request, vf_password = of_password owned,
      vf_descriptors = map Some digests\<rparr>"

definition deferred_close ::
  "('e factors_failure + 'a) \<Rightarrow> ownedFactors \<Rightarrow> FactorRequest \<Rightarrow> credential_world \<Rightarrow>
   (('e factors_failure + 'a) \<times> FactorRequest) \<times> credential_world" where
  "deferred_close result owned request w =
     (case owned_close owned w of
        (closeErr, owned, w) \<Rightarrow>
          ((case closeErr of
              None \<Rightarrow> result
            | Some c \<Rightarrow>
                (case result of Inr _ \<Rightarrow> Inl (FactorFailure c) | Inl err \<Rightarrow> Inl (JoinedFailure err c)),
            request\<lparr>fr_cleanupIncomplete := fr_cleanupIncomplete request \<or> of_cleanupIncomplete owned\<rparr>), w))"

definition withValidatedFactors ::
  "(byte list \<Rightarrow> byte list) \<Rightarrow> FactorRequest option \<Rightarrow>
   (ValidatedFactors \<Rightarrow> (credential_world, 'e, 'a) io) option \<Rightarrow> credential_world \<Rightarrow>
   (('e factors_failure + 'a) \<times> FactorRequest option) \<times> credential_world" where
  "withValidatedFactors sha3 request callback w =
     (case request of
        None \<Rightarrow> ((Inl (FactorFailure (newFactorError FactorErrorInvalidRequest (- 1) 0)), None), w)
      | Some request \<Rightarrow>
          let (owned, request) = takeFactorRequest request;
              finish = (\<lambda>result owned w.
                case deferred_close result owned request w of ((r, q), w) \<Rightarrow> ((r, Some q), w))
          in
          (case validate_stage sha3 (callback = None) request owned w of
             (Inl err, w) \<Rightarrow> finish (Inl (FactorFailure err)) owned w
           | (Inr digests, w) \<Rightarrow>
               (case closeReaders owned w of
                  (Some err, owned, w) \<Rightarrow> finish (Inl (FactorFailure err)) owned w
                | (None, owned, w) \<Rightarrow>
                    (case ctx_cancelled w of
                       (True, w) \<Rightarrow>
                         finish (Inl (FactorFailure (newFactorError FactorErrorCancelled (- 1) 0))) owned w
                     | (False, w) \<Rightarrow>
                         (case the callback (validated_factors request owned digests) w of
                            (Inl e, w) \<Rightarrow> finish (Inl (CallbackFailure e)) owned w
                          | (Inr v, w) \<Rightarrow> finish (Inr v) owned w)))))"

section \<open>What closing does\<close>

text \<open>The handles whose reader a close would really close.\<close>

definition held :: "KeyfileReader list \<Rightarrow> credential_world \<Rightarrow> nat \<Rightarrow> bool" where
  "held readers w k \<longleftrightarrow> Some k \<in> set readers \<and> readCloser w (Some k) \<noteq> None"

text \<open>\<open>readers_released\<close>: the handles are closed, and each held reader was closed once.\<close>

definition readers_released :: "KeyfileReader list \<Rightarrow> credential_world \<Rightarrow> credential_world \<Rightarrow> bool" where
  "readers_released readers w w' \<longleftrightarrow>
     cw_ctx w' = cw_ctx w \<and> cw_lease w' = cw_lease w \<and> cw_entropy w' = cw_entropy w \<and> cw_events w' = cw_events w \<and>
     (\<forall>k. cw_readers w' k =
        (if Some k \<in> set readers \<and> \<not> krs_closed (cw_readers w k)
         then \<lparr>krs_reader = None, krs_closed = True\<rparr> else cw_readers w k)) \<and>
     (\<forall>k. count_list (cw_closes w') k = count_list (cw_closes w) k + (if held readers w k then 1 else 0))"

lemma released_Nil_iff:
  "readers_released [] w w' \<longleftrightarrow>
     cw_ctx w' = cw_ctx w \<and> cw_lease w' = cw_lease w \<and> cw_entropy w' = cw_entropy w \<and> cw_events w' = cw_events w \<and>
     cw_readers w' = cw_readers w \<and> (\<forall>k. count_list (cw_closes w') k = count_list (cw_closes w) k)"
  by (auto simp: readers_released_def held_def fun_eq_iff)

lemma released_append:
  assumes "readers_released xs w w1" and "readers_released ys w1 w2"
  shows "readers_released (xs @ ys) w w2"
proof -
  have r1: "cw_readers w1 k = (if Some k \<in> set xs \<and> \<not> krs_closed (cw_readers w k)
      then \<lparr>krs_reader = None, krs_closed = True\<rparr> else cw_readers w k)" for k
    using assms(1) by (simp add: readers_released_def)
  have "held (xs @ ys) w k \<longleftrightarrow> held xs w k \<or> held ys w1 k" and "\<not> (held xs w k \<and> held ys w1 k)" for k
    by (auto simp: held_def readCloser_def r1 split: if_splits)
  then show ?thesis using assms by (auto simp: readers_released_def)
qed

lemma keyfile_close_released: "readers_released [reader] w (snd (keyfile_close reader w))"
proof (cases reader)
  case (Some k)
  then show ?thesis
    by (cases "krs_closed (cw_readers w k)"; cases "krs_reader (cw_readers w k)")
      (auto simp: keyfile_close_def readers_released_def held_def readCloser_def)
qed (auto simp: keyfile_close_def readers_released_def held_def)

lemma close_each_released: "readers_released readers w (snd (close_each i readers failure w))"
proof (induction readers arbitrary: i failure w)
  case Nil
  show ?case by (auto simp: readers_released_def held_def)
next
  case (Cons reader rest)
  obtain failed w1 where c: "keyfile_close reader w = (failed, w1)" by force
  have "readers_released [reader] w w1" using keyfile_close_released [of reader w] c by simp
  from released_append [OF this Cons.IH] show ?case by (simp add: c)
qed

lemma closeReaders_released:
  "closeReaders owned w = (err, owned', w') \<Longrightarrow>
     readers_released (of_readers owned) w w' \<and> of_readers owned' = [] \<and>
     of_cleanupIncomplete owned' = (of_cleanupIncomplete owned \<or> err \<noteq> None)"
  using close_each_released [of "of_readers owned" w 0 None]
  by (auto simp: closeReaders_def split: prod.splits)

lemma owned_close_released:
  "owned_close owned w = (err, owned', w') \<Longrightarrow>
     readers_released (of_readers owned) w w' \<and> of_readers owned' = [] \<and>
     of_cleanupIncomplete owned' = (of_cleanupIncomplete owned \<or> err \<noteq> None)"
  using closeReaders_released [of "owned\<lparr>of_password := []\<rparr>" w err owned' w'] by (simp add: owned_close_def)

section \<open>What a validation does\<close>

text \<open>Nothing but the clock moves before the readers are closed.\<close>

definition ticks_only :: "credential_world \<Rightarrow> credential_world \<Rightarrow> bool" where
  "ticks_only w w' \<longleftrightarrow> (\<exists>t. w' = w\<lparr>cw_tick := t\<rparr>)"

lemma ticks_only_refl [simp]: "ticks_only w w"
  unfolding ticks_only_def by (rule exI [of _ "cw_tick w"]) simp

lemma ticks_only_trans: "ticks_only a b \<Longrightarrow> ticks_only b c \<Longrightarrow> ticks_only a c"
  by (auto simp: ticks_only_def)

lemma ticks_only_fields:
  assumes "ticks_only w w'"
  shows "cw_ctx w' = cw_ctx w" "cw_readers w' = cw_readers w" "cw_closes w' = cw_closes w"
    "cw_entropy w' = cw_entropy w" "cw_events w' = cw_events w"
    "readCloser w' = readCloser w" "cw_lease w' = cw_lease w"
  using assms by (auto simp: ticks_only_def readCloser_def fun_eq_iff split: option.splits)

text \<open>An operation that only moves the clock, whose successes satisfy \<open>Q\<close>.\<close>

definition validates :: "(credential_world \<Rightarrow> bool) \<Rightarrow> (credential_world, 'e, 'a) io \<Rightarrow> ('a \<Rightarrow> bool) \<Rightarrow> bool" where
  "validates P m Q \<longleftrightarrow>
     (\<forall>w r w'. P w \<longrightarrow> m w = (r, w') \<longrightarrow> ticks_only w w' \<and> (\<forall>v. r = Inr v \<longrightarrow> Q v))"

named_theorems validates_rules "operations that only move the clock"

lemma validatesD:
  "validates P m Q \<Longrightarrow> P w \<Longrightarrow> m w = (r, w') \<Longrightarrow> ticks_only w w'"
  "validates P m Q \<Longrightarrow> P w \<Longrightarrow> m w = (Inr v, w') \<Longrightarrow> Q v"
  by (auto simp: validates_def)

lemma validates_weaken: "validates P m R \<Longrightarrow> (\<And>v. R v \<Longrightarrow> Q v) \<Longrightarrow> validates P m Q"
  by (auto simp: validates_def)

text \<open>A condition that the clock does not matter to.\<close>

definition timeless :: "(credential_world \<Rightarrow> bool) \<Rightarrow> bool" where
  "timeless P \<longleftrightarrow> (\<forall>w w'. ticks_only w w' \<longrightarrow> P w \<longrightarrow> P w')"

lemma timeless_rules [validates_rules]:
  "timeless (\<lambda>_. b)" "timeless (\<lambda>w. R (readCloser w))"
  "timeless P \<Longrightarrow> timeless Q \<Longrightarrow> timeless (\<lambda>w. P w \<and> Q w)"
  by (auto simp: timeless_def dest: ticks_only_fields(6))

lemma validates_ret [validates_rules]: "Q v \<Longrightarrow> validates P (io_ret v) Q"
  by (simp add: validates_def)

lemma validates_fail [validates_rules]: "validates P (io_fail e) Q"
  by (simp add: validates_def)

lemma validates_lift [validates_rules]: "(\<And>v. m = Inr v \<Longrightarrow> Q v) \<Longrightarrow> validates P (io_lift m) Q"
  by (auto simp: validates_def io_lift_def)

lemma validates_cpoll [validates_rules]: "Q () \<Longrightarrow> validates P (cpoll e) Q"
  by (auto simp: validates_def cpoll_def ctx_cancelled_def ticks_only_def)

lemma validates_bind:
  assumes "timeless P" and "validates P m R" and "\<And>v. R v \<Longrightarrow> validates P (f v) Q"
  shows "validates P (io_bind m f) Q"
proof (unfold validates_def, intro allI impI)
  fix w r w'
  assume p: "P w" and b: "io_bind m f w = (r, w')"
  obtain s w1 where m: "m w = (s, w1)" by force
  have t: "ticks_only w w1" by (rule validatesD(1) [OF assms(2) p m])
  show "ticks_only w w' \<and> (\<forall>v. r = Inr v \<longrightarrow> Q v)"
  proof (cases s)
    case (Inl e)
    with b m t show ?thesis by (auto simp: io_bind_def)
  next
    case (Inr v)
    then have "R v" using validatesD(2) [OF assms(2) p] m by simp
    moreover have "P w1" using assms(1) p t by (auto simp: timeless_def)
    moreover have "f v w1 = (r, w')" using b m Inr by (simp add: io_bind_def)
    ultimately show ?thesis
      using assms(3) [of v] t ticks_only_trans unfolding validates_def by blast
  qed
qed

text \<open>The bytes a reader delivers before its end of file, when it keeps its contract and makes
  progress.\<close>

fun keyfile_content :: "nat \<Rightarrow> read_answer list \<Rightarrow> byte list option" where
  "keyfile_content emptyReads [] = Some []"
| "keyfile_content emptyReads (ReadPanics # rest) = None"
| "keyfile_content emptyReads (ReadReturns n bytes readErr # rest) =
     (if n < 0 \<or> n > 32768 then None
      else
        (case readErr of
           Some c \<Rightarrow> if c = EOF then Some (fit (nat n) bytes) else None
         | None \<Rightarrow>
             if n = 0 then (if emptyReads < 100 then keyfile_content (emptyReads + 1) rest else None)
             else map_option ((@) (fit (nat n) bytes)) (keyfile_content 0 rest)))"

lemma fit_0 [simp]: "fit 0 bytes = []"
  by (simp add: fit_def)

lemma fit_eq_Nil [simp]: "fit n bytes = [] \<longleftrightarrow> n = 0"
  by (metis length_0_conv length_fit)

lemma digest_loop_validates:
  "validates (\<lambda>_. True) (digest_loop sha3 index req answers hasher emptyReads readAny)
     (\<lambda>d. \<exists>c. keyfile_content emptyReads answers = Some c \<and> d = sha3 (hasher @ c) \<and>
        (req \<longrightarrow> readAny \<or> c \<noteq> []))"
proof (induction answers arbitrary: hasher emptyReads readAny)
  case Nil
  show ?case
    unfolding digest_loop.simps
    by (rule validates_bind [where R = "\<lambda>_. True"] validates_rules | simp split: if_splits)+
next
  case (Cons answer rest)
  show ?case
    unfolding digest_loop.simps
  proof (rule validates_bind [where R = "\<lambda>_. True"])
    show "validates (\<lambda>_. True)
       (case answer of
         ReadPanics \<Rightarrow> io_fail (newFactorError FactorErrorRead index 0)
       | ReadReturns n bytes readErr \<Rightarrow>
           if \<not> (0 \<le> n \<and> n \<le> int keyfileScratchBytes)
           then io_fail (newFactorError FactorErrorReaderContract index (word_of_int (max n 0)))
           else
             let hasher = (if n > 0 then hasher @ fit (nat n) bytes else hasher);
                 readAny = (readAny \<or> n > 0);
                 emptyReads = (if n > 0 then 0 else if readErr = None then emptyReads + 1 else emptyReads)
             in
             if n = 0 \<and> readErr = None \<and> emptyReads > maxConsecutiveEmptyReads
             then io_fail (newFactorError FactorErrorNoProgress index (word_of_nat emptyReads))
             else
               (case readErr of
                  Some c \<Rightarrow>
                    if c \<noteq> EOF then io_fail (newFactorError FactorErrorRead index (word_of_int (max n 0)))
                    else if req \<and> \<not> readAny
                    then io_fail (newFactorError FactorErrorEmptyKeyfile index 0)
                    else io_ret (sha3 hasher)
                | None \<Rightarrow> digest_loop sha3 index req rest hasher emptyReads readAny))
       (\<lambda>d. \<exists>c. keyfile_content emptyReads (answer # rest) = Some c \<and> d = sha3 (hasher @ c) \<and>
          (req \<longrightarrow> readAny \<or> c \<noteq> []))"
    proof (cases answer)
      case (ReadReturns n bytes readErr)
      show ?thesis
      proof (cases readErr)
        case None
        show ?thesis
          using Cons.IH [of "if n > 0 then hasher @ fit (nat n) bytes else hasher"
              "if n > 0 then 0 else emptyReads + 1" "readAny \<or> n > 0"]
          by (cases "n = 0") (auto simp: ReadReturns None Let_def validates_fail elim!: validates_weaken)
      qed (auto simp: ReadReturns Let_def validates_fail intro!: validates_ret)
    qed (simp add: validates_fail)
  qed (rule validates_rules | simp)+
qed

text \<open>Without a cancellation such a reader has its digest.\<close>

definition ctx_quiet :: "credential_world \<Rightarrow> bool" where
  "ctx_quiet w \<longleftrightarrow> (\<exists>answers. cw_ctx w = Some answers \<and> (\<forall>t. \<not> answers t))"

lemma quiet_ticks: "ticks_only w w' \<Longrightarrow> ctx_quiet w' = ctx_quiet w"
  by (simp add: ctx_quiet_def ticks_only_fields)

lemma ctx_quiet_poll: "ctx_quiet w \<Longrightarrow> ctx_cancelled w = (False, w\<lparr>cw_tick := cw_tick w + 1\<rparr>)"
  by (auto simp: ctx_quiet_def ctx_cancelled_def)

lemma digest_loop_complete:
  assumes "keyfile_content emptyReads answers = Some c" and "req \<longrightarrow> readAny \<or> c \<noteq> []" and "ctx_quiet w"
  shows "fst (digest_loop sha3 index req answers hasher emptyReads readAny w) = Inr (sha3 (hasher @ c))"
  using assms
proof (induction answers arbitrary: hasher emptyReads readAny c w)
  case Nil
  then show ?case by (auto simp: io_bind_def cpoll_def ctx_quiet_poll)
next
  case (Cons answer rest)
  let ?w = "w\<lparr>cw_tick := cw_tick w + 1\<rparr>"
  have p: "cpoll e w = (Inr (), ?w)" for e :: FactorError using Cons.prems(3) by (simp add: cpoll_def ctx_quiet_poll)
  have q: "ctx_quiet ?w" using Cons.prems(3) by (simp add: ctx_quiet_def)
  obtain n bytes readErr where a: "answer = ReadReturns n bytes readErr" and n: "0 \<le> n" "n \<le> 32768"
    using Cons.prems(1) by (cases answer) (auto split: if_splits)
  show ?case
  proof (cases readErr)
    case (Some e)
    with Cons.prems a n show ?thesis by (auto simp: io_bind_def p Let_def split: if_splits)
  next
    case None
    show ?thesis
    proof (cases "n = 0")
      case True
      with None a Cons.prems have "keyfile_content (emptyReads + 1) rest = Some c" and "emptyReads < 100"
        by (auto split: if_splits)
      with True None a Cons.IH [OF this(1) Cons.prems(2) q] show ?thesis by (simp add: io_bind_def p Let_def)
    next
      case False
      with None a Cons.prems n obtain c' where "keyfile_content 0 rest = Some c'"
        and "c = fit (nat n) bytes @ c'" by auto
      with False None a n Cons.IH [OF this(1) _ q, of True "hasher @ fit (nat n) bytes"] show ?thesis
        by (simp add: io_bind_def p Let_def)
    qed
  qed
qed

section \<open>Which requests are accepted\<close>

definition acceptable_factors :: "byte \<Rightarrow> byte \<Rightarrow> byte \<Rightarrow> byte list \<Rightarrow> nat \<Rightarrow> bool" where
  "acceptable_factors mode keyfileMode policy password count \<longleftrightarrow>
     policy = mode \<and> length password \<le> 1048576 \<and>
     (mode = 1 \<and> password \<noteq> [] \<and> keyfileMode = 0 \<and> count = 0 \<or>
      (mode = 2 \<and> password = [] \<or> mode = 3 \<and> password \<noteq> []) \<and>
      (keyfileMode = 1 \<or> keyfileMode = 2) \<and> 0 < count \<and> count \<le> 64)"

lemma check_readers_Inr:
  "check_readers w count seen i readers = Inr () \<longleftrightarrow>
     (\<forall>r \<in> set readers. readCloser w r \<noteq> None) \<and> distinct readers \<and> Some ` seen \<inter> set readers = {}"
  by (induction readers arbitrary: seen i) (auto simp: readCloser_def split: option.splits)

lemma small_count_word:
  "n \<le> 64 \<Longrightarrow> (0 < (word_of_nat n :: u16) \<longleftrightarrow> 0 < n) \<and> (word_of_nat n :: u16) \<le> 64 \<and>
     ((word_of_nat n :: u16) = 0 \<longleftrightarrow> n = 0)"
  by (simp add: word_less_nat_alt word_le_nat_alt unat_of_nat unat_eq_0 [symmetric])

lemma validateFactorShape_Inr:
  "validateFactorShape w owned mode keyfileMode policy = Inr () \<longleftrightarrow>
     acceptable_factors mode keyfileMode policy (of_password owned) (length (of_readers owned)) \<and>
     (\<forall>r \<in> set (of_readers owned). readCloser w r \<noteq> None) \<and> distinct (of_readers owned)"
proof (cases "length (of_readers owned) \<le> 64")
  case True
  from small_count_word [OF this] show ?thesis
    by (auto simp: validateFactorShape_def acceptable_factors_def Let_def check_readers_Inr
        validFactorPolicy_def policyMatchesMode_def validCredentialFactors_def)
next
  case False
  then show ?thesis by (auto simp: validateFactorShape_def acceptable_factors_def Let_def)
qed

section \<open>What the callback is given\<close>

text \<open>The digests of the contents of readers, in order.\<close>

definition keyfile_digest :: "(byte list \<Rightarrow> byte list) \<Rightarrow> byte list \<Rightarrow> byte list" where
  "keyfile_digest sha3 c = sha3 (keyfileDomain @ c)"

definition reader_content :: "credential_world \<Rightarrow> KeyfileReader \<Rightarrow> byte list option" where
  "reader_content w reader = Option.bind (readCloser w reader) (\<lambda>rc. keyfile_content 0 (rc_reads rc))"

definition contents :: "bool \<Rightarrow> credential_world \<Rightarrow> KeyfileReader list \<Rightarrow> byte list list \<Rightarrow> bool" where
  "contents nonempty w readers cs \<longleftrightarrow>
     map (reader_content w) readers = map Some cs \<and> (nonempty \<longrightarrow> [] \<notin> set cs)"

lemma digest_reader_validates:
  "validates (\<lambda>w. readCloser w = rcs) (digest_reader sha3 req i reader)
     (\<lambda>d. \<exists>c rc. rcs reader = Some rc \<and> keyfile_content 0 (rc_reads rc) = Some c \<and>
        d = keyfile_digest sha3 c \<and> (req \<longrightarrow> c \<noteq> []))"
proof (unfold validates_def, intro allI impI)
  fix w r w'
  assume rcs: "readCloser w = rcs" and run: "digest_reader sha3 req i reader w = (r, w')"
  define rc where "rc = (case rcs reader of None \<Rightarrow> \<lparr>rc_reads = [ReadPanics], rc_close = ClosePanics\<rparr> | Some rc \<Rightarrow> rc)"
  from run rcs have "digestKeyfile sha3 rc (int i) req w = (r, w')"
    by (auto simp: digest_reader_def rc_def split: option.splits)
  then have loop: "digest_loop sha3 (int i) req (rc_reads rc) keyfileDomain 0 False w = (r, w')"
    by (simp add: digestKeyfile_def)
  have ticks: "ticks_only w w'" by (rule validatesD(1) [OF digest_loop_validates TrueI loop])
  have "\<exists>c. keyfile_content 0 (rc_reads rc) = Some c \<and> v = keyfile_digest sha3 c \<and> (req \<longrightarrow> c \<noteq> [])"
    if "r = Inr v" for v
    using validatesD(2) [OF digest_loop_validates TrueI loop [unfolded that]]
    by (simp add: keyfile_digest_def)
  with ticks show "ticks_only w w' \<and> (\<forall>v. r = Inr v \<longrightarrow> (\<exists>c rc. rcs reader = Some rc \<and>
      keyfile_content 0 (rc_reads rc) = Some c \<and> v = keyfile_digest sha3 c \<and> (req \<longrightarrow> c \<noteq> [])))"
    by (cases "rcs reader") (auto simp: rc_def)
qed

lemma digest_all_validates:
  "validates (\<lambda>w. readCloser w = rcs) (digest_all sha3 req i readers)
     (\<lambda>ds. \<exists>cs. map (\<lambda>r. Option.bind (rcs r) (\<lambda>rc. keyfile_content 0 (rc_reads rc))) readers = map Some cs \<and>
        (req \<longrightarrow> [] \<notin> set cs) \<and> ds = map (keyfile_digest sha3) cs)"
proof (induction readers arbitrary: i)
  case Nil
  show ?case unfolding digest_all.simps by (rule validates_ret) simp
next
  case (Cons reader rest)
  show ?case
    unfolding digest_all.simps
  proof (rule validates_bind [OF timeless_rules(2) digest_reader_validates],
      rule validates_bind [OF timeless_rules(2) Cons.IH], rule validates_ret, elim exE conjE)
    fix digest digests c rc cs
    assume "rcs reader = Some rc" "keyfile_content 0 (rc_reads rc) = Some c"
      "digest = keyfile_digest sha3 c" "req \<longrightarrow> c \<noteq> []" "digests = map (keyfile_digest sha3) cs"
      "map (\<lambda>r. Option.bind (rcs r) (\<lambda>rc. keyfile_content 0 (rc_reads rc))) rest = map Some cs"
      "req \<longrightarrow> [] \<notin> set cs"
    then show "\<exists>cs. map (\<lambda>r. Option.bind (rcs r) (\<lambda>rc. keyfile_content 0 (rc_reads rc))) (reader # rest) = map Some cs \<and>
        (req \<longrightarrow> [] \<notin> set cs) \<and> digest # digests = map (keyfile_digest sha3) cs"
      by (intro exI [of _ "c # cs"]) auto
  qed
qed

lemma adjacent_duplicate_sorted: "sorted xs \<Longrightarrow> adjacent_duplicate xs \<longleftrightarrow> \<not> distinct xs"
  by (induction xs rule: adjacent_duplicate.induct) (auto simp: order.antisym)

lemma digest_stage_validates:
  "validates (\<lambda>w. readCloser w = rcs) (digest_stage sha3 owned)
     (\<lambda>ds. \<exists>cs. map (\<lambda>r. Option.bind (rcs r) (\<lambda>rc. keyfile_content 0 (rc_reads rc))) (of_readers owned) = map Some cs \<and>
        (of_requireNonemptyKeyfiles owned \<longrightarrow> [] \<notin> set cs) \<and> ds = map (keyfile_digest sha3) cs \<and> distinct ds)"
  unfolding digest_stage_def
  by (simp, intro conjI impI validates_ret validates_bind [OF timeless_rules(2) digest_all_validates])
    (auto simp: adjacent_duplicate_sorted validates_fail intro!: validates_ret)

lemma io_lift_Inr_unit: "io_lift m w = (Inr (), w') \<longleftrightarrow> m = Inr () \<and> w' = w"
  by (auto simp: io_lift_def)

lemma validate_stage_validates:
  "validates (\<lambda>w. readCloser w = rcs) (validate_stage sha3 callback_nil request owned)
     (\<lambda>ds. \<exists>cs. map (\<lambda>r. Option.bind (rcs r) (\<lambda>rc. keyfile_content 0 (rc_reads rc))) (of_readers owned) = map Some cs \<and>
        (of_requireNonemptyKeyfiles owned \<longrightarrow> [] \<notin> set cs) \<and> ds = map (keyfile_digest sha3) cs \<and> distinct ds)"
proof (unfold validates_def, intro allI impI)
  fix w r w'
  assume rcs: "readCloser w = rcs" and run: "validate_stage sha3 callback_nil request owned w = (r, w')"
  let ?Q = "\<lambda>ds. \<exists>cs. map (\<lambda>r. Option.bind (rcs r) (\<lambda>rc. keyfile_content 0 (rc_reads rc))) (of_readers owned) = map Some cs \<and>
        (of_requireNonemptyKeyfiles owned \<longrightarrow> [] \<notin> set cs) \<and> ds = map (keyfile_digest sha3) cs \<and> distinct ds"
  note b = validates_bind [OF timeless_rules(2), where R = "\<lambda>_. True"]
  have v: "validates (\<lambda>w. readCloser w = rcs)
      (io_bind (io_lift shape) (\<lambda>_. io_bind (cpoll cancelled) (\<lambda>_. io_bind (digest_stage sha3 owned) (\<lambda>digests.
         io_bind (cpoll cancelled) (\<lambda>_. io_ret digests))))) ?Q"
    for shape :: "FactorError + unit" and cancelled
    by (rule b [OF validates_lift] b [OF validates_cpoll] validates_bind [OF timeless_rules(2) digest_stage_validates]
        validates_ret TrueI | assumption)+
  show "ticks_only w w' \<and> (\<forall>ds. r = Inr ds \<longrightarrow> ?Q ds)"
  proof (cases "cw_ctx w = None \<or> callback_nil")
    case True
    with run show ?thesis by (auto simp: validate_stage_def)
  next
    case False
    with run have "io_bind (io_lift (validateFactorShape w owned (fr_Mode request) (fr_KeyfileMode request)
        (fr_ExpectedPolicy request))) (\<lambda>_. io_bind (cpoll (newFactorError FactorErrorCancelled (- 1) 0)) (\<lambda>_.
        io_bind (digest_stage sha3 owned) (\<lambda>digests.
        io_bind (cpoll (newFactorError FactorErrorCancelled (- 1) 0)) (\<lambda>_. io_ret digests)))) w = (r, w')"
      by (simp only: validate_stage_def if_False)
    with validatesD(1) [OF v rcs this] validatesD(2) [OF v rcs] show ?thesis by blast
  qed
qed

lemma validate_stage_shape:
  assumes "validate_stage sha3 callback_nil request owned w = (Inr ds, w')"
  shows "cw_ctx w \<noteq> None \<and> \<not> callback_nil \<and>
    acceptable_factors (fr_Mode request) (fr_KeyfileMode request) (fr_ExpectedPolicy request)
      (of_password owned) (length (of_readers owned)) \<and>
    (\<forall>r \<in> set (of_readers owned). readCloser w r \<noteq> None) \<and> distinct (of_readers owned)"
  using assms
  by (auto simp: validate_stage_def io_bind_eq_Inr io_lift_Inr_unit validateFactorShape_Inr split: if_splits)

lemma deferred_close_Nil:
  "of_readers owned = [] \<Longrightarrow> deferred_close result owned request w =
     ((result, request\<lparr>fr_cleanupIncomplete := fr_cleanupIncomplete request \<or> of_cleanupIncomplete owned\<rparr>), w)"
  by (simp add: deferred_close_def owned_close_def closeReaders_def)

definition factor_refusal :: "'e factors_failure + 'a \<Rightarrow> bool" where
  "factor_refusal r \<longleftrightarrow>
     (\<exists>e. r = Inl (FactorFailure e)) \<or> (\<exists>e e'. r = Inl (JoinedFailure (FactorFailure e) e'))"

definition loaned :: "FactorRequest \<Rightarrow> (byte list \<Rightarrow> byte list) \<Rightarrow> byte list list \<Rightarrow> ValidatedFactors" where
  "loaned q sha3 cs =
     \<lparr>vf_mode = fr_Mode q, vf_keyfileMode = fr_KeyfileMode q, vf_expectedPolicy = fr_ExpectedPolicy q,
      vf_password = fr_Password q, vf_descriptors = map (\<lambda>c. Some (keyfile_digest sha3 c)) cs\<rparr>"

text \<open>The request carries no factor any more.\<close>

definition emptied :: "FactorRequest \<Rightarrow> FactorRequest \<Rightarrow> bool" where
  "emptied q q' \<longleftrightarrow> fr_Password q' = [] \<and> fr_Keyfiles q' = [] \<and> \<not> fr_requireNonemptyKeyfiles q' \<and>
     fr_Mode q' = fr_Mode q \<and> fr_KeyfileMode q' = fr_KeyfileMode q \<and>
     fr_ExpectedPolicy q' = fr_ExpectedPolicy q \<and> (fr_cleanupIncomplete q \<longrightarrow> fr_cleanupIncomplete q')"

lemma released_ticks: "ticks_only w w1 \<Longrightarrow> readers_released readers w1 w2 \<Longrightarrow> readers_released readers w w2"
  by (simp add: readers_released_def held_def ticks_only_fields)

lemma released_then_tick:
  "readers_released readers w w1 \<Longrightarrow> readers_released readers w (w1\<lparr>cw_tick := t\<rparr>)"
  by (simp add: readers_released_def)

lemma released_closed:
  "readers_released readers w w1 \<Longrightarrow> r \<in> set readers \<Longrightarrow> readCloser w1 r = None"
  by (cases r) (auto simp: readers_released_def readCloser_def split: if_splits)

text \<open>
  Either the request is refused and its readers are released, or the callback ran, after the
  readers were released, on the password and the digests of what the readers delivered.
\<close>

lemma withValidatedFactors_runs:
  assumes run: "withValidatedFactors sha3 (Some q) callback w = ((r, q'), w')"
  obtains (refused) q1 where "q' = Some q1" "emptied q q1" "factor_refusal r" "readers_released (fr_Keyfiles q) w w'"
  | (ran) q1 cb cs w1 s where "q' = Some q1" "emptied q q1" "callback = Some cb" "cw_ctx w \<noteq> None"
      "acceptable_factors (fr_Mode q) (fr_KeyfileMode q) (fr_ExpectedPolicy q) (fr_Password q) (length (fr_Keyfiles q))"
      "distinct (fr_Keyfiles q)" "contents (fr_requireNonemptyKeyfiles q) w (fr_Keyfiles q) cs"
      "distinct (map (keyfile_digest sha3) cs)" "readers_released (fr_Keyfiles q) w w1"
      "cb (loaned q sha3 cs) w1 = (s, w')" "r = (case s of Inl e \<Rightarrow> Inl (CallbackFailure e) | Inr v \<Rightarrow> Inr v)"
proof -
  obtain owned q0 where take: "takeFactorRequest q = (owned, q0)" by force
  then have owned: "of_readers owned = fr_Keyfiles q" "of_password owned = fr_Password q"
      "of_requireNonemptyKeyfiles owned = fr_requireNonemptyKeyfiles q"
    and q0: "emptied q q0" "fr_Mode q0 = fr_Mode q" "fr_KeyfileMode q0 = fr_KeyfileMode q"
      "fr_ExpectedPolicy q0 = fr_ExpectedPolicy q"
    by (auto simp: takeFactorRequest_def emptied_def)
  have em: "emptied q (q0\<lparr>fr_cleanupIncomplete := fr_cleanupIncomplete q0 \<or> b\<rparr>)" for b
    using q0(1) by (auto simp: emptied_def)
  obtain v w1 where stage: "validate_stage sha3 (callback = None) q0 owned w = (v, w1)" by force
  note st = validatesD [OF validate_stage_validates refl]
  have t1: "ticks_only w w1" by (rule st(1) [OF stage])
  show thesis
  proof (cases v)
    case (Inl err)
    obtain ce owned2 w2 where oc: "owned_close owned w1 = (ce, owned2, w2)" by (metis prod_cases3)
    have "readers_released (fr_Keyfiles q) w w2"
      using owned_close_released [OF oc] released_ticks [OF t1] owned by simp
    with run take stage Inl oc em show thesis
      by (intro refused) (auto simp: withValidatedFactors_def deferred_close_def factor_refusal_def split: option.splits)
  next
    case (Inr ds)
    obtain ce owned2 w2 where cr: "closeReaders owned w1 = (ce, owned2, w2)" by (metis prod_cases3)
    have rel: "readers_released (fr_Keyfiles q) w w2" and nil: "of_readers owned2 = []"
      using closeReaders_released [OF cr] released_ticks [OF t1] owned by auto
    obtain c w3 where poll: "ctx_cancelled w2 = (c, w3)" by force
    then have rel3: "readers_released (fr_Keyfiles q) w w3"
      using released_then_tick [OF rel] by (auto simp: ctx_cancelled_def)
    show thesis
    proof (cases "ce = None \<and> \<not> c")
      case False
      with run take stage Inr cr poll rel rel3 em show thesis
        by (intro refused) (auto simp: withValidatedFactors_def deferred_close_Nil [OF nil] factor_refusal_def split: option.splits)
    next
      case True
      note shape = validate_stage_shape [OF stage [unfolded Inr]]
      then obtain cb where cb: "callback = Some cb" by auto
      obtain cs where cs: "contents (fr_requireNonemptyKeyfiles q) w (fr_Keyfiles q) cs"
        "ds = map (keyfile_digest sha3) cs" "distinct ds"
        using st(2) [OF stage [unfolded Inr]] owned unfolding contents_def reader_content_def [abs_def] by metis
      have vf: "validated_factors q0 owned2 ds = loaned q sha3 cs"
        using cr owned q0 cs(2)
        by (auto simp: validated_factors_def loaned_def closeReaders_def split: prod.splits)
      obtain s w4 where s: "cb (loaned q sha3 cs) w3 = (s, w4)" by force
      obtain q1 where "r = (case s of Inl e \<Rightarrow> Inl (CallbackFailure e) | Inr v \<Rightarrow> Inr v)" "w4 = w'"
          "q' = Some q1" "emptied q q1"
        using run take stage Inr cr poll True cb vf s em
        by (auto simp: withValidatedFactors_def deferred_close_Nil [OF nil] split: sum.splits)
      with shape cb cs rel3 s owned q0 show thesis by (intro ran [where cb = cb and cs = cs and ?q1.0 = q1]) auto
    qed
  qed
qed

section \<open>Requests that succeed\<close>

lemma ticks_only_content:
  assumes "ticks_only w w'"
  shows "reader_content w' = reader_content w" "contents b w' = contents b w"
proof -
  show "reader_content w' = reader_content w"
    by (rule ext) (simp add: reader_content_def ticks_only_fields [OF assms])
  then show "contents b w' = contents b w" by (intro ext) (simp add: contents_def)
qed

lemma digest_all_complete:
  assumes "map (reader_content w) readers = map Some cs" and "req \<longrightarrow> [] \<notin> set cs" and "ctx_quiet w"
  shows "fst (digest_all sha3 req i readers w) = Inr (map (keyfile_digest sha3) cs)"
  using assms
proof (induction readers arbitrary: i cs w)
  case (Cons reader rest)
  obtain c cs' where cs: "cs = c # cs'" and c: "reader_content w reader = Some c"
    and rest: "map (reader_content w) rest = map Some cs'" using Cons.prems(1) by (cases cs) auto
  from c obtain rc where rc: "readCloser w reader = Some rc" "keyfile_content 0 (rc_reads rc) = Some c"
    by (auto simp: reader_content_def bind_eq_Some_conv)
  then have d: "digest_reader sha3 req i reader w = digestKeyfile sha3 rc (int i) req w"
    by (simp add: digest_reader_def)
  obtain r w1 where run: "digest_reader sha3 req i reader w = (r, w1)" by force
  then have r: "r = Inr (keyfile_digest sha3 c)"
    using digest_loop_complete [OF rc(2) _ Cons.prems(3), of req False sha3 "int i" keyfileDomain] cs Cons.prems(2) d
    by (auto simp: digestKeyfile_def keyfile_digest_def)
  have t: "ticks_only w w1" by (rule validatesD(1) [OF digest_reader_validates refl run])
  then have "map (reader_content w1) rest = map Some cs'"
    using rest by (simp add: ticks_only_content [OF t])
  then have "fst (digest_all sha3 req (Suc i) rest w1) = Inr (map (keyfile_digest sha3) cs')"
    using Cons.IH [of w1 cs' "Suc i"] Cons.prems(2,3) quiet_ticks [OF t] cs by simp
  then show ?case
    by (cases "digest_all sha3 req (Suc i) rest w1") (simp add: io_bind_def run r cs)
qed simp

lemma contents_length: "contents b w readers cs \<Longrightarrow> length cs = length readers"
  unfolding contents_def by (metis length_map)

lemma digest_stage_complete:
  assumes "contents (of_requireNonemptyKeyfiles owned) w (of_readers owned) cs" and "ctx_quiet w"
    and "distinct (map (keyfile_digest sha3) cs)"
  shows "fst (digest_stage sha3 owned w) = Inr (map (keyfile_digest sha3) cs)"
proof (cases "of_readers owned = []")
  case False
  obtain r w1 where run: "digest_all sha3 (of_requireNonemptyKeyfiles owned) 0 (of_readers owned) w = (r, w1)" by force
  then have "r = Inr (map (keyfile_digest sha3) cs)"
    using digest_all_complete [of w "of_readers owned" cs "of_requireNonemptyKeyfiles owned" sha3 0] assms
    by (simp add: contents_def)
  with run False assms(3) show ?thesis
    by (simp add: digest_stage_def io_bind_def adjacent_duplicate_sorted)
qed (use assms contents_length in \<open>force simp: digest_stage_def\<close>)

text \<open>Readers that close without an error.\<close>

definition closes_cleanly :: "credential_world \<Rightarrow> KeyfileReader list \<Rightarrow> bool" where
  "closes_cleanly w readers \<longleftrightarrow>
     (\<forall>r \<in> set readers. \<forall>rc. readCloser w r = Some rc \<longrightarrow> rc_close rc = CloseReturns None)"

lemma keyfile_close_clean:
  "closes_cleanly w (reader # rest) \<Longrightarrow> keyfile_close reader w = (failed, w1) \<Longrightarrow>
     \<not> failed \<and> closes_cleanly w1 rest"
  by (auto simp: closes_cleanly_def keyfile_close_def readCloser_def split: option.splits if_splits)

lemma close_each_clean: "closes_cleanly w readers \<Longrightarrow> fst (close_each i readers None w) = None"
proof (induction readers arbitrary: i w)
  case (Cons reader rest)
  obtain failed w1 where "keyfile_close reader w = (failed, w1)" by force
  with keyfile_close_clean [OF Cons.prems this] Cons.IH show ?case by simp
qed simp

lemma closes_cleanly_ticks: "ticks_only w w' \<Longrightarrow> closes_cleanly w' readers = closes_cleanly w readers"
  by (simp add: closes_cleanly_def ticks_only_fields)

lemma validate_stage_complete:
  assumes "ctx_quiet w" and "\<not> callback_nil"
    and "acceptable_factors (fr_Mode q) (fr_KeyfileMode q) (fr_ExpectedPolicy q) (of_password owned) (length (of_readers owned))"
    and "distinct (of_readers owned)" and "contents (of_requireNonemptyKeyfiles owned) w (of_readers owned) cs"
    and "distinct (map (keyfile_digest sha3) cs)"
  shows "fst (validate_stage sha3 callback_nil q owned w) = Inr (map (keyfile_digest sha3) cs)"
proof -
  let ?w = "w\<lparr>cw_tick := cw_tick w + 1\<rparr>"
  have t: "ticks_only w ?w" by (auto simp: ticks_only_def)
  have q1: "ctx_quiet ?w" and c1: "contents (of_requireNonemptyKeyfiles owned) ?w (of_readers owned) cs"
    using assms(1,5) quiet_ticks [OF t] ticks_only_content(2) [OF t] by auto
  have "map (reader_content w) (of_readers owned) = map Some cs" using assms(5) by (simp add: contents_def)
  then have "reader_content w ` set (of_readers owned) = Some ` set cs" by (metis list.set_map)
  then have "\<forall>r \<in> set (of_readers owned). reader_content w r \<noteq> None" by (metis imageE imageI option.distinct(1))
  then have "\<forall>r \<in> set (of_readers owned). readCloser w r \<noteq> None" by (auto simp: reader_content_def bind_eq_Some_conv)
  then have shape: "validateFactorShape w owned (fr_Mode q) (fr_KeyfileMode q) (fr_ExpectedPolicy q) = Inr ()"
    using assms(3,4) by (simp add: validateFactorShape_Inr)
  obtain r w2 where ds: "digest_stage sha3 owned ?w = (r, w2)" by force
  then have "r = Inr (map (keyfile_digest sha3) cs)" using digest_stage_complete [OF c1 q1 assms(6)] by simp
  moreover have "ctx_quiet w2"
    using quiet_ticks [OF validatesD(1) [OF digest_stage_validates refl ds]] q1 by simp
  moreover have "cw_ctx w \<noteq> None" using assms(1) by (auto simp: ctx_quiet_def)
  ultimately show ?thesis
    using assms(2) shape ds
    by (simp add: validate_stage_def io_bind_def cpoll_def ctx_quiet_poll [OF assms(1)] ctx_quiet_poll [where w = w2])
qed

text \<open>A request that is accepted: what the keyfiles deliver, and that nothing interferes.\<close>

definition good_factors :: "(byte list \<Rightarrow> byte list) \<Rightarrow> credential_world \<Rightarrow> FactorRequest \<Rightarrow> byte list list \<Rightarrow> bool" where
  "good_factors sha3 w q cs \<longleftrightarrow>
     ctx_quiet w \<and>
     acceptable_factors (fr_Mode q) (fr_KeyfileMode q) (fr_ExpectedPolicy q) (fr_Password q) (length (fr_Keyfiles q)) \<and>
     distinct (fr_Keyfiles q) \<and> contents (fr_requireNonemptyKeyfiles q) w (fr_Keyfiles q) cs \<and>
     distinct (map (keyfile_digest sha3) cs) \<and> closes_cleanly w (fr_Keyfiles q)"

lemma withValidatedFactors_completes:
  assumes "good_factors sha3 w q cs"
  obtains w1 where "ctx_quiet w1" and "readers_released (fr_Keyfiles q) w w1"
    and "\<And>(cb :: ValidatedFactors \<Rightarrow> (credential_world, 'e, 'a) io) s w2. cb (loaned q sha3 cs) w1 = (s, w2) \<Longrightarrow>
           \<exists>q1. withValidatedFactors sha3 (Some q) (Some cb) w =
             ((case s of Inl e \<Rightarrow> Inl (CallbackFailure e) | Inr v \<Rightarrow> Inr v, Some q1), w2)"
proof -
  note good = assms [unfolded good_factors_def]
  obtain owned q0 where take: "takeFactorRequest q = (owned, q0)" by force
  then have owned: "of_readers owned = fr_Keyfiles q" "of_password owned = fr_Password q"
      "of_requireNonemptyKeyfiles owned = fr_requireNonemptyKeyfiles q"
    and q0: "fr_Mode q0 = fr_Mode q" "fr_KeyfileMode q0 = fr_KeyfileMode q" "fr_ExpectedPolicy q0 = fr_ExpectedPolicy q"
    by (auto simp: takeFactorRequest_def)
  obtain v w1 where stage: "validate_stage sha3 False q0 owned w = (v, w1)" by force
  have v: "v = Inr (map (keyfile_digest sha3) cs)"
    using validate_stage_complete [of w False q0 owned cs sha3] good owned q0 stage by simp
  have t1: "ticks_only w w1" by (rule validatesD(1) [OF validate_stage_validates refl stage])
  obtain ce owned2 w2 where cr: "closeReaders owned w1 = (ce, owned2, w2)" by (metis prod_cases3)
  have nil: "of_readers owned2 = []" and rel: "readers_released (fr_Keyfiles q) w w2"
    using closeReaders_released [OF cr] released_ticks [OF t1] owned by auto
  have ce: "ce = None"
    using close_each_clean [of w1 "of_readers owned" 0] cr good owned closes_cleanly_ticks [OF t1]
    by (auto simp: closeReaders_def split: prod.splits)
  have q2: "ctx_quiet w2" using rel good by (simp add: readers_released_def ctx_quiet_def)
  let ?w = "w2\<lparr>cw_tick := cw_tick w2 + 1\<rparr>"
  have vf: "validated_factors q0 owned2 (map (keyfile_digest sha3) cs) = loaned q sha3 cs"
    using cr owned q0 by (auto simp: validated_factors_def loaned_def closeReaders_def split: prod.splits)
  show thesis
  proof (rule that [of ?w])
    show "ctx_quiet ?w" using q2 by (simp add: ctx_quiet_def)
    show "readers_released (fr_Keyfiles q) w ?w" by (rule released_then_tick [OF rel])
    fix cb :: "ValidatedFactors \<Rightarrow> (credential_world, 'e, 'a) io" and s w3
    assume "cb (loaned q sha3 cs) ?w = (s, w3)"
    then show "\<exists>q1. withValidatedFactors sha3 (Some q) (Some cb) w =
        ((case s of Inl e \<Rightarrow> Inl (CallbackFailure e) | Inr v \<Rightarrow> Inr v, Some q1), w3)"
      by (cases s) (simp_all add: withValidatedFactors_def take stage v cr ce ctx_quiet_poll [OF q2] vf deferred_close_Nil [OF nil])
  qed
qed

section \<open>Properties\<close>

text \<open>C13: whatever the readers, the context and the callback do, the request comes back without its
  password and readers, every handle it carried is closed, and every open reader it carried was
  closed exactly once; a reader that was already closed, or does not belong to it, was not
  touched. The callback does not touch the readers.
\<close>

lemma factor_request_consumed:
  assumes "withValidatedFactors sha3 (Some q) callback w = ((r, q'), w')"
    and "\<And>cb f v s v'. callback = Some cb \<Longrightarrow> cb f v = (s, v') \<Longrightarrow>
           cw_readers v' = cw_readers v \<and> cw_closes v' = cw_closes v"
  shows "(\<exists>q1. q' = Some q1 \<and> fr_Password q1 = [] \<and> fr_Keyfiles q1 = []) \<and>
    (\<forall>k. Some k \<in> set (fr_Keyfiles q) \<longrightarrow> krs_closed (cw_readers w' k) \<and> readCloser w' (Some k) = None) \<and>
    (\<forall>k. count_list (cw_closes w') k = count_list (cw_closes w) k +
           (if Some k \<in> set (fr_Keyfiles q) \<and> readCloser w (Some k) \<noteq> None then 1 else 0))"
proof -
  obtain q1 v where q1: "q' = Some q1" "emptied q q1" and v: "readers_released (fr_Keyfiles q) w v"
    and same: "cw_readers w' = cw_readers v" "cw_closes w' = cw_closes v"
    using assms(1)
  proof (cases rule: withValidatedFactors_runs)
    case (ran q1 cb cs w1 s)
    with assms(2) [OF ran(3) ran(10)] show thesis using that by blast
  qed (use that in blast)
  have closed: "krs_closed (cw_readers v k)" if "Some k \<in> set (fr_Keyfiles q)" for k
    using v that by (auto simp: readers_released_def)
  then have "readCloser w' (Some k) = None" if "Some k \<in> set (fr_Keyfiles q)" for k
    using that same(1) by (simp add: readCloser_def)
  with closed q1 v same show ?thesis by (auto simp: emptied_def readers_released_def held_def)
qed

text \<open>C12: when the operation returns the callback's value, the callback was given exactly the modes
  and password of the request and the digest of the bytes each keyfile delivered, in order; the
  request had an admissible shape, no two keyfiles had the same digest, none was empty where that
  is required, and the callback ran after every reader was closed.
\<close>

lemma callback_gets_validated_factors:
  assumes "withValidatedFactors sha3 (Some q) callback w = ((Inr v, q'), w')"
  shows "\<exists>cb cs w1. callback = Some cb \<and>
    cb \<lparr>vf_mode = fr_Mode q, vf_keyfileMode = fr_KeyfileMode q, vf_expectedPolicy = fr_ExpectedPolicy q,
        vf_password = fr_Password q,
        vf_descriptors = map (\<lambda>c. Some (sha3 (keyfileDomain @ c))) cs\<rparr> w1 = (Inr v, w') \<and>
    acceptable_factors (fr_Mode q) (fr_KeyfileMode q) (fr_ExpectedPolicy q) (fr_Password q) (length (fr_Keyfiles q)) \<and>
    map (reader_content w) (fr_Keyfiles q) = map Some cs \<and> distinct (map (\<lambda>c. sha3 (keyfileDomain @ c)) cs) \<and>
    (fr_requireNonemptyKeyfiles q \<longrightarrow> [] \<notin> set cs) \<and>
    (\<forall>reader \<in> set (fr_Keyfiles q). readCloser w1 reader = None)"
  using assms
proof (cases rule: withValidatedFactors_runs)
  case (ran q1 cb cs w1 s)
  then have "s = Inr v" by (cases s) auto
  moreover have "loaned q sha3 cs = \<lparr>vf_mode = fr_Mode q, vf_keyfileMode = fr_KeyfileMode q,
      vf_expectedPolicy = fr_ExpectedPolicy q, vf_password = fr_Password q,
      vf_descriptors = map (\<lambda>c. Some (sha3 (keyfileDomain @ c))) cs\<rparr>"
    by (simp add: loaned_def keyfile_digest_def)
  moreover have "distinct (map (\<lambda>c. sha3 (keyfileDomain @ c)) cs)"
    using ran(8) by (simp add: keyfile_digest_def [abs_def])
  ultimately show ?thesis
    using ran(3,5,7,9,10) released_closed [OF ran(9)]
    by (intro exI [of _ cb] exI [of _ cs] exI [of _ w1]) (auto simp: contents_def)
qed (auto simp: factor_refusal_def)

text \<open>A request with one password and two keyfiles, one of which delivers its bytes in two reads.\<close>

definition demo_reader :: "read_answer list \<Rightarrow> keyfileReaderState" where
  "demo_reader answers = \<lparr>krs_reader = Some \<lparr>rc_reads = answers, rc_close = CloseReturns None\<rparr>, krs_closed = False\<rparr>"

definition demo_world :: credential_world where
  "demo_world = \<lparr>cw_ctx = Some (\<lambda>_. False), cw_lease = (\<lambda>_. True), cw_tick = 0,
     cw_readers = (\<lambda>k. if k = 0 then demo_reader [ReadReturns 1 [7] None, ReadReturns 1 [8] (Some EOF)]
                       else demo_reader [ReadReturns 2 [9, 9] None]),
     cw_closes = [], cw_entropy = replicate 80 5, cw_events = []\<rparr>"

definition demo_request :: FactorRequest where
  "demo_request = \<lparr>fr_requireNonemptyKeyfiles = True, fr_cleanupIncomplete = False, fr_Mode = 3,
     fr_KeyfileMode = 2, fr_ExpectedPolicy = 3, fr_Password = [112, 119],
     fr_Keyfiles = [Some 0, Some 1]\<rparr>"

text \<open>A digest of 32 bytes that ends with the last six bytes of its input.\<close>

definition demo_sha3 :: "byte list \<Rightarrow> byte list" where
  "demo_sha3 bs = replicate (32 - length (take 6 (rev bs))) 0 @ take 6 (rev bs)"

lemma length_demo_sha3 [simp]: "length (demo_sha3 bs) = 32"
  by (simp add: demo_sha3_def)

lemma demo_good: "good_factors demo_sha3 demo_world demo_request [[7, 8], [9, 9]]"
  by (simp add: good_factors_def ctx_quiet_def acceptable_factors_def contents_def reader_content_def
      closes_cleanly_def readCloser_def demo_world_def demo_request_def demo_reader_def fit_def
      keyfile_digest_def demo_sha3_def take_Cons')

lemma demo_runs:
  obtains w' q1 v where "withValidatedFactors demo_sha3 (Some demo_request)
      (Some (\<lambda>f w. (Inr (vf_descriptors f) :: unit + byte list option list, w))) demo_world = ((Inr v, Some q1), w')"
proof (rule withValidatedFactors_completes [OF demo_good])
  fix w1
  assume "\<And>(cb :: ValidatedFactors \<Rightarrow> (credential_world, unit, byte list option list) io) s w2.
      cb (loaned demo_request demo_sha3 [[7, 8], [9, 9]]) w1 = (s, w2) \<Longrightarrow>
      \<exists>q1. withValidatedFactors demo_sha3 (Some demo_request) (Some cb) demo_world =
        ((case s of Inl e \<Rightarrow> Inl (CallbackFailure e) | Inr v \<Rightarrow> Inr v, Some q1), w2)"
  from this [of "\<lambda>f w. (Inr (vf_descriptors f), w)", OF refl] show thesis using that by (auto simp: loaned_def)
qed

lemma factor_request_consumed_witness:
  "\<exists>w' q1 v. withValidatedFactors demo_sha3 (Some demo_request)
      (Some (\<lambda>f w. (Inr (vf_descriptors f) :: unit + byte list option list, w))) demo_world =
      ((Inr v, Some q1), w') \<and> count_list (cw_closes w') 0 = 1 \<and> count_list (cw_closes w') 1 = 1 \<and>
      count_list (cw_closes w') 2 = 0 \<and> fr_Password q1 = []"
proof -
  obtain w' q1 v where run: "withValidatedFactors demo_sha3 (Some demo_request)
      (Some (\<lambda>f w. (Inr (vf_descriptors f) :: unit + byte list option list, w))) demo_world =
      ((Inr v, Some q1), w')"
    using demo_runs .
  have "fr_Keyfiles demo_request = [Some 0, Some 1]" "cw_closes demo_world = []"
    "readCloser demo_world (Some 0) \<noteq> None" "readCloser demo_world (Some 1) \<noteq> None"
    by (simp_all add: demo_request_def demo_world_def demo_reader_def readCloser_def)
  moreover have "count_list (cw_closes w') k = count_list (cw_closes demo_world) k +
      (if Some k \<in> set (fr_Keyfiles demo_request) \<and> readCloser demo_world (Some k) \<noteq> None then 1 else 0)" for k
    by (rule factor_request_consumed [OF run, THEN conjunct2, THEN conjunct2, rule_format]) auto
  moreover have "\<exists>q2. Some q1 = Some q2 \<and> fr_Password q2 = [] \<and> fr_Keyfiles q2 = []"
    by (rule factor_request_consumed [OF run, THEN conjunct1]) auto
  ultimately have "count_list (cw_closes w') 0 = 1 \<and> count_list (cw_closes w') 1 = 1 \<and>
      count_list (cw_closes w') 2 = 0 \<and> fr_Password q1 = []"
    by simp
  with run show ?thesis by blast
qed

lemma callback_gets_validated_factors_witness:
  "\<exists>cs. map (reader_content demo_world) [Some 0, Some 1] = map Some cs \<and>
     distinct (map (\<lambda>c. demo_sha3 (keyfileDomain @ c)) cs) \<and> [] \<notin> set cs"
proof -
  obtain w' q1 v where run: "withValidatedFactors demo_sha3 (Some demo_request)
      (Some (\<lambda>f w. (Inr (vf_descriptors f) :: unit + byte list option list, w))) demo_world =
      ((Inr v, Some q1), w')"
    using demo_runs .
  have "fr_Keyfiles demo_request = [Some 0, Some 1]" "fr_requireNonemptyKeyfiles demo_request"
    by (simp_all add: demo_request_def)
  with callback_gets_validated_factors [OF run] show ?thesis by metis
qed

end
