(* ===== verification/Transcript.thy ===== *)
theory Transcript
  imports Factors Key_Schedule "HOL-Library.Multiset"
begin

text \<open>
  The canonical transcript of a factor set and the inputs of the key derivation made from it
  (\<open>pcv3credential/transcript.go\<close>), with the password profile
  (\<open>pcv3unicode/normalize.go\<close>). The normalization form and the assignment table of Unicode 18
  are generated data: \<open>nfc\<close> and \<open>assigned\<close> are parameters; UTF-8 is written out. SHA3-512 is a
  parameter. An owner of a secret is the bytes it holds, or \<open>None\<close> when it is closed.
\<close>

section \<open>The password profile\<close>

datatype Rejection =
    RejectionInvalidUTF8 | RejectionUnassigned | RejectionInputTooLarge
  | RejectionOutputTooLarge | RejectionCombiningSequence

abbreviation (input) maxUTF8Bytes :: nat where "maxUTF8Bytes \<equiv> 1048576"

definition continuation :: "nat \<Rightarrow> nat \<Rightarrow> byte \<Rightarrow> bool" where
  "continuation lo hi b \<longleftrightarrow> lo \<le> unat b \<and> unat b \<le> hi"

text \<open>\<open>utf8.DecodeRune\<close> on well-formed input: the scalar and its length, \<open>None\<close> if the bytes do
  not start with a well-formed sequence.\<close>

definition DecodeRune :: "byte list \<Rightarrow> (nat \<times> nat) option" where
  "DecodeRune bs =
     (case bs of
        [] \<Rightarrow> None
      | b # rest \<Rightarrow>
          let c = unat b;
              at = (\<lambda>i. unat (rest ! i) mod 64);
              cont = (\<lambda>n lo hi. length rest \<ge> n \<and> continuation lo hi (rest ! 0) \<and>
                        list_all (continuation 0x80 0xBF) (take (n - 1) (drop 1 rest)))
          in
          if c < 0x80 then Some (c, 1)
          else if 0xC2 \<le> c \<and> c \<le> 0xDF then
            (if cont 1 0x80 0xBF then Some (c mod 32 * 64 + at 0, 2) else None)
          else if 0xE0 \<le> c \<and> c \<le> 0xEF then
            (if cont 2 (if c = 0xE0 then 0xA0 else 0x80) (if c = 0xED then 0x9F else 0xBF)
             then Some (c mod 16 * 4096 + at 0 * 64 + at 1, 3) else None)
          else if 0xF0 \<le> c \<and> c \<le> 0xF4 then
            (if cont 3 (if c = 0xF0 then 0x90 else 0x80) (if c = 0xF4 then 0x8F else 0xBF)
             then Some (c mod 8 * 262144 + at 0 * 4096 + at 1 * 64 + at 2, 4) else None)
          else None)"

text \<open>The scalars of a valid string.\<close>

function scalars :: "byte list \<Rightarrow> nat list option" where
  "scalars [] = Some []"
| "scalars (b # rest) =
     (case DecodeRune (b # rest) of
        None \<Rightarrow> None
      | Some (r, n) \<Rightarrow> map_option (Cons r) (scalars (drop (n - 1) rest)))"
  by pat_completeness auto
termination by (relation "measure length") auto

definition graphemeJoiner :: "byte list" where
  "graphemeJoiner = [0xCD, 0x8F]"

text \<open>\<open>bytes.Count\<close>, for a pattern that is not empty: occurrences that do not overlap.\<close>

function bytes_Count :: "byte list \<Rightarrow> byte list \<Rightarrow> nat" where
  "bytes_Count pattern [] = 0"
| "bytes_Count pattern (b # rest) =
     (if pattern \<noteq> [] \<and> take (length pattern) (b # rest) = pattern
      then Suc (bytes_Count pattern (drop (length pattern - 1) rest))
      else bytes_Count pattern rest)"
  by pat_completeness auto
termination by (relation "measure (length o snd)") auto

definition finishCanonicalization :: "byte list \<Rightarrow> byte list \<Rightarrow> Rejection + byte list" where
  "finishCanonicalization input canonical =
     (if length canonical > maxUTF8Bytes then Inl RejectionOutputTooLarge
      else if bytes_Count graphemeJoiner canonical > bytes_Count graphemeJoiner input
      then Inl RejectionCombiningSequence
      else Inr canonical)"

definition Canonicalize ::
  "(nat \<Rightarrow> bool) \<Rightarrow> (byte list \<Rightarrow> byte list) \<Rightarrow> byte list \<Rightarrow> Rejection + byte list" where
  "Canonicalize assigned nfc input =
     (if length input > maxUTF8Bytes then Inl RejectionInputTooLarge
      else
        (case scalars input of
           None \<Rightarrow> Inl RejectionInvalidUTF8
         | Some rs \<Rightarrow>
             if \<not> list_all assigned rs then Inl RejectionUnassigned
             else finishCanonicalization input (nfc input)))"

section \<open>The transcript\<close>

abbreviation (input) credentialTranscriptVersion :: byte where "credentialTranscriptVersion \<equiv> 1"
abbreviation (input) credentialTranscriptFixed :: nat where "credentialTranscriptFixed \<equiv> 10"
abbreviation (input) keyfileDigestBytes :: nat where "keyfileDigestBytes \<equiv> 32"
abbreviation (input) credentialInputBytes :: nat where "credentialInputBytes \<equiv> 64"
abbreviation (input) maxCredentialTranscript :: nat where
  "maxCredentialTranscript \<equiv> 10 + 1048576 + 64 * 32"

definition normalInputDomain :: "byte list" where
  "normalInputDomain = ascii ''Picocrypt-NG/PCV3/credential/normal'' @ [0]"

definition outerInputDomain :: "byte list" where
  "outerInputDomain = ascii ''Picocrypt-NG/PCV3/D1C/credential/full'' @ [0]"

datatype TranscriptErrorCode =
    TranscriptErrorInvalidFactors | TranscriptErrorPasswordCanonicalization
  | TranscriptErrorLength | TranscriptErrorClosed

record TranscriptError =
  te_Code :: TranscriptErrorCode
  te_Reason :: "Rejection option"
  te_Size :: u64

definition newTranscriptError ::
  "TranscriptErrorCode \<Rightarrow> Rejection option \<Rightarrow> nat \<Rightarrow> TranscriptError" where
  "newTranscriptError code reason bytes =
     \<lparr>te_Code = code, te_Reason = reason, te_Size = word_of_nat bytes\<rparr>"

definition sortTranscriptDigests :: "byte list list \<Rightarrow> byte list list" where
  "sortTranscriptDigests digests = sort digests"

definition hasDuplicateTranscriptDigest :: "byte list list \<Rightarrow> bool" where
  "hasDuplicateTranscriptDigest digests = adjacent_duplicate digests"

text \<open>The switch over the mode in \<open>canonicalTranscriptDigests\<close>.\<close>

definition mode_fits :: "ValidatedFactors \<Rightarrow> bool" where
  "mode_fits factors \<longleftrightarrow>
     (let passwordLen = length (vf_password factors); keyfileCount = length (vf_descriptors factors);
          keyed = (vf_keyfileMode factors = KeyfileModeOrdered \<or> vf_keyfileMode factors = KeyfileModeUnordered)
      in
      if vf_mode factors = CredentialModePasswordOnly
      then \<not> (passwordLen = 0 \<or> vf_keyfileMode factors \<noteq> KeyfileModeNone \<or> keyfileCount \<noteq> 0)
      else if vf_mode factors = CredentialModeKeyfilesOnly
      then \<not> (passwordLen \<noteq> 0 \<or> \<not> keyed \<or> keyfileCount = 0)
      else \<not> (passwordLen = 0 \<or> \<not> keyed \<or> keyfileCount = 0))"

definition known_mode :: "byte \<Rightarrow> bool" where
  "known_mode mode \<longleftrightarrow>
     mode = CredentialModePasswordOnly \<or> mode = CredentialModeKeyfilesOnly \<or>
     mode = CredentialModePasswordAndKeyfiles"

definition canonicalTranscriptDigests ::
  "ValidatedFactors option \<Rightarrow> TranscriptError + byte list list" where
  "canonicalTranscriptDigests f =
     (case f of
        None \<Rightarrow> Inl (newTranscriptError TranscriptErrorInvalidFactors None 0)
      | Some factors \<Rightarrow>
          let passwordLen = length (vf_password factors);
              keyfileCount = length (vf_descriptors factors);
              invalid = newTranscriptError TranscriptErrorInvalidFactors None keyfileCount
          in
          if passwordLen > maxPasswordBytes
          then Inl (newTranscriptError TranscriptErrorLength None passwordLen)
          else if keyfileCount > MaxKeyfiles \<or>
                  \<not> policyMatchesMode (vf_expectedPolicy factors) (vf_mode factors)
          then Inl invalid
          else if \<not> known_mode (vf_mode factors)
          then Inl (newTranscriptError TranscriptErrorInvalidFactors None (unat (vf_mode factors)))
          else if \<not> mode_fits factors then Inl invalid
          else
            ebind (emap (\<lambda>d. case d of
                     None \<Rightarrow> Inl invalid
                   | Some digest \<Rightarrow>
                       if length digest \<noteq> keyfileDigestBytes then Inl invalid else Inr digest)
                   (vf_descriptors factors)) (\<lambda>digests.
            let sorted = sortTranscriptDigests digests in
            if hasDuplicateTranscriptDigest sorted then Inl invalid
            else if vf_keyfileMode factors = KeyfileModeUnordered then Inr sorted
            else Inr digests))"

text \<open>\<open>canonicalize\<close> is not called on an empty password. Its error is the \<open>*pcv3unicode.Error\<close> with
  a reason, or another error.\<close>

definition canonical_password ::
  "(byte list \<Rightarrow> Rejection option + byte list) \<Rightarrow> byte list \<Rightarrow> TranscriptError + byte list" where
  "canonical_password canonicalize password =
     (if password = [] then Inr []
      else
        (case canonicalize password of
           Inl reason \<Rightarrow>
             Inl (newTranscriptError TranscriptErrorPasswordCanonicalization reason (length password))
         | Inr canonical \<Rightarrow>
             if canonical = [] then Inl (newTranscriptError TranscriptErrorInvalidFactors None 0)
             else if length canonical > maxPasswordBytes
             then Inl (newTranscriptError TranscriptErrorLength None (length canonical))
             else Inr canonical))"

text \<open>The length of the transcript, with the checks for overflow of the 64-bit sum; an \<open>int\<close> has 64
  bits.\<close>

definition transcript_length :: "nat \<Rightarrow> nat \<Rightarrow> TranscriptError + u64" where
  "transcript_length passwordLen keyfileCount =
     (let passwordBytes = word_of_nat passwordLen :: u64;
          digestBytes = word_of_nat keyfileCount * word_of_nat keyfileDigestBytes :: u64;
          fixed = word_of_nat credentialTranscriptFixed :: u64;
          refuse = (\<lambda>n. Inl (newTranscriptError TranscriptErrorLength None (unat n)))
      in
      if passwordBytes > - 1 - fixed then refuse passwordBytes
      else
        let totalBytes = fixed + passwordBytes in
        if digestBytes > - 1 - totalBytes then refuse digestBytes
        else
          let totalBytes = totalBytes + digestBytes in
          if totalBytes > word_of_nat maxCredentialTranscript \<or> totalBytes > drop_bit 1 (- 1)
          then refuse totalBytes
          else Inr totalBytes)"

definition newCanonicalTranscript ::
  "(byte list \<Rightarrow> Rejection option + byte list) option \<Rightarrow> ValidatedFactors option \<Rightarrow>
   TranscriptError + byte list" where
  "newCanonicalTranscript canonicalize f =
     (case canonicalize of
        None \<Rightarrow> Inl (newTranscriptError TranscriptErrorInvalidFactors None 0)
      | Some canon \<Rightarrow>
          ebind (canonicalTranscriptDigests f) (\<lambda>digests.
          let factors = the f in
          ebind (canonical_password canon (vf_password factors)) (\<lambda>password.
          ebind (transcript_length (length password) (length digests)) (\<lambda>_.
            Inr ([credentialTranscriptVersion, vf_mode factors, vf_keyfileMode factors, 0] @
                 put_u32 (word_of_nat (length password)) @ password @
                 put_u16 (word_of_nat (length digests)) @ concat digests)))))"

definition NewCanonicalTranscript ::
  "(nat \<Rightarrow> bool) \<Rightarrow> (byte list \<Rightarrow> byte list) \<Rightarrow> ValidatedFactors option \<Rightarrow> TranscriptError + byte list" where
  "NewCanonicalTranscript assigned nfc f =
     newCanonicalTranscript (Some (\<lambda>pw. map_err Some (Canonicalize assigned nfc pw))) f"

section \<open>The credential inputs\<close>

definition credentialInputDigest :: "(byte list \<Rightarrow> byte list) \<Rightarrow> byte list \<Rightarrow> byte list \<Rightarrow> byte list" where
  "credentialInputDigest sha3_512 domain serialized = sha3_512 (domain @ serialized)"

text \<open>A transcript is a cell that may be empty (closed or consumed); consuming empties it, whatever
  the result.\<close>

definition consumeCanonicalTranscript ::
  "(byte list \<Rightarrow> TranscriptError + 'a) \<Rightarrow> byte list option \<Rightarrow> (TranscriptError + 'a) \<times> byte list option" where
  "consumeCanonicalTranscript callback cell =
     (case cell of
        None \<Rightarrow> (Inl (newTranscriptError TranscriptErrorClosed None 0), None)
      | Some serialized \<Rightarrow>
          (if length serialized < credentialTranscriptFixed \<or> length serialized > maxCredentialTranscript
           then Inl (newTranscriptError TranscriptErrorLength None (length serialized))
           else callback serialized, None))"

definition NewCredentialInputNormal ::
  "(byte list \<Rightarrow> byte list) \<Rightarrow> byte list option \<Rightarrow> (TranscriptError + byte list) \<times> byte list option" where
  "NewCredentialInputNormal sha3_512 =
     consumeCanonicalTranscript (\<lambda>s. Inr (credentialInputDigest sha3_512 normalInputDomain s))"

definition NewD1CredentialInput ::
  "(byte list \<Rightarrow> byte list) \<Rightarrow> byte list option \<Rightarrow> (TranscriptError + byte list) \<times> byte list option" where
  "NewD1CredentialInput sha3_512 =
     consumeCanonicalTranscript (\<lambda>s. Inr (credentialInputDigest sha3_512 outerInputDomain s))"

text \<open>The method \<open>consume\<close> of a normal input: the secret is taken, the callback sees exactly 64
  bytes.\<close>

definition input_consume ::
  "(TranscriptError \<Rightarrow> 'e) \<Rightarrow> (byte list \<Rightarrow> ('w, 'e, 'a) io) \<Rightarrow> byte list option \<Rightarrow> 'w \<Rightarrow>
   (('e + 'a) \<times> byte list option) \<times> 'w" where
  "input_consume closed callback cell w =
     (case cell of
        None \<Rightarrow> ((Inl (closed (newTranscriptError TranscriptErrorClosed None 0)), None), w)
      | Some owned \<Rightarrow>
          if length owned \<noteq> credentialInputBytes
          then ((Inl (closed (newTranscriptError TranscriptErrorClosed None 0)), None), w)
          else (case callback owned w of (r, w) \<Rightarrow> ((r, None), w)))"

section \<open>What a transcript contains\<close>

definition serialize :: "byte \<Rightarrow> byte \<Rightarrow> byte list \<Rightarrow> byte list list \<Rightarrow> byte list" where
  "serialize mode keyfileMode password digests =
     [1, mode, keyfileMode, 0] @ put_u32 (word_of_nat (length password)) @ password @
     put_u16 (word_of_nat (length digests)) @ concat digests"

lemma put_u32_inject [simp]: "put_u32 a = put_u32 b \<longleftrightarrow> a = b"
  by (metis get_put_u32)

lemma word_of_nat_inject_small:
  assumes "m < 2 ^ LENGTH('a)" and "n < 2 ^ LENGTH('a)"
  shows "(word_of_nat m :: 'a::len word) = word_of_nat n \<longleftrightarrow> m = n"
  using assms by (metis mod_less unat_of_nat)

lemma serialize_inject:
  assumes "length p < 2 ^ 32" "length p' < 2 ^ 32" "length ds < 2 ^ 16" "length ds' < 2 ^ 16"
    and "\<forall>d \<in> set ds \<union> set ds'. length d = 32"
  shows "serialize m k p ds = serialize m' k' p' ds' \<longleftrightarrow> m = m' \<and> k = k' \<and> p = p' \<and> ds = ds'"
proof
  assume eq: "serialize m k p ds = serialize m' k' p' ds'"
  let ?tail = "\<lambda>p ds. p @ put_u16 (word_of_nat (length ds)) @ concat ds :: byte list"
  from eq have head: "m = m'" "k = k'" "(word_of_nat (length p) :: u32) = word_of_nat (length p')"
    and tail: "?tail p ds = ?tail p' ds'"
    by (auto simp: serialize_def append_eq_append_conv)
  have len: "length p = length p'" using head(3) assms(1,2) word_of_nat_inject_small [where 'a = 32] by auto
  with tail have p: "p = p'" and "put_u16 (word_of_nat (length ds)) @ concat ds = put_u16 (word_of_nat (length ds')) @ concat ds'"
    by (simp_all add: append_eq_append_conv)
  then have "put_u16 (word_of_nat (length ds)) = put_u16 (word_of_nat (length ds'))" and c: "concat ds = concat ds'"
    by (simp_all add: append_eq_append_conv del: put_u16_inject)
  then have "(word_of_nat (length ds) :: u16) = word_of_nat (length ds')" by simp
  then have l: "length ds = length ds'" using assms(3,4) word_of_nat_inject_small [where 'a = 16] by auto
  have "\<forall>(x, y) \<in> set (zip ds ds'). length x = length y"
    using assms(5) by (metis (mono_tags, lifting) UnCI case_prodI2 set_zip_leftD set_zip_rightD)
  then have "ds = ds'" by (rule concat_injective [OF c l])
  with head p show "m = m' \<and> k = k' \<and> p = p' \<and> ds = ds'" by simp
qed simp

text \<open>The digests in canonical order: sorted, unless the order counts.\<close>

definition canonical_order :: "byte \<Rightarrow> byte list list \<Rightarrow> byte list list" where
  "canonical_order keyfileMode digests = (if keyfileMode = 2 then sort digests else digests)"

lemma emap_digests_Inr:
  "emap (\<lambda>d. case d of None \<Rightarrow> Inl e | Some digest \<Rightarrow> if length digest \<noteq> n then Inl e else Inr digest) ds = Inr xs \<longleftrightarrow>
     ds = map Some xs \<and> (\<forall>x \<in> set xs. length x = n)"
proof (induction ds arbitrary: xs)
  case (Cons d ds)
  then show ?case by (cases d; cases xs) (auto simp: ebind_eq_Inr)
qed auto

definition well_formed_factors :: "ValidatedFactors \<Rightarrow> byte list list \<Rightarrow> bool" where
  "well_formed_factors f xs \<longleftrightarrow>
     acceptable_factors (vf_mode f) (vf_keyfileMode f) (vf_expectedPolicy f) (vf_password f) (length xs) \<and>
     vf_descriptors f = map Some xs \<and> (\<forall>x \<in> set xs. length x = 32) \<and> distinct xs"

lemma acceptable_factors_alt:
  "acceptable_factors (vf_mode f) (vf_keyfileMode f) (vf_expectedPolicy f) (vf_password f)
     (length (vf_descriptors f)) \<longleftrightarrow>
   length (vf_password f) \<le> 1048576 \<and> length (vf_descriptors f) \<le> 64 \<and>
   policyMatchesMode (vf_expectedPolicy f) (vf_mode f) \<and> known_mode (vf_mode f) \<and> mode_fits f"
  unfolding acceptable_factors_def policyMatchesMode_def known_mode_def mode_fits_def Let_def
  by (simp; linarith?; fastforce)

lemma canonicalTranscriptDigests_Inr:
  "canonicalTranscriptDigests (Some f) = Inr ds \<longleftrightarrow>
     (\<exists>xs. well_formed_factors f xs \<and> ds = canonical_order (vf_keyfileMode f) xs)"
  (is "?l \<longleftrightarrow> ?r")
proof -
  let ?pre = "length (vf_password f) \<le> 1048576 \<and> length (vf_descriptors f) \<le> 64 \<and>
     policyMatchesMode (vf_expectedPolicy f) (vf_mode f) \<and> known_mode (vf_mode f) \<and> mode_fits f"
  have dup: "hasDuplicateTranscriptDigest (sortTranscriptDigests xs) \<longleftrightarrow> \<not> distinct xs" for xs
    by (simp add: hasDuplicateTranscriptDigest_def sortTranscriptDigests_def adjacent_duplicate_sorted)
  have "?l \<longleftrightarrow> ?pre \<and> (\<exists>xs. vf_descriptors f = map Some xs \<and> (\<forall>x \<in> set xs. length x = 32) \<and> distinct xs \<and>
      ds = canonical_order (vf_keyfileMode f) xs)"
  proof (cases ?pre)
    case True
    then show ?thesis
      by (simp add: canonicalTranscriptDigests_def Let_def ebind_eq_Inr emap_digests_Inr dup)
        (auto simp: canonical_order_def sortTranscriptDigests_def split: if_splits)
  next
    case False
    then show ?thesis by (auto simp: canonicalTranscriptDigests_def Let_def)
  qed
  moreover have "?pre \<longleftrightarrow> acceptable_factors (vf_mode f) (vf_keyfileMode f) (vf_expectedPolicy f) (vf_password f)
      (length (vf_descriptors f))"
    by (simp only: acceptable_factors_alt)
  ultimately show ?thesis unfolding well_formed_factors_def by (metis length_map)
qed

lemma transcript_length_Inr:
  assumes "p \<le> 1048576" and "n \<le> 64"
  shows "transcript_length p n = Inr (word_of_nat (10 + p + n * 32))"
proof -
  have w: "(10 :: u64) + word_of_nat p = word_of_nat (10 + p)"
    "word_of_nat (10 + p) + word_of_nat (n * 32) = (word_of_nat (10 + p + n * 32) :: u64)"
    "word_of_nat n * 32 = (word_of_nat (n * 32) :: u64)"
    by (simp_all add: algebra_simps)
  have u: "unat (word_of_nat k :: u64) = k" if "k \<le> 2 * 1048576" for k
    using that by (simp add: unat_of_nat)
  have u1: "unat (word_of_nat p :: u64) = p" "unat (word_of_nat (10 + p) :: u64) = 10 + p"
    "unat (word_of_nat (n * 32) :: u64) = n * 32" "unat (word_of_nat (10 + p + n * 32) :: u64) = 10 + p + n * 32"
    using assms by (intro u; simp)+
  have m: "unat (- 1 - (word_of_nat k :: u64)) = 2 ^ 64 - 1 - unat (word_of_nat k :: u64)" for k
    using unat_sub [of "word_of_nat k" "- 1 :: u64"]
    by (simp add: word_order.extremum unsigned_minus_1_eq_mask mask_eq_exp_minus_1)
  have d: "unat (mask 63 :: u64) = 2 ^ 63 - 1" by (simp add: mask_eq_exp_minus_1)
  show ?thesis
    using assms m [of p] m [of "10 + p"] m [of 10]
    by (simp add: transcript_length_def Let_def word_less_nat_alt w u1 d del: of_nat_add of_nat_mult)
qed

text \<open>A transcript is the serialization of an accepted factor set with its canonical password.\<close>

lemma canonical_password_Inr:
  "canonical_password canon p = Inr q \<longleftrightarrow>
     (if p = [] then q = [] else canon p = Inr q \<and> q \<noteq> [] \<and> length q \<le> 1048576)"
  by (auto simp: canonical_password_def split: sum.splits)

lemma well_formed_bounds:
  assumes "well_formed_factors f xs"
  shows "length xs \<le> 64" "length (canonical_order k xs) = length xs" "set (canonical_order k xs) = set xs"
    "\<forall>x \<in> set (canonical_order k xs). length x = 32"
  using assms by (auto simp: well_formed_factors_def acceptable_factors_def canonical_order_def)

lemma newCanonicalTranscript_Inr:
  "newCanonicalTranscript (Some canon) (Some f) = Inr t \<longleftrightarrow>
     (\<exists>xs q. well_formed_factors f xs \<and> canonical_password canon (vf_password f) = Inr q \<and>
        t = serialize (vf_mode f) (vf_keyfileMode f) q (canonical_order (vf_keyfileMode f) xs))"
proof -
  have len: "\<exists>n. transcript_length (length q) (length (canonical_order k xs)) = Inr n"
    if "well_formed_factors f xs" "canonical_password canon (vf_password f) = Inr q" for xs q k
    using that well_formed_bounds [OF that(1)]
    by (auto simp: canonical_password_Inr transcript_length_Inr split: if_splits)
  show ?thesis
    unfolding newCanonicalTranscript_def option.case ebind_eq_Inr canonicalTranscriptDigests_Inr Let_def option.sel
      serialize_def
    using len by (auto simp: eq_commute [of _ t]; blast)
qed

lemma serialize_canonical_inject:
  assumes "well_formed_factors f xs" "well_formed_factors g ys"
    and "canonical_password canon (vf_password f) = Inr p" "canonical_password canon' (vf_password g) = Inr q"
  shows "serialize m k p (canonical_order k xs) = serialize m' k' q (canonical_order k' ys) \<longleftrightarrow>
     m = m' \<and> k = k' \<and> p = q \<and> canonical_order k xs = canonical_order k' ys"
proof (rule serialize_inject)
  show "length p < 2 ^ 32" "length q < 2 ^ 32"
    using assms(3,4) by (auto simp: canonical_password_Inr split: if_splits)
  show "length (canonical_order k xs) < 2 ^ 16" "length (canonical_order k' ys) < 2 ^ 16"
    "\<forall>d \<in> set (canonical_order k xs) \<union> set (canonical_order k' ys). length d = 32"
    using well_formed_bounds [OF assms(1)] well_formed_bounds [OF assms(2)] by auto
qed

definition same_digests :: "byte \<Rightarrow> byte list list \<Rightarrow> byte list list \<Rightarrow> bool" where
  "same_digests keyfileMode xs ys \<longleftrightarrow> (if keyfileMode = 2 then mset xs = mset ys else xs = ys)"

lemma canonical_order_eq: "canonical_order k xs = canonical_order k ys \<longleftrightarrow> same_digests k xs ys"
proof -
  have "sort xs = sort ys \<longleftrightarrow> mset xs = mset ys"
    by (metis mset_sort properties_for_sort sorted_sort)
  then show ?thesis by (simp add: canonical_order_def same_digests_def)
qed

lemma transcripts_equal:
  assumes "newCanonicalTranscript (Some canon) (Some f) = Inr s"
    and "newCanonicalTranscript (Some canon') (Some g) = Inr t"
  shows "s = t \<longleftrightarrow> vf_mode f = vf_mode g \<and> vf_keyfileMode f = vf_keyfileMode g \<and>
     canonical_password canon (vf_password f) = canonical_password canon' (vf_password g) \<and>
     (if vf_keyfileMode f = KeyfileModeUnordered then mset (vf_descriptors f) = mset (vf_descriptors g)
      else vf_descriptors f = vf_descriptors g)"
proof -
  obtain xs p where f: "well_formed_factors f xs" "canonical_password canon (vf_password f) = Inr p"
    "s = serialize (vf_mode f) (vf_keyfileMode f) p (canonical_order (vf_keyfileMode f) xs)"
    using assms(1) newCanonicalTranscript_Inr by blast
  obtain ys q where g: "well_formed_factors g ys" "canonical_password canon' (vf_password g) = Inr q"
    "t = serialize (vf_mode g) (vf_keyfileMode g) q (canonical_order (vf_keyfileMode g) ys)"
    using assms(2) newCanonicalTranscript_Inr by blast
  have d: "vf_descriptors f = map Some xs" "vf_descriptors g = map Some ys"
    using f(1) g(1) by (simp_all add: well_formed_factors_def)
  have "mset (map Some xs) = mset (map Some ys) \<longleftrightarrow> mset xs = mset ys"
  proof
    assume "mset (map Some xs) = mset (map Some ys)"
    then have "mset (map the (map Some xs)) = mset (map the (map Some ys))" by (metis mset_map)
    then show "mset xs = mset ys" by (simp add: comp_def)
  qed simp
  moreover have "map Some xs = map Some ys \<longleftrightarrow> xs = ys" by (simp add: inj_map_eq_map)
  ultimately show ?thesis
    unfolding f(3) g(3) serialize_canonical_inject [OF f(1) g(1) f(2) g(2)] d f(2) g(2)
    by (auto simp: canonical_order_eq same_digests_def)
qed

text \<open>The factors that \<open>withValidatedFactors\<close> lends have a transcript unless the password has no
  canonical form.\<close>

lemma loaned_well_formed:
  assumes "acceptable_factors (fr_Mode q) (fr_KeyfileMode q) (fr_ExpectedPolicy q) (fr_Password q) (length cs)"
    and "distinct (map (keyfile_digest sha3) cs)" and "\<And>x. length (sha3 x) = 32"
  shows "well_formed_factors (loaned q sha3 cs) (map (keyfile_digest sha3) cs)"
  using assms by (auto simp: well_formed_factors_def loaned_def keyfile_digest_def)

section \<open>Properties\<close>

text \<open>C11: a transcript identifies a credential. Two accepted factor sets have the same transcript
  exactly when they agree in the credential mode, in the keyfile mode, in the canonical form of
  the password, and in the keyfile digests: as a sequence where the order counts, as a multiset
  where it does not.
\<close>

lemma transcript_identifies_credential:
  assumes "newCanonicalTranscript (Some canon) (Some f) = Inr s"
    and "newCanonicalTranscript (Some canon') (Some g) = Inr t"
  shows "s = t \<longleftrightarrow> vf_mode f = vf_mode g \<and> vf_keyfileMode f = vf_keyfileMode g \<and>
     canonical_password canon (vf_password f) = canonical_password canon' (vf_password g) \<and>
     (if vf_keyfileMode f = KeyfileModeUnordered then mset (vf_descriptors f) = mset (vf_descriptors g)
      else vf_descriptors f = vf_descriptors g)"
  by (rule transcripts_equal [OF assms])

text \<open>Two keyfiles in either order, with a password that is its own canonical form.\<close>

definition demo_factors :: "byte \<Rightarrow> byte \<Rightarrow> byte \<Rightarrow> ValidatedFactors" where
  "demo_factors keyfileMode a b = \<lparr>vf_mode = 3, vf_keyfileMode = keyfileMode, vf_expectedPolicy = 3,
     vf_password = [112, 119], vf_descriptors = [Some (replicate 32 a), Some (replicate 32 b)]\<rparr>"

lemma demo_transcript:
  assumes "k = 1 \<or> k = 2" and "a \<noteq> b"
  obtains t where "newCanonicalTranscript (Some Inr) (Some (demo_factors k a b)) = Inr t"
proof -
  have "well_formed_factors (demo_factors k a b) [replicate 32 a, replicate 32 b]"
    using assms by (auto simp: well_formed_factors_def demo_factors_def acceptable_factors_def replicate_eq_replicate)
  moreover have "canonical_password Inr (vf_password (demo_factors k a b)) = Inr [112, 119]"
    by (simp add: demo_factors_def canonical_password_def)
  ultimately show thesis using that newCanonicalTranscript_Inr by blast
qed

lemma transcript_identifies_credential_witness:
  "(\<exists>t. newCanonicalTranscript (Some Inr) (Some (demo_factors 2 1 2)) = Inr t \<and>
        newCanonicalTranscript (Some Inr) (Some (demo_factors 2 2 1)) = Inr t) \<and>
   newCanonicalTranscript (Some Inr) (Some (demo_factors 1 1 2)) \<noteq>
   newCanonicalTranscript (Some Inr) (Some (demo_factors 1 2 1))"
proof -
  have n: "(1 :: byte) \<noteq> 2" "(2 :: byte) \<noteq> 1" by simp_all
  obtain s t where st: "newCanonicalTranscript (Some Inr) (Some (demo_factors 2 1 2)) = Inr s"
    "newCanonicalTranscript (Some Inr) (Some (demo_factors 2 2 1)) = Inr t"
    using demo_transcript [of 2] n by metis
  obtain s' t' where st': "newCanonicalTranscript (Some Inr) (Some (demo_factors 1 1 2)) = Inr s'"
    "newCanonicalTranscript (Some Inr) (Some (demo_factors 1 2 1)) = Inr t'"
    using demo_transcript [of 1] n by metis
  have "s = t" using transcript_identifies_credential [OF st] by (simp add: demo_factors_def add_mset_commute)
  moreover have "s' \<noteq> t'" using transcript_identifies_credential [OF st'] by (simp add: demo_factors_def replicate_eq_replicate)
  ultimately show ?thesis using st st' by auto
qed

end
