(* ===== verification/Credential_Kdf.thy ===== *)
theory Credential_Kdf
  imports Transcript
begin

text \<open>
  The fixed key derivation of PCV3 (\<open>pcv3credential/kdf.go\<close>): the profile of a suite, the lease of
  the process, the admission of the resources, and the derivation itself. Argon2id is a
  parameter. Every derivation leaves its events in the world: the lease taken, the profile
  submitted, the derivation, the lease given back.
\<close>

section \<open>Profiles and errors\<close>

abbreviation (input) kdfSaltBytes :: nat where "kdfSaltBytes \<equiv> 16"
abbreviation (input) credentialRootBytes :: nat where "credentialRootBytes \<equiv> 32"
abbreviation (input) SuiteStandard1 :: u16 where "SuiteStandard1 \<equiv> 1"
abbreviation (input) SuiteParanoid1 :: u16 where "SuiteParanoid1 \<equiv> 2"

datatype KDFAdmission =
    KDFAdmissionUnknown | KDFAdmissionGranted | KDFAdmissionDenied
  | KDFAdmissionDeniedInsufficient | KDFAdmissionDeniedUnknown

datatype KDFErrorCode =
    KDFErrorInvalidRequest | KDFErrorInvalidSuite | KDFErrorInvalidInput | KDFErrorInvalidSalt
  | KDFErrorAdmission | KDFErrorCancelled | KDFErrorDerivation | KDFErrorOutput

record KDFError =
  ke_Code :: KDFErrorCode
  ke_Suite :: u16

definition newKDFError :: "KDFErrorCode \<Rightarrow> u16 \<Rightarrow> KDFError" where
  "newKDFError code suite = \<lparr>ke_Code = code, ke_Suite = suite\<rparr>"

definition fixedProfileForSuite :: "u16 \<Rightarrow> KDFError + KDFProfile" where
  "fixedProfileForSuite suite =
     (if suite = SuiteStandard1 then
        Inr \<lparr>kp_ID = 1, kp_Argon2Version = 0x13, kp_Time = 4, kp_MemoryKiB = 1048576,
             kp_Parallelism = 4, kp_SaltBytes = 16, kp_OutputBytes = 32\<rparr>
      else if suite = SuiteParanoid1 then
        Inr \<lparr>kp_ID = 2, kp_Argon2Version = 0x13, kp_Time = 8, kp_MemoryKiB = 1048576,
             kp_Parallelism = 8, kp_SaltBytes = 16, kp_OutputBytes = 32\<rparr>
      else Inl (newKDFError KDFErrorInvalidSuite suite))"

text \<open>A deriver returns bytes even beside an error; \<open>None\<close> is the nil slice with an error. An
  admitter answers by the number of calls made before.\<close>

type_synonym kdfDeriver = "byte list \<Rightarrow> byte list \<Rightarrow> KDFProfile \<Rightarrow> byte list \<times> cause option"
type_synonym Admitter = "nat \<Rightarrow> KDFProfile \<Rightarrow> KDFAdmission \<times> cause option"

text \<open>\<open>deriveArgon2ID\<close> over \<open>argon2.IDKey\<close>; the built-in version is 0x13.\<close>

definition deriveArgon2ID ::
  "(byte list \<Rightarrow> byte list \<Rightarrow> u32 \<Rightarrow> u32 \<Rightarrow> byte \<Rightarrow> u32 \<Rightarrow> byte list) \<Rightarrow> byte \<Rightarrow> kdfDeriver" where
  "deriveArgon2ID IDKey version input salt profile =
     (if kp_Argon2Version profile \<noteq> version then ([], Some (External 0))
      else (IDKey input salt (kp_Time profile) (kp_MemoryKiB profile) (kp_Parallelism profile)
              (kp_OutputBytes profile), None))"

section \<open>The derivation\<close>

definition log_event :: "kdf_event \<Rightarrow> (credential_world, 'e, unit) io" where
  "log_event e = (\<lambda>w. (Inr (), w\<lparr>cw_events := cw_events w @ [e]\<rparr>))"

text \<open>The \<open>select\<close> over the lease and \<open>ctx.Done()\<close>.\<close>

definition acquire_lease :: "'e \<Rightarrow> (credential_world, 'e, unit) io" where
  "acquire_lease e = (\<lambda>w.
     if cw_lease w (cw_tick w)
     then log_event Acquired (w\<lparr>cw_tick := cw_tick w + 1\<rparr>)
     else (Inl e, w\<lparr>cw_tick := cw_tick w + 1\<rparr>))"

text \<open>The deferred release runs on every exit.\<close>

definition with_lease :: "(credential_world, 'e, 'a) io \<Rightarrow> (credential_world, 'e, 'a) io" where
  "with_lease m = (\<lambda>w. case m w of (r, w) \<Rightarrow> (r, w\<lparr>cw_events := cw_events w @ [Released]\<rparr>))"

definition admit :: "Admitter \<Rightarrow> KDFProfile \<Rightarrow> (credential_world, 'e, KDFAdmission \<times> cause option) io" where
  "admit admitter profile = (\<lambda>w.
     (Inr (admitter (cw_tick w) profile),
      w\<lparr>cw_tick := cw_tick w + 1, cw_events := cw_events w @ [Admission profile]\<rparr>))"

definition leased_derivation ::
  "byte list \<Rightarrow> byte list \<Rightarrow> u16 \<Rightarrow> KDFProfile \<Rightarrow> Admitter \<Rightarrow> kdfDeriver \<Rightarrow>
   (credential_world, KDFError, byte list) io" where
  "leased_derivation input salt suite profile admitter derive =
     io_bind (cpoll (newKDFError KDFErrorCancelled suite)) (\<lambda>_.
     io_bind (admit admitter profile) (\<lambda>(admission, admissionErr).
     io_bind (cpoll (newKDFError KDFErrorCancelled suite)) (\<lambda>_.
     if admissionErr \<noteq> None \<or> admission \<noteq> KDFAdmissionGranted
     then io_fail (newKDFError KDFErrorAdmission suite)
     else
       io_bind (log_event (Derivation profile)) (\<lambda>_.
       let (returned, deriveErr) = derive input (fit kdfSaltBytes salt) profile in
       io_bind (cpoll (newKDFError KDFErrorCancelled suite)) (\<lambda>_.
       if deriveErr \<noteq> None then io_fail (newKDFError KDFErrorDerivation suite)
       else if length returned \<noteq> unat (kp_OutputBytes profile)
       then io_fail (newKDFError KDFErrorOutput suite)
       else io_ret (fit credentialRootBytes returned))))))"

definition runProfileKDFBorrowed ::
  "byte list \<Rightarrow> byte list \<Rightarrow> u16 \<Rightarrow> KDFProfile \<Rightarrow> Admitter option \<Rightarrow> kdfDeriver option \<Rightarrow>
   (credential_world, KDFError, byte list) io" where
  "runProfileKDFBorrowed input salt suite profile admitter derive = (\<lambda>w.
     if cw_ctx w = None \<or> admitter = None \<or> derive = None
     then (Inl (newKDFError KDFErrorInvalidRequest suite), w)
     else if length input \<noteq> credentialInputBytes then (Inl (newKDFError KDFErrorInvalidInput suite), w)
     else if length salt \<noteq> unat (kp_SaltBytes profile) then (Inl (newKDFError KDFErrorInvalidSalt suite), w)
     else
       io_bind (cpoll (newKDFError KDFErrorCancelled suite)) (\<lambda>_.
       io_bind (acquire_lease (newKDFError KDFErrorCancelled suite)) (\<lambda>_.
       with_lease (leased_derivation input salt suite profile (the admitter) (the derive)))) w)"

definition runFixedProfileKDFBorrowed ::
  "byte list \<Rightarrow> byte list \<Rightarrow> u16 \<Rightarrow> Admitter option \<Rightarrow> kdfDeriver option \<Rightarrow>
   (credential_world, KDFError, byte list) io" where
  "runFixedProfileKDFBorrowed input salt suite admitter derive =
     io_bind (io_lift (fixedProfileForSuite suite)) (\<lambda>profile.
       runProfileKDFBorrowed input salt suite profile admitter derive)"

text \<open>A credential root is the secret it owns.\<close>

definition runCredentialKDFBorrowed ::
  "byte list \<Rightarrow> byte list \<Rightarrow> u16 \<Rightarrow> Admitter option \<Rightarrow> kdfDeriver option \<Rightarrow>
   (credential_world, KDFError, byte list) io" where
  "runCredentialKDFBorrowed normalInput salt suite admitter derive =
     runFixedProfileKDFBorrowed normalInput salt suite admitter derive"

definition runCredentialKDF ::
  "byte list option \<Rightarrow> byte list \<Rightarrow> u16 \<Rightarrow> Admitter option \<Rightarrow> kdfDeriver option \<Rightarrow>
   (credential_world, KDFError, byte list) io" where
  "runCredentialKDF cell salt suite admitter derive = (\<lambda>w.
     case input_consume (\<lambda>_. newKDFError KDFErrorInvalidInput suite)
            (\<lambda>normalInput. runCredentialKDFBorrowed normalInput salt suite admitter derive) cell w of
       ((r, _), w) \<Rightarrow> (r, w))"

section \<open>What a run of the derivation leaves behind\<close>

text \<open>Only the clock and the events move.\<close>

definition events_only :: "kdf_event list \<Rightarrow> credential_world \<Rightarrow> credential_world \<Rightarrow> bool" where
  "events_only es w w' \<longleftrightarrow>
     cw_ctx w' = cw_ctx w \<and> cw_readers w' = cw_readers w \<and> cw_closes w' = cw_closes w \<and>
     cw_entropy w' = cw_entropy w \<and> cw_events w' = cw_events w @ es \<and> cw_lease w' = cw_lease w"

lemma events_only_fields:
  assumes "events_only es w w'"
  shows "cw_ctx w' = cw_ctx w" "cw_readers w' = cw_readers w" "cw_closes w' = cw_closes w"
    "cw_entropy w' = cw_entropy w" "cw_events w' = cw_events w @ es" "cw_lease w' = cw_lease w"
  using assms by (auto simp: events_only_def)

text \<open>The events of one run: none, or the lease around at most one submission and one derivation.\<close>

definition kdf_events :: "KDFProfile \<Rightarrow> kdf_event list set" where
  "kdf_events profile =
     {[], [Acquired, Released], [Acquired, Admission profile, Released],
      [Acquired, Admission profile, Derivation profile, Released]}"

lemma events_only_append: "events_only es w w' \<Longrightarrow> events_only fs w' w'' \<Longrightarrow> events_only (es @ fs) w w''"
  by (auto simp: events_only_def)

lemma leased_derivation_runs:
  assumes "leased_derivation input salt suite profile admitter derive w = (r, w')"
  shows "\<exists>es \<in> {[], [Admission profile], [Admission profile, Derivation profile]}. events_only es w w' \<and>
    (Derivation profile \<in> set es \<longrightarrow> (\<exists>t. admitter t profile = (KDFAdmissionGranted, None))) \<and>
    (\<forall>root. r = Inr root \<longrightarrow> es = [Admission profile, Derivation profile] \<and>
       derive input (fit 16 salt) profile = (fst (derive input (fit 16 salt) profile), None) \<and>
       length (fst (derive input (fit 16 salt) profile)) = unat (kp_OutputBytes profile) \<and>
       root = fit 32 (fst (derive input (fit 16 salt) profile)))"
proof -
  obtain returned err where d: "derive input (fit 16 salt) profile = (returned, err)" by force
  show ?thesis
    using assms
    by (auto simp: leased_derivation_def io_bind_def cpoll_def ctx_cancelled_def admit_def log_event_def d
        events_only_def split: if_splits prod.splits)
qed


text \<open>
  A run takes the lease before it asks for admission, derives only after it, and gives the lease
  back whatever happens. A result is the deriver's output for exactly the given input and salt
  under the profile.
\<close>

lemma runProfileKDFBorrowed_runs:
  assumes run: "runProfileKDFBorrowed input salt suite profile admitter derive w = (r, w')"
  shows "\<exists>es \<in> kdf_events profile. events_only es w w' \<and>
    (Derivation profile \<in> set es \<longrightarrow> (\<exists>a t. admitter = Some a \<and> a t profile = (KDFAdmissionGranted, None))) \<and>
    (\<forall>root. r = Inr root \<longrightarrow> last es = Released \<and> Derivation profile \<in> set es \<and>
       length input = 64 \<and> length salt = unat (kp_SaltBytes profile) \<and>
       (\<exists>d out. derive = Some d \<and> d input (fit 16 salt) profile = (out, None) \<and>
          length out = unat (kp_OutputBytes profile) \<and> root = fit 32 out))"
proof (cases "cw_ctx w = None \<or> admitter = None \<or> derive = None \<or> length input \<noteq> 64 \<or>
    length salt \<noteq> unat (kp_SaltBytes profile)")
  case True
  with run have "(\<forall>root. r \<noteq> Inr root) \<and> events_only [] w w'"
    by (auto simp: runProfileKDFBorrowed_def events_only_def split: if_splits)
  then show ?thesis by (auto simp: kdf_events_def)
next
  case False
  let ?e = "newKDFError KDFErrorCancelled suite"
  obtain ad d where ad: "admitter = Some ad" and d: "derive = Some d" using False by auto
  obtain c w1 where poll: "ctx_cancelled w = (c, w1)" by force
  then have e1: "events_only [] w w1" by (auto simp: ctx_cancelled_def events_only_def)
  have r: "(if c then (Inl ?e, w1)
      else io_bind (acquire_lease ?e) (\<lambda>_. with_lease (leased_derivation input salt suite profile ad d)) w1) = (r, w')"
    using run False poll ad d by (auto simp: runProfileKDFBorrowed_def io_bind_def cpoll_def split: if_splits)
  show ?thesis
  proof (cases "c \<or> \<not> cw_lease w1 (cw_tick w1)")
    case True
    with r e1 have "(\<forall>root. r \<noteq> Inr root) \<and> events_only [] w w'"
      by (auto simp: io_bind_def acquire_lease_def events_only_def split: if_splits)
    then show ?thesis by (auto simp: kdf_events_def)
  next
    case got: False
    let ?w2 = "w1\<lparr>cw_tick := cw_tick w1 + 1, cw_events := cw_events w1 @ [Acquired]\<rparr>"
    obtain s w3 where leased: "leased_derivation input salt suite profile ad d ?w2 = (s, w3)"
      by force
    with r got have rs: "r = s" "w' = w3\<lparr>cw_events := cw_events w3 @ [Released]\<rparr>"
      by (auto simp: io_bind_def acquire_lease_def log_event_def with_lease_def)
    obtain es where es: "es \<in> {[], [Admission profile], [Admission profile, Derivation profile]}"
      and only: "events_only es ?w2 w3"
      and granted: "Derivation profile \<in> set es \<Longrightarrow> \<exists>t. ad t profile = (KDFAdmissionGranted, None)"
      and root: "\<And>root. s = Inr root \<Longrightarrow> es = [Admission profile, Derivation profile] \<and>
        d input (fit 16 salt) profile = (fst (d input (fit 16 salt) profile), None) \<and>
        length (fst (d input (fit 16 salt) profile)) = unat (kp_OutputBytes profile) \<and>
        root = fit 32 (fst (d input (fit 16 salt) profile))"
      using leased_derivation_runs [OF leased] by blast
    have "events_only ([Acquired] @ es @ [Released]) w w'"
      using e1 only rs(2) by (simp add: events_only_def)
    moreover have "[Acquired] @ es @ [Released] \<in> kdf_events profile" using es by (auto simp: kdf_events_def)
    ultimately show ?thesis
      using False root rs(1) d ad granted
      by (intro bexI [of _ "[Acquired] @ es @ [Released]"]) (auto simp del: append_Cons dest!: root)
  qed
qed

text \<open>In a world that does not interfere the run succeeds.\<close>

definition derives :: "kdfDeriver \<Rightarrow> byte list \<Rightarrow> byte list \<Rightarrow> KDFProfile \<Rightarrow> byte list \<Rightarrow> bool" where
  "derives d input salt profile root \<longleftrightarrow>
     d input salt profile = (root, None) \<and> length root = 32"

lemma fixedProfileForSuite_Inr:
  assumes "fixedProfileForSuite suite = Inr profile"
  shows "suite = 1 \<or> suite = 2" "kp_SaltBytes profile = 16" "kp_OutputBytes profile = 32"
    "kp_MemoryKiB profile = 1048576" "kp_Argon2Version profile = 0x13"
  using assms by (auto simp: fixedProfileForSuite_def split: if_splits)

lemma runProfileKDFBorrowed_completes:
  assumes "ctx_quiet w" and "\<forall>t. cw_lease w t" and "length input = 64" and "length salt = 16"
    and "kp_SaltBytes profile = 16" and "kp_OutputBytes profile = 32"
    and "\<forall>t. admitter t profile = (KDFAdmissionGranted, None)" and "derives d input salt profile root"
  shows "\<exists>w'. runProfileKDFBorrowed input salt suite profile (Some admitter) (Some d) w = (Inr root, w') \<and>
    events_only [Acquired, Admission profile, Derivation profile, Released] w w'"
  using assms
  by (auto simp: runProfileKDFBorrowed_def leased_derivation_def io_bind_def cpoll_def ctx_cancelled_def
      ctx_quiet_def acquire_lease_def log_event_def with_lease_def admit_def derives_def Let_def fit_exact events_only_def)

section \<open>Derivation under the lease\<close>

lemma runCredentialKDF_unfold:
  assumes "runCredentialKDF cell salt suite admitter derive w = (r, w')"
  obtains (early) e where "r = Inl e" "w' = w"
  | (ran) input profile where "cell = Some input" "length input = 64" "fixedProfileForSuite suite = Inr profile"
      "runProfileKDFBorrowed input salt suite profile admitter derive w = (r, w')"
proof (cases cell)
  case None
  with assms show thesis by (intro early) (auto simp: runCredentialKDF_def input_consume_def)
next
  case (Some input)
  show thesis
  proof (cases "length input = 64 \<and> (\<exists>profile. fixedProfileForSuite suite = Inr profile)")
    case True
    then obtain profile where p: "fixedProfileForSuite suite = Inr profile" "length input = 64" by blast
    with assms Some have "runProfileKDFBorrowed input salt suite profile admitter derive w = (r, w')"
      by (auto simp: runCredentialKDF_def input_consume_def runCredentialKDFBorrowed_def runFixedProfileKDFBorrowed_def
          io_bind_def io_lift_def split: prod.splits)
    then show thesis by (rule ran [OF Some p(2,1)])
  next
    case False
    with assms Some have "(\<exists>e. r = Inl e) \<and> w' = w"
      by (cases "fixedProfileForSuite suite") (auto simp: runCredentialKDF_def input_consume_def
          runCredentialKDFBorrowed_def runFixedProfileKDFBorrowed_def io_bind_def io_lift_def split: if_splits prod.splits)
    then show thesis using early by blast
  qed
qed

text \<open>C14: The memory-hard derivation is serialized and admitted. Whatever the context, the lease, the
  admitter and the deriver do, a run of \<open>runCredentialKDF\<close> leaves one of four traces: nothing, or the
  lease taken, at most one question to the admitter, at most one derivation, and the lease given
  back, with nothing after it. A derivation runs only if the admitter granted the fixed profile of
  the suite without an error. A root is the output of the deriver on exactly the 64 bytes of input
  and the 16 bytes of salt under that profile.
\<close>

lemma kdf_runs_under_lease:
  assumes "runCredentialKDF cell salt suite admitter derive w = (r, w')"
  shows "\<exists>es. cw_events w' = cw_events w @ es \<and>
      (es = [] \<or> (\<exists>profile. fixedProfileForSuite suite = Inr profile \<and>
         (es = [Acquired, Released] \<or> es = [Acquired, Admission profile, Released] \<or>
          es = [Acquired, Admission profile, Derivation profile, Released] \<and>
            (\<exists>a t. admitter = Some a \<and> a t profile = (KDFAdmissionGranted, None))))) \<and>
      (\<forall>root. r = Inr root \<longrightarrow>
         (\<exists>profile input d. fixedProfileForSuite suite = Inr profile \<and> cell = Some input \<and> derive = Some d \<and>
            es = [Acquired, Admission profile, Derivation profile, Released] \<and>
            length input = 64 \<and> length salt = 16 \<and> length root = 32 \<and> d input salt profile = (root, None)))"
  using assms
proof (cases rule: runCredentialKDF_unfold)
  case (ran input profile)
  from runProfileKDFBorrowed_runs [OF ran(4)] obtain es where es: "es \<in> kdf_events profile" "events_only es w w'"
    and granted: "Derivation profile \<in> set es \<Longrightarrow> \<exists>a t. admitter = Some a \<and> a t profile = (KDFAdmissionGranted, None)"
    and root: "\<And>root. r = Inr root \<Longrightarrow> Derivation profile \<in> set es \<and> length salt = unat (kp_SaltBytes profile) \<and>
       (\<exists>d out. derive = Some d \<and> d input (fit 16 salt) profile = (out, None) \<and>
          length out = unat (kp_OutputBytes profile) \<and> root = fit 32 out)"
    by blast
  have "fixedProfileForSuite suite = Inr profile \<and> cell = Some input \<and>
      es = [Acquired, Admission profile, Derivation profile, Released] \<and>
      length input = 64 \<and> length salt = 16 \<and> length x = 32 \<and> (\<exists>d. derive = Some d \<and> d input salt profile = (x, None))"
    if "r = Inr x" for x
    using root [OF that] ran(1-3) fixedProfileForSuite_Inr [OF ran(3)] es(1) by (auto simp: kdf_events_def fit_exact)
  moreover have "es = [] \<or> es = [Acquired, Released] \<or> es = [Acquired, Admission profile, Released] \<or>
      es = [Acquired, Admission profile, Derivation profile, Released] \<and>
        (\<exists>a t. admitter = Some a \<and> a t profile = (KDFAdmissionGranted, None))"
    using es(1) granted by (auto simp: kdf_events_def)
  ultimately show ?thesis
    using es(2) ran(3) by (intro exI [of _ es]) (auto simp: events_only_def)
qed auto

definition demo_kdf :: kdfDeriver where
  "demo_kdf input salt profile = (fit 32 (input @ salt), None)"

lemma kdf_runs_under_lease_witness:
  "\<exists>root w' profile. runCredentialKDF (Some (replicate 64 1)) (replicate 16 2) 2
      (Some (\<lambda>t profile. (KDFAdmissionGranted, None))) (Some demo_kdf) demo_world = (Inr root, w') \<and>
    cw_events w' = [Acquired, Admission profile, Derivation profile, Released] \<and> root = replicate 32 1"
proof -
  let ?run = "runCredentialKDF (Some (replicate 64 1)) (replicate 16 2) 2
      (Some (\<lambda>t profile. (KDFAdmissionGranted, None))) (Some demo_kdf) demo_world"
  obtain p where p: "fixedProfileForSuite 2 = Inr p" by (simp add: fixedProfileForSuite_def)
  have q: "ctx_quiet demo_world" "\<forall>t. cw_lease demo_world t"
    by (simp_all add: demo_world_def ctx_quiet_def)
  have d: "derives demo_kdf (replicate 64 1) (replicate 16 2) p (replicate 32 1)"
    by (simp add: derives_def demo_kdf_def fit_def)
  have len: "length (replicate 64 (1::byte)) = 64" "length (replicate 16 (2::byte)) = 16" by simp_all
  from runProfileKDFBorrowed_completes [OF q len fixedProfileForSuite_Inr(2,3) [OF p] _ d,
      of "\<lambda>t profile. (KDFAdmissionGranted, None)" 2]
  obtain w' where "runProfileKDFBorrowed (replicate 64 1) (replicate 16 2) 2 p
      (Some (\<lambda>t profile. (KDFAdmissionGranted, None))) (Some demo_kdf) demo_world = (Inr (replicate 32 1), w')"
    by auto
  then have run: "?run = (Inr (replicate 32 1), w')"
    by (simp add: runCredentialKDF_def input_consume_def runCredentialKDFBorrowed_def runFixedProfileKDFBorrowed_def
        io_bind_def io_lift_def p)
  have "cw_events demo_world = []" by (simp add: demo_world_def)
  with run kdf_runs_under_lease [OF run] show ?thesis by auto
qed

end
