(* ===== verification/Owner.thy ===== *)
theory Owner
  imports Credential_Kdf
begin

text \<open>
  The owner of one complete key set (\<open>pcv3credential/owner.go\<close>): what it admits, the loan of its
  keys to a callback, copying, and closing. First the operations one caller sees, then the
  interleavings of several callers and one closer under the read-write lock, as a step relation.
\<close>

abbreviation (input) scheduleVolumeIDBytes :: nat where "scheduleVolumeIDBytes \<equiv> 32"

record OwnerMetadata =
  om_Suite :: u16
  om_ExpectedPolicy :: byte
  om_CredentialMode :: byte
  om_KeyfileMode :: byte
  om_KeyfileCount :: u16
  om_ArgonSalt :: "byte list"
  om_VolumeID :: "byte list"

datatype OwnerErrorCode =
    OwnerErrorInvalidRequest | OwnerErrorClosed | OwnerErrorBorrowExpired | OwnerErrorDestination
  | OwnerErrorUnknownKey | OwnerErrorCallback | OwnerErrorCancelled

record OwnerError =
  oe_Code :: OwnerErrorCode

definition newOwnerError :: "OwnerErrorCode \<Rightarrow> OwnerError" where
  "newOwnerError code = \<lparr>oe_Code = code\<rparr>"

section \<open>Admission\<close>

definition validOwnerMetadata :: "OwnerMetadata \<Rightarrow> bool" where
  "validOwnerMetadata metadata \<longleftrightarrow>
     (om_Suite metadata = SuiteStandard1 \<or> om_Suite metadata = SuiteParanoid1) \<and>
     validFactorPolicy (om_ExpectedPolicy metadata) \<and>
     policyMatchesMode (om_ExpectedPolicy metadata) (om_CredentialMode metadata) \<and>
     validCredentialFactors (om_CredentialMode metadata) (om_KeyfileMode metadata) (om_KeyfileCount metadata)"

text \<open>A secret owner with a secret of 32 bytes in it.\<close>

definition holds_secret :: "secret_ref \<Rightarrow> bool" where
  "holds_secret ref \<longleftrightarrow> (case ref of Some (Some bytes) \<Rightarrow> length bytes = 32 | _ \<Rightarrow> False)"

definition validOwnerMaterial :: "OwnerMetadata \<Rightarrow> keyMaterial option \<Rightarrow> bool" where
  "validOwnerMaterial metadata m \<longleftrightarrow>
     (case m of
        None \<Rightarrow> False
      | Some material \<Rightarrow>
          holds_secret (km_credentialRoot material) \<and> holds_secret (km_volumeKey material) \<and>
          (case km_credentialPRK material of None \<Rightarrow> False | Some prk \<Rightarrow> length prk = 32) \<and>
          (case km_volumePRK material of None \<Rightarrow> False | Some prk \<Rightarrow> length prk = 32) \<and>
          km_keys material \<noteq> [] \<and>
          list_all (\<lambda>(row, secret). row_suite row = om_Suite metadata \<and>
              (case secret of None \<Rightarrow> False | Some bytes \<Rightarrow> length bytes = 32)) (km_keys material))"

text \<open>A loan is the state behind a \<open>BorrowedKeys\<close>; a handle is its position in the list of loans.\<close>

record borrowedKeysState =
  bk_material :: "keyMaterial option"
  bk_active :: bool

record ownerState =
  os_metadata :: OwnerMetadata
  os_material :: "keyMaterial option"
  os_closing :: bool
  os_loans :: "borrowedKeysState list"

definition newOwner :: "OwnerMetadata \<Rightarrow> keyMaterial option \<Rightarrow> OwnerError + ownerState" where
  "newOwner metadata material =
     (if \<not> validOwnerMetadata metadata \<or> \<not> validOwnerMaterial metadata material
      then Inl (newOwnerError OwnerErrorInvalidRequest)
      else Inr \<lparr>os_metadata = metadata, os_material = material, os_closing = False, os_loans = []\<rparr>)"

definition zeroOwnerMetadata :: OwnerMetadata where
  "zeroOwnerMetadata = \<lparr>om_Suite = 0, om_ExpectedPolicy = 0, om_CredentialMode = 0, om_KeyfileMode = 0,
     om_KeyfileCount = 0, om_ArgonSalt = replicate 16 0, om_VolumeID = replicate 32 0\<rparr>"

text \<open>The method \<open>Metadata\<close>; a nil owner has the zero value.\<close>

definition owner_Metadata :: "ownerState option \<Rightarrow> OwnerMetadata" where
  "owner_Metadata owner = (case owner of None \<Rightarrow> zeroOwnerMetadata | Some state \<Rightarrow> os_metadata state)"

section \<open>Copying keys\<close>

text \<open>The results are the bytes copied into a destination of the given length.\<close>

definition loan_material :: "borrowedKeysState option \<Rightarrow> keyMaterial option" where
  "loan_material loan =
     (case loan of None \<Rightarrow> None | Some state \<Rightarrow> if \<not> bk_active state then None else bk_material state)"

definition CopyVolumeKey :: "borrowedKeysState option \<Rightarrow> nat \<Rightarrow> OwnerError + byte list" where
  "CopyVolumeKey keys destination =
     (case Option.bind (loan_material keys) (\<lambda>m. Option.bind (km_volumeKey m) id) of
        None \<Rightarrow> Inl (newOwnerError OwnerErrorBorrowExpired)
      | Some secret \<Rightarrow>
          if destination \<noteq> derivedKeyBytes then Inl (newOwnerError OwnerErrorDestination)
          else Inr (fit destination secret))"

definition find_key :: "(scheduleRow \<Rightarrow> bool) \<Rightarrow> (scheduleRow \<times> byte list option) list \<Rightarrow> byte list option" where
  "find_key P keys = Option.bind (find (\<lambda>(row, secret). P row \<and> secret \<noteq> None) keys) snd"

definition BorrowedKeys_CopyKey ::
  "borrowedKeysState option \<Rightarrow> KeyRequest \<Rightarrow> nat \<Rightarrow> OwnerError + byte list" where
  "BorrowedKeys_CopyKey keys request destination =
     (case loan_material keys of
        None \<Rightarrow> Inl (newOwnerError OwnerErrorBorrowExpired)
      | Some material \<Rightarrow>
          if destination \<noteq> derivedKeyBytes then Inl (newOwnerError OwnerErrorDestination)
          else
            (case find_key (\<lambda>row. row_request row = request) (km_keys material) of
               None \<Rightarrow> Inl (newOwnerError OwnerErrorUnknownKey)
             | Some secret \<Rightarrow> Inr (fit destination secret)))"

section \<open>Loans to one caller\<close>

text \<open>
  The state of a caller is the world and the owner. \<open>WithKeys\<close> gives the callback the handle of a
  fresh loan and expires it on every exit. The callback's error is not passed on.
\<close>

type_synonym ('e, 'a) owner_io = "(credential_world \<times> ownerState, 'e, 'a) io"

definition owner_poll :: "OwnerErrorCode \<Rightarrow> (OwnerError, unit) owner_io" where
  "owner_poll code = (\<lambda>(w, state). case cpoll (newOwnerError code) w of (r, w) \<Rightarrow> (r, (w, state)))"

definition expire_loan :: "nat \<Rightarrow> ownerState \<Rightarrow> ownerState" where
  "expire_loan i state =
     state\<lparr>os_loans := (os_loans state)[i := \<lparr>bk_material = None, bk_active = False\<rparr>]\<rparr>"

definition owner_WithKeys :: "(nat \<Rightarrow> ('e, 'a) owner_io) option \<Rightarrow> (OwnerError, 'a) owner_io" where
  "owner_WithKeys callback = (\<lambda>(w, state).
     if cw_ctx w = None \<or> callback = None then (Inl (newOwnerError OwnerErrorInvalidRequest), (w, state))
     else
       io_bind (owner_poll OwnerErrorCancelled) (\<lambda>_ (w, state).
         if os_closing state \<or> os_material state = None
         then (Inl (newOwnerError OwnerErrorClosed), (w, state))
         else
           io_bind (owner_poll OwnerErrorCancelled) (\<lambda>_ (w, state).
             let i = length (os_loans state);
                 state = state\<lparr>os_loans := os_loans state @ [\<lparr>bk_material = os_material state, bk_active = True\<rparr>]\<rparr>
             in
             case io_bind (\<lambda>s. case the callback i s of
                     (Inl _, s) \<Rightarrow> (Inl (newOwnerError OwnerErrorCallback), s)
                   | (Inr v, s) \<Rightarrow> (Inr v, s)) (\<lambda>v.
                   io_bind (owner_poll OwnerErrorCancelled) (\<lambda>_. io_ret v)) (w, state) of
               (r, (w, state)) \<Rightarrow> (r, (w, expire_loan i state))) (w, state)) (w, state))"

text \<open>\<open>Close\<close> when no loan is active.\<close>

definition owner_Close :: "ownerState \<Rightarrow> ownerState" where
  "owner_Close state = state\<lparr>os_closing := True, os_material := None\<rparr>"

section \<open>Callers and a closer\<close>

text \<open>
  Callers run \<open>WithKeys\<close> in their own goroutines. A caller takes the read lock, checks, lends a
  fresh loan, and expires it before it gives the lock back. \<open>Close\<close> first signals, then wipes the
  material under the write lock, which waits until no caller holds the read lock.
\<close>

datatype caller = Idle | Locked | Checked | Lending nat

record owner_system =
  sys_owner :: ownerState
  sys_caller :: "nat \<Rightarrow> caller"

inductive owner_step :: "owner_system \<Rightarrow> owner_system \<Rightarrow> bool" where
  lock: "sys_caller s i = Idle \<Longrightarrow> owner_step s (s\<lparr>sys_caller := (sys_caller s)(i := Locked)\<rparr>)"
| refuse: "sys_caller s i = Locked \<Longrightarrow> os_closing (sys_owner s) \<or> os_material (sys_owner s) = None \<Longrightarrow>
    owner_step s (s\<lparr>sys_caller := (sys_caller s)(i := Idle)\<rparr>)"
| check: "sys_caller s i = Locked \<Longrightarrow> \<not> os_closing (sys_owner s) \<Longrightarrow> os_material (sys_owner s) \<noteq> None \<Longrightarrow>
    owner_step s (s\<lparr>sys_caller := (sys_caller s)(i := Checked)\<rparr>)"
| cancel: "sys_caller s i = Checked \<Longrightarrow> owner_step s (s\<lparr>sys_caller := (sys_caller s)(i := Idle)\<rparr>)"
| lend: "sys_caller s i = Checked \<Longrightarrow> owner_step s
    \<lparr>sys_owner = (sys_owner s)\<lparr>os_loans := os_loans (sys_owner s) @
        [\<lparr>bk_material = os_material (sys_owner s), bk_active = True\<rparr>]\<rparr>,
     sys_caller = (sys_caller s)(i := Lending (length (os_loans (sys_owner s))))\<rparr>"
| give_back: "sys_caller s i = Lending n \<Longrightarrow> owner_step s
    \<lparr>sys_owner = expire_loan n (sys_owner s), sys_caller = (sys_caller s)(i := Idle)\<rparr>"
| signal: "owner_step s (s\<lparr>sys_owner := (sys_owner s)\<lparr>os_closing := True\<rparr>\<rparr>)"
| wipe: "os_closing (sys_owner s) \<Longrightarrow> \<forall>i. sys_caller s i = Idle \<Longrightarrow>
    owner_step s (s\<lparr>sys_owner := owner_Close (sys_owner s)\<rparr>)"

inductive owner_reachable :: "ownerState \<Rightarrow> owner_system \<Rightarrow> bool" for owner where
  start: "owner_reachable owner \<lparr>sys_owner = owner, sys_caller = (\<lambda>_. Idle)\<rparr>"
| move: "owner_reachable owner s \<Longrightarrow> owner_step s s' \<Longrightarrow> owner_reachable owner s'"

text \<open>A caller past its check sees live material, and the active loans are exactly those of the
  callers whose callback runs.\<close>

definition owner_inv :: "owner_system \<Rightarrow> bool" where
  "owner_inv s \<longleftrightarrow>
     (\<forall>i. sys_caller s i = Checked \<longrightarrow> os_material (sys_owner s) \<noteq> None) \<and>
     (\<forall>i n. sys_caller s i = Lending n \<longrightarrow> os_material (sys_owner s) \<noteq> None \<and> n < length (os_loans (sys_owner s)) \<and>
        bk_active (os_loans (sys_owner s) ! n)) \<and>
     (\<forall>i j n. sys_caller s i = Lending n \<longrightarrow> sys_caller s j = Lending n \<longrightarrow> i = j) \<and>
     (\<forall>n < length (os_loans (sys_owner s)). bk_active (os_loans (sys_owner s) ! n) \<longrightarrow>
        (\<exists>i. sys_caller s i = Lending n) \<and>
        bk_material (os_loans (sys_owner s) ! n) = os_material (sys_owner s))"

lemma nth_update: "xs[i := x] ! j = (if i = j \<and> j < length xs then x else xs ! j)"
  by (cases "i < length xs") (auto simp: nth_list_update list_update_beyond)

lemma inv_caller:
  assumes "owner_inv s" and "\<forall>n. sys_caller s i \<noteq> Lending n" and "\<forall>n. c \<noteq> Lending n"
    and "c = Checked \<longrightarrow> os_material (sys_owner s) \<noteq> None"
  shows "owner_inv (s\<lparr>sys_caller := (sys_caller s)(i := c)\<rparr>)"
proof -
  have L: "(sys_caller (s\<lparr>sys_caller := (sys_caller s)(i := c)\<rparr>) j = Lending n) = (sys_caller s j = Lending n)" for j n
    using assms(2,3) by auto
  have C: "sys_caller (s\<lparr>sys_caller := (sys_caller s)(i := c)\<rparr>) j = Checked \<Longrightarrow> os_material (sys_owner s) \<noteq> None" for j
    using assms(1,4) by (auto simp: owner_inv_def split: if_splits)
  have o: "sys_owner (s\<lparr>sys_caller := (sys_caller s)(i := c)\<rparr>) = sys_owner s" by simp
  show ?thesis using assms(1) C unfolding owner_inv_def L o by blast
qed

lemma inv_give: "sys_caller s i = Lending n \<Longrightarrow> owner_inv s \<Longrightarrow> owner_inv
    \<lparr>sys_owner = expire_loan n (sys_owner s), sys_caller = (sys_caller s)(i := Idle)\<rparr>"
proof -
  assume a: "sys_caller s i = Lending n" "owner_inv s"
  note inv = a(2) [unfolded owner_inv_def]
  let ?s = "\<lparr>sys_owner = expire_loan n (sys_owner s), sys_caller = (sys_caller s)(i := Idle)\<rparr>"
  have L: "sys_caller ?s j = Lending m \<longleftrightarrow> m \<noteq> n \<and> sys_caller s j = Lending m" for j m
    using inv a by auto
  have C: "sys_caller ?s j = Checked \<Longrightarrow> os_material (sys_owner s) \<noteq> None" for j
    using inv by (auto split: if_splits)
  have o: "os_material (sys_owner ?s) = os_material (sys_owner s)"
    "length (os_loans (sys_owner ?s)) = length (os_loans (sys_owner s))"
    by (simp_all add: expire_loan_def)
  have B: "m < length (os_loans (sys_owner s)) \<Longrightarrow> bk_active (os_loans (sys_owner ?s) ! m) \<Longrightarrow>
     m \<noteq> n \<and> os_loans (sys_owner ?s) ! m = os_loans (sys_owner s) ! m" for m
    by (auto simp: expire_loan_def nth_update split: if_splits)
  have A: "m \<noteq> n \<Longrightarrow> bk_active (os_loans (sys_owner ?s) ! m) = bk_active (os_loans (sys_owner s) ! m)" for m
    by (simp add: expire_loan_def nth_update)
  show ?thesis
    unfolding owner_inv_def L o
  proof (intro conjI allI impI)
    fix m
    assume m: "m < length (os_loans (sys_owner s))" "bk_active (os_loans (sys_owner ?s) ! m)"
    with B have "m \<noteq> n" and eq: "os_loans (sys_owner ?s) ! m = os_loans (sys_owner s) ! m" by blast+
    with m inv show "\<exists>i. m \<noteq> n \<and> sys_caller s i = Lending m"
      and "bk_material (os_loans (sys_owner ?s) ! m) = os_material (sys_owner s)" by auto
  qed (use inv C A in blast)+
qed

lemma owner_step_inv: "owner_step s s' \<Longrightarrow> owner_inv s \<Longrightarrow> owner_inv s'"
proof (induction rule: owner_step.induct)
  case (give_back s i n)
  then show ?case by (rule inv_give)
next
  case (wipe s)
  then show ?case by (simp add: owner_inv_def owner_Close_def)
next
  case (check s i)
  from check.hyps show ?case by (intro inv_caller [OF check.prems]) auto
next
  case (lock s i)
  from lock.hyps show ?case by (intro inv_caller [OF lock.prems]) auto
next
  case (refuse s i)
  from refuse.hyps show ?case by (intro inv_caller [OF refuse.prems]) auto
next
  case (cancel s i)
  from cancel.hyps show ?case by (intro inv_caller [OF cancel.prems]) auto
next
  case (signal s)
  then show ?case by (simp add: owner_inv_def)
next
  case (lend s i)
  note inv = lend.prems [unfolded owner_inv_def]
  have idle: "sys_caller s j = Lending n \<Longrightarrow> j \<noteq> i" for j n using lend.hyps by auto
  let ?s = "\<lparr>sys_owner = (sys_owner s)\<lparr>os_loans := os_loans (sys_owner s) @
        [\<lparr>bk_material = os_material (sys_owner s), bk_active = True\<rparr>]\<rparr>,
     sys_caller = (sys_caller s)(i := Lending (length (os_loans (sys_owner s))))\<rparr>"
  have live: "(\<exists>j. sys_caller ?s j = Lending n) \<and> bk_material (os_loans (sys_owner ?s) ! n) = os_material (sys_owner ?s)"
    if "n < length (os_loans (sys_owner ?s))" and "bk_active (os_loans (sys_owner ?s) ! n)" for n
  proof (cases "n = length (os_loans (sys_owner s))")
    case False
    with that inv obtain j where "sys_caller s j = Lending n"
      "bk_material (os_loans (sys_owner s) ! n) = os_material (sys_owner s)"
      by (auto simp: nth_append less_Suc_eq)
    with False that idle [of j n] show ?thesis by (auto simp: nth_append intro!: exI [of _ j])
  qed auto
  moreover have "\<forall>j k n. sys_caller ?s j = Lending n \<longrightarrow> sys_caller ?s k = Lending n \<longrightarrow> j = k"
    using inv by (auto split: if_splits)
  moreover have "\<forall>j n. sys_caller ?s j = Lending n \<longrightarrow>
      os_material (sys_owner ?s) \<noteq> None \<and> n < length (os_loans (sys_owner ?s)) \<and>
      bk_active (os_loans (sys_owner ?s) ! n)"
    using inv lend.hyps by (auto simp: less_Suc_eq nth_append split: if_splits)
  moreover have "\<forall>j. sys_caller ?s j = Checked \<longrightarrow> os_material (sys_owner ?s) \<noteq> None"
    using inv lend.hyps by auto
  ultimately show ?case unfolding owner_inv_def by blast
qed

lemma owner_reachable_inv: "owner_reachable owner s \<Longrightarrow> os_loans owner = [] \<Longrightarrow> owner_inv s"
proof (induction rule: owner_reachable.induct)
  case start
  then show ?case by (simp add: owner_inv_def)
qed (rule owner_step_inv)

text \<open>The material of an owner is never replaced, and an expired loan stays expired.\<close>

definition loan_live :: "owner_system \<Rightarrow> nat \<Rightarrow> bool" where
  "loan_live s n \<longleftrightarrow> n < length (os_loans (sys_owner s)) \<and> bk_active (os_loans (sys_owner s) ! n)"

lemma owner_step_expired:
  "owner_step s s' \<Longrightarrow> n < length (os_loans (sys_owner s)) \<Longrightarrow> \<not> loan_live s n \<Longrightarrow>
     n < length (os_loans (sys_owner s')) \<and> \<not> loan_live s' n"
  by (induction rule: owner_step.induct)
    (auto simp: loan_live_def nth_append expire_loan_def nth_update owner_Close_def split: if_splits)

lemma owner_step_material:
  "owner_step s s' \<Longrightarrow> os_material (sys_owner s') = os_material (sys_owner s) \<or> os_material (sys_owner s') = None"
  by (induction rule: owner_step.induct) (auto simp: expire_loan_def owner_Close_def)

lemma owner_reachable_material:
  "owner_reachable owner s \<Longrightarrow> os_material (sys_owner s) = os_material owner \<or> os_material (sys_owner s) = None"
proof (induction rule: owner_reachable.induct)
  case (move s s')
  with owner_step_material [OF move.hyps(2)] show ?case by auto
qed simp

lemma loan_live_iff: "owner_inv s \<Longrightarrow> loan_live s n \<longleftrightarrow> (\<exists>i. sys_caller s i = Lending n)"
  unfolding owner_inv_def loan_live_def by blast

lemma wiped_no_caller: "owner_inv s \<Longrightarrow> os_material (sys_owner s) = None \<Longrightarrow>
    sys_caller s i = Idle \<or> sys_caller s i = Locked"
  unfolding owner_inv_def by (cases "sys_caller s i") auto

lemma handle_of_owner:
  assumes "owner_inv s" and "n < length (os_loans (sys_owner s))"
    and "os_material (sys_owner s) = os_material owner \<or> os_material (sys_owner s) = None"
  shows "BorrowedKeys_CopyKey (Some (os_loans (sys_owner s) ! n)) request 32 =
       (if loan_live s n
        then BorrowedKeys_CopyKey (Some \<lparr>bk_material = os_material owner, bk_active = True\<rparr>) request 32
        else Inl (newOwnerError OwnerErrorBorrowExpired))"
    and "os_material (sys_owner s) = None \<longrightarrow> \<not> loan_live s n"
proof -
  have live: "loan_live s n \<Longrightarrow> bk_material (os_loans (sys_owner s) ! n) = os_material owner \<and>
      os_material (sys_owner s) \<noteq> None"
    using assms unfolding owner_inv_def loan_live_def by metis
  then show "os_material (sys_owner s) = None \<longrightarrow> \<not> loan_live s n" by blast
  show "BorrowedKeys_CopyKey (Some (os_loans (sys_owner s) ! n)) request 32 =
       (if loan_live s n
        then BorrowedKeys_CopyKey (Some \<lparr>bk_material = os_material owner, bk_active = True\<rparr>) request 32
        else Inl (newOwnerError OwnerErrorBorrowExpired))"
    using live assms(2) by (auto simp: BorrowedKeys_CopyKey_def loan_material_def loan_live_def)
qed

section \<open>Properties\<close>

text \<open>C15: whatever the interleaving of callers and closing, the handle of a loan is live exactly while
  the callback it was lent to runs. While it is live it copies exactly the keys of the material the
  owner was created with, and afterwards nothing. When the owner has wiped its material, no
  callback runs and no caller is past its check; and a handle that has expired never comes back.
\<close>

lemma borrowed_keys_expire:
  assumes "newOwner metadata (Some material) = Inr owner" and "owner_reachable owner s"
    and "n < length (os_loans (sys_owner s))"
  shows "BorrowedKeys_CopyKey (Some (os_loans (sys_owner s) ! n)) request 32 =
       (if loan_live s n
        then BorrowedKeys_CopyKey (Some \<lparr>bk_material = Some material, bk_active = True\<rparr>) request 32
        else Inl (newOwnerError OwnerErrorBorrowExpired)) \<and>
     (loan_live s n \<longleftrightarrow> (\<exists>i. sys_caller s i = Lending n)) \<and>
     (os_material (sys_owner s) = None \<longrightarrow> \<not> loan_live s n \<and> (\<forall>i. sys_caller s i \<in> {Idle, Locked})) \<and>
     (\<forall>s'. owner_step\<^sup>*\<^sup>* s s' \<longrightarrow> \<not> loan_live s n \<longrightarrow> \<not> loan_live s' n)"
proof -
  have owner: "os_material owner = Some material" "os_loans owner = []"
    using assms(1) by (auto simp: newOwner_def split: if_splits)
  have inv: "owner_inv s" by (rule owner_reachable_inv [OF assms(2) owner(2)])
  have "\<not> loan_live s' n" if "owner_step\<^sup>*\<^sup>* s s'" and "\<not> loan_live s n" for s'
  proof -
    from that have "n < length (os_loans (sys_owner s')) \<and> \<not> loan_live s' n"
      using assms(3) by (induction rule: rtranclp_induct) (auto dest: owner_step_expired)
    then show ?thesis by simp
  qed
  with handle_of_owner [OF inv assms(3) owner_reachable_material [OF assms(2)]] owner(1)
    loan_live_iff [OF inv, of n] wiped_no_caller [OF inv] show ?thesis by simp
qed

text \<open>An owner with one derived key, and a caller in its callback.\<close>

definition demo_metadata :: OwnerMetadata where
  "demo_metadata = \<lparr>om_Suite = 1, om_ExpectedPolicy = 1, om_CredentialMode = 1, om_KeyfileMode = 0,
     om_KeyfileCount = 0, om_ArgonSalt = replicate 16 0, om_VolumeID = replicate 32 0\<rparr>"

definition demo_key_request :: KeyRequest where
  "demo_key_request = \<lparr>req_Label = KeyLabelVolumeMetadataMAC, req_Role = 255, req_OutputBytes = 32\<rparr>"

definition demo_material :: keyMaterial where
  "demo_material = \<lparr>km_credentialRoot = Some (Some (replicate 32 1)), km_volumeKey = Some (Some (replicate 32 2)),
     km_credentialPRK = Some (replicate 32 3), km_volumePRK = Some (replicate 32 4),
     km_keys = [(\<lparr>row_suite = 1, row_root = 2, row_request = demo_key_request\<rparr>, Some (replicate 32 5))],
     km_volumeID = replicate 32 0\<rparr>"

definition demo_owner :: ownerState where
  "demo_owner = \<lparr>os_metadata = demo_metadata, os_material = Some demo_material, os_closing = False, os_loans = []\<rparr>"

lemma demo_newOwner: "newOwner demo_metadata (Some demo_material) = Inr demo_owner"
  by (simp add: newOwner_def demo_owner_def validOwnerMetadata_def demo_metadata_def validFactorPolicy_def
      policyMatchesMode_def validCredentialFactors_def validOwnerMaterial_def demo_material_def holds_secret_def)

definition demo_lent :: owner_system where
  "demo_lent = \<lparr>sys_owner = demo_owner\<lparr>os_loans := [\<lparr>bk_material = Some demo_material, bk_active = True\<rparr>]\<rparr>,
     sys_caller = (\<lambda>_. Idle)(0 := Lending 0)\<rparr>"

lemma demo_reachable: "owner_reachable demo_owner demo_lent"
proof -
  let ?s0 = "\<lparr>sys_owner = demo_owner, sys_caller = (\<lambda>_. Idle)\<rparr>"
  let ?s1 = "?s0\<lparr>sys_caller := (\<lambda>_. Idle)(0 := Locked)\<rparr>"
  let ?s2 = "?s1\<lparr>sys_caller := (\<lambda>_. Idle)(0 := Checked)\<rparr>"
  have 1: "owner_step ?s0 ?s1" using owner_step.lock [of ?s0 0] by simp
  have 2: "owner_step ?s1 ?s2" using owner_step.check [of ?s1 0] by (simp add: demo_owner_def)
  have 3: "owner_step ?s2 demo_lent" using owner_step.lend [of ?s2 0] by (simp add: demo_lent_def demo_owner_def)
  show ?thesis by (rule owner_reachable.move [OF owner_reachable.move [OF owner_reachable.move [OF owner_reachable.start 1] 2] 3])
qed

lemma borrowed_keys_expire_witness:
  "BorrowedKeys_CopyKey (Some (os_loans (sys_owner demo_lent) ! 0)) demo_key_request 32 = Inr (replicate 32 5) \<and>
   {s'. owner_step\<^sup>*\<^sup>* (demo_lent\<lparr>sys_owner := expire_loan 0 (sys_owner demo_lent), sys_caller := (\<lambda>_. Idle)\<rparr>) s' \<and>
     loan_live s' 0} = {}"
proof -
  have 0: "0 < length (os_loans (sys_owner demo_lent))" by (simp add: demo_lent_def)
  have live: "loan_live demo_lent 0" by (simp add: demo_lent_def loan_live_def)
  have copy: "BorrowedKeys_CopyKey (Some \<lparr>bk_material = Some demo_material, bk_active = True\<rparr>) demo_key_request 32 =
      Inr (replicate 32 5)"
    by (simp add: BorrowedKeys_CopyKey_def loan_material_def demo_material_def find_key_def fit_exact)
  let ?t = "demo_lent\<lparr>sys_owner := expire_loan 0 (sys_owner demo_lent), sys_caller := (\<lambda>_. Idle)\<rparr>"
  have "(sys_caller demo_lent)(0 := Idle) = (\<lambda>_. Idle)" by (auto simp: demo_lent_def)
  then have "owner_step demo_lent ?t"
    using owner_step.give_back [of demo_lent 0 0] by (simp add: demo_lent_def)
  then have t: "owner_reachable demo_owner ?t" by (rule owner_reachable.move [OF demo_reachable])
  have "0 < length (os_loans (sys_owner ?t))" "\<not> loan_live ?t 0"
    by (simp_all add: demo_lent_def expire_loan_def loan_live_def)
  with borrowed_keys_expire [OF demo_newOwner t] have "{s'. owner_step\<^sup>*\<^sup>* ?t s' \<and> loan_live s' 0} = {}" by blast
  with borrowed_keys_expire [OF demo_newOwner demo_reachable 0, of demo_key_request] live copy show ?thesis by simp
qed

end
