(* ===== verification/Credential_Pipeline.thy ===== *)
theory Credential_Pipeline
  imports Owner
begin

text \<open>
  Creation of a credential (\<open>pcv3credential/pipeline.go\<close>): from a factor request to the owner of a
  fresh key set. The stages run inside the loan of the validated factors, and every failure is
  mapped to a code and a stage. The hashes and the password tables are parameters, as is the
  derivation of the material from the schedule; an entropy source is always given.
\<close>

section \<open>Requests and errors\<close>

record credential_libs =
  cl_sha3_256 :: "byte list \<Rightarrow> byte list"
  cl_sha3_512 :: "byte list \<Rightarrow> byte list"
  cl_assigned :: "nat \<Rightarrow> bool"
  cl_nfc :: "byte list \<Rightarrow> byte list"

record CredentialRequest =
  cq_Suite :: u16
  cq_Factors :: "FactorRequest option"
  cq_KeyRequests :: "KeyRequest list"

datatype PipelineErrorCode =
    PipelineErrorInvalidRequest | PipelineErrorFactors | PipelineErrorTranscript
  | PipelineErrorSchedule | PipelineErrorAdmission | PipelineErrorEntropy | PipelineErrorCancelled
  | PipelineErrorKDF | PipelineErrorKeyDerivation | PipelineErrorOwner | PipelineErrorCallback

datatype PipelineStage =
    PipelineStageRequest | PipelineStageFactors | PipelineStageTranscript | PipelineStageSchedule
  | PipelineStageAdmission | PipelineStageArgonSalt | PipelineStageVolumeID | PipelineStageVolumeKey
  | PipelineStageKDF | PipelineStageKeyDerivation | PipelineStageOwner | PipelineStageCallback

record PipelineError =
  pe_Code :: PipelineErrorCode
  pe_Stage :: PipelineStage
  pe_Suite :: u16

definition newPipelineError :: "PipelineErrorCode \<Rightarrow> PipelineStage \<Rightarrow> u16 \<Rightarrow> PipelineError" where
  "newPipelineError code stage suite = \<lparr>pe_Code = code, pe_Stage = stage, pe_Suite = suite\<rparr>"

type_synonym pipelineMaterialDeriver =
  "validatedSchedule option \<Rightarrow> secret_ref \<Rightarrow> secret_ref \<Rightarrow> byte list \<Rightarrow> ScheduleError + keyMaterial"

definition pipelineErrorFromKDF :: "KDFError \<Rightarrow> u16 \<Rightarrow> PipelineError" where
  "pipelineErrorFromKDF err suite =
     (if ke_Code err = KDFErrorAdmission then newPipelineError PipelineErrorAdmission PipelineStageAdmission suite
      else if ke_Code err = KDFErrorCancelled then newPipelineError PipelineErrorCancelled PipelineStageKDF suite
      else newPipelineError PipelineErrorKDF PipelineStageKDF suite)"

definition readPipelineEntropy ::
  "nat \<Rightarrow> u16 \<Rightarrow> PipelineStage \<Rightarrow> (credential_world, PipelineError, byte list) io" where
  "readPipelineEntropy n suite stage =
     io_bind (cpoll (newPipelineError PipelineErrorCancelled stage suite)) (\<lambda>_.
     io_bind (read_entropy (newPipelineError PipelineErrorEntropy stage suite) n) (\<lambda>bytes.
     io_bind (cpoll (newPipelineError PipelineErrorCancelled stage suite)) (\<lambda>_. io_ret bytes)))"

definition releaseFactorRequest :: "FactorRequest option \<Rightarrow> credential_world \<Rightarrow> FactorRequest option \<times> credential_world" where
  "releaseFactorRequest factors w =
     (case factors of
        None \<Rightarrow> (None, w)
      | Some request \<Rightarrow> (case FactorRequest_Close request w of ((_, request), w) \<Rightarrow> (Some request, w)))"

text \<open>\<open>errors.As\<close> on the failures of \<open>WithValidatedFactors\<close>.\<close>

fun callback_error :: "'e factors_failure \<Rightarrow> 'e option" where
  "callback_error (FactorFailure f) = None"
| "callback_error (CallbackFailure e) = Some e"
| "callback_error (JoinedFailure a c) = callback_error a"

fun factor_error :: "'e factors_failure \<Rightarrow> FactorError option" where
  "factor_error (FactorFailure f) = Some f"
| "factor_error (CallbackFailure e) = None"
| "factor_error (JoinedFailure a c) = (case factor_error a of None \<Rightarrow> Some c | Some f \<Rightarrow> Some f)"

definition pipeline_error_of :: "u16 \<Rightarrow> PipelineError factors_failure \<Rightarrow> PipelineError" where
  "pipeline_error_of suite failure =
     (case callback_error failure of
        Some e \<Rightarrow> e
      | None \<Rightarrow>
          (case factor_error failure of
             Some f \<Rightarrow>
               if fe_Code f = FactorErrorCancelled
               then newPipelineError PipelineErrorCancelled PipelineStageFactors suite
               else newPipelineError PipelineErrorFactors PipelineStageFactors suite
           | None \<Rightarrow> newPipelineError PipelineErrorFactors PipelineStageFactors suite))"

section \<open>The stages\<close>

text \<open>The transcript of the factors and the input of the key derivation.\<close>

definition credential_input ::
  "credential_libs \<Rightarrow> u16 \<Rightarrow> ValidatedFactors \<Rightarrow> PipelineError + byte list" where
  "credential_input L suite validated =
     (let refuse = (\<lambda>_. newPipelineError PipelineErrorTranscript PipelineStageTranscript suite) in
      ebind (map_err refuse (NewCanonicalTranscript (cl_assigned L) (cl_nfc L) (Some validated))) (\<lambda>transcript.
      map_err refuse (fst (NewCredentialInputNormal (cl_sha3_512 L) (Some transcript)))))"

definition derive_root ::
  "byte list \<Rightarrow> byte list \<Rightarrow> u16 \<Rightarrow> Admitter option \<Rightarrow> kdfDeriver option \<Rightarrow>
   (credential_world, PipelineError, byte list) io" where
  "derive_root input argonSalt suite admitter derive =
     io_bind (cpoll (newPipelineError PipelineErrorCancelled PipelineStageKDF suite)) (\<lambda>_.
     io_map_err (\<lambda>e. pipelineErrorFromKDF e suite)
       (runCredentialKDF (Some input) argonSalt suite admitter derive))"

definition owner_metadata :: "u16 \<Rightarrow> ValidatedFactors \<Rightarrow> byte list \<Rightarrow> byte list \<Rightarrow> OwnerMetadata" where
  "owner_metadata suite validated argonSalt volumeID =
     \<lparr>om_Suite = suite, om_ExpectedPolicy = vf_expectedPolicy validated,
      om_CredentialMode = vf_mode validated, om_KeyfileMode = vf_keyfileMode validated,
      om_KeyfileCount = word_of_nat (length (vf_descriptors validated)),
      om_ArgonSalt = fit kdfSaltBytes argonSalt, om_VolumeID = fit scheduleVolumeIDBytes volumeID\<rparr>"

definition create_owner ::
  "credential_libs \<Rightarrow> u16 \<Rightarrow> KeyRequest list \<Rightarrow> Admitter option \<Rightarrow> kdfDeriver option \<Rightarrow>
   pipelineMaterialDeriver \<Rightarrow> ValidatedFactors \<Rightarrow> (credential_world, PipelineError, ownerState) io" where
  "create_owner L suite keyRequests admitter derive deriveMaterial validated =
     io_bind (io_lift (map_err (\<lambda>_. newPipelineError PipelineErrorSchedule PipelineStageSchedule suite)
                (validateKeySchedule suite keyRequests))) (\<lambda>schedule.
     io_bind (io_lift (credential_input L suite validated)) (\<lambda>input.
     io_bind (readPipelineEntropy kdfSaltBytes suite PipelineStageArgonSalt) (\<lambda>argonSalt.
     io_bind (readPipelineEntropy scheduleVolumeIDBytes suite PipelineStageVolumeID) (\<lambda>volumeID.
     io_bind (readPipelineEntropy derivedKeyBytes suite PipelineStageVolumeKey) (\<lambda>volumeKey.
     io_bind (derive_root input argonSalt suite admitter derive) (\<lambda>root.
     io_bind (cpoll (newPipelineError PipelineErrorCancelled PipelineStageKDF suite)) (\<lambda>_.
     io_bind (io_lift (map_err (\<lambda>_. newPipelineError PipelineErrorKeyDerivation PipelineStageKeyDerivation suite)
                (deriveMaterial (Some schedule) (Some (Some root)) (Some (Some volumeKey)) volumeID))) (\<lambda>material.
     io_bind (cpoll (newPipelineError PipelineErrorCancelled PipelineStageOwner suite)) (\<lambda>_.
     io_lift (map_err (\<lambda>_. newPipelineError PipelineErrorOwner PipelineStageOwner suite)
       (newOwner (owner_metadata suite validated argonSalt volumeID) (Some material))))))))))))"

definition newCredential ::
  "credential_libs \<Rightarrow> CredentialRequest option \<Rightarrow> Admitter option \<Rightarrow> kdfDeriver option \<Rightarrow>
   pipelineMaterialDeriver option \<Rightarrow> credential_world \<Rightarrow>
   ((PipelineError + ownerState) \<times> FactorRequest option) \<times> credential_world" where
  "newCredential L request admitter derive deriveMaterial w =
     (case request of
        None \<Rightarrow> ((Inl (newPipelineError PipelineErrorInvalidRequest PipelineStageRequest 0), None), w)
      | Some request \<Rightarrow>
          let suite = cq_Suite request in
          if cw_ctx w = None \<or> admitter = None \<or> derive = None \<or> deriveMaterial = None
          then
            (case releaseFactorRequest (cq_Factors request) w of
               (factors, w) \<Rightarrow>
                 ((Inl (newPipelineError PipelineErrorInvalidRequest PipelineStageRequest suite), factors), w))
          else
            (case withValidatedFactors (cl_sha3_256 L) (cq_Factors request)
                    (Some (create_owner L suite (cq_KeyRequests request) admitter derive (the deriveMaterial))) w of
               ((r, factors), w) \<Rightarrow> ((map_err (pipeline_error_of suite) r, factors), w)))"

text \<open>\<open>NewCredential\<close>: Argon2id and the schedule of \<open>keys.go\<close>.\<close>

definition deriveKeyMaterial :: "extractor \<Rightarrow> expander \<Rightarrow> pipelineMaterialDeriver" where
  "deriveKeyMaterial extract expand schedule root key volumeID =
     deriveKeyMaterialWith schedule root key volumeID extract expand"

definition NewCredential ::
  "credential_libs \<Rightarrow> kdfDeriver \<Rightarrow> extractor \<Rightarrow> expander \<Rightarrow> CredentialRequest option \<Rightarrow> Admitter option \<Rightarrow>
   credential_world \<Rightarrow> ((PipelineError + ownerState) \<times> FactorRequest option) \<times> credential_world" where
  "NewCredential L argon2id extract expand request admitter =
     newCredential L request admitter (Some argon2id) (Some (deriveKeyMaterial extract expand))"

end
