(* ===== verification/Reader_Credential.thy ===== *)
theory Reader_Credential
  imports Credential_Pipeline
begin

text \<open>
  The credential of a reader (\<open>pcv3credential/reader.go\<close>): the root is derived once, a callback
  borrows the keys of one role, tries replica keys for candidate volume keys, and transfers one
  authenticated volume key; only then there is an owner. The state behind a \<open>ReaderCredential\<close> is
  threaded through the callback with the world. A \<open>ReaderKeys\<close> is a position in the list of loans.
\<close>

section \<open>The state\<close>

record readerKeysState =
  rk_material :: "keyMaterial option"
  rk_role :: byte
  rk_root :: byte
  rk_active :: bool

record readerCredentialState =
  rs_active :: bool
  rs_adopting :: bool
  rs_borrows :: nat
  rs_metadata :: OwnerMetadata
  rs_material :: "keyMaterial option"
  rs_owner :: "ownerState option"
  rs_extract :: extractor
  rs_expand :: expander
  rs_loans :: "readerKeysState list"

type_synonym reader_state = "credential_world \<times> readerCredentialState"
type_synonym ('e, 'a) reader_io = "(reader_state, 'e, 'a) io"

definition validReplicaRole :: "byte \<Rightarrow> bool" where
  "validReplicaRole role \<longleftrightarrow> role = KeyRolePrimary \<or> role = KeyRoleBackup"

definition reader_poll :: "'e \<Rightarrow> ('e, unit) reader_io" where
  "reader_poll e = (\<lambda>(w, st). case cpoll e w of (r, w) \<Rightarrow> (r, (w, st)))"

section \<open>Schedules\<close>

definition fullReaderSchedule :: "u16 \<Rightarrow> ScheduleError + validatedSchedule" where
  "fullReaderSchedule suite =
     ebind (fixedScheduleForSuite suite) (\<lambda>rows. validateKeySchedule suite (map row_request rows))"

definition nonReplicaVolumeSchedule :: "u16 \<Rightarrow> ScheduleError + validatedSchedule" where
  "nonReplicaVolumeSchedule suite =
     ebind (fixedScheduleForSuite suite) (\<lambda>rows.
       validateKeySchedule suite
         (map row_request (filter (\<lambda>row. row_root row = scheduleRootVolume \<and>
             req_Role (row_request row) = KeyRoleNotReplica) rows)))"

section \<open>Loans\<close>

definition ReaderKeys_CopyKey ::
  "readerKeysState option \<Rightarrow> KeyRequest \<Rightarrow> nat \<Rightarrow> OwnerError + byte list" where
  "ReaderKeys_CopyKey keys request destination =
     (case keys of
        None \<Rightarrow> Inl (newOwnerError OwnerErrorBorrowExpired)
      | Some state \<Rightarrow>
          (case rk_material state of
             None \<Rightarrow> Inl (newOwnerError OwnerErrorBorrowExpired)
           | Some material \<Rightarrow>
               if \<not> rk_active state then Inl (newOwnerError OwnerErrorBorrowExpired)
               else if destination \<noteq> derivedKeyBytes then Inl (newOwnerError OwnerErrorDestination)
               else
                 (case find_key (\<lambda>row. row_root row = rk_root state \<and>
                         req_Role (row_request row) = rk_role state \<and> row_request row = request)
                       (km_keys material) of
                    None \<Rightarrow> Inl (newOwnerError OwnerErrorUnknownKey)
                  | Some secret \<Rightarrow> Inr (fit destination secret))))"

text \<open>The lookup of a handle, as the callback sees it.\<close>

definition copy_key :: "nat \<Rightarrow> KeyRequest \<Rightarrow> nat \<Rightarrow> (OwnerError, byte list) reader_io" where
  "copy_key i request destination = (\<lambda>(w, st).
     (ReaderKeys_CopyKey (if i < length (rs_loans st) then Some (rs_loans st ! i) else None) request destination,
      (w, st)))"

definition expire_keys :: "nat \<Rightarrow> readerCredentialState \<Rightarrow> readerCredentialState" where
  "expire_keys i st =
     st\<lparr>rs_loans := (rs_loans st)[i := (rs_loans st ! i)\<lparr>rk_material := None, rk_active := False\<rparr>]\<rparr>"

definition withReaderKeys ::
  "keyMaterial \<Rightarrow> byte \<Rightarrow> byte \<Rightarrow> (nat \<Rightarrow> ('e, unit) reader_io) \<Rightarrow> (OwnerError, unit) reader_io" where
  "withReaderKeys material role root callback =
     io_bind (reader_poll (newOwnerError OwnerErrorCancelled)) (\<lambda>_ (w, st).
       let i = length (rs_loans st);
           st = st\<lparr>rs_loans := rs_loans st @
                    [\<lparr>rk_material = Some material, rk_role = role, rk_root = root, rk_active = True\<rparr>]\<rparr>
       in
       case (case callback i (w, st) of
               (Inl _, s) \<Rightarrow> (Inl (newOwnerError OwnerErrorCallback), s)
             | (Inr _, s) \<Rightarrow> reader_poll (newOwnerError OwnerErrorCancelled) s) of
         (r, (w, st)) \<Rightarrow> (r, (w, expire_keys i st)))"

text \<open>The admission shared by the borrowing methods: the state, then the context; a refusal asks the
  context again.\<close>

definition reader_open :: "readerCredentialState \<Rightarrow> bool" where
  "reader_open st \<longleftrightarrow> rs_active st \<and> \<not> rs_adopting st \<and> rs_material st \<noteq> None \<and> rs_owner st = None"

definition begin_borrow :: "(OwnerError, keyMaterial) reader_io" where
  "begin_borrow = (\<lambda>(w, st).
     case (if reader_open st then ctx_cancelled w else (True, w)) of
       (True, w) \<Rightarrow>
         (case ctx_cancelled w of
            (c, w) \<Rightarrow> (Inl (newOwnerError (if c then OwnerErrorCancelled else OwnerErrorClosed)), (w, st)))
     | (False, w) \<Rightarrow> (Inr (the (rs_material st)), (w, st\<lparr>rs_borrows := rs_borrows st + 1\<rparr>)))"

definition endBorrow :: "readerCredentialState \<Rightarrow> readerCredentialState" where
  "endBorrow st = st\<lparr>rs_borrows := rs_borrows st - 1\<rparr>"

definition borrowing :: "(keyMaterial \<Rightarrow> (OwnerError, unit) reader_io) \<Rightarrow> (OwnerError, unit) reader_io" where
  "borrowing body = io_bind begin_borrow (\<lambda>material s.
     case body material s of (r, (w, st)) \<Rightarrow> (r, (w, endBorrow st)))"

definition ReaderCredential_WithKeys ::
  "byte \<Rightarrow> (nat \<Rightarrow> ('e, unit) reader_io) option \<Rightarrow> (OwnerError, unit) reader_io" where
  "ReaderCredential_WithKeys role callback = (\<lambda>(w, st).
     if cw_ctx w = None \<or> callback = None \<or> \<not> validReplicaRole role
     then (Inl (newOwnerError OwnerErrorInvalidRequest), (w, st))
     else borrowing (\<lambda>material. withReaderKeys material role scheduleRootCredential (the callback)) (w, st))"

text \<open>The material of one candidate volume key: the volume side of a schedule.\<close>

definition candidate_material ::
  "ScheduleError + validatedSchedule \<Rightarrow> byte list \<Rightarrow> byte list \<Rightarrow> extractor \<Rightarrow> expander \<Rightarrow> ScheduleError + keyMaterial" where
  "candidate_material schedule volumeID candidate extract expand =
     ebind schedule (\<lambda>schedule.
     ebind (newKeyMaterial (Some schedule) volumeID) (\<lambda>material.
     case io_bind (deriveVolumeKeyStageWith (Some (Some candidate)) extract) (\<lambda>_.
            expandKeyMaterialWith scheduleRootVolume expand) material of
       (Inl err, _) \<Rightarrow> Inl err
     | (Inr _, material) \<Rightarrow> Inr material))"

definition with_candidate ::
  "(u16 \<Rightarrow> ScheduleError + validatedSchedule) \<Rightarrow> byte \<Rightarrow> byte list \<Rightarrow> (nat \<Rightarrow> ('e, unit) reader_io) \<Rightarrow>
   (OwnerError, unit) reader_io" where
  "with_candidate schedule role candidate callback = borrowing (\<lambda>_ (w, st).
     case candidate_material (schedule (om_Suite (rs_metadata st))) (om_VolumeID (rs_metadata st)) candidate
            (rs_extract st) (rs_expand st) of
       Inl _ \<Rightarrow> (Inl (newOwnerError OwnerErrorInvalidRequest), (w, st))
     | Inr material \<Rightarrow> withReaderKeys material role scheduleRootVolume callback (w, st))"

definition WithReplicaKey ::
  "byte \<Rightarrow> byte list \<Rightarrow> (nat \<Rightarrow> ('e, unit) reader_io) option \<Rightarrow> (OwnerError, unit) reader_io" where
  "WithReplicaKey role candidate callback = (\<lambda>(w, st).
     if cw_ctx w = None \<or> callback = None \<or> \<not> validReplicaRole role \<or> length candidate \<noteq> derivedKeyBytes
     then (Inl (newOwnerError OwnerErrorInvalidRequest), (w, st))
     else with_candidate (\<lambda>suite. validateKeySchedule suite
            [\<lparr>req_Label = KeyLabelVolumeReplicaMAC, req_Role = role, req_OutputBytes = 32\<rparr>])
            role candidate (the callback) (w, st))"

definition withVolumeKeys ::
  "byte list \<Rightarrow> (nat \<Rightarrow> ('e, unit) reader_io) option \<Rightarrow> (OwnerError, unit) reader_io" where
  "withVolumeKeys candidate callback = (\<lambda>(w, st).
     if cw_ctx w = None \<or> callback = None \<or> length candidate \<noteq> derivedKeyBytes
     then (Inl (newOwnerError OwnerErrorInvalidRequest), (w, st))
     else with_candidate nonReplicaVolumeSchedule KeyRoleNotReplica candidate (the callback) (w, st))"

section \<open>Adoption\<close>

text \<open>The material with the transferred volume key, and the owner of it.\<close>

definition adopted_owner ::
  "OwnerMetadata \<Rightarrow> extractor \<Rightarrow> expander \<Rightarrow> byte list \<Rightarrow> keyMaterial \<Rightarrow> ownerState option" where
  "adopted_owner metadata extract expand transfer material =
     (case io_bind (deriveVolumeKeyStageWith (Some (Some transfer)) extract) (\<lambda>_.
             expandKeyMaterialWith scheduleRootVolume expand) material of
        (Inl _, _) \<Rightarrow> None
      | (Inr _, material) \<Rightarrow>
          (case newOwner metadata (Some material) of Inl _ \<Rightarrow> None | Inr owner \<Rightarrow> Some owner))"

text \<open>On every failure after the admission the material is given up (\<open>failMaterial\<close>, or \<open>newOwner\<close>
  closed it). \<open>adopting\<close> is set during the derivation, when no other method is admitted.\<close>

definition AdoptVolumeKey :: "byte list \<Rightarrow> (OwnerError, unit) reader_io" where
  "AdoptVolumeKey transfer = (\<lambda>(w, st).
     let invalid = newOwnerError OwnerErrorInvalidRequest in
     if length transfer \<noteq> derivedKeyBytes then (Inl invalid, (w, st))
     else if \<not> rs_active st \<or> rs_adopting st \<or> rs_borrows st \<noteq> 0 \<or> rs_owner st \<noteq> None
     then (Inl invalid, (w, st))
     else
       (case rs_material st of
          None \<Rightarrow> (Inl invalid, (w, st))
        | Some material \<Rightarrow>
            (case adopted_owner (rs_metadata st) (rs_extract st) (rs_expand st) transfer material of
               None \<Rightarrow> (Inl invalid, (w, st\<lparr>rs_material := None\<rparr>))
             | Some owner \<Rightarrow> (Inr (), (w, st\<lparr>rs_material := None, rs_owner := Some owner\<rparr>)))))"

definition takeOwner :: "readerCredentialState \<Rightarrow> ownerState option \<times> readerCredentialState" where
  "takeOwner st =
     (if \<not> rs_active st \<or> rs_adopting st \<or> rs_borrows st \<noteq> 0 then (None, st)
      else (rs_owner st, st\<lparr>rs_owner := None\<rparr>))"

section \<open>The scope of a reader credential\<close>

record readerCredentialSeams =
  seam_derive :: "kdfDeriver option"
  seam_extract :: "extractor option"
  seam_expand :: "expander option"

definition newReaderCredentialRoot ::
  "byte list \<Rightarrow> validatedSchedule option \<Rightarrow> OwnerMetadata \<Rightarrow> readerCredentialSeams \<Rightarrow>
   (credential_world, PipelineError, readerCredentialState) io" where
  "newReaderCredentialRoot root schedule metadata seams = (\<lambda>w.
     let suite = om_Suite metadata;
         failed = newPipelineError PipelineErrorKeyDerivation PipelineStageKeyDerivation suite in
     if cw_ctx w = None \<or> schedule = None \<or> seam_extract seams = None \<or> seam_expand seams = None
     then (Inl (newPipelineError PipelineErrorInvalidRequest PipelineStageRequest suite), w)
     else
       (let extract = the (seam_extract seams); expand = the (seam_expand seams) in
        case newKeyMaterial schedule (om_VolumeID metadata) of
          Inl _ \<Rightarrow> (Inl failed, w)
        | Inr material \<Rightarrow>
            (case io_bind (deriveCredentialRootStageWith (Some (Some root)) extract) (\<lambda>_.
                    expandKeyMaterialWith scheduleRootCredential expand) material of
               (Inl _, _) \<Rightarrow> (Inl failed, w)
             | (Inr _, material) \<Rightarrow>
                 io_bind (cpoll (newPipelineError PipelineErrorCancelled PipelineStageKeyDerivation suite)) (\<lambda>_.
                   io_ret \<lparr>rs_active = True, rs_adopting = False, rs_borrows = 0, rs_metadata = metadata,
                     rs_material = Some material, rs_owner = None, rs_extract = extract,
                     rs_expand = expand, rs_loans = []\<rparr>) w)))"

text \<open>The reader is closed on every exit, when every borrow has ended; the owner taken from it stays.\<close>

definition withReaderCredentialRoot ::
  "byte list \<Rightarrow> validatedSchedule option \<Rightarrow> OwnerMetadata \<Rightarrow> ('e, unit) reader_io option \<Rightarrow>
   readerCredentialSeams \<Rightarrow> (credential_world, PipelineError, ownerState option) io" where
  "withReaderCredentialRoot root schedule metadata callback seams =
     (let suite = om_Suite metadata;
          cancelled = newPipelineError PipelineErrorCancelled PipelineStageCallback suite in
      case callback of
        None \<Rightarrow> io_fail (newPipelineError PipelineErrorInvalidRequest PipelineStageRequest suite)
      | Some callback \<Rightarrow>
          io_bind (newReaderCredentialRoot root schedule metadata seams) (\<lambda>st.
          io_bind (cpoll cancelled) (\<lambda>_ w.
            case callback (w, st) of
              (Inl _, (w, st)) \<Rightarrow> (Inl (newPipelineError PipelineErrorCallback PipelineStageCallback suite), w)
            | (Inr _, (w, st)) \<Rightarrow>
                io_bind (cpoll cancelled) (\<lambda>_. io_ret (fst (takeOwner st))) w)))"

section \<open>The pipeline of a reader\<close>

record ReaderCredentialRequest =
  rq_Suite :: u16
  rq_ProfileID :: byte
  rq_Factors :: "FactorRequest option"
  rq_ClaimedPolicy :: byte
  rq_ArgonSalt :: "byte list"
  rq_VolumeID :: "byte list"

definition reader_owner ::
  "credential_libs \<Rightarrow> u16 \<Rightarrow> byte list \<Rightarrow> byte list \<Rightarrow> validatedSchedule \<Rightarrow> Admitter option \<Rightarrow>
   ('e, unit) reader_io option \<Rightarrow> readerCredentialSeams \<Rightarrow> ValidatedFactors \<Rightarrow>
   (credential_world, PipelineError, ownerState) io" where
  "reader_owner L suite argonSalt volumeID schedule admitter callback seams validated =
     io_bind (io_lift (credential_input L suite validated)) (\<lambda>input.
     io_bind (derive_root input argonSalt suite admitter (seam_derive seams)) (\<lambda>root.
     io_bind (withReaderCredentialRoot root (Some schedule) (owner_metadata suite validated argonSalt volumeID)
                callback seams) (\<lambda>published.
     case published of
       None \<Rightarrow> io_fail (newPipelineError PipelineErrorOwner PipelineStageOwner suite)
     | Some owner \<Rightarrow> io_ret owner)))"

definition newReaderCredential ::
  "credential_libs \<Rightarrow> ReaderCredentialRequest option \<Rightarrow> Admitter option \<Rightarrow> ('e, unit) reader_io option \<Rightarrow>
   readerCredentialSeams \<Rightarrow> credential_world \<Rightarrow>
   ((PipelineError + ownerState) \<times> FactorRequest option) \<times> credential_world" where
  "newReaderCredential L request admitter callback seams w =
     (case request of
        None \<Rightarrow> ((Inl (newPipelineError PipelineErrorInvalidRequest PipelineStageRequest 0), None), w)
      | Some request \<Rightarrow>
          let suite = rq_Suite request;
              expectedPolicy = (case rq_Factors request of None \<Rightarrow> 0 | Some f \<Rightarrow> fr_ExpectedPolicy f);
              refuse = (\<lambda>code stage w.
                case releaseFactorRequest (rq_Factors request) w of
                  (factors, w) \<Rightarrow> ((Inl (newPipelineError code stage suite), factors), w))
          in
          if cw_ctx w = None \<or> admitter = None \<or> callback = None \<or> seam_derive seams = None \<or>
             seam_extract seams = None \<or> seam_expand seams = None
          then refuse PipelineErrorInvalidRequest PipelineStageRequest w
          else
            (case ctx_cancelled w of
               (True, w) \<Rightarrow> refuse PipelineErrorCancelled PipelineStageRequest w
             | (False, w) \<Rightarrow>
                 if \<not> validFactorPolicy (rq_ClaimedPolicy request) \<or> expectedPolicy \<noteq> rq_ClaimedPolicy request
                 then refuse PipelineErrorFactors PipelineStageFactors w
                 else
                   (case fixedProfileForSuite suite of
                      Inl _ \<Rightarrow> refuse PipelineErrorSchedule PipelineStageSchedule w
                    | Inr profile \<Rightarrow>
                        if kp_ID profile \<noteq> rq_ProfileID request \<or>
                           length (rq_ArgonSalt request) \<noteq> unat (kp_SaltBytes profile) \<or>
                           length (rq_VolumeID request) \<noteq> scheduleVolumeIDBytes
                        then refuse PipelineErrorSchedule PipelineStageSchedule w
                        else
                          (case fullReaderSchedule suite of
                             Inl _ \<Rightarrow> refuse PipelineErrorSchedule PipelineStageSchedule w
                           | Inr schedule \<Rightarrow>
                               (case withValidatedFactors (cl_sha3_256 L) (rq_Factors request)
                                       (Some (reader_owner L suite (rq_ArgonSalt request) (rq_VolumeID request)
                                          schedule admitter callback seams)) w of
                                  ((r, factors), w) \<Rightarrow> ((map_err (pipeline_error_of suite) r, factors), w))))))"

end
