(* ===== verification/Credential_Round_Trip.thy ===== *)
theory Credential_Round_Trip
  imports Reader_Credential Normal_Writer
begin

text \<open>
  What a credential determines: the owner that the writer created and the owner that a reader
  obtains with the same factors hold the same keys. First the two stagings of the derivation,
  then what a success of either pipeline has computed.
\<close>

section \<open>Staged and one-shot derivation agree\<close>

lemma credential_row_key:
  assumes "row_key expand m row \<noteq> None" and "km_credentialPRK m = Some rp" and "row_root row = 1"
  shows "\<exists>x. length x = 32 \<and> expand (if row_root row = 1 then rp else vp) (scheduleInfo row)
      (unat (req_OutputBytes (row_request row))) = Some x"
  using assms by (auto simp: row_key_def prk_of_def split: option.splits if_splits)

lemma volume_row_key:
  assumes "row_key expand m row \<noteq> None" and "km_volumePRK m = Some vp" and "row_root row = 2"
  shows "\<exists>x. length x = 32 \<and> expand (if row_root row = 1 then rp else vp) (scheduleInfo row)
      (unat (req_OutputBytes (row_request row))) = Some x"
  using assms by (auto simp: row_key_def prk_of_def split: option.splits if_splits)

lemma with_keys_rows: "map fst (km_keys (with_keys root expand m)) = map fst (km_keys m)"
  by (simp add: with_keys_def comp_def case_prod_beta)

lemma with_keys_fields [simp]:
  "km_credentialRoot (with_keys root expand m) = km_credentialRoot m"
  "km_volumeKey (with_keys root expand m) = km_volumeKey m"
  "km_credentialPRK (with_keys root expand m) = km_credentialPRK m"
  "km_volumePRK (with_keys root expand m) = km_volumePRK m"
  "km_volumeID (with_keys root expand m) = km_volumeID m"
  by (simp_all add: with_keys_def)

lemma expandable_row_key:
  assumes "expandable root expand m" and "map fst (km_keys m) = rows" and "row \<in> set rows" and "row_root row = root"
  shows "row_key expand m row \<noteq> None"
proof -
  have "row \<in> fst ` set (km_keys m)" using assms(2,3) by (metis list.set_map)
  then obtain x where "(row, x) \<in> set (km_keys m)" by auto
  with assms(1,4) show ?thesis unfolding expandable_def by fastforce
qed

lemma staged_derivation_Inr:
  assumes s: "two_roots s" and m0: "newKeyMaterial (Some s) vid = Inr m0"
    and run: "staged_derivation root key extract expand m0 = (Inr u, m)"
  shows "deriveKeyMaterialWith (Some s) root key vid extract expand = Inr m"
proof -
  from run obtain m1 m2 m3 where
    1: "deriveCredentialRootStageWith root extract m0 = (Inr (), m1)"
    and 2: "expandKeyMaterialWith scheduleRootCredential expand m1 = (Inr (), m2)"
    and 3: "deriveVolumeKeyStageWith key extract m2 = (Inr (), m3)"
    and 4: "expandKeyMaterialWith scheduleRootVolume expand m3 = (Inr (), m)"
    unfolding staged_derivation_def io_bind_eq_Inr by (metis (full_types) old.unit.exhaust)
  obtain r rp where r: "root = Some (Some r)" "length r = 32" "extract r (km_volumeID m0) = Some rp" "length rp = 32"
    and m1: "m1 = m0\<lparr>km_credentialRoot := root, km_credentialPRK := Some rp\<rparr>"
    using 1 unfolding deriveCredentialRootStageWith_Inr by blast
  have e1: "expandable 1 expand m1" and m2: "m2 = with_keys 1 expand m1"
    using 2 unfolding expandKeyMaterialWith_Inr by blast+
  obtain k vp where k: "key = Some (Some k)" "length k = 32" "extract k (km_volumeID m2) = Some vp" "length vp = 32"
    and m3: "m3 = m2\<lparr>km_volumeKey := key, km_volumePRK := Some vp\<rparr>"
    using 3 unfolding deriveVolumeKeyStageWith_Inr by blast
  have e2: "expandable 2 expand m3" using 4 unfolding expandKeyMaterialWith_Inr by blast
  have vid: "km_volumeID m0 = vid" "length vid = 32" "vs_rows s \<noteq> []" "map fst (km_keys m0) = vs_rows s"
    using m0 by (auto simp: newKeyMaterial_Inr comp_def)
  have vid2: "km_volumeID m2 = vid" using vid(1) by (simp add: m2 m1)
  have rows1: "map fst (km_keys m1) = vs_rows s" using vid(4) by (simp add: m1)
  have rows3: "map fst (km_keys m3) = vs_rows s" using rows1 by (simp add: m3 m2 with_keys_rows)
  have keys: "expands_to_keys s rp vp expand"
    unfolding expands_to_keys_def
  proof
    fix row
    assume row: "row \<in> set (vs_rows s)"
    show "\<exists>x. length x = 32 \<and> expand (if row_root row = 1 then rp else vp) (scheduleInfo row)
      (unat (req_OutputBytes (row_request row))) = Some x"
    proof (cases "row_root row = 1")
      case True
      have "km_credentialPRK m1 = Some rp" by (simp add: m1)
      from credential_row_key [OF expandable_row_key [OF e1 rows1 row True] this True] show ?thesis .
    next
      case False
      with s row have 2: "row_root row = 2" unfolding two_roots_def by blast
      have "km_volumePRK m3 = Some vp" by (simp add: m3)
      from volume_row_key [OF expandable_row_key [OF e2 rows3 row 2] this 2] show ?thesis .
    qed
  qed
  have one: "deriveKeyMaterialWith (Some s) root key vid extract expand = Inr (derived_material s r k rp vp vid expand)"
    unfolding deriveKeyMaterialWith_Inr [OF s]
    using r k vid(1-3) vid2 keys by (intro conjI exI [of _ r] exI [of _ k] exI [of _ rp] exI [of _ vp]) simp_all
  have "m = derived_material s r k rp vp vid expand"
    using staged_derivation_agrees [OF s one m0] run by simp
  with one show ?thesis by simp
qed

text \<open>The two halves of the staged derivation.\<close>

lemma staged_derivation_halves:
  "staged_derivation root key extract expand m0 = (Inr (), m) \<longleftrightarrow>
     (\<exists>m1. io_bind (deriveCredentialRootStageWith root extract) (\<lambda>_.
             expandKeyMaterialWith scheduleRootCredential expand) m0 = (Inr (), m1) \<and>
           io_bind (deriveVolumeKeyStageWith key extract) (\<lambda>_.
             expandKeyMaterialWith scheduleRootVolume expand) m1 = (Inr (), m))"
  unfolding staged_derivation_def io_bind_eq_Inr by auto

section \<open>The input of the derivation\<close>

lemma length_concat_digests: "\<forall>d \<in> set ds. length d = 32 \<Longrightarrow> length (concat ds) = length ds * 32"
  by (induction ds) auto

lemma length_serialize: "\<forall>d \<in> set ds. length d = 32 \<Longrightarrow> length (serialize m k p ds) = 10 + length p + length ds * 32"
  by (simp add: serialize_def length_concat_digests)

abbreviation canonicalizer :: "credential_libs \<Rightarrow> byte list \<Rightarrow> Rejection option + byte list" where
  "canonicalizer L \<equiv> \<lambda>pw. map_err Some (Canonicalize (cl_assigned L) (cl_nfc L) pw)"

lemma credential_input_Inr:
  "credential_input L suite f = Inr input \<longleftrightarrow>
     (\<exists>t. newCanonicalTranscript (Some (canonicalizer L)) (Some f) = Inr t \<and>
        input = cl_sha3_512 L (normalInputDomain @ t))"
proof -
  have "10 \<le> length t \<and> length t \<le> 10 + 1048576 + 64 * 32"
    if "newCanonicalTranscript (Some (canonicalizer L)) (Some f) = Inr t" for t
  proof -
    obtain xs q where f: "well_formed_factors f xs" "canonical_password (canonicalizer L) (vf_password f) = Inr q"
      "t = serialize (vf_mode f) (vf_keyfileMode f) q (canonical_order (vf_keyfileMode f) xs)"
      using \<open>newCanonicalTranscript _ _ = Inr t\<close> newCanonicalTranscript_Inr by blast
    note b = well_formed_bounds [OF f(1)]
    have "length q \<le> 1048576" using f(2) by (auto simp: canonical_password_Inr split: if_splits)
    then show ?thesis using b(1) by (simp add: f(3) length_serialize [OF b(4)] b(2))
  qed
  then have consume: "fst (NewCredentialInputNormal (cl_sha3_512 L) (Some t)) = Inr (cl_sha3_512 L (normalInputDomain @ t))"
    if "newCanonicalTranscript (Some (canonicalizer L)) (Some f) = Inr t" for t
    using that by (fastforce simp: NewCredentialInputNormal_def consumeCanonicalTranscript_def credentialInputDigest_def)
  show ?thesis
    unfolding credential_input_def NewCanonicalTranscript_def Let_def ebind_eq_Inr map_err_eq_Inr
    using consume by (metis (no_types, lifting) sum.inject(2))
qed

text \<open>The same credential, entered twice: the canonical passwords agree, and the contents of the
  keyfiles, in order or as a multiset.\<close>

definition same_credential :: "credential_libs \<Rightarrow> FactorRequest \<Rightarrow> byte list list \<Rightarrow> FactorRequest \<Rightarrow> byte list list \<Rightarrow> bool" where
  "same_credential L q cs q' cs' \<longleftrightarrow>
     fr_Mode q' = fr_Mode q \<and> fr_KeyfileMode q' = fr_KeyfileMode q \<and> fr_ExpectedPolicy q' = fr_ExpectedPolicy q \<and>
     canonical_password (canonicalizer L) (fr_Password q') = canonical_password (canonicalizer L) (fr_Password q) \<and>
     (if fr_KeyfileMode q = KeyfileModeUnordered then mset cs' = mset cs else cs' = cs)"

lemma same_credential_input:
  assumes input: "credential_input L suite (loaned q (cl_sha3_256 L) cs) = Inr input"
    and same: "same_credential L q cs q' cs'"
    and wf: "well_formed_factors (loaned q' (cl_sha3_256 L) cs') (map (keyfile_digest (cl_sha3_256 L)) cs')"
  shows "credential_input L suite (loaned q' (cl_sha3_256 L) cs') = Inr input"
proof -
  let ?f = "loaned q (cl_sha3_256 L) cs" and ?g = "loaned q' (cl_sha3_256 L) cs'"
  let ?d = "map (keyfile_digest (cl_sha3_256 L))"
  obtain t where t: "newCanonicalTranscript (Some (canonicalizer L)) (Some ?f) = Inr t"
    "input = cl_sha3_512 L (normalInputDomain @ t)"
    using input by (auto simp: credential_input_Inr)
  obtain xs p where f: "well_formed_factors ?f xs" "canonical_password (canonicalizer L) (vf_password ?f) = Inr p"
    "t = serialize (vf_mode ?f) (vf_keyfileMode ?f) p (canonical_order (vf_keyfileMode ?f) xs)"
    using t(1) newCanonicalTranscript_Inr by blast
  have xs: "xs = ?d cs"
  proof -
    have "map Some xs = map Some (?d cs)" using f(1) by (simp add: well_formed_factors_def loaned_def comp_def)
    then show ?thesis by (simp only: inj_map_eq_map [OF inj_Some])
  qed
  have "canonical_order (fr_KeyfileMode q) (?d cs') = canonical_order (fr_KeyfileMode q) (?d cs)"
    using same by (auto simp: canonical_order_eq same_digests_def same_credential_def)
  then have "newCanonicalTranscript (Some (canonicalizer L)) (Some ?g) = Inr t"
    unfolding newCanonicalTranscript_Inr using wf f(2,3) same xs
    by (intro exI [of _ "?d cs'"] exI [of _ p]) (simp add: same_credential_def loaned_def)
  with t(2) show ?thesis by (auto simp: credential_input_Inr)
qed

section \<open>What a created credential rests on\<close>

lemma io_map_err_Inr: "io_map_err g m w = (Inr v, w') \<longleftrightarrow> m w = (Inr v, w')"
  by (cases "m w"; cases "fst (m w)") (auto simp: io_map_err_def)

lemma runFixedProfileKDF_Inr:
  assumes "derive_root input salt suite admitter derive w = (Inr root, w')" and "length salt = 16"
  obtains profile d where "fixedProfileForSuite suite = Inr profile" "derive = Some d" "length input = 64"
    "derives d input salt profile root"
proof -
  from assms(1) obtain v where "runCredentialKDF (Some input) salt suite admitter derive v = (Inr root, w')"
    by (auto simp: derive_root_def io_bind_eq_Inr io_map_err_Inr)
  then have run: "runFixedProfileKDFBorrowed input salt suite admitter derive v = (Inr root, w')"
    by (auto simp: runCredentialKDF_def input_consume_def runCredentialKDFBorrowed_def split: if_splits prod.splits)
  then obtain profile where p: "fixedProfileForSuite suite = Inr profile"
    "runProfileKDFBorrowed input salt suite profile admitter derive v = (Inr root, w')"
    by (auto simp: runFixedProfileKDFBorrowed_def io_bind_eq_Inr io_lift_def)
  note f = fixedProfileForSuite_Inr [OF p(1)]
  from runProfileKDFBorrowed_runs [OF p(2)] obtain d out where "length input = 64" "derive = Some d"
    "d input (fit 16 salt) profile = (out, None)" "length out = 32" "root = fit 32 out"
    using f(3) by auto
  with p(1) assms(2) that [of profile d] show thesis by (simp add: derives_def fit_exact)
qed

lemma readPipelineEntropy_Inr:
  "readPipelineEntropy n suite stage w = (Inr bytes, w') \<Longrightarrow> length bytes = n"
  by (auto simp: readPipelineEntropy_def read_entropy_def io_bind_eq_Inr split: if_splits)

lemma create_owner_Inr:
  assumes "create_owner L suite keyRequests admitter derive (deriveKeyMaterial extract expand) f w = (Inr owner, w')"
  obtains schedule input salt vid vk profile d root material where
    "validateKeySchedule suite keyRequests = Inr schedule" "credential_input L suite f = Inr input"
    "length input = 64" "length salt = 16" "length vid = 32" "length vk = 32"
    "fixedProfileForSuite suite = Inr profile" "derive = Some d" "derives d input salt profile root"
    "deriveKeyMaterialWith (Some schedule) (Some (Some root)) (Some (Some vk)) vid extract expand = Inr material"
    "newOwner (owner_metadata suite f salt vid) (Some material) = Inr owner"
proof -
  from assms obtain schedule input salt vid vk root material v1 v2 v3 v4 v5 v6 where
    "validateKeySchedule suite keyRequests = Inr schedule" "credential_input L suite f = Inr input"
    and e: "readPipelineEntropy 16 suite PipelineStageArgonSalt v1 = (Inr salt, v2)"
      "readPipelineEntropy 32 suite PipelineStageVolumeID v2 = (Inr vid, v3)"
      "readPipelineEntropy 32 suite PipelineStageVolumeKey v3 = (Inr vk, v4)"
    and kdf: "derive_root input salt suite admitter derive v4 = (Inr root, v5)"
    and rest: "deriveKeyMaterialWith (Some schedule) (Some (Some root)) (Some (Some vk)) vid extract expand = Inr material"
      "newOwner (owner_metadata suite f salt vid) (Some material) = Inr owner"
    unfolding create_owner_def io_bind_eq_Inr io_lift_def deriveKeyMaterial_def
    by clarsimp
  moreover note readPipelineEntropy_Inr [OF e(1)] readPipelineEntropy_Inr [OF e(2)] readPipelineEntropy_Inr [OF e(3)]
  moreover obtain profile d where "fixedProfileForSuite suite = Inr profile" "derive = Some d" "length input = 64"
    "derives d input salt profile root"
    using runFixedProfileKDF_Inr [OF kdf] calculation by blast
  ultimately show thesis using that by blast
qed

section \<open>When a reader succeeds\<close>

text \<open>A world that neither cancels nor keeps the lease away.\<close>

definition calm :: "credential_world \<Rightarrow> bool" where
  "calm w \<longleftrightarrow> ctx_quiet w \<and> (\<forall>t. cw_lease w t)"

definition grants :: "Admitter \<Rightarrow> bool" where
  "grants admitter \<longleftrightarrow> (\<forall>t profile. admitter t profile = (KDFAdmissionGranted, None))"

lemma calm_step: "calm w \<Longrightarrow> cw_ctx w' = cw_ctx w \<Longrightarrow> cw_lease w' = cw_lease w \<Longrightarrow> calm w'"
  by (simp add: calm_def ctx_quiet_def)

lemma cpoll_calm: "calm w \<Longrightarrow> cpoll e w = (Inr (), w\<lparr>cw_tick := cw_tick w + 1\<rparr>)"
  by (simp add: calm_def cpoll_def ctx_quiet_poll)

lemma derive_root_completes:
  assumes "calm w" and "length input = 64" and "length salt = 16" and "fixedProfileForSuite suite = Inr profile"
    and "grants admitter" and "derives d input salt profile root"
  obtains w' where "derive_root input salt suite (Some admitter) (Some d) w = (Inr root, w')" "calm w'"
    "cw_readers w' = cw_readers w" "cw_entropy w' = cw_entropy w"
proof -
  let ?w = "w\<lparr>cw_tick := cw_tick w + 1\<rparr>"
  note f = fixedProfileForSuite_Inr [OF assms(4)]
  have q: "ctx_quiet ?w" "\<forall>t. cw_lease ?w t" using assms(1) by (simp_all add: calm_def ctx_quiet_def)
  from runProfileKDFBorrowed_completes [OF q assms(2,3) f(2,3) _ assms(6), of admitter suite] assms(5)
  obtain w' where w': "runProfileKDFBorrowed input salt suite profile (Some admitter) (Some d) ?w = (Inr root, w')"
    "events_only [Acquired, Admission profile, Derivation profile, Released] ?w w'"
    by (auto simp: grants_def)
  then have "derive_root input salt suite (Some admitter) (Some d) w = (Inr root, w')"
    using assms(2,4) by (simp add: derive_root_def io_bind_def cpoll_calm [OF assms(1)] io_map_err_def runCredentialKDF_def
        input_consume_def runCredentialKDFBorrowed_def runFixedProfileKDFBorrowed_def io_lift_def)
  moreover have "calm w'" by (rule calm_step [OF assms(1)]) (use w'(2) in \<open>simp_all add: events_only_def\<close>)
  ultimately show thesis using w'(2) that by (simp add: events_only_def)
qed

definition reader_started :: "OwnerMetadata \<Rightarrow> keyMaterial \<Rightarrow> extractor \<Rightarrow> expander \<Rightarrow> readerCredentialState" where
  "reader_started metadata material extract expand =
     \<lparr>rs_active = True, rs_adopting = False, rs_borrows = 0, rs_metadata = metadata, rs_material = Some material,
      rs_owner = None, rs_extract = extract, rs_expand = expand, rs_loans = []\<rparr>"

text \<open>A callback that leaves an owner behind, with every borrow ended, in every calm world.\<close>

definition delivers_owner :: "('e, unit) reader_io \<Rightarrow> readerCredentialState \<Rightarrow> ownerState \<Rightarrow> bool" where
  "delivers_owner callback st owner \<longleftrightarrow> (\<forall>w. calm w \<longrightarrow> (\<exists>w' st'.
     callback (w, st) = (Inr (), (w', st')) \<and> calm w' \<and> rs_active st' \<and> \<not> rs_adopting st' \<and>
     rs_borrows st' = 0 \<and> rs_owner st' = Some owner))"

lemma calm_tick: "calm w \<Longrightarrow> calm (w\<lparr>cw_tick := t\<rparr>)"
  by (simp add: calm_def ctx_quiet_def)

lemma withReaderCredentialRoot_completes:
  assumes "calm w" and "newKeyMaterial (Some s) (om_VolumeID metadata) = Inr m0"
    and "io_bind (deriveCredentialRootStageWith (Some (Some root)) extract) (\<lambda>_.
           expandKeyMaterialWith scheduleRootCredential expand) m0 = (Inr (), m1)"
    and "delivers_owner callback (reader_started metadata m1 extract expand) owner"
    and "seam_extract seams = Some extract" and "seam_expand seams = Some expand"
  shows "\<exists>w'. withReaderCredentialRoot root (Some s) metadata (Some callback) seams w = (Inr (Some owner), w')"
proof -
  let ?w1 = "w\<lparr>cw_tick := Suc (cw_tick w)\<rparr>" and ?w2 = "w\<lparr>cw_tick := Suc (Suc (cw_tick w))\<rparr>"
  have c: "calm ?w1" "calm ?w2" using assms(1) by (simp_all add: calm_tick)
  have ctx: "cw_ctx w \<noteq> None" using assms(1) by (auto simp: calm_def ctx_quiet_def)
  have new: "newReaderCredentialRoot root (Some s) metadata seams w = (Inr (reader_started metadata m1 extract expand), ?w1)"
    using ctx assms(2,3,5,6)
    by (simp add: newReaderCredentialRoot_def Let_def reader_started_def io_bind_def cpoll_calm [OF assms(1)])
  obtain w3 st where cb: "callback (?w2, reader_started metadata m1 extract expand) = (Inr (), (w3, st))" "calm w3"
    "rs_active st" "\<not> rs_adopting st" "rs_borrows st = 0" "rs_owner st = Some owner"
    using assms(4) c(2) unfolding delivers_owner_def by blast
  then show ?thesis
    by (simp add: withReaderCredentialRoot_def Let_def io_bind_def new takeOwner_def cpoll_calm [OF c(1)] cpoll_calm [OF cb(2)])
qed

lemma good_factors_tick: "good_factors sha3 w q cs \<Longrightarrow> good_factors sha3 (w\<lparr>cw_tick := t\<rparr>) q cs"
proof -
  have "ticks_only w (w\<lparr>cw_tick := t\<rparr>)" by (auto simp: ticks_only_def)
  note quiet_ticks [OF this] ticks_only_content(2) [OF this] closes_cleanly_ticks [OF this]
  then show "good_factors sha3 w q cs \<Longrightarrow> good_factors sha3 (w\<lparr>cw_tick := t\<rparr>) q cs"
    by (simp add: good_factors_def)
qed

definition reader_request_for :: "OwnerMetadata \<Rightarrow> KDFProfile \<Rightarrow> FactorRequest \<Rightarrow> ReaderCredentialRequest" where
  "reader_request_for metadata profile q =
     \<lparr>rq_Suite = om_Suite metadata, rq_ProfileID = kp_ID profile, rq_Factors = Some q,
      rq_ClaimedPolicy = om_ExpectedPolicy metadata, rq_ArgonSalt = om_ArgonSalt metadata,
      rq_VolumeID = om_VolumeID metadata\<rparr>"

lemma length_owner_metadata [simp]:
  "length (om_ArgonSalt (owner_metadata suite f salt vid)) = 16"
  "length (om_VolumeID (owner_metadata suite f salt vid)) = 32"
  by (simp_all add: owner_metadata_def)

lemma owner_metadata_again:
  "length salt = 16 \<Longrightarrow> length vid = 32 \<Longrightarrow>
     om_ArgonSalt (owner_metadata suite f salt vid) = salt \<and> om_VolumeID (owner_metadata suite f salt vid) = vid"
  by (simp add: owner_metadata_def fit_exact)

lemma newReaderCredential_completes:
  assumes good: "good_factors (cl_sha3_256 L) w q cs" and "\<forall>t. cw_lease w t"
    and "length salt = 16" and vid: "length vid = 32" and p: "fixedProfileForSuite suite = Inr profile"
    and "length input = 64" and input: "credential_input L suite (loaned q (cl_sha3_256 L) cs) = Inr input"
    and "grants admitter" and d: "seam_derive seams = Some d" "derives d input salt profile root"
    and "fullReaderSchedule suite = Inr s" and new: "newKeyMaterial (Some s) vid = Inr m0"
    and stage: "io_bind (deriveCredentialRootStageWith (Some (Some root)) extract) (\<lambda>_.
           expandKeyMaterialWith scheduleRootCredential expand) m0 = (Inr (), m1)"
    and x: "seam_extract seams = Some extract" "seam_expand seams = Some expand"
    and rq: "rq = \<lparr>rq_Suite = suite, rq_ProfileID = kp_ID profile, rq_Factors = Some q,
      rq_ClaimedPolicy = fr_ExpectedPolicy q, rq_ArgonSalt = salt, rq_VolumeID = vid\<rparr>"
    and meta: "metadata = owner_metadata suite (loaned q (cl_sha3_256 L) cs) salt vid"
    and cb: "delivers_owner callback (reader_started metadata m1 extract expand) owner"
  shows "\<exists>q' w'. newReaderCredential L (Some rq) (Some admitter) (Some callback) seams w = ((Inr owner, q'), w')"
proof -
  let ?w = "w\<lparr>cw_tick := cw_tick w + 1\<rparr>"
  let ?cb = "reader_owner L suite salt vid s (Some admitter) (Some callback) seams"
  have quiet: "ctx_quiet w" using good by (simp add: good_factors_def)
  obtain w1 where w1: "ctx_quiet w1" "readers_released (fr_Keyfiles q) ?w w1"
    and run: "\<And>t w2. ?cb (loaned q (cl_sha3_256 L) cs) w1 = (t, w2) \<Longrightarrow>
      \<exists>q1. withValidatedFactors (cl_sha3_256 L) (Some q) (Some ?cb) ?w =
        ((case t of Inl e \<Rightarrow> Inl (CallbackFailure e) | Inr v \<Rightarrow> Inr v, Some q1), w2)"
    by (rule withValidatedFactors_completes [OF good_factors_tick [OF good]]) blast
  have "calm w1" using w1 assms(2) by (simp add: calm_def readers_released_def)
  then obtain w2 where root: "derive_root input salt suite (Some admitter) (Some d) w1 = (Inr root, w2)" "calm w2"
    by (rule derive_root_completes [OF _ assms(6,3) p assms(8) d(2)])
  have "newKeyMaterial (Some s) (om_VolumeID metadata) = Inr m0"
    using new vid assms(3) owner_metadata_again by (simp add: meta)
  from withReaderCredentialRoot_completes [OF root(2) this stage cb x] obtain w3 where
    "withReaderCredentialRoot root (Some s) metadata (Some callback) seams w2 = (Inr (Some owner), w3)" by blast
  then have "?cb (loaned q (cl_sha3_256 L) cs) w1 = (Inr owner, w3)"
    using root(1) d(1) by (simp add: reader_owner_def input io_bind_def io_lift_def meta [symmetric])
  from run [OF this] obtain q1 where "withValidatedFactors (cl_sha3_256 L) (Some q) (Some ?cb) ?w = ((Inr owner, Some q1), w3)"
    by auto
  moreover have "validFactorPolicy (fr_ExpectedPolicy q)"
    using good by (auto simp: good_factors_def acceptable_factors_def validFactorPolicy_def)
  moreover obtain answers where "cw_ctx w = Some answers" using quiet by (auto simp: ctx_quiet_def)
  moreover have "unat (kp_SaltBytes profile) = 16" using fixedProfileForSuite_Inr(2) [OF p] by simp
  ultimately show ?thesis
    using assms(3,11) vid p d(1) x quiet
    by (simp add: newReaderCredential_def rq Let_def ctx_quiet_poll)
qed

section \<open>The same credential gives the same owner\<close>

definition credential_request :: "u16 \<Rightarrow> FactorRequest \<Rightarrow> KeyRequest list \<Rightarrow> CredentialRequest" where
  "credential_request suite q requests = \<lparr>cq_Suite = suite, cq_Factors = Some q, cq_KeyRequests = requests\<rparr>"

text \<open>What a created owner was derived from.\<close>

definition derived_owner ::
  "credential_libs \<Rightarrow> kdfDeriver \<Rightarrow> extractor \<Rightarrow> expander \<Rightarrow> u16 \<Rightarrow> validatedSchedule \<Rightarrow> FactorRequest \<Rightarrow> byte list list \<Rightarrow>
   byte list \<Rightarrow> byte list \<Rightarrow> byte list \<Rightarrow> byte list \<Rightarrow> byte list \<Rightarrow> keyMaterial \<Rightarrow> ownerState \<Rightarrow> bool" where
  "derived_owner L argon2id extract expand suite schedule q cs input salt vid vk root material owner \<longleftrightarrow>
     credential_input L suite (loaned q (cl_sha3_256 L) cs) = Inr input \<and> length input = 64 \<and>
     length salt = 16 \<and> length vid = 32 \<and> length vk = 32 \<and>
     (\<exists>profile. fixedProfileForSuite suite = Inr profile \<and> derives argon2id input salt profile root) \<and>
     deriveKeyMaterialWith (Some schedule) (Some (Some root)) (Some (Some vk)) vid extract expand = Inr material \<and>
     newOwner (owner_metadata suite (loaned q (cl_sha3_256 L) cs) salt vid) (Some material) = Inr owner"

lemma NewCredential_Inr:
  assumes "NewCredential L argon2id extract expand (Some (credential_request suite q requests)) admitter w =
      ((Inr owner, q'), w')"
  obtains cs schedule input salt vid vk root material where
    "map (reader_content w) (fr_Keyfiles q) = map Some cs"
    "validateKeySchedule suite requests = Inr schedule"
    "derived_owner L argon2id extract expand suite schedule q cs input salt vid vk root material owner"
proof -
  let ?cb = "create_owner L suite requests admitter (Some argon2id) (deriveKeyMaterial extract expand)"
  from assms have run: "withValidatedFactors (cl_sha3_256 L) (Some q) (Some ?cb) w = ((Inr owner, q'), w')"
    by (auto simp: NewCredential_def newCredential_def credential_request_def Let_def split: if_splits prod.splits)
  then show thesis
  proof (cases rule: withValidatedFactors_runs)
    case (ran q1 cb cs w1 s)
    then have "?cb (loaned q (cl_sha3_256 L) cs) w1 = (Inr owner, w')" by (cases s) auto
    then show thesis
    proof (cases rule: create_owner_Inr)
      case (1 schedule input salt vid vk profile d root material)
      moreover have "map (reader_content w) (fr_Keyfiles q) = map Some cs" using ran(7) by (simp add: contents_def)
      ultimately show thesis using that unfolding derived_owner_def by blast
    qed
  qed (auto simp: factor_refusal_def)
qed

lemma deriveKeyMaterialWith_volume_key:
  assumes "two_roots s" and "deriveKeyMaterialWith (Some s) root (Some (Some vk)) vid extract expand = Inr m"
  shows "km_volumeKey m = Some (Some vk)" and "\<exists>m0. newKeyMaterial (Some s) vid = Inr m0"
  using assms(2) unfolding deriveKeyMaterialWith_Inr [OF assms(1)]
  by (auto simp: derived_material_def Let_def newKeyMaterial_Inr)

lemma fullReaderSchedule_two_roots: "fullReaderSchedule suite = Inr s \<Longrightarrow> two_roots s"
  by (auto simp: fullReaderSchedule_def ebind_eq_Inr dest: validateKeySchedule_two_roots)

lemma same_credential_metadata:
  assumes "same_credential L q cs q' cs'"
  shows "owner_metadata suite (loaned q' sha cs') salt vid = owner_metadata suite (loaned q sha cs) salt vid"
proof -
  have "length cs' = length cs" using assms by (auto simp: same_credential_def split: if_splits dest: mset_eq_length)
  then show ?thesis using assms by (simp add: owner_metadata_def loaned_def same_credential_def)
qed

text \<open>The two halves of the material of an owner: what the root gives, and what a callback adopts.\<close>

lemma derived_owner_halves:
  assumes D: "derived_owner L argon2id extract expand suite s q cs input salt vid vk root material owner"
    and "two_roots s"
  obtains m0 m1 where "newKeyMaterial (Some s) vid = Inr m0"
    "io_bind (deriveCredentialRootStageWith (Some (Some root)) extract) (\<lambda>_.
       expandKeyMaterialWith scheduleRootCredential expand) m0 = (Inr (), m1)"
    "adopted_owner (owner_metadata suite (loaned q (cl_sha3_256 L) cs) salt vid) extract expand vk m1 = Some owner"
    "os_material owner = Some material" "km_volumeKey material = Some (Some vk)" "os_loans owner = []"
    "os_closing owner = False"
proof -
  have one: "deriveKeyMaterialWith (Some s) (Some (Some root)) (Some (Some vk)) vid extract expand = Inr material"
    and own: "newOwner (owner_metadata suite (loaned q (cl_sha3_256 L) cs) salt vid) (Some material) = Inr owner"
    using D by (simp_all add: derived_owner_def)
  obtain m0 where m0: "newKeyMaterial (Some s) vid = Inr m0"
    using deriveKeyMaterialWith_volume_key(2) [OF assms(2) one] by blast
  from staged_derivation_agrees [OF assms(2) one m0] obtain m1 where
    1: "io_bind (deriveCredentialRootStageWith (Some (Some root)) extract) (\<lambda>_.
       expandKeyMaterialWith scheduleRootCredential expand) m0 = (Inr (), m1)"
    and 2: "io_bind (deriveVolumeKeyStageWith (Some (Some vk)) extract) (\<lambda>_.
             expandKeyMaterialWith scheduleRootVolume expand) m1 = (Inr (), material)"
    unfolding staged_derivation_halves by blast
  have "adopted_owner (owner_metadata suite (loaned q (cl_sha3_256 L) cs) salt vid) extract expand vk m1 = Some owner"
    unfolding adopted_owner_def 2 by (simp add: own)
  moreover have "os_material owner = Some material" "os_loans owner = []" "os_closing owner = False"
    using own by (auto simp: newOwner_def split: if_splits)
  ultimately show thesis using that m0 1 deriveKeyMaterialWith_volume_key(1) [OF assms(2) one] by blast
qed

text \<open>A reader with the same credential runs any callback that delivers the owner.\<close>

lemma reader_gets_owner:
  assumes D: "derived_owner L argon2id extract expand suite s q cs input salt vid vk root material owner"
    and s: "fullReaderSchedule suite = Inr s" and same: "same_credential L q cs q2 cs2"
    and good: "good_factors (cl_sha3_256 L) v q2 cs2" and lease: "\<forall>t. cw_lease v t"
    and sha: "\<And>x. length (cl_sha3_256 L x) = 32" and grants: "grants admitter"
    and p: "fixedProfileForSuite suite = Inr profile"
    and m0: "newKeyMaterial (Some s) vid = Inr m0"
    and m1: "io_bind (deriveCredentialRootStageWith (Some (Some root)) extract) (\<lambda>_.
       expandKeyMaterialWith scheduleRootCredential expand) m0 = (Inr (), m1)"
    and cb: "delivers_owner callback (reader_started (owner_metadata suite (loaned q (cl_sha3_256 L) cs) salt vid) m1 extract expand) owner2"
  shows "\<exists>q' v'. newReaderCredential L
      (Some (reader_request_for (owner_metadata suite (loaned q (cl_sha3_256 L) cs) salt vid) profile q2))
      (Some admitter) (Some callback)
      \<lparr>seam_derive = Some argon2id, seam_extract = Some extract, seam_expand = Some expand\<rparr> v = ((Inr owner2, q'), v')"
proof -
  have D': "credential_input L suite (loaned q (cl_sha3_256 L) cs) = Inr input" "length input = 64"
    "length salt = 16" "length vid = 32" "derives argon2id input salt profile root"
    using D p by (auto simp: derived_owner_def)
  have n: "length cs2 = length (fr_Keyfiles q2)" using good contents_length by (auto simp: good_factors_def)
  have "well_formed_factors (loaned q2 (cl_sha3_256 L) cs2) (map (keyfile_digest (cl_sha3_256 L)) cs2)"
    using good n by (intro loaned_well_formed sha) (auto simp: good_factors_def)
  then have input: "credential_input L suite (loaned q2 (cl_sha3_256 L) cs2) = Inr input"
    by (rule same_credential_input [OF D'(1) same])
  note again = owner_metadata_again [OF D'(3,4), of suite "loaned q (cl_sha3_256 L) cs"]
  have rq: "reader_request_for (owner_metadata suite (loaned q (cl_sha3_256 L) cs) salt vid) profile q2 =
      \<lparr>rq_Suite = suite, rq_ProfileID = kp_ID profile, rq_Factors = Some q2,
       rq_ClaimedPolicy = fr_ExpectedPolicy q2, rq_ArgonSalt = salt, rq_VolumeID = vid\<rparr>"
    using same again by (simp add: reader_request_for_def owner_metadata_def loaned_def same_credential_def)
  show ?thesis
    by (rule newReaderCredential_completes [OF good lease D'(3,4) p D'(2) input grants _ D'(5) s m0 m1 _ _ rq
          same_credential_metadata [OF same, symmetric] cb]) simp_all
qed

lemma delivers_adoption:
  assumes "length vk = 32" and "adopted_owner metadata extract expand vk m1 = Some owner"
  shows "delivers_owner (AdoptVolumeKey vk) (reader_started metadata m1 extract expand) owner"
  using assms by (auto simp: delivers_owner_def AdoptVolumeKey_def reader_started_def)

section \<open>Creation succeeds\<close>

lemma readPipelineEntropy_completes:
  assumes "calm w" and "n \<le> length (cw_entropy w)"
  obtains w' where "readPipelineEntropy n suite stage w = (Inr (take n (cw_entropy w)), w')" "calm w'"
    "cw_entropy w' = drop n (cw_entropy w)"
proof -
  let ?w1 = "w\<lparr>cw_tick := Suc (cw_tick w)\<rparr>"
  let ?w2 = "?w1\<lparr>cw_entropy := drop n (cw_entropy w)\<rparr>"
  have "calm ?w1" "calm ?w2" using assms(1) by (simp_all add: calm_def ctx_quiet_def)
  then have "readPipelineEntropy n suite stage w = (Inr (take n (cw_entropy w)), ?w2\<lparr>cw_tick := Suc (cw_tick ?w2)\<rparr>)"
    using assms by (simp add: readPipelineEntropy_def read_entropy_def io_bind_def cpoll_calm)
  then show thesis by (rule that) (use \<open>calm ?w2\<close> in \<open>simp_all add: calm_def ctx_quiet_def\<close>)
qed

text \<open>HKDF as documented: a pseudorandom key of 32 bytes, and as many bytes as asked for.\<close>

definition hkdf_ok :: "extractor \<Rightarrow> expander \<Rightarrow> bool" where
  "hkdf_ok extract expand \<longleftrightarrow>
     (\<forall>secret salt. \<exists>prk. extract secret salt = Some prk \<and> length prk = 32) \<and>
     (\<forall>prk info n. \<exists>key. expand prk info n = Some key \<and> length key = n)"

lemma schedule_rows:
  assumes "validateKeySchedule suite requests = Inr s"
  shows "vs_rows s \<noteq> []" "suite = 1 \<or> suite = 2"
    "row \<in> set (vs_rows s) \<Longrightarrow> row_suite row = suite \<and> req_OutputBytes (row_request row) = 32"
proof -
  obtain rows where r: "fixedScheduleForSuite suite = Inr rows" "requests \<noteq> []"
      "map (allowed_map rows) requests = map Some (vs_rows s)"
    using assms by (auto simp: validateKeySchedule_def ebind_eq_Inr canonicalRows_Inr split: if_splits)
  then show "vs_rows s \<noteq> []" by auto
  show "suite = 1 \<or> suite = 2" using r(1) by (auto simp: fixedScheduleForSuite_def Let_def split: if_splits)
  have all: "\<forall>row \<in> set rows. row_suite row = suite \<and> req_OutputBytes (row_request row) = 32"
    using r(1) by (auto simp: fixedScheduleForSuite_def Let_def schedule_row_def split: if_splits)
  assume "row \<in> set (vs_rows s)"
  then have "Some row \<in> set (map (allowed_map rows) requests)" using r(3) by simp
  then obtain request where "allowed_map rows request = Some row" by auto
  with allowed_map_row all show "row_suite row = suite \<and> req_OutputBytes (row_request row) = 32" by blast
qed

lemma deriveKeyMaterialWith_completes:
  assumes v: "validateKeySchedule suite requests = Inr s" and h: "hkdf_ok extract expand"
    and l: "length root = 32" "length vk = 32" "length vid = 32" and "om_Suite metadata = suite"
  obtains m where "deriveKeyMaterialWith (Some s) (Some (Some root)) (Some (Some vk)) vid extract expand = Inr m"
    "validOwnerMaterial metadata (Some m)"
proof -
  obtain rp vp where p: "extract root vid = Some rp" "length rp = 32" "extract vk vid = Some vp" "length vp = 32"
    using h unfolding hkdf_ok_def by metis
  note rows = schedule_rows [OF v]
  have ex: "\<exists>k. length k = 32 \<and> expand (if row_root row = 1 then rp else vp) (scheduleInfo row)
       (unat (req_OutputBytes (row_request row))) = Some k" if "row \<in> set (vs_rows s)" for row
  proof -
    have "unat (req_OutputBytes (row_request row)) = 32" using rows(3) [OF that] by simp
    then show ?thesis using h unfolding hkdf_ok_def by metis
  qed
  then have e: "expands_to_keys s rp vp expand" by (simp add: expands_to_keys_def)
  let ?m = "derived_material s root vk rp vp vid expand"
  have "deriveKeyMaterialWith (Some s) (Some (Some root)) (Some (Some vk)) vid extract expand = Inr ?m"
    unfolding deriveKeyMaterialWith_Inr [OF validateKeySchedule_two_roots [OF v]] using rows(1) l p e by auto
  moreover have "validOwnerMaterial metadata (Some ?m)"
    using ex rows l p assms(6)
    by (fastforce simp: validOwnerMaterial_def derived_material_def Let_def holds_secret_def list_all_iff)
  ultimately show thesis by (rule that)
qed

lemma owner_metadata_valid:
  assumes "acceptable_factors (fr_Mode q) (fr_KeyfileMode q) (fr_ExpectedPolicy q) (fr_Password q) (length cs)"
    and "suite = 1 \<or> suite = 2"
  shows "validOwnerMetadata (owner_metadata suite (loaned q sha cs) salt vid)"
proof -
  have "length cs \<le> 64" using assms(1) by (auto simp: acceptable_factors_def)
  from small_count_word [OF this] assms show ?thesis
    by (auto simp: validOwnerMetadata_def owner_metadata_def loaned_def acceptable_factors_def validFactorPolicy_def
        policyMatchesMode_def validCredentialFactors_def)
qed

lemma create_owner_completes:
  assumes "calm w" and "80 \<le> length (cw_entropy w)" and v: "validateKeySchedule suite requests = Inr s"
    and "credential_input L suite (loaned q sha cs) = Inr input" and "length input = 64"
    and "acceptable_factors (fr_Mode q) (fr_KeyfileMode q) (fr_ExpectedPolicy q) (fr_Password q) (length cs)"
    and "grants admitter" and "hkdf_ok extract expand" and p: "fixedProfileForSuite suite = Inr profile"
    and "\<And>salt. \<exists>root. derives argon2id input salt profile root"
  shows "\<exists>owner w'. create_owner L suite requests (Some admitter) (Some argon2id) (deriveKeyMaterial extract expand)
      (loaned q sha cs) w = (Inr owner, w')"
proof -
  let ?E = "cw_entropy w"
  obtain w1 where 1: "readPipelineEntropy 16 suite PipelineStageArgonSalt w = (Inr (take 16 ?E), w1)" "calm w1"
    "cw_entropy w1 = drop 16 ?E"
    by (rule readPipelineEntropy_completes [OF assms(1), of 16 suite PipelineStageArgonSalt]) (use assms(2) in auto)
  obtain w2 where 2: "readPipelineEntropy 32 suite PipelineStageVolumeID w1 = (Inr (take 32 (drop 16 ?E)), w2)" "calm w2"
    "cw_entropy w2 = drop 48 ?E"
    by (rule readPipelineEntropy_completes [OF 1(2), of 32 suite PipelineStageVolumeID]) (use assms(2) 1(3) in auto)
  obtain w3 where 3: "readPipelineEntropy 32 suite PipelineStageVolumeKey w2 = (Inr (take 32 (drop 48 ?E)), w3)" "calm w3"
    by (rule readPipelineEntropy_completes [OF 2(2), of 32 suite PipelineStageVolumeKey]) (use assms(2) 2(3) in auto)
  obtain root where root: "derives argon2id input (take 16 ?E) profile root" using assms(10) by blast
  obtain w4 where 4: "derive_root input (take 16 ?E) suite (Some admitter) (Some argon2id) w3 = (Inr root, w4)" "calm w4"
    by (rule derive_root_completes [OF 3(2) assms(5) _ p assms(7) root]) (use assms(2) in auto)
  let ?meta = "owner_metadata suite (loaned q sha cs) (take 16 ?E) (take 32 (drop 16 ?E))"
  obtain m where m: "deriveKeyMaterialWith (Some s) (Some (Some root)) (Some (Some (take 32 (drop 48 ?E))))
      (take 32 (drop 16 ?E)) extract expand = Inr m" "validOwnerMaterial ?meta (Some m)"
    by (rule deriveKeyMaterialWith_completes [OF v assms(8), of root "take 32 (drop 48 ?E)" "take 32 (drop 16 ?E)" ?meta])
      (use root assms(2) in \<open>auto simp: derives_def owner_metadata_def\<close>)
  obtain owner where owner: "newOwner ?meta (Some m) = Inr owner"
    using m(2) owner_metadata_valid [OF assms(6) schedule_rows(2) [OF v]] by (simp add: newOwner_def)
  have c: "calm (w4\<lparr>cw_tick := Suc (cw_tick w4)\<rparr>)" using 4(2) by (rule calm_tick)
  show ?thesis
    by (simp add: create_owner_def io_bind_def io_lift_def v assms(4) 1(1) 2(1) 3(1) 4(1) cpoll_calm [OF 4(2)]
        deriveKeyMaterial_def m(1) cpoll_calm [OF c] owner)
qed

lemma NewCredential_completes:
  assumes good: "good_factors (cl_sha3_256 L) w q cs" and "\<forall>t. cw_lease w t" and "80 \<le> length (cw_entropy w)"
    and "validateKeySchedule suite requests = Inr s"
    and "credential_input L suite (loaned q (cl_sha3_256 L) cs) = Inr input" and "length input = 64"
    and "grants admitter" and "hkdf_ok extract expand" and "fixedProfileForSuite suite = Inr profile"
    and "\<And>salt. \<exists>root. derives argon2id input salt profile root"
  shows "\<exists>owner q' w'. NewCredential L argon2id extract expand (Some (credential_request suite q requests))
      (Some admitter) w = ((Inr owner, q'), w')"
proof -
  let ?cb = "create_owner L suite requests (Some admitter) (Some argon2id) (deriveKeyMaterial extract expand)"
  obtain w1 where w1: "ctx_quiet w1" "readers_released (fr_Keyfiles q) w w1"
    and run: "\<And>t w2. ?cb (loaned q (cl_sha3_256 L) cs) w1 = (t, w2) \<Longrightarrow>
      \<exists>q1. withValidatedFactors (cl_sha3_256 L) (Some q) (Some ?cb) w =
        ((case t of Inl e \<Rightarrow> Inl (CallbackFailure e) | Inr v \<Rightarrow> Inr v, Some q1), w2)"
    by (rule withValidatedFactors_completes [OF good]) blast
  have "calm w1" "80 \<le> length (cw_entropy w1)" using w1 assms(2,3) by (simp_all add: calm_def readers_released_def)
  moreover have "length cs = length (fr_Keyfiles q)" using good contents_length by (auto simp: good_factors_def)
  then have "acceptable_factors (fr_Mode q) (fr_KeyfileMode q) (fr_ExpectedPolicy q) (fr_Password q) (length cs)"
    using good by (simp add: good_factors_def)
  ultimately obtain owner w2 where "?cb (loaned q (cl_sha3_256 L) cs) w1 = (Inr owner, w2)"
    using create_owner_completes assms(4-10) by blast
  from run [OF this] obtain q1 where "withValidatedFactors (cl_sha3_256 L) (Some q) (Some ?cb) w = ((Inr owner, Some q1), w2)"
    by auto
  moreover obtain answers where "cw_ctx w = Some answers" using good by (auto simp: good_factors_def ctx_quiet_def)
  ultimately show ?thesis by (simp add: NewCredential_def newCredential_def credential_request_def)
qed

section \<open>The properties\<close>

text \<open>The requests of the normal writer name the whole registry, in its order.\<close>

lemma normal_requests_schedule:
  assumes "normalWriteKeyRequests suite = Some requests"
  obtains s where "validateKeySchedule suite requests = Inr s" "fullReaderSchedule suite = Inr s"
proof -
  have suite: "suite = 1 \<or> suite = 2" using assms by (auto simp: normalWriteKeyRequests_def split: if_splits)
  then obtain rows where rows: "fixedScheduleForSuite suite = Inr rows" "map row_request rows = requests"
    using assms by (auto simp: normalWriteKeyRequests_def fixedScheduleForSuite_def schedule_row_def write_request_def)
  have "case fullReaderSchedule 1 of Inl e \<Rightarrow> False | Inr s \<Rightarrow> True"
    "case fullReaderSchedule 2 of Inl e \<Rightarrow> False | Inr s \<Rightarrow> True"
    by code_simp+
  with suite obtain s where "fullReaderSchedule suite = Inr s" by (auto split: sum.splits)
  with rows show thesis using that by (auto simp: fullReaderSchedule_def)
qed

text \<open>What the stages of a creation need, from what the request holds.\<close>

lemma request_accepted:
  assumes "good_factors (cl_sha3_256 L) w q cs" and "normalWriteKeyRequests suite = Some requests"
    and "canonical_password (canonicalizer L) (fr_Password q) = Inr p"
    and "\<forall>x. length (cl_sha3_256 L x) = 32 \<and> length (cl_sha3_512 L x) = 64"
  obtains s profile input where "validateKeySchedule suite requests = Inr s" "fixedProfileForSuite suite = Inr profile"
    "credential_input L suite (loaned q (cl_sha3_256 L) cs) = Inr input" "length input = 64"
proof -
  obtain s where s: "validateKeySchedule suite requests = Inr s"
    using normal_requests_schedule [OF assms(2)] .
  then have "suite = 1 \<or> suite = 2" by (rule schedule_rows(2))
  then obtain profile where profile: "fixedProfileForSuite suite = Inr profile" by (auto simp: fixedProfileForSuite_def)
  have "length cs = length (fr_Keyfiles q)" using assms(1) contents_length by (auto simp: good_factors_def)
  then have "well_formed_factors (loaned q (cl_sha3_256 L) cs) (map (keyfile_digest (cl_sha3_256 L)) cs)"
    using assms(1,4) by (intro loaned_well_formed) (auto simp: good_factors_def)
  then obtain input where "credential_input L suite (loaned q (cl_sha3_256 L) cs) = Inr input" "length input = 64"
    using assms(3,4) by (fastforce simp: credential_input_Inr newCanonicalTranscript_Inr loaned_def)
  with s profile show thesis using that by blast
qed

text \<open>C16: A credential can be created. If the context stays alive, the lease is granted, the factors
  are acceptable and read without error, the password has a canonical form, the admitter grants,
  the entropy source still delivers 80 bytes and the hashes and derivations have their documented
  lengths, then \<open>NewCredential\<close> with the requests of the normal writer returns an owner.
\<close>

lemma credential_creation_succeeds:
  assumes "good_factors (cl_sha3_256 L) w q cs" and "\<forall>t. cw_lease w t" and "80 \<le> length (cw_entropy w)"
    and "normalWriteKeyRequests suite = Some requests"
    and "canonical_password (canonicalizer L) (fr_Password q) = Inr p"
    and "\<forall>x. length (cl_sha3_256 L x) = 32 \<and> length (cl_sha3_512 L x) = 64"
    and "grants admitter" and "hkdf_ok extract expand"
    and "\<forall>input salt profile. \<exists>root. derives argon2id input salt profile root"
  shows "\<exists>owner q' w'. NewCredential L argon2id extract expand (Some (credential_request suite q requests))
      (Some admitter) w = ((Inr owner, q'), w')"
proof (rule request_accepted [OF assms(1,4,5,6)])
  fix s profile input
  assume a: "validateKeySchedule suite requests = Inr s" "fixedProfileForSuite suite = Inr profile"
    "credential_input L suite (loaned q (cl_sha3_256 L) cs) = Inr input" "length input = 64"
  show ?thesis
    by (rule NewCredential_completes [OF assms(1-3) a(1,3,4) assms(7,8) a(2)]) (use assms(9) in blast)
qed

text \<open>C10: The same credential gives back the same keys. Let a credential be created, and let its factors
  be presented again: the same modes and policy, a password with the same canonical form, and the
  same keyfiles, in any order when the keyfile mode is unordered. Then a reader started from the
  public metadata of the created owner, whose callback adopts the volume key of that owner, returns
  that very owner: the same metadata and all the keys.
\<close>

lemma same_credential_same_keys:
  assumes "NewCredential L argon2id extract expand (Some (credential_request suite q requests)) admitter w =
      ((Inr owner, q'), w')"
    and "normalWriteKeyRequests suite = Some requests"
    and "map (reader_content w) (fr_Keyfiles q) = map Some cs" and "same_credential L q cs q2 cs2"
    and "good_factors (cl_sha3_256 L) v q2 cs2" and "\<forall>t. cw_lease v t"
    and "\<forall>x. length (cl_sha3_256 L x) = 32" and "grants admitter2" and "fixedProfileForSuite suite = Inr profile"
  shows "\<exists>material vk q3 v'. os_material owner = Some material \<and> km_volumeKey material = Some (Some vk) \<and>
      newReaderCredential L (Some (reader_request_for (os_metadata owner) profile q2)) (Some admitter2)
        (Some (AdoptVolumeKey vk))
        \<lparr>seam_derive = Some argon2id, seam_extract = Some extract, seam_expand = Some expand\<rparr> v =
      ((Inr owner, q3), v')"
proof -
  obtain s where s: "validateKeySchedule suite requests = Inr s" "fullReaderSchedule suite = Inr s"
    using normal_requests_schedule [OF assms(2)] .
  obtain input salt vid vk root material where
    D: "derived_owner L argon2id extract expand suite s q cs input salt vid vk root material owner"
  proof (rule NewCredential_Inr [OF assms(1)])
    fix cs' schedule input salt vid vk root material
    assume a: "map (reader_content w) (fr_Keyfiles q) = map Some cs'" "validateKeySchedule suite requests = Inr schedule"
      "derived_owner L argon2id extract expand suite schedule q cs' input salt vid vk root material owner"
    have "map Some cs' = map Some cs" using a(1) assms(3) by simp
    then have "cs' = cs" by (simp only: inj_map_eq_map [OF inj_Some])
    with a s(1) show thesis using that by simp
  qed
  let ?meta = "owner_metadata suite (loaned q (cl_sha3_256 L) cs) salt vid"
  have meta: "os_metadata owner = ?meta" using D by (auto simp: derived_owner_def newOwner_def split: if_splits)
  have vk: "length vk = 32" using D by (simp add: derived_owner_def)
  show ?thesis
  proof (rule derived_owner_halves [OF D fullReaderSchedule_two_roots [OF s(2)]])
    fix m0 m1
    assume h: "newKeyMaterial (Some s) vid = Inr m0"
      "io_bind (deriveCredentialRootStageWith (Some (Some root)) extract) (\<lambda>_.
         expandKeyMaterialWith scheduleRootCredential expand) m0 = (Inr (), m1)"
      "adopted_owner ?meta extract expand vk m1 = Some owner"
      "os_material owner = Some material" "km_volumeKey material = Some (Some vk)"
    have "\<And>x. length (cl_sha3_256 L x) = 32" using assms(7) by blast
    from reader_gets_owner [OF D s(2) assms(4-6) this assms(8,9) h(1,2) delivers_adoption [OF vk h(3)]]
    show ?thesis using h(4,5) meta by auto
  qed
qed

section \<open>A concrete credential\<close>

definition demo_libs :: credential_libs where
  "demo_libs = \<lparr>cl_sha3_256 = demo_sha3, cl_sha3_512 = (\<lambda>bs. demo_sha3 bs @ demo_sha3 (rev bs)),
     cl_assigned = (\<lambda>_. True), cl_nfc = (\<lambda>bs. bs)\<rparr>"

definition demo_argon :: kdfDeriver where
  "demo_argon input salt profile = (fit 32 (rev input @ salt), None)"

definition demo_extract :: extractor where
  "demo_extract secret salt = Some (fit 32 (secret @ salt))"

definition demo_expand :: expander where
  "demo_expand prk info n = Some (fit n (rev info @ prk))"

abbreviation demo_requests :: "KeyRequest list" where
  "demo_requests \<equiv> the (normalWriteKeyRequests 1)"

text \<open>The same factors with the two keyfiles in the other order.\<close>

definition demo_reordered :: FactorRequest where
  "demo_reordered = demo_request\<lparr>fr_Keyfiles := [Some 1, Some 0]\<rparr>"

lemma demo_libs_lengths:
  "\<forall>x. length (cl_sha3_256 demo_libs x) = 32 \<and> length (cl_sha3_512 demo_libs x) = 64"
  by (simp add: demo_libs_def)

lemma demo_derivations:
  "hkdf_ok demo_extract demo_expand" "\<forall>input salt profile. \<exists>root. derives demo_argon input salt profile root"
  by (simp_all add: hkdf_ok_def demo_extract_def demo_expand_def derives_def demo_argon_def)

lemma demo_requests_normal: "normalWriteKeyRequests 1 = Some demo_requests"
  by (simp add: normalWriteKeyRequests_def)

lemma demo_password: "canonical_password (canonicalizer demo_libs) (fr_Password demo_request) = Inr [112, 119]"
  by (simp add: demo_request_def demo_libs_def canonical_password_def Canonicalize_def DecodeRune_def
      finishCanonicalization_def graphemeJoiner_def)

lemma demo_good_libs: "good_factors (cl_sha3_256 demo_libs) demo_world demo_request [[7, 8], [9, 9]]"
  using demo_good by (simp add: demo_libs_def)

lemma demo_good_reordered: "good_factors (cl_sha3_256 demo_libs) demo_world demo_reordered [[9, 9], [7, 8]]"
  by (simp add: good_factors_def ctx_quiet_def acceptable_factors_def contents_def reader_content_def demo_libs_def
      closes_cleanly_def readCloser_def demo_world_def demo_request_def demo_reordered_def demo_reader_def fit_def
      keyfile_digest_def demo_sha3_def take_Cons')

lemma demo_same: "same_credential demo_libs demo_request [[7, 8], [9, 9]] demo_reordered [[9, 9], [7, 8]]"
  by (simp add: same_credential_def demo_reordered_def add_mset_commute) (simp add: demo_request_def)

lemma demo_calm: "\<forall>t. cw_lease demo_world t" "80 \<le> length (cw_entropy demo_world)"
  by (simp_all add: demo_world_def)

definition demo_admitter :: Admitter where
  "demo_admitter t profile = (KDFAdmissionGranted, None)"

lemma demo_grants: "grants demo_admitter"
  by (simp add: grants_def demo_admitter_def)

lemma credential_creation_succeeds_witness:
  "\<exists>owner q' w'. NewCredential demo_libs demo_argon demo_extract demo_expand
      (Some (credential_request 1 demo_request demo_requests)) (Some demo_admitter) demo_world = ((Inr owner, q'), w')"
  by (rule credential_creation_succeeds [OF demo_good_libs demo_calm demo_requests_normal demo_password demo_libs_lengths
        demo_grants demo_derivations])

lemma same_credential_same_keys_witness:
  "\<exists>profile owner vk q3 v'. newReaderCredential demo_libs
      (Some (reader_request_for (os_metadata owner) profile demo_reordered)) (Some demo_admitter) (Some (AdoptVolumeKey vk))
      \<lparr>seam_derive = Some demo_argon, seam_extract = Some demo_extract, seam_expand = Some demo_expand\<rparr> demo_world =
    ((Inr owner, q3), v')"
proof (rule request_accepted [OF demo_good_libs demo_requests_normal demo_password demo_libs_lengths])
  fix s profile input
  assume a: "validateKeySchedule 1 demo_requests = Inr s" "fixedProfileForSuite 1 = Inr profile"
    "credential_input demo_libs 1 (loaned demo_request (cl_sha3_256 demo_libs) [[7, 8], [9, 9]]) = Inr input"
    "length input = 64"
  have "\<And>salt. \<exists>root. derives demo_argon input salt profile root" using demo_derivations(2) by blast
  from NewCredential_completes [OF demo_good_libs demo_calm a(1,3,4) demo_grants demo_derivations(1) a(2) this]
  obtain owner q' w' where run: "NewCredential demo_libs demo_argon demo_extract demo_expand
      (Some (credential_request 1 demo_request demo_requests)) (Some demo_admitter) demo_world = ((Inr owner, q'), w')"
    by blast
  have "map (reader_content demo_world) (fr_Keyfiles demo_request) = map Some [[7, 8], [9, 9]]"
    using demo_good by (simp add: good_factors_def contents_def)
  from same_credential_same_keys [OF run demo_requests_normal this demo_same demo_good_reordered demo_calm(1) _ demo_grants a(2)]
  show ?thesis using demo_libs_lengths by blast
qed

end
