(* ===== verification/Recovery_Types.thy ===== *)
theory Recovery_Types
  imports Recovery_Answers Pcv3_Result
begin

text \<open>
  What an explicit recovery is asked and what it answers (\<open>pcv3/recovery_types.go\<close>): the mode with
  its consent to unverified bytes, and the result with its evidence, which its constructors check.
  The states of a record are those of the recovery map; a nil result, whose accessors give zero
  values, is not represented. A request that has left its callback is \<open>expired_request\<close>.
\<close>

section \<open>Modes, provenance, states\<close>

abbreviation (input) RecoveryModeNormalV3 :: byte where "RecoveryModeNormalV3 \<equiv> 1"
abbreviation (input) RecoveryModeForce :: byte where "RecoveryModeForce \<equiv> 2"
abbreviation (input) RecoveryModeForceUnverified :: byte where "RecoveryModeForceUnverified \<equiv> 3"

datatype ForceProvenance =
  ForceProvenanceNone | ForceProvenanceVerified | ForceProvenancePartial | ForceProvenanceUnverified

datatype D1BootstrapProvenance =
    D1BootstrapProvenanceNone | D1BootstrapProvenanceFront | D1BootstrapProvenanceTail
  | D1BootstrapProvenanceMatching

datatype D1OuterProvenance = D1OuterProvenanceNone | D1OuterProvenanceRawSelected

text \<open>The final record: 0 is the zero value of the code.\<close>

abbreviation (input) RecoveryFinalVerified :: byte where "RecoveryFinalVerified \<equiv> 1"
abbreviation (input) RecoveryFinalUnverified :: byte where "RecoveryFinalUnverified \<equiv> 2"
abbreviation (input) RecoveryFinalMissing :: byte where "RecoveryFinalMissing \<equiv> 3"

definition validRecoveryFinalState :: "byte \<Rightarrow> bool" where
  "validRecoveryFinalState s \<longleftrightarrow>
     s = RecoveryFinalVerified \<or> s = RecoveryFinalUnverified \<or> s = RecoveryFinalMissing"

text \<open>The errors of a recovery: those of the records and of the map, and its own sentinels.\<close>

datatype recovery_error =
    Engine pcv3_error | RangesError map_error
  | InvalidForceAnalysis | InvalidRecoveryResult | InvalidRecoveryRequest

section \<open>Results\<close>

record RecoveryResult =
  rr_outcome :: Outcome
  rr_provenance :: ForceProvenance
  rr_stage :: Stage
  rr_d1BootstrapProvenance :: D1BootstrapProvenance
  rr_d1OuterProvenance :: D1OuterProvenance
  rr_detailStage :: Stage
  rr_plaintextLength :: u64
  rr_ranges :: "Map option"
  rr_final :: byte

definition validCanonicalRecoveryRanges :: "u64 \<Rightarrow> Map option \<Rightarrow> bool" where
  "validCanonicalRecoveryRanges plaintextLength ranges \<longleftrightarrow>
     ranges \<noteq> None \<and> map_PlaintextLength ranges = plaintextLength"

definition validRecoveryEvidence :: "Outcome \<Rightarrow> ForceProvenance \<Rightarrow> u64 \<Rightarrow> Map option \<Rightarrow> byte \<Rightarrow> bool" where
  "validRecoveryEvidence outcome provenance plaintextLength ranges final \<longleftrightarrow>
     (if provenance = ForceProvenanceNone
      then outcome \<noteq> OutcomeForcePartial \<and> outcome \<noteq> OutcomeForceUnverified \<and>
           plaintextLength = 0 \<and> ranges = None \<and> final = 0
      else if \<not> validCanonicalRecoveryRanges plaintextLength ranges \<or> \<not> validRecoveryFinalState final
      then False
      else
        let summary = map_Summary ranges;
            hasVerified = (final = RecoveryFinalVerified \<or> sum_Verified summary \<noteq> 0);
            hasUnverified = (final = RecoveryFinalUnverified \<or> sum_Unverified summary \<noteq> 0);
            hasDamage = (final \<noteq> RecoveryFinalVerified \<or> sum_Missing summary \<noteq> 0 \<or>
                         sum_Unverified summary \<noteq> 0)
        in (case provenance of
              ForceProvenanceVerified \<Rightarrow> outcome = OutcomeAuthenticatedDegraded \<and> \<not> hasDamage
            | ForceProvenancePartial \<Rightarrow> outcome = OutcomeForcePartial \<and> hasVerified \<and> hasDamage
            | ForceProvenanceUnverified \<Rightarrow>
                outcome = OutcomeForceUnverified \<and> \<not> hasVerified \<and> hasUnverified
            | ForceProvenanceNone \<Rightarrow> False))"

definition newRecoveryResult ::
  "Outcome \<Rightarrow> ForceProvenance \<Rightarrow> Stage \<Rightarrow> u64 \<Rightarrow> Map option \<Rightarrow> byte \<Rightarrow> recovery_error + RecoveryResult" where
  "newRecoveryResult outcome provenance stage plaintextLength ranges final =
     (if \<not> snd (codeFor outcome stage) \<or>
         \<not> validRecoveryEvidence outcome provenance plaintextLength ranges final
      then Inl InvalidRecoveryResult
      else Inr \<lparr>rr_outcome = outcome, rr_provenance = provenance, rr_stage = stage,
                rr_d1BootstrapProvenance = D1BootstrapProvenanceNone,
                rr_d1OuterProvenance = D1OuterProvenanceNone, rr_detailStage = StageNone,
                rr_plaintextLength = plaintextLength, rr_ranges = ranges, rr_final = final\<rparr>)"

section \<open>Results of the deniable container\<close>

definition isPhysicalD1BootstrapProvenance :: "D1BootstrapProvenance \<Rightarrow> bool" where
  "isPhysicalD1BootstrapProvenance p \<longleftrightarrow> p = D1BootstrapProvenanceFront \<or> p = D1BootstrapProvenanceTail"

definition isSelectedD1BootstrapProvenance :: "D1BootstrapProvenance \<Rightarrow> bool" where
  "isSelectedD1BootstrapProvenance p \<longleftrightarrow>
     isPhysicalD1BootstrapProvenance p \<or> p = D1BootstrapProvenanceMatching"

definition validD1ProvenanceForOutcome :: "Outcome \<Rightarrow> D1BootstrapProvenance \<Rightarrow> bool" where
  "validD1ProvenanceForOutcome outcome p \<longleftrightarrow>
     (if outcome = OutcomeForceUnverified then isPhysicalD1BootstrapProvenance p
      else isSelectedD1BootstrapProvenance p)"

text \<open>The code and whether it is allowed; a code that is not allowed is not looked at.\<close>

definition d1RecoveryCodeFor ::
  "Outcome \<Rightarrow> Stage \<Rightarrow> D1BootstrapProvenance \<Rightarrow> Stage \<Rightarrow> Code \<times> bool" where
  "d1RecoveryCodeFor outcome stage p detailStage =
     (if stage = StageNone then
        (CodeSuccess, outcome = OutcomeSuccess \<and>
           (p = D1BootstrapProvenanceFront \<or> p = D1BootstrapProvenanceMatching) \<and> detailStage = StageNone)
      else if stage = StageD1Bootstrap \<or> stage = StageD1Body then
        if detailStage \<noteq> StageNone then
          case codeFor outcome detailStage of (code, ok) \<Rightarrow> (code, ok \<and> validD1ProvenanceForOutcome outcome p)
        else
          (case outcome of
             OutcomeAuthenticatedDegraded \<Rightarrow> (CodeAuthenticatedDegraded, isSelectedD1BootstrapProvenance p)
           | OutcomeForcePartial \<Rightarrow> (CodeForcePartial, isSelectedD1BootstrapProvenance p)
           | OutcomeForceUnverified \<Rightarrow> (CodeForceUnverified, isPhysicalD1BootstrapProvenance p)
           | OutcomeAuthenticationFailed \<Rightarrow>
               if stage = StageD1Body then (CodeAuthenticationFailed, isSelectedD1BootstrapProvenance p)
               else (CodeNone, False)
           | OutcomeCredentialsOrDamage \<Rightarrow>
               (CodeCredentialsOrDamage,
                if stage = StageD1Body then isSelectedD1BootstrapProvenance p
                else p = D1BootstrapProvenanceNone)
           | OutcomeAmbiguousVolume \<Rightarrow> (CodeAmbiguousVolume, p = D1BootstrapProvenanceNone)
           | _ \<Rightarrow> (CodeNone, False))
      else if stage = StageInnerVolume then
        if \<not> validD1ProvenanceForOutcome outcome p \<or> detailStage = StageNone then (CodeNone, False)
        else codeFor outcome detailStage
      else (CodeNone, False))"

definition newD1RawSelectedRecoveryResult ::
  "Stage \<Rightarrow> D1BootstrapProvenance \<Rightarrow> Stage \<Rightarrow> Map option \<Rightarrow> byte \<Rightarrow> recovery_error + RecoveryResult" where
  "newD1RawSelectedRecoveryResult stage p detailStage ranges final =
     (if (stage \<noteq> StageD1Bootstrap \<and> stage \<noteq> StageD1Body) \<or> \<not> isPhysicalD1BootstrapProvenance p \<or>
         ranges = None \<or> \<not> validRecoveryFinalState final \<or>
         \<not> snd (d1RecoveryCodeFor OutcomeForceUnverified stage p detailStage)
      then Inl InvalidRecoveryResult
      else
        let summary = map_Summary ranges in
        if sum_Verified summary = 0 \<and> sum_Unverified summary = 0 \<and>
           final \<noteq> RecoveryFinalVerified \<and> final \<noteq> RecoveryFinalUnverified
        then Inl InvalidRecoveryResult
        else Inr \<lparr>rr_outcome = OutcomeForceUnverified, rr_provenance = ForceProvenanceUnverified,
                  rr_stage = stage, rr_d1BootstrapProvenance = p,
                  rr_d1OuterProvenance = D1OuterProvenanceRawSelected, rr_detailStage = detailStage,
                  rr_plaintextLength = map_PlaintextLength ranges, rr_ranges = ranges, rr_final = final\<rparr>)"

definition newD1RecoveryResult ::
  "Outcome \<Rightarrow> ForceProvenance \<Rightarrow> Stage \<Rightarrow> D1BootstrapProvenance \<Rightarrow> Stage \<Rightarrow> u64 \<Rightarrow> Map option \<Rightarrow> byte \<Rightarrow>
   recovery_error + RecoveryResult" where
  "newD1RecoveryResult outcome provenance stage p detailStage plaintextLength ranges final =
     (if \<not> snd (d1RecoveryCodeFor outcome stage p detailStage) \<or>
         \<not> validRecoveryEvidence outcome provenance plaintextLength ranges final
      then Inl InvalidRecoveryResult
      else Inr \<lparr>rr_outcome = outcome, rr_provenance = provenance, rr_stage = stage,
                rr_d1BootstrapProvenance = p, rr_d1OuterProvenance = D1OuterProvenanceNone,
                rr_detailStage = detailStage, rr_plaintextLength = plaintextLength,
                rr_ranges = ranges, rr_final = final\<rparr>)"

definition result_Code :: "RecoveryResult \<Rightarrow> Code" where
  "result_Code r =
     (case d1RecoveryCodeFor (rr_outcome r) (rr_stage r) (rr_d1BootstrapProvenance r) (rr_detailStage r) of
        (code, True) \<Rightarrow> code
      | _ \<Rightarrow> fst (codeFor (rr_outcome r) (rr_stage r)))"

section \<open>Requests\<close>

text \<open>The consent: whether its callback still runs, and the role it is for.\<close>

record recoveryRequest =
  req_budget :: Budget
  req_mode :: byte
  req_consent :: "(bool \<times> byte) option"

definition request_valid :: "recoveryRequest \<Rightarrow> bool" where
  "request_valid request \<longleftrightarrow>
     (if req_mode request = RecoveryModeNormalV3 \<or> req_mode request = RecoveryModeForce
      then req_consent request = None
      else if req_mode request = RecoveryModeForceUnverified
      then (case req_consent request of
              None \<Rightarrow> False
            | Some (active, role) \<Rightarrow> active \<and> isSupportedCapsuleRole role)
      else False)"

definition request_Mode :: "recoveryRequest \<Rightarrow> byte" where
  "request_Mode request = (if \<not> request_valid request then 0 else req_mode request)"

definition authorizesUnverified :: "recoveryRequest \<Rightarrow> byte \<Rightarrow> bool" where
  "authorizesUnverified request role \<longleftrightarrow>
     request_valid request \<and> req_mode request = RecoveryModeForceUnverified \<and> isSupportedCapsuleRole role \<and>
     (case req_consent request of None \<Rightarrow> False | Some (_, r) \<Rightarrow> r = role)"

definition newRecoveryRequest :: "byte \<Rightarrow> recovery_error + recoveryRequest" where
  "newRecoveryRequest mode =
     (if mode \<noteq> RecoveryModeNormalV3 \<and> mode \<noteq> RecoveryModeForce then Inl InvalidRecoveryRequest
      else Inr \<lparr>req_budget = NewBudget DefaultBudgetBytes, req_mode = mode, req_consent = None\<rparr>)"

definition withUnverifiedRecoveryRequest ::
  "byte \<Rightarrow> (recoveryRequest \<Rightarrow> 's \<Rightarrow> recovery_error option \<times> 's) \<Rightarrow> 's \<Rightarrow> recovery_error option \<times> 's" where
  "withUnverifiedRecoveryRequest role callback s =
     (if \<not> isSupportedCapsuleRole role then (Some InvalidRecoveryRequest, s)
      else callback \<lparr>req_budget = NewBudget DefaultBudgetBytes, req_mode = RecoveryModeForceUnverified,
                     req_consent = Some (True, role)\<rparr> s)"

text \<open>The same request after the callback has returned.\<close>

definition expired_request :: "recoveryRequest \<Rightarrow> recoveryRequest" where
  "expired_request request = request\<lparr>req_consent := map_option (\<lambda>_. (False, 0)) (req_consent request)\<rparr>"

lemma authorizes_role: "authorizesUnverified request r \<Longrightarrow> authorizesUnverified request s \<Longrightarrow> r = s"
  by (auto simp: authorizesUnverified_def split: option.splits)

lemma authorizes_mode:
  "authorizesUnverified request r \<Longrightarrow>
   request_valid request \<and> request_Mode request = RecoveryModeForceUnverified \<and> isSupportedCapsuleRole r"
  by (auto simp: authorizesUnverified_def request_Mode_def)

lemma expired_consent: "\<not> authorizesUnverified (expired_request request) role"
  by (auto simp: authorizesUnverified_def request_valid_def expired_request_def split: option.splits)

lemma request_modes:
  "request_valid request \<Longrightarrow>
   request_Mode request = RecoveryModeNormalV3 \<or> request_Mode request = RecoveryModeForce \<or>
   request_Mode request = RecoveryModeForceUnverified"
  by (auto simp: request_valid_def request_Mode_def split: if_splits)

end
