(* ===== verification/Force_Resolution.thy ===== *)
theory Force_Resolution
  imports Recovery_Types Capsule_Codec Record_Layout
begin

text \<open>
  The choice between the capsules of a damaged volume (\<open>resolveForceCandidates\<close> of \<open>pcv3/force.go\<close>,
  \<open>resolveNormalRecoveryCandidates\<close> of \<open>pcv3/force_engine.go\<close>) from what the records under each of
  them gave, and what it promises. The identity of a candidate is compared by an argument
  \<open>sameVolumeKey\<close>; a selected index is an option, -1 in the code.
\<close>

section \<open>Analyses\<close>

record 'i forceCandidateAnalysis =
  fa_identity :: "'i option"
  fa_candidate :: Candidate
  fa_geometry :: Geometry
  fa_damageStage :: Stage
  fa_payloadDamageStage :: Stage
  fa_wrapVerified :: bool
  fa_replicaValid :: bool
  fa_metadataValid :: bool
  fa_authenticatedComment :: "byte list"
  fa_ranges :: "Map option"
  fa_final :: byte

record forceResolution =
  fr_result :: RecoveryResult
  fr_selected :: "nat option"
  fr_role :: byte

abbreviation (input) fa_PlaintextLength :: "'i forceCandidateAnalysis \<Rightarrow> u64" where
  "fa_PlaintextLength a \<equiv> core_plaintextLength (cand_core (fa_candidate a))"

abbreviation (input) fa_role :: "'i forceCandidateAnalysis \<Rightarrow> byte" where
  "fa_role a \<equiv> cand_role (fa_candidate a)"

definition validPayloadDamageStage :: "Stage \<Rightarrow> bool" where
  "validPayloadDamageStage stage \<longleftrightarrow>
     stage = StageNone \<or> stage = StageDescriptor \<or> stage = StageRecordBodyRS \<or>
     stage = StageRecordAuth \<or> stage = StageFinalRecord"

definition validForceCandidateAnalysis :: "'i forceCandidateAnalysis \<Rightarrow> bool" where
  "validForceCandidateAnalysis a \<longleftrightarrow>
     (if fa_identity a = None \<or> \<not> validAuthCandidate (fa_candidate a) \<or>
         \<not> recordGeometryMatchesCore (cand_core (fa_candidate a)) (fa_geometry a) \<or>
         \<not> validCanonicalRecoveryRanges (fa_PlaintextLength a) (fa_ranges a) \<or>
         \<not> validRecoveryFinalState (fa_final a) \<or> \<not> validPayloadDamageStage (fa_payloadDamageStage a)
      then False
      else fa_damageStage a \<in> {StageNone, StagePreamble, StageCapsuleRS, StageCapsuleStructure,
             StageWrapAuth, StageReplicaAuth, StageMetadata, StageDescriptor, StageRecordBodyRS,
             StageRecordAuth, StageFinalRecord, StageTailGeometry})"

definition forceAnalysisAnchored :: "'i forceCandidateAnalysis \<Rightarrow> bool" where
  "forceAnalysisAnchored a \<longleftrightarrow>
     fa_final a = RecoveryFinalVerified \<or> sum_Verified (map_Summary (fa_ranges a)) \<noteq> 0"

definition forceAnalysisHasUnverified :: "'i forceCandidateAnalysis \<Rightarrow> bool" where
  "forceAnalysisHasUnverified a \<longleftrightarrow>
     fa_final a = RecoveryFinalUnverified \<or> sum_Unverified (map_Summary (fa_ranges a)) \<noteq> 0"

definition forceAnalysisFullyVerified :: "'i forceCandidateAnalysis \<Rightarrow> bool" where
  "forceAnalysisFullyVerified a \<longleftrightarrow>
     fa_final a = RecoveryFinalVerified \<and> sum_Unverified (map_Summary (fa_ranges a)) = 0 \<and>
     sum_Missing (map_Summary (fa_ranges a)) = 0"

definition forceDamageStage :: "'i forceCandidateAnalysis \<Rightarrow> Stage" where
  "forceDamageStage a =
     (if fa_damageStage a \<noteq> StageNone then fa_damageStage a
      else if fa_final a \<noteq> RecoveryFinalVerified then StageFinalRecord
      else if \<not> forceAnalysisFullyVerified a then StageRecordAuth
      else StageWrapAuth)"

section \<open>The choice under Force\<close>

definition chooseForceReplica ::
  "recoveryRequest \<Rightarrow> 'i forceCandidateAnalysis list \<Rightarrow> nat list \<Rightarrow> nat" where
  "chooseForceReplica request analyses anchored =
     (case (if request_Mode request = RecoveryModeForceUnverified
            then find (\<lambda>i. authorizesUnverified request (fa_role (analyses ! i))) anchored else None) of
        Some i \<Rightarrow> i
      | None \<Rightarrow>
          (case find (\<lambda>i. fa_role (analyses ! i) = CapsuleRolePrimary) anchored of
             Some i \<Rightarrow> i
           | None \<Rightarrow> hd anchored))"

text \<open>The only unverified candidate with consent; two are an error.\<close>

definition chooseUnverified ::
  "recoveryRequest \<Rightarrow> 'i forceCandidateAnalysis list \<Rightarrow> recovery_error + nat option" where
  "chooseUnverified request analyses =
     (case filter (\<lambda>i. authorizesUnverified request (fa_role (analyses ! i)) \<and>
                       forceAnalysisHasUnverified (analyses ! i)) [0..<length analyses] of
        [] \<Rightarrow> Inr None
      | [i] \<Rightarrow> Inr (Some i)
      | _ \<Rightarrow> Inl InvalidForceAnalysis)"

text \<open>A result without output.\<close>

definition no_selection :: "Outcome \<Rightarrow> Stage \<Rightarrow> recovery_error + forceResolution" where
  "no_selection outcome stage =
     ebind (newRecoveryResult outcome ForceProvenanceNone stage 0 None 0) (\<lambda>result.
     Inr \<lparr>fr_result = result, fr_selected = None, fr_role = 0\<rparr>)"

definition same_volume :: "('i \<Rightarrow> 'i \<Rightarrow> bool) \<Rightarrow> 'i forceCandidateAnalysis \<Rightarrow> 'i forceCandidateAnalysis \<Rightarrow> bool" where
  "same_volume sameVolumeKey first other \<longleftrightarrow>
     cand_core (fa_candidate first) = cand_core (fa_candidate other) \<and>
     sameVolumeKey (the (fa_identity first)) (the (fa_identity other))"

definition select_analysis ::
  "recoveryRequest \<Rightarrow> 'i forceCandidateAnalysis list \<Rightarrow> nat \<Rightarrow> recovery_error + forceResolution" where
  "select_analysis request analyses selected =
     (let analysis = analyses ! selected in
      if forceAnalysisHasUnverified analysis \<and> \<not> authorizesUnverified request (fa_role analysis)
      then Inl InvalidForceAnalysis
      else
        let (outcome, provenance) =
              (if \<not> forceAnalysisAnchored analysis then (OutcomeForceUnverified, ForceProvenanceUnverified)
               else if forceAnalysisFullyVerified analysis
               then (OutcomeAuthenticatedDegraded, ForceProvenanceVerified)
               else (OutcomeForcePartial, ForceProvenancePartial))
        in ebind (newRecoveryResult outcome provenance (forceDamageStage analysis)
                    (fa_PlaintextLength analysis) (fa_ranges analysis) (fa_final analysis)) (\<lambda>result.
           Inr \<lparr>fr_result = result, fr_selected = Some selected,
                fr_role = (if forceAnalysisHasUnverified analysis then fa_role analysis else 0)\<rparr>))"

definition resolveForceCandidates ::
  "('i \<Rightarrow> 'i \<Rightarrow> bool) \<Rightarrow> recoveryRequest \<Rightarrow> 'i forceCandidateAnalysis list \<Rightarrow> recovery_error + forceResolution" where
  "resolveForceCandidates sameVolumeKey request analyses =
     (if \<not> request_valid request \<or> analyses = [] \<or> length analyses > 2 \<or>
         \<not> list_all validForceCandidateAnalysis analyses
      then Inl InvalidForceAnalysis
      else
        let anchored = filter (\<lambda>i. forceAnalysisAnchored (analyses ! i)) [0..<length analyses] in
        if \<not> list_all (\<lambda>i. same_volume sameVolumeKey (analyses ! hd anchored) (analyses ! i)) (tl anchored)
        then no_selection OutcomeAmbiguousVolume StageCapsuleStructure
        else
          ebind (if anchored \<noteq> [] then Inr (Some (chooseForceReplica request analyses anchored))
                 else if request_Mode request = RecoveryModeForceUnverified then chooseUnverified request analyses
                 else Inr None) (\<lambda>selected.
          case selected of
            None \<Rightarrow> no_selection OutcomeCredentialsOrDamage StageWrapAuth
          | Some selected \<Rightarrow> select_analysis request analyses selected))"

section \<open>The choice of a normal recovery\<close>

definition resolveNormalRecoveryCandidates ::
  "('i \<Rightarrow> 'i \<Rightarrow> bool) \<Rightarrow> 'i forceCandidateAnalysis list \<Rightarrow> recovery_error + forceResolution" where
  "resolveNormalRecoveryCandidates sameVolumeKey analyses =
     (if analyses = [] then no_selection OutcomeCredentialsOrDamage StageWrapAuth
      else if length analyses > 2 then Inl InvalidForceAnalysis
      else if length analyses = 2 \<and> \<not> same_volume sameVolumeKey (analyses ! 0) (analyses ! 1)
      then no_selection OutcomeAmbiguousVolume StageCapsuleStructure
      else
        let selected = (if length analyses = 2 \<and> fa_role (analyses ! 1) = CapsuleRolePrimary then 1 else 0);
            analysis = analyses ! selected
        in if \<not> forceAnalysisFullyVerified analysis then
             no_selection OutcomeAuthenticationFailed
               (if fa_payloadDamageStage analysis = StageNone
                then forceDamageStage (analysis\<lparr>fa_damageStage := StageNone\<rparr>)
                else fa_payloadDamageStage analysis)
           else
             ebind (newRecoveryResult
                      (if fa_damageStage analysis \<noteq> StageNone then OutcomeAuthenticatedDegraded else OutcomeSuccess)
                      ForceProvenanceNone (fa_damageStage analysis) 0 None 0) (\<lambda>result.
             Inr \<lparr>fr_result = result, fr_selected = Some selected, fr_role = 0\<rparr>))"

section \<open>What the choice promises\<close>

text \<open>Unverified bytes only with consent, and a degraded stage only for a reason.\<close>

definition consented :: "recoveryRequest \<Rightarrow> 'i forceCandidateAnalysis \<Rightarrow> bool" where
  "consented request a \<longleftrightarrow> (forceAnalysisHasUnverified a \<longrightarrow> authorizesUnverified request (fa_role a))"

definition accounted :: "'i forceCandidateAnalysis \<Rightarrow> bool" where
  "accounted a \<longleftrightarrow> (forceAnalysisFullyVerified a \<longrightarrow> fa_damageStage a = StageNone \<or> warning_stage (fa_damageStage a))"

text \<open>Two capsules that both verify records of different volumes.\<close>

definition conflicting :: "('i \<Rightarrow> 'i \<Rightarrow> bool) \<Rightarrow> 'i forceCandidateAnalysis list \<Rightarrow> bool" where
  "conflicting same analyses \<longleftrightarrow>
     (\<exists>i j. i < j \<and> j < length analyses \<and> forceAnalysisAnchored (analyses ! i) \<and> forceAnalysisAnchored (analyses ! j) \<and>
        \<not> same_volume same (analyses ! i) (analyses ! j))"

text \<open>What a result says of the analysis it stands for.\<close>

definition reports :: "recoveryRequest \<Rightarrow> 'i forceCandidateAnalysis \<Rightarrow> forceResolution \<Rightarrow> bool" where
  "reports request a r \<longleftrightarrow>
     rr_ranges (fr_result r) = fa_ranges a \<and> rr_final (fr_result r) = fa_final a \<and>
     rr_plaintextLength (fr_result r) = fa_PlaintextLength a \<and>
     (forceAnalysisHasUnverified a \<longrightarrow> authorizesUnverified request (fa_role a) \<and> fr_role r = fa_role a) \<and>
     rr_outcome (fr_result r) =
       (if \<not> forceAnalysisAnchored a then OutcomeForceUnverified
        else if forceAnalysisFullyVerified a then OutcomeAuthenticatedDegraded else OutcomeForcePartial)"

lemma no_selection_eq:
  "no_selection OutcomeAmbiguousVolume StageCapsuleStructure = Inr r \<Longrightarrow>
     fr_selected r = None \<and> rr_outcome (fr_result r) = OutcomeAmbiguousVolume \<and> rr_ranges (fr_result r) = None"
  "no_selection OutcomeCredentialsOrDamage StageWrapAuth = Inr r \<Longrightarrow>
     fr_selected r = None \<and> rr_outcome (fr_result r) = OutcomeCredentialsOrDamage \<and> rr_ranges (fr_result r) = None"
  "\<exists>r. no_selection OutcomeAmbiguousVolume StageCapsuleStructure = Inr r"
  "\<exists>r. no_selection OutcomeCredentialsOrDamage StageWrapAuth = Inr r"
  by (auto simp: no_selection_def newRecoveryResult_def validRecoveryEvidence_def ebind_def)

lemma select_analysis_Inr:
  "select_analysis request analyses i = Inr r \<Longrightarrow> fr_selected r = Some i \<and> reports request (analyses ! i) r"
  by (auto simp: select_analysis_def newRecoveryResult_def reports_def Let_def ebind_def split: if_splits sum.splits prod.splits)

lemma damage_stage_legal:
  assumes "validForceCandidateAnalysis a"
  shows "isForceDamageStage (forceDamageStage a)"
  using assms by (auto simp: validForceCandidateAnalysis_def forceDamageStage_def isForceDamageStage_def split: if_splits)

lemma fully_verified_stage:
  assumes "accounted a" and "forceAnalysisFullyVerified a"
  shows "snd (codeFor OutcomeAuthenticatedDegraded (forceDamageStage a))"
proof -
  have "warning_stage (forceDamageStage a)"
    using assms by (auto simp: accounted_def forceDamageStage_def forceAnalysisFullyVerified_def)
  then show ?thesis by (simp add: warning_stage_legal legal_pair_def)
qed

lemma select_analysis_runs:
  assumes "validForceCandidateAnalysis (analyses ! i)" and "consented request (analyses ! i)" and "accounted (analyses ! i)"
    and "forceAnalysisAnchored (analyses ! i) \<or> forceAnalysisHasUnverified (analyses ! i)"
  shows "\<exists>r. select_analysis request analyses i = Inr r"
proof -
  let ?a = "analyses ! i"
  have v: "validCanonicalRecoveryRanges (fa_PlaintextLength ?a) (fa_ranges ?a)" "validRecoveryFinalState (fa_final ?a)"
    using assms(1) by (auto simp: validForceCandidateAnalysis_def split: if_splits)
  have s: "snd (codeFor OutcomeForceUnverified (forceDamageStage ?a))" "snd (codeFor OutcomeForcePartial (forceDamageStage ?a))"
    using damage_stage_legal [OF assms(1)] by simp_all
  have e: "validRecoveryEvidence
      (if \<not> forceAnalysisAnchored ?a then OutcomeForceUnverified
       else if forceAnalysisFullyVerified ?a then OutcomeAuthenticatedDegraded else OutcomeForcePartial)
      (if \<not> forceAnalysisAnchored ?a then ForceProvenanceUnverified
       else if forceAnalysisFullyVerified ?a then ForceProvenanceVerified else ForceProvenancePartial)
      (fa_PlaintextLength ?a) (fa_ranges ?a) (fa_final ?a)"
    using v assms(4)
    by (auto simp: validRecoveryEvidence_def Let_def forceAnalysisAnchored_def forceAnalysisHasUnverified_def
        forceAnalysisFullyVerified_def)
  show ?thesis
    using assms(2) e s fully_verified_stage [OF assms(3)]
    by (auto simp: select_analysis_def newRecoveryResult_def Let_def ebind_def consented_def simp del: codeFor.simps split: if_splits)
qed

lemma chosen_anchored:
  assumes "anchored \<noteq> []"
  shows "chooseForceReplica request analyses anchored \<in> set anchored"
  using assms by (auto simp: chooseForceReplica_def find_Some_iff split: option.splits if_splits)

lemma small_index: "length xs \<le> 2 \<Longrightarrow> i < j \<Longrightarrow> j < length xs \<Longrightarrow> i = 0 \<and> j = (1 :: nat)"
  by auto

lemma at_most_two:
  assumes "xs \<noteq> []" and "length xs \<le> 2"
  obtains a where "xs = [a]" | a b where "xs = [a, b]"
proof (cases xs)
  case (Cons a ys)
  then show ?thesis using assms that by (cases ys) auto
qed (use assms in simp)

lemma anchored_conflict:
  assumes "analyses \<noteq> []" and "length analyses \<le> 2"
  defines "anchored \<equiv> filter (\<lambda>i. forceAnalysisAnchored (analyses ! i)) [0..<length analyses]"
  shows "list_all (\<lambda>i. same_volume same (analyses ! hd anchored) (analyses ! i)) (tl anchored) \<longleftrightarrow> \<not> conflicting same analyses"
proof (cases rule: at_most_two [OF assms(1,2)])
  case (1 a)
  then show ?thesis by (auto simp: anchored_def conflicting_def)
next
  case (2 a b)
  have two: "(\<exists>i j. i < j \<and> j < Suc (Suc 0) \<and> Q i j) = Q 0 1" for Q :: "nat \<Rightarrow> nat \<Rightarrow> bool"
    by (auto simp: less_Suc_eq)
  show ?thesis using 2 by (auto simp: anchored_def conflicting_def two)
qed

lemma resolve_cases:
  assumes run: "resolveForceCandidates same request analyses = R"
    and pre: "request_valid request" "analyses \<noteq> []" "length analyses \<le> 2" "\<forall>a \<in> set analyses. validForceCandidateAnalysis a"
  obtains (conflict) "conflicting same analyses" "R = no_selection OutcomeAmbiguousVolume StageCapsuleStructure"
  | (anchored) i where "\<not> conflicting same analyses" "i < length analyses" "forceAnalysisAnchored (analyses ! i)"
      "R = select_analysis request analyses i"
  | (unverified) "\<not> conflicting same analyses" "\<forall>a \<in> set analyses. \<not> forceAnalysisAnchored a"
      "R = ebind (if request_Mode request = RecoveryModeForceUnverified then chooseUnverified request analyses else Inr None)
         (case_option (no_selection OutcomeCredentialsOrDamage StageWrapAuth) (select_analysis request analyses))"
proof -
  let ?anchored = "filter (\<lambda>i. forceAnalysisAnchored (analyses ! i)) [0..<length analyses]"
  note C = anchored_conflict [OF pre(2,3), of same]
  have pre': "\<not> (\<not> request_valid request \<or> analyses = [] \<or> 2 < length analyses \<or>
      \<not> list_all validForceCandidateAnalysis analyses)"
    using pre by (simp add: list_all_iff)
  have R: "R = (if conflicting same analyses then no_selection OutcomeAmbiguousVolume StageCapsuleStructure
     else ebind (if ?anchored \<noteq> [] then Inr (Some (chooseForceReplica request analyses ?anchored))
                 else if request_Mode request = RecoveryModeForceUnverified then chooseUnverified request analyses
                 else Inr None)
            (case_option (no_selection OutcomeCredentialsOrDamage StageWrapAuth) (select_analysis request analyses)))"
    unfolding run [symmetric] resolveForceCandidates_def if_not_P [OF pre'] Let_def C not_not by (rule refl)
  show thesis
  proof (cases "conflicting same analyses")
    case True
    then show thesis using conflict R by simp
  next
    case False
    show thesis
    proof (cases "?anchored = []")
      case True
      have "\<forall>a \<in> set analyses. \<not> forceAnalysisAnchored a"
        using True by (auto simp: filter_empty_conv in_set_conv_nth)
      then show thesis using unverified False R unfolding True by simp
    next
      case anc: False
      then show thesis using chosen_anchored [OF anc, of request analyses] anchored [of "chooseForceReplica request analyses ?anchored"] False R
        by (simp add: ebind_def)
    qed
  qed
qed

lemma chooseUnverified_Inr:
  "chooseUnverified request analyses = Inr None \<Longrightarrow>
     \<forall>a \<in> set analyses. authorizesUnverified request (fa_role a) \<longrightarrow> \<not> forceAnalysisHasUnverified a"
  "chooseUnverified request analyses = Inr (Some i) \<Longrightarrow>
     i < length analyses \<and> authorizesUnverified request (fa_role (analyses ! i)) \<and> forceAnalysisHasUnverified (analyses ! i)"
proof -
  let ?found = "filter (\<lambda>i. authorizesUnverified request (fa_role (analyses ! i)) \<and>
      forceAnalysisHasUnverified (analyses ! i)) [0..<length analyses]"
  show "\<forall>a \<in> set analyses. authorizesUnverified request (fa_role a) \<longrightarrow> \<not> forceAnalysisHasUnverified a"
    if "chooseUnverified request analyses = Inr None"
  proof -
    have "?found = []" using that by (auto simp: chooseUnverified_def split: list.splits)
    then show ?thesis by (auto simp: filter_empty_conv in_set_conv_nth)
  qed
  show "i < length analyses \<and> authorizesUnverified request (fa_role (analyses ! i)) \<and> forceAnalysisHasUnverified (analyses ! i)"
    if "chooseUnverified request analyses = Inr (Some i)"
  proof -
    have "?found = [i]" using that by (auto simp: chooseUnverified_def split: list.splits)
    then have "i \<in> set ?found" by simp
    then show ?thesis by simp
  qed
qed

lemma chosen_unverified:
  assumes "request_valid request" and "analyses \<noteq> []" and "length analyses \<le> 2" and "distinct (map fa_role analyses)"
    and "\<And>a. a \<in> set analyses \<Longrightarrow> consented request a"
  obtains s where
    "(if request_Mode request = RecoveryModeForceUnverified then chooseUnverified request analyses else Inr None) = Inr s"
    "s = None \<Longrightarrow> \<forall>a \<in> set analyses. \<not> forceAnalysisHasUnverified a"
proof (cases "request_Mode request = RecoveryModeForceUnverified")
  case False
  have "\<not> forceAnalysisHasUnverified a" if "a \<in> set analyses" for a
    using assms(5) [OF that] False authorizes_mode by (auto simp: consented_def)
  then show thesis using that [of None] False by simp
next
  case True
  have "\<exists>s. chooseUnverified request analyses = Inr s"
  proof (cases rule: at_most_two [OF assms(2,3)])
    case (1 a)
    then show ?thesis by (simp add: chooseUnverified_def)
  next
    case (2 a b)
    then show ?thesis using assms(4) authorizes_role [of request "fa_role a" "fa_role b"] by (auto simp: chooseUnverified_def)
  qed
  then obtain s where s: "chooseUnverified request analyses = Inr s" by blast
  have "\<not> forceAnalysisHasUnverified a" if "s = None" "a \<in> set analyses" for a
    using chooseUnverified_Inr(1) [of request analyses] s that assms(5) [OF that(2)] by (auto simp: consented_def)
  then show thesis using that [of s] s True by simp
qed

text \<open>C31: what a forced recovery may say. Whatever the analyses are, a resolution that selects a capsule
  stands for exactly its evidence: it is called authenticated only if every record and the final
  record verified, partial only if some did, unverified only if none did; bytes that are not verified
  come with the consent given for the very role of that capsule; and a capsule is never selected
  when two capsules verify records of different volumes, or a capsule that verifies nothing while
  another does.\<close>

theorem force_resolution_sound:
  assumes "resolveForceCandidates same request analyses = Inr r" and "fr_selected r = Some i"
  shows "i < length analyses \<and> reports request (analyses ! i) r \<and> \<not> conflicting same analyses \<and>
    (if forceAnalysisAnchored (analyses ! i) then True
     else authorizesUnverified request (fa_role (analyses ! i)) \<and> (\<forall>a \<in> set analyses. \<not> forceAnalysisAnchored a))"
proof -
  have pre: "request_valid request" "analyses \<noteq> []" "length analyses \<le> 2" "\<forall>a \<in> set analyses. validForceCandidateAnalysis a"
    using assms(1) by (auto simp: resolveForceCandidates_def list_all_iff not_less split: if_splits)
  show ?thesis
  proof (cases rule: resolve_cases [OF assms(1) pre])
    case 1
    then show ?thesis using no_selection_eq(1) [of r] assms(2) by simp
  next
    case (2 j)
    then show ?thesis using select_analysis_Inr [of request analyses j r] assms(2) by auto
  next
    case 3
    obtain s where s: "s = None \<or> request_Mode request = RecoveryModeForceUnverified \<and> chooseUnverified request analyses = Inr s"
      "case_option (no_selection OutcomeCredentialsOrDamage StageWrapAuth) (select_analysis request analyses) s = Inr r"
      using 3(3) [symmetric] by (auto simp: ebind_eq_Inr split: if_splits)
    show ?thesis
    proof (cases s)
      case None
      then show ?thesis using s(2) no_selection_eq(2) [of r] assms(2) by simp
    next
      case (Some j)
      then have "chooseUnverified request analyses = Inr (Some j)" "select_analysis request analyses j = Inr r" using s by simp_all
      then show ?thesis using chooseUnverified_Inr(2) [of request analyses j] select_analysis_Inr [of request analyses j r]
          assms(2) 3(1,2) by auto
    qed
  qed
qed

text \<open>C32: a forced recovery always decides. Given one or two well-formed analyses for different
  roles, with unverified evidence only where the request consents to it and a payload without damage
  only where it is verified, the resolution never ends in the internal error of an invalid analysis
  or result. It reports an ambiguous volume exactly if two capsules verify records of different
  volumes, refuses exactly if no capsule gave any record, and otherwise selects one; if a capsule
  has verified evidence, the selected one has.\<close>

theorem force_resolution_decides:
  assumes "request_valid request" and "analyses \<noteq> []" and "length analyses \<le> 2" and "distinct (map fa_role analyses)"
    and ok: "\<forall>a \<in> set analyses. validForceCandidateAnalysis a \<and> consented request a \<and> accounted a"
  shows "\<exists>r. resolveForceCandidates same request analyses = Inr r \<and>
    (if conflicting same analyses then fr_selected r = None \<and> rr_outcome (fr_result r) = OutcomeAmbiguousVolume
     else case fr_selected r of
        None \<Rightarrow> rr_outcome (fr_result r) = OutcomeCredentialsOrDamage \<and> rr_ranges (fr_result r) = None \<and>
          (\<forall>a \<in> set analyses. \<not> forceAnalysisAnchored a \<and> \<not> forceAnalysisHasUnverified a)
      | Some i \<Rightarrow> i < length analyses \<and> reports request (analyses ! i) r \<and>
          ((\<exists>a \<in> set analyses. forceAnalysisAnchored a) \<longrightarrow> forceAnalysisAnchored (analyses ! i)))"
proof -
  have valid: "\<forall>a \<in> set analyses. validForceCandidateAnalysis a" using ok by blast
  have sel: "\<exists>r. select_analysis request analyses i = Inr r"
    if "i < length analyses" "forceAnalysisAnchored (analyses ! i) \<or> forceAnalysisHasUnverified (analyses ! i)" for i
    using select_analysis_runs [of analyses i request] that ok by simp
  show ?thesis
  proof (cases rule: resolve_cases [OF refl assms(1-3) valid, of same])
    case 1
    then show ?thesis using no_selection_eq(1,3) by fastforce
  next
    case (2 i)
    then obtain r where "select_analysis request analyses i = Inr r" using sel by blast
    then show ?thesis using 2 select_analysis_Inr [of request analyses i r] by auto
  next
    case 3
    obtain s where s: "(if request_Mode request = RecoveryModeForceUnverified then chooseUnverified request analyses else Inr None) = Inr s"
      "s = None \<Longrightarrow> \<forall>a \<in> set analyses. \<not> forceAnalysisHasUnverified a"
      by (rule chosen_unverified [OF assms(1-4)]) (use ok in auto)
    show ?thesis
    proof (cases s)
      case None
      then show ?thesis using 3 s no_selection_eq(2,4) by (fastforce simp: ebind_def)
    next
      case (Some i)
      then have "chooseUnverified request analyses = Inr (Some i)" using s(1) by (simp split: if_splits)
      then have i: "i < length analyses" "forceAnalysisHasUnverified (analyses ! i)" using chooseUnverified_Inr(2) by blast+
      then obtain r where "select_analysis request analyses i = Inr r" using sel by blast
      then show ?thesis using 3 s(1) Some i select_analysis_Inr [of request analyses i r] by (auto simp: ebind_def)
    qed
  qed
qed

section \<open>An instance\<close>

text \<open>A volume of two records: under the primary capsule nothing verifies, under the backup capsule the
  first record and the final one do.\<close>

definition example_analysis :: "byte \<Rightarrow> u64 \<Rightarrow> byte \<Rightarrow> nat forceCandidateAnalysis" where
  "example_analysis role verified final =
     \<lparr>fa_identity = Some 0, fa_candidate = (example_candidate 2000000)\<lparr>cand_role := role\<rparr>,
      fa_geometry = layout_of True 2000000 5, fa_damageStage = StageRecordAuth,
      fa_payloadDamageStage = StageRecordAuth, fa_wrapVerified = True, fa_replicaValid = True,
      fa_metadataValid = True, fa_authenticatedComment = [],
      fa_ranges = Some (zeroMap\<lparr>map_length := 2000000, map_count := 2, map_summary :=
        \<lparr>sum_Verified = verified, sum_Unverified = 0, sum_Missing = 2 - verified, sum_RecoveredBytes = 0\<rparr>\<rparr>),
      fa_final = final\<rparr>"

definition example_request :: recoveryRequest where
  "example_request = \<lparr>req_budget = NewBudget DefaultBudgetBytes, req_mode = RecoveryModeForce, req_consent = None\<rparr>"

abbreviation (input) example_analyses :: "nat forceCandidateAnalysis list" where
  "example_analyses \<equiv> [example_analysis 0 0 RecoveryFinalMissing, example_analysis 1 1 RecoveryFinalVerified]"

lemma example_analyses_ok:
  "request_valid example_request" "distinct (map fa_role example_analyses)"
  "\<forall>a \<in> set example_analyses. validForceCandidateAnalysis a \<and> consented example_request a \<and> accounted a"
  "\<not> conflicting (=) example_analyses" "forceAnalysisAnchored (example_analysis 1 1 RecoveryFinalVerified)"
proof -
  have lay: "canonical_layout (cand_core (example_candidate 2000000)) True (layout_of True 2000000 5)"
    using example_candidate_derives canonical_layout_derive [of "example_candidate 2000000"]
    by (simp add: candidate_PayloadBodyRS_def example_candidate_def example_core_def)
  note g = recordGeometryMatchesCore_canonical [OF lay]
  have v: "validAuthCandidate ((example_candidate 2000000)\<lparr>cand_role := role\<rparr>)" if "role = 0 \<or> role = 1" for role
    using example_core_valid(1) [of 2000000] that
    by (simp add: validAuthCandidate_def example_candidate_def isSupportedCapsuleRole_def validCredentialTuple_def
        validCandidateKDFProfile_def kdfProfileForSuite_def example_core_def)
  have len: "core_plaintextLength (cand_core (example_candidate 2000000)) = 2000000"
    by (simp add: example_candidate_def example_core_def)
  show "request_valid example_request" by (simp add: request_valid_def example_request_def)
  show "distinct (map fa_role example_analyses)" by (simp add: example_analysis_def)
  show "\<not> conflicting (=) example_analyses"
    by (auto simp: conflicting_def less_Suc_eq example_analysis_def forceAnalysisAnchored_def map_Summary_def)
  show "forceAnalysisAnchored (example_analysis 1 1 RecoveryFinalVerified)"
    by (simp add: forceAnalysisAnchored_def example_analysis_def)
  show "\<forall>a \<in> set example_analyses. validForceCandidateAnalysis a \<and> consented example_request a \<and> accounted a"
    using g v len
    by (simp add: validForceCandidateAnalysis_def example_analysis_def validCanonicalRecoveryRanges_def map_PlaintextLength_def
        validRecoveryFinalState_def validPayloadDamageStage_def consented_def accounted_def forceAnalysisHasUnverified_def
        forceAnalysisFullyVerified_def map_Summary_def)
qed

theorem force_resolution_decides_witness:
  "\<exists>r i. resolveForceCandidates (=) example_request example_analyses = Inr r \<and> fr_selected r = Some i \<and>
     reports example_request (example_analyses ! i) r \<and> forceAnalysisAnchored (example_analyses ! i)"
proof -
  obtain r where r: "resolveForceCandidates (=) example_request example_analyses = Inr r"
    "case fr_selected r of
        None \<Rightarrow> rr_outcome (fr_result r) = OutcomeCredentialsOrDamage \<and> rr_ranges (fr_result r) = None \<and>
          (\<forall>a \<in> set example_analyses. \<not> forceAnalysisAnchored a \<and> \<not> forceAnalysisHasUnverified a)
      | Some i \<Rightarrow> i < length example_analyses \<and> reports example_request (example_analyses ! i) r \<and>
          ((\<exists>a \<in> set example_analyses. forceAnalysisAnchored a) \<longrightarrow> forceAnalysisAnchored (example_analyses ! i))"
    using force_resolution_decides [OF example_analyses_ok(1) _ _ example_analyses_ok(2,3), of "(=)"] example_analyses_ok(4)
    by auto
  then show ?thesis using example_analyses_ok(5) by (cases "fr_selected r") auto
qed

lemma example_resolves:
  "\<exists>r. resolveForceCandidates (=) example_request example_analyses = Inr r \<and> fr_selected r = Some 1"
proof -
  have n: "\<not> forceAnalysisAnchored (example_analysis 0 0 RecoveryFinalMissing)"
    by (simp add: forceAnalysisAnchored_def example_analysis_def map_Summary_def)
  obtain r where r: "select_analysis example_request example_analyses 1 = Inr r"
    using select_analysis_runs [of example_analyses 1 example_request] example_analyses_ok(3,5) by auto
  have m: "request_Mode example_request = RecoveryModeForce"
    by (simp add: request_Mode_def request_valid_def example_request_def)
  have "resolveForceCandidates (=) example_request example_analyses = Inr r"
    using example_analyses_ok(1,3,5) n r m
    by (simp add: resolveForceCandidates_def Let_def ebind_def chooseForceReplica_def split: option.split)
  then show ?thesis using select_analysis_Inr [OF r] by blast
qed

theorem force_resolution_sound_witness:
  "\<exists>r. resolveForceCandidates (=) example_request example_analyses = Inr r \<and>
     reports example_request (example_analysis 1 1 RecoveryFinalVerified) r \<and>
     rr_outcome (fr_result r) = OutcomeForcePartial"
proof -
  obtain r where r: "resolveForceCandidates (=) example_request example_analyses = Inr r" "fr_selected r = Some 1"
    using example_resolves by blast
  have "reports example_request (example_analysis 1 1 RecoveryFinalVerified) r"
    using force_resolution_sound [OF r] by simp
  moreover have "\<not> forceAnalysisFullyVerified (example_analysis 1 1 RecoveryFinalVerified)"
    by (simp add: forceAnalysisFullyVerified_def example_analysis_def map_Summary_def)
  ultimately show ?thesis using r(1) example_analyses_ok(5) by (auto simp: reports_def)
qed

end
