(* ===== verification/Force_Records.thy ===== *)
theory Force_Records
  imports Read_Records Force_Resolution
begin

text \<open>
  The records of a damaged volume (\<open>analyzeRecoveryRecords\<close>, \<open>emitRecoveryRecords\<close> of \<open>pcv3/force.go\<close>):
  a first pass asks every record for its state and builds the recovery map, a second pass hands the
  records that are there to a sink. The keys are a borrower, the budget is threaded; the sink is that
  of the world, and what it is given is logged. \<open>blockSize\<close> is the parameter of the recovery map.
\<close>

section \<open>The analysis\<close>

record recoveryRecordAnalysis =
  ra_ranges :: "Map option"
  ra_final :: byte
  ra_damageStage :: Stage

definition earlierRecoveryDamageStage :: "Stage \<Rightarrow> Stage \<Rightarrow> Stage" where
  "earlierRecoveryDamageStage left right = earlierAuthStage left right"

text \<open>The stage of a failure that leaves a record missing; any other failure ends the recovery.\<close>

fun recoverableRecordFailure :: "pcv3_error \<Rightarrow> Stage option" where
  "recoverableRecordFailure (RecordFailure stage c) =
     (if stage \<in> {StageDescriptor, StageRecordBodyRS, StageRecordAuth, StageFinalRecord} then Some stage else None)"
| "recoverableRecordFailure _ = None"

text \<open>The authentication under which a candidate is read; the evaluator looks at its borrower only.\<close>

definition borrower_auth :: "Candidate \<Rightarrow> Geometry \<Rightarrow> key_lender \<Rightarrow> normalAuthResult" where
  "borrower_auth candidate geometry keys =
     (newNormalAuthResult OutcomeAuthenticatedDegraded StageNone 1)
       \<lparr>auth_candidate := candidate, auth_geometry := geometry, auth_keyBorrower := Some keys\<rparr>"

text \<open>The callback sets \<open>state\<close> and \<open>finalState\<close>.\<close>

definition recovery_callback :: "(State \<times> byte) record_callback" where
  "recovery_callback evidence _ w =
     ((None, if evd_verified evidence then (Verified, RecoveryFinalVerified)
             else (Unverified, RecoveryFinalUnverified)), w)"

text \<open>One record: its two states and, if it is missing, the stage of the damage.\<close>

definition analyze_record ::
  "prims \<Rightarrow> recordEvaluator \<Rightarrow> bool \<Rightarrow> u64 \<Rightarrow> (world, recovery_error, State \<times> byte \<times> Stage) io" where
  "analyze_record P ev authorizes index w =
     (case evaluateCanonicalRecord P ev index authorizes recovery_callback w of
        ((err, called), w) \<Rightarrow>
          let (state, final) = (case called of None \<Rightarrow> (Missing, RecoveryFinalMissing) | Some s \<Rightarrow> s) in
          (case err of
             None \<Rightarrow> (Inr (state, final, StageNone), w)
           | Some e \<Rightarrow>
               (case recoverableRecordFailure e of
                  None \<Rightarrow> (Inl (Engine e), w)
                | Some stage \<Rightarrow> (Inr (state, final, stage), w))))"

text \<open>The loop, with the stage of the damage so far and the builder; the result is the stage and the
  state of the final record.\<close>

function recovery_loop ::
  "prims \<Rightarrow> u64 \<Rightarrow> recordEvaluator \<Rightarrow> int \<Rightarrow> bool \<Rightarrow> u64 \<Rightarrow> Stage \<Rightarrow> Builder \<Rightarrow> world \<Rightarrow>
   (recovery_error + Stage \<times> byte) \<times> Builder \<times> world" where
  "recovery_loop P blockSize ev sourceSize authorizes index damage b w =
     (if index > core_recordCount (ev_core ev) then (Inr (damage, 0), b, w)
      else
        case poll_record w of
          (Inl e, w) \<Rightarrow> (Inl (Engine e), b, w)
        | (Inr _, w) \<Rightarrow>
          (case expectedRecord (ev_core ev) (ev_geometry ev) index of
             None \<Rightarrow> (Inl (Engine (Plain InvalidRecordRequest)), b, w)
           | Some expected \<Rightarrow>
             if exp_descriptorOffset expected \<ge> sourceSize then
               (case FinishMissingTail blockSize b of
                  (Inl e, b) \<Rightarrow> (Inl (RangesError e), b, w)
                | (Inr _, b) \<Rightarrow>
                    (Inr (earlierRecoveryDamageStage damage
                            (if exp_final expected then StageFinalRecord else StageDescriptor),
                          RecoveryFinalMissing), b, w))
             else
               (case analyze_record P ev authorizes index w of
                  (Inl e, w) \<Rightarrow> (Inl e, b, w)
                | (Inr (state, final, stage), w) \<Rightarrow>
                    let damage = earlierRecoveryDamageStage damage stage in
                    if index = core_recordCount (ev_core ev) then (Inr (damage, final), b, w)
                    else
                      (case builder_Append blockSize state b of
                         (Inl e, b) \<Rightarrow> (Inl (RangesError e), b, w)
                       | (Inr _, b) \<Rightarrow>
                           recovery_loop P blockSize ev sourceSize authorizes (index + 1) damage b w))))"
  by pat_completeness auto
termination
proof (relation "measure (\<lambda>(P, bs, ev, size, auth, index, damage, b, w). unat (core_recordCount (ev_core ev)) - unat index)")
  show "((P, bs, ev, size, auth, index + 1, stage, b', w'), P, bs, ev, size, auth, index, damage, b, w)
      \<in> measure (\<lambda>(P, bs, ev, size, auth, index, damage, b, w). unat (core_recordCount (ev_core ev)) - unat index)"
    if "\<not> core_recordCount (ev_core ev) < index" "index \<noteq> core_recordCount (ev_core ev)"
    for P bs ev size auth index stage b' w' damage b w
    using unat_step [of index "core_recordCount (ev_core ev)"] that by simp
qed auto

declare recovery_loop.simps [simp del]

definition analyzeRecoveryRecords ::
  "prims \<Rightarrow> u64 \<Rightarrow> RSCodecs option \<Rightarrow> int \<Rightarrow> Candidate \<Rightarrow> Geometry \<Rightarrow> key_lender \<Rightarrow> recoveryRequest \<Rightarrow> byte \<Rightarrow>
   Budget \<Rightarrow> world \<Rightarrow> (recovery_error + recoveryRecordAnalysis) \<times> Budget \<times> world" where
  "analyzeRecoveryRecords P blockSize newCodecs sourceSize candidate geometry keys request role budget w =
     (if sourceSize < 0 \<or> \<not> request_valid request \<or> \<not> isSupportedCapsuleRole role \<or> cand_role candidate \<noteq> role
      then (Inl InvalidForceAnalysis, budget, w)
      else
        case newCodecs of
          None \<Rightarrow> (Inl (Engine (Plain (External 0))), budget, w)
        | Some codecs \<Rightarrow>
          (case newRecordEvaluator P (cand_core candidate) geometry codecs (borrower_auth candidate geometry keys) w of
             (Inl e, w) \<Rightarrow> (Inl (Engine e), budget, w)
           | (Inr ev, w) \<Rightarrow>
             (case NewBuilder (core_plaintextLength (cand_core candidate)) (Some budget) of
                Inl e \<Rightarrow> (Inl (RangesError e), budget, w)
              | Inr b \<Rightarrow>
                (case recovery_loop P blockSize ev sourceSize (authorizesUnverified request role) 0 StageNone b w of
                   (Inl e, b, w) \<Rightarrow> (Inl e, bld_budget (builder_Close b), w)
                 | (Inr (damage, final), b, w) \<Rightarrow>
                   (case Seal blockSize b of
                      (Inl e, b) \<Rightarrow> (Inl (RangesError e), bld_budget (builder_Close b), w)
                    | (Inr m, b) \<Rightarrow>
                        (Inr \<lparr>ra_ranges = Some m, ra_final = final, ra_damageStage = damage\<rparr>,
                         bld_budget (builder_Close b), w))))))"

section \<open>The emission\<close>

text \<open>An error, and the error of the sink if it was the sink's.\<close>

type_synonym emission_error = "recovery_error \<times> cause option"

definition recoveryStateForAuthentication :: "bool \<Rightarrow> State" where
  "recoveryStateForAuthentication verified = (if verified then Verified else Unverified)"

definition recoveryFinalForAuthentication :: "bool \<Rightarrow> byte" where
  "recoveryFinalForAuthentication verified = (if verified then RecoveryFinalVerified else RecoveryFinalUnverified)"

text \<open>The callbacks capture whether the evidence contradicts the analysis, and the error of the sink.\<close>

definition emit_callback :: "Range \<Rightarrow> (bool \<times> cause option) record_callback" where
  "emit_callback r evidence plaintext w =
     (if evd_final evidence \<or> evd_plaintextOffset evidence \<noteq> rng_Start r \<or>
         evd_plaintextLength evidence \<noteq> rng_End r - rng_Start r \<or>
         recoveryStateForAuthentication (evd_verified evidence) \<noteq> rng_State r
      then ((Some (Plain InvalidRecordRequest), (True, None)), w)
      else
        case writeVerifiedRecord (rng_Index r) plaintext w of
          (sinkErr, w) \<Rightarrow> ((map_option Plain sinkErr, (False, sinkErr)), w))"

definition emit_final_callback :: "byte \<Rightarrow> (bool \<times> cause option) record_callback" where
  "emit_final_callback final evidence plaintext w =
     (if \<not> evd_final evidence \<or> plaintext \<noteq> [] \<or>
         recoveryFinalForAuthentication (evd_verified evidence) \<noteq> final
      then ((Some (Plain InvalidRecordRequest), (True, None)), w)
      else ((None, (False, None)), w))"

definition emission_result ::
  "(pcv3_error option \<times> (bool \<times> cause option) option) \<times> world \<Rightarrow> (emission_error + unit) \<times> world" where
  "emission_result r =
     (case r of
        ((_, Some (True, _)), w) \<Rightarrow> (Inl (InvalidForceAnalysis, None), w)
      | ((Some e, Some (False, sinkErr)), w) \<Rightarrow> (Inl (Engine e, sinkErr), w)
      | ((Some e, None), w) \<Rightarrow> (Inl (Engine e, None), w)
      | ((None, _), w) \<Rightarrow> (Inr (), w))"

fun emit_ranges ::
  "prims \<Rightarrow> recordEvaluator \<Rightarrow> bool \<Rightarrow> Range list \<Rightarrow> (world, emission_error, unit) io" where
  "emit_ranges P ev authorizes [] = io_ret ()"
| "emit_ranges P ev authorizes (r # rest) =
     (if rng_State r = Missing then emit_ranges P ev authorizes rest
      else
        io_bind (\<lambda>w. emission_result (evaluateCanonicalRecord P ev (rng_Index r) authorizes (emit_callback r) w))
          (\<lambda>_. emit_ranges P ev authorizes rest))"

text \<open>A walk over a map that panicked would be \<open>None\<close>; a sealed map never does.\<close>

definition emitRecoveryRecords ::
  "prims \<Rightarrow> RSCodecs option \<Rightarrow> Candidate \<Rightarrow> Geometry \<Rightarrow> key_lender \<Rightarrow> recoveryRequest \<Rightarrow> byte \<Rightarrow>
   recoveryRecordAnalysis \<Rightarrow> (world, emission_error, unit) io" where
  "emitRecoveryRecords P newCodecs candidate geometry keys request role analysis w =
     (if \<not> request_valid request \<or> \<not> isSupportedCapsuleRole role \<or> cand_role candidate \<noteq> role \<or>
         \<not> validCanonicalRecoveryRanges (core_plaintextLength (cand_core candidate)) (ra_ranges analysis) \<or>
         \<not> validRecoveryFinalState (ra_final analysis)
      then (Inl (InvalidForceAnalysis, None), w)
      else
        case newCodecs of
          None \<Rightarrow> (Inl (Engine (Plain (External 0)), None), w)
        | Some codecs \<Rightarrow>
          (case newRecordEvaluator P (cand_core candidate) geometry codecs (borrower_auth candidate geometry keys) w of
             (Inl e, w) \<Rightarrow> (Inl (Engine e, None), w)
           | (Inr ev, w) \<Rightarrow>
             (case map_Present (ra_ranges analysis) of
                None \<Rightarrow> (Inl (Engine (Plain (External 0)), None), w)
              | Some ranges \<Rightarrow>
                io_bind (emit_ranges P ev (authorizesUnverified request role) ranges) (\<lambda>_ w.
                  if ra_final analysis = RecoveryFinalMissing then (Inr (), w)
                  else emission_result
                         (evaluateCanonicalRecord P ev (core_recordCount (cand_core candidate))
                            (authorizesUnverified request role) (emit_final_callback (ra_final analysis)) w)) w)))"

section \<open>What the states of a recovery map rest on\<close>

text \<open>A record that was read and whose tag was checked, with the answer.\<close>

definition checked_record :: "prims \<Rightarrow> recordEvaluator \<Rightarrow> u64 \<Rightarrow> bool \<Rightarrow> world \<Rightarrow> bool" where
  "checked_record P ev i valid w \<longleftrightarrow>
     (\<exists>expected decoded. expectedRecord (ev_core ev) (ev_geometry ev) i = Some expected \<and>
        descriptor_read ev expected w \<and> body_read ev expected decoded w \<and>
        authenticate_body P ev expected decoded = Inr valid)"

definition justified :: "prims \<Rightarrow> recordEvaluator \<Rightarrow> bool \<Rightarrow> u64 \<Rightarrow> State \<Rightarrow> world \<Rightarrow> bool" where
  "justified P ev authorizes i s w \<longleftrightarrow>
     s = Verified \<and> checked_record P ev i True w \<or>
     s = Unverified \<and> authorizes \<and> checked_record P ev i False w \<or> s = Missing"

lemma stable_justified: "justified P ev authorizes i s w \<Longrightarrow> reads_only w w' \<Longrightarrow> justified P ev authorizes i s w'"
  unfolding justified_def checked_record_def
  by (metis stableD [OF stable_descriptor_read] stableD [OF stable_body_read])

lemma analyze_record_Inr:
  assumes "analyze_record P ev authorizes i w = (Inr (s, f, stage), w')"
  shows "reads_only w w' \<and> f = s \<and> justified P ev authorizes i s w' \<and> (stage = StageNone \<longleftrightarrow> s \<noteq> Missing)"
proof -
  obtain err v w1 where e: "evaluateCanonicalRecord P ev i authorizes recovery_callback w = ((err, v), w1)"
    by (metis prod.collapse)
  note run = assms [unfolded analyze_record_def e prod.case]
  from e show ?thesis
  proof (cases rule: evaluate_cases)
    case (failed e)
    then have "recoverableRecordFailure e \<noteq> Some StageNone" by (cases e) auto
    then show ?thesis using run failed by (auto simp: justified_def split: option.splits)
  next
    case (called expected decoded valid plain w2 e' v' w3)
    have v: "e' = None" "w3 = w2" "v' = (if valid then (Verified, RecoveryFinalVerified) else (Unverified, RecoveryFinalUnverified))"
      using called(8) by (auto simp: recovery_callback_def evidence_of_def)
    have n: "err = None" using called(9,10) v run by (auto split: option.splits if_splits)
    have w1: "reads_only w2 w1" using called(10) v(2) by auto
    have c: "checked_record P ev i valid w2" using called(1,3,4,5) by (auto simp: checked_record_def)
    have "justified P ev authorizes i (if valid then Verified else Unverified) w2" using c called(6) by (auto simp: justified_def)
    then show ?thesis
      using run n v called(2,9) w1 stable_justified [OF _ w1] reads_only_trans [OF called(2) w1] by (auto split: if_splits)
  qed
qed

lemma earlier_damage: "earlierRecoveryDamageStage a b = StageNone \<longleftrightarrow> a = StageNone \<and> b = StageNone"
  by (auto simp: earlierRecoveryDamageStage_def earlierAuthStage_def)

text \<open>The states so far, and how the loop extends them.\<close>

definition analyzed :: "prims \<Rightarrow> recordEvaluator \<Rightarrow> bool \<Rightarrow> State list \<Rightarrow> world \<Rightarrow> bool" where
  "analyzed P ev authorizes xs w \<longleftrightarrow> (\<forall>j < length xs. justified P ev authorizes (word_of_nat j) (xs ! j) w)"

lemma analyzed_snoc:
  assumes "analyzed P ev authorizes xs w" and "reads_only w w'" and "justified P ev authorizes (word_of_nat (length xs)) s w'"
  shows "analyzed P ev authorizes (xs @ [s]) w'"
  using assms stable_justified [OF _ assms(2)] by (auto simp: analyzed_def nth_append less_Suc_eq)

definition analysis_end ::
  "prims \<Rightarrow> recordEvaluator \<Rightarrow> bool \<Rightarrow> u64 \<Rightarrow> Budget \<Rightarrow> State list \<Rightarrow> Stage \<Rightarrow> Stage \<Rightarrow> byte \<Rightarrow> Builder \<Rightarrow> world \<Rightarrow> world \<Rightarrow> bool" where
  "analysis_end P ev authorizes blockSize budget xs damage damage' final b' w w' \<longleftrightarrow>
     reads_only w w' \<and>
     (\<exists>ys. built blockSize (core_plaintextLength (ev_core ev)) (Some budget) b' (xs @ ys) \<and> analyzed P ev authorizes (xs @ ys) w' \<and>
        length (xs @ ys) \<le> unat (core_recordCount (ev_core ev)) \<and>
        justified P ev authorizes (core_recordCount (ev_core ev)) final w' \<and>
        (damage' = StageNone \<longleftrightarrow> damage = StageNone \<and> length (xs @ ys) = unat (core_recordCount (ev_core ev)) \<and>
           Missing \<notin> set ys \<and> final \<noteq> Missing))"

lemma analysis_end_step:
  assumes "analysis_end P ev authorizes blockSize budget (xs @ [s]) damage1 damage' final b' w1 w'"
    and "reads_only w w1" and "damage1 = StageNone \<longleftrightarrow> damage = StageNone \<and> s \<noteq> Missing"
  shows "analysis_end P ev authorizes blockSize budget xs damage damage' final b' w w'"
proof -
  obtain ys where ys: "reads_only w1 w'"
    "built blockSize (core_plaintextLength (ev_core ev)) (Some budget) b' (xs @ s # ys)" "analyzed P ev authorizes (xs @ s # ys) w'"
    "length (xs @ s # ys) \<le> unat (core_recordCount (ev_core ev))"
    "justified P ev authorizes (core_recordCount (ev_core ev)) final w'"
    "damage' = StageNone \<longleftrightarrow> damage1 = StageNone \<and> length (xs @ s # ys) = unat (core_recordCount (ev_core ev)) \<and>
        Missing \<notin> set ys \<and> final \<noteq> Missing"
    using assms(1) by (auto simp: analysis_end_def)
  have "Missing \<notin> set (s # ys) \<longleftrightarrow> s \<noteq> Missing \<and> Missing \<notin> set ys" by auto
  then show ?thesis
    unfolding analysis_end_def using ys assms(3) reads_only_trans [OF assms(2) ys(1)] by (intro conjI exI [of _ "s # ys"]) auto
qed

lemma recovery_loop_Inr:
  assumes "recovery_loop P blockSize ev sourceSize authorizes index damage b w = (Inr (damage', final), b', w')"
    and "built blockSize (core_plaintextLength (ev_core ev)) (Some budget) b xs" and "length xs = unat index"
    and "index \<le> core_recordCount (ev_core ev)" and "analyzed P ev authorizes xs w"
  shows "analysis_end P ev authorizes blockSize budget xs damage damage' final b' w w'"
  using assms
proof (induction "unat (core_recordCount (ev_core ev)) - unat index" arbitrary: index damage b w xs rule: less_induct)
  case less
  let ?n = "core_recordCount (ev_core ev)"
  have i: "length xs \<le> unat ?n" "\<not> index > ?n" using less.prems(3,4) by (simp_all add: word_le_nat_alt not_less)
  note start = less.prems(1) [unfolded recovery_loop.simps [of P blockSize ev sourceSize authorizes index] if_not_P [OF i(2)]]
  obtain w0 where p: "poll_record w = (Inr (), w0)" "reads_only w w0"
    using start by (cases rule: poll_cases [of "\<lambda>c. newRecordFailure StageCancellation c" w]) auto
  obtain expected where e: "expectedRecord (ev_core ev) (ev_geometry ev) index = Some expected"
    using start p(1) by (auto split: option.splits)
  note run = start [unfolded p(1) e prod.case sum.case option.case]
  show ?case
  proof (cases "exp_descriptorOffset expected \<ge> sourceSize")
    case True
    then obtain b1 where f: "FinishMissingTail blockSize b = (Inr (), b1)" "b1 = b'" "w' = w0" "final = Missing"
      "damage' = earlierRecoveryDamageStage damage (if exp_final expected then StageFinalRecord else StageDescriptor)"
      using run by (auto split: prod.splits sum.splits)
    have "built blockSize (core_plaintextLength (ev_core ev)) (Some budget) b' xs"
      using built.finished [OF less.prems(2) f(1)] f(2) by simp
    moreover have "analyzed P ev authorizes xs w0"
      using less.prems(5) stable_justified [OF _ p(2)] by (auto simp: analyzed_def)
    ultimately show ?thesis
      unfolding analysis_end_def using f p(2) i(1) by (intro conjI exI [of _ "[]"]) (auto simp: justified_def earlier_damage)
  next
    case False
    obtain s f stage w1 where a: "analyze_record P ev authorizes index w0 = (Inr (s, f, stage), w1)"
      using run False by (auto split: prod.splits sum.splits)
    note A = analyze_record_Inr [OF a]
    have w1: "reads_only w w1" using p(2) A reads_only_trans by blast
    have d: "earlierRecoveryDamageStage damage stage = StageNone \<longleftrightarrow> damage = StageNone \<and> s \<noteq> Missing"
      using A by (auto simp: earlier_damage)
    show ?thesis
    proof (cases "index = ?n")
      case True
      have r: "damage' = earlierRecoveryDamageStage damage stage" "final = s" "b' = b" "w' = w1"
        using run False a True A by auto
      have "analyzed P ev authorizes xs w1"
        using less.prems(5) stable_justified [OF _ w1] by (auto simp: analyzed_def)
      then show ?thesis
        unfolding analysis_end_def using r w1 A d less.prems(2,3) True by (intro conjI exI [of _ "[]"]) auto
    next
      case ne: False
      obtain b1 where ap: "builder_Append blockSize s b = (Inr (), b1)"
        and rest: "recovery_loop P blockSize ev sourceSize authorizes (index + 1) (earlierRecoveryDamageStage damage stage) b1 w1 =
          (Inr (damage', final), b', w')"
        using run False a ne by (auto simp: Let_def split: prod.splits sum.splits)
      have lt: "index < ?n" using less.prems(4) ne by simp
      note u = unat_next [OF lt]
      have "built blockSize (core_plaintextLength (ev_core ev)) (Some budget) b1 (xs @ [s])"
        by (rule built.appended [OF less.prems(2) ap])
      moreover have "analyzed P ev authorizes (xs @ [s]) w1"
        by (rule analyzed_snoc [OF less.prems(5) w1]) (use A less.prems(3) in simp)
      moreover have "index + 1 \<le> ?n" using u by (simp add: word_le_nat_alt)
      ultimately have "analysis_end P ev authorizes blockSize budget (xs @ [s]) (earlierRecoveryDamageStage damage stage) damage' final b' w1 w'"
        using less.hyps [OF _ rest, of "xs @ [s]"] u less.prems(3) by simp
      then show ?thesis by (rule analysis_end_step [OF _ w1 d])
    qed
  qed
qed

section \<open>The recovery map is truthful\<close>

lemma newRecordEvaluator_Inr:
  assumes "newRecordEvaluator P (cand_core candidate) geometry codecs (borrower_auth candidate geometry keys) w = (Inr ev, w')"
  shows "reads_only w w'" "evaluator_for P codecs (borrower_auth candidate geometry keys) ev"
    "ev_core ev = cand_core candidate" "ev_geometry ev = geometry"
    "unat (core_recordCount (cand_core candidate)) = rec_count (unat (core_plaintextLength (cand_core candidate)))"
proof -
  note R = reads_toD [OF newRecordEvaluator_reads assms TrueI]
  show "reads_only w w'" using R(1) .
  show e: "evaluator_for P codecs (borrower_auth candidate geometry keys) ev" using R(3) by (simp add: borrower_auth_def)
  have g: "recordGeometryMatchesCore (cand_core candidate) geometry" "ev_core ev = cand_core candidate" "ev_geometry ev = geometry"
    using assms by (auto simp: newRecordEvaluator_def io_bind_eq_Inr io_fail_def io_ret_def Let_def split: if_splits option.splits)
  show "ev_core ev = cand_core candidate" "ev_geometry ev = geometry" using g by simp_all
  have "core_recordCount (cand_core candidate) = canonicalRecordCount (core_plaintextLength (cand_core candidate))"
    using g(1) by (auto simp: recordGeometryMatchesCore_def validLogicalCore_def split: if_splits)
  then show "unat (core_recordCount (cand_core candidate)) = rec_count (unat (core_plaintextLength (cand_core candidate)))"
    by (simp add: unat_canonicalRecordCount)
qed

lemma analyzeRecoveryRecords_Inr:
  assumes "analyzeRecoveryRecords P blockSize (Some codecs) sourceSize candidate geometry keys request role budget w =
      (Inr a, budget', w')"
  obtains ev m full where "evaluator_for P codecs (borrower_auth candidate geometry keys) ev"
    "ev_core ev = cand_core candidate" "ev_geometry ev = geometry" "reads_only w w'"
    "ra_ranges a = Some m" "answers (core_plaintextLength (cand_core candidate)) full m"
    "length full = unat (core_recordCount (cand_core candidate))"
    "analyzed P ev (authorizesUnverified request role) full w'"
    "justified P ev (authorizesUnverified request role) (core_recordCount (cand_core candidate)) (ra_final a) w'"
    "ra_damageStage a = StageNone \<longleftrightarrow> Missing \<notin> set full \<and> ra_final a \<noteq> Missing"
proof -
  let ?core = "cand_core candidate" and ?auth = "authorizesUnverified request role"
  let ?len = "core_plaintextLength ?core"
  obtain ev w0 where ev: "newRecordEvaluator P ?core geometry codecs (borrower_auth candidate geometry keys) w = (Inr ev, w0)"
    using assms by (auto simp: analyzeRecoveryRecords_def split: if_splits prod.splits sum.splits)
  note E = newRecordEvaluator_Inr [OF ev]
  obtain b where b: "NewBuilder ?len (Some budget) = Inr b"
    using assms ev by (auto simp: analyzeRecoveryRecords_def split: if_splits prod.splits sum.splits)
  obtain damage final b1 m b2 where
    l: "recovery_loop P blockSize ev sourceSize ?auth 0 StageNone b w0 = (Inr (damage, final), b1, w')"
    and s: "Seal blockSize b1 = (Inr m, b2)" and a: "a = \<lparr>ra_ranges = Some m, ra_final = final, ra_damageStage = damage\<rparr>"
    using assms ev b by (auto simp: analyzeRecoveryRecords_def split: if_splits prod.splits sum.splits)
  have "built blockSize (core_plaintextLength (ev_core ev)) (Some budget) b []" using built.new [OF b] E(3) by simp
  from recovery_loop_Inr [OF l this] have "analysis_end P ev ?auth blockSize budget [] StageNone damage final b1 w0 w'"
    by (simp add: analyzed_def)
  then obtain ys where ys: "reads_only w0 w'" "built blockSize ?len (Some budget) b1 ys" "analyzed P ev ?auth ys w'"
    "length ys \<le> unat (core_recordCount ?core)" "justified P ev ?auth (core_recordCount ?core) final w'"
    "damage = StageNone \<longleftrightarrow> length ys = unat (core_recordCount ?core) \<and> Missing \<notin> set ys \<and> final \<noteq> Missing"
    using E(3) by (auto simp: analysis_end_def)
  let ?full = "with_tail ?len ys"
  have full: "length ?full = unat (core_recordCount ?core)" using ys(4) E(5) by (simp add: with_tail_def)
  have "justified P ev ?auth (word_of_nat j) (?full ! j) w'" if "j < length ?full" for j
    using ys(3) that by (cases "j < length ys") (auto simp: analyzed_def with_tail_def nth_append justified_def)
  then have an: "analyzed P ev ?auth ?full w'" by (simp add: analyzed_def)
  have "Missing \<notin> set ?full \<longleftrightarrow> length ys = unat (core_recordCount ?core) \<and> Missing \<notin> set ys"
    using ys(4) E(5) by (auto simp: with_tail_def)
  then have "damage = StageNone \<longleftrightarrow> Missing \<notin> set ?full \<and> final \<noteq> Missing" using ys(6) by blast
  then show thesis
    using that [OF E(2-4) reads_only_trans [OF E(1) ys(1)] _ sealed_answers [OF ys(2) s] full an] ys(5) a by simp
qed

section \<open>The output is what the map says\<close>

text \<open>What the sink may get for a range: the plaintext of the record there, with the state of the range.\<close>

definition delivered :: "prims \<Rightarrow> recordEvaluator \<Rightarrow> bool \<Rightarrow> Range \<Rightarrow> u64 \<times> byte list \<Rightarrow> world \<Rightarrow> bool" where
  "delivered P ev authorizes r out w \<longleftrightarrow>
     (\<exists>expected decoded valid. expectedRecord (ev_core ev) (ev_geometry ev) (rng_Index r) = Some expected \<and>
        \<not> exp_final expected \<and> descriptor_read ev expected w \<and> body_read ev expected decoded w \<and>
        authenticate_body P ev expected decoded = Inr valid \<and>
        rng_State r = (if valid then Verified else Unverified) \<and> (valid \<or> authorizes) \<and>
        exp_plaintextOffset expected = rng_Start r \<and> exp_ciphertextLength expected = rng_End r - rng_Start r \<and>
        body_plain P ev expected decoded = Inr (snd out) \<and> length (snd out) = unat (exp_ciphertextLength expected) \<and>
        fst out = rng_Index r)"

lemma read_mono:
  assumes "set (w_trace w) \<subseteq> set (w_trace w')"
  shows "descriptor_read ev expected w \<Longrightarrow> descriptor_read ev expected w'"
    "body_read ev expected decoded w \<Longrightarrow> body_read ev expected decoded w'"
  using assms unfolding descriptor_read_def body_read_def logged_def by blast+

lemma delivered_emits: "delivered P ev authorizes r out w \<Longrightarrow> emits w recs w' \<Longrightarrow> delivered P ev authorizes r out w'"
  unfolding delivered_def using read_mono [OF emits_trace] by meson

lemma emit_record_end:
  assumes "emission_result (evaluateCanonicalRecord P ev (rng_Index r) authorizes (emit_callback r) w) = (x, w')"
  shows "\<exists>recs. emits w recs w' \<and> (\<forall>out \<in> set recs. delivered P ev authorizes r out w') \<and> length recs \<le> 1 \<and>
    (x = Inr () \<longrightarrow> recs \<noteq> [])"
proof -
  obtain err v w1 where e: "evaluateCanonicalRecord P ev (rng_Index r) authorizes (emit_callback r) w = ((err, v), w1)"
    by (metis prod.collapse)
  note run = assms [unfolded e emission_result_def prod.case]
  from e show ?thesis
  proof (cases rule: evaluate_cases)
    case (failed e)
    then show ?thesis using run by (intro exI [of _ "[]"]) auto
  next
    case (called expected decoded valid plain w2 e' v' w3)
    let ?refused = "exp_final expected \<or> exp_plaintextOffset expected \<noteq> rng_Start r \<or>
      exp_ciphertextLength expected \<noteq> rng_End r - rng_Start r \<or> recoveryStateForAuthentication valid \<noteq> rng_State r"
    have w1: "reads_only w3 w1" using called(10) by auto
    show ?thesis
    proof (cases ?refused)
      case True
      then have "e' = Some (Plain InvalidRecordRequest)" "v' = (True, None)" "w3 = w2"
        using called(8) by (auto simp: emit_callback_def evidence_of_def)
      then show ?thesis using run called(2,9,10) by (intro exI [of _ "[]"]) auto
    next
      case False
      obtain sinkErr where v: "e' = map_option Plain sinkErr" "v' = (False, sinkErr)"
        and w3: "w3 = (tick w2)\<lparr>w_emitted := w_emitted w2 @ [(rng_Index r, plain)]\<rparr>"
        using called(8) False by (auto simp: emit_callback_def evidence_of_def writeVerifiedRecord_def)
      have run_world: "w' = w1" using run v called(9) by (cases err) simp_all
      have em2: "emits w2 [(rng_Index r, plain)] w3"
        unfolding w3 emits_def tick_def by (rule exI [of _ "w_tick w2 + 1"], rule exI [of _ "[]"]) simp
      have em: "emits w [(rng_Index r, plain)] w1"
        using emits_reads [OF emits_trans [of w "[]" w2, OF _ em2] w1] called(2) by simp
      have "delivered P ev authorizes r (rng_Index r, plain) w2"
        unfolding delivered_def
        by (intro exI [of _ expected] exI [of _ decoded] exI [of _ valid])
          (use called(1,3-7) False in \<open>simp add: recoveryStateForAuthentication_def\<close>)
      then have "delivered P ev authorizes r (rng_Index r, plain) w1"
        using delivered_emits [OF _ em2] delivered_emits [of P ev authorizes r _ w3 "[]" w1] w1 by simp
      then show ?thesis using em run_world by (intro exI [of _ "[(rng_Index r, plain)]"]) simp
    qed
  qed
qed

text \<open>The ranges in turn: what is there is a prefix of them, all of them if nothing fails.\<close>

lemma emit_ranges_end:
  assumes "emit_ranges P ev authorizes ranges w = (x, w')"
  shows "\<exists>recs n. emits w recs w' \<and>
    list_all2 (\<lambda>r out. delivered P ev authorizes r out w') (take n (filter (\<lambda>r. rng_State r \<noteq> Missing) ranges)) recs \<and>
    (x = Inr () \<longrightarrow> length (filter (\<lambda>r. rng_State r \<noteq> Missing) ranges) \<le> n)"
  using assms
proof (induction ranges arbitrary: w)
  case Nil
  then show ?case by (intro exI [of _ "[]"]) (auto simp: io_ret_def)
next
  case (Cons r rest)
  show ?case
  proof (cases "rng_State r = Missing")
    case True
    then show ?thesis using Cons by simp
  next
    case False
    obtain x1 w1 where s: "emission_result (evaluateCanonicalRecord P ev (rng_Index r) authorizes (emit_callback r) w) = (x1, w1)"
      by force
    obtain recs1 where r1: "emits w recs1 w1" "\<forall>out \<in> set recs1. delivered P ev authorizes r out w1" "length recs1 \<le> 1"
      "x1 = Inr () \<longrightarrow> recs1 \<noteq> []" using emit_record_end [OF s] by blast
    have small: "recs1 = [] \<or> (\<exists>out. recs1 = [out])" using r1(3) by (cases recs1) auto
    show ?thesis
    proof (cases x1)
      case (Inl e)
      have x: "x = Inl e" "w' = w1" using Cons.prems False s Inl by (simp_all add: io_bind_def)
      have "list_all2 (\<lambda>r out. delivered P ev authorizes r out w')
          (take (length recs1) (filter (\<lambda>r. rng_State r \<noteq> Missing) (r # rest))) recs1"
        using small r1(2) x(2) False by auto
      then show ?thesis using r1(1) x by blast
    next
      case (Inr u)
      then obtain out where out: "recs1 = [out]" using r1(4) small by auto
      have "emit_ranges P ev authorizes rest w1 = (x, w')" using Cons.prems False s Inr by (simp add: io_bind_def)
      from Cons.IH [OF this] obtain recs n where IH: "emits w1 recs w'"
        "list_all2 (\<lambda>r out. delivered P ev authorizes r out w') (take n (filter (\<lambda>r. rng_State r \<noteq> Missing) rest)) recs"
        "x = Inr () \<longrightarrow> length (filter (\<lambda>r. rng_State r \<noteq> Missing) rest) \<le> n" by blast
      have "delivered P ev authorizes r out w'" using r1(2) out delivered_emits [OF _ IH(1)] by auto
      then show ?thesis
        using emits_trans [OF r1(1) IH(1)] IH(2,3) out False
        by (intro exI [of _ "recs1 @ recs"] exI [of _ "Suc n"]) auto
    qed
  qed
qed

lemma emit_final_end:
  assumes "emission_result (evaluateCanonicalRecord P ev i authorizes (emit_final_callback final) w) = (x, w')"
  shows "reads_only w w' \<and> (x = Inr () \<longrightarrow> checked_record P ev i (final = RecoveryFinalVerified) w')"
proof -
  obtain err v w1 where e: "evaluateCanonicalRecord P ev i authorizes (emit_final_callback final) w = ((err, v), w1)"
    by (metis prod.collapse)
  note run = assms [unfolded e emission_result_def prod.case]
  from e show ?thesis
  proof (cases rule: evaluate_cases)
    case (failed e)
    then show ?thesis using run by auto
  next
    case (called expected decoded valid plain w2 e' v' w3)
    have w3: "w3 = w2" using called(8) by (auto simp: emit_final_callback_def split: if_splits)
    have w1: "reads_only w2 w1" using called(10) w3 by auto
    have out: "w' = w1" using run called(9) by (cases err; cases v'; cases "fst v'") simp_all
    have "checked_record P ev i valid w2" using called(1,3-5) by (auto simp: checked_record_def)
    then have c: "checked_record P ev i valid w1"
      unfolding checked_record_def using w1 stableD [OF stable_descriptor_read] stableD [OF stable_body_read] by metis
    have "valid = (final = RecoveryFinalVerified)" if "x = Inr ()"
      using that run called(8-10) by (auto simp: emit_final_callback_def evidence_of_def recoveryFinalForAuthentication_def split: if_splits)
    then show ?thesis using c out reads_only_trans [OF called(2) w1] by auto
  qed
qed

lemma answers_nonempty: "answers len full m \<Longrightarrow> map_Present (Some m) =
    Some (map (\<lambda>j. plain_range len j (full ! j)) (filter (\<lambda>j. full ! j \<noteq> Missing) [0..<length full]))"
  by (simp add: answers_def)

lemma emitRecoveryRecords_end:
  assumes "emitRecoveryRecords P (Some codecs) candidate geometry keys request role a w = (x, w')"
    and "ra_ranges a = Some m" and "answers (core_plaintextLength (cand_core candidate)) full m"
  obtains recs where "emits w recs w'"
    "x \<noteq> Inr () \<and> recs = [] \<or>
     (\<exists>ev n. evaluator_for P codecs (borrower_auth candidate geometry keys) ev \<and>
        list_all2 (\<lambda>j out. delivered P ev (authorizesUnverified request role)
            (plain_range (core_plaintextLength (cand_core candidate)) j (full ! j)) out w')
          (take n (filter (\<lambda>j. full ! j \<noteq> Missing) [0..<length full])) recs \<and>
        (x = Inr () \<longrightarrow> length (filter (\<lambda>j. full ! j \<noteq> Missing) [0..<length full]) \<le> n \<and>
           (ra_final a \<noteq> Missing \<longrightarrow>
              checked_record P ev (core_recordCount (cand_core candidate)) (ra_final a = RecoveryFinalVerified) w')))"
proof (cases "x \<noteq> Inr () \<and> reads_only w w'")
  case True
  then show thesis using that [of "[]"] by simp
next
  case ran: False
  let ?core = "cand_core candidate" and ?auth = "authorizesUnverified request role"
  let ?ranges = "map (\<lambda>j. plain_range (core_plaintextLength ?core) j (full ! j)) (filter (\<lambda>j. full ! j \<noteq> Missing) [0..<length full])"
  have all: "filter (\<lambda>r. rng_State r \<noteq> Missing) ?ranges = ?ranges"
    by (auto simp: filter_id_conv plain_range_def)
  have only: "newRecordEvaluator P ?core geometry codecs (borrower_auth candidate geometry keys) w = (r, w0) \<Longrightarrow> reads_only w w0" for r w0
    by (rule reads_toD(1) [OF newRecordEvaluator_reads _ TrueI])
  obtain ev w0 x1 w1 where ev: "newRecordEvaluator P ?core geometry codecs (borrower_auth candidate geometry keys) w = (Inr ev, w0)"
    and r: "emit_ranges P ev ?auth ?ranges w0 = (x1, w1)"
    and out: "(case x1 of Inl e \<Rightarrow> (Inl e, w1) | Inr _ \<Rightarrow>
       if ra_final a = RecoveryFinalMissing then (Inr (), w1)
       else emission_result (evaluateCanonicalRecord P ev (core_recordCount ?core) ?auth (emit_final_callback (ra_final a)) w1)) = (x, w')"
    using assms(1) ran only
    by (auto simp: emitRecoveryRecords_def assms(2) answers_nonempty [OF assms(3)] io_bind_def split: if_splits prod.splits sum.splits)
  note E = newRecordEvaluator_Inr [OF ev]
  obtain recs n where R: "emits w0 recs w1" "list_all2 (\<lambda>r out. delivered P ev ?auth r out w1) (take n ?ranges) recs"
    "x1 = Inr () \<longrightarrow> length ?ranges \<le> n"
    using emit_ranges_end [OF r] unfolding all by blast
  have F: "reads_only w1 w'" "x = Inr () \<longrightarrow> x1 = Inr () \<and> (ra_final a \<noteq> Missing \<longrightarrow>
      checked_record P ev (core_recordCount ?core) (ra_final a = RecoveryFinalVerified) w')"
    using out emit_final_end [of P ev "core_recordCount ?core" ?auth "ra_final a" w1 x w'] by (auto split: sum.splits if_splits)
  have "emits w recs w'" using emits_reads [OF emits_trans [of w "[]" w0, OF _ R(1)] F(1)] E(1) by simp
  moreover have "list_all2 (\<lambda>r out. delivered P ev ?auth r out w') (take n ?ranges) recs"
    using R(2) by (rule list_all2_mono) (use delivered_emits [of P ev ?auth _ _ w1 "[]" w'] F(1) in simp)
  ultimately show thesis
    using that [of recs] E(2) R(3) F(2) by (auto simp: take_map list_all2_map1)
qed

text \<open>C6: the output of a recovery is what was checked. Whatever the disk answers, in two passes between
  which it may change: if the analysis returns, its map answers as a list of one state for each record
  of the volume, verified only where the record was read at its place and its tag verified, unverified only
  where the request consents and the tag did not verify. Emission with that analysis hands the sink,
  in order, a prefix of the records that are not missing, each re-read with the same state, decrypted
  under the keys of the volume, and of the extent the map says; if it succeeds, all of them, and the
  final record is what the analysis said. The analysis reports no damage only if nothing is missing.\<close>

theorem forced_output_matches_map:
  assumes "analyzeRecoveryRecords P blockSize (Some codecs) sourceSize candidate geometry keys request role budget w =
      (Inr a, budget', w1)"
    and "emitRecoveryRecords P (Some codecs) candidate geometry keys request role a w2 = (x, w3)"
  shows "\<exists>ev full recs. evaluator_for P codecs (borrower_auth candidate geometry keys) ev \<and>
    length full = unat (core_recordCount (cand_core candidate)) \<and>
    (\<exists>m. ra_ranges a = Some m \<and> answers (core_plaintextLength (cand_core candidate)) full m) \<and>
    analyzed P ev (authorizesUnverified request role) full w1 \<and>
    (ra_damageStage a = StageNone \<longleftrightarrow> Missing \<notin> set full \<and> ra_final a \<noteq> Missing) \<and>
    emits w2 recs w3 \<and>
    (x \<noteq> Inr () \<and> recs = [] \<or>
     (\<exists>ev n. evaluator_for P codecs (borrower_auth candidate geometry keys) ev \<and>
        list_all2 (\<lambda>j out. delivered P ev (authorizesUnverified request role)
            (plain_range (core_plaintextLength (cand_core candidate)) j (full ! j)) out w3)
          (take n (filter (\<lambda>j. full ! j \<noteq> Missing) [0..<length full])) recs \<and>
        (x = Inr () \<longrightarrow> length (filter (\<lambda>j. full ! j \<noteq> Missing) [0..<length full]) \<le> n \<and>
           (ra_final a \<noteq> Missing \<longrightarrow>
              checked_record P ev (core_recordCount (cand_core candidate)) (ra_final a = RecoveryFinalVerified) w3))))"
proof -
  obtain ev m full where A: "evaluator_for P codecs (borrower_auth candidate geometry keys) ev" "ra_ranges a = Some m"
    "answers (core_plaintextLength (cand_core candidate)) full m"
    "length full = unat (core_recordCount (cand_core candidate))"
    "analyzed P ev (authorizesUnverified request role) full w1"
    "ra_damageStage a = StageNone \<longleftrightarrow> Missing \<notin> set full \<and> ra_final a \<noteq> Missing"
    by (rule analyzeRecoveryRecords_Inr [OF assms(1)])
  show ?thesis by (rule emitRecoveryRecords_end [OF assms(2) A(2,3)]) (use A(1-6) in blast)
qed

end
