(* ===== verification/Recovery_Room.thy ===== *)
theory Recovery_Room
  imports Recovery_Budget
begin

text \<open>
  How much memory a recovery map needs: a budget with room for the pages of its records is never
  exceeded while it is built, whatever the states are.
\<close>

section \<open>Memory enough\<close>

text \<open>The pages of a map of \<open>n\<close> records, and the room in a budget that is always enough for them: two
  pages of bits, one more for each page of records, and the growing array of the blocks.\<close>

definition pages_of :: "nat \<Rightarrow> nat" where
  "pages_of n = n div 16384 + 1"

definition room_for :: "u64 \<Rightarrow> Budget \<Rightarrow> nat \<Rightarrow> bool" where
  "room_for blockSize before n \<longleftrightarrow>
     usable_budget blockSize before \<and>
     unat (bud_used before) + 4096 * (pages_of n + 2) + (3 * pages_of n + 4) * unat blockSize \<le> unat (bud_limit before)"

definition few_blocks :: "u64 \<Rightarrow> Budget \<Rightarrow> Builder \<Rightarrow> bool" where
  "few_blocks blockSize before b \<longleftrightarrow>
     budget_inv blockSize before b \<and> map_cap (bld_m b) \<le> 4 + 2 * length (map_blocks (bld_m b)) \<and>
     length (map_blocks (bld_m b)) \<le> map_cap (bld_m b)"

lemma acquire_room:
  assumes "bud_used b \<le> bud_limit b" and "unat (bud_used b) + unat n \<le> unat (bud_limit b)"
  shows "\<exists>b'. budget_acquire n b = Inr b'"
proof -
  have "unat (bud_limit b - bud_used b) = unat (bud_limit b) - unat (bud_used b)"
    by (rule unat_sub) (use assms(1) in simp)
  then have "n \<le> bud_limit b - bud_used b" using assms(2) unfolding word_le_nat_alt by linarith
  then show ?thesis by (simp add: budget_acquire_def not_less)
qed

lemma mixed_pages_le: "mixed_pages blocks \<le> length blocks"
  by (simp add: mixed_pages_def)

lemma room_sum:
  fixes u p k l x y m :: nat
  assumes "u + 4096 * (p + 2) + k \<le> l" and "x + y \<le> k" and "m \<le> p"
  shows "u + (4096 + (x + 4096 * m)) + y \<le> l"
proof -
  have "4096 * m \<le> 4096 * p" using assms(3) by (rule mult_le_mono2)
  then show ?thesis using assms(1,2) by simp
qed

lemma room_page:
  fixes u p k l x m :: nat
  assumes "u + 4096 * (p + 2) + k \<le> l" and "x \<le> k" and "m \<le> p"
  shows "u + (4096 + (x + 4096 * m)) + 4096 \<le> l"
proof -
  have "4096 * m \<le> 4096 * p" using assms(3) by (rule mult_le_mono2)
  then show ?thesis using assms(1,2) by simp
qed

lemma grow_room:
  assumes few: "few_blocks blockSize before b" and ok: "room_for blockSize before n"
    and pages: "length (map_blocks (bld_m b)) \<le> pages_of n" and run: "grow_blocks blockSize b = (r, b')"
  shows "r = Inr ()" "map_cap (bld_m b') \<le> 4 + 2 * length (map_blocks (bld_m b))" "length (map_blocks (bld_m b)) < map_cap (bld_m b')"
proof -
  let ?cap = "map_cap (bld_m b)"
  define c where "c = (if ?cap * 2 = 0 then 4 else ?cap * 2)"
  have I: "bud_limit (bld_budget b) = bud_limit before"
    "unat (bud_used (bld_budget b)) = unat (bud_used before) + unat (bld_charged b)"
    "bud_used (bld_budget b) \<le> bud_limit before"
    "unat (bld_charged b) = 4096 + (?cap * unat blockSize + 4096 * mixed_pages (map_blocks (bld_m b)))"
    using few by (simp_all add: few_blocks_def budget_inv_def index_bytes_def)
  have all: "r = Inr () \<and> map_cap (bld_m b') \<le> 4 + 2 * length (map_blocks (bld_m b)) \<and>
    length (map_blocks (bld_m b)) < map_cap (bld_m b')"
  proof (cases "length (map_blocks (bld_m b)) = ?cap")
    case False
    then show ?thesis using run few by (auto simp: grow_blocks_def few_blocks_def)
  next
    case True
    have cs: "(?cap + c) * unat blockSize \<le> (3 * pages_of n + 4) * unat blockSize"
      by (rule mult_le_mono1) (use pages True in \<open>auto simp: c_def\<close>)
    have mixed: "mixed_pages (map_blocks (bld_m b)) \<le> pages_of n"
      using mixed_pages_le [of "map_blocks (bld_m b)"] pages by simp
    have room: "unat (bud_used (bld_budget b)) + c * unat blockSize \<le> unat (bud_limit (bld_budget b))"
    proof -
      have "unat (bud_used before) + 4096 * (pages_of n + 2) + (3 * pages_of n + 4) * unat blockSize \<le> unat (bud_limit before)"
        using ok by (simp add: room_for_def)
      moreover have "?cap * unat blockSize + c * unat blockSize \<le> (3 * pages_of n + 4) * unat blockSize"
        using cs by (simp add: add_mult_distrib)
      ultimately show ?thesis unfolding I(1,2,4) by (rule room_sum [OF _ _ mixed])
    qed
    have "c * unat blockSize < 2 ^ 64" using room unat_u64_less [of "bud_limit (bld_budget b)"] by linarith
    then have size: "unat (word_of_nat c * blockSize :: u64) = c * unat blockSize"
      by (simp only: unat_word_ariths unat_of_nat mod_mult_left_eq len_of_numeral_defs mod_less) simp
    obtain budget where a: "budget_acquire (word_of_nat c * blockSize) (bld_budget b) = Inr budget"
      using acquire_room [of "bld_budget b" "word_of_nat c * blockSize"] I(1,3) room size by auto
    then show ?thesis using run True by (auto simp: grow_blocks_def Let_def c_def split: if_splits)
  qed
  then show "r = Inr ()" "map_cap (bld_m b') \<le> 4 + 2 * length (map_blocks (bld_m b))" "length (map_blocks (bld_m b)) < map_cap (bld_m b')"
    by blast+
qed

lemma add_room:
  assumes inv: "budget_inv blockSize before b" and cap: "map_cap (bld_m b) \<le> 4 + 2 * pages_of n"
    and ok: "room_for blockSize before n" and pages: "length (map_blocks (bld_m b)) \<le> pages_of n"
    and run: "add_block b = (r, b')"
  shows "r = Inr ()" "length (map_blocks (bld_m b')) = length (map_blocks (bld_m b)) + 1" "map_cap (bld_m b') = map_cap (bld_m b)"
proof -
  have I: "bud_limit (bld_budget b) = bud_limit before"
    "unat (bud_used (bld_budget b)) = unat (bud_used before) + unat (bld_charged b)"
    "bud_used (bld_budget b) \<le> bud_limit before"
    "unat (bld_charged b) = 4096 + (map_cap (bld_m b) * unat blockSize + 4096 * mixed_pages (map_blocks (bld_m b)))"
    using inv by (simp_all add: budget_inv_def index_bytes_def)
  have mixed: "mixed_pages (map_blocks (bld_m b)) \<le> pages_of n"
    using mixed_pages_le [of "map_blocks (bld_m b)"] pages by simp
  have "unat (bud_used before) + 4096 * (pages_of n + 2) + (3 * pages_of n + 4) * unat blockSize \<le> unat (bud_limit before)"
    using ok by (simp add: room_for_def)
  moreover have "map_cap (bld_m b) * unat blockSize \<le> (3 * pages_of n + 4) * unat blockSize"
    by (rule mult_le_mono1) (use cap in simp)
  ultimately have "unat (bud_used (bld_budget b)) + 4096 \<le> unat (bud_limit (bld_budget b))"
    unfolding I(1,2,4) by (rule room_page [OF _ _ mixed])
  then have "\<exists>budget. budget_acquire 4096 (bld_budget b) = Inr budget"
    using acquire_room [of "bld_budget b" 4096] I(1,3) by simp
  then have "r = Inr () \<and> length (map_blocks (bld_m b')) = length (map_blocks (bld_m b)) + 1 \<and> map_cap (bld_m b') = map_cap (bld_m b)"
    using run by (auto simp: add_block_def Let_def split: if_splits)
  then show "r = Inr ()" "length (map_blocks (bld_m b')) = length (map_blocks (bld_m b)) + 1" "map_cap (bld_m b') = map_cap (bld_m b)"
    by blast+
qed

lemma flush_room:
  assumes few: "few_blocks blockSize before b" and ok: "room_for blockSize before n"
    and pages: "length (map_blocks (bld_m b)) \<le> pages_of n" and run: "flush blockSize b = (r, b')"
  shows "r = Inr ()" "few_blocks blockSize before b'"
    "length (map_blocks (bld_m b')) \<le> length (map_blocks (bld_m b)) + (if bld_filled b = 0 then 0 else 1)" "bld_filled b' = 0"
proof -
  let ?blocks = "map_blocks (bld_m b)"
  have use: "usable_budget blockSize before" using ok by (simp add: room_for_def)
  have inv: "budget_inv blockSize before b'" by (rule flush_budget [OF _ use run]) (use few in \<open>simp add: few_blocks_def\<close>)
  have all: "r = Inr () \<and> map_cap (bld_m b') \<le> 4 + 2 * length (map_blocks (bld_m b')) \<and>
    length (map_blocks (bld_m b')) \<le> map_cap (bld_m b') \<and>
    length (map_blocks (bld_m b')) \<le> length (map_blocks (bld_m b)) + (if bld_filled b = 0 then 0 else 1) \<and> bld_filled b' = 0"
  proof (cases "bld_filled b = 0")
    case True
    then show ?thesis using run few by (auto simp: flush_def few_blocks_def)
  next
    case filled: False
    show ?thesis
    proof (cases "bld_uniform b \<noteq> 0 \<and> ?blocks \<noteq> [] \<and> blk_state (last ?blocks) = bld_uniform b")
      case True
      then have l: "length (butlast ?blocks @ [(last ?blocks)\<lparr>blk_end := map_prefix (bld_m b)\<rparr>]) = length ?blocks" by simp
      have "r = Inr ()" "b' = clear_page (b\<lparr>bld_m := (bld_m b)
          \<lparr>map_blocks := butlast ?blocks @ [(last ?blocks)\<lparr>blk_end := map_prefix (bld_m b)\<rparr>]\<rparr>\<rparr>)"
        using run [unfolded flush_def Let_def if_not_P [OF filled] if_P [OF True]] by simp_all
      then show ?thesis using few filled l by (simp add: clear_page_def few_blocks_def del: length_append)
    next
      case False
      note run' = run [unfolded flush_def Let_def if_not_P [OF filled] if_not_P [OF False]]
      obtain r1 b1 where g: "grow_blocks blockSize b = (r1, b1)" by force
      note G = grow_room [OF few ok pages g]
      have m: "map_blocks (bld_m b1) = ?blocks" by (rule grow_blocks_keeps(4) [OF g])
      have i1: "budget_inv blockSize before b1" by (rule grow_blocks_budget [OF _ use g]) (use few in \<open>simp add: few_blocks_def\<close>)
      obtain r2 b2 where a: "add_block b1 = (r2, b2)" by force
      have A: "r2 = Inr ()" "length (map_blocks (bld_m b2)) = length ?blocks + 1" "map_cap (bld_m b2) = map_cap (bld_m b1)"
        using add_room [OF i1 _ ok _ a] G(2) pages by (simp_all add: m)
      have "r = Inr ()" "b' = clear_page b2" using run' g a G(1) A(1) by (simp_all add: io_bind_def)
      then show ?thesis using A(2,3) G(2,3) filled by (simp add: clear_page_def)
    qed
  qed
  then show "r = Inr ()" "few_blocks blockSize before b'"
    "length (map_blocks (bld_m b')) \<le> length (map_blocks (bld_m b)) + (if bld_filled b = 0 then 0 else 1)" "bld_filled b' = 0"
    using inv by (simp_all add: few_blocks_def)
qed

text \<open>The blocks are flushed a whole page at a time, but for the last one.\<close>

definition roomy :: "u64 \<Rightarrow> Budget \<Rightarrow> Builder \<Rightarrow> bool" where
  "roomy blockSize before b \<longleftrightarrow>
     few_blocks blockSize before b \<and>
     length (map_blocks (bld_m b)) * 16384 + bld_filled b \<le> unat (map_prefix (bld_m b)) + (if bld_sealed b then 16384 else 0) \<and>
     (bld_sealed b \<longrightarrow> bld_filled b = 0)"

lemma roomy_pages:
  assumes "roomy blockSize before b" and "unat (map_prefix (bld_m b)) \<le> n"
  shows "length (map_blocks (bld_m b)) \<le> pages_of n"
proof -
  have "length (map_blocks (bld_m b)) * 16384 \<le> n + 16384" using assms by (auto simp: roomy_def split: if_splits)
  then show ?thesis by (simp add: pages_of_def)
qed

lemma built_prefix: "built blockSize len budget b xs \<Longrightarrow> unat (map_prefix (bld_m b)) \<le> rec_count (unat len)"
  using built_inv [of blockSize len budget b xs] by (auto simp: builder_inv_def builder_holds_def builder_counts_def)

lemma append_room:
  assumes inv: "builder_inv len b xs" and rm: "roomy blockSize before b" and ok: "room_for blockSize before (rec_count (unat len))"
    and run: "builder_Append blockSize s b = (r, b')"
  shows "r \<noteq> Inl ErrBudget \<and> roomy blockSize before b'"
proof (cases "bld_sealed b \<or> bld_scratch b = None \<or> map_prefix (bld_m b) \<ge> map_count (bld_m b) \<or> s < Verified \<or> s > Missing")
  case True
  then show ?thesis using run rm by (auto simp: builder_Append_def)
next
  case False
  let ?n = "rec_count (unat len)"
  have p: "unat (map_prefix (bld_m b)) < unat (map_count (bld_m b))" "unat (map_count (bld_m b)) = ?n" "\<not> bld_sealed b"
    using False inv by (auto simp: builder_inv_def builder_holds_def builder_counts_def word_less_nat_alt not_le)
  have suc: "unat (map_prefix (bld_m b) + 1) = unat (map_prefix (bld_m b)) + 1"
    using unat_next(1) p(1) by (simp add: word_less_nat_alt)
  note run' = run [unfolded builder_Append_def if_not_P [OF False]]
  have pages: "length (map_blocks (bld_m b)) \<le> pages_of ?n" by (rule roomy_pages [OF rm]) (use p in simp)
  have few: "few_blocks blockSize before b" using rm by (simp add: roomy_def)
  have state: "few_blocks blockSize before (record_state s c) = few_blocks blockSize before c"
    "map_blocks (bld_m (record_state s c)) = map_blocks (bld_m c)" "bld_filled (record_state s c) = bld_filled c + 1"
    "map_prefix (bld_m (record_state s c)) = map_prefix (bld_m c) + 1" "bld_sealed (record_state s c) = bld_sealed c" for c
    by (simp_all add: few_blocks_def record_state_budget) (simp_all add: record_state_def Let_def)
  show ?thesis
  proof (cases "bld_filled b = pageRecords")
    case True
    obtain r1 b1 where f: "flush blockSize b = (r1, b1)" by force
    note F = flush_room [OF few ok pages f]
    have same: "map_prefix (bld_m b1) = map_prefix (bld_m b)" "bld_sealed b1 = bld_sealed b"
      using flush_inv(4) [OF inv f] by (simp_all add: same_progress_def)
    have out: "r = Inr ()" "b' = record_state s b1" using run' True f F(1) by (simp_all add: io_bind_def)
    have "length (map_blocks (bld_m b1)) * 16384 \<le> unat (map_prefix (bld_m b))"
      using F(3) True rm p(3) by (auto simp: roomy_def)
    then show ?thesis unfolding out roomy_def state using F(2,4) same suc p(3) by simp
  next
    case ne: False
    have out: "r = Inr ()" "b' = record_state s b" using run' ne by (simp_all add: io_bind_def io_ret_def)
    show ?thesis unfolding out roomy_def state using rm suc p(3) by (simp add: roomy_def)
  qed
qed

lemma flush_last:
  assumes inv: "builder_inv len b xs" and rm: "roomy blockSize before b" and ok: "room_for blockSize before (rec_count (unat len))"
    and run: "flush blockSize b = (r, b')"
  shows "r = Inr ()" "few_blocks blockSize before b'" "bld_filled b' = 0"
    "length (map_blocks (bld_m b')) * 16384 \<le> unat (map_prefix (bld_m b')) + 16384"
proof -
  have few: "few_blocks blockSize before b" using rm by (simp add: roomy_def)
  have pages: "length (map_blocks (bld_m b)) \<le> pages_of (rec_count (unat len))"
    by (rule roomy_pages [OF rm]) (use inv in \<open>auto simp: builder_inv_def builder_holds_def builder_counts_def\<close>)
  note F = flush_room [OF few ok pages run]
  show "r = Inr ()" "few_blocks blockSize before b'" "bld_filled b' = 0" by (rule F)+
  have "map_prefix (bld_m b') = map_prefix (bld_m b)" using flush_inv(4) [OF inv run] by (simp add: same_progress_def)
  then show "length (map_blocks (bld_m b')) * 16384 \<le> unat (map_prefix (bld_m b')) + 16384"
    using F(3) rm by (auto simp: roomy_def split: if_splits)
qed

lemma finish_room:
  assumes "builder_inv len b xs" and "roomy blockSize before b" and "room_for blockSize before (rec_count (unat len))"
    and run: "FinishMissingTail blockSize b = (r, b')"
  shows "r \<noteq> Inl ErrBudget \<and> roomy blockSize before b'"
proof (cases "bld_sealed b \<or> bld_scratch b = None")
  case True
  then show ?thesis using run assms(2) by (auto simp: FinishMissingTail_def)
next
  case False
  obtain r1 b1 where f: "flush blockSize b = (r1, b1)" by force
  note F = flush_last [OF assms(1-3) f]
  have "r = Inr ()" and b': "b' = b1\<lparr>bld_m := (bld_m b1)\<lparr>map_summary := (map_summary (bld_m b1))
      \<lparr>sum_Missing := sum_Missing (map_summary (bld_m b1)) + (map_count (bld_m b1) - map_prefix (bld_m b1))\<rparr>\<rparr>, bld_sealed := True\<rparr>"
    using run False f F(1) by (auto simp: FinishMissingTail_def io_bind_def Let_def)
  then show ?thesis using F(2-4) unfolding b' roomy_def few_blocks_def budget_inv_def index_bytes_def by simp
qed

lemma seal_room:
  assumes "builder_inv len b xs" and "roomy blockSize before b" and "room_for blockSize before (rec_count (unat len))"
    and run: "Seal blockSize b = (r, b')"
  shows "r \<noteq> Inl ErrBudget" and "r = Inl e \<Longrightarrow> b' = b"
proof -
  obtain r1 b1 where f: "flush blockSize b = (r1, b1)" by force
  show "r \<noteq> Inl ErrBudget" and "r = Inl e \<Longrightarrow> b' = b"
    using run f flush_last(1) [OF assms(1-3) f] by (auto simp: Seal_eq split: if_splits)
qed

lemma new_room:
  assumes "room_for blockSize before n"
  shows "\<exists>b. NewBuilder len (Some before) = Inr b"
proof -
  have "unat (bud_used before) + unat (4096 :: u64) \<le> unat (bud_limit before)" "bud_used before \<le> bud_limit before"
    using assms by (simp_all add: room_for_def usable_budget_def)
  then obtain budget where "budget_acquire 4096 before = Inr budget" using acquire_room by blast
  then show ?thesis by (simp add: NewBuilder_def ebind_def)
qed

lemma built_room:
  assumes "built blockSize len (Some before) b xs" and ok: "room_for blockSize before (rec_count (unat len))"
  shows "roomy blockSize before b"
  using assms(1)
proof (induction rule: built.induct)
  case (new b)
  then have "built blockSize len (Some before) b []" by (rule built.new)
  then have "budget_inv blockSize before b" using ok by (intro built_budget) (simp_all add: room_for_def)
  moreover have "map_cap (bld_m b) = 0" "map_blocks (bld_m b) = []" "bld_filled b = 0" "\<not> bld_sealed b"
    using new by (auto simp: NewBuilder_def ebind_eq_Inr zeroMap_def)
  ultimately show ?case by (simp add: roomy_def few_blocks_def)
next
  case (appended b xs s b')
  then show ?case using append_room [OF built_inv _ ok] by blast
next
  case (refused b xs s e b')
  then show ?case using append_room [OF built_inv _ ok] by blast
next
  case (finished b xs r b')
  then show ?case using finish_room [OF built_inv _ ok] by blast
next
  case (not_sealed b xs e b')
  then show ?case using seal_room(2) [OF built_inv _ ok] by metis
qed

lemma built_never_refused:
  assumes "built blockSize len (Some before) b xs" and "room_for blockSize before (rec_count (unat len))"
  shows "builder_Append blockSize s b \<noteq> (Inl ErrBudget, b')" "FinishMissingTail blockSize b \<noteq> (Inl ErrBudget, b')"
    "Seal blockSize b \<noteq> (Inl ErrBudget, b')"
  using append_room [OF built_inv [OF assms(1)] built_room [OF assms] assms(2)]
    finish_room [OF built_inv [OF assms(1)] built_room [OF assms] assms(2)]
    seal_room(1) [OF built_inv [OF assms(1)] built_room [OF assms] assms(2)] by blast+

text \<open>With blocks of 48 bytes the budget that every request starts with is enough for 30 TiB.\<close>

lemma default_budget_room:
  assumes "n \<le> 31457280" and "unat blockSize \<le> 48"
  shows "room_for blockSize (NewBudget DefaultBudgetBytes) n"
proof -
  have "pages_of n \<le> 1921" using assms(1) by (simp add: pages_of_def)
  then have p: "pages_of n + 2 \<le> 1923" "3 * pages_of n + 4 \<le> 5767" by simp_all
  have "(3 * pages_of n + 4) * unat blockSize \<le> 5767 * 48" by (rule mult_le_mono [OF p(2) assms(2)])
  moreover have "4096 * (pages_of n + 2) \<le> 4096 * 1923" by (rule mult_le_mono2 [OF p(1)])
  ultimately have "4096 * (pages_of n + 2) + (3 * pages_of n + 4) * unat blockSize \<le> 8388608" by linarith
  then show ?thesis using assms(2) by (simp add: room_for_def usable_budget_def NewBudget_def)
qed

end
