(* ===== verification/Force_Image.thy ===== *)
theory Force_Image
  imports Force_Records Recovery_Room Round_Trip
begin

text \<open>
  Recovering from a source that holds still: an undisturbed file of any length and content, of which
  nothing is assumed but the core and the keys of the volume. Every record then has one verdict, what
  opening it answers at any time, so that the recovery map is the list of the verdicts and the
  emission repeats them. A record whose bytes are still there, with at most \<open>t\<close> wrong ones in each
  codeword, is recovered whatever happened to the rest of the file.
\<close>

section \<open>Operations with one result\<close>

text \<open>A failure that only says that a record is missing.\<close>

definition soft :: "pcv3_error \<Rightarrow> bool" where
  "soft e \<longleftrightarrow> recoverableRecordFailure e \<noteq> None"

definition settles_to :: "byte list \<Rightarrow> pcv3_error + 'a \<Rightarrow> (world, pcv3_error, 'a) io \<Rightarrow> bool" where
  "settles_to img r m \<longleftrightarrow> (\<forall>w. serves img w \<longrightarrow> (\<exists>w'. m w = (r, w') \<and> reads_only w w'))"

definition settles :: "byte list \<Rightarrow> (world, pcv3_error, 'a) io \<Rightarrow> bool" where
  "settles img m \<longleftrightarrow> (\<exists>r. (\<forall>e. r = Inl e \<longrightarrow> soft e) \<and> settles_to img r m)"

lemma settles_toD:
  assumes "settles_to img r m" and "serves img w"
  obtains w' where "m w = (r, w')" "reads_only w w'" "serves img w'"
  using assms serves_only unfolding settles_to_def by blast

named_theorems settling

lemma settles_ret [settling]: "settles img (io_ret x)"
  unfolding settles_def settles_to_def io_ret_def by (rule exI [of _ "Inr x"]) simp

lemma settles_fail: "soft e \<Longrightarrow> settles img (io_fail e)"
  unfolding settles_def settles_to_def io_fail_def by (rule exI [of _ "Inl e"]) simp

lemma settles_poll [settling]: "settles img (poll mk)"
  unfolding settles_def settles_to_def by (rule exI [of _ "Inr ()"]) (simp add: poll_serves)

lemma settles_bind [settling]:
  assumes "settles img m" and k: "\<And>x. settles img (k x)"
  shows "settles img (io_bind m k)"
proof -
  obtain r where r: "\<And>e. r = Inl e \<Longrightarrow> soft e" "settles_to img r m" using assms(1) by (auto simp: settles_def)
  show ?thesis
  proof (cases r)
    case (Inl e)
    have "settles_to img (Inl e) (io_bind m k)"
      unfolding settles_to_def
    proof (intro allI impI)
      fix w assume "serves img w"
      with r(2) obtain w' where "m w = (Inl e, w')" "reads_only w w'" unfolding Inl by (rule settles_toD)
      then show "\<exists>w'. io_bind m k w = (Inl e, w') \<and> reads_only w w'" by (simp add: io_bind_def)
    qed
    then show ?thesis using r(1) Inl unfolding settles_def by blast
  next
    case (Inr x)
    obtain s where s: "\<And>e. s = Inl e \<Longrightarrow> soft e" "settles_to img s (k x)" using k [of x] by (auto simp: settles_def)
    have "settles_to img s (io_bind m k)"
      unfolding settles_to_def
    proof (intro allI impI)
      fix w assume "serves img w"
      with r(2) obtain w1 where 1: "m w = (Inr x, w1)" "reads_only w w1" "serves img w1" unfolding Inr by (rule settles_toD)
      from s(2) 1(3) obtain w2 where 2: "k x w1 = (s, w2)" "reads_only w1 w2" by (rule settles_toD)
      show "\<exists>w'. io_bind m k w = (s, w') \<and> reads_only w w'"
        using 1(1) 2(1) reads_only_trans [OF 1(2) 2(2)] by (simp add: io_bind_def)
    qed
    then show ?thesis using s(1) unfolding settles_def by blast
  qed
qed

lemma settles_if [settling]: "(c \<Longrightarrow> settles img a) \<Longrightarrow> (\<not> c \<Longrightarrow> settles img b) \<Longrightarrow> settles img (if c then a else b)"
  by simp

lemma settles_sum [settling]:
  "(\<And>x. s = Inl x \<Longrightarrow> settles img (f x)) \<Longrightarrow> (\<And>y. s = Inr y \<Longrightarrow> settles img (g y)) \<Longrightarrow>
   settles img (case s of Inl x \<Rightarrow> f x | Inr y \<Rightarrow> g y)"
  by (simp split: sum.split)

lemma settles_option [settling]:
  "settles img a \<Longrightarrow> (\<And>x. settles img (f x)) \<Longrightarrow> settles img (case s of None \<Rightarrow> a | Some x \<Rightarrow> f x)"
  by (simp split: option.split)

lemma settles_prod [settling]: "(\<And>x y. settles img (f x y)) \<Longrightarrow> settles img (case p of (x, y) \<Rightarrow> f x y)"
  by (simp split: prod.split)

section \<open>The reads\<close>

lemma read_short:
  assumes "holds_image img e" and "0 < n" and "length img < off + n"
  shows "env_readAt e t (int off) n = (int (length (slice off n img)), slice off n img, Some EOF)"
proof -
  obtain count bytes err where r: "env_readAt e t (int off) n = (count, bytes, err)" using prod_cases3 by blast
  have "case env_readAt e t (int off) n of (count, bytes, err) \<Rightarrow>
           count = int (length (slice off n img)) \<and> bytes = slice off n img \<and>
           (if off + n \<le> length img then err = None \<or> err = Some EOF else err = Some EOF)"
    using assms(1) [unfolded holds_image_def, rule_format, OF assms(2), of off t] .
  then show ?thesis using assms(3) by (simp add: r)
qed

lemma loop_short:
  assumes img: "serves img w" and n: "0 < n" "length img < off + n"
  shows "exact_loop True (Suc k) (int off) n [] 0 w = ((slice off n img, ReadTruncated), tick (tick (tick w)))"
proof -
  have e: "holds_image img (w_env w)" "\<And>t. env_ctx (w_env w) t = None"
    using img by (simp_all add: serves_def never_cancelled_def)
  have len: "length (slice off n img) < n" using n by (simp add: slice_def)
  have src: "source_ReadAt (int off + int (length ([] :: byte list))) (n - length ([] :: byte list)) (tick w) =
      ((int (length (slice off n img)), slice off n img, Some EOF), tick (tick w))"
    using read_short [OF e(1) n] by (simp add: source_ReadAt_def tick_def)
  have p: "poll_if True w = (None, tick w)" "poll_if True (tick (tick w)) = (None, tick (tick (tick w)))"
    using e(2) by (simp_all add: poll_if_def ctx_Err_def tick_def)
  have c: "\<not> (int (length (slice off n img)) < 0 \<or> int (length (slice off n img)) > int (n - length ([] :: byte list)))"
    using len by simp
  have got: "[] @ fit (nat (int (length (slice off n img)))) (slice off n img) = slice off n img"
    unfolding nat_int by (simp add: fit_def)
  have ne: "length (slice off n img) \<noteq> n" using len by simp
  show ?thesis
    unfolding exact_loop.simps(2) p(1) prod.case option.case src p(2) if_not_P [OF c] Let_def got if_not_P [OF ne]
    by simp
qed
text \<open>A read at an offset of the volume, of bytes that may be cut off.\<close>

abbreviation (input) soft_stage :: "Stage \<Rightarrow> bool" where
  "soft_stage stage \<equiv> stage \<in> {StageDescriptor, StageRecordBodyRS, StageRecordAuth, StageFinalRecord}"

lemma soft_failure [simp]: "soft (newRecordFailure stage c) \<longleftrightarrow> soft_stage stage"
  by (simp add: soft_def)

lemma exact_read_settles:
  assumes "serves img w"
  shows "\<exists>w'. exact_read True (int k) n w =
      ((slice k n img, if k + n \<le> length img \<or> n = 0 then ReadDone else ReadTruncated), w') \<and> reads_only w w'"
proof (cases "n = 0 \<or> k + n \<le> length img")
  case True
  then show ?thesis
  proof
    assume "n = 0"
    then show ?thesis by (simp add: exact_read_def slice_def)
  next
    assume "k + n \<le> length img"
    then show ?thesis using exact_read_image [of img w True k n] assms by (auto simp: serves_def)
  qed
next
  case False
  then have n: "0 < n" "length img < k + n" by simp_all
  have l: "exact_loop True (n + 2) (int k) n [] 0 w = ((slice k n img, ReadTruncated), tick (tick (tick w)))"
    using loop_short [OF assms n, of "Suc n"] by simp
  have "reads_only w (tick (tick (tick w)))"
    by (rule reads_only_trans [OF reads_only_trans [OF reads_only_tick reads_only_tick] reads_only_tick])
  moreover have "exact_read True (int k) n w = ((slice k n img, ReadTruncated), tick (tick (tick w)))"
    unfolding exact_read_def l using n(1) by simp
  ultimately show ?thesis using False by auto
qed

lemma read_settles_to:
  assumes "off = int k" and "int k + int n \<le> MaxInt64"
  shows "settles_to img (if k + n \<le> length img \<or> n = 0 then Inr (slice k n img)
      else Inl (newRecordFailure stage RecordUnexpectedTruncation)) (readRecordExactAt off n stage)"
  unfolding settles_to_def
proof (intro allI impI)
  fix w assume w: "serves img w"
  let ?r = "if k + n \<le> length img \<or> n = 0 then ReadDone else ReadTruncated"
  have "serves img (tick w)" using w by simp
  then obtain w' where r: "exact_read True (int k) n (tick w) = ((slice k n img, ?r), w')" "reads_only (tick w) w'"
    using exact_read_settles by blast
  have ok: "\<not> (off < 0 \<or> off > MaxInt64 - int n)" using assms by simp
  have "readRecordExactAt off n stage w =
     (if k + n \<le> length img \<or> n = 0 then Inr (slice k n img) else Inl (newRecordFailure stage RecordUnexpectedTruncation), w')"
    unfolding readRecordExactAt_def if_not_P [OF ok] io_bind_def poll_serves [OF w] prod.case sum.case
    using r(1) by (simp add: assms(1))
  then show "\<exists>w'. readRecordExactAt off n stage w =
     (if k + n \<le> length img \<or> n = 0 then Inr (slice k n img) else Inl (newRecordFailure stage RecordUnexpectedTruncation), w') \<and>
     reads_only w w'"
    using reads_only_trans [OF reads_only_tick r(2)] by blast
qed

lemma settles_read:
  assumes "off = int k" and "int k + int n \<le> MaxInt64" and "soft_stage stage"
  shows "settles img (readRecordExactAt off n stage)"
  using read_settles_to [OF assms(1,2)] assms(3) unfolding settles_def
  by (intro exI [of _ "if k + n \<le> length img \<or> n = 0 then Inr (slice k n img)
      else Inl (newRecordFailure stage RecordUnexpectedTruncation)"]) auto

section \<open>One record\<close>

lemma body_word_cause: "body_word codecs encoded full b = Inl c \<Longrightarrow> c = RecordBodyRecovery"
  by (auto simp: body_word_def map_err_def split: if_splits sum.splits)

lemma body_words_cause:
  "emap (body_word codecs encoded full) blocks = Inl c \<Longrightarrow> c = RecordBodyRecovery"
proof (induction blocks)
  case (Cons b rest)
  then show ?case
    using body_word_cause [of codecs encoded full b c]
    by (cases "body_word codecs encoded full b"; cases "emap (body_word codecs encoded full) rest") (auto simp: ebind_def)
qed simp

lemma no_cancellation:
  "serves img w \<Longrightarrow> recordCancellationCause (Plain RecordBodyRecovery) w = (None, tick w)"
  by (simp add: recordCancellationCause_def ctx_Err_def serves_def never_cancelled_def isCancel_def)

lemma settles_decode:
  assumes "soft_stage stage"
  shows "settles img (decode_body_or_fail ev stage encoded decodedLength full)"
proof -
  let ?r = "if encoded = [] \<or> length encoded mod 136 \<noteq> 0 \<or> decodedLength \<noteq> length encoded div 136 * 128
    then Inl RecordBodyRecovery
    else ebind (emap (body_word (ev_codecs ev) encoded full) [0..<length encoded div 136]) (\<lambda>words. Inr (concat words))"
  let ?s = "map_err (newRecordFailure stage) ?r"
  have causes: "c = RecordBodyRecovery" if "?r = Inl c" for c
    using that body_words_cause [of "ev_codecs ev" encoded full] by (auto simp: ebind_def split: if_splits sum.splits)
  have "settles_to img ?s (decode_body_or_fail ev stage encoded decodedLength full)"
    unfolding settles_to_def
  proof (intro allI impI)
    fix w assume w: "serves img w"
    obtain w1 where d: "decodeRecordBody (ev_codecs ev) encoded decodedLength full w = (map_err Plain ?r, w1)" "reads_only w w1"
      using decode_body_blocks_served [OF w, of "ev_codecs ev" encoded full "[0..<length encoded div 136]"]
      by (cases "encoded = [] \<or> length encoded mod 136 \<noteq> 0 \<or> decodedLength \<noteq> length encoded div 136 * 128")
        (auto simp: decodeRecordBody_def io_fail_def map_err_def)
    have w1: "serves img w1" using w d(2) serves_only by simp
    show "\<exists>w'. decode_body_or_fail ev stage encoded decodedLength full w = (?s, w') \<and> reads_only w w'"
    proof (cases ?r)
      case (Inr x)
      then show ?thesis using d by (simp add: decode_body_or_fail_def)
    next
      case (Inl c)
      have e: "decodeRecordBody (ev_codecs ev) encoded decodedLength full w = (Inl (Plain RecordBodyRecovery), w1)"
        using d(1) unfolding Inl causes [OF Inl] by simp
      have "decode_body_or_fail ev stage encoded decodedLength full w = (?s, tick w1)"
        unfolding Inl causes [OF Inl]
        by (simp add: decode_body_or_fail_def e no_cancellation [OF w1] root_cause_def)
      then show ?thesis using reads_only_trans [OF d(2) reads_only_tick] by blast
    qed
  qed
  moreover have "soft e" if "?s = Inl e" for e using that assms by (cases ?r) auto
  ultimately show ?thesis unfolding settles_def by blast
qed

text \<open>Opening a record: what is done before the callback, and the call.\<close>

definition open_record ::
  "prims \<Rightarrow> recordEvaluator \<Rightarrow> recordExpectation \<Rightarrow> bool \<Rightarrow> (world, pcv3_error, bool \<times> byte list) io" where
  "open_record P ev expected authorizes =
     io_bind poll_record (\<lambda>_.
     io_bind (check_descriptor ev expected) (\<lambda>_.
     io_bind (read_body P ev expected) (\<lambda>(decoded, valid).
       if \<not> valid \<and> \<not> authorizes
       then io_fail (newRecordFailure (if exp_final expected then StageFinalRecord else StageRecordAuth) RecordAuthenticationCause)
       else if exp_final expected then io_ret (valid, [])
       else io_bind (decrypt_body P ev expected decoded) (\<lambda>plain. io_ret (valid, plain)))))"

definition call_record ::
  "recordExpectation \<Rightarrow> 'v record_callback \<Rightarrow> bool \<Rightarrow> byte list \<Rightarrow> world \<Rightarrow> (pcv3_error option \<times> 'v option) \<times> world" where
  "call_record expected callback valid plain w =
     (case callback (evidence_of expected valid) plain w of
        ((Some e, v), w) \<Rightarrow> ((Some e, Some v), w)
      | ((None, v), w) \<Rightarrow>
          if exp_final expected then ((None, Some v), w)
          else (case poll_record w of
                  (Inl e, w) \<Rightarrow> ((Some e, Some v), w)
                | (Inr _, w) \<Rightarrow> ((None, Some v), w)))"

lemma evaluate_opened:
  assumes "expectedRecord (ev_core ev) (ev_geometry ev) i = Some expected"
  shows "evaluateCanonicalRecord P ev i authorizes callback w =
     (case open_record P ev expected authorizes w of
        (Inl e, w) \<Rightarrow> ((Some e, None), w)
      | (Inr (valid, plain), w) \<Rightarrow> call_record expected callback valid plain w)"
  unfolding evaluateCanonicalRecord_def assms option.case open_record_def call_record_def io_bind_def Let_def evidence_of_def
  by (auto simp: io_fail_def io_ret_def split: sum.splits prod.splits option.splits)

lemma settles_check_descriptor:
  assumes "exp_descriptorOffset expected = int k" and "int k + 48 \<le> MaxInt64"
  shows "settles img (check_descriptor ev expected)"
  unfolding check_descriptor_def Let_def
  by (intro settling settles_fail settles_read [OF assms(1)]) (use assms(2) in auto)

lemma settles_read_body:
  assumes "exp_bodyOffset expected = int k" and "int k + int (exp_encodedBodyLength expected) \<le> MaxInt64"
  shows "settles img (read_body P ev expected)"
  unfolding read_body_def Let_def record_body_stage_def
  by (intro settling settles_fail settles_read [OF assms] settles_decode) auto

lemma settles_decrypt_body: "settles img (decrypt_body P ev expected decoded)"
  unfolding decrypt_body_def Let_def record_body_stage_def
  by (intro settling settles_fail) auto

lemma settles_open_record:
  assumes "exp_descriptorOffset expected = int k" "exp_bodyOffset expected = int (k + 48)"
    and "int k + 48 + int (exp_encodedBodyLength expected) \<le> MaxInt64"
  shows "settles img (open_record P ev expected authorizes)"
  unfolding open_record_def
  by (intro settling settles_fail settles_check_descriptor [OF assms(1)] settles_read_body [OF assms(2)] settles_decrypt_body)
    (use assms(3) in auto)

section \<open>Verdicts\<close>

fun verdict_state :: "pcv3_error + bool \<times> byte list \<Rightarrow> State" where
  "verdict_state (Inl e) = Missing"
| "verdict_state (Inr (valid, plain)) = (if valid then Verified else Unverified)"

fun verdict_plain :: "pcv3_error + bool \<times> byte list \<Rightarrow> byte list" where
  "verdict_plain (Inl e) = []"
| "verdict_plain (Inr (valid, plain)) = plain"

fun verdict_damage :: "pcv3_error + bool \<times> byte list \<Rightarrow> Stage" where
  "verdict_damage (Inl e) = the (recoverableRecordFailure e)"
| "verdict_damage (Inr x) = StageNone"

text \<open>The verdicts on all records of a volume, from an image.\<close>

definition verdicts ::
  "byte list \<Rightarrow> prims \<Rightarrow> recordEvaluator \<Rightarrow> bool \<Rightarrow> nat \<Rightarrow> (nat \<Rightarrow> recordExpectation) \<Rightarrow>
   (nat \<Rightarrow> pcv3_error + bool \<times> byte list) \<Rightarrow> bool" where
  "verdicts img P ev authorizes n expected V \<longleftrightarrow>
     (\<forall>i \<le> n. (\<forall>e. V i = Inl e \<longrightarrow> soft e) \<and> settles_to img (V i) (open_record P ev (expected i) authorizes))"

lemma call_recovery:
  assumes "serves img w"
  shows "\<exists>w'. call_record expected recovery_callback valid plain w =
      ((None, Some (if valid then (Verified, RecoveryFinalVerified) else (Unverified, RecoveryFinalUnverified))), w') \<and> reads_only w w'"
  using reads_only_tick [of w]
  by (simp add: call_record_def recovery_callback_def evidence_of_def poll_serves [OF assms])

lemma analyze_verdict:
  assumes "settles_to img r (open_record P ev expected authorizes)" and "\<And>e. r = Inl e \<Longrightarrow> soft e"
    and "expectedRecord (ev_core ev) (ev_geometry ev) i = Some expected" and "serves img w"
  obtains w' where "analyze_record P ev authorizes i w = (Inr (verdict_state r, verdict_state r, verdict_damage r), w')" "reads_only w w'"
proof -
  obtain w1 where o: "open_record P ev expected authorizes w = (r, w1)" "reads_only w w1" "serves img w1"
    using assms(1,4) by (rule settles_toD)
  note e = evaluate_opened [OF assms(3), of P authorizes recovery_callback w, unfolded o(1) prod.case]
  show thesis
  proof (cases r)
    case (Inl e')
    then have "recoverableRecordFailure e' \<noteq> None" using assms(2) by (simp add: soft_def)
    then show thesis
      using e o(2) Inl by (intro that [of w1]) (auto simp: analyze_record_def)
  next
    case (Inr x)
    obtain valid plain where x: "x = (valid, plain)" by force
    obtain w2 where c: "call_record expected recovery_callback valid plain w1 =
      ((None, Some (if valid then (Verified, RecoveryFinalVerified) else (Unverified, RecoveryFinalUnverified))), w2)" "reads_only w1 w2"
      using call_recovery [OF o(3)] by blast
    show thesis
      using e o(2) Inr x c reads_only_trans [OF o(2) c(2)] by (intro that [of w2]) (auto simp: analyze_record_def)
  qed
qed

section \<open>The evaluator\<close>

lemma load_keys_lent:
  assumes lend: "lends_volume_keys (auth_lender auth) keys" and keys: "keys_sized keys"
    and suite: "suite = SuiteStandard \<or> suite = SuiteParanoid"
  shows "\<exists>K. \<forall>w. loadRecordKeys auth suite w = (Inr K, w)"
proof -
  have "borrow_record_key auth KeyLabelVolumePayloadXChaCha20 w = (Inr (wk_payloadXChaCha20 keys), w)"
    "borrow_record_key auth KeyLabelVolumePayloadSerpent w = (Inr (wk_payloadSerpent keys), w)"
    "borrow_record_key auth KeyLabelVolumePayloadMAC w = (Inr (wk_payloadMAC keys), w)" for w
    by (rule borrow_record_key_lent, use lend keys in \<open>simp_all add: lends_volume_keys_def keys_sized_def\<close>)+
  then show ?thesis
    using suite by (intro exI [of _ "\<lparr>rk_xChaCha20 = wk_payloadXChaCha20 keys,
        rk_serpent = (if suite = SuiteParanoid then wk_payloadSerpent keys else replicate 32 0),
        rk_mac = wk_payloadMAC keys\<rparr>"]) (auto simp: loadRecordKeys_def io_bind_def io_ret_def)
qed

lemma evaluator_settles:
  assumes lay: "canonical_layout core rs g" and sized: "codecs_sized codecs"
    and lend: "lends_volume_keys (auth_lender auth) keys" "keys_sized keys" and w: "serves img w"
  obtains ev where "evaluates P core rs g keys codecs ev" "settles_to img (Inr ev) (newRecordEvaluator P core g codecs auth)"
proof -
  obtain ev w' where ev: "newRecordEvaluator P core g codecs auth w = (Inr ev, w')" "evaluates P core rs g keys codecs ev"
    using newRecordEvaluator_image [OF lay w sized lend] by blast
  have suite: "core_suite core = SuiteStandard \<or> core_suite core = SuiteParanoid"
    using lay by (auto simp: canonical_layout_def validLogicalCore_def isSupportedSuite_def split: if_splits)
  obtain K where K: "\<And>w. loadRecordKeys auth (core_suite core) w = (Inr K, w)"
    using load_keys_lent [OF lend suite] by blast
  have "newRecordEvaluator P core g codecs auth v = (Inr ev, tick v)" if "serves img v" for v
    using ev(1) unfolding newRecordEvaluator_def Let_def
    by (auto simp: io_bind_def K poll_serves [OF w] poll_serves [OF that] io_fail_def io_ret_def
        split: if_splits option.splits)
  then have "settles_to img (Inr ev) (newRecordEvaluator P core g codecs auth)" by (simp add: settles_to_def)
  then show thesis by (rule that [OF ev(2)])
qed

section \<open>The builder under a budget\<close>

lemma holds_scratch: "builder_inv len b xs \<Longrightarrow> bld_scratch b \<noteq> None"
  by (auto simp: builder_inv_def builder_holds_def builder_pages_def)

lemma append_open:
  assumes inv: "builder_inv len b xs" "\<not> bld_sealed b" and room: "length xs < rec_count (unat len)"
    and s: "s = Verified \<or> s = Unverified \<or> s = Missing" and run: "builder_Append blockSize s b = (r, b')"
  shows "r = Inl ErrBudget \<or> r = Inr () \<and> \<not> bld_sealed b'"
proof -
  have p: "map_prefix (bld_m b) < map_count (bld_m b)"
    using inv(1) room by (auto simp: builder_inv_def builder_holds_def builder_counts_def word_less_nat_alt)
  have "\<not> s < Verified \<and> \<not> s > Missing" using s by (elim disjE) simp_all
  then have ok: "(bld_sealed b \<or> bld_scratch b = None \<or> map_prefix (bld_m b) \<ge> map_count (bld_m b) \<or> s < Verified \<or> s > Missing) = False"
    using p inv(2) holds_scratch [OF inv(1)] by (simp add: not_le del: word_less_nat_alt)
  have a: "builder_Append blockSize s b =
      io_bind (if bld_filled b = pageRecords then flush blockSize else io_ret ()) (\<lambda>_ b. (Inr (), record_state s b)) b"
    unfolding builder_Append_def ok if_False ..
  have sealed: "bld_sealed (record_state s c) = bld_sealed c" for c by (simp add: record_state_def Let_def)
  have f: "flush blockSize b = (r1, b1) \<Longrightarrow> (r1 = Inr () \<or> r1 = Inl ErrBudget) \<and> \<not> bld_sealed b1" for r1 b1
    using flush_inv(2,3) [OF inv(1)] inv(2) by blast
  show ?thesis
  proof (cases "bld_filled b = pageRecords")
    case True
    obtain r1 b1 where fl: "flush blockSize b = (r1, b1)" by force
    have "(case r1 of Inl e \<Rightarrow> (Inl e, b1) | Inr _ \<Rightarrow> (Inr (), record_state s b1)) = (r, b')"
      using run unfolding a if_P [OF True] io_bind_def fl by simp
    then show ?thesis using f [OF fl] sealed [of b1] by auto
  next
    case False
    then show ?thesis using run inv(2) sealed [of b] unfolding a if_not_P [OF False] by (simp add: io_bind_def io_ret_def)
  qed
qed

lemma finish_open:
  assumes inv: "builder_inv len b xs" "\<not> bld_sealed b" and run: "FinishMissingTail blockSize b = (r, b')"
  shows "r = Inl ErrBudget \<or> r = Inr () \<and> bld_sealed b'"
proof -
  obtain r1 b1 where f: "flush blockSize b = (r1, b1)" by force
  show ?thesis
    using run inv(2) holds_scratch [OF inv(1)] flush_inv(3) [OF inv(1) f]
    by (auto simp: FinishMissingTail_def io_bind_def f Let_def)
qed

lemma seal_full:
  assumes inv: "builder_inv len b xs" and full: "bld_sealed b \<or> length xs = rec_count (unat len)"
    and run: "Seal blockSize b = (r, b')"
  shows "r = Inl ErrBudget \<or> (\<exists>m. r = Inr m)"
proof -
  have "unat (map_prefix (bld_m b)) = length xs \<and> unat (map_count (bld_m b)) = rec_count (unat len)"
    using inv by (auto simp: builder_inv_def builder_holds_def builder_counts_def)
  then have "bld_sealed b \<or> map_prefix (bld_m b) = map_count (bld_m b)" using full by (auto simp: word_unat_eq_iff)
  moreover obtain r1 b1 where f: "flush blockSize b = (r1, b1)" by force
  ultimately show ?thesis
    using run holds_scratch [OF inv] flush_inv(3) [OF inv f] by (auto simp: Seal_eq f split: sum.splits)
qed

lemma new_builder_budget: "NewBuilder len budget = Inl e \<Longrightarrow> e = ErrBudget"
  by (auto simp: NewBuilder_def ebind_def budget_acquire_def split: if_splits sum.splits)

lemma new_builder_open: "NewBuilder len budget = Inr b \<Longrightarrow> \<not> bld_sealed b"
  by (auto simp: NewBuilder_def ebind_def split: sum.splits)

section \<open>The analysis\<close>

text \<open>A record that begins beyond the end of the file is missing.\<close>

lemma verdict_beyond:
  assumes V: "settles_to img r (open_record P ev expected authorizes)" and w: "serves img w"
    and k: "exp_descriptorOffset expected = int k" "length img \<le> k" "int k + 48 \<le> MaxInt64"
  shows "verdict_state r = Missing"
proof -
  define stage where "stage = (if exp_final expected then StageFinalRecord else StageDescriptor)"
  have beyond: "\<not> (k + 48 \<le> length img \<or> (48 :: nat) = 0)" using k(2) by simp
  have rd: "settles_to img (Inl (newRecordFailure stage RecordUnexpectedTruncation))
      (readRecordExactAt (exp_descriptorOffset expected) 48 stage)"
    using read_settles_to [OF k(1), of 48 img stage] k(3) unfolding if_not_P [OF beyond] by simp
  have "serves img (tick w)" using w by simp
  with rd obtain w1 where r: "readRecordExactAt (exp_descriptorOffset expected) 48 stage (tick w) =
      (Inl (newRecordFailure stage RecordUnexpectedTruncation), w1)" by (rule settles_toD)
  have "open_record P ev expected authorizes w = (Inl (newRecordFailure stage RecordUnexpectedTruncation), w1)"
    unfolding open_record_def check_descriptor_def Let_def stage_def [symmetric] by (simp add: io_bind_def poll_serves [OF w] r)
  moreover obtain w2 where "open_record P ev expected authorizes w = (r, w2)" using V w by (rule settles_toD)
  ultimately show ?thesis by auto
qed

text \<open>What the records of a canonical volume need of the file: they begin in order, within 63 bits.\<close>

lemma record_places:
  assumes lay: "canonical_layout core rs g" and i: "i \<le> rec_count (unat (core_plaintextLength core))"
  shows "exp_descriptorOffset (record_at core rs i) = int (record_start core rs i)"
    "exp_bodyOffset (record_at core rs i) = int (record_start core rs i + 48)"
    "int (record_start core rs i) + 48 + int (exp_encodedBodyLength (record_at core rs i)) \<le> MaxInt64"
    "j \<le> i \<Longrightarrow> record_start core rs j \<le> record_start core rs i"
proof -
  let ?n = "unat (core_plaintextLength core)"
  show "exp_descriptorOffset (record_at core rs i) = int (record_start core rs i)"
    "exp_bodyOffset (record_at core rs i) = int (record_start core rs i + 48)" by (simp_all add: record_start_def)
  have "file_len rs ?n (unat (core_commentLength core)) < 2 ^ 63"
    using lay unfolding canonical_layout_def by (elim conjE)
  then have "record_start core rs i + rec_len rs ?n i < 2 ^ 63"
    using rec_off_inside [OF i, of rs] unfolding file_len_def record_start_def by linarith
  then show "int (record_start core rs i) + 48 + int (exp_encodedBodyLength (record_at core rs i)) \<le> MaxInt64"
    by (simp add: rec_len_def MaxInt64_def)
  show "record_start core rs j \<le> record_start core rs i" if "j \<le> i"
    using rec_off_mono [OF that, of rs ?n] by (simp add: record_start_def)
qed

lemma verdicts_exist:
  assumes lay: "canonical_layout core rs g"
  obtains V where "verdicts img P ev authorizes (rec_count (unat (core_plaintextLength core))) (record_at core rs) V"
proof -
  let ?n = "rec_count (unat (core_plaintextLength core))"
  let ?Q = "\<lambda>i r. (\<forall>e. r = Inl e \<longrightarrow> soft e) \<and> settles_to img r (open_record P ev (record_at core rs i) authorizes)"
  have Q: "\<exists>r. ?Q i r" if "i \<le> ?n" for i
    using settles_open_record [OF record_places(1-3) [OF lay that], of img P ev authorizes] unfolding settles_def .
  have "?Q i (SOME r. ?Q i r)" if "i \<le> ?n" for i by (rule someI_ex [OF Q [OF that]])
  then have "verdicts img P ev authorizes ?n (record_at core rs) (\<lambda>i. SOME r. ?Q i r)" by (simp only: verdicts_def) blast
  then show thesis by (rule that)
qed

definition loop_found ::
  "u64 \<Rightarrow> u64 \<Rightarrow> Budget \<Rightarrow> State list \<Rightarrow> State \<Rightarrow> recovery_error + Stage \<times> byte \<Rightarrow> Builder \<Rightarrow> bool" where
  "loop_found blockSize len budget full final r b \<longleftrightarrow>
     (case r of
        Inl e \<Rightarrow> e = RangesError ErrBudget \<and> \<not> room_for blockSize budget (rec_count (unat len))
      | Inr (damage, f) \<Rightarrow>
          f = final \<and> (\<exists>xs. built blockSize len (Some budget) b xs \<and> with_tail len xs = full \<and>
             (bld_sealed b \<or> length xs = rec_count (unat len))))"

lemma missing_tail:
  assumes "i \<le> n" and "\<And>j. i \<le> j \<Longrightarrow> j < n \<Longrightarrow> st j = Missing"
  shows "map st [0..<i] @ replicate (n - i) Missing = map st [0..<n]"
proof -
  have "map st [i..<n] = replicate (n - i) Missing"
    by (rule replicate_eqI) (use assms(2) in auto)
  moreover have "[0..<n] = [0..<i] @ [i..<n]" using upt_add_eq_append [of 0 i "n - i"] assms(1) by simp
  ultimately show ?thesis by simp
qed

lemma recovery_loop_found:
  fixes core :: logicalCore and img :: "byte list" and V :: "nat \<Rightarrow> pcv3_error + bool \<times> byte list"
  defines "len \<equiv> core_plaintextLength core"
  defines "n \<equiv> rec_count (unat len)" and "st \<equiv> \<lambda>j. verdict_state (V j)"
  assumes ev: "evaluates P core rs g keys codecs ev" and V: "verdicts img P ev authorizes n (record_at core rs) V"
    and "i \<le> n" and "built blockSize len (Some budget) b (map st [0..<i])" and "\<not> bld_sealed b" and "serves img w"
    and "recovery_loop P blockSize ev (int (length img)) authorizes (word_of_nat i) damage b w = (r, b', w')"
  shows "reads_only w w' \<and> loop_found blockSize len budget (map st [0..<n]) (st n) r b'"
  using assms(6-10)
proof (induction "n - i" arbitrary: i b w damage rule: less_induct)
  case less
  note prems = less.prems
  have lay: "canonical_layout core rs g" and sel: "ev_core ev = core" "ev_geometry ev = g"
    using ev by (simp_all add: evaluates_def)
  have i: "i \<le> rec_count (unat (core_plaintextLength core))" using prems(1) by (simp add: n_def len_def)
  have cnt: "core_recordCount core = word_of_nat n" "unat (core_recordCount core) = n"
    using canonical_layout_count [OF lay] by (simp_all add: n_def len_def)
  have ui: "unat (word_of_nat i :: u64) = i" using prems(1) cnt(2) unat_u64_less [of "core_recordCount core"]
    by (intro unat_word_small) simp
  have le: "\<not> word_of_nat i > core_recordCount (ev_core ev)" unfolding sel(1) word_less_nat_alt ui cnt(2) using prems(1) by simp
  have last: "word_of_nat i = core_recordCount (ev_core ev) \<longleftrightarrow> i = n"
    unfolding sel(1) word_unat_eq_iff ui cnt(2) ..
  have exp: "expectedRecord (ev_core ev) (ev_geometry ev) (word_of_nat i) = Some (record_at core rs i)"
    unfolding sel by (rule expectedRecord_canonical [OF lay i])
  note places = record_places [OF lay i]
  note start = prems(5) [unfolded recovery_loop.simps [of P blockSize ev _ authorizes "word_of_nat i"] if_not_P [OF le]
      poll_serves [OF prems(4)] exp prod.case sum.case option.case last places(1)]
  have Vi: "settles_to img (V j) (open_record P ev (record_at core rs j) authorizes)" "\<And>e. V j = Inl e \<Longrightarrow> soft e"
    if "j \<le> n" for j using V that by (simp_all add: verdicts_def)
  have inv: "builder_inv len b (map st [0..<i])" by (rule built_inv [OF prems(2)])
  have w1: "serves img (tick w)" "reads_only w (tick w)" using prems(4) by simp_all
  show ?case
  proof (cases "int (record_start core rs i) \<ge> int (length img)")
    case True
    obtain r1 b1 where f: "FinishMissingTail blockSize b = (r1, b1)" by force
    have beyond: "st j = Missing" if "i \<le> j" "j \<le> n" for j
    proof -
      have j: "j \<le> rec_count (unat (core_plaintextLength core))" using that(2) by (simp add: n_def len_def)
      have "length img \<le> record_start core rs j" using record_places(4) [OF lay j that(1)] True by simp
      then show ?thesis
        using verdict_beyond [OF Vi(1) [OF that(2)] prems(4) record_places(1) [OF lay j]] record_places(3) [OF lay j]
        by (simp add: st_def)
    qed
    have full: "with_tail len (map st [0..<i]) = map st [0..<n]"
      using missing_tail [OF prems(1), of st] beyond by (simp add: with_tail_def n_def)
    show ?thesis
    proof (cases "r1 = Inl ErrBudget")
      case True
      have "\<not> room_for blockSize budget (rec_count (unat len))"
        using built_never_refused(2) [OF prems(2)] f True by auto
      then show ?thesis using start w1 f True \<open>int (record_start core rs i) \<ge> int (length img)\<close> by (auto simp: loop_found_def)
    next
      case False
      then have F: "r1 = Inr ()" "bld_sealed b1" using finish_open [OF inv prems(3) f] by auto
      have "built blockSize len (Some budget) b1 (map st [0..<i])" using built.finished [OF prems(2) f] .
      then show ?thesis using start w1 f F True full beyond [of n] prems(1) by (auto simp: loop_found_def)
    qed
  next
    case False
    obtain w2 where a: "analyze_record P ev authorizes (word_of_nat i) (tick w) =
        (Inr (st i, st i, verdict_damage (V i)), w2)" "reads_only (tick w) w2"
      unfolding st_def by (rule analyze_verdict [OF Vi [OF prems(1)] exp w1(1)])
    have w2: "reads_only w w2" "serves img w2" using reads_only_trans [OF w1(2) a(2)] a(2) w1(1) serves_only by simp_all
    note run = start [unfolded if_not_P [OF False] a(1) prod.case sum.case Let_def]
    show ?thesis
    proof (cases "i = n")
      case True
      have "loop_found blockSize len budget (map st [0..<n]) (st n) r b'"
        using run True prems(2) unfolding loop_found_def
        by (auto intro!: exI [of _ "map st [0..<n]"] simp: with_tail_def n_def)
      then show ?thesis using run True w2(1) by auto
    next
      case ne: False
      then have i: "i < n" using prems(1) by simp
      obtain r1 b1 where ap: "builder_Append blockSize (st i) b = (r1, b1)" by force
      have s: "st i = Verified \<or> st i = Unverified \<or> st i = Missing" by (cases "V i") (auto simp: st_def)
      have A: "r1 = Inl ErrBudget \<or> r1 = Inr () \<and> \<not> bld_sealed b1"
        by (rule append_open [OF inv prems(3) _ s ap]) (use i in \<open>simp add: n_def\<close>)
      show ?thesis
      proof (cases "r1 = Inl ErrBudget")
        case True
        have "\<not> room_for blockSize budget (rec_count (unat len))"
          using built_never_refused(1) [OF prems(2)] ap True by auto
        then show ?thesis using run ne ap True w2(1) by (auto simp: loop_found_def)
      next
        case False
        then have r1: "r1 = Inr ()" "\<not> bld_sealed b1" using A by auto
        have "recovery_loop P blockSize ev (int (length img)) authorizes (word_of_nat (Suc i))
            (earlierRecoveryDamageStage damage (verdict_damage (V i))) b1 w2 = (r, b', w')"
          using run ne ap r1(1) by (simp add: add.commute)
        moreover have "built blockSize len (Some budget) b1 (map st [0..<Suc i])"
          using built.appended [OF prems(2) ap [unfolded r1(1)]] by simp
        ultimately have "reads_only w2 w' \<and> loop_found blockSize len budget (map st [0..<n]) (st n) r b'"
          using less.hyps [of "Suc i" b1 w2] i r1(2) w2(2) by simp
        then show ?thesis using reads_only_trans [OF w2(1)] by blast
      qed
    qed
  qed
qed
lemma analysis_found:
  fixes candidate :: Candidate and img :: "byte list" and V :: "nat \<Rightarrow> pcv3_error + bool \<times> byte list"
  defines "core \<equiv> cand_core candidate"
  defines "len \<equiv> core_plaintextLength core"
  defines "n \<equiv> rec_count (unat len)" and "st \<equiv> \<lambda>j. verdict_state (V j)"
  assumes ev: "evaluates P core rs geometry keys codecs ev"
    and E: "settles_to img (Inr ev) (newRecordEvaluator P core geometry codecs (borrower_auth candidate geometry lender))"
    and V: "verdicts img P ev (authorizesUnverified request role) n (record_at core rs) V"
    and ok: "request_valid request" "isSupportedCapsuleRole role" "cand_role candidate = role" and w: "serves img w"
    and run: "analyzeRecoveryRecords P blockSize (Some codecs) (int (length img)) candidate geometry lender request role budget w =
      (r, budget', w')"
  shows "reads_only w w'"
    "r = Inl (RangesError ErrBudget) \<and> \<not> room_for blockSize budget n \<or>
     (\<exists>a m. r = Inr a \<and> ra_ranges a = Some m \<and> answers len (map st [0..<n]) m \<and> ra_final a = st n)"
proof -
  obtain w1 where e: "newRecordEvaluator P core geometry codecs (borrower_auth candidate geometry lender) w = (Inr ev, w1)"
    "reads_only w w1" "serves img w1" using E w by (rule settles_toD)
  note start = run [unfolded analyzeRecoveryRecords_def, folded core_def, folded len_def]
  have both: "reads_only w w' \<and> (r = Inl (RangesError ErrBudget) \<and> \<not> room_for blockSize budget n \<or>
     (\<exists>a m. r = Inr a \<and> ra_ranges a = Some m \<and> answers len (map st [0..<n]) m \<and> ra_final a = st n))"
  proof (cases "NewBuilder len (Some budget)")
    case (Inl x)
    then have "\<not> room_for blockSize budget n" using new_room [of blockSize budget n len] by auto
    then show ?thesis using start ok e(1,2) new_builder_budget [OF Inl] Inl by auto
  next
    case (Inr b)
    obtain r1 b1 w2 where l: "recovery_loop P blockSize ev (int (length img)) (authorizesUnverified request role) 0 StageNone b w1 =
      (r1, b1, w2)" by (metis prod_cases3)
    have L: "reads_only w1 w2" "loop_found blockSize len budget (map st [0..<n]) (st n) r1 b1"
      using recovery_loop_found [OF ev V [unfolded n_def len_def], of 0 blockSize budget b w1 StageNone r1 b1 w2] l e(3)
        built.new [OF Inr, of blockSize] new_builder_open [OF Inr]
      unfolding st_def n_def len_def by simp_all
    have w2: "reads_only w w2" using reads_only_trans [OF e(2) L(1)] .
    show ?thesis
    proof (cases r1)
      case (Inl x)
      then show ?thesis using start ok e(1) \<open>NewBuilder len (Some budget) = Inr b\<close> l L(2) w2 by (auto simp: loop_found_def n_def)
    next
      case Inr1: (Inr x)
      obtain damage final where x: "x = (damage, final)" by force
      obtain xs where xs: "final = st n" "built blockSize len (Some budget) b1 xs" "with_tail len xs = map st [0..<n]"
        "bld_sealed b1 \<or> length xs = rec_count (unat len)" using L(2) Inr1 x by (auto simp: loop_found_def)
      obtain r2 b2 where s: "Seal blockSize b1 = (r2, b2)" by force
      have "\<not> room_for blockSize budget n" if "r2 = Inl ErrBudget"
        using built_never_refused(3) [OF xs(2)] s that by (auto simp: n_def)
      then show ?thesis
        using seal_full [OF built_inv [OF xs(2)] xs(4) s] sealed_answers [OF xs(2)] s start ok e(1) Inr l Inr1 x xs(1,3) w2
        by auto
    qed
  qed
  then show "reads_only w w'" "r = Inl (RangesError ErrBudget) \<and> \<not> room_for blockSize budget n \<or>
     (\<exists>a m. r = Inr a \<and> ra_ranges a = Some m \<and> answers len (map st [0..<n]) m \<and> ra_final a = st n)" by blast+
qed

section \<open>The emission\<close>

lemma final_plain:
  assumes "settles_to img (Inr (valid, plain)) (open_record P ev expected authorizes)" and "serves img w" and "exp_final expected"
  shows "plain = []"
proof -
  obtain w' where "open_record P ev expected authorizes w = (Inr (valid, plain), w')" using assms(1,2) by (rule settles_toD)
  then show ?thesis
    using assms(3) by (auto simp: open_record_def io_bind_eq_Inr io_ret_def io_fail_def split: if_splits)
qed

lemma range_fits:
  assumes "j < rec_count (unat len)" and "len = core_plaintextLength core"
  shows "exp_plaintextOffset (record_at core rs j) = rng_Start (plain_range len j s)"
    "exp_ciphertextLength (record_at core rs j) = rng_End (plain_range len j s) - rng_Start (plain_range len j s)"
    "rng_State (plain_range len j s) = s" "rng_Index (plain_range len j s) = word_of_nat j" "\<not> exp_final (record_at core rs j)"
proof -
  have "j * 1048576 \<le> unat len" using assms(1) by (simp add: rec_count_def)
  then show "exp_plaintextOffset (record_at core rs j) = rng_Start (plain_range len j s)"
    using assms(2) by (simp add: plain_range_def record_at_def Let_def min_def)
  show "exp_ciphertextLength (record_at core rs j) = rng_End (plain_range len j s) - rng_Start (plain_range len j s)"
    "rng_State (plain_range len j s) = s" "rng_Index (plain_range len j s) = word_of_nat j" "\<not> exp_final (record_at core rs j)"
    using assms by (simp_all add: plain_range_def)
qed

lemma emit_verdict:
  fixes core :: logicalCore
  defines "len \<equiv> core_plaintextLength core"
  assumes ev: "evaluates P core rs g keys codecs ev" and j: "j < rec_count (unat len)"
    and V: "settles_to img (Inr (valid, plain)) (open_record P ev (record_at core rs j) authorizes)"
    and w: "serves img w" "sink_accepts (w_env w)"
  shows "\<exists>w'. emission_result (evaluateCanonicalRecord P ev (word_of_nat j) authorizes
      (emit_callback (plain_range len j (if valid then Verified else Unverified))) w) = (Inr (), w') \<and>
    emits w [(word_of_nat j, plain)] w'"
proof -
  let ?r = "plain_range len j (if valid then Verified else Unverified)" and ?e = "record_at core rs j"
  note R = range_fits [OF j len_def [THEN meta_eq_to_obj_eq]]
  have lay: "canonical_layout core rs g" and sel: "ev_core ev = core" "ev_geometry ev = g" using ev by (simp_all add: evaluates_def)
  have exp: "expectedRecord (ev_core ev) (ev_geometry ev) (word_of_nat j) = Some ?e"
    unfolding sel by (rule expectedRecord_canonical [OF lay]) (use j in \<open>simp add: len_def\<close>)
  obtain w1 where o: "open_record P ev ?e authorizes w = (Inr (valid, plain), w1)" "reads_only w w1" "serves img w1"
    using V w(1) by (rule settles_toD)
  define w2 where "w2 = (tick w1)\<lparr>w_emitted := w_emitted w1 @ [(word_of_nat j, plain)]\<rparr>"
  have sink: "writeVerifiedRecord (word_of_nat j) plain w1 = (None, w2)"
    using w(2) reads_only_fields(1) [OF o(2)] by (simp add: writeVerifiedRecord_def sink_accepts_def w2_def)
  have fits: "exp_plaintextOffset ?e = rng_Start ?r" "exp_ciphertextLength ?e = rng_End ?r - rng_Start ?r" by (rule R)+
  have cb: "emit_callback ?r (evidence_of ?e valid) plain w1 = ((None, (False, None)), w2)"
    unfolding emit_callback_def evidence_of_def recordEvidence.select_convs fits R(3,4) sink
    using R(5) by (simp add: recoveryStateForAuthentication_def)
  have img2: "serves img w2" using o(3) by (simp add: w2_def serves_def tick_def)
  have "call_record ?e (emit_callback ?r) valid plain w1 = ((None, Some (False, None)), tick w2)"
    unfolding call_record_def cb prod.case option.case if_not_P [OF R(5)] poll_serves [OF img2] sum.case ..
  then have run: "evaluateCanonicalRecord P ev (word_of_nat j) authorizes (emit_callback ?r) w = ((None, Some (False, None)), tick w2)"
    using evaluate_opened [OF exp, of P authorizes "emit_callback ?r" w] o(1) by simp
  have "emits w1 [(word_of_nat j, plain)] (tick w2)"
    unfolding emits_def by (rule exI [of _ "w_tick w2 + 1"], rule exI [of _ "[]"]) (simp add: w2_def tick_def)
  then have "emits w [(word_of_nat j, plain)] (tick w2)" using emits_trans [of w "[]" w1] o(2) by fastforce
  then show ?thesis unfolding run by (simp add: emission_result_def)
qed

lemma emit_verdicts:
  fixes core :: logicalCore and V :: "nat \<Rightarrow> pcv3_error + bool \<times> byte list"
  defines "len \<equiv> core_plaintextLength core" and "st \<equiv> \<lambda>j. verdict_state (V j)"
  assumes ev: "evaluates P core rs g keys codecs ev"
    and V: "verdicts img P ev authorizes (rec_count (unat len)) (record_at core rs) V"
    and js: "\<forall>j \<in> set js. j < rec_count (unat len) \<and> st j \<noteq> Missing"
    and w: "serves img w" "sink_accepts (w_env w)"
  shows "\<exists>w'. emit_ranges P ev authorizes (map (\<lambda>j. plain_range len j (st j)) js) w = (Inr (), w') \<and>
    emits w (map (\<lambda>j. (word_of_nat j, verdict_plain (V j))) js) w'"
  using js w
proof (induction js arbitrary: w)
  case Nil
  then show ?case by (simp add: io_ret_def)
next
  case (Cons j js)
  have j: "j < rec_count (unat (core_plaintextLength core))" "st j \<noteq> Missing" using Cons.prems(1) by (simp_all add: len_def)
  obtain valid plain where Vj: "V j = Inr (valid, plain)" using j(2) by (cases "V j") (auto simp: st_def)
  then have st: "st j = (if valid then Verified else Unverified)" by (simp add: st_def)
  have S: "settles_to img (Inr (valid, plain)) (open_record P ev (record_at core rs j) authorizes)"
    using V j(1) unfolding Vj [symmetric] by (simp add: verdicts_def len_def)
  obtain w1 where e: "emission_result (evaluateCanonicalRecord P ev (word_of_nat j) authorizes
      (emit_callback (plain_range len j (st j))) w) = (Inr (), w1)" "emits w [(word_of_nat j, plain)] w1"
    using emit_verdict [OF ev j(1) S Cons.prems(2,3)] unfolding st len_def by blast
  have "serves img w1" "sink_accepts (w_env w1)" using Cons.prems emits_serves [OF e(2)] emits_env [OF e(2)] by simp_all
  then obtain w2 where r: "emit_ranges P ev authorizes (map (\<lambda>j. plain_range len j (st j)) js) w1 = (Inr (), w2)"
    "emits w1 (map (\<lambda>j. (word_of_nat j, verdict_plain (V j))) js) w2"
    using Cons.IH [of w1] Cons.prems(1) by auto
  have f: "rng_State (plain_range len j (st j)) \<noteq> Missing" "rng_Index (plain_range len j (st j)) = word_of_nat j"
    using j(2) by (simp_all add: plain_range_def)
  have "emit_ranges P ev authorizes (map (\<lambda>j. plain_range len j (st j)) (j # js)) w = (Inr (), w2)"
    using e(1) r(1) f unfolding list.map emit_ranges.simps if_not_P [OF f(1)] f(2) by (simp add: io_bind_def)
  then show ?case using emits_trans [OF e(2) r(2)] Vj by (intro exI [of _ w2]) simp
qed

lemma emit_final_verdict:
  fixes core :: logicalCore
  defines "n \<equiv> rec_count (unat (core_plaintextLength core))"
  assumes ev: "evaluates P core rs g keys codecs ev"
    and V: "settles_to img (Inr (valid, plain)) (open_record P ev (record_at core rs n) authorizes)" and w: "serves img w"
  shows "\<exists>w'. emission_result (evaluateCanonicalRecord P ev (word_of_nat n) authorizes
      (emit_final_callback (if valid then Verified else Unverified)) w) = (Inr (), w') \<and> reads_only w w'"
proof -
  let ?e = "record_at core rs n"
  have lay: "canonical_layout core rs g" and sel: "ev_core ev = core" "ev_geometry ev = g" using ev by (simp_all add: evaluates_def)
  have exp: "expectedRecord (ev_core ev) (ev_geometry ev) (word_of_nat n) = Some ?e"
    unfolding sel by (rule expectedRecord_canonical [OF lay]) (simp add: n_def)
  have f: "exp_final ?e" by (simp add: n_def)
  obtain w1 where o: "open_record P ev ?e authorizes w = (Inr (valid, plain), w1)" "reads_only w w1"
    using V w by (rule settles_toD)
  have "plain = []" by (rule final_plain [OF V w f])
  then have "call_record ?e (emit_final_callback (if valid then Verified else Unverified)) valid plain w1 = ((None, Some (False, None)), w1)"
    using f by (simp add: call_record_def emit_final_callback_def evidence_of_def recoveryFinalForAuthentication_def)
  then have "evaluateCanonicalRecord P ev (word_of_nat n) authorizes (emit_final_callback (if valid then Verified else Unverified)) w =
      ((None, Some (False, None)), w1)"
    by (simp add: evaluate_opened [OF exp] o(1))
  then show ?thesis using o(2) by (simp add: emission_result_def)
qed

lemma emission_found:
  fixes candidate :: Candidate and V :: "nat \<Rightarrow> pcv3_error + bool \<times> byte list"
  defines "core \<equiv> cand_core candidate"
  defines "len \<equiv> core_plaintextLength core"
  defines "n \<equiv> rec_count (unat len)" and "st \<equiv> \<lambda>j. verdict_state (V j)"
  assumes ev: "evaluates P core rs geometry keys codecs ev"
    and E: "settles_to img (Inr ev) (newRecordEvaluator P core geometry codecs (borrower_auth candidate geometry lender))"
    and V: "verdicts img P ev (authorizesUnverified request role) n (record_at core rs) V"
    and ok: "request_valid request" "isSupportedCapsuleRole role" "cand_role candidate = role"
    and a: "ra_ranges a = Some m" "answers len (map st [0..<n]) m" "ra_final a = st n"
    and w: "serves img w" "sink_accepts (w_env w)"
  shows "\<exists>w'. emitRecoveryRecords P (Some codecs) candidate geometry lender request role a w = (Inr (), w') \<and>
    emits w (map (\<lambda>j. (word_of_nat j, verdict_plain (V j))) (filter (\<lambda>j. st j \<noteq> Missing) [0..<n])) w'"
proof -
  let ?auth = "authorizesUnverified request role" and ?js = "filter (\<lambda>j. st j \<noteq> Missing) [0..<n]"
  obtain w1 where e: "newRecordEvaluator P core geometry codecs (borrower_auth candidate geometry lender) w = (Inr ev, w1)"
    "reads_only w w1" "serves img w1" using E w(1) by (rule settles_toD)
  have sink: "sink_accepts (w_env w1)" using w(2) reads_only_fields(1) [OF e(2)] by simp
  have js: "\<forall>j \<in> set ?js. j < rec_count (unat (core_plaintextLength core)) \<and> verdict_state (V j) \<noteq> Missing"
    by (simp add: n_def len_def st_def)
  obtain w2 where r: "emit_ranges P ev ?auth (map (\<lambda>j. plain_range len j (st j)) ?js) w1 = (Inr (), w2)"
    "emits w1 (map (\<lambda>j. (word_of_nat j, verdict_plain (V j))) ?js) w2"
    using emit_verdicts [OF ev V [unfolded n_def len_def] js e(3) sink] unfolding len_def st_def by blast
  have em: "emits w (map (\<lambda>j. (word_of_nat j, verdict_plain (V j))) ?js) w2" using emits_trans [of w "[]" w1, OF _ r(2)] e(2) by simp
  have img2: "serves img w2" using e(3) emits_serves [OF r(2)] by simp
  have "filter (\<lambda>j. map st [0..<n] ! j \<noteq> Missing) [0..<n] = ?js" by (rule filter_cong) simp_all
  moreover have "map (\<lambda>j. plain_range len j (map st [0..<n] ! j)) ?js = map (\<lambda>j. plain_range len j (st j)) ?js" by simp
  ultimately have present: "map_Present (ra_ranges a) = Some (map (\<lambda>j. plain_range len j (st j)) ?js)"
    using answers_nonempty [OF a(2)] a(1) by simp
  have lay: "canonical_layout core rs geometry" using ev by (simp add: evaluates_def)
  have cnt: "core_recordCount core = word_of_nat n" using canonical_layout_count(1) [OF lay] by (simp add: n_def len_def)
  have final: "validRecoveryFinalState (ra_final a)"
    unfolding a(3) st_def by (cases "V n") (auto simp: validRecoveryFinalState_def)
  have ranges: "validCanonicalRecoveryRanges len (ra_ranges a)"
    using a(1,2) by (simp add: validCanonicalRecoveryRanges_def answers_def)
  have run: "emitRecoveryRecords P (Some codecs) candidate geometry lender request role a w =
      (if st n = Missing then (Inr (), w2)
       else emission_result (evaluateCanonicalRecord P ev (word_of_nat n) ?auth (emit_final_callback (st n)) w2))"
    unfolding emitRecoveryRecords_def core_def [symmetric] len_def [symmetric]
    using ok final ranges e(1) present r(1) a(3) cnt by (simp add: io_bind_def)
  show ?thesis
  proof (cases "V n")
    case (Inl x)
    then show ?thesis unfolding run using em by (simp add: st_def)
  next
    case (Inr x)
    obtain valid plain where x: "x = (valid, plain)" by force
    have "settles_to img (Inr (valid, plain)) (open_record P ev (record_at core rs n) ?auth)"
      using V unfolding Inr [unfolded x, symmetric] by (simp add: verdicts_def)
    from emit_final_verdict [OF ev this [unfolded n_def len_def] img2] obtain w3 where
      "emission_result (evaluateCanonicalRecord P ev (word_of_nat n) ?auth
        (emit_final_callback (if valid then Verified else Unverified)) w2) = (Inr (), w3)" "reads_only w2 w3"
      unfolding n_def len_def by blast
    then show ?thesis unfolding run using emits_reads [OF em] Inr x by (auto simp: st_def)
  qed
qed

section \<open>Intact records\<close>

text \<open>Record \<open>i\<close> of the volume is in the file, with at most \<open>t\<close> wrong bytes in each codeword.\<close>

definition intact ::
  "nat \<Rightarrow> prims \<Rightarrow> logicalCore \<Rightarrow> bool \<Rightarrow> normalWriteKeys \<Rightarrow> RSCodecs \<Rightarrow> byte list \<Rightarrow> nat \<Rightarrow> byte list \<Rightarrow> bool" where
  "intact t P core rs keys codecs img i plain \<longleftrightarrow>
     i \<le> rec_count (unat (core_plaintextLength core)) \<and>
     record_start core rs i + rec_len rs (unat (core_plaintextLength core)) i \<le> length img \<and>
     record_near t P core rs keys codecs i plain (record_bytes core rs i img)"

lemma io_bind_assoc: "io_bind m (\<lambda>x. io_bind (f x) g) = io_bind (io_bind m f) g"
  by (rule ext) (simp add: io_bind_def split: prod.split sum.split)

lemma verdict_intact:
  fixes core :: logicalCore
  defines "n \<equiv> unat (core_plaintextLength core)"
  assumes ev: "evaluates P core rs g keys codecs ev" and w: "serves img w"
    and ok: "fec_ok t (RS16 codecs)" "fec_ok t (RS128 codecs)" "codecs_sized codecs"
    and it: "intact t P core rs keys codecs img i plain"
    and V: "settles_to img r (open_record P ev (record_at core rs i) authorizes)"
  shows "r = Inr (True, plain)"
proof -
  let ?e = "record_at core rs i"
  have I: "i \<le> rec_count n" "record_start core rs i + rec_len rs (unat (core_plaintextLength core)) i \<le> length img"
    "record_near t P core rs keys codecs i plain (record_bytes core rs i img)" using it by (simp_all add: intact_def n_def)
  have w0: "serves img (tick w)" using w by simp
  obtain semantic w1 where S: "sealed_record P core rs keys i plain semantic"
    and b: "io_bind (check_descriptor ev ?e) (\<lambda>_. read_body P ev ?e) (tick w) =
      (Inr (written_body rs (body_len rs (rec_plain n i)) semantic, True), w1)" "reads_only (tick w) w1"
    using record_read_image [OF ev w0 ok I(2,3)] unfolding n_def by blast
  have w1: "serves img w1" using w0 b(2) serves_only by simp
  have run: "open_record P ev ?e authorizes w =
      (if exp_final ?e then io_ret (True, [])
       else io_bind (decrypt_body P ev ?e (written_body rs (body_len rs (rec_plain n i)) semantic)) (\<lambda>plain. io_ret (True, plain))) w1"
    unfolding open_record_def io_bind_assoc [of "check_descriptor ev ?e"]
    by (subst io_bind_def) (simp add: poll_serves [OF w] io_bind_def [of "io_bind _ _"] b(1) del: record_at_sel)
  obtain w2 where o: "open_record P ev ?e authorizes w = (r, w2)" using V w by (rule settles_toD)
  show ?thesis
  proof (cases "i = rec_count n")
    case True
    then have "plain = []" using S rec_plain_final [of n] by (auto simp: sealed_record_def Let_def n_def)
    then show ?thesis using o run True by (simp add: n_def io_ret_def)
  next
    case False
    then have i: "i < rec_count n" using I(1) by simp
    note dec = decrypt_body_image [OF ev w1 S i [unfolded n_def], folded n_def]
    show ?thesis using o run False dec by (simp add: n_def io_bind_def io_ret_def)
  qed
qed

section \<open>A whole recovery\<close>

text \<open>Under the verdicts \<open>V\<close> both passes succeed, the map is their states, and the sink gets what they hold.\<close>

definition recovers_as ::
  "prims \<Rightarrow> u64 \<Rightarrow> RSCodecs \<Rightarrow> int \<Rightarrow> Candidate \<Rightarrow> Geometry \<Rightarrow> key_lender \<Rightarrow> recoveryRequest \<Rightarrow> byte \<Rightarrow> Budget \<Rightarrow> world \<Rightarrow>
   (nat \<Rightarrow> pcv3_error + bool \<times> byte list) \<Rightarrow> recoveryRecordAnalysis \<Rightarrow> bool" where
  "recovers_as P blockSize codecs sourceSize candidate geometry lender request role budget w V a \<longleftrightarrow>
     (\<exists>budget' w1 w2 m. let n = unat (core_recordCount (cand_core candidate)) in
        analyzeRecoveryRecords P blockSize (Some codecs) sourceSize candidate geometry lender request role budget w =
          (Inr a, budget', w1) \<and>
        ra_ranges a = Some m \<and>
        answers (core_plaintextLength (cand_core candidate)) (map (\<lambda>j. verdict_state (V j)) [0..<n]) m \<and>
        ra_final a = verdict_state (V n) \<and>
        emitRecoveryRecords P (Some codecs) candidate geometry lender request role a w1 = (Inr (), w2) \<and>
        emits w1 (map (\<lambda>j. (word_of_nat j, verdict_plain (V j))) (filter (\<lambda>j. verdict_state (V j) \<noteq> Missing) [0..<n])) w2)"

lemma recovery_runs:
  assumes lay: "canonical_layout (cand_core candidate) rs geometry" and codecs: "codecs_sized codecs"
    and keys: "lends_volume_keys lender keys" "keys_sized keys"
    and ok: "request_valid request" "isSupportedCapsuleRole role" "cand_role candidate = role"
    and room: "room_for blockSize budget (unat (core_recordCount (cand_core candidate)))"
    and w: "serves img w" "sink_accepts (w_env w)"
  obtains ev V a where "evaluates P (cand_core candidate) rs geometry keys codecs ev"
    "verdicts img P ev (authorizesUnverified request role) (unat (core_recordCount (cand_core candidate)))
       (record_at (cand_core candidate) rs) V"
    "recovers_as P blockSize codecs (int (length img)) candidate geometry lender request role budget w V a"
proof -
  let ?core = "cand_core candidate" and ?auth = "borrower_auth candidate geometry lender"
  let ?n = "rec_count (unat (core_plaintextLength ?core))"
  have n: "unat (core_recordCount ?core) = ?n" by (rule canonical_layout_count(2) [OF lay])
  have lend: "lends_volume_keys (auth_lender ?auth) keys"
    using keys(1) by (simp add: lends_volume_keys_def auth_lender_def borrower_auth_def)
  obtain ev where ev: "evaluates P ?core rs geometry keys codecs ev"
    and E: "settles_to img (Inr ev) (newRecordEvaluator P ?core geometry codecs ?auth)"
    by (rule evaluator_settles [OF lay codecs lend keys(2) w(1)])
  obtain V where V: "verdicts img P ev (authorizesUnverified request role) ?n (record_at ?core rs) V"
    by (rule verdicts_exist [OF lay])
  obtain r budget' w1 where run: "analyzeRecoveryRecords P blockSize (Some codecs) (int (length img)) candidate geometry lender
      request role budget w = (r, budget', w1)" by (metis prod_cases3)
  note A = analysis_found [OF ev E V ok w(1) run]
  obtain a m where a: "r = Inr a" "ra_ranges a = Some m"
    "answers (core_plaintextLength ?core) (map (\<lambda>j. verdict_state (V j)) [0..<?n]) m" "ra_final a = verdict_state (V ?n)"
    using A(2) room unfolding n by blast
  have w1: "serves img w1" "sink_accepts (w_env w1)" using w A(1) by (simp_all add: serves_only reads_only_fields)
  obtain w2 where e: "emitRecoveryRecords P (Some codecs) candidate geometry lender request role a w1 = (Inr (), w2)"
    "emits w1 (map (\<lambda>j. (word_of_nat j, verdict_plain (V j))) (filter (\<lambda>j. verdict_state (V j) \<noteq> Missing) [0..<?n])) w2"
    using emission_found [OF ev E V ok a(2-4) w1] by blast
  show thesis
    by (rule that [OF ev, of V a]) (use V run a e in \<open>simp_all add: n recovers_as_def Let_def\<close>)
qed

text \<open>A record that the file does not reach to the end of is missing.\<close>

lemma verdict_cut:
  assumes V: "settles_to img r (open_record P ev expected authorizes)" and w: "serves img w"
    and k: "exp_descriptorOffset expected = int k" "exp_bodyOffset expected = int (k + 48)"
    and L: "0 < exp_encodedBodyLength expected" "int k + 48 + int (exp_encodedBodyLength expected) \<le> MaxInt64"
      "length img < k + 48 + exp_encodedBodyLength expected"
  shows "verdict_state r = Missing"
proof -
  define stage where "stage = record_body_stage expected (geo_payloadBodyRS (ev_geometry ev))"
  have cut: "\<not> (k + 48 + exp_encodedBodyLength expected \<le> length img \<or> exp_encodedBodyLength expected = 0)"
    using L(1,3) by simp
  have rd: "settles_to img (Inl (newRecordFailure stage RecordUnexpectedTruncation))
      (readRecordExactAt (exp_bodyOffset expected) (exp_encodedBodyLength expected) stage)"
    using read_settles_to [OF k(2), of "exp_encodedBodyLength expected" img stage] L(2) unfolding if_not_P [OF cut] by simp
  have body: "\<exists>e v'. read_body P ev expected v = (Inl e, v')" if v: "serves img v" for v
  proof -
    obtain v' where "readRecordExactAt (exp_bodyOffset expected) (exp_encodedBodyLength expected) stage v =
      (Inl (newRecordFailure stage RecordUnexpectedTruncation), v')" using rd v by (rule settles_toD)
    then show ?thesis unfolding read_body_def Let_def stage_def [symmetric] by (simp add: io_bind_def)
  qed
  have d: "settles img (check_descriptor ev expected)" by (rule settles_check_descriptor [OF k(1)]) (use L(2) in simp)
  have t: "serves img (tick w)" using w by simp
  obtain s where s: "settles_to img s (check_descriptor ev expected)" using d by (auto simp: settles_def)
  obtain w1 where w1: "check_descriptor ev expected (tick w) = (s, w1)" "serves img w1" using s t by (rule settles_toD)
  obtain e v' where "read_body P ev expected w1 = (Inl e, v')" using body [OF w1(2)] by blast
  then have "\<exists>e w'. open_record P ev expected authorizes w = (Inl e, w')"
    unfolding open_record_def using w1(1) by (cases s) (simp_all add: io_bind_def poll_serves [OF w])
  moreover obtain w2 where "open_record P ev expected authorizes w = (r, w2)" using V w by (rule settles_toD)
  ultimately show ?thesis by auto
qed

section \<open>A truncated volume\<close>

text \<open>The records that lie within the first \<open>k\<close> bytes.\<close>

definition whole_records :: "logicalCore \<Rightarrow> bool \<Rightarrow> nat \<Rightarrow> nat" where
  "whole_records core rs k =
     (let n = unat (core_plaintextLength core) in
      length (filter (\<lambda>j. record_start core rs j + rec_len rs n j \<le> k) [0..<rec_count n]))"

text \<open>The same from the lengths of the comment and of the plaintext alone.\<close>

definition records_within :: "bool \<Rightarrow> nat \<Rightarrow> nat \<Rightarrow> nat \<Rightarrow> nat" where
  "records_within rs comment n k =
     length (filter (\<lambda>j. front_len comment + rec_off rs n j + rec_len rs n j \<le> k) [0..<rec_count n])"

lemma whole_records_within:
  "whole_records core rs k = records_within rs (unat (core_commentLength core)) (unat (core_plaintextLength core)) k"
  by (simp add: whole_records_def records_within_def record_start_def Let_def)

lemma filter_prefix:
  assumes "\<And>i j. i \<le> j \<Longrightarrow> Q j \<Longrightarrow> Q i"
  shows "filter Q [0..<n] = [0..<length (filter Q [0..<n])]"
proof (induction n)
  case (Suc n)
  show ?case
  proof (cases "Q n")
    case True
    have "Q j" if "j \<le> n" for j by (rule assms [OF that True])
    then have "filter Q [0..<Suc n] = [0..<Suc n]" by (intro filter_True) (auto simp: less_Suc_eq_le)
    then show ?thesis by simp
  qed (use Suc in simp)
qed simp

lemma filter_less: "m \<le> n \<Longrightarrow> filter (\<lambda>j. j < m) [0..<n] = [0..<m]"
proof (induction n)
  case (Suc n)
  show ?case
  proof (cases "m = Suc n")
    case True
    show ?thesis unfolding True by (intro filter_True) auto
  qed (use Suc in simp)
qed simp

lemma whole_records:
  fixes core :: logicalCore and rs :: bool and k :: nat
  defines "n \<equiv> unat (core_plaintextLength core)"
  assumes "j < rec_count n"
  shows "j < whole_records core rs k \<longleftrightarrow> record_start core rs j + rec_len rs n j \<le> k"
    and "whole_records core rs k \<le> rec_count n"
proof -
  let ?Q = "\<lambda>j. record_start core rs j + rec_len rs n j \<le> k"
  have next_start: "record_start core rs j + rec_len rs n j = front_len (unat (core_commentLength core)) + rec_off rs n (Suc j)" for j
    by (simp add: record_start_def n_def)
  have "?Q i" if "i \<le> j" "?Q j" for i j
    using that(2) rec_off_mono [of "Suc i" "Suc j" rs n] that(1) unfolding next_start by linarith
  then have f: "filter ?Q [0..<rec_count n] = [0..<length (filter ?Q [0..<rec_count n])]" by (rule filter_prefix)
  have w: "whole_records core rs k = length (filter ?Q [0..<rec_count n])" by (simp add: whole_records_def n_def Let_def)
  have "j < whole_records core rs k \<longleftrightarrow> j \<in> set [0..<length (filter ?Q [0..<rec_count n])]" unfolding w by simp
  also have "\<dots> \<longleftrightarrow> j \<in> set (filter ?Q [0..<rec_count n])" unfolding f [symmetric] ..
  finally show "j < whole_records core rs k \<longleftrightarrow> record_start core rs j + rec_len rs n j \<le> k" using assms(2) by simp
  show "whole_records core rs k \<le> rec_count n" unfolding w using length_filter_le [of ?Q "[0..<rec_count n]"] by simp
qed

lemma take_concat:
  "m \<le> length xs \<Longrightarrow> concat (map ((!) xs) [0..<m]) = take (sum_list (map length (take m xs))) (concat xs)"
proof (induction m)
  case (Suc m)
  have split: "concat xs = concat (take m xs) @ xs ! m @ concat (drop (Suc m) xs)"
    by (metis Suc.prems Suc_le_lessD append_take_drop_id concat.simps(2) concat_append Cons_nth_drop_Suc)
  have l: "sum_list (map length (take m xs)) = length (concat (take m xs))" by (simp add: length_concat)
  have IH: "concat (map ((!) xs) [0..<m]) = concat (take m xs)"
    using Suc unfolding l by (simp add: split)
  have t: "take (Suc m) xs = take m xs @ [xs ! m]" using Suc.prems by (simp add: take_Suc_conv_app_nth)
  show ?case unfolding t by (simp add: IH l split)
qed simp

lemma record_prefix:
  fixes plains :: "byte list list"
  assumes "\<And>j. j < m \<Longrightarrow> length (plains ! j) = rec_plain n j" and "m \<le> rec_count n" and "m \<le> length plains"
    and "length (concat plains) = n"
  shows "concat (map ((!) plains) [0..<m]) = take (m * 1048576) (concat plains)"
proof -
  have "map length (take m plains) = map (rec_plain n) [0..<m]"
    by (rule nth_equalityI) (use assms(1,3) in simp_all)
  then have "sum_list (map length (take m plains)) = (\<Sum>j<m. rec_plain n j)"
    by (simp add: sum_list_sum_nth atLeast0LessThan)
  also have "\<dots> = min n (m * 1048576)" by (rule sum_rec_plain [OF assms(2)])
  finally have s: "sum_list (map length (take m plains)) = min n (m * 1048576)" .
  show ?thesis unfolding take_concat [OF assms(3)] s using assms(4) by (simp add: min_def)
qed


lemma truncated_verdicts:
  fixes core :: logicalCore and img :: "byte list"
  defines "n \<equiv> unat (core_plaintextLength core)"
  assumes lay: "canonical_layout core rs g" and ev: "evaluates P core rs g keys codecs ev"
    and ok: "fec_ok t (RS16 codecs)" "fec_ok t (RS128 codecs)" "codecs_sized codecs"
    and near: "\<And>i. i \<le> rec_count n \<Longrightarrow> record_near t P core rs keys codecs i (plains ! i) (record_bytes core rs i img)"
    and inside: "\<And>i. i \<le> rec_count n \<Longrightarrow> record_start core rs i + rec_len rs n i \<le> length img"
    and V: "verdicts (take k img) P ev authorizes (rec_count n) (record_at core rs) V" and w: "serves (take k img) w"
    and j: "j < rec_count n"
  shows "j < whole_records core rs k \<Longrightarrow> V j = Inr (True, plains ! j)"
    and "\<not> j < whole_records core rs k \<Longrightarrow> verdict_state (V j) = Missing"
proof -
  let ?img = "take k img"
  have Vj: "settles_to ?img (V j) (open_record P ev (record_at core rs j) authorizes)" using V j by (simp add: verdicts_def)
  note whole = whole_records(1) [OF j [unfolded n_def], of rs k, folded n_def]
  show "V j = Inr (True, plains ! j)" if "j < whole_records core rs k"
  proof (rule verdict_intact [OF ev w ok _ Vj])
    have k: "record_start core rs j + rec_len rs n j \<le> k" using that whole by simp
    then have "record_bytes core rs j ?img = record_bytes core rs j img"
      by (simp add: record_bytes_def slice_def n_def [symmetric] drop_take min_def)
    then show "intact t P core rs keys codecs ?img j (plains ! j)"
      using near [of j] inside [of j] j k by (simp add: intact_def n_def [symmetric])
  qed
  show "verdict_state (V j) = Missing" if "\<not> j < whole_records core rs k"
  proof -
    have i: "j \<le> rec_count (unat (core_plaintextLength core))" using j by (simp add: n_def)
    note places = record_places(1-3) [OF lay i]
    have el: "exp_encodedBodyLength (record_at core rs j) = body_len rs (rec_plain n j)" by (simp add: n_def)
    have "k < record_start core rs j + rec_len rs n j" using that whole by simp
    then have cut: "length ?img < record_start core rs j + 48 + exp_encodedBodyLength (record_at core rs j)"
      unfolding el by (simp add: rec_len_def)
    have pos: "0 < exp_encodedBodyLength (record_at core rs j)" unfolding el by (simp add: body_len_def div_greater_zero_iff)
    show ?thesis by (rule verdict_cut [OF Vj w places(1,2) pos places(3) cut])
  qed
qed

lemma sealed_lengths:
  fixes core :: logicalCore
  defines "n \<equiv> unat (core_plaintextLength core)"
  assumes near: "\<And>i. i \<le> rec_count n \<Longrightarrow> record_near t P core rs keys codecs i (plains ! i) (bytes i)"
    and l: "length plains = Suc (rec_count n)"
  shows "j \<le> rec_count n \<Longrightarrow> length (plains ! j) = rec_plain n j" and "length (concat plains) = n"
proof -
  show len: "length (plains ! j) = rec_plain n j" if "j \<le> rec_count n" for j
    using near [OF that] by (auto simp: record_near_def sealed_record_def Let_def n_def)
  have "map length plains = map (rec_plain n) [0..<Suc (rec_count n)]"
    by (rule nth_equalityI) (use len l in \<open>simp_all del: upt_Suc\<close>)
  then have "length (concat plains) = (\<Sum>j<Suc (rec_count n). rec_plain n j)"
    by (simp add: length_concat sum_list_sum_nth atLeast0LessThan del: upt_Suc)
  also have "\<dots> = n"
    using sum_rec_plain [of "rec_count n" n] rec_plain_final [of n] rec_count_div [of n] by (simp add: rec_count_def)
  finally show "length (concat plains) = n" .
qed

lemma intact_records_found:
  assumes lay: "canonical_layout (cand_core candidate) rs geometry"
    and codecs: "fec_ok t (RS16 codecs)" "fec_ok t (RS128 codecs)" "codecs_sized codecs"
    and keys: "lends_volume_keys lender keys" "keys_sized keys"
    and ok: "request_valid request" "isSupportedCapsuleRole role" "cand_role candidate = role"
    and room: "room_for blockSize budget (unat (core_recordCount (cand_core candidate)))"
    and w: "serves img w" "sink_accepts (w_env w)"
  shows "\<exists>a budget' w1 w2 m full plains.
    analyzeRecoveryRecords P blockSize (Some codecs) (int (length img)) candidate geometry lender request role budget w =
      (Inr a, budget', w1) \<and>
    ra_ranges a = Some m \<and> answers (core_plaintextLength (cand_core candidate)) full m \<and>
    length full = unat (core_recordCount (cand_core candidate)) \<and>
    emitRecoveryRecords P (Some codecs) candidate geometry lender request role a w1 = (Inr (), w2) \<and>
    emits w1 (map (\<lambda>j. (word_of_nat j, plains j)) (filter (\<lambda>j. full ! j \<noteq> Missing) [0..<length full])) w2 \<and>
    (\<forall>j plain. intact t P (cand_core candidate) rs keys codecs img j plain \<longrightarrow>
       (if j < length full then full ! j = Verified \<and> plains j = plain else ra_final a = Verified))"
proof -
  let ?core = "cand_core candidate" and ?n = "unat (core_recordCount (cand_core candidate))"
  have n: "?n = rec_count (unat (core_plaintextLength ?core))" by (rule canonical_layout_count(2) [OF lay])
  obtain ev V a where ev: "evaluates P ?core rs geometry keys codecs ev"
    and V: "verdicts img P ev (authorizesUnverified request role) ?n (record_at ?core rs) V"
    and R: "recovers_as P blockSize codecs (int (length img)) candidate geometry lender request role budget w V a"
    by (rule recovery_runs [OF lay codecs(3) keys ok room w])
  define full where "full = map (\<lambda>j. verdict_state (V j)) [0..<?n]"
  have l: "length full = ?n" by (simp add: full_def)
  have js: "filter (\<lambda>j. full ! j \<noteq> Missing) [0..<length full] = filter (\<lambda>j. verdict_state (V j) \<noteq> Missing) [0..<?n]"
    unfolding l by (rule filter_cong) (simp_all add: full_def)
  have found: "if j < length full then full ! j = Verified \<and> verdict_plain (V j) = plain else verdict_state (V ?n) = Verified"
    if it: "intact t P ?core rs keys codecs img j plain" for j plain
  proof -
    have j: "j \<le> ?n" using it by (simp add: intact_def n)
    then have "settles_to img (V j) (open_record P ev (record_at ?core rs j) (authorizesUnverified request role))"
      using V by (simp add: verdicts_def)
    then have "V j = Inr (True, plain)" by (rule verdict_intact [OF ev w(1) codecs it])
    then show ?thesis using j l by (cases "j = ?n") (auto simp: full_def)
  qed
  obtain budget' w1 w2 m where "analyzeRecoveryRecords P blockSize (Some codecs) (int (length img)) candidate geometry lender
      request role budget w = (Inr a, budget', w1)" "ra_ranges a = Some m"
    "answers (core_plaintextLength ?core) full m" "ra_final a = verdict_state (V ?n)"
    "emitRecoveryRecords P (Some codecs) candidate geometry lender request role a w1 = (Inr (), w2)"
    "emits w1 (map (\<lambda>j. (word_of_nat j, verdict_plain (V j))) (filter (\<lambda>j. verdict_state (V j) \<noteq> Missing) [0..<?n])) w2"
    using R unfolding recovers_as_def Let_def full_def by blast
  then show ?thesis
    using js l found by (intro exI conjI) (assumption | simp)+
qed

lemma sealed_truncated:
  assumes ok: "fec_ok t (RS16 codecs)" "fec_ok t (RS128 codecs)" "codecs_sized codecs"
    and vol: "sealed_volume P codecs keys comment metadata core p b plains img"
    and keys: "lends_volume_keys lender keys" "keys_sized keys" and valid: "request_valid recovery"
    and room: "room_for blockSize budget (rec_count (length (concat plains)))"
    and r: "serves (take k img) r" "sink_accepts (w_env r)"
  shows "\<exists>geometry a budget' w1 w2 records.
    analyzeRecoveryRecords P blockSize (Some codecs) (int (length (take k img))) p geometry lender recovery
      CapsuleRolePrimary budget r = (Inr a, budget', w1) \<and>
    emitRecoveryRecords P (Some codecs) p geometry lender recovery CapsuleRolePrimary a w1 = (Inr (), w2) \<and>
    emits w1 records w2 \<and>
    concat (map snd records) =
      take (records_within (core_featureFlags core AND payloadBodyRSFeatureMask \<noteq> 0) (length comment) (length (concat plains)) k
        * 1048576) (concat plains)"
proof -
  have enc: "fec_encodes (RS16 codecs)" "fec_encodes (RS128 codecs)"
    using ok(1,2) by (simp_all add: fec_ok_def)
  let ?rs = "core_featureFlags core AND payloadBodyRSFeatureMask \<noteq> 0" and ?n = "unat (core_plaintextLength core)" and ?img = "take k img"
  let ?m = "whole_records core ?rs k"
  obtain g where lay: "canonical_layout core ?rs g"
    by (rule sealed_volume_layout [OF vol ok(3)]) simp
  have p: "cand_core p = core" "cand_role p = CapsuleRolePrimary" using vol by (simp_all add: sealed_volume_def candidate_for_def)
  have near: "record_near t P core ?rs keys codecs i (plains ! i) (record_bytes core ?rs i img)"
    and inside: "record_start core ?rs i + rec_len ?rs ?n i \<le> length img" if "i \<le> rec_count ?n" for i
    using sealed_regions_near [OF vol undamaged undamaged_unforged [OF vol enc ok(3)] ok lay] that by blast+
  have plains: "length plains = Suc (rec_count ?n)"
    using sealed_regions_near [OF vol undamaged undamaged_unforged [OF vol enc ok(3)] ok lay] by blast
  have len: "length (plains ! j) = rec_plain ?n j" "length (concat plains) = ?n" if "j \<le> rec_count ?n" for j
    using sealed_lengths [OF _ plains, of t P ?rs keys codecs "\<lambda>i. record_bytes core ?rs i img"] near that by blast+
  have cnt: "unat (core_recordCount core) = rec_count ?n" by (rule canonical_layout_count(2) [OF lay])
  have room': "room_for blockSize budget (unat (core_recordCount core))"
    using room len(2) [of 0] unfolding cnt by simp
  have role: "isSupportedCapsuleRole CapsuleRolePrimary" by (simp add: isSupportedCapsuleRole_def)
  obtain ev V a where ev: "evaluates P core ?rs g keys codecs ev"
    and V: "verdicts ?img P ev (authorizesUnverified recovery CapsuleRolePrimary) (rec_count ?n) (record_at core ?rs) V"
    and R: "recovers_as P blockSize codecs (int (length ?img)) p g lender recovery CapsuleRolePrimary budget r V a"
    by (rule recovery_runs [of p ?rs g codecs lender keys recovery CapsuleRolePrimary blockSize budget ?img r, unfolded p(1) cnt,
        OF lay ok(3) keys valid role p(2) room' [unfolded cnt] r]) (rule that)
  have m: "?m \<le> rec_count ?n"
  proof (cases "rec_count ?n = 0")
    case True
    then show ?thesis by (simp add: whole_records_def)
  next
    case False
    then show ?thesis using whole_records(2) [of 0 core ?rs k] by simp
  qed
  have T: "j < ?m \<Longrightarrow> V j = Inr (True, plains ! j)" "\<not> j < ?m \<Longrightarrow> verdict_state (V j) = Missing" if "j < rec_count ?n" for j
    using truncated_verdicts [OF lay ev ok _ _ V r(1) that, of plains] near inside by blast+
  have js: "filter (\<lambda>j. verdict_state (V j) \<noteq> Missing) [0..<rec_count ?n] = [0..<?m]"
  proof -
    have "verdict_state (V j) \<noteq> Missing \<longleftrightarrow> j < ?m" if "j < rec_count ?n" for j
      using T [OF that] by (cases "j < ?m") auto
    then have "filter (\<lambda>j. verdict_state (V j) \<noteq> Missing) [0..<rec_count ?n] = filter (\<lambda>j. j < ?m) [0..<rec_count ?n]"
      by (intro filter_cong) simp_all
    then show ?thesis using filter_less [OF m] by simp
  qed
  obtain budget' w1 w2 where run: "analyzeRecoveryRecords P blockSize (Some codecs) (int (length ?img)) p g lender
      recovery CapsuleRolePrimary budget r = (Inr a, budget', w1)"
    "emitRecoveryRecords P (Some codecs) p g lender recovery CapsuleRolePrimary a w1 = (Inr (), w2)"
    "emits w1 (map (\<lambda>j. (word_of_nat j, verdict_plain (V j))) [0..<?m]) w2"
    using R unfolding recovers_as_def Let_def p(1) cnt js by blast
  have within: "records_within ?rs (length comment) (length (concat plains)) k = ?m"
    using vol len(2) [of 0] by (simp add: whole_records_within sealed_volume_def)
  have same: "map snd (map (\<lambda>j. (word_of_nat j :: u64, verdict_plain (V j))) [0..<?m]) = map ((!) plains) [0..<?m]"
    using T(1) m by auto
  have "concat (map snd (map (\<lambda>j. (word_of_nat j :: u64, verdict_plain (V j))) [0..<?m])) = take (?m * 1048576) (concat plains)"
    unfolding same using record_prefix [of ?m plains ?n] len(1) len(2) [of 0] m plains by simp
  then show ?thesis unfolding within using run by blast
qed

section \<open>A volume that was written\<close>

text \<open>The volume of three bytes and its layout, as the serialization leaves it.\<close>

lemma toy_image:
  obtains w' img p core g plains where
    "serializeNormalVolume toy_prims toy_request toy_material xor_codecs (toy_world [1, 2, 3]) = (Some (Inr ()), w')"
    "w_written w' = img" "length img < 2 ^ 63" "cand_core (p :: Candidate) = core" "cand_role p = CapsuleRolePrimary"
    "canonical_layout core True g" "core_plaintextLength core = 3" "plains ! 0 = [1, 2, 3]" "unat (core_recordCount core) = 1"
    "intact 1 toy_prims core True toy_keys xor_codecs img 0 (plains ! 0)"
    "record_start core True 0 + rec_len True 3 0 < length img" "unat (core_commentLength core) = 2"
proof -
  obtain w' img where T: "serializeNormalVolume toy_prims toy_request toy_material xor_codecs (toy_world [1, 2, 3]) =
      (Some (Inr ()), w')" "w_written w' = w_written (toy_world [1, 2, 3]) @ img" "w_written w' = img"
    "length img < 2 ^ 63" "holds_stream [1, 2, 3] (w_env (toy_world [1, 2, 3]))" "w_consumed (toy_world [1, 2, 3]) = 0"
    "wf_material toy_material" "mat_copyKeys toy_material (nwr_suite toy_request) = Inr toy_keys"
    "keys_sized toy_keys" "\<not> nwr_derivedRoot toy_request"
    and enc: "fec_encodes (RS16 xor_codecs)" "fec_encodes (RS64 xor_codecs)" "fec_encodes (RS128 xor_codecs)"
    by (rule toy_written)
  obtain metadata where m: "mat_credentialMetadata toy_material = Inr metadata" by (simp add: toy_material_def)
  obtain core p b plains where S:
    "sealed_volume toy_prims xor_codecs toy_keys (nwr_comment toy_request) metadata core p b plains img"
    "concat plains = [1, 2, 3]" "codecs_sized xor_codecs"
    "(core_featureFlags core AND payloadBodyRSFeatureMask \<noteq> 0) = nwr_payloadBodyRS toy_request"
    "core_plaintextLength core = nwr_plaintextLength toy_request"
    by (rule written_volume_sealed [OF enc T(7) m T(8,10,5,6,1,2)]) (rule that)
  have r: "nwr_payloadBodyRS toy_request" "nwr_plaintextLength toy_request = 3" by (simp_all add: toy_request_def)
  obtain g where lay: "canonical_layout core True g"
    by (rule sealed_volume_layout [OF S(1,3)]) (use S(4) r(1) in simp)
  have n: "unat (core_plaintextLength core) = 3" "rec_count 3 = 1" using S(5) r(2) by (simp_all add: rec_count_def)
  note near = sealed_regions_near [OF S(1) undamaged undamaged_unforged [OF S(1) enc(1,3) S(3)] xor_codecs_ok(1,3) S(3) lay,
      unfolded n]
  have 0: "record_start core True 0 + rec_len True 3 0 \<le> length img" "record_start core True 1 + rec_len True 3 1 \<le> length img"
    "record_near 1 toy_prims core True toy_keys xor_codecs 0 (plains ! 0) (record_bytes core True 0 img)"
    "length plains = 2"
    using near by (metis le_numeral_extra(3,4) zero_le_one Suc_1 One_nat_def)+
  have len: "length (plains ! 1) = 0"
  proof -
    have "record_near 1 toy_prims core True toy_keys xor_codecs 1 (plains ! 1) (record_bytes core True 1 img)"
      using near by (metis le_refl)
    then show ?thesis using n by (auto simp: record_near_def sealed_record_def Let_def rec_plain_def)
  qed
  obtain x y where xy: "plains = [x, y]" using 0(4) by (auto simp: numeral_2_eq_2 length_Suc_conv)
  have "record_start core True 1 = record_start core True 0 + rec_len True 3 0"
    by (simp add: record_start_def n)
  moreover have "0 < rec_len True 3 1" by (simp add: rec_len_def)
  ultimately have "record_start core True 0 + rec_len True 3 0 < length img" using 0(2) by linarith
  moreover have "intact 1 toy_prims core True toy_keys xor_codecs img 0 (plains ! 0)"
    using 0(1,3) by (simp add: intact_def n)
  moreover have "plains ! 0 = [1, 2, 3]" using S(2) len xy by simp
  moreover have "cand_core p = core" "cand_role p = CapsuleRolePrimary"
    using S(1) by (simp_all add: sealed_volume_def candidate_for_def)
  moreover have "unat (core_recordCount core) = 1" using canonical_layout_count(2) [OF lay] n by simp
  moreover have "unat (core_commentLength core) = 2" using S(1) by (simp add: sealed_volume_def toy_request_def)
  ultimately show thesis using T(1,3,4) lay S(5) r(2) by (intro that [of w' img p core g plains]) simp_all
qed

lemma toy_lends: "lends_volume_keys toy_lender toy_keys"
  by (simp add: lends_volume_keys_def toy_lender_def metadata_key_def volume_key_request_def)

lemma toy_keys_sized: "keys_sized toy_keys" by (simp add: keys_sized_def toy_keys_def Let_def)

text \<open>Only the record of that volume is left: everything before it is zero, everything behind it is
  gone.\<close>

lemma record_left:
  assumes "intact t P core rs keys codecs img j plain" and "s = record_start core rs j"
    and "e = s + rec_len rs (unat (core_plaintextLength core)) j"
  shows "intact t P core rs keys codecs (replicate s 0 @ drop s (take e img)) j plain"
proof -
  have "record_bytes core rs j (replicate s 0 @ drop s (take e img)) = record_bytes core rs j img"
    using assms(2,3) by (simp add: record_bytes_def slice_def drop_take)
  then show ?thesis using assms by (simp add: intact_def)
qed

lemma toy_left_recovered:
  obtains w' img p s e g where
    "serializeNormalVolume toy_prims toy_request toy_material xor_codecs (toy_world [1, 2, 3]) = (Some (Inr ()), w')"
    "img = replicate s 0 @ drop s (take e (w_written w'))" "e < length (w_written w')" "length img < 2 ^ 63"
    "canonical_layout (cand_core p) True g" "cand_role (p :: Candidate) = CapsuleRolePrimary"
    "unat (core_recordCount (cand_core p)) = 1" "intact 1 toy_prims (cand_core p) True toy_keys xor_codecs img 0 [1, 2, 3]"
proof -
  obtain w' img p core g plains where T:
    "serializeNormalVolume toy_prims toy_request toy_material xor_codecs (toy_world [1, 2, 3]) = (Some (Inr ()), w')"
    "w_written w' = img" "length img < 2 ^ 63" "cand_core (p :: Candidate) = core" "cand_role p = CapsuleRolePrimary"
    "canonical_layout core True g" "core_plaintextLength core = 3" "plains ! 0 = [1, 2, 3]"
    "unat (core_recordCount core) = 1" "intact 1 toy_prims core True toy_keys xor_codecs img 0 (plains ! 0)"
    "record_start core True 0 + rec_len True 3 0 < length img" "unat (core_commentLength core) = 2"
    by (rule toy_image)
  define s e where "s = record_start core True 0" and "e = s + rec_len True 3 0"
  let ?left = "replicate s 0 @ drop s (take e img)"
  have e: "e < length img" "s \<le> e" using T(11) by (simp_all add: s_def e_def)
  then have "length ?left < 2 ^ 63" using T(3) by simp
  moreover have "intact 1 toy_prims core True toy_keys xor_codecs ?left 0 [1, 2, 3]"
    by (rule record_left) (use T(7,8,10) in \<open>simp_all add: s_def e_def\<close>)
  ultimately show thesis using T(1,2,4,5,6,9) e(1) by (intro that [of w' ?left s e p g]) simp_all
qed

lemma xor_codecs_sized: "codecs_sized xor_codecs"
  by (simp add: codecs_sized_def xor_codecs_def xor_fec_def)

lemma example_room: "n \<le> 1 \<Longrightarrow> room_for 48 (NewBudget DefaultBudgetBytes) n"
  by (rule default_budget_room) simp_all

lemma primary_supported: "isSupportedCapsuleRole CapsuleRolePrimary"
  by (simp add: isSupportedCapsuleRole_def)

text \<open>The witness that the output of a recovery is what was checked: the analysis of what is left has the one
  record verified, and the emission hands it out.\<close>

theorem forced_output_matches_map_witness:
  "\<exists>p geometry img a budget' w1 w2 ev recs.
     analyzeRecoveryRecords toy_prims 48 (Some xor_codecs) (int (length img)) p geometry toy_lender example_request
       CapsuleRolePrimary (NewBudget DefaultBudgetBytes) (toy_reader img) = (Inr a, budget', w1) \<and>
     emitRecoveryRecords toy_prims (Some xor_codecs) p geometry toy_lender example_request CapsuleRolePrimary a w1 =
       (Inr (), w2) \<and>
     analyzed toy_prims ev (authorizesUnverified example_request CapsuleRolePrimary) [Verified] w1 \<and> emits w1 recs w2"
proof -
  obtain w' img p s e g where T: "length img < 2 ^ 63"
    "canonical_layout (cand_core p) True g" "cand_role (p :: Candidate) = CapsuleRolePrimary"
    "unat (core_recordCount (cand_core p)) = 1" "intact 1 toy_prims (cand_core p) True toy_keys xor_codecs img 0 [1, 2, 3]"
    by (rule toy_left_recovered)
  obtain a budget' w1 w2 m full plains' where R:
    "analyzeRecoveryRecords toy_prims 48 (Some xor_codecs) (int (length img)) p g toy_lender example_request
       CapsuleRolePrimary (NewBudget DefaultBudgetBytes) (toy_reader img) = (Inr a, budget', w1)"
    "ra_ranges a = Some m" "answers (core_plaintextLength (cand_core p)) full m" "length full = 1" "full ! 0 = Verified"
    "emitRecoveryRecords toy_prims (Some xor_codecs) p g toy_lender example_request CapsuleRolePrimary a w1 = (Inr (), w2)"
    using intact_records_found [OF T(2) xor_codecs_ok(1,3) xor_codecs_sized toy_lends toy_keys_sized example_analyses_ok(1)
        primary_supported T(3) example_room toy_serves [OF T(1)] toy_sink, of toy_prims] T(4,5) by auto
  obtain ev full' recs where F: "length full' = 1" "answers (core_plaintextLength (cand_core p)) full' m"
    "analyzed toy_prims ev (authorizesUnverified example_request CapsuleRolePrimary) full' w1" "emits w1 recs w2"
    using forced_output_matches_map [OF R(1,6)] R(2) T(4) by auto
  have at0: "map_StateAt (Some m) 0 = Recorded (xs ! 0)"
    if "answers (core_plaintextLength (cand_core p)) xs m" "length xs = 1" for xs
    using that by (simp add: answers_def)
  have "full' ! 0 = Verified" using at0 [OF R(3,4)] at0 [OF F(2,1)] R(5) by simp
  then have "full' = [Verified]" using F(1) by (cases full') auto
  then show ?thesis using R(1,6) F(3,4) by blast
qed

section \<open>Properties\<close>



text \<open>C7: a volume that was cut off is recovered up to the cut. Take any written volume, keep its first
  \<open>k\<close> bytes, and recover with the keys of the volume under the primary capsule and a budget with room
  for its records: both passes succeed, and what the sink was given, put together, is the plaintext of
  the records that lie within the first \<open>k\<close> bytes: the plaintext up to the last whole record. Nothing
  else is given to the sink, whatever the mode of the recovery.\<close>

theorem truncated_volume_recovered:
  assumes "fec_ok t (RS16 codecs)" and "fec_ok t (RS64 codecs)" and "fec_ok t (RS128 codecs)"
    and "wf_material material" and "mat_credentialMetadata material = Inr metadata"
    and "mat_copyKeys material (nwr_suite request) = Inr keys" and "keys_sized keys"
    and "\<not> nwr_derivedRoot request" and "holds_stream data (w_env w)" and "w_consumed w = 0"
    and "serializeNormalVolume P request material codecs w = (Some (Inr ()), w')"
    and "w_written w' = w_written w @ img"
    and "lends_volume_keys lender keys" and "request_valid recovery"
    and "room_for blockSize budget (rec_count (length data))"
    and "serves (take k img) r" and "sink_accepts (w_env r)"
  shows "\<exists>core p b plains geometry a budget' w1 w2 records.
    sealed_volume P codecs keys (nwr_comment request) metadata core p b plains img \<and>
    analyzeRecoveryRecords P blockSize (Some codecs) (int (length (take k img))) p geometry lender recovery
      CapsuleRolePrimary budget r = (Inr a, budget', w1) \<and>
    emitRecoveryRecords P (Some codecs) p geometry lender recovery CapsuleRolePrimary a w1 = (Inr (), w2) \<and>
    emits w1 records w2 \<and>
    concat (map snd records) =
      take (records_within (nwr_payloadBodyRS request) (length (nwr_comment request)) (length data) k * 1048576) data"
proof -
  have enc: "fec_encodes (RS16 codecs)" "fec_encodes (RS64 codecs)" "fec_encodes (RS128 codecs)"
    using assms(1-3) by (simp_all add: fec_ok_def)
  obtain core p b plains where S: "sealed_volume P codecs keys (nwr_comment request) metadata core p b plains img"
    "concat plains = data" "codecs_sized codecs"
    "(core_featureFlags core AND payloadBodyRSFeatureMask \<noteq> 0) = nwr_payloadBodyRS request"
    by (rule written_volume_sealed [OF enc assms(4-6,8-12)]) (rule that)
  show ?thesis
    using sealed_truncated [OF assms(1,3) S(3,1) assms(13,7,14) _ assms(16,17), unfolded S(2,4), OF assms(15)] S(1) by blast
qed

theorem truncated_volume_recovered_witness:
  "\<exists>w' img p geometry a budget' w1 w2 records.
     serializeNormalVolume toy_prims toy_request toy_material xor_codecs (toy_world [1, 2, 3]) = (Some (Inr ()), w') \<and>
     img = take (length (w_written w') - 1) (w_written w') \<and>
     analyzeRecoveryRecords toy_prims 48 (Some xor_codecs) (int (length img)) p geometry toy_lender example_request
       CapsuleRolePrimary (NewBudget DefaultBudgetBytes) (toy_reader img) = (Inr a, budget', w1) \<and>
     emitRecoveryRecords toy_prims (Some xor_codecs) p geometry toy_lender example_request CapsuleRolePrimary a w1 =
       (Inr (), w2) \<and>
     emits w1 records w2 \<and> concat (map snd records) = [1, 2, 3]"
proof -
  obtain w' img p core g plains where T:
    "serializeNormalVolume toy_prims toy_request toy_material xor_codecs (toy_world [1, 2, 3]) = (Some (Inr ()), w')"
    "w_written w' = img" "length img < 2 ^ 63" "cand_core (p :: Candidate) = core" "cand_role p = CapsuleRolePrimary"
    "canonical_layout core True g" "core_plaintextLength core = 3" "plains ! 0 = [1, 2, 3]"
    "unat (core_recordCount core) = 1" "intact 1 toy_prims core True toy_keys xor_codecs img 0 (plains ! 0)"
    "record_start core True 0 + rec_len True 3 0 < length img" "unat (core_commentLength core) = 2"
    by (rule toy_image)
  obtain w'' img' where W: "serializeNormalVolume toy_prims toy_request toy_material xor_codecs (toy_world [1, 2, 3]) =
      (Some (Inr ()), w'')" "w_written w'' = w_written (toy_world [1, 2, 3]) @ img'" "w_written w'' = img'"
    "length img' < 2 ^ 63" "holds_stream [1, 2, 3] (w_env (toy_world [1, 2, 3]))" "w_consumed (toy_world [1, 2, 3]) = 0"
    "wf_material toy_material" "mat_copyKeys toy_material (nwr_suite toy_request) = Inr toy_keys"
    "keys_sized toy_keys" "\<not> nwr_derivedRoot toy_request"
    by (rule toy_written)
  have same: "img' = img" using T(1,2) W(1,3) by simp
  obtain metadata where m: "mat_credentialMetadata toy_material = Inr metadata" by (simp add: toy_material_def)
  let ?k = "length img - 1"
  have cut: "length (take ?k img) < 2 ^ 63" using T(3) by simp
  have room: "room_for 48 (NewBudget DefaultBudgetBytes) (rec_count (length [1, 2, 3 :: byte]))"
    by (rule default_budget_room) (simp_all add: rec_count_def)
  have "records_within True 2 3 ?k = 1"
    using T(7,11,12) by (simp add: records_within_def record_start_def rec_count_def)
  then have within: "records_within (nwr_payloadBodyRS toy_request) (length (nwr_comment toy_request)) (length [1, 2, 3 :: byte]) ?k = 1"
    by (simp add: toy_request_def numeral_2_eq_2 numeral_3_eq_3)
  show ?thesis
    using truncated_volume_recovered [OF xor_codecs_ok(1-3) W(7) m W(8-10,5,6,1) W(2) [unfolded same] toy_lends example_analyses_ok(1) room
        toy_serves [OF cut] toy_sink] T(1,2)
    unfolding within by simp blast
qed

end
