(* ===== verification/Spec2Isabelle.thy ===== *)
theory Spec2Isabelle
  imports Prelude Checked_Arith Pcv3_Result Format Geometry Rs_Coding Stream_Cipher Key_Schedule
    Capsule_Codec World Source_Reader Coded_Region Capsule_Auth Metadata Record_Layout Records
    Normal_Reader Normal_Writer Write_Image Write_Volume Write_Success Read_Records Damaged_Volume
    Round_Trip Recovery_Map Recovery_Build Recovery_Answers Recovery_Budget
    Legacy_Header Legacy_Round_Trip Legacy_Crypto Keyfiles Legacy_Volume Legacy_Payload Legacy_Blocks
    Legacy_Volume_Round_Trip Legacy_Safety Legacy_Success Deniability_Round_Trip Transcript Owner Credential_Round_Trip Force_Image
begin

text \<open>
  Picocrypt NG: the encrypted volume formats.

  Picocrypt NG encrypts a file, or an archive of files, under a password and keyfiles. The third
  format of its volumes (PCV3, \<open>src/src/internal/pcv3operation/internal\<close>) is a sequence of
  Reed-Solomon coded regions: a preamble of 16 bytes, a primary capsule that wraps the volume
  key, a coded comment with its tag, the payload as records of up to one mebibyte, each encrypted
  and tagged under its own nonce, a final record without plaintext, a backup capsule and a
  trailer. This development models the code that writes and reads such volumes, from the checked
  arithmetic up to the two sessions, and proves that they fit each other.

  How the parts interact. The writer (\<open>pcv3/normal_writer.go\<close>) plans the layout of a request,
  draws entropy, wraps the volume key in two capsules and streams the plaintext into records. The
  reader probes the source (\<open>reader.go\<close>), keeps the capsules that are structurally valid, lets
  the credential provider authenticate them (\<open>auth.go\<close>), reads and authenticates the comment
  (\<open>metadata.go\<close>) and every record (\<open>records.go\<close>), hands each verified plaintext to a staging
  sink, and completes only if the file is unchanged at its end (\<open>normal_reader.go\<close>). Layout
  (\<open>geometry.go\<close>, \<open>write_size.go\<close>), capsule codec (\<open>capsule.go\<close>), keys
  (\<open>pcv3credential/keys.go\<close>), stream transforms (\<open>pcv3crypto/stream.go\<close>) and Reed-Solomon coding
  (\<open>encoding\<close>) are shared by both.

  Conventions. Machine integers are words of their width; Go's signed offsets are \<open>int\<close>. Fixed
  arrays are byte lists, with predicates \<open>wf_core\<close>, \<open>wf_candidate\<close>, \<open>keys_sized\<close>, \<open>codecs_sized\<close> for
  their lengths. An error is the left side of a sum (\<open>pcv3_error\<close>), with the outcome and stage of
  the code. The effects (reading a source, writing a destination, drawing entropy, asking the
  context) are one \<open>world\<close>: an environment whose answers are arbitrary functions of a clock, and
  the record of what was read, emitted, consumed and written. A theorem about every world is
  therefore about every behaviour of the disk, the sink and the context.

  Parameters. Not under \<open>src/\<close>, and so arguments of the definitions: the ciphers and hashes
  (\<open>prims\<close>: XChaCha20 as a key stream, the Serpent block permutation, keyed BLAKE2b, HMAC-SHA3-512,
  SHA3-256), HKDF, Argon2id, and the forward error correction of the module \<open>infectious\<close> (\<open>FEC\<close>). What
  the code relies on is a named hypothesis: \<open>fec_encodes\<close>, \<open>fec_corrects t\<close> (Berlekamp-Welch
  repairs up to \<open>t\<close> wrong bytes of a codeword), \<open>ciphers_ok\<close> and \<open>macs_ok\<close> (keys of the documented
  sizes are accepted). No cryptographic assumption is made: where security would need one, the
  theorem names the forgery instead. The witnesses instantiate all of them with small functions
  (\<open>xor_codecs\<close>, codecs that repair one byte, and \<open>toy_prims\<close>).

  Theories.
  \<^item> \<open>Prelude\<close>: bytes and big-endian words, slices, the error and state combinators, and the
    locale \<open>byte_codec\<close>, the contract of a fixed-size encoding and its decoding; interpreted for
    cores and capsules in \<open>Capsule_Codec\<close>.
  \<^item> \<open>Checked_Arith\<close> (\<open>pcv3/arithmetic.go\<close>, \<open>util/safecast.go\<close>): checked operations, the locale
    \<open>checked_op\<close> and its three interpretations.
  \<^item> \<open>Pcv3_Result\<close> (\<open>pcv3result/types.go\<close>, \<open>pcv3/types.go\<close>): outcomes, stages, the legal pairs,
    error values.
  \<^item> \<open>Format\<close>, \<open>Geometry\<close>, \<open>Capsule_Codec\<close>, \<open>Record_Layout\<close> (\<open>route.go\<close>, \<open>preamble.go\<close>,
    \<open>capsule.go\<close>, \<open>geometry.go\<close>, \<open>write_size.go\<close>, the expectations of \<open>records.go\<close>): what is where.
    The geometry is the closed layout \<open>layout_of\<close> exactly when nothing overflows; records tile the
    payload; no two records share a nonce or a key stream block.
  \<^item> \<open>Rs_Coding\<close>, \<open>Coded_Region\<close> (\<open>encoding/rs.go\<close>, \<open>rs_decoder.go\<close>, \<open>padding.go\<close>): coding, the
    fast path and the correction, and regions of codewords with few wrong bytes. \<open>Sample_Codec\<close>: a
    codec that repairs one wrong byte, for the witnesses.
  \<^item> \<open>Stream_Cipher\<close> (\<open>pcv3crypto/stream.go\<close>): both suites, the locale \<open>stream_pair\<close> and its
    interpretations.
  \<^item> \<open>Key_Schedule\<close> (\<open>pcv3credential/keys.go\<close>): the registry, the staged and one-shot derivations.
  \<^item> \<open>World\<close>, \<open>Source_Reader\<close> (\<open>reader.go\<close>): exact reads, \<open>Probe\<close> and \<open>Inspect\<close>.
  \<^item> \<open>Capsule_Auth\<close> (\<open>auth.go\<close>, \<open>crypto/mac.go\<close>): tuple, tags, unwrapping, the rule for two
    replicas, the result.
  \<^item> \<open>Metadata\<close>, \<open>Records\<close>, \<open>Normal_Reader\<close> (\<open>metadata.go\<close>, \<open>records.go\<close>, \<open>normal_reader.go\<close>,
    \<open>normal_types.go\<close>): the reading session. \<open>proved_record\<close>, \<open>released\<close>, \<open>volume_verified\<close> say
    what a released record and a completion rest on, in terms of the log of reads.
  \<^item> \<open>Normal_Writer\<close> (\<open>normal_writer.go\<close>): the serialization. \<open>Write_Image\<close> and \<open>Write_Volume\<close>
    specify the bytes (\<open>record_image\<close>, \<open>volume_image\<close>) and show that a success has written them in
    every environment; \<open>Write_Success\<close> that success does happen for honest streams.
  \<^item> \<open>Read_Records\<close>, \<open>Damaged_Volume\<close>, \<open>Round_Trip\<close>: reading what was written, intact or with
    at most \<open>t\<close> wrong bytes in each codeword.
  \<^item> \<open>Recovery_Map\<close> (\<open>pcv3ranges/map.go\<close>): the compact map of recovered records, its builder and
    budget. \<open>Recovery_Build\<close> and \<open>Recovery_Answers\<close> show that a sealed map answers as the plain list
    of states, \<open>Recovery_Budget\<close> that the budget is charged with the memory in use.
  \<^item> \<open>Credential_World\<close>, \<open>Factors\<close>, \<open>Transcript\<close>, \<open>Credential_Kdf\<close> (\<open>pcv3credential/factors.go\<close>,
    \<open>transcript.go\<close>, \<open>kdf.go\<close>, \<open>pcv3unicode/normalize.go\<close>): from a request with keyfile readers to
    the root of a credential, over a world of its own (the state of the readers, the entropy, the
    events of the derivation). A request is emptied and its readers closed once on every path, a
    transcript identifies the credential, a derivation runs under the lease and after a grant.
  \<^item> \<open>Owner\<close>, \<open>Credential_Pipeline\<close>, \<open>Reader_Credential\<close> (\<open>owner.go\<close>, \<open>pipeline.go\<close>, \<open>reader.go\<close>): the
    owner of the derived keys with its loans, also as a system of interleaved callers and a closer
    (\<open>owner_step\<close>), the creation of an owner, and the reader credential that derives in two steps
    and adopts a volume key. \<open>Credential_Round_Trip\<close>: the same factors give back the same owner,
    and creation succeeds when nothing interferes.
  \<^item> \<open>Legacy_Header\<close> (\<open>header\<close>): the header of the first two formats, and in \<open>Legacy_Round_Trip\<close> that
    it survives damage and that its MAC binds the fields before the authentication values.
  \<^item> \<open>Legacy_Crypto\<close> (\<open>crypto/kdf.go\<close>, \<open>cipher.go\<close>, \<open>rekey.go\<close>) and \<open>Keyfiles\<close> (\<open>keyfile/processor.go\<close>):
    subkeys, the cipher suite with its rekeying, the keyfile key.
  \<^item> \<open>Legacy_Volume\<close> (\<open>volume/encrypt.go\<close>, \<open>decrypt.go\<close>, \<open>password/normalize.go\<close>): the phases of both
    directions over one operation context, with the two retries that repair damage.
    \<open>Legacy_Payload\<close> and \<open>Legacy_Blocks\<close> turn the loops into functions of blocks;
    \<open>Legacy_Volume_Round_Trip\<close>: a damaged volume decrypts to its plaintext; \<open>Legacy_Safety\<close>: unmarked
    output is authentic, forced or not; \<open>Legacy_Success\<close>: encryption completes as long as the 8160
    bytes of the HKDF stream last, and a small instance of all hypotheses (\<open>toy_libs\<close>).
  \<^item> \<open>Deniability\<close>, \<open>Deniability_Round_Trip\<close> (\<open>volume/deniability.go\<close>): wrapping a volume under a second
    key, unwrapping it, and the guess whether a file is wrapped. A file system that answers as it
    likes is the record \<open>deniability_files\<close>, a staged file the bytes written to it.
  \<^item> \<open>Recovery_Types\<close>, \<open>Force_Resolution\<close>, \<open>Force_Records\<close> (\<open>pcv3/recovery_types.go\<close>, \<open>force.go\<close>): recovering
    a damaged volume. What a request may see, which result may be reported; the two passes over the
    records of a candidate, the first into a recovery map, the second into a sink; the choice between
    the capsules, which neither mixes volumes nor shows unverified bytes without consent,
    and prefers verified ones.
  \<^item> \<open>Recovery_Room\<close>, \<open>Force_Image\<close>: when a budget has room for a recovery map, and what the two passes
    recover from a file that holds still: every record that is left, whatever happened to the rest,
    and of a volume that was cut off its whole records.

  Bounds and fuel. The endless loops over records take fuel: \<open>record_loop\<close> and
  \<open>write_record_loop\<close> are called with the record count plus two, and one round per record and one
  for the final record are proved to be enough, with every further unit of fuel changing nothing.
  The default budget of 8 MiB has room for the map of 30 TiB when a block takes at most 48 bytes
  (\<open>default_budget_room\<close>). An exact read of \<open>n\<close> bytes polls at most \<open>n + 2\<close> times, as every read without progress is
  counted by the code; the streams of the writer and the loops of the legacy formats recurse on the
  bytes that remain.

  Not modelled. Zeroing of memory, closing of handles and the recovery of panics have no
  functional content here. The Unicode 18 tables (\<open>pcv3unicode/assigned18.go\<close>, \<open>norm18\<close>) are data
  generated from the standard: assignment and normalization are arguments. Of \<open>pcv3credential\<close> the
  recovery credential and the credentials of the deniable container are left out. The
  operating-system adapters, staging directories and publication, the user interfaces, the
  command line and the mobile bindings are input and output. The deniable container is modelled
  in its outer geometry only. Of the recovery of damaged volumes the session (\<open>force_engine.go\<close>) and the
  inspection of damaged structure (\<open>recovery_reader.go\<close>) are left out. Of the legacy operations the
  selection and compression of inputs, splitting and recombining, the preparation of inputs, staging,
  publication and automatic unzipping are left out.
\<close>

end
